(* ===== verification/Prelude.thy ===== *)
theory Prelude
  imports Main "HOL-Library.Word"
begin

text \<open>
  Shared vocabulary of the development: the fixed-width integer types of
  \<^verbatim>\<open>stdint.h\<close>, the page arithmetic that the physical and the virtual memory
  manager have in common, and the generic facts on words, lists and functions that the
  component theories use through the collections declared here.
\<close>

unbundle bit_operations_syntax

type_synonym u8 = "8 word"
type_synonym u16 = "16 word"
type_synonym u32 = "32 word"
type_synonym u64 = "64 word"

named_theorems page_simps \<open>alignment and page index arithmetic\<close>
named_theorems frame_simps \<open>fields that an operation does not write\<close>

section \<open>Page arithmetic\<close>

text \<open>\<^verbatim>\<open>PAGE_SIZE\<close> and the masks of \<^verbatim>\<open>pmm.c\<close> and \<^verbatim>\<open>vmm.c\<close>.\<close>

abbreviation (input) PAGE_SIZE :: u64 where "PAGE_SIZE \<equiv> 0x1000"

abbreviation (input) PAGE_MASK :: u64 where "PAGE_MASK \<equiv> NOT 0xFFF"

definition page_aligned :: "u64 \<Rightarrow> bool" where
  "page_aligned x \<longleftrightarrow> x AND 0xFFF = 0"

lemma mask_12: "(0xFFF :: u64) = mask 12"
  by (simp add: mask_eq_exp_minus_1)

lemma and_4095: "unat ((x :: u64) AND 0xFFF) = unat x mod 4096"
  by (simp add: mask_12 flip: take_bit_eq_mask)
    (simp add: take_bit_eq_mod unat_mod)

lemma page_aligned_iff_dvd: "page_aligned x \<longleftrightarrow> 4096 dvd unat x"
  by (simp add: page_aligned_def dvd_eq_mod_eq_0 flip: and_4095 unat_eq_zero)

lemma page_split: "(x :: u64) = (x AND NOT 0xFFF) + (x AND 0xFFF)"
proof -
  have "(x AND NOT 0xFFF) + (x AND 0xFFF) = (x AND NOT 0xFFF) OR (x AND 0xFFF)"
    by (rule disjunctive_add) (auto simp: bit_simps)
  also have "\<dots> = x"
    by (rule bit_word_eqI) (auto simp: bit_simps)
  finally show ?thesis by simp
qed

lemma unat_and_not_4095: "unat ((x :: u64) AND NOT 0xFFF) = unat x - unat x mod 4096"
proof -
  have "(x AND NOT 0xFFF) \<le> (x AND NOT 0xFFF) + (x AND 0xFFF)"
    by (metis page_split word_and_le2)
  then have "unat ((x AND NOT 0xFFF) + (x AND 0xFFF)) = unat (x AND NOT 0xFFF) + unat (x AND 0xFFF)"
    by (simp only: unat_plus_simple)
  then show ?thesis
    using page_split [of x] and_4095 [of x] by simp
qed

lemma page_aligned_and_not: "page_aligned (x AND NOT 0xFFF)"
  by (simp add: page_aligned_def ac_simps)

lemma page_aligned_id: "page_aligned x \<Longrightarrow> x AND NOT 0xFFF = x"
  using page_split [of x] by (simp add: page_aligned_def)

lemma page_aligned_0 [simp]: "page_aligned 0"
  by (simp add: page_aligned_def)

lemma and_not_4095_idem: "(x AND NOT 0xFFF) AND NOT 0xFFF = ((x :: u64) AND NOT 0xFFF)"
  by (simp add: page_aligned_id)

lemma not_4095 [simp]: "NOT 0xFFF = (- 0x1000 :: u64)"
  by simp

lemmas page_mask_simps [simp] =
  page_aligned_and_not [unfolded not_4095] and_not_4095_idem [unfolded not_4095]

lemma page_next_no_wrap:
  assumes "page_aligned p" "page_aligned e" "p < e"
  shows "unat (p + 0x1000) = unat p + 4096" "unat p + 4096 \<le> unat e" "page_aligned (p + 0x1000)"
    "p + 0x1000 \<le> e" "p < p + 0x1000"
proof -
  obtain a b where a: "unat p = 4096 * a" and b: "unat e = 4096 * b"
    using assms(1,2) by (auto simp: page_aligned_iff_dvd elim!: dvdE)
  have "unat p < unat e" using assms(3) by (simp add: word_less_nat_alt)
  then have "a < b" by (simp add: a b)
  then show le: "unat p + 4096 \<le> unat e" by (simp add: a b)
  have lt: "unat e < 2 ^ 64" using unsigned_less [of e] by simp
  show u: "unat (p + 0x1000) = unat p + 4096"
    using le lt by (subst unat_word_ariths) simp
  show "page_aligned (p + 0x1000)"
    by (simp add: page_aligned_iff_dvd u a)
  show "p + 0x1000 \<le> e" "p < p + 0x1000"
    using le u by (simp_all add: word_le_nat_alt word_less_nat_alt)
qed

lemma unat_lt_64: "unat (x :: u64) < 18446744073709551616"
  by (rule order_less_le_trans [OF unsigned_less]) simp

text \<open>The measure of the address loops: the distance to the top of the address space.\<close>

lemma page_step_measure:
  assumes "\<not> p + 0x1000 < (p :: u64)"
  shows "18446744073709551616 - unat (p + 0x1000) < 18446744073709551616 - unat p"
proof -
  have u: "unat (p + 0x1000) = unat p + 4096"
    using assms unat_plus_simple [of p "0x1000"] by (simp add: not_less)
  then show ?thesis using unat_lt_64 [of "p + 0x1000"] by simp
qed

text \<open>Two aligned addresses are equal, or a whole page apart.\<close>

lemma page_aligned_step:
  assumes "page_aligned p" "page_aligned q" "p \<le> q" "q \<noteq> p" "page_aligned e" "p < e"
  shows "p + 0x1000 \<le> q"
proof -
  obtain a b where a: "unat p = 4096 * a" and b: "unat q = 4096 * b"
    using assms(1,2) by (auto simp: page_aligned_iff_dvd elim!: dvdE)
  have "unat p < unat q"
    using assms(3,4) by (metis le_neq_implies_less word_unat_eq_iff word_le_nat_alt)
  then have "a < b" by (simp add: a b)
  then have "unat p + 4096 \<le> unat q" by (simp add: a b)
  then show ?thesis
    using page_next_no_wrap(1) [OF assms(1,5,6)] by (simp add: word_le_nat_alt)
qed

lemma page_aligned_eq_iff_div:
  "page_aligned p \<Longrightarrow> page_aligned q \<Longrightarrow> p div 0x1000 = q div 0x1000 \<longleftrightarrow> p = q"
  by (auto simp: page_aligned_iff_dvd word_unat_eq_iff unat_div elim!: dvdE)

text \<open>The results of a sequence of calls, and the state after it.\<close>

fun run_calls :: "('s \<Rightarrow> 'c \<Rightarrow> 'r \<times> 's) \<Rightarrow> 's \<Rightarrow> 'c list \<Rightarrow> 'r list \<times> 's" where
  "run_calls f s [] = ([], s)"
| "run_calls f s (x # xs) = (let (r, s) = f s x; (rs, s) = run_calls f s xs in (r # rs, s))"

end
