(* ===== verification/Pmm.thy ===== *)
theory Pmm
  imports Prelude
begin

text \<open>
  The physical memory manager, \<^verbatim>\<open>src/src/kernel/pmm.c\<close>. The file-scope variables
  of the C file are the fields of the record \<open>pmm\<close>; the fixed-size arrays
  \<^verbatim>\<open>page_state\<close>, \<^verbatim>\<open>reserved_state\<close>, \<^verbatim>\<open>page_refs\<close> and
  \<^verbatim>\<open>seen_page_tables\<close> are functions of the array index (that every index the code
  computes is inside the array is a theorem), \<^verbatim>\<open>regions[0..region_count)\<close> and
  \<^verbatim>\<open>reserved_pages[0..reserved_count)\<close> are lists. Physical memory is read through
  the higher-half direct map: the content of a page table is a function of the physical
  address of its frame and of the index of the 64-bit entry in it.
\<close>

section \<open>State\<close>

abbreviation (input) MAX_REGIONS :: nat where "MAX_REGIONS \<equiv> 64"
abbreviation (input) MAX_RESERVED_PAGES :: nat where "MAX_RESERVED_PAGES \<equiv> 65536"
abbreviation (input) MAX_PAGE_TABLES :: nat where "MAX_PAGE_TABLES \<equiv> 65536"
abbreviation (input) PAGE_TABLE_HASH_SIZE :: nat where "PAGE_TABLE_HASH_SIZE \<equiv> 131072"
abbreviation (input) LIMINE_MEMMAP_USABLE :: u64 where "LIMINE_MEMMAP_USABLE \<equiv> 0"
abbreviation (input) PMM_MIN_PHYS :: u64 where "PMM_MIN_PHYS \<equiv> 0x01000000"
abbreviation (input) PTE_P :: u64 where "PTE_P \<equiv> 0x001"
abbreviation (input) PTE_W :: u64 where "PTE_W \<equiv> 0x002"
abbreviation (input) PTE_PS :: u64 where "PTE_PS \<equiv> 0x080"
abbreviation (input) PTE_ADDR_MASK :: u64 where "PTE_ADDR_MASK \<equiv> 0x000FFFFFFFFFF000"
abbreviation (input) PMM_TRACK_LIMIT :: u64 where "PMM_TRACK_LIMIT \<equiv> 0x100000000"
abbreviation (input) PMM_TRACK_PAGES :: u64 where "PMM_TRACK_PAGES \<equiv> 0x100000"
abbreviation (input) PMM_TRACK_WORDS :: u64 where "PMM_TRACK_WORDS \<equiv> 0x4000"
abbreviation (input) UINT64_MAX :: u64 where "UINT64_MAX \<equiv> 0xFFFFFFFFFFFFFFFF"
abbreviation (input) UINT16_MAX :: u16 where "UINT16_MAX \<equiv> 0xFFFF"

type_synonym phys_mem = "u64 \<Rightarrow> nat \<Rightarrow> u64"

record limine_memmap_entry =
  me_base :: u64
  me_length :: u64
  me_type :: u64

record pmm_region =
  rg_base :: u64
  rg_end :: u64
  rg_next :: u64
  rg_free_head :: u64

record pmm =
  regions :: "pmm_region list"
  reserved_pages :: "u64 list"
  seen_page_tables :: "u64 \<Rightarrow> u64"
  seen_page_table_count :: nat
  g_hhdm :: u64
  g_free_pages :: u64
  g_kernel_base :: u64
  g_kernel_end :: u64
  g_total_pages :: u64
  page_state :: "u64 \<Rightarrow> u64"
  reserved_state :: "u64 \<Rightarrow> u64"
  page_refs :: "u64 \<Rightarrow> u16"
  g_ready :: bool

section \<open>Bitmaps\<close>

definition align_up :: "u64 \<Rightarrow> u64" where
  "align_up x = (x + PAGE_SIZE - 1) AND NOT (PAGE_SIZE - 1)"

definition align_down :: "u64 \<Rightarrow> u64" where
  "align_down x = x AND NOT (PAGE_SIZE - 1)"

definition page_of :: "u64 \<Rightarrow> u64" where
  "page_of x = x AND NOT (PAGE_SIZE - 1)"

definition tracked :: "u64 \<Rightarrow> bool" where
  "tracked phys \<longleftrightarrow> phys < PMM_TRACK_LIMIT"

definition page_is_allocated :: "pmm \<Rightarrow> u64 \<Rightarrow> bool" where
  "page_is_allocated s phys =
     (if \<not> tracked phys then True
      else let n = phys div PAGE_SIZE in
        drop_bit (unat (n AND 63)) (page_state s (drop_bit 6 n)) AND 1 \<noteq> 0)"

definition page_set_allocated :: "pmm \<Rightarrow> u64 \<Rightarrow> bool \<Rightarrow> pmm" where
  "page_set_allocated s phys allocated =
     (if \<not> tracked phys then s
      else let n = phys div PAGE_SIZE; m = push_bit (unat (n AND 63)) 1; i = drop_bit 6 n in
        if allocated then s\<lparr>page_state := (page_state s)(i := page_state s i OR m)\<rparr>
        else s\<lparr>page_state := (page_state s)(i := page_state s i AND NOT m)\<rparr>)"

definition page_is_reserved_fast :: "pmm \<Rightarrow> u64 \<Rightarrow> bool" where
  "page_is_reserved_fast s phys =
     (if \<not> tracked phys then False
      else let n = phys div PAGE_SIZE in
        drop_bit (unat (n AND 63)) (reserved_state s (drop_bit 6 n)) AND 1 \<noteq> 0)"

definition page_set_reserved :: "pmm \<Rightarrow> u64 \<Rightarrow> pmm" where
  "page_set_reserved s phys =
     (if \<not> tracked phys then s
      else let n = phys div PAGE_SIZE; i = drop_bit 6 n in
        s\<lparr>reserved_state := (reserved_state s)(i := reserved_state s i OR push_bit (unat (n AND 63)) 1)\<rparr>)"

definition phys_in_usable_region :: "pmm \<Rightarrow> u64 \<Rightarrow> bool" where
  "phys_in_usable_region s phys = list_ex (\<lambda>r. phys \<ge> rg_base r \<and> phys < rg_end r) (regions s)"

section \<open>Reservation\<close>

definition reserve_page :: "pmm \<Rightarrow> u64 \<Rightarrow> bool \<times> pmm" where
  "reserve_page s phys0 =
     (let phys = page_of phys0 in
      if phys = 0 \<or> phys \<ge> 0x10000000000000 then (False, s)
      else if page_is_reserved_fast s phys then (False, s)
      else if length (reserved_pages s) \<ge> MAX_RESERVED_PAGES then (False, s)
      else
        let s = s\<lparr>reserved_pages := reserved_pages s @ [phys]\<rparr>;
            s = page_set_reserved s phys in
        if g_ready s \<and> phys_in_usable_region s phys \<and> \<not> page_is_allocated s phys then
          let s = page_set_allocated s phys True in
          (True, if g_free_pages s \<noteq> 0 then s\<lparr>g_free_pages := g_free_pages s - 1\<rparr> else s)
        else (True, s))"

text \<open>
  The address loops \<^verbatim>\<open>for (p = start; p < end; p += PAGE_SIZE)\<close> are recursions on
  \<open>p\<close>. \<open>pmm_reserve_range\<close> has the overflow check in the source
  (\<^verbatim>\<open>if (p > UINT64_MAX - PAGE_SIZE) break\<close>).
\<close>

function reserve_range_loop :: "pmm \<Rightarrow> u64 \<Rightarrow> u64 \<Rightarrow> pmm" where
  "reserve_range_loop s p e =
     (if p < e then
        let s = snd (reserve_page s p) in
        if p > UINT64_MAX - PAGE_SIZE then s
        else reserve_range_loop s (p + PAGE_SIZE) e
      else s)"
  by pat_completeness auto
termination
proof (relation "measure (\<lambda>(s, p, e). 2 ^ 64 - unat p)", goal_cases)
  case (2 s p e s')
  then have "unat p \<le> 18446744073709547519"
    by (simp add: word_le_nat_alt not_less)
  then have "unat (p + PAGE_SIZE) = unat p + 4096"
    by (subst unat_word_ariths) simp
  then show ?case using \<open>unat p \<le> _\<close> by simp
qed simp

definition pmm_reserve_range :: "pmm \<Rightarrow> u64 \<Rightarrow> u64 \<Rightarrow> pmm" where
  "pmm_reserve_range s base len =
     (if len = 0 then s
      else let start = page_of base; e = align_up (base + len) in
        if e < base then s else reserve_range_loop s start e)"

definition is_reserved :: "pmm \<Rightarrow> u64 \<Rightarrow> bool" where
  "is_reserved s phys = page_is_reserved_fast s (page_of phys)"

section \<open>The active page tables\<close>

text \<open>
  \<^verbatim>\<open>entries\<close> is an array of \<^verbatim>\<open>count\<close> pointers: a list of options, itself
  optional because the code tests the array pointer too.
\<close>

definition phys_is_described :: "u64 \<Rightarrow> limine_memmap_entry option list option \<Rightarrow> bool" where
  "phys_is_described phys entries =
     (case entries of None \<Rightarrow> False
      | Some es \<Rightarrow> list_ex (\<lambda>e. case e of None \<Rightarrow> False
          | Some e \<Rightarrow> \<not> (me_length e = 0 \<or> me_base e > UINT64_MAX - me_length e)
              \<and> phys \<ge> me_base e \<and> phys - me_base e < me_length e) es)"

fun page_table_probe :: "pmm \<Rightarrow> u64 \<Rightarrow> u64 \<Rightarrow> nat \<Rightarrow> bool \<times> pmm" where
  "page_table_probe s phys slot 0 = (True, s)"
| "page_table_probe s phys slot (Suc probes) =
     (let old = seen_page_tables s slot in
      if old = phys then (True, s)
      else if old = 0 then
        (False, s\<lparr>seen_page_tables := (seen_page_tables s)(slot := phys),
                  seen_page_table_count := seen_page_table_count s + 1\<rparr>)
      else page_table_probe s phys ((slot + 1) AND (of_nat PAGE_TABLE_HASH_SIZE - 1)) probes)"

definition page_table_slot :: "u64 \<Rightarrow> u64" where
  "page_table_slot phys =
     (drop_bit 12 phys * 11400714819323198485) AND (of_nat PAGE_TABLE_HASH_SIZE - 1)"

definition page_table_seen :: "pmm \<Rightarrow> u64 \<Rightarrow> bool \<times> pmm" where
  "page_table_seen s phys =
     (if seen_page_table_count s \<ge> MAX_PAGE_TABLES then (True, s)
      else page_table_probe s phys (page_table_slot phys) PAGE_TABLE_HASH_SIZE)"

text \<open>
  \<^verbatim>\<open>pmm_phys_to_virt\<close> returns a pointer into the direct map or \<^verbatim>\<open>NULL\<close>
  (here \<open>None\<close>).
\<close>

definition pmm_phys_to_virt :: "pmm \<Rightarrow> u64 \<Rightarrow> u64 option" where
  "pmm_phys_to_virt s phys =
     (if g_hhdm s = 0 then None
      else if phys > UINT64_MAX - g_hhdm s then None
      else let va = g_hhdm s + phys in
        if drop_bit 48 va \<noteq> 0xFFFF then None else Some va)"

fun reserve_page_table_tree ::
  "phys_mem \<Rightarrow> limine_memmap_entry option list option \<Rightarrow> pmm \<Rightarrow> u64 \<Rightarrow> nat \<Rightarrow> pmm" where
  "reserve_page_table_tree m entries s table_phys0 0 = s"
| "reserve_page_table_tree m entries s table_phys0 (Suc l) =
     (let table_phys = page_of table_phys0 in
      if table_phys = 0 \<or> table_phys > PTE_ADDR_MASK then s
      else if \<not> phys_is_described table_phys entries then s
      else case page_table_seen s table_phys of (True, s) \<Rightarrow> s
      | (False, s) \<Rightarrow>
        let s = snd (reserve_page s table_phys) in
        case pmm_phys_to_virt s table_phys of None \<Rightarrow> s
        | Some _ \<Rightarrow>
          fold (\<lambda>i s.
            let e = m table_phys i in
            if e AND PTE_P = 0 \<or> l = 0 then s
            else if (l = 2 \<or> l = 1) \<and> e AND PTE_PS \<noteq> 0 then s
            else let child = e AND PTE_ADDR_MASK in
              if child \<noteq> 0 \<and> phys_is_described child entries
              then reserve_page_table_tree m entries s child l else s) [0..<512] s)"

definition reserve_active_page_tables ::
  "phys_mem \<Rightarrow> u64 \<Rightarrow> limine_memmap_entry option list option \<Rightarrow> pmm \<Rightarrow> pmm" where
  "reserve_active_page_tables m cr3 entries s =
     reserve_page_table_tree m entries
       (s\<lparr>seen_page_table_count := 0, seen_page_tables := (\<lambda>_. 0)\<rparr>) cr3 4"

section \<open>Initialisation\<close>

text \<open>One entry of the memory map in the first loop of \<^verbatim>\<open>pmm_init\<close>.\<close>

definition pmm_add_region :: "pmm \<Rightarrow> limine_memmap_entry option \<Rightarrow> pmm" where
  "pmm_add_region s eo =
     (case eo of None \<Rightarrow> s
      | Some e \<Rightarrow>
        if me_type e \<noteq> LIMINE_MEMMAP_USABLE \<or> me_length e < PAGE_SIZE then s
        else let start = me_base e; en = me_base e + me_length e in
          if en < me_base e then s
          else let start = align_up start; en = align_down en;
                   start = (if start < PMM_MIN_PHYS then PMM_MIN_PHYS else start);
                   en = (if en > PMM_TRACK_LIMIT then PMM_TRACK_LIMIT else en) in
            if start \<ge> en then s
            else s\<lparr>regions := regions s @ [\<lparr>rg_base = start, rg_end = en, rg_next = start, rg_free_head = 0\<rparr>],
                   g_free_pages := g_free_pages s + (en - start) div PAGE_SIZE,
                   g_total_pages := g_total_pages s + (en - start) div PAGE_SIZE\<rparr>)"

fun pmm_add_regions :: "pmm \<Rightarrow> limine_memmap_entry option list \<Rightarrow> pmm" where
  "pmm_add_regions s [] = s"
| "pmm_add_regions s (e # es) =
     (if length (regions s) < MAX_REGIONS then pmm_add_regions (pmm_add_region s e) es else s)"

text \<open>
  The kernel image loop. Both bounds are page aligned, so \<open>p\<close> reaches \<open>e\<close> exactly;
  the second test only makes the recursion total on bounds that are not.
\<close>

function reserve_kernel_loop :: "pmm \<Rightarrow> u64 \<Rightarrow> u64 \<Rightarrow> pmm" where
  "reserve_kernel_loop s p e =
     (if p < e then
        let s = snd (reserve_page s p) in
        if p + PAGE_SIZE < p then s else reserve_kernel_loop s (p + PAGE_SIZE) e
      else s)"
  by pat_completeness auto
termination
proof (relation "measure (\<lambda>(s, p, e). 2 ^ 64 - unat p)", goal_cases)
  case (2 s p e s')
  then show ?case using page_step_measure [of p] by simp
qed simp

text \<open>The body of the last loop of \<^verbatim>\<open>pmm_init\<close>: take a reserved page out of the free count.\<close>

definition pmm_account_reserved :: "pmm \<Rightarrow> u64 \<Rightarrow> pmm" where
  "pmm_account_reserved s rp =
     (let s = (if rp < PMM_TRACK_LIMIT then page_set_allocated s rp True else s) in
      if phys_in_usable_region s rp \<and> g_free_pages s \<noteq> 0
      then s\<lparr>g_free_pages := g_free_pages s - 1\<rparr> else s)"

definition pmm_init ::
  "phys_mem \<Rightarrow> u64 \<Rightarrow> limine_memmap_entry option list option \<Rightarrow> u64 \<Rightarrow> u64 \<Rightarrow> u64 \<Rightarrow> pmm \<Rightarrow> pmm" where
  "pmm_init m cr3 entries hhdm kernel_base kernel_end s =
     (let s = s\<lparr>regions := [], reserved_pages := [], g_free_pages := 0, g_total_pages := 0,
                page_state := (\<lambda>_. 0), reserved_state := (\<lambda>_. 0), page_refs := (\<lambda>_. 0),
                g_hhdm := hhdm, g_kernel_base := align_down kernel_base,
                g_kernel_end := align_up kernel_end, g_ready := False\<rparr> in
      case entries of None \<Rightarrow> s
      | Some es \<Rightarrow>
        if hhdm = 0 then s
        else
          let s = pmm_add_regions s es;
              s = (if g_kernel_end s > g_kernel_base s \<and> g_kernel_end s - g_kernel_base s < 0x10000000000
                   then reserve_kernel_loop s (g_kernel_base s) (g_kernel_end s) else s);
              s = reserve_active_page_tables m cr3 entries s;
              s = foldl pmm_account_reserved s (reserved_pages s) in
          s\<lparr>g_ready := regions s \<noteq> []\<rparr>)"

section \<open>Allocation\<close>

definition set_region_next :: "pmm \<Rightarrow> nat \<Rightarrow> u64 \<Rightarrow> pmm" where
  "set_region_next s i p = s\<lparr>regions := (regions s)[i := (regions s ! i)\<lparr>rg_next := p\<rparr>]\<rparr>"

definition take_page :: "pmm \<Rightarrow> u64 \<Rightarrow> pmm" where
  "take_page s p =
     (let s = page_set_allocated s p True;
          s = s\<lparr>page_refs := (page_refs s)(p div PAGE_SIZE := 1)\<rparr> in
      if g_free_pages s \<noteq> 0 then s\<lparr>g_free_pages := g_free_pages s - 1\<rparr> else s)"

text \<open>
  The two scans of a region in \<^verbatim>\<open>pmm_alloc_page\<close>: from the \<^verbatim>\<open>next\<close> cursor
  on, then from the base. A region ends at or below 4~GiB, so \<^verbatim>\<open>p + PAGE_SIZE\<close>
  does not wrap and the test for it, which only makes the recursion total, is never true
  (\<open>page_next_no_wrap\<close>).
\<close>

function alloc_scan_next :: "pmm \<Rightarrow> nat \<Rightarrow> u64 \<Rightarrow> u64 \<times> pmm" where
  "alloc_scan_next s i p =
     (if p < rg_end (regions s ! i) then
        let s = set_region_next s i (p + PAGE_SIZE) in
        if p \<ge> PMM_TRACK_LIMIT \<or> p < PMM_MIN_PHYS \<or> is_reserved s p \<or> page_is_allocated s p then
          (if p + PAGE_SIZE < p then (0, s) else alloc_scan_next s i (p + PAGE_SIZE))
        else (p, take_page s p)
      else (0, s))"
  by pat_completeness auto
termination
proof (relation "measure (\<lambda>(s, i, p). 2 ^ 64 - unat p)", goal_cases)
  case (2 s i p s')
  then show ?case using page_step_measure [of p] by simp
qed simp

function alloc_scan_base :: "pmm \<Rightarrow> nat \<Rightarrow> u64 \<Rightarrow> u64 \<times> pmm" where
  "alloc_scan_base s i p =
     (if p < rg_end (regions s ! i) then
        if p \<ge> PMM_TRACK_LIMIT \<or> p < PMM_MIN_PHYS \<or> is_reserved s p \<or> page_is_allocated s p then
          (if p + PAGE_SIZE < p then (0, s) else alloc_scan_base s i (p + PAGE_SIZE))
        else (p, set_region_next (take_page s p) i (p + PAGE_SIZE))
      else (0, s))"
  by pat_completeness auto
termination
proof (relation "measure (\<lambda>(s, i, p). 2 ^ 64 - unat p)", goal_cases)
  case (2 s i p)
  then show ?case using page_step_measure [of p] by simp
qed simp

fun alloc_regions :: "pmm \<Rightarrow> nat list \<Rightarrow> u64 \<times> pmm" where
  "alloc_regions s [] = (0, s)"
| "alloc_regions s (i # is) =
     (let (p, s) = alloc_scan_next s i (rg_next (regions s ! i)) in
      if p \<noteq> 0 then (p, s)
      else let (p, s) = alloc_scan_base s i (rg_base (regions s ! i)) in
        if p \<noteq> 0 then (p, s) else alloc_regions s is)"

definition pmm_alloc_page :: "pmm \<Rightarrow> u64 \<times> pmm" where
  "pmm_alloc_page s =
     (if \<not> g_ready s \<or> g_hhdm s = 0 then (0, s)
      else alloc_regions s [0..<length (regions s)])"

section \<open>Release and reference counts\<close>

text \<open>
  The body of the region loop of \<^verbatim>\<open>pmm_free_page\<close> for the region that holds the
  page, and the loop; the page is known to be tracked.
\<close>

definition drop_page_ref :: "pmm \<Rightarrow> u64 \<Rightarrow> pmm" where
  "drop_page_ref s phys =
     (if \<not> page_is_allocated s phys then s
      else let idx = phys div PAGE_SIZE; refs = page_refs s idx in
        if refs > 1 then s\<lparr>page_refs := (page_refs s)(idx := refs - 1)\<rparr>
        else let s = s\<lparr>page_refs := (page_refs s)(idx := 0)\<rparr>;
                 s = page_set_allocated s phys False in
          s\<lparr>g_free_pages := g_free_pages s + 1\<rparr>)"

fun free_in_regions :: "pmm \<Rightarrow> u64 \<Rightarrow> pmm_region list \<Rightarrow> pmm" where
  "free_in_regions s phys [] = s"
| "free_in_regions s phys (r # rs) =
     (if phys < rg_base r \<or> phys \<ge> rg_end r then free_in_regions s phys rs
      else drop_page_ref s phys)"

definition pmm_free_page :: "pmm \<Rightarrow> u64 \<Rightarrow> pmm" where
  "pmm_free_page s phys0 =
     (let phys = page_of phys0 in
      if \<not> g_ready s \<or> phys = 0 \<or> phys \<ge> 0x10000000000000 \<or> is_reserved s phys then s
      else if phys \<ge> PMM_TRACK_LIMIT then s
      else free_in_regions s phys (regions s))"

text \<open>
  \<^verbatim>\<open>pmm_alloc_zeroed\<close> also writes the frame: 512 zero words.
\<close>

definition zero_frame :: "phys_mem \<Rightarrow> u64 \<Rightarrow> phys_mem" where
  "zero_frame m phys = fold (\<lambda>i m. m(phys := (m phys)(i := 0))) [0..<512] m"

definition pmm_alloc_zeroed :: "phys_mem \<Rightarrow> pmm \<Rightarrow> u64 \<times> phys_mem \<times> pmm" where
  "pmm_alloc_zeroed m s =
     (let (phys, s) = pmm_alloc_page s in
      if phys = 0 then (0, m, s)
      else case pmm_phys_to_virt s phys of
        None \<Rightarrow> (0, m, pmm_free_page s phys)
      | Some _ \<Rightarrow> (phys, zero_frame m phys, s))"

definition pmm_page_refcount :: "pmm \<Rightarrow> u64 \<Rightarrow> u16" where
  "pmm_page_refcount s phys0 =
     (let phys = page_of phys0 in
      if \<not> g_ready s \<or> phys = 0 \<or> phys \<ge> PMM_TRACK_LIMIT then 0
      else page_refs s (phys div PAGE_SIZE))"

definition pmm_page_is_reserved :: "pmm \<Rightarrow> u64 \<Rightarrow> bool" where
  "pmm_page_is_reserved s phys = is_reserved s (page_of phys)"

text \<open>The result is \<open>True\<close> where the C function returns 0 and \<open>False\<close> where it returns -1.\<close>

definition pmm_retain_page :: "pmm \<Rightarrow> u64 \<Rightarrow> bool \<times> pmm" where
  "pmm_retain_page s phys0 =
     (let phys = page_of phys0 in
      if \<not> g_ready s \<or> phys = 0 \<or> phys \<ge> PMM_TRACK_LIMIT \<or> is_reserved s phys then (False, s)
      else if \<not> page_is_allocated s phys then (False, s)
      else let idx = phys div PAGE_SIZE in
        if page_refs s idx = UINT16_MAX then (False, s)
        else if page_refs s idx = 0 then (True, s\<lparr>page_refs := (page_refs s)(idx := 1)\<rparr>)
        else (True, s\<lparr>page_refs := (page_refs s)(idx := page_refs s idx + 1)\<rparr>))"

definition pmm_free_count :: "pmm \<Rightarrow> u64" where
  "pmm_free_count s = g_free_pages s"

definition pmm_total_count :: "pmm \<Rightarrow> u64" where
  "pmm_total_count s = g_total_pages s"

definition pmm_hhdm :: "pmm \<Rightarrow> u64" where
  "pmm_hhdm s = g_hhdm s"

text \<open>
  The self test writes a pattern to word 0 of a fresh frame, reads it back and clears it.
  The result is \<open>True\<close> for 0.
\<close>

definition pmm_hhdm_selftest :: "phys_mem \<Rightarrow> pmm \<Rightarrow> bool \<times> phys_mem \<times> pmm" where
  "pmm_hhdm_selftest m s =
     (if \<not> g_ready s \<or> g_hhdm s = 0 then (False, m, s)
      else let (phys, s) = pmm_alloc_page s in
        if phys = 0 then (False, m, s)
        else case pmm_phys_to_virt s phys of
          None \<Rightarrow> (False, m, s)
        | Some _ \<Rightarrow>
          let m = m(phys := (m phys)(0 := 0x594142524f4f5348)) in
          if m phys 0 \<noteq> 0x594142524f4f5348 then (False, m, s)
          else (True, m(phys := (m phys)(0 := 0)), s))"

declare reserve_range_loop.simps [simp del] reserve_kernel_loop.simps [simp del]
  alloc_scan_next.simps [simp del] alloc_scan_base.simps [simp del]

section \<open>Bitmap laws\<close>

lemma and_one_neq_zero_iff: "drop_bit n w AND 1 \<noteq> 0 \<longleftrightarrow> bit w n" for w :: u64
  by (simp add: and_one_eq bit_iff_odd_drop_bit odd_iff_mod_2_eq_one)

lemma page_is_allocated_bit:
  "page_is_allocated s p \<longleftrightarrow> \<not> tracked p \<or>
     bit (page_state s (drop_bit 6 (p div PAGE_SIZE))) (unat ((p div PAGE_SIZE) AND 63))"
  by (auto simp: page_is_allocated_def Let_def and_one_neq_zero_iff)

lemma page_is_reserved_fast_bit:
  "page_is_reserved_fast s p \<longleftrightarrow> tracked p \<and>
     bit (reserved_state s (drop_bit 6 (p div PAGE_SIZE))) (unat ((p div PAGE_SIZE) AND 63))"
  by (auto simp: page_is_reserved_fast_def Let_def and_one_neq_zero_iff)

lemma unat_and_63: "unat ((n :: u64) AND 63) = unat n mod 64"
proof -
  have "(63 :: u64) = mask 6" by (simp add: mask_eq_exp_minus_1)
  then have "n AND 63 = take_bit 6 n" by (simp add: take_bit_eq_mask)
  then show ?thesis by (simp add: take_bit_eq_mod unat_mod)
qed

lemma unat_div_64: "unat (drop_bit 6 (n :: u64)) = unat n div 64"
  by (simp add: drop_bit_eq_div unat_div)

text \<open>Word index and bit index determine the page index.\<close>

lemma page_index_inj:
  "drop_bit 6 a = drop_bit 6 b \<Longrightarrow> unat (a AND 63) = unat (b AND 63) \<Longrightarrow> a = (b :: u64)"
proof -
  assume "drop_bit 6 a = drop_bit 6 b" and lo: "unat (a AND 63) = unat (b AND 63)"
  then have "unat a div 64 = unat b div 64"
    by (metis unat_div_64)
  moreover have "unat a mod 64 = unat b mod 64" using lo by (simp add: unat_and_63)
  ultimately show "a = b" by (metis div_mult_mod_eq word_unat_eq_iff)
qed

lemma page_is_allocated_set:
  "page_is_allocated (page_set_allocated s q b) p \<longleftrightarrow>
     (if tracked q \<and> p div PAGE_SIZE = q div PAGE_SIZE \<and> tracked p then b else page_is_allocated s p)"
  using page_index_inj [of "p div PAGE_SIZE" "q div PAGE_SIZE"]
  by (auto simp: page_is_allocated_bit page_set_allocated_def Let_def bit_simps unat_and_63)

lemma page_is_reserved_set:
  "page_is_reserved_fast (page_set_reserved s q) p \<longleftrightarrow>
     tracked q \<and> p div PAGE_SIZE = q div PAGE_SIZE \<and> tracked p \<or> page_is_reserved_fast s p"
  using page_index_inj [of "p div PAGE_SIZE" "q div PAGE_SIZE"]
  by (auto simp: page_is_reserved_fast_bit page_set_reserved_def Let_def bit_simps unat_and_63)

text \<open>Every array index computed from a tracked address lies inside its array.\<close>

lemma tracked_index_bounds:
  assumes "tracked p"
  shows "p div PAGE_SIZE < PMM_TRACK_PAGES" "drop_bit 6 (p div PAGE_SIZE) < PMM_TRACK_WORDS"
    "unat ((p div PAGE_SIZE) AND 63) < 64"
  using assms
  by (simp_all add: tracked_def word_less_nat_alt unat_div unat_div_64 unat_and_63
      less_mult_imp_div_less)

section \<open>Frame facts\<close>

lemma set_region_next_frame [simp, frame_simps]:
  "page_is_allocated (set_region_next s i n) = page_is_allocated s"
  "is_reserved (set_region_next s i n) = is_reserved s"
  "page_refs (set_region_next s i n) = page_refs s"
  "g_free_pages (set_region_next s i n) = g_free_pages s"
  "g_total_pages (set_region_next s i n) = g_total_pages s"
  "g_ready (set_region_next s i n) = g_ready s"
  "g_hhdm (set_region_next s i n) = g_hhdm s"
  "reserved_pages (set_region_next s i n) = reserved_pages s"
  "length (regions (set_region_next s i n)) = length (regions s)"
  "page_state (set_region_next s i n) = page_state s"
  "reserved_state (set_region_next s i n) = reserved_state s"
  by (simp_all add: set_region_next_def page_is_allocated_def is_reserved_def
      page_is_reserved_fast_def fun_eq_iff)

lemma set_region_next_region [simp]:
  "i < length (regions s) \<Longrightarrow>
     regions (set_region_next s i n) ! i = (regions s ! i)\<lparr>rg_next := n\<rparr>"
  by (simp add: set_region_next_def)

lemma set_region_next_twice [simp]:
  "i < length (regions s) \<Longrightarrow>
     set_region_next (set_region_next s i a) i b = set_region_next s i b"
  by (simp add: set_region_next_def)

lemma set_region_next_same [simp]: "set_region_next s i (rg_next (regions s ! i)) = s"
  by (simp add: set_region_next_def)

lemma page_set_allocated_frame [simp, frame_simps]:
  "regions (page_set_allocated s p b) = regions s"
  "reserved_state (page_set_allocated s p b) = reserved_state s"
  "page_refs (page_set_allocated s p b) = page_refs s"
  "g_free_pages (page_set_allocated s p b) = g_free_pages s"
  "g_total_pages (page_set_allocated s p b) = g_total_pages s"
  "g_ready (page_set_allocated s p b) = g_ready s"
  "g_hhdm (page_set_allocated s p b) = g_hhdm s"
  "reserved_pages (page_set_allocated s p b) = reserved_pages s"
  "is_reserved (page_set_allocated s p b) = is_reserved s"
  "phys_in_usable_region (page_set_allocated s p b) = phys_in_usable_region s"
  by (auto simp: page_set_allocated_def Let_def is_reserved_def page_is_reserved_fast_def
      phys_in_usable_region_def fun_eq_iff)

lemma pmm_record_frame [simp]:
  "page_is_allocated (s\<lparr>page_refs := x\<rparr>) = page_is_allocated s"
  "page_is_allocated (s\<lparr>g_free_pages := y\<rparr>) = page_is_allocated s"
  "page_is_allocated (s\<lparr>reserved_pages := z\<rparr>) = page_is_allocated s"
  "page_is_allocated (s\<lparr>seen_page_tables := t, seen_page_table_count := k\<rparr>) = page_is_allocated s"
  "is_reserved (s\<lparr>page_refs := x\<rparr>) = is_reserved s"
  "is_reserved (s\<lparr>g_free_pages := y\<rparr>) = is_reserved s"
  "is_reserved (s\<lparr>reserved_pages := z\<rparr>) = is_reserved s"
  "phys_in_usable_region (s\<lparr>page_refs := x\<rparr>) = phys_in_usable_region s"
  "phys_in_usable_region (s\<lparr>g_free_pages := y\<rparr>) = phys_in_usable_region s"
  "phys_in_usable_region (s\<lparr>reserved_pages := z\<rparr>) = phys_in_usable_region s"
  by (simp_all add: page_is_allocated_def is_reserved_def page_is_reserved_fast_def
      phys_in_usable_region_def fun_eq_iff)

lemma page_set_reserved_frame [simp, frame_simps]:
  "regions (page_set_reserved s p) = regions s"
  "page_is_allocated (page_set_reserved s p) = page_is_allocated s"
  "page_refs (page_set_reserved s p) = page_refs s"
  "g_free_pages (page_set_reserved s p) = g_free_pages s"
  "g_total_pages (page_set_reserved s p) = g_total_pages s"
  "g_ready (page_set_reserved s p) = g_ready s"
  "g_hhdm (page_set_reserved s p) = g_hhdm s"
  "reserved_pages (page_set_reserved s p) = reserved_pages s"
  "phys_in_usable_region (page_set_reserved s p) = phys_in_usable_region s"
  by (auto simp: page_set_reserved_def Let_def page_is_allocated_def
      phys_in_usable_region_def fun_eq_iff)

lemma take_page_frame [simp, frame_simps]:
  "regions (take_page s p) = regions s"
  "g_total_pages (take_page s p) = g_total_pages s"
  "g_ready (take_page s p) = g_ready s"
  "g_hhdm (take_page s p) = g_hhdm s"
  "reserved_pages (take_page s p) = reserved_pages s"
  "is_reserved (take_page s p) = is_reserved s"
  "page_refs (take_page s p) = (page_refs s)(p div PAGE_SIZE := 1)"
  "page_is_allocated (take_page s p) = page_is_allocated (page_set_allocated s p True)"
  "g_free_pages (take_page s p) = (if g_free_pages s \<noteq> 0 then g_free_pages s - 1 else 0)"
  by (auto simp: take_page_def Let_def)

lemma set_region_next_take_page:
  "set_region_next (take_page s p) i n = take_page (set_region_next s i n) p"
  by (simp add: set_region_next_def take_page_def page_set_allocated_def Let_def)

lemma page_of_aligned [simp]: "page_aligned p \<Longrightarrow> page_of p = p"
  using page_aligned_id [of p] by (simp add: page_of_def)

lemma page_aligned_page_of [simp]: "page_aligned (page_of p)"
  by (simp add: page_of_def)

section \<open>Well-formed regions and the specification of the scans\<close>

definition region_ok :: "pmm_region \<Rightarrow> bool" where
  "region_ok r \<longleftrightarrow> page_aligned (rg_base r) \<and> page_aligned (rg_end r) \<and> page_aligned (rg_next r)
     \<and> PMM_MIN_PHYS \<le> rg_base r \<and> rg_base r < rg_end r \<and> rg_end r \<le> PMM_TRACK_LIMIT
     \<and> rg_base r \<le> rg_next r \<and> rg_next r \<le> rg_end r"

definition page_free :: "pmm \<Rightarrow> u64 \<Rightarrow> bool" where
  "page_free s p \<longleftrightarrow> PMM_MIN_PHYS \<le> p \<and> p < PMM_TRACK_LIMIT \<and> \<not> is_reserved s p \<and> \<not> page_is_allocated s p"

lemma page_free_set_region_next [simp]: "page_free (set_region_next s i n) = page_free s"
  by (simp add: page_free_def fun_eq_iff)

lemma page_free_nonzero: "page_free s p \<Longrightarrow> p \<noteq> 0"
  by (auto simp: page_free_def)

text \<open>
  A scan from \<open>p\<close> either finds no free page up to the end of the region, or takes a free
  one; apart from the cursor and the taken page it changes nothing.
\<close>

definition scan_result :: "pmm \<Rightarrow> nat \<Rightarrow> u64 \<Rightarrow> u64 \<times> pmm \<Rightarrow> bool" where
  "scan_result s i p res \<longleftrightarrow> (\<exists>n. region_ok ((regions s ! i)\<lparr>rg_next := n\<rparr>) \<and>
     (fst res = 0 \<and> snd res = set_region_next s i n
        \<and> (\<forall>r. page_aligned r \<longrightarrow> p \<le> r \<longrightarrow> r < rg_end (regions s ! i) \<longrightarrow> \<not> page_free s r)
      \<or> fst res \<noteq> 0 \<and> page_aligned (fst res) \<and> p \<le> fst res \<and> fst res < rg_end (regions s ! i)
        \<and> page_free s (fst res) \<and> snd res = take_page (set_region_next s i n) (fst res)))"

lemma scan_result_set_next:
  "i < length (regions s) \<Longrightarrow>
     scan_result (set_region_next s i n) i p res \<longleftrightarrow> scan_result s i p res"
  by (simp add: scan_result_def)

lemma scan_result_step:
  assumes "scan_result s i (p + PAGE_SIZE) res" "\<not> page_free s p" "page_aligned p"
    "page_aligned (rg_end (regions s ! i))" "p < rg_end (regions s ! i)"
  shows "scan_result s i p res"
proof -
  let ?e = "rg_end (regions s ! i)"
  have nx: "p \<le> p + PAGE_SIZE" and step: "\<And>r. page_aligned r \<Longrightarrow> p \<le> r \<Longrightarrow> r \<noteq> p \<Longrightarrow> p + PAGE_SIZE \<le> r"
    using page_next_no_wrap(5) [OF assms(3-5)] page_aligned_step [OF assms(3) _ _ _ assms(4,5)]
    by (auto intro: less_imp_le)
  show ?thesis
    using assms(1,2) step order_trans [OF nx] unfolding scan_result_def by metis
qed

lemma region_ok_next: "region_ok r \<Longrightarrow> page_aligned n \<Longrightarrow> rg_base r \<le> n \<Longrightarrow> n \<le> rg_end r \<Longrightarrow>
   region_ok (r\<lparr>rg_next := n\<rparr>)"
  by (simp add: region_ok_def)

lemma alloc_scan_next_spec:
  assumes "i < length (regions s)" "region_ok (regions s ! i)" "page_aligned p"
    "rg_base (regions s ! i) \<le> p" "p \<le> rg_end (regions s ! i)"
  shows "scan_result s i p (alloc_scan_next s i p)"
  using assms
proof (induction s i p rule: alloc_scan_next.induct)
  case (1 s i p)
  let ?r = "regions s ! i" and ?s = "set_region_next s i (p + PAGE_SIZE)"
  have al: "page_aligned (rg_end ?r)" using "1.prems" by (simp add: region_ok_def)
  show ?case
  proof (cases "p < rg_end ?r")
    case False
    then have "p = rg_end ?r" using "1.prems" by simp
    moreover have "alloc_scan_next s i p = (0, s)"
      using False by (simp add: alloc_scan_next.simps)
    ultimately show ?thesis
      unfolding scan_result_def using "1.prems"
      by (intro exI [of _ "rg_next ?r"]) auto
  next
    case True
    note nw = page_next_no_wrap [OF \<open>page_aligned p\<close> al True]
    have b: "rg_base ?r \<le> p + PAGE_SIZE"
      using "1.prems"(4) nw(5) by simp
    then have ok: "region_ok (?r\<lparr>rg_next := p + PAGE_SIZE\<rparr>)"
      using "1.prems" nw by (simp add: region_ok_next)
    have wrap: "\<not> p + PAGE_SIZE < p" using nw(5) by simp
    show ?thesis
    proof (cases "page_free s p")
      case free: True
      then have "alloc_scan_next s i p = (p, take_page ?s p)"
        using True by (subst alloc_scan_next.simps) (auto simp: page_free_def Let_def)
      then show ?thesis
        unfolding scan_result_def using free True "1.prems" ok page_free_nonzero [OF free]
        by (intro exI [of _ "p + PAGE_SIZE"]) auto
    next
      case nf: False
      have skip: "p \<ge> PMM_TRACK_LIMIT \<or> p < PMM_MIN_PHYS \<or> is_reserved ?s p \<or> page_is_allocated ?s p"
        using nf by (auto simp: page_free_def)
      have eq: "alloc_scan_next s i p = alloc_scan_next ?s i (p + PAGE_SIZE)"
        using True skip wrap by (subst alloc_scan_next.simps) (simp add: Let_def)
      have "scan_result ?s i (p + PAGE_SIZE) (alloc_scan_next ?s i (p + PAGE_SIZE))"
        by (rule "1.IH" [OF True refl skip wrap]) (use "1.prems" ok b nw in simp_all)
      then have "scan_result s i (p + PAGE_SIZE) (alloc_scan_next s i p)"
        using "1.prems" by (simp add: scan_result_set_next eq)
      then show ?thesis
        using nf "1.prems"(3) al True by (rule scan_result_step)
    qed
  qed
qed

lemma alloc_scan_base_spec:
  assumes "i < length (regions s)" "region_ok (regions s ! i)" "page_aligned p"
    "rg_base (regions s ! i) \<le> p" "p \<le> rg_end (regions s ! i)"
  shows "scan_result s i p (alloc_scan_base s i p)"
  using assms
proof (induction s i p rule: alloc_scan_base.induct)
  case (1 s i p)
  let ?r = "regions s ! i"
  have al: "page_aligned (rg_end ?r)" using "1.prems" by (simp add: region_ok_def)
  show ?case
  proof (cases "p < rg_end ?r")
    case False
    then have "p = rg_end ?r" using "1.prems" by simp
    moreover have "alloc_scan_base s i p = (0, s)"
      using False by (simp add: alloc_scan_base.simps)
    ultimately show ?thesis
      unfolding scan_result_def using "1.prems"
      by (intro exI [of _ "rg_next ?r"]) auto
  next
    case True
    note nw = page_next_no_wrap [OF \<open>page_aligned p\<close> al True]
    have b: "rg_base ?r \<le> p + PAGE_SIZE"
      using "1.prems"(4) nw(5) by simp
    then have ok: "region_ok (?r\<lparr>rg_next := p + PAGE_SIZE\<rparr>)"
      using "1.prems" nw by (simp add: region_ok_next)
    have wrap: "\<not> p + PAGE_SIZE < p" using nw(5) by simp
    show ?thesis
    proof (cases "page_free s p")
      case free: True
      then have "alloc_scan_base s i p = (p, take_page (set_region_next s i (p + PAGE_SIZE)) p)"
        using True by (subst alloc_scan_base.simps)
          (auto simp: page_free_def Let_def set_region_next_take_page)
      then show ?thesis
        unfolding scan_result_def using free True "1.prems" ok page_free_nonzero [OF free]
        by (intro exI [of _ "p + PAGE_SIZE"]) auto
    next
      case nf: False
      have skip: "p \<ge> PMM_TRACK_LIMIT \<or> p < PMM_MIN_PHYS \<or> is_reserved s p \<or> page_is_allocated s p"
        using nf by (auto simp: page_free_def)
      have eq: "alloc_scan_base s i p = alloc_scan_base s i (p + PAGE_SIZE)"
        using True skip wrap by (subst alloc_scan_base.simps) simp
      have "scan_result s i (p + PAGE_SIZE) (alloc_scan_base s i (p + PAGE_SIZE))"
        by (rule "1.IH" [OF True skip wrap]) (use "1.prems" b nw in simp_all)
      then show ?thesis
        using nf "1.prems"(3) al True unfolding eq by (rule scan_result_step)
    qed
  qed
qed

section \<open>The specification of allocation\<close>

definition regions_ok :: "pmm \<Rightarrow> bool" where
  "regions_ok s \<longleftrightarrow> list_all region_ok (regions s)"

text \<open>States that differ in the \<^verbatim>\<open>next\<close> cursors only.\<close>

definition same_but_cursors :: "pmm \<Rightarrow> pmm \<Rightarrow> bool" where
  "same_but_cursors s t \<longleftrightarrow> (\<exists>rs. t = s\<lparr>regions := rs\<rparr> \<and> list_all region_ok rs
     \<and> map (rg_next_update (\<lambda>_. 0)) rs = map (rg_next_update (\<lambda>_. 0)) (regions s))"

lemma same_but_cursors_refl: "regions_ok s \<Longrightarrow> same_but_cursors s s"
  by (auto simp: same_but_cursors_def regions_ok_def intro: exI [of _ "regions s"])

lemma same_but_cursors_trans:
  "same_but_cursors s t \<Longrightarrow> same_but_cursors t u \<Longrightarrow> same_but_cursors s u"
  by (auto simp: same_but_cursors_def)

lemma same_but_cursors_set_next:
  "i < length (regions s) \<Longrightarrow> regions_ok s \<Longrightarrow> region_ok ((regions s ! i)\<lparr>rg_next := n\<rparr>) \<Longrightarrow>
     same_but_cursors s (set_region_next s i n)"
  unfolding same_but_cursors_def set_region_next_def regions_ok_def
  by (intro exI [of _ "(regions s)[i := (regions s ! i)\<lparr>rg_next := n\<rparr>]"])
    (auto simp: list_all_iff nth_list_update dest!: set_update_subset_insert [THEN subsetD]
      intro!: nth_equalityI)

lemma same_but_cursors_region:
  assumes "same_but_cursors s t"
  shows "length (regions t) = length (regions s)" "regions_ok t"
    "i < length (regions s) \<Longrightarrow> rg_base (regions t ! i) = rg_base (regions s ! i)"
    "i < length (regions s) \<Longrightarrow> rg_end (regions t ! i) = rg_end (regions s ! i)"
proof -
  obtain rs where t: "t = s\<lparr>regions := rs\<rparr>" "list_all region_ok rs"
    and m: "map (rg_next_update (\<lambda>_. 0)) rs = map (rg_next_update (\<lambda>_. 0)) (regions s)"
    using assms by (auto simp: same_but_cursors_def)
  show l: "length (regions t) = length (regions s)" using m t by (metis length_map pmm.select_convs(1) pmm.surjective pmm.update_convs(1))
  show "regions_ok t" using t by (simp add: regions_ok_def)
  assume i: "i < length (regions s)"
  then have "(rs ! i)\<lparr>rg_next := 0\<rparr> = (regions s ! i)\<lparr>rg_next := 0\<rparr>"
    using m l t by (metis (no_types, lifting) length_map nth_map)
  then show "rg_base (regions t ! i) = rg_base (regions s ! i)"
    "rg_end (regions t ! i) = rg_end (regions s ! i)"
    using t by (simp_all, (metis pmm_region.select_convs pmm_region.surjective pmm_region.update_convs(3))+)
qed

lemma same_but_cursors_frame:
  assumes "same_but_cursors s t"
  shows "page_is_allocated t = page_is_allocated s" "is_reserved t = is_reserved s"
    "page_refs t = page_refs s" "g_free_pages t = g_free_pages s" "g_ready t = g_ready s"
    "g_hhdm t = g_hhdm s" "reserved_pages t = reserved_pages s" "g_total_pages t = g_total_pages s"
    "page_free t = page_free s"
  using assms
  by (auto simp: same_but_cursors_def page_is_allocated_def is_reserved_def page_free_def
      page_is_reserved_fast_def fun_eq_iff)

lemma in_region_nth:
  "phys_in_usable_region s p \<longleftrightarrow>
     (\<exists>i < length (regions s). rg_base (regions s ! i) \<le> p \<and> p < rg_end (regions s ! i))"
  by (force simp: phys_in_usable_region_def list_ex_iff in_set_conv_nth)

lemma same_but_cursors_in_region:
  "same_but_cursors s t \<Longrightarrow> phys_in_usable_region t = phys_in_usable_region s"
  by (auto simp: in_region_nth same_but_cursors_region fun_eq_iff)

lemma scan_result_cases [consumes 3, case_names hit miss]:
  assumes "scan_result s i p (q, s')" "regions_ok s" "i < length (regions s)"
  obtains t where "q \<noteq> 0" "same_but_cursors s t" "page_aligned q" "p \<le> q"
      "q < rg_end (regions s ! i)" "page_free s q" "s' = take_page t q"
    | "q = 0" "same_but_cursors s s'"
      "\<And>r. page_aligned r \<Longrightarrow> p \<le> r \<Longrightarrow> r < rg_end (regions s ! i) \<Longrightarrow> \<not> page_free s r"
  using assms same_but_cursors_set_next [OF assms(3,2)]
  unfolding scan_result_def by (cases "q = 0") auto

text \<open>
  The regions in the list \<open>is\<close> hold no free page and none is taken, or one is taken.
\<close>

definition alloc_result :: "pmm \<Rightarrow> nat list \<Rightarrow> u64 \<times> pmm \<Rightarrow> bool" where
  "alloc_result s is res \<longleftrightarrow> (\<exists>t. same_but_cursors s t \<and>
     (fst res = 0 \<and> snd res = t
        \<and> (\<forall>i\<in>set is. \<forall>r. page_aligned r \<longrightarrow> rg_base (regions s ! i) \<le> r \<longrightarrow>
              r < rg_end (regions s ! i) \<longrightarrow> \<not> page_free s r)
      \<or> fst res \<noteq> 0 \<and> page_aligned (fst res)
        \<and> (\<exists>i\<in>set is. rg_base (regions s ! i) \<le> fst res \<and> fst res < rg_end (regions s ! i))
        \<and> page_free s (fst res) \<and> snd res = take_page t (fst res)))"

lemma alloc_result_hit:
  assumes "same_but_cursors s t" "q \<noteq> 0" "page_aligned q" "rg_base (regions s ! i) \<le> q"
    "q < rg_end (regions s ! i)" "page_free s q"
  shows "alloc_result s (i # is) (q, take_page t q)"
  unfolding alloc_result_def using assms by (intro exI [of _ t]) auto

lemma alloc_result_skip:
  assumes e: "same_but_cursors s t" and "alloc_result t is res"
    and "\<And>r. page_aligned r \<Longrightarrow> rg_base (regions s ! i) \<le> r \<Longrightarrow> r < rg_end (regions s ! i) \<Longrightarrow> \<not> page_free s r"
    and "\<forall>i\<in>set is. i < length (regions s)"
  shows "alloc_result s (i # is) res"
proof -
  note reg = same_but_cursors_region(3,4) [OF e] same_but_cursors_frame(9) [OF e]
  obtain u where "same_but_cursors t u" and u: "
     fst res = 0 \<and> snd res = u
        \<and> (\<forall>i\<in>set is. \<forall>r. page_aligned r \<longrightarrow> rg_base (regions s ! i) \<le> r \<longrightarrow>
              r < rg_end (regions s ! i) \<longrightarrow> \<not> page_free s r)
      \<or> fst res \<noteq> 0 \<and> page_aligned (fst res)
        \<and> (\<exists>i\<in>set is. rg_base (regions s ! i) \<le> fst res \<and> fst res < rg_end (regions s ! i))
        \<and> page_free s (fst res) \<and> snd res = take_page u (fst res)"
    using assms(2,4) reg unfolding alloc_result_def by auto
  then have "same_but_cursors s u" using e by (blast intro: same_but_cursors_trans)
  with u assms(3) show ?thesis unfolding alloc_result_def by (intro exI [of _ u]) auto
qed

lemma alloc_regions_spec:
  assumes "regions_ok s" "\<forall>i\<in>set is. i < length (regions s)"
  shows "alloc_result s is (alloc_regions s is)"
  using assms
proof (induction "is" arbitrary: s)
  case Nil
  then show ?case by (auto simp: alloc_result_def intro: same_but_cursors_refl)
next
  case (Cons i "is")
  let ?r = "regions s ! i"
  have i: "i < length (regions s)" and ok: "region_ok ?r"
    using Cons.prems by (auto simp: regions_ok_def list_all_length)
  obtain p1 s1 where a1: "alloc_scan_next s i (rg_next ?r) = (p1, s1)" by fastforce
  have "scan_result s i (rg_next ?r) (p1, s1)"
    using alloc_scan_next_spec [of i s "rg_next ?r"] i ok a1 by (simp add: region_ok_def)
  then show ?case using Cons.prems(1) i
  proof (cases rule: scan_result_cases)
    case (hit t)
    have "rg_base ?r \<le> p1"
      using order_trans [OF _ hit(4)] ok by (simp add: region_ok_def)
    then show ?thesis using alloc_result_hit [OF hit(2,1,3) _ hit(5,6)] a1 hit(1,7) by simp
  next
    case miss
    note reg1 = same_but_cursors_region [OF miss(2)] and fr1 = same_but_cursors_frame(9) [OF miss(2)]
    have ok1: "region_ok (regions s1 ! i)"
      using reg1(1,2) i by (simp add: regions_ok_def list_all_length)
    obtain p2 s2 where a2: "alloc_scan_base s1 i (rg_base ?r) = (p2, s2)" by fastforce
    have i1: "i < length (regions s1)" using i reg1(1) by simp
    have "scan_result s1 i (rg_base ?r) (p2, s2)"
      using alloc_scan_base_spec [of i s1 "rg_base ?r"] i ok1 a2 reg1(1,3,4) ok
      by (simp add: region_ok_def less_imp_le)
    then show ?thesis using reg1(2) i1
    proof (cases rule: scan_result_cases)
      case (hit t)
      then show ?thesis
        using alloc_result_hit [OF same_but_cursors_trans [OF miss(2) hit(2)] hit(1,3)]
          a1 a2 miss(1) reg1(3,4) [OF i] fr1 by simp
    next
      case miss2: miss
      have e: "same_but_cursors s s2" using miss(2) miss2(2) by (rule same_but_cursors_trans)
      have "alloc_result s2 is (alloc_regions s2 is)"
        using Cons.IH Cons.prems(2) same_but_cursors_region(1,2) [OF e] by simp
      then have "alloc_result s (i # is) (alloc_regions s2 is)"
        by (rule alloc_result_skip [OF e])
          (use miss2(3) Cons.prems(2) reg1(4) [OF i] fr1 in auto)
      then show ?thesis using a1 a2 miss(1) miss2(1) reg1(3) [OF i] by simp
    qed
  qed
qed

section \<open>Invariant\<close>

definition usable_page :: "pmm \<Rightarrow> u64 \<Rightarrow> bool" where
  "usable_page s p \<longleftrightarrow> page_aligned p \<and> phys_in_usable_region s p"

definition free_set :: "pmm \<Rightarrow> u64 set" where
  "free_set s = {p. usable_page s p \<and> \<not> page_is_allocated s p}"

text \<open>
  The invariant of a ready allocator: the regions are well formed, a reserved page counts
  as allocated, the free counter is exact, a free page has no references, and a page that
  is allocated and not reserved has at least one.
\<close>

definition pmm_inv :: "pmm \<Rightarrow> bool" where
  "pmm_inv s \<longleftrightarrow> regions_ok s
     \<and> (\<forall>p. usable_page s p \<longrightarrow> is_reserved s p \<longrightarrow> page_is_allocated s p)
     \<and> unat (g_free_pages s) = card (free_set s)
     \<and> (\<forall>p. usable_page s p \<longrightarrow> \<not> page_is_allocated s p \<longrightarrow> page_refs s (p div PAGE_SIZE) = 0)
     \<and> (\<forall>p. usable_page s p \<longrightarrow> page_is_allocated s p \<longrightarrow> \<not> is_reserved s p \<longrightarrow>
           page_refs s (p div PAGE_SIZE) \<noteq> 0)"

lemma pmm_invD:
  assumes "pmm_inv s"
  shows "regions_ok s" "unat (g_free_pages s) = card (free_set s)"
    "usable_page s p \<Longrightarrow> is_reserved s p \<Longrightarrow> page_is_allocated s p"
    "usable_page s p \<Longrightarrow> \<not> page_is_allocated s p \<Longrightarrow> page_refs s (p div PAGE_SIZE) = 0"
    "usable_page s p \<Longrightarrow> page_is_allocated s p \<Longrightarrow> \<not> is_reserved s p \<Longrightarrow>
       page_refs s (p div PAGE_SIZE) \<noteq> 0"
  using assms by (auto simp: pmm_inv_def)

lemma usable_page_bounds:
  assumes "regions_ok s" "usable_page s p"
  shows "PMM_MIN_PHYS \<le> p" "p < PMM_TRACK_LIMIT" "tracked p" "p \<noteq> 0" "page_aligned p"
proof -
  obtain r where r: "r \<in> set (regions s)" "rg_base r \<le> p" "p < rg_end r"
    using assms(2) by (auto simp: usable_page_def phys_in_usable_region_def list_ex_iff)
  then have ok: "region_ok r" using assms(1) by (simp add: regions_ok_def list_all_iff)
  show lo: "PMM_MIN_PHYS \<le> p" using ok r(2) by (auto simp: region_ok_def)
  show hi: "p < PMM_TRACK_LIMIT" using ok r(3) by (auto simp: region_ok_def)
  then show "tracked p" by (simp add: tracked_def)
  show "p \<noteq> 0" using lo by auto
  show "page_aligned p" using assms(2) by (simp add: usable_page_def)
qed

lemma page_free_usable:
  "pmm_inv s \<Longrightarrow> usable_page s p \<Longrightarrow> page_free s p \<longleftrightarrow> \<not> page_is_allocated s p"
  using usable_page_bounds [of s p] by (auto simp: page_free_def pmm_inv_def)

lemma finite_free_set [simp]: "finite (free_set s)"
  by (rule finite_subset [OF subset_UNIV]) simp

lemma page_is_allocated_set_aligned:
  "tracked p \<Longrightarrow> page_aligned p \<Longrightarrow> page_aligned q \<Longrightarrow>
     page_is_allocated (page_set_allocated s p b) q \<longleftrightarrow> (if q = p then b else page_is_allocated s q)"
  using page_aligned_eq_iff_div [of q p] by (auto simp: page_is_allocated_set)

lemma take_page_allocated:
  "tracked p \<Longrightarrow> page_aligned p \<Longrightarrow> page_aligned q \<Longrightarrow>
     page_is_allocated (take_page s p) q \<longleftrightarrow> q = p \<or> page_is_allocated s q"
  by (simp add: page_is_allocated_set_aligned)

lemma same_but_cursors_usable: "same_but_cursors s t \<Longrightarrow> usable_page t = usable_page s"
  by (simp add: usable_page_def fun_eq_iff same_but_cursors_in_region)

lemma same_but_cursors_free_set: "same_but_cursors s t \<Longrightarrow> free_set t = free_set s"
  by (simp add: free_set_def same_but_cursors_usable same_but_cursors_frame)

lemma same_but_cursors_inv: "same_but_cursors s t \<Longrightarrow> pmm_inv s \<Longrightarrow> pmm_inv t"
  by (simp add: pmm_inv_def same_but_cursors_usable same_but_cursors_frame same_but_cursors_free_set
      same_but_cursors_region(2))

lemma take_page_usable: "usable_page (take_page s p) = usable_page s"
  by (simp add: usable_page_def phys_in_usable_region_def fun_eq_iff)

lemma take_page_free_set:
  assumes "regions_ok s" "usable_page s p"
  shows "free_set (take_page s p) = free_set s - {p}"
  using usable_page_bounds [OF assms] assms
  by (auto simp: free_set_def take_page_usable take_page_allocated usable_page_def
      simp del: take_page_frame(8))

lemma usable_page_index_eq:
  "usable_page s p \<Longrightarrow> usable_page s q \<Longrightarrow> p div PAGE_SIZE = q div PAGE_SIZE \<longleftrightarrow> p = q"
  by (simp add: usable_page_def page_aligned_eq_iff_div)

lemma take_page_inv:
  assumes inv: "pmm_inv s" and p: "p \<in> free_set s"
  shows "pmm_inv (take_page s p)"
proof -
  have reg: "regions_ok s" and u: "usable_page s p" and "\<not> page_is_allocated s p"
    using pmm_invD(1) [OF inv] p by (auto simp: free_set_def)
  note b = usable_page_bounds [OF reg u]
  have "card (free_set s) \<noteq> 0" using p by auto
  then have "g_free_pages s \<noteq> 0" using pmm_invD(2) [OF inv] by auto
  then have "unat (g_free_pages s - 1) = card (free_set s) - 1"
    using pmm_invD(2) [OF inv] by (metis unat_minus_one)
  then have card: "unat (g_free_pages (take_page s p)) = card (free_set (take_page s p))"
    using \<open>g_free_pages s \<noteq> 0\<close> p by (simp add: take_page_free_set [OF reg u] card_Diff_singleton)
  have al: "page_is_allocated (take_page s p) q \<longleftrightarrow> q = p \<or> page_is_allocated s q"
    if "usable_page s q" for q
    using that take_page_allocated b by (simp add: usable_page_def del: take_page_frame(8))
  show ?thesis
    using inv card u unfolding pmm_inv_def
    by (auto simp: take_page_usable al regions_ok_def usable_page_index_eq
        simp del: take_page_frame(8))
qed

section \<open>The four operations against the invariant\<close>

lemma alloc_regions_all:
  assumes inv: "pmm_inv s" and r: "alloc_result s [0..<length (regions s)] (p, s')"
  shows "\<exists>t. same_but_cursors s t \<and>
    (if free_set s = {} then p = 0 \<and> s' = t else p \<in> free_set s \<and> s' = take_page t p)"
proof -
  have f: "page_free s q \<longleftrightarrow> \<not> page_is_allocated s q" if "usable_page s q" for q
    using page_free_usable [OF inv that] .
  obtain t where t: "same_but_cursors s t" and d: "
     p = 0 \<and> s' = t \<and> (\<forall>q. usable_page s q \<longrightarrow> \<not> page_free s q)
     \<or> p \<noteq> 0 \<and> usable_page s p \<and> page_free s p \<and> s' = take_page t p"
    using r unfolding alloc_result_def usable_page_def in_region_nth
    by (cases "p = 0") (fastforce, fastforce)
  show ?thesis
    using t d f by (intro exI [of _ t]) (auto simp: free_set_def)
qed

lemma pmm_alloc_page_cases:
  assumes "pmm_inv s" "g_ready s" "g_hhdm s \<noteq> 0"
  shows "\<exists>t. same_but_cursors s t \<and>
    (if free_set s = {} then pmm_alloc_page s = (0, t)
     else fst (pmm_alloc_page s) \<in> free_set s
        \<and> snd (pmm_alloc_page s) = take_page t (fst (pmm_alloc_page s)))"
proof -
  have "alloc_result s [0..<length (regions s)] (pmm_alloc_page s)"
    using assms alloc_regions_spec [of s "[0..<length (regions s)]"]
    by (simp add: pmm_alloc_page_def pmm_inv_def)
  then show ?thesis
    using alloc_regions_all [OF assms(1), of "fst (pmm_alloc_page s)" "snd (pmm_alloc_page s)"]
    by (auto simp: prod_eq_iff split: if_splits)
qed

lemma pmm_alloc_page_inv: "pmm_inv s \<Longrightarrow> pmm_inv (snd (pmm_alloc_page s))"
proof (cases "g_ready s \<and> g_hhdm s \<noteq> 0")
  case True
  assume inv: "pmm_inv s"
  then obtain t where t: "same_but_cursors s t"
    and d: "if free_set s = {} then pmm_alloc_page s = (0, t)
     else fst (pmm_alloc_page s) \<in> free_set s
        \<and> snd (pmm_alloc_page s) = take_page t (fst (pmm_alloc_page s))"
    using True pmm_alloc_page_cases by blast
  then show ?thesis
    using take_page_inv [OF same_but_cursors_inv [OF t inv]] same_but_cursors_inv [OF t inv]
    by (auto simp: same_but_cursors_free_set [OF t] split: if_splits)
qed (auto simp: pmm_alloc_page_def)

lemma u16_le_1_iff: "(r :: u16) \<le> 1 \<longleftrightarrow> r = 0 \<or> r = 1"
proof
  assume "r \<le> 1"
  then have "unat r \<le> 1" by (simp add: word_le_nat_alt)
  then show "r = 0 \<or> r = 1" by (cases "unat r") (auto simp: word_unat_eq_iff)
qed auto

lemma free_in_regions_eq:
  "free_in_regions s p rs = (if list_ex (\<lambda>r. p \<ge> rg_base r \<and> p < rg_end r) rs then drop_page_ref s p else s)"
  by (induction rs) (auto simp: not_less not_le)

lemma pmm_free_page_eq:
  assumes "regions_ok s" "g_ready s"
  shows "pmm_free_page s p =
    (if usable_page s (page_of p) \<and> \<not> is_reserved s (page_of p) then drop_page_ref s (page_of p) else s)"
proof (cases "usable_page s (page_of p)")
  case True
  note b = usable_page_bounds [OF assms(1) True]
  have "page_of p < 0x10000000000000" using b(2) by (rule order_less_trans) simp
  then show ?thesis
    using assms(2) b True
    by (auto simp: pmm_free_page_def free_in_regions_eq usable_page_def phys_in_usable_region_def
        not_le Let_def)
next
  case False
  then have "\<not> phys_in_usable_region s (page_of p)" by (simp add: usable_page_def)
  then show ?thesis
    using False by (simp add: pmm_free_page_def free_in_regions_eq phys_in_usable_region_def Let_def)
qed

lemma drop_page_ref_frame [simp, frame_simps]:
  "regions (drop_page_ref s p) = regions s"
  "is_reserved (drop_page_ref s p) = is_reserved s"
  "usable_page (drop_page_ref s p) = usable_page s"
  "regions_ok (drop_page_ref s p) = regions_ok s"
  "g_ready (drop_page_ref s p) = g_ready s"
  "g_hhdm (drop_page_ref s p) = g_hhdm s"
  by (auto simp: drop_page_ref_def Let_def usable_page_def phys_in_usable_region_def fun_eq_iff
      regions_ok_def)

lemma drop_page_ref_allocated:
  "tracked p \<Longrightarrow> page_aligned p \<Longrightarrow> page_aligned q \<Longrightarrow>
     page_is_allocated (drop_page_ref s p) q \<longleftrightarrow>
       page_is_allocated s q \<and> \<not> (q = p \<and> page_refs s (p div PAGE_SIZE) \<le> 1)"
  by (auto simp: drop_page_ref_def Let_def page_is_allocated_set_aligned not_less)

lemma drop_page_ref_refs:
  "page_refs (drop_page_ref s p) =
     (if page_is_allocated s p then (page_refs s)(p div PAGE_SIZE := page_refs s (p div PAGE_SIZE)
        - (if page_refs s (p div PAGE_SIZE) = 0 then 0 else 1)) else page_refs s)"
  by (auto simp: drop_page_ref_def Let_def not_less u16_le_1_iff)

lemma free_set_card_bound: "regions_ok s \<Longrightarrow> card (free_set s) \<le> 2 ^ 32"
proof -
  assume ok: "regions_ok s"
  have "unat ` free_set s \<subseteq> {..<2 ^ 32}"
    using usable_page_bounds(2) [OF ok] by (auto simp: free_set_def word_less_nat_alt)
  then have "card (unat ` free_set s) \<le> card {..<(2 :: nat) ^ 32}"
    by (rule card_mono [OF finite_lessThan])
  moreover have "card (unat ` free_set s) = card (free_set s)"
    by (rule card_image) (auto simp: inj_on_def word_unat_eq_iff)
  ultimately show ?thesis by simp
qed

lemma drop_page_ref_free_set:
  assumes "regions_ok s" "usable_page s p"
  shows "free_set (drop_page_ref s p) =
    (if page_is_allocated s p \<and> page_refs s (p div PAGE_SIZE) \<le> 1 then insert p (free_set s) else free_set s)"
  using usable_page_bounds [OF assms] assms
  by (auto simp: free_set_def drop_page_ref_allocated usable_page_def)

lemma drop_page_ref_count:
  "g_free_pages (drop_page_ref s p) = g_free_pages s +
     (if page_is_allocated s p \<and> page_refs s (p div PAGE_SIZE) \<le> 1 then 1 else 0)"
  by (auto simp: drop_page_ref_def Let_def not_less)

lemma drop_page_ref_inv:
  assumes inv: "pmm_inv s" and u: "usable_page s p" and nr: "\<not> is_reserved s p"
  shows "pmm_inv (drop_page_ref s p)"
proof -
  note I = pmm_invD [OF inv]
  note b = usable_page_bounds [OF I(1) u]
  have notin: "page_is_allocated s p \<Longrightarrow> p \<notin> free_set s" by (simp add: free_set_def)
  have al: "page_is_allocated (drop_page_ref s p) q \<longleftrightarrow>
       page_is_allocated s q \<and> \<not> (q = p \<and> page_refs s (p div PAGE_SIZE) \<le> 1)"
    if "usable_page s q" for q
    using that b by (intro drop_page_ref_allocated) (auto simp: usable_page_def)
  have c: "unat (g_free_pages s + 1) = unat (g_free_pages s) + 1"
    using free_set_card_bound [OF I(1)] I(2) by (subst unat_word_ariths) simp
  have card: "unat (g_free_pages (drop_page_ref s p)) = card (free_set (drop_page_ref s p))"
    using I(2) c notin by (auto simp: drop_page_ref_count drop_page_ref_free_set [OF I(1) u])
  show ?thesis
    unfolding pmm_inv_def drop_page_ref_frame drop_page_ref_refs
    using I card u nr by (auto simp: al usable_page_index_eq u16_le_1_iff)
qed

lemma pmm_free_page_inv: "pmm_inv s \<Longrightarrow> pmm_inv (pmm_free_page s p)"
proof (cases "g_ready s")
  case True
  assume inv: "pmm_inv s"
  then show ?thesis
    using True drop_page_ref_inv [OF inv] pmm_invD(1) [OF inv] by (simp add: pmm_free_page_eq)
qed (simp add: pmm_free_page_def)

lemma u16_inc_nonzero: "(r :: u16) \<noteq> 0xFFFF \<Longrightarrow> r + 1 \<noteq> 0"
  using eq_neg_iff_add_eq_0 [of r 1] by auto

lemma pmm_retain_page_frame [simp, frame_simps]:
  "regions (snd (pmm_retain_page s p)) = regions s"
  "is_reserved (snd (pmm_retain_page s p)) = is_reserved s"
  "page_is_allocated (snd (pmm_retain_page s p)) = page_is_allocated s"
  "g_free_pages (snd (pmm_retain_page s p)) = g_free_pages s"
  "usable_page (snd (pmm_retain_page s p)) = usable_page s"
  "free_set (snd (pmm_retain_page s p)) = free_set s"
  "g_ready (snd (pmm_retain_page s p)) = g_ready s"
  "g_hhdm (snd (pmm_retain_page s p)) = g_hhdm s"
  by (auto simp: pmm_retain_page_def Let_def usable_page_def phys_in_usable_region_def fun_eq_iff
      free_set_def)

lemma pmm_retain_page_refs:
  "fst (pmm_retain_page s p) \<longleftrightarrow> g_ready s \<and> page_of p \<noteq> 0 \<and> page_of p < PMM_TRACK_LIMIT
     \<and> \<not> is_reserved s (page_of p) \<and> page_is_allocated s (page_of p)
     \<and> page_refs s (page_of p div PAGE_SIZE) \<noteq> UINT16_MAX"
  "page_refs (snd (pmm_retain_page s p)) =
     (if fst (pmm_retain_page s p)
      then (page_refs s)(page_of p div PAGE_SIZE := page_refs s (page_of p div PAGE_SIZE) + 1)
      else page_refs s)"
  by (auto simp: pmm_retain_page_def Let_def not_le)

lemma pmm_retain_page_inv: "pmm_inv s \<Longrightarrow> pmm_inv (snd (pmm_retain_page s p))"
proof -
  assume inv: "pmm_inv s"
  have refs: "page_refs (snd (pmm_retain_page s p)) (q div PAGE_SIZE) = 0 \<longleftrightarrow>
      page_refs s (q div PAGE_SIZE) = 0" if "usable_page s q" "\<not> page_is_allocated s q \<or> \<not> is_reserved s q" for q
    using that pmm_invD [OF inv] u16_inc_nonzero
      page_aligned_eq_iff_div [of q "page_of p"]
    by (auto simp: pmm_retain_page_refs usable_page_def split: if_splits)
  show ?thesis
    using pmm_invD [OF inv] refs unfolding pmm_inv_def
    by (auto simp: regions_ok_def)
qed

section \<open>Reservation\<close>

lemma is_reserved_set_aligned:
  "page_aligned p \<Longrightarrow> page_aligned q \<Longrightarrow>
     is_reserved (page_set_reserved s p) q \<longleftrightarrow> is_reserved s q \<or> q = p \<and> tracked p"
  using page_aligned_eq_iff_div [of q p] by (auto simp: is_reserved_def page_is_reserved_set)

lemma is_reserved_fast_eq: "page_is_reserved_fast s (page_of p) = is_reserved s p"
  by (simp add: is_reserved_def)

text \<open>What \<^verbatim>\<open>reserve_page\<close> does to a page: it succeeds unless the address is out of
  range, the page is reserved already or the table is full.\<close>

lemma reserve_page_result:
  "fst (reserve_page s p) \<longleftrightarrow> page_of p \<noteq> 0 \<and> page_of p < 0x10000000000000 \<and> \<not> is_reserved s p
     \<and> length (reserved_pages s) < MAX_RESERVED_PAGES"
  by (auto simp: reserve_page_def Let_def not_le is_reserved_fast_eq)

lemma reserve_page_frame [simp, frame_simps]:
  "regions (snd (reserve_page s p)) = regions s"
  "page_refs (snd (reserve_page s p)) = page_refs s"
  "g_ready (snd (reserve_page s p)) = g_ready s"
  "g_hhdm (snd (reserve_page s p)) = g_hhdm s"
  "g_total_pages (snd (reserve_page s p)) = g_total_pages s"
  "usable_page (snd (reserve_page s p)) = usable_page s"
  by (auto simp: reserve_page_def Let_def usable_page_def phys_in_usable_region_def fun_eq_iff)

lemma reserve_page_reserved:
  assumes "page_aligned q"
  shows "is_reserved (snd (reserve_page s p)) q \<longleftrightarrow>
    is_reserved s q \<or> fst (reserve_page s p) \<and> q = page_of p \<and> tracked (page_of p)"
  using assms by (auto simp: reserve_page_def Let_def is_reserved_set_aligned)

lemma reserve_page_allocated:
  assumes "page_aligned q"
  shows "page_is_allocated (snd (reserve_page s p)) q \<longleftrightarrow>
    page_is_allocated s q \<or> fst (reserve_page s p) \<and> g_ready s \<and> q = page_of p \<and> phys_in_usable_region s q"
proof -
  have "tracked (page_of p)" if "\<not> page_is_allocated s (page_of p)"
    using that by (auto simp: page_is_allocated_def split: if_splits)
  then show ?thesis
    using assms by (auto simp: reserve_page_def Let_def page_is_allocated_set_aligned)
qed

lemma reserve_page_free_set:
  "free_set (snd (reserve_page s p)) =
     (if fst (reserve_page s p) \<and> g_ready s then free_set s - {page_of p} else free_set s)"
  by (auto simp: free_set_def reserve_page_allocated usable_page_def)

lemma reserve_page_count:
  "g_free_pages (snd (reserve_page s p)) =
     (if fst (reserve_page s p) \<and> g_ready s \<and> page_of p \<in> free_set s \<and> g_free_pages s \<noteq> 0
      then g_free_pages s - 1 else g_free_pages s)"
  by (auto simp: reserve_page_def Let_def free_set_def usable_page_def)

lemma reserve_page_inv:
  assumes inv: "pmm_inv s" and rdy: "g_ready s"
  shows "pmm_inv (snd (reserve_page s p))"
proof -
  note I = pmm_invD [OF inv]
  have ne: "page_of p \<in> free_set s \<Longrightarrow> g_free_pages s \<noteq> 0" using I(2) by auto
  have card: "unat (g_free_pages (snd (reserve_page s p))) = card (free_set (snd (reserve_page s p)))"
    using I(2) rdy ne
    by (auto simp: reserve_page_count reserve_page_free_set card_Diff_singleton unat_minus_one)
  have tr: "page_aligned q \<Longrightarrow> phys_in_usable_region s q \<Longrightarrow> tracked q" for q
    using usable_page_bounds(3) [OF I(1)] by (simp add: usable_page_def)
  show ?thesis
    unfolding pmm_inv_def reserve_page_frame
    using I card rdy tr
    by (auto simp: reserve_page_reserved reserve_page_allocated regions_ok_def usable_page_def)
qed

lemma reserve_range_loop_inv:
  "pmm_inv s \<Longrightarrow> g_ready s \<Longrightarrow>
     pmm_inv (reserve_range_loop s p e) \<and> g_ready (reserve_range_loop s p e)"
proof (induction s p e rule: reserve_range_loop.induct)
  case (1 s p e)
  then show ?case
    by (subst (1 2) reserve_range_loop.simps) (simp add: Let_def reserve_page_inv not_less)
qed

lemma pmm_reserve_range_inv:
  "pmm_inv s \<Longrightarrow> g_ready s \<Longrightarrow> pmm_inv (pmm_reserve_range s b l) \<and> g_ready (pmm_reserve_range s b l)"
  using reserve_range_loop_inv by (simp add: pmm_reserve_range_def Let_def)

end
