(* ===== verification/Pmm_Boot.thy ===== *)
theory Pmm_Boot
  imports Pmm
begin

text \<open>
  Boot of the physical memory manager: the hash set of visited page tables, and the proof
  that \<^verbatim>\<open>pmm_init\<close> establishes the allocator invariant when the usable entries of
  the memory map do not overlap.
\<close>

section \<open>The set of visited page tables\<close>

text \<open>
  \<^verbatim>\<open>seen_page_tables\<close> is an open-addressing hash set with linear probing and no
  deletion. \<open>slot_at h j\<close> is the slot of probe \<open>j\<close> from the home slot \<open>h\<close>.
\<close>

definition slot_at :: "u64 \<Rightarrow> nat \<Rightarrow> u64" where
  "slot_at h j = word_of_nat ((unat h + j) mod PAGE_TABLE_HASH_SIZE)"

lemma and_hash_mask: "(x :: u64) AND 0x1FFFF = word_of_nat (unat x mod 131072)"
proof -
  have "(0x1FFFF :: u64) = mask 17" by (simp add: mask_eq_exp_minus_1)
  then have "x AND 0x1FFFF = take_bit 17 x" by (simp add: take_bit_eq_mask)
  then show ?thesis by (simp add: word_unat_eq_iff take_bit_eq_mod unat_mod unat_of_nat)
qed

lemma unat_slot_at: "unat (slot_at h j) = (unat h + j) mod 131072"
  by (simp add: slot_at_def unat_of_nat)

lemma slot_at_0: "unat h < 131072 \<Longrightarrow> slot_at h 0 = h"
  by (simp add: slot_at_def)

lemma slot_at_Suc: "(slot_at h j + 1) AND 0x1FFFF = slot_at h (Suc j)"
proof -
  have "unat (slot_at h j) < 131072" by (simp add: unat_slot_at)
  then have "unat (slot_at h j + 1) = unat (slot_at h j) + 1"
    by (subst unat_word_ariths) simp
  then show ?thesis
    by (simp add: and_hash_mask unat_slot_at) (simp add: slot_at_def mod_simps)
qed

lemma slot_at_surj: "unat t < 131072 \<Longrightarrow> \<exists>j<131072. slot_at h j = t"
proof -
  assume t: "unat t < 131072"
  let ?j = "(unat t + (131072 - unat h mod 131072)) mod 131072"
  have "(unat h + ?j) mod 131072 = (unat h + (unat t + (131072 - unat h mod 131072))) mod 131072"
    by (rule mod_add_right_eq)
  also have "\<dots> = (unat h mod 131072 + (unat t + (131072 - unat h mod 131072))) mod 131072"
    by (rule mod_add_left_eq [symmetric])
  also have "\<dots> = (unat t + 131072) mod 131072"
    by (rule arg_cong [of _ _ "\<lambda>x. x mod 131072"])
      (use mod_less_divisor [of 131072 "unat h"] in simp)
  also have "\<dots> = unat t" using t by simp
  finally have "slot_at h ?j = t" by (simp add: slot_at_def)
  then show ?thesis by (intro exI [of _ ?j]) simp
qed

lemma page_table_slot_bound: "unat (page_table_slot p) < 131072"
  by (simp add: page_table_slot_def and_hash_mask unat_of_nat)

text \<open>The three ways a probe sequence ends.\<close>

definition probed :: "pmm \<Rightarrow> u64 \<Rightarrow> u64 \<Rightarrow> nat \<Rightarrow> bool" where
  "probed s phys h k \<longleftrightarrow> (\<forall>i<k. seen_page_tables s (slot_at h i) \<noteq> 0
      \<and> seen_page_tables s (slot_at h i) \<noteq> phys)"

definition seen_insert :: "pmm \<Rightarrow> u64 \<Rightarrow> u64 \<Rightarrow> pmm" where
  "seen_insert s slot phys = s\<lparr>seen_page_tables := (seen_page_tables s)(slot := phys),
     seen_page_table_count := seen_page_table_count s + 1\<rparr>"

lemma page_table_probe_cases:
  assumes "probed s phys h j" "j + n = PAGE_TABLE_HASH_SIZE"
  shows "(\<exists>k<PAGE_TABLE_HASH_SIZE. probed s phys h k \<and> seen_page_tables s (slot_at h k) = phys
        \<and> page_table_probe s phys (slot_at h j) n = (True, s))
    \<or> (\<exists>k<PAGE_TABLE_HASH_SIZE. probed s phys h k \<and> seen_page_tables s (slot_at h k) = 0
        \<and> seen_page_tables s (slot_at h k) \<noteq> phys
        \<and> page_table_probe s phys (slot_at h j) n = (False, seen_insert s (slot_at h k) phys))
    \<or> probed s phys h PAGE_TABLE_HASH_SIZE \<and> page_table_probe s phys (slot_at h j) n = (True, s)"
  using assms
proof (induction n arbitrary: j)
  case 0
  then show ?case by simp
next
  case (Suc n)
  let ?old = "seen_page_tables s (slot_at h j)"
  have j: "j < 131072" using Suc.prems(2) by simp
  consider "?old = phys" | "?old \<noteq> phys" "?old = 0" | "?old \<noteq> phys" "?old \<noteq> 0" by blast
  then show ?case
  proof cases
    case 3
    then have "probed s phys h (Suc j)" using Suc.prems(1) by (auto simp: probed_def less_Suc_eq)
    moreover have "page_table_probe s phys (slot_at h j) (Suc n) = page_table_probe s phys (slot_at h (Suc j)) n"
      using 3 by (simp add: Let_def slot_at_Suc)
    ultimately show ?thesis using Suc.IH [of "Suc j"] Suc.prems(2) by simp
  qed (use Suc.prems(1) j in \<open>auto simp: Let_def seen_insert_def\<close>)
qed

definition seen_set :: "pmm \<Rightarrow> u64 set" where
  "seen_set s = {x. x \<noteq> 0 \<and> (\<exists>t. unat t < PAGE_TABLE_HASH_SIZE \<and> seen_page_tables s t = x)}"

text \<open>
  The table invariant: the slots probed before the one that holds a key are occupied, and
  the counter counts the occupied slots.
\<close>

definition seen_ok :: "pmm \<Rightarrow> bool" where
  "seen_ok s \<longleftrightarrow>
     (\<forall>t. unat t < PAGE_TABLE_HASH_SIZE \<longrightarrow> seen_page_tables s t \<noteq> 0 \<longrightarrow>
        (\<exists>k. slot_at (page_table_slot (seen_page_tables s t)) k = t
           \<and> (\<forall>i<k. seen_page_tables s (slot_at (page_table_slot (seen_page_tables s t)) i) \<noteq> 0)))
     \<and> seen_page_table_count s = card {t. unat t < PAGE_TABLE_HASH_SIZE \<and> seen_page_tables s t \<noteq> 0}"

lemma slot_at_bound [simp]: "unat (slot_at h k) < 131072"
  by (simp add: unat_slot_at)

lemma seen_ok_empty: "seen_ok (s\<lparr>seen_page_table_count := 0, seen_page_tables := (\<lambda>_. 0)\<rparr>)"
  by (simp add: seen_ok_def)

lemma seen_table_not_full:
  assumes "seen_ok s" "seen_page_table_count s < MAX_PAGE_TABLES"
  shows "\<not> probed s phys h PAGE_TABLE_HASH_SIZE"
proof
  assume p: "probed s phys h PAGE_TABLE_HASH_SIZE"
  have "{t :: u64. unat t < 131072} \<subseteq> {t. unat t < 131072 \<and> seen_page_tables s t \<noteq> 0}"
  proof (clarsimp)
    fix t :: u64 assume "unat t < 131072" "seen_page_tables s t = 0"
    then show False using p slot_at_surj [of t h] by (auto simp: probed_def)
  qed
  then have "card {t :: u64. unat t < 131072} \<le> seen_page_table_count s"
    using assms(1) by (auto simp: seen_ok_def intro!: card_mono)
  moreover have "card {t :: u64. unat t < 131072} = 131072"
  proof -
    have "unat ` {t :: u64. unat t < 131072} = {..<131072}"
    proof (intro equalityI subsetI)
      fix x :: nat assume "x \<in> {..<131072}"
      then show "x \<in> unat ` {t :: u64. unat t < 131072}"
        by (intro image_eqI [of _ _ "word_of_nat x"]) (simp_all add: unat_of_nat)
    qed auto
    moreover have "inj_on unat {t :: u64. unat t < 131072}"
      by (auto simp: inj_on_def word_unat_eq_iff)
    ultimately show ?thesis by (metis card_image card_lessThan)
  qed
  ultimately show False using assms(2) by simp
qed

lemma seen_probe_member:
  assumes "seen_ok s" "phys \<in> seen_set s"
  shows "\<not> (probed s phys (page_table_slot phys) k \<and> seen_page_tables s (slot_at (page_table_slot phys) k) = 0)"
proof
  assume a: "probed s phys (page_table_slot phys) k \<and> seen_page_tables s (slot_at (page_table_slot phys) k) = 0"
  obtain t where "phys \<noteq> 0" "unat t < 131072" and t: "seen_page_tables s t = phys"
    using assms(2) by (auto simp: seen_set_def)
  then obtain k' where "slot_at (page_table_slot phys) k' = t"
    and "\<forall>i<k'. seen_page_tables s (slot_at (page_table_slot phys) i) \<noteq> 0"
    using assms(1) by (fastforce simp: seen_ok_def)
  then show False using a t \<open>phys \<noteq> 0\<close> unfolding probed_def by (metis linorder_neqE_nat)
qed

lemma seen_insert_ok:
  assumes ok: "seen_ok s" and pr: "probed s phys (page_table_slot phys) k"
    and free: "seen_page_tables s (slot_at (page_table_slot phys) k) = 0" and nz: "phys \<noteq> 0"
  shows "seen_ok (seen_insert s (slot_at (page_table_slot phys) k) phys)"
proof -
  let ?t = "slot_at (page_table_slot phys) k"
  have "{t. unat t < 131072 \<and> ((seen_page_tables s)(?t := phys)) t \<noteq> 0}
      = insert ?t {t. unat t < 131072 \<and> seen_page_tables s t \<noteq> 0}"
    using nz by auto
  then have c: "card {t. unat t < 131072 \<and> ((seen_page_tables s)(?t := phys)) t \<noteq> 0}
      = Suc (card {t. unat t < 131072 \<and> seen_page_tables s t \<noteq> 0})"
    using free by (simp add: card_insert_disjoint)
  have ch: "\<exists>k'. slot_at (page_table_slot (((seen_page_tables s)(?t := phys)) t)) k' = t
      \<and> (\<forall>i<k'. ((seen_page_tables s)(?t := phys)) (slot_at (page_table_slot (((seen_page_tables s)(?t := phys)) t)) i) \<noteq> 0)"
    if "unat t < 131072" "((seen_page_tables s)(?t := phys)) t \<noteq> 0" for t
  proof (cases "t = ?t")
    case True
    then show ?thesis using pr nz by (intro exI [of _ k]) (auto simp: probed_def)
  next
    case False
    then show ?thesis using ok that nz by (fastforce simp: seen_ok_def)
  qed
  show ?thesis
    using c ch ok unfolding seen_ok_def seen_insert_def by simp
qed

lemma seen_set_insert:
  assumes "unat t < PAGE_TABLE_HASH_SIZE" "seen_page_tables s t = 0" "phys \<noteq> 0"
  shows "seen_set (seen_insert s t phys) = insert phys (seen_set s)"
proof (rule set_eqI)
  fix x
  have "(\<exists>t'. unat t' < 131072 \<and> ((seen_page_tables s)(t := phys)) t' = x) \<longleftrightarrow>
      x = phys \<or> (\<exists>t'. unat t' < 131072 \<and> seen_page_tables s t' = x)" if "x \<noteq> 0"
    using assms that by (auto split: if_splits)
  then show "x \<in> seen_set (seen_insert s t phys) \<longleftrightarrow> x \<in> insert phys (seen_set s)"
    using assms(3) by (auto simp: seen_set_def seen_insert_def simp del: fun_upd_apply)
qed

text \<open>\<^verbatim>\<open>page_table_seen\<close> refines insertion into a set with a membership answer.\<close>

lemma page_table_seen_refines:
  assumes ok: "seen_ok s" and room: "seen_page_table_count s < MAX_PAGE_TABLES" and nz: "phys \<noteq> 0"
  shows "fst (page_table_seen s phys) \<longleftrightarrow> phys \<in> seen_set s"
    and "seen_set (snd (page_table_seen s phys)) = insert phys (seen_set s)"
    and "seen_ok (snd (page_table_seen s phys))"
proof -
  let ?h = "page_table_slot phys"
  have eq: "page_table_seen s phys = page_table_probe s phys (slot_at ?h 0) PAGE_TABLE_HASH_SIZE"
    using room by (simp add: page_table_seen_def slot_at_0 page_table_slot_bound)
  consider (found) k where "seen_page_tables s (slot_at ?h k) = phys" "page_table_seen s phys = (True, s)"
    | (new) k where "probed s phys ?h k" "seen_page_tables s (slot_at ?h k) = 0"
        "page_table_seen s phys = (False, seen_insert s (slot_at ?h k) phys)"
    using page_table_probe_cases [of s phys ?h 0 PAGE_TABLE_HASH_SIZE] seen_table_not_full [OF ok room]
    unfolding eq by (auto simp: probed_def [of s phys ?h 0])
  then have "(fst (page_table_seen s phys) \<longleftrightarrow> phys \<in> seen_set s)
    \<and> seen_set (snd (page_table_seen s phys)) = insert phys (seen_set s)
    \<and> seen_ok (snd (page_table_seen s phys))"
  proof cases
    case found
    then have "phys \<in> seen_set s" using nz by (auto simp: seen_set_def intro!: exI [of _ "slot_at ?h k"])
    then show ?thesis using found ok by (simp add: insert_absorb)
  next
    case new
    then have "phys \<notin> seen_set s" using seen_probe_member [OF ok] by blast
    moreover have "seen_set (seen_insert s (slot_at ?h k) phys) = insert phys (seen_set s)"
      by (rule seen_set_insert [OF _ new(2) nz]) simp
    ultimately show ?thesis using new seen_insert_ok [OF ok new(1,2) nz] by simp
  qed
  then show "fst (page_table_seen s phys) \<longleftrightarrow> phys \<in> seen_set s"
    "seen_set (snd (page_table_seen s phys)) = insert phys (seen_set s)"
    "seen_ok (snd (page_table_seen s phys))" by blast+
qed

section \<open>Initialisation establishes the invariant\<close>

lemma card_aligned_range:
  assumes "page_aligned a" "page_aligned b" "a < b"
  shows "card {p. page_aligned p \<and> a \<le> p \<and> p < b} = unat ((b - a) div PAGE_SIZE)"
proof -
  obtain i j where a: "unat a = 4096 * i" and b: "unat b = 4096 * j"
    using assms(1,2) by (auto simp: page_aligned_iff_dvd elim!: dvdE)
  have lt: "unat a < unat b" using assms(3) by (simp add: word_less_nat_alt)
  then have ij: "i < j" by (simp add: a b)
  have u: "unat (4096 * word_of_nat k :: u64) = 4096 * k" if "k < j" for k
    using that b unat_lt_64 [of b] by (simp add: unat_word_ariths unat_of_nat)
  have "bij_betw (\<lambda>k. 4096 * word_of_nat k) {i..<j} {p. page_aligned p \<and> a \<le> p \<and> p < b}"
  proof (rule bij_betw_byWitness [where f' = "\<lambda>p. unat p div 4096"])
    show "\<forall>k\<in>{i..<j}. unat (4096 * word_of_nat k :: u64) div 4096 = k" by (simp add: u)
    show "\<forall>p\<in>{p. page_aligned p \<and> a \<le> p \<and> p < b}. 4096 * word_of_nat (unat p div 4096) = p"
      using b u by (auto simp: page_aligned_iff_dvd word_unat_eq_iff word_less_nat_alt elim!: dvdE)
    show "(\<lambda>k. 4096 * word_of_nat k) ` {i..<j} \<subseteq> {p. page_aligned p \<and> a \<le> p \<and> p < b}"
      by (auto simp: page_aligned_iff_dvd u word_le_nat_alt word_less_nat_alt a b)
    show "(\<lambda>p. unat p div 4096) ` {p. page_aligned p \<and> a \<le> p \<and> p < b} \<subseteq> {i..<j}"
      by (auto simp: page_aligned_iff_dvd word_le_nat_alt word_less_nat_alt a b elim!: dvdE)
  qed
  then have "card {p. page_aligned p \<and> a \<le> p \<and> p < b} = j - i"
    using bij_betw_same_card by fastforce
  moreover have "unat (b - a) = 4096 * (j - i)"
    using lt a b by (simp add: unat_sub_if' word_le_nat_alt diff_mult_distrib2)
  ultimately show ?thesis by (simp add: unat_div)
qed

text \<open>
  The Limine protocol guarantees that usable entries of the memory map do not overlap:
  the first of two such entries ends before the second begins, or the other way round.
\<close>

fun entry_disjoint :: "limine_memmap_entry option \<Rightarrow> limine_memmap_entry option \<Rightarrow> bool" where
  "entry_disjoint (Some a) (Some b) \<longleftrightarrow>
     me_type a = LIMINE_MEMMAP_USABLE \<longrightarrow> me_type b = LIMINE_MEMMAP_USABLE \<longrightarrow>
     unat (me_base a) + unat (me_length a) \<le> unat (me_base b)
     \<or> unat (me_base b) + unat (me_length b) \<le> unat (me_base a)"
| "entry_disjoint _ _ \<longleftrightarrow> True"

definition memmap_disjoint :: "limine_memmap_entry option list \<Rightarrow> bool" where
  "memmap_disjoint es \<longleftrightarrow> sorted_wrt entry_disjoint es"

definition in_entry :: "limine_memmap_entry \<Rightarrow> u64 \<Rightarrow> bool" where
  "in_entry e p \<longleftrightarrow> me_type e = LIMINE_MEMMAP_USABLE \<and> unat (me_base e) \<le> unat p
     \<and> unat p < unat (me_base e) + unat (me_length e)"

lemma in_entry_disjoint:
  "entry_disjoint (Some a) (Some b) \<Longrightarrow> in_entry a p \<Longrightarrow> \<not> in_entry b p"
  by (auto simp: in_entry_def)

lemma align_down_le: "align_down x \<le> x" "page_aligned (align_down x)"
  by (simp_all add: align_down_def word_and_le2)

lemma align_up_ge:
  assumes "unat x + 4096 \<le> 2 ^ 64"
  shows "x \<le> align_up x" "page_aligned (align_up x)"
proof -
  have u: "unat (x + 4095) = unat x + 4095"
    using assms by (subst unat_word_ariths) simp
  have "unat (align_up x) = unat (x + 4095) - unat (x + 4095) mod 4096"
    using unat_and_not_4095 [of "x + 4095"] by (simp add: align_up_def add.commute)
  then have "unat x \<le> unat (align_up x)"
    using u mod_less_divisor [of 4096 "unat (x + 4095)"] by simp
  then show "x \<le> align_up x" by (simp add: word_le_nat_alt)
  show "page_aligned (align_up x)" by (simp add: align_up_def)
qed

lemma pmm_add_region_cases:
  obtains "pmm_add_region s eo = s"
  | e r where "eo = Some e" "region_ok r" "rg_next r = rg_base r"
      "\<And>p. rg_base r \<le> p \<Longrightarrow> p < rg_end r \<Longrightarrow> in_entry e p"
      "pmm_add_region s eo = s\<lparr>regions := regions s @ [r],
         g_free_pages := g_free_pages s + (rg_end r - rg_base r) div PAGE_SIZE,
         g_total_pages := g_total_pages s + (rg_end r - rg_base r) div PAGE_SIZE\<rparr>"
proof (cases "pmm_add_region s eo = s")
  case False
  then obtain e where e: "eo = Some e" by (auto simp: pmm_add_region_def split: option.splits)
  define st where "st = (if align_up (me_base e) < PMM_MIN_PHYS then PMM_MIN_PHYS else align_up (me_base e))"
  define en where "en = (if align_down (me_base e + me_length e) > PMM_TRACK_LIMIT then PMM_TRACK_LIMIT
      else align_down (me_base e + me_length e))"
  let ?r = "\<lparr>rg_base = st, rg_end = en, rg_next = st, rg_free_head = 0\<rparr>"
  have g: "me_type e = 0" "\<not> me_length e < PAGE_SIZE" "\<not> me_base e + me_length e < me_base e" "\<not> st \<ge> en"
    and eq: "pmm_add_region s eo = s\<lparr>regions := regions s @ [?r],
         g_free_pages := g_free_pages s + (en - st) div PAGE_SIZE,
         g_total_pages := g_total_pages s + (en - st) div PAGE_SIZE\<rparr>"
    using False by (auto simp: e pmm_add_region_def Let_def st_def en_def split: if_splits)
  have sum: "unat (me_base e + me_length e) = unat (me_base e) + unat (me_length e)"
    using g(3) by (simp add: not_less unat_plus_simple)
  then have "unat (me_base e) + 4096 \<le> 2 ^ 64"
    using g(2) unat_lt_64 [of "me_base e + me_length e"] by (simp add: word_less_nat_alt)
  note up = align_up_ge [OF this]
  have st: "me_base e \<le> st" "page_aligned st" "PMM_MIN_PHYS \<le> st"
    using up unfolding st_def by (auto simp: page_aligned_def intro: order_trans)
  have en: "en \<le> me_base e + me_length e" "page_aligned en" "en \<le> PMM_TRACK_LIMIT"
    using align_down_le [of "me_base e + me_length e"] unfolding en_def
    by (auto simp: page_aligned_def intro: order_trans less_imp_le)
  show thesis
  proof (rule that(2) [OF e, of ?r])
    show "region_ok ?r" using st en g(4) by (simp add: region_ok_def not_le less_imp_le)
    show "in_entry e p" if "rg_base ?r \<le> p" "p < rg_end ?r" for p
      using that st(1) en(1) g(1) sum by (auto simp: in_entry_def word_le_nat_alt word_less_nat_alt)
  qed (use eq in simp_all)
qed (rule that(1))

lemma usable_pages_card_bound: "regions_ok s \<Longrightarrow> card {p. usable_page s p} \<le> 2 ^ 32"
proof -
  assume ok: "regions_ok s"
  have "unat ` {p. usable_page s p} \<subseteq> {..<2 ^ 32}"
    using usable_page_bounds(2) [OF ok] by (auto simp: word_less_nat_alt)
  then have "card (unat ` {p. usable_page s p}) \<le> card {..<(2 :: nat) ^ 32}"
    by (rule card_mono [OF finite_lessThan])
  moreover have "card (unat ` {p. usable_page s p}) = card {p. usable_page s p}"
    by (rule card_image) (auto simp: inj_on_def word_unat_eq_iff)
  ultimately show ?thesis by simp
qed

lemma add_region_usable:
  "{p. usable_page (s\<lparr>regions := regions s @ [r], g_free_pages := x, g_total_pages := y\<rparr>) p} =
     {p. usable_page s p} \<union> {p. page_aligned p \<and> rg_base r \<le> p \<and> p < rg_end r}"
  by (auto simp: usable_page_def phys_in_usable_region_def)

text \<open>
  What the region loop keeps: well-formed regions and an exact count, while every region
  lies inside one of the entries already processed (the complement of the ones to come).
\<close>

definition regions_counted :: "pmm \<Rightarrow> bool" where
  "regions_counted s \<longleftrightarrow> regions_ok s \<and> unat (g_free_pages s) = card {p. usable_page s p}
     \<and> g_total_pages s = g_free_pages s"

lemma pmm_add_region_counted:
  assumes c: "regions_counted s" and d: "\<And>e p. eo = Some e \<Longrightarrow> in_entry e p \<Longrightarrow> \<not> usable_page s p"
  shows "regions_counted (pmm_add_region s eo)"
proof (cases rule: pmm_add_region_cases [of s eo])
  case 1
  then show ?thesis using c by simp
next
  case (2 e r)
  let ?s = "s\<lparr>regions := regions s @ [r],
     g_free_pages := g_free_pages s + (rg_end r - rg_base r) div PAGE_SIZE,
     g_total_pages := g_total_pages s + (rg_end r - rg_base r) div PAGE_SIZE\<rparr>"
  have ok: "regions_ok ?s" using c 2(2) by (simp add: regions_counted_def regions_ok_def)
  let ?R = "{p. page_aligned p \<and> rg_base r \<le> p \<and> p < rg_end r}"
  have "card {p. usable_page ?s p} = card {p. usable_page s p} + card ?R"
    unfolding add_region_usable using d [OF 2(1)] 2(4) by (intro card_Un_disjoint) auto
  also have "card ?R = unat ((rg_end r - rg_base r) div PAGE_SIZE)"
    using 2(2) by (intro card_aligned_range) (simp_all add: region_ok_def)
  finally have card: "card {p. usable_page ?s p} =
      unat (g_free_pages s) + unat ((rg_end r - rg_base r) div PAGE_SIZE)"
    using c by (simp add: regions_counted_def)
  then have "unat (g_free_pages s + (rg_end r - rg_base r) div PAGE_SIZE) = card {p. usable_page ?s p}"
    using usable_pages_card_bound [OF ok] by (subst unat_word_ariths) simp
  then have "regions_counted ?s" using ok c by (simp add: regions_counted_def)
  then show ?thesis using 2(5) by simp
qed

lemma pmm_add_region_usable:
  "usable_page (pmm_add_region s eo) p \<Longrightarrow> usable_page s p \<or> (\<exists>e. eo = Some e \<and> in_entry e p)"
  by (cases rule: pmm_add_region_cases [of s eo])
    (auto simp: usable_page_def phys_in_usable_region_def)

lemma pmm_add_regions_counted:
  assumes "regions_counted s" "memmap_disjoint es"
    "\<And>e p. Some e \<in> set es \<Longrightarrow> in_entry e p \<Longrightarrow> \<not> usable_page s p"
  shows "regions_counted (pmm_add_regions s es)"
  using assms
proof (induction es arbitrary: s)
  case (Cons eo es)
  have "regions_counted (pmm_add_region s eo)"
    by (rule pmm_add_region_counted) (use Cons.prems in auto)
  moreover have "\<not> usable_page (pmm_add_region s eo) p" if "Some e \<in> set es" "in_entry e p" for e p
    using that Cons.prems(2,3) pmm_add_region_usable [of s eo p] in_entry_disjoint
    by (fastforce simp: memmap_disjoint_def)
  ultimately show ?case
    using Cons.IH [of "pmm_add_region s eo"] Cons.prems by (simp add: memmap_disjoint_def)
qed simp

text \<open>The invariant of the reservation phase, before the bitmap is filled.\<close>

definition boot_inv :: "pmm \<Rightarrow> bool" where
  "boot_inv s \<longleftrightarrow> \<not> g_ready s \<and> regions_counted s \<and> page_state s = (\<lambda>_. 0) \<and> page_refs s = (\<lambda>_. 0)
     \<and> (\<forall>p. page_aligned p \<longrightarrow> (is_reserved s p \<longleftrightarrow> tracked p \<and> p \<in> set (reserved_pages s)))
     \<and> distinct (filter tracked (reserved_pages s)) \<and> (\<forall>p\<in>set (reserved_pages s). page_aligned p)"

lemma reserve_page_not_ready:
  assumes "fst (reserve_page s p)" "\<not> g_ready s"
  shows "snd (reserve_page s p) =
    page_set_reserved (s\<lparr>reserved_pages := reserved_pages s @ [page_of p]\<rparr>) (page_of p)"
proof -
  have "\<not> page_of p \<ge> 0x10000000000000" "\<not> length (reserved_pages s) \<ge> MAX_RESERVED_PAGES"
    "page_of p \<noteq> 0" "\<not> is_reserved s p"
    using assms(1) by (simp_all add: reserve_page_result not_le)
  then show ?thesis using assms(2) by (simp add: reserve_page_def Let_def is_reserved_fast_eq)
qed

lemma reserve_page_failed: "\<not> fst (reserve_page s p) \<Longrightarrow> snd (reserve_page s p) = s"
  by (auto simp: reserve_page_def Let_def split: if_splits)

lemma reserve_page_boot:
  assumes "boot_inv s"
  shows "boot_inv (snd (reserve_page s p))"
proof (cases "fst (reserve_page s p)")
  case True
  have rdy: "\<not> g_ready s" using assms by (simp add: boot_inv_def)
  have s': "snd (reserve_page s p) = page_set_reserved (s\<lparr>reserved_pages := reserved_pages s @ [page_of p]\<rparr>) (page_of p)"
    by (rule reserve_page_not_ready [OF True rdy])
  have "\<not> is_reserved s (page_of p)" using True by (simp add: reserve_page_result is_reserved_def)
  moreover have "page_state (snd (reserve_page s p)) = page_state s"
    by (simp add: s' page_set_reserved_def Let_def)
  moreover have "regions_counted (snd (reserve_page s p)) = regions_counted s"
    by (simp add: s' regions_counted_def regions_ok_def usable_page_def phys_in_usable_region_def)
  ultimately show ?thesis
    using assms unfolding boot_inv_def by (auto simp: s' is_reserved_set_aligned)
next
  case False
  then have "snd (reserve_page s p) = s" by (rule reserve_page_failed)
  then show ?thesis using assms by simp
qed

lemma seen_fields_id: "\<exists>t c. s = s\<lparr>seen_page_tables := t, seen_page_table_count := c\<rparr>"
  by (rule exI [of _ "seen_page_tables s"], rule exI [of _ "seen_page_table_count s"]) simp

lemma page_table_probe_other:
  "\<exists>t c. snd (page_table_probe s p slot n) = s\<lparr>seen_page_tables := t, seen_page_table_count := c\<rparr>"
proof (induction n arbitrary: slot)
  case 0
  show ?case by (simp add: seen_fields_id)
next
  case (Suc n)
  then show ?case by (auto simp: Let_def seen_fields_id)
qed

lemma boot_inv_seen: "boot_inv (s\<lparr>seen_page_tables := t, seen_page_table_count := c\<rparr>) = boot_inv s"
  by (simp add: boot_inv_def regions_counted_def regions_ok_def usable_page_def
      phys_in_usable_region_def is_reserved_def page_is_reserved_fast_def)

lemma page_table_seen_boot: "boot_inv s \<Longrightarrow> boot_inv (snd (page_table_seen s p))"
  using page_table_probe_other [of s p "page_table_slot p" PAGE_TABLE_HASH_SIZE]
  by (auto simp: page_table_seen_def boot_inv_seen)

text \<open>The traversal changes the state by \<open>reserve_page\<close> and \<open>page_table_seen\<close> only.\<close>

lemma reserve_page_table_tree_preserves:
  assumes r: "\<And>s p. P s \<Longrightarrow> P (snd (reserve_page s p))"
    and g: "\<And>s p. P s \<Longrightarrow> P (snd (page_table_seen s p))"
  shows "P s \<Longrightarrow> P (reserve_page_table_tree m es s t l)"
proof (induction l arbitrary: s t)
  case (Suc l)
  obtain b s1 where seen: "page_table_seen s (page_of t) = (b, s1)" by fastforce
  then have s1: "P s1" using g [OF Suc.prems, of "page_of t"] by simp
  then have s2: "P (snd (reserve_page s1 (page_of t)))" by (rule r)
  have "P (fold (\<lambda>i s.
            let e = m (page_of t) i in
            if e AND PTE_P = 0 \<or> l = 0 then s
            else if (l = 2 \<or> l = 1) \<and> e AND PTE_PS \<noteq> 0 then s
            else let child = e AND PTE_ADDR_MASK in
              if child \<noteq> 0 \<and> phys_is_described child es
              then reserve_page_table_tree m es s child l else s) [0..<512]
         (snd (reserve_page s1 (page_of t))))"
    by (rule fold_invariant [where Q = "\<lambda>_. True" and P = P, OF _ s2]) (simp_all add: Let_def Suc.IH)
  then show ?case
    using Suc.prems s1 s2 seen by (auto simp: Let_def split: option.splits bool.splits)
qed simp

lemma reserve_kernel_loop_boot: "boot_inv s \<Longrightarrow> boot_inv (reserve_kernel_loop s p e)"
proof (induction s p e rule: reserve_kernel_loop.induct)
  case (1 s p e)
  then show ?case
    by (subst reserve_kernel_loop.simps) (simp add: Let_def reserve_page_boot)
qed

lemma reserve_active_page_tables_boot:
  assumes "boot_inv s"
  shows "boot_inv (reserve_active_page_tables m cr3 es s)"
proof -
  have "s\<lparr>seen_page_table_count := 0, seen_page_tables := \<lambda>_. 0\<rparr> =
      s\<lparr>seen_page_tables := \<lambda>_. 0, seen_page_table_count := 0\<rparr>" by simp
  then have "boot_inv (s\<lparr>seen_page_table_count := 0, seen_page_tables := \<lambda>_. 0\<rparr>)"
    using assms by (simp only: boot_inv_seen)
  then show ?thesis
    unfolding reserve_active_page_tables_def
    by (rule reserve_page_table_tree_preserves [rotated 2]) (auto intro: reserve_page_boot page_table_seen_boot)
qed

text \<open>The accounting loop marks the reserved pages and keeps the free count exact.\<close>

lemma account_frame [simp, frame_simps]:
  "regions (pmm_account_reserved s p) = regions s"
  "page_refs (pmm_account_reserved s p) = page_refs s"
  "is_reserved (pmm_account_reserved s p) = is_reserved s"
  "usable_page (pmm_account_reserved s p) = usable_page s"
  by (auto simp: pmm_account_reserved_def Let_def usable_page_def phys_in_usable_region_def fun_eq_iff)

lemma account_allocated:
  assumes "page_aligned p" "page_aligned q"
  shows "page_is_allocated (pmm_account_reserved s p) q \<longleftrightarrow> page_is_allocated s q \<or> q = p"
  using assms
  by (auto simp: pmm_account_reserved_def Let_def page_is_allocated_set_aligned tracked_def)
    (auto simp: page_is_allocated_def tracked_def)

lemma account_step:
  assumes al: "page_aligned p" and ok: "regions_ok s" and new: "tracked p \<Longrightarrow> \<not> page_is_allocated s p"
    and c: "unat (g_free_pages s) = card (free_set s)"
  shows "unat (g_free_pages (pmm_account_reserved s p)) = card (free_set (pmm_account_reserved s p))"
proof -
  have fs: "free_set (pmm_account_reserved s p) = free_set s - {p}"
    using al by (auto simp: free_set_def account_allocated usable_page_def)
  have fc: "g_free_pages (pmm_account_reserved s p) =
      (if phys_in_usable_region s p \<and> g_free_pages s \<noteq> 0 then g_free_pages s - 1 else g_free_pages s)"
    by (auto simp: pmm_account_reserved_def Let_def)
  show ?thesis
  proof (cases "phys_in_usable_region s p")
    case True
    then have "p \<in> free_set s"
      using al new usable_page_bounds(3) [OF ok, of p] by (auto simp: free_set_def usable_page_def)
    then have "g_free_pages s \<noteq> 0" using c by auto
    then show ?thesis
      using c True \<open>p \<in> free_set s\<close> by (simp add: fs fc unat_minus_one card_Diff_singleton)
  next
    case False
    then have "p \<notin> free_set s" by (simp add: free_set_def usable_page_def)
    then show ?thesis using c False by (simp add: fs fc)
  qed
qed

lemma account_fold:
  assumes "\<forall>p\<in>set rs. page_aligned p" "distinct (filter tracked rs)" "regions_ok s"
    "\<forall>p\<in>set rs. tracked p \<longrightarrow> \<not> page_is_allocated s p" "unat (g_free_pages s) = card (free_set s)"
  shows "regions (foldl pmm_account_reserved s rs) = regions s
    \<and> page_refs (foldl pmm_account_reserved s rs) = page_refs s
    \<and> is_reserved (foldl pmm_account_reserved s rs) = is_reserved s
    \<and> (\<forall>q. page_aligned q \<longrightarrow>
         page_is_allocated (foldl pmm_account_reserved s rs) q = (page_is_allocated s q \<or> q \<in> set rs))
    \<and> unat (g_free_pages (foldl pmm_account_reserved s rs)) = card (free_set (foldl pmm_account_reserved s rs))"
  using assms
proof (induction rs arbitrary: s)
  case (Cons p rs)
  let ?s = "pmm_account_reserved s p"
  have "regions_ok ?s" "\<forall>q\<in>set rs. tracked q \<longrightarrow> \<not> page_is_allocated ?s q"
    "unat (g_free_pages ?s) = card (free_set ?s)"
    using Cons.prems account_step [of p s]
    by (auto simp: regions_ok_def account_allocated split: if_splits)
  moreover have "\<forall>p\<in>set rs. page_aligned p" "distinct (filter tracked rs)"
    using Cons.prems by (auto split: if_splits)
  ultimately show ?case
    using Cons.IH [of ?s] Cons.prems(1) by (auto simp: account_allocated)
qed simp

lemma boot_inv_account:
  assumes b: "boot_inv s"
  shows "pmm_inv (foldl pmm_account_reserved s (reserved_pages s)\<lparr>g_ready := g\<rparr>)"
proof -
  let ?t = "foldl pmm_account_reserved s (reserved_pages s)"
  have na: "page_is_allocated s p \<longleftrightarrow> \<not> tracked p" for p
    using b by (simp add: page_is_allocated_bit boot_inv_def)
  have ok: "regions_ok s" and refs: "page_refs s = (\<lambda>_. 0)"
    and res: "\<And>p. page_aligned p \<Longrightarrow> is_reserved s p \<longleftrightarrow> tracked p \<and> p \<in> set (reserved_pages s)"
    using b by (simp_all add: boot_inv_def regions_counted_def)
  have fs: "free_set s = {p. usable_page s p}"
    using usable_page_bounds(3) [OF ok] by (auto simp: free_set_def na)
  have t: "regions ?t = regions s" "page_refs ?t = page_refs s" "is_reserved ?t = is_reserved s"
    "\<And>q. page_aligned q \<Longrightarrow> page_is_allocated ?t q = (page_is_allocated s q \<or> q \<in> set (reserved_pages s))"
    "unat (g_free_pages ?t) = card (free_set ?t)"
    using account_fold [of "reserved_pages s" s] b ok by (auto simp: boot_inv_def fs na regions_counted_def)
  have u: "usable_page ?t = usable_page s"
    using t(1) by (simp add: usable_page_def phys_in_usable_region_def fun_eq_iff)
  have "usable_page s p \<Longrightarrow> tracked p \<and> page_aligned p" for p
    using usable_page_bounds(3,5) [OF ok] by blast
  then have "pmm_inv ?t"
    unfolding pmm_inv_def u t(2,3,5) using ok t(1,4) refs res
    by (auto simp: regions_ok_def na)
  then show ?thesis
    by (simp add: pmm_inv_def regions_ok_def usable_page_def phys_in_usable_region_def free_set_def
        page_is_allocated_def is_reserved_def page_is_reserved_fast_def)
qed

lemma count_fields_id:
  "\<exists>rs f t. s = s\<lparr>regions := rs, g_free_pages := f, g_total_pages := t\<rparr>"
  by (rule exI [of _ "regions s"], rule exI [of _ "g_free_pages s"], rule exI [of _ "g_total_pages s"]) simp

lemma pmm_add_regions_other:
  "\<exists>rs f t. pmm_add_regions s es = s\<lparr>regions := rs, g_free_pages := f, g_total_pages := t\<rparr>"
proof (induction es arbitrary: s)
  case Nil
  show ?case by (simp add: count_fields_id)
next
  case (Cons e es)
  obtain rs f t where "pmm_add_region s e = s\<lparr>regions := rs, g_free_pages := f, g_total_pages := t\<rparr>"
    using count_fields_id [of s] by (cases rule: pmm_add_region_cases [of s e]) auto
  then show ?case
    using Cons.IH [of "pmm_add_region s e"] count_fields_id [of s] by auto
qed

definition pmm_reset :: "u64 \<Rightarrow> u64 \<Rightarrow> u64 \<Rightarrow> pmm \<Rightarrow> pmm" where
  "pmm_reset hhdm kb ke s = s\<lparr>regions := [], reserved_pages := [], g_free_pages := 0, g_total_pages := 0,
     page_state := (\<lambda>_. 0), reserved_state := (\<lambda>_. 0), page_refs := (\<lambda>_. 0), g_hhdm := hhdm,
     g_kernel_base := align_down kb, g_kernel_end := align_up ke, g_ready := False\<rparr>"

lemma pmm_reset_boot:
  assumes "memmap_disjoint es"
  shows "boot_inv (pmm_add_regions (pmm_reset hhdm kb ke s) es)"
proof -
  let ?s0 = "pmm_reset hhdm kb ke s"
  have u0: "\<not> usable_page ?s0 p" for p
    by (simp add: pmm_reset_def usable_page_def phys_in_usable_region_def)
  have c0: "regions_counted ?s0"
    by (simp add: regions_counted_def regions_ok_def u0) (simp add: pmm_reset_def)
  obtain rs f t where s1: "pmm_add_regions ?s0 es = ?s0\<lparr>regions := rs, g_free_pages := f, g_total_pages := t\<rparr>"
    using pmm_add_regions_other by blast
  have "regions_counted (pmm_add_regions ?s0 es)"
    using c0 assms u0 by (intro pmm_add_regions_counted) auto
  then show ?thesis
    unfolding boot_inv_def s1 by (simp add: pmm_reset_def is_reserved_def page_is_reserved_fast_bit)
qed

lemma pmm_init_inv:
  assumes "memmap_disjoint es"
  shows "pmm_inv (pmm_init m cr3 (Some es) hhdm kb ke s)"
proof (cases "hhdm = 0")
  case True
  then show ?thesis
    by (simp add: pmm_init_def pmm_inv_def regions_ok_def usable_page_def phys_in_usable_region_def
        free_set_def)
next
  case False
  define s1 where "s1 = pmm_add_regions (pmm_reset hhdm kb ke s) es"
  define s2 where "s2 = (if g_kernel_end s1 > g_kernel_base s1 \<and> g_kernel_end s1 - g_kernel_base s1 < 0x10000000000
     then reserve_kernel_loop s1 (g_kernel_base s1) (g_kernel_end s1) else s1)"
  define s3 where "s3 = reserve_active_page_tables m cr3 (Some es) s2"
  have "boot_inv s1" unfolding s1_def using assms by (rule pmm_reset_boot)
  then have "boot_inv s2" unfolding s2_def by (simp add: reserve_kernel_loop_boot)
  then have "boot_inv s3" unfolding s3_def by (rule reserve_active_page_tables_boot)
  moreover have "pmm_init m cr3 (Some es) hhdm kb ke s =
      (let t = foldl pmm_account_reserved s3 (reserved_pages s3) in t\<lparr>g_ready := regions t \<noteq> []\<rparr>)"
    using False by (simp add: pmm_init_def Let_def s1_def s2_def s3_def pmm_reset_def)
  ultimately show ?thesis using boot_inv_account [of s3] by (simp add: Let_def)
qed

end
