(* ===== verification/Pmm_Spec.thy ===== *)
theory Pmm_Spec
  imports Pmm_Boot
begin

text \<open>
  The contract of the physical memory manager: the interface \<open>page_pool\<close> of a pool of
  reference-counted pages with its interpretation on the model of \<^verbatim>\<open>pmm.c\<close>, the
  states reachable from boot, and the properties of the component.
\<close>

section \<open>The interface of the allocator\<close>

text \<open>
  What the rest of the kernel relies on: a pool of reference-counted pages. \<open>managed\<close> are
  the pages the pool hands out, \<open>avail\<close> the ones it can hand out now, \<open>refs\<close> the
  reference counts.
\<close>

locale page_pool =
  fixes alloc :: "'s \<Rightarrow> u64 \<times> 's"
    and free :: "'s \<Rightarrow> u64 \<Rightarrow> 's"
    and retain :: "'s \<Rightarrow> u64 \<Rightarrow> bool \<times> 's"
    and avail :: "'s \<Rightarrow> u64 set"
    and managed :: "'s \<Rightarrow> u64 set"
    and refs :: "'s \<Rightarrow> u64 \<Rightarrow> nat"
    and ok :: "'s \<Rightarrow> bool"
  assumes null_not_managed: "ok s \<Longrightarrow> 0 \<notin> managed s"
    and avail_iff: "ok s \<Longrightarrow> p \<in> avail s \<longleftrightarrow> p \<in> managed s \<and> refs s p = 0"
    and alloc_ok: "ok s \<Longrightarrow> ok (snd (alloc s))"
    and alloc_managed: "ok s \<Longrightarrow> managed (snd (alloc s)) = managed s"
    and alloc_empty: "ok s \<Longrightarrow> avail s = {} \<Longrightarrow>
          fst (alloc s) = 0 \<and> (\<forall>q\<in>managed s. refs (snd (alloc s)) q = refs s q)"
    and alloc_some: "ok s \<Longrightarrow> avail s \<noteq> {} \<Longrightarrow>
          fst (alloc s) \<in> avail s
          \<and> (\<forall>q\<in>managed s. refs (snd (alloc s)) q = (if q = fst (alloc s) then 1 else refs s q))"
    and free_ok: "ok s \<Longrightarrow> ok (free s p)"
    and free_managed: "ok s \<Longrightarrow> managed (free s p) = managed s"
    and free_refs: "ok s \<Longrightarrow> p \<in> managed s \<Longrightarrow> q \<in> managed s \<Longrightarrow>
          refs (free s p) q = (if q = p then refs s q - 1 else refs s q)"
    and retain_ok: "ok s \<Longrightarrow> ok (snd (retain s p))"
    and retain_managed: "ok s \<Longrightarrow> managed (snd (retain s p)) = managed s"
    and retain_refs: "ok s \<Longrightarrow> p \<in> managed s \<Longrightarrow> q \<in> managed s \<Longrightarrow>
          refs (snd (retain s p)) q = (if q = p \<and> fst (retain s p) then refs s q + 1 else refs s q)"
    and retain_possible: "ok s \<Longrightarrow> p \<in> managed s \<Longrightarrow>
          fst (retain s p) \<longleftrightarrow> 0 < refs s p \<and> refs s p < 65535"
begin

lemma alloc_null_iff: "ok s \<Longrightarrow> fst (alloc s) = 0 \<longleftrightarrow> avail s = {}"
  using alloc_empty alloc_some avail_iff null_not_managed by metis

lemma alloc_avail: "ok s \<Longrightarrow> avail (snd (alloc s)) = avail s - {fst (alloc s)}"
proof -
  assume s: "ok s"
  note a = avail_iff [OF s] avail_iff [OF alloc_ok [OF s]] alloc_managed [OF s]
  show ?thesis
  proof (cases "avail s = {}")
    case True
    then show ?thesis using a alloc_empty [OF s] by force
  next
    case False
    then have "x \<in> avail (snd (alloc s)) \<longleftrightarrow> x \<in> avail s \<and> x \<noteq> fst (alloc s)" for x
      using a alloc_some [OF s] by (cases "x \<in> managed s") (auto split: if_splits)
    then show ?thesis by blast
  qed
qed

fun alloc_many :: "nat \<Rightarrow> 's \<Rightarrow> u64 list \<times> 's" where
  "alloc_many 0 s = ([], s)"
| "alloc_many (Suc n) s =
     (let (p, s) = alloc s in if p = 0 then ([], s) else let (ps, s) = alloc_many n s in (p # ps, s))"

text \<open>Pages handed out without a release in between are all different.\<close>

lemma alloc_many_distinct:
  "ok s \<Longrightarrow> distinct (fst (alloc_many n s)) \<and> set (fst (alloc_many n s)) \<subseteq> avail s
     \<and> ok (snd (alloc_many n s)) \<and> avail (snd (alloc_many n s)) = avail s - set (fst (alloc_many n s))"
proof (induction n arbitrary: s)
  case (Suc n)
  note IH = Suc.IH [OF alloc_ok [OF Suc.prems]] and av = alloc_avail [OF Suc.prems]
  show ?case
  proof (cases "fst (alloc s) = 0")
    case True
    then show ?thesis
      using av alloc_null_iff [OF Suc.prems] alloc_ok [OF Suc.prems] by (simp add: case_prod_beta Let_def)
  next
    case False
    then have "fst (alloc s) \<in> avail s"
      using alloc_some [OF Suc.prems] alloc_null_iff [OF Suc.prems] by auto
    then show ?thesis using IH av False by (auto simp: case_prod_beta Let_def)
  qed
qed simp

fun retain_many :: "nat \<Rightarrow> 's \<Rightarrow> u64 \<Rightarrow> 's" where
  "retain_many 0 s p = s"
| "retain_many (Suc n) s p = retain_many n (snd (retain s p)) p"

fun free_many :: "nat \<Rightarrow> 's \<Rightarrow> u64 \<Rightarrow> 's" where
  "free_many 0 s p = s"
| "free_many (Suc n) s p = free_many n (free s p) p"

lemma free_many_refs:
  "ok s \<Longrightarrow> p \<in> managed s \<Longrightarrow> ok (free_many n s p) \<and> managed (free_many n s p) = managed s
     \<and> refs (free_many n s p) p = refs s p - n"
proof (induction n arbitrary: s)
  case (Suc n)
  then show ?case using Suc.IH [OF free_ok] by (simp add: free_managed free_refs)
qed simp

lemma retain_many_refs:
  "ok s \<Longrightarrow> p \<in> managed s \<Longrightarrow> 0 < refs s p \<Longrightarrow> refs s p + n \<le> 65535 \<Longrightarrow>
     ok (retain_many n s p) \<and> managed (retain_many n s p) = managed s
     \<and> refs (retain_many n s p) p = refs s p + n"
proof (induction n arbitrary: s)
  case (Suc n)
  then show ?case
    using Suc.IH [OF retain_ok] by (simp add: retain_managed retain_refs retain_possible)
qed simp

text \<open>
  A page that was allocated and retained \<open>n\<close> times comes back to the pool with release
  number \<open>n + 1\<close> and not before.
\<close>

lemma retained_page_released:
  assumes s: "ok s" and a: "fst (alloc s) \<noteq> 0" and n: "n < 65535"
  shows "fst (alloc s) \<in> avail (free_many k (retain_many n (snd (alloc s)) (fst (alloc s))) (fst (alloc s)))
    \<longleftrightarrow> n < k"
proof -
  let ?p = "fst (alloc s)" and ?t = "snd (alloc s)"
  have p: "?p \<in> managed s" "refs ?t ?p = 1"
    using a alloc_null_iff [OF s] alloc_some [OF s] avail_iff [OF s] by auto
  have t: "ok ?t" "?p \<in> managed ?t" using p alloc_ok [OF s] alloc_managed [OF s] by auto
  have u: "ok (retain_many n ?t ?p)" "managed (retain_many n ?t ?p) = managed ?t"
    "refs (retain_many n ?t ?p) ?p = 1 + n"
    using retain_many_refs [OF t, of n] n p(2) by auto
  have "ok (free_many k (retain_many n ?t ?p) ?p)"
    "managed (free_many k (retain_many n ?t ?p) ?p) = managed ?t"
    "refs (free_many k (retain_many n ?t ?p) ?p) ?p = 1 + n - k"
    using free_many_refs [OF u(1), of ?p k] u(2,3) t(2) by auto
  then show ?thesis using avail_iff t(2) by auto
qed

end

definition managed_pages :: "pmm \<Rightarrow> u64 set" where
  "managed_pages s = {p. usable_page s p \<and> \<not> is_reserved s p}"

definition page_ref_count :: "pmm \<Rightarrow> u64 \<Rightarrow> nat" where
  "page_ref_count s p = unat (page_refs s (p div PAGE_SIZE))"

definition pmm_ok :: "pmm \<Rightarrow> bool" where
  "pmm_ok s \<longleftrightarrow> pmm_inv s \<and> g_ready s \<and> g_hhdm s \<noteq> 0"

lemma free_set_managed: "pmm_inv s \<Longrightarrow> p \<in> free_set s \<longleftrightarrow> p \<in> managed_pages s \<and> page_ref_count s p = 0"
  using pmm_invD(3-5) [of s p]
  by (auto simp: free_set_def managed_pages_def page_ref_count_def unat_eq_zero)

lemma managed_pages_frame:
  "usable_page t = usable_page s \<Longrightarrow> is_reserved t = is_reserved s \<Longrightarrow> managed_pages t = managed_pages s"
  by (simp add: managed_pages_def)

lemma managed_index_eq: "p \<in> managed_pages s \<Longrightarrow> q \<in> managed_pages s \<Longrightarrow> p div PAGE_SIZE = q div PAGE_SIZE \<longleftrightarrow> p = q"
  by (auto simp: managed_pages_def usable_page_index_eq)

lemma pmm_alloc_frame:
  assumes "pmm_ok s"
  shows "usable_page (snd (pmm_alloc_page s)) = usable_page s"
    "is_reserved (snd (pmm_alloc_page s)) = is_reserved s"
    "g_ready (snd (pmm_alloc_page s)) = g_ready s" "g_hhdm (snd (pmm_alloc_page s)) = g_hhdm s"
    "page_refs (snd (pmm_alloc_page s)) = (if free_set s = {} then page_refs s
       else (page_refs s)(fst (pmm_alloc_page s) div PAGE_SIZE := 1))"
    "free_set s = {} \<longleftrightarrow> fst (pmm_alloc_page s) = 0"
    "free_set s \<noteq> {} \<Longrightarrow> fst (pmm_alloc_page s) \<in> free_set s"
proof -
  obtain t where t: "same_but_cursors s t" and d: "if free_set s = {} then pmm_alloc_page s = (0, t)
     else fst (pmm_alloc_page s) \<in> free_set s
        \<and> snd (pmm_alloc_page s) = take_page t (fst (pmm_alloc_page s))"
    using pmm_alloc_page_cases assms unfolding pmm_ok_def by blast
  note f = same_but_cursors_frame [OF t] same_but_cursors_usable [OF t]
  show "usable_page (snd (pmm_alloc_page s)) = usable_page s"
    "is_reserved (snd (pmm_alloc_page s)) = is_reserved s"
    "g_ready (snd (pmm_alloc_page s)) = g_ready s" "g_hhdm (snd (pmm_alloc_page s)) = g_hhdm s"
    "page_refs (snd (pmm_alloc_page s)) = (if free_set s = {} then page_refs s
       else (page_refs s)(fst (pmm_alloc_page s) div PAGE_SIZE := 1))"
    using d f by (auto simp: take_page_usable split: if_splits)
  have "regions_ok s" using assms by (simp add: pmm_ok_def pmm_inv_def)
  then have "0 \<notin> free_set s" using usable_page_bounds(4) by (auto simp: free_set_def)
  then show "free_set s = {} \<longleftrightarrow> fst (pmm_alloc_page s) = 0"
    "free_set s \<noteq> {} \<Longrightarrow> fst (pmm_alloc_page s) \<in> free_set s" using d by (auto split: if_splits)
qed

lemma pmm_alloc_ok: "pmm_ok s \<Longrightarrow> pmm_ok (snd (pmm_alloc_page s))"
  using pmm_alloc_page_inv [of s] pmm_alloc_frame(3,4) [of s] by (simp add: pmm_ok_def)

lemma pmm_free_frame:
  assumes "pmm_ok s"
  shows "usable_page (pmm_free_page s p) = usable_page s" "is_reserved (pmm_free_page s p) = is_reserved s"
    "g_ready (pmm_free_page s p) = g_ready s" "g_hhdm (pmm_free_page s p) = g_hhdm s"
  using assms pmm_invD(1) [of s] by (auto simp: pmm_ok_def pmm_free_page_eq)

lemma pmm_free_ok: "pmm_ok s \<Longrightarrow> pmm_ok (pmm_free_page s p)"
  using pmm_free_page_inv [of s p] pmm_free_frame(3,4) [of s p] by (simp add: pmm_ok_def)

lemma pmm_retain_ok: "pmm_ok s \<Longrightarrow> pmm_ok (snd (pmm_retain_page s p))"
  using pmm_retain_page_inv [of s p] by (simp add: pmm_ok_def)

lemma pmm_free_page_managed:
  assumes s: "pmm_ok s" and p: "p \<in> managed_pages s"
  shows "pmm_free_page s p = drop_page_ref s p"
proof -
  have "usable_page s p" "\<not> is_reserved s p" "page_of p = p"
    using p by (auto simp: managed_pages_def usable_page_def)
  then show ?thesis using s pmm_invD(1) [of s] by (simp add: pmm_ok_def pmm_free_page_eq)
qed

lemma managed_page_allocated_iff:
  "pmm_inv s \<Longrightarrow> p \<in> managed_pages s \<Longrightarrow> page_is_allocated s p \<longleftrightarrow> 0 < page_ref_count s p"
  using free_set_managed [of s p] by (auto simp: free_set_def managed_pages_def)

lemma pmm_retain_managed:
  assumes s: "pmm_ok s" and p: "p \<in> managed_pages s"
  shows "fst (pmm_retain_page s p) \<longleftrightarrow> 0 < page_ref_count s p \<and> page_ref_count s p < 65535"
proof -
  have inv: "pmm_inv s" and u: "usable_page s p" "\<not> is_reserved s p" "g_ready s"
    using s p by (auto simp: pmm_ok_def managed_pages_def)
  note b = usable_page_bounds [OF pmm_invD(1) [OF inv] u(1)]
  have "page_refs s (p div PAGE_SIZE) \<noteq> UINT16_MAX \<longleftrightarrow> page_ref_count s p < 65535"
    using unsigned_less [of "page_refs s (p div PAGE_SIZE)", where ?'a = nat]
    by (auto simp: page_ref_count_def word_unat_eq_iff)
  then show ?thesis
    using b u managed_page_allocated_iff [OF inv p] by (simp add: pmm_retain_page_refs)
qed

interpretation pmm_pool: page_pool pmm_alloc_page pmm_free_page pmm_retain_page free_set
  managed_pages page_ref_count pmm_ok
proof
  fix s p q
  assume s: "pmm_ok s"
  then have inv: "pmm_inv s" by (simp add: pmm_ok_def)
  show "0 \<notin> managed_pages s"
    using usable_page_bounds(4) [OF pmm_invD(1) [OF inv]] by (auto simp: managed_pages_def)
  show "p \<in> free_set s \<longleftrightarrow> p \<in> managed_pages s \<and> page_ref_count s p = 0"
    using inv by (rule free_set_managed)
  show "pmm_ok (snd (pmm_alloc_page s))" "pmm_ok (pmm_free_page s p)" "pmm_ok (snd (pmm_retain_page s p))"
    using s by (rule pmm_alloc_ok pmm_free_ok pmm_retain_ok)+
  show "managed_pages (snd (pmm_alloc_page s)) = managed_pages s"
    "managed_pages (pmm_free_page s p) = managed_pages s"
    "managed_pages (snd (pmm_retain_page s p)) = managed_pages s"
    using pmm_alloc_frame(1,2) [OF s] pmm_free_frame(1,2) [OF s] by (auto intro!: managed_pages_frame)
  show "fst (pmm_alloc_page s) = 0 \<and> (\<forall>q\<in>managed_pages s. page_ref_count (snd (pmm_alloc_page s)) q = page_ref_count s q)"
    if "free_set s = {}"
    using that pmm_alloc_frame(5,6) [OF s] by (simp add: page_ref_count_def)
  show "fst (pmm_alloc_page s) \<in> free_set s \<and> (\<forall>q\<in>managed_pages s.
      page_ref_count (snd (pmm_alloc_page s)) q = (if q = fst (pmm_alloc_page s) then 1 else page_ref_count s q))"
    if ne: "free_set s \<noteq> {}"
  proof -
    have "fst (pmm_alloc_page s) \<in> managed_pages s"
      using pmm_alloc_frame(7) [OF s ne] free_set_managed [OF inv] by blast
    then show ?thesis
      using ne pmm_alloc_frame(5,7) [OF s] by (simp add: page_ref_count_def managed_index_eq)
  qed
  show "page_ref_count (pmm_free_page s p) q = (if q = p then page_ref_count s q - 1 else page_ref_count s q)"
    if p: "p \<in> managed_pages s" and q: "q \<in> managed_pages s"
    using p q managed_page_allocated_iff [OF inv p]
    by (auto simp: pmm_free_page_managed [OF s p] drop_page_ref_refs page_ref_count_def
        managed_index_eq [OF q p] unat_minus_one)
  show "fst (pmm_retain_page s p) \<longleftrightarrow> 0 < page_ref_count s p \<and> page_ref_count s p < 65535"
    if "p \<in> managed_pages s" using s that by (rule pmm_retain_managed)
  show "page_ref_count (snd (pmm_retain_page s p)) q =
      (if q = p \<and> fst (pmm_retain_page s p) then page_ref_count s q + 1 else page_ref_count s q)"
    if p: "p \<in> managed_pages s" and q: "q \<in> managed_pages s"
  proof -
    have "page_of p = p" using p by (simp add: managed_pages_def usable_page_def)
    moreover have "unat (r + 1) = unat r + 1" if "unat r < 65535" for r :: u16
      using that by (subst unat_word_ariths) simp
    ultimately show ?thesis
      using pmm_retain_managed [OF s p] managed_index_eq [OF q p]
      by (simp add: pmm_retain_page_refs(2) page_ref_count_def)
  qed
qed

section \<open>Reachable states\<close>

text \<open>The file-scope variables before \<^verbatim>\<open>pmm_init\<close> runs: all zero.\<close>

definition pmm_bss :: pmm where
  "pmm_bss = \<lparr>regions = [], reserved_pages = [], seen_page_tables = (\<lambda>_. 0), seen_page_table_count = 0,
     g_hhdm = 0, g_free_pages = 0, g_kernel_base = 0, g_kernel_end = 0, g_total_pages = 0,
     page_state = (\<lambda>_. 0), reserved_state = (\<lambda>_. 0), page_refs = (\<lambda>_. 0), g_ready = False\<rparr>"

text \<open>The calls other kernel code makes after boot, in any order.\<close>

inductive pmm_step :: "pmm \<Rightarrow> pmm \<Rightarrow> bool" where
  step_alloc: "pmm_step s (snd (pmm_alloc_page s))"
| step_free: "pmm_step s (pmm_free_page s p)"
| step_retain: "pmm_step s (snd (pmm_retain_page s p))"
| step_reserve: "pmm_step s (pmm_reserve_range s b l)"

inductive pmm_reachable :: "pmm \<Rightarrow> bool" where
  boot: "memmap_disjoint es \<Longrightarrow> pmm_reachable (pmm_init m cr3 (Some es) hhdm kb ke pmm_bss)"
| step: "pmm_reachable s \<Longrightarrow> pmm_step s t \<Longrightarrow> pmm_reachable t"

inductive_cases pmm_stepE: "pmm_step s t"

text \<open>Before the allocator is ready it has no region, so that nothing can go wrong.\<close>

definition pmm_live :: "pmm \<Rightarrow> bool" where
  "pmm_live s \<longleftrightarrow> pmm_inv s \<and> (g_ready s \<or> regions s = [])"

lemma no_regions_inv: "regions s = [] \<Longrightarrow> pmm_inv s \<longleftrightarrow> g_free_pages s = 0"
  by (auto simp: pmm_inv_def regions_ok_def usable_page_def phys_in_usable_region_def free_set_def
      unat_eq_zero)

lemma reserve_page_live: "pmm_live s \<Longrightarrow> pmm_live (snd (reserve_page s p))"
proof (cases "g_ready s")
  case False
  assume "pmm_live s"
  then have "regions s = []" "g_free_pages s = 0" using False by (auto simp: pmm_live_def no_regions_inv)
  then show ?thesis by (simp add: pmm_live_def no_regions_inv reserve_page_count)
qed (simp add: pmm_live_def reserve_page_inv)

lemma reserve_range_loop_preserves:
  assumes "\<And>s p. P s \<Longrightarrow> P (snd (reserve_page s p))"
  shows "P s \<Longrightarrow> P (reserve_range_loop s p e)"
proof (induction s p e rule: reserve_range_loop.induct)
  case (1 s p e)
  then show ?case using assms by (subst reserve_range_loop.simps) (simp add: Let_def)
qed

lemma pmm_alloc_regions_length:
  assumes "pmm_inv s"
  shows "regions s = [] \<longleftrightarrow> regions (snd (pmm_alloc_page s)) = []"
proof (cases "g_ready s \<and> g_hhdm s \<noteq> 0")
  case True
  then show ?thesis
    using pmm_alloc_page_cases [OF assms] same_but_cursors_region(1)
    by (metis length_0_conv snd_conv take_page_frame(1))
qed (auto simp: pmm_alloc_page_def)

lemma pmm_init_live:
  assumes "memmap_disjoint es"
  shows "pmm_live (pmm_init m cr3 (Some es) hhdm kb ke s)"
  using pmm_init_inv [OF assms] by (auto simp: pmm_live_def) (auto simp: pmm_init_def Let_def)

lemma pmm_step_live: "pmm_step s t \<Longrightarrow> pmm_live s \<Longrightarrow> pmm_live t"
proof (induction rule: pmm_step.induct)
  case (step_alloc s)
  then have "g_ready (snd (pmm_alloc_page s)) = g_ready s"
    using pmm_alloc_frame(3) [of s] by (cases "pmm_ok s") (auto simp: pmm_live_def pmm_ok_def pmm_alloc_page_def)
  then show ?case
    using step_alloc pmm_alloc_page_inv pmm_alloc_regions_length by (auto simp: pmm_live_def)
next
  case (step_free s p)
  then show ?case
    using pmm_free_page_inv [of s p] pmm_invD(1) [of s]
    by (cases "g_ready s") (auto simp: pmm_live_def pmm_free_page_eq, auto simp: pmm_free_page_def)
next
  case (step_retain s p)
  then show ?case using pmm_retain_page_inv by (auto simp: pmm_live_def)
next
  case (step_reserve s b l)
  then show ?case
    using reserve_range_loop_preserves [of pmm_live, OF reserve_page_live]
    by (simp add: pmm_reserve_range_def Let_def)
qed

lemma pmm_reachable_live: "pmm_reachable s \<Longrightarrow> pmm_live s"
  by (induction rule: pmm_reachable.induct) (auto intro: pmm_init_live pmm_step_live)

section \<open>Range reservation\<close>

lemma reserve_page_mono: "page_aligned q \<Longrightarrow> is_reserved s q \<Longrightarrow> is_reserved (snd (reserve_page s p)) q"
  by (simp add: reserve_page_reserved)

lemma reserve_range_loop_mono:
  "page_aligned q \<Longrightarrow> is_reserved s q \<Longrightarrow> is_reserved (reserve_range_loop s p e) q"
  by (rule reserve_range_loop_preserves [of "\<lambda>s. is_reserved s q"]) (simp_all add: reserve_page_mono)

lemma reserve_page_length:
  "length (reserved_pages (snd (reserve_page s p))) \<le> length (reserved_pages s) + 1"
  by (auto simp: reserve_page_def Let_def)

lemma reserve_page_does:
  assumes "page_aligned p" "p \<noteq> 0" "tracked p" "length (reserved_pages s) < MAX_RESERVED_PAGES"
  shows "is_reserved (snd (reserve_page s p)) p"
proof -
  have "p < 0x10000000000000" using assms(3) unfolding tracked_def by (rule order_less_trans) simp
  then show ?thesis using assms by (auto simp: reserve_page_reserved reserve_page_result)
qed

lemma reserve_range_loop_covers:
  assumes "page_aligned p" "page_aligned e"
    "length (reserved_pages s) + (unat e - unat p) div 4096 \<le> MAX_RESERVED_PAGES"
    "page_aligned q" "p \<le> q" "q < e" "q \<noteq> 0" "tracked q"
  shows "is_reserved (reserve_range_loop s p e) q"
  using assms
proof (induction s p e rule: reserve_range_loop.induct)
  case (1 s p e)
  let ?s = "snd (reserve_page s p)"
  have lt: "p < e" using "1.prems" by simp
  note nw = page_next_no_wrap [OF "1.prems"(1,2) lt]
  have guard: "\<not> p > UINT64_MAX - PAGE_SIZE"
    using nw(2) unat_lt_64 [of e] "1.prems"(2)
    by (auto simp: word_less_nat_alt page_aligned_iff_dvd elim!: dvdE)
  have eq: "reserve_range_loop s p e = reserve_range_loop ?s (p + PAGE_SIZE) e"
    using lt guard by (subst reserve_range_loop.simps) simp
  show ?case
  proof (cases "q = p")
    case True
    have "length (reserved_pages s) < MAX_RESERVED_PAGES"
      using "1.prems"(3) nw(2) div_le_mono [of 4096 "unat e - unat p" 4096] by simp
    then have "is_reserved ?s q" using reserve_page_does "1.prems" True by simp
    then show ?thesis using "1.prems" by (simp add: eq reserve_range_loop_mono)
  next
    case False
    have "p + PAGE_SIZE \<le> q"
      using page_aligned_step [OF "1.prems"(1,4,5) False "1.prems"(2) lt] .
    moreover have "length (reserved_pages ?s) + (unat e - unat (p + PAGE_SIZE)) div 4096 \<le> MAX_RESERVED_PAGES"
    proof -
      have "(unat e - unat p) div 4096 = Suc ((unat e - unat (p + PAGE_SIZE)) div 4096)"
        using nw(1,2) div_add_self1 [of 4096 "unat e - unat p - 4096"] by simp
      then show ?thesis using reserve_page_length [of s p] "1.prems"(3) by simp
    qed
    ultimately show ?thesis
      unfolding eq using "1.prems" nw(3) by (intro "1.IH" [OF lt refl guard]) simp_all
  qed
qed

section \<open>Properties of the physical memory manager\<close>

text \<open>
  A concrete machine for the examples: one usable range of two pages at 16~MiB, no kernel
  image and no page tables to reserve.
\<close>

definition demo_memmap :: "limine_memmap_entry option list" where
  "demo_memmap = [Some \<lparr>me_base = 0x1000000, me_length = 0x2000, me_type = 0\<rparr>]"

definition demo_pmm :: pmm where
  "demo_pmm = pmm_init (\<lambda>_ _. 0) 0 (Some demo_memmap) 0xFFFF800000000000 0 0 pmm_bss"

lemma demo_memmap_disjoint: "memmap_disjoint demo_memmap"
  by (simp add: memmap_disjoint_def demo_memmap_def)

lemma page_table_tree_null: "reserve_page_table_tree m es s 0 l = s"
  by (cases l) (simp_all add: page_of_def)

lemma demo_pmm_record:
  "demo_pmm = pmm_bss\<lparr>
     regions := [\<lparr>rg_base = 0x1000000, rg_end = 0x1002000, rg_next = 0x1000000, rg_free_head = 0\<rparr>],
     g_hhdm := 0xFFFF800000000000, g_free_pages := 2, g_total_pages := 2, g_ready := True\<rparr>"
  by (simp add: demo_pmm_def pmm_init_def pmm_bss_def demo_memmap_def pmm_add_region_def
      align_up_def align_down_def reserve_active_page_tables_def page_table_tree_null Let_def)

lemma demo_pmm_eval:
  "regions demo_pmm = [\<lparr>rg_base = 0x1000000, rg_end = 0x1002000, rg_next = 0x1000000, rg_free_head = 0\<rparr>]"
  "g_ready demo_pmm" "g_hhdm demo_pmm = 0xFFFF800000000000" "reserved_pages demo_pmm = []"
  "page_state demo_pmm = (\<lambda>_. 0)" "reserved_state demo_pmm = (\<lambda>_. 0)" "page_refs demo_pmm = (\<lambda>_. 0)"
  "g_free_pages demo_pmm = 2" "seen_page_table_count demo_pmm = 0" "seen_page_tables demo_pmm = (\<lambda>_. 0)"
  by (simp_all add: demo_pmm_record pmm_bss_def)

lemma demo_pmm_reachable: "pmm_reachable demo_pmm"
  unfolding demo_pmm_def by (rule pmm_reachable.boot [OF demo_memmap_disjoint])

lemma demo_pmm_ok: "pmm_ok demo_pmm"
  using pmm_init_inv [OF demo_memmap_disjoint]
  by (simp add: pmm_ok_def demo_pmm_eval) (simp add: demo_pmm_def)

lemma demo_pmm_free: "0x1000000 \<in> free_set demo_pmm"
  by (simp add: free_set_def usable_page_def page_aligned_def phys_in_usable_region_def demo_pmm_eval
      page_is_allocated_bit tracked_def)

text \<open>
  C1: in every state reachable from boot by any sequence of allocations, releases, retains
  and range reservations, the free counter that \<^verbatim>\<open>pmm_free_count\<close> reports is exactly
  the number of usable pages that are not allocated, and no reserved page is among them.
\<close>

theorem pmm_free_count_exact:
  assumes "pmm_reachable s"
  shows "unat (pmm_free_count s) = card (free_set s)
    \<and> (\<forall>p. pmm_page_is_reserved s p \<longrightarrow> page_of p \<notin> free_set s)"
proof -
  have inv: "pmm_inv s" using pmm_reachable_live [OF assms] by (simp add: pmm_live_def)
  have "page_of p \<notin> free_set s" if "pmm_page_is_reserved s p" for p
    using that pmm_invD(3) [OF inv, of "page_of p"] by (auto simp: pmm_page_is_reserved_def free_set_def)
  then show ?thesis using pmm_invD(2) [OF inv] by (simp add: pmm_free_count_def)
qed

theorem pmm_free_count_exact_witness:
  "pmm_reachable demo_pmm \<and> unat (pmm_free_count demo_pmm) = card (free_set demo_pmm)"
  using pmm_free_count_exact [OF demo_pmm_reachable] demo_pmm_reachable by simp

text \<open>
  C2: a page that \<^verbatim>\<open>pmm_alloc_page\<close> returns is page aligned, lies between 16~MiB and
  4~GiB in a usable region, was free and not reserved, and is no longer free afterwards; its
  reference count is one, and no other managed page changes its count.
\<close>

theorem pmm_alloc_page_sound:
  assumes "pmm_ok s" "pmm_alloc_page s = (p, s')" "p \<noteq> 0"
  shows "page_aligned p \<and> PMM_MIN_PHYS \<le> p \<and> p < PMM_TRACK_LIMIT \<and> phys_in_usable_region s p
    \<and> p \<in> free_set s \<and> \<not> pmm_page_is_reserved s p \<and> free_set s' = free_set s - {p}
    \<and> pmm_page_refcount s' p = 1
    \<and> (\<forall>q\<in>managed_pages s. q \<noteq> p \<longrightarrow> pmm_page_refcount s' q = pmm_page_refcount s q)"
proof -
  note fr = pmm_alloc_frame [OF assms(1), unfolded assms(2) fst_conv snd_conv]
  have inv: "pmm_inv s" and ok: "regions_ok s" and rdy: "g_ready s"
    using assms(1) pmm_invD(1) by (auto simp: pmm_ok_def)
  have p: "p \<in> free_set s" and ne: "free_set s \<noteq> {}" using fr(6,7) assms(3) by auto
  have u: "usable_page s p" and m: "p \<in> managed_pages s"
    using p free_set_managed [OF inv] by (auto simp: free_set_def)
  note b = usable_page_bounds [OF ok u]
  have cnt: "pmm_page_refcount t q = page_refs t (q div PAGE_SIZE)"
    if "usable_page s q" "g_ready t" for t q
    using that usable_page_bounds [OF ok that(1)] by (simp add: pmm_page_refcount_def flip: not_le)
  have "free_set s' = free_set s - {p}"
    using pmm_pool.alloc_avail [OF assms(1)] assms(2) by simp
  moreover have "pmm_page_refcount s' q = pmm_page_refcount s q" if "q \<in> managed_pages s" "q \<noteq> p" for q
    using that fr(3,5) rdy ne managed_index_eq [OF that(1) m] by (simp add: cnt managed_pages_def)
  moreover have "pmm_page_refcount s' p = 1" using fr(3,5) rdy ne u by (simp add: cnt)
  moreover have "\<not> pmm_page_is_reserved s p"
    using m b(5) by (simp add: managed_pages_def pmm_page_is_reserved_def)
  ultimately show ?thesis using b p u by (simp add: usable_page_def)
qed

lemma demo_pmm_alloc_nonzero: "fst (pmm_alloc_page demo_pmm) \<noteq> 0"
  using pmm_alloc_frame(6) [OF demo_pmm_ok] demo_pmm_free by auto

theorem pmm_alloc_page_sound_witness:
  "pmm_ok demo_pmm \<and> fst (pmm_alloc_page demo_pmm) \<noteq> 0 \<and> fst (pmm_alloc_page demo_pmm) \<in> free_set demo_pmm"
  using pmm_alloc_page_sound [OF demo_pmm_ok prod.collapse [symmetric] demo_pmm_alloc_nonzero]
    demo_pmm_ok demo_pmm_alloc_nonzero by simp

text \<open>
  C3: \<^verbatim>\<open>pmm_alloc_page\<close> fails only when the machine is out of pages: with a ready
  allocator it returns 0 exactly when no usable page is free, wherever the \<^verbatim>\<open>next\<close>
  cursors of the regions stand.
\<close>

theorem pmm_alloc_page_complete:
  assumes "pmm_ok s"
  shows "fst (pmm_alloc_page s) = 0 \<longleftrightarrow> (\<forall>p. page_aligned p \<longrightarrow> phys_in_usable_region s p \<longrightarrow> page_is_allocated s p)"
  using pmm_pool.alloc_null_iff [OF assms] by (auto simp: free_set_def usable_page_def)

theorem pmm_alloc_page_complete_witness:
  "pmm_ok demo_pmm \<and> \<not> (\<forall>p. page_aligned p \<longrightarrow> phys_in_usable_region demo_pmm p \<longrightarrow> page_is_allocated demo_pmm p)"
  using pmm_alloc_page_complete [OF demo_pmm_ok] demo_pmm_ok demo_pmm_alloc_nonzero by blast

text \<open>
  C4: reference counting. A page that is allocated and then retained \<open>n\<close> times is handed
  back to the free set by release number \<open>n + 1\<close>, and by no earlier one; further releases
  leave it there.
\<close>

lemma retain_many_funpow: "pmm_pool.retain_many n s p = ((\<lambda>s. snd (pmm_retain_page s p)) ^^ n) s"
  by (induction n arbitrary: s) (simp_all add: funpow_Suc_right del: funpow.simps(2))

lemma free_many_funpow: "pmm_pool.free_many n s p = ((\<lambda>s. pmm_free_page s p) ^^ n) s"
  by (induction n arbitrary: s) (simp_all add: funpow_Suc_right del: funpow.simps(2))

theorem pmm_refcount_lifecycle:
  assumes "pmm_ok s" "pmm_alloc_page s = (p, s')" "p \<noteq> 0" "n < 65535"
  shows "p \<in> free_set (((\<lambda>s. pmm_free_page s p) ^^ k) (((\<lambda>s. snd (pmm_retain_page s p)) ^^ n) s')) \<longleftrightarrow> n < k"
  using pmm_pool.retained_page_released [OF assms(1) _ assms(4), of k] assms(2,3)
  by (simp add: retain_many_funpow free_many_funpow)

theorem pmm_refcount_lifecycle_witness:
  "let p = fst (pmm_alloc_page demo_pmm) in
     p \<notin> free_set (pmm_free_page (snd (pmm_retain_page (snd (pmm_alloc_page demo_pmm)) p)) p)"
  using pmm_refcount_lifecycle [OF demo_pmm_ok prod.collapse [symmetric] demo_pmm_alloc_nonzero, of 1 1]
  by simp

text \<open>
  C5: a release that has nothing to release changes nothing: of a page that is free already
  (a double free), of a reserved page, or of an address outside every usable region.
\<close>

theorem pmm_free_page_ignored:
  assumes "pmm_ok s" "page_of p \<in> free_set s \<or> pmm_page_is_reserved s p \<or> \<not> phys_in_usable_region s (page_of p)"
  shows "pmm_free_page s p = s"
  using assms pmm_invD(1) [of s]
  by (auto simp: pmm_ok_def pmm_free_page_eq free_set_def usable_page_def drop_page_ref_def
      pmm_page_is_reserved_def)

theorem pmm_free_page_ignored_witness: "pmm_free_page demo_pmm 0x1000000 = demo_pmm"
proof -
  have "page_of 0x1000000 = 0x1000000" by (simp add: page_of_def)
  then show ?thesis using pmm_free_page_ignored [OF demo_pmm_ok] demo_pmm_free by simp
qed

text \<open>
  \<^verbatim>\<open>page_table_seen\<close>, an open-addressing hash table with linear probing, refines
  insertion into a set: while fewer than \<^verbatim>\<open>MAX_PAGE_TABLES\<close> tables are recorded it
  answers membership, records the new address and keeps the probing invariant.
\<close>

theorem page_table_seen_is_set_insert:
  assumes "seen_ok s" "seen_page_table_count s < MAX_PAGE_TABLES" "phys \<noteq> 0"
  shows "page_table_seen s phys = (b, s') \<longrightarrow>
    (b \<longleftrightarrow> phys \<in> seen_set s) \<and> seen_set s' = insert phys (seen_set s) \<and> seen_ok s'"
  using page_table_seen_refines [OF assms] by (metis fst_conv snd_conv)

theorem page_table_seen_is_set_insert_witness:
  "seen_ok demo_pmm \<and> \<not> fst (page_table_seen demo_pmm 0x5000) \<and> seen_set (snd (page_table_seen demo_pmm 0x5000)) = {0x5000}"
proof -
  have ok: "seen_ok demo_pmm" and e: "seen_set demo_pmm = {}"
    by (simp_all add: seen_ok_def demo_pmm_eval seen_set_def)
  have "seen_page_table_count demo_pmm < MAX_PAGE_TABLES" by (simp add: demo_pmm_eval)
  from page_table_seen_is_set_insert [OF ok this, of "0x5000" "fst (page_table_seen demo_pmm 0x5000)"
      "snd (page_table_seen demo_pmm 0x5000)"]
  show ?thesis using ok e by simp
qed

text \<open>
  \<^verbatim>\<open>pmm_reserve_range\<close> reserves every tracked page that the byte range touches,
  the partial pages at both ends included, as long as the table of reserved pages has room.
\<close>

theorem pmm_reserve_range_covers:
  assumes "unat base + unat len + 4095 < 2 ^ 64" "tracked a"
    "length (reserved_pages s) + (unat (align_up (base + len)) - unat (page_of base)) div 4096 \<le> MAX_RESERVED_PAGES"
    "unat base \<le> unat a" "unat a < unat base + unat len" "page_of a \<noteq> 0"
  shows "pmm_page_is_reserved (pmm_reserve_range s base len) a"
proof -
  have sum: "unat (base + len) = unat base + unat len" using assms(1) by (subst unat_word_ariths) simp
  have le: "base + len \<le> align_up (base + len)" and al: "page_aligned (align_up (base + len))"
    using align_up_ge [of "base + len"] assms(1) sum by simp_all
  have pa: "unat (page_of x) = unat x - unat x mod 4096" for x
    using unat_and_not_4095 [of x] by (simp add: page_of_def)
  have "page_of base \<le> page_of a"
    using assms(4) div_le_mono [OF assms(4), of 4096] unfolding word_le_nat_alt pa minus_mod_eq_mult_div
    by simp
  moreover have "page_of a \<le> a" by (simp add: page_of_def word_and_le2)
  moreover have "a < align_up (base + len)"
    using assms(5) le sum by (simp add: word_less_nat_alt word_le_nat_alt)
  moreover have "\<not> align_up (base + len) < base"
    using le sum by (simp add: word_less_nat_alt word_le_nat_alt)
  moreover have "len \<noteq> 0" using assms(4,5) by auto
  moreover have "tracked (page_of a)" using assms(2) \<open>page_of a \<le> a\<close> by (auto simp: tracked_def)
  ultimately have "is_reserved (pmm_reserve_range s base len) (page_of a)"
    using assms(3,6) al by (auto simp: pmm_reserve_range_def intro!: reserve_range_loop_covers)
  then show ?thesis by (simp add: pmm_page_is_reserved_def)
qed

theorem pmm_reserve_range_covers_witness:
  "pmm_page_is_reserved (pmm_reserve_range demo_pmm 0x1000800 0x900) 0x1001020"
  by (rule pmm_reserve_range_covers)
    (simp_all add: tracked_def demo_pmm_eval align_up_def page_of_def)

text \<open>The state with other contents behind the ends of the three arrays.\<close>

definition pad :: "(u64 \<Rightarrow> u64) \<times> (u64 \<Rightarrow> u64) \<times> (u64 \<Rightarrow> u16) \<Rightarrow> pmm \<Rightarrow> pmm" where
  "pad g s = (case g of (a, b, c) \<Rightarrow>
     s\<lparr>page_state := \<lambda>i. if i < PMM_TRACK_WORDS then page_state s i else a i,
       reserved_state := \<lambda>i. if i < PMM_TRACK_WORDS then reserved_state s i else b i,
       page_refs := \<lambda>i. if i < PMM_TRACK_PAGES then page_refs s i else c i\<rparr>)"

lemma pad_sel [simp]:
  "regions (pad g s) = regions s" "g_ready (pad g s) = g_ready s" "g_hhdm (pad g s) = g_hhdm s" "g_free_pages (pad g s) = g_free_pages s"
  "reserved_pages (pad g s) = reserved_pages s"
  by (simp_all add: pad_def split: prod.split)

lemma pad_upd:
  "pad g s\<lparr>g_free_pages := n\<rparr> = pad g (s\<lparr>g_free_pages := n\<rparr>)" "pad g s\<lparr>reserved_pages := ps\<rparr> = pad g (s\<lparr>reserved_pages := ps\<rparr>)"
  "set_region_next (pad g s) i q = pad g (set_region_next s i q)"
  by (simp_all add: pad_def set_region_next_def cong: if_cong split: prod.split)

lemma pad_read:
  "page_is_allocated (pad g s) p = page_is_allocated s p" "page_is_reserved_fast (pad g s) p = page_is_reserved_fast s p"
  "is_reserved (pad g s) q = is_reserved s q"
  using tracked_index_bounds(2) [of p] tracked_index_bounds(2) [of "page_of q"]
  by (auto simp: page_is_allocated_def page_is_reserved_fast_def is_reserved_def pad_def Let_def split: prod.split)

lemma pad_refs: "tracked p \<Longrightarrow> page_refs (pad g s) (p div PAGE_SIZE) = page_refs s (p div PAGE_SIZE)"
  using tracked_index_bounds(1) [of p] by (simp add: pad_def split: prod.split)

lemma pad_write:
  "page_set_allocated (pad g s) p b = pad g (page_set_allocated s p b)" "page_set_reserved (pad g s) p = pad g (page_set_reserved s p)"
  "tracked p \<Longrightarrow> pad g s\<lparr>page_refs := (page_refs (pad g s))(p div PAGE_SIZE := n)\<rparr> = pad g (s\<lparr>page_refs := (page_refs s)(p div PAGE_SIZE := n)\<rparr>)"
  using tracked_index_bounds [of p]
  by (auto simp: page_set_allocated_def page_set_reserved_def pad_def Let_def fun_eq_iff cong: if_cong split: prod.split)

lemma pad_take: "tracked p \<Longrightarrow> take_page (pad g s) p = pad g (take_page s p)"
  by (simp add: take_page_def Let_def pad_write pad_upd)

lemma pad_drop: "tracked p \<Longrightarrow> drop_page_ref (pad g s) p = pad g (drop_page_ref s p)"
  by (simp add: drop_page_ref_def Let_def pad_write pad_upd pad_read pad_refs)

lemma pad_scan_next: "alloc_scan_next (pad g s) i p = apsnd (pad g) (alloc_scan_next s i p)"
proof (induction s i p rule: alloc_scan_next.induct)
  case (1 s i p)
  let ?skip = "p \<ge> PMM_TRACK_LIMIT \<or> p < PMM_MIN_PHYS \<or> is_reserved (set_region_next s i (p + PAGE_SIZE)) p \<or> page_is_allocated (set_region_next s i (p + PAGE_SIZE)) p"
  have t: "tracked p" if "\<not> ?skip" using that by (simp add: tracked_def not_le)
  note unf = alloc_scan_next.simps [of "pad g s" i p] alloc_scan_next.simps [of s i p]
  show ?case
  proof (cases "p < rg_end (regions s ! i) \<and> ?skip \<and> \<not> p + PAGE_SIZE < p")
    case True
    then have "alloc_scan_next (pad g (set_region_next s i (p + PAGE_SIZE))) i (p + PAGE_SIZE) = apsnd (pad g) (alloc_scan_next (set_region_next s i (p + PAGE_SIZE)) i (p + PAGE_SIZE))"
      using 1 by blast
    then show ?thesis using True unfolding unf by (simp add: Let_def pad_upd pad_read)
  next
    case False
    then show ?thesis using t unfolding unf by (auto simp: Let_def pad_upd pad_read pad_take)
  qed
qed

lemma pad_scan_base: "alloc_scan_base (pad g s) i p = apsnd (pad g) (alloc_scan_base s i p)"
proof (induction s i p rule: alloc_scan_base.induct)
  case (1 s i p)
  let ?skip = "p \<ge> PMM_TRACK_LIMIT \<or> p < PMM_MIN_PHYS \<or> is_reserved s p \<or> page_is_allocated s p"
  have t: "tracked p" if "\<not> ?skip" using that by (simp add: tracked_def not_le)
  note unf = alloc_scan_base.simps [of "pad g s" i p] alloc_scan_base.simps [of s i p]
  show ?case
  proof (cases "p < rg_end (regions s ! i) \<and> ?skip \<and> \<not> p + PAGE_SIZE < p")
    case True
    then have "alloc_scan_base (pad g s) i (p + PAGE_SIZE) = apsnd (pad g) (alloc_scan_base s i (p + PAGE_SIZE))"
      using 1 by blast
    then show ?thesis using True unfolding unf by (simp add: Let_def pad_upd pad_read)
  next
    case False
    then show ?thesis using t unfolding unf by (auto simp: Let_def pad_upd pad_read pad_take)
  qed
qed

lemma pad_alloc_regions: "alloc_regions (pad g s) js = apsnd (pad g) (alloc_regions s js)"
  by (induction js arbitrary: s) (simp_all add: pad_scan_next pad_scan_base Let_def split_beta prod_eq_iff)

lemma pad_free_regions: "tracked p \<Longrightarrow> free_in_regions (pad g s) p rs = pad g (free_in_regions s p rs)"
  by (induction rs) (simp_all add: pad_drop)

lemma pad_reserve_page: "reserve_page (pad g s) p = apsnd (pad g) (reserve_page s p)"
  by (simp add: reserve_page_def Let_def pad_read pad_upd pad_write phys_in_usable_region_def)

lemma pad_reserve_loop: "reserve_range_loop (pad g s) p e = pad g (reserve_range_loop s p e)"
proof (induction s p e rule: reserve_range_loop.induct)
  case (1 s p e)
  then show ?case by (subst (1 2) reserve_range_loop.simps) (simp add: Let_def pad_reserve_page)
qed

text \<open>
  C8: the allocator stays inside its arrays. Whatever the memory behind the ends of the two bitmaps of
  \<^verbatim>\<open>PMM_TRACK_WORDS\<close> words and of the reference array of \<^verbatim>\<open>PMM_TRACK_PAGES\<close> entries
  holds, every operation on every address gives the same result, makes the same change inside the arrays
  and leaves what is behind them as it was: nothing outside is read or written. And setting a bit changes the
  answer for the addresses of that page and of no other.
\<close>

theorem pmm_arrays_in_bounds:
  "page_is_allocated (pad g s) p = page_is_allocated s p \<and> page_is_reserved_fast (pad g s) p = page_is_reserved_fast s p
   \<and> page_set_allocated (pad g s) p b = pad g (page_set_allocated s p b) \<and> page_set_reserved (pad g s) p = pad g (page_set_reserved s p)
   \<and> pmm_alloc_page (pad g s) = apsnd (pad g) (pmm_alloc_page s)
   \<and> pmm_free_page (pad g s) p = pad g (pmm_free_page s p)
   \<and> pmm_retain_page (pad g s) p = apsnd (pad g) (pmm_retain_page s p)
   \<and> pmm_page_refcount (pad g s) p = pmm_page_refcount s p
   \<and> pmm_reserve_range (pad g s) p len = pad g (pmm_reserve_range s p len)
   \<and> page_is_allocated (page_set_allocated s p b) q =
       (if tracked p \<and> tracked q \<and> q div PAGE_SIZE = p div PAGE_SIZE then b else page_is_allocated s q)"
proof -
  have 1: "pmm_alloc_page (pad g s) = apsnd (pad g) (pmm_alloc_page s)"
    by (simp add: pmm_alloc_page_def pad_alloc_regions)
  have 2: "pmm_free_page (pad g s) p = pad g (pmm_free_page s p)"
    by (auto simp: pmm_free_page_def Let_def pad_read pad_free_regions tracked_def not_le)
  have 3: "pmm_retain_page (pad g s) p = apsnd (pad g) (pmm_retain_page s p)"
    by (auto simp: pmm_retain_page_def Let_def pad_read pad_refs pad_write tracked_def not_le)
  have 4: "pmm_page_refcount (pad g s) p = pmm_page_refcount s p"
    by (auto simp: pmm_page_refcount_def Let_def pad_refs tracked_def not_le)
  have 5: "pmm_reserve_range (pad g s) p len = pad g (pmm_reserve_range s p len)"
    by (simp add: pmm_reserve_range_def Let_def pad_reserve_loop)
  show ?thesis using 1 2 3 4 5 by (auto simp: pad_read pad_write page_is_allocated_set)
qed

text \<open>
  The self test of the direct map never gives its page back: when it succeeds, the page
  it allocated is still taken.
\<close>

theorem pmm_hhdm_selftest_leaks:
  assumes "pmm_ok s" "pmm_hhdm_selftest m s = (True, m', s')"
  shows "\<exists>p\<in>free_set s. free_set s' = free_set s - {p} \<and> unat (pmm_free_count s') + 1 = unat (pmm_free_count s)"
proof -
  obtain p t where a: "pmm_alloc_page s = (p, t)" by fastforce
  have "p \<noteq> 0" and t: "s' = t"
    using assms(2) a by (auto simp: pmm_hhdm_selftest_def Let_def split: if_splits option.splits)
  then have p: "p \<in> free_set s" and f: "free_set t = free_set s - {p}"
    using pmm_alloc_frame(6,7) [OF assms(1)] pmm_pool.alloc_avail [OF assms(1)] a by auto
  have "unat (pmm_free_count s) = card (free_set s)" "unat (pmm_free_count t) = card (free_set t)"
    using assms(1) pmm_alloc_ok [OF assms(1)] a pmm_invD(2) by (auto simp: pmm_ok_def pmm_free_count_def)
  then have "unat (pmm_free_count t) + 1 = unat (pmm_free_count s)"
    using f card_Suc_Diff1 [OF finite_free_set p] by simp
  then show ?thesis using p f t by blast
qed

lemma demo_pmm_alloc: "fst (pmm_alloc_page demo_pmm) = 0x1000000"
  by (simp add: pmm_alloc_page_def demo_pmm_eval Let_def alloc_scan_next.simps is_reserved_def
      page_is_reserved_fast_bit page_is_allocated_bit page_of_def tracked_def)

lemma demo_pmm_selftest: "fst (pmm_hhdm_selftest m demo_pmm)"
proof -
  have "g_hhdm (snd (pmm_alloc_page demo_pmm)) = 0xFFFF800000000000"
    using pmm_alloc_frame(4) [OF demo_pmm_ok] by (simp add: demo_pmm_eval)
  then show ?thesis
    by (simp add: pmm_hhdm_selftest_def demo_pmm_eval demo_pmm_alloc pmm_phys_to_virt_def case_prod_beta
        Let_def)
qed

theorem pmm_hhdm_selftest_leaks_witness:
  "\<exists>p\<in>free_set demo_pmm. free_set (snd (snd (pmm_hhdm_selftest (\<lambda>_ _. 0) demo_pmm))) = free_set demo_pmm - {p}"
proof -
  let ?r = "pmm_hhdm_selftest (\<lambda>_ _. 0) demo_pmm"
  have "?r = (True, fst (snd ?r), snd (snd ?r))" using demo_pmm_selftest by (simp add: prod_eq_iff)
  from pmm_hhdm_selftest_leaks [OF demo_pmm_ok this] show ?thesis by blast
qed

end
