(* ===== verification/Vmm.thy ===== *)
theory Vmm
  imports Pmm_Spec "HOL-Library.Monad_Syntax"
begin

text \<open>
  The virtual memory manager, \<^verbatim>\<open>src/src/kernel/vmm.c\<close>: four-level page tables in
  physical frames, user mappings, copy-on-write and the cloning of an address space. The
  state holds the allocator, physical memory, the variables of the C file, the control
  register CR3, \<^verbatim>\<open>kernel_cr3\<close> and the framebuffer range that
  \<^verbatim>\<open>graphics_fb_phys\<close> and \<^verbatim>\<open>graphics_fb_size\<close> report. A table pointer is
  the physical address of its frame: the code dereferences the direct-map address of it.
  Translation-lookaside-buffer flushes (\<^verbatim>\<open>invlpg\<close>) do not change this state; the
  debug output functions are left out.
\<close>

section \<open>State and page table access\<close>

abbreviation (input) PTE_U :: u64 where "PTE_U \<equiv> 0x004"
abbreviation (input) PTE_PWT :: u64 where "PTE_PWT \<equiv> 0x008"
abbreviation (input) PTE_PCD :: u64 where "PTE_PCD \<equiv> 0x010"
abbreviation (input) PTE_COW :: u64 where "PTE_COW \<equiv> 0x200"
abbreviation (input) PTE_NX :: u64 where "PTE_NX \<equiv> 0x8000000000000000"
abbreviation (input) USER_TOP :: u64 where "USER_TOP \<equiv> 0x0000800000000000"

record vmm =
  pool :: pmm
  mem :: phys_mem
  g_user_pml4 :: u64
  g_user_valid :: bool
  cpu_cr3 :: u64
  kernel_cr3 :: u64
  fb_phys :: u64
  fb_size :: u64

definition idx4 :: "u64 \<Rightarrow> nat" where "idx4 v = unat (drop_bit 39 v AND 0x1ff)"
definition idx3 :: "u64 \<Rightarrow> nat" where "idx3 v = unat (drop_bit 30 v AND 0x1ff)"
definition idx2 :: "u64 \<Rightarrow> nat" where "idx2 v = unat (drop_bit 21 v AND 0x1ff)"
definition idx1 :: "u64 \<Rightarrow> nat" where "idx1 v = unat (drop_bit 12 v AND 0x1ff)"

definition canonical_user :: "u64 \<Rightarrow> bool" where "canonical_user va \<longleftrightarrow> va < USER_TOP"

definition table :: "vmm \<Rightarrow> u64 \<Rightarrow> u64 option" where
  "table s phys =
     (if phys = 0 \<or> phys AND (PAGE_SIZE - 1) \<noteq> 0 then None
      else case pmm_phys_to_virt (pool s) (phys AND PTE_ADDR_MASK) of
        None \<Rightarrow> None | Some _ \<Rightarrow> Some (phys AND PTE_ADDR_MASK))"

definition rd :: "vmm \<Rightarrow> u64 \<Rightarrow> nat \<Rightarrow> u64" where
  "rd s t i = mem s t i"

definition wr :: "vmm \<Rightarrow> u64 \<Rightarrow> nat \<Rightarrow> u64 \<Rightarrow> vmm" where
  "wr s t i e = s\<lparr>mem := (mem s)(t := (mem s t)(i := e))\<rparr>"

definition alloc_page :: "vmm \<Rightarrow> u64 \<times> vmm" where
  "alloc_page s = (let (p, pl) = pmm_alloc_page (pool s) in (p, s\<lparr>pool := pl\<rparr>))"

definition free_page :: "vmm \<Rightarrow> u64 \<Rightarrow> vmm" where
  "free_page s p = s\<lparr>pool := pmm_free_page (pool s) p\<rparr>"

definition retain_page :: "vmm \<Rightarrow> u64 \<Rightarrow> bool \<times> vmm" where
  "retain_page s p = (let (b, pl) = pmm_retain_page (pool s) p in (b, s\<lparr>pool := pl\<rparr>))"

definition zero_table :: "vmm \<Rightarrow> u64 \<Rightarrow> vmm" where
  "zero_table s t = s\<lparr>mem := zero_frame (mem s) t\<rparr>"

definition zero_page :: "vmm \<Rightarrow> u64 \<Rightarrow> bool \<times> vmm" where
  "zero_page s phys = (case table s phys of None \<Rightarrow> (False, s) | Some t \<Rightarrow> (True, zero_table s t))"

section \<open>Building tables\<close>

definition new_user_table :: "vmm \<Rightarrow> u64 \<Rightarrow> nat \<Rightarrow> u64 option \<times> vmm" where
  "new_user_table s parent idx =
     (let (phys, s) = alloc_page s in
      if phys = 0 then (None, s)
      else case table s phys of
        None \<Rightarrow> (None, free_page s phys)
      | Some virt \<Rightarrow>
        let s = zero_table s virt in
        (Some virt, wr s parent idx ((phys AND PTE_ADDR_MASK) OR PTE_P OR PTE_W OR PTE_U)))"

definition ensure_user_child :: "vmm \<Rightarrow> u64 \<Rightarrow> nat \<Rightarrow> u64 option \<times> vmm" where
  "ensure_user_child s parent idx =
     (let e = rd s parent idx in
      if e AND PTE_P = 0 \<or> e AND PTE_PS \<noteq> 0 then new_user_table s parent idx
      else case table s (e AND PTE_ADDR_MASK) of
        None \<Rightarrow> new_user_table s parent idx
      | Some child \<Rightarrow>
        let wanted = (e AND PTE_ADDR_MASK) OR PTE_P OR PTE_W OR PTE_U in
        (Some child, if e AND (PTE_W OR PTE_U) \<noteq> PTE_W OR PTE_U then wr s parent idx wanted else s))"

definition copy_kernel_half :: "vmm \<Rightarrow> u64 \<Rightarrow> u64 \<Rightarrow> vmm" where
  "copy_kernel_half s src dst = fold (\<lambda>i s. wr s dst i (rd s src i)) [256..<512] s"

definition vmm_user_space_create :: "vmm \<Rightarrow> int \<times> vmm" where
  "vmm_user_space_create s =
     (let current_cr3 = cpu_cr3 s AND PAGE_MASK in
      if current_cr3 = 0 \<or> current_cr3 > PTE_ADDR_MASK then (-1, s)
      else let source_cr3 = (if kernel_cr3 s \<noteq> 0 then kernel_cr3 s AND PAGE_MASK else current_cr3) in
      if source_cr3 = 0 \<or> source_cr3 > PTE_ADDR_MASK then (-1, s)
      else case table s source_cr3 of None \<Rightarrow> (-1, s)
      | Some src \<Rightarrow>
        let (pml4_phys, s) = alloc_page s in
        if pml4_phys = 0 then (-1, s)
        else case table s pml4_phys of None \<Rightarrow> (-1, free_page s pml4_phys)
        | Some dst \<Rightarrow>
          let s = zero_table s dst; s = copy_kernel_half s src dst in
          (0, s\<lparr>g_user_pml4 := pml4_phys, g_user_valid := True\<rparr>))"

definition vmm_user_cr3 :: "vmm \<Rightarrow> u64" where
  "vmm_user_cr3 s = (if g_user_valid s then g_user_pml4 s else 0)"

section \<open>Cloning an address space\<close>

text \<open>
  The table levels count down from 3; level 1 holds the leaf entries. A loop with an early
  \<^verbatim>\<open>return\<close> is a fold whose accumulator is \<open>Inl\<close> of the returned value once the
  loop has been left.
\<close>

fun destroy_clone_level :: "vmm \<Rightarrow> u64 \<Rightarrow> nat \<Rightarrow> vmm" where
  "destroy_clone_level s phys 0 =
     (case table s (phys AND PAGE_MASK) of None \<Rightarrow> s | Some _ \<Rightarrow> free_page s (phys AND PAGE_MASK))"
| "destroy_clone_level s phys (Suc l) =
     (case table s (phys AND PAGE_MASK) of None \<Rightarrow> s
      | Some tabp \<Rightarrow>
        let s = (if l > 0 then
            fold (\<lambda>i s. let e = rd s tabp i in
              if e AND PTE_P = 0 \<or> e AND PTE_PS \<noteq> 0 then s
              else destroy_clone_level s (e AND PTE_ADDR_MASK) l) [0..<512] s
          else s) in
        free_page s (phys AND PAGE_MASK))"

definition destroy_clone_root :: "vmm \<Rightarrow> u64 \<Rightarrow> vmm" where
  "destroy_clone_root s root_phys =
     (case table s (root_phys AND PAGE_MASK) of None \<Rightarrow> s
      | Some root \<Rightarrow>
        let s = fold (\<lambda>i s. let e = rd s root i in
            if e AND PTE_P = 0 \<or> e AND PTE_PS \<noteq> 0 then s
            else destroy_clone_level s (e AND PTE_ADDR_MASK) 3) [0..<256] s in
        free_page s (root_phys AND PAGE_MASK))"

text \<open>
  The recursion starts at level 3 and stops at level 1; level 0 is never entered. The
  results are the frame (0 on failure), the error code and the state.
\<close>

fun clone_user_tables :: "vmm \<Rightarrow> u64 \<Rightarrow> nat \<Rightarrow> int \<Rightarrow> u64 \<times> int \<times> vmm" where
  "clone_user_tables s src_phys 0 err = (0, -1, s)"
| "clone_user_tables s src_phys (Suc l) err =
     (let (dst_phys, s) = alloc_page s in
      if dst_phys = 0 then (0, -1, s)
      else case (table s src_phys, table s dst_phys) of
        (Some src, Some dst) \<Rightarrow>
          let s = zero_table s dst in
          (case foldl (\<lambda>r i. case r of Inl out \<Rightarrow> Inl out
             | Inr (err, s) \<Rightarrow>
               let e = rd s src i in
               if e AND PTE_P = 0 then Inr (err, s)
               else if e AND PTE_PS \<noteq> 0 then Inl (-2, destroy_clone_level s dst_phys (Suc l))
               else if l = 0 then Inr (err, wr s dst i e)
               else let (np, err, s) = clone_user_tables s (e AND PTE_ADDR_MASK) l err in
                 if np = 0 then Inl (err, destroy_clone_level s dst_phys (Suc l))
                 else Inr (err, wr s dst i ((np AND PTE_ADDR_MASK) OR (e AND NOT PTE_ADDR_MASK))))
             (Inr (err, s)) [0..<512] of
             Inl (err, s) \<Rightarrow> (0, err, s)
           | Inr (err, s) \<Rightarrow> (dst_phys, err, s))
      | _ \<Rightarrow> (0, -1, free_page s dst_phys))"

fun preflight_fork_pages :: "vmm \<Rightarrow> u64 \<Rightarrow> nat \<Rightarrow> int \<times> vmm" where
  "preflight_fork_pages s src_phys 0 = (-1, s)"
| "preflight_fork_pages s src_phys (Suc l) =
     (case table s src_phys of None \<Rightarrow> (-1, s)
      | Some src \<Rightarrow>
        (case foldl (\<lambda>r i. case r of Inl out \<Rightarrow> Inl out
           | Inr s \<Rightarrow>
             let e = rd s src i in
             if e AND PTE_P = 0 then Inr s
             else if e AND PTE_PS \<noteq> 0 then Inl (-2, s)
             else if l = 0 then
               let page = e AND PTE_ADDR_MASK in
               if page = 0 then Inl (-1, s)
               else if pmm_page_is_reserved (pool s) page then Inr s
               else let (ok, s) = retain_page s page in
                 if \<not> ok then Inl (-1, s) else Inr (free_page s page)
             else let (r, s) = preflight_fork_pages s (e AND PTE_ADDR_MASK) l in
               if r \<noteq> 0 then Inl (-1, s) else Inr s)
           (Inr s) [0..<512] of
           Inl (r, s) \<Rightarrow> (r, s)
         | Inr s \<Rightarrow> (0, s)))"

fun apply_fork_cow :: "vmm \<Rightarrow> u64 \<Rightarrow> u64 \<Rightarrow> nat \<Rightarrow> int \<times> vmm" where
  "apply_fork_cow s src_phys dst_phys 0 = (-1, s)"
| "apply_fork_cow s src_phys dst_phys (Suc l) =
     (case (table s src_phys, table s dst_phys) of
        (Some src, Some dst) \<Rightarrow>
        (case foldl (\<lambda>r i. case r of Inl out \<Rightarrow> Inl out
           | Inr s \<Rightarrow>
             let e = rd s src i in
             if e AND PTE_P = 0 then Inr s
             else if e AND PTE_PS \<noteq> 0 then Inl (-2, s)
             else if l = 0 then
               let page = e AND PTE_ADDR_MASK in
               if page = 0 then Inl (-1, s)
               else if pmm_page_is_reserved (pool s) page then Inr (wr s dst i e)
               else let (ok, s) = retain_page s page in
                 if \<not> ok then Inl (-1, s)
                 else if e AND PTE_W \<noteq> 0 then
                   let cow = (e AND NOT PTE_W) OR PTE_COW in
                   Inr (wr (wr s src i cow) dst i cow)
                 else Inr (wr s dst i e)
             else let np = rd s dst i AND PTE_ADDR_MASK in
               if np = 0 then Inl (-1, s)
               else let (r, s) = apply_fork_cow s (e AND PTE_ADDR_MASK) np l in
                 if r \<noteq> 0 then Inl (-1, s) else Inr s)
           (Inr s) [0..<512] of
           Inl (r, s) \<Rightarrow> (r, s)
         | Inr s \<Rightarrow> (0, s))
      | _ \<Rightarrow> (-1, s))"

text \<open>
  The three loops of \<^verbatim>\<open>vmm_user_space_clone\<close> over the user half of the top table.
\<close>

definition clone_root_tables :: "vmm \<Rightarrow> u64 \<Rightarrow> u64 \<Rightarrow> int \<times> vmm" where
  "clone_root_tables s src dst =
     (case foldl (\<lambda>r i. case r of Inl out \<Rightarrow> Inl out
        | Inr (err, s) \<Rightarrow>
          let e = rd s src i in
          if e AND PTE_P = 0 then Inr (err, s)
          else if e AND PTE_PS \<noteq> 0 then Inl (-2, s)
          else let (np, err, s) = clone_user_tables s (e AND PTE_ADDR_MASK) 3 err in
            if np = 0 then Inl (err, s)
            else Inr (err, wr s dst i ((np AND PTE_ADDR_MASK) OR (e AND NOT PTE_ADDR_MASK))))
        (Inr (0, s)) [0..<256] of
        Inl r \<Rightarrow> r | Inr r \<Rightarrow> r)"

definition preflight_root :: "vmm \<Rightarrow> u64 \<Rightarrow> bool \<times> vmm" where
  "preflight_root s src =
     foldl (\<lambda>(ok, s) i.
        if \<not> ok then (ok, s)
        else let e = rd s src i in
          if e AND PTE_P = 0 then (True, s)
          else if e AND PTE_PS \<noteq> 0 then (False, s)
          else let (r, s) = preflight_fork_pages s (e AND PTE_ADDR_MASK) 3 in (r = 0, s))
       (True, s) [0..<256]"

definition apply_root :: "vmm \<Rightarrow> u64 \<Rightarrow> u64 \<Rightarrow> bool \<times> vmm" where
  "apply_root s src dst =
     foldl (\<lambda>(ok, s) i.
        if \<not> ok then (ok, s)
        else let e = rd s src i in
          if e AND PTE_P = 0 then (True, s)
          else let np = rd s dst i AND PTE_ADDR_MASK in
            if np = 0 then (False, s)
            else let (r, s) = apply_fork_cow s (e AND PTE_ADDR_MASK) np 3 in (r = 0, s))
       (True, s) [0..<256]"

text \<open>
  The result is the return code, the value stored through \<^verbatim>\<open>dst_cr3_out\<close> (the caller
  passes a valid pointer) and the state.
\<close>

definition vmm_user_space_clone :: "vmm \<Rightarrow> u64 \<Rightarrow> int \<times> u64 option \<times> vmm" where
  "vmm_user_space_clone s src_cr3 =
     (if src_cr3 = 0 then (-1, None, s)
      else case table s (src_cr3 AND PTE_ADDR_MASK) of None \<Rightarrow> (-1, None, s)
      | Some src \<Rightarrow>
        let (dst_phys, s) = alloc_page s in
        if dst_phys = 0 then (-1, None, s)
        else case table s dst_phys of None \<Rightarrow> (-1, None, free_page s dst_phys)
        | Some dst \<Rightarrow>
          let s = zero_table s dst; s = copy_kernel_half s src dst;
              (err, s) = clone_root_tables s src dst in
          if err \<noteq> 0 then (err, None, destroy_clone_root s dst_phys)
          else let (ok, s) = preflight_root s src in
            if \<not> ok then (-1, None, destroy_clone_root s dst_phys)
            else let (ok, s) = apply_root s src dst in
              if \<not> ok then (-1, None, destroy_clone_root s dst_phys)
              else (0, Some dst_phys, s))"

section \<open>Destroying an address space\<close>

definition fb_page :: "vmm \<Rightarrow> u64 \<Rightarrow> bool" where
  "fb_page s page =
     (let fb = fb_phys s AND PAGE_MASK; fbsize = fb_size s;
          fbend = fb + ((fbsize + PAGE_SIZE - 1) AND PAGE_MASK) in
      \<not> (fbsize = 0 \<or> page < fb \<or> page \<ge> fbend))"

fun destroy_user_level :: "vmm \<Rightarrow> u64 \<Rightarrow> nat \<Rightarrow> vmm" where
  "destroy_user_level s phys 0 = s"
| "destroy_user_level s phys (Suc l) =
     (case table s (phys AND PAGE_MASK) of None \<Rightarrow> s
      | Some tabp \<Rightarrow>
        fold (\<lambda>i s. let e = rd s tabp i in
          if e AND PTE_P = 0 then s
          else
            let s = (if l > 0 \<and> e AND PTE_PS = 0 then
                  let child = e AND PTE_ADDR_MASK in
                  free_page (destroy_user_level s child l) child
                else if l = 0 then
                  let page = e AND PTE_ADDR_MASK in
                  if \<not> fb_page s page then free_page s page else s
                else s) in
            wr s tabp i 0) [0..<512] s)"

definition vmm_user_space_destroy :: "vmm \<Rightarrow> u64 \<Rightarrow> int \<times> vmm" where
  "vmm_user_space_destroy s cr3 =
     (if cr3 = 0 then (-1, s)
      else let pml4_phys = cr3 AND PAGE_MASK in
      case table s pml4_phys of None \<Rightarrow> (-1, s)
      | Some pml4 \<Rightarrow>
        let s = fold (\<lambda>i s. let e = rd s pml4 i in
            if e AND PTE_P = 0 \<or> e AND PTE_PS \<noteq> 0 then s
            else let child = e AND PTE_ADDR_MASK;
                     s = destroy_user_level s child 3;
                     s = free_page s child in
              wr s pml4 i 0) [0..<256] s in
        (0, free_page s pml4_phys))"

definition vmm_user_activate :: "vmm \<Rightarrow> u64 \<Rightarrow> int \<times> vmm" where
  "vmm_user_activate s cr3 =
     (let cr3 = cr3 AND PAGE_MASK in
      if cr3 = 0 \<or> table s cr3 = None then (-1, s)
      else (0, s\<lparr>g_user_pml4 := cr3, g_user_valid := True\<rparr>))"

definition vmm_user_flush_tlb :: "vmm \<Rightarrow> vmm" where
  "vmm_user_flush_tlb s =
     (if \<not> g_user_valid s \<or> g_user_pml4 s = 0 \<or> kernel_cr3 s = 0 then s
      else let user = g_user_pml4 s AND PAGE_MASK; kern = kernel_cr3 s AND PAGE_MASK;
               current = cpu_cr3 s AND PAGE_MASK in
        if current = user then s\<lparr>cpu_cr3 := user\<rparr> else s\<lparr>cpu_cr3 := kern\<rparr>)"

definition vmm_user_switch :: "vmm \<Rightarrow> vmm" where
  "vmm_user_switch s = (if \<not> g_user_valid s then s else s\<lparr>cpu_cr3 := g_user_pml4 s\<rparr>)"

definition vmm_current_user_pml4 :: "vmm \<Rightarrow> u64" where
  "vmm_current_user_pml4 s = (if g_user_valid s then g_user_pml4 s else 0)"

section \<open>Walking, mapping and unmapping\<close>

text \<open>One level of a walk: a present entry that is not a large page leads to the next table.\<close>

definition walk_step :: "vmm \<Rightarrow> u64 \<Rightarrow> nat \<Rightarrow> u64 option" where
  "walk_step s t i =
     (let e = rd s t i in
      if e AND PTE_P = 0 \<or> e AND PTE_PS \<noteq> 0 then None else table s (e AND PTE_ADDR_MASK))"

definition walk :: "vmm \<Rightarrow> u64 \<Rightarrow> u64 \<Rightarrow> u64 option" where
  "walk s pml4 va =
     do { pdpt \<leftarrow> walk_step s pml4 (idx4 va);
          pd \<leftarrow> walk_step s pdpt (idx3 va);
          walk_step s pd (idx2 va) }"

text \<open>The results of the translations are the physical address and the leaf entry.\<close>

definition translate_leaf :: "vmm \<Rightarrow> u64 \<Rightarrow> u64 \<Rightarrow> (u64 \<times> u64) option" where
  "translate_leaf s pml4 va =
     (case walk s pml4 va of None \<Rightarrow> None
      | Some pt \<Rightarrow>
        let pte = rd s pt (idx1 va) in
        if pte AND PTE_P = 0 then None
        else Some ((pte AND PTE_ADDR_MASK) OR (va AND 0xfff), pte))"

definition vmm_user_translate :: "vmm \<Rightarrow> u64 \<Rightarrow> (u64 \<times> u64) option" where
  "vmm_user_translate s virt =
     (if \<not> g_user_valid s \<or> \<not> canonical_user virt then None
      else case table s (g_user_pml4 s) of None \<Rightarrow> None
      | Some pml4 \<Rightarrow> translate_leaf s pml4 virt)"

definition vmm_cr3_translate_direct :: "vmm \<Rightarrow> u64 \<Rightarrow> u64 \<Rightarrow> (u64 \<times> u64) option" where
  "vmm_cr3_translate_direct s cr3_phys va =
     (if cr3_phys = 0 \<or> cr3_phys AND (PAGE_SIZE - 1) \<noteq> 0 \<or> \<not> canonical_user va then None
      else case table s cr3_phys of None \<Rightarrow> None
      | Some pml4 \<Rightarrow> translate_leaf s pml4 va)"

definition vmm_user_translate_cr3 :: "vmm \<Rightarrow> u64 \<Rightarrow> u64 \<Rightarrow> (u64 \<times> u64) option" where
  "vmm_user_translate_cr3 s cr3 virt = vmm_cr3_translate_direct s (cr3 AND PAGE_MASK) virt"

definition vmm_user_map :: "vmm \<Rightarrow> u64 \<Rightarrow> u64 \<Rightarrow> u64 \<Rightarrow> int \<times> vmm" where
  "vmm_user_map s virt phys flags =
     (if \<not> g_user_valid s \<or> \<not> canonical_user virt \<or> virt AND 0xfff \<noteq> 0 \<or> phys AND 0xfff \<noteq> 0
      then (-1, s)
      else case table s (g_user_pml4 s) of None \<Rightarrow> (-1, s)
      | Some pml4 \<Rightarrow>
        (case ensure_user_child s pml4 (idx4 virt) of (None, s) \<Rightarrow> (-1, s)
         | (Some pdpt, s) \<Rightarrow>
        (case ensure_user_child s pdpt (idx3 virt) of (None, s) \<Rightarrow> (-1, s)
         | (Some pd, s) \<Rightarrow>
        (case ensure_user_child s pd (idx2 virt) of (None, s) \<Rightarrow> (-1, s)
         | (Some pt, s) \<Rightarrow>
           (0, wr s pt (idx1 virt) ((phys AND PTE_ADDR_MASK) OR PTE_P OR PTE_U OR
                 (flags AND (PTE_W OR PTE_NX OR PTE_PWT OR PTE_PCD))))))))"

definition vmm_user_validate_page_cr3 :: "vmm \<Rightarrow> u64 \<Rightarrow> u64 \<Rightarrow> bool \<Rightarrow> bool \<Rightarrow> int" where
  "vmm_user_validate_page_cr3 s cr3 virt require_write require_exec =
     (if cr3 = 0 \<or> \<not> canonical_user virt then -1
      else case table s (cr3 AND PAGE_MASK) of None \<Rightarrow> -1
      | Some pml4 \<Rightarrow>
        let e4 = rd s pml4 (idx4 virt) in
        if e4 AND PTE_P = 0 \<or> e4 AND PTE_PS \<noteq> 0 \<or> e4 AND PTE_U = 0 \<or> e4 AND PTE_W = 0 then -2
        else case table s (e4 AND PTE_ADDR_MASK) of None \<Rightarrow> -2
        | Some pdpt \<Rightarrow>
          let e3 = rd s pdpt (idx3 virt) in
          if e3 AND PTE_P = 0 \<or> e3 AND PTE_PS \<noteq> 0 \<or> e3 AND PTE_U = 0 \<or> e3 AND PTE_W = 0 then -3
          else case table s (e3 AND PTE_ADDR_MASK) of None \<Rightarrow> -3
          | Some pd \<Rightarrow>
            let e2 = rd s pd (idx2 virt) in
            if e2 AND PTE_P = 0 \<or> e2 AND PTE_PS \<noteq> 0 \<or> e2 AND PTE_U = 0 \<or> e2 AND PTE_W = 0 then -4
            else case table s (e2 AND PTE_ADDR_MASK) of None \<Rightarrow> -4
            | Some pt \<Rightarrow>
              let pte = rd s pt (idx1 virt) in
              if pte AND PTE_P = 0 \<or> pte AND PTE_U = 0 then -5
              else if require_write \<and> pte AND PTE_W = 0 then -6
              else if require_exec \<and> pte AND PTE_NX \<noteq> 0 then -7
              else 0)"

definition vmm_user_debug_walk :: "vmm \<Rightarrow> u64 \<Rightarrow> u64 option" where
  "vmm_user_debug_walk s virt =
     (if \<not> g_user_valid s \<or> \<not> canonical_user virt \<or> virt AND (PAGE_SIZE - 1) \<noteq> 0 then None
      else do {
        pml4 \<leftarrow> table s (g_user_pml4 s);
        pdpt \<leftarrow> walk_step s pml4 (idx4 virt);
        pd \<leftarrow> walk_step s pdpt (idx3 virt);
        pt \<leftarrow> walk_step s pd (idx2 virt);
        (let e4 = rd s pml4 (idx4 virt); e3 = rd s pdpt (idx3 virt);
             e2 = rd s pd (idx2 virt); e1 = rd s pt (idx1 virt) in
         if e1 AND PTE_P = 0 then None
         else Some ((e4 AND 0xff) OR push_bit 8 (e3 AND 0xff) OR push_bit 16 (e2 AND 0xff)
                OR push_bit 24 (e1 AND 0xff))) })"

function range_ok_loop :: "vmm \<Rightarrow> u64 \<Rightarrow> u64 \<Rightarrow> bool \<Rightarrow> bool" where
  "range_ok_loop s va lst write =
     (case vmm_user_translate s va of None \<Rightarrow> False
      | Some (phys, pte) \<Rightarrow>
        if pte AND PTE_U = 0 then False
        else if write \<and> pte AND PTE_W = 0 \<and> pte AND PTE_COW = 0 then False
        else if va = lst then True
        else if va > USER_TOP - PAGE_SIZE then False
        else range_ok_loop s (va + PAGE_SIZE) lst write)"
  by pat_completeness auto
termination
proof (relation "measure (\<lambda>(s, va, lst, write). 2 ^ 64 - unat va)", goal_cases)
  case (2 s va last w x phys pte)
  have "\<not> va + 0x1000 < va"
    using 2(6) by (auto simp: word_less_nat_alt unat_word_ariths)
  then show ?case using page_step_measure [of va] by simp
qed simp

definition vmm_user_range_ok :: "vmm \<Rightarrow> u64 \<Rightarrow> u64 \<Rightarrow> bool \<Rightarrow> bool" where
  "vmm_user_range_ok s virt len write =
     (if \<not> g_user_valid s \<or> len = 0 \<or> \<not> canonical_user virt \<or> len > USER_TOP - virt then False
      else range_ok_loop s (virt AND PAGE_MASK) ((virt + len - 1) AND PAGE_MASK) write)"

definition vmm_user_unmap :: "vmm \<Rightarrow> u64 \<Rightarrow> int \<times> u64 option \<times> vmm" where
  "vmm_user_unmap s virt =
     (if \<not> g_user_valid s \<or> \<not> canonical_user virt \<or> virt AND (PAGE_SIZE - 1) \<noteq> 0 then (-1, None, s)
      else case table s (g_user_pml4 s) of None \<Rightarrow> (-1, None, s)
      | Some pml4 \<Rightarrow>
        (case walk s pml4 virt of None \<Rightarrow> (-1, None, s)
         | Some pt \<Rightarrow>
           let e = rd s pt (idx1 virt) in
           if e AND PTE_P = 0 then (-1, None, s)
           else (0, Some (e AND PTE_ADDR_MASK), wr s pt (idx1 virt) 0)))"

section \<open>Copy on write\<close>

text \<open>A pointer to a leaf entry is the frame of its table and the index.\<close>

definition cow_walk :: "vmm \<Rightarrow> u64 \<Rightarrow> u64 \<Rightarrow> (u64 \<times> nat) option" where
  "cow_walk s cr3 virt =
     (if virt AND (PAGE_SIZE - 1) \<noteq> 0 \<or> virt \<ge> USER_TOP then None
      else case table s (cr3 AND PAGE_MASK) of None \<Rightarrow> None
      | Some pml4 \<Rightarrow> (case walk s pml4 virt of None \<Rightarrow> None | Some pt \<Rightarrow> Some (pt, idx1 virt)))"

text \<open>
  Bytes of a frame: byte \<open>j\<close> is byte \<open>j mod 8\<close> of the 64-bit word \<open>j div 8\<close>
  (the machine is little endian).
\<close>

definition frame_byte :: "phys_mem \<Rightarrow> u64 \<Rightarrow> nat \<Rightarrow> u8" where
  "frame_byte m f j = ucast (drop_bit (8 * (j mod 8)) (m f (j div 8)))"

definition set_frame_byte :: "phys_mem \<Rightarrow> u64 \<Rightarrow> nat \<Rightarrow> u8 \<Rightarrow> phys_mem" where
  "set_frame_byte m f j b =
     m(f := (m f)(j div 8 := (m f (j div 8) AND NOT (push_bit (8 * (j mod 8)) 0xFF))
                             OR push_bit (8 * (j mod 8)) (ucast b)))"

definition copy_frame :: "phys_mem \<Rightarrow> u64 \<Rightarrow> u64 \<Rightarrow> phys_mem" where
  "copy_frame m src dst = fold (\<lambda>j m. set_frame_byte m dst j (frame_byte m src j)) [0..<4096] m"

definition vmm_user_cow_fault :: "vmm \<Rightarrow> u64 \<Rightarrow> u64 \<Rightarrow> int \<times> vmm" where
  "vmm_user_cow_fault s cr3 virt0 =
     (let virt = virt0 AND PAGE_MASK in
      case cow_walk s cr3 virt of None \<Rightarrow> (-1, s)
      | Some (pt, i) \<Rightarrow>
        let pte = rd s pt i in
        if pte AND PTE_P = 0 \<or> pte AND PTE_U = 0 \<or> pte AND PTE_COW = 0 \<or> pte AND PTE_W \<noteq> 0 then (-1, s)
        else let oldphys = pte AND PTE_ADDR_MASK; refs = pmm_page_refcount (pool s) oldphys in
        if refs = 1 then (0, wr s pt i ((pte OR PTE_W) AND NOT PTE_COW))
        else let (np, s) = alloc_page s in
          if np = 0 then (-1, s)
          else case (pmm_phys_to_virt (pool s) oldphys, pmm_phys_to_virt (pool s) np) of
            (Some _, Some _) \<Rightarrow>
              let s = s\<lparr>mem := copy_frame (mem s) oldphys np\<rparr>;
                  flags = ((pte AND 0xFFF) AND NOT PTE_COW) OR (PTE_P OR PTE_U OR PTE_W);
                  s = wr s pt i (((np AND PTE_ADDR_MASK) OR flags OR (pte AND PTE_NX)) AND NOT PTE_COW) in
              (0, free_page s oldphys)
          | _ \<Rightarrow> (-1, free_page s np))"

definition vmm_user_protect :: "vmm \<Rightarrow> u64 \<Rightarrow> u64 \<Rightarrow> int \<times> vmm" where
  "vmm_user_protect s virt flags =
     (if \<not> g_user_valid s \<or> \<not> canonical_user virt \<or> virt AND (PAGE_SIZE - 1) \<noteq> 0 then (-1, s)
      else case vmm_user_translate s virt of None \<Rightarrow> (-1, s)
      | Some (phys, pte) \<Rightarrow>
        (case (if flags AND PTE_W \<noteq> 0 \<and> pte AND PTE_COW \<noteq> 0 then
             (let (r, s) = vmm_user_cow_fault s (g_user_pml4 s) virt in
              if r \<noteq> 0 then (None, s) else (map_option snd (vmm_user_translate s virt), s))
           else (Some pte, s)) of
           (None, s) \<Rightarrow> (-1, s)
         | (Some pte, s) \<Rightarrow>
           (case do { pml4 \<leftarrow> table s (g_user_pml4 s);
                      pdpt \<leftarrow> table s (rd s pml4 (idx4 virt) AND PTE_ADDR_MASK);
                      pd \<leftarrow> table s (rd s pdpt (idx3 virt) AND PTE_ADDR_MASK);
                      table s (rd s pd (idx2 virt) AND PTE_ADDR_MASK) } of
              None \<Rightarrow> (-1, s)
            | Some pt \<Rightarrow>
              (0, wr s pt (idx1 virt) ((pte AND PTE_ADDR_MASK) OR PTE_P OR PTE_U OR
                    (flags AND (PTE_W OR PTE_NX OR PTE_PWT OR PTE_PCD)))))))"

declare range_ok_loop.simps [simp del]

end
