(* ===== verification/Task.thy ===== *)
theory Task
  imports Vmm "HOL-Library.Monad_Syntax"
begin

text \<open>
  The task table of \<^verbatim>\<open>src/src/kernel/main.c\<close>: task slots, the choice of the next
  task, the areas of address space that a task has reserved without mapping them, the break and
  the \<^verbatim>\<open>mmap\<close> cursor shared by the tasks of one address space, and process groups. A
  pointer to a task is its index in \<^verbatim>\<open>tasks\<close>, and the address of a signal handler a
  number.
\<close>

section \<open>Data\<close>

abbreviation (input) MAX_TASKS :: nat where "MAX_TASKS \<equiv> 64"
abbreviation (input) MAX_LAZY_USER_MMAPS :: nat where "MAX_LAZY_USER_MMAPS \<equiv> 128"
abbreviation (input) USER_LIMIT :: u64 where "USER_LIMIT \<equiv> 0x0000800000000000"
abbreviation (input) USER_MMAP_MIN :: u64 where "USER_MMAP_MIN \<equiv> 0x0000000010000000"
abbreviation (input) USER_HEAP_BASE :: u64 where "USER_HEAP_BASE \<equiv> 0x0000000000500000"
abbreviation (input) USER_HEAP_MAX :: u64 where "USER_HEAP_MAX \<equiv> 0x000000000F000000"

datatype task_state = TASK_UNUSED | TASK_RUNNABLE | TASK_RUNNING | TASK_BLOCKED | TASK_ZOMBIE

record lazy_user_mmap =
  lz_start :: u64
  lz_end :: u64
  lz_prot :: u64
  lz_used :: bool

record task_context =
  cx_rax :: u64
  cx_rbx :: u64
  cx_rcx :: u64
  cx_rdx :: u64
  cx_rsi :: u64
  cx_rdi :: u64
  cx_rbp :: u64
  cx_r8 :: u64
  cx_r9 :: u64
  cx_r10 :: u64
  cx_r11 :: u64
  cx_r12 :: u64
  cx_r13 :: u64
  cx_r14 :: u64
  cx_r15 :: u64
  cx_rsp :: u64
  cx_rip :: u64
  cx_rflags :: u64
  cx_cr3 :: u64
  cx_fs_base :: u64
  cx_gs_base :: u64

record syscall_frame =
  fr_rax :: u64
  fr_rbx :: u64
  fr_rcx :: u64
  fr_rdx :: u64
  fr_rsi :: u64
  fr_rdi :: u64
  fr_rbp :: u64
  fr_r8 :: u64
  fr_r9 :: u64
  fr_r10 :: u64
  fr_r11 :: u64
  fr_r12 :: u64
  fr_r13 :: u64
  fr_r14 :: u64
  fr_r15 :: u64
  fr_user_rip :: u64
  fr_user_rflags :: u64
  fr_user_rsp :: u64
  fr_user_cr3 :: u64

record sigaction =
  sa_handler :: u64
  sa_flags :: u64
  sa_restorer :: u64
  sa_mask :: u64

text \<open>\<^verbatim>\<open>sig_pending\<close>, \<^verbatim>\<open>sig_blocked\<close> (two words) and \<^verbatim>\<open>sig_actions\<close> are indexed as the arrays are.\<close>

record task =
  tk_used :: bool
  tk_state :: task_state
  tk_pid :: int
  tk_ppid :: int
  tk_tgid :: int
  tk_pgrp :: int
  tk_session :: int
  tk_controlling_tty :: int
  tk_exit_status :: int
  tk_tid_address :: u64
  tk_futex_addr :: u64
  tk_futex_cr3 :: u64
  tk_futex_deadline_ns :: u64
  tk_pipe_wait_fd :: int
  tk_pipe_wait_buf :: u64
  tk_pipe_wait_count :: u64
  tk_io_wait_kind :: int
  tk_io_wait_valid :: bool
  tk_io_wait_nr :: u64
  tk_io_wait_deadline_ns :: u64
  tk_io_resume_valid :: bool
  tk_io_resume_nr :: u64
  tk_io_resume_rip :: u64
  tk_io_resume_start_ns :: u64
  tk_io_resume_deadline_ns :: u64
  tk_heap_base :: u64
  tk_heap_end :: u64
  tk_mmap_next :: u64
  tk_lazy_mmaps :: "lazy_user_mmap list"
  tk_fb_map_count :: int
  tk_nice :: int
  tk_switches :: u64
  tk_cpu_ticks :: u64
  tk_wait4_active :: bool
  tk_wait4_pid :: int
  tk_wait4_status_ptr :: u64
  tk_wait4_reap_pid :: int
  tk_ctx :: task_context
  tk_sig_pending :: "nat \<Rightarrow> u64"
  tk_sig_blocked :: "nat \<Rightarrow> u64"
  tk_sig_actions :: "nat \<Rightarrow> sigaction"
  tk_sig_saved_frame :: syscall_frame
  tk_sig_saved_valid :: bool
  tk_sig_active :: bool
  tk_cwd :: "nat option"

record sched =
  tasks :: "nat \<Rightarrow> task"
  current_task :: nat

definition set_task :: "'z sched_scheme \<Rightarrow> nat \<Rightarrow> (task \<Rightarrow> task) \<Rightarrow> 'z sched_scheme" where
  "set_task s i f = s\<lparr>tasks := (tasks s)(i := f (tasks s i))\<rparr>"

definition cur :: "'z sched_scheme \<Rightarrow> task" where
  "cur s = tasks s (current_task s)"

section \<open>Reserved areas\<close>

datatype lazy_op = LAZY_MMAP_REMOVE | LAZY_MMAP_SET_PROT | LAZY_MMAP_REPLACE

text \<open>Storing one more area in the array \<^verbatim>\<open>out\<close>; \<open>None\<close> is the return of \<^verbatim>\<open>-12\<close>.\<close>

definition push_area :: "lazy_user_mmap list \<Rightarrow> lazy_user_mmap \<Rightarrow> lazy_user_mmap list option" where
  "push_area out m = (if length out \<ge> MAX_LAZY_USER_MMAPS then None else Some (out @ [m]))"

definition area :: "u64 \<Rightarrow> u64 \<Rightarrow> u64 \<Rightarrow> lazy_user_mmap" where
  "area a b prot = \<lparr>lz_start = a, lz_end = b, lz_prot = prot, lz_used = True\<rparr>"

definition transform_area ::
    "u64 \<Rightarrow> u64 \<Rightarrow> lazy_op \<Rightarrow> u64 \<Rightarrow> lazy_user_mmap \<Rightarrow> lazy_user_mmap list \<Rightarrow> lazy_user_mmap list option" where
  "transform_area a b operation prot m out =
     (if \<not> lz_used m \<or> lz_start m \<ge> lz_end m then Some out
      else if lz_end m \<le> a \<or> lz_start m \<ge> b then push_area out m
      else do {
        out \<leftarrow> (if lz_start m < a then push_area out (area (lz_start m) a (lz_prot m)) else Some out);
        let os = (if lz_start m > a then lz_start m else a);
        let oe = (if lz_end m < b then lz_end m else b);
        out \<leftarrow> (if operation = LAZY_MMAP_SET_PROT \<and> os < oe then push_area out (area os oe prot) else Some out);
        (if lz_end m > b then push_area out (area b (lz_end m) (lz_prot m)) else Some out) })"

fun transform_areas ::
    "u64 \<Rightarrow> u64 \<Rightarrow> lazy_op \<Rightarrow> u64 \<Rightarrow> lazy_user_mmap list \<Rightarrow> lazy_user_mmap list \<Rightarrow> lazy_user_mmap list option" where
  "transform_areas a b operation prot [] out = Some out"
| "transform_areas a b operation prot (m # ms) out =
     (case transform_area a b operation prot m out of None \<Rightarrow> None
      | Some out \<Rightarrow> transform_areas a b operation prot ms out)"

definition no_area :: lazy_user_mmap where
  "no_area = \<lparr>lz_start = 0, lz_end = 0, lz_prot = 0, lz_used = False\<rparr>"

definition task_lazy_mmap_transform ::
    "task \<Rightarrow> u64 \<Rightarrow> u64 \<Rightarrow> lazy_op \<Rightarrow> u64 \<Rightarrow> int \<times> task" where
  "task_lazy_mmap_transform t a b operation prot =
     (if a \<ge> b then (-22, t)
      else case (case transform_areas a b operation prot (tk_lazy_mmaps t) [] of None \<Rightarrow> None
                 | Some out \<Rightarrow> if operation = LAZY_MMAP_REPLACE then push_area out (area a b prot) else Some out) of
        None \<Rightarrow> (-12, t)
      | Some out \<Rightarrow> (0, t\<lparr>tk_lazy_mmaps := out @ replicate (MAX_LAZY_USER_MMAPS - length out) no_area\<rparr>))"

text \<open>
  The tasks that share the address space of \<open>t\<close>: the test that the loops over
  \<^verbatim>\<open>tasks\<close> make for each slot.
\<close>

definition same_space :: "'z sched_scheme \<Rightarrow> nat \<Rightarrow> nat \<Rightarrow> bool" where
  "same_space s t i \<longleftrightarrow> tk_used (tasks s i) \<and>
     (let cr3 = cx_cr3 (tk_ctx (tasks s t)) AND PAGE_MASK in
      i = t \<or> cr3 \<noteq> 0 \<and> cx_cr3 (tk_ctx (tasks s i)) AND PAGE_MASK = cr3)"

fun transform_shared_loop :: "'z sched_scheme \<Rightarrow> nat \<Rightarrow> u64 \<Rightarrow> u64 \<Rightarrow> lazy_op \<Rightarrow> u64 \<Rightarrow> nat list \<Rightarrow> int \<times> 'z sched_scheme" where
  "transform_shared_loop s t a b operation prot [] = (0, s)"
| "transform_shared_loop s t a b operation prot (i # is) =
     (if \<not> same_space s t i then transform_shared_loop s t a b operation prot is
      else let (rc, t') = task_lazy_mmap_transform (tasks s i) a b operation prot;
               s = set_task s i (\<lambda>_. t') in
        if rc < 0 then (rc, s) else transform_shared_loop s t a b operation prot is)"

definition task_lazy_mmap_transform_shared ::
    "'z sched_scheme \<Rightarrow> nat \<Rightarrow> u64 \<Rightarrow> u64 \<Rightarrow> lazy_op \<Rightarrow> u64 \<Rightarrow> int \<times> 'z sched_scheme" where
  "task_lazy_mmap_transform_shared s t a b operation prot =
     transform_shared_loop s t a b operation prot [0..<MAX_TASKS]"

fun area_prot :: "lazy_user_mmap list \<Rightarrow> u64 \<Rightarrow> u64 option" where
  "area_prot [] addr = None"
| "area_prot (m # ms) addr =
     (if lz_used m \<and> addr \<ge> lz_start m \<and> addr < lz_end m then Some (lz_prot m) else area_prot ms addr)"

definition task_lazy_mmap_protection :: "task \<Rightarrow> u64 \<Rightarrow> u64 option" where
  "task_lazy_mmap_protection t addr = area_prot (tk_lazy_mmaps t) addr"

text \<open>One pass of the inner loop of \<^verbatim>\<open>task_lazy_mmap_range_covered\<close>.\<close>

fun cover_step :: "lazy_user_mmap list \<Rightarrow> u64 \<Rightarrow> u64 \<Rightarrow> u64 \<Rightarrow> u64" where
  "cover_step [] cursor end' nxt = nxt"
| "cover_step (m # ms) cursor end' nxt =
     cover_step ms cursor end'
       (if lz_used m \<and> lz_start m \<le> cursor \<and> lz_end m > nxt then (if lz_end m < end' then lz_end m else end') else nxt)"

lemma cover_step_mono:
  "cursor \<le> nxt \<Longrightarrow> nxt \<le> end' \<Longrightarrow> nxt \<le> cover_step ms cursor end' nxt \<and> cover_step ms cursor end' nxt \<le> end'"
proof (induction ms cursor end' nxt rule: cover_step.induct)
  case (2 m ms cursor end' nxt)
  let ?n = "if lz_used m \<and> lz_start m \<le> cursor \<and> lz_end m > nxt then (if lz_end m < end' then lz_end m else end') else nxt"
  have "nxt \<le> ?n" "?n \<le> end'" using 2(3) by auto
  then show ?case using 2(1) 2(2) by (auto intro: order_trans)
qed simp

function covered_loop :: "lazy_user_mmap list \<Rightarrow> u64 \<Rightarrow> u64 \<Rightarrow> bool" where
  "covered_loop ms cursor end' =
     (if cursor < end' then
        let nxt = cover_step ms cursor end' cursor in
        if nxt = cursor then False else covered_loop ms nxt end'
      else True)"
  by pat_completeness auto
termination
proof (relation "measure (\<lambda>(ms, cursor, end'). unat end' - unat cursor)", goal_cases)
  case (2 ms cursor end' nxt)
  then have "cursor < nxt" "nxt \<le> end'"
    using cover_step_mono [of cursor cursor end' ms] by (auto simp: order.order_iff_strict)
  then show ?case by (simp add: word_less_nat_alt word_le_nat_alt)
qed simp

declare covered_loop.simps [simp del]

definition task_lazy_mmap_range_covered :: "task \<Rightarrow> u64 \<Rightarrow> u64 \<Rightarrow> bool" where
  "task_lazy_mmap_range_covered t a b \<longleftrightarrow> a < b \<and> covered_loop (tk_lazy_mmaps t) a b"

section \<open>Tasks of one address space\<close>

definition task_cr3_is_shared :: "'z sched_scheme \<Rightarrow> nat \<Rightarrow> bool" where
  "task_cr3_is_shared s victim \<longleftrightarrow> cx_cr3 (tk_ctx (tasks s victim)) \<noteq> 0 \<and>
     (\<exists>i<MAX_TASKS. i \<noteq> victim \<and> tk_used (tasks s i) \<and>
        cx_cr3 (tk_ctx (tasks s i)) AND PAGE_MASK = cx_cr3 (tk_ctx (tasks s victim)) AND PAGE_MASK)"

definition shared_cursor_high :: "'z sched_scheme \<Rightarrow> nat \<Rightarrow> u64" where
  "shared_cursor_high s t =
     fold (\<lambda>i high. if same_space s t i \<and> tk_mmap_next (tasks s i) > high then tk_mmap_next (tasks s i) else high)
       [0..<MAX_TASKS] USER_MMAP_MIN"

definition set_cursors :: "'z sched_scheme \<Rightarrow> nat \<Rightarrow> u64 \<Rightarrow> 'z sched_scheme" where
  "set_cursors s t high =
     fold (\<lambda>i s. if same_space s t i then set_task s i (\<lambda>x. x\<lparr>tk_mmap_next := high\<rparr>) else s) [0..<MAX_TASKS] s"

definition task_shared_mmap_cursor :: "'z sched_scheme \<Rightarrow> nat \<Rightarrow> u64 \<times> 'z sched_scheme" where
  "task_shared_mmap_cursor s t = (let high = shared_cursor_high s t in (high, set_cursors s t high))"

definition task_shared_mmap_cursor_advance :: "'z sched_scheme \<Rightarrow> nat \<Rightarrow> u64 \<Rightarrow> 'z sched_scheme" where
  "task_shared_mmap_cursor_advance s t nxt =
     (let (high, s) = task_shared_mmap_cursor s t in set_cursors s t (if nxt > high then nxt else high))"

definition task_shared_heap_sync :: "'z sched_scheme \<Rightarrow> nat \<Rightarrow> u64 \<Rightarrow> u64 \<Rightarrow> 'z sched_scheme" where
  "task_shared_heap_sync s t base end' =
     fold (\<lambda>i s. if same_space s t i then set_task s i (\<lambda>x. x\<lparr>tk_heap_base := base, tk_heap_end := end'\<rparr>) else s)
       [0..<MAX_TASKS] s"

text \<open>The scan at the start of \<^verbatim>\<open>sys_brk\<close>: the base and the largest break of the tasks.\<close>

definition shared_heap :: "'z sched_scheme \<Rightarrow> nat \<Rightarrow> u64 \<times> u64" where
  "shared_heap s t =
     (let base = (if tk_heap_base (tasks s t) \<noteq> 0 then tk_heap_base (tasks s t) else USER_HEAP_BASE);
          old = (if tk_heap_end (tasks s t) \<noteq> 0 then tk_heap_end (tasks s t) else base);
          (base, old) = fold (\<lambda>i (base, old).
             if same_space s t i then
               (if tk_heap_base (tasks s i) \<noteq> 0 then tk_heap_base (tasks s i) else base,
                if tk_heap_end (tasks s i) > old then tk_heap_end (tasks s i) else old)
             else (base, old)) [0..<MAX_TASKS] (base, old) in
      (base, if old < base then base else old))"

definition image_heap_base :: "u64 \<Rightarrow> u64" where
  "image_heap_base image_end =
     (let base = (if image_end > USER_HEAP_BASE then (image_end + PAGE_SIZE - 1) AND PAGE_MASK else USER_HEAP_BASE);
          base = (if base < USER_HEAP_BASE then USER_HEAP_BASE else base) in
      if base \<ge> USER_HEAP_MAX then USER_HEAP_MAX - PAGE_SIZE else base)"

section \<open>Scheduling\<close>

definition task_init_root :: "'z sched_scheme \<Rightarrow> nat \<Rightarrow> 'z sched_scheme" where
  "task_init_root s root =
     (if tk_used (tasks s 0) then s
      else set_task s 0 (\<lambda>t. t\<lparr>tk_used := True, tk_state := TASK_RUNNING, tk_pid := 1, tk_ppid := 0, tk_tgid := 1,
        tk_pgrp := 1, tk_session := 1, tk_controlling_tty := -1, tk_cwd := Some root,
        tk_pipe_wait_fd := -1, tk_pipe_wait_buf := 0, tk_pipe_wait_count := 0,
        tk_wait4_active := False, tk_wait4_pid := -1, tk_wait4_status_ptr := 0, tk_wait4_reap_pid := -1,
        tk_io_wait_kind := 0, tk_io_wait_valid := False, tk_io_wait_nr := 0, tk_io_wait_deadline_ns := 0, tk_io_resume_valid := False,
        tk_io_resume_nr := 0, tk_io_resume_rip := 0, tk_io_resume_start_ns := 0, tk_io_resume_deadline_ns := 0,
        tk_heap_base := USER_HEAP_BASE, tk_heap_end := USER_HEAP_BASE, tk_mmap_next := USER_MMAP_MIN,
        tk_fb_map_count := 0, tk_nice := 0, tk_switches := 0, tk_cpu_ticks := 0\<rparr>))"

text \<open>The scan of \<^verbatim>\<open>task_pick_next\<close>: best index, its nice value and switch count.\<close>

fun pick_scan :: "'z sched_scheme \<Rightarrow> nat list \<Rightarrow> nat option \<times> int \<times> u64 \<Rightarrow> nat option \<times> int \<times> u64" where
  "pick_scan s [] best = best"
| "pick_scan s (i # is) (best, best_nice, best_switches) =
     (let t = tasks s i in
      if \<not> tk_used t \<or> tk_state t \<noteq> TASK_RUNNABLE then pick_scan s is (best, best_nice, best_switches)
      else if tk_nice t < best_nice \<or> tk_nice t = best_nice \<and> tk_switches t < best_switches
      then pick_scan s is (Some i, tk_nice t, tk_switches t)
      else pick_scan s is (best, best_nice, best_switches))"

text \<open>The order in which the slots are looked at, from the one after the current task on.\<close>

definition scan_order :: "nat \<Rightarrow> nat list" where
  "scan_order c = map (\<lambda>n. (c + n) mod MAX_TASKS) [1..<MAX_TASKS + 1]"

definition task_pick_next :: "'z sched_scheme \<Rightarrow> nat option" where
  "task_pick_next s = fst (pick_scan s (scan_order (current_task s)) (None, 1000000, - 1))"

definition task_account_switch :: "'z sched_scheme \<Rightarrow> nat \<Rightarrow> 'z sched_scheme" where
  "task_account_switch s i =
     (if i \<ge> MAX_TASKS \<or> \<not> tk_used (tasks s i) then s
      else set_task s i (\<lambda>t. t\<lparr>tk_switches := tk_switches t + 1\<rparr>))"

text \<open>
  The end of \<^verbatim>\<open>timer_preempt_from_user\<close>, after the interrupted registers are saved: the
  task goes back to the runnable tasks, unless it has just become a zombie, and the next one runs.
\<close>

definition timer_switch :: "'z sched_scheme \<Rightarrow> nat option \<times> 'z sched_scheme" where
  "timer_switch s =
     (let c = current_task s;
          s = (if tk_state (tasks s c) \<noteq> TASK_ZOMBIE then set_task s c (\<lambda>t. t\<lparr>tk_state := TASK_RUNNABLE\<rparr>) else s);
          nxt = (case task_pick_next s of Some i \<Rightarrow> Some i
                 | None \<Rightarrow> if tk_state (tasks s c) = TASK_ZOMBIE \<and> tk_used (tasks s 0) \<and> tk_state (tasks s 0) \<noteq> TASK_ZOMBIE
                           then Some 0 else None) in
      case nxt of
        None \<Rightarrow> (None, set_task s c (\<lambda>t. t\<lparr>tk_state := TASK_RUNNING\<rparr>))
      | Some i \<Rightarrow>
        (Some i, task_account_switch ((set_task s i (\<lambda>t. t\<lparr>tk_state := TASK_RUNNING\<rparr>))\<lparr>current_task := i\<rparr>) i))"

definition task_of_pid :: "'z sched_scheme \<Rightarrow> int \<Rightarrow> nat option" where
  "task_of_pid s pid = find (\<lambda>i. tk_used (tasks s i) \<and> tk_pid (tasks s i) = pid) [0..<MAX_TASKS]"

definition task_set_nice :: "'z sched_scheme \<Rightarrow> int \<Rightarrow> int \<Rightarrow> int \<times> 'z sched_scheme" where
  "task_set_nice s pid nice =
     (let nice = (if nice < -20 then -20 else nice); nice = (if nice > 19 then 19 else nice) in
      case task_of_pid s pid of None \<Rightarrow> (-3, s)
      | Some i \<Rightarrow> (0, set_task s i (\<lambda>t. t\<lparr>tk_nice := nice\<rparr>)))"

definition kernel_uptime_ns :: "u64 \<Rightarrow> u64" where
  "kernel_uptime_ns ticks = (if ticks > UINT64_MAX div 10000000 then UINT64_MAX else ticks * 10000000)"

section \<open>Process groups and identities\<close>

definition sys_getpgid :: "'z sched_scheme \<Rightarrow> int \<Rightarrow> int" where
  "sys_getpgid s pid =
     (let pid = (if pid = 0 then tk_pid (cur s) else pid) in
      case task_of_pid s pid of None \<Rightarrow> -3 | Some i \<Rightarrow> tk_pgrp (tasks s i))"

definition sys_setpgid :: "'z sched_scheme \<Rightarrow> int \<Rightarrow> int \<Rightarrow> int \<times> 'z sched_scheme" where
  "sys_setpgid s pid pgid =
     (let pid = (if pid = 0 then tk_pid (cur s) else pid); pgid = (if pgid = 0 then pid else pgid) in
      case task_of_pid s pid of None \<Rightarrow> (-3, s)
      | Some i \<Rightarrow>
        if tk_session (tasks s i) \<noteq> tk_session (cur s) then (-1, s)
        else (0, set_task s i (\<lambda>t. t\<lparr>tk_pgrp := pgid\<rparr>)))"

definition sys_setsid :: "'z sched_scheme \<Rightarrow> int \<times> 'z sched_scheme" where
  "sys_setsid s =
     (if tk_pgrp (cur s) = tk_pid (cur s) then (-1, s)
      else (tk_pid (cur s), set_task s (current_task s)
              (\<lambda>t. t\<lparr>tk_session := tk_pid t, tk_pgrp := tk_pid t, tk_controlling_tty := -1\<rparr>)))"

definition sys_getpid :: "'z sched_scheme \<Rightarrow> int" where
  "sys_getpid s = (if tk_tgid (cur s) \<noteq> 0 then tk_tgid (cur s) else tk_pid (cur s))"

abbreviation (input) YABRO_ID_UNCHANGED :: u32 where "YABRO_ID_UNCHANGED \<equiv> - 1"

definition identity_request_supported :: "u32 \<Rightarrow> u32 \<Rightarrow> u32 \<Rightarrow> bool" where
  "identity_request_supported a b c \<longleftrightarrow>
     (a = 0 \<or> a = YABRO_ID_UNCHANGED) \<and> (b = 0 \<or> b = YABRO_ID_UNCHANGED) \<and> (c = 0 \<or> c = YABRO_ID_UNCHANGED)"

definition sys_setresuid :: "u32 \<Rightarrow> u32 \<Rightarrow> u32 \<Rightarrow> int" where
  "sys_setresuid ruid euid suid = (if identity_request_supported ruid euid suid then 0 else -1)"

definition sys_setreuid :: "u32 \<Rightarrow> u32 \<Rightarrow> int" where
  "sys_setreuid ruid euid = (if identity_request_supported ruid euid YABRO_ID_UNCHANGED then 0 else -1)"

end
