(* ===== verification/Uaccess.thy ===== *)
theory Uaccess
  imports Vmm
begin

text \<open>
  Copies between the kernel and user memory in \<^verbatim>\<open>src/src/kernel/main.c\<close>, page by page
  through an address space given by its CR3. A copy from user memory returns the code and the
  bytes that were read before it stopped; a copy to user memory returns the code and the state.
\<close>

definition frame_bytes :: "phys_mem \<Rightarrow> u64 \<Rightarrow> nat \<Rightarrow> nat \<Rightarrow> u8 list" where
  "frame_bytes m f off n = map (\<lambda>i. frame_byte m f (off + i)) [0..<n]"

definition write_frame_bytes :: "vmm \<Rightarrow> u64 \<Rightarrow> nat \<Rightarrow> u8 list \<Rightarrow> vmm" where
  "write_frame_bytes v f off bs =
     v\<lparr>mem := fold (\<lambda>i m. set_frame_byte m f (off + i) (bs ! i)) [0..<length bs] (mem v)\<rparr>"

text \<open>The bytes that one pass of the loop copies: up to the end of the page.\<close>

definition chunk :: "u64 \<Rightarrow> nat \<Rightarrow> nat" where
  "chunk addr len = min (4096 - unat (addr AND 0xFFF)) len"

lemma chunk_pos: "0 < len \<Longrightarrow> 0 < chunk addr len"
  by (simp add: chunk_def and_4095)

function copy_from_loop :: "vmm \<Rightarrow> u64 \<Rightarrow> u64 \<Rightarrow> nat \<Rightarrow> int \<times> u8 list" where
  "copy_from_loop v cr3 src len =
     (if len = 0 then (0, [])
      else let n = chunk src len in
        case vmm_user_translate_cr3 v cr3 (src AND PAGE_MASK) of
          None \<Rightarrow> (-14, [])
        | Some (phys, pte) \<Rightarrow>
          if pte AND PTE_U = 0 \<or> pmm_phys_to_virt (pool v) phys = None then (-14, [])
          else let (r, bs) = copy_from_loop v cr3 (src + of_nat n) (len - n) in
            (r, frame_bytes (mem v) phys (unat (src AND 0xFFF)) n @ bs))"
  by pat_completeness auto
termination
  by (relation "measure (\<lambda>(v, cr3, src, len). len)") (auto simp: chunk_pos)

definition user_copy_from_cr3 :: "vmm \<Rightarrow> u64 \<Rightarrow> u64 \<Rightarrow> nat \<Rightarrow> int \<times> u8 list" where
  "user_copy_from_cr3 v cr3 src len = (if cr3 = 0 then (-14, []) else copy_from_loop v cr3 src len)"

text \<open>The page to write to: a page that is shared by copy on write is made private first.\<close>

definition writable_page :: "vmm \<Rightarrow> u64 \<Rightarrow> u64 \<Rightarrow> u64 option \<times> vmm" where
  "writable_page v cr3 page =
     (case vmm_user_translate_cr3 v cr3 page of
        None \<Rightarrow> (None, v)
      | Some (phys, pte) \<Rightarrow>
        if pte AND PTE_U = 0 then (None, v)
        else if pte AND PTE_W \<noteq> 0 then (Some phys, v)
        else if pte AND PTE_COW = 0 then (None, v)
        else case vmm_user_cow_fault v cr3 page of (r, v) \<Rightarrow>
          if r \<noteq> 0 then (None, v)
          else (case vmm_user_translate_cr3 v cr3 page of
             None \<Rightarrow> (None, v)
           | Some (phys, pte) \<Rightarrow> if pte AND PTE_U = 0 \<or> pte AND PTE_W = 0 then (None, v) else (Some phys, v)))"

function copy_to_loop :: "vmm \<Rightarrow> u64 \<Rightarrow> u64 \<Rightarrow> u8 list \<Rightarrow> int \<times> vmm" where
  "copy_to_loop v cr3 dst bs =
     (if bs = [] then (0, v)
      else let n = chunk dst (length bs) in
        case writable_page v cr3 (dst AND PAGE_MASK) of
          (None, v) \<Rightarrow> (-14, v)
        | (Some phys, v) \<Rightarrow>
          if pmm_phys_to_virt (pool v) phys = None then (-14, v)
          else copy_to_loop (write_frame_bytes v phys (unat (dst AND 0xFFF)) (take n bs)) cr3 (dst + of_nat n) (drop n bs))"
  by pat_completeness auto
termination
  by (relation "measure (\<lambda>(v, cr3, dst, bs). length bs)") (auto simp: chunk_pos)

declare copy_from_loop.simps [simp del] copy_to_loop.simps [simp del]

definition user_copy_to_cr3 :: "vmm \<Rightarrow> u64 \<Rightarrow> u64 \<Rightarrow> u8 list \<Rightarrow> int \<times> vmm" where
  "user_copy_to_cr3 v cr3 dst bs = (if cr3 = 0 then (-14, v) else copy_to_loop v cr3 dst bs)"

text \<open>
  The address space of the running system call; \<open>ucr3\<close> is \<^verbatim>\<open>syscall_user_cr3\<close>.
\<close>

definition copy_cr3 :: "vmm \<Rightarrow> u64 \<Rightarrow> u64" where
  "copy_cr3 v ucr3 = (if ucr3 = 0 then vmm_user_cr3 v else ucr3)"

definition user_copy_from :: "vmm \<Rightarrow> u64 \<Rightarrow> u64 \<Rightarrow> nat \<Rightarrow> int \<times> u8 list" where
  "user_copy_from v ucr3 src len = user_copy_from_cr3 v (copy_cr3 v ucr3) src len"

definition user_copy_to :: "vmm \<Rightarrow> u64 \<Rightarrow> u64 \<Rightarrow> u8 list \<Rightarrow> int \<times> vmm" where
  "user_copy_to v ucr3 dst bs = user_copy_to_cr3 v (copy_cr3 v ucr3) dst bs"

text \<open>A C string: the characters before the zero, or the error.\<close>

fun copy_cstr_loop :: "vmm \<Rightarrow> u64 \<Rightarrow> u64 \<Rightarrow> nat \<Rightarrow> int \<times> string" where
  "copy_cstr_loop v ucr3 src 0 = (-36, [])"
| "copy_cstr_loop v ucr3 src (Suc n) =
     (case user_copy_from v ucr3 src 1 of (r, bs) \<Rightarrow>
        if r \<noteq> 0 then (-14, [])
        else if hd bs = 0 then (0, [])
        else let (r, cs) = copy_cstr_loop v ucr3 (src + 1) n in (r, char_of (unat (hd bs)) # cs))"

definition user_copy_cstr :: "vmm \<Rightarrow> u64 \<Rightarrow> u64 \<Rightarrow> nat \<Rightarrow> int \<times> string" where
  "user_copy_cstr v ucr3 src cap = (if cap = 0 then (-22, []) else copy_cstr_loop v ucr3 src (cap - 1))"

end
