(* ===== verification/Vfs.thy ===== *)
theory Vfs
  imports Prelude
begin

text \<open>
  The virtual file system, \<^verbatim>\<open>src/src/kernel/vfs.c\<close>. Nodes, mounts and data slots are
  the entries of the file's static arrays: a pointer to a node is its index in
  \<^verbatim>\<open>nodes\<close>, a null pointer is \<open>None\<close>. A C string is the list of its characters up to the
  terminating zero. Path arguments are valid strings; buffers are returned as the text
  written to them, and the capacity is an argument.
\<close>

section \<open>Data\<close>

abbreviation (input) VFS_NAME_MAX :: nat where "VFS_NAME_MAX \<equiv> 31"
abbreviation (input) VFS_PATH_MAX :: nat where "VFS_PATH_MAX \<equiv> 260"
abbreviation (input) VFS_MAX_NODES :: nat where "VFS_MAX_NODES \<equiv> 16384"
abbreviation (input) VFS_MAX_MOUNTS :: nat where "VFS_MAX_MOUNTS \<equiv> 8"
abbreviation (input) VFS_MAX_FS :: nat where "VFS_MAX_FS \<equiv> 8"
abbreviation (input) VFS_DATA_SLOT_SIZE :: u64 where "VFS_DATA_SLOT_SIZE \<equiv> 65536"
abbreviation (input) VFS_DATA_SLOTS :: nat where "VFS_DATA_SLOTS \<equiv> 64"
abbreviation (input) VFS_XORG_LOG_CAP :: u64 where "VFS_XORG_LOG_CAP \<equiv> 65536"

text \<open>The mode bits are octal in the source; here \<open>0o40755\<close> is written \<open>S_IFDIR OR 493\<close>.\<close>

abbreviation (input) S_IFDIR :: u32 where "S_IFDIR \<equiv> 0x4000"
abbreviation (input) S_IFREG :: u32 where "S_IFREG \<equiv> 0x8000"
abbreviation (input) S_IFLNK :: u32 where "S_IFLNK \<equiv> 0xA000"
abbreviation (input) S_IFSOCK :: u32 where "S_IFSOCK \<equiv> 0xC000"

datatype vfs_node_type =
  VFS_NODE_DIR | VFS_NODE_FILE | VFS_NODE_PROC_FILE | VFS_NODE_SYMLINK
| VFS_NODE_DEV_NULL | VFS_NODE_DEV_ZERO | VFS_NODE_DEV_CONSOLE | VFS_NODE_DEV_TTY
| VFS_NODE_DEV_RANDOM | VFS_NODE_DEV_URANDOM | VFS_NODE_DEV_FB | VFS_NODE_SYS_FILE
| VFS_NODE_BOOT_FILE | VFS_NODE_DEV_INPUT | VFS_NODE_DEV_INPUT_MOUSE | VFS_NODE_SOCKET

text \<open>\<^verbatim>\<open>data\<close> points to a slot of \<^verbatim>\<open>vfs_data_pool\<close> or to \<^verbatim>\<open>vfs_xorg_log_data\<close>.\<close>

datatype file_data = Slot nat | Xorg_log

record vfs_node =
  nd_name :: string
  nd_ino :: u64
  nd_mode :: u32
  nd_type :: vfs_node_type
  nd_parent :: "nat option"
  nd_children :: "nat option"
  nd_next :: "nat option"
  nd_mounted :: "nat option"
  nd_link_target :: "string option"
  nd_boot_path :: string
  nd_data :: "file_data option"
  nd_size :: u64
  nd_capacity :: u64
  nd_nlink :: u32
  nd_inode_owner :: "nat option"

text \<open>The two file system types; each constructor stands for its mount function.\<close>

datatype fs_kind = Proc_mount | Dev_mount

record vfs_fs_type =
  fst_name :: string
  fst_mount :: fs_kind

record vfs_mount =
  mt_fs_name :: string
  mt_mountpoint :: nat
  mt_root :: "nat option"

record vfs =
  nodes :: "nat \<Rightarrow> vfs_node"
  node_used :: nat
  next_ino :: u64
  vfs_data_pool :: "nat \<Rightarrow> nat \<Rightarrow> u8"
  vfs_data_used :: "nat \<Rightarrow> bool"
  vfs_xorg_log_data :: "nat \<Rightarrow> u8"
  mounts :: "nat \<Rightarrow> vfs_mount"
  mount_used :: nat
  filesystems :: "vfs_fs_type list"
  root_node :: nat

definition set_node :: "vfs \<Rightarrow> nat \<Rightarrow> (vfs_node \<Rightarrow> vfs_node) \<Rightarrow> vfs" where
  "set_node s x f = s\<lparr>nodes := (nodes s)(x := f (nodes s x))\<rparr>"

section \<open>Strings\<close>

fun eq :: "string \<Rightarrow> string \<Rightarrow> bool" where
  "eq (a # as) (b # bs) = (if a = b then eq as bs else False)"
| "eq [] [] = True"
| "eq _ _ = False"

definition ascii_lower :: "char \<Rightarrow> char" where
  "ascii_lower c = (if 65 \<le> (of_char c :: nat) \<and> of_char c \<le> (90 :: nat) then char_of (of_char c + (32 :: nat)) else c)"

fun eq_dir_name :: "string \<Rightarrow> string \<Rightarrow> bool" where
  "eq_dir_name (a # as) (b # bs) = (if ascii_lower a \<noteq> ascii_lower b then False else eq_dir_name as bs)"
| "eq_dir_name [] [] = True"
| "eq_dir_name _ _ = False"

definition cp :: "string \<Rightarrow> string" where
  "cp s = take VFS_NAME_MAX s"

definition cp_path :: "string \<Rightarrow> string" where
  "cp_path s = take (VFS_PATH_MAX - 1) s"

abbreviation (input) slash :: char where "slash \<equiv> CHR ''/''"

section \<open>Nodes and file data\<close>

definition new_node :: "vfs \<Rightarrow> string \<Rightarrow> vfs_node_type \<Rightarrow> u32 \<Rightarrow> nat option \<times> vfs" where
  "new_node s n t m =
     (if node_used s \<ge> VFS_MAX_NODES then (None, s)
      else let x = node_used s in
        (Some x, s\<lparr>node_used := x + 1, next_ino := next_ino s + 1,
           nodes := (nodes s)(x := \<lparr>nd_name = cp n, nd_ino = next_ino s, nd_mode = m, nd_type = t,
             nd_parent = None, nd_children = None, nd_next = None, nd_mounted = None,
             nd_link_target = None, nd_boot_path = [], nd_data = None, nd_size = 0, nd_capacity = 0,
             nd_nlink = 1, nd_inode_owner = Some x\<rparr>)\<rparr>))"

fun alloc_slot_from :: "(nat \<Rightarrow> bool) \<Rightarrow> nat \<Rightarrow> nat \<Rightarrow> nat option" where
  "alloc_slot_from u i 0 = None"
| "alloc_slot_from u i (Suc k) = (if \<not> u i then Some i else alloc_slot_from u (i + 1) k)"

definition vfs_alloc_file_data :: "vfs \<Rightarrow> file_data option \<times> vfs" where
  "vfs_alloc_file_data s =
     (case alloc_slot_from (vfs_data_used s) 0 VFS_DATA_SLOTS of
        None \<Rightarrow> (None, s)
      | Some i \<Rightarrow> (Some (Slot i), s\<lparr>vfs_data_used := (vfs_data_used s)(i := True),
            vfs_data_pool := (vfs_data_pool s)(i := (\<lambda>j. if j < 65536 then 0 else vfs_data_pool s i j))\<rparr>))"

definition vfs_free_file_data :: "vfs \<Rightarrow> nat \<Rightarrow> vfs" where
  "vfs_free_file_data s n =
     (case nd_data (nodes s n) of
        Some (Slot i) \<Rightarrow>
          if i < VFS_DATA_SLOTS then
            set_node (s\<lparr>vfs_data_used := (vfs_data_used s)(i := False)\<rparr>) n (\<lambda>x. x\<lparr>nd_data := None, nd_capacity := 0\<rparr>)
          else s
      | _ \<Rightarrow> s)"

definition inode_of :: "vfs \<Rightarrow> nat \<Rightarrow> nat" where
  "inode_of s n = (case nd_inode_owner (nodes s n) of Some o' \<Rightarrow> o' | None \<Rightarrow> n)"

definition vfs_drop_link :: "vfs \<Rightarrow> nat \<Rightarrow> vfs" where
  "vfs_drop_link s n =
     (let owner = inode_of s n;
          s = (if nd_nlink (nodes s owner) > 0
               then set_node s owner (\<lambda>x. x\<lparr>nd_nlink := nd_nlink x - 1\<rparr>) else s) in
      if nd_nlink (nodes s owner) = 0 then
        let s = set_node s owner (\<lambda>x. x\<lparr>nd_size := 0\<rparr>) in
        (case nd_data (nodes s owner) of
           None \<Rightarrow> s
         | Some Xorg_log \<Rightarrow> s
         | Some (Slot _) \<Rightarrow> vfs_free_file_data s owner)
      else s)"

definition add :: "vfs \<Rightarrow> nat \<Rightarrow> nat \<Rightarrow> vfs" where
  "add s p x =
     (let s = set_node s x (\<lambda>n. n\<lparr>nd_parent := Some p, nd_next := nd_children (nodes s p)\<rparr>) in
      set_node s p (\<lambda>n. n\<lparr>nd_children := Some x\<rparr>))"

definition add_new :: "vfs \<Rightarrow> nat \<Rightarrow> nat option \<Rightarrow> vfs" where
  "add_new s p x = (case x of None \<Rightarrow> s | Some x \<Rightarrow> add s p x)"

definition mkd :: "vfs \<Rightarrow> nat \<Rightarrow> string \<Rightarrow> nat option \<times> vfs" where
  "mkd s p n = (let (x, s) = new_node s n VFS_NODE_DIR (S_IFDIR OR 493) in (x, add_new s p x))"

definition mkf :: "vfs \<Rightarrow> nat \<Rightarrow> string \<Rightarrow> vfs_node_type \<Rightarrow> nat option \<times> vfs" where
  "mkf s p n t =
     (let mode = (if t \<in> {VFS_NODE_DEV_NULL, VFS_NODE_DEV_ZERO, VFS_NODE_DEV_CONSOLE, VFS_NODE_DEV_TTY,
                     VFS_NODE_DEV_RANDOM, VFS_NODE_DEV_URANDOM, VFS_NODE_DEV_FB, VFS_NODE_DEV_INPUT,
                     VFS_NODE_DEV_INPUT_MOUSE} then 0x2000 OR 438 else S_IFREG OR 292);
          (x, s) = new_node s n t mode in (x, add_new s p x))"

definition mkl :: "vfs \<Rightarrow> nat \<Rightarrow> string \<Rightarrow> string \<Rightarrow> nat option \<times> vfs" where
  "mkl s p n t =
     (let (x, s) = new_node s n VFS_NODE_SYMLINK (S_IFLNK OR 511) in
      case x of None \<Rightarrow> (None, s)
      | Some i \<Rightarrow> (x, add (set_node s i (\<lambda>nd. nd\<lparr>nd_link_target := Some t\<rparr>)) p i))"

section \<open>Directories\<close>

text \<open>
  The nodes of a sibling list from a link on. The fuel bounds the traversal; a list without
  repetition has at most \<open>node_used\<close> nodes.
\<close>

fun siblings :: "nat \<Rightarrow> vfs \<Rightarrow> nat option \<Rightarrow> nat list" where
  "siblings 0 s p = []"
| "siblings (Suc k) s p = (case p of None \<Rightarrow> [] | Some x \<Rightarrow> x # siblings k s (nd_next (nodes s x)))"

definition children_of :: "vfs \<Rightarrow> nat \<Rightarrow> nat list" where
  "children_of s d = siblings (node_used s) s (nd_children (nodes s d))"

definition vfs_lookup_child :: "vfs \<Rightarrow> nat \<Rightarrow> string \<Rightarrow> nat option \<times> vfs" where
  "vfs_lookup_child s d n =
     (if nd_type (nodes s d) \<noteq> VFS_NODE_DIR then (None, s)
      else case find (\<lambda>x. eq (nd_name (nodes s x)) n) (children_of s d) of
        Some x \<Rightarrow> (Some x, s)
      | None \<Rightarrow>
        (case find (\<lambda>x. nd_type (nodes s x) = VFS_NODE_DIR \<and> eq_dir_name (nd_name (nodes s x)) n) (children_of s d) of
           None \<Rightarrow> (None, s)
         | Some x \<Rightarrow>
           (Some x,
            if nd_parent (nodes s x) = Some (root_node s) \<and>
               (eq_dir_name n ''usr'' \<and> eq_dir_name (nd_name (nodes s x)) ''usr'' \<or>
                eq_dir_name n ''lib'' \<and> eq_dir_name (nd_name (nodes s x)) ''lib'')
            then set_node s x (\<lambda>nd. nd\<lparr>nd_name := cp n\<rparr>) else s)))"

definition vfs_child_at :: "vfs \<Rightarrow> nat \<Rightarrow> nat \<Rightarrow> nat option" where
  "vfs_child_at s d i =
     (if nd_type (nodes s d) \<noteq> VFS_NODE_DIR then None
      else if i < length (children_of s d) then Some (children_of s d ! i) else None)"

definition vfs_child_count :: "vfs \<Rightarrow> nat \<Rightarrow> nat" where
  "vfs_child_count s d = (if nd_type (nodes s d) \<noteq> VFS_NODE_DIR then 0 else length (children_of s d))"

definition mount_root :: "vfs \<Rightarrow> nat \<Rightarrow> nat option" where
  "mount_root s x = (case nd_mounted (nodes s x) of None \<Rightarrow> None | Some m \<Rightarrow> mt_root (mounts s m))"

definition mr :: "vfs \<Rightarrow> nat \<Rightarrow> nat" where
  "mr s x = (case mount_root s x of Some r \<Rightarrow> r | None \<Rightarrow> x)"

text \<open>One component of a path, and the loop over the components.\<close>

definition dotdot :: "vfs \<Rightarrow> nat \<Rightarrow> nat" where
  "dotdot s cur =
     (case nd_parent (nodes s cur) of None \<Rightarrow> cur
      | Some p \<Rightarrow>
        if mount_root s p = Some cur then (case nd_parent (nodes s p) of Some pp \<Rightarrow> pp | None \<Rightarrow> p) else p)"

definition next_part :: "string \<Rightarrow> (string \<times> string) option" where
  "next_part p =
     (case dropWhile (\<lambda>c. c = slash) p of
        [] \<Rightarrow> None
      | c # cs \<Rightarrow> Some (takeWhile (\<lambda>c. c \<noteq> slash) (c # cs), dropWhile (\<lambda>c. c \<noteq> slash) (c # cs)))"

lemma next_part_shorter:
  assumes "next_part p = Some (part, rest)"
  shows "length rest < length p"
proof -
  obtain c cs where d: "dropWhile (\<lambda>c. c = slash) p = c # cs" and r: "rest = dropWhile (\<lambda>c. c \<noteq> slash) (c # cs)"
    using assms by (auto simp: next_part_def split: list.splits)
  have "c \<noteq> slash" using hd_dropWhile [of "\<lambda>c. c = slash" p] d by simp
  then have "length rest \<le> length cs" by (simp add: r length_dropWhile_le)
  moreover have "length (c # cs) \<le> length p" using length_dropWhile_le [of "\<lambda>c. c = slash" p] d by simp
  ultimately show ?thesis by simp
qed

function lookup_loop :: "vfs \<Rightarrow> nat \<Rightarrow> string \<Rightarrow> nat option \<times> vfs" where
  "lookup_loop s cur p =
     (case next_part p of
        None \<Rightarrow> (Some cur, s)
      | Some (full, rest) \<Rightarrow>
        let part = take VFS_NAME_MAX full in
        if eq part ''.'' then lookup_loop s cur rest
        else if eq part ''..'' then lookup_loop s (dotdot s cur) rest
        else case vfs_lookup_child s (mr s cur) part of
          (None, s) \<Rightarrow> (None, s)
        | (Some x, s) \<Rightarrow> lookup_loop s (mr s x) rest)"
  by pat_completeness auto
termination
  by (relation "measure (\<lambda>(s, cur, p). length p)") (auto dest: next_part_shorter)

declare lookup_loop.simps [simp del]

definition vfs_lookup :: "vfs \<Rightarrow> string \<Rightarrow> nat option \<times> vfs" where
  "vfs_lookup s p =
     (case p of [] \<Rightarrow> (None, s)
      | c # q \<Rightarrow> if c \<noteq> slash then (None, s)
                else if q = [] then (Some (root_node s), s) else lookup_loop s (root_node s) q)"

definition mountpoint :: "vfs \<Rightarrow> string \<Rightarrow> nat option \<times> vfs" where
  "mountpoint s t =
     (if t = [] \<or> hd t \<noteq> slash then (None, s)
      else if eq t ''/'' then (Some (root_node s), s)
      else if length t \<ge> VFS_PATH_MAX then (None, s)
      else vfs_lookup s t)"

section \<open>Mounting\<close>

definition vfs_register_filesystem :: "vfs \<Rightarrow> vfs_fs_type \<Rightarrow> int \<times> vfs" where
  "vfs_register_filesystem s f =
     (if length (filesystems s) \<ge> VFS_MAX_FS then (-1, s)
      else if list_ex (\<lambda>g. eq (fst_name g) (fst_name f)) (filesystems s) then (-2, s)
      else (0, s\<lparr>filesystems := filesystems s @ [f]\<rparr>))"

definition set_mount_root :: "vfs \<Rightarrow> nat \<Rightarrow> nat \<Rightarrow> vfs" where
  "set_mount_root s m r = s\<lparr>mounts := (mounts s)(m := (mounts s m)\<lparr>mt_root := Some r\<rparr>)\<rparr>"

definition mount_root_node :: "vfs \<Rightarrow> string \<Rightarrow> nat \<Rightarrow> nat \<Rightarrow> nat option \<times> vfs" where
  "mount_root_node s name mp m =
     (let (r, s) = new_node s name VFS_NODE_DIR (S_IFDIR OR 493) in
      case r of None \<Rightarrow> (None, s)
      | Some r \<Rightarrow> (Some r, set_mount_root (set_node s r (\<lambda>n. n\<lparr>nd_parent := Some mp\<rparr>)) m r))"

text \<open>\<^verbatim>\<open>mkf\<close> and \<^verbatim>\<open>mkl\<close> calls whose result is not used.\<close>

definition mkfs :: "nat \<Rightarrow> (string \<times> vfs_node_type) list \<Rightarrow> vfs \<Rightarrow> vfs" where
  "mkfs p fs s = fold (\<lambda>(n, t) s. snd (mkf s p n t)) fs s"

definition mkls :: "nat \<Rightarrow> (string \<times> string) list \<Rightarrow> vfs \<Rightarrow> vfs" where
  "mkls p ls s = fold (\<lambda>(n, t) s. snd (mkl s p n t)) ls s"

definition proc_mount :: "vfs \<Rightarrow> nat \<Rightarrow> nat \<Rightarrow> int \<times> vfs" where
  "proc_mount s mp m =
     (case mount_root_node s ''proc'' mp m of (None, s) \<Rightarrow> (-1, s)
      | (Some r, s) \<Rightarrow>
        let (self, s) = mkd s r ''self''; (pid, s) = mkd s r ''1'' in
        (case (self, pid) of
           (Some self, Some pid) \<Rightarrow>
             let (sfd, s) = mkd s self ''fd''; (pfd, s) = mkd s pid ''fd'' in
             (case (sfd, pfd) of
                (Some sfd, Some pfd) \<Rightarrow>
                  let s = mkfs r [(''cpuinfo'', VFS_NODE_PROC_FILE), (''meminfo'', VFS_NODE_PROC_FILE),
                            (''uptime'', VFS_NODE_PROC_FILE), (''version'', VFS_NODE_PROC_FILE)] s;
                      s = fold (\<lambda>n s. mkfs pid [(n, VFS_NODE_PROC_FILE)] (mkfs self [(n, VFS_NODE_PROC_FILE)] s))
                            [''status'', ''cmdline'', ''maps''] s;
                      s = mkls pid [(''exe'', ''/HELLO.ELF'')] (mkls self [(''exe'', ''/HELLO.ELF'')] s);
                      s = fold (\<lambda>(q, t) s. mkls pfd [(q, t)] (mkls sfd [(q, t)] s))
                            [(''0'', ''/dev/tty''), (''1'', ''/dev/console''), (''2'', ''/dev/console'')] s in
                  (0, s)
              | _ \<Rightarrow> (-1, s))
         | _ \<Rightarrow> (-1, s)))"

definition dev_mount :: "vfs \<Rightarrow> nat \<Rightarrow> nat \<Rightarrow> int \<times> vfs" where
  "dev_mount s mp m =
     (case mount_root_node s ''dev'' mp m of (None, s) \<Rightarrow> (-1, s)
      | (Some r, s) \<Rightarrow>
        let s = mkfs r [(''null'', VFS_NODE_DEV_NULL), (''zero'', VFS_NODE_DEV_ZERO),
                  (''console'', VFS_NODE_DEV_CONSOLE), (''tty'', VFS_NODE_DEV_TTY),
                  (''random'', VFS_NODE_DEV_RANDOM), (''urandom'', VFS_NODE_DEV_URANDOM),
                  (''fb0'', VFS_NODE_DEV_FB)] s;
            (input, s) = mkd s r ''input'' in
        (case input of None \<Rightarrow> (-1, s)
         | Some input \<Rightarrow>
           let s = mkfs input [(''event0'', VFS_NODE_DEV_INPUT), (''event1'', VFS_NODE_DEV_INPUT_MOUSE)] s;
               s = mkls r [(''stdin'', ''/dev/tty''), (''stdout'', ''/dev/console''), (''stderr'', ''/dev/console'')] s in
           (0, s)))"

definition call_mount :: "fs_kind \<Rightarrow> vfs \<Rightarrow> nat \<Rightarrow> nat \<Rightarrow> int \<times> vfs" where
  "call_mount k s mp m = (case k of Proc_mount \<Rightarrow> proc_mount s mp m | Dev_mount \<Rightarrow> dev_mount s mp m)"

definition vfs_mount_fs :: "vfs \<Rightarrow> string \<Rightarrow> string \<Rightarrow> int \<times> vfs" where
  "vfs_mount_fs s name target =
     (if mount_used s \<ge> VFS_MAX_MOUNTS then (-1, s)
      else case find (\<lambda>f. eq (fst_name f) name) (filesystems s) of None \<Rightarrow> (-2, s)
      | Some f \<Rightarrow>
        (case mountpoint s target of (None, s) \<Rightarrow> (-3, s)
         | (Some mp, s) \<Rightarrow>
           if nd_type (nodes s mp) \<noteq> VFS_NODE_DIR then (-3, s)
           else if nd_mounted (nodes s mp) \<noteq> None then (-4, s)
           else
             let m = mount_used s;
                 s = s\<lparr>mount_used := m + 1,
                   mounts := (mounts s)(m := \<lparr>mt_fs_name = fst_name f, mt_mountpoint = mp, mt_root = None\<rparr>)\<rparr>;
                 (r, s) = call_mount (fst_mount f) s mp m in
             if r \<noteq> 0 then (-5, s\<lparr>mount_used := mount_used s - 1\<rparr>)
             else (0, set_node s mp (\<lambda>n. n\<lparr>nd_mounted := Some m\<rparr>))))"

section \<open>Paths\<close>

definition push :: "nat \<Rightarrow> char \<Rightarrow> string \<Rightarrow> string" where
  "push cap c dst = (if length dst + 1 < cap then dst @ [c] else dst)"

function canon_loop :: "nat \<Rightarrow> string \<Rightarrow> string \<Rightarrow> string" where
  "canon_loop cap src dst =
     (if \<not> length dst + 1 < cap then dst
      else case next_part src of
        None \<Rightarrow> dst
      | Some (full, rest) \<Rightarrow>
        let part = take VFS_NAME_MAX full;
            dst = (if length dst > 1 \<and> last dst \<noteq> slash then push cap slash dst else dst) in
        canon_loop cap rest (fold (push cap) part dst))"
  by pat_completeness auto
termination
  by (relation "measure (\<lambda>(cap, src, dst). length src)") (auto dest: next_part_shorter)

declare canon_loop.simps [simp del]

definition canonicalize_system_path :: "string \<Rightarrow> nat \<Rightarrow> string" where
  "canonicalize_system_path src cap =
     (case src of [] \<Rightarrow> []
      | c # cs \<Rightarrow> if c \<noteq> slash then [] else canon_loop cap cs (push cap slash []))"

function strip_slashes :: "string \<Rightarrow> string" where
  "strip_slashes p = (if length p > 1 \<and> last p = slash then strip_slashes (butlast p) else p)"
  by pat_completeness auto
termination
  by (relation "measure length") auto

declare strip_slashes.simps [simp del]

definition split_parent :: "string \<Rightarrow> (string \<times> string) option" where
  "split_parent path =
     (if path = [] \<or> hd path \<noteq> slash then None
      else if length path < 2 \<or> length path \<ge> VFS_PATH_MAX then None
      else
        let q = strip_slashes path;
            name = rev (takeWhile (\<lambda>c. c \<noteq> slash) (rev q));
            sl = length q - length name in
        if sl = 0 \<or> sl \<ge> length q \<or> length name > VFS_NAME_MAX then None
        else Some (if sl = 1 then ''/'' else take (sl - 1) q, name))"

definition vfs_parent_for_create :: "vfs \<Rightarrow> string \<Rightarrow> (nat \<times> string) option \<times> vfs" where
  "vfs_parent_for_create s path =
     (case split_parent path of None \<Rightarrow> (None, s)
      | Some (parent, name) \<Rightarrow>
        (case vfs_lookup s parent of (None, s) \<Rightarrow> (None, s) | (Some p, s) \<Rightarrow> (Some (p, name), s)))"

section \<open>Creating and linking\<close>

definition is_dir :: "vfs \<Rightarrow> nat \<Rightarrow> bool" where
  "is_dir s n \<longleftrightarrow> nd_type (nodes s n) = VFS_NODE_DIR"

definition vfs_create_file :: "vfs \<Rightarrow> string \<Rightarrow> bool \<Rightarrow> nat option \<times> vfs" where
  "vfs_create_file s path trunc =
     (case vfs_lookup s path of
        (Some n, s) \<Rightarrow>
          if nd_type (nodes s n) = VFS_NODE_FILE then
            let inode = inode_of s n;
                s = (if trunc then set_node s inode (\<lambda>x. x\<lparr>nd_size := 0\<rparr>) else s) in
            (Some n, set_node s n (\<lambda>x. x\<lparr>nd_size := nd_size (nodes s inode)\<rparr>))
          else (None, s)
      | (None, s) \<Rightarrow>
        (case vfs_parent_for_create s path of (None, s) \<Rightarrow> (None, s)
         | (Some (p, name), s) \<Rightarrow>
           if \<not> is_dir s p then (None, s)
           else case new_node s name VFS_NODE_FILE (S_IFREG OR 438) of (None, s) \<Rightarrow> (None, s)
           | (Some n, s) \<Rightarrow>
             if eq path ''/var/log/Xorg.0.log'' then
               (Some n, add (set_node s n (\<lambda>x. x\<lparr>nd_data := Some Xorg_log, nd_capacity := VFS_XORG_LOG_CAP\<rparr>)) p n)
             else case vfs_alloc_file_data s of
               (None, s) \<Rightarrow> (None, s\<lparr>node_used := node_used s - 1\<rparr>)
             | (Some d, s) \<Rightarrow>
               (Some n, add (set_node s n (\<lambda>x. x\<lparr>nd_data := Some d, nd_capacity := VFS_DATA_SLOT_SIZE\<rparr>)) p n)))"

text \<open>Shared by \<^verbatim>\<open>vfs_mkdir\<close> and \<^verbatim>\<open>vfs_create_socket\<close>: the path checks in front.\<close>

definition create_target :: "vfs \<Rightarrow> string \<Rightarrow> (nat \<times> string) option \<times> vfs" where
  "create_target s path =
     (if path = [] \<or> hd path \<noteq> slash \<or> tl path = [] then (None, s)
      else let canon = canonicalize_system_path path VFS_PATH_MAX in
      if canon = [] then (None, s)
      else case vfs_lookup s canon of (Some _, s) \<Rightarrow> (None, s)
      | (None, s) \<Rightarrow>
        (case vfs_parent_for_create s canon of (None, s) \<Rightarrow> (None, s)
         | (Some (p, name), s) \<Rightarrow> if is_dir s p then (Some (p, name), s) else (None, s)))"

definition vfs_create_socket :: "vfs \<Rightarrow> string \<Rightarrow> u32 \<Rightarrow> nat option \<times> vfs" where
  "vfs_create_socket s path mode =
     (case create_target s path of (None, s) \<Rightarrow> (None, s)
      | (Some (p, name), s) \<Rightarrow>
        if name = [] then (None, s)
        else case new_node s name VFS_NODE_SOCKET (S_IFSOCK OR (mode AND 511)) of (None, s) \<Rightarrow> (None, s)
        | (Some n, s) \<Rightarrow> (Some n, add (set_node s n (\<lambda>x. x\<lparr>nd_capacity := 0, nd_data := None\<rparr>)) p n))"

definition vfs_mkdir :: "vfs \<Rightarrow> string \<Rightarrow> u32 \<Rightarrow> nat option \<times> vfs" where
  "vfs_mkdir s path mode =
     (case create_target s path of (None, s) \<Rightarrow> (None, s)
      | (Some (p, name), s) \<Rightarrow>
        (case new_node s name VFS_NODE_DIR (S_IFDIR OR (mode AND 511)) of (None, s) \<Rightarrow> (None, s)
         | (Some n, s) \<Rightarrow> (Some n, add s p n)))"

definition vfs_link :: "vfs \<Rightarrow> string \<Rightarrow> string \<Rightarrow> int \<times> vfs" where
  "vfs_link s oldpath newpath =
     (case vfs_lookup s oldpath of (None, s) \<Rightarrow> (-1, s)
      | (Some src, s) \<Rightarrow>
        if src = root_node s \<or> nd_mounted (nodes s src) \<noteq> None \<or> nd_type (nodes s src) \<noteq> VFS_NODE_FILE then (-1, s)
        else case vfs_parent_for_create s newpath of (None, s) \<Rightarrow> (-1, s)
        | (Some (p, name), s) \<Rightarrow>
          if \<not> is_dir s p \<or> name = [] then (-1, s)
          else case vfs_lookup s newpath of (Some _, s) \<Rightarrow> (-2, s)
          | (None, s) \<Rightarrow>
            let owner = inode_of s src in
            (case new_node s name VFS_NODE_FILE (nd_mode (nodes s src)) of (None, s) \<Rightarrow> (-3, s)
             | (Some alias, s) \<Rightarrow>
               let s = set_node s alias (\<lambda>x. x\<lparr>nd_ino := nd_ino (nodes s owner), nd_inode_owner := Some owner, nd_nlink := 0\<rparr>);
                   s = set_node s owner (\<lambda>x. x\<lparr>nd_nlink := nd_nlink x + 1\<rparr>);
                   s = set_node s alias (\<lambda>x. x\<lparr>nd_data := nd_data (nodes s owner), nd_size := nd_size (nodes s owner),
                         nd_capacity := nd_capacity (nodes s owner)\<rparr>) in
               (0, add s p alias)))"

section \<open>Removing and renaming\<close>

text \<open>The link that a pointer-to-pointer walk stands on: the head of a list or a next field.\<close>

datatype link_ptr = Head nat | Next nat

fun read_link :: "vfs \<Rightarrow> link_ptr \<Rightarrow> nat option" where
  "read_link s (Head d) = nd_children (nodes s d)"
| "read_link s (Next x) = nd_next (nodes s x)"

fun write_link :: "vfs \<Rightarrow> link_ptr \<Rightarrow> nat option \<Rightarrow> vfs" where
  "write_link s (Head d) v = set_node s d (\<lambda>n. n\<lparr>nd_children := v\<rparr>)"
| "write_link s (Next x) v = set_node s x (\<lambda>n. n\<lparr>nd_next := v\<rparr>)"

fun find_link :: "nat \<Rightarrow> vfs \<Rightarrow> link_ptr \<Rightarrow> nat \<Rightarrow> link_ptr option" where
  "find_link 0 s pp n = None"
| "find_link (Suc k) s pp n =
     (case read_link s pp of None \<Rightarrow> None
      | Some x \<Rightarrow> if x = n then Some pp else find_link k s (Next x) n)"

definition detach :: "vfs \<Rightarrow> nat \<Rightarrow> nat \<Rightarrow> vfs option" where
  "detach s p n =
     (case find_link (node_used s) s (Head p) n of None \<Rightarrow> None
      | Some pp \<Rightarrow> Some (write_link s pp (nd_next (nodes s n))))"

definition clear_links :: "vfs \<Rightarrow> nat \<Rightarrow> vfs" where
  "clear_links s n = set_node s n (\<lambda>x. x\<lparr>nd_parent := None, nd_next := None\<rparr>)"

definition vfs_unlink :: "vfs \<Rightarrow> string \<Rightarrow> int \<times> vfs" where
  "vfs_unlink s path =
     (case vfs_lookup s path of (None, s) \<Rightarrow> (-1, s)
      | (Some n, s) \<Rightarrow>
        if n = root_node s \<or> is_dir s n \<or> nd_mounted (nodes s n) \<noteq> None then (-1, s)
        else case nd_parent (nodes s n) of None \<Rightarrow> (-1, s)
        | Some p \<Rightarrow>
          if \<not> is_dir s p then (-1, s)
          else case detach s p n of None \<Rightarrow> (-1, s)
          | Some s \<Rightarrow> (0, vfs_drop_link (clear_links s n) n))"

definition vfs_rmdir :: "vfs \<Rightarrow> string \<Rightarrow> int \<times> vfs" where
  "vfs_rmdir s path =
     (case vfs_lookup s path of (None, s) \<Rightarrow> (-1, s)
      | (Some n, s) \<Rightarrow>
        if n = root_node s \<or> \<not> is_dir s n \<or> nd_mounted (nodes s n) \<noteq> None then (-1, s)
        else if nd_children (nodes s n) \<noteq> None then (-2, s)
        else case nd_parent (nodes s n) of None \<Rightarrow> (-1, s)
        | Some p \<Rightarrow>
          if \<not> is_dir s p then (-1, s)
          else case detach s p n of None \<Rightarrow> (-1, s)
          | Some s \<Rightarrow> (0, clear_links s n))"

text \<open>The walk to the root; the fuel is the number of nodes.\<close>

fun ancestor_loop :: "nat \<Rightarrow> vfs \<Rightarrow> nat \<Rightarrow> nat option \<Rightarrow> bool" where
  "ancestor_loop 0 s a p = False"
| "ancestor_loop (Suc k) s a p =
     (case p of None \<Rightarrow> False | Some x \<Rightarrow> x = a \<or> ancestor_loop k s a (nd_parent (nodes s x)))"

definition vfs_is_ancestor :: "vfs \<Rightarrow> nat \<Rightarrow> nat \<Rightarrow> bool" where
  "vfs_is_ancestor s ancestor node = ancestor_loop (node_used s) s ancestor (Some node)"

definition drop_existing :: "vfs \<Rightarrow> nat option \<Rightarrow> vfs option" where
  "drop_existing s existing =
     (case existing of None \<Rightarrow> Some s
      | Some e \<Rightarrow>
        if nd_mounted (nodes s e) \<noteq> None \<or> is_dir s e then None
        else case nd_parent (nodes s e) of None \<Rightarrow> None
        | Some ep \<Rightarrow> (case detach s ep e of None \<Rightarrow> None | Some s \<Rightarrow> Some (vfs_drop_link (clear_links s e) e)))"

definition leave_parent :: "vfs \<Rightarrow> nat \<Rightarrow> vfs" where
  "leave_parent s n =
     (case nd_parent (nodes s n) of None \<Rightarrow> s
      | Some op \<Rightarrow> (case detach s op n of None \<Rightarrow> s | Some s \<Rightarrow> s))"

definition vfs_rename :: "vfs \<Rightarrow> string \<Rightarrow> string \<Rightarrow> int \<times> vfs" where
  "vfs_rename s oldpath newpath =
     (case vfs_lookup s oldpath of (None, s) \<Rightarrow> (-1, s)
      | (Some n, s) \<Rightarrow>
        if n = root_node s \<or> nd_mounted (nodes s n) \<noteq> None then (-1, s)
        else case vfs_parent_for_create s newpath of (None, s) \<Rightarrow> (-1, s)
        | (Some (p, name), s) \<Rightarrow>
          if \<not> is_dir s p \<or> name = [] then (-1, s)
          else if is_dir s n \<and> vfs_is_ancestor s n p then (-1, s)
          else
            let (existing, s) = vfs_lookup s newpath in
            if existing = Some n then (0, s)
            else case drop_existing s existing of None \<Rightarrow> (-1, s)
            | Some s \<Rightarrow>
              let s = leave_parent s n;
                  s = set_node s n (\<lambda>x. x\<lparr>nd_name := cp name, nd_parent := Some p, nd_next := nd_children (nodes s p)\<rparr>) in
              (0, set_node s p (\<lambda>x. x\<lparr>nd_children := Some n\<rparr>)))"

end
