(* ===== verification/Vfs_Files.thy ===== *)
theory Vfs_Files
  imports Vfs
begin

text \<open>
  The rest of \<^verbatim>\<open>src/src/kernel/vfs.c\<close>: directories made on demand, file contents, the
  files imported from the boot volume, the initial tree, directory listing and the texts of
  \<^verbatim>\<open>/proc\<close>. What \<^verbatim>\<open>cpuid\<close>, the clock and the page counters return is an argument.
\<close>

text \<open>One component of \<^verbatim>\<open>vfs_ensure_dir\<close>: the directory \<^verbatim>\<open>cur\<close> exists or is made.\<close>

definition ensure_one :: "vfs \<Rightarrow> string \<Rightarrow> bool \<times> vfs" where
  "ensure_one s cur =
     (case vfs_lookup s cur of
        (Some node, s) \<Rightarrow> (is_dir s node, s)
      | (None, s) \<Rightarrow>
        (case vfs_mkdir s cur 493 of
           (Some _, s) \<Rightarrow> (True, s)
         | (None, s) \<Rightarrow> (case vfs_lookup s cur of (None, s) \<Rightarrow> (False, s) | (Some _, s) \<Rightarrow> (True, s))))"

function ensure_loop :: "vfs \<Rightarrow> string \<Rightarrow> string \<Rightarrow> bool \<times> vfs" where
  "ensure_loop s cur p =
     (case next_part p of None \<Rightarrow> (True, s)
      | Some (part, rest) \<Rightarrow>
        if length part > VFS_NAME_MAX then (False, s)
        else
          let cur = (if length cur > 1 then cur @ [slash] else cur) in
          if length cur + length part \<ge> VFS_PATH_MAX then (False, s)
          else case ensure_one s (cur @ part) of (False, s) \<Rightarrow> (False, s)
          | (True, s) \<Rightarrow> ensure_loop s (cur @ part) rest)"
  by pat_completeness auto
termination
  by (relation "measure (\<lambda>(s, cur, p). length p)") (auto dest: next_part_shorter)

declare ensure_loop.simps [simp del]

definition vfs_ensure_dir :: "vfs \<Rightarrow> string \<Rightarrow> int \<times> vfs" where
  "vfs_ensure_dir s path =
     (if path = [] \<or> hd path \<noteq> slash then (-1, s)
      else if tl path = [] then (0, s)
      else case ensure_loop s ''/'' (tl path) of (False, s) \<Rightarrow> (-1, s)
      | (True, s) \<Rightarrow>
        (case vfs_lookup s path of (None, s) \<Rightarrow> (-1, s)
         | (Some _, s) \<Rightarrow>
           (case vfs_lookup s path of (None, s) \<Rightarrow> (-1, s)
            | (Some n, s) \<Rightarrow> (if is_dir s n then 0 else -1, s))))"

section \<open>File contents\<close>

definition data_byte :: "vfs \<Rightarrow> file_data option \<Rightarrow> nat \<Rightarrow> u8" where
  "data_byte s d j = (case d of Some (Slot i) \<Rightarrow> vfs_data_pool s i j | Some Xorg_log \<Rightarrow> vfs_xorg_log_data s j | None \<Rightarrow> 0)"

definition set_data_byte :: "vfs \<Rightarrow> file_data option \<Rightarrow> nat \<Rightarrow> u8 \<Rightarrow> vfs" where
  "set_data_byte s d j b =
     (case d of
        Some (Slot i) \<Rightarrow> s\<lparr>vfs_data_pool := (vfs_data_pool s)(i := (vfs_data_pool s i)(j := b))\<rparr>
      | Some Xorg_log \<Rightarrow> s\<lparr>vfs_xorg_log_data := (vfs_xorg_log_data s)(j := b)\<rparr>
      | None \<Rightarrow> s)"

fun write_loop :: "vfs \<Rightarrow> file_data option \<Rightarrow> nat \<Rightarrow> u8 list \<Rightarrow> vfs" where
  "write_loop s d off [] = s"
| "write_loop s d off (b # bs) = write_loop (set_data_byte s d off b) d (off + 1) bs"

definition vfs_file_is_regular :: "vfs \<Rightarrow> nat option \<Rightarrow> bool" where
  "vfs_file_is_regular s n \<longleftrightarrow> (case n of None \<Rightarrow> False | Some x \<Rightarrow> nd_type (nodes s x) = VFS_NODE_FILE)"

definition vfs_file_truncate :: "vfs \<Rightarrow> nat option \<Rightarrow> u64 \<Rightarrow> int \<times> vfs" where
  "vfs_file_truncate s n len =
     (if \<not> vfs_file_is_regular s n then (-1, s)
      else let inode = inode_of s (the n) in
      if len > nd_capacity (nodes s inode) then (-1, s)
      else
        let size = nd_size (nodes s inode);
            s = (if len > size
                 then write_loop s (nd_data (nodes s inode)) (unat size) (replicate (unat len - unat size) 0) else s) in
        (0, set_node s inode (\<lambda>x. x\<lparr>nd_size := len\<rparr>)))"

text \<open>A source buffer is its bytes, at least as many as the length says.\<close>

definition vfs_write_kernel_file :: "vfs \<Rightarrow> nat option \<Rightarrow> u8 list option \<Rightarrow> u64 \<Rightarrow> int \<times> vfs" where
  "vfs_write_kernel_file s n data len =
     (if \<not> vfs_file_is_regular s n then (-1, s)
      else let inode = inode_of s (the n) in
      if data = None \<and> len \<noteq> 0 \<or> len > nd_capacity (nodes s inode) then (-1, s)
      else
        let s = write_loop s (nd_data (nodes s inode)) 0 (take (unat len) (case data of Some bs \<Rightarrow> bs | None \<Rightarrow> []));
            s = set_node s inode (\<lambda>x. x\<lparr>nd_size := len\<rparr>) in
        (0, set_node s (the n) (\<lambda>x. x\<lparr>nd_size := len\<rparr>)))"

definition vfs_file_data :: "vfs \<Rightarrow> nat option \<Rightarrow> file_data option" where
  "vfs_file_data s n = (if \<not> vfs_file_is_regular s n then None else nd_data (nodes s (inode_of s (the n))))"

definition vfs_is_boot_file :: "vfs \<Rightarrow> nat option \<Rightarrow> bool" where
  "vfs_is_boot_file s n \<longleftrightarrow> (case n of None \<Rightarrow> False | Some x \<Rightarrow> nd_type (nodes s x) = VFS_NODE_BOOT_FILE)"

definition vfs_file_size :: "vfs \<Rightarrow> nat option \<Rightarrow> u64" where
  "vfs_file_size s n =
     (case n of None \<Rightarrow> 0
      | Some x \<Rightarrow> if vfs_file_is_regular s n then nd_size (nodes s (inode_of s x))
                 else if vfs_is_boot_file s n then nd_size (nodes s x) else 0)"

definition vfs_file_write :: "vfs \<Rightarrow> nat option \<Rightarrow> u64 \<Rightarrow> u8 list option \<Rightarrow> u64 \<Rightarrow> int \<times> vfs" where
  "vfs_file_write s n off src len =
     (if \<not> vfs_file_is_regular s n then (-22, s)
      else if src = None \<and> len \<noteq> 0 then (-14, s)
      else let inode = inode_of s (the n) in
      if off \<ge> nd_capacity (nodes s inode) then (-28, s)
      else
        let room = nd_capacity (nodes s inode) - off;
            w = (if len < room then len else room);
            s = write_loop s (nd_data (nodes s inode)) (unat off) (take (unat w) (case src of Some bs \<Rightarrow> bs | None \<Rightarrow> []));
            s = (if off + w > nd_size (nodes s inode) then set_node s inode (\<lambda>x. x\<lparr>nd_size := off + w\<rparr>) else s) in
        (uint w, set_node s (the n) (\<lambda>x. x\<lparr>nd_size := nd_size (nodes s inode)\<rparr>)))"

section \<open>Boot files\<close>

function import_loop :: "vfs \<Rightarrow> string \<Rightarrow> u64 \<Rightarrow> nat \<Rightarrow> string \<Rightarrow> int \<times> vfs" where
  "import_loop s path sz parent p =
     (case next_part p of None \<Rightarrow> (-1, s)
      | Some (full, rest) \<Rightarrow>
        let part = take VFS_NAME_MAX full;
            rest = dropWhile (\<lambda>c. c = slash) rest;
            (child, s) = vfs_lookup_child s parent part in
        if rest \<noteq> [] then
          (case (case child of Some c \<Rightarrow> (Some c, s) | None \<Rightarrow> mkd s parent part) of
             (None, s) \<Rightarrow> (-1, s)
           | (Some c, s) \<Rightarrow> if \<not> is_dir s c then (-1, s) else import_loop s path sz c rest)
        else
          (case child of
             Some c \<Rightarrow>
               if nd_type (nodes s c) = VFS_NODE_BOOT_FILE then
                 (0, set_node s c (\<lambda>x. x\<lparr>nd_size := sz, nd_capacity := sz, nd_boot_path := cp_path path\<rparr>))
               else (-1, s)
           | None \<Rightarrow>
             (case new_node s part VFS_NODE_BOOT_FILE (S_IFREG OR 292) of (None, s) \<Rightarrow> (-1, s)
              | (Some f, s) \<Rightarrow>
                (0, add (set_node s f (\<lambda>x. x\<lparr>nd_data := None, nd_size := sz, nd_capacity := sz,
                      nd_boot_path := cp_path path\<rparr>)) parent f))))"
  by pat_completeness auto
termination
proof (relation "measure (\<lambda>(s, path, sz, parent, p). length p)", goal_cases)
  case (2 s path sz parent p a full rest)
  then show ?case
    using next_part_shorter [of p full rest] length_dropWhile_le [of "\<lambda>c. c = slash" rest] by auto
qed simp

declare import_loop.simps [simp del]

definition vfs_import_boot_file :: "vfs \<Rightarrow> string \<Rightarrow> u64 \<Rightarrow> int \<times> vfs" where
  "vfs_import_boot_file s path sz =
     (if path = [] \<or> sz = 0 then (-1, s)
      else import_loop s path sz (root_node s) path)"

definition vfs_boot_path :: "vfs \<Rightarrow> nat option \<Rightarrow> string option" where
  "vfs_boot_path s n =
     (case n of None \<Rightarrow> None
      | Some x \<Rightarrow> Some (if nd_type (nodes s x) = VFS_NODE_BOOT_FILE \<and> nd_boot_path (nodes s x) \<noteq> []
                       then nd_boot_path (nodes s x) else nd_name (nodes s x)))"

definition vfs_node_name :: "vfs \<Rightarrow> nat option \<Rightarrow> string option" where
  "vfs_node_name s n = map_option (\<lambda>x. nd_name (nodes s x)) n"

section \<open>Initialisation\<close>

definition mkd_only :: "nat \<Rightarrow> string \<Rightarrow> vfs \<Rightarrow> vfs" where
  "mkd_only p n s = snd (mkd s p n)"

definition set_mode :: "nat \<Rightarrow> u32 \<Rightarrow> vfs \<Rightarrow> vfs" where
  "set_mode n m s = set_node s n (\<lambda>x. x\<lparr>nd_mode := m\<rparr>)"

definition with_dir :: "nat \<Rightarrow> string \<Rightarrow> (nat \<Rightarrow> vfs \<Rightarrow> vfs) \<Rightarrow> vfs \<Rightarrow> vfs" where
  "with_dir p n f s = (case mkd s p n of (None, s) \<Rightarrow> s | (Some d, s) \<Rightarrow> f d s)"

definition string_bytes :: "string \<Rightarrow> u8 list" where
  "string_bytes s = map of_char s"

definition create_with :: "string \<Rightarrow> string \<Rightarrow> vfs \<Rightarrow> vfs" where
  "create_with path text s =
     (case vfs_create_file s path False of (None, s) \<Rightarrow> s
      | (Some n, s) \<Rightarrow> snd (vfs_write_kernel_file s (Some n) (Some (string_bytes text)) (of_nat (length text))))"

abbreviation (input) newline :: char where "newline \<equiv> CHR 0x0A"
abbreviation (input) tab :: char where "tab \<equiv> CHR 0x09"

definition os_release :: string where
  "os_release = ''NAME=YabroOS-32'' @ [newline] @ ''VERSION=0.1'' @ [newline] @ ''ID=yabroos-32'' @ [newline] @
     ''PRETTY_NAME='' @ [CHR 0x22] @ ''YabroOS-32 v0.1'' @ [CHR 0x22, newline]"

text \<open>The nodes are zeroed as well, which only \<^verbatim>\<open>new_node\<close> can observe, and it zeroes its node.\<close>

definition vfs_init :: "vfs \<Rightarrow> vfs" where
  "vfs_init s =
     (let s = s\<lparr>node_used := 0, mount_used := 0, filesystems := [], next_ino := 1, vfs_data_used := (\<lambda>_. False),
            mounts := (\<lambda>_. \<lparr>mt_fs_name = [], mt_mountpoint = 0, mt_root = None\<rparr>)\<rparr>;
          (r, s) = new_node s [] VFS_NODE_DIR (S_IFDIR OR 493);
          root = the r;
          s = s\<lparr>root_node := root\<rparr>;
          s = mkd_only root ''dev'' (mkd_only root ''proc'' s);
          s = with_dir root ''tmp'' (\<lambda>tmpdir s.
                let s = set_mode tmpdir (S_IFDIR OR 1023) s in
                with_dir tmpdir ''.X11-unix'' (\<lambda>xd. set_mode xd (S_IFDIR OR 1023)) s) s;
          s = with_dir root ''var'' (\<lambda>vardir s.
                let s = with_dir vardir ''log'' (\<lambda>logdir. set_mode logdir (S_IFDIR OR 493)) s in
                with_dir vardir ''lib'' (\<lambda>varlib.
                  with_dir varlib ''xkb'' (\<lambda>xkbdir. set_mode xkbdir (S_IFDIR OR 509))) s) s;
          s = mkd_only root ''bin'' (mkd_only root ''etc'' s);
          s = mkd_only root ''lib'' (mkd_only root ''usr'' s);
          s = with_dir root ''sys'' (\<lambda>sysdir. with_dir sysdir ''class'' (\<lambda>classdir.
                with_dir classdir ''graphics'' (\<lambda>graphics. with_dir graphics ''fb0'' (\<lambda>fb0.
                  with_dir fb0 ''device'' (\<lambda>device. mkls device [(''subsystem'', ''../../../../bus/platform'')]))))) s;
          s = create_with ''/etc/os-release'' os_release s;
          s = create_with ''/etc/hostname'' (''yabroos-32'' @ [newline]) s;
          s = create_with ''/etc/motd'' (''Welcome to YabroOS-32 v0.0.2.'' @ [newline]) s;
          s = snd (vfs_register_filesystem s \<lparr>fst_name = ''procfs'', fst_mount = Proc_mount\<rparr>);
          s = snd (vfs_register_filesystem s \<lparr>fst_name = ''devfs'', fst_mount = Dev_mount\<rparr>);
          s = snd (vfs_mount_fs s ''procfs'' ''/proc'') in
      snd (vfs_mount_fs s ''devfs'' ''/dev''))"

section \<open>Queries\<close>

definition vfs_is_dir :: "vfs \<Rightarrow> nat option \<Rightarrow> bool" where
  "vfs_is_dir s n \<longleftrightarrow> (case n of None \<Rightarrow> False | Some x \<Rightarrow> is_dir s x)"

definition vfs_type :: "vfs \<Rightarrow> nat option \<Rightarrow> vfs_node_type option" where
  "vfs_type s n = map_option (\<lambda>x. nd_type (nodes s x)) n"

definition vfs_mode :: "vfs \<Rightarrow> nat option \<Rightarrow> u32" where
  "vfs_mode s n = (case n of None \<Rightarrow> 0 | Some x \<Rightarrow> nd_mode (nodes s x))"

definition vfs_ino :: "vfs \<Rightarrow> nat option \<Rightarrow> u64" where
  "vfs_ino s n = (case n of None \<Rightarrow> 0 | Some x \<Rightarrow> nd_ino (nodes s x))"

definition vfs_link_target :: "vfs \<Rightarrow> nat option \<Rightarrow> string option" where
  "vfs_link_target s n = (case n of None \<Rightarrow> None | Some x \<Rightarrow> nd_link_target (nodes s x))"

definition vfs_root :: "vfs \<Rightarrow> nat" where
  "vfs_root s = root_node s"

function mounted_loop :: "vfs \<Rightarrow> nat \<Rightarrow> string \<Rightarrow> bool \<times> vfs" where
  "mounted_loop s n p =
     (case next_part p of None \<Rightarrow> (nd_mounted (nodes s n) \<noteq> None, s)
      | Some (full, rest) \<Rightarrow>
        (case vfs_lookup_child s n (take VFS_NAME_MAX full) of (None, s) \<Rightarrow> (False, s)
         | (Some x, s) \<Rightarrow> mounted_loop s x rest))"
  by pat_completeness auto
termination
  by (relation "measure (\<lambda>(s, n, p). length p)") (auto dest: next_part_shorter)

declare mounted_loop.simps [simp del]

definition vfs_mounted :: "vfs \<Rightarrow> string \<Rightarrow> bool \<times> vfs" where
  "vfs_mounted s t = (if eq t ''/'' then (True, s) else mounted_loop s (root_node s) (tl t))"

section \<open>Listing a directory\<close>

definition vfs_out_ch :: "nat \<Rightarrow> string \<Rightarrow> char \<Rightarrow> string" where
  "vfs_out_ch cap out c = (if length out + 1 < cap then out @ [c] else out)"

definition vfs_out_str :: "nat \<Rightarrow> string \<Rightarrow> string \<Rightarrow> string" where
  "vfs_out_str cap out s = foldl (vfs_out_ch cap) out s"

fun name_cmp :: "string \<Rightarrow> string \<Rightarrow> int" where
  "name_cmp (x # xs) (y # ys) =
     (if ascii_lower x \<noteq> ascii_lower y
      then (if (of_char (ascii_lower x) :: nat) < of_char (ascii_lower y) then -1 else 1)
      else name_cmp xs ys)"
| "name_cmp [] [] = 0"
| "name_cmp (x # xs) [] = 1"
| "name_cmp [] (y # ys) = -1"

definition vfs_name_cmp :: "vfs \<Rightarrow> nat \<Rightarrow> nat \<Rightarrow> int" where
  "vfs_name_cmp s a b = name_cmp (nd_name (nodes s a)) (nd_name (nodes s b))"

text \<open>The two loops of the insertion sort on the array \<^verbatim>\<open>items\<close>.\<close>

fun shift_loop :: "(nat \<Rightarrow> nat \<Rightarrow> int) \<Rightarrow> nat list \<Rightarrow> nat \<Rightarrow> nat \<Rightarrow> nat list \<times> nat" where
  "shift_loop cmp items v 0 = (items, 0)"
| "shift_loop cmp items v (Suc j) =
     (if cmp (items ! j) v > 0 then shift_loop cmp (items[Suc j := items ! j]) v j else (items, Suc j))"

definition sort_step :: "(nat \<Rightarrow> nat \<Rightarrow> int) \<Rightarrow> nat \<Rightarrow> nat list \<Rightarrow> nat list" where
  "sort_step cmp i items =
     (let v = items ! i; (items, j) = shift_loop cmp items v i in items[j := v])"

definition sort_items :: "(nat \<Rightarrow> nat \<Rightarrow> int) \<Rightarrow> nat list \<Rightarrow> nat list" where
  "sort_items cmp items = fold (sort_step cmp) [1..<length items] items"

definition list_entry :: "vfs \<Rightarrow> nat \<Rightarrow> nat \<Rightarrow> string \<Rightarrow> string" where
  "list_entry s cap x out =
     (let out = vfs_out_str cap out (nd_name (nodes s x));
          out = (if nd_type (nodes s x) = VFS_NODE_DIR then vfs_out_ch cap out slash
                 else if nd_type (nodes s x) = VFS_NODE_SYMLINK then vfs_out_ch cap out (CHR ''@'') else out) in
      vfs_out_ch cap out newline)"

definition list_items :: "vfs \<Rightarrow> nat \<Rightarrow> nat list" where
  "list_items s d = sort_items (vfs_name_cmp s)
     (take VFS_MAX_NODES (filter (\<lambda>x. nd_name (nodes s x) \<noteq> []) (children_of s d)))"

definition vfs_list_dir :: "vfs \<Rightarrow> string option \<Rightarrow> nat \<Rightarrow> string \<times> vfs" where
  "vfs_list_dir s path cap =
     (let src = (case path of Some p \<Rightarrow> p | None \<Rightarrow> ''/'') in
      if cap = 0 \<or> src = [] \<or> hd src \<noteq> slash \<or> length src \<ge> VFS_PATH_MAX then ([], s)
      else case vfs_lookup s (strip_slashes src) of (None, s) \<Rightarrow> ([], s)
      | (Some d, s) \<Rightarrow>
        if \<not> is_dir s d then ([], s)
        else (fold (list_entry s cap) (list_items s d) [], s))"

section \<open>The files of procfs and reading by path\<close>

text \<open>
  What these files report comes from outside \<^verbatim>\<open>vfs.c\<close>: the \<^verbatim>\<open>cpuid\<close>
  instruction (leaf and subleaf to \<^verbatim>\<open>eax\<close>, \<^verbatim>\<open>ebx\<close>, \<^verbatim>\<open>ecx\<close>,
  \<^verbatim>\<open>edx\<close>), the clock, the page counters, and the boot file reader (path, offset and
  length to the bytes it stores).
\<close>

record vfs_env =
  env_cpuid :: "u32 \<Rightarrow> u32 \<Rightarrow> u32 \<times> u32 \<times> u32 \<times> u32"
  env_uptime_ns :: u64
  env_total_count :: u64
  env_free_count :: u64
  env_bootfs_read :: "string \<Rightarrow> u64 \<Rightarrow> nat \<Rightarrow> string"

definition proc_putc :: "nat \<Rightarrow> string \<Rightarrow> char \<Rightarrow> string" where
  "proc_putc cap out c = (if length out + 1 \<ge> cap then out else out @ [c])"

fun proc_puts :: "nat \<Rightarrow> string \<Rightarrow> string \<Rightarrow> string" where
  "proc_puts cap out [] = out"
| "proc_puts cap out (c # cs) = (if length out + 1 < cap then proc_puts cap (proc_putc cap out c) cs else out)"

text \<open>The digits in \<^verbatim>\<open>tmp\<close>, least significant first; the first argument is the room left.\<close>

fun digit_loop :: "nat \<Rightarrow> u64 \<Rightarrow> string" where
  "digit_loop 0 v = []"
| "digit_loop (Suc k) v = (if v = 0 then [] else char_of (48 + unat (v mod 10)) # digit_loop k (v div 10))"

definition proc_put_u64 :: "nat \<Rightarrow> string \<Rightarrow> u64 \<Rightarrow> string" where
  "proc_put_u64 cap out v =
     (if v = 0 then proc_putc cap out (CHR ''0'') else foldl (proc_putc cap) out (rev (digit_loop 32 v)))"

definition proc_put_kb :: "nat \<Rightarrow> string \<Rightarrow> u64 \<Rightarrow> string" where
  "proc_put_kb cap out bytes = proc_puts cap (proc_put_u64 cap out (bytes div 1024)) ('' kB'' @ [newline])"

definition kernel_cpuid_max_basic :: "vfs_env \<Rightarrow> u32" where
  "kernel_cpuid_max_basic e = fst (env_cpuid e 0 0)"

definition kernel_cpuid_max_extended :: "vfs_env \<Rightarrow> u32" where
  "kernel_cpuid_max_extended e = fst (env_cpuid e 0x80000000 0)"

definition u32_chars :: "u32 \<Rightarrow> string" where
  "u32_chars w = map (\<lambda>k. char_of (unat (drop_bit (8 * k) w AND 0xFF))) [0..<4]"

definition c_string :: "string \<Rightarrow> string" where
  "c_string cs = takeWhile (\<lambda>c. c \<noteq> CHR 0x00) cs"

definition strip_spaces :: "string \<Rightarrow> string" where
  "strip_spaces s =
     (let s = dropWhile (\<lambda>c. c = CHR '' '') s in rev (dropWhile (\<lambda>c. c = CHR '' '') (rev s)))"

definition kernel_cpu_brand :: "vfs_env \<Rightarrow> nat \<Rightarrow> string" where
  "kernel_cpu_brand e cap =
     (if cap = 0 \<or> kernel_cpuid_max_extended e < 0x80000004 then []
      else
        let regs = concat (map (\<lambda>i. let (a, b, c, d) = env_cpuid e (0x80000002 + i) 0 in [a, b, c, d]) [0, 1, 2]);
            raw = concat (map u32_chars regs);
            n = (if length raw \<ge> cap then cap - 1 else length raw) in
        take (cap - 1) (strip_spaces (c_string (take n raw))))"

definition kernel_cpu_vendor :: "vfs_env \<Rightarrow> nat \<Rightarrow> string" where
  "kernel_cpu_vendor e cap =
     (if cap = 0 then []
      else let (a, b, c, d) = env_cpuid e 0 0; raw = u32_chars b @ u32_chars d @ u32_chars c in
        c_string (take (cap - 1) raw))"

definition emit_flags :: "nat \<Rightarrow> (u32 \<times> nat \<times> string) list \<Rightarrow> string \<Rightarrow> string" where
  "emit_flags cap fs out = foldl (\<lambda>out (reg, b, name). if bit reg b then proc_puts cap out (CHR '' '' # name) else out) out fs"

definition proc_field :: "nat \<Rightarrow> string \<Rightarrow> u64 \<Rightarrow> string \<Rightarrow> string" where
  "proc_field cap label v out = proc_putc cap (proc_put_u64 cap (proc_puts cap out label) v) newline"

definition proc_text :: "nat \<Rightarrow> string \<Rightarrow> string \<Rightarrow> string \<Rightarrow> string" where
  "proc_text cap label v out = proc_putc cap (proc_puts cap (proc_puts cap out label) v) newline"

definition proc_make_cpuinfo :: "vfs_env \<Rightarrow> nat \<Rightarrow> string" where
  "proc_make_cpuinfo e cap =
     (let maxb = kernel_cpuid_max_basic e;
          (a, b, c, d) = env_cpuid e 1 0;
          stepping = a AND 0xF; model = drop_bit 4 a AND 0xF; family = drop_bit 8 a AND 0xF;
          ext_model = drop_bit 16 a AND 0xF; ext_family = drop_bit 20 a AND 0xFF;
          display_family = (if family = 0xF then family + ext_family else family);
          display_model = (if family = 0x6 \<or> family = 0xF then model + push_bit 4 ext_model else model);
          logical = drop_bit 16 b AND 0xFF;
          logical = (if logical = 0 then 1 else logical);
          vendor = kernel_cpu_vendor e 16; brand = kernel_cpu_brand e 64;
          out = proc_puts cap [] (''processor'' @ [tab] @ '': 0'' @ [newline]);
          out = proc_text cap (''vendor_id'' @ [tab] @ '': '') vendor out;
          out = proc_field cap (''cpu family'' @ [tab] @ '': '') (ucast display_family) out;
          out = proc_field cap (''model'' @ [tab, tab] @ '': '') (ucast display_model) out;
          out = proc_field cap (''stepping'' @ [tab] @ '': '') (ucast stepping) out;
          out = (if brand \<noteq> [] then proc_text cap (''model name'' @ [tab] @ '': '') brand out else out);
          out = proc_field cap (''siblings'' @ [tab] @ '': '') (ucast logical) out;
          out = proc_puts cap out (''flags'' @ [tab, tab] @ '':'');
          out = emit_flags cap
               [(d, 0, ''fpu''), (d, 4, ''tsc''), (d, 5, ''msr''), (d, 8, ''cx8''), (d, 9, ''apic''),
                (d, 15, ''cmov''), (d, 23, ''mmx''), (d, 25, ''sse''), (d, 26, ''sse2''), (c, 0, ''sse3''),
                (c, 9, ''ssse3''), (c, 19, ''sse4_1''), (c, 20, ''sse4_2''), (c, 28, ''avx''), (c, 30, ''rdrand'')] out;
          out = (if maxb \<ge> 7 then
                   let (a7, b7, c7, d7) = env_cpuid e 7 0 in
                   emit_flags cap [(b7, 3, ''bmi1''), (b7, 5, ''avx2''), (b7, 8, ''bmi2''), (b7, 18, ''rdseed''),
                     (b7, 29, ''sha_ni''), (c7, 1, ''avx_vnni'')] out
                 else out) in
      proc_putc cap out newline)"

definition proc_make_meminfo :: "vfs_env \<Rightarrow> nat \<Rightarrow> string" where
  "proc_make_meminfo e cap =
     (let total = env_total_count e * 4096; free = env_free_count e * 4096;
          out = proc_put_kb cap (proc_puts cap [] ''MemTotal:       '') total;
          out = proc_put_kb cap (proc_puts cap out ''MemFree:        '') free;
          out = proc_put_kb cap (proc_puts cap out ''MemAvailable:   '') free in
      proc_put_kb cap (proc_puts cap out ''PageSize:       '') 4096)"

definition uptime_text :: "u64 \<Rightarrow> string" where
  "uptime_text ns =
     (let sec = ns div 1000000000; frac = (ns mod 1000000000) div 10000000 in
      (if sec = 0 then ''0'' else rev (digit_loop 24 sec)) @
      [CHR ''.'', char_of (48 + unat (frac div 10)), char_of (48 + unat (frac mod 10))] @ '' 0.00'' @ [newline])"

text \<open>The fixed texts, by path first and then by node type.\<close>

definition special_text :: "vfs_env \<Rightarrow> string \<Rightarrow> vfs_node_type \<Rightarrow> string option" where
  "special_text e path t =
     (if eq path ''/proc/version'' then Some (''YabroOS-32 v0.1 (procfs+musl-abi)'' @ [newline])
      else if eq path ''/proc/uptime'' then Some (uptime_text (env_uptime_ns e))
      else if eq path ''/proc/self/status'' \<or> eq path ''/proc/1/status'' then
        Some (''Name:'' @ [tab] @ ''init'' @ [newline] @ ''State:'' @ [tab] @ ''R (running)'' @ [newline] @
              ''Pid:'' @ [tab] @ ''1'' @ [newline])
      else if eq path ''/proc/self/cmdline'' \<or> eq path ''/proc/1/cmdline'' then Some (''/HELLO.ELF'' @ [newline])
      else if eq path ''/proc/self/maps'' \<or> eq path ''/proc/1/maps'' then
        Some (''00400000-00401000 r-xp /HELLO.ELF'' @ [newline])
      else if t = VFS_NODE_DEV_NULL then None
      else if t = VFS_NODE_DEV_ZERO then Some (''[dev/zero]'' @ [newline])
      else if t = VFS_NODE_DEV_CONSOLE \<or> t = VFS_NODE_DEV_TTY then Some (''[terminal device]'' @ [newline])
      else if t = VFS_NODE_DEV_RANDOM \<or> t = VFS_NODE_DEV_URANDOM then Some (''[random device]'' @ [newline])
      else None)"

definition vfs_read_file :: "vfs_env \<Rightarrow> vfs \<Rightarrow> string \<Rightarrow> nat \<Rightarrow> string \<times> vfs" where
  "vfs_read_file e s path cap =
     (if cap = 0 then ([], s)
      else case vfs_lookup s path of (None, s) \<Rightarrow> ([], s)
      | (Some n, s) \<Rightarrow>
        let nd = nodes s n in
        (if nd_type nd = VFS_NODE_DIR \<or> nd_type nd = VFS_NODE_SYMLINK then []
         else if vfs_file_is_regular s (Some n) then
           map (\<lambda>i. char_of (unat (data_byte s (nd_data nd) i))) [0..<min (unat (nd_size nd)) (cap - 1)]
         else if vfs_is_boot_file s (Some n) then
           (if nd_boot_path nd = [] then [] else env_bootfs_read e (nd_boot_path nd) 0 cap)
         else if eq path ''/proc/cpuinfo'' then proc_make_cpuinfo e cap
         else if eq path ''/proc/meminfo'' then proc_make_meminfo e cap
         else case special_text e path (nd_type nd) of None \<Rightarrow> [] | Some t \<Rightarrow> take (cap - 1) t,
         s))"

end
