(* ===== verification/Fd.thy ===== *)
theory Fd
  imports Prelude
begin

text \<open>
  The descriptor tables of \<^verbatim>\<open>src/src/kernel/main.c\<close> and the objects that descriptors
  refer to: open file offsets, input cursors, pipes, pseudo terminals, sockets, \<^verbatim>\<open>epoll\<close>
  instances, event and timer descriptors. Each object is an entry of a static array and is named by
  its index; a pointer to a descriptor is the pair of its table and its number. The
  \<^verbatim>\<open>private_data\<close> pointer is the sum of what the code stores in it: a device number, the
  index of an object, or a socket with the side in its lowest bit. Flags that only control debug
  output are left out.
\<close>

section \<open>Data\<close>

abbreviation (input) MAX_FILES :: nat where "MAX_FILES \<equiv> 512"
abbreviation (input) MAX_FD_TABLES :: nat where "MAX_FD_TABLES \<equiv> 32"
abbreviation (input) INPUT_OPEN_STATE_CAP :: nat where "INPUT_OPEN_STATE_CAP \<equiv> 32768"
abbreviation (input) INPUT_EVENT_CAP :: u64 where "INPUT_EVENT_CAP \<equiv> 256"
abbreviation (input) MOUSE_EVENT_CAP :: u64 where "MOUSE_EVENT_CAP \<equiv> 256"
abbreviation (input) PIPE_COUNT :: nat where "PIPE_COUNT \<equiv> 8"
abbreviation (input) PIPE_CAP :: u32 where "PIPE_CAP \<equiv> 65536"
abbreviation (input) UINT32_MAX :: u32 where "UINT32_MAX \<equiv> 0xFFFFFFFF"
abbreviation (input) O_CLOEXEC :: u32 where "O_CLOEXEC \<equiv> 0x80000"

datatype fd_type =
  FD_NONE | FD_FILE | FD_PIPE_R | FD_PIPE_W | FD_PSEUDO | FD_SOCKET | FD_EVENTFD | FD_TIMERFD
| FD_PTY_MASTER | FD_PTY_SLAVE | FD_EPOLL

datatype private_data =
  No_Data | Dev u64 | Pipe nat | Pty nat | Sock nat nat | Eventfd nat | Timerfd nat | Epoll nat

abbreviation (input) DEV_CONSOLE :: u64 where "DEV_CONSOLE \<equiv> 3"
abbreviation (input) DEV_TTY :: u64 where "DEV_TTY \<equiv> 4"
abbreviation (input) DEV_FB :: u64 where "DEV_FB \<equiv> 7"
abbreviation (input) DEV_INPUT :: u64 where "DEV_INPUT \<equiv> 8"
abbreviation (input) DEV_INPUT_MOUSE :: u64 where "DEV_INPUT_MOUSE \<equiv> 9"

record file_desc =
  fd_in_use :: bool
  fd_type :: fd_type
  fd_flags :: u32
  fd_offset :: u64
  fd_size :: u64
  fd_data :: "u8 list option"
  fd_name :: "string option"
  fd_boot_path :: string
  fd_private :: private_data
  fd_vnode :: "nat option"
  fd_shared_offset :: "nat option"
  fd_input_state :: "nat option"
  fd_input_seq :: u64

record input_open_state =
  in_used :: bool
  in_refs :: u32
  in_kind :: u32
  in_seq :: u64

record open_desc_state =
  od_offset :: u64
  od_refs :: u32
  od_used :: bool

record pipe_state =
  pi_data :: "nat \<Rightarrow> u8"
  pi_rpos :: u32
  pi_wpos :: u32
  pi_count :: u32
  pi_readers :: u32
  pi_writers :: u32

record pty_state =
  pt_master_to_slave :: "nat \<Rightarrow> u8"
  pt_slave_to_master :: "nat \<Rightarrow> u8"
  pt_m2s_r :: u32
  pt_m2s_w :: u32
  pt_m2s_count :: u32
  pt_s2m_r :: u32
  pt_s2m_w :: u32
  pt_s2m_count :: u32
  pt_master_open :: bool
  pt_slave_open :: bool
  pt_unlocked :: bool
  pt_master_refs :: u32
  pt_slave_refs :: u32
  pt_rows :: u16
  pt_cols :: u16
  pt_xpixel :: u16
  pt_ypixel :: u16
  pt_termios :: "nat \<Rightarrow> u8"
  pt_canon :: "nat \<Rightarrow> u8"
  pt_canon_count :: u32
  pt_fg_pgrp :: int
  pt_shell_pgrp :: int
  pt_session :: int
  pt_output_stopped :: bool
  pt_index :: u32

record unix_socket_state =
  us_data :: "nat \<Rightarrow> nat \<Rightarrow> u8"
  us_rpos :: "nat \<Rightarrow> u32"
  us_wpos :: "nat \<Rightarrow> u32"
  us_count :: "nat \<Rightarrow> u32"
  us_closed :: "nat \<Rightarrow> bool"
  us_refs :: u32
  us_side_refs :: "nat \<Rightarrow> u32"
  us_listener :: bool
  us_bound :: bool
  us_connected :: bool
  us_pending_count :: u8
  us_domain :: u8
  us_protocol :: u8
  us_pending_fd :: "nat \<Rightarrow> int"
  us_path :: string
  us_netlink_pid :: u32
  us_netlink_groups :: u32

record epoll_watch =
  ew_used :: bool
  ew_fd :: int
  ew_events :: u32
  ew_data :: u64

record epoll_state =
  ep_used :: bool
  ep_refs :: u32
  ep_w :: "nat \<Rightarrow> epoll_watch"

record eventfd_state =
  ev_value :: u64
  ev_flags :: u32

record timerfd_state =
  ti_clockid :: int
  ti_flags :: u32
  ti_interval_ns :: u64
  ti_next_ns :: u64
  ti_expirations :: u64

record input_event =
  ie_sec :: int
  ie_usec :: int
  ie_type :: u16
  ie_code :: u16
  ie_value :: int

record fd_state =
  task_fd_tables :: "nat \<Rightarrow> nat \<Rightarrow> file_desc"
  task_fd_table_id :: "nat \<Rightarrow> int"
  task_fd_table_refs :: "nat \<Rightarrow> u16"
  input_open_states :: "nat \<Rightarrow> input_open_state"
  open_descs :: "nat \<Rightarrow> open_desc_state"
  pipes :: "nat \<Rightarrow> pipe_state"
  pty_slots :: "nat \<Rightarrow> pty_state"
  unix_sockets :: "nat \<Rightarrow> unix_socket_state"
  epolls :: "nat \<Rightarrow> epoll_state"
  eventfds :: "nat \<Rightarrow> eventfd_state"
  timerfds :: "nat \<Rightarrow> timerfd_state"
  input_event_queue :: "nat \<Rightarrow> input_event"
  keyboard_event_seq :: u64
  mouse_event_queue :: "nat \<Rightarrow> input_event"
  mouse_event_seq :: u64

type_synonym slot = "nat \<times> nat"

definition desc :: "fd_state \<Rightarrow> slot \<Rightarrow> file_desc" where
  "desc s f = task_fd_tables s (fst f) (snd f)"

definition set_desc :: "fd_state \<Rightarrow> slot \<Rightarrow> (file_desc \<Rightarrow> file_desc) \<Rightarrow> fd_state" where
  "set_desc s f g = s\<lparr>task_fd_tables := (task_fd_tables s)(fst f := (task_fd_tables s (fst f))(snd f := g (desc s f)))\<rparr>"

section \<open>Open offsets and input cursors\<close>

definition set_input :: "fd_state \<Rightarrow> nat \<Rightarrow> (input_open_state \<Rightarrow> input_open_state) \<Rightarrow> fd_state" where
  "set_input s i g = s\<lparr>input_open_states := (input_open_states s)(i := g (input_open_states s i))\<rparr>"

definition set_open :: "fd_state \<Rightarrow> nat \<Rightarrow> (open_desc_state \<Rightarrow> open_desc_state) \<Rightarrow> fd_state" where
  "set_open s i g = s\<lparr>open_descs := (open_descs s)(i := g (open_descs s i))\<rparr>"

definition input_state_alloc :: "fd_state \<Rightarrow> u32 \<Rightarrow> u64 \<Rightarrow> nat option \<times> fd_state" where
  "input_state_alloc s kind seq =
     (case find (\<lambda>i. \<not> in_used (input_open_states s i)) [0..<INPUT_OPEN_STATE_CAP] of
        None \<Rightarrow> (None, s)
      | Some i \<Rightarrow> (Some i, set_input s i (\<lambda>_. \<lparr>in_used = True, in_refs = 1, in_kind = kind, in_seq = seq\<rparr>)))"

definition input_state_retain :: "fd_state \<Rightarrow> nat \<Rightarrow> fd_state" where
  "input_state_retain s i =
     (if in_used (input_open_states s i) \<and> in_refs (input_open_states s i) < UINT32_MAX
      then set_input s i (\<lambda>x. x\<lparr>in_refs := in_refs x + 1\<rparr>) else s)"

definition input_state_release :: "fd_state \<Rightarrow> nat \<Rightarrow> fd_state" where
  "input_state_release s i =
     (if \<not> in_used (input_open_states s i) then s
      else if in_refs (input_open_states s i) > 1 then set_input s i (\<lambda>x. x\<lparr>in_refs := in_refs x - 1\<rparr>)
      else set_input s i (\<lambda>_. \<lparr>in_used = False, in_refs = 0, in_kind = 0, in_seq = 0\<rparr>))"

definition input_fd_seq :: "fd_state \<Rightarrow> slot \<Rightarrow> u64" where
  "input_fd_seq s f =
     (case fd_input_state (desc s f) of
        Some i \<Rightarrow> if in_used (input_open_states s i) then in_seq (input_open_states s i) else fd_input_seq (desc s f)
      | None \<Rightarrow> fd_input_seq (desc s f))"

definition input_fd_seq_set :: "fd_state \<Rightarrow> slot \<Rightarrow> u64 \<Rightarrow> fd_state" where
  "input_fd_seq_set s f seq =
     (let s = set_desc s f (\<lambda>d. d\<lparr>fd_input_seq := seq\<rparr>) in
      case fd_input_state (desc s f) of
        Some i \<Rightarrow> if in_used (input_open_states s i) then set_input s i (\<lambda>x. x\<lparr>in_seq := seq\<rparr>) else s
      | None \<Rightarrow> s)"

definition alloc_open_offset :: "fd_state \<Rightarrow> nat option \<times> fd_state" where
  "alloc_open_offset s =
     (case find (\<lambda>i. \<not> od_used (open_descs s i)) [0..<MAX_FILES] of
        None \<Rightarrow> (None, s)
      | Some i \<Rightarrow> (Some i, set_open s i (\<lambda>_. \<lparr>od_offset = 0, od_refs = 1, od_used = True\<rparr>)))"

definition retain_open_offset :: "fd_state \<Rightarrow> nat \<Rightarrow> fd_state" where
  "retain_open_offset s i = set_open s i (\<lambda>x. x\<lparr>od_refs := od_refs x + 1\<rparr>)"

definition release_open_offset :: "fd_state \<Rightarrow> nat \<Rightarrow> fd_state" where
  "release_open_offset s i =
     (if od_refs (open_descs s i) \<noteq> 0 then
        let s = set_open s i (\<lambda>x. x\<lparr>od_refs := od_refs x - 1\<rparr>) in
        if od_refs (open_descs s i) = 0 then set_open s i (\<lambda>x. x\<lparr>od_used := False\<rparr>) else s
      else s)"

definition fd_offset_get :: "fd_state \<Rightarrow> slot \<Rightarrow> u64" where
  "fd_offset_get s f = (case fd_shared_offset (desc s f) of Some i \<Rightarrow> od_offset (open_descs s i) | None \<Rightarrow> fd_offset (desc s f))"

definition fd_offset_set :: "fd_state \<Rightarrow> slot \<Rightarrow> u64 \<Rightarrow> fd_state" where
  "fd_offset_set s f v =
     (let s = set_desc s f (\<lambda>d. d\<lparr>fd_offset := v\<rparr>) in
      case fd_shared_offset (desc s f) of Some i \<Rightarrow> set_open s i (\<lambda>x. x\<lparr>od_offset := v\<rparr>) | None \<Rightarrow> s)"

section \<open>Keyboard and mouse queues\<close>

definition keyboard_event_oldest_seq :: "fd_state \<Rightarrow> u64" where
  "keyboard_event_oldest_seq s =
     (if keyboard_event_seq s > INPUT_EVENT_CAP then keyboard_event_seq s - INPUT_EVENT_CAP else 0)"

definition is_device :: "fd_state \<Rightarrow> slot \<Rightarrow> u64 \<Rightarrow> bool" where
  "is_device s f dev \<longleftrightarrow> fd_type (desc s f) = FD_PSEUDO \<and> fd_private (desc s f) = Dev dev"

definition keyboard_fd_sync :: "fd_state \<Rightarrow> slot \<Rightarrow> fd_state" where
  "keyboard_fd_sync s f =
     (if \<not> is_device s f DEV_INPUT then s
      else if input_fd_seq s f < keyboard_event_oldest_seq s then input_fd_seq_set s f (keyboard_event_oldest_seq s) else s)"

definition keyboard_fd_ready :: "fd_state \<Rightarrow> slot \<Rightarrow> bool \<times> fd_state" where
  "keyboard_fd_ready s f =
     (if \<not> is_device s f DEV_INPUT then (False, s)
      else let s = keyboard_fd_sync s f in (input_fd_seq s f < keyboard_event_seq s, s))"

definition keyboard_pop_event_fd :: "fd_state \<Rightarrow> slot \<Rightarrow> input_event option \<times> fd_state" where
  "keyboard_pop_event_fd s f =
     (case keyboard_fd_ready s f of (False, s) \<Rightarrow> (None, s)
      | (True, s) \<Rightarrow>
        let seq = input_fd_seq s f in
        (Some (input_event_queue s (unat (seq mod INPUT_EVENT_CAP))), input_fd_seq_set s f (seq + 1)))"

text \<open>The queue operation at the end of the keyboard interrupt.\<close>

definition keyboard_push_event :: "fd_state \<Rightarrow> input_event \<Rightarrow> fd_state" where
  "keyboard_push_event s e =
     s\<lparr>input_event_queue := (input_event_queue s)(unat (keyboard_event_seq s mod INPUT_EVENT_CAP) := e),
       keyboard_event_seq := keyboard_event_seq s + 1\<rparr>"

definition mouse_event_oldest_seq :: "fd_state \<Rightarrow> u64" where
  "mouse_event_oldest_seq s =
     (if mouse_event_seq s > MOUSE_EVENT_CAP then mouse_event_seq s - MOUSE_EVENT_CAP else 0)"

definition mouse_fd_sync :: "fd_state \<Rightarrow> slot \<Rightarrow> fd_state" where
  "mouse_fd_sync s f =
     (if \<not> is_device s f DEV_INPUT_MOUSE then s
      else if input_fd_seq s f < mouse_event_oldest_seq s then input_fd_seq_set s f (mouse_event_oldest_seq s) else s)"

definition mouse_fd_ready :: "fd_state \<Rightarrow> slot \<Rightarrow> bool \<times> fd_state" where
  "mouse_fd_ready s f =
     (if \<not> is_device s f DEV_INPUT_MOUSE then (False, s)
      else let s = mouse_fd_sync s f in (input_fd_seq s f < mouse_event_seq s, s))"

definition mouse_pop_event_fd :: "fd_state \<Rightarrow> slot \<Rightarrow> input_event option \<times> fd_state" where
  "mouse_pop_event_fd s f =
     (case mouse_fd_ready s f of (False, s) \<Rightarrow> (None, s)
      | (True, s) \<Rightarrow>
        let seq = input_fd_seq s f in
        (Some (mouse_event_queue s (unat (seq mod MOUSE_EVENT_CAP))), input_fd_seq_set s f (seq + 1)))"

definition mouse_push_event :: "fd_state \<Rightarrow> input_event \<Rightarrow> fd_state" where
  "mouse_push_event s e =
     s\<lparr>mouse_event_queue := (mouse_event_queue s)(unat (mouse_event_seq s mod MOUSE_EVENT_CAP) := e),
       mouse_event_seq := mouse_event_seq s + 1\<rparr>"

section \<open>Endpoints\<close>

definition set_pipe :: "fd_state \<Rightarrow> nat \<Rightarrow> (pipe_state \<Rightarrow> pipe_state) \<Rightarrow> fd_state" where
  "set_pipe s i g = s\<lparr>pipes := (pipes s)(i := g (pipes s i))\<rparr>"

definition set_pty :: "fd_state \<Rightarrow> nat \<Rightarrow> (pty_state \<Rightarrow> pty_state) \<Rightarrow> fd_state" where
  "set_pty s i g = s\<lparr>pty_slots := (pty_slots s)(i := g (pty_slots s i))\<rparr>"

definition set_sock :: "fd_state \<Rightarrow> nat \<Rightarrow> (unix_socket_state \<Rightarrow> unix_socket_state) \<Rightarrow> fd_state" where
  "set_sock s i g = s\<lparr>unix_sockets := (unix_sockets s)(i := g (unix_sockets s i))\<rparr>"

definition set_epoll :: "fd_state \<Rightarrow> nat \<Rightarrow> (epoll_state \<Rightarrow> epoll_state) \<Rightarrow> fd_state" where
  "set_epoll s i g = s\<lparr>epolls := (epolls s)(i := g (epolls s i))\<rparr>"

definition epoll_retain_file :: "fd_state \<Rightarrow> file_desc \<Rightarrow> fd_state" where
  "epoll_retain_file s d =
     (case fd_private d of
        Epoll i \<Rightarrow> if fd_type d = FD_EPOLL \<and> ep_used (epolls s i) \<and> ep_refs (epolls s i) < UINT32_MAX
                   then set_epoll s i (\<lambda>e. e\<lparr>ep_refs := ep_refs e + 1\<rparr>) else s
      | _ \<Rightarrow> s)"

definition epoll_release_file :: "fd_state \<Rightarrow> file_desc \<Rightarrow> fd_state" where
  "epoll_release_file s d =
     (case fd_private d of
        Epoll i \<Rightarrow>
          if fd_type d \<noteq> FD_EPOLL \<or> \<not> ep_used (epolls s i) then s
          else if ep_refs (epolls s i) > 1 then set_epoll s i (\<lambda>e. e\<lparr>ep_refs := ep_refs e - 1\<rparr>)
          else set_epoll s i (\<lambda>e. \<lparr>ep_used = False, ep_refs = 0, ep_w = (\<lambda>j. (ep_w e j)\<lparr>ew_used := False\<rparr>)\<rparr>)
      | _ \<Rightarrow> s)"

definition drop_side :: "unix_socket_state \<Rightarrow> nat \<Rightarrow> unix_socket_state" where
  "drop_side u side =
     (let u = (if us_side_refs u side \<noteq> 0 then
                 let u = u\<lparr>us_side_refs := (us_side_refs u)(side := us_side_refs u side - 1)\<rparr> in
                 if us_side_refs u side = 0 then u\<lparr>us_closed := (us_closed u)(side := True)\<rparr> else u
               else u);
          u = (if us_refs u \<noteq> 0 then u\<lparr>us_refs := us_refs u - 1\<rparr> else u) in
      if us_refs u = 0 then u\<lparr>us_listener := False, us_pending_count := 0\<rparr> else u)"

definition socket_fd_drop_ref :: "fd_state \<Rightarrow> file_desc \<Rightarrow> fd_state" where
  "socket_fd_drop_ref s d =
     (case fd_private d of
        Sock i side \<Rightarrow> if fd_type d = FD_SOCKET then set_sock s i (\<lambda>u. drop_side u side) else s
      | _ \<Rightarrow> s)"

section \<open>Closing a descriptor\<close>

definition closed_desc :: file_desc where
  "closed_desc = \<lparr>fd_in_use = False, fd_type = FD_NONE, fd_flags = 0, fd_offset = 0, fd_size = 0, fd_data = None,
     fd_name = None, fd_boot_path = [], fd_private = No_Data, fd_vnode = None, fd_shared_offset = None,
     fd_input_state = None, fd_input_seq = 0\<rparr>"

definition fd_mark_closed :: "fd_state \<Rightarrow> slot \<Rightarrow> fd_state" where
  "fd_mark_closed s f =
     (let s = (case fd_input_state (desc s f) of Some i \<Rightarrow> input_state_release s i | None \<Rightarrow> s) in
      set_desc s f (\<lambda>_. closed_desc))"

definition task_fd_release :: "fd_state \<Rightarrow> slot \<Rightarrow> fd_state" where
  "task_fd_release s f =
     (if \<not> fd_in_use (desc s f) then s
      else let s = (if fd_type (desc s f) = FD_EPOLL then epoll_release_file s (desc s f) else s);
               s = (case fd_shared_offset (desc s f) of Some i \<Rightarrow> release_open_offset s i | None \<Rightarrow> s) in
        fd_mark_closed s f)"

text \<open>The reference that a descriptor of a released table holds on its pipe, terminal or socket.\<close>

definition drop_endpoint :: "fd_state \<Rightarrow> file_desc \<Rightarrow> fd_state" where
  "drop_endpoint s d =
     (case fd_private d of
        Pipe i \<Rightarrow>
          (if fd_type d = FD_PIPE_R then
             set_pipe s i (\<lambda>p. if pi_readers p \<noteq> 0 then p\<lparr>pi_readers := pi_readers p - 1\<rparr> else p)
           else if fd_type d = FD_PIPE_W then
             set_pipe s i (\<lambda>p. if pi_writers p \<noteq> 0 then p\<lparr>pi_writers := pi_writers p - 1\<rparr> else p)
           else s)
      | Pty i \<Rightarrow>
          (if fd_type d = FD_PTY_MASTER then
             set_pty s i (\<lambda>p. let p = (if pt_master_refs p \<noteq> 0 then p\<lparr>pt_master_refs := pt_master_refs p - 1\<rparr> else p) in
               if pt_master_refs p = 0 then p\<lparr>pt_master_open := False\<rparr> else p)
           else if fd_type d = FD_PTY_SLAVE then
             set_pty s i (\<lambda>p. let p = (if pt_slave_refs p \<noteq> 0 then p\<lparr>pt_slave_refs := pt_slave_refs p - 1\<rparr> else p) in
               if pt_slave_refs p = 0 then p\<lparr>pt_slave_open := False\<rparr> else p)
           else s)
      | _ \<Rightarrow> socket_fd_drop_ref s d)"

definition release_slot :: "fd_state \<Rightarrow> slot \<Rightarrow> fd_state" where
  "release_slot s f =
     (if \<not> fd_in_use (desc s f) then s else task_fd_release (drop_endpoint s (desc s f)) f)"

definition set_table_id :: "fd_state \<Rightarrow> nat \<Rightarrow> int \<Rightarrow> fd_state" where
  "set_table_id s ti t = s\<lparr>task_fd_table_id := (task_fd_table_id s)(ti := t)\<rparr>"

definition set_table_refs :: "fd_state \<Rightarrow> nat \<Rightarrow> u16 \<Rightarrow> fd_state" where
  "set_table_refs s t n = s\<lparr>task_fd_table_refs := (task_fd_table_refs s)(t := n)\<rparr>"

definition valid_table :: "int \<Rightarrow> bool" where
  "valid_table t \<longleftrightarrow> \<not> (t < 0 \<or> t \<ge> int MAX_FD_TABLES)"

definition task_fd_table_release :: "fd_state \<Rightarrow> nat \<Rightarrow> fd_state" where
  "task_fd_table_release s ti =
     (let t0 = task_fd_table_id s ti; s = set_table_id s ti (-1); t = nat t0 in
      if \<not> valid_table t0 then s
      else if task_fd_table_refs s t = 0 then s
      else let s = set_table_refs s t (task_fd_table_refs s t - 1) in
      if task_fd_table_refs s t \<noteq> 0 then
        (if ti = 0 then set_table_refs (set_table_id s 0 0) 0 (task_fd_table_refs s 0 + 1) else s)
      else let s = fold (\<lambda>fd s. release_slot s (t, fd)) [0..<MAX_FILES] s in
      if t = 0 then set_table_refs (set_table_id s 0 0) 0 1 else s)"

section \<open>Live pipe ends and \<^verbatim>\<open>close\<close>\<close>

definition pipe_live :: "fd_state \<Rightarrow> fd_type \<Rightarrow> nat \<Rightarrow> u32" where
  "pipe_live s ty i =
     of_nat (length (filter (\<lambda>f. fd_in_use (desc s f) \<and> fd_private (desc s f) = Pipe i \<and> fd_type (desc s f) = ty)
       (List.product (filter (\<lambda>t. task_fd_table_refs s t \<noteq> 0) [0..<MAX_FD_TABLES]) [0..<MAX_FILES])))"

definition fd_drop_resources :: "fd_state \<Rightarrow> slot \<Rightarrow> fd_state" where
  "fd_drop_resources s f =
     (case fd_shared_offset (desc s f) of
        Some i \<Rightarrow> set_desc (release_open_offset s i) f (\<lambda>d. d\<lparr>fd_shared_offset := None\<rparr>)
      | None \<Rightarrow> s)"

definition close_pty :: "fd_state \<Rightarrow> file_desc \<Rightarrow> fd_state" where
  "close_pty s d =
     (case fd_private d of
        Pty i \<Rightarrow>
          (if fd_type d = FD_PTY_MASTER then
             set_pty s i (\<lambda>p. let p = (if pt_master_refs p \<noteq> 0 then p\<lparr>pt_master_refs := pt_master_refs p - 1\<rparr> else p) in
               if pt_master_refs p = 0 then p\<lparr>pt_master_open := False\<rparr> else p)
           else set_pty s i (\<lambda>p. let p = (if pt_slave_refs p \<noteq> 0 then p\<lparr>pt_slave_refs := pt_slave_refs p - 1\<rparr> else p) in
               if pt_slave_refs p = 0 then p\<lparr>pt_slave_open := False, pt_output_stopped := False\<rparr> else p))
      | _ \<Rightarrow> s)"

text \<open>
  \<^verbatim>\<open>sys_close\<close> on an open descriptor, up to the tasks that it wakes. The end of a pipe is
  counted down and then recounted.
\<close>

definition close_desc :: "fd_state \<Rightarrow> slot \<Rightarrow> fd_state" where
  "close_desc s f =
     (let d = desc s f in
      if fd_type d = FD_EPOLL then task_fd_release s f
      else if fd_type d = FD_PTY_MASTER \<or> fd_type d = FD_PTY_SLAVE then fd_mark_closed (fd_drop_resources (close_pty s d) f) f
      else if fd_type d = FD_PIPE_R then
        (case fd_private d of
           Pipe i \<Rightarrow>
             let s = set_pipe s i (\<lambda>p. if pi_readers p \<noteq> 0 then p\<lparr>pi_readers := pi_readers p - 1\<rparr> else p);
                 s = fd_mark_closed (fd_drop_resources s f) f in
             set_pipe s i (\<lambda>p. p\<lparr>pi_readers := pipe_live s FD_PIPE_R i\<rparr>)
         | _ \<Rightarrow> s)
      else if fd_type d = FD_PIPE_W then
        (case fd_private d of
           Pipe i \<Rightarrow>
             let s = set_pipe s i (\<lambda>p. if pi_writers p \<noteq> 0 then p\<lparr>pi_writers := pi_writers p - 1\<rparr> else p);
                 s = fd_mark_closed (fd_drop_resources s f) f in
             set_pipe s i (\<lambda>p. p\<lparr>pi_writers := pipe_live s FD_PIPE_W i\<rparr>)
         | _ \<Rightarrow> s)
      else if fd_type d = FD_SOCKET then fd_mark_closed (fd_drop_resources (socket_fd_drop_ref s d) f) f
      else fd_mark_closed (fd_drop_resources s f) f)"

section \<open>Duplicating descriptors\<close>

definition fd_retain_endpoint_ref :: "fd_state \<Rightarrow> slot \<Rightarrow> fd_state" where
  "fd_retain_endpoint_ref s f =
     (let d = desc s f in
      if \<not> fd_in_use d then s
      else case fd_private d of
        Pipe i \<Rightarrow>
          (if fd_type d = FD_PIPE_R then set_pipe s i (\<lambda>p. p\<lparr>pi_readers := pi_readers p + 1\<rparr>)
           else if fd_type d = FD_PIPE_W then set_pipe s i (\<lambda>p. p\<lparr>pi_writers := pi_writers p + 1\<rparr>) else s)
      | Pty i \<Rightarrow>
          (if fd_type d = FD_PTY_MASTER then set_pty s i (\<lambda>p. p\<lparr>pt_master_refs := pt_master_refs p + 1, pt_master_open := True\<rparr>)
           else if fd_type d = FD_PTY_SLAVE then set_pty s i (\<lambda>p. p\<lparr>pt_slave_refs := pt_slave_refs p + 1, pt_slave_open := True\<rparr>)
           else s)
      | Sock i side \<Rightarrow>
          (if fd_type d = FD_SOCKET then
             set_sock s i (\<lambda>u. u\<lparr>us_refs := us_refs u + 1, us_side_refs := (us_side_refs u)(side := us_side_refs u side + 1)\<rparr>)
           else s)
      | _ \<Rightarrow> s)"

text \<open>The shared resources that \<^verbatim>\<open>fd_copy_scalar\<close> and \<^verbatim>\<open>task_fd_table_clone\<close> retain for a copy.\<close>

definition retain_shared :: "fd_state \<Rightarrow> file_desc \<Rightarrow> fd_state" where
  "retain_shared s d =
     (let s = (case fd_shared_offset d of Some i \<Rightarrow> retain_open_offset s i | None \<Rightarrow> s);
          s = (case fd_input_state d of Some i \<Rightarrow> input_state_retain s i | None \<Rightarrow> s) in
      if fd_in_use d \<and> fd_type d = FD_EPOLL then epoll_retain_file s d else s)"

definition fd_copy_scalar :: "fd_state \<Rightarrow> slot \<Rightarrow> slot \<Rightarrow> fd_state" where
  "fd_copy_scalar s dst src =
     (let d = desc s src in retain_shared (set_desc s dst (\<lambda>_. d)) d)"

definition clone_slot :: "fd_state \<Rightarrow> slot \<Rightarrow> slot \<Rightarrow> fd_state" where
  "clone_slot s src dst =
     (let d = desc s src; s = set_desc s dst (\<lambda>_. d) in
      if \<not> fd_in_use d then s else fd_retain_endpoint_ref (retain_shared s d) dst)"

definition task_fd_table_clone :: "fd_state \<Rightarrow> nat \<Rightarrow> nat \<Rightarrow> bool \<Rightarrow> int \<times> fd_state" where
  "task_fd_table_clone s pi ci share_files =
     (let src0 = task_fd_table_id s pi; source = nat src0 in
      if \<not> valid_table src0 \<or> task_fd_table_refs s source = 0 then (-1, s)
      else if share_files then
        (0, set_table_refs (set_table_id s ci src0) source (task_fd_table_refs s source + 1))
      else case find (\<lambda>i. i \<noteq> 0 \<and> task_fd_table_refs s i = 0) [0..<MAX_FD_TABLES] of
        None \<Rightarrow> (-1, s)
      | Some destination \<Rightarrow>
        (0, fold (\<lambda>fd s. clone_slot s (source, fd) (destination, fd)) [0..<MAX_FILES]
              (set_table_refs (set_table_id s ci (int destination)) destination 1)))"

section \<open>The table of the current task\<close>

abbreviation (input) EMFILE :: int where "EMFILE \<equiv> 24"
abbreviation (input) ENOSYS :: int where "ENOSYS \<equiv> 38"

definition current_files :: "fd_state \<Rightarrow> nat \<Rightarrow> nat" where
  "current_files s ct = (if valid_table (task_fd_table_id s ct) then nat (task_fd_table_id s ct) else 0)"

definition find_free_fd :: "fd_state \<Rightarrow> nat \<Rightarrow> nat option" where
  "find_free_fd s ct = find (\<lambda>i. \<not> fd_in_use (desc s (current_files s ct, i))) [0..<MAX_FILES]"

definition open_fd :: "fd_state \<Rightarrow> nat \<Rightarrow> int \<Rightarrow> bool" where
  "open_fd s ct fd \<longleftrightarrow> \<not> (fd < 0 \<or> fd \<ge> int MAX_FILES) \<and> fd_in_use (desc s (current_files s ct, nat fd))"

text \<open>
  A negative \<^verbatim>\<open>minfd\<close>, which \<^verbatim>\<open>fcntl\<close> passes on, makes the C loop read in front of
  the table, which the model does not describe: it starts at descriptor 0 then.
\<close>

definition sys_dup_internal :: "fd_state \<Rightarrow> nat \<Rightarrow> int \<Rightarrow> int \<Rightarrow> bool \<Rightarrow> int \<times> fd_state" where
  "sys_dup_internal s ct oldfd minfd cloexec =
     (if \<not> open_fd s ct oldfd then (-9, s)
      else let t = current_files s ct in
      case find (\<lambda>i. \<not> fd_in_use (desc s (t, i))) [nat minfd..<MAX_FILES] of
        None \<Rightarrow> (- EMFILE, s)
      | Some n \<Rightarrow>
        let s = fd_copy_scalar s (t, n) (t, nat oldfd);
            s = set_desc s (t, n) (\<lambda>d. d\<lparr>fd_flags := fd_flags d AND NOT O_CLOEXEC\<rparr>);
            s = (if cloexec then set_desc s (t, n) (\<lambda>d. d\<lparr>fd_flags := fd_flags d OR O_CLOEXEC\<rparr>) else s) in
        (int n, fd_retain_endpoint_ref s (t, n)))"

definition sys_dup :: "fd_state \<Rightarrow> nat \<Rightarrow> int \<Rightarrow> int \<times> fd_state" where
  "sys_dup s ct oldfd = sys_dup_internal s ct oldfd 0 False"

definition sys_fcntl :: "fd_state \<Rightarrow> nat \<Rightarrow> int \<Rightarrow> int \<Rightarrow> u64 \<Rightarrow> int \<times> fd_state" where
  "sys_fcntl s ct fd cmd arg =
     (if \<not> open_fd s ct fd then (-9, s)
      else let f = (current_files s ct, nat fd); d = desc s f in
      if cmd = 0 then sys_dup_internal s ct fd (sint (ucast arg :: u32)) False
      else if cmd = 1 then (if fd_flags d AND O_CLOEXEC \<noteq> 0 then 1 else 0, s)
      else if cmd = 2 then
        (0, set_desc s f (\<lambda>d. d\<lparr>fd_flags := (fd_flags d AND NOT O_CLOEXEC) OR (if arg AND 1 \<noteq> 0 then O_CLOEXEC else 0)\<rparr>))
      else if cmd = 3 then (sint (fd_flags d), s)
      else if cmd = 4 then (0, set_desc s f (\<lambda>d. d\<lparr>fd_flags := (fd_flags d AND O_CLOEXEC) OR (ucast arg AND NOT O_CLOEXEC)\<rparr>))
      else if cmd = 1030 then sys_dup_internal s ct fd (sint (ucast arg :: u32)) True
      else (- ENOSYS, s))"

text \<open>
  \<^verbatim>\<open>sys_pipe\<close>: the part that picks two descriptors and a pipe, and the branch that takes them
  back when the numbers cannot be stored in user memory.
\<close>

definition pipe_open :: "fd_state \<Rightarrow> nat \<Rightarrow> (nat \<times> nat \<times> nat) option \<times> fd_state" where
  "pipe_open s ct =
     (case find_free_fd s ct of None \<Rightarrow> (None, s)
      | Some a \<Rightarrow>
        let t = current_files s ct in
        case find (\<lambda>i. \<not> fd_in_use (desc s (t, i))) [Suc a..<MAX_FILES] of None \<Rightarrow> (None, s)
        | Some b \<Rightarrow>
          case find (\<lambda>i. pi_readers (pipes s i) = 0 \<and> pi_writers (pipes s i) = 0 \<and> pi_count (pipes s i) = 0) [0..<PIPE_COUNT] of
            None \<Rightarrow> (None, s)
          | Some i \<Rightarrow>
            let s = set_pipe s i (\<lambda>p. p\<lparr>pi_rpos := 0, pi_wpos := 0, pi_count := 0, pi_readers := 1, pi_writers := 1\<rparr>);
                s = set_desc s (t, a) (\<lambda>d. d\<lparr>fd_in_use := True, fd_type := FD_PIPE_R, fd_flags := 0, fd_offset := 0, fd_private := Pipe i\<rparr>);
                s = set_desc s (t, b) (\<lambda>d. d\<lparr>fd_in_use := True, fd_type := FD_PIPE_W, fd_flags := 0, fd_offset := 0, fd_private := Pipe i\<rparr>) in
            (Some (a, b, i), s))"

definition pipe_cancel :: "fd_state \<Rightarrow> nat \<Rightarrow> nat \<Rightarrow> nat \<Rightarrow> nat \<Rightarrow> fd_state" where
  "pipe_cancel s ct a b i =
     (let t = current_files s ct; off = (\<lambda>d. d\<lparr>fd_in_use := False, fd_private := No_Data\<rparr>) in
      set_pipe (set_desc (set_desc s (t, a) off) (t, b) off) i
        (\<lambda>p. p\<lparr>pi_readers := 0, pi_writers := 0, pi_count := 0\<rparr>))"

definition sys_eventfd2 :: "fd_state \<Rightarrow> nat \<Rightarrow> u32 \<Rightarrow> u32 \<Rightarrow> int \<times> fd_state" where
  "sys_eventfd2 s ct initval flags =
     (case find_free_fd s ct of None \<Rightarrow> (- EMFILE, s)
      | Some fd \<Rightarrow>
        case find (\<lambda>i. ev_flags (eventfds s i) = 0 \<and> ev_value (eventfds s i) = 0) [0..<8] of
          None \<Rightarrow> (- EMFILE, s)
        | Some i \<Rightarrow>
          (int fd, set_desc (s\<lparr>eventfds := (eventfds s)(i := \<lparr>ev_value = ucast initval, ev_flags = flags OR 1\<rparr>)\<rparr>)
             (current_files s ct, fd)
             (\<lambda>d. d\<lparr>fd_in_use := True, fd_type := FD_EVENTFD, fd_flags := flags, fd_private := Eventfd i\<rparr>)))"

definition sys_timerfd_create :: "fd_state \<Rightarrow> nat \<Rightarrow> int \<Rightarrow> u32 \<Rightarrow> int \<times> fd_state" where
  "sys_timerfd_create s ct clockid flags =
     (if clockid \<noteq> 0 \<and> clockid \<noteq> 1 then (-22, s)
      else case find_free_fd s ct of None \<Rightarrow> (- EMFILE, s)
      | Some fd \<Rightarrow>
        case find (\<lambda>i. ti_flags (timerfds s i) = 0 \<and> ti_next_ns (timerfds s i) = 0 \<and> ti_expirations (timerfds s i) = 0) [0..<8] of
          None \<Rightarrow> (- EMFILE, s)
        | Some i \<Rightarrow>
          (int fd, set_desc (s\<lparr>timerfds := (timerfds s)(i :=
               \<lparr>ti_clockid = clockid, ti_flags = 1, ti_interval_ns = 0, ti_next_ns = 0, ti_expirations = 0\<rparr>)\<rparr>)
             (current_files s ct, fd)
             (\<lambda>d. d\<lparr>fd_in_use := True, fd_type := FD_TIMERFD, fd_flags := flags, fd_private := Timerfd i\<rparr>)))"

definition init_files :: "fd_state \<Rightarrow> fd_state" where
  "init_files s =
     (let s = s\<lparr>task_fd_table_id := (\<lambda>ti. if ti = 0 then 0 else -1), task_fd_table_refs := (\<lambda>t. if t = 0 then 1 else 0),
            task_fd_tables := (\<lambda>_ _. closed_desc), open_descs := (\<lambda>_. \<lparr>od_offset = 0, od_refs = 0, od_used = False\<rparr>)\<rparr>;
          stdio = (\<lambda>dev d. d\<lparr>fd_in_use := True, fd_type := FD_PSEUDO, fd_private := Dev dev\<rparr>) in
      set_desc (set_desc (set_desc s (0, 0) (stdio DEV_TTY)) (0, 1) (stdio DEV_CONSOLE)) (0, 2) (stdio DEV_CONSOLE))"

text \<open>The static arrays before the kernel starts.\<close>

definition zero_fds :: fd_state where
  "zero_fds = \<lparr>task_fd_tables = (\<lambda>_ _. closed_desc), task_fd_table_id = (\<lambda>_. 0), task_fd_table_refs = (\<lambda>_. 0),
     input_open_states = (\<lambda>_. \<lparr>in_used = False, in_refs = 0, in_kind = 0, in_seq = 0\<rparr>),
     open_descs = (\<lambda>_. \<lparr>od_offset = 0, od_refs = 0, od_used = False\<rparr>),
     pipes = (\<lambda>_. \<lparr>pi_data = (\<lambda>_. 0), pi_rpos = 0, pi_wpos = 0, pi_count = 0, pi_readers = 0, pi_writers = 0\<rparr>),
     pty_slots = (\<lambda>_. \<lparr>pt_master_to_slave = (\<lambda>_. 0), pt_slave_to_master = (\<lambda>_. 0), pt_m2s_r = 0, pt_m2s_w = 0, pt_m2s_count = 0,
       pt_s2m_r = 0, pt_s2m_w = 0, pt_s2m_count = 0, pt_master_open = False, pt_slave_open = False, pt_unlocked = False,
       pt_master_refs = 0, pt_slave_refs = 0, pt_rows = 0, pt_cols = 0, pt_xpixel = 0, pt_ypixel = 0, pt_termios = (\<lambda>_. 0),
       pt_canon = (\<lambda>_. 0), pt_canon_count = 0, pt_fg_pgrp = 0, pt_shell_pgrp = 0, pt_session = 0, pt_output_stopped = False, pt_index = 0\<rparr>),
     unix_sockets = (\<lambda>_. \<lparr>us_data = (\<lambda>_ _. 0), us_rpos = (\<lambda>_. 0), us_wpos = (\<lambda>_. 0), us_count = (\<lambda>_. 0), us_closed = (\<lambda>_. False),
       us_refs = 0, us_side_refs = (\<lambda>_. 0), us_listener = False, us_bound = False, us_connected = False, us_pending_count = 0,
       us_domain = 0, us_protocol = 0, us_pending_fd = (\<lambda>_. 0), us_path = [], us_netlink_pid = 0, us_netlink_groups = 0\<rparr>),
     epolls = (\<lambda>_. \<lparr>ep_used = False, ep_refs = 0, ep_w = (\<lambda>_. \<lparr>ew_used = False, ew_fd = 0, ew_events = 0, ew_data = 0\<rparr>)\<rparr>),
     eventfds = (\<lambda>_. \<lparr>ev_value = 0, ev_flags = 0\<rparr>),
     timerfds = (\<lambda>_. \<lparr>ti_clockid = 0, ti_flags = 0, ti_interval_ns = 0, ti_next_ns = 0, ti_expirations = 0\<rparr>),
     input_event_queue = (\<lambda>_. \<lparr>ie_sec = 0, ie_usec = 0, ie_type = 0, ie_code = 0, ie_value = 0\<rparr>), keyboard_event_seq = 0,
     mouse_event_queue = (\<lambda>_. \<lparr>ie_sec = 0, ie_usec = 0, ie_type = 0, ie_code = 0, ie_value = 0\<rparr>), mouse_event_seq = 0\<rparr>"

end
