(* ===== verification/Mmap.thy ===== *)
theory Mmap
  imports Task Uaccess Vfs_Files Fd
begin

text \<open>
  The memory system calls of \<^verbatim>\<open>src/src/kernel/main.c\<close>: \<^verbatim>\<open>mmap\<close>, \<^verbatim>\<open>munmap\<close>,
  \<^verbatim>\<open>mprotect\<close>, \<^verbatim>\<open>mremap\<close>, \<^verbatim>\<open>brk\<close> and the fault handler
  that fills a reserved page. The state extends the task table with the address spaces, the
  file system and the descriptor table of the current task. The boot volume reader is a
  field that holds what it returns; the two functions of \<^verbatim>\<open>main.rs\<close> that map and unmap the
  framebuffer are translated, with the wrapping arithmetic of a build without overflow checks.
  Debug output has no effect on the state and is left out.
\<close>

section \<open>State\<close>

text \<open>
  \<^verbatim>\<open>bootfs_read\<close> gives what \<^verbatim>\<open>bootfs_read_root_file\<close> stores for a
  path, an offset and a length, \<^verbatim>\<open>console_fb\<close> that \<^verbatim>\<open>C_CONSOLE_FB\<close> is set;
  \<^verbatim>\<open>task_return_ctx\<close> is the task whose context the pointer names. \<^verbatim>\<open>unix_si\<close>,
  \<^verbatim>\<open>netlink_si\<close>, \<^verbatim>\<open>pair_si\<close> and \<^verbatim>\<open>connect_si\<close> are the static
  counters of \<^verbatim>\<open>sys_socket\<close> (one for each domain), \<^verbatim>\<open>sys_socketpair\<close> and
  \<^verbatim>\<open>sys_connect\<close>.
\<close>

record kernel = sched +
  vm :: vmm
  vfs_state :: vfs
  fds :: fd_state
  heap_base :: u64
  heap_end :: u64
  syscall_user_cr3 :: u64
  msr_fs_base :: u64
  msr_gs_base :: u64
  framebuffer_users :: int
  framebuffer_console_active :: bool
  bootfs_read :: "string \<Rightarrow> u64 \<Rightarrow> nat \<Rightarrow> u8 list"
  console_fb :: bool
  key_head :: u8
  key_tail :: u8
  key_queue :: "nat \<Rightarrow> u8"
  console_fg_pgrp :: int
  task_switch_pending :: bool
  task_switch_target :: nat
  task_return_ctx :: "nat option"
  next_pid :: int
  user_exit_pending :: bool
  user_exit_status :: int
  task_switch_deferred :: bool
  unix_si :: nat
  netlink_si :: nat
  pair_si :: nat
  connect_si :: nat
  user_cr3 :: u64
  current_exe :: string
  user_exec_pending :: bool
  syscall_user_rip :: u64
  syscall_user_rsp :: u64
  syscall_user_rflags :: u64
  syscall_saved_rax :: u64

text \<open>
  \<^verbatim>\<open>files\<close> is the descriptor table of the current task; the entries from
  \<^verbatim>\<open>MAX_FILES\<close> on stand for the memory behind the array, which the C code reads when it
  does not check the index.
\<close>

definition files :: "kernel \<Rightarrow> int \<Rightarrow> file_desc" where
  "files k fd = desc (fds k) (current_files (fds k) (current_task k), nat fd)"

definition on_vm :: "kernel \<Rightarrow> (vmm \<Rightarrow> vmm) \<Rightarrow> kernel" where
  "on_vm k f = k\<lparr>vm := f (vm k)\<rparr>"

abbreviation (input) EBADF :: int where "EBADF \<equiv> 9"
abbreviation (input) EIO :: int where "EIO \<equiv> 5"
abbreviation (input) EINVAL :: int where "EINVAL \<equiv> 22"
abbreviation (input) EFAULT :: int where "EFAULT \<equiv> 14"
abbreviation (input) ENOMEM :: int where "ENOMEM \<equiv> 12"
abbreviation (input) EACCES_K :: int where "EACCES_K \<equiv> 13"

text \<open>The framebuffer functions of \<^verbatim>\<open>main.rs\<close>.\<close>

fun fb_unmap_pages :: "vmm \<Rightarrow> u64 list \<Rightarrow> bool \<times> vmm" where
  "fb_unmap_pages v [] = (True, v)"
| "fb_unmap_pages v (va # vas) =
     (let (r, _, v) = vmm_user_unmap v va in if r \<noteq> 0 then (False, v) else fb_unmap_pages v vas)"

definition fb_run :: "u64 \<Rightarrow> u64 \<Rightarrow> u64 list" where
  "fb_run start len = map (\<lambda>i. start + of_nat i * PAGE_SIZE) [0..<unat (len div PAGE_SIZE)]"

definition graphics_fb_unmap :: "vmm \<Rightarrow> u64 \<Rightarrow> u64 \<Rightarrow> int \<times> vmm" where
  "graphics_fb_unmap v virt sz =
     (if virt = 0 \<or> virt AND (PAGE_SIZE - 1) \<noteq> 0 \<or> sz = 0 then (-22, v)
      else let phys_offset = fb_phys v AND (PAGE_SIZE - 1);
               fb_pages = (fb_size v + phys_offset + PAGE_SIZE - 1) AND PAGE_MASK;
               requested = (sz + PAGE_SIZE - 1) AND PAGE_MASK in
      if requested = 0 \<or> requested > fb_pages then (-22, v)
      else let (r, v) = fb_unmap_pages v (fb_run virt requested) in
      if \<not> r then (-14, v) else (0, vmm_user_flush_tlb v))"

text \<open>The mapping loop; \<open>mapped\<close> are the pages that are undone on failure.\<close>

fun fb_map_pages :: "vmm \<Rightarrow> u64 list \<Rightarrow> (u64 \<times> u64) list \<Rightarrow> bool \<times> vmm" where
  "fb_map_pages v mapped [] = (True, v)"
| "fb_map_pages v mapped ((va, pa) # ps) =
     (let (r, v) = vmm_user_map v va pa (PTE_W OR PTE_PWT OR PTE_PCD OR PTE_NX) in
      if r \<noteq> 0 then (False, fold (\<lambda>w v. snd (snd (vmm_user_unmap v w))) mapped v)
      else fb_map_pages v (mapped @ [va]) ps)"

definition graphics_fb_map :: "vmm \<Rightarrow> bool \<Rightarrow> u64 \<Rightarrow> u64 \<Rightarrow> u64 \<Rightarrow> int \<times> vmm" where
  "graphics_fb_map v console virt off len =
     (if \<not> console \<or> fb_size v = 0 \<or> virt = 0 \<or> virt AND (PAGE_SIZE - 1) \<noteq> 0 \<or> off AND (PAGE_SIZE - 1) \<noteq> 0 \<or>
         len = 0 \<or> off \<ge> fb_size v then (-22, v)
      else let base = fb_phys v AND PAGE_MASK;
               phys = (if off > UINT64_MAX - base then UINT64_MAX else base + off);
               phys_offset = fb_phys v AND (PAGE_SIZE - 1) in
      if len > UINT64_MAX - (PAGE_SIZE - 1) then (-22, v)
      else let sz = (len + (PAGE_SIZE - 1)) AND PAGE_MASK in
      if fb_size v - off > UINT64_MAX - phys_offset then (-22, v)
      else let remaining = phys_offset + (fb_size v - off) in
      if remaining > UINT64_MAX - (PAGE_SIZE - 1) then (-22, v)
      else let max_map_len = (remaining + (PAGE_SIZE - 1)) AND PAGE_MASK in
      if sz = 0 \<or> sz > max_map_len then (-22, v)
      else if virt \<ge> USER_LIMIT \<or> sz > USER_LIMIT - virt then (-22, v)
      else let (r, v) = fb_map_pages v [] (zip (fb_run virt sz) (fb_run phys sz)) in
      if r then (uint sz, vmm_user_flush_tlb v) else (-12, vmm_user_flush_tlb v))"

abbreviation (input) PROT_READ :: u64 where "PROT_READ \<equiv> 1"
abbreviation (input) PROT_WRITE :: u64 where "PROT_WRITE \<equiv> 2"
abbreviation (input) PROT_EXEC :: u64 where "PROT_EXEC \<equiv> 4"
abbreviation (input) MAP_SHARED :: u64 where "MAP_SHARED \<equiv> 0x1"
abbreviation (input) MAP_PRIVATE :: u64 where "MAP_PRIVATE \<equiv> 0x2"
abbreviation (input) MAP_FIXED :: u64 where "MAP_FIXED \<equiv> 0x10"
abbreviation (input) MAP_ANON :: u64 where "MAP_ANON \<equiv> 0x20"

section \<open>Ranges\<close>

definition page_up :: "u64 \<Rightarrow> u64" where
  "page_up x = (x + PAGE_SIZE - 1) AND PAGE_MASK"

definition user_mmap_range_ok :: "u64 \<Rightarrow> u64 \<Rightarrow> bool" where
  "user_mmap_range_ok addr len \<longleftrightarrow>
     \<not> (len = 0 \<or> addr < USER_MMAP_MIN \<or> addr \<ge> USER_LIMIT) \<and> len \<le> USER_LIMIT - addr"

definition user_any_mapping_range_ok :: "u64 \<Rightarrow> u64 \<Rightarrow> bool" where
  "user_any_mapping_range_ok addr len \<longleftrightarrow> \<not> (len = 0 \<or> addr \<ge> USER_LIMIT) \<and> len \<le> USER_LIMIT - addr"

definition user_addr_range_ok :: "u64 \<Rightarrow> u64 \<Rightarrow> bool" where
  "user_addr_range_ok addr len \<longleftrightarrow> \<not> (len = 0 \<or> addr \<ge> USER_LIMIT) \<and> \<not> len > USER_LIMIT - addr"

definition user_prot_wx :: "u64 \<Rightarrow> bool" where
  "user_prot_wx prot \<longleftrightarrow> prot AND 2 \<noteq> 0 \<and> prot AND 4 \<noteq> 0"

definition prot_to_pte :: "u64 \<Rightarrow> u64" where
  "prot_to_pte prot = (if prot AND PROT_WRITE \<noteq> 0 then PTE_W else 0) OR (if prot AND PROT_EXEC = 0 then PTE_NX else 0)"

text \<open>The loop over the pages from \<open>va\<close> to \<open>lst\<close>: none of them is mapped.\<close>

function free_loop :: "vmm \<Rightarrow> u64 \<Rightarrow> u64 \<Rightarrow> bool" where
  "free_loop v va lst =
     (case vmm_user_translate v va of Some _ \<Rightarrow> False
      | None \<Rightarrow>
        if va = lst then True
        else if va > USER_LIMIT - PAGE_SIZE then False
        else free_loop v (va + PAGE_SIZE) lst)"
  by pat_completeness auto
termination
proof (relation "measure (\<lambda>(v, va, lst). 2 ^ 64 - unat va)", goal_cases)
  case (2 v va lst)
  have "\<not> va + 0x1000 < va"
    using 2(3) by (auto simp: word_less_nat_alt unat_word_ariths)
  then show ?case using page_step_measure [of va] by simp
qed simp

declare free_loop.simps [simp del]

definition user_mmap_range_free :: "vmm \<Rightarrow> u64 \<Rightarrow> u64 \<Rightarrow> bool" where
  "user_mmap_range_free v addr len \<longleftrightarrow> user_mmap_range_ok addr len \<and>
     free_loop v (addr AND PAGE_MASK) ((addr + len - 1) AND PAGE_MASK)"

definition user_mapping_range_free_any :: "vmm \<Rightarrow> u64 \<Rightarrow> u64 \<Rightarrow> bool" where
  "user_mapping_range_free_any v addr len \<longleftrightarrow> \<not> (len = 0 \<or> addr \<ge> USER_LIMIT \<or> len > USER_LIMIT - addr) \<and>
     free_loop v (addr AND PAGE_MASK) ((addr + len - 1) AND PAGE_MASK)"

text \<open>
  The search for the first mapped page of a range, at most \<open>n\<close> pages on: all addresses that
  \<^verbatim>\<open>user_mmap_find_gap\<close> looks at are page aligned, so that the C loop reaches its
  \<^verbatim>\<open>last\<close> page after \<open>(last - base) / PAGE_SIZE\<close> steps.
\<close>

fun probe_loop :: "vmm \<Rightarrow> u64 \<Rightarrow> nat \<Rightarrow> u64" where
  "probe_loop v probe 0 = probe"
| "probe_loop v probe (Suc n) =
     (if vmm_user_translate v probe \<noteq> None then probe else probe_loop v (probe + PAGE_SIZE) n)"

lemma probe_loop_bounds:
  "unat probe + 4096 * n < 2 ^ 64 \<Longrightarrow>
     unat probe \<le> unat (probe_loop v probe n) \<and> unat (probe_loop v probe n) \<le> unat probe + 4096 * n"
proof (induction n arbitrary: probe)
  case (Suc n)
  have u: "unat (probe + 0x1000) = unat probe + 4096"
    using unat_add_lem [of probe "0x1000"] Suc.prems by simp
  show ?case using Suc.IH [of "probe + 0x1000"] Suc.prems by (simp add: u)
qed simp

definition gap_base :: "u64 \<Rightarrow> u64" where
  "gap_base base = (if base < USER_MMAP_MIN then USER_MMAP_MIN else base)"

definition last_page :: "u64 \<Rightarrow> u64 \<Rightarrow> u64" where
  "last_page base sz = (base + sz - 1) AND PAGE_MASK"

lemma last_page_ge:
  assumes "user_mmap_range_ok base sz" "page_aligned base"
  shows "base \<le> last_page base sz" "unat (last_page base sz) < unat base + unat sz"
    "unat base + 4096 * (unat (last_page base sz - base) div 4096) = unat (last_page base sz)"
proof -
  have "unat sz \<noteq> 0" using assms(1) by (simp add: user_mmap_range_ok_def unat_eq_zero)
  then have s: "0 < unat sz" by simp
  have b: "unat base + unat sz \<le> 140737488355328"
    using assms(1) by (auto simp: user_mmap_range_ok_def word_le_nat_alt word_less_nat_alt unat_sub)
  have u: "unat (base + sz - 1) = unat base + unat sz - 1"
    using s b unat_add_lem [of base sz] unat_sub [of 1 "base + sz"] by (simp add: word_le_nat_alt)
  have l: "unat (last_page base sz) = unat base + unat sz - 1 - (unat base + unat sz - 1) mod 4096"
    unfolding last_page_def by (simp only: unat_and_not_4095 u)
  obtain a where a: "unat base = 4096 * a" using assms(2) by (auto simp: page_aligned_iff_dvd elim: dvdE)
  have ge: "unat base \<le> unat (last_page base sz)"
  proof -
    have "4096 * a div 4096 \<le> (unat base + unat sz - 1) div 4096" using s a by (intro div_le_mono) simp
    then have "4096 * a \<le> 4096 * ((unat base + unat sz - 1) div 4096)" by simp
    then show ?thesis unfolding l minus_mod_eq_mult_div using a by simp
  qed
  then show "base \<le> last_page base sz" by (simp add: word_le_nat_alt)
  show "unat (last_page base sz) < unat base + unat sz" using l s by simp
  have "4096 dvd unat (last_page base sz)" unfolding l minus_mod_eq_mult_div by simp
  then have "4096 dvd unat (last_page base sz - base)" using ge a by (simp add: unat_sub word_le_nat_alt)
  then show "unat base + 4096 * (unat (last_page base sz - base) div 4096) = unat (last_page base sz)"
    using ge by (simp add: unat_sub word_le_nat_alt)
qed

text \<open>
  The outer loop. \<^verbatim>\<open>continue\<close> after the heap check is the first recursive call.
  \<open>base\<close> is rounded to a page on entry and stays so, so that the first test never fails.
\<close>

function gap_loop :: "vmm \<Rightarrow> u64 \<Rightarrow> u64 \<Rightarrow> u64 \<Rightarrow> u64 option" where
  "gap_loop v sz hend base0 =
     (if \<not> page_aligned base0 then None
      else let base = gap_base base0 in
      if \<not> user_mmap_range_ok base sz then None
      else let hp = page_up hend in
      if hend > USER_HEAP_BASE \<and> base < hp \<and> base + sz > USER_HEAP_BASE then gap_loop v sz hend hp
      else if user_mmap_range_free v base sz then Some base
      else let probe = probe_loop v base (unat (last_page base sz - base) div 4096) in
      if probe > USER_LIMIT - PAGE_SIZE then None
      else gap_loop v sz hend (probe + PAGE_SIZE))"
  by pat_completeness auto
termination
proof (relation "measure (\<lambda>(v, sz, hend, base). 2 ^ 64 - unat base)", goal_cases)
  case (2 v sz hend base0 base hp)
  then have "unat base0 < unat hp" by (auto simp: gap_base_def word_less_nat_alt split: if_splits)
  then show ?case using unat_lt_64 [of hp] by simp
next
  case (3 v sz hend base0 base hp probe)
  have al: "page_aligned base" using 3 by (auto simp: gap_base_def page_aligned_def)
  have ok: "user_mmap_range_ok base sz" using 3 by simp
  note L = last_page_ge [OF ok al]
  have "unat base + 4096 * (unat (last_page base sz - base) div 4096) < 2 ^ 64"
    unfolding L(3) using unat_lt_64 by simp
  from probe_loop_bounds [OF this, of v] have g: "unat base \<le> unat probe" using 3 by simp
  have "unat probe \<le> 140737488351232" using 3 by (simp add: word_less_nat_alt not_less)
  then have "unat (probe + 0x1000) = unat probe + 4096" using unat_add_lem [of probe "0x1000"] by simp
  moreover have "unat base0 \<le> unat base" using 3 by (auto simp: gap_base_def word_less_nat_alt split: if_splits)
  ultimately show ?case using g unat_lt_64 [of "probe + 0x1000"] by simp
qed simp

declare gap_loop.simps [simp del]

definition user_mmap_find_gap :: "vmm \<Rightarrow> u64 \<Rightarrow> u64 \<Rightarrow> u64 \<Rightarrow> u64 option" where
  "user_mmap_find_gap v start sz hend = (if sz = 0 then None else gap_loop v sz hend (page_up start))"

section \<open>Pages of a range\<close>

text \<open>
  The addresses that \<^verbatim>\<open>for (va = base; va < base + size; va += PAGE_SIZE)\<close> visits, for a
  size that is a multiple of the page size and a range below \<^verbatim>\<open>USER_LIMIT\<close>.
\<close>

definition pages :: "u64 \<Rightarrow> u64 \<Rightarrow> u64 list" where
  "pages base sz = map (\<lambda>i. base + of_nat i * PAGE_SIZE) [0..<unat sz div 4096]"

text \<open>\<^verbatim>\<open>if (vmm_user_unmap(va, &p) == 0 && p) pmm_free_page(p)\<close>, and the loop around it.\<close>

definition drop_page :: "vmm \<Rightarrow> u64 \<Rightarrow> vmm" where
  "drop_page v va =
     (case vmm_user_unmap v va of (r, p, v) \<Rightarrow>
        if r = 0 then (case p of Some p \<Rightarrow> if p \<noteq> 0 then free_page v p else v | None \<Rightarrow> v) else v)"

definition drop_pages :: "vmm \<Rightarrow> u64 list \<Rightarrow> vmm" where
  "drop_pages v vas = fold (\<lambda>va v. drop_page v va) vas v"

section \<open>Files\<close>

definition fd_uses_bootfs :: "vfs \<Rightarrow> file_desc \<Rightarrow> bool" where
  "fd_uses_bootfs fs f = (case fd_vnode f of Some n \<Rightarrow> vfs_is_boot_file fs (Some n) | None \<Rightarrow> fd_boot_path f \<noteq> [])"

definition fd_bootfs_path :: "vfs \<Rightarrow> file_desc \<Rightarrow> string option" where
  "fd_bootfs_path fs f =
     (let own = (if fd_boot_path f \<noteq> [] then Some (fd_boot_path f) else None) in
      if fd_vnode f \<noteq> None \<and> vfs_is_boot_file fs (fd_vnode f) then
        (case vfs_boot_path fs (fd_vnode f) of Some p \<Rightarrow> if p \<noteq> [] then Some p else own | None \<Rightarrow> own)
      else own)"

text \<open>The bytes read, or the error.\<close>

definition kernel_file_read_at :: "kernel \<Rightarrow> int \<Rightarrow> u64 \<Rightarrow> nat \<Rightarrow> int + u8 list" where
  "kernel_file_read_at k fd off len =
     (if fd < 0 \<or> fd \<ge> int MAX_FILES \<or> \<not> fd_in_use (files k fd) then Inl (- EBADF)
      else let f = files k fd in
      if fd_type f \<noteq> FD_FILE then Inl (- EBADF)
      else if off \<ge> fd_size f \<or> len = 0 then Inr []
      else let want = min len (unat (fd_size f - off)) in
      if fd_uses_bootfs (vfs_state k) f then
        (case fd_bootfs_path (vfs_state k) f of None \<Rightarrow> Inl (- EIO) | Some bp \<Rightarrow> Inr (bootfs_read k bp off want))
      else if vfs_file_is_regular (vfs_state k) (fd_vnode f) then
        (let size = vfs_file_size (vfs_state k) (fd_vnode f) in
         if off \<ge> size then Inr []
         else let want = min want (unat (size - off)) in
           Inr (map (\<lambda>i. data_byte (vfs_state k) (vfs_file_data (vfs_state k) (fd_vnode f)) (unat off + i)) [0..<want]))
      else case fd_data f of
        Some bs \<Rightarrow> Inr (map (\<lambda>i. bs ! (unat off + i)) [0..<want])
      | None \<Rightarrow> Inl (- EIO))"

section \<open>\<^verbatim>\<open>mmap\<close>\<close>

text \<open>
  The bytes of the file in the page at \<open>va\<close>: nothing past the end of the file, and an error
  when the read is short.
\<close>

definition page_contents :: "kernel \<Rightarrow> int \<Rightarrow> u64 \<Rightarrow> (u8 list) option" where
  "page_contents k fd file_off =
     (let size = fd_size (files k fd);
          page_bytes = (if file_off \<ge> size then 0 else min 4096 (unat (size - file_off))) in
      if page_bytes = 0 then Some []
      else case kernel_file_read_at k fd file_off page_bytes of
        Inl _ \<Rightarrow> None
      | Inr bs \<Rightarrow> if length bs \<noteq> page_bytes then None else Some bs)"

text \<open>The result of one pass: the next state, or the error after which the caller undoes the call.\<close>

definition mmap_page :: "kernel \<Rightarrow> u64 \<Rightarrow> u64 \<Rightarrow> int \<Rightarrow> u64 \<Rightarrow> u64 \<Rightarrow> u64 \<Rightarrow> int option \<times> kernel" where
  "mmap_page k prot flags fd off base va =
     (let (phys, v) = alloc_page (vm k) in
      if phys = 0 then (Some (- ENOMEM), k\<lparr>vm := v\<rparr>)
      else if pmm_phys_to_virt (pool v) phys = None then (Some (- ENOMEM), k\<lparr>vm := free_page v phys\<rparr>)
      else
        let v = (if flags AND MAP_FIXED \<noteq> 0 then drop_page v va else v);
            v = zero_table v phys in
        (case (if flags AND MAP_ANON = 0 \<and> fd \<ge> 0 then page_contents k fd (off + (va - base)) else Some []) of
           None \<Rightarrow> (Some (- EIO), k\<lparr>vm := free_page v phys\<rparr>)
         | Some bs \<Rightarrow>
           let v = write_frame_bytes v phys 0 bs;
               (r, v) = vmm_user_map v va phys (prot_to_pte prot) in
           if r \<noteq> 0 then (Some (- ENOMEM), k\<lparr>vm := free_page v phys\<rparr>) else (None, k\<lparr>vm := v\<rparr>)))"

text \<open>\<open>mapped\<close> is the list of the pages mapped so far, which an error unmaps again.\<close>

fun mmap_loop :: "kernel \<Rightarrow> u64 \<Rightarrow> u64 \<Rightarrow> int \<Rightarrow> u64 \<Rightarrow> u64 \<Rightarrow> u64 list \<Rightarrow> u64 list \<Rightarrow> int option \<times> kernel" where
  "mmap_loop k prot flags fd off base mapped [] = (None, k)"
| "mmap_loop k prot flags fd off base mapped (va # vas) =
     (case mmap_page k prot flags fd off base va of
        (Some e, k) \<Rightarrow> (Some e, on_vm k (\<lambda>v. drop_pages v mapped))
      | (None, k) \<Rightarrow> mmap_loop k prot flags fd off base (mapped @ [va]) vas)"

definition is_fb_fd :: "kernel \<Rightarrow> int \<Rightarrow> bool" where
  "is_fb_fd k fd \<longleftrightarrow> fd_type (files k fd) = FD_PSEUDO \<and> fd_private (files k fd) = Dev DEV_FB"

definition mmap_fb :: "kernel \<Rightarrow> u64 \<Rightarrow> u64 \<Rightarrow> u64 \<Rightarrow> u64 \<Rightarrow> u64 \<Rightarrow> u64 \<Rightarrow> int \<times> kernel" where
  "mmap_fb k cursor addr len prot flags off =
     (let t = current_task k;
          fbsize = fb_size (vm k);
          maplen = page_up len;
          fb_phys_offset = fb_phys (vm k) AND (PAGE_SIZE - 1);
          fb_remaining = (if off < fbsize then fb_phys_offset + fbsize - off else 0);
          fb_map_limit = page_up fb_remaining in
      if off AND (PAGE_SIZE - 1) \<noteq> 0 \<or> prot AND PROT_EXEC \<noteq> 0 \<or> flags AND (MAP_SHARED OR MAP_PRIVATE) = 0 \<or>
         fbsize = 0 \<or> off \<ge> fbsize \<or> maplen = 0 \<or> maplen > fb_map_limit then (- EINVAL, k)
      else let base = page_up (if addr \<noteq> 0 then addr else cursor) in
      if \<not> user_mmap_range_ok base maplen then (- ENOMEM, k)
      else let (mr, v) = graphics_fb_map (vm k) (console_fb k) base off len; k = k\<lparr>vm := v\<rparr> in
      if mr < 0 then (- EIO, k)
      else
        let k = k\<lparr>framebuffer_users := framebuffer_users k + 1, framebuffer_console_active := False\<rparr>;
            k = set_task k t (\<lambda>x. x\<lparr>tk_fb_map_count := tk_fb_map_count x + 1\<rparr>);
            k = (if base + maplen > cursor then task_shared_mmap_cursor_advance k t (base + maplen) else k) in
        (uint base, k))"

text \<open>The address of a mapping that is not the framebuffer, or the error.\<close>

definition mmap_base :: "kernel \<Rightarrow> u64 \<Rightarrow> u64 \<Rightarrow> u64 \<Rightarrow> u64 \<Rightarrow> int + u64" where
  "mmap_base k cursor addr sz flags =
     (if flags AND MAP_FIXED \<noteq> 0 then
        (if \<not> user_any_mapping_range_ok addr sz then Inl (- EINVAL) else Inr addr)
      else if cursor > UINT64_MAX - (PAGE_SIZE - 1) then Inl (- ENOMEM)
      else case user_mmap_find_gap (vm k) cursor sz (tk_heap_end (cur k)) of
        None \<Rightarrow> Inl (- ENOMEM)
      | Some base \<Rightarrow> Inr base)"

definition advance_cursor :: "kernel \<Rightarrow> u64 \<Rightarrow> u64 \<Rightarrow> kernel" where
  "advance_cursor k cursor nxt = (if nxt > cursor then task_shared_mmap_cursor_advance k (current_task k) nxt else k)"

definition mmap_map :: "kernel \<Rightarrow> u64 \<Rightarrow> u64 \<Rightarrow> u64 \<Rightarrow> u64 \<Rightarrow> u64 \<Rightarrow> int \<Rightarrow> u64 \<Rightarrow> int \<times> kernel" where
  "mmap_map k cursor base sz prot flags fd off =
     (let t = current_task k in
      if flags AND MAP_ANON \<noteq> 0 \<and> prot = 0 then
        let k = (if flags AND MAP_FIXED \<noteq> 0 then on_vm k (\<lambda>v. drop_pages v (pages base sz)) else k);
            (lrc, k) = task_lazy_mmap_transform_shared k t base (base + sz) LAZY_MMAP_REPLACE prot in
        if lrc < 0 then (lrc, k)
        else (uint base, on_vm (advance_cursor k cursor (base + sz)) vmm_user_flush_tlb)
      else
        let (lrc, k) = (if flags AND MAP_FIXED \<noteq> 0
              then task_lazy_mmap_transform_shared k t base (base + sz) LAZY_MMAP_REMOVE 0 else (0, k)) in
        if lrc < 0 then (- ENOMEM, k)
        else case mmap_loop k prot flags fd off base [] (pages base sz) of
          (Some e, k) \<Rightarrow> (e, k)
        | (None, k) \<Rightarrow> (uint base, on_vm (advance_cursor k cursor (base + sz)) vmm_user_flush_tlb))"

text \<open>
  The head of every call: the root task exists, and the address space of the current task is made
  the one that the calls of \<^verbatim>\<open>vmm.c\<close> work on.
\<close>

definition enter_mm :: "kernel \<Rightarrow> bool \<times> kernel" where
  "enter_mm k =
     (let k = task_init_root k (root_node (vfs_state k)); cr3 = cx_cr3 (tk_ctx (cur k)) in
      if cr3 = 0 then (False, k)
      else let (r, v) = vmm_user_activate (vm k) cr3 in (r = 0, k\<lparr>vm := v\<rparr>))"

definition sys_mmap :: "kernel \<Rightarrow> u64 \<Rightarrow> u64 \<Rightarrow> u64 \<Rightarrow> u64 \<Rightarrow> int \<Rightarrow> u64 \<Rightarrow> int \<times> kernel" where
  "sys_mmap k addr len prot flags fd off =
     (case enter_mm k of
        (False, k) \<Rightarrow> (- EFAULT, k)
      | (True, k) \<Rightarrow>
        let (cursor, k) = task_shared_mmap_cursor k (current_task k);
            cursor = (if cursor < USER_MMAP_MIN then USER_MMAP_MIN else cursor);
            anon = (flags AND MAP_ANON \<noteq> 0) in
        if len = 0 \<or> len > 0x40000000 then (- EINVAL, k)
        else if off AND (PAGE_SIZE - 1) \<noteq> 0 then (- EINVAL, k)
        else if user_prot_wx prot then (- EACCES_K, k)
        else if \<not> anon \<and> fd < 0 then (- EBADF, k)
        else if flags AND MAP_FIXED \<noteq> 0 \<and> addr AND (PAGE_SIZE - 1) \<noteq> 0 then (- EINVAL, k)
        else if \<not> anon \<and> fd \<ge> 0 \<and> fd < int MAX_FILES \<and>
          (\<not> fd_in_use (files k fd) \<or> fd_type (files k fd) \<noteq> FD_FILE \<and> \<not> is_fb_fd k fd) then (- EBADF, k)
        else if \<not> anon \<and> fd \<ge> 0 \<and> fd < int MAX_FILES \<and> fd_in_use (files k fd) \<and> is_fb_fd k fd then
          mmap_fb k cursor addr len prot flags off
        else if len > UINT64_MAX - (PAGE_SIZE - 1) then (- EINVAL, k)
        else let sz = page_up len in
        if sz = 0 \<or> sz > USER_LIMIT - USER_MMAP_MIN then (- ENOMEM, k)
        else case mmap_base k cursor addr sz flags of
          Inl e \<Rightarrow> (e, k)
        | Inr base \<Rightarrow> mmap_map k cursor base sz prot flags fd off)"

section \<open>\<^verbatim>\<open>munmap\<close> and \<^verbatim>\<open>mprotect\<close>\<close>

definition contains_base :: "u64 \<Rightarrow> u64 \<Rightarrow> u64 \<Rightarrow> bool" where
  "contains_base b addr sz \<longleftrightarrow> b \<noteq> 0 \<and> b \<ge> addr \<and> b - addr < sz"

definition in_framebuffer :: "vmm \<Rightarrow> u64 \<Rightarrow> bool" where
  "in_framebuffer v addr \<longleftrightarrow>
     (let fbphys = fb_phys v AND PAGE_MASK;
          fb_end = fbphys + page_up (fb_size v + (fb_phys v AND (PAGE_SIZE - 1))) in
      fb_size v \<noteq> 0 \<and> (case vmm_user_translate v addr of None \<Rightarrow> False
        | Some (phys, _) \<Rightarrow> phys \<ge> fbphys \<and> phys < fb_end))"

definition sys_munmap :: "kernel \<Rightarrow> u64 \<Rightarrow> u64 \<Rightarrow> int \<times> kernel" where
  "sys_munmap k addr len =
     (case enter_mm k of
        (False, k) \<Rightarrow> (- EFAULT, k)
      | (True, k) \<Rightarrow>
        let t = current_task k; sz = page_up len in
        if addr AND (PAGE_SIZE - 1) \<noteq> 0 \<or> len = 0 then (- EINVAL, k)
        else if contains_base (msr_fs_base k) addr sz \<or> contains_base (msr_gs_base k) addr sz then (- EINVAL, k)
        else if sz = 0 \<or> \<not> user_addr_range_ok addr sz then (- EINVAL, k)
        else if \<not> user_any_mapping_range_ok addr sz then (- EINVAL, k)
        else if in_framebuffer (vm k) addr then
          let (ur, v) = graphics_fb_unmap (vm k) addr sz; k = k\<lparr>vm := v\<rparr> in
          (ur, if ur = 0 \<and> tk_fb_map_count (tasks k t) > 0 then
                 set_task (k\<lparr>framebuffer_users := (if framebuffer_users k > 0 then framebuffer_users k - 1 else framebuffer_users k)\<rparr>)
                   t (\<lambda>x. x\<lparr>tk_fb_map_count := tk_fb_map_count x - 1\<rparr>)
               else k)
        else let (lrc, k) = task_lazy_mmap_transform_shared k t addr (addr + sz) LAZY_MMAP_REMOVE 0 in
        if lrc < 0 then (- ENOMEM, k)
        else (0, on_vm k (\<lambda>v. vmm_user_flush_tlb (drop_pages v (pages addr sz)))))"

definition protect_page :: "kernel \<Rightarrow> u64 \<Rightarrow> u64 \<Rightarrow> int option \<times> kernel" where
  "protect_page k prot va =
     (case vmm_user_translate (vm k) va of
        None \<Rightarrow>
          if task_lazy_mmap_protection (cur k) va = None then (Some (- EFAULT), k)
          else if prot = 0 then (None, k)
          else let (phys, v) = alloc_page (vm k) in
          if phys = 0 then (Some (- ENOMEM), k\<lparr>vm := v\<rparr>)
          else if pmm_phys_to_virt (pool v) phys = None then (Some (- ENOMEM), k\<lparr>vm := free_page v phys\<rparr>)
          else let (r, v) = vmm_user_map (zero_table v phys) va phys (prot_to_pte prot) in
          if r \<noteq> 0 then (Some (- ENOMEM), k\<lparr>vm := free_page v phys\<rparr>) else (None, k\<lparr>vm := v\<rparr>)
      | Some _ \<Rightarrow>
          if prot = 0 then (None, on_vm k (\<lambda>v. drop_page v va))
          else let (r, v) = vmm_user_protect (vm k) va (prot_to_pte prot) in
          if r \<noteq> 0 then (Some (- EFAULT), k\<lparr>vm := v\<rparr>) else (None, k\<lparr>vm := v\<rparr>))"

fun protect_loop :: "kernel \<Rightarrow> u64 \<Rightarrow> u64 list \<Rightarrow> int option \<times> kernel" where
  "protect_loop k prot [] = (None, k)"
| "protect_loop k prot (va # vas) =
     (case protect_page k prot va of (Some e, k) \<Rightarrow> (Some e, k) | (None, k) \<Rightarrow> protect_loop k prot vas)"

definition sys_mprotect :: "kernel \<Rightarrow> u64 \<Rightarrow> u64 \<Rightarrow> u64 \<Rightarrow> int \<times> kernel" where
  "sys_mprotect k addr len prot =
     (case enter_mm k of
        (False, k) \<Rightarrow> (- EFAULT, k)
      | (True, k) \<Rightarrow>
        if addr AND (PAGE_SIZE - 1) \<noteq> 0 \<or> len = 0 then (- EINVAL, k)
        else if user_prot_wx prot then (- EACCES_K, k)
        else let sz = page_up len in
        if sz = 0 \<or> \<not> user_addr_range_ok addr sz then (- EINVAL, k)
        else if \<not> user_any_mapping_range_ok addr sz then (- EINVAL, k)
        else let (lrc, k) = task_lazy_mmap_transform_shared k (current_task k) addr (addr + sz) LAZY_MMAP_SET_PROT prot in
        if lrc < 0 then (- ENOMEM, k)
        else case protect_loop k prot (pages addr sz) of
          (Some e, k) \<Rightarrow> (e, k)
        | (None, k) \<Rightarrow> (0, on_vm k vmm_user_flush_tlb))"

section \<open>\<^verbatim>\<open>mremap\<close>\<close>

abbreviation (input) MREMAP_MAYMOVE :: u64 where "MREMAP_MAYMOVE \<equiv> 1"
abbreviation (input) MREMAP_FIXED :: u64 where "MREMAP_FIXED \<equiv> 2"
abbreviation (input) MREMAP_DONTUNMAP :: u64 where "MREMAP_DONTUNMAP \<equiv> 4"

definition mremap_pte_to_prot :: "u64 \<Rightarrow> u64" where
  "mremap_pte_to_prot pte = PROT_READ OR (if pte AND PTE_W \<noteq> 0 then PROT_WRITE else 0)
     OR (if pte AND PTE_NX = 0 then PROT_EXEC else 0)"

text \<open>Growing in place: zeroed pages behind the mapping, all of them or none.\<close>

definition grow_page :: "vmm \<Rightarrow> u64 \<Rightarrow> u64 \<Rightarrow> bool \<times> vmm" where
  "grow_page v prot va =
     (let (phys, v) = alloc_page v in
      if phys = 0 then (False, v)
      else if pmm_phys_to_virt (pool v) phys = None then (False, free_page v phys)
      else let (r, v) = vmm_user_map (zero_table v phys) va phys (prot_to_pte prot) in
      if r \<noteq> 0 then (False, free_page v phys) else (True, v))"

fun grow_loop :: "vmm \<Rightarrow> u64 \<Rightarrow> u64 list \<Rightarrow> u64 list \<Rightarrow> bool \<times> vmm" where
  "grow_loop v prot mapped [] = (True, v)"
| "grow_loop v prot mapped (va # vas) =
     (case grow_page v prot va of
        (False, v) \<Rightarrow> (False, drop_pages v mapped)
      | (True, v) \<Rightarrow> grow_loop v prot (mapped @ [va]) vas)"

text \<open>The copy in blocks of 256 bytes.\<close>

function mremap_copy :: "kernel \<Rightarrow> u64 \<Rightarrow> u64 \<Rightarrow> nat \<Rightarrow> nat \<Rightarrow> bool \<times> kernel" where
  "mremap_copy k old_addr target copy o' =
     (if o' \<ge> copy then (True, k)
      else let q = min 256 (copy - o') in
        case user_copy_from (vm k) (syscall_user_cr3 k) (old_addr + of_nat o') q of (r, bs) \<Rightarrow>
          if r \<noteq> 0 then (False, k)
          else case user_copy_to (vm k) (syscall_user_cr3 k) (target + of_nat o') bs of (r, v) \<Rightarrow>
            if r \<noteq> 0 then (False, k\<lparr>vm := v\<rparr>) else mremap_copy (k\<lparr>vm := v\<rparr>) old_addr target copy (o' + 256))"
  by pat_completeness auto
termination
  by (relation "measure (\<lambda>(k, old_addr, target, copy, o'). copy - o')") auto

declare mremap_copy.simps [simp del]

text \<open>The end of the call: copy, protection of the new pages, and the old pages are unmapped.\<close>

definition mremap_move :: "kernel \<Rightarrow> u64 \<Rightarrow> u64 \<Rightarrow> u64 \<Rightarrow> u64 \<Rightarrow> u64 \<Rightarrow> u64 \<Rightarrow> u64 \<Rightarrow> int \<times> kernel" where
  "mremap_move k old_addr old_size new_size old_map new_map prot target =
     (case mremap_copy k old_addr target (unat (min old_size new_size)) 0 of
        (False, k) \<Rightarrow> (- EFAULT, snd (sys_munmap k target new_map))
      | (True, k) \<Rightarrow>
        let (r, k) = (if prot AND (PROT_WRITE OR PROT_EXEC) \<noteq> (PROT_WRITE OR PROT_EXEC)
                      then sys_mprotect k target new_map prot else (0, k)) in
        if r < 0 then (- EFAULT, snd (sys_munmap k target new_map))
        else let (r, k) = sys_munmap k old_addr old_map in
        if r < 0 then (- EFAULT, snd (sys_munmap k target new_map))
        else (uint target, k))"

definition mremap_target :: "kernel \<Rightarrow> u64 \<Rightarrow> u64 \<Rightarrow> u64 \<Rightarrow> u64 \<Rightarrow> u64 \<Rightarrow> (int + u64) \<times> kernel" where
  "mremap_target k old_addr old_map new_map flags new_addr =
     (if flags AND MREMAP_FIXED \<noteq> 0 then
        if new_addr AND (PAGE_SIZE - 1) \<noteq> 0 \<or> \<not> user_any_mapping_range_ok new_addr new_map then (Inl (- EINVAL), k)
        else if new_addr = old_addr then (Inl (- EINVAL), k)
        else if new_addr < old_addr + old_map \<and> old_addr < new_addr + new_map then (Inl (- EINVAL), k)
        else (Inr new_addr, on_vm k (\<lambda>v. drop_pages v (pages new_addr new_map)))
      else case sys_mmap k 0 new_map (PROT_READ OR PROT_WRITE) (MAP_PRIVATE OR MAP_ANON) (-1) 0 of (n, k) \<Rightarrow>
        if n < 0 then (Inl n, k) else (Inr (of_int n), k))"

definition sys_mremap :: "kernel \<Rightarrow> u64 \<Rightarrow> u64 \<Rightarrow> u64 \<Rightarrow> u64 \<Rightarrow> u64 \<Rightarrow> int \<times> kernel" where
  "sys_mremap k old_addr old_size new_size flags new_addr =
     (case enter_mm k of
        (False, k) \<Rightarrow> (- EFAULT, k)
      | (True, k) \<Rightarrow>
        if old_size = 0 \<or> new_size = 0 then (- EINVAL, k)
        else if old_addr AND (PAGE_SIZE - 1) \<noteq> 0 then (- EINVAL, k)
        else if old_size > USER_LIMIT \<or> new_size > USER_LIMIT then (- EINVAL, k)
        else if flags AND NOT (MREMAP_MAYMOVE OR MREMAP_FIXED OR MREMAP_DONTUNMAP) \<noteq> 0 then (- EINVAL, k)
        else if flags AND MREMAP_FIXED \<noteq> 0 \<and> flags AND MREMAP_MAYMOVE = 0 then (- EINVAL, k)
        else if flags AND MREMAP_DONTUNMAP \<noteq> 0 then (- EINVAL, k)
        else let old_map = page_up old_size; new_map = page_up new_size in
        if old_map = 0 \<or> new_map = 0 then (- EINVAL, k)
        else if \<not> user_any_mapping_range_ok old_addr old_map then (- EINVAL, k)
        else if old_addr \<ge> USER_LIMIT then (- EINVAL, k)
        else if new_map > USER_LIMIT then (- EINVAL, k)
        else if \<exists>va\<in>set (pages old_addr old_map). vmm_user_translate (vm k) va = None then (- EFAULT, k)
        else let prot = mremap_pte_to_prot (case vmm_user_translate (vm k) old_addr of Some (_, pte) \<Rightarrow> pte | None \<Rightarrow> 0) in
        if old_map = new_map then (uint old_addr, k)
        else if new_map < old_map then
          (case sys_munmap k (old_addr + new_map) (old_map - new_map) of (r, k) \<Rightarrow>
             (if r < 0 then - EFAULT else uint old_addr, k))
        else if flags AND MREMAP_MAYMOVE = 0 then
          let grow_addr = old_addr + old_map; grow_len = new_map - old_map in
          if \<not> user_mapping_range_free_any (vm k) grow_addr grow_len then (- ENOMEM, k)
          else (case grow_loop (vm k) prot [] (pages grow_addr grow_len) of
             (False, v) \<Rightarrow> (- ENOMEM, k\<lparr>vm := v\<rparr>)
           | (True, v) \<Rightarrow> (uint old_addr, k\<lparr>vm := vmm_user_flush_tlb v\<rparr>))
        else case mremap_target k old_addr old_map new_map flags new_addr of
          (Inl e, k) \<Rightarrow> (e, k)
        | (Inr target, k) \<Rightarrow> mremap_move k old_addr old_size new_size old_map new_map prot target)"

section \<open>\<^verbatim>\<open>brk\<close>\<close>

text \<open>One page of the heap; the entry is read back after the mapping.\<close>

definition brk_page :: "vmm \<Rightarrow> u64 \<Rightarrow> bool \<times> vmm" where
  "brk_page v a =
     (if vmm_user_translate v a \<noteq> None then (False, v)
      else let (phys, v) = alloc_page v in
      if phys = 0 then (False, v)
      else if pmm_phys_to_virt (pool v) phys = None then (False, free_page v phys)
      else let (r, v) = vmm_user_map (zero_table v phys) a phys (PTE_W OR PTE_NX) in
      if r \<noteq> 0 then (False, free_page v phys)
      else if (case vmm_user_translate v a of None \<Rightarrow> False
               | Some (_, pte) \<Rightarrow> pte AND (PTE_P OR PTE_U OR PTE_W) = PTE_P OR PTE_U OR PTE_W) then (True, v)
      else case vmm_user_unmap v a of (r, p, v) \<Rightarrow>
        (False, free_page v (if r = 0 \<and> p \<noteq> None \<and> p \<noteq> Some 0 then the p else phys)))"

fun brk_loop :: "vmm \<Rightarrow> u64 list \<Rightarrow> u64 list \<Rightarrow> bool \<times> vmm" where
  "brk_loop v mapped [] = (True, v)"
| "brk_loop v mapped (a # as) =
     (case brk_page v a of
        (False, v) \<Rightarrow> (False, drop_pages v mapped)
      | (True, v) \<Rightarrow> brk_loop v (mapped @ [a]) as)"

definition set_break :: "kernel \<Rightarrow> u64 \<Rightarrow> u64 \<Rightarrow> kernel" where
  "set_break k base addr = (task_shared_heap_sync k (current_task k) base addr)\<lparr>heap_base := base, heap_end := addr\<rparr>"

definition sys_brk :: "kernel \<Rightarrow> u64 \<Rightarrow> int \<times> kernel" where
  "sys_brk k addr =
     (case enter_mm k of
        (False, k) \<Rightarrow> (- EFAULT, k)
      | (True, k) \<Rightarrow>
        let t = current_task k;
            (base, old) = shared_heap k t;
            k = task_shared_heap_sync k t base old in
        if addr = 0 then (uint old, k)
        else if addr < base \<or> addr \<ge> USER_HEAP_MAX then (uint old, k)
        else if addr > old then
          let a = page_up old; b = page_up addr in
          if b > a \<and> \<not> user_addr_range_ok a (b - a) then (uint old, k)
          else (case brk_loop (vm k) [] (if a < b then pages a (b - a) else []) of
             (False, v) \<Rightarrow> (uint old, k\<lparr>vm := v\<rparr>)
           | (True, v) \<Rightarrow> (uint addr, set_break (k\<lparr>vm := v\<rparr>) base addr))
        else
          let a = page_up addr; b = page_up old;
              k = (if addr < old \<and> a < b then on_vm k (\<lambda>v. drop_pages v (pages a (b - a))) else k) in
          (uint addr, set_break k base addr))"

definition user_heap_reset_for_image :: "kernel \<Rightarrow> u64 \<Rightarrow> kernel" where
  "user_heap_reset_for_image k image_end =
     (let base = image_heap_base image_end;
          k = (if current_task k < MAX_TASKS \<and> tk_used (cur k)
               then set_task k (current_task k) (\<lambda>t. t\<lparr>tk_heap_base := base, tk_heap_end := base\<rparr>) else k) in
      k\<lparr>heap_base := base, heap_end := base\<rparr>)"

section \<open>Faults on reserved pages\<close>

definition task_lazy_page_fault :: "kernel \<Rightarrow> u64 \<Rightarrow> u64 \<Rightarrow> u64 \<Rightarrow> bool \<times> kernel" where
  "task_lazy_page_fault k cr3 addr error_code =
     (let t = cur k in
      if current_task k \<ge> MAX_TASKS \<or> \<not> tk_used t \<or> cx_cr3 (tk_ctx t) = 0 \<or>
         cx_cr3 (tk_ctx t) AND PAGE_MASK \<noteq> cr3 AND PAGE_MASK then (False, k)
      else let (r, v) = vmm_user_activate (vm k) cr3; k = k\<lparr>vm := v\<rparr> in
      if r \<noteq> 0 then (False, k)
      else let page = addr AND PAGE_MASK; prot = (case task_lazy_mmap_protection t addr of Some p \<Rightarrow> p | None \<Rightarrow> 0) in
      if task_lazy_mmap_protection t addr = None \<or> prot = 0 then (False, k)
      else if error_code AND 0x2 \<noteq> 0 \<and> prot AND 0x2 = 0 then (False, k)
      else if error_code AND 0x10 \<noteq> 0 \<and> prot AND 0x4 = 0 then (False, k)
      else if error_code AND (0x2 OR 0x10) = 0 \<and> prot AND (0x1 OR 0x2) = 0 then (False, k)
      else if vmm_user_translate_cr3 (vm k) cr3 page \<noteq> None then (False, k)
      else let (phys, v) = alloc_page (vm k) in
      if phys = 0 then (False, k\<lparr>vm := v\<rparr>)
      else if pmm_phys_to_virt (pool v) phys = None then (False, k\<lparr>vm := free_page v phys\<rparr>)
      else
        let flags = (if prot AND 0x2 \<noteq> 0 then PTE_W else 0) OR (if prot AND 0x4 \<noteq> 0 then 0 else PTE_NX);
            (r, v) = vmm_user_map (zero_table v phys) page phys flags in
        if r \<noteq> 0 then (False, k\<lparr>vm := free_page v phys\<rparr>)
        else (True, k\<lparr>vm := vmm_user_flush_tlb v\<rparr>))"

end
