(* ===== verification/Vmm_Tree.thy ===== *)
theory Vmm_Tree
  imports Vmm
begin

text \<open>
  The page tables of \<^verbatim>\<open>vmm.c\<close> seen as a tree: reads and writes of entries, virtual
  address arithmetic, the tables reached along a path of indices, the well-formedness of an
  address space, and how the construction of tables, the writing of leaf entries and
  \<^verbatim>\<open>vmm_user_map\<close> change the tree.
\<close>

section \<open>Memory and table laws\<close>

lemma rd_wr [simp]: "rd (wr s t i e) t' j = (if t' = t \<and> j = i then e else rd s t' j)"
  by (simp add: rd_def wr_def)

lemma wr_frame [simp, frame_simps]:
  "pool (wr s t i e) = pool s" "g_user_pml4 (wr s t i e) = g_user_pml4 s"
  "g_user_valid (wr s t i e) = g_user_valid s" "kernel_cr3 (wr s t i e) = kernel_cr3 s"
  "cpu_cr3 (wr s t i e) = cpu_cr3 s" "table (wr s t i e) = table s"
  by (simp_all add: wr_def table_def fun_eq_iff)

lemma zero_frame_upto:
  "fold (\<lambda>i m. m(f := (m f)(i := 0))) [0..<n] m f' j = (if f' = f \<and> j < n then 0 else (m :: phys_mem) f' j)"
  by (induction n) auto

lemma zero_frame_eq [simp]: "zero_frame m f f' j = (if f' = f \<and> j < 512 then 0 else m f' j)"
  unfolding zero_frame_def by (rule zero_frame_upto)

lemma rd_zero_table [simp]: "rd (zero_table s t) t' j = (if t' = t \<and> j < 512 then 0 else rd s t' j)"
  by (simp add: rd_def zero_table_def)

lemma zero_table_frame [simp, frame_simps]:
  "pool (zero_table s t) = pool s" "g_user_pml4 (zero_table s t) = g_user_pml4 s"
  "g_user_valid (zero_table s t) = g_user_valid s" "kernel_cr3 (zero_table s t) = kernel_cr3 s"
  "cpu_cr3 (zero_table s t) = cpu_cr3 s" "table (zero_table s t) = table s"
  by (simp_all add: zero_table_def table_def fun_eq_iff)

lemma table_cong: "g_hhdm (pool s') = g_hhdm (pool s) \<Longrightarrow> table s' = table s"
  by (simp add: table_def pmm_phys_to_virt_def fun_eq_iff)

lemma table_Some: "table s p = Some t \<Longrightarrow> t = p AND PTE_ADDR_MASK"
  by (auto simp: table_def split: if_splits option.splits)

lemma alloc_page_frame [simp, frame_simps]:
  "rd (snd (alloc_page s)) = rd s" "mem (snd (alloc_page s)) = mem s"
  "g_user_pml4 (snd (alloc_page s)) = g_user_pml4 s" "g_user_valid (snd (alloc_page s)) = g_user_valid s"
  "pool (snd (alloc_page s)) = snd (pmm_alloc_page (pool s))"
  "fst (alloc_page s) = fst (pmm_alloc_page (pool s))"
  by (simp_all add: alloc_page_def rd_def case_prod_beta Let_def fun_eq_iff)

lemma free_page_frame [simp, frame_simps]:
  "rd (free_page s p) = rd s" "mem (free_page s p) = mem s" "g_user_pml4 (free_page s p) = g_user_pml4 s"
  "g_user_valid (free_page s p) = g_user_valid s" "pool (free_page s p) = pmm_free_page (pool s) p"
  by (simp_all add: free_page_def rd_def fun_eq_iff)

section \<open>Virtual address arithmetic\<close>

lemma and_511: "unat ((x :: u64) AND 0x1ff) = unat x mod 512"
proof -
  have "(0x1ff :: u64) = mask 9" by (simp add: mask_eq_exp_minus_1)
  then have "x AND 0x1ff = take_bit 9 x" by (simp add: take_bit_eq_mask)
  then show ?thesis by (simp add: take_bit_eq_mod unat_mod)
qed

lemma unat_drop_bit: "unat (drop_bit n (v :: u64)) = unat v div 2 ^ n"
  by (simp only: unat_drop_bit_eq) (simp only: drop_bit_eq_div)

lemmas idx_defs = idx4_def idx3_def idx2_def idx1_def

lemma idx_unat:
  "idx4 v = unat v div 2 ^ 39 mod 512" "idx3 v = unat v div 2 ^ 30 mod 512"
  "idx2 v = unat v div 2 ^ 21 mod 512" "idx1 v = unat v div 2 ^ 12 mod 512"
  by (simp_all only: idx_defs and_511 unat_drop_bit)

lemma idx_less [simp]: "idx4 v < 512" "idx3 v < 512" "idx2 v < 512" "idx1 v < 512"
  by (simp_all add: idx_unat)

lemma canonical_unat: "canonical_user v \<longleftrightarrow> unat v < 2 ^ 47"
  by (simp add: canonical_user_def word_less_nat_alt)

lemma idx4_user [simp]: "canonical_user v \<Longrightarrow> idx4 v < 256"
  by (simp add: canonical_unat idx_unat less_mult_imp_div_less)

text \<open>The four indices determine the page of a user address.\<close>

lemma idx_inj:
  assumes "canonical_user v" "canonical_user w" "page_aligned v" "page_aligned w"
    "idx4 v = idx4 w" "idx3 v = idx3 w" "idx2 v = idx2 w" "idx1 v = idx1 w"
  shows "v = w"
proof -
  have dec: "unat x = 4096 * (idx1 x + 512 * (idx2 x + 512 * (idx3 x + 512 * idx4 x)))"
    if c: "canonical_user x" and al: "page_aligned x" for x
  proof -
    obtain a where a: "unat x = 4096 * a" using al by (auto simp: page_aligned_iff_dvd elim!: dvdE)
    have d: "unat x div 2 ^ 12 = a" "unat x div 2 ^ 21 = a div 512" "unat x div 2 ^ 30 = a div 512 div 512"
      "unat x div 2 ^ 39 = a div 512 div 512 div 512"
      by (simp_all add: a div_mult2_eq [symmetric])
    have "a div 512 div 512 div 512 mod 512 = a div 512 div 512 div 512"
      using c a by (simp add: canonical_unat div_mult2_eq [symmetric] less_mult_imp_div_less)
    then show ?thesis unfolding idx_unat d by (simp add: a)
  qed
  have "unat v = unat w"
    using dec [OF assms(1,3)] dec [OF assms(2,4)] assms(5-8) by simp
  then show ?thesis by (simp add: word_unat_eq_iff)
qed

section \<open>Entries\<close>

text \<open>Fields of an entry built from an address and flag bits.\<close>

lemma entry_user [simp]:
  "((a AND PTE_ADDR_MASK) OR PTE_P OR PTE_W OR PTE_U) AND PTE_P \<noteq> 0"
  "((a AND PTE_ADDR_MASK) OR PTE_P OR PTE_W OR PTE_U) AND PTE_PS = 0"
  "((a AND PTE_ADDR_MASK) OR PTE_P OR PTE_W OR PTE_U) AND PTE_ADDR_MASK = a AND PTE_ADDR_MASK"
  by (simp_all add: bit.conj_disj_distrib2 and.assoc or.assoc)

lemma mask_52: "take_bit 52 (x :: u64) = x AND 0xFFFFFFFFFFFFF"
  by (simp add: take_bit_eq_mask mask_eq_exp_minus_1)

lemma PTE_ADDR_MASK_split: "(x :: u64) AND PTE_ADDR_MASK = take_bit 52 x AND PAGE_MASK"
  by (simp add: mask_52 and.assoc)

lemma PTE_ADDR_MASK_id:
  assumes "page_aligned p" "p < 0x10000000000000"
  shows "p AND PTE_ADDR_MASK = p"
proof -
  have "take_bit 52 p = p"
    using assms(2) by (simp add: word_unat_eq_iff take_bit_eq_mod unat_mod word_less_nat_alt)
  then show ?thesis using page_aligned_id [OF assms(1)] by (simp add: PTE_ADDR_MASK_split)
qed

lemma page_aligned_mask [simp]: "page_aligned (x AND PTE_ADDR_MASK)"
  by (simp add: page_aligned_def and.assoc)

definition hhdm_ok :: "pmm \<Rightarrow> bool" where
  "hhdm_ok s \<longleftrightarrow> 0xFFFF000000000000 \<le> g_hhdm s \<and> g_hhdm s \<le> UINT64_MAX - PMM_TRACK_LIMIT"

lemma hhdm_ok_virt:
  assumes "hhdm_ok s" "p < PMM_TRACK_LIMIT"
  shows "pmm_phys_to_virt s p = Some (g_hhdm s + p)"
proof -
  have h: "unat (g_hhdm s) \<ge> 0xFFFF000000000000" "unat (g_hhdm s) + 0x100000000 \<le> 0xFFFFFFFFFFFFFFFF"
    "unat p < 0x100000000"
    using assms by (simp_all add: hhdm_ok_def word_le_nat_alt word_less_nat_alt)
  have u: "unat (g_hhdm s + p) = unat (g_hhdm s) + unat p"
    using h by (subst unat_word_ariths) simp
  have "unat (drop_bit 48 (g_hhdm s + p)) = 0xFFFF"
    unfolding unat_drop_bit u using h by simp
  then have "drop_bit 48 (g_hhdm s + p) = 0xFFFF" by (simp add: word_unat_eq_iff)
  moreover have "\<not> p > UINT64_MAX - g_hhdm s"
    using h by (simp add: word_less_nat_alt unat_sub word_le_nat_alt)
  moreover have "g_hhdm s \<noteq> 0" using h(1) by auto
  ultimately show ?thesis by (simp add: pmm_phys_to_virt_def Let_def)
qed

section \<open>The table tree of an address space\<close>

text \<open>\<open>node s t p\<close> is the table reached from table \<open>t\<close> along the entry indices \<open>p\<close>.\<close>

fun node :: "vmm \<Rightarrow> u64 \<Rightarrow> nat list \<Rightarrow> u64 option" where
  "node s t [] = Some t"
| "node s t (i # is) = Option.bind (walk_step s t i) (\<lambda>t'. node s t' is)"

lemma walk_node: "walk s t va = node s t [idx4 va, idx3 va, idx2 va]"
  by (simp add: walk_def)

lemma node_snoc: "node s t (p @ [j]) = Option.bind (node s t p) (\<lambda>f. walk_step s f j)"
  by (induction p arbitrary: t) (auto split: bind_splits)

lemma node_append: "node s t (p @ q) = Option.bind (node s t p) (\<lambda>f. node s f q)"
  by (induction p arbitrary: t) (auto split: bind_splits)

lemma node_append_None: "node s t p = None \<Longrightarrow> node s t (p @ q) = None"
  by (induction p arbitrary: t) (auto split: bind_splits)

declare node.simps(2) [simp del]

definition user_path :: "nat list \<Rightarrow> bool" where
  "user_path p \<longleftrightarrow> length p \<le> 3 \<and> (\<forall>i\<in>set p. i < 512) \<and> (p \<noteq> [] \<longrightarrow> hd p < 256)"

lemma user_path_snocD: "user_path (p @ [i]) \<Longrightarrow> user_path p"
  by (cases p) (auto simp: user_path_def)

lemma user_path_idx: "canonical_user va \<Longrightarrow> user_path [idx4 va, idx3 va, idx2 va]"
  by (simp add: user_path_def)

text \<open>
  A well-formed address space: the allocator is, the root is a frame address, no table is reached along two different
  paths, and no table is a free page.
\<close>

definition vspace_ok :: "vmm \<Rightarrow> u64 \<Rightarrow> bool" where
  "vspace_ok s root \<longleftrightarrow> pmm_ok (pool s) \<and> hhdm_ok (pool s) \<and> table s root = Some root
     \<and> (\<forall>p q f. user_path p \<longrightarrow> user_path q \<longrightarrow> node s root p = Some f \<longrightarrow> node s root q = Some f \<longrightarrow> p = q)
     \<and> (\<forall>p f. user_path p \<longrightarrow> node s root p = Some f \<longrightarrow> f \<notin> free_set (pool s))"

definition table_frames :: "vmm \<Rightarrow> u64 \<Rightarrow> u64 set" where
  "table_frames s root = {f. \<exists>p. user_path p \<and> node s root p = Some f}"

text \<open>The leaf entry of an address, 0 where a table is missing: the abstraction of the tree.\<close>

definition leaf_entry :: "vmm \<Rightarrow> u64 \<Rightarrow> u64 \<Rightarrow> u64" where
  "leaf_entry s root va = (case node s root [idx4 va, idx3 va, idx2 va] of None \<Rightarrow> 0 | Some pt \<Rightarrow> rd s pt (idx1 va))"

lemma translate_leaf_entry:
  "translate_leaf s root va =
     (let e = leaf_entry s root va in
      if e AND PTE_P = 0 then None else Some ((e AND PTE_ADDR_MASK) OR (va AND 0xfff), e))"
  by (auto simp: translate_leaf_def walk_node leaf_entry_def Let_def split: option.splits)

lemma node_cong: "(\<And>f i. walk_step s' f i = walk_step s f i) \<Longrightarrow> node s' t p = node s t p"
  by (induction p arbitrary: t) (auto simp: node.simps)

text \<open>Steps at frames that are not tables of the tree do not matter.\<close>

lemma node_frame:
  assumes "\<And>f i. f \<in> table_frames s root \<Longrightarrow> i < 512 \<Longrightarrow> walk_step s' f i = walk_step s f i" "user_path q"
  shows "node s' root q = node s root q"
  using assms(2)
proof (induction q rule: rev_induct)
  case (snoc j q)
  then have q: "user_path q" "j < 512" by (auto dest: user_path_snocD simp: user_path_def)
  then show ?case
    using snoc.IH assms(1) by (auto simp: node_snoc table_frames_def split: bind_splits)
qed simp

text \<open>A write to entry \<open>i\<close> of the table at path \<open>p\<close> concerns only the paths below \<open>p @ [i]\<close>.\<close>

lemma node_wr_other:
  assumes ok: "vspace_ok s root" and p: "user_path p" "node s root p = Some t"
    and q: "user_path q" "\<not> (\<exists>r. q = p @ i # r)"
  shows "node (wr s t i e) root q = node s root q"
  using q
proof (induction q rule: rev_induct)
  case (snoc j q)
  have uq: "user_path q" using snoc.prems(1) by (rule user_path_snocD)
  have IH: "node (wr s t i e) root q = node s root q"
    using snoc.prems(2) by (intro snoc.IH [OF uq]) auto
  have "walk_step (wr s t i e) f j = walk_step s f j" if "node s root q = Some f" for f
  proof -
    have "q = p" if "f = t" using ok p uq \<open>node s root q = Some f\<close> that unfolding vspace_ok_def by blast
    then have "\<not> (f = t \<and> j = i)" using snoc.prems(2) by auto
    then show ?thesis by (auto simp: walk_step_def Let_def)
  qed
  then show ?case using IH by (simp add: node_snoc split: bind_splits)
qed simp

section \<open>Growing the tree\<close>

lemma vspace_okD:
  assumes "vspace_ok s root"
  shows "pmm_ok (pool s)" "hhdm_ok (pool s)" "table s root = Some root"
    "\<And>p q f. user_path p \<Longrightarrow> user_path q \<Longrightarrow> node s root p = Some f \<Longrightarrow> node s root q = Some f \<Longrightarrow> p = q"
    "\<And>p f. user_path p \<Longrightarrow> node s root p = Some f \<Longrightarrow> f \<notin> free_set (pool s)"
  using assms unfolding vspace_ok_def by blast+

lemma tracked_table:
  assumes "hhdm_ok (pool s)" "page_aligned p" "p \<noteq> 0" "p < PMM_TRACK_LIMIT"
  shows "table s p = Some p" "p AND PTE_ADDR_MASK = p"
proof -
  have "p < 0x10000000000000" using assms(4) by (rule order_less_trans) simp
  then show m: "p AND PTE_ADDR_MASK = p" using assms(2) by (intro PTE_ADDR_MASK_id)
  show "table s p = Some p"
    using assms m hhdm_ok_virt [OF assms(1,4)] by (simp add: table_def page_aligned_def)
qed

lemma free_frame_table:
  assumes "pmm_ok (pool s)" "hhdm_ok (pool s)" "f \<in> free_set (pool s)"
  shows "table s f = Some f" "f AND PTE_ADDR_MASK = f" "f \<noteq> 0"
proof -
  have "page_aligned f" "f < PMM_TRACK_LIMIT" and 0: "f \<noteq> 0"
    using assms usable_page_bounds(2,4,5) [of "pool s" f]
    by (auto simp: pmm_ok_def pmm_inv_def free_set_def)
  then show "table s f = Some f" "f AND PTE_ADDR_MASK = f" "f \<noteq> 0"
    using tracked_table [OF assms(2) _ 0] by simp_all
qed

text \<open>
  What every step of the table construction keeps: the mappings, the tables already there,
  the memory of every frame that is neither a table nor free, the kernel half of the root.
\<close>

definition grows :: "u64 \<Rightarrow> vmm \<Rightarrow> vmm \<Rightarrow> bool" where
  "grows root s s' \<longleftrightarrow> vspace_ok s' root
     \<and> (\<forall>q f. user_path q \<longrightarrow> node s root q = Some f \<longrightarrow> node s' root q = Some f)
     \<and> (\<forall>va. canonical_user va \<longrightarrow> leaf_entry s' root va = leaf_entry s root va)
     \<and> (\<forall>f. f \<notin> table_frames s root \<longrightarrow> f \<notin> free_set (pool s) \<longrightarrow> mem s' f = mem s f)
     \<and> table_frames s' root \<subseteq> table_frames s root \<union> free_set (pool s)
     \<and> free_set (pool s') \<subseteq> free_set (pool s)
     \<and> (\<forall>i\<ge>256. rd s' root i = rd s root i)
     \<and> g_user_pml4 s' = g_user_pml4 s \<and> g_user_valid s' = g_user_valid s
     \<and> managed_pages (pool s') = managed_pages (pool s)
     \<and> (\<forall>p\<in>managed_pages (pool s). p \<notin> free_set (pool s) \<longrightarrow>
          page_ref_count (pool s') p = page_ref_count (pool s) p)"

lemma grows_refl: "vspace_ok s root \<Longrightarrow> grows root s s"
  by (simp add: grows_def)

lemma growsD:
  assumes "grows root s s'"
  shows "vspace_ok s' root"
    "\<And>q f. user_path q \<Longrightarrow> node s root q = Some f \<Longrightarrow> node s' root q = Some f"
    "\<And>va. canonical_user va \<Longrightarrow> leaf_entry s' root va = leaf_entry s root va"
    "\<And>f. f \<notin> table_frames s root \<Longrightarrow> f \<notin> free_set (pool s) \<Longrightarrow> mem s' f = mem s f"
    "table_frames s' root \<subseteq> table_frames s root \<union> free_set (pool s)"
    "free_set (pool s') \<subseteq> free_set (pool s)"
    "\<And>i. i \<ge> 256 \<Longrightarrow> rd s' root i = rd s root i"
    "g_user_pml4 s' = g_user_pml4 s" "g_user_valid s' = g_user_valid s"
    "managed_pages (pool s') = managed_pages (pool s)"
    "\<And>p. p \<in> managed_pages (pool s) \<Longrightarrow> p \<notin> free_set (pool s) \<Longrightarrow>
          page_ref_count (pool s') p = page_ref_count (pool s) p"
  using assms unfolding grows_def by blast+

lemma grows_trans:
  assumes a: "grows root s s'" and b: "grows root s' s''"
  shows "grows root s s''"
  unfolding grows_def
proof (intro conjI allI impI ballI)
  note a = growsD [OF a] and b = growsD [OF b]
  show "vspace_ok s'' root" by (rule b)
  show "node s'' root q = Some f" if "user_path q" "node s root q = Some f" for q f
    using that by (intro a b)
  show "leaf_entry s'' root va = leaf_entry s root va" if "canonical_user va" for va
    using a(3) b(3) that by simp
  show "mem s'' f = mem s f" if f: "f \<notin> table_frames s root" "f \<notin> free_set (pool s)" for f
    using a(4) [OF f] b(4) [of f] a(5,6) f by auto
  show "table_frames s'' root \<subseteq> table_frames s root \<union> free_set (pool s)" using a(5,6) b(5) by blast
  show "free_set (pool s'') \<subseteq> free_set (pool s)" using a(6) b(6) by blast
  show "rd s'' root i = rd s root i" if "256 \<le> i" for i using a(7) b(7) that by simp
  show "g_user_pml4 s'' = g_user_pml4 s" "g_user_valid s'' = g_user_valid s"
    "managed_pages (pool s'') = managed_pages (pool s)"
    using a(8-10) b(8-10) by simp_all
  show "page_ref_count (pool s'') p = page_ref_count (pool s) p"
    if p: "p \<in> managed_pages (pool s)" "p \<notin> free_set (pool s)" for p
    using a(11) [OF p] b(11) [of p] a(6,10) p by auto
qed

lemma grows_ok: "grows root s s' \<Longrightarrow> vspace_ok s' root"
  by (simp add: grows_def)

lemma table_frames_0: "root \<in> table_frames s root"
  unfolding table_frames_def by (auto simp: user_path_def intro!: exI [of _ "[]"])

text \<open>A new table is a free frame; afterwards the node of the new path is that frame.\<close>

lemma new_user_table_eq:
  assumes ok: "vspace_ok s root" and ne: "free_set (pool s) \<noteq> {}"
  defines "f \<equiv> fst (pmm_alloc_page (pool s))"
  shows "new_user_table s t i =
    (Some f, wr (zero_table (snd (alloc_page s)) f) t i ((f AND PTE_ADDR_MASK) OR PTE_P OR PTE_W OR PTE_U))"
    "f \<in> free_set (pool s)"
proof -
  note v = vspace_okD [OF ok]
  show f: "f \<in> free_set (pool s)" using pmm_alloc_frame(7) [OF v(1) ne] by (simp add: f_def)
  have "table (snd (alloc_page s)) = table s"
    using pmm_alloc_frame(4) [OF v(1)] by (intro table_cong) simp
  then show "new_user_table s t i =
    (Some f, wr (zero_table (snd (alloc_page s)) f) t i ((f AND PTE_ADDR_MASK) OR PTE_P OR PTE_W OR PTE_U))"
    using free_frame_table [OF v(1,2) f] unfolding new_user_table_def
    by (simp add: case_prod_beta Let_def flip: f_def)
qed

lemma new_user_table_none:
  assumes ok: "vspace_ok s root" and e: "free_set (pool s) = {}"
  shows "new_user_table s t i = (None, snd (alloc_page s))"
  using pmm_alloc_frame(6) [OF vspace_okD(1) [OF ok]] e
  by (simp add: new_user_table_def case_prod_beta Let_def)

lemma alloc_page_grows:
  assumes ok: "vspace_ok s root"
  shows "grows root s (snd (alloc_page s))"
proof -
  let ?s = "snd (alloc_page s)"
  note v = vspace_okD [OF ok] note al = pmm_alloc_frame [OF v(1)]
  have t: "table ?s = table s" using al(4) by (intro table_cong) simp
  have n: "node ?s r q = node s r q" for r q
    by (rule node_cong) (simp add: walk_step_def Let_def t)
  have fs: "free_set (pool ?s) \<subseteq> free_set (pool s)" using pmm_pool.alloc_avail [OF v(1)] by simp
  have "vspace_ok ?s root"
    using v fs pmm_alloc_ok [OF v(1)] al(4) unfolding vspace_ok_def n t by (auto simp: hhdm_ok_def)
  moreover have "page_ref_count (pool ?s) p = page_ref_count (pool s) p"
    if "p \<in> managed_pages (pool s)" "p \<notin> free_set (pool s)" for p
    using that pmm_pool.alloc_some [OF v(1)] pmm_pool.alloc_empty [OF v(1)]
    by (cases "free_set (pool s) = {}") auto
  ultimately show ?thesis
    using fs pmm_pool.alloc_managed [OF v(1)]
    by (auto simp: grows_def n leaf_entry_def table_frames_def split: option.split)
qed

text \<open>
  The tree after the entry \<open>i\<close> of table \<open>t\<close> at path \<open>p\<close>, which led nowhere, gets a zeroed
  frame \<open>f\<close> from outside the tree.
\<close>

lemma attach_node:
  assumes ok: "vspace_ok s root" and p: "user_path p" "node s root p = Some t"
    and pi: "node s root (p @ [i]) = None"
    and f: "f \<notin> table_frames s root" "table s f = Some f" "f AND PTE_ADDR_MASK = f"
    and q: "user_path q"
  defines "s' \<equiv> wr (zero_table s f) t i ((f AND PTE_ADDR_MASK) OR PTE_P OR PTE_W OR PTE_U)"
  shows "node s' root q = (if q = p @ [i] then Some f else node s root q)"
proof -
  have ft: "f \<noteq> t" using f(1) p unfolding table_frames_def by blast
  have z: "node (zero_table s f) root q = node s root q" if "user_path q" for q
    using f(1) that by (intro node_frame) (auto simp: walk_step_def Let_def)
  have okz: "vspace_ok (zero_table s f) root"
    using vspace_okD [OF ok] unfolding vspace_ok_def by (simp add: z)
  have ws: "walk_step s' t i = Some f"
    using f entry_user [of f] by (simp add: walk_step_def s'_def Let_def)
  have dead: "walk_step s' f j = None" if "j < 512" for j
    using ft that by (simp add: walk_step_def s'_def Let_def)
  have at: "node s' root p = Some t"
    using node_wr_other [OF okz p(1) _ p(1)] p z by (simp add: s'_def)
  show ?thesis
  proof (cases "\<exists>r. q = p @ i # r")
    case False
    then show ?thesis using node_wr_other [OF okz p(1) _ q] p z q by (auto simp: s'_def)
  next
    case True
    then obtain r where r: "q = (p @ [i]) @ r" by auto
    have "node s' root (p @ [i]) = Some f" using at ws by (simp add: node_snoc)
    moreover have "node s root q = None" unfolding r using pi by (rule node_append_None)
    moreover have "node s' f r = None" if "r \<noteq> []"
      using dead [of "hd r"] q that by (cases r) (auto simp: r user_path_def node.simps)
    ultimately show ?thesis using node_append [of s' root "p @ [i]" r] r by auto
  qed
qed

lemma attach_grows:
  assumes ok: "vspace_ok s root" and p: "user_path (p @ [i])" "node s root p = Some t"
    and pi: "node s root (p @ [i]) = None"
    and f: "f \<notin> table_frames s root" "table s f = Some f" "f AND PTE_ADDR_MASK = f" "f \<notin> free_set (pool s)"
    and s': "s' = wr (zero_table s f) t i ((f AND PTE_ADDR_MASK) OR PTE_P OR PTE_W OR PTE_U)"
  shows "vspace_ok s' root" "node s' root (p @ [i]) = Some f"
    "\<And>q. user_path q \<Longrightarrow> node s' root q = (if q = p @ [i] then Some f else node s root q)"
    "\<And>va. canonical_user va \<Longrightarrow> leaf_entry s' root va = leaf_entry s root va"
proof -
  have up: "user_path p" using p(1) by (rule user_path_snocD)
  have n: "node s' root q = (if q = p @ [i] then Some f else node s root q)" if "user_path q" for q
    unfolding s' by (rule attach_node [OF ok up p(2) pi f(1-3) that])
  then show "user_path q \<Longrightarrow> node s' root q = (if q = p @ [i] then Some f else node s root q)" for q .
  show "node s' root (p @ [i]) = Some f" using n [OF p(1)] by simp
  have out: "\<And>q. user_path q \<Longrightarrow> node s root q \<noteq> Some f" using f(1) unfolding table_frames_def by blast
  have fr: "pool s' = pool s" "table s' = table s" by (simp_all add: s')
  note v = vspace_okD [OF ok]
  show "vspace_ok s' root"
    unfolding vspace_ok_def fr
  proof (intro conjI allI impI)
    show "q = r" if "user_path q" "user_path r" "node s' root q = Some g" "node s' root r = Some g" for q r g
      using that v(4) out by (auto simp: n split: if_splits)
    show "g \<notin> free_set (pool s)" if "user_path q" "node s' root q = Some g" for q g
      using that v(5) f(4) by (auto simp: n split: if_splits)
  qed (use v in auto)
  show "leaf_entry s' root va = leaf_entry s root va" if va: "canonical_user va" for va
  proof -
    let ?q = "[idx4 va, idx3 va, idx2 va]"
    have uq: "user_path ?q" using va by (rule user_path_idx)
    show ?thesis
    proof (cases "?q = p @ [i]")
      case True
      have "f \<noteq> t" using out [OF up] p(2) by auto
      moreover have "node s' root ?q = Some f" "node s root ?q = None" using n [OF uq] True pi by auto
      ultimately show ?thesis by (simp add: leaf_entry_def s')
    next
      case False
      have "rd s' pt (idx1 va) = rd s pt (idx1 va)" if pt: "node s root ?q = Some pt" for pt
      proof -
        have "pt \<noteq> f" using out [OF uq] pt by auto
        moreover have "\<not> pt = t"
        proof
          assume "pt = t"
          then have "?q = p" using v(4) [OF uq up] pt p(2) by simp
          then show False using p(1) by (auto simp: user_path_def)
        qed
        ultimately show ?thesis by (simp add: s')
      qed
      then show ?thesis unfolding leaf_entry_def using n [OF uq] False by (simp split: option.splits)
    qed
  qed
qed

lemma grows_frames:
  "(\<And>q. user_path q \<Longrightarrow> node s' root q = (if q = p @ [i] then Some f else node s root q)) \<Longrightarrow>
     table_frames s' root \<subseteq> insert f (table_frames s root)"
  unfolding table_frames_def by (auto split: if_splits)

lemma card_le_remove: "card A \<le> card (A - {x}) + 1"
  by (cases "finite A"; cases "x \<in> A") (simp_all add: card_Diff_singleton_if)

lemma new_user_table_spec:
  assumes ok: "vspace_ok s root" and p: "user_path (p @ [i])" "node s root p = Some t"
    and pi: "node s root (p @ [i]) = None" and ne: "free_set (pool s) \<noteq> {}"
  obtains f s' where "new_user_table s t i = (Some f, s')" "grows root s s'"
    "node s' root (p @ [i]) = Some f" "card (free_set (pool s)) \<le> card (free_set (pool s')) + 1"
proof -
  let ?a = "snd (alloc_page s)" and ?f = "fst (pmm_alloc_page (pool s))"
  let ?s = "wr (zero_table ?a ?f) t i ((?f AND PTE_ADDR_MASK) OR PTE_P OR PTE_W OR PTE_U)"
  note e = new_user_table_eq(1) [OF ok ne, of t i] new_user_table_eq(2) [OF ok ne] note v = vspace_okD [OF ok]
  have g: "grows root s ?a" by (rule alloc_page_grows [OF ok])
  have tb: "table ?a = table s" using pmm_alloc_frame(4) [OF v(1)] by (intro table_cong) simp
  have n: "node ?a r q = node s r q" for r q by (rule node_cong) (simp add: walk_step_def Let_def tb)
  have fr: "?f \<notin> table_frames ?a root" using v(5) e(2) unfolding table_frames_def n by blast
  have fs: "free_set (pool ?a) = free_set (pool s) - {?f}" using pmm_pool.alloc_avail [OF v(1)] by simp
  have nd: "node ?a root p = Some t" "node ?a root (p @ [i]) = None" using p(2) pi n by auto
  have ft: "table ?a ?f = Some ?f" "?f AND PTE_ADDR_MASK = ?f" "?f \<notin> free_set (pool ?a)"
    using free_frame_table [OF v(1,2) e(2)] tb fs by auto
  note A = attach_grows [OF growsD(1) [OF g] p(1) nd fr ft refl, unfolded n]
  have tl: "t \<in> table_frames s root" using p user_path_snocD [OF p(1)] unfolding table_frames_def by auto
  have "grows root s ?s"
    unfolding grows_def
  proof (intro conjI allI impI ballI)
    show "mem ?s f = mem s f" if "f \<notin> table_frames s root" "f \<notin> free_set (pool s)" for f
    proof -
      have "f \<noteq> t" "f \<noteq> ?f" using that tl e(2) by auto
      then show ?thesis by (simp add: wr_def zero_table_def fun_eq_iff)
    qed
    show "rd ?s root j = rd s root j" if "256 \<le> j" for j
    proof -
      have "?f \<noteq> root" using fr table_frames_0 [of root ?a] by auto
      moreover have "\<not> (root = t \<and> j = i)"
        using v(4) [OF user_path_snocD [OF p(1)], of "[]"] p that by (auto simp: user_path_def)
      ultimately show ?thesis by auto
    qed
    show "table_frames ?s root \<subseteq> table_frames s root \<union> free_set (pool s)"
      using grows_frames [OF A(3)] e(2) by (auto simp: table_frames_def n)
    show "leaf_entry ?s root va = leaf_entry s root va" if "canonical_user va" for va
      using A(4) [OF that] growsD(3) [OF g that] by simp
    show "node ?s root q = Some f" if "user_path q" "node s root q = Some f" for q f
      using A(3) that pi by auto
    show "vspace_ok ?s root" by (rule A(1))
  qed (use growsD(6,8-11) [OF g] in auto)
  moreover have "card (free_set (pool s)) \<le> card (free_set (pool ?s)) + 1"
    using fs card_le_remove [of "free_set (pool s)" ?f] by simp
  ultimately show thesis using e(1) A(2) by (intro that [of ?f ?s])
qed

text \<open>Setting the user and write bits of an entry on the way does not change the tree.\<close>

lemma upgrade_entry_grows:
  assumes ok: "vspace_ok s root" and p: "user_path (p @ [i])" "node s root p = Some t"
    and e: "rd s t i AND PTE_P \<noteq> 0" "rd s t i AND PTE_PS = 0"
    and s': "s' = wr s t i ((rd s t i AND PTE_ADDR_MASK) OR PTE_P OR PTE_W OR PTE_U)"
  shows "grows root s s'" "node s' root (p @ [i]) = node s root (p @ [i])"
proof -
  note v = vspace_okD [OF ok]
  have up: "user_path p" using p(1) by (rule user_path_snocD)
  have "walk_step s' f j = walk_step s f j" for f j
    using e entry_user [of "rd s t i"] by (auto simp: s' walk_step_def Let_def)
  then have n: "node s' r q = node s r q" for r q by (rule node_cong)
  then show "node s' root (p @ [i]) = node s root (p @ [i])" .
  have fr: "pool s' = pool s" "table s' = table s" by (simp_all add: s')
  have tl: "t \<in> table_frames s root" using p up unfolding table_frames_def by auto
  show "grows root s s'"
    unfolding grows_def fr
  proof (intro conjI allI impI ballI)
    show "vspace_ok s' root" using v unfolding vspace_ok_def n fr by blast
    show "mem s' f = mem s f" if "f \<notin> table_frames s root" for f
      using that tl by (auto simp: s' wr_def)
    show "rd s' root j = rd s root j" if "256 \<le> j" for j
      using v(4) [OF up, of "[]"] p that by (auto simp: s' user_path_def)
    show "leaf_entry s' root va = leaf_entry s root va" if va: "canonical_user va" for va
    proof -
      have "pt \<noteq> t" if "node s root [idx4 va, idx3 va, idx2 va] = Some pt" for pt
        using v(4) [OF user_path_idx [OF va] up] that p by (auto simp: user_path_def)
      then show ?thesis unfolding leaf_entry_def n by (auto simp: s' split: option.split)
    qed
  next
    show "g_user_pml4 s' = g_user_pml4 s" "g_user_valid s' = g_user_valid s" by (simp_all add: s')
    show "table_frames s' root \<subseteq> table_frames s root \<union> free_set (pool s)" by (auto simp: table_frames_def n)
  qed (simp_all add: n)
qed

lemma ensure_user_child_spec:
  assumes ok: "vspace_ok s root" and p: "user_path (p @ [i])" "node s root p = Some t"
  obtains (full) s' where "ensure_user_child s t i = (None, s')" "grows root s s'" "free_set (pool s) = {}"
  | (child) f s' where "ensure_user_child s t i = (Some f, s')" "grows root s s'"
      "node s' root (p @ [i]) = Some f" "card (free_set (pool s)) \<le> card (free_set (pool s')) + 1"
proof (cases "node s root (p @ [i])")
  case None
  then have "walk_step s t i = None" using p(2) by (simp add: node_snoc)
  then have e: "ensure_user_child s t i = new_user_table s t i"
    by (auto simp: ensure_user_child_def walk_step_def Let_def)
  show thesis
  proof (cases "free_set (pool s) = {}")
    case True
    then show thesis using e new_user_table_none [OF ok] alloc_page_grows [OF ok] by (intro full) auto
  next
    case False
    show thesis using new_user_table_spec [OF ok p None False] e by (metis child)
  qed
next
  case (Some f)
  let ?e = "rd s t i"
  let ?s = "wr s t i ((?e AND PTE_ADDR_MASK) OR PTE_P OR PTE_W OR PTE_U)"
  have w: "walk_step s t i = Some f" using p(2) Some by (simp add: node_snoc)
  then have pe: "?e AND PTE_P \<noteq> 0" "?e AND PTE_PS = 0" "table s (?e AND PTE_ADDR_MASK) = Some f"
    by (auto simp: walk_step_def Let_def split: if_splits)
  then have "ensure_user_child s t i =
      (Some f, if ?e AND (PTE_W OR PTE_U) \<noteq> PTE_W OR PTE_U then ?s else s)"
    by (simp add: ensure_user_child_def Let_def)
  then show thesis
    using upgrade_entry_grows [OF ok p pe(1,2) refl] grows_refl [OF ok] Some
    by (intro child [of f "if ?e AND (PTE_W OR PTE_U) \<noteq> PTE_W OR PTE_U then ?s else s"]) auto
qed

section \<open>Leaf entries\<close>

lemma idx_page [simp]: "idx4 (va AND - 0x1000) = idx4 va" "idx3 (va AND - 0x1000) = idx3 va"
  "idx2 (va AND - 0x1000) = idx2 va" "idx1 (va AND - 0x1000) = idx1 va"
proof -
  have u: "unat (va AND NOT 0xFFF) = 4096 * (unat va div 4096)"
    by (simp only: unat_and_not_4095 minus_mod_eq_mult_div)
  have d: "4096 * (n div 4096) div 2 ^ 39 = n div 2 ^ 39" "4096 * (n div 4096) div 2 ^ 30 = n div 2 ^ 30"
    "4096 * (n div 4096) div 2 ^ 21 = n div 2 ^ 21" "4096 * (n div 4096) div 2 ^ 12 = n div 2 ^ 12" for n :: nat
    by (simp_all add: div_mult2_eq [symmetric])
  show "idx4 (va AND - 0x1000) = idx4 va" "idx3 (va AND - 0x1000) = idx3 va"
  "idx2 (va AND - 0x1000) = idx2 va" "idx1 (va AND - 0x1000) = idx1 va"
    by (simp_all only: idx_unat u [unfolded not_4095] d)
qed

lemma canonical_page [simp]: "canonical_user va \<Longrightarrow> canonical_user (va AND - 0x1000)"
  using word_and_le2 [of va "- 0x1000"] by (auto simp: canonical_user_def elim: order_le_less_trans)

lemma leaf_entry_page [simp]: "leaf_entry s root (va AND - 0x1000) = leaf_entry s root va"
  by (simp add: leaf_entry_def split: option.split)

lemma same_page_iff:
  assumes "canonical_user v" "canonical_user w"
  shows "v AND PAGE_MASK = w AND PAGE_MASK \<longleftrightarrow>
    [idx4 v, idx3 v, idx2 v] = [idx4 w, idx3 w, idx2 w] \<and> idx1 v = idx1 w"
proof
  assume "v AND PAGE_MASK = w AND PAGE_MASK"
  then show "[idx4 v, idx3 v, idx2 v] = [idx4 w, idx3 w, idx2 w] \<and> idx1 v = idx1 w"
    using idx_page [of v] idx_page [of w] by simp
next
  assume "[idx4 v, idx3 v, idx2 v] = [idx4 w, idx3 w, idx2 w] \<and> idx1 v = idx1 w"
  then show "v AND PAGE_MASK = w AND PAGE_MASK"
    using assms by (intro idx_inj) auto
qed

text \<open>
  A write of a leaf entry: the entry of one page changes, and nothing else of the address
  space.
\<close>

lemma leaf_write:
  assumes ok: "vspace_ok s root" and va: "canonical_user va"
    and pt: "node s root [idx4 va, idx3 va, idx2 va] = Some pt"
    and s': "s' = wr s pt (idx1 va) e"
  shows "vspace_ok s' root" "\<And>q. user_path q \<Longrightarrow> node s' root q = node s root q"
    "\<And>w. canonical_user w \<Longrightarrow> leaf_entry s' root w = (if w AND PAGE_MASK = va AND PAGE_MASK then e else leaf_entry s root w)"
proof -
  let ?q = "[idx4 va, idx3 va, idx2 va]"
  note v = vspace_okD [OF ok]
  have uq: "user_path ?q" using va by (rule user_path_idx)
  have fr: "pool s' = pool s" "table s' = table s" by (simp_all add: s')
  have n: "node s' root q = node s root q" if "user_path q" for q
    unfolding s' using that by (intro node_wr_other [OF ok uq pt]) (auto simp: user_path_def)
  then show "user_path q \<Longrightarrow> node s' root q = node s root q" for q .
  show "vspace_ok s' root"
    using v unfolding vspace_ok_def fr by (auto simp: n)
  show "leaf_entry s' root w = (if w AND PAGE_MASK = va AND PAGE_MASK then e else leaf_entry s root w)"
    if w: "canonical_user w" for w
  proof (cases "[idx4 w, idx3 w, idx2 w] = ?q")
    case True
    then show ?thesis
      using pt n [OF uq] unfolding same_page_iff [OF w va] leaf_entry_def by (auto simp: s')
  next
    case False
    have "x \<noteq> pt" if "node s root [idx4 w, idx3 w, idx2 w] = Some x" for x
      using v(4) [OF user_path_idx [OF w] uq] that pt False by blast
    then show ?thesis
      using False n [OF user_path_idx [OF w]] unfolding same_page_iff [OF w va] leaf_entry_def
      by (auto simp: s' split: option.split)
  qed
qed

lemma vmm_user_map_spec:
  fixes flags :: u64
  assumes ok: "vspace_ok s (g_user_pml4 s)" and valid: "g_user_valid s" and va: "canonical_user virt"
    and al: "page_aligned virt" "page_aligned phys"
  defines "root \<equiv> g_user_pml4 s"
  defines "leaf \<equiv> (phys AND PTE_ADDR_MASK) OR PTE_P OR PTE_U OR
                 (flags AND (PTE_W OR PTE_NX OR PTE_PWT OR PTE_PCD))"
  obtains (full) s' where "vmm_user_map s virt phys flags = (-1, s')" "grows root s s'"
      "card (free_set (pool s)) < 3"
  | (mapped) s1 pt where "vmm_user_map s virt phys flags = (0, wr s1 pt (idx1 virt) leaf)"
      "grows root s s1" "node s1 root [idx4 virt, idx3 virt, idx2 virt] = Some pt"
proof -
  have tb: "table s root = Some root" using ok vspace_okD(3) by (simp add: root_def)
  note up = user_path_idx [OF va]
  have u: "user_path ([] @ [idx4 virt])" "user_path ([idx4 virt] @ [idx3 virt])"
    "user_path ([idx4 virt, idx3 virt] @ [idx2 virt])" using up by (simp_all add: user_path_def)
  note pre = valid va al [unfolded page_aligned_def] tb [unfolded root_def]
  have n0: "node s root [] = Some root" by simp
  from ok [folded root_def] u(1) n0 show thesis
  proof (cases rule: ensure_user_child_spec)
    case (full s1)
    then show thesis using pre that(1) [of s1] by (simp add: vmm_user_map_def root_def)
  next
    case c1: (child pdpt s1)
    have n1: "node s1 root [idx4 virt] = Some pdpt" using c1(3) by simp
    from growsD(1) [OF c1(2)] u(2) n1 show thesis
    proof (cases rule: ensure_user_child_spec)
      case (full s2)
      then show thesis using pre c1 grows_trans [OF c1(2) full(2)] that(1) [of s2]
        by (simp add: vmm_user_map_def root_def)
    next
      case c2: (child pd s2)
      have n2: "node s2 root [idx4 virt, idx3 virt] = Some pd" using c2(3) by simp
      have g2: "grows root s s2" by (rule grows_trans [OF c1(2) c2(2)])
      from growsD(1) [OF g2] u(3) n2 show thesis
      proof (cases rule: ensure_user_child_spec)
        case (full s3)
        then show thesis using pre c1 c2 grows_trans [OF g2 full(2)] that(1) [of s3]
          by (simp add: vmm_user_map_def root_def)
      next
        case c3: (child pt s3)
        then show thesis using pre c1 c2 grows_trans [OF g2 c3(2)] that(2) [of s3 pt]
          by (simp add: vmm_user_map_def root_def leaf_def)
      qed
    qed
  qed
qed

section \<open>Translation, mapping and unmapping\<close>

lemma vmm_user_translate_eq:
  assumes "vspace_ok s (g_user_pml4 s)" "g_user_valid s" "canonical_user va"
  shows "vmm_user_translate s va =
    (let e = leaf_entry s (g_user_pml4 s) va in
      if e AND PTE_P = 0 then None else Some ((e AND PTE_ADDR_MASK) OR (va AND 0xfff), e))"
  using assms vspace_okD(3) [OF assms(1)] by (simp add: vmm_user_translate_def translate_leaf_entry)

lemma leaf_fields [simp]:
  "((a AND PTE_ADDR_MASK) OR PTE_P OR PTE_U OR (flags AND (PTE_W OR PTE_NX OR PTE_PWT OR PTE_PCD))) AND PTE_P \<noteq> 0"
  "((a AND PTE_ADDR_MASK) OR PTE_P OR PTE_U OR (flags AND (PTE_W OR PTE_NX OR PTE_PWT OR PTE_PCD))) AND PTE_ADDR_MASK
     = a AND PTE_ADDR_MASK"
  by (simp_all add: bit.conj_disj_distrib2 and.assoc or.assoc)

lemma leaf_write_grows:
  assumes g: "grows root s s1" and va: "canonical_user va"
    and pt: "node s1 root [idx4 va, idx3 va, idx2 va] = Some pt"
    and s': "s' = wr s1 pt (idx1 va) e"
  shows "vspace_ok s' root"
    "\<And>w. canonical_user w \<Longrightarrow> leaf_entry s' root w =
        (if w AND PAGE_MASK = va AND PAGE_MASK then e else leaf_entry s root w)"
    "\<And>f. f \<notin> table_frames s root \<Longrightarrow> f \<notin> free_set (pool s) \<Longrightarrow> mem s' f = mem s f"
    "\<And>i. i \<ge> 256 \<Longrightarrow> rd s' root i = rd s root i"
    "g_user_pml4 s' = g_user_pml4 s" "g_user_valid s' = g_user_valid s"
proof -
  note l = leaf_write [OF growsD(1) [OF g] va pt s'] and g = growsD [OF g]
  show "vspace_ok s' root" by (rule l)
  show "leaf_entry s' root w = (if w AND PAGE_MASK = va AND PAGE_MASK then e else leaf_entry s root w)"
    if "canonical_user w" for w using l(3) [OF that] g(3) [OF that] by simp
  show "mem s' f = mem s f" if f: "f \<notin> table_frames s root" "f \<notin> free_set (pool s)" for f
  proof -
    have "pt \<in> table_frames s1 root" using pt user_path_idx [OF va] unfolding table_frames_def by auto
    then have "f \<noteq> pt" using g(5) f by auto
    then show ?thesis using g(4) [OF f] by (simp add: s' wr_def)
  qed
  show "rd s' root i = rd s root i" if "i \<ge> 256" for i
  proof -
    have "root \<noteq> pt" using vspace_okD(4) [OF g(1) user_path_idx [OF va], of "[]"] pt by (auto simp: user_path_def)
    then show ?thesis using g(7) [OF that] by (simp add: s')
  qed
qed (use growsD(8,9) [OF g] in \<open>simp_all add: s'\<close>)

lemma vmm_user_map_translate:
  assumes "vspace_ok s (g_user_pml4 s)" "g_user_valid s" "canonical_user virt"
    "page_aligned virt" "page_aligned phys" "vmm_user_map s virt phys flags = (r, s')"
  shows "vspace_ok s' (g_user_pml4 s) \<and> g_user_pml4 s' = g_user_pml4 s \<and> g_user_valid s'
    \<and> (r = 0 \<or> r = -1 \<and> card (free_set (pool s)) < 3)
    \<and> (\<forall>w. canonical_user w \<longrightarrow> vmm_user_translate s' w =
         (if r = 0 \<and> w AND PAGE_MASK = virt
          then Some ((phys AND PTE_ADDR_MASK) OR (w AND 0xfff),
                 (phys AND PTE_ADDR_MASK) OR PTE_P OR PTE_U OR
                 (flags AND (PTE_W OR PTE_NX OR PTE_PWT OR PTE_PCD)))
          else vmm_user_translate s w))
    \<and> (\<forall>f. f \<notin> table_frames s (g_user_pml4 s) \<longrightarrow> f \<notin> free_set (pool s) \<longrightarrow> mem s' f = mem s f)
    \<and> (\<forall>i\<ge>256. rd s' (g_user_pml4 s) i = rd s (g_user_pml4 s) i)"
  using assms(1-5)
proof (cases rule: vmm_user_map_spec [of s virt phys flags])
  case (full s1)
  then have r: "s1 = s'" "r = -1" using assms(6) by auto
  note g = growsD [OF full(2) [unfolded r]]
  have "vmm_user_translate s' w = vmm_user_translate s w" if "canonical_user w" for w
    using g that assms(1,2) by (simp add: vmm_user_translate_eq)
  then show ?thesis using assms(2) g full(3) r by simp
next
  case (mapped s1 pt)
  let ?e = "(phys AND PTE_ADDR_MASK) OR PTE_P OR PTE_U OR (flags AND (PTE_W OR PTE_NX OR PTE_PWT OR PTE_PCD))"
  have r: "s' = wr s1 pt (idx1 virt) ?e" "r = 0" using assms(6) mapped(1) by auto
  note l = leaf_write_grows [OF mapped(2) assms(3) mapped(3) r(1)]
  have v: "virt AND PAGE_MASK = virt" using assms(4) by (rule page_aligned_id)
  have "vmm_user_translate s' w = (if w AND PAGE_MASK = virt then Some ((phys AND PTE_ADDR_MASK) OR (w AND 0xfff), ?e)
          else vmm_user_translate s w)" if w: "canonical_user w" for w
    using vmm_user_translate_eq [OF assms(1,2) w] vmm_user_translate_eq [of s' w] l w assms(2) v leaf_fields [of phys flags]
    by (simp add: Let_def)
  then show ?thesis using assms(2) l r(2) by simp
qed

end
