(* ===== verification/Vmm_Spec.thy ===== *)
theory Vmm_Spec
  imports Vmm_Tree
begin

text \<open>
  The contract of the virtual memory manager: range checks, copy-on-write faults, the
  interface \<open>address_space\<close> with its interpretation on the model of \<^verbatim>\<open>vmm.c\<close>,
  creation and protection changes, and the properties of the component.
\<close>

section \<open>Checking a range\<close>

definition user_access :: "vmm \<Rightarrow> bool \<Rightarrow> u64 \<Rightarrow> bool" where
  "user_access s write a \<longleftrightarrow> (case vmm_user_translate s a of None \<Rightarrow> False
     | Some (phys, pte) \<Rightarrow> pte AND PTE_U \<noteq> 0 \<and> (write \<longrightarrow> pte AND PTE_W \<noteq> 0 \<or> pte AND PTE_COW \<noteq> 0))"

lemma user_access_iff:
  "user_access s write a \<longleftrightarrow> (\<exists>phys pte. vmm_user_translate s a = Some (phys, pte) \<and> pte AND PTE_U \<noteq> 0 \<and>
     (write \<longrightarrow> pte AND PTE_W \<noteq> 0 \<or> pte AND PTE_COW \<noteq> 0))"
  by (auto simp: user_access_def split: option.splits)

lemma walk_page [simp]: "walk s t (va AND - 0x1000) = walk s t va"
  by (simp add: walk_def)

lemma user_access_page:
  assumes "canonical_user a"
  shows "user_access s write (a AND - 0x1000) = user_access s write a"
  using assms by (auto simp: user_access_def vmm_user_translate_def translate_leaf_def Let_def
      split: option.splits if_splits)

lemma range_ok_step:
  "range_ok_loop s va lst write \<longleftrightarrow> user_access s write va \<and>
     (va = lst \<or> \<not> va > USER_TOP - PAGE_SIZE \<and> range_ok_loop s (va + PAGE_SIZE) lst write)"
  by (subst range_ok_loop.simps) (auto simp: user_access_def split: option.splits)

lemma range_ok_loop_iff:
  assumes "page_aligned va" "page_aligned lst" "va \<le> lst" "lst < USER_TOP"
  shows "range_ok_loop s va lst write \<longleftrightarrow>
    (\<forall>p. page_aligned p \<longrightarrow> va \<le> p \<longrightarrow> p \<le> lst \<longrightarrow> user_access s write p)"
  using assms
proof (induction "unat lst - unat va" arbitrary: va rule: less_induct)
  case less
  show ?case
  proof (cases "va = lst")
    case True
    then show ?thesis using less.prems(1) by (subst range_ok_step) (auto dest: order_antisym)
  next
    case False
    then have lt: "va < lst" using less.prems(3) by simp
    note nx = page_next_no_wrap [OF less.prems(1,2) lt]
    have "\<not> va > USER_TOP - PAGE_SIZE"
      using nx(1,2) less.prems(4) by (simp add: word_less_nat_alt)
    moreover have "range_ok_loop s (va + PAGE_SIZE) lst write \<longleftrightarrow>
        (\<forall>p. page_aligned p \<longrightarrow> va + PAGE_SIZE \<le> p \<longrightarrow> p \<le> lst \<longrightarrow> user_access s write p)"
      using nx less.prems lt by (intro less.hyps) (auto simp: word_less_nat_alt)
    moreover have "va \<le> p \<longleftrightarrow> p = va \<or> va + PAGE_SIZE \<le> p" if "page_aligned p" for p
      using page_aligned_step [OF less.prems(1) that _ _ less.prems(2) lt] nx(5) by auto
    ultimately show ?thesis
      using False less.prems by (subst range_ok_step) auto
  qed
qed

lemma page_floor_mono: "m \<le> n \<Longrightarrow> m - m mod 4096 \<le> n - n mod (4096 :: nat)"
  by (simp add: minus_mod_eq_mult_div div_le_mono)

section \<open>Copy on write\<close>

lemma bit_ucast_byte: "bit (ucast (b :: u8) :: u64) n \<longleftrightarrow> n < 8 \<and> bit b n"
  by (auto simp: bit_simps dest: bit_imp_le_length)

lemma bit_255: "bit (0xFF :: int) n \<longleftrightarrow> n < 8"
proof -
  have "(0xFF :: int) = mask 8" by (simp add: mask_eq_exp_minus_1)
  then show ?thesis by (simp only: bit_mask_iff) auto
qed

lemma bit_set_byte:
  assumes "b < 64"
  shows "bit ((w AND NOT (push_bit (8 * k) 0xFF)) OR push_bit (8 * k) (ucast (ucast (drop_bit (8 * k) (v :: u64)) :: u8))) b
    \<longleftrightarrow> bit (if b div 8 = k then v else (w :: u64)) b"
proof -
  have "b div 8 = k \<longleftrightarrow> 8 * k \<le> b \<and> b - 8 * k < 8" by arith
  then show ?thesis
    using assms by (auto simp: bit_simps bit_255 bit_ucast_byte)
qed

lemma bit_set_frame_byte:
  assumes "b < 64"
  shows "bit (set_frame_byte m dst j (frame_byte m' src j) f i) b \<longleftrightarrow>
    bit (if f = dst \<and> i = j div 8 \<and> b div 8 = j mod 8 then m' src i else m f i) b"
  using bit_set_byte [OF assms, of "m dst i" "j mod 8" "m' src i"]
  by (cases "f = dst \<and> i = j div 8") (auto simp: set_frame_byte_def frame_byte_def)

lemma copy_frame_upto:
  assumes "src \<noteq> dst" "b < 64"
  shows "bit (fold (\<lambda>j m. set_frame_byte m dst j (frame_byte m src j)) [0..<n] m f i) b \<longleftrightarrow>
    bit (if f = dst \<and> 8 * i + b div 8 < n then m src i else m f i) b"
proof (induction n)
  case (Suc n)
  let ?m = "fold (\<lambda>j m. set_frame_byte m dst j (frame_byte m src j)) [0..<n] m"
  have src: "?m src k = m src k" for k
    using assms(1) by (induction n) (simp_all add: set_frame_byte_def)
  have "8 * i + b div 8 < Suc n \<longleftrightarrow> 8 * i + b div 8 < n \<or> i = n div 8 \<and> b div 8 = n mod 8"
  proof -
    have "8 * i + c < Suc (8 * a + r) \<longleftrightarrow> 8 * i + c < 8 * a + r \<or> i = a \<and> c = r"
      if "c < 8" "r < 8" for c r a using that by arith
    from this [of "b div 8" "n mod 8" "n div 8"] show ?thesis using assms(2) by simp
  qed
  moreover have "bit (set_frame_byte ?m dst n (frame_byte ?m src n) f i) b \<longleftrightarrow>
    bit (if f = dst \<and> i = n div 8 \<and> b div 8 = n mod 8 then m src i else ?m f i) b"
    using bit_set_frame_byte [OF assms(2), of ?m dst n ?m src f i] by (simp add: src)
  ultimately show ?case using Suc by auto
qed simp

lemma copy_frame_eq:
  assumes "src \<noteq> dst"
  shows "copy_frame m src dst f i = (if f = dst \<and> i < 512 then m src i else m f i)"
proof (rule bit_word_eqI)
  fix b :: nat assume "b < LENGTH(64)"
  then have b: "b < 64" by simp
  then have "8 * i + b div 8 < 4096 \<longleftrightarrow> i < 512" by arith
  then show "bit (copy_frame m src dst f i) b \<longleftrightarrow> bit (if f = dst \<and> i < 512 then m src i else m f i) b"
    using copy_frame_upto [OF assms b, of 4096 m f i] by (simp add: copy_frame_def)
qed

lemma cow_walk_leaf:
  assumes ok: "vspace_ok s (cr3 AND PAGE_MASK)" and va: "canonical_user va" "page_aligned va"
  shows "cow_walk s cr3 va = map_option (\<lambda>pt. (pt, idx1 va)) (node s (cr3 AND PAGE_MASK) [idx4 va, idx3 va, idx2 va])"
  using vspace_okD(3) [OF ok] va
  by (auto simp: cow_walk_def canonical_user_def page_aligned_def walk_node split: option.split)

text \<open>
  A page of the address space, with the entry the fault finds.
\<close>

definition cow_entry :: "u64 \<Rightarrow> bool" where
  "cow_entry e \<longleftrightarrow> e AND PTE_P \<noteq> 0 \<and> e AND PTE_U \<noteq> 0 \<and> e AND PTE_COW \<noteq> 0 \<and> e AND PTE_W = 0"

lemma cow_fault_rejects:
  assumes ok: "vspace_ok s (cr3 AND PAGE_MASK)" and va: "canonical_user va"
    and e: "\<not> cow_entry (leaf_entry s (cr3 AND PAGE_MASK) va)"
  shows "vmm_user_cow_fault s cr3 va = (-1, s)"
  using e cow_walk_leaf [OF ok canonical_page [OF va]] 
  by (auto simp: vmm_user_cow_fault_def cow_entry_def leaf_entry_def Let_def split: option.splits)

lemma cow_fault_leaf:
  assumes ok: "vspace_ok s (cr3 AND PAGE_MASK)" and va: "canonical_user va"
    and e: "e = leaf_entry s (cr3 AND PAGE_MASK) va" "cow_entry e"
  obtains pt where "node s (cr3 AND PAGE_MASK) [idx4 va, idx3 va, idx2 va] = Some pt" "rd s pt (idx1 va) = e"
    "cow_walk s cr3 (va AND PAGE_MASK) = Some (pt, idx1 va)"
proof (cases "node s (cr3 AND PAGE_MASK) [idx4 va, idx3 va, idx2 va]")
  case None
  then show thesis using e by (simp add: leaf_entry_def cow_entry_def)
next
  case (Some pt)
  then show thesis
    using that [of pt] e(1) cow_walk_leaf [OF ok canonical_page [OF va]] by (simp add: leaf_entry_def)
qed

lemma cow_fault_promotes:
  assumes ok: "vspace_ok s (cr3 AND PAGE_MASK)" and va: "canonical_user va"
    and e: "e = leaf_entry s (cr3 AND PAGE_MASK) va" "cow_entry e"
    and one: "pmm_page_refcount (pool s) (e AND PTE_ADDR_MASK) = 1"
  obtains pt where "node s (cr3 AND PAGE_MASK) [idx4 va, idx3 va, idx2 va] = Some pt"
    "vmm_user_cow_fault s cr3 va = (0, wr s pt (idx1 va) ((e OR PTE_W) AND NOT PTE_COW))"
proof -
  obtain pt where pt: "node s (cr3 AND PAGE_MASK) [idx4 va, idx3 va, idx2 va] = Some pt" "rd s pt (idx1 va) = e"
    "cow_walk s cr3 (va AND PAGE_MASK) = Some (pt, idx1 va)" using cow_fault_leaf [OF ok va e] .
  have "vmm_user_cow_fault s cr3 va = (0, wr s pt (idx1 va) ((e OR PTE_W) AND NOT PTE_COW))"
    using pt(2,3) e(2) one unfolding vmm_user_cow_fault_def cow_entry_def Let_def by simp
  then show thesis using pt(1) that by blast
qed

lemma cow_fault_copies:
  assumes ok: "vspace_ok s (cr3 AND PAGE_MASK)" and va: "canonical_user va"
    and e: "e = leaf_entry s (cr3 AND PAGE_MASK) va" "cow_entry e"
    and shared: "pmm_page_refcount (pool s) (e AND PTE_ADDR_MASK) \<noteq> 1"
    and old: "e AND PTE_ADDR_MASK < PMM_TRACK_LIMIT" and ne: "free_set (pool s) \<noteq> {}"
  defines "np \<equiv> fst (pmm_alloc_page (pool s))"
  obtains pt where "node s (cr3 AND PAGE_MASK) [idx4 va, idx3 va, idx2 va] = Some pt"
    "vmm_user_cow_fault s cr3 va = (0, free_page (wr ((snd (alloc_page s))\<lparr>mem := copy_frame (mem s) (e AND PTE_ADDR_MASK) np\<rparr>)
        pt (idx1 va) (((np AND PTE_ADDR_MASK) OR (((e AND 0xFFF) AND NOT PTE_COW) OR (PTE_P OR PTE_U OR PTE_W)) OR (e AND PTE_NX)) AND NOT PTE_COW))
        (e AND PTE_ADDR_MASK))"
proof -
  obtain pt where pt: "node s (cr3 AND PAGE_MASK) [idx4 va, idx3 va, idx2 va] = Some pt" "rd s pt (idx1 va) = e"
    "cow_walk s cr3 (va AND PAGE_MASK) = Some (pt, idx1 va)" using cow_fault_leaf [OF ok va e] .
  note v = vspace_okD [OF ok]
  have np: "np \<in> free_set (pool s)" using pmm_alloc_frame(7) [OF v(1) ne] by (simp add: np_def)
  have npl: "np \<noteq> 0" "np < PMM_TRACK_LIMIT"
    using np usable_page_bounds(2,4) [of "pool s" np] v(1) by (auto simp: pmm_ok_def pmm_inv_def free_set_def)
  have h: "hhdm_ok (pool (snd (alloc_page s)))" using v(2) pmm_alloc_frame(4) [OF v(1)] by (simp add: hhdm_ok_def)
  note virt = hhdm_ok_virt [OF h old] hhdm_ok_virt [OF h npl(2)]
  have "vmm_user_cow_fault s cr3 va = (0, free_page (wr ((snd (alloc_page s))\<lparr>mem := copy_frame (mem s) (e AND PTE_ADDR_MASK) np\<rparr>)
        pt (idx1 va) (((np AND PTE_ADDR_MASK) OR (((e AND 0xFFF) AND NOT PTE_COW) OR (PTE_P OR PTE_U OR PTE_W)) OR (e AND PTE_NX)) AND NOT PTE_COW))
        (e AND PTE_ADDR_MASK))"
    using pt(2,3) e(2) shared npl(1) virt unfolding vmm_user_cow_fault_def cow_entry_def Let_def np_def
    by (simp add: case_prod_beta)
  then show thesis using pt(1) that by blast
qed

lemma private_leaf_fields:
  "(((np AND PTE_ADDR_MASK) OR (((e AND 0xFFF) AND NOT PTE_COW) OR (PTE_P OR PTE_U OR PTE_W)) OR (e AND PTE_NX)) AND NOT PTE_COW)
     AND PTE_ADDR_MASK = np AND PTE_ADDR_MASK"
  "(((np AND PTE_ADDR_MASK) OR (((e AND 0xFFF) AND NOT PTE_COW) OR (PTE_P OR PTE_U OR PTE_W)) OR (e AND PTE_NX)) AND NOT PTE_COW)
     AND 0x207 = 7"
  by (simp_all add: bit.conj_disj_distrib2 and.assoc or.assoc)

lemma and_single_bit: "x AND 2 ^ n = (if bit x n then 2 ^ n else 0 :: u64)"
  by (rule bit_word_eqI) (auto simp: bit_simps bit_exp_iff)

lemma cow_entry_low: "cow_entry e \<Longrightarrow> e AND 7 = 5"
proof -
  assume c: "cow_entry e"
  have "e AND 7 = (e AND 2 ^ 0) OR (e AND 2 ^ 1) OR (e AND 2 ^ 2)"
    by (simp add: bit.conj_disj_distrib [symmetric])
  then show ?thesis
    using c and_single_bit [of e 0] and_single_bit [of e 1] and_single_bit [of e 2]
    by (simp add: cow_entry_def split: if_splits)
qed

lemma promoted_leaf_fields:
  "((e OR PTE_W) AND NOT PTE_COW) AND PTE_ADDR_MASK = e AND PTE_ADDR_MASK"
  "cow_entry e \<Longrightarrow> ((e OR PTE_W) AND NOT PTE_COW) AND 0x207 = 7"
  using cow_entry_low [of e] by (simp_all add: bit.conj_disj_distrib2 and.assoc or.assoc)

lemma refcount_managed:
  "pmm_ok s \<Longrightarrow> p \<in> managed_pages s \<Longrightarrow> unat (pmm_page_refcount s p) = page_ref_count s p"
  using usable_page_bounds [of s p]
  by (auto simp: pmm_page_refcount_def page_ref_count_def managed_pages_def pmm_ok_def pmm_inv_def
      usable_page_def simp flip: not_le)

lemma node_free_page [simp]:
  assumes "pmm_ok (pool s)"
  shows "node (free_page s p) = node s" "table (free_page s p) = table s"
proof -
  show t: "table (free_page s p) = table s"
    using pmm_free_frame(4) [OF assms] by (intro table_cong) simp
  show "node (free_page s p) = node s"
    by (intro ext node_cong) (simp add: walk_step_def Let_def t)
qed

lemma fill_free_frame_grows:
  assumes ok: "vspace_ok s root" and ne: "free_set (pool s) \<noteq> {}"
    and m: "\<And>f. f \<noteq> fst (pmm_alloc_page (pool s)) \<Longrightarrow> m f = mem s f"
  shows "grows root s ((snd (alloc_page s))\<lparr>mem := m\<rparr>)"
proof -
  let ?a = "snd (alloc_page s)" and ?np = "fst (pmm_alloc_page (pool s))"
  let ?s = "?a\<lparr>mem := m\<rparr>"
  note v = vspace_okD [OF ok] and g = growsD [OF alloc_page_grows [OF ok]]
  have np: "?np \<in> free_set (pool s)" using pmm_alloc_frame(7) [OF v(1) ne] .
  then have out: "?np \<notin> table_frames s root" using v(5) unfolding table_frames_def by blast
  have tb: "table ?s = table s" using pmm_alloc_frame(4) [OF v(1)] by (intro table_cong) simp
  have rd: "rd ?s f i = rd s f i" if "f \<noteq> ?np" for f i using that m by (simp add: rd_def)
  have rdt: "rd ?s f i = rd s f i" if "f \<in> table_frames s root" for f i using rd out that by metis
  have n: "node ?s root q = node s root q" if "user_path q" for q
    using that by (intro node_frame) (simp_all add: walk_step_def Let_def tb rdt)
  have no: "f \<noteq> ?np" if "user_path q" "node s root q = Some f" for q f
    using out that unfolding table_frames_def by blast
  show ?thesis
    unfolding grows_def
  proof (intro conjI allI impI ballI)
    show "vspace_ok ?s root"
      using v vspace_okD(1,2) [OF g(1)] g(6) unfolding vspace_ok_def tb by (simp add: n) blast
    show "mem ?s f = mem s f" if "f \<notin> free_set (pool s)" for f using m [of f] np that by auto
    show "leaf_entry ?s root va = leaf_entry s root va" if "canonical_user va" for va
      using user_path_idx [OF that] no rd by (auto simp: leaf_entry_def n split: option.split)
    show "rd ?s root i = rd s root i" for i using rd [of root i] out table_frames_0 by metis
    show "table_frames ?s root \<subseteq> table_frames s root \<union> free_set (pool s)"
      by (auto simp: table_frames_def n)
  qed (use g(6,8-11) n in auto)
qed

lemma release_shared_ok:
  assumes ok: "vspace_ok s root" and p: "p \<in> managed_pages (pool s)" "2 \<le> page_ref_count (pool s) p"
  shows "vspace_ok (free_page s p) root" "free_set (pool (free_page s p)) = free_set (pool s)"
    "page_ref_count (pool (free_page s p)) p = page_ref_count (pool s) p - 1"
    "\<And>q. q \<in> managed_pages (pool s) \<Longrightarrow> q \<noteq> p \<Longrightarrow> page_ref_count (pool (free_page s p)) q = page_ref_count (pool s) q"
proof -
  note v = vspace_okD [OF ok]
  note av = pmm_pool.avail_iff [OF v(1)] pmm_pool.avail_iff [OF pmm_free_ok [OF v(1)]] pmm_pool.free_managed [OF v(1)]
  have r: "page_ref_count (pmm_free_page (pool s) p) q = (if q = p then page_ref_count (pool s) q - 1 else page_ref_count (pool s) q)"
    if "q \<in> managed_pages (pool s)" for q
    using pmm_pool.free_refs [OF v(1) p(1) that] .
  show fs: "free_set (pool (free_page s p)) = free_set (pool s)"
    using p r by (auto simp: av split: if_splits)
  show "page_ref_count (pool (free_page s p)) p = page_ref_count (pool s) p - 1" using r [OF p(1)] by simp
  show "\<And>q. q \<in> managed_pages (pool s) \<Longrightarrow> q \<noteq> p \<Longrightarrow> page_ref_count (pool (free_page s p)) q = page_ref_count (pool s) q"
    using r by simp
  show "vspace_ok (free_page s p) root"
    using v fs pmm_free_ok [OF v(1)] pmm_free_frame(4) [OF v(1)]
    unfolding vspace_ok_def node_free_page [OF v(1)] by (simp add: hhdm_ok_def)
qed

section \<open>The interface of an address space\<close>

text \<open>
  What the system calls rely on when they populate and clear a range: \<open>entry\<close> is the leaf
  entry of a mapped page.
\<close>

locale address_space =
  fixes entry :: "'s \<Rightarrow> u64 \<Rightarrow> u64 option"
    and map_page :: "'s \<Rightarrow> u64 \<Rightarrow> u64 \<Rightarrow> u64 \<Rightarrow> int \<times> 's"
    and unmap_page :: "'s \<Rightarrow> u64 \<Rightarrow> int \<times> u64 option \<times> 's"
    and leaf :: "u64 \<Rightarrow> u64 \<Rightarrow> u64"
    and user_page :: "u64 \<Rightarrow> bool"
    and ok :: "'s \<Rightarrow> bool"
  assumes map_ok: "ok s \<Longrightarrow> user_page v \<Longrightarrow> page_aligned p \<Longrightarrow> ok (snd (map_page s v p f))"
    and map_entry: "ok s \<Longrightarrow> user_page v \<Longrightarrow> page_aligned p \<Longrightarrow> user_page w \<Longrightarrow>
          entry (snd (map_page s v p f)) w =
            (if fst (map_page s v p f) = 0 \<and> w = v then Some (leaf p f) else entry s w)"
    and unmap_ok: "ok s \<Longrightarrow> user_page v \<Longrightarrow> ok (snd (snd (unmap_page s v)))"
    and unmap_entry: "ok s \<Longrightarrow> user_page v \<Longrightarrow> user_page w \<Longrightarrow>
          entry (snd (snd (unmap_page s v))) w = (if w = v then None else entry s w)"
    and unmap_result: "ok s \<Longrightarrow> user_page v \<Longrightarrow>
          (fst (unmap_page s v) = 0 \<longleftrightarrow> entry s v \<noteq> None)
          \<and> fst (snd (unmap_page s v)) = map_option (\<lambda>e. e AND PTE_ADDR_MASK) (entry s v)"
    and leaf_addr: "page_aligned p \<Longrightarrow> leaf p f AND PTE_ADDR_MASK = p AND PTE_ADDR_MASK"
begin

text \<open>Mapping a list of pages until the first failure, and clearing a list of pages.\<close>

fun map_pages :: "'s \<Rightarrow> (u64 \<times> u64) list \<Rightarrow> u64 \<Rightarrow> bool \<times> 's" where
  "map_pages s [] f = (True, s)"
| "map_pages s ((v, p) # ps) f =
     (if fst (map_page s v p f) = 0 then map_pages (snd (map_page s v p f)) ps f
      else (False, snd (map_page s v p f)))"

fun unmap_pages :: "'s \<Rightarrow> u64 list \<Rightarrow> u64 option list \<times> 's" where
  "unmap_pages s [] = ([], s)"
| "unmap_pages s (v # vs) =
     (let (rs, t) = unmap_pages (snd (snd (unmap_page s v))) vs in (fst (snd (unmap_page s v)) # rs, t))"

definition page_list :: "(u64 \<times> u64) list \<Rightarrow> bool" where
  "page_list ps \<longleftrightarrow> distinct (map fst ps) \<and> (\<forall>(v, p)\<in>set ps. user_page v \<and> page_aligned p)"

lemma map_pages_ok: "ok s \<Longrightarrow> page_list ps \<Longrightarrow> ok (snd (map_pages s ps f))"
  by (induction s ps f rule: map_pages.induct) (auto simp: page_list_def map_ok)

lemma map_pages_entry:
  "ok s \<Longrightarrow> page_list ps \<Longrightarrow> fst (map_pages s ps f) \<Longrightarrow> user_page w \<Longrightarrow>
     entry (snd (map_pages s ps f)) w = (case map_of ps w of Some p \<Rightarrow> Some (leaf p f) | None \<Rightarrow> entry s w)"
proof (induction s ps f rule: map_pages.induct)
  case (2 s v p ps f)
  have pl: "page_list ps" "user_page v" "page_aligned p" "v \<notin> fst ` set ps"
    using 2(3) by (auto simp: page_list_def)
  have c: "fst (map_page s v p f) = 0" using 2(4) by (auto split: if_splits)
  have "entry (snd (map_pages s ((v, p) # ps) f)) w =
      (case map_of ps w of Some p \<Rightarrow> Some (leaf p f) | None \<Rightarrow> entry (snd (map_page s v p f)) w)"
    using 2(1) [OF c] map_ok [OF 2(2) pl(2,3)] 2(4,5) c pl(1) by simp
  then show ?case
    using map_entry [OF 2(2) pl(2,3) 2(5)] c pl(4) map_of_eq_None_iff [of ps v] by (auto split: option.split)
qed simp

lemma map_pages_outside:
  "ok s \<Longrightarrow> page_list ps \<Longrightarrow> user_page w \<Longrightarrow> w \<notin> fst ` set ps \<Longrightarrow>
     entry (snd (map_pages s ps f)) w = entry s w"
  by (induction s ps f rule: map_pages.induct) (auto simp: page_list_def map_ok map_entry)

lemma unmap_pages_entry:
  "ok s \<Longrightarrow> (\<forall>v\<in>set vs. user_page v) \<Longrightarrow> user_page w \<Longrightarrow>
     entry (snd (unmap_pages s vs)) w = (if w \<in> set vs then None else entry s w)"
  by (induction s vs rule: unmap_pages.induct) (auto simp: unmap_ok unmap_entry case_prod_beta)

text \<open>
  Clearing what a call mapped, whether it succeeded or stopped half way, restores the
  mappings, if the pages were not mapped before.
\<close>

lemma map_unmap_restores:
  assumes "ok s" "page_list ps" "\<forall>v\<in>fst ` set ps. entry s v = None" "user_page w"
  shows "entry (snd (unmap_pages (snd (map_pages s ps f)) (map fst ps))) w = entry s w"
proof -
  have "\<forall>v\<in>set (map fst ps). user_page v" using assms(2) by (auto simp: page_list_def)
  then show ?thesis
    using assms map_pages_outside [OF assms(1,2,4)] unmap_pages_entry [OF map_pages_ok [OF assms(1,2)] _ assms(4)]
    by (auto simp: image_iff)
qed

lemma unmap_pages_frames:
  "ok s \<Longrightarrow> distinct vs \<Longrightarrow> (\<forall>v\<in>set vs. user_page v) \<Longrightarrow>
     fst (unmap_pages s vs) = map (\<lambda>v. map_option (\<lambda>e. e AND PTE_ADDR_MASK) (entry s v)) vs"
proof (induction s vs rule: unmap_pages.induct)
  case (2 s v vs)
  have "fst (unmap_pages (snd (snd (unmap_page s v))) vs) =
      map (\<lambda>w. map_option (\<lambda>e. e AND PTE_ADDR_MASK) (entry (snd (snd (unmap_page s v))) w)) vs"
    using 2 unmap_ok by simp
  also have "\<dots> = map (\<lambda>v. map_option (\<lambda>e. e AND PTE_ADDR_MASK) (entry s v)) vs"
    using 2(2-4) by (auto simp: unmap_entry)
  finally show ?case using 2(2-4) unmap_result [of s v] by (simp add: case_prod_beta)
qed simp

text \<open>The frames a successful mapping used come back, in order, when the range is cleared.\<close>

lemma map_unmap_frames:
  assumes "ok s" "page_list ps" "fst (map_pages s ps f)"
  shows "fst (unmap_pages (snd (map_pages s ps f)) (map fst ps)) = map (\<lambda>(v, p). Some (p AND PTE_ADDR_MASK)) ps"
proof -
  have u: "\<forall>v\<in>set (map fst ps). user_page v" "distinct (map fst ps)" using assms(2) by (auto simp: page_list_def)
  have "map_option (\<lambda>e. e AND PTE_ADDR_MASK) (entry (snd (map_pages s ps f)) v) = Some (p AND PTE_ADDR_MASK)"
    if vp: "(v, p) \<in> set ps" for v p
    using vp assms u(2) map_pages_entry [OF assms, of v] leaf_addr by (auto simp: page_list_def map_of_is_SomeI)
  then show ?thesis
    using unmap_pages_frames [OF map_pages_ok [OF assms(1,2)] u(2,1)] by auto
qed

end

definition user_entry :: "vmm \<Rightarrow> u64 \<Rightarrow> u64 option" where
  "user_entry s va = map_option snd (vmm_user_translate s va)"

definition user_space_ok :: "vmm \<Rightarrow> bool" where
  "user_space_ok s \<longleftrightarrow> vspace_ok s (g_user_pml4 s) \<and> g_user_valid s"

definition user_leaf :: "u64 \<Rightarrow> u64 \<Rightarrow> u64" where
  "user_leaf phys flags = (phys AND PTE_ADDR_MASK) OR PTE_P OR PTE_U OR
     (flags AND (PTE_W OR PTE_NX OR PTE_PWT OR PTE_PCD))"

definition user_page :: "u64 \<Rightarrow> bool" where
  "user_page v \<longleftrightarrow> canonical_user v \<and> page_aligned v"

lemma user_entry_leaf:
  "user_space_ok s \<Longrightarrow> canonical_user va \<Longrightarrow> user_entry s va =
     (if leaf_entry s (g_user_pml4 s) va AND PTE_P = 0 then None else Some (leaf_entry s (g_user_pml4 s) va))"
  by (simp add: user_entry_def user_space_ok_def vmm_user_translate_eq Let_def)

lemma vmm_user_unmap_spec:
  assumes s: "user_space_ok s" and v: "user_page v"
  shows "user_space_ok (snd (snd (vmm_user_unmap s v)))"
    "canonical_user w \<Longrightarrow> user_entry (snd (snd (vmm_user_unmap s v))) w =
       (if w AND PAGE_MASK = v then None else user_entry s w)"
    "fst (vmm_user_unmap s v) = (if user_entry s v = None then -1 else 0)"
    "fst (snd (vmm_user_unmap s v)) = map_option (\<lambda>e. e AND PTE_ADDR_MASK) (user_entry s v)"
    "f \<notin> table_frames s (g_user_pml4 s) \<Longrightarrow> mem (snd (snd (vmm_user_unmap s v))) f = mem s f"
    "pool (snd (snd (vmm_user_unmap s v))) = pool s"
proof -
  let ?root = "g_user_pml4 s"
  have ok: "vspace_ok s ?root" "g_user_valid s" and va: "canonical_user v" "page_aligned v"
    using s v by (auto simp: user_space_ok_def user_page_def)
  note le = user_entry_leaf [OF s va(1)]
  have pm: "v AND PAGE_MASK = v" by (rule page_aligned_id [OF va(2)])
  have same: "user_entry s w = user_entry s v" if "canonical_user w" "w AND PAGE_MASK = v" for w
  proof -
    have "leaf_entry s ?root w = leaf_entry s ?root v" using that(2) leaf_entry_page by (metis not_4095)
    then show ?thesis using user_entry_leaf [OF s that(1)] le by simp
  qed
  have eq: "vmm_user_unmap s v = (case node s ?root [idx4 v, idx3 v, idx2 v] of None \<Rightarrow> (-1, None, s)
      | Some pt \<Rightarrow> if rd s pt (idx1 v) AND PTE_P = 0 then (-1, None, s)
         else (0, Some (rd s pt (idx1 v) AND PTE_ADDR_MASK), wr s pt (idx1 v) 0))"
    using ok va vspace_okD(3) [OF ok(1)]
    by (simp add: vmm_user_unmap_def page_aligned_def walk_node Let_def split: option.split)
  consider (none) "user_entry s v = None" "vmm_user_unmap s v = (-1, None, s)"
    | (some) pt where "node s ?root [idx4 v, idx3 v, idx2 v] = Some pt" "leaf_entry s ?root v AND PTE_P \<noteq> 0"
        "vmm_user_unmap s v = (0, Some (leaf_entry s ?root v AND PTE_ADDR_MASK), wr s pt (idx1 v) 0)"
    using eq le by (cases "node s ?root [idx4 v, idx3 v, idx2 v]") (auto simp: leaf_entry_def split: if_splits)
  then have "user_space_ok (snd (snd (vmm_user_unmap s v)))
    \<and> (canonical_user w \<longrightarrow> user_entry (snd (snd (vmm_user_unmap s v))) w =
       (if w AND PAGE_MASK = v then None else user_entry s w))
    \<and> fst (vmm_user_unmap s v) = (if user_entry s v = None then -1 else 0)
    \<and> fst (snd (vmm_user_unmap s v)) = map_option (\<lambda>e. e AND PTE_ADDR_MASK) (user_entry s v)
    \<and> (f \<notin> table_frames s ?root \<longrightarrow> mem (snd (snd (vmm_user_unmap s v))) f = mem s f)
    \<and> pool (snd (snd (vmm_user_unmap s v))) = pool s"
  proof cases
    case none
    then show ?thesis using s same by auto
  next
    case some
    note l = leaf_write [OF ok(1) va(1) some(1) refl]
    have s': "user_space_ok (wr s pt (idx1 v) 0)" using l(1) [of 0] ok(2) by (simp add: user_space_ok_def)
    moreover have "user_entry (wr s pt (idx1 v) 0) w = (if w AND PAGE_MASK = v then None else user_entry s w)"
      if "canonical_user w"
      using user_entry_leaf [OF s' that] user_entry_leaf [OF s that] l(3) [OF that, of 0] pm by simp
    moreover have "f \<noteq> pt" if "f \<notin> table_frames s ?root"
      using that some(1) user_path_idx [OF va(1)] unfolding table_frames_def by blast
    ultimately show ?thesis using some le by (auto simp: wr_def)
  qed
  then show "user_space_ok (snd (snd (vmm_user_unmap s v)))"
    "canonical_user w \<Longrightarrow> user_entry (snd (snd (vmm_user_unmap s v))) w =
       (if w AND PAGE_MASK = v then None else user_entry s w)"
    "fst (vmm_user_unmap s v) = (if user_entry s v = None then -1 else 0)"
    "fst (snd (vmm_user_unmap s v)) = map_option (\<lambda>e. e AND PTE_ADDR_MASK) (user_entry s v)"
    "f \<notin> table_frames s (g_user_pml4 s) \<Longrightarrow> mem (snd (snd (vmm_user_unmap s v))) f = mem s f"
    "pool (snd (snd (vmm_user_unmap s v))) = pool s"
    by auto
qed

lemma vmm_user_map_entry:
  assumes s: "user_space_ok s" and v: "user_page v" and p: "page_aligned p"
  shows "user_space_ok (snd (vmm_user_map s v p f))"
    "user_page w \<Longrightarrow> user_entry (snd (vmm_user_map s v p f)) w =
       (if fst (vmm_user_map s v p f) = 0 \<and> w = v then Some (user_leaf p f) else user_entry s w)"
proof -
  have ok: "vspace_ok s (g_user_pml4 s)" "g_user_valid s" "canonical_user v" "page_aligned v"
    using s v by (auto simp: user_space_ok_def user_page_def)
  obtain r s' where m: "vmm_user_map s v p f = (r, s')" by (cases "vmm_user_map s v p f")
  note c = vmm_user_map_translate [OF ok p m]
  show "user_space_ok (snd (vmm_user_map s v p f))" using c m by (simp add: user_space_ok_def)
  show "user_entry (snd (vmm_user_map s v p f)) w =
       (if fst (vmm_user_map s v p f) = 0 \<and> w = v then Some (user_leaf p f) else user_entry s w)" if w: "user_page w"
    using c m w page_aligned_id [of w] unfolding user_entry_def user_leaf_def user_page_def by simp
qed

interpretation user_space: address_space user_entry vmm_user_map vmm_user_unmap user_leaf user_page user_space_ok
proof
  fix s v p f w
  assume s: "user_space_ok s" and v: "user_page v"
  show "user_space_ok (snd (vmm_user_map s v p f))" if "page_aligned p" using vmm_user_map_entry(1) [OF s v that] .
  show "user_entry (snd (vmm_user_map s v p f)) w =
       (if fst (vmm_user_map s v p f) = 0 \<and> w = v then Some (user_leaf p f) else user_entry s w)"
    if "page_aligned p" "user_page w" using vmm_user_map_entry(2) [OF s v that] .
  show "user_space_ok (snd (snd (vmm_user_unmap s v)))" using vmm_user_unmap_spec(1) [OF s v] .
  show "user_entry (snd (snd (vmm_user_unmap s v))) w = (if w = v then None else user_entry s w)" if "user_page w"
    using vmm_user_unmap_spec(2) [OF s v, of w] that page_aligned_id [of w] by (simp add: user_page_def)
  show "(fst (vmm_user_unmap s v) = 0 \<longleftrightarrow> user_entry s v \<noteq> None)
    \<and> fst (snd (vmm_user_unmap s v)) = map_option (\<lambda>e. e AND PTE_ADDR_MASK) (user_entry s v)"
    using vmm_user_unmap_spec(3,4) [OF s v] by auto
next
  fix p f show "user_leaf p f AND PTE_ADDR_MASK = p AND PTE_ADDR_MASK"
    unfolding user_leaf_def by (rule leaf_fields(2))
qed

section \<open>Creating an address space\<close>

lemma copy_kernel_half_upto:
  defines "cp n src dst s \<equiv> fold (\<lambda>i s. wr s dst i (rd s src i)) [256..<n] s"
  assumes "src \<noteq> dst"
  shows "rd (cp n src dst s) f j = (if f = dst \<and> 256 \<le> j \<and> j < n then rd s src j else rd s f j)
    \<and> pool (cp n src dst s) = pool s \<and> (f \<noteq> dst \<longrightarrow> mem (cp n src dst s) f = mem s f)"
proof (induction n arbitrary: f j)
  case 0
  show ?case by (simp add: cp_def)
next
  case (Suc n)
  show ?case
  proof (cases "256 \<le> n")
    case True
    then have "cp (Suc n) src dst s = wr (cp n src dst s) dst n (rd (cp n src dst s) src n)" by (simp add: cp_def)
    then show ?thesis using Suc assms(2) True by (auto simp: wr_def rd_def)
  qed (auto simp: cp_def)
qed

lemma copy_kernel_half_rd [simp]:
  assumes "src \<noteq> dst"
  shows "rd (copy_kernel_half s src dst) f j = (if f = dst \<and> 256 \<le> j \<and> j < 512 then rd s src j else rd s f j)"
    "pool (copy_kernel_half s src dst) = pool s"
    "f \<noteq> dst \<Longrightarrow> mem (copy_kernel_half s src dst) f = mem s f"
  using copy_kernel_half_upto [OF assms, of 512 s f j] unfolding copy_kernel_half_def by blast+

lemma empty_root_ok:
  assumes "pmm_ok (pool s)" "hhdm_ok (pool s)" "table s root = Some root" "root \<notin> free_set (pool s)"
    and z: "\<And>i. i < 256 \<Longrightarrow> rd s root i = 0"
  shows "vspace_ok s root" "\<And>va. canonical_user va \<Longrightarrow> leaf_entry s root va = 0"
    "table_frames s root = {root}"
proof -
  have n: "node s root p = (if p = [] then Some root else None)" if "user_path p" for p
    using that z by (cases p) (auto simp: node.simps walk_step_def user_path_def)
  show "vspace_ok s root" using assms(1-4) unfolding vspace_ok_def by (auto simp: n split: if_splits)
  show "leaf_entry s root va = 0" if "canonical_user va" for va
    using n [OF user_path_idx [OF that]] by (simp add: leaf_entry_def)
  show "table_frames s root = {root}"
    using table_frames_0 [of root s] unfolding table_frames_def by (auto simp: n split: if_splits)
qed

section \<open>Changing the protection of a page\<close>

lemma walk_unchecked:
  assumes "walk s pml4 va = Some pt"
  shows "do { pdpt \<leftarrow> table s (rd s pml4 (idx4 va) AND PTE_ADDR_MASK);
                      pd \<leftarrow> table s (rd s pdpt (idx3 va) AND PTE_ADDR_MASK);
                      table s (rd s pd (idx2 va) AND PTE_ADDR_MASK) } = Some pt"
  using assms by (auto simp: walk_def walk_step_def Let_def split: bind_splits if_splits)

lemma user_leaf_present: "user_leaf p f AND PTE_P \<noteq> 0"
  unfolding user_leaf_def by (rule leaf_fields(1))

text \<open>Without copy on write \<^verbatim>\<open>vmm_user_protect\<close> is a write to the last table on the way to the page.\<close>

lemma vmm_user_protect_wr:
  assumes s: "user_space_ok s" and v: "user_page v" and e: "user_entry s v = Some e"
    and nc: "flags AND PTE_W = 0 \<or> e AND PTE_COW = 0"
  obtains pt where "node s (g_user_pml4 s) [idx4 v, idx3 v, idx2 v] = Some pt"
    "vmm_user_protect s v flags = (0, wr s pt (idx1 v) (user_leaf (e AND PTE_ADDR_MASK) flags))"
proof -
  let ?root = "g_user_pml4 s"
  have ok: "vspace_ok s ?root" "g_user_valid s" and va: "canonical_user v" "page_aligned v"
    using s v by (auto simp: user_space_ok_def user_page_def)
  obtain phys where tr: "vmm_user_translate s v = Some (phys, e)" using e by (auto simp: user_entry_def)
  have "leaf_entry s ?root v = e" "e AND PTE_P \<noteq> 0" using user_entry_leaf [OF s va(1)] e by (auto split: if_splits)
  then obtain pt where pt: "node s ?root [idx4 v, idx3 v, idx2 v] = Some pt" "rd s pt (idx1 v) = e"
    by (auto simp: leaf_entry_def split: option.splits)
  have "vmm_user_protect s v flags = (0, wr s pt (idx1 v) (user_leaf (e AND PTE_ADDR_MASK) flags))"
    using ok(2) va tr nc vspace_okD(3) [OF ok(1)] walk_unchecked [OF pt(1) [folded walk_node]]
    by (auto simp: vmm_user_protect_def page_aligned_def user_leaf_def)
  with pt(1) show thesis by (rule that)
qed

lemma vmm_user_protect_spec:
  assumes s: "user_space_ok s" and v: "user_page v" and e: "user_entry s v = Some e"
    and nc: "flags AND PTE_W = 0 \<or> e AND PTE_COW = 0"
  shows "\<exists>s'. vmm_user_protect s v flags = (0, s') \<and> user_space_ok s' \<and> pool s' = pool s
    \<and> (\<forall>w. user_page w \<longrightarrow> user_entry s' w = (if w = v then Some (user_leaf (e AND PTE_ADDR_MASK) flags) else user_entry s w))
    \<and> g_user_pml4 s' = g_user_pml4 s \<and> table_frames s' (g_user_pml4 s) = table_frames s (g_user_pml4 s)
    \<and> (\<forall>f. f \<notin> table_frames s (g_user_pml4 s) \<longrightarrow> mem s' f = mem s f)"
proof -
  let ?root = "g_user_pml4 s"
  have ok: "vspace_ok s ?root" "g_user_valid s" and va: "canonical_user v" "page_aligned v"
    using s v by (auto simp: user_space_ok_def user_page_def)
  obtain pt where pt: "node s ?root [idx4 v, idx3 v, idx2 v] = Some pt"
      "vmm_user_protect s v flags = (0, wr s pt (idx1 v) (user_leaf (e AND PTE_ADDR_MASK) flags))"
    by (rule vmm_user_protect_wr [OF assms])
  let ?s = "wr s pt (idx1 v) (user_leaf (e AND PTE_ADDR_MASK) flags)"
  note l = leaf_write [OF ok(1) va(1) pt(1) refl, where e = "user_leaf (e AND PTE_ADDR_MASK) flags"]
  have us: "user_space_ok ?s" using l(1) ok(2) by (simp add: user_space_ok_def)
  moreover have "user_entry ?s w = (if w = v then Some (user_leaf (e AND PTE_ADDR_MASK) flags) else user_entry s w)"
    if w: "user_page w" for w
  proof -
    have cw: "canonical_user w" "w AND PAGE_MASK = w" "v AND PAGE_MASK = v"
      using w va(2) page_aligned_id by (auto simp: user_page_def)
    show ?thesis
      using user_entry_leaf [OF us cw(1)] user_entry_leaf [OF s cw(1)] l(3) [OF cw(1)] cw(2,3)
        user_leaf_present [of "e AND PTE_ADDR_MASK" flags] by (cases "w = v") simp_all
  qed
  moreover have "table_frames ?s ?root = table_frames s ?root" using l(2) by (auto simp: table_frames_def)
  moreover have "mem ?s f = mem s f" if "f \<notin> table_frames s ?root" for f
  proof -
    have "pt \<in> table_frames s ?root" using pt(1) user_path_idx [OF va(1)] by (auto simp: table_frames_def)
    then show ?thesis using that by (cases "f = pt") (auto simp: wr_def)
  qed
  ultimately show ?thesis using pt(2) by (intro exI [of _ ?s]) simp
qed

lemma user_leaf_fields:
  "user_leaf p f AND PTE_ADDR_MASK = p AND PTE_ADDR_MASK" "user_leaf p f AND PTE_COW = 0"
  "user_leaf p f AND PTE_W = f AND PTE_W" "user_leaf p f AND PTE_U = PTE_U" "user_leaf p f AND PTE_NX = f AND PTE_NX"
  unfolding user_leaf_def by (simp_all add: bit.conj_disj_distrib2 and.assoc or.assoc)

section \<open>A concrete address space\<close>

text \<open>
  Two managed pages; the first is mapped copy-on-write at address 0 with two references, the
  second is free. The four tables lie below the managed range.
\<close>

definition demo_pool :: pmm where
  "demo_pool = snd (pmm_retain_page (snd (pmm_alloc_page demo_pmm)) 0x1000000)"

definition demo_vmm :: vmm where
  "demo_vmm = \<lparr>pool = demo_pool,
     mem = (\<lambda>f i. if f = 0x1000000 then of_nat i
                  else if i = 0 then (if f = 0x2000 then 0x3007 else if f = 0x3000 then 0x4007
                         else if f = 0x4000 then 0x5007 else if f = 0x5000 then 0x1000205 else 0)
                  else 0),
     g_user_pml4 = 0x2000, g_user_valid = True, cpu_cr3 = 0x2000, kernel_cr3 = 0x2000,
     fb_phys = 0, fb_size = 0\<rparr>"

lemma demo_usable: "usable_page demo_pmm p \<longleftrightarrow> page_aligned p \<and> 0x1000000 \<le> p \<and> p < 0x1002000"
  by (simp add: usable_page_def phys_in_usable_region_def demo_pmm_eval)

lemma demo_reserved: "\<not> is_reserved demo_pmm p"
  by (simp add: is_reserved_def demo_pmm_eval page_is_reserved_fast_bit)

lemma demo_pool_ok: "pmm_ok demo_pool"
  unfolding demo_pool_def by (rule pmm_retain_ok [OF pmm_alloc_ok [OF demo_pmm_ok]])

lemma demo_managed: "managed_pages demo_pool = {p. page_aligned p \<and> 0x1000000 \<le> p \<and> p < 0x1002000}"
  using pmm_pool.alloc_managed [OF demo_pmm_ok] pmm_pool.retain_managed [OF pmm_alloc_ok [OF demo_pmm_ok]]
  by (simp add: demo_pool_def) (simp add: managed_pages_def demo_usable demo_reserved)

lemma demo_hhdm_ok: "hhdm_ok demo_pool"
  using pmm_alloc_frame(4) [OF demo_pmm_ok] by (simp add: hhdm_ok_def demo_pool_def demo_pmm_eval)

lemma demo_pool_refs:
  "page_ref_count demo_pool 0x1000000 = 2" "page_ref_count demo_pool 0x1001000 = 0"
proof -
  let ?a = "snd (pmm_alloc_page demo_pmm)" and ?p = "0x1000000 :: u64" and ?q = "0x1001000 :: u64"
  have m: "?p \<in> managed_pages demo_pmm" "?q \<in> managed_pages demo_pmm"
    by (simp_all add: managed_pages_def demo_usable demo_reserved page_aligned_def)
  have ma: "?p \<in> managed_pages ?a" "?q \<in> managed_pages ?a" using m pmm_pool.alloc_managed [OF demo_pmm_ok] by auto
  have ne: "free_set demo_pmm \<noteq> {}" using demo_pmm_free by auto
  have z: "page_ref_count demo_pmm ?q = 0" by (simp add: page_ref_count_def demo_pmm_eval)
  have r: "page_ref_count ?a ?p = 1" "page_ref_count ?a ?q = 0"
    using pmm_pool.alloc_some [OF demo_pmm_ok ne] m demo_pmm_alloc z by auto
  note ok = pmm_alloc_ok [OF demo_pmm_ok]
  have "fst (pmm_retain_page ?a ?p)" using pmm_pool.retain_possible [OF ok ma(1)] r by simp
  then show "page_ref_count demo_pool 0x1000000 = 2" "page_ref_count demo_pool 0x1001000 = 0"
    using pmm_pool.retain_refs [OF ok ma(1) ma(1)] pmm_pool.retain_refs [OF ok ma(1) ma(2)] r
    by (simp_all add: demo_pool_def)
qed

lemma demo_free: "free_set demo_pool = {0x1001000}"
proof -
  have "p = 0x1000000 \<or> p = 0x1001000" if "page_aligned p" "0x1000000 \<le> p" "p < 0x1002000" for p
    using page_aligned_step [OF _ that(1,2), of "0x1002000"] page_aligned_step [of "0x1001000" p "0x1002000"] that
    by (auto simp: page_aligned_def simp flip: not_le)
  then have "managed_pages demo_pool = {0x1000000, 0x1001000}"
    unfolding demo_managed by (auto simp: page_aligned_def)
  then show ?thesis using demo_pool_refs by (auto simp: pmm_pool.avail_iff [OF demo_pool_ok])
qed

lemma demo_table:
  "table demo_vmm 0x2000 = Some 0x2000" "table demo_vmm 0x3000 = Some 0x3000" "table demo_vmm 0x4000 = Some 0x4000"
  "table demo_vmm 0x5000 = Some 0x5000"
proof -
  have h: "hhdm_ok (pool demo_vmm)" using demo_hhdm_ok by (simp add: demo_vmm_def)
  show "table demo_vmm 0x2000 = Some 0x2000" "table demo_vmm 0x3000 = Some 0x3000"
    "table demo_vmm 0x4000 = Some 0x4000" "table demo_vmm 0x5000 = Some 0x5000"
    by (rule tracked_table(1) [OF h]; simp add: page_aligned_def)+
qed

lemma demo_rd:
  "rd demo_vmm 0x2000 i = (if i = 0 then 0x3007 else 0)" "rd demo_vmm 0x3000 i = (if i = 0 then 0x4007 else 0)"
  "rd demo_vmm 0x4000 i = (if i = 0 then 0x5007 else 0)" "rd demo_vmm 0x5000 i = (if i = 0 then 0x1000205 else 0)"
  by (simp_all add: rd_def demo_vmm_def)

lemma demo_step:
  "walk_step demo_vmm 0x2000 i = (if i = 0 then Some 0x3000 else None)"
  "walk_step demo_vmm 0x3000 i = (if i = 0 then Some 0x4000 else None)"
  "walk_step demo_vmm 0x4000 i = (if i = 0 then Some 0x5000 else None)"
  by (simp_all add: walk_step_def demo_rd demo_table)

lemma demo_node:
  assumes "user_path p"
  shows "node demo_vmm 0x2000 p = (if p = [] then Some 0x2000 else if p = [0] then Some 0x3000
    else if p = [0, 0] then Some 0x4000 else if p = [0, 0, 0] then Some 0x5000 else None)"
proof -
  consider "p = []" | a where "p = [a]" | a b where "p = [a, b]" | a b c where "p = [a, b, c]"
    using assms by (auto simp: user_path_def numeral_3_eq_3 le_Suc_eq length_Suc_conv)
  then show ?thesis by cases (auto simp: node.simps demo_step)
qed

lemma demo_pool_sel: "pool demo_vmm = demo_pool"
  by (simp add: demo_vmm_def)

lemma demo_vspace_ok: "vspace_ok demo_vmm 0x2000"
  using demo_pool_ok demo_hhdm_ok demo_table
  unfolding vspace_ok_def demo_pool_sel by (auto simp: demo_node demo_free split: if_splits)

lemma demo_space_ok: "user_space_ok demo_vmm"
  using demo_vspace_ok by (simp add: user_space_ok_def) (simp add: demo_vmm_def)

lemma demo_frames: "table_frames demo_vmm 0x2000 \<subseteq> {0x2000, 0x3000, 0x4000, 0x5000}"
  unfolding table_frames_def by (auto simp: demo_node split: if_splits)

lemma demo_leaf: "leaf_entry demo_vmm 0x2000 0 = 0x1000205" "cow_entry (0x1000205)"
  by (simp_all add: leaf_entry_def idx_defs node.simps demo_step demo_rd cow_entry_def)


section \<open>Properties\<close>

text \<open>
  C10: mapping one page. With a well-formed address space and an aligned user page,
  \<^verbatim>\<open>vmm_user_map\<close> fails only when fewer than three pages are free; on success the
  page translates to the given frame with the given flags, on failure nothing is mapped. In
  both cases every other user address translates as before, the address space stays
  well formed, the kernel half of the top table is untouched, and so is the memory of every
  frame that is neither a table of the address space nor free.
\<close>

theorem vmm_user_map_correct:
  assumes "vspace_ok s (g_user_pml4 s)" "g_user_valid s" "canonical_user virt"
    "page_aligned virt" "page_aligned phys" "vmm_user_map s virt phys flags = (r, s')"
  shows "vspace_ok s' (g_user_pml4 s) \<and> g_user_pml4 s' = g_user_pml4 s \<and> g_user_valid s'
    \<and> (r = 0 \<or> r = -1 \<and> card (free_set (pool s)) < 3)
    \<and> (\<forall>w. canonical_user w \<longrightarrow> vmm_user_translate s' w =
         (if r = 0 \<and> w AND PAGE_MASK = virt
          then Some ((phys AND PTE_ADDR_MASK) OR (w AND 0xfff),
                 (phys AND PTE_ADDR_MASK) OR PTE_P OR PTE_U OR
                 (flags AND (PTE_W OR PTE_NX OR PTE_PWT OR PTE_PCD)))
          else vmm_user_translate s w))
    \<and> (\<forall>f. f \<notin> table_frames s (g_user_pml4 s) \<longrightarrow> f \<notin> free_set (pool s) \<longrightarrow> mem s' f = mem s f)
    \<and> (\<forall>i\<ge>256. rd s' (g_user_pml4 s) i = rd s (g_user_pml4 s) i)"
  using assms by (rule vmm_user_map_translate)

lemma demo_sel: "g_user_pml4 demo_vmm = 0x2000" "g_user_valid demo_vmm" "mem demo_vmm 0x1000000 i = of_nat i"
  "kernel_cr3 demo_vmm = 0x2000" "cpu_cr3 demo_vmm = 0x2000"
  by (simp_all add: demo_vmm_def)

lemma demo_vspace_root: "vspace_ok demo_vmm (g_user_pml4 demo_vmm)"
  using demo_vspace_ok by (simp add: demo_sel)

theorem vmm_user_map_correct_witness:
  "vspace_ok (snd (vmm_user_map demo_vmm 0x1000 0x1001000 2)) 0x2000
    \<and> vmm_user_translate (snd (vmm_user_map demo_vmm 0x1000 0x1001000 2)) 0 = vmm_user_translate demo_vmm 0"
  using vmm_user_map_correct [OF demo_vspace_root demo_sel(2), of "0x1000" "0x1001000" 2, OF _ _ _ prod.collapse [symmetric]]
  by (simp add: demo_sel canonical_user_def page_aligned_def)

text \<open>
  Unmapping one page. \<^verbatim>\<open>vmm_user_unmap\<close> succeeds exactly on a mapped page and
  then hands back its frame; afterwards the page does not translate, every other page
  translates as before, the allocator is untouched (the caller releases the frame), and so is
  the memory of every frame that is not a table.
\<close>

theorem vmm_user_unmap_correct:
  assumes "user_space_ok s" "user_page v" "vmm_user_unmap s v = (r, p, s')"
  shows "user_space_ok s' \<and> r = (if user_entry s v = None then -1 else 0)
    \<and> p = map_option (\<lambda>e. e AND PTE_ADDR_MASK) (user_entry s v)
    \<and> (\<forall>w. canonical_user w \<longrightarrow> user_entry s' w = (if w AND PAGE_MASK = v then None else user_entry s w))
    \<and> pool s' = pool s \<and> (\<forall>f. f \<notin> table_frames s (g_user_pml4 s) \<longrightarrow> mem s' f = mem s f)"
  using vmm_user_unmap_spec [OF assms(1,2)] assms(3) by auto

lemma demo_entry: "user_entry demo_vmm 0 = Some 0x1000205"
  using user_entry_leaf [OF demo_space_ok, of 0] demo_leaf(1) by (simp add: demo_sel canonical_user_def)

theorem vmm_user_unmap_correct_witness:
  "fst (vmm_user_unmap demo_vmm 0) = 0 \<and> fst (snd (vmm_user_unmap demo_vmm 0)) = Some 0x1000000
    \<and> user_entry (snd (snd (vmm_user_unmap demo_vmm 0))) 0xFFF = None"
  using vmm_user_unmap_correct [OF demo_space_ok, of 0 "fst (vmm_user_unmap demo_vmm 0)"
      "fst (snd (vmm_user_unmap demo_vmm 0))" "snd (snd (vmm_user_unmap demo_vmm 0))"]
  by (simp add: user_page_def canonical_user_def demo_entry)

text \<open>
  C12: mapping a list of distinct unmapped pages and clearing the same list restores every
  translation, whether or not the mapping ran out of memory half way.
\<close>

theorem vmm_map_unmap_restores:
  assumes "user_space_ok s" "distinct (map fst ps)" "\<forall>(v, p)\<in>set ps. user_page v \<and> page_aligned p"
    "\<forall>(v, p)\<in>set ps. user_entry s v = None" "user_page w"
  shows "user_entry (snd (user_space.unmap_pages (snd (user_space.map_pages s ps f)) (map fst ps))) w = user_entry s w"
  using assms by (intro user_space.map_unmap_restores) (auto simp: user_space.page_list_def)

lemma demo_entry_1: "user_entry demo_vmm 0x1000 = None"
  using user_entry_leaf [OF demo_space_ok, of "0x1000"]
  by (simp add: demo_sel canonical_user_def leaf_entry_def idx_defs node.simps demo_step demo_rd)

theorem vmm_map_unmap_restores_witness:
  "user_entry demo_vmm 0x1000 = None \<and> user_entry (snd (user_space.unmap_pages (snd (user_space.map_pages demo_vmm
     [(0x1000, 0x1001000)] 2)) [0x1000])) 0 = user_entry demo_vmm 0"
  using vmm_map_unmap_restores [OF demo_space_ok, of "[(0x1000, 0x1001000)]" 0 2] demo_entry_1
  by (simp add: user_page_def canonical_user_def page_aligned_def)

text \<open>
  C13: \<^verbatim>\<open>vmm_user_range_ok\<close> decides access to a byte range: it holds exactly when
  the range is non-empty, ends below the top of user space, and every byte of it translates
  through a user leaf entry that, for a write, is writable or copy-on-write.
\<close>

theorem vmm_user_range_ok_iff:
  "vmm_user_range_ok s virt len write \<longleftrightarrow>
     g_user_valid s \<and> len \<noteq> 0 \<and> unat virt + unat len \<le> 2 ^ 47 \<and>
     (\<forall>a. unat virt \<le> unat a \<and> unat a < unat virt + unat len \<longrightarrow>
        (\<exists>phys pte. vmm_user_translate s a = Some (phys, pte) \<and> pte AND PTE_U \<noteq> 0 \<and>
           (write \<longrightarrow> pte AND PTE_W \<noteq> 0 \<or> pte AND PTE_COW \<noteq> 0)))"
proof (cases "g_user_valid s \<and> len \<noteq> 0 \<and> unat virt + unat len \<le> 2 ^ 47")
  case False
  moreover have "canonical_user virt \<and> \<not> len > USER_TOP - virt \<longrightarrow> unat virt + unat len \<le> 2 ^ 47"
    using unat_sub [of virt USER_TOP] by (auto simp: canonical_user_def word_less_nat_alt word_le_nat_alt not_less)
  ultimately show ?thesis unfolding vmm_user_range_ok_def by auto
next
  case True
  then have len: "0 < unat len" by (simp add: unat_gt_0)
  have can: "canonical_user virt" using True len by (simp add: canonical_unat)
  have u: "unat (virt + len - 1) = unat virt + unat len - 1"
    using True len by (subst unat_minus_one) (auto simp: unat_word_ariths word_unat_eq_iff)
  have "vmm_user_range_ok s virt len write \<longleftrightarrow> range_ok_loop s (virt AND PAGE_MASK) ((virt + len - 1) AND PAGE_MASK) write"
    using True can unat_sub [of virt USER_TOP]
    by (auto simp: vmm_user_range_ok_def canonical_user_def word_less_nat_alt word_le_nat_alt)
  also have "\<dots> \<longleftrightarrow> (\<forall>p. page_aligned p \<longrightarrow> virt AND PAGE_MASK \<le> p \<longrightarrow> p \<le> (virt + len - 1) AND PAGE_MASK \<longrightarrow> user_access s write p)"
    using u True len unat_and_not_4095 [of virt] unat_and_not_4095 [of "virt + len - 1"]
      page_floor_mono [of "unat virt" "unat virt + unat len - 1"]
    by (intro range_ok_loop_iff) (auto simp: word_less_nat_alt word_le_nat_alt)
  also have "\<dots> \<longleftrightarrow> (\<forall>a. unat virt \<le> unat a \<and> unat a < unat virt + unat len \<longrightarrow> user_access s write a)"
  proof (intro iffI allI impI)
    fix a :: u64
    assume all: "\<forall>p. page_aligned p \<longrightarrow> virt AND PAGE_MASK \<le> p \<longrightarrow> p \<le> (virt + len - 1) AND PAGE_MASK \<longrightarrow> user_access s write p"
      and a: "unat virt \<le> unat a \<and> unat a < unat virt + unat len"
    have "virt AND PAGE_MASK \<le> a AND PAGE_MASK" "a AND PAGE_MASK \<le> (virt + len - 1) AND PAGE_MASK"
      unfolding word_le_nat_alt unat_and_not_4095 u using a by (intro page_floor_mono, linarith)+
    then have "user_access s write (a AND PAGE_MASK)" using all page_aligned_and_not by blast
    moreover have "canonical_user a" using a True by (simp add: canonical_unat)
    ultimately show "user_access s write a" using user_access_page by simp
  next
    fix p :: u64
    assume all: "\<forall>a. unat virt \<le> unat a \<and> unat a < unat virt + unat len \<longrightarrow> user_access s write a"
      and p: "page_aligned p" "virt AND PAGE_MASK \<le> p" "p \<le> (virt + len - 1) AND PAGE_MASK"
    show "user_access s write p"
    proof (cases "virt AND PAGE_MASK = p")
      case True
      have "user_access s write virt" using all len by simp
      then show ?thesis using True user_access_page [OF can] by simp
    next
      case False
      then have "virt AND PAGE_MASK < p" using p(2) by simp
      then have "unat (virt AND PAGE_MASK) + 4096 \<le> unat p"
        using page_next_no_wrap(2) page_aligned_and_not p(1) by blast
      then have "unat virt \<le> unat p" unfolding unat_and_not_4095 using mod_less_divisor [of 4096 "unat virt"] by linarith
      moreover have "unat p \<le> unat virt + unat len - 1"
        using p(3) u unfolding word_le_nat_alt unat_and_not_4095 by simp
      ultimately show ?thesis using all len by simp
    qed
  qed
  finally show ?thesis using True by (simp add: user_access_iff)
qed

theorem vmm_user_range_ok_iff_witness: "vmm_user_range_ok demo_vmm 0 1 True"
proof -
  have "vmm_user_translate demo_vmm 0 = Some (0x1000000, 0x1000205)"
    using vmm_user_translate_eq [OF demo_vspace_root demo_sel(2), of 0] demo_leaf(1)
    by (simp add: demo_sel canonical_user_def)
  then have "\<exists>phys pte. vmm_user_translate demo_vmm a = Some (phys, pte) \<and> pte AND PTE_U \<noteq> 0 \<and>
      (True \<longrightarrow> pte AND PTE_W \<noteq> 0 \<or> pte AND PTE_COW \<noteq> 0)"
    if "unat (0 :: u64) \<le> unat a \<and> unat a < unat (0 :: u64) + unat (1 :: u64)" for a :: u64
    using that by (simp add: unat_eq_zero)
  then show ?thesis
    unfolding vmm_user_range_ok_iff [of demo_vmm 0 1 True] by (simp add: demo_sel(2))
qed

text \<open>
  C14: a write fault on a copy-on-write page. When the faulting page has a copy-on-write leaf
  entry on a data frame with a live reference count, and a page is free if that count is not
  one, \<^verbatim>\<open>vmm_user_cow_fault\<close> succeeds; the page is then present, writable and no
  longer copy-on-write, on a frame with exactly one reference and the old contents. If the
  frame changed it came from the free pages and the old frame lost one reference. No other
  page of the address space changes its entry, and no other frame its memory.
\<close>

theorem vmm_user_cow_fault_correct:
  fixes va cr3 :: u64 and s :: vmm
  defines "root \<equiv> cr3 AND PAGE_MASK" and "old \<equiv> leaf_entry s (cr3 AND PAGE_MASK) va AND PTE_ADDR_MASK"
  assumes ok: "vspace_ok s root" and va: "canonical_user va"
    and e: "cow_entry (leaf_entry s root va)"
    and old: "old \<in> managed_pages (pool s)" "0 < page_ref_count (pool s) old"
    and data: "old \<notin> table_frames s root"
    and room: "page_ref_count (pool s) old = 1 \<or> free_set (pool s) \<noteq> {}"
  shows "\<exists>s' new. vmm_user_cow_fault s cr3 va = (0, s') \<and> vspace_ok s' root
    \<and> leaf_entry s' root va AND PTE_ADDR_MASK = new \<and> leaf_entry s' root va AND 0x207 = 7
    \<and> page_ref_count (pool s') new = 1
    \<and> (\<forall>i<512. mem s' new i = mem s old i)
    \<and> (new \<noteq> old \<longrightarrow> new \<in> free_set (pool s) \<and> page_ref_count (pool s') old = page_ref_count (pool s) old - 1)
    \<and> (\<forall>w. canonical_user w \<longrightarrow> w AND PAGE_MASK \<noteq> va AND PAGE_MASK \<longrightarrow> leaf_entry s' root w = leaf_entry s root w)
    \<and> (\<forall>f. f \<notin> table_frames s root \<longrightarrow> f \<notin> free_set (pool s) \<longrightarrow> mem s' f = mem s f)"
proof (cases "page_ref_count (pool s) old = 1")
  case True
  let ?e = "leaf_entry s root va"
  have one: "pmm_page_refcount (pool s) old = 1"
    using refcount_managed [OF vspace_okD(1) [OF ok] old(1)] True by (simp add: word_unat_eq_iff)
  obtain pt where pt: "node s root [idx4 va, idx3 va, idx2 va] = Some pt"
    "vmm_user_cow_fault s cr3 va = (0, wr s pt (idx1 va) ((?e OR PTE_W) AND NOT PTE_COW))"
    using cow_fault_promotes [OF ok [unfolded root_def] va refl e [unfolded root_def]] one
    unfolding root_def old_def by blast
  note l = leaf_write_grows [OF grows_refl [OF ok] va pt(1) refl]
  have f: "old \<notin> free_set (pool s)" using pmm_pool.avail_iff [OF vspace_okD(1) [OF ok]] old by simp
  show ?thesis
    using pt(2) l(1) l(2) [OF va] promoted_leaf_fields [of ?e] e True l(3) [OF data f] l(2,3)
    by (intro exI [of _ "wr s pt (idx1 va) ((?e OR PTE_W) AND NOT PTE_COW)"] exI [of _ old])
      (simp add: old_def root_def)
next
  case False
  let ?e = "leaf_entry s root va" and ?np = "fst (pmm_alloc_page (pool s))"
  let ?m = "copy_frame (mem s) old ?np"
  let ?s2 = "(snd (alloc_page s))\<lparr>mem := ?m\<rparr>"
  let ?e' = "((?np AND PTE_ADDR_MASK) OR (((?e AND 0xFFF) AND NOT PTE_COW) OR (PTE_P OR PTE_U OR PTE_W)) OR (?e AND PTE_NX)) AND NOT PTE_COW"
  note v = vspace_okD [OF ok]
  have ne: "free_set (pool s) \<noteq> {}" and two: "2 \<le> page_ref_count (pool s) old" using room False old(2) by auto
  have np: "?np \<in> free_set (pool s)" using pmm_alloc_frame(7) [OF v(1) ne] .
  have f: "old \<notin> free_set (pool s)" using pmm_pool.avail_iff [OF v(1)] old by simp
  then have d: "old \<noteq> ?np" using np by auto
  have lim: "old < PMM_TRACK_LIMIT"
    using old(1) usable_page_bounds(2) [of "pool s" old] v(1) by (auto simp: managed_pages_def pmm_ok_def pmm_inv_def)
  have sh: "pmm_page_refcount (pool s) old \<noteq> 1"
    using refcount_managed [OF v(1) old(1)] False by auto
  obtain pt where pt: "node s root [idx4 va, idx3 va, idx2 va] = Some pt"
    "vmm_user_cow_fault s cr3 va = (0, free_page (wr ?s2 pt (idx1 va) ?e') old)"
    using cow_fault_copies [OF ok [unfolded root_def] va refl e [unfolded root_def] _ _ ne] sh lim
    unfolding root_def old_def by blast
  have g: "grows root s ?s2"
    by (rule fill_free_frame_grows [OF ok ne]) (simp add: copy_frame_eq [OF d] fun_eq_iff)
  note l = leaf_write_grows [OF g va growsD(2) [OF g user_path_idx [OF va] pt(1)] refl, where e = ?e']
  let ?s3 = "wr ?s2 pt (idx1 va) ?e'"
  have o3: "old \<in> managed_pages (pool ?s3)" "page_ref_count (pool ?s3) old = page_ref_count (pool s) old"
    "?np \<in> managed_pages (pool ?s3)" "page_ref_count (pool ?s3) ?np = 1"
    using growsD(10) [OF g] growsD(11) [OF g old(1) f] old(1) np pmm_pool.avail_iff [OF v(1)]
      pmm_pool.alloc_some [OF v(1) ne] by auto
  note r = release_shared_ok [OF l(1) o3(1)]
  have out: "?np \<notin> table_frames s root" using v(5) np unfolding table_frames_def by blast
  then have "pt \<noteq> ?np" using pt(1) user_path_idx [OF va] unfolding table_frames_def by blast
  then have mp: "mem ?s3 ?np i = mem s old i" if "i < 512" for i
    using that by (simp add: wr_def copy_frame_eq [OF d])
  have "?np AND PTE_ADDR_MASK = ?np" by (rule free_frame_table(2) [OF v(1,2) np])
  then have fl: "?e' AND PTE_ADDR_MASK = ?np" "?e' AND 0x207 = 7" using private_leaf_fields [of ?np ?e] by auto
  let ?s4 = "free_page ?s3 old"
  have lf: "leaf_entry ?s4 root w = leaf_entry ?s3 root w" for w
    using vspace_okD(1) [OF l(1)] by (simp add: leaf_entry_def split: option.split)
  have rc: "page_ref_count (pool ?s4) ?np = 1" "page_ref_count (pool ?s4) old = page_ref_count (pool s) old - 1"
    using r(3) r(4) [OF _ o3(3)] two o3(2,4) d by auto
  show ?thesis
  proof (intro exI conjI allI impI)
    show "vmm_user_cow_fault s cr3 va = (0, ?s4)" by (rule pt(2))
    show "vspace_ok ?s4 root" using r(1) two o3(2) by simp
    show "leaf_entry ?s4 root va AND PTE_ADDR_MASK = ?np" "leaf_entry ?s4 root va AND 0x207 = 7"
      unfolding lf l(2) [OF va] using fl by simp_all
    show "mem ?s4 ?np i = mem s old i" if "i < 512" for i using mp [OF that] by simp
    show "leaf_entry ?s4 root w = leaf_entry s root w" if "canonical_user w" "w AND PAGE_MASK \<noteq> va AND PAGE_MASK" for w
      unfolding lf l(2) [OF that(1)] using that(2) by simp
    show "mem ?s4 f = mem s f" if "f \<notin> table_frames s root" "f \<notin> free_set (pool s)" for f
      using l(3) [OF that] by simp
  qed (use rc np in auto)
qed

theorem vmm_user_cow_fault_correct_witness:
  "\<exists>s' new. vmm_user_cow_fault demo_vmm 0x2000 0 = (0, s') \<and> leaf_entry s' 0x2000 0 AND PTE_ADDR_MASK = new
    \<and> (\<forall>i<512. mem s' new i = of_nat i) \<and> page_ref_count (pool s') new = 1"
proof -
  have c: "cow_entry (leaf_entry demo_vmm (0x2000 AND PAGE_MASK) 0)"
    "leaf_entry demo_vmm (0x2000 AND PAGE_MASK) 0 AND PTE_ADDR_MASK = 0x1000000" using demo_leaf by simp_all
  have m: "0x1000000 \<in> managed_pages (pool demo_vmm)" by (simp add: demo_pool_sel demo_managed page_aligned_def)
  have "0x1000000 \<notin> table_frames demo_vmm 0x2000" using demo_frames by auto
  then show ?thesis
    using vmm_user_cow_fault_correct [of demo_vmm "0x2000" 0] demo_vspace_ok c m demo_pool_refs demo_free
    by (simp add: canonical_user_def demo_pool_sel demo_sel) blast
qed

text \<open>A new address space; the property below and the program loader rest on this.\<close>

lemma space_create_spec:
  assumes "pmm_ok (pool s)" "hhdm_ok (pool s)" "free_set (pool s) \<noteq> {}"
    and k: "kernel_cr3 s = 0 \<and> src = cpu_cr3 s AND PAGE_MASK \<or> kernel_cr3 s \<noteq> 0 \<and> src = kernel_cr3 s AND PAGE_MASK"
    and c: "cpu_cr3 s AND PAGE_MASK \<noteq> 0" "cpu_cr3 s AND PAGE_MASK \<le> PTE_ADDR_MASK"
    and t: "src \<le> PTE_ADDR_MASK" "table s src = Some src" "src \<notin> free_set (pool s)"
  shows "\<exists>s' root. vmm_user_space_create s = (0, s') \<and> root \<in> free_set (pool s) \<and> g_user_pml4 s' = root
    \<and> user_space_ok s'
    \<and> (\<forall>va. vmm_user_translate s' va = None)
    \<and> (\<forall>i. 256 \<le> i \<longrightarrow> i < 512 \<longrightarrow> rd s' root i = rd s src i)
    \<and> (\<forall>f. f \<noteq> root \<longrightarrow> mem s' f = mem s f)"
proof -
  let ?a = "snd (alloc_page s)" and ?r = "fst (pmm_alloc_page (pool s))"
  let ?b = "copy_kernel_half (zero_table ?a ?r) src ?r"
  let ?s = "?b\<lparr>g_user_pml4 := ?r, g_user_valid := True\<rparr>"
  have r: "?r \<in> free_set (pool s)" using pmm_alloc_frame(7) [OF assms(1,3)] .
  have ta: "table ?a = table s" using pmm_alloc_frame(4) [OF assms(1)] by (intro table_cong) simp
  note fr = free_frame_table [OF assms(1,2) r]
  have src: "src \<noteq> 0" "src \<noteq> ?r" using t r by (auto simp: table_def)
  have b: "pool ?b = snd (pmm_alloc_page (pool s))" using src by simp
  have fs: "?r \<notin> free_set (pool ?b)" "hhdm_ok (pool ?b)" "pmm_ok (pool ?b)"
    using pmm_pool.alloc_avail [OF assms(1)] pmm_alloc_frame(4) [OF assms(1)] assms(2) pmm_alloc_ok [OF assms(1)]
    by (simp_all add: b hhdm_ok_def)
  have tb: "table ?s = table s" using b pmm_alloc_frame(4) [OF assms(1)] by (intro table_cong) simp
  have ev: "vmm_user_space_create s = (0, ?s)"
    using k c t(1,2) src fr ta by (auto simp: vmm_user_space_create_def Let_def case_prod_beta not_less)
  have rd: "rd ?s f i = rd ?b f i" for f i by (simp add: rd_def)
  have z: "rd ?s ?r i = 0" if "i < 256" for i using that src(2) by (simp add: rd)
  note e = empty_root_ok [of ?s ?r, OF _ _ _ _ z]
  have ok: "vspace_ok ?s ?r" using fs fr(1) tb by (intro e(1)) simp_all
  have us: "user_space_ok ?s" using ok by (simp add: user_space_ok_def)
  have tr: "vmm_user_translate ?s va = None" for va
  proof (cases "canonical_user va")
    case True
    have "leaf_entry ?s ?r va = 0" using fs fr(1) tb True by (intro e(2)) simp_all
    then show ?thesis using vmm_user_translate_eq [of ?s va] ok True by simp
  qed (simp add: vmm_user_translate_def)
  show ?thesis
  proof (intro exI conjI allI impI)
    show "rd ?s ?r i = rd s src i" if "256 \<le> i" "i < 512" for i using that src(2) by (simp add: rd)
    show "mem ?s f = mem s f" if "f \<noteq> ?r" for f using that src(2) by (simp add: zero_table_def fun_eq_iff)
  qed (use ev r us tr in simp_all)
qed

text \<open>
  \<^verbatim>\<open>vmm_user_space_create\<close> makes a well-formed, empty address space: its top table
  is a page that was free, no user address translates, the 256 kernel entries are those of the
  kernel table (of the current one while \<^verbatim>\<open>kernel_cr3\<close> is not set), and no other frame
  is written.
\<close>

theorem vmm_user_space_create_correct:
  assumes "pmm_ok (pool s)" "hhdm_ok (pool s)" "free_set (pool s) \<noteq> {}"
    and k: "kernel_cr3 s = 0 \<and> src = cpu_cr3 s AND PAGE_MASK \<or> kernel_cr3 s \<noteq> 0 \<and> src = kernel_cr3 s AND PAGE_MASK"
    and c: "cpu_cr3 s AND PAGE_MASK \<noteq> 0" "cpu_cr3 s AND PAGE_MASK \<le> PTE_ADDR_MASK"
    and t: "src \<le> PTE_ADDR_MASK" "table s src = Some src" "src \<notin> free_set (pool s)"
  shows "\<exists>s' root. vmm_user_space_create s = (0, s') \<and> root \<in> free_set (pool s) \<and> g_user_pml4 s' = root
    \<and> user_space_ok s'
    \<and> (\<forall>va. vmm_user_translate s' va = None)
    \<and> (\<forall>i. 256 \<le> i \<longrightarrow> i < 512 \<longrightarrow> rd s' root i = rd s src i)
    \<and> (\<forall>f. f \<noteq> root \<longrightarrow> mem s' f = mem s f)"
  by (rule space_create_spec [OF assms])

theorem vmm_user_space_create_correct_witness:
  "\<exists>s' root. vmm_user_space_create demo_vmm = (0, s') \<and> root \<in> free_set demo_pool \<and> user_space_ok s'
    \<and> (\<forall>va. vmm_user_translate s' va = None)"
  using vmm_user_space_create_correct [of demo_vmm "0x2000"] demo_pool_ok demo_hhdm_ok demo_table(1)
  by (simp add: demo_pool_sel demo_sel demo_free) blast

text \<open>
  C16: a copy-on-write page that is first protected read-only and then writable again becomes
  writable on the same frame, with the allocator and so the reference count of the frame
  unchanged: \<^verbatim>\<open>vmm_user_protect\<close> without the write flag forgets
  \<^verbatim>\<open>PTE_COW\<close>. A frame that is still shared with another address space is then
  written in place.
\<close>

theorem vmm_user_protect_loses_cow:
  assumes "user_space_ok s" "user_page v" "user_entry s v = Some e" "e AND PTE_COW \<noteq> 0"
    "f1 AND PTE_W = 0" "f2 AND PTE_W \<noteq> 0"
  shows "\<exists>s1 s2 e2. vmm_user_protect s v f1 = (0, s1) \<and> vmm_user_protect s1 v f2 = (0, s2)
    \<and> user_entry s2 v = Some e2 \<and> e2 AND PTE_W \<noteq> 0 \<and> e2 AND PTE_ADDR_MASK = e AND PTE_ADDR_MASK
    \<and> pool s2 = pool s"
proof -
  obtain s1 where s1: "vmm_user_protect s v f1 = (0, s1)" "user_space_ok s1" "pool s1 = pool s"
    "user_entry s1 v = Some (user_leaf (e AND PTE_ADDR_MASK) f1)"
    using vmm_user_protect_spec [OF assms(1-3), of f1] assms(2,5) by auto
  obtain s2 where s2: "vmm_user_protect s1 v f2 = (0, s2)" "pool s2 = pool s1"
    "user_entry s2 v = Some (user_leaf (user_leaf (e AND PTE_ADDR_MASK) f1 AND PTE_ADDR_MASK) f2)"
    using vmm_user_protect_spec [OF s1(2) assms(2) s1(4), of f2] assms(2) user_leaf_fields(2) by auto
  show ?thesis
    using s1 s2 assms(6)
    by (intro exI [of _ s1] exI [of _ s2] exI [of _ "user_leaf (user_leaf (e AND PTE_ADDR_MASK) f1 AND PTE_ADDR_MASK) f2"])
      (simp add: user_leaf_fields and.assoc)
qed

theorem vmm_user_protect_loses_cow_witness:
  "page_ref_count (pool demo_vmm) 0x1000000 = 2 \<and>
   (\<exists>s1 s2 e2. vmm_user_protect demo_vmm 0 0 = (0, s1) \<and> vmm_user_protect s1 0 2 = (0, s2)
      \<and> user_entry s2 0 = Some e2 \<and> e2 AND PTE_W \<noteq> 0 \<and> e2 AND PTE_ADDR_MASK = 0x1000000
      \<and> page_ref_count (pool s2) 0x1000000 = 2)"
proof -
  obtain s1 s2 e2 where "vmm_user_protect demo_vmm 0 0 = (0, s1)" "vmm_user_protect s1 0 2 = (0, s2)"
    "user_entry s2 0 = Some e2" "e2 AND PTE_W \<noteq> 0" "e2 AND PTE_ADDR_MASK = 0x1000000" "pool s2 = demo_pool"
    using vmm_user_protect_loses_cow [OF demo_space_ok _ demo_entry, of 0 2]
    by (auto simp: user_page_def canonical_user_def demo_pool_sel)
  then show ?thesis using demo_pool_refs by (auto simp: demo_pool_sel)
qed

end
