(* ===== verification/Mmap_Inv.thy ===== *)
theory Mmap_Inv
  imports Mmap Vmm_Spec
begin

text \<open>
  Ownership of pages by an address space: no mapped frame is a page table, and a frame has at
  least as many references as there are pages that map it. Every step of the memory system calls
  keeps this invariant.
\<close>

section \<open>The invariant\<close>

definition mapped_at :: "vmm \<Rightarrow> u64 \<Rightarrow> u64 set" where
  "mapped_at v p = {va. user_page va \<and> map_option (\<lambda>e. e AND PTE_ADDR_MASK) (user_entry v va) = Some p}"

abbreviation user_tables :: "vmm \<Rightarrow> u64 set" where
  "user_tables v \<equiv> table_frames v (g_user_pml4 v)"

definition mm_ok :: "vmm \<Rightarrow> bool" where
  "mm_ok v \<longleftrightarrow> user_space_ok v \<and> (\<forall>p. mapped_at v p \<noteq> {} \<longrightarrow> p \<notin> user_tables v)
     \<and> (\<forall>p\<in>managed_pages (pool v). card (mapped_at v p) \<le> page_ref_count (pool v) p)"

lemma mm_okD:
  assumes "mm_ok v"
  shows "user_space_ok v" "vspace_ok v (g_user_pml4 v)" "g_user_valid v" "pmm_ok (pool v)"
    "\<And>p. mapped_at v p \<noteq> {} \<Longrightarrow> p \<notin> user_tables v"
    "\<And>p. p \<in> managed_pages (pool v) \<Longrightarrow> card (mapped_at v p) \<le> page_ref_count (pool v) p"
  using assms vspace_okD(1) unfolding mm_ok_def user_space_ok_def by blast+

lemma free_not_mapped:
  assumes "mm_ok v" "p \<in> free_set (pool v)"
  shows "mapped_at v p = {}"
proof -
  have "p \<in> managed_pages (pool v) \<and> page_ref_count (pool v) p = 0"
    using assms(2) pmm_pool.avail_iff [OF mm_okD(4) [OF assms(1)]] by blast
  then show ?thesis using mm_okD(6) [OF assms(1), of p] by simp
qed

text \<open>A state whose mappings are those of \<open>v\<close> and whose frames are counted at least as high.\<close>

lemma mapped_at_cong: "(\<And>va. user_page va \<Longrightarrow> user_entry v' va = user_entry v va) \<Longrightarrow> mapped_at v' p = mapped_at v p"
  unfolding mapped_at_def by auto

lemma grows_entry:
  assumes "user_space_ok v" "grows (g_user_pml4 v) v v'"
  shows "user_space_ok v'" "canonical_user va \<Longrightarrow> user_entry v' va = user_entry v va"
proof -
  note g = growsD [OF assms(2)]
  show s: "user_space_ok v'" using g assms(1) by (simp add: user_space_ok_def)
  show "user_entry v' va = user_entry v va" if "canonical_user va"
    using user_entry_leaf [OF s that] user_entry_leaf [OF assms(1) that] g(3) [OF that] g(8) by simp
qed

lemma grows_mm_ok:
  assumes ok: "mm_ok v" and gr: "grows (g_user_pml4 v) v v'"
  shows "mm_ok v'" "mapped_at v' p = mapped_at v p"
proof -
  note g = growsD [OF gr] and m = mm_okD [OF ok]
  note e = grows_entry [OF m(1) gr]
  have M: "mapped_at v' p = mapped_at v p" for p
    using e(2) by (intro mapped_at_cong) (auto simp: user_page_def)
  then show "mapped_at v' p = mapped_at v p" .
  show "mm_ok v'"
    unfolding mm_ok_def M
  proof (intro conjI allI ballI impI)
    fix p assume "mapped_at v p \<noteq> {}"
    then show "p \<notin> user_tables v'" using m(5) free_not_mapped [OF ok, of p] g(5,8) by auto
  next
    fix p assume "p \<in> managed_pages (pool v')"
    then have p: "p \<in> managed_pages (pool v)" using g(10) by simp
    show "card (mapped_at v p) \<le> page_ref_count (pool v') p"
      using m(6) [OF p] g(11) [OF p] free_not_mapped [OF ok, of p] by (cases "p \<in> free_set (pool v)") auto
  qed (rule e(1))
qed

section \<open>A frame in hand\<close>

text \<open>A frame that the kernel has allocated and not yet mapped.\<close>

definition held :: "vmm \<Rightarrow> u64 \<Rightarrow> bool" where
  "held v p \<longleftrightarrow> p \<in> managed_pages (pool v) \<and> page_ref_count (pool v) p = 1 \<and> mapped_at v p = {} \<and> p \<notin> user_tables v"

lemma managed_frame:
  assumes "pmm_ok s" "p \<in> managed_pages s"
  shows "page_aligned p" "p AND PTE_ADDR_MASK = p" "p \<noteq> 0" "p < PMM_TRACK_LIMIT"
proof -
  have u: "usable_page s p" using assms(2) by (simp add: managed_pages_def)
  then show al: "page_aligned p" by (simp add: usable_page_def)
  show "p < PMM_TRACK_LIMIT" "p \<noteq> 0"
    using u assms(1) usable_page_bounds(2,4,5) [of s p] by (auto simp: pmm_ok_def pmm_inv_def)
  then have "p < 0x10000000000000" by (auto intro: order_less_trans)
  then show "p AND PTE_ADDR_MASK = p" using al by (rule PTE_ADDR_MASK_id [rotated])
qed

lemma alloc_held:
  assumes ok: "mm_ok v" and a: "alloc_page v = (phys, v')" and p: "phys \<noteq> 0"
  shows "mm_ok v'" "held v' phys" "\<And>va. canonical_user va \<Longrightarrow> user_entry v' va = user_entry v va" "phys \<in> free_set (pool v)"
    "mem v' = mem v" "grows (g_user_pml4 v) v v'"
proof -
  note m = mm_okD [OF ok]
  have e: "v' = snd (alloc_page v)" "phys = fst (pmm_alloc_page (pool v))" using a by (auto simp: alloc_page_def case_prod_beta Let_def)
  show g: "grows (g_user_pml4 v) v v'" unfolding e(1) by (rule alloc_page_grows [OF m(2)])
  show "mm_ok v'" by (rule grows_mm_ok [OF ok g])
  show "user_entry v' va = user_entry v va" if "canonical_user va" for va using grows_entry(2) [OF m(1) g that] .
  have ne: "free_set (pool v) \<noteq> {}" using pmm_pool.alloc_null_iff [OF m(4)] p e(2) by blast
  note S = pmm_pool.alloc_some [OF m(4) ne]
  show f: "phys \<in> free_set (pool v)" using S e(2) by simp
  show "mem v' = mem v" by (simp add: e(1) alloc_page_def case_prod_beta Let_def)
  have mp: "phys \<in> managed_pages (pool v)" using f pmm_pool.avail_iff [OF m(4)] by blast
  have pl: "pool v' = snd (pmm_alloc_page (pool v))" by (simp add: e(1) alloc_page_def case_prod_beta Let_def)
  have "page_ref_count (pool v') phys = 1" using S mp e(2) pl by simp
  moreover have "phys \<notin> table_frames v (g_user_pml4 v)" using vspace_okD(5) [OF m(2)] f by (auto simp: table_frames_def)
  moreover have "table_frames v' (g_user_pml4 v) = table_frames v (g_user_pml4 v)"
  proof -
    have "table v' = table v" using pmm_alloc_frame(4) [OF m(4)] pl by (intro table_cong) simp
    then have "node v' r q = node v r q" for r q
      by (intro node_cong) (simp add: walk_step_def Let_def e(1) alloc_page_def case_prod_beta rd_def)
    then show ?thesis by (simp add: table_frames_def)
  qed
  ultimately show "held v' phys"
    using mp growsD(8,10) [OF g] grows_mm_ok(2) [OF ok g] free_not_mapped [OF ok f] by (simp add: held_def)
qed

lemma mem_change_mm_ok:
  assumes ok: "mm_ok v" and p: "p \<notin> user_tables v" and m: "\<And>f. f \<noteq> p \<Longrightarrow> m f = mem v f"
  shows "mm_ok (v\<lparr>mem := m\<rparr>)" "\<And>va. canonical_user va \<Longrightarrow> user_entry (v\<lparr>mem := m\<rparr>) va = user_entry v va"
    "held v q \<Longrightarrow> held (v\<lparr>mem := m\<rparr>) q" "user_tables (v\<lparr>mem := m\<rparr>) = user_tables v"
proof -
  let ?v = "v\<lparr>mem := m\<rparr>" and ?root = "g_user_pml4 v"
  note o = mm_okD [OF ok]
  have t: "table ?v = table v" by (rule table_cong) simp
  have rd: "rd ?v f i = rd v f i" if "f \<in> table_frames v ?root" for f i
    using that p m [of f] by (cases "f = p") (auto simp: rd_def)
  have n: "node ?v ?root q = node v ?root q" if "user_path q" for q
    using that by (rule node_frame [rotated]) (simp add: walk_step_def Let_def t rd)
  have tf: "table_frames ?v ?root = table_frames v ?root" using n by (auto simp: table_frames_def)
  then show "user_tables ?v = user_tables v" by simp
  have l: "leaf_entry ?v ?root va = leaf_entry v ?root va" if "canonical_user va" for va
    using n [OF user_path_idx [OF that]] rd user_path_idx [OF that] unfolding leaf_entry_def table_frames_def
    by (auto split: option.split)
  have "vspace_ok ?v ?root" using o(2) n unfolding vspace_ok_def t by simp
  then have s: "user_space_ok ?v" using o(3) by (simp add: user_space_ok_def)
  show e: "user_entry ?v va = user_entry v va" if "canonical_user va" for va
    using user_entry_leaf [OF s that] user_entry_leaf [OF o(1) that] l [OF that] by simp
  have M: "mapped_at ?v q = mapped_at v q" for q using e by (intro mapped_at_cong) (simp add: user_page_def)
  show "mm_ok ?v" using ok s tf unfolding mm_ok_def M by simp
  show "held ?v q" if "held v q" using that tf unfolding held_def M by simp
qed

text \<open>Dropping a reference of a frame that the remaining mappings do not need.\<close>

lemma release_mm_ok:
  assumes s: "user_space_ok v" and t: "\<And>q. mapped_at v q \<noteq> {} \<Longrightarrow> q \<notin> user_tables v" and pt: "p \<notin> user_tables v"
    and c: "\<And>q. q \<in> managed_pages (pool v) \<Longrightarrow> card (mapped_at v q) + (if q = p then 1 else 0) \<le> page_ref_count (pool v) q"
    and pm: "p \<in> managed_pages (pool v)"
  shows "mm_ok (free_page v p)" "\<And>va. canonical_user va \<Longrightarrow> user_entry (free_page v p) va = user_entry v va"
    "managed_pages (pool (free_page v p)) = managed_pages (pool v)"
    "free_set (pool (free_page v p)) \<subseteq> insert p (free_set (pool v))"
    "user_tables (free_page v p) = user_tables v"
proof -
  let ?v = "free_page v p" and ?root = "g_user_pml4 v"
  have ok: "vspace_ok v ?root" "g_user_valid v" "pmm_ok (pool v)" using s vspace_okD(1) by (auto simp: user_space_ok_def)
  note vo = vspace_okD [OF ok(1)]
  have g: "g_user_pml4 ?v = ?root" "g_user_valid ?v = g_user_valid v" "mem ?v = mem v" "pool ?v = pmm_free_page (pool v) p"
    by (simp_all add: free_page_def)
  show mg: "managed_pages (pool ?v) = managed_pages (pool v)" using pmm_pool.free_managed [OF ok(3)] by (simp add: g)
  have r: "page_ref_count (pool ?v) q = (if q = p then page_ref_count (pool v) q - 1 else page_ref_count (pool v) q)"
    if "q \<in> managed_pages (pool v)" for q using pmm_pool.free_refs [OF ok(3) pm that] by (simp add: g)
  show fs: "free_set (pool ?v) \<subseteq> insert p (free_set (pool v))"
  proof
    fix q assume q: "q \<in> free_set (pool ?v)"
    have "q \<in> managed_pages (pool v) \<and> page_ref_count (pool ?v) q = 0"
      using q pmm_pool.avail_iff [OF pmm_free_ok [OF ok(3), of p], of q] mg by (simp add: g)
    then show "q \<in> insert p (free_set (pool v))"
      using r [of q] pmm_pool.avail_iff [OF ok(3), of q] by (auto split: if_splits)
  qed
  note n = node_free_page [OF ok(3), of p]
  show tf: "user_tables ?v = user_tables v" by (simp add: table_frames_def n(1) g)
  have nf: "f \<notin> free_set (pool ?v)" if "user_path q" "node v ?root q = Some f" for q f
    using vo(5) [OF that] fs pt that unfolding table_frames_def by blast
  have "vspace_ok ?v ?root"
    using vo(2,3,4) nf pmm_free_ok [OF ok(3), of p] pmm_free_frame(4) [OF ok(3)]
    unfolding vspace_ok_def n by (simp add: hhdm_ok_def g)
  then have us: "user_space_ok ?v" using ok(2) by (simp add: user_space_ok_def g)
  show e: "user_entry ?v va = user_entry v va" if "canonical_user va" for va
  proof -
    have rd: "rd ?v = rd v" by (simp add: fun_eq_iff rd_def g)
    have "leaf_entry ?v ?root va = leaf_entry v ?root va" unfolding leaf_entry_def n(1) rd ..
    then show ?thesis using user_entry_leaf [OF us that] user_entry_leaf [OF s that] by (simp add: g)
  qed
  have M: "mapped_at ?v q = mapped_at v q" for q using e by (intro mapped_at_cong) (simp add: user_page_def)
  show "mm_ok ?v"
    unfolding mm_ok_def M mg
  proof (intro conjI allI ballI impI)
    fix q assume q: "q \<in> managed_pages (pool v)"
    show "card (mapped_at v q) \<le> page_ref_count (pool ?v) q" using c [OF q] r [OF q] by (auto split: if_splits)
  qed (use us t tf in auto)
qed

lemma free_held_ok:
  assumes ok: "mm_ok v" and h: "held v p"
  shows "mm_ok (free_page v p)" "\<And>va. canonical_user va \<Longrightarrow> user_entry (free_page v p) va = user_entry v va"
    "free_set (pool (free_page v p)) \<subseteq> insert p (free_set (pool v))" "user_tables (free_page v p) = user_tables v"
    "managed_pages (pool (free_page v p)) = managed_pages (pool v)"
proof -
  note m = mm_okD [OF ok]
  have h: "p \<in> managed_pages (pool v)" "page_ref_count (pool v) p = 1" "mapped_at v p = {}" "p \<notin> user_tables v"
    using h by (auto simp: held_def)
  have c: "card (mapped_at v q) + (if q = p then 1 else 0) \<le> page_ref_count (pool v) q" if "q \<in> managed_pages (pool v)" for q
    using m(6) [OF that] h by auto
  note R = release_mm_ok [OF m(1) m(5) h(4) c h(1)]
  show "mm_ok (free_page v p)" "\<And>va. canonical_user va \<Longrightarrow> user_entry (free_page v p) va = user_entry v va"
    "free_set (pool (free_page v p)) \<subseteq> insert p (free_set (pool v))" "user_tables (free_page v p) = user_tables v"
    "managed_pages (pool (free_page v p)) = managed_pages (pool v)"
    using R by blast+
qed

section \<open>Unmapping\<close>

lemma unmap_mapped_at:
  assumes "user_space_ok v" "user_page va"
  shows "mapped_at (snd (snd (vmm_user_unmap v va))) p = mapped_at v p - {va}"
proof -
  have "user_entry (snd (snd (vmm_user_unmap v va))) w = (if w = va then None else user_entry v w)" if "user_page w" for w
    using vmm_user_unmap_spec(2) [OF assms, of w] that page_aligned_id [of w] by (simp add: user_page_def)
  then show ?thesis unfolding mapped_at_def by (auto split: if_splits)
qed

lemma unmap_tables:
  assumes "user_space_ok v" "user_page va"
  shows "user_tables (snd (snd (vmm_user_unmap v va))) = user_tables v"
    "g_user_pml4 (snd (snd (vmm_user_unmap v va))) = g_user_pml4 v"
proof -
  have ok: "vspace_ok v (g_user_pml4 v)" "g_user_valid v" "canonical_user va" "page_aligned va"
    using assms by (auto simp: user_space_ok_def user_page_def)
  consider "snd (snd (vmm_user_unmap v va)) = v" | pt where "node v (g_user_pml4 v) [idx4 va, idx3 va, idx2 va] = Some pt"
      "snd (snd (vmm_user_unmap v va)) = wr v pt (idx1 va) 0"
  proof (cases "node v (g_user_pml4 v) [idx4 va, idx3 va, idx2 va]")
    case None
    then show thesis using that(1) ok vspace_okD(3) [OF ok(1)] by (simp add: vmm_user_unmap_def page_aligned_def walk_node)
  next
    case (Some pt)
    then show thesis using that ok vspace_okD(3) [OF ok(1)]
      by (cases "rd v pt (idx1 va) AND PTE_P = 0") (simp_all add: vmm_user_unmap_def page_aligned_def walk_node)
  qed
  then have "user_tables (snd (snd (vmm_user_unmap v va))) = user_tables v
    \<and> g_user_pml4 (snd (snd (vmm_user_unmap v va))) = g_user_pml4 v"
  proof cases
    case (2 pt)
    note l = leaf_write(2) [OF ok(1,3) 2(1,2)]
    then show ?thesis using 2(2) by (auto simp: table_frames_def)
  qed simp
  then show "user_tables (snd (snd (vmm_user_unmap v va))) = user_tables v"
    "g_user_pml4 (snd (snd (vmm_user_unmap v va))) = g_user_pml4 v" by blast+
qed

lemma free_unmanaged:
  assumes "pmm_ok s" "p \<notin> managed_pages s" "page_aligned p"
  shows "pmm_free_page s p = s"
  using assms pmm_free_page_eq [of s p] page_aligned_id [OF assms(3)] pmm_invD(1) [of s]
  by (auto simp: pmm_ok_def managed_pages_def usable_page_def page_of_def)

lemma drop_page_spec:
  assumes ok: "mm_ok v" and va: "user_page va"
  shows "mm_ok (drop_page v va)"
    "user_page w \<Longrightarrow> user_entry (drop_page v va) w = (if w = va then None else user_entry v w)"
    "managed_pages (pool (drop_page v va)) = managed_pages (pool v)"
    "user_tables (drop_page v va) = user_tables v"
proof -
  note m = mm_okD [OF ok]
  note U = vmm_user_unmap_spec [OF m(1) va] unmap_mapped_at [OF m(1) va] unmap_tables [OF m(1) va]
  obtain r p v1 where u: "vmm_user_unmap v va = (r, p, v1)" by (metis prod.exhaust)
  have v1: "user_space_ok v1" "pool v1 = pool v" "user_tables v1 = user_tables v"
    "\<And>q. mapped_at v1 q = mapped_at v q - {va}" using U u by simp_all
  have e1: "user_entry v1 w = (if w = va then None else user_entry v w)" if "user_page w" for w
    using U(2) [of w] u that page_aligned_id [of w] by (simp add: user_page_def)
  have t1: "\<And>q. mapped_at v1 q \<noteq> {} \<Longrightarrow> q \<notin> user_tables v1" using m(5) v1(3,4) by auto
  have c1: "card (mapped_at v1 q) \<le> page_ref_count (pool v1) q" if "q \<in> managed_pages (pool v1)" for q
    using m(6) [of q] that v1(2,4) card_mono [of "mapped_at v q" "mapped_at v q - {va}"] by auto
  have ok1: "mm_ok v1" using v1(1) t1 c1 unfolding mm_ok_def by blast
  consider (none) "drop_page v va = v1" | (some) e where "user_entry v va = Some e" "drop_page v va = free_page v1 (e AND PTE_ADDR_MASK)"
    using u U(3,4) by (cases "user_entry v va"; cases "the (user_entry v va) AND PTE_ADDR_MASK = 0") (auto simp: drop_page_def)
  then have "mm_ok (drop_page v va) \<and> (user_page w \<longrightarrow> user_entry (drop_page v va) w = (if w = va then None else user_entry v w))
    \<and> managed_pages (pool (drop_page v va)) = managed_pages (pool v) \<and> user_tables (drop_page v va) = user_tables v"
  proof cases
    case none
    then show ?thesis using ok1 e1 v1(2,3) by simp
  next
    case (some e)
    let ?p = "e AND PTE_ADDR_MASK"
    have at: "va \<in> mapped_at v ?p" using some(1) va by (simp add: mapped_at_def)
    show ?thesis
    proof (cases "?p \<in> managed_pages (pool v)")
      case True
      have c: "card (mapped_at v1 q) + (if q = ?p then 1 else 0) \<le> page_ref_count (pool v1) q" if q: "q \<in> managed_pages (pool v1)" for q
      proof (cases "q = ?p")
        case True
        have "card (mapped_at v ?p - {va}) + 1 = card (mapped_at v ?p)" using at by (metis Suc_eq_plus1 card_Suc_Diff1 finite)
        then show ?thesis using True m(6) [of ?p] \<open>?p \<in> managed_pages (pool v)\<close> v1(2,4) by simp
      qed (use c1 [OF q] in simp)
      have "?p \<notin> user_tables v1" using m(5) [of ?p] at v1(3) by auto
      note R = release_mm_ok [OF v1(1) t1 this c]
      show ?thesis using R some(2) e1 v1(2,3) True by (simp add: user_page_def)
    next
      case False
      have "pmm_free_page (pool v1) ?p = pool v1" using False m(4) v1(2) by (intro free_unmanaged) simp_all
      then have "free_page v1 ?p = v1" by (simp add: free_page_def)
      then show ?thesis using some(2) ok1 e1 v1(2,3) by simp
    qed
  qed
  then show "mm_ok (drop_page v va)"
    "user_page w \<Longrightarrow> user_entry (drop_page v va) w = (if w = va then None else user_entry v w)"
    "managed_pages (pool (drop_page v va)) = managed_pages (pool v)"
    "user_tables (drop_page v va) = user_tables v" by blast+
qed

lemma drop_pages_spec:
  assumes "mm_ok v" "\<forall>va\<in>set vas. user_page va"
  shows "mm_ok (drop_pages v vas)" "\<And>w. user_page w \<Longrightarrow> user_entry (drop_pages v vas) w = (if w \<in> set vas then None else user_entry v w)"
proof -
  have "mm_ok (drop_pages v vas) \<and> (\<forall>w. user_page w \<longrightarrow> user_entry (drop_pages v vas) w = (if w \<in> set vas then None else user_entry v w))"
    using assms
  proof (induction vas arbitrary: v)
    case (Cons va vas)
    have d: "mm_ok (drop_page v va)" "\<And>w. user_page w \<Longrightarrow> user_entry (drop_page v va) w = (if w = va then None else user_entry v w)"
      using drop_page_spec(1,2) [OF Cons.prems(1), of va] Cons.prems(2) by simp_all
    have "drop_pages v (va # vas) = drop_pages (drop_page v va) vas" by (simp add: drop_pages_def)
    then show ?case using Cons.IH [OF d(1)] Cons.prems(2) d(2) by auto
  qed (simp add: drop_pages_def)
  then show "mm_ok (drop_pages v vas)" "\<And>w. user_page w \<Longrightarrow> user_entry (drop_pages v vas) w = (if w \<in> set vas then None else user_entry v w)"
    by blast+
qed

section \<open>Mapping a fresh page\<close>

lemma held_not_free: "pmm_ok (pool v) \<Longrightarrow> held v p \<Longrightarrow> p \<notin> free_set (pool v)"
  using pmm_pool.avail_iff by (auto simp: held_def)

lemma mapped_not_free: "mm_ok v \<Longrightarrow> mapped_at v f \<noteq> {} \<Longrightarrow> f \<notin> user_tables v \<and> f \<notin> free_set (pool v)"
  using mm_okD(5) free_not_mapped by blast

lemma user_leaf_addr: "user_leaf p f AND PTE_ADDR_MASK = p AND PTE_ADDR_MASK"
  by (rule user_leaf_fields(1))

lemma map_held:
  assumes ok: "mm_ok v" and h: "held v p" and va: "user_page va" "user_entry v va = None"
    and m: "vmm_user_map v va p fl = (r, v')"
  shows "mm_ok v'" "\<And>w. user_page w \<Longrightarrow> user_entry v' w = (if r = 0 \<and> w = va then Some (user_leaf p fl) else user_entry v w)"
    "r \<noteq> 0 \<Longrightarrow> held v' p" "\<And>q. mapped_at v' q = (if r = 0 \<and> q = p then {va} else mapped_at v q)"
    "\<And>f. f \<notin> user_tables v \<Longrightarrow> f \<notin> free_set (pool v) \<Longrightarrow> mem v' f = mem v f"
proof -
  note mo = mm_okD [OF ok]
  have H: "p \<in> managed_pages (pool v)" "page_ref_count (pool v) p = 1" "mapped_at v p = {}" "p \<notin> user_tables v"
    using h by (auto simp: held_def)
  have pf: "p \<notin> free_set (pool v)" by (rule held_not_free [OF mo(4) h])
  note mf = managed_frame [OF mo(4) H(1)]
  have c: "canonical_user va" "page_aligned va" using va(1) by (auto simp: user_page_def)
  note E = vmm_user_map_entry [OF mo(1) va(1) mf(1), where f = fl, unfolded m, simplified]
  show e: "user_entry v' w = (if r = 0 \<and> w = va then Some (user_leaf p fl) else user_entry v w)" if "user_page w" for w
    using E(2) [OF that] by simp
  show M: "mapped_at v' q = (if r = 0 \<and> q = p then {va} else mapped_at v q)" for q
  proof -
    have "w \<in> mapped_at v' q \<longleftrightarrow> w \<in> (if r = 0 \<and> q = p then {va} else mapped_at v q)" for w
    proof (cases "w = va")
      case True
      then show ?thesis
        using e [OF va(1)] H(3) va user_leaf_addr [of p fl] mf(2) unfolding mapped_at_def by (auto split: if_splits)
    next
      case False
      then have "w \<in> mapped_at v' q \<longleftrightarrow> w \<in> mapped_at v q" 
        using e [of w] unfolding mapped_at_def mem_Collect_eq by (cases "user_page w") simp_all
      then show ?thesis using H(3) False by (auto split: if_splits)
    qed
    then show ?thesis by blast
  qed
  note T = vmm_user_map_translate [OF mo(2,3) c mf(1) m]
  show "mem v' f = mem v f" if "f \<notin> user_tables v" "f \<notin> free_set (pool v)" for f using T that by blast
  obtain v1 where g: "grows (g_user_pml4 v) v v1" and pl: "pool v' = pool v1" "g_user_pml4 v' = g_user_pml4 v1"
    and tf: "table_frames v' (g_user_pml4 v) = table_frames v1 (g_user_pml4 v)"
    using mo(2,3) c mf(1)
  proof (cases rule: vmm_user_map_spec [of v va p fl])
    case (full s')
    then show thesis using m that [of s'] by simp
  next
    case (mapped s1 pt)
    note l = leaf_write(2) [OF growsD(1) [OF mapped(2)] c(1) mapped(3) refl]
    have w: "v' = wr s1 pt (idx1 va) ((p AND PTE_ADDR_MASK) OR PTE_P OR PTE_U OR (fl AND (PTE_W OR PTE_NX OR PTE_PWT OR PTE_PCD)))"
      using m mapped(1) by simp
    have "table_frames v' (g_user_pml4 v) = table_frames s1 (g_user_pml4 v)"
      unfolding table_frames_def w using l by (intro Collect_cong) auto
    then show thesis using that [OF mapped(2)] w by simp
  qed
  note G = growsD [OF g]
  have pt: "q \<notin> user_tables v'" if "q \<notin> user_tables v" "q \<notin> free_set (pool v)" for q
    using G(5,8) tf pl(2) that by auto
  have ref: "page_ref_count (pool v') q = page_ref_count (pool v) q" if "q \<in> managed_pages (pool v)" "q \<notin> free_set (pool v)" for q
    using G(11) [OF that] pl(1) by simp
  show "held v' p" if "r \<noteq> 0"
    using H that M [of p] pt [OF H(4) pf] ref [OF H(1) pf] G(10) pl(1) by (simp add: held_def)
  show "mm_ok v'"
    unfolding mm_ok_def M
  proof (intro conjI allI ballI impI)
    show "user_space_ok v'" using E(1) by simp
    fix q assume "(if r = 0 \<and> q = p then {va} else mapped_at v q) \<noteq> {}"
    then show "q \<notin> user_tables v'" using pt H(4) pf mapped_not_free [OF ok, of q] by (auto split: if_splits)
  next
    fix q assume "q \<in> managed_pages (pool v')"
    then have q: "q \<in> managed_pages (pool v)" using G(10) pl(1) by simp
    show "card (if r = 0 \<and> q = p then {va} else mapped_at v q) \<le> page_ref_count (pool v') q"
      using ref [OF q] mo(6) [OF q] free_not_mapped [OF ok, of q] H(2) pf
      by (cases "q \<in> free_set (pool v)") (auto split: if_splits)
  qed
qed

text \<open>A zeroed frame of the free pages at \<open>va\<close>, used for nothing else.\<close>

definition fresh_at :: "vmm \<Rightarrow> u64 \<Rightarrow> u64 \<Rightarrow> bool" where
  "fresh_at v fl va \<longleftrightarrow> (\<exists>p. user_entry v va = Some (user_leaf p fl) \<and> p AND PTE_ADDR_MASK = p \<and> mapped_at v p = {va}
     \<and> (\<forall>i<512. mem v p i = 0))"

text \<open>One step that maps a fresh page at \<open>va\<close>, or leaves the mappings as they are.\<close>

definition fresh_step :: "vmm \<Rightarrow> u64 \<Rightarrow> u64 \<Rightarrow> bool \<Rightarrow> vmm \<Rightarrow> bool" where
  "fresh_step v fl va b v' \<longleftrightarrow> mm_ok v' \<and> (b \<longrightarrow> user_entry v va = None \<and> fresh_at v' fl va)
     \<and> (\<forall>w. user_page w \<longrightarrow> w \<noteq> va \<or> \<not> b \<longrightarrow> user_entry v' w = user_entry v w)
     \<and> (\<forall>f. mapped_at v f \<noteq> {} \<longrightarrow> mapped_at v' f = mapped_at v f \<and> mem v' f = mem v f)"

lemma zero_frame_0: "i < 512 \<Longrightarrow> zero_frame m p p i = 0"
proof -
  have "fold (\<lambda>i m. m(p := (m p)(i := 0))) [0..<n] m p i = (if i < n then 0 else m p i)" for n i
    by (induction n) (auto simp: less_Suc_eq)
  then show "i < 512 \<Longrightarrow> zero_frame m p p i = 0" unfolding zero_frame_def by simp
qed

lemma zero_frame_other: "f \<noteq> p \<Longrightarrow> zero_frame m p f = m f"
proof -
  assume "f \<noteq> p"
  then have "fold (\<lambda>i m. m(p := (m p)(i := 0))) [0..<n] m f = m f" for n by (induction n) auto
  then show ?thesis unfolding zero_frame_def by simp
qed

lemma grow_page_spec:
  assumes ok: "mm_ok v" and va: "user_page va" "user_entry v va = None" and g: "grow_page v prot va = (b, v')"
  shows "fresh_step v (prot_to_pte prot) va b v'"
proof -
  note mo = mm_okD [OF ok]
  obtain phys v1 where a: "alloc_page v = (phys, v1)" by fastforce
  show ?thesis
  proof (cases "phys = 0")
    case True
    have v1: "v1 = snd (alloc_page v)" using a by simp
    have gr: "grows (g_user_pml4 v) v v1" unfolding v1 by (rule alloc_page_grows [OF mo(2)])
    have "b = False" "v' = v1" using g a True by (auto simp: grow_page_def)
    moreover have "mem v1 = mem v" by (simp add: v1 alloc_page_def case_prod_beta Let_def)
    ultimately show ?thesis
      using grows_mm_ok [OF ok gr] grows_entry(2) [OF mo(1) gr] by (simp add: fresh_step_def user_page_def)
  next
    case False
    note A = alloc_held [OF ok a False]
    have fr: "f \<noteq> phys" if "mapped_at v f \<noteq> {}" for f using that free_not_mapped [OF ok A(4)] by auto
    have M1: "mapped_at v1 f = mapped_at v f" for f using grows_mm_ok(2) [OF ok A(6)] .
    have pm: "phys \<in> managed_pages (pool v1)" "phys \<notin> user_tables v1" using A(2) by (auto simp: held_def)
    note mo1 = mm_okD [OF A(1)]
    let ?v2 = "zero_table v1 phys"
    have z: "?v2 = v1\<lparr>mem := zero_frame (mem v1) phys\<rparr>" by (simp add: zero_table_def)
    have zo: "\<And>f. f \<noteq> phys \<Longrightarrow> zero_frame (mem v1) phys f = mem v1 f" by (rule zero_frame_other)
    have Z: "mm_ok ?v2" "\<And>va. canonical_user va \<Longrightarrow> user_entry ?v2 va = user_entry v1 va" "held v1 phys \<Longrightarrow> held ?v2 phys"
      unfolding z using mem_change_mm_ok [OF A(1) pm(2), of "zero_frame (mem v1) phys"] zo by blast+
    have M2: "mapped_at ?v2 f = mapped_at v1 f" for f using Z(2) by (intro mapped_at_cong) (simp add: user_page_def)
    have e2: "user_entry ?v2 w = user_entry v w" if "user_page w" for w using that Z(2) A(3) by (simp add: user_page_def)
    have "pmm_phys_to_virt (pool v1) phys \<noteq> None"
      using hhdm_ok_virt [OF vspace_okD(2) [OF mo1(2)] managed_frame(4) [OF mo1(4) pm(1)]] by simp
    obtain r v3 where m: "vmm_user_map ?v2 va phys (prot_to_pte prot) = (r, v3)" by fastforce
    note P = map_held [OF Z(1) Z(3) [OF A(2)] va(1) _ m] 
    have en: "user_entry ?v2 va = None" using e2 [OF va(1)] va(2) by simp
    note P = P [OF en]
    have gp: "(b, v') = (if r \<noteq> 0 then (False, free_page v3 phys) else (True, v3))"
      using g a False \<open>pmm_phys_to_virt (pool v1) phys \<noteq> None\<close> m by (auto simp: grow_page_def)
    have keep: "mem v3 f = mem v f" if f: "mapped_at v f \<noteq> {}" for f
    proof -
      have "mapped_at ?v2 f \<noteq> {}" using f M1 M2 by simp
      then have "mem v3 f = mem ?v2 f" using P(5) mapped_not_free [OF Z(1)] by blast
      then show ?thesis using zo [OF fr [OF f]] A(5) by (simp add: z)
    qed
    show ?thesis
    proof (cases "r = 0")
      case True
      have hp: "phys \<notin> user_tables ?v2" "phys \<notin> free_set (pool ?v2)"
        using Z(3) [OF A(2)] held_not_free [OF mm_okD(4) [OF Z(1)]] by (auto simp: held_def)
      have "mem v3 phys = mem ?v2 phys" using P(5) [OF hp] .
      then have "\<forall>i<512. mem v3 phys i = 0" using zero_frame_0 by (simp add: z)
      then have "fresh_at v3 (prot_to_pte prot) va"
        using P(2) [OF va(1)] P(4) [of phys] True managed_frame(2) [OF mo1(4) pm(1)]
        unfolding fresh_at_def by (intro exI [of _ phys]) simp
      then show ?thesis
        using gp True P(1) P(2) e2 keep P(4) M1 M2 fr va(2) unfolding fresh_step_def by auto
    next
      case False
      note F = free_held_ok [OF P(1) P(3) [OF False]]
      have M4: "mapped_at (free_page v3 phys) f = mapped_at v3 f" for f using F(2) by (intro mapped_at_cong) (simp add: user_page_def)
      have "mem (free_page v3 phys) = mem v3" by (simp add: free_page_def)
      then show ?thesis
        using gp False F(1,2) P(2) e2 keep P(4) M1 M2 M4 unfolding fresh_step_def by (auto simp: user_page_def)
    qed
  qed
qed

lemma fresh_stepD:
  assumes "fresh_step v fl va b v'"
  shows "mm_ok v'" "b \<Longrightarrow> fresh_at v' fl va" "\<And>w. user_page w \<Longrightarrow> w \<noteq> va \<or> \<not> b \<Longrightarrow> user_entry v' w = user_entry v w"
    "\<And>f. mapped_at v f \<noteq> {} \<Longrightarrow> mapped_at v' f = mapped_at v f" "\<And>f. mapped_at v f \<noteq> {} \<Longrightarrow> mem v' f = mem v f"
    "b \<Longrightarrow> user_entry v va = None"
  using assms unfolding fresh_step_def by blast+

lemma fresh_at_step:
  assumes "fresh_at v fl w" "fresh_step v fl va b v'" "user_page w" "w \<noteq> va"
  shows "fresh_at v' fl w"
proof -
  obtain p where p: "user_entry v w = Some (user_leaf p fl)" "p AND PTE_ADDR_MASK = p" "mapped_at v p = {w}" "\<forall>i<512. mem v p i = 0"
    using assms(1) by (auto simp: fresh_at_def)
  note S = fresh_stepD [OF assms(2)]
  have "mapped_at v p \<noteq> {}" using p(3) by simp
  from S(4) [OF this] S(5) [OF this] S(3) [OF assms(3)] assms(4) p show ?thesis unfolding fresh_at_def by auto
qed

text \<open>
  A loop that maps fresh pages one after the other: either all of them, or the pages are unmapped
  again and no mapping has changed.
\<close>

definition fresh_range :: "vmm \<Rightarrow> u64 \<Rightarrow> u64 list \<Rightarrow> bool \<Rightarrow> vmm \<Rightarrow> bool" where
  "fresh_range v fl vas b v' \<longleftrightarrow> mm_ok v' \<and> (b \<longrightarrow> (\<forall>va\<in>set vas. user_entry v va = None \<and> fresh_at v' fl va))
     \<and> (\<forall>w. user_page w \<longrightarrow> w \<notin> set vas \<or> \<not> b \<longrightarrow> user_entry v' w = user_entry v w)"

text \<open>\<open>need\<close> says whether a step relies on the page being unmapped or finds out by itself.\<close>

lemma fresh_loop:
  assumes step: "\<And>v va b v'. mm_ok v \<Longrightarrow> user_page va \<Longrightarrow> (need \<longrightarrow> user_entry v va = None) \<Longrightarrow> page v va = (b, v') \<Longrightarrow>
      fresh_step v fl va b v'"
    and nil: "\<And>v mapped. loop v mapped [] = (True, v)"
    and cons: "\<And>v mapped va vas. loop v mapped (va # vas) =
      (case page v va of (False, v) \<Rightarrow> (False, drop_pages v mapped) | (True, v) \<Rightarrow> loop v (mapped @ [va]) vas)"
    and v: "mm_ok v" "\<forall>va\<in>set vas. user_page va" "need \<longrightarrow> (\<forall>va\<in>set vas. user_entry v va = None)" "distinct vas"
    and r: "loop v [] vas = (b, v')"
  shows "fresh_range v fl vas b v'"
proof -
  have "mm_ok v' \<and> (b \<longrightarrow> (\<forall>va\<in>set (done @ vas). fresh_at v' fl va) \<and> (\<forall>va\<in>set vas. user_entry u va = None))
      \<and> (\<forall>w. user_page w \<longrightarrow> w \<notin> set vas \<or> \<not> b \<longrightarrow> user_entry v' w = (if \<not> b \<and> w \<in> set done then None else user_entry u w))"
    if "mm_ok u" "\<forall>va\<in>set (done @ vas). user_page va" "need \<longrightarrow> (\<forall>va\<in>set vas. user_entry u va = None)" "distinct (done @ vas)"
      "\<forall>va\<in>set done. fresh_at u fl va" "loop u done vas = (b, v')" for u "done"
    using that
  proof (induction vas arbitrary: u "done")
    case Nil
    then show ?case by (auto simp: nil)
  next
    case (Cons va vas)
    obtain c u1 where p: "page u va = (c, u1)" by fastforce
    have pv: "user_page va" "need \<longrightarrow> user_entry u va = None" "va \<notin> set done" "va \<notin> set vas" using Cons.prems(2-4) by auto
    note S = step [OF Cons.prems(1) pv(1,2) p]
    note D = fresh_stepD [OF S]
    show ?case
    proof (cases c)
      case False
      have b: "b = False" "v' = drop_pages u1 done" using Cons.prems(6) p False by (auto simp: cons)
      have ud: "\<forall>va\<in>set done. user_page va" using Cons.prems(2) by simp
      note P = drop_pages_spec [OF D(1) ud]
      have "user_entry v' w = (if w \<in> set done then None else user_entry u w)" if "user_page w" for w
        using P(2) [OF that] D(3) [OF that] False b(2) by simp
      then show ?thesis using P(1) b by auto
    next
      case True
      have un: "user_entry u va = None" using D(6) True by simp
      have l: "loop u1 (done @ [va]) vas = (b, v')" using Cons.prems(6) p True by (simp add: cons)
      have e: "user_entry u1 w = user_entry u w" if "user_page w" "w \<noteq> va" for w using D(3) [OF that(1)] that(2) by simp
      have ev: "user_entry u1 w = user_entry u w" if w: "w \<in> set vas" for w
        using w pv(4) e [of w] Cons.prems(2) by (cases "w = va") auto
      then have q: "\<forall>w\<in>set ((done @ [va]) @ vas). user_page w" "need \<longrightarrow> (\<forall>w\<in>set vas. user_entry u1 w = None)" "distinct ((done @ [va]) @ vas)"
        using Cons.prems(2-4) by auto
      have f: "\<forall>w\<in>set (done @ [va]). fresh_at u1 fl w"
        using Cons.prems(2,5) D(2) True fresh_at_step [OF _ S] pv(3) by auto
      note IH = Cons.IH [OF D(1) q f l]
      have "user_entry v' w = (if \<not> b \<and> w \<in> set done then None else user_entry u w)"
        if w: "user_page w" "w \<notin> set (va # vas) \<or> \<not> b" for w
      proof (cases "w = va")
        case True
        then have "\<not> b" using w(2) by simp
        then show ?thesis using IH w(1) True un by simp
      next
        case False
        then show ?thesis using IH w e [OF w(1) False] by auto
      qed
      then show ?thesis using IH ev un by simp
    qed
  qed
  from this [of v "[]"] show ?thesis using v r by (simp add: fresh_range_def)
qed

lemma grow_loop_spec:
  assumes "mm_ok v" "\<forall>va\<in>set vas. user_page va" "\<forall>va\<in>set vas. user_entry v va = None" "distinct vas"
    "grow_loop v prot [] vas = (b, v')"
  shows "fresh_range v (prot_to_pte prot) vas b v'"
  by (rule fresh_loop [where page = "\<lambda>v va. grow_page v prot va" and loop = "\<lambda>v. grow_loop v prot" and need = True])
    (use assms grow_page_spec in \<open>auto split: prod.split bool.split\<close>)

lemma user_leaf_rw: "user_leaf p (prot_to_pte 3) AND 7 = 7"
  unfolding user_leaf_def by (simp add: bit.conj_disj_distrib2 and.assoc or.assoc prot_to_pte_def)

lemma brk_page_eq:
  assumes ok: "mm_ok v" and a: "user_page a"
  shows "brk_page v a = (if user_entry v a = None then grow_page v 3 a else (False, v))"
proof (cases "user_entry v a = None")
  case False
  then show ?thesis by (auto simp: brk_page_def user_entry_def)
next
  case True
  obtain b v' where g: "grow_page v 3 a = (b, v')" by fastforce
  have fl: "prot_to_pte 3 = PTE_W OR PTE_NX" by (simp add: prot_to_pte_def)
  have t: "vmm_user_translate v a = None" using True by (simp add: user_entry_def)
  have pte: "case vmm_user_translate v' a of None \<Rightarrow> False | Some (_, pte) \<Rightarrow> pte AND (PTE_P OR PTE_U OR PTE_W) = PTE_P OR PTE_U OR PTE_W" if b
    using fresh_stepD(2) [OF grow_page_spec [OF ok a True g] that] user_leaf_rw by (auto simp: fresh_at_def user_entry_def)
  show ?thesis
    using g pte True t unfolding brk_page_def grow_page_def fl
    by (auto simp: Let_def case_prod_beta split: if_splits)
qed

lemma brk_loop_spec:
  assumes "mm_ok v" "\<forall>va\<in>set vas. user_page va" "distinct vas" "brk_loop v [] vas = (b, v')"
  shows "fresh_range v (prot_to_pte 3) vas b v'"
proof (rule fresh_loop [where page = brk_page and loop = brk_loop and need = False])
  fix v va b v' assume v: "mm_ok v" "user_page va" and p: "brk_page v va = (b, v')"
  show "fresh_step v (prot_to_pte 3) va b v'"
  proof (cases "user_entry v va = None")
    case True
    then show ?thesis using grow_page_spec [OF v True] p brk_page_eq [OF v] by simp
  next
    case False
    then show ?thesis using p brk_page_eq [OF v] v(1) by (auto simp: fresh_step_def)
  qed
qed (use assms in \<open>auto split: prod.split bool.split\<close>)

end
