(* ===== verification/Task_Spec.thy ===== *)
theory Task_Spec
  imports Task
begin

text \<open>
  What the task table guarantees: reserved areas behave as one map from addresses to
  protections, the next task is the most urgent one, and no task of the best priority starves.
\<close>

section \<open>Reserved areas\<close>

lemma area_prot_append: "area_prot (xs @ ys) x = (case area_prot xs x of Some p \<Rightarrow> Some p | None \<Rightarrow> area_prot ys x)"
  by (induction xs) auto

lemma area_prot_unused [simp]: "area_prot (replicate n no_area) x = None"
  by (induction n) (auto simp: no_area_def)

lemma area_sel [simp]: "lz_start (area a b p) = a" "lz_end (area a b p) = b" "lz_prot (area a b p) = p" "lz_used (area a b p)"
  by (simp_all add: area_def)

lemma push_area_Some [simp]: "push_area out m = Some out' \<longleftrightarrow> length out < MAX_LAZY_USER_MMAPS \<and> out' = out @ [m]"
  by (auto simp: push_area_def)

definition op_prot :: "lazy_op \<Rightarrow> u64 \<Rightarrow> u64 option \<Rightarrow> u64 option" where
  "op_prot operation prot old =
     (case operation of LAZY_MMAP_REMOVE \<Rightarrow> None
      | LAZY_MMAP_SET_PROT \<Rightarrow> map_option (\<lambda>_. prot) old
      | LAZY_MMAP_REPLACE \<Rightarrow> Some prot)"

definition pieces :: "u64 \<Rightarrow> u64 \<Rightarrow> lazy_op \<Rightarrow> u64 \<Rightarrow> lazy_user_mmap \<Rightarrow> lazy_user_mmap list" where
  "pieces a b operation prot m =
     (if \<not> lz_used m \<or> lz_start m \<ge> lz_end m then []
      else if lz_end m \<le> a \<or> lz_start m \<ge> b then [m]
      else (if lz_start m < a then [area (lz_start m) a (lz_prot m)] else [])
        @ (if operation = LAZY_MMAP_SET_PROT then [area (max a (lz_start m)) (min b (lz_end m)) prot] else [])
        @ (if lz_end m > b then [area b (lz_end m) (lz_prot m)] else []))"

lemma transform_area_pieces:
  assumes "transform_area a b operation prot m out = Some out'" "a < b"
  shows "out' = out @ pieces a b operation prot m"
proof -
  have mm: "(if lz_start m > a then lz_start m else a) = max a (lz_start m)" "(if lz_end m < b then lz_end m else b) = min b (lz_end m)"
    by (auto simp: max_def min_def)
  have l: "\<not> lz_start m \<ge> lz_end m \<Longrightarrow> \<not> lz_end m \<le> a \<Longrightarrow> \<not> lz_start m \<ge> b \<Longrightarrow> max a (lz_start m) < min b (lz_end m)"
    using assms(2) by (simp add: not_le)
  show ?thesis
    using assms(1) l unfolding transform_area_def Let_def mm pieces_def
    by (auto split: bind_splits if_splits)
qed

lemma area_prot_pieces:
  assumes "a < b"
  shows "area_prot (pieces a b operation prot m) x =
    (if a \<le> x \<and> x < b then (if operation = LAZY_MMAP_SET_PROT \<and> area_prot [m] x \<noteq> None then Some prot else None)
     else area_prot [m] x)"
proof -
  consider "\<not> lz_used m \<or> lz_start m \<ge> lz_end m" | "lz_used m" "lz_start m < lz_end m" "lz_end m \<le> a \<or> lz_start m \<ge> b"
    | "lz_used m" "lz_start m < lz_end m" "a < lz_end m" "lz_start m < b" by force
  then show ?thesis
  proof cases
    case 1
    then show ?thesis by (auto simp: pieces_def)
  next
    case 2
    then show ?thesis by (auto simp: pieces_def)
  next
    case 3
    then show ?thesis using assms
      by (cases "a \<le> x"; cases "x < b"; cases "lz_start m \<le> x"; cases "x < lz_end m") (auto simp: pieces_def)
  qed
qed

lemma transform_areas_pieces:
  "transform_areas a b operation prot ms out = Some out' \<Longrightarrow> a < b \<Longrightarrow>
     out' = out @ concat (map (pieces a b operation prot) ms)"
proof (induction ms arbitrary: out)
  case (Cons m ms)
  then obtain o1 where o: "transform_area a b operation prot m out = Some o1" "transform_areas a b operation prot ms o1 = Some out'"
    by (auto split: option.splits)
  show ?case using Cons.IH [OF o(2) Cons.prems(2)] transform_area_pieces [OF o(1) Cons.prems(2)] by simp
qed simp

lemma area_prot_concat_pieces:
  assumes "a < b"
  shows "area_prot (concat (map (pieces a b operation prot) ms)) x =
    (if a \<le> x \<and> x < b then (if operation = LAZY_MMAP_SET_PROT \<and> area_prot ms x \<noteq> None then Some prot else None)
     else area_prot ms x)"
proof (induction ms)
  case (Cons m ms)
  have e: "area_prot (m # ms) x = (case area_prot [m] x of Some p \<Rightarrow> Some p | None \<Rightarrow> area_prot ms x)"
    using area_prot_append [of "[m]" ms x] by simp
  show ?case
    unfolding list.map concat.simps area_prot_append e
    using area_prot_pieces [OF assms, of operation prot m x] Cons.IH by (cases "area_prot [m] x") auto
qed simp

text \<open>
  C21. The array of reserved areas of a task is a map from addresses to protections. When
  \<^verbatim>\<open>task_lazy_mmap_transform\<close> succeeds, every address outside the range keeps its
  protection; inside it, removal takes every reservation away, setting a protection changes
  exactly the reserved addresses, and replacement reserves the whole range. When there is no
  room, the array is unchanged.
\<close>

theorem lazy_transform_refines_map:
  assumes "task_lazy_mmap_transform t a b operation prot = (rc, t')"
  shows "(rc = 0 \<longrightarrow> a < b \<and> (\<forall>x. task_lazy_mmap_protection t' x =
      (if a \<le> x \<and> x < b then op_prot operation prot (task_lazy_mmap_protection t x) else task_lazy_mmap_protection t x)))
    \<and> (rc \<noteq> 0 \<longrightarrow> t' = t)"
proof (cases "a < b")
  case True
  have "task_lazy_mmap_protection t' x =
      (if a \<le> x \<and> x < b then op_prot operation prot (task_lazy_mmap_protection t x) else task_lazy_mmap_protection t x)"
    if rc: "rc = 0" for x
  proof -
    obtain out where o: "transform_areas a b operation prot (tk_lazy_mmaps t) [] = Some out"
      and t: "tk_lazy_mmaps t' = out @ (if operation = LAZY_MMAP_REPLACE then [area a b prot] else [])
        @ replicate (MAX_LAZY_USER_MMAPS - length (out @ (if operation = LAZY_MMAP_REPLACE then [area a b prot] else []))) no_area"
      using assms rc True by (auto simp: task_lazy_mmap_transform_def not_le split: option.splits if_splits)
    show ?thesis
      unfolding task_lazy_mmap_protection_def t area_prot_append
      using area_prot_concat_pieces [OF True, of operation prot "tk_lazy_mmaps t" x] transform_areas_pieces [OF o True] True
      by (cases operation) (auto simp: op_prot_def split: option.split)
  qed
  moreover have "rc \<noteq> 0 \<longrightarrow> t' = t" using assms True by (auto simp: task_lazy_mmap_transform_def split: option.splits if_splits)
  ultimately show ?thesis using True by blast
qed (use assms in \<open>auto simp: task_lazy_mmap_transform_def not_less\<close>)

lemma area_prot_cover: "m \<in> set M \<Longrightarrow> lz_used m \<Longrightarrow> lz_start m \<le> x \<Longrightarrow> x < lz_end m \<Longrightarrow> area_prot M x \<noteq> None"
  by (induction M) auto

lemma cover_step_inv:
  "cursor \<le> nxt \<Longrightarrow> nxt \<le> end' \<Longrightarrow> (\<forall>x. cursor \<le> x \<longrightarrow> x < nxt \<longrightarrow> area_prot M x \<noteq> None) \<Longrightarrow> set ms \<subseteq> set M \<Longrightarrow>
     \<forall>x. cursor \<le> x \<longrightarrow> x < cover_step ms cursor end' nxt \<longrightarrow> area_prot M x \<noteq> None"
proof (induction ms cursor end' nxt rule: cover_step.induct)
  case (2 m ms cursor end' nxt)
  let ?n = "if lz_used m \<and> lz_start m \<le> cursor \<and> lz_end m > nxt then (if lz_end m < end' then lz_end m else end') else nxt"
  have hit: "area_prot M x \<noteq> None" if "m \<in> set M" "lz_used m" "lz_start m \<le> x" "x < lz_end m" for x
    using that by (rule area_prot_cover)
  have "cursor \<le> ?n" "?n \<le> end'" using 2(2,3) by auto
  moreover have "\<forall>x. cursor \<le> x \<longrightarrow> x < ?n \<longrightarrow> area_prot M x \<noteq> None"
  proof (intro allI impI)
    fix x assume x: "cursor \<le> x" "x < ?n"
    show "area_prot M x \<noteq> None"
    proof (cases "x < nxt")
      case True
      with 2(4) x(1) show ?thesis by blast
    next
      case False
      then have "lz_used m" "lz_start m \<le> cursor" "x < lz_end m" using x(2) by (auto split: if_splits)
      then show ?thesis using 2(5) x(1) hit [of x] by simp
    qed
  qed
  ultimately have "\<forall>x. cursor \<le> x \<longrightarrow> x < cover_step ms cursor end' ?n \<longrightarrow> area_prot M x \<noteq> None"
    using 2(5) by (intro 2(1)) auto
  then show ?case unfolding cover_step.simps .
qed simp

lemma cover_step_gt:
  assumes "m \<in> set ms" "lz_used m" "lz_start m \<le> cursor" "cursor < lz_end m" "cursor < end'" "cursor \<le> nxt" "nxt \<le> end'"
  shows "cursor < cover_step ms cursor end' nxt"
  using assms
proof (induction ms cursor end' nxt rule: cover_step.induct)
  case (2 m' ms cursor end' nxt)
  let ?n = "if lz_used m' \<and> lz_start m' \<le> cursor \<and> lz_end m' > nxt then (if lz_end m' < end' then lz_end m' else end') else nxt"
  have n: "cursor \<le> ?n" "?n \<le> end'" "nxt \<le> ?n" using 2(7,8) by auto
  show ?case
  proof (cases "m = m'")
    case True
    then have "cursor < ?n" using 2 by auto
    then show ?thesis unfolding cover_step.simps using conjunct1 [OF cover_step_mono [OF n(1,2)]] by (rule less_le_trans)
  next
    case False
    have "cursor < cover_step ms cursor end' ?n" by (rule 2(1)) (use False 2(2-8) n in auto)
    then show ?thesis unfolding cover_step.simps .
  qed
qed simp

lemma area_prot_hit: "area_prot ms x \<noteq> None \<Longrightarrow> \<exists>m\<in>set ms. lz_used m \<and> lz_start m \<le> x \<and> x < lz_end m"
  by (induction ms) (auto split: if_splits)

lemma covered_loop_iff: "covered_loop ms cursor end' \<longleftrightarrow> (\<forall>x. cursor \<le> x \<longrightarrow> x < end' \<longrightarrow> area_prot ms x \<noteq> None)"
proof (induction ms cursor end' rule: covered_loop.induct)
  case (1 ms cursor end')
  show ?case
  proof (cases "cursor < end'")
    case False
    then show ?thesis by (subst covered_loop.simps) auto
  next
    case True
    let ?n = "cover_step ms cursor end' cursor"
    have b: "cursor \<le> ?n" "?n \<le> end'" using cover_step_mono [of cursor cursor end' ms] True by auto
    have c: "area_prot ms x \<noteq> None" if "cursor \<le> x" "x < ?n" for x
      using cover_step_inv [of cursor cursor end' ms ms] that True by auto
    show ?thesis
    proof (cases "?n = cursor")
      case eq: True
      have "area_prot ms cursor = None"
        using area_prot_hit [of ms cursor] cover_step_gt [of _ ms cursor end' cursor] eq True by force
      then show ?thesis using eq True by (subst covered_loop.simps) auto
    next
      case False
      have "(\<forall>x. cursor \<le> x \<longrightarrow> x < end' \<longrightarrow> area_prot ms x \<noteq> None) \<longleftrightarrow> (\<forall>x. ?n \<le> x \<longrightarrow> x < end' \<longrightarrow> area_prot ms x \<noteq> None)"
        using b c by (meson leI order_trans)
      then show ?thesis using 1 [OF True refl False] False True by (subst covered_loop.simps) simp
    qed
  qed
qed

text \<open>
  C22. \<^verbatim>\<open>task_lazy_mmap_range_covered\<close> ends and answers whether every address of
  a range that is not empty is reserved.
\<close>

theorem lazy_range_covered_iff:
  "task_lazy_mmap_range_covered t a b \<longleftrightarrow> a < b \<and> {x. a \<le> x \<and> x < b} \<subseteq> {x. task_lazy_mmap_protection t x \<noteq> None}"
  unfolding task_lazy_mmap_range_covered_def covered_loop_iff task_lazy_mmap_protection_def by blast

section \<open>The choice of the next task\<close>

abbreviation runnable :: "'z sched_scheme \<Rightarrow> nat \<Rightarrow> bool" where
  "runnable s i \<equiv> tk_used (tasks s i) \<and> tk_state (tasks s i) = TASK_RUNNABLE"

definition urgency :: "'z sched_scheme \<Rightarrow> nat \<Rightarrow> int \<times> u64" where
  "urgency s i = (tk_nice (tasks s i), tk_switches (tasks s i))"

definition more_urgent :: "int \<times> u64 \<Rightarrow> int \<times> u64 \<Rightarrow> bool" where
  "more_urgent x y \<longleftrightarrow> fst x < fst y \<or> fst x = fst y \<and> snd x < snd y"

lemma more_urgent_step: "more_urgent x y \<Longrightarrow> \<not> more_urgent z y \<Longrightarrow> \<not> more_urgent z x"
  by (auto simp: more_urgent_def)

lemma more_urgent_tr: "more_urgent x y \<Longrightarrow> more_urgent y z \<Longrightarrow> more_urgent x z"
  unfolding more_urgent_def by (elim disjE conjE) (auto intro: less_trans)

lemma more_urgent_irrefl: "\<not> more_urgent x x"
  by (simp add: more_urgent_def)

lemma more_urgent_asym: "more_urgent x y \<Longrightarrow> \<not> more_urgent y x"
  using more_urgent_tr more_urgent_irrefl by blast

lemma pick_scan_Cons:
  "pick_scan s (i # is) (best, k) =
     (if runnable s i \<and> more_urgent (urgency s i) k then pick_scan s is (Some i, urgency s i) else pick_scan s is (best, k))"
  by (cases k) (simp add: Let_def more_urgent_def urgency_def)

lemma pick_scan_spec:
  "pick_scan s is (best, k) = (best', k') \<Longrightarrow> (\<forall>b. best = Some b \<longrightarrow> k = urgency s b) \<Longrightarrow>
     (best' = best \<and> k' = k \<or> (\<exists>i\<in>set is. best' = Some i \<and> runnable s i \<and> k' = urgency s i \<and> more_urgent k' k))
     \<and> (\<forall>i\<in>set is. runnable s i \<longrightarrow> \<not> more_urgent (urgency s i) k')"
proof (induction "is" arbitrary: best k)
  case (Cons i "is")
  show ?case
  proof (cases "runnable s i \<and> more_urgent (urgency s i) k")
    case True
    then have e: "pick_scan s is (Some i, urgency s i) = (best', k')" using Cons.prems(1) pick_scan_Cons [of s i "is" best k] by simp
    have "\<forall>b. Some i = Some b \<longrightarrow> urgency s i = urgency s b" by simp
    note IH = Cons.IH [OF e this]
    from IH have "k' = urgency s i \<or> more_urgent k' (urgency s i)" by blast
    then have u: "\<not> more_urgent (urgency s i) k'" "more_urgent k' k"
      using conjunct2 [OF True] more_urgent_asym more_urgent_irrefl more_urgent_tr by blast+
    from IH have "best' = Some i \<and> k' = urgency s i \<or> (\<exists>j\<in>set is. best' = Some j \<and> runnable s j \<and> k' = urgency s j)" by blast
    then show ?thesis using conjunct2 [OF IH] True u by (simp only: set_simps ball_simps bex_simps) blast
  next
    case False
    then have e: "pick_scan s is (best, k) = (best', k')" using Cons.prems(1) pick_scan_Cons [of s i "is" best k] by (simp only: if_False)
    note IH = Cons.IH [OF e Cons.prems(2)]
    have "\<not> more_urgent (urgency s i) k'" if "runnable s i"
    proof -
      from IH have "k' = k \<or> more_urgent k' k" by blast
      then show ?thesis using False that more_urgent_step [of k' k "urgency s i"] by blast
    qed
    then show ?thesis using IH by (simp only: set_simps ball_simps bex_simps) blast
  qed
qed auto

lemma scan_order_set: "c < MAX_TASKS \<Longrightarrow> set (scan_order c) = {0..<MAX_TASKS}"
proof
  assume c: "c < MAX_TASKS"
  show "{0..<MAX_TASKS} \<subseteq> set (scan_order c)"
  proof
    fix i assume i: "i \<in> {0..<MAX_TASKS}"
    define n where "n = (if i > c then i - c else i + 64 - c)"
    have n: "1 \<le> n" "n < 65" "c + n = i \<or> c + n = i + 64" using i c by (auto simp: n_def)
    then have "(c + n) mod 64 = i" using i by auto
    then show "i \<in> set (scan_order c)" unfolding scan_order_def set_map set_upt using n by (intro image_eqI [of _ _ n]) auto
  qed
qed (auto simp: scan_order_def)

text \<open>Nice values as \<^verbatim>\<open>task_set_nice\<close> leaves them, and switch counters below the largest value.\<close>

definition nice_ok :: "'z sched_scheme \<Rightarrow> bool" where
  "nice_ok s \<longleftrightarrow> current_task s < MAX_TASKS \<and> (\<forall>i<MAX_TASKS. tk_nice (tasks s i) < 1000000)"

lemma pick_next_spec:
  assumes "nice_ok s"
  shows "case task_pick_next s of
      None \<Rightarrow> \<forall>i<MAX_TASKS. \<not> runnable s i
    | Some b \<Rightarrow> b < MAX_TASKS \<and> runnable s b \<and> (\<forall>i<MAX_TASKS. runnable s i \<longrightarrow> \<not> more_urgent (urgency s i) (urgency s b))"
proof -
  have c: "current_task s < MAX_TASKS" and n: "\<And>i. i < MAX_TASKS \<Longrightarrow> tk_nice (tasks s i) < 1000000"
    using assms by (auto simp: nice_ok_def)
  obtain best k where e: "pick_scan s (scan_order (current_task s)) (None, (1000000, - 1)) = (best, k)"
    by (rule prod.exhaust)
  from pick_scan_spec [OF e] have S:
    "best = None \<and> k = (1000000, - 1) \<or> (\<exists>i\<in>{0..<MAX_TASKS}. best = Some i \<and> runnable s i \<and> k = urgency s i)"
    "\<forall>i\<in>{0..<MAX_TASKS}. runnable s i \<longrightarrow> \<not> more_urgent (urgency s i) k"
    unfolding scan_order_set [OF c] by auto
  have p: "task_pick_next s = best" unfolding task_pick_next_def e by simp
  show ?thesis
  proof (cases best)
    case None
    then have "k = (1000000, - 1)" using S(1) by auto
    then have "\<not> runnable s i" if "i < MAX_TASKS" for i
      using S(2) n [OF that] that by (auto simp: more_urgent_def urgency_def)
    then show ?thesis using None p by simp
  next
    case (Some b)
    then show ?thesis using S p by auto
  qed
qed

lemma pick_next_None:
  assumes "nice_ok s" "task_pick_next s = None" "i < MAX_TASKS"
  shows "\<not> runnable s i"
  using pick_next_spec [OF assms(1)] assms(2,3) by simp

lemma pick_next_Some:
  assumes "nice_ok s" "task_pick_next s = Some b"
  shows "b < MAX_TASKS" "runnable s b" "\<And>i. i < MAX_TASKS \<Longrightarrow> runnable s i \<Longrightarrow> \<not> more_urgent (urgency s i) (urgency s b)"
  using pick_next_spec [OF assms(1)] assms(2) by simp_all

text \<open>
  C23. \<^verbatim>\<open>task_pick_next\<close> returns the runnable task with the smallest nice value
  and, among those, the fewest switches; it returns none exactly when no task is runnable.
\<close>

theorem pick_next_most_urgent:
  assumes "nice_ok s"
  shows "(task_pick_next s = None \<longleftrightarrow> (\<forall>i<MAX_TASKS. \<not> runnable s i))
    \<and> (\<forall>b. task_pick_next s = Some b \<longrightarrow> b < MAX_TASKS \<and> runnable s b
        \<and> (\<forall>i<MAX_TASKS. runnable s i \<longrightarrow> tk_nice (tasks s b) < tk_nice (tasks s i)
             \<or> tk_nice (tasks s b) = tk_nice (tasks s i) \<and> tk_switches (tasks s b) \<le> tk_switches (tasks s i)))"
  using pick_next_spec [OF assms]
  by (cases "task_pick_next s") (fastforce simp: more_urgent_def urgency_def not_less)+

section \<open>No starvation\<close>

text \<open>
  Tasks that compute: the current task runs, the other tasks of the set \<open>A\<close> are runnable,
  and no task outside it is.
\<close>

definition computing :: "nat set \<Rightarrow> 'z sched_scheme \<Rightarrow> bool" where
  "computing A s \<longleftrightarrow> nice_ok s \<and> current_task s \<in> A \<and> A \<subseteq> {0..<MAX_TASKS}
     \<and> (\<forall>i\<in>A. tk_used (tasks s i) \<and> tk_state (tasks s i) = (if i = current_task s then TASK_RUNNING else TASK_RUNNABLE))
     \<and> (\<forall>i\<in>{0..<MAX_TASKS} - A. tk_state (tasks s i) \<noteq> TASK_RUNNABLE)"

lemma set_task_tasks [simp]: "tasks (set_task s i f) j = (if j = i then f (tasks s i) else tasks s j)"
  by (simp add: set_task_def)

lemma set_task_current [simp]: "current_task (set_task s i f) = current_task s"
  by (simp add: set_task_def)

lemma timer_switch_computing:
  assumes c: "computing A s"
  obtains i s' where "timer_switch s = (Some i, s')" "i \<in> A" "computing A s'" "current_task s' = i"
    "\<And>j. tk_nice (tasks s' j) = tk_nice (tasks s j)"
    "\<And>j. tk_switches (tasks s' j) = (if j = i then tk_switches (tasks s i) + 1 else tk_switches (tasks s j))"
    "\<And>j. j \<in> A \<Longrightarrow> \<not> more_urgent (urgency s j) (urgency s i)"
proof -
  let ?c = "current_task s"
  let ?r = "set_task s ?c (\<lambda>t. t\<lparr>tk_state := TASK_RUNNABLE\<rparr>)"
  have C: "nice_ok s" "?c \<in> A" "A \<subseteq> {0..<MAX_TASKS}" "\<And>i. i \<in> A \<Longrightarrow> tk_used (tasks s i)"
    "tk_state (tasks s ?c) = TASK_RUNNING" "\<And>i. i \<in> A \<Longrightarrow> i \<noteq> ?c \<Longrightarrow> tk_state (tasks s i) = TASK_RUNNABLE"
    "\<And>i. i < MAX_TASKS \<Longrightarrow> i \<notin> A \<Longrightarrow> tk_state (tasks s i) \<noteq> TASK_RUNNABLE"
    using c unfolding computing_def by simp_all
  have n: "nice_ok ?r" using C(1) by (simp add: nice_ok_def)
  have r: "runnable ?r i \<longleftrightarrow> i \<in> A" if "i < MAX_TASKS" for i
    using C(2) C(4) [of i] C(6) [of i] C(7) [OF that] C(4) [OF C(2)] by (cases "i = ?c"; cases "i \<in> A") auto
  have u: "urgency ?r i = urgency s i" for i by (simp add: urgency_def)
  have cm: "?c < MAX_TASKS" using C(2,3) by auto
  have "task_pick_next ?r \<noteq> None"
    using pick_next_None [OF n _ cm] r [OF cm] C(2) by blast
  then obtain b where b: "task_pick_next ?r = Some b" by blast
  note P = pick_next_Some [OF n b]
  have B: "b \<in> A" using P(2) r [OF P(1)] by blast
  have B2: "\<not> more_urgent (urgency s i) (urgency s b)" if "i \<in> A" for i
  proof -
    have im: "i < MAX_TASKS" using that C(3) by auto
    then have "runnable ?r i" using r that by blast
    then show ?thesis using P(3) [OF im] unfolding u by blast
  qed
  have bm: "b < MAX_TASKS" using B C(3) by auto
  let ?n = "set_task ((set_task ?r b (\<lambda>t. t\<lparr>tk_state := TASK_RUNNING\<rparr>))\<lparr>current_task := b\<rparr>) b
    (\<lambda>t. t\<lparr>tk_switches := tk_switches t + 1\<rparr>)"
  have t: "timer_switch s = (Some b, ?n)"
    using C(4) [OF B] bm C(5) b by (auto simp: timer_switch_def task_account_switch_def Let_def)
  have "computing A ?n"
    unfolding computing_def
  proof (intro conjI)
    show "nice_ok ?n" using n bm by (simp add: nice_ok_def)
    show "\<forall>i\<in>A. tk_used (tasks ?n i) \<and> tk_state (tasks ?n i) = (if i = current_task ?n then TASK_RUNNING else TASK_RUNNABLE)"
      using C(4,6) B by simp
    show "\<forall>i\<in>{0..<MAX_TASKS} - A. tk_state (tasks ?n i) \<noteq> TASK_RUNNABLE" using C(2,7) B by auto
  qed (use B C(3) in simp_all)
  then show thesis
    by (rule that [OF t B]) (use B2 in \<open>simp_all\<close>)
qed

text \<open>
  The work of the competitors of \<open>j\<close> before it is its turn: how often the tasks of the
  same nice value may still be chosen.
\<close>

definition waiting :: "nat set \<Rightarrow> 'z sched_scheme \<Rightarrow> nat \<Rightarrow> nat" where
  "waiting A s j = (\<Sum>i\<in>{i \<in> A. tk_nice (tasks s i) = tk_nice (tasks s j)}.
     unat (tk_switches (tasks s j)) + 1 - unat (tk_switches (tasks s i)))"

lemma waiting_decreases:
  assumes fin: "finite A" and i: "i \<in> A" "i \<noteq> j" and u: "\<not> more_urgent (urgency s j) (urgency s i)"
    and best: "\<forall>i\<in>A. tk_nice (tasks s j) \<le> tk_nice (tasks s i)"
    and room: "tk_switches (tasks s j) < - 1"
    and n: "\<And>k. tk_nice (tasks s' k) = tk_nice (tasks s k)"
    and w: "\<And>k. tk_switches (tasks s' k) = (if k = i then tk_switches (tasks s i) + 1 else tk_switches (tasks s k))"
  shows "waiting A s' j < waiting A s j"
proof -
  let ?S = "{i \<in> A. tk_nice (tasks s i) = tk_nice (tasks s j)}"
  have e: "tk_nice (tasks s i) = tk_nice (tasks s j)" "tk_switches (tasks s i) \<le> tk_switches (tasks s j)"
    using u best i(1) by (auto simp: more_urgent_def urgency_def)
  then have lt: "unat (tk_switches (tasks s i)) \<le> unat (tk_switches (tasks s j))" by (simp add: word_le_nat_alt)
  have "tk_switches (tasks s i) < - 1" using e(2) room by simp
  then have "unat (tk_switches (tasks s i)) < 18446744073709551615" 
    using unat_lt_64 [of "tk_switches (tasks s i)"] by (simp add: word_less_nat_alt unsigned_minus_1_eq_mask mask_eq_exp_minus_1)
  then have inc: "unat (tk_switches (tasks s i) + 1) = unat (tk_switches (tasks s i)) + 1"
    using unat_add_lem [of "tk_switches (tasks s i)" 1] by simp
  show ?thesis
    unfolding waiting_def n w
  proof (rule sum_strict_mono_ex1)
    show "finite ?S" using fin by simp
    show "\<forall>k\<in>?S. unat (if j = i then tk_switches (tasks s i) + 1 else tk_switches (tasks s j)) + 1
        - unat (if k = i then tk_switches (tasks s i) + 1 else tk_switches (tasks s k))
      \<le> unat (tk_switches (tasks s j)) + 1 - unat (tk_switches (tasks s k))"
      using i(2) inc by auto
    show "\<exists>k\<in>?S. unat (if j = i then tk_switches (tasks s i) + 1 else tk_switches (tasks s j)) + 1
        - unat (if k = i then tk_switches (tasks s i) + 1 else tk_switches (tasks s k))
      < unat (tk_switches (tasks s j)) + 1 - unat (tk_switches (tasks s k))"
      using i e(1) inc lt by (intro bexI [of _ i]) auto
  qed
qed

text \<open>
  C24. No starvation. While a set of tasks computes and only the timer interrupts them, every task
  of the smallest nice value gets the processor after finitely many timer switches.
\<close>

theorem timer_no_starvation:
  assumes "computing A s" "j \<in> A" "\<forall>i\<in>A. tk_nice (tasks s j) \<le> tk_nice (tasks s i)" "tk_switches (tasks s j) < - 1"
  shows "\<exists>k. current_task (((\<lambda>s. snd (timer_switch s)) ^^ Suc k) s) = j"
  using assms
proof (induction "waiting A s j" arbitrary: s rule: less_induct)
  case less
  obtain i s' where T: "timer_switch s = (Some i, s')" "i \<in> A" "computing A s'" "current_task s' = i"
    "\<And>k. tk_nice (tasks s' k) = tk_nice (tasks s k)"
    "\<And>k. tk_switches (tasks s' k) = (if k = i then tk_switches (tasks s i) + 1 else tk_switches (tasks s k))"
    "\<And>k. k \<in> A \<Longrightarrow> \<not> more_urgent (urgency s k) (urgency s i)"
    using timer_switch_computing [OF less.prems(1)] by metis
  show ?case
  proof (cases "i = j")
    case True
    then show ?thesis using T(1,4) by (intro exI [of _ 0]) simp
  next
    case False
    have fin: "finite A" using less.prems(1) by (auto simp: computing_def dest: finite_subset)
    have "waiting A s' j < waiting A s j"
      using fin T(2) False T(7) [OF less.prems(2)] less.prems(3,4) T(5,6) by (rule waiting_decreases)
    then have "\<exists>k. current_task (((\<lambda>s. snd (timer_switch s)) ^^ Suc k) s') = j"
      using less.hyps T(3,5,6) less.prems(2,3,4) False by simp
    then obtain k where "current_task (((\<lambda>s. snd (timer_switch s)) ^^ Suc k) s') = j" by blast
    then show ?thesis using T(1) by (intro exI [of _ "Suc k"]) (simp only: funpow_Suc_right o_apply snd_conv)
  qed
qed

section \<open>A table with three tasks\<close>

definition demo_task :: task where
  "demo_task = \<lparr>tk_used = True, tk_state = TASK_RUNNABLE, tk_pid = 1, tk_ppid = 0, tk_tgid = 1, tk_pgrp = 1, tk_session = 1,
     tk_controlling_tty = -1, tk_exit_status = 0,
     tk_tid_address = 0, tk_futex_addr = 0, tk_futex_cr3 = 0, tk_futex_deadline_ns = 0, tk_pipe_wait_fd = -1, tk_pipe_wait_buf = 0,
     tk_pipe_wait_count = 0, tk_io_wait_kind = 0, tk_io_wait_valid = False, tk_io_wait_nr = 0, tk_io_wait_deadline_ns = 0,
     tk_io_resume_valid = False, tk_io_resume_nr = 0, tk_io_resume_rip = 0, tk_io_resume_start_ns = 0, tk_io_resume_deadline_ns = 0,
     tk_heap_base = 0, tk_heap_end = 0, tk_mmap_next = 0,
     tk_lazy_mmaps = area 0x1000 0x5000 1 # replicate 127 no_area, tk_fb_map_count = 0, tk_nice = 0, tk_switches = 0,
     tk_cpu_ticks = 0, tk_wait4_active = False, tk_wait4_pid = -1, tk_wait4_status_ptr = 0, tk_wait4_reap_pid = -1,
     tk_ctx = \<lparr>cx_rax = 0, cx_rbx = 0, cx_rcx = 0, cx_rdx = 0, cx_rsi = 0, cx_rdi = 0, cx_rbp = 0, cx_r8 = 0, cx_r9 = 0, cx_r10 = 0, cx_r11 = 0, cx_r12 = 0, cx_r13 = 0, cx_r14 = 0, cx_r15 = 0, cx_rsp = 0, cx_rip = 0, cx_rflags = 0, cx_cr3 = 0x2000, cx_fs_base = 0, cx_gs_base = 0\<rparr>,
     tk_sig_pending = (\<lambda>_. 0), tk_sig_blocked = (\<lambda>_. 0), tk_sig_actions = (\<lambda>_. \<lparr>sa_handler = 0, sa_flags = 0, sa_restorer = 0, sa_mask = 0\<rparr>),
     tk_sig_saved_frame = \<lparr>fr_rax = 0, fr_rbx = 0, fr_rcx = 0, fr_rdx = 0, fr_rsi = 0, fr_rdi = 0, fr_rbp = 0, fr_r8 = 0, fr_r9 = 0, fr_r10 = 0, fr_r11 = 0, fr_r12 = 0, fr_r13 = 0, fr_r14 = 0, fr_r15 = 0, fr_user_rip = 0, fr_user_rflags = 0, fr_user_rsp = 0, fr_user_cr3 = 0\<rparr>, tk_sig_saved_valid = False, tk_sig_active = False,
     tk_cwd = None\<rparr>"

definition demo_sched :: sched where
  "demo_sched = \<lparr>tasks = (\<lambda>i. if i = 0 then demo_task\<lparr>tk_state := TASK_RUNNING, tk_switches := 3\<rparr>
       else if i = 1 then demo_task\<lparr>tk_switches := 5\<rparr> else if i = 2 then demo_task\<lparr>tk_switches := 4\<rparr>
       else demo_task\<lparr>tk_used := False, tk_state := TASK_UNUSED\<rparr>), current_task = 0\<rparr>"

lemma demo_sched_computing: "computing {0, 1, 2} demo_sched"
  by (auto simp: computing_def nice_ok_def demo_sched_def demo_task_def)

theorem timer_no_starvation_witness: "\<exists>k. current_task (((\<lambda>s. snd (timer_switch s)) ^^ Suc k) demo_sched) = 1"
  by (rule timer_no_starvation [OF demo_sched_computing]) (auto simp: demo_sched_def demo_task_def)

theorem pick_next_most_urgent_witness: "task_pick_next demo_sched = Some 2"
proof -
  have n: "nice_ok demo_sched" using demo_sched_computing by (simp add: computing_def)
  note P = pick_next_most_urgent [OF n]
  have r: "runnable demo_sched i \<longleftrightarrow> i = 1 \<or> i = 2" for i by (simp add: demo_sched_def demo_task_def)
  have "(1 :: nat) < MAX_TASKS" "runnable demo_sched 1" using r by simp_all
  then have "task_pick_next demo_sched \<noteq> None" using P by blast
  then obtain b where b: "task_pick_next demo_sched = Some b" by blast
  have "b = 1 \<or> b = 2" using P b r by blast
  moreover have "b \<noteq> 1"
  proof
    assume "b = 1"
    then have "tk_nice (tasks demo_sched 1) < tk_nice (tasks demo_sched 2)
      \<or> tk_nice (tasks demo_sched 1) = tk_nice (tasks demo_sched 2) \<and> tk_switches (tasks demo_sched 1) \<le> tk_switches (tasks demo_sched 2)"
      using P b r by simp
    then show False by (simp add: demo_sched_def demo_task_def)
  qed
  ultimately show ?thesis using b by simp
qed

theorem lazy_transform_refines_map_witness:
  "task_lazy_mmap_protection (snd (task_lazy_mmap_transform demo_task 0x2000 0x3000 LAZY_MMAP_SET_PROT 3)) 0x2800 = Some 3"
proof -
  obtain rc t' where e: "task_lazy_mmap_transform demo_task 0x2000 0x3000 LAZY_MMAP_SET_PROT 3 = (rc, t')" by (rule prod.exhaust)
  have "transform_areas 0x2000 0x3000 LAZY_MMAP_SET_PROT 3 (replicate n no_area) out = Some out" for n out
    by (induction n) (simp_all add: transform_area_def no_area_def)
  then have "fst (task_lazy_mmap_transform demo_task 0x2000 0x3000 LAZY_MMAP_SET_PROT 3) = 0"
    by (simp add: task_lazy_mmap_transform_def demo_task_def transform_area_def push_area_def)
  then have "rc = 0" by (simp add: e)
  moreover have "task_lazy_mmap_protection demo_task 0x2800 = Some 1"
    by (simp add: task_lazy_mmap_protection_def demo_task_def)
  ultimately show ?thesis
    using lazy_transform_refines_map [OF e] by (simp add: e op_prot_def)
qed

end
