(* ===== verification/Vfs_Tree.thy ===== *)
theory Vfs_Tree
  imports Vfs_Files
begin

text \<open>
  The directory tree of \<^verbatim>\<open>vfs.c\<close>: the invariant \<open>vfs_inv\<close> on sibling lists and parent
  links, lookup as a function that changes names only, insertion and removal of nodes, and
  that every operation of the file system keeps the tree. The last section defines the
  reachable file systems.
\<close>

section \<open>Frames\<close>

lemma nodes_set_node [simp]: "nodes (set_node s x f) y = (if y = x then f (nodes s x) else nodes s y)"
  by (simp add: set_node_def)

lemma set_node_frame [simp, frame_simps]:
  "node_used (set_node s x f) = node_used s" "root_node (set_node s x f) = root_node s"
  "mounts (set_node s x f) = mounts s" "mount_used (set_node s x f) = mount_used s"
  "vfs_data_pool (set_node s x f) = vfs_data_pool s" "vfs_data_used (set_node s x f) = vfs_data_used s"
  "vfs_xorg_log_data (set_node s x f) = vfs_xorg_log_data s" "next_ino (set_node s x f) = next_ino s"
  "filesystems (set_node s x f) = filesystems s"
  by (simp_all add: set_node_def)

text \<open>
  The directory tree does not depend on names, file contents or link counts: \<open>same_tree\<close> holds
  of two states that differ in those only.
\<close>

definition same_tree :: "vfs \<Rightarrow> vfs \<Rightarrow> bool" where
  "same_tree s t \<longleftrightarrow> node_used t = node_used s \<and> root_node t = root_node s \<and> mounts t = mounts s
     \<and> mount_used t = mount_used s
     \<and> (\<forall>x. nd_parent (nodes t x) = nd_parent (nodes s x) \<and> nd_children (nodes t x) = nd_children (nodes s x)
          \<and> nd_next (nodes t x) = nd_next (nodes s x) \<and> nd_mounted (nodes t x) = nd_mounted (nodes s x)
          \<and> nd_type (nodes t x) = nd_type (nodes s x))"

lemma same_tree_refl [simp]: "same_tree s s"
  by (simp add: same_tree_def)

lemma same_tree_trans: "same_tree s t \<Longrightarrow> same_tree t u \<Longrightarrow> same_tree s u"
  by (simp add: same_tree_def)

lemma same_tree_set_node:
  "nd_parent (f (nodes s x)) = nd_parent (nodes s x) \<Longrightarrow> nd_children (f (nodes s x)) = nd_children (nodes s x) \<Longrightarrow>
   nd_next (f (nodes s x)) = nd_next (nodes s x) \<Longrightarrow> nd_mounted (f (nodes s x)) = nd_mounted (nodes s x) \<Longrightarrow>
   nd_type (f (nodes s x)) = nd_type (nodes s x) \<Longrightarrow>
   same_tree s (set_node s x f)"
  by (simp add: same_tree_def)

section \<open>Sibling lists\<close>

fun is_list :: "vfs \<Rightarrow> nat option \<Rightarrow> nat list \<Rightarrow> bool" where
  "is_list s p [] \<longleftrightarrow> p = None"
| "is_list s p (x # xs) \<longleftrightarrow> p = Some x \<and> is_list s (nd_next (nodes s x)) xs"

lemma is_list_siblings: "is_list s p xs \<Longrightarrow> length xs \<le> k \<Longrightarrow> siblings k s p = xs"
proof (induction xs arbitrary: p k)
  case Nil
  then show ?case by (cases k) auto
next
  case (Cons x xs)
  then show ?case by (cases k) auto
qed

lemma is_list_unique: "is_list s p xs \<Longrightarrow> is_list s p ys \<Longrightarrow> xs = ys"
proof (induction xs arbitrary: p ys)
  case Nil
  then show ?case by (cases ys) auto
next
  case (Cons x xs)
  then show ?case by (cases ys) auto
qed

lemma is_list_cong: "(\<And>x. x \<in> set xs \<Longrightarrow> nd_next (nodes t x) = nd_next (nodes s x)) \<Longrightarrow> is_list t p xs = is_list s p xs"
  by (induction xs arbitrary: p) auto

text \<open>The children of a directory: a list without repetition, each naming the directory as parent.\<close>

definition dir_ok :: "vfs \<Rightarrow> nat \<Rightarrow> nat list \<Rightarrow> bool" where
  "dir_ok s d xs \<longleftrightarrow> is_list s (nd_children (nodes s d)) xs \<and> distinct xs
     \<and> (\<forall>x\<in>set xs. x < node_used s \<and> nd_parent (nodes s x) = Some d)"

lemma distinct_bounded_length: "distinct xs \<Longrightarrow> (\<forall>x\<in>set xs. x < n) \<Longrightarrow> length xs \<le> n"
  by (metis card_lessThan card_mono distinct_card finite_lessThan lessThan_iff subsetI)

lemma dir_ok_children: "dir_ok s d xs \<Longrightarrow> children_of s d = xs"
  unfolding dir_ok_def children_of_def
  by (auto intro!: is_list_siblings distinct_bounded_length)

text \<open>The way up from a node.\<close>

inductive rooted :: "vfs \<Rightarrow> nat \<Rightarrow> bool" for s where
  top: "nd_parent (nodes s x) = None \<Longrightarrow> rooted s x"
| up: "nd_parent (nodes s x) = Some p \<Longrightarrow> rooted s p \<Longrightarrow> rooted s x"

inductive_cases rooted_upE: "rooted s x"

definition vfs_inv :: "vfs \<Rightarrow> bool" where
  "vfs_inv s \<longleftrightarrow> node_used s \<le> VFS_MAX_NODES
     \<and> root_node s < node_used s \<and> is_dir s (root_node s) \<and> nd_parent (nodes s (root_node s)) = None
     \<and> (\<forall>d<node_used s. dir_ok s d (children_of s d) \<and> (\<not> is_dir s d \<longrightarrow> children_of s d = []))
     \<and> (\<forall>x<node_used s. rooted s x)
     \<and> (\<forall>x<node_used s. \<forall>p. nd_parent (nodes s x) = Some p \<longrightarrow> p < node_used s \<and> is_dir s p)
     \<and> (\<forall>m r. mt_root (mounts s m) = Some r \<longrightarrow> r < node_used s)"

lemma vfs_invD:
  assumes "vfs_inv s"
  shows "node_used s \<le> VFS_MAX_NODES" "root_node s < node_used s" "is_dir s (root_node s)"
    "nd_parent (nodes s (root_node s)) = None"
    "\<And>d. d < node_used s \<Longrightarrow> dir_ok s d (children_of s d)"
    "\<And>d. d < node_used s \<Longrightarrow> \<not> is_dir s d \<Longrightarrow> children_of s d = []"
    "\<And>x. x < node_used s \<Longrightarrow> rooted s x"
    "\<And>x p. x < node_used s \<Longrightarrow> nd_parent (nodes s x) = Some p \<Longrightarrow> p < node_used s \<and> is_dir s p"
    "\<And>m r. mt_root (mounts s m) = Some r \<Longrightarrow> r < node_used s"
  using assms unfolding vfs_inv_def by blast+

lemma vfs_invI:
  assumes "node_used s \<le> VFS_MAX_NODES" "root_node s < node_used s" "is_dir s (root_node s)"
    "nd_parent (nodes s (root_node s)) = None"
    and k: "\<And>d. d < node_used s \<Longrightarrow> dir_ok s d (K d)"
    and e: "\<And>d. d < node_used s \<Longrightarrow> \<not> is_dir s d \<Longrightarrow> K d = []"
    and "\<And>x. x < node_used s \<Longrightarrow> rooted s x"
    "\<And>x p. x < node_used s \<Longrightarrow> nd_parent (nodes s x) = Some p \<Longrightarrow> p < node_used s \<and> is_dir s p"
    "\<And>m r. mt_root (mounts s m) = Some r \<Longrightarrow> r < node_used s"
  shows "vfs_inv s \<and> (\<forall>d<node_used s. children_of s d = K d)"
proof -
  have c: "children_of s d = K d" if "d < node_used s" for d by (rule dir_ok_children [OF k [OF that]])
  have "vfs_inv s" unfolding vfs_inv_def
  proof (intro conjI allI impI)
    show "dir_ok s d (children_of s d)" if "d < node_used s" for d unfolding c [OF that] by (rule k [OF that])
    show "children_of s d = []" if "d < node_used s" "\<not> is_dir s d" for d
      unfolding c [OF that(1)] by (rule e [OF that])
    show "p < node_used s" "is_dir s p" if "x < node_used s" "nd_parent (nodes s x) = Some p" for x p
      using assms(8) [OF that] by simp_all
  qed (fact assms)+
  then show ?thesis using c by simp
qed

lemma same_tree_frame:
  assumes "same_tree s t"
  shows "node_used t = node_used s" "root_node t = root_node s" "is_dir t = is_dir s" "mount_root t = mount_root s"
    "mounts t = mounts s" "mr t = mr s" "dotdot t = dotdot s" "siblings k t p = siblings k s p"
    "children_of t = children_of s" "is_list t p xs = is_list s p xs" "dir_ok t = dir_ok s" "rooted t = rooted s"
    "nd_parent (nodes t x) = nd_parent (nodes s x)" "nd_type (nodes t x) = nd_type (nodes s x)"
    "nd_mounted (nodes t x) = nd_mounted (nodes s x)" "nd_children (nodes t x) = nd_children (nodes s x)"
    "nd_next (nodes t x) = nd_next (nodes s x)"
proof -
  note t = assms [unfolded same_tree_def]
  show 1: "node_used t = node_used s" "root_node t = root_node s" "is_dir t = is_dir s" "mount_root t = mount_root s"
    "mounts t = mounts s" "nd_parent (nodes t x) = nd_parent (nodes s x)" "nd_type (nodes t x) = nd_type (nodes s x)"
    "nd_mounted (nodes t x) = nd_mounted (nodes s x)" "nd_children (nodes t x) = nd_children (nodes s x)"
    "nd_next (nodes t x) = nd_next (nodes s x)" for x
    using t by (auto simp: is_dir_def mount_root_def fun_eq_iff split: option.split)
  show "mr t = mr s" "dotdot t = dotdot s" using 1 by (auto simp: mr_def dotdot_def fun_eq_iff split: option.split)
  show sib: "siblings k t p = siblings k s p" for k p
    by (induction k arbitrary: p) (auto simp: 1 split: option.split)
  then show "children_of t = children_of s" by (simp add: children_of_def 1 fun_eq_iff)
  show il: "is_list t p xs = is_list s p xs" for p xs by (rule is_list_cong) (simp add: 1)
  then show "dir_ok t = dir_ok s" by (simp add: dir_ok_def 1 fun_eq_iff)
  have "rooted t x \<longleftrightarrow> rooted s x" for x
  proof
    show "rooted s x" if "rooted t x" using that by induction (auto intro: rooted.intros simp: 1)
    show "rooted t x" if "rooted s x" using that by induction (auto intro: rooted.intros simp: 1)
  qed
  then show "rooted t = rooted s" by auto
qed

lemma same_tree_inv: "same_tree s t \<Longrightarrow> vfs_inv t = vfs_inv s"
  unfolding vfs_inv_def by (simp add: same_tree_frame)

section \<open>Lookup\<close>

lemma lookup_child_spec:
  assumes "vfs_inv s" "d < node_used s" "vfs_lookup_child s d n = (r, s')"
  shows "same_tree s s' \<and> (\<forall>x. r = Some x \<longrightarrow> x < node_used s \<and> x \<in> set (children_of s d))"
proof -
  have c: "\<forall>x\<in>set (children_of s d). x < node_used s"
    using vfs_invD(5) [OF assms(1,2)] by (simp add: dir_ok_def)
  have "same_tree s (set_node s x (\<lambda>nd. nd\<lparr>nd_name := cp n\<rparr>))" for x
    by (rule same_tree_set_node) simp_all
  then show ?thesis
    using assms(3) c unfolding vfs_lookup_child_def
    by (auto split: if_splits option.splits simp: find_Some_iff)
qed

lemma mr_bound: "vfs_inv s \<Longrightarrow> x < node_used s \<Longrightarrow> mr s x < node_used s"
  using vfs_invD(9) by (auto simp: mr_def mount_root_def split: option.split)

lemma dotdot_bound: "vfs_inv s \<Longrightarrow> x < node_used s \<Longrightarrow> dotdot s x < node_used s"
proof (cases "nd_parent (nodes s x)")
  case (Some p)
  assume inv: "vfs_inv s" and x: "x < node_used s"
  then have p: "p < node_used s" using vfs_invD(8) Some by blast
  have "q < node_used s" if "nd_parent (nodes s p) = Some q" for q using vfs_invD(8) [OF inv p that] by simp
  then show ?thesis using p Some by (auto simp: dotdot_def split: option.split)
qed (simp add: dotdot_def)

lemma lookup_loop_spec:
  "vfs_inv s \<Longrightarrow> cur < node_used s \<Longrightarrow> lookup_loop s cur p = (r, s') \<Longrightarrow>
     same_tree s s' \<and> (\<forall>x. r = Some x \<longrightarrow> x < node_used s)"
proof (induction s cur p arbitrary: r s' rule: lookup_loop.induct)
  case (1 s cur p)
  show ?case
  proof (cases "next_part p")
    case None
    then show ?thesis using 1(5,6) by (auto simp: lookup_loop.simps [of s cur p])
  next
    case (Some fr)
    obtain full rest where fr: "fr = (full, rest)" by (cases fr)
    let ?part = "take 31 full"
    note IH = 1(1-3) [OF Some fr [symmetric] refl] and e = 1(6) [unfolded lookup_loop.simps [of s cur p] Some fr]
    consider (dot) "eq ?part ''.''" | (dots) "\<not> eq ?part ''.''" "eq ?part ''..''"
      | (child) "\<not> eq ?part ''.''" "\<not> eq ?part ''..''" by blast
    then show ?thesis
    proof cases
      case dot
      then show ?thesis using e by (intro IH(1)) (auto simp: 1)
    next
      case dots
      then show ?thesis using e dotdot_bound [OF 1(4,5)] by (intro IH(2)) (auto simp: 1)
    next
      case child
      obtain c t where c: "vfs_lookup_child s (mr s cur) ?part = (c, t)" by fastforce
      note lc = lookup_child_spec [OF 1(4) mr_bound [OF 1(4,5)] c]
      then have t: "vfs_inv t" "node_used t = node_used s" "mr t = mr s"
        using 1(4) same_tree_inv same_tree_frame by metis+
      show ?thesis
      proof (cases c)
        case None
        then show ?thesis using e child c lc by simp
      next
        case x: (Some x)
        have "same_tree t s' \<and> (\<forall>y. r = Some y \<longrightarrow> y < node_used t)"
          using e child c x t lc mr_bound [OF t(1), of x]
          by (intro IH(3) [OF child c [symmetric] x]) auto
        then show ?thesis using lc t by (auto intro: same_tree_trans)
      qed
    qed
  qed
qed

lemma lookup_spec:
  assumes "vfs_inv s" "vfs_lookup s p = (r, s')"
  shows "same_tree s s'" "vfs_inv s'" "r = Some x \<Longrightarrow> x < node_used s'"
proof -
  have "same_tree s s' \<and> (\<forall>x. r = Some x \<longrightarrow> x < node_used s)"
    using assms lookup_loop_spec [OF assms(1) vfs_invD(2) [OF assms(1)]] vfs_invD(2) [OF assms(1)]
    unfolding vfs_lookup_def by (auto split: list.splits if_splits)
  then show "same_tree s s'" "vfs_inv s'" "r = Some x \<Longrightarrow> x < node_used s'"
    using assms(1) same_tree_inv [of s s'] same_tree_frame(1) [of s s'] by auto
qed

lemma parent_for_create_spec:
  assumes "vfs_inv s" "vfs_parent_for_create s p = (r, s')"
  shows "same_tree s s'" "vfs_inv s'" "r = Some (x, n) \<Longrightarrow> x < node_used s'"
proof -
  have "same_tree s s' \<and> vfs_inv s' \<and> (r = Some (x, n) \<longrightarrow> x < node_used s')"
    using assms lookup_spec [OF assms(1)] unfolding vfs_parent_for_create_def
    by (auto split: option.splits prod.splits)
  then show "same_tree s s'" "vfs_inv s'" "r = Some (x, n) \<Longrightarrow> x < node_used s'" by auto
qed

section \<open>Changing the tree\<close>

definition up_rel :: "vfs \<Rightarrow> (nat \<times> nat) set" where
  "up_rel s = {(x, p). nd_parent (nodes s x) = Some p}"

lemma in_up_rel [simp]: "(x, p) \<in> up_rel s \<longleftrightarrow> nd_parent (nodes s x) = Some p"
  by (simp add: up_rel_def)

lemma rooted_reparent:
  assumes same: "\<And>y. y \<noteq> x \<Longrightarrow> nd_parent (nodes t y) = nd_parent (nodes s y)"
    and x: "nd_parent (nodes t x) = Some p" and p: "rooted s p" "(p, x) \<notin> (up_rel s)\<^sup>*"
  shows "rooted s y \<Longrightarrow> rooted t y"
proof -
  have av: "rooted t y" if "rooted s y" "(y, x) \<notin> (up_rel s)\<^sup>*" for y
    using that
  proof induction
    case (top y)
    then have "y \<noteq> x" by auto
    then show ?case using top same by (auto intro: rooted.top)
  next
    case (up y q)
    then have "y \<noteq> x" "(q, x) \<notin> (up_rel s)\<^sup>*" by (auto intro: converse_rtrancl_into_rtrancl)
    then show ?case using up same by (auto intro: rooted.up)
  qed
  have rx: "rooted t x" using x av [OF p] by (rule rooted.up)
  show "rooted t y" if "rooted s y"
    using that
  proof induction
    case (top y)
    then show ?case using rx same by (cases "y = x") (auto intro: rooted.top)
  next
    case (up y q)
    then show ?case using rx same by (cases "y = x") (auto intro: rooted.up)
  qed
qed

lemma rooted_cut:
  assumes "\<And>y. nd_parent (nodes t y) = nd_parent (nodes s y) \<or> nd_parent (nodes t y) = None"
  shows "rooted s y \<Longrightarrow> rooted t y"
proof (induction rule: rooted.induct)
  case (top y)
  then show ?case using assms [of y] by (auto intro: rooted.top)
next
  case (up y q)
  then show ?case using assms [of y] by (auto intro: rooted.intros)
qed

definition detached :: "vfs \<Rightarrow> nat \<Rightarrow> bool" where
  "detached s x \<longleftrightarrow> (\<forall>d<node_used s. x \<notin> set (children_of s d))"

lemma nodes_add:
  "nodes (add s p x) y =
     (let n = (if y = x then (nodes s x)\<lparr>nd_parent := Some p, nd_next := nd_children (nodes s p)\<rparr> else nodes s y) in
      if y = p then n\<lparr>nd_children := Some x\<rparr> else n)"
  by (simp add: add_def Let_def)

lemma add_frame [simp, frame_simps]:
  "node_used (add s p x) = node_used s" "root_node (add s p x) = root_node s" "mounts (add s p x) = mounts s"
  "nd_type (nodes (add s p x) y) = nd_type (nodes s y)" "nd_mounted (nodes (add s p x) y) = nd_mounted (nodes s y)"
  "nd_inode_owner (nodes (add s p x) y) = nd_inode_owner (nodes s y)"
  "nd_name (nodes (add s p x) y) = nd_name (nodes s y)" "nd_data (nodes (add s p x) y) = nd_data (nodes s y)"
  "nd_size (nodes (add s p x) y) = nd_size (nodes s y)" "nd_nlink (nodes (add s p x) y) = nd_nlink (nodes s y)"
  "nd_capacity (nodes (add s p x) y) = nd_capacity (nodes s y)"
  "is_dir (add s p x) = is_dir s" "mount_root (add s p x) = mount_root s" "inode_of (add s p x) = inode_of s"
  by (auto simp: add_def Let_def is_dir_def mount_root_def inode_of_def fun_eq_iff split: option.split)

lemma add_inv:
  assumes inv: "vfs_inv s" and x: "x < node_used s" "x \<noteq> root_node s" "detached s x"
    and p: "p < node_used s" "is_dir s p" "(p, x) \<notin> (up_rel s)\<^sup>*"
  shows "vfs_inv (add s p x)"
    "\<And>d. d < node_used s \<Longrightarrow> children_of (add s p x) d = (if d = p then x # children_of s p else children_of s d)"
proof -
  let ?t = "add s p x"
  note I = vfs_invD [OF inv]
  have px: "p \<noteq> x" using p(3) by auto
  have nx: "nd_next (nodes ?t y) = nd_next (nodes s y)" "nd_parent (nodes ?t y) = nd_parent (nodes s y)" if "y \<noteq> x" for y
    using that by (auto simp: nodes_add Let_def)
  have xx: "nd_next (nodes ?t x) = nd_children (nodes s p)" "nd_parent (nodes ?t x) = Some p"
    using px by (auto simp: nodes_add Let_def)
  have ch: "nd_children (nodes ?t d) = (if d = p then Some x else nd_children (nodes s d))" for d
    by (auto simp: nodes_add Let_def)
  have il: "is_list ?t q (children_of s d) = is_list s q (children_of s d)" if "d < node_used s" for d q
    using that x(3) by (intro is_list_cong nx(1)) (auto simp: detached_def)
  have pa: "nd_parent (nodes ?t y) = Some d" if "d < node_used s" "y \<in> set (children_of s d)" for d y
  proof -
    have "y \<noteq> x" using x(3) that by (auto simp: detached_def)
    then show ?thesis using nx(2) [of y] I(5) [OF that(1)] that(2) by (simp add: dir_ok_def)
  qed
  have ok: "dir_ok ?t d (if d = p then x # children_of s p else children_of s d)" if d: "d < node_used s" for d
    using I(5) [OF d] x il xx ch d pa unfolding dir_ok_def by (auto simp: detached_def)
  have rt: "rooted ?t y" if "y < node_used s" for y
    using rooted_reparent [of x ?t s p, OF nx(2) xx(2) I(7) [OF p(1)] p(3) I(7) [OF that]] by simp
  have par: "q < node_used s \<and> is_dir s q" if "y < node_used s" "nd_parent (nodes ?t y) = Some q" for y q
    using that I(8) [of y q] nx [of y] xx p by (cases "y = x") auto
  have "vfs_inv ?t \<and> (\<forall>d<node_used ?t. children_of ?t d = (if d = p then x # children_of s p else children_of s d))"
  proof (rule vfs_invI, unfold add_frame)
    show "nd_parent (nodes ?t (root_node s)) = None" using nx(2) x(2) I(4) by simp
    show "(if d = p then x # children_of s p else children_of s d) = []" if "d < node_used s" "\<not> is_dir s d" for d
      using that p(2) I(6) by auto
  qed (fact I ok rt par)+
  then show "vfs_inv ?t"
    "\<And>d. d < node_used s \<Longrightarrow> children_of ?t d = (if d = p then x # children_of s p else children_of s d)"
    by simp_all
qed

text \<open>Taking a node out of its list.\<close>

lemma find_link_split:
  "is_list s (read_link s pp) (ys @ n # zs) \<Longrightarrow> n \<notin> set ys \<Longrightarrow> length ys < k \<Longrightarrow>
     find_link k s pp n = Some (if ys = [] then pp else Next (last ys))"
proof (induction ys arbitrary: pp k)
  case Nil
  then show ?case by (cases k) auto
next
  case (Cons y ys)
  then obtain k' where "k = Suc k'" by (cases k) auto
  then show ?case using Cons Cons.IH [of "Next y" k'] by auto
qed

lemma find_link_absent:
  "is_list s (read_link s pp) xs \<Longrightarrow> n \<notin> set xs \<Longrightarrow> find_link k s pp n = None"
proof (induction xs arbitrary: pp k)
  case Nil
  then show ?case by (cases k) auto
next
  case (Cons x xs)
  then show ?case using Cons.IH [of "Next x"] by (cases k) auto
qed

lemma is_list_relink:
  assumes "is_list s p (ys @ n # zs)" "ys \<noteq> []" "distinct (ys @ n # zs)"
    and t: "nd_next (nodes t (last ys)) = nd_next (nodes s n)" "\<And>x. x \<noteq> last ys \<Longrightarrow> nd_next (nodes t x) = nd_next (nodes s x)"
  shows "is_list t p (ys @ zs)"
  using assms(1-3) t
proof (induction ys arbitrary: p)
  case (Cons y ys)
  show ?case
  proof (cases "ys = []")
    case True
    have "is_list t q zs = is_list s q zs" for q
      using Cons.prems(3) True by (intro is_list_cong Cons.prems(5)) auto
    then show ?thesis using Cons.prems True by simp
  next
    case False
    have "y \<noteq> last ys" using Cons.prems(3) False by auto
    then show ?thesis using Cons.prems False Cons.IH [of "nd_next (nodes s y)"] by simp
  qed
qed simp

lemma detach_absent:
  assumes "vfs_inv s" "p < node_used s" "n \<notin> set (children_of s p)"
  shows "detach s p n = None"
  using find_link_absent [of s "Head p" "children_of s p" n] vfs_invD(5) [OF assms(1,2)] assms(3)
  by (simp add: detach_def dir_ok_def)


lemma detach_spec:
  assumes inv: "vfs_inv s" and p: "p < node_used s" and n: "n \<in> set (children_of s p)"
  obtains t where "detach s p n = Some t" "vfs_inv t" "detached t n"
    "node_used t = node_used s" "root_node t = root_node s"
    "\<And>d. d < node_used s \<Longrightarrow> children_of t d = (if d = p then remove1 n (children_of s p) else children_of s d)"
    "\<And>x. (nodes t x)\<lparr>nd_children := None, nd_next := None\<rparr> = (nodes s x)\<lparr>nd_children := None, nd_next := None\<rparr>"
    "mounts t = mounts s" "mount_used t = mount_used s"
    "vfs_data_pool t = vfs_data_pool s" "vfs_data_used t = vfs_data_used s"
proof -
  note I = vfs_invD [OF inv]
  obtain ys zs where yz: "children_of s p = ys @ n # zs" "n \<notin> set ys" using n by (meson split_list_first)
  have dk: "dir_ok s p (ys @ n # zs)" using I(5) [OF p] by (simp add: yz)
  then have il: "is_list s (nd_children (nodes s p)) (ys @ n # zs)" and di: "distinct (ys @ n # zs)"
    by (auto simp: dir_ok_def)
  have "length (ys @ n # zs) \<le> node_used s"
    using dk by (intro distinct_bounded_length) (auto simp: dir_ok_def)
  then have fl: "find_link (node_used s) s (Head p) n = Some (if ys = [] then Head p else Next (last ys))"
    using find_link_split [of s "Head p" ys n zs "node_used s"] il yz(2) by simp
  define t where "t = write_link s (if ys = [] then Head p else Next (last ys)) (nd_next (nodes s n))"
  have dt: "detach s p n = Some t" using fl by (simp add: detach_def t_def)
  have fr: "(nodes t x)\<lparr>nd_children := None, nd_next := None\<rparr> = (nodes s x)\<lparr>nd_children := None, nd_next := None\<rparr>" for x
    by (simp add: t_def)
  have g: "node_used t = node_used s" "root_node t = root_node s" "mounts t = mounts s" "mount_used t = mount_used s"
    "vfs_data_pool t = vfs_data_pool s" "vfs_data_used t = vfs_data_used s"
    by (simp_all add: t_def)
  have sel: "nd_parent (nodes t x) = nd_parent (nodes s x)" "nd_type (nodes t x) = nd_type (nodes s x)"
    "nd_mounted (nodes t x) = nd_mounted (nodes s x)" "nd_inode_owner (nodes t x) = nd_inode_owner (nodes s x)" for x
    by (simp_all add: t_def)
  have g2: "is_dir t = is_dir s" "mount_root t = mount_root s" "inode_of t = inode_of s"
    using sel g(3) by (auto simp: is_dir_def mount_root_def inode_of_def fun_eq_iff split: option.split)
  have nx: "nd_next (nodes t x) = nd_next (nodes s x)" if "ys = [] \<or> x \<noteq> last ys" for x
    using that by (auto simp: t_def)
  have ch: "nd_children (nodes t d) = (if ys = [] \<and> d = p then nd_next (nodes s n) else nd_children (nodes s d))" for d
    by (auto simp: t_def)
  have lp: "is_list t (nd_children (nodes t p)) (ys @ zs)"
  proof (cases "ys = []")
    case True
    have "is_list t q zs = is_list s q zs" for q by (rule is_list_cong) (simp add: nx True)
    then show ?thesis using il True ch by simp
  next
    case False
    have "nd_next (nodes t (last ys)) = nd_next (nodes s n)" using False by (simp add: t_def)
    then show ?thesis using is_list_relink [OF il False di, of t] nx ch False by simp
  qed
  have other: "is_list t q (children_of s d) = is_list s q (children_of s d)" if d: "d < node_used s" "d \<noteq> p" for d q
  proof (rule is_list_cong)
    fix x assume x: "x \<in> set (children_of s d)"
    have "x \<noteq> last ys" if "ys \<noteq> []"
    proof
      assume "x = last ys"
      then have "x \<in> set (children_of s p)" using that yz by simp
      then show False using x d I(5) [OF d(1)] I(5) [OF p] by (auto simp: dir_ok_def)
    qed
    then show "nd_next (nodes t x) = nd_next (nodes s x)" using nx by blast
  qed
  have only: "n \<notin> set (children_of s d)" if "d < node_used s" "d \<noteq> p" for d
    using I(5) [OF that(1)] dk that(2) by (auto simp: dir_ok_def)
  let ?K = "\<lambda>d. if d = p then ys @ zs else children_of s d"
  have "vfs_inv t \<and> (\<forall>d<node_used t. children_of t d = ?K d)"
  proof (rule vfs_invI, unfold g g2 sel)
    show "dir_ok t d (?K d)" if d: "d < node_used s" for d
      using I(5) [OF d] dk lp other [OF d] ch d unfolding dir_ok_def sel g by auto
    show "?K d = []" if "d < node_used s" "\<not> is_dir s d" for d
      using I(6) [OF that] yz by auto
    have "rooted t = rooted s" using rooted_cut [of t s] rooted_cut [of s t] sel(1) by auto
    then show "rooted t x" if "x < node_used s" for x using I(7) [OF that] by simp
  qed (fact I)+
  moreover have "remove1 n (ys @ n # zs) = ys @ zs" using yz(2) by (simp add: remove1_append)
  moreover from calculation have "detached t n"
    using di only g(1) by (auto simp: detached_def)
  ultimately show thesis using dt fr g yz(1) by (intro that [of t]) auto
qed


lemma clear_links_inv:
  assumes inv: "vfs_inv s" and n: "detached s n" "n \<noteq> root_node s"
  shows "vfs_inv (clear_links s n)" "children_of (clear_links s n) d = children_of s d \<or> d \<ge> node_used s"
proof -
  let ?t = "clear_links s n"
  note I = vfs_invD [OF inv]
  have g: "node_used ?t = node_used s" "root_node ?t = root_node s" "is_dir ?t = is_dir s" "mounts ?t = mounts s"
    by (auto simp: clear_links_def is_dir_def mount_root_def inode_of_def fun_eq_iff split: option.split)
  have pa: "nd_parent (nodes ?t x) = (if x = n then None else nd_parent (nodes s x))" for x
    by (simp add: clear_links_def)
  have nx: "nd_next (nodes ?t x) = nd_next (nodes s x)" if "x \<noteq> n" for x
    using that by (simp add: clear_links_def)
  have ch: "nd_children (nodes ?t x) = nd_children (nodes s x)" for x by (simp add: clear_links_def)
  have "vfs_inv ?t \<and> (\<forall>d<node_used ?t. children_of ?t d = children_of s d)"
  proof (rule vfs_invI, unfold g)
    show "dir_ok ?t d (children_of s d)" if d: "d < node_used s" for d
    proof -
      have nd: "n \<notin> set (children_of s d)" using n(1) d by (simp add: detached_def)
      then have "is_list ?t q (children_of s d) = is_list s q (children_of s d)" for q
        by (intro is_list_cong nx) auto
      then show ?thesis using I(5) [OF d] nd unfolding dir_ok_def g ch by (auto simp: pa)
    qed
    show "rooted ?t x" if "x < node_used s" for x
      using rooted_cut [of ?t s x] pa I(7) [OF that] by auto
    show "nd_parent (nodes ?t (root_node s)) = None" using I(4) by (simp add: pa)
    show "p < node_used s \<and> is_dir s p" if "x < node_used s" "nd_parent (nodes ?t x) = Some p" for x p
      using that I(8) by (auto simp: pa split: if_splits)
  qed (fact I)+
  then show "vfs_inv ?t" "children_of ?t d = children_of s d \<or> d \<ge> node_used s" using g(1) by auto
qed

lemma drop_link_tree: "same_tree s (vfs_drop_link s n)"
proof -
  have f: "same_tree s (vfs_free_file_data s x)" for s x
    by (auto simp: vfs_free_file_data_def same_tree_def split: option.split file_data.split)
  have s: "same_tree s (set_node s x (\<lambda>x. x\<lparr>nd_nlink := nd_nlink x - 1\<rparr>))"
    "same_tree s (set_node s x (\<lambda>x. x\<lparr>nd_size := 0\<rparr>))" for s x
    by (simp_all add: same_tree_def)
  show ?thesis
    unfolding vfs_drop_link_def Let_def
    by (auto split: option.split file_data.split intro: s f same_tree_trans
        same_tree_trans [OF same_tree_trans [OF s(1) s(2)] f])
qed

text \<open>A new node is in no list, and nothing lies below it.\<close>

lemma new_node_spec:
  assumes inv: "vfs_inv s" and r: "new_node s n t m = (Some x, s')"
  shows "vfs_inv s'" "x = node_used s" "node_used s' = node_used s + 1" "root_node s' = root_node s"
    "detached s' x" "\<And>p. p < node_used s \<Longrightarrow> (p, x) \<notin> (up_rel s')\<^sup>*"
    "\<And>d. d < node_used s \<Longrightarrow> children_of s' d = children_of s d" "children_of s' x = []"
    "\<And>y. y \<noteq> x \<Longrightarrow> nodes s' y = nodes s y" "mounts s' = mounts s"
    "nd_type (nodes s' x) = t" "nd_name (nodes s' x) = cp n" "nd_inode_owner (nodes s' x) = Some x"
    "nd_children (nodes s' x) = None" "nd_parent (nodes s' x) = None"
proof -
  note I = vfs_invD [OF inv]
  show x: "x = node_used s" and u: "node_used s' = node_used s + 1" and ro: "root_node s' = root_node s"
    and oth: "\<And>y. y \<noteq> x \<Longrightarrow> nodes s' y = nodes s y" and mt: "mounts s' = mounts s"
    and xs: "nd_type (nodes s' x) = t" "nd_name (nodes s' x) = cp n" "nd_inode_owner (nodes s' x) = Some x"
      "nd_children (nodes s' x) = None" "nd_parent (nodes s' x) = None"
    using r by (auto simp: new_node_def Let_def split: if_splits)
  have xm: "nd_mounted (nodes s' x) = None" "node_used s < VFS_MAX_NODES"
    using r by (auto simp: new_node_def Let_def split: if_splits)
  have e: "nodes s' y = nodes s y" if "y < node_used s" for y using oth that x by simp
  let ?K = "\<lambda>d. if d = x then [] else children_of s d"
  have il: "is_list s' q (children_of s d) = is_list s q (children_of s d)" if "d < node_used s" for d q
    using I(5) [OF that] e by (intro is_list_cong) (auto simp: dir_ok_def)
  have "vfs_inv s' \<and> (\<forall>d<node_used s'. children_of s' d = ?K d)"
  proof (rule vfs_invI, unfold u ro)
    show "node_used s + 1 \<le> VFS_MAX_NODES" "root_node s < node_used s + 1" using xm I(2) by simp_all
    show "is_dir s' (root_node s)" "nd_parent (nodes s' (root_node s)) = None" using I(2-4) e by (simp_all add: is_dir_def)
    show "dir_ok s' d (?K d)" if "d < node_used s + 1" for d
    proof (cases "d = x")
      case False
      then have d: "d < node_used s" using that x by simp
      show ?thesis using False I(5) [OF d] il [OF d] e d unfolding dir_ok_def u by (auto simp: less_Suc_eq)
    qed (simp add: dir_ok_def xs)
    show "?K d = []" if "d < node_used s + 1" "\<not> is_dir s' d" for d
      using that I(6) [of d] e x by (auto simp: is_dir_def less_Suc_eq)
    have rt: "rooted s' y" if "rooted s y" "y < node_used s" for y
      using that
    proof induction
      case (up y q)
      then show ?case using I(8) [of y q] e by (auto intro: rooted.up)
    qed (auto intro: rooted.top simp: e)
    show "rooted s' y" if "y < node_used s + 1" for y
      using rt [OF I(7)] that x xs(5) by (cases "y = x") (auto intro: rooted.top)
    show "p < node_used s + 1 \<and> is_dir s' p" if "y < node_used s + 1" "nd_parent (nodes s' y) = Some p" for y p
      using that I(8) [of y p] e x xs(5) by (cases "y = x") (auto simp: is_dir_def)
    show "q < node_used s + 1" if "mt_root (mounts s' k) = Some q" for k q
      using that I(9) [of k q] mt by simp
  qed
  then show "vfs_inv s'" and k: "\<And>d. d < node_used s \<Longrightarrow> children_of s' d = children_of s d" "children_of s' x = []"
    using u x by auto
  show "detached s' x"
    using k I(5) x u by (auto simp: detached_def dir_ok_def less_Suc_eq)
  show "(p, x) \<notin> (up_rel s')\<^sup>*" if "p < node_used s" for p
  proof
    assume "(p, x) \<in> (up_rel s')\<^sup>*"
    then have "p < node_used s \<longrightarrow> x < node_used s"
    proof (induction rule: rtrancl_induct)
      case (step y z)
      then show ?case using I(8) [of y z] e by auto
    qed simp
    then show False using that x by simp
  qed
qed

section \<open>Every operation keeps the tree\<close>

lemma same_tree_up_rel: "same_tree s t \<Longrightarrow> up_rel t = up_rel s"
  by (simp add: up_rel_def same_tree_frame)

lemma same_tree_detached: "same_tree s t \<Longrightarrow> detached t = detached s"
  by (simp add: detached_def same_tree_frame fun_eq_iff)

lemma insert_node_inv:
  assumes inv: "vfs_inv s" and p: "p < node_used s" "is_dir s p" and n: "new_node s nm ty m = (Some x, s1)"
    and t: "same_tree s1 s2"
  shows "vfs_inv (add s2 p x)" "x < node_used (add s2 p x)" "node_used (add s2 p x) = node_used s + 1"
    "children_of (add s2 p x) p = x # children_of s p"
    "\<And>d. d < node_used s \<Longrightarrow> d \<noteq> p \<Longrightarrow> children_of (add s2 p x) d = children_of s d"
    "children_of (add s2 p x) x = []"
proof -
  note N = new_node_spec [OF inv n]
  note F = same_tree_frame [OF t]
  have d: "is_dir s1 p" using p N(9) [of p] N(2) by (simp add: is_dir_def)
  have pre: "vfs_inv s2" "x < node_used s2" "x \<noteq> root_node s2" "detached s2 x" "p < node_used s2" "is_dir s2 p"
    "(p, x) \<notin> (up_rel s2)\<^sup>*"
    using N(1-6) p d vfs_invD(2) [OF inv] unfolding same_tree_inv [OF t] same_tree_up_rel [OF t] same_tree_detached [OF t] F
    by auto
  note A = add_inv [OF pre]
  show "vfs_inv (add s2 p x)" by (rule A(1))
  show "x < node_used (add s2 p x)" "node_used (add s2 p x) = node_used s + 1" using pre(2) F(1) N(3) by simp_all
  show "children_of (add s2 p x) p = x # children_of s p"
    "\<And>d. d < node_used s \<Longrightarrow> d \<noteq> p \<Longrightarrow> children_of (add s2 p x) d = children_of s d"
    "children_of (add s2 p x) x = []"
    using A(2) N(2,3,7,8) p(1) unfolding F by auto
qed

lemma new_node_none: "new_node s n t m = (None, s') \<Longrightarrow> s' = s"
  by (simp add: new_node_def Let_def split: if_splits)

lemma same_tree_data [simp]:
  "same_tree s (s\<lparr>vfs_data_pool := a\<rparr>)" "same_tree s (s\<lparr>vfs_data_used := b\<rparr>)"
  "same_tree s (s\<lparr>vfs_data_used := b, vfs_data_pool := a\<rparr>)"
  by (simp_all add: same_tree_def)

lemma alloc_data_tree: "vfs_alloc_file_data s = (d, t) \<Longrightarrow> same_tree s t"
  by (auto simp: vfs_alloc_file_data_def split: option.splits)

text \<open>Only the nodes in use matter.\<close>

lemma agree_inv:
  assumes inv: "vfs_inv s" and u: "node_used t = node_used s" "root_node t = root_node s"
    and mt: "\<And>m r. mt_root (mounts t m) = Some r \<Longrightarrow> r < node_used s"
    and e: "\<And>y. y < node_used s \<Longrightarrow> nd_parent (nodes t y) = nd_parent (nodes s y)"
      "\<And>y. y < node_used s \<Longrightarrow> nd_children (nodes t y) = nd_children (nodes s y)"
      "\<And>y. y < node_used s \<Longrightarrow> nd_next (nodes t y) = nd_next (nodes s y)"
      "\<And>y. y < node_used s \<Longrightarrow> nd_type (nodes t y) = nd_type (nodes s y)"
  shows "vfs_inv t"
proof -
  note I = vfs_invD [OF inv]
  have "vfs_inv t \<and> (\<forall>d<node_used t. children_of t d = children_of s d)"
  proof (rule vfs_invI, unfold u)
    show "is_dir t (root_node s)" "nd_parent (nodes t (root_node s)) = None" using I(2-4) e by (simp_all add: is_dir_def)
    show "dir_ok t d (children_of s d)" if d: "d < node_used s" for d
    proof -
      have "is_list t q (children_of s d) = is_list s q (children_of s d)" for q
        using I(5) [OF d] e by (intro is_list_cong) (auto simp: dir_ok_def)
      then show ?thesis using I(5) [OF d] e d u unfolding dir_ok_def by auto
    qed
    show "children_of s d = []" if "d < node_used s" "\<not> is_dir t d" for d
      using that I(6) [of d] e by (auto simp: is_dir_def)
    have "rooted t y" if "rooted s y" "y < node_used s" for y
      using that
    proof induction
      case (up y q)
      then show ?case using I(8) [of y q] e by (auto intro: rooted.up)
    qed (auto intro: rooted.top simp: e)
    then show "rooted t y" if "y < node_used s" for y using I(7) that by blast
    show "p < node_used s \<and> is_dir t p" if "y < node_used s" "nd_parent (nodes t y) = Some p" for y p
      using that I(8) [of y p] e by (auto simp: is_dir_def)
  qed (fact I(1,2) mt)+
  then show ?thesis by simp
qed

lemma create_file_inv:
  assumes inv: "vfs_inv s" and c: "vfs_create_file s path tr = (r, s')"
  shows "vfs_inv s'"
proof -
  obtain r1 s1 where l1: "vfs_lookup s path = (r1, s1)" by fastforce
  note i1 = lookup_spec(2) [OF inv l1]
  obtain r2 s2 where l2: "vfs_parent_for_create s1 path = (r2, s2)" by fastforce
  note i2 = parent_for_create_spec(2,3) [OF i1 l2]
  show ?thesis
  proof (cases r1)
    case (Some n)
    have "same_tree s1 s'" if "nd_type (nodes s1 n) = VFS_NODE_FILE"
      using c l1 Some that by (auto simp: vfs_create_file_def Let_def same_tree_def split: if_splits)
    then show ?thesis using c l1 Some i1 same_tree_inv by (auto simp: vfs_create_file_def split: if_splits)
  next
    case None
    show ?thesis
    proof (cases "\<exists>p name. r2 = Some (p, name) \<and> is_dir s2 p")
      case False
      then show ?thesis using c l1 l2 None i2 by (auto simp: vfs_create_file_def split: option.splits)
    next
      case True
      then obtain p name where p: "r2 = Some (p, name)" "is_dir s2 p" by blast
      then have pu: "p < node_used s2" using i2(2) by blast
      obtain x s3 where n: "new_node s2 name VFS_NODE_FILE (S_IFREG OR 438) = (x, s3)" by fastforce
      note c' = c [unfolded vfs_create_file_def l1 None prod.case option.case l2 p n]
      show ?thesis
      proof (cases x)
        case None
        then show ?thesis using c' p new_node_none [of s2] n i2 by auto
      next
        case (Some y)
        obtain d s4 where a: "vfs_alloc_file_data s3 = (d, s4)" by fastforce
        note ins = insert_node_inv(1) [OF i2(1) pu p(2) n [unfolded Some]]
        have t: "same_tree s3 (set_node s3 y f)" if "\<And>nd. f nd = nd\<lparr>nd_data := a, nd_capacity := b\<rparr>" for f a b
          by (rule same_tree_set_node) (simp_all add: that)
        have t4: "same_tree s3 (set_node s4 y (\<lambda>x. x\<lparr>nd_data := a, nd_capacity := b\<rparr>))" for a b
          using alloc_data_tree [OF a] by (auto simp: same_tree_def)
        have undo: "vfs_inv (s4\<lparr>node_used := node_used s4 - 1\<rparr>)" if "d = None"
        proof -
          have "s4 = s3" using a that by (auto simp: vfs_alloc_file_data_def split: option.splits)
          then show ?thesis using new_node_spec [OF i2(1) n [unfolded Some]] vfs_invD(9) [OF i2(1)]
            by (intro agree_inv [OF i2(1)]) auto
        qed
        show ?thesis
          using c' p(2) undo ins [OF t4] ins [OF t] unfolding Some a prod.case option.case
          by (auto split: if_splits option.splits)
      qed
    qed
  qed
qed


lemma create_target_spec:
  assumes inv: "vfs_inv s" and c: "create_target s path = (r, s')"
  shows "same_tree s s'" "vfs_inv s'" "r = Some (p, n) \<Longrightarrow> p < node_used s' \<and> is_dir s' p"
proof -
  let ?c = "canonicalize_system_path path 260"
  obtain r1 s1 where l1: "vfs_lookup s ?c = (r1, s1)" by fastforce
  note i1 = lookup_spec [OF inv l1]
  obtain r2 s2 where l2: "vfs_parent_for_create s1 ?c = (r2, s2)" by fastforce
  note i2 = parent_for_create_spec [OF i1(2) l2]
  have "same_tree s s' \<and> vfs_inv s' \<and> (r = Some (p, n) \<longrightarrow> p < node_used s' \<and> is_dir s' p)"
    using c inv i1 i2 l1 l2 same_tree_trans [OF i1(1) i2(1)] unfolding create_target_def Let_def
    by (auto split: if_splits option.splits)
  then show "same_tree s s'" "vfs_inv s'" "r = Some (p, n) \<Longrightarrow> p < node_used s' \<and> is_dir s' p" by auto
qed

lemma create_socket_inv:
  assumes inv: "vfs_inv s" and c: "vfs_create_socket s path m = (r, s')"
  shows "vfs_inv s'"
proof -
  obtain q s1 where t: "create_target s path = (q, s1)" by fastforce
  note i = create_target_spec(2,3) [OF inv t]
  show ?thesis
  proof (cases q)
    case (Some pn)
    obtain p name where pn: "pn = (p, name)" by (cases pn)
    obtain x s2 where n: "new_node s1 name VFS_NODE_SOCKET (S_IFSOCK OR (m AND 511)) = (x, s2)" by fastforce
    have tr: "same_tree s2 (set_node s2 y (\<lambda>x. x\<lparr>nd_capacity := 0, nd_data := None\<rparr>))" for y
      by (rule same_tree_set_node) simp_all
    show ?thesis
      using c t Some pn n i insert_node_inv(1) [OF i(1) _ _ n [THEN trans] tr] new_node_none [OF n [THEN trans]]
      by (auto simp: vfs_create_socket_def split: if_splits option.splits)
  qed (use c t i in \<open>auto simp: vfs_create_socket_def\<close>)
qed

lemma mkdir_spec:
  assumes inv: "vfs_inv s" and c: "vfs_mkdir s path m = (r, s')"
  shows "vfs_inv s'" "r = Some x \<Longrightarrow> x < node_used s' \<and> is_dir s' x \<and> children_of s' x = []"
proof -
  obtain q s1 where t: "create_target s path = (q, s1)" by fastforce
  note i = create_target_spec(2,3) [OF inv t]
  have "vfs_inv s' \<and> (r = Some x \<longrightarrow> x < node_used s' \<and> is_dir s' x \<and> children_of s' x = [])"
  proof (cases q)
    case (Some pn)
    obtain p name where pn: "pn = (p, name)" by (cases pn)
    obtain y s2 where n: "new_node s1 name VFS_NODE_DIR (S_IFDIR OR (m AND 511)) = (y, s2)" by fastforce
    show ?thesis
    proof (cases y)
      case None
      then show ?thesis using c t Some pn n i new_node_none [of s1] by (auto simp: vfs_mkdir_def)
    next
      case y: (Some z)
      note ins = insert_node_inv [OF i(1) _ _ n [unfolded y] same_tree_refl, of p]
      have "is_dir s2 z" using new_node_spec(11) [OF i(1) n [unfolded y]] by (simp add: is_dir_def)
      then show ?thesis using c t Some pn n i(2) ins y by (auto simp: vfs_mkdir_def)
    qed
  qed (use c t i in \<open>auto simp: vfs_mkdir_def\<close>)
  then show "vfs_inv s'" "r = Some x \<Longrightarrow> x < node_used s' \<and> is_dir s' x \<and> children_of s' x = []" by auto
qed

lemma link_inv:
  assumes inv: "vfs_inv s" and c: "vfs_link s old new = (r, s')"
  shows "vfs_inv s'"
proof -
  obtain r1 s1 where l1: "vfs_lookup s old = (r1, s1)" by fastforce
  note i1 = lookup_spec [OF inv l1]
  obtain r2 s2 where l2: "vfs_parent_for_create s1 new = (r2, s2)" by fastforce
  note i2 = parent_for_create_spec [OF i1(2) l2]
  obtain r3 s3 where l3: "vfs_lookup s2 new = (r3, s3)" by fastforce
  note i3 = lookup_spec [OF i2(2) l3]
  show ?thesis
  proof (cases "\<exists>src p name. r1 = Some src \<and> \<not> (src = root_node s1 \<or> nd_mounted (nodes s1 src) \<noteq> None
      \<or> nd_type (nodes s1 src) \<noteq> VFS_NODE_FILE) \<and> r2 = Some (p, name) \<and> is_dir s2 p \<and> name \<noteq> [] \<and> r3 = None")
    case False
    then show ?thesis using c i1 i2 i3 unfolding vfs_link_def l1 prod.case
      by (auto simp: l2 l3 split: option.splits if_splits)
  next
    case True
    then obtain src p name where a: "r1 = Some src" "\<not> (src = root_node s1 \<or> nd_mounted (nodes s1 src) \<noteq> None
      \<or> nd_type (nodes s1 src) \<noteq> VFS_NODE_FILE)" "r2 = Some (p, name)" "is_dir s2 p" "name \<noteq> []" "r3 = None" by blast
    have p: "p < node_used s3" "is_dir s3 p" using i2(3) [OF a(3)] a(4) same_tree_frame [OF i3(1)] by auto
    obtain x s4 where n: "new_node s3 name VFS_NODE_FILE (nd_mode (nodes s3 src)) = (x, s4)" by fastforce
    have tr: "same_tree s4 (set_node (set_node (set_node s4 y f) o' g) y h)"
      if "\<And>nd. f nd = nd\<lparr>nd_ino := a1, nd_inode_owner := a2, nd_nlink := 0\<rparr>" "\<And>nd. g nd = nd\<lparr>nd_nlink := nd_nlink nd + 1\<rparr>"
        "\<And>nd. h nd = nd\<lparr>nd_data := a3, nd_size := a4, nd_capacity := a5\<rparr>" for y o' f g h a1 a2 a3 a4 a5
      by (simp add: same_tree_def that)
    show ?thesis
      using c unfolding vfs_link_def l1 l2 l3 a prod.case option.case Let_def n
      using a i3 new_node_none [of s3] n insert_node_inv(1) [OF i3(2) p n [THEN trans] tr]
      by (auto split: option.splits if_splits)
  qed
qed


text \<open>Taking a node out of the directory it names as parent, and clearing its own links.\<close>

lemma remove_spec:
  assumes inv: "vfs_inv s" and n: "n < node_used s" "nd_parent (nodes s n) = Some p"
    and t: "detach s p n = Some t"
  shows "vfs_inv t" "vfs_inv (clear_links t n)" "node_used t = node_used s" "n \<in> set (children_of s p)"
    "\<And>d. d < node_used s \<Longrightarrow> children_of (clear_links t n) d = (if d = p then remove1 n (children_of s p) else children_of s d)"
    "detached t n" "root_node t = root_node s"
    "\<And>x. (nodes t x)\<lparr>nd_children := None, nd_next := None\<rparr> = (nodes s x)\<lparr>nd_children := None, nd_next := None\<rparr>"
    "\<And>d. d < node_used s \<Longrightarrow> children_of t d = (if d = p then remove1 n (children_of s p) else children_of s d)"
    "mounts t = mounts s"
proof -
  have p: "p < node_used s" using vfs_invD(8) [OF inv n] by simp
  show mem: "n \<in> set (children_of s p)" using detach_absent [OF inv p, of n] t by (cases "n \<in> set (children_of s p)") auto
  obtain t' where t': "detach s p n = Some t'" and d: "vfs_inv t'" "detached t' n" "node_used t' = node_used s"
    "root_node t' = root_node s"
    "\<And>d. d < node_used s \<Longrightarrow> children_of t' d = (if d = p then remove1 n (children_of s p) else children_of s d)"
    "\<And>x. (nodes t' x)\<lparr>nd_children := None, nd_next := None\<rparr> = (nodes s x)\<lparr>nd_children := None, nd_next := None\<rparr>"
    "mounts t' = mounts s"
    using detach_spec [OF inv p mem] by metis
  have e: "t' = t" using t t' by simp
  have "n \<noteq> root_node t" using vfs_invD(4) [OF inv] n(2) d(4) e by auto
  then show "vfs_inv t" "vfs_inv (clear_links t n)" "node_used t = node_used s" "detached t n" "root_node t = root_node s"
    "\<And>d. d < node_used s \<Longrightarrow> children_of (clear_links t n) d = (if d = p then remove1 n (children_of s p) else children_of s d)"
    "\<And>x. (nodes t x)\<lparr>nd_children := None, nd_next := None\<rparr> = (nodes s x)\<lparr>nd_children := None, nd_next := None\<rparr>"
    "\<And>d. d < node_used s \<Longrightarrow> children_of t d = (if d = p then remove1 n (children_of s p) else children_of s d)"
    "mounts t = mounts s"
    using d clear_links_inv [of t n] unfolding e by (auto simp: not_le) (metis not_le)+
qed

lemma unlink_inv:
  assumes inv: "vfs_inv s" and c: "vfs_unlink s path = (r, s')"
  shows "vfs_inv s'"
proof -
  obtain r1 s1 where l: "vfs_lookup s path = (r1, s1)" by fastforce
  note i = lookup_spec [OF inv l]
  have rm: "vfs_inv (vfs_drop_link (clear_links t n) n)"
    if "n < node_used s1" "nd_parent (nodes s1 n) = Some p" "detach s1 p n = Some t" for n p t
    using remove_spec(2) [OF i(2) that] same_tree_inv [OF drop_link_tree] by blast
  show ?thesis
    using c i(2) i(3) rm unfolding vfs_unlink_def l
    by (auto split: option.splits if_splits)
qed

lemma rmdir_inv:
  assumes inv: "vfs_inv s" and c: "vfs_rmdir s path = (r, s')"
  shows "vfs_inv s'"
proof -
  obtain r1 s1 where l: "vfs_lookup s path = (r1, s1)" by fastforce
  note i = lookup_spec [OF inv l]
  show ?thesis
    using c i(2) i(3) remove_spec(2) [OF i(2)] unfolding vfs_rmdir_def l
    by (auto split: option.splits if_splits)
qed

text \<open>\<^verbatim>\<open>vfs_is_ancestor\<close> decides whether a node lies on the way up from another one.\<close>

lemma up_rel_step: "(x, a) \<in> (up_rel s)\<^sup>* \<Longrightarrow> nd_parent (nodes s x) = Some p \<Longrightarrow> a = x \<or> (p, a) \<in> (up_rel s)\<^sup>*"
  by (erule converse_rtranclE) auto

lemma rooted_acyclic: "rooted s x \<Longrightarrow> (x, x) \<notin> (up_rel s)\<^sup>+"
proof (induction rule: rooted.induct)
  case (top x)
  then show ?case by (auto dest: tranclD)
next
  case (up x p)
  show ?case
  proof
    assume "(x, x) \<in> (up_rel s)\<^sup>+"
    then have "(p, x) \<in> (up_rel s)\<^sup>*" using up(1) by (auto dest: tranclD)
    then have "(p, p) \<in> (up_rel s)\<^sup>+" using up(1) by (intro rtrancl_into_trancl1) auto
    then show False using up.IH by simp
  qed
qed

lemma ancestor_loop_sound: "ancestor_loop k s a (Some x) \<Longrightarrow> (x, a) \<in> (up_rel s)\<^sup>*"
proof (induction k arbitrary: x)
  case (Suc k)
  show ?case
  proof (cases "nd_parent (nodes s x)")
    case None
    then show ?thesis using Suc.prems by (cases k) auto
  next
    case (Some p)
    then show ?thesis using Suc by (auto intro: converse_rtrancl_into_rtrancl)
  qed
qed simp

lemma ancestor_chain:
  assumes inv: "vfs_inv s" and x: "x < node_used s"
  shows "\<exists>xs. distinct xs \<and> (\<forall>y\<in>set xs. y < node_used s) \<and> (\<forall>a. (x, a) \<in> (up_rel s)\<^sup>* \<longleftrightarrow> a \<in> set xs)
    \<and> (\<forall>k a. length xs \<le> k \<longrightarrow> a \<in> set xs \<longrightarrow> ancestor_loop k s a (Some x))"
  using vfs_invD(7) [OF inv x] x
proof (induction rule: rooted.induct)
  case (top x)
  have "a = x" if "(x, a) \<in> (up_rel s)\<^sup>*" for a
    using that top(1) by (auto elim: converse_rtranclE)
  moreover have "ancestor_loop k s x (Some x)" if "Suc 0 \<le> k" for k
    using that by (cases k) auto
  ultimately show ?case using top(2) by (intro exI [of _ "[x]"]) auto
next
  case (up x p)
  then obtain xs where xs: "distinct xs" "\<forall>y\<in>set xs. y < node_used s" "\<forall>a. (p, a) \<in> (up_rel s)\<^sup>* \<longleftrightarrow> a \<in> set xs"
    "\<forall>k a. length xs \<le> k \<longrightarrow> a \<in> set xs \<longrightarrow> ancestor_loop k s a (Some p)"
    using vfs_invD(8) [OF inv] by blast
  have nx: "x \<notin> set xs"
  proof
    assume "x \<in> set xs"
    then have "(p, x) \<in> (up_rel s)\<^sup>*" using xs(3) by blast
    then have "(x, x) \<in> (up_rel s)\<^sup>+" using up(1) by (intro rtrancl_into_trancl2 [of x p]) auto
    then show False using rooted_acyclic [OF vfs_invD(7) [OF inv up.prems]] by simp
  qed
  have "(x, a) \<in> (up_rel s)\<^sup>* \<longleftrightarrow> a \<in> set (x # xs)" for a
    using up_rel_step [OF _ up(1), of a] xs(3) up(1) by (auto intro: converse_rtrancl_into_rtrancl)
  moreover have "ancestor_loop k s a (Some x)" if "length (x # xs) \<le> k" "a \<in> set (x # xs)" for k a
    using that xs(4) up(1) by (cases k) auto
  ultimately show ?case using xs nx up.prems by (intro exI [of _ "x # xs"]) auto
qed

lemma is_ancestor_iff:
  assumes "vfs_inv s" "x < node_used s"
  shows "vfs_is_ancestor s a x \<longleftrightarrow> (x, a) \<in> (up_rel s)\<^sup>*"
proof -
  obtain xs where xs: "distinct xs" "\<forall>y\<in>set xs. y < node_used s" "\<forall>a. (x, a) \<in> (up_rel s)\<^sup>* \<longleftrightarrow> a \<in> set xs"
    "\<forall>k a. length xs \<le> k \<longrightarrow> a \<in> set xs \<longrightarrow> ancestor_loop k s a (Some x)"
    using ancestor_chain [OF assms] by blast
  have "length xs \<le> node_used s" using distinct_bounded_length xs(1,2) by blast
  then show ?thesis using xs(3,4) ancestor_loop_sound unfolding vfs_is_ancestor_def by blast
qed

text \<open>A node that is no directory is above nothing but itself.\<close>

lemma non_dir_not_above:
  assumes inv: "vfs_inv s" and p: "p < node_used s" "is_dir s p" and n: "\<not> is_dir s n"
  shows "(p, n) \<notin> (up_rel s)\<^sup>*"
proof
  assume "(p, n) \<in> (up_rel s)\<^sup>*"
  then have "p < node_used s \<longrightarrow> is_dir s p \<longrightarrow> n < node_used s \<and> is_dir s n"
  proof (induction rule: rtrancl_induct)
    case (step y z)
    then show ?case using vfs_invD(8) [OF inv, of y z] by auto
  qed simp
  then show False using p n by simp
qed


lemma add_named: "set_node (set_node s n (\<lambda>x. x\<lparr>nd_name := nm, nd_parent := Some p, nd_next := nd_children (nodes s p)\<rparr>)) p
    (\<lambda>x. x\<lparr>nd_children := Some n\<rparr>) = add (set_node s n (\<lambda>x. x\<lparr>nd_name := nm\<rparr>)) p n"
  by (cases "p = n") (simp_all add: add_def Let_def set_node_def)

text \<open>The last part of a rename: out of the old directory, into the new one.\<close>

lemma move_inv:
  assumes inv: "vfs_inv s" and n: "n < node_used s" "n \<noteq> root_node s" and p: "p < node_used s" "is_dir s p"
    and np: "(p, n) \<notin> (up_rel s)\<^sup>*"
    and t: "t = leave_parent s n"
  shows "vfs_inv (add (set_node t n (\<lambda>x. x\<lparr>nd_name := nm\<rparr>)) p n)"
proof -
  note I = vfs_invD [OF inv]
  have own: "nd_parent (nodes s n) = Some d" if "d < node_used s" "n \<in> set (children_of s d)" for d
    using I(5) [OF that(1)] that(2) by (simp add: dir_ok_def)
  have "vfs_inv t \<and> node_used t = node_used s \<and> root_node t = root_node s \<and> detached t n \<and> up_rel t = up_rel s
    \<and> is_dir t p"
  proof (cases "\<exists>op u. nd_parent (nodes s n) = Some op \<and> detach s op n = Some u")
    case True
    then obtain op where o: "nd_parent (nodes s n) = Some op" "detach s op n = Some t" using t by (auto simp: leave_parent_def)
    note r = remove_spec [OF inv n(1) o]
    have "nd_parent (nodes t x) = nd_parent (nodes s x) \<and> nd_type (nodes t x) = nd_type (nodes s x)" for x
      using arg_cong [OF r(8) [of x], of nd_parent] arg_cong [OF r(8) [of x], of nd_type] by simp
    then show ?thesis using r p by (auto simp: is_dir_def up_rel_def)
  next
    case False
    then have e: "t = s" using t by (auto simp: leave_parent_def split: option.splits)
    have "n \<notin> set (children_of s d)" if d: "d < node_used s" for d
    proof
      assume m: "n \<in> set (children_of s d)"
      then show False using False own [OF d m] detach_spec [OF inv d m] by metis
    qed
    then show ?thesis using e inv p by (simp add: detached_def)
  qed
  moreover have tr: "same_tree t (set_node t n (\<lambda>x. x\<lparr>nd_name := nm\<rparr>))" by (rule same_tree_set_node) simp_all
  ultimately show ?thesis
    using n p(1) np
    by (intro add_inv(1)) (simp_all add: same_tree_inv [OF tr] same_tree_detached [OF tr] same_tree_up_rel [OF tr]
        same_tree_frame(3) [OF tr])
qed

lemma rename_inv:
  assumes inv: "vfs_inv s" and c: "vfs_rename s old new = (r, s')"
  shows "vfs_inv s'"
proof -
  obtain r1 s1 where l1: "vfs_lookup s old = (r1, s1)" by fastforce
  note i1 = lookup_spec [OF inv l1]
  obtain r2 s2 where l2: "vfs_parent_for_create s1 new = (r2, s2)" by fastforce
  note i2 = parent_for_create_spec [OF i1(2) l2]
  obtain r3 s3 where l3: "vfs_lookup s2 new = (r3, s3)" by fastforce
  note i3 = lookup_spec [OF i2(2) l3]
  show ?thesis
  proof (cases "\<exists>n p name. r1 = Some n \<and> \<not> (n = root_node s1 \<or> nd_mounted (nodes s1 n) \<noteq> None)
      \<and> r2 = Some (p, name) \<and> is_dir s2 p \<and> name \<noteq> [] \<and> \<not> (is_dir s2 n \<and> vfs_is_ancestor s2 n p) \<and> r3 \<noteq> Some n")
    case False
    then show ?thesis using c i1 i2 i3 unfolding vfs_rename_def l1 prod.case
      by (auto simp: l2 l3 split: option.splits if_splits)
  next
    case True
    then obtain n p name where a: "r1 = Some n" "\<not> (n = root_node s1 \<or> nd_mounted (nodes s1 n) \<noteq> None)"
      "r2 = Some (p, name)" "is_dir s2 p" "name \<noteq> []" "\<not> (is_dir s2 n \<and> vfs_is_ancestor s2 n p)" "r3 \<noteq> Some n" by blast
    note F = same_tree_frame [OF i3(1)] same_tree_frame [OF i2(1)]
    have n: "n < node_used s3" "n \<noteq> root_node s3" using i1(3) [OF a(1)] a(2) F by auto
    have p2: "p < node_used s2" using i2(3) [OF a(3)] .
    then have p: "p < node_used s3" "is_dir s3 p" using a(4) F by auto
    have "(p, n) \<notin> (up_rel s2)\<^sup>*"
      using a(4,6) is_ancestor_iff [OF i2(2) p2] non_dir_not_above [OF i2(2) p2] by blast
    then have np: "(p, n) \<notin> (up_rel s3)\<^sup>*" using same_tree_up_rel [OF i3(1)] by simp
    note c' = c [unfolded vfs_rename_def l1 l2 l3 a prod.case option.case Let_def add_named]
    have fin: "vfs_inv (add (set_node (leave_parent u n) n (\<lambda>x. x\<lparr>nd_name := cp name\<rparr>)) p n)"
      if "vfs_inv u" "node_used u = node_used s3" "root_node u = root_node s3" "is_dir u p" "up_rel u \<subseteq> up_rel s3" for u
      using that n p np rtrancl_mono [OF that(5)] by (intro move_inv [OF that(1) _ _ _ _ _ refl]) auto
    have ex: "vfs_inv u \<and> node_used u = node_used s3 \<and> root_node u = root_node s3 \<and> is_dir u p \<and> up_rel u \<subseteq> up_rel s3"
      if d: "drop_existing s3 r3 = Some u" for u
    proof (cases r3)
      case None
      then show ?thesis using d p i3(2) by (auto simp: drop_existing_def)
    next
      case (Some e)
      then obtain ep t where e: "nd_parent (nodes s3 e) = Some ep" "detach s3 ep e = Some t"
        "u = vfs_drop_link (clear_links t e) e"
        using d by (auto simp: drop_existing_def split: if_splits option.splits)
      note r = remove_spec [OF i3(2) i3(3) [OF Some] e(1,2)] and F = same_tree_frame [OF drop_link_tree [of "clear_links t e" e]]
      have "nd_parent (nodes t x) = nd_parent (nodes s3 x)" "nd_type (nodes t x) = nd_type (nodes s3 x)" for x
        using arg_cong [OF r(8) [of x], of nd_parent] arg_cong [OF r(8) [of x], of nd_type] by simp_all
      then show ?thesis
        using r(2,3,7) p same_tree_inv [OF drop_link_tree [of "clear_links t e" e]] unfolding e(3) up_rel_def F
        by (auto simp: clear_links_def is_dir_def split: if_splits)
    qed
    show ?thesis
      using c' a i3(2) ex fin by (auto split: if_splits option.splits)
  qed
qed

text \<open>Building up a tree: directories stay directories.\<close>

definition extends :: "vfs \<Rightarrow> vfs \<Rightarrow> bool" where
  "extends s t \<longleftrightarrow> vfs_inv t \<and> node_used s \<le> node_used t \<and> root_node t = root_node s
     \<and> (\<forall>d<node_used s. nd_type (nodes t d) = nd_type (nodes s d))"

lemma extends_refl [simp]: "vfs_inv s \<Longrightarrow> extends s s"
  by (simp add: extends_def)

lemma extends_trans: "extends s t \<Longrightarrow> extends t u \<Longrightarrow> extends s u"
  by (simp add: extends_def)

lemma extends_dir: "extends s t \<Longrightarrow> d < node_used s \<and> is_dir s d \<Longrightarrow> d < node_used t \<and> is_dir t d"
  by (auto simp: extends_def is_dir_def)

lemma same_tree_extends: "same_tree s t \<Longrightarrow> vfs_inv s \<Longrightarrow> extends s t"
  by (auto simp: extends_def same_tree_inv same_tree_frame)

lemma insert_node_extends:
  assumes inv: "vfs_inv s" and p: "p < node_used s \<and> is_dir s p" and n: "new_node s nm ty m = (Some x, s1)"
    and t: "same_tree s1 s2"
  shows "extends s (add s2 p x)" "x < node_used (add s2 p x) \<and> nd_type (nodes (add s2 p x) x) = ty"
proof -
  note N = new_node_spec [OF inv n] and A = insert_node_inv [OF inv conjunct1 [OF p] conjunct2 [OF p] n t]
  note F = same_tree_frame [OF t]
  show "extends s (add s2 p x)" using A(1,3) N(2,4,9) F by (auto simp: extends_def)
  show "x < node_used (add s2 p x) \<and> nd_type (nodes (add s2 p x) x) = ty" using A(2) N(11) F by auto
qed

lemma mkd_spec:
  assumes "vfs_inv s" "p < node_used s \<and> is_dir s p" "mkd s p n = (r, t)"
  shows "extends s t" "r = Some x \<Longrightarrow> x < node_used t \<and> is_dir t x"
proof -
  obtain y s1 where n: "new_node s n VFS_NODE_DIR (S_IFDIR OR 493) = (y, s1)" by fastforce
  have "extends s t \<and> (r = Some x \<longrightarrow> x < node_used t \<and> is_dir t x)"
  proof (cases y)
    case None
    then show ?thesis using assms n by (auto simp: mkd_def add_new_def dest: new_node_none)
  next
    case (Some z)
    then show ?thesis
      using assms n insert_node_extends [OF assms(1,2) n [unfolded Some] same_tree_refl]
      by (auto simp: mkd_def add_new_def is_dir_def)
  qed
  then show "extends s t" "r = Some x \<Longrightarrow> x < node_used t \<and> is_dir t x" by auto
qed

lemma mkf_extends:
  assumes "vfs_inv s" "p < node_used s \<and> is_dir s p"
  shows "extends s (snd (mkf s p n t))"
proof -
  have "extends s (add_new s1 p x)" if "new_node s n t m = (x, s1)" for m x s1
    using that assms insert_node_extends(1) [OF assms _ same_tree_refl]
    by (cases x) (auto simp: add_new_def dest: new_node_none)
  then show ?thesis by (simp add: mkf_def Let_def split: prod.split)
qed

lemma mkl_extends:
  assumes "vfs_inv s" "p < node_used s \<and> is_dir s p"
  shows "extends s (snd (mkl s p n t))"
proof -
  have tr: "same_tree s1 (set_node s1 i (\<lambda>nd. nd\<lparr>nd_link_target := Some t\<rparr>))" for s1 i by (rule same_tree_set_node) simp_all
  obtain x s1 where "new_node s n VFS_NODE_SYMLINK (S_IFLNK OR 511) = (x, s1)" by fastforce
  then show ?thesis
    using assms insert_node_extends(1) [OF assms _ tr] by (cases x) (auto simp: mkl_def dest: new_node_none)
qed

lemma fold_extends:
  assumes "\<And>a s. vfs_inv s \<Longrightarrow> p < node_used s \<and> is_dir s p \<Longrightarrow> extends s (f a s)"
  shows "vfs_inv s \<Longrightarrow> p < node_used s \<and> is_dir s p \<Longrightarrow> extends s (fold f as s)"
proof (induction as arbitrary: s)
  case (Cons a as)
  have e: "extends s (f a s)" using assms Cons.prems by blast
  then have "vfs_inv (f a s)" by (simp add: extends_def)
  then have "extends (f a s) (fold f as (f a s))" using Cons.IH extends_dir [OF e Cons.prems(2)] by blast
  then show ?case using extends_trans [OF e] by simp
qed simp

lemma mkfs_extends: "vfs_inv s \<Longrightarrow> p < node_used s \<and> is_dir s p \<Longrightarrow> extends s (mkfs p fs s)"
  unfolding mkfs_def by (rule fold_extends) (auto simp: mkf_extends)

lemma mkls_extends: "vfs_inv s \<Longrightarrow> p < node_used s \<and> is_dir s p \<Longrightarrow> extends s (mkls p ls s)"
  unfolding mkls_def by (rule fold_extends) (auto simp: mkl_extends)

lemma ensure_one_inv:
  assumes "vfs_inv s"
  shows "vfs_inv (snd (ensure_one s cur))"
proof -
  obtain r1 s1 where l1: "vfs_lookup s cur = (r1, s1)" by fastforce
  note i1 = lookup_spec(2) [OF assms l1]
  obtain r2 s2 where l2: "vfs_mkdir s1 cur 493 = (r2, s2)" by fastforce
  note i2 = mkdir_spec(1) [OF i1 l2]
  obtain r3 s3 where l3: "vfs_lookup s2 cur = (r3, s3)" by fastforce
  note i3 = lookup_spec(2) [OF i2 l3]
  show ?thesis using i1 i2 i3 by (simp add: ensure_one_def l1 l2 l3 split: option.split)
qed

lemma ensure_loop_inv: "vfs_inv s \<Longrightarrow> vfs_inv (snd (ensure_loop s cur p))"
proof (induction s cur p rule: ensure_loop.induct)
  case (1 s cur p)
  have "vfs_inv t" if "ensure_one s c = (b, t)" for c b t
    using ensure_one_inv [OF 1(2), of c] that by simp
  then show ?case
    using 1 by (subst ensure_loop.simps) (auto simp: Let_def split: option.split prod.split bool.split)
qed

lemma ensure_dir_inv: "vfs_inv s \<Longrightarrow> vfs_ensure_dir s path = (r, s') \<Longrightarrow> vfs_inv s'"
  using ensure_loop_inv [of s "''/''" "tl path"] lookup_spec(2)
  unfolding vfs_ensure_dir_def by (auto split: if_splits prod.splits bool.splits option.splits) blast+

lemma import_loop_inv:
  "vfs_inv s \<Longrightarrow> parent < node_used s \<and> is_dir s parent \<Longrightarrow> vfs_inv (snd (import_loop s path sz parent p))"
proof (induction s path sz parent p rule: import_loop.induct)
  case (1 s path sz parent p)
  show ?case
  proof (cases "next_part p")
    case None
    then show ?thesis using 1 by (simp add: import_loop.simps [of s])
  next
    case (Some pr)
    obtain full rest0 where pr: "pr = (full, rest0)" by (cases pr)
    let ?part = "take 31 full" and ?rest = "dropWhile (\<lambda>c. c = slash) rest0"
    obtain child s1 where l: "vfs_lookup_child s parent ?part = (child, s1)" by fastforce
    have st: "same_tree s s1" and cu: "\<And>x. child = Some x \<Longrightarrow> x < node_used s"
      using lookup_child_spec [OF 1(2) conjunct1 [OF 1(3)] l] by auto
    note F = same_tree_frame [OF st]
    have i1: "vfs_inv s1" "parent < node_used s1 \<and> is_dir s1 parent" using 1(2,3) same_tree_inv [OF st] F by auto
    obtain c s2 where m: "(case child of Some c \<Rightarrow> (Some c, s1) | None \<Rightarrow> mkd s1 parent ?part) = (c, s2)" by fastforce
    have i2: "vfs_inv s2" "\<And>x. c = Some x \<Longrightarrow> x < node_used s2"
      using m i1 cu F mkd_spec [OF i1] by (auto simp: extends_def split: option.splits)
    show ?thesis
    proof (cases "?rest = []")
      case False
      then have "import_loop s path sz parent p = (case c of None \<Rightarrow> (-1, s2)
          | Some c \<Rightarrow> if \<not> is_dir s2 c then (-1, s2) else import_loop s2 path sz c ?rest)"
        using m by (simp add: import_loop.simps [of s] Some pr l Let_def split: option.split)
      then show ?thesis
        using i2 1(1) [OF Some pr [symmetric] refl refl refl l [symmetric] False m [symmetric]]
        by (auto split: option.split)
    next
      case True
      obtain x s3 where n: "new_node s1 ?part VFS_NODE_BOOT_FILE (S_IFREG OR 292) = (x, s3)" by fastforce
      have t: "same_tree u (set_node u y (\<lambda>x. x\<lparr>nd_size := sz, nd_capacity := sz, nd_boot_path := q\<rparr>))"
        "same_tree u (set_node u y (\<lambda>x. x\<lparr>nd_data := None, nd_size := sz, nd_capacity := sz, nd_boot_path := q\<rparr>))" for u y q
        by (rule same_tree_set_node; simp)+
      have ins: "vfs_inv (add (set_node s3 y (\<lambda>x. x\<lparr>nd_data := None, nd_size := sz, nd_capacity := sz, nd_boot_path := q\<rparr>)) parent y)"
        if "x = Some y" for y q
        using insert_node_inv(1) [OF i1(1) conjunct1 [OF i1(2)] conjunct2 [OF i1(2)] n [unfolded that] t(2)] .
      have "s3 = s1" if "x = None" using n that by (auto dest: new_node_none)
      then show ?thesis
        using True i1(1) n ins same_tree_inv [OF t(1)]
        by (auto simp: import_loop.simps [of s] Some pr l Let_def split: option.split)
    qed
  qed
qed

lemma import_boot_file_inv: "vfs_inv s \<Longrightarrow> vfs_inv (snd (vfs_import_boot_file s path sz))"
  unfolding vfs_import_boot_file_def using import_loop_inv vfs_invD(2,3) by auto


section \<open>Mounting and initialisation\<close>

text \<open>A node outside every list may name any directory that is not below it as its parent.\<close>

lemma set_parent_inv:
  assumes inv: "vfs_inv s" and x: "x < node_used s" "x \<noteq> root_node s" "detached s x"
    and p: "p < node_used s" "is_dir s p" "(p, x) \<notin> (up_rel s)\<^sup>*"
  shows "vfs_inv (set_node s x (\<lambda>n. n\<lparr>nd_parent := Some p\<rparr>))"
proof -
  let ?t = "set_node s x (\<lambda>n. n\<lparr>nd_parent := Some p\<rparr>)"
  note I = vfs_invD [OF inv]
  have d: "is_dir ?t = is_dir s" by (auto simp: is_dir_def fun_eq_iff)
  have nx: "nd_next (nodes ?t y) = nd_next (nodes s y)" "nd_children (nodes ?t y) = nd_children (nodes s y)" for y by simp_all
  have "vfs_inv ?t \<and> (\<forall>d<node_used ?t. children_of ?t d = children_of s d)"
  proof (rule vfs_invI, unfold set_node_frame d)
    show "dir_ok ?t d (children_of s d)" if "d < node_used s" for d
      using I(5) [OF that] x(3) that is_list_cong [of "children_of s d" ?t s, OF nx(1)]
      unfolding dir_ok_def nx by (auto simp: detached_def)
    show "rooted ?t y" if "y < node_used s" for y
      using rooted_reparent [of x ?t s p, OF _ _ I(7) [OF p(1)] p(3) I(7) [OF that]] by simp
    show "nd_parent (nodes ?t (root_node s)) = None" using I(4) x(2) by simp
    show "q < node_used s \<and> is_dir s q" if "y < node_used s" "nd_parent (nodes ?t y) = Some q" for y q
      using that I(8) p by (auto split: if_splits)
  qed (fact I)+
  then show ?thesis by simp
qed

lemma set_mount_root_inv: "vfs_inv s \<Longrightarrow> r < node_used s \<Longrightarrow> vfs_inv (set_mount_root s m r)"
  using vfs_invD(9) [of s] by - (rule agree_inv [of s], auto simp: set_mount_root_def split: if_splits)

lemma mount_root_node_spec:
  assumes inv: "vfs_inv s" and mp: "mp < node_used s \<and> is_dir s mp" and r: "mount_root_node s nm mp m = (r, t)"
  shows "extends s t" "r = Some x \<Longrightarrow> x < node_used t \<and> is_dir t x"
proof -
  obtain y s1 where n: "new_node s nm VFS_NODE_DIR (S_IFDIR OR 493) = (y, s1)" by fastforce
  have "extends s t \<and> (r = Some x \<longrightarrow> x < node_used t \<and> is_dir t x)"
  proof (cases y)
    case None
    then show ?thesis using r n inv by (auto simp: mount_root_node_def dest: new_node_none)
  next
    case (Some z)
    note N = new_node_spec [OF inv n [unfolded Some]]
    let ?u = "set_node s1 z (\<lambda>n. n\<lparr>nd_parent := Some mp\<rparr>)"
    have md: "is_dir s1 mp" using mp N(2,9) by (simp add: is_dir_def)
    have "vfs_inv ?u"
      using N mp md vfs_invD(2) [OF inv] by (intro set_parent_inv) auto
    then have "vfs_inv (set_mount_root ?u m z)" using N(2,3) by (intro set_mount_root_inv) auto
    moreover have t: "t = set_mount_root ?u m z" "r = Some z" using r n Some by (auto simp: mount_root_node_def)
    ultimately show ?thesis
      using N(2-4,9,11) by (auto simp: extends_def set_mount_root_def is_dir_def)
  qed
  then show "extends s t" "r = Some x \<Longrightarrow> x < node_used t \<and> is_dir t x" by auto
qed

lemma set_mode_extends: "vfs_inv s \<Longrightarrow> extends s (set_mode n m s)"
  by (auto simp: set_mode_def intro!: same_tree_extends same_tree_set_node)

lemma with_dir_extends:
  assumes "vfs_inv s" "p < node_used s \<and> is_dir s p"
    and f: "\<And>d t. vfs_inv t \<Longrightarrow> d < node_used t \<and> is_dir t d \<Longrightarrow> p < node_used t \<and> is_dir t p \<Longrightarrow> extends t (f d t)"
  shows "extends s (with_dir p n f s)"
proof -
  obtain r t where m: "mkd s p n = (r, t)" by fastforce
  note k = mkd_spec [OF assms(1,2) m]
  have "extends t (f d t)" if "r = Some d" for d
    using k(1) k(2) [OF that] extends_dir [OF k(1) assms(2)] by (intro f) (auto simp: extends_def)
  then show ?thesis using k(1) extends_trans [OF k(1)] by (auto simp: with_dir_def m split: option.split)
qed

lemma mkd_only_extends: "vfs_inv s \<Longrightarrow> p < node_used s \<and> is_dir s p \<Longrightarrow> extends s (mkd_only p n s)"
  using mkd_spec(1) [of s p n "fst (mkd s p n)" "snd (mkd s p n)"] by (simp add: mkd_only_def)


lemma fold2_extends:
  assumes "\<And>a s. vfs_inv s \<Longrightarrow> p < node_used s \<and> is_dir s p \<Longrightarrow> q < node_used s \<and> is_dir s q \<Longrightarrow> extends s (f a s)"
  shows "vfs_inv s \<Longrightarrow> p < node_used s \<and> is_dir s p \<Longrightarrow> q < node_used s \<and> is_dir s q \<Longrightarrow> extends s (fold f as s)"
proof (induction as arbitrary: s)
  case (Cons a as)
  have e: "extends s (f a s)" using assms Cons.prems by blast
  then have "vfs_inv (f a s)" by (simp add: extends_def)
  then have "extends (f a s) (fold f as (f a s))"
    using Cons.IH extends_dir [OF e Cons.prems(2)] extends_dir [OF e Cons.prems(3)] by blast
  then show ?case using extends_trans [OF e] by simp
qed simp

text \<open>Sequencing of construction steps.\<close>

lemma extends_step:
  assumes "extends s t" "\<And>t. vfs_inv t \<Longrightarrow> extends s t \<Longrightarrow> extends t (f t)"
  shows "extends s (f t)"
  using assms extends_trans unfolding extends_def by blast

lemma extends_inv: "extends s t \<Longrightarrow> vfs_inv t"
  by (simp add: extends_def)

lemma dev_mount_extends:
  assumes inv: "vfs_inv s" and mp: "mp < node_used s \<and> is_dir s mp"
  shows "extends s (snd (dev_mount s mp m))"
proof -
  obtain r s1 where l: "mount_root_node s ''dev'' mp m = (r, s1)" by fastforce
  note e1 = mount_root_node_spec [OF inv mp l]
  show ?thesis
  proof (cases r)
    case None
    then show ?thesis using l e1(1) by (simp add: dev_mount_def)
  next
    case (Some r')
    note d1 = e1(2) [OF Some]
    let ?fs = "[(''null'', VFS_NODE_DEV_NULL), (''zero'', VFS_NODE_DEV_ZERO),
                  (''console'', VFS_NODE_DEV_CONSOLE), (''tty'', VFS_NODE_DEV_TTY),
                  (''random'', VFS_NODE_DEV_RANDOM), (''urandom'', VFS_NODE_DEV_URANDOM),
                  (''fb0'', VFS_NODE_DEV_FB)]"
    have e2: "extends s1 (mkfs r' ?fs s1)" by (rule mkfs_extends [OF extends_inv [OF e1(1)] d1])
    note d2 = extends_dir [OF e2 d1]
    obtain i s3 where l3: "mkd (mkfs r' ?fs s1) r' ''input'' = (i, s3)" by fastforce
    note e3 = mkd_spec [OF extends_inv [OF e2] d2 l3]
    note d3 = extends_dir [OF e3(1) d2]
    note e13 = extends_trans [OF extends_trans [OF e1(1) e2] e3(1)]
    show ?thesis
    proof (cases i)
      case None
      then show ?thesis using l Some l3 e13 by (simp add: dev_mount_def)
    next
      case i: (Some i')
      note d4 = e3(2) [OF i]
      let ?s4 = "mkfs i' [(''event0'', VFS_NODE_DEV_INPUT), (''event1'', VFS_NODE_DEV_INPUT_MOUSE)] s3"
      have e4: "extends s3 ?s4" by (rule mkfs_extends [OF extends_inv [OF e3(1)] d4])
      have e5: "extends ?s4 (mkls r' [(''stdin'', ''/dev/tty''), (''stdout'', ''/dev/console''), (''stderr'', ''/dev/console'')] ?s4)"
        by (rule mkls_extends [OF extends_inv [OF e4] extends_dir [OF e4 d3]])
      show ?thesis using l Some l3 i extends_trans [OF e13 extends_trans [OF e4 e5]] by (simp add: dev_mount_def)
    qed
  qed
qed


text \<open>The files of procfs, once its four directories are there.\<close>

lemma proc_files_extends:
  assumes inv: "vfs_inv s" and d: "r < node_used s \<and> is_dir s r" "self < node_used s \<and> is_dir s self"
    "pid < node_used s \<and> is_dir s pid" "sfd < node_used s \<and> is_dir s sfd" "pfd < node_used s \<and> is_dir s pfd"
  shows "extends s (fold (\<lambda>(q, t) s. mkls pfd [(q, t)] (mkls sfd [(q, t)] s)) qs
    (mkls pid ls (mkls self ls (fold (\<lambda>n s. mkfs pid [(n, VFS_NODE_PROC_FILE)] (mkfs self [(n, VFS_NODE_PROC_FILE)] s)) ns
       (mkfs r fs s)))))"
proof -
  have two: "extends t (mkls b k (mkls a l t))" "extends t (mkfs b k' (mkfs a l' t))"
    if "vfs_inv t" "a < node_used t \<and> is_dir t a" "b < node_used t \<and> is_dir t b" for t a b k l k' l'
  proof -
    note e = mkls_extends [OF that(1,2), of l] mkfs_extends [OF that(1,2), of l']
    show "extends t (mkls b k (mkls a l t))" "extends t (mkfs b k' (mkfs a l' t))"
      using mkls_extends [OF extends_inv [OF e(1)] extends_dir [OF e(1) that(3)], of k]
        mkfs_extends [OF extends_inv [OF e(2)] extends_dir [OF e(2) that(3)], of k'] extends_trans [OF e(1)] extends_trans [OF e(2)]
      by blast+
  qed
  let ?s1 = "mkfs r fs s"
  have e1: "extends s ?s1" by (rule mkfs_extends [OF inv d(1)])
  let ?s2 = "fold (\<lambda>n s. mkfs pid [(n, VFS_NODE_PROC_FILE)] (mkfs self [(n, VFS_NODE_PROC_FILE)] s)) ns ?s1"
  have e2: "extends ?s1 ?s2"
    by (rule fold2_extends [where p = self and q = pid, OF _ extends_inv [OF e1] extends_dir [OF e1 d(2)] extends_dir [OF e1 d(3)]])
      (rule two(2))
  note e12 = extends_trans [OF e1 e2]
  have e3: "extends ?s2 (mkls pid ls (mkls self ls ?s2))"
    by (rule two(1) [OF extends_inv [OF e12] extends_dir [OF e12 d(2)] extends_dir [OF e12 d(3)]])
  note e13 = extends_trans [OF e12 e3]
  have "extends (mkls pid ls (mkls self ls ?s2)) (fold (\<lambda>(q, t) s. mkls pfd [(q, t)] (mkls sfd [(q, t)] s)) qs (mkls pid ls (mkls self ls ?s2)))"
    by (rule fold2_extends [where p = sfd and q = pfd, OF _ extends_inv [OF e13] extends_dir [OF e13 d(4)] extends_dir [OF e13 d(5)]])
      (auto intro: two(1))
  then show ?thesis by (rule extends_trans [OF e13])
qed

lemma proc_mount_extends:
  assumes inv: "vfs_inv s" and mp: "mp < node_used s \<and> is_dir s mp"
  shows "extends s (snd (proc_mount s mp m))"
proof -
  obtain r s1 where l1: "mount_root_node s ''proc'' mp m = (r, s1)" by fastforce
  note e1 = mount_root_node_spec [OF inv mp l1]
  show ?thesis
  proof (cases r)
    case None
    then show ?thesis using l1 e1(1) by (simp add: proc_mount_def)
  next
    case r: (Some r')
    obtain self s2 where l2: "mkd s1 r' ''self'' = (self, s2)" by fastforce
    note e2 = mkd_spec [OF extends_inv [OF e1(1)] e1(2) [OF r] l2]
    note d2 = extends_dir [OF e2(1) e1(2) [OF r]]
    obtain pid s3 where l3: "mkd s2 r' ''1'' = (pid, s3)" by fastforce
    note e3 = mkd_spec [OF extends_inv [OF e2(1)] d2 l3] and e13 = extends_trans [OF e1(1) extends_trans [OF e2(1)]]
    show ?thesis
    proof (cases "\<exists>a b. self = Some a \<and> pid = Some b")
      case False
      then show ?thesis using l1 r l2 l3 e13 [OF e3(1)] by (auto simp: proc_mount_def split: option.splits)
    next
      case True
      then obtain a b where ab: "self = Some a" "pid = Some b" by blast
      have da: "a < node_used s3 \<and> is_dir s3 a" "b < node_used s3 \<and> is_dir s3 b"
        using extends_dir [OF e3(1) e2(2) [OF ab(1)]] e3(2) [OF ab(2)] .
      obtain sfd s4 where l4: "mkd s3 a ''fd'' = (sfd, s4)" by fastforce
      note e4 = mkd_spec [OF extends_inv [OF e3(1)] da(1) l4]
      obtain pfd s5 where l5: "mkd s4 b ''fd'' = (pfd, s5)" by fastforce
      note e5 = mkd_spec [OF extends_inv [OF e4(1)] extends_dir [OF e4(1) da(2)] l5]
      note e35 = extends_trans [OF e4(1) e5(1)] and e15 = e13 [OF extends_trans [OF e3(1) extends_trans [OF e4(1) e5(1)]]]
      show ?thesis
      proof (cases "\<exists>c d. sfd = Some c \<and> pfd = Some d")
        case False
        then show ?thesis using l1 r l2 l3 ab l4 l5 e15 by (auto simp: proc_mount_def split: option.splits)
      next
        case True
        then obtain c d where cd: "sfd = Some c" "pfd = Some d" by blast
        note f = proc_files_extends [OF extends_inv [OF e15] extends_dir [OF e35 extends_dir [OF e3(1) d2]]
            extends_dir [OF e35 da(1)] extends_dir [OF e35 da(2)] extends_dir [OF e5(1) e4(2) [OF cd(1)]] e5(2) [OF cd(2)]]
        show ?thesis using l1 r l2 l3 ab l4 l5 cd extends_trans [OF e15 f] by (simp add: proc_mount_def del: fold_Cons)
      qed
    qed
  qed
qed

lemma mount_fs_inv:
  assumes inv: "vfs_inv s"
  shows "vfs_inv (snd (vfs_mount_fs s name target))"
proof -
  obtain r s1 where l: "mountpoint s target = (r, s1)" by fastforce
  obtain r2 s2 where l2: "vfs_lookup s target = (r2, s2)" by fastforce
  have i: "vfs_inv s1" "\<And>x. r = Some x \<Longrightarrow> x < node_used s1"
    using l l2 inv lookup_spec(2,3) [OF inv l2] vfs_invD(2) [OF inv] by (auto simp: mountpoint_def split: if_splits)
  have nm: "vfs_inv (s\<lparr>mount_used := k, mounts := (mounts s)(j := \<lparr>mt_fs_name = a, mt_mountpoint = b, mt_root = None\<rparr>)\<rparr>)"
    if "vfs_inv s" for s :: vfs and k j a b
    using that vfs_invD(9) [OF that] by - (rule agree_inv [of s], auto split: if_splits)
  have sm: "vfs_inv (set_node s mp (\<lambda>n. n\<lparr>nd_mounted := Some k\<rparr>))" if "vfs_inv s" for s mp k
    using that vfs_invD(9) [OF that] by - (rule agree_inv [of s], auto)
  have mu: "vfs_inv (s\<lparr>mount_used := k\<rparr>)" if "vfs_inv s" for s :: vfs and k
    using that vfs_invD(9) [OF that] by - (rule agree_inv [of s], auto)
  have cm: "vfs_inv (snd (call_mount k t mp j))" if "vfs_inv t" "mp < node_used t" "is_dir t mp" for k t mp j
    using that extends_inv [OF proc_mount_extends [of t mp j]] extends_inv [OF dev_mount_extends [of t mp j]]
    by (auto simp: call_mount_def split: fs_kind.split)
  have step: "vfs_inv t" if "is_dir s1 mp" "r = Some mp"
      "call_mount k (s1\<lparr>mount_used := u, mounts := (mounts s1)(j := \<lparr>mt_fs_name = a, mt_mountpoint = mp, mt_root = None\<rparr>)\<rparr>) mp j = (q, t)"
    for mp k u j a q t
    using cm [where k = k and mp = mp and j = j, OF nm [where k = u and j = j and a = a and b = mp, OF i(1)]] i(2) [OF that(2)] that
    by (simp add: is_dir_def)
  show ?thesis
    using i(1) step sm mu inv unfolding vfs_mount_fs_def l
    by (auto simp: Let_def is_dir_def split: if_splits option.split prod.split)
qed


lemma write_loop_tree: "same_tree s (write_loop s d off bs)"
proof (induction s d off bs rule: write_loop.induct)
  case (2 s d off b bs)
  have "same_tree s (set_data_byte s d off b)"
    by (auto simp: set_data_byte_def same_tree_def split: option.split file_data.split)
  then show ?case using 2 by (auto intro: same_tree_trans)
qed simp

lemma set_size_tree: "same_tree s (set_node s n (\<lambda>x. x\<lparr>nd_size := k\<rparr>))"
  by (rule same_tree_set_node) simp_all

lemma file_ops_tree:
  "same_tree s (snd (vfs_file_truncate s n len))" "same_tree s (snd (vfs_write_kernel_file s n data len))"
  "same_tree s (snd (vfs_file_write s n off src len))"
proof -
  note t = same_tree_trans [OF write_loop_tree set_size_tree] and t2 = same_tree_trans [OF same_tree_trans [OF write_loop_tree set_size_tree] set_size_tree]
  show "same_tree s (snd (vfs_file_truncate s n len))"
    using t set_size_tree by (auto simp: vfs_file_truncate_def Let_def)
  show "same_tree s (snd (vfs_write_kernel_file s n data len))"
    using t2 by (auto simp: vfs_write_kernel_file_def Let_def)
  show "same_tree s (snd (vfs_file_write s n off src len))"
    using t t2 by (auto simp: vfs_file_write_def Let_def)
qed

lemma register_inv: "vfs_inv s \<Longrightarrow> vfs_inv (snd (vfs_register_filesystem s f))"
  using vfs_invD(9) [of s] by - (rule agree_inv [of s], auto simp: vfs_register_filesystem_def split: if_splits)

lemma create_with_inv:
  assumes "vfs_inv s" shows "vfs_inv (create_with path text s)"
proof -
  obtain r t where c: "vfs_create_file s path False = (r, t)" by fastforce
  then show ?thesis
    using create_file_inv [OF assms c] same_tree_inv [OF file_ops_tree(2)] by (simp add: create_with_def split: option.split)
qed

lemma root_state_inv:
  assumes "node_used s = 1" "root_node s = 0" "nd_type (nodes s 0) = VFS_NODE_DIR" "nd_parent (nodes s 0) = None"
    "nd_children (nodes s 0) = None" "\<And>m. mt_root (mounts s m) = None"
  shows "vfs_inv s"
proof -
  have "vfs_inv s \<and> (\<forall>d<node_used s. children_of s d = [])"
  proof (rule vfs_invI, unfold assms(1,2))
    show "dir_ok s d []" if "d < 1" for d using that assms(5) by (simp add: dir_ok_def)
    show "rooted s x" if "x < 1" for x using that assms(4) by (auto intro: rooted.top)
  qed (use assms in \<open>simp_all add: is_dir_def\<close>)
  then show ?thesis by simp
qed

lemma root_ok: "vfs_inv t \<Longrightarrow> root_node t = r \<Longrightarrow> r < node_used t \<and> is_dir t r"
  using vfs_invD(2,3) by auto

definition based :: "nat \<Rightarrow> vfs \<Rightarrow> bool" where
  "based r t \<longleftrightarrow> vfs_inv t \<and> root_node t = r"

lemma based_mkd: "based r t \<Longrightarrow> based r (mkd_only r n t)"
  using mkd_only_extends [of t r n] root_ok by (auto simp: based_def extends_def)

lemma based_with:
  assumes "based r t" "\<And>d u. vfs_inv u \<Longrightarrow> d < node_used u \<and> is_dir u d \<Longrightarrow> extends u (f d u)"
  shows "based r (with_dir r n f t)"
  using with_dir_extends [of t r f n] root_ok assms by (auto simp: based_def extends_def)

lemma init_dirs_extend:
  "vfs_inv u \<Longrightarrow> d < node_used u \<and> is_dir u d \<Longrightarrow>
     extends u (let s = set_mode d m u in with_dir d n (\<lambda>xd. set_mode xd m') s)"
  "vfs_inv u \<Longrightarrow> d < node_used u \<and> is_dir u d \<Longrightarrow>
     extends u (let s = with_dir d n (\<lambda>l. set_mode l m) u in with_dir d n' (\<lambda>v. with_dir v n'' (\<lambda>x. set_mode x m')) s)"
  "vfs_inv u \<Longrightarrow> d < node_used u \<and> is_dir u d \<Longrightarrow>
     extends u (with_dir d a1 (\<lambda>x. with_dir x a2 (\<lambda>x. with_dir x a3 (\<lambda>x. with_dir x a4 (\<lambda>x. mkls x ls)))) u)"
proof -
  assume u: "vfs_inv u" and d: "d < node_used u \<and> is_dir u d"
  have sm: "extends v (with_dir c n (\<lambda>xd. set_mode xd m') v)" if "vfs_inv v" "c < node_used v \<and> is_dir v c" for v c n m'
    using that by (rule with_dir_extends) (rule set_mode_extends)
  note e = set_mode_extends [OF u, of d m]
  show "extends u (let s = set_mode d m u in with_dir d n (\<lambda>xd. set_mode xd m') s)"
    using extends_trans [OF e sm [OF extends_inv [OF e] extends_dir [OF e d]]] by simp
  note e = sm [OF u d, of n m]
  have "extends v (with_dir c n' (\<lambda>v. with_dir v n'' (\<lambda>x. set_mode x m')) v)" if "vfs_inv v" "c < node_used v \<and> is_dir v c" for v c
    using that by (rule with_dir_extends) (rule sm)
  from extends_trans [OF e this [OF extends_inv [OF e] extends_dir [OF e d]]]
  show "extends u (let s = with_dir d n (\<lambda>l. set_mode l m) u in with_dir d n' (\<lambda>v. with_dir v n'' (\<lambda>x. set_mode x m')) s)"
    by simp
  show "extends u (with_dir d a1 (\<lambda>x. with_dir x a2 (\<lambda>x. with_dir x a3 (\<lambda>x. with_dir x a4 (\<lambda>x. mkls x ls)))) u)"
    using u d by (intro with_dir_extends mkls_extends)
qed

lemma vfs_init_inv: "vfs_inv (vfs_init s)"
proof -
  let ?s0 = "s\<lparr>node_used := 0, mount_used := 0, filesystems := [], next_ino := 1, vfs_data_used := (\<lambda>_. False),
            mounts := (\<lambda>_. \<lparr>mt_fs_name = [], mt_mountpoint = 0, mt_root = None\<rparr>)\<rparr>"
  have n: "fst (new_node ?s0 [] VFS_NODE_DIR (S_IFDIR OR 493)) = Some 0" by (simp add: new_node_def Let_def)
  let ?s1 = "(snd (new_node ?s0 [] VFS_NODE_DIR (S_IFDIR OR 493)))\<lparr>root_node := 0\<rparr>"
  have "vfs_inv ?s1" by (rule root_state_inv) (simp_all add: new_node_def Let_def)
  then have c1: "based 0 ?s1" by (simp add: based_def)
  have bi: "based 0 t \<Longrightarrow> vfs_inv t" for t by (simp add: based_def)
  show ?thesis
    unfolding vfs_init_def Let_def case_prod_beta n option.sel
    by (intro mount_fs_inv register_inv create_with_inv, rule bi,
        intro based_with based_mkd c1 init_dirs_extend [unfolded Let_def])
qed


section \<open>Reachable file systems\<close>

text \<open>The calls that the kernel makes after \<^verbatim>\<open>vfs_init\<close>, with any arguments.\<close>

inductive vfs_step :: "vfs \<Rightarrow> vfs \<Rightarrow> bool" where
  step_lookup: "vfs_step s (snd (vfs_lookup s p))"
| step_create: "vfs_step s (snd (vfs_create_file s p tr))"
| step_socket: "vfs_step s (snd (vfs_create_socket s p m))"
| step_mkdir: "vfs_step s (snd (vfs_mkdir s p m))"
| step_ensure: "vfs_step s (snd (vfs_ensure_dir s p))"
| step_link: "vfs_step s (snd (vfs_link s p q))"
| step_unlink: "vfs_step s (snd (vfs_unlink s p))"
| step_rmdir: "vfs_step s (snd (vfs_rmdir s p))"
| step_rename: "vfs_step s (snd (vfs_rename s p q))"
| step_truncate: "vfs_step s (snd (vfs_file_truncate s n len))"
| step_kernel_write: "vfs_step s (snd (vfs_write_kernel_file s n bs len))"
| step_write: "vfs_step s (snd (vfs_file_write s n off src len))"
| step_import: "vfs_step s (snd (vfs_import_boot_file s p sz))"
| step_register: "vfs_step s (snd (vfs_register_filesystem s f))"
| step_mount: "vfs_step s (snd (vfs_mount_fs s fs p))"

inductive vfs_reachable :: "vfs \<Rightarrow> bool" where
  init: "vfs_reachable (vfs_init s)"
| step: "vfs_reachable s \<Longrightarrow> vfs_step s t \<Longrightarrow> vfs_reachable t"

inductive_cases vfs_stepE: "vfs_step s t"

lemma vfs_step_inv: "vfs_inv s \<Longrightarrow> vfs_step s t \<Longrightarrow> vfs_inv t"
  by (erule vfs_stepE)
    (simp_all add: mount_fs_inv register_inv import_boot_file_inv same_tree_inv [OF file_ops_tree(1)]
      same_tree_inv [OF file_ops_tree(2)] same_tree_inv [OF file_ops_tree(3)],
     auto intro: lookup_spec(2) [OF _ surjective_pairing] create_file_inv [OF _ surjective_pairing]
      create_socket_inv [OF _ surjective_pairing] mkdir_spec(1) [OF _ surjective_pairing]
      ensure_dir_inv [OF _ surjective_pairing] link_inv [OF _ surjective_pairing] unlink_inv [OF _ surjective_pairing]
      rmdir_inv [OF _ surjective_pairing] rename_inv [OF _ surjective_pairing])

lemma vfs_reachable_inv: "vfs_reachable s \<Longrightarrow> vfs_inv s"
  by (induction rule: vfs_reachable.induct) (auto intro: vfs_init_inv vfs_step_inv)

end
