(* ===== verification/Vfs_Spec.thy ===== *)
theory Vfs_Spec
  imports Vfs_Tree "HOL-Library.Multiset"
begin

text \<open>
  What the file system guarantees: the directory tree of every reachable state, the sorted
  listing of a directory, the contents of a file after a write, and the decimal numbers of procfs.
\<close>

section \<open>The insertion sort of \<^verbatim>\<open>vfs_list_dir\<close>\<close>

lemma shift_loop_spec:
  "j < length items \<Longrightarrow> shift_loop cmp items v j = (items', k) \<Longrightarrow>
     k \<le> j \<and> items'[k := v] = take k items @ v # drop k (take j items) @ drop (Suc j) items
     \<and> (\<forall>m. k \<le> m \<longrightarrow> m < j \<longrightarrow> cmp (items ! m) v > 0) \<and> (0 < k \<longrightarrow> \<not> cmp (items ! (k - 1)) v > 0)"
proof (induction j arbitrary: items)
  case 0
  then show ?case by (auto simp: upd_conv_take_nth_drop)
next
  case (Suc j)
  show ?case
  proof (cases "cmp (items ! j) v > 0")
    case False
    then show ?thesis using Suc.prems by (auto simp: upd_conv_take_nth_drop)
  next
    case True
    let ?i = "items[Suc j := items ! j]"
    have "shift_loop cmp ?i v j = (items', k)" using Suc.prems(2) True by simp
    then have IH: "k \<le> j" "items'[k := v] = take k ?i @ v # drop k (take j ?i) @ drop (Suc j) ?i"
      "\<forall>m. k \<le> m \<longrightarrow> m < j \<longrightarrow> cmp (?i ! m) v > 0" "0 < k \<longrightarrow> \<not> cmp (?i ! (k - 1)) v > 0"
      using Suc.IH [of ?i] Suc.prems(1) by auto
    have t: "take k ?i = take k items" "take j ?i = take j items" using IH(1) by simp_all
    have d: "drop (Suc j) ?i = items ! j # drop (Suc (Suc j)) items"
      using Suc.prems(1) by (metis Cons_nth_drop_Suc drop_update_cancel length_list_update lessI nth_list_update_eq)
    have dk: "drop k (take (Suc j) items) = drop k (take j items) @ [items ! j]"
      using IH(1) Suc.prems(1) by (simp add: take_Suc_conv_app_nth)
    have "cmp (items ! m) v > 0" if "k \<le> m" "m < Suc j" for m
      using that IH(3) True by (cases "m = j") auto
    moreover have "0 < k \<longrightarrow> \<not> cmp (items ! (k - 1)) v > 0" using IH(1,4) by auto
    ultimately show ?thesis using IH(1,2) t d dk by simp
  qed
qed

lemma sort_step_spec:
  assumes i: "i < length xs" and s: "sorted_wrt (\<lambda>a b. cmp a b \<le> 0) (take i xs)"
    and tr: "\<And>a b c. cmp a b \<le> 0 \<Longrightarrow> cmp b c \<le> 0 \<Longrightarrow> cmp a c \<le> 0" and anti: "\<And>a b. cmp b a = - cmp a b"
  shows "sorted_wrt (\<lambda>a b. cmp a b \<le> 0) (take (Suc i) (sort_step cmp i xs))" "mset (sort_step cmp i xs) = mset xs"
    "length (sort_step cmp i xs) = length xs"
proof -
  obtain ys k where e: "shift_loop cmp xs (xs ! i) i = (ys, k)" by fastforce
  note S = shift_loop_spec [OF i e]
  let ?v = "xs ! i"
  have k: "k \<le> i" and r: "sort_step cmp i xs = take k xs @ ?v # drop k (take i xs) @ drop (Suc i) xs"
    using S e by (auto simp: sort_step_def)
  have sp: "take i xs = take k xs @ drop k (take i xs)" using k by (metis append_take_drop_id min.absorb1 take_take)
  have xs: "xs = take i xs @ ?v # drop (Suc i) xs" using i by (rule id_take_nth_drop)
  show "mset (sort_step cmp i xs) = mset xs"
    using arg_cong [OF xs, of mset] arg_cong [OF sp, of mset] unfolding r by simp
  then show "length (sort_step cmp i xs) = length xs" by (rule mset_eq_length)
  have tk: "take (Suc i) (sort_step cmp i xs) = take k xs @ ?v # drop k (take i xs)"
    using k i by (simp add: r Suc_diff_le)
  have hi: "cmp ?v b \<le> 0" if "b \<in> set (drop k (take i xs))" for b
  proof -
    obtain q where q: "q < length (drop k (take i xs))" "b = drop k (take i xs) ! q"
      using \<open>b \<in> _\<close> by (metis in_set_conv_nth)
    then have m: "k + q < i" "b = xs ! (k + q)" using k i by auto
    have "cmp (xs ! (k + q)) ?v > 0" using S m(1) le_add1 by blast
    then show ?thesis using m(2) anti [of "xs ! (k + q)" ?v] by simp
  qed
  have ss: "sorted_wrt (\<lambda>a b. cmp a b \<le> 0) (take k xs @ drop k (take i xs))"
    using s by (rule subst [OF sp])
  have sk: "sorted_wrt (\<lambda>a b. cmp a b \<le> 0) (take k xs)" "sorted_wrt (\<lambda>a b. cmp a b \<le> 0) (drop k (take i xs))"
    "\<forall>a\<in>set (take k xs). \<forall>b\<in>set (drop k (take i xs)). cmp a b \<le> 0"
    using iffD1 [OF sorted_wrt_append ss] by blast+
  have lo: "cmp a ?v \<le> 0" if a: "a \<in> set (take k xs)" for a
  proof -
    have "k > 0" using that by (cases k) auto
    then have l: "cmp (xs ! (k - 1)) ?v \<le> 0" using conjunct2 [OF conjunct2 [OF conjunct2 [OF S]]] not_le by blast
    obtain m where "m < length (take k xs)" "a = take k xs ! m" using a by (metis in_set_conv_nth)
    then have m: "m < k" "a = xs ! m" by simp_all
    have "cmp a (xs ! (k - 1)) \<le> 0 \<or> m = k - 1"
    proof (cases "m = k - 1")
      case False
      then have "m < k - 1" "k - 1 < length (take k xs)" using m(1) k i by auto
      from sorted_wrt_nth_less [OF sk(1) this] show ?thesis using m by simp
    qed simp
    then show ?thesis
    proof
      assume "cmp a (xs ! (k - 1)) \<le> 0"
      then show ?thesis using l by (rule tr)
    next
      assume "m = k - 1"
      then show ?thesis using l m(2) by simp
    qed
  qed
  show "sorted_wrt (\<lambda>a b. cmp a b \<le> 0) (take (Suc i) (sort_step cmp i xs))"
    unfolding tk sorted_wrt_append sorted_wrt.simps using sk hi lo by auto
qed


lemma sort_items_upto:
  assumes tr: "\<And>a b c. cmp a b \<le> 0 \<Longrightarrow> cmp b c \<le> 0 \<Longrightarrow> cmp a c \<le> 0" and anti: "\<And>a b. cmp b a = - cmp a b"
    and n: "n \<le> length xs"
  shows "mset (fold (sort_step cmp) [1..<n] xs) = mset xs
    \<and> sorted_wrt (\<lambda>a b. cmp a b \<le> 0) (take n (fold (sort_step cmp) [1..<n] xs))"
  using n
proof (induction n)
  case (Suc n)
  let ?f = "fold (sort_step cmp) [1..<n] xs"
  show ?case
  proof (cases "n = 0")
    case True
    then show ?thesis by (cases xs) auto
  next
    case False
    have IH: "mset ?f = mset xs" "sorted_wrt (\<lambda>a b. cmp a b \<le> 0) (take n ?f)" using Suc by auto
    have l: "n < length ?f" using mset_eq_length [OF IH(1)] Suc.prems by simp
    have e: "fold (sort_step cmp) [1..<Suc n] xs = sort_step cmp n ?f" using False by simp
    show ?thesis unfolding e using sort_step_spec [OF l IH(2) tr anti] IH(1) by simp
  qed
qed simp

lemma sort_items_spec:
  assumes tr: "\<And>a b c. cmp a b \<le> 0 \<Longrightarrow> cmp b c \<le> 0 \<Longrightarrow> cmp a c \<le> 0" and anti: "\<And>a b. cmp b a = - cmp a b"
  shows "mset (sort_items cmp xs) = mset xs" "sorted_wrt (\<lambda>a b. cmp a b \<le> 0) (sort_items cmp xs)"
proof -
  have u: "mset (sort_items cmp xs) = mset xs
    \<and> sorted_wrt (\<lambda>a b. cmp a b \<le> 0) (take (length xs) (sort_items cmp xs))"
    unfolding sort_items_def by (rule sort_items_upto) (fact tr anti order_refl)+
  then show m: "mset (sort_items cmp xs) = mset xs" by simp
  show "sorted_wrt (\<lambda>a b. cmp a b \<le> 0) (sort_items cmp xs)" using u mset_eq_length [OF m] by simp
qed

lemma name_cmp_anti: "name_cmp b a = - name_cmp a b"
  by (induction a b rule: name_cmp.induct) auto

lemma name_cmp_trans: "name_cmp a b \<le> 0 \<Longrightarrow> name_cmp b c \<le> 0 \<Longrightarrow> name_cmp a c \<le> 0"
proof (induction a b arbitrary: c rule: name_cmp.induct)
  case (1 x xs y ys)
  then show ?case by (cases c) (auto split: if_splits)
next
  case 2
  then show ?case by simp
next
  case (3 x xs)
  then show ?case by simp
next
  case (4 y ys)
  then show ?case by (cases c) auto
qed

lemma list_items_spec:
  "mset (list_items s d) = mset (take VFS_MAX_NODES (filter (\<lambda>x. nd_name (nodes s x) \<noteq> []) (children_of s d)))"
  "sorted_wrt (\<lambda>a b. name_cmp (nd_name (nodes s a)) (nd_name (nodes s b)) \<le> 0) (list_items s d)"
proof -
  have tr: "vfs_name_cmp s a b \<le> 0 \<Longrightarrow> vfs_name_cmp s b c \<le> 0 \<Longrightarrow> vfs_name_cmp s a c \<le> 0" for a b c
    unfolding vfs_name_cmp_def by (rule name_cmp_trans)
  have anti: "vfs_name_cmp s b a = - vfs_name_cmp s a b" for a b
    unfolding vfs_name_cmp_def by (rule name_cmp_anti)
  show "mset (list_items s d) = mset (take VFS_MAX_NODES (filter (\<lambda>x. nd_name (nodes s x) \<noteq> []) (children_of s d)))"
    unfolding list_items_def by (rule sort_items_spec(1) [OF tr anti])
  show "sorted_wrt (\<lambda>a b. name_cmp (nd_name (nodes s a)) (nd_name (nodes s b)) \<le> 0) (list_items s d)"
    using sort_items_spec(2) [where cmp = "vfs_name_cmp s", OF tr anti] unfolding list_items_def vfs_name_cmp_def by simp
qed

section \<open>File contents\<close>

text \<open>The bytes of a regular file: those of its inode, up to its size.\<close>

definition file_bytes :: "vfs \<Rightarrow> nat \<Rightarrow> u8 list" where
  "file_bytes s n = map (data_byte s (nd_data (nodes s (inode_of s n)))) [0..<unat (nd_size (nodes s (inode_of s n)))]"

lemma write_loop_bytes:
  "data_byte (write_loop s d off bs) d' j =
     (if d' = d \<and> d \<noteq> None \<and> off \<le> j \<and> j < off + length bs then bs ! (j - off) else data_byte s d' j)"
proof (induction s d off bs rule: write_loop.induct)
  case (2 s d off b bs)
  have "data_byte (set_data_byte s d off b) d' j = (if d' = d \<and> d \<noteq> None \<and> j = off then b else data_byte s d' j)"
    by (auto simp: data_byte_def set_data_byte_def split: option.split file_data.split)
  note b1 = this
  have e: "data_byte (write_loop s d off (b # bs)) d' j =
      (if d' = d \<and> d \<noteq> None \<and> Suc off \<le> j \<and> j < Suc off + length bs then bs ! (j - Suc off)
       else if d' = d \<and> d \<noteq> None \<and> j = off then b else data_byte s d' j)"
    using 2 b1 by (simp only: write_loop.simps Suc_eq_plus1)
  show ?case
  proof (cases "j \<le> off")
    case True
    then show ?thesis unfolding e by auto
  next
    case False
    then obtain q where q: "j - off = Suc q" "j = off + Suc q" by (metis Suc_diff_Suc add_diff_inverse_nat less_imp_le not_le)
    then show ?thesis unfolding e by (cases d) simp_all
  qed
qed auto

lemma write_loop_frame [simp, frame_simps]:
  "nodes (write_loop s d off bs) = nodes s" "node_used (write_loop s d off bs) = node_used s"
  "vfs_data_used (write_loop s d off bs) = vfs_data_used s" "root_node (write_loop s d off bs) = root_node s"
  by (induction s d off bs rule: write_loop.induct)
    (auto simp: set_data_byte_def split: option.split file_data.split)


section \<open>Output of bounded length\<close>

lemma out_ch_take: "0 < cap \<Longrightarrow> length out < cap \<Longrightarrow> vfs_out_ch cap out c = take (cap - 1) (out @ [c])"
  by (auto simp: vfs_out_ch_def)

lemma foldl_bounded:
  assumes "\<And>out c. length out < cap \<Longrightarrow> f out c = (if length out + 1 < cap then out @ [c] else out)" "length out < cap"
  shows "foldl f out cs = take (cap - 1) (out @ cs)"
  using assms(2)
proof (induction cs arbitrary: out)
  case (Cons c cs)
  have "length (f out c) < cap" using assms(1) [OF Cons.prems] Cons.prems by simp
  note IH = Cons.IH [OF this]
  show ?case
  proof (cases "length out + 1 < cap")
    case True
    then show ?thesis using IH assms(1) [OF Cons.prems] by simp
  next
    case False
    then have "length out = cap - 1" using Cons.prems by simp
    then show ?thesis using IH assms(1) [OF Cons.prems] False by simp
  qed
qed simp

lemma out_str_take: "length out < cap \<Longrightarrow> vfs_out_str cap out cs = take (cap - 1) (out @ cs)"
  unfolding vfs_out_str_def by (rule foldl_bounded) (simp_all add: vfs_out_ch_def)

lemma take_append_take: "take k (take k a @ b) = take k (a @ b)"
  by (cases "length a \<le> k") simp_all

text \<open>The line of the listing for a node: its name, a mark for its type, a newline.\<close>

definition entry_line :: "vfs \<Rightarrow> nat \<Rightarrow> string" where
  "entry_line s x = nd_name (nodes s x)
     @ (if nd_type (nodes s x) = VFS_NODE_DIR then [slash] else if nd_type (nodes s x) = VFS_NODE_SYMLINK then ''@'' else [])
     @ [newline]"

lemma list_entry_take:
  assumes "0 < cap"
  shows "list_entry s cap x (take (cap - 1) out) = take (cap - 1) (out @ entry_line s x)"
proof -
  have l: "length (take (cap - 1) w) < cap" for w :: string using assms by simp
  have c: "vfs_out_ch cap (take (cap - 1) w) ch = take (cap - 1) (w @ [ch])" for w ch
    unfolding out_ch_take [OF assms l] by (rule take_append_take)
  have o: "vfs_out_str cap (take (cap - 1) w) cs = take (cap - 1) (w @ cs)" for w cs
    unfolding out_str_take [OF l] by (rule take_append_take)
  show ?thesis by (simp add: list_entry_def entry_line_def Let_def o [unfolded One_nat_def] c [unfolded One_nat_def] del: take_append)
qed

lemma list_entries_take:
  "0 < cap \<Longrightarrow> fold (list_entry s cap) xs (take (cap - 1) out) = take (cap - 1) (out @ concat (map (entry_line s) xs))"
  by (induction xs arbitrary: out) (simp_all add: list_entry_take [unfolded One_nat_def] del: take_append)

section \<open>Decimal numbers\<close>

text \<open>The number a digit string stands for.\<close>

definition decimal :: "string \<Rightarrow> nat" where
  "decimal = foldl (\<lambda>a c. 10 * a + (of_char c - 48)) 0"

definition is_digit :: "char \<Rightarrow> bool" where
  "is_digit c \<longleftrightarrow> 48 \<le> (of_char c :: nat) \<and> of_char c \<le> (57 :: nat)"

lemma of_char_digit: "d < 10 \<Longrightarrow> of_char (char_of (48 + d :: nat)) = (48 + d :: nat)"
  by simp

lemma decimal_snoc: "decimal (xs @ [c]) = 10 * decimal xs + (of_char c - 48)"
  by (simp add: decimal_def)

lemma digit_loop_decimal:
  "unat v < 10 ^ k \<Longrightarrow> decimal (rev (digit_loop k v)) = unat v \<and> (\<forall>c\<in>set (digit_loop k v). is_digit c)
     \<and> (v \<noteq> 0 \<longrightarrow> digit_loop k v \<noteq> [] \<and> last (digit_loop k v) \<noteq> CHR ''0'')"
proof (induction k arbitrary: v)
  case 0
  then show ?case by (simp add: decimal_def unat_eq_zero)
next
  case (Suc k)
  have q: "unat (v div 10) = unat v div 10" "unat (v mod 10) = unat v mod 10" by (simp_all add: unat_div unat_mod)
  then have IH: "decimal (rev (digit_loop k (v div 10))) = unat v div 10" "\<forall>c\<in>set (digit_loop k (v div 10)). is_digit c"
    "v div 10 \<noteq> 0 \<longrightarrow> digit_loop k (v div 10) \<noteq> [] \<and> last (digit_loop k (v div 10)) \<noteq> CHR ''0''"
    using Suc.IH [of "v div 10"] Suc.prems by simp_all
  define d where "d = unat v mod 10"
  have d: "d < 10" by (simp add: d_def)
  show ?case
  proof (cases "v = 0")
    case False
    have e: "digit_loop (Suc k) v = char_of (48 + d) # digit_loop k (v div 10)" using False q by (simp add: d_def)
    have z: "digit_loop k 0 = []" by (cases k) simp_all
    have "last (digit_loop (Suc k) v) \<noteq> CHR ''0''"
    proof (cases "v div 10 = 0")
      case True
      then have "unat v div 10 = 0" using q(1) by simp
      then have "d \<noteq> 0" using False by (auto simp: d_def unat_eq_zero dvd_eq_mod_eq_0 [symmetric] div_eq_0_iff)
      then have "(of_char (char_of (48 + d :: nat)) :: nat) \<noteq> of_char (CHR ''0'')" using d by simp
      then have "char_of (48 + d) \<noteq> CHR ''0''" by metis
      then show ?thesis unfolding e using True z by simp
    next
      case False
      then show ?thesis unfolding e using IH(3) by simp
    qed
    moreover have "decimal (rev (digit_loop (Suc k) v)) = unat v"
      unfolding e using IH(1) d by (simp add: decimal_snoc d_def)
    moreover have "is_digit (char_of (48 + d :: nat))" using d by (simp add: is_digit_def)
    ultimately show ?thesis unfolding e using IH(2) by simp
  qed (simp add: decimal_def)
qed

section \<open>Properties\<close>

text \<open>
  C17. In every file system that the kernel can reach from \<^verbatim>\<open>vfs_init\<close> by the
  operations of \<^verbatim>\<open>vfs.c\<close>, the nodes form a forest: the list of children of a
  directory ends and has no duplicates, each child names the directory as its parent, only
  directories have children, and no node is its own ancestor. In particular
  \<^verbatim>\<open>vfs_rename\<close> never moves a directory below itself and
  \<^verbatim>\<open>vfs_unlink\<close> never leaves a removed node in a list.
\<close>

theorem vfs_tree:
  assumes "vfs_reachable s" "d < node_used s"
  shows "distinct (children_of s d) \<and> set (children_of s d) \<subseteq> {c. c < node_used s \<and> nd_parent (nodes s c) = Some d}
    \<and> (children_of s d \<noteq> [] \<longrightarrow> nd_type (nodes s d) = VFS_NODE_DIR) \<and> (d, d) \<notin> {(x, p). nd_parent (nodes s x) = Some p}\<^sup>+"
proof -
  note I = vfs_invD [OF vfs_reachable_inv [OF assms(1)]]
  have u: "{(x, p). nd_parent (nodes s x) = Some p} = up_rel s" by auto
  show ?thesis
    using I(5) [OF assms(2)] I(6) [OF assms(2)] rooted_acyclic [OF I(7) [OF assms(2)]]
    unfolding u by (auto simp: dir_ok_def is_dir_def)
qed

definition zero_vfs :: vfs where
  "zero_vfs = \<lparr>nodes = (\<lambda>_. \<lparr>nd_name = [], nd_ino = 0, nd_mode = 0, nd_type = VFS_NODE_DIR, nd_parent = None,
      nd_children = None, nd_next = None, nd_mounted = None, nd_link_target = None, nd_boot_path = [], nd_data = None,
      nd_size = 0, nd_capacity = 0, nd_nlink = 0, nd_inode_owner = None\<rparr>),
     node_used = 0, next_ino = 0, vfs_data_pool = (\<lambda>_ _. 0), vfs_data_used = (\<lambda>_. False), vfs_xorg_log_data = (\<lambda>_. 0),
     mounts = (\<lambda>_. \<lparr>mt_fs_name = [], mt_mountpoint = 0, mt_root = None\<rparr>), mount_used = 0, filesystems = [], root_node = 0\<rparr>"

theorem vfs_tree_witness:
  "distinct (children_of (snd (vfs_mkdir (vfs_init zero_vfs) ''/a'' 0)) (root_node (snd (vfs_mkdir (vfs_init zero_vfs) ''/a'' 0))))"
proof -
  have r: "vfs_reachable (snd (vfs_mkdir (vfs_init zero_vfs) ''/a'' 0))"
    by (rule vfs_reachable.step [OF vfs_reachable.init step_mkdir])
  show ?thesis using vfs_tree [OF r vfs_invD(2) [OF vfs_reachable_inv [OF r]]] by blast
qed

text \<open>
  C18. \<^verbatim>\<open>vfs_list_dir\<close> lists a directory: for a path that names a directory, the
  text is the lines of its children that have a name, each once, in the order of their names
  without regard to case, cut to the capacity of the buffer less the terminating zero.
\<close>

theorem list_dir_sorted:
  assumes "vfs_reachable s" "hd path = slash" "path \<noteq> []" "length path < VFS_PATH_MAX" "0 < cap"
    "vfs_lookup s (strip_slashes path) = (Some d, s')" "nd_type (nodes s' d) = VFS_NODE_DIR"
  shows "\<exists>xs. mset xs = mset (filter (\<lambda>x. nd_name (nodes s' x) \<noteq> []) (children_of s' d))
    \<and> sorted_wrt (\<lambda>a b. name_cmp (nd_name (nodes s' a)) (nd_name (nodes s' b)) \<le> 0) xs
    \<and> vfs_list_dir s (Some path) cap = (take (cap - 1) (concat (map (entry_line s') xs)), s')"
proof (intro exI conjI)
  note inv = vfs_reachable_inv [OF assms(1)]
  note L = lookup_spec [OF inv assms(6)]
  have c: "dir_ok s' d (children_of s' d)" "node_used s' \<le> VFS_MAX_NODES" using L vfs_invD(1,5) by auto
  then have "length (children_of s' d) \<le> node_used s'" by (auto simp: dir_ok_def intro: distinct_bounded_length)
  then have "length (filter (\<lambda>x. nd_name (nodes s' x) \<noteq> []) (children_of s' d)) \<le> VFS_MAX_NODES"
    using c(2) length_filter_le order_trans by metis
  then show "mset (list_items s' d) = mset (filter (\<lambda>x. nd_name (nodes s' x) \<noteq> []) (children_of s' d))"
    using list_items_spec(1) [of s' d] by simp
  show "sorted_wrt (\<lambda>a b. name_cmp (nd_name (nodes s' a)) (nd_name (nodes s' b)) \<le> 0) (list_items s' d)"
    by (rule list_items_spec(2))
  show "vfs_list_dir s (Some path) cap = (take (cap - 1) (concat (map (entry_line s') (list_items s' d))), s')"
    using assms list_entries_take [OF assms(5), of s' "list_items s' d" "[]"]
    by (simp add: vfs_list_dir_def is_dir_def)
qed

theorem list_dir_sorted_witness:
  "\<exists>xs. mset xs = mset (filter (\<lambda>x. nd_name (nodes (vfs_init zero_vfs) x) \<noteq> [])
        (children_of (vfs_init zero_vfs) (root_node (vfs_init zero_vfs))))
    \<and> fst (vfs_list_dir (vfs_init zero_vfs) (Some ''/'') 100) = take 99 (concat (map (entry_line (vfs_init zero_vfs)) xs))"
proof -
  let ?s = "vfs_init zero_vfs"
  have r: "vfs_reachable ?s" by (rule vfs_reachable.init)
  have z: "strip_slashes ''/'' = ''/''" by (simp add: strip_slashes.simps)
  have l: "vfs_lookup ?s (strip_slashes ''/'') = (Some (root_node ?s), ?s)"
    unfolding z by (simp add: vfs_lookup_def lookup_loop.simps next_part_def)
  show ?thesis
    using list_dir_sorted [OF r _ _ _ _ l, of 100] vfs_invD(3) [OF vfs_reachable_inv [OF r]] by (auto simp: is_dir_def)
qed

text \<open>
  \<^verbatim>\<open>vfs_file_write\<close> at an offset within a regular file writes as many bytes
  as fit below the capacity of the inode and returns that number: the old bytes outside the
  written range stay, the size grows only when the end of the write is past it, and a file
  whose data lies elsewhere keeps its contents.
\<close>

theorem file_write_bytes:
  assumes reg: "vfs_file_is_regular s (Some n)" and src: "length bs = unat len"
    and cap: "off < nd_capacity (nodes s (inode_of s n))" "nd_capacity (nodes s (inode_of s n)) \<le> VFS_DATA_SLOT_SIZE"
    and inn: "off \<le> nd_size (nodes s (inode_of s n))" "inode_of s (inode_of s n) = inode_of s n"
    and data: "nd_data (nodes s (inode_of s n)) \<noteq> None"
    and res: "vfs_file_write s (Some n) off (Some bs) len = (w, t)"
  shows "w = min (uint len) (uint (nd_capacity (nodes s (inode_of s n)) - off))
    \<and> file_bytes t n = take (unat off) (file_bytes s n) @ take (nat w) bs @ drop (unat off + nat w) (file_bytes s n)
    \<and> (\<forall>m. inode_of s m \<noteq> inode_of s n \<and> inode_of s m \<noteq> n
          \<and> nd_data (nodes s (inode_of s m)) \<noteq> nd_data (nodes s (inode_of s n)) \<longrightarrow> file_bytes t m = file_bytes s m)"
proof -
  define i where "i = inode_of s n"
  define v where "v = (if len < nd_capacity (nodes s i) - off then len else nd_capacity (nodes s i) - off)"
  define k where "k = unat v"
  let ?D = "nd_data (nodes s i)" and ?sz = "nd_size (nodes s i)"
  have room: "unat (nd_capacity (nodes s i) - off) = unat (nd_capacity (nodes s i)) - unat off"
    using cap(1) by (simp add: i_def unat_sub less_imp_le)
  have c: "unat (nd_capacity (nodes s i)) \<le> 65536" "unat off < unat (nd_capacity (nodes s i))"
    using cap by (simp_all add: i_def word_le_nat_alt word_less_nat_alt)
  have k: "k = min (unat len) (unat (nd_capacity (nodes s i)) - unat off)" "k \<le> length bs"
    using room src by (auto simp: k_def v_def word_less_nat_alt)
  have "unat off + k < 18446744073709551616" using k(1) c by simp
  then have ow: "unat (off + v) = unat off + k"
    using unat_add_lem [of off v] by (simp add: k_def)
  have "\<not> nd_capacity (nodes s i) \<le> off" using cap(1) by (simp add: i_def)
  then have wt: "(w, t) = (uint v, set_node (if off + v > ?sz then set_node (write_loop s ?D (unat off) (take k bs)) i (\<lambda>x. x\<lparr>nd_size := off + v\<rparr>)
        else write_loop s ?D (unat off) (take k bs)) n (\<lambda>x. x\<lparr>nd_size := if off + v > ?sz then off + v else ?sz\<rparr>))"
    using reg unfolding res [symmetric]
    by (simp add: vfs_file_write_def i_def [symmetric] v_def [symmetric] k_def [symmetric] Let_def)
  then have wm: "w = min (uint len) (uint (nd_capacity (nodes s i) - off))" by (simp add: v_def min_def word_less_def)
  have w: "w = int k" using wt unfolding k_def uint_nat [symmetric] by simp
  have t: "t = set_node (if off + v > ?sz then set_node (write_loop s ?D (unat off) (take k bs)) i (\<lambda>x. x\<lparr>nd_size := off + v\<rparr>)
        else write_loop s ?D (unat off) (take k bs)) n (\<lambda>x. x\<lparr>nd_size := if off + v > ?sz then off + v else ?sz\<rparr>)"
    using wt by simp
  have io: "inode_of t m = inode_of s m" "nd_data (nodes t m) = nd_data (nodes s m)" for m
    by (simp_all add: t inode_of_def)
  have dt: "data_byte t d j = (if d = ?D \<and> unat off \<le> j \<and> j < unat off + k then bs ! (j - unat off) else data_byte s d j)" for d j
    using data k(2) write_loop_bytes [of s ?D "unat off" "take k bs" d j]
    by (auto simp: t i_def set_node_def data_byte_def split: option.split file_data.split)
  have sz: "unat (nd_size (nodes t i)) = max (unat ?sz) (unat off + k)"
    using ow by (auto simp: t word_less_nat_alt)
  have fb: "file_bytes t n = take (unat off) (file_bytes s n) @ take k bs @ drop (unat off + k) (file_bytes s n)"
  proof (rule nth_equalityI)
    have "unat off \<le> unat ?sz" using inn(1) by (simp add: i_def word_le_nat_alt)
    then show "length (file_bytes t n) = length (take (unat off) (file_bytes s n) @ take k bs @ drop (unat off + k) (file_bytes s n))"
      using sz k(2) io by (simp add: file_bytes_def i_def)
    fix j assume j: "j < length (file_bytes t n)"
    then have "file_bytes t n ! j = data_byte t ?D j" by (simp add: file_bytes_def io i_def)
    then show "file_bytes t n ! j = (take (unat off) (file_bytes s n) @ take k bs @ drop (unat off + k) (file_bytes s n)) ! j"
      using j sz k(2) \<open>unat off \<le> unat ?sz\<close> unfolding dt
      by (auto simp: file_bytes_def i_def nth_append io)
  qed
  have fr: "file_bytes t m = file_bytes s m" if "inode_of s m \<noteq> i" "inode_of s m \<noteq> n" "nd_data (nodes s (inode_of s m)) \<noteq> ?D" for m
  proof -
    have "nd_size (nodes t (inode_of s m)) = nd_size (nodes s (inode_of s m))" using that by (simp add: t)
    then show ?thesis using that by (simp add: file_bytes_def io dt)
  qed
  show ?thesis
    using fb fr wm nat_int [of k] unfolding i_def w [symmetric] by simp
qed

theorem file_write_bytes_witness:
  "file_bytes (snd (vfs_file_write (zero_vfs\<lparr>nodes := (nodes zero_vfs)(3 := (nodes zero_vfs 3)\<lparr>nd_type := VFS_NODE_FILE,
      nd_data := Some (Slot 0), nd_size := 2, nd_capacity := 3\<rparr>)\<rparr>) (Some 3) 1 (Some [7, 8, 9]) 3)) 3 = [0, 7, 8]"
proof -
  let ?s = "zero_vfs\<lparr>nodes := (nodes zero_vfs)(3 := (nodes zero_vfs 3)\<lparr>nd_type := VFS_NODE_FILE,
      nd_data := Some (Slot 0), nd_size := 2, nd_capacity := 3\<rparr>)\<rparr>"
  have i: "inode_of ?s 3 = 3" unfolding inode_of_def zero_vfs_def by simp
  have f: "file_bytes ?s 3 = [0, 0]" unfolding file_bytes_def i by (simp add: data_byte_def zero_vfs_def upt_rec)
  obtain w t where wt: "vfs_file_write ?s (Some 3) 1 (Some [7, 8, 9]) 3 = (w, t)" by fastforce
  have "vfs_file_is_regular ?s (Some 3)" by (simp add: vfs_file_is_regular_def)
  from file_write_bytes [OF this _ _ _ _ _ _ wt] have
    "w = 2 \<and> file_bytes t 3 = take 1 [0, 0] @ take (nat w) [7, 8, 9] @ drop (1 + nat w) [0, 0]"
    by (simp add: i f)
  then show ?thesis unfolding wt by auto
qed

text \<open>
  \<^verbatim>\<open>proc_put_u64\<close> appends the decimal digits of its argument, without a
  leading zero, and never writes past the buffer.
\<close>

theorem put_u64_decimal:
  assumes "length out < cap"
  shows "\<exists>ds. proc_put_u64 cap out v = take (cap - 1) (out @ ds) \<and> decimal ds = unat v
    \<and> (\<forall>c\<in>set ds. is_digit c) \<and> ds \<noteq> [] \<and> (hd ds = CHR ''0'' \<longrightarrow> ds = ''0'')"
proof (cases "v = 0")
  case True
  then show ?thesis
    using assms by (intro exI [of _ "''0''"]) (simp add: proc_put_u64_def proc_putc_def decimal_def is_digit_def)
next
  case False
  have "unat v < 10 ^ 32" using unsigned_less [of v, where ?'a = nat] by simp
  note D = digit_loop_decimal [OF this]
  have "proc_put_u64 cap out v = take (cap - 1) (out @ rev (digit_loop 32 v))"
    using False unfolding proc_put_u64_def by (simp only: if_False) (rule foldl_bounded [OF _ assms], simp add: proc_putc_def)
  then show ?thesis using D False by (intro exI [of _ "rev (digit_loop 32 v)"]) (simp add: hd_rev)
qed

theorem put_u64_decimal_witness: "\<exists>ds. proc_put_u64 4 ''ab'' 907 = take 3 (''ab'' @ ds) \<and> decimal ds = 907"
  using put_u64_decimal [of "''ab''" 4 907] by auto

end
