(* ===== verification/Mmap_Spec.thy ===== *)
theory Mmap_Spec
  imports Mmap_Inv Task_Spec Vfs_Spec
begin

text \<open>
  What the memory system calls guarantee, on top of the ownership invariant: where
  \<^verbatim>\<open>mmap\<close> places a mapping, which pages each call maps and unmaps, and that a call that
  fails leaves the mappings as they were.
\<close>

section \<open>Ranges of pages\<close>

lemma page_up_aligned [simp]: "page_aligned (page_up x)"
  unfolding page_up_def by (rule page_aligned_and_not)

lemma page_up_dvd: "4096 dvd unat (page_up x)"
  using page_up_aligned page_aligned_iff_dvd by blast

lemma unat_page_i:
  assumes "unat base + unat sz \<le> 140737488355328" "i < unat sz div 4096"
  shows "unat (base + of_nat i * (0x1000 :: u64)) = unat base + 4096 * i"
proof -
  have i: "4096 * i < unat sz" using assms(2) by auto
  have "unat (of_nat i * 0x1000 :: u64) = 4096 * i"
    using i assms(1) by (simp add: unat_word_ariths unat_of_nat take_bit_nat_eq_self)
  then show ?thesis using i assms(1) unat_add_lem [of base "of_nat i * (0x1000 :: u64)"] by simp
qed

lemma pages_spec:
  assumes b: "page_aligned base" and d: "4096 dvd unat sz" and u: "unat base + unat sz \<le> 140737488355328"
  shows "va \<in> set (pages base sz) \<longleftrightarrow> user_page va \<and> unat base \<le> unat va \<and> unat va < unat base + unat sz"
    "distinct (pages base sz)"
proof -
  note e = unat_page_i [OF u]
  obtain a where a: "unat base = 4096 * a" using b by (auto simp: page_aligned_iff_dvd elim: dvdE)
  show "va \<in> set (pages base sz) \<longleftrightarrow> user_page va \<and> unat base \<le> unat va \<and> unat va < unat base + unat sz"
  proof
    assume "va \<in> set (pages base sz)"
    then obtain i where i: "i < unat sz div 4096" "va = base + of_nat i * 0x1000" by (auto simp: pages_def)
    have v: "unat va = unat base + 4096 * i" using e [OF i(1)] i(2) by simp
    have "4096 * i + 4096 \<le> unat sz" using i(1) d by auto
    then show "user_page va \<and> unat base \<le> unat va \<and> unat va < unat base + unat sz"
      using v u a by (auto simp: user_page_def canonical_user_def word_less_nat_alt page_aligned_iff_dvd)
  next
    assume v: "user_page va \<and> unat base \<le> unat va \<and> unat va < unat base + unat sz"
    then obtain c where c: "unat va = 4096 * c" by (auto simp: user_page_def page_aligned_iff_dvd elim: dvdE)
    obtain z where z: "unat sz = 4096 * z" using d by (auto elim: dvdE)
    have i: "c - a < unat sz div 4096" using v a c z by auto
    have "4096 * a + 4096 * (c - a) = 4096 * c" using v a c by auto
    then have "unat (base + of_nat (c - a) * 0x1000) = unat va" using e [OF i] a c by (simp only:)
    then have "va = base + of_nat (c - a) * 0x1000" by (metis word_unat_eq_iff)
    then show "va \<in> set (pages base sz)" using i by (auto simp: pages_def)
  qed
  have "inj_on (\<lambda>i. base + of_nat i * 0x1000) {0..<unat sz div 4096}"
  proof (rule inj_onI)
    fix i j assume ij: "i \<in> {0..<unat sz div 4096}" "j \<in> {0..<unat sz div 4096}"
      "base + of_nat i * 0x1000 = base + of_nat j * (0x1000 :: u64)"
    then have "unat base + 4096 * i = unat base + 4096 * j" using e [of i] e [of j] by (metis atLeastLessThan_iff)
    then show "i = j" by simp
  qed
  then show "distinct (pages base sz)" by (simp add: pages_def distinct_map)
qed

lemma range_unat:
  assumes "user_any_mapping_range_ok addr sz"
  shows "unat addr + unat sz \<le> 140737488355328" "0 < unat sz" "unat addr < 140737488355328"
proof -
  have "unat sz \<noteq> 0" using assms by (simp add: user_any_mapping_range_ok_def unat_eq_zero)
  then show "0 < unat sz" by simp
  show "unat addr + unat sz \<le> 140737488355328" "unat addr < 140737488355328"
    using assms by (auto simp: user_any_mapping_range_ok_def word_le_nat_alt word_less_nat_alt unat_sub)
qed

lemma mmap_range_any: "user_mmap_range_ok addr sz \<longleftrightarrow> user_any_mapping_range_ok addr sz \<and> USER_MMAP_MIN \<le> addr"
  by (auto simp: user_mmap_range_ok_def user_any_mapping_range_ok_def)

lemma user_entry_None: "user_entry v va = None \<longleftrightarrow> vmm_user_translate v va = None"
  by (simp add: user_entry_def)

lemma free_step:
  "free_loop v va lst \<longleftrightarrow> user_entry v va = None \<and>
     (va = lst \<or> \<not> va > USER_TOP - PAGE_SIZE \<and> free_loop v (va + PAGE_SIZE) lst)"
  by (subst free_loop.simps) (auto simp: user_entry_None split: option.splits)

lemma free_loop_iff:
  assumes "page_aligned va" "page_aligned lst" "va \<le> lst" "lst < USER_TOP"
  shows "free_loop v va lst \<longleftrightarrow> (\<forall>p. page_aligned p \<longrightarrow> va \<le> p \<longrightarrow> p \<le> lst \<longrightarrow> user_entry v p = None)"
  using assms
proof (induction "unat lst - unat va" arbitrary: va rule: less_induct)
  case less
  show ?case
  proof (cases "va = lst")
    case True
    then show ?thesis using less.prems(1) by (subst free_step) (auto dest: order_antisym)
  next
    case False
    then have lt: "va < lst" using less.prems(3) by simp
    note nx = page_next_no_wrap [OF less.prems(1,2) lt]
    have "\<not> va > USER_TOP - PAGE_SIZE" using nx(1,2) less.prems(4) by (simp add: word_less_nat_alt)
    moreover have "free_loop v (va + PAGE_SIZE) lst \<longleftrightarrow>
        (\<forall>p. page_aligned p \<longrightarrow> va + PAGE_SIZE \<le> p \<longrightarrow> p \<le> lst \<longrightarrow> user_entry v p = None)"
      using nx less.prems lt by (intro less.hyps) (auto simp: word_less_nat_alt)
    moreover have "va \<le> p \<longleftrightarrow> p = va \<or> va + PAGE_SIZE \<le> p" if "page_aligned p" for p
      using page_aligned_step [OF less.prems(1) that _ _ less.prems(2) lt] nx(5) by auto
    ultimately show ?thesis using False less.prems by (subst free_step) auto
  qed
qed

lemma last_page_bounds:
  assumes "user_any_mapping_range_ok base sz" "page_aligned base"
  shows "base \<le> last_page base sz" "last_page base sz < USER_TOP" "page_aligned (last_page base sz)"
    "\<And>p. page_aligned p \<Longrightarrow> p \<le> last_page base sz \<longleftrightarrow> unat p < unat base + unat sz"
proof -
  note r = range_unat [OF assms(1)]
  have u: "unat (base + sz - 1) = unat base + unat sz - 1"
    using r unat_add_lem [of base sz] unat_sub [of 1 "base + sz"] by (simp add: word_le_nat_alt)
  have l: "unat (last_page base sz) = unat base + unat sz - 1 - (unat base + unat sz - 1) mod 4096"
    unfolding last_page_def by (simp only: unat_and_not_4095 u)
  show al: "page_aligned (last_page base sz)" unfolding last_page_def by (rule page_aligned_and_not)
  show "last_page base sz < USER_TOP" using l r by (simp add: word_less_nat_alt)
  show p: "p \<le> last_page base sz \<longleftrightarrow> unat p < unat base + unat sz" if "page_aligned p" for p
  proof -
    obtain c where c: "unat p = 4096 * c" using \<open>page_aligned p\<close> by (auto simp: page_aligned_iff_dvd elim: dvdE)
    have "4096 * c \<le> m - m mod 4096 \<longleftrightarrow> 4096 * c \<le> m" for m :: nat
      unfolding minus_mod_eq_mult_div using div_le_mono [of "4096 * c" m 4096] by (auto intro: order_trans)
    then have "4096 * c \<le> unat (last_page base sz) \<longleftrightarrow> 4096 * c \<le> unat base + unat sz - 1" unfolding l by blast
    then show ?thesis using c r(2) by (auto simp: word_le_nat_alt)
  qed
  show "base \<le> last_page base sz" using p [OF assms(2)] r(2) by simp
qed

lemma range_free_iff:
  assumes "user_any_mapping_range_ok base sz" "page_aligned base"
  shows "free_loop v (base AND PAGE_MASK) (last_page base sz) \<longleftrightarrow>
    (\<forall>p. page_aligned p \<longrightarrow> unat base \<le> unat p \<longrightarrow> unat p < unat base + unat sz \<longrightarrow> user_entry v p = None)"
proof -
  note b = last_page_bounds [OF assms]
  show ?thesis
    unfolding page_aligned_id [OF assms(2)] free_loop_iff [OF assms(2) b(3,1,2)]
    using b(4) by (auto simp: word_le_nat_alt)
qed

section \<open>The search for a gap\<close>

text \<open>A place for a mapping: below the limit, unmapped, and clear of the heap.\<close>

definition suitable :: "vmm \<Rightarrow> u64 \<Rightarrow> u64 \<Rightarrow> u64 \<Rightarrow> bool" where
  "suitable v sz hend base \<longleftrightarrow> page_aligned base \<and> user_mmap_range_ok base sz
     \<and> (\<forall>p. user_page p \<longrightarrow> unat base \<le> unat p \<longrightarrow> unat p < unat base + unat sz \<longrightarrow> user_entry v p = None)
     \<and> (USER_HEAP_BASE < hend \<longrightarrow> page_up hend \<le> base)"

lemma in_range_user_page:
  assumes "user_any_mapping_range_ok base sz" "page_aligned p" "unat p < unat base + unat sz"
  shows "user_page p"
  using assms range_unat(1) [OF assms(1)] by (simp add: user_page_def canonical_user_def word_less_nat_alt)

lemma mmap_range_free_iff:
  assumes "user_mmap_range_ok base sz" "page_aligned base"
  shows "user_mmap_range_free v base sz \<longleftrightarrow>
    (\<forall>p. user_page p \<longrightarrow> unat base \<le> unat p \<longrightarrow> unat p < unat base + unat sz \<longrightarrow> user_entry v p = None)"
proof -
  have a: "user_any_mapping_range_ok base sz" using assms(1) mmap_range_any by blast
  have "user_mmap_range_free v base sz \<longleftrightarrow> free_loop v (base AND PAGE_MASK) (last_page base sz)"
    using assms(1) by (simp add: user_mmap_range_free_def last_page_def)
  then show ?thesis
    unfolding range_free_iff [OF a assms(2)] using in_range_user_page [OF a] by (auto simp: user_page_def)
qed

lemma probe_loop_hit:
  "unat probe + 4096 * n < 2 ^ 64 \<Longrightarrow> page_aligned probe \<Longrightarrow>
     page_aligned (probe_loop v probe n) \<and> (user_entry v (probe_loop v probe n) \<noteq> None
       \<or> (\<forall>p. page_aligned p \<longrightarrow> unat probe \<le> unat p \<longrightarrow> unat p \<le> unat probe + 4096 * n \<longrightarrow> user_entry v p = None))"
proof (induction n arbitrary: probe)
  case 0
  have "p = probe" if "unat probe \<le> unat p" "unat p \<le> unat probe + 4096 * 0" for p
    using that by (simp add: word_unat_eq_iff)
  then show ?case using 0(2) by auto
next
  case (Suc n)
  have u: "unat (probe + 0x1000) = unat probe + 4096" using unat_add_lem [of probe "0x1000"] Suc.prems(1) by simp
  then have al: "page_aligned (probe + 0x1000)" using Suc.prems(2) by (simp add: page_aligned_iff_dvd)
  show ?case
  proof (cases "user_entry v probe = None")
    case False
    then show ?thesis using Suc.prems(2) user_entry_None by auto
  next
    case True
    have IH: "page_aligned (probe_loop v (probe + 0x1000) n) \<and> (user_entry v (probe_loop v (probe + 0x1000) n) \<noteq> None
       \<or> (\<forall>p. page_aligned p \<longrightarrow> unat probe + 4096 \<le> unat p \<longrightarrow> unat p \<le> unat probe + 4096 + 4096 * n \<longrightarrow> user_entry v p = None))"
      using Suc.IH [OF _ al] Suc.prems(1) u by simp
    have "unat probe + 4096 \<le> unat p \<or> p = probe" if p: "page_aligned p" "unat probe \<le> unat p" for p
    proof -
      obtain a b where "unat p = 4096 * a" "unat probe = 4096 * b" using p(1) Suc.prems(2) by (auto simp: page_aligned_iff_dvd elim!: dvdE)
      then show ?thesis using p(2) by (auto simp: word_unat_eq_iff)
    qed
    then have "user_entry v p = None"
      if "\<forall>p. page_aligned p \<longrightarrow> unat probe + 4096 \<le> unat p \<longrightarrow> unat p \<le> unat probe + 4096 + 4096 * n \<longrightarrow> user_entry v p = None"
        "page_aligned p" "unat probe \<le> unat p" "unat p \<le> unat probe + 4096 * Suc n" for p
      using that True by fastforce
    moreover have "probe_loop v probe (Suc n) = probe_loop v (probe + 0x1000) n" using True user_entry_None by simp
    ultimately show ?thesis using IH by metis
  qed
qed

lemma suitable_mono:
  assumes "suitable v sz hend c" "base \<le> c" "USER_MMAP_MIN \<le> base"
  shows "user_mmap_range_ok base sz"
proof -
  have a: "user_any_mapping_range_ok c sz" "sz \<noteq> 0" using assms(1) by (auto simp: suitable_def mmap_range_any user_any_mapping_range_ok_def)
  have "unat base + unat sz \<le> 140737488355328" "unat base < 140737488355328"
    using range_unat [OF a(1)] assms(2) by (auto simp: word_le_nat_alt)
  then show ?thesis using assms(3) a(2)
    by (auto simp: user_mmap_range_ok_def word_le_nat_alt word_less_nat_alt unat_sub)
qed

lemma gap_base_props:
  assumes "page_aligned b"
  shows "page_aligned (gap_base b)" "b \<le> gap_base b" "USER_MMAP_MIN \<le> gap_base b"
  using assms by (auto simp: gap_base_def page_aligned_def)

lemma probe_spec:
  assumes ok: "user_mmap_range_ok base sz" "page_aligned base" and nf: "\<not> user_mmap_range_free v base sz"
  defines "q \<equiv> probe_loop v base (unat (last_page base sz - base) div 4096)"
  shows "page_aligned q" "user_entry v q \<noteq> None" "unat base \<le> unat q" "unat q < unat base + unat sz"
proof -
  note L = last_page_ge [OF ok]
  have lt: "unat base + 4096 * (unat (last_page base sz - base) div 4096) < 2 ^ 64" unfolding L(3) using unat_lt_64 by simp
  note B = probe_loop_bounds [OF lt, of v, folded q_def] and H = probe_loop_hit [OF lt ok(2), of v, folded q_def]
  show "page_aligned q" "unat base \<le> unat q" using B H by blast+
  show "unat q < unat base + unat sz" using B L by simp
  have a: "user_any_mapping_range_ok base sz" using ok(1) mmap_range_any by blast
  obtain p where p: "user_page p" "unat base \<le> unat p" "unat p < unat base + unat sz" "user_entry v p \<noteq> None"
    using nf mmap_range_free_iff [OF ok] by blast
  have "unat p \<le> unat (last_page base sz)"
    using last_page_bounds(4) [OF a ok(2), of p] p(1,3) by (simp add: user_page_def word_le_nat_alt)
  moreover have "page_aligned p" using p(1) by (simp add: user_page_def)
  ultimately have "\<not> (\<forall>p. page_aligned p \<longrightarrow> unat base \<le> unat p \<longrightarrow>
      unat p \<le> unat base + 4096 * (unat (last_page base sz - base) div 4096) \<longrightarrow> user_entry v p = None)"
    using p(2,4) unfolding L(3) by auto
  then show "user_entry v q \<noteq> None" using H by argo
qed

lemma gap_loop_sound: "gap_loop v sz hend b = Some base \<Longrightarrow> suitable v sz hend base \<and> b \<le> base"
proof (induction v sz hend b rule: gap_loop.induct)
  case (1 v sz hend b)
  let ?b = "gap_base b" and ?hp = "page_up hend"
  let ?q = "probe_loop v ?b (unat (last_page ?b sz - ?b) div 4096)"
  have al: "page_aligned b" and ok: "user_mmap_range_ok ?b sz"
    using 1(3) by (auto simp: gap_loop.simps [of v sz hend b] Let_def split: if_splits)
  note g = gap_base_props [OF al]
  have r: "unat ?b + unat sz \<le> 140737488355328" using ok range_unat(1) mmap_range_any by blast
  have big: "?b + sz > USER_HEAP_BASE"
    using g(3) r unat_add_lem [of ?b sz] by (simp add: word_le_nat_alt word_less_nat_alt)
  consider (heap) "hend > USER_HEAP_BASE" "?b < ?hp" | (free) "\<not> (hend > USER_HEAP_BASE \<and> ?b < ?hp)" "user_mmap_range_free v ?b sz"
    | (probe) "\<not> (hend > USER_HEAP_BASE \<and> ?b < ?hp)" "\<not> user_mmap_range_free v ?b sz" by blast
  then show ?case
  proof cases
    case heap
    then have "gap_loop v sz hend ?hp = Some base" using 1(3) al ok big by (simp add: gap_loop.simps [of v sz hend b] Let_def)
    then have "suitable v sz hend base \<and> ?hp \<le> base" using 1(1) [OF _ refl _ refl] al ok heap big by simp
    then show ?thesis using heap(2) g(2) by auto
  next
    case free
    then have "base = ?b" using 1(3) al ok by (auto simp: gap_loop.simps [of v sz hend b] Let_def split: if_splits)
    then show ?thesis using free g ok mmap_range_free_iff [OF ok g(1)] by (auto simp: suitable_def)
  next
    case probe
    note P = probe_spec [OF ok g(1) probe(2)]
    have q: "\<not> ?q > USER_LIMIT - PAGE_SIZE" and e: "gap_loop v sz hend (?q + PAGE_SIZE) = Some base"
      using 1(3) al ok probe by (auto simp: gap_loop.simps [of v sz hend b] Let_def split: if_splits)
    have "suitable v sz hend base \<and> ?q + PAGE_SIZE \<le> base" using 1(2) [OF _ refl _ refl _ _ refl] al ok probe q e by auto
    moreover have "?b \<le> ?q + PAGE_SIZE"
    proof -
      have "unat ?q \<le> 140737488351232" using q by (simp add: word_less_nat_alt not_less)
      then have "unat (?q + PAGE_SIZE) = unat ?q + 4096" using unat_add_lem [of ?q "0x1000"] by simp
      then show ?thesis using P(3) by (simp add: word_le_nat_alt)
    qed
    ultimately show ?thesis using g(2) by (meson order_trans)
  qed
qed

lemma gap_loop_complete: "gap_loop v sz hend b = None \<Longrightarrow> page_aligned b \<Longrightarrow> b \<le> c \<Longrightarrow> \<not> suitable v sz hend c"
proof (induction v sz hend b rule: gap_loop.induct)
  case (1 v sz hend b)
  let ?b = "gap_base b" and ?hp = "page_up hend"
  let ?q = "probe_loop v ?b (unat (last_page ?b sz - ?b) div 4096)"
  note g = gap_base_props [OF 1(4)]
  show ?case
  proof
    assume c: "suitable v sz hend c"
    have cc: "page_aligned c" "user_mmap_range_ok c sz" "USER_HEAP_BASE < hend \<longrightarrow> ?hp \<le> c" using c by (auto simp: suitable_def)
    have bc: "?b \<le> c" using 1(5) cc(2) by (auto simp: gap_base_def user_mmap_range_ok_def)
    have ok: "user_mmap_range_ok ?b sz" by (rule suitable_mono [OF c bc g(3)])
    consider (heap) "hend > USER_HEAP_BASE" "?b < ?hp" "?b + sz > USER_HEAP_BASE"
      | (free) "\<not> (hend > USER_HEAP_BASE \<and> ?b < ?hp \<and> ?b + sz > USER_HEAP_BASE)" "user_mmap_range_free v ?b sz"
      | (probe) "\<not> (hend > USER_HEAP_BASE \<and> ?b < ?hp \<and> ?b + sz > USER_HEAP_BASE)" "\<not> user_mmap_range_free v ?b sz" by blast
    then show False
    proof cases
      case heap
      then have "gap_loop v sz hend ?hp = None" using 1(3,4) ok by (simp add: gap_loop.simps [of v sz hend b] Let_def)
      then show False using 1(1) [OF _ refl _ refl] 1(4) ok heap cc(3) c by simp
    next
      case free
      then show False using 1(3,4) ok by (auto simp: gap_loop.simps [of v sz hend b] Let_def split: if_splits)
    next
      case probe
      note P = probe_spec [OF ok g(1) probe(2)]
      have a: "user_any_mapping_range_ok ?b sz" using ok mmap_range_any by blast
      have uq: "user_page ?q" using in_range_user_page [OF a P(1,4)] .
      have "unat ?q < unat c"
      proof (rule ccontr)
        assume "\<not> unat ?q < unat c"
        then have "unat c \<le> unat ?q" "unat ?q < unat c + unat sz" using P(4) bc by (auto simp: word_le_nat_alt)
        then show False using c uq P(2) by (auto simp: suitable_def)
      qed
      then have lt: "?q < c" by (simp add: word_less_nat_alt)
      note nx = page_next_no_wrap [OF P(1) cc(1) lt]
      have "unat c < 140737488355328" using cc(2) range_unat(3) mmap_range_any by blast
      then have q: "\<not> ?q > USER_LIMIT - PAGE_SIZE" using nx(2) by (simp add: word_less_nat_alt)
      have "gap_loop v sz hend (?q + PAGE_SIZE) = None"
        using 1(3,4) ok probe q by (auto simp: gap_loop.simps [of v sz hend b] Let_def split: if_splits)
      then show False using 1(2) [OF _ refl _ refl _ _ refl] 1(4) ok probe q nx(3,4) c by auto
    qed
  qed
qed

text \<open>
  C25. \<^verbatim>\<open>user_mmap_find_gap\<close> ends; the address it returns is page aligned, at or
  above the start, its range lies in the user part of the address space, is unmapped and does
  not meet the heap; and it fails only when there is no such address.
\<close>

theorem find_gap_correct:
  assumes "sz \<noteq> 0"
  shows "(\<forall>base. user_mmap_find_gap v start sz hend = Some base \<longrightarrow> suitable v sz hend base \<and> page_up start \<le> base)
    \<and> (user_mmap_find_gap v start sz hend = None \<longrightarrow> (\<forall>c\<ge>page_up start. \<not> suitable v sz hend c))"
proof (intro conjI allI impI)
  show "suitable v sz hend base" "page_up start \<le> base" if "user_mmap_find_gap v start sz hend = Some base" for base
    using that gap_loop_sound [of v sz hend "page_up start" base] assms by (simp_all add: user_mmap_find_gap_def)
  show "\<not> suitable v sz hend c" if "user_mmap_find_gap v start sz hend = None" "page_up start \<le> c" for c
    using that gap_loop_complete [OF _ page_up_aligned] assms by (simp add: user_mmap_find_gap_def)
qed

section \<open>Frames of the task operations\<close>

lemma set_task_vm [simp, frame_simps]: "vm (set_task k i f) = vm k"
  by (simp add: set_task_def)

lemma set_task_files [simp, frame_simps]: "files (set_task k i f) = files k"
  by (simp add: set_task_def files_def fun_eq_iff)

lemma fold_set_task_vm:
  "vm (fold (\<lambda>i s. if same_space s t i then set_task s i f else s) is k) = vm k"
  by (induction "is" arbitrary: k) auto

lemma task_ops_vm [simp, frame_simps]:
  "vm (task_shared_heap_sync k t a b) = vm k" "vm (set_cursors k t h) = vm k"
  "vm (snd (task_shared_mmap_cursor k t)) = vm k" "vm (task_shared_mmap_cursor_advance k t h) = vm k"
  unfolding task_shared_heap_sync_def set_cursors_def task_shared_mmap_cursor_def task_shared_mmap_cursor_advance_def Let_def
  by (simp_all add: fold_set_task_vm case_prod_beta)

lemma advance_cursor_vm [simp, frame_simps]: "vm (advance_cursor k c h) = vm k"
  by (simp add: advance_cursor_def)

lemma transform_shared_loop_vm: "vm (snd (transform_shared_loop k t a b operation prot is)) = vm k"
  by (induction "is" arbitrary: k) (auto simp: Let_def case_prod_beta)

lemma transform_shared_vm [simp, frame_simps]: "vm (snd (task_lazy_mmap_transform_shared k t a b operation prot)) = vm k"
  unfolding task_lazy_mmap_transform_shared_def by (rule transform_shared_loop_vm)

lemma flush_mm [simp]: "mm_ok (vmm_user_flush_tlb v) = mm_ok v" "user_entry (vmm_user_flush_tlb v) = user_entry v"
  "mapped_at (vmm_user_flush_tlb v) = mapped_at v" "mem (vmm_user_flush_tlb v) = mem v"
  "fresh_at (vmm_user_flush_tlb v) = fresh_at v"
proof -
  obtain c where f: "vmm_user_flush_tlb v = v\<lparr>cpu_cr3 := c\<rparr>"
  proof (cases "vmm_user_flush_tlb v = v")
    case True
    then show thesis using that [of "cpu_cr3 v"] by simp
  next
    case False
    then show thesis using that by (auto simp: vmm_user_flush_tlb_def Let_def split: if_splits)
  qed
  let ?v = "v\<lparr>cpu_cr3 := c\<rparr>"
  have t: "table ?v = table v" by (rule table_cong) simp
  have n: "node ?v = node v" by (intro ext node_cong) (simp add: walk_step_def Let_def t rd_def)
  have r: "rd ?v = rd v" by (simp add: fun_eq_iff rd_def)
  have w: "walk ?v = walk v" by (simp add: fun_eq_iff walk_node n)
  have l: "translate_leaf ?v = translate_leaf v" by (intro ext) (simp only: translate_leaf_def w r)
  have "vmm_user_translate ?v = vmm_user_translate v" by (intro ext) (unfold vmm_user_translate_def t l, simp)
  then have e: "user_entry ?v = user_entry v" by (simp add: fun_eq_iff user_entry_def)
  have m: "mapped_at ?v = mapped_at v" by (simp add: fun_eq_iff mapped_at_def e)
  have tf: "table_frames ?v = table_frames v" by (simp add: fun_eq_iff table_frames_def n)
  have "vspace_ok ?v = vspace_ok v" by (simp add: fun_eq_iff vspace_ok_def n t)
  then have "mm_ok ?v = mm_ok v" by (simp add: mm_ok_def user_space_ok_def m tf)
  then show "mm_ok (vmm_user_flush_tlb v) = mm_ok v" "user_entry (vmm_user_flush_tlb v) = user_entry v"
    "mapped_at (vmm_user_flush_tlb v) = mapped_at v" "mem (vmm_user_flush_tlb v) = mem v"
    "fresh_at (vmm_user_flush_tlb v) = fresh_at v"
    unfolding f using e m by (simp_all add: fun_eq_iff fresh_at_def)
qed

section \<open>System calls\<close>

text \<open>
  C26. A successful \<^verbatim>\<open>munmap\<close> of memory that is not the framebuffer unmaps exactly
  the pages of the range, gives their frames back, and keeps the ownership invariant.
\<close>

theorem munmap_correct:
  assumes e: "enter_mm k = (True, k1)" and ok: "mm_ok (vm k1)" and fb: "\<not> in_framebuffer (vm k1) addr"
    and r: "sys_munmap k addr len = (0, k')"
  shows "mm_ok (vm k') \<and> (\<forall>w. user_page w \<longrightarrow> user_entry (vm k') w =
    (if addr \<le> w \<and> unat w < unat addr + unat (page_up len) then None else user_entry (vm k1) w))"
proof -
  let ?sz = "page_up len"
  have g: "page_aligned addr" "user_any_mapping_range_ok addr ?sz"
    using r e by (auto simp: sys_munmap_def Let_def page_aligned_def fb case_prod_beta split: if_splits)
  note P = pages_spec [OF g(1) page_up_dvd range_unat(1) [OF g(2)]]
  have v: "vm k' = vmm_user_flush_tlb (drop_pages (vm k1) (pages addr ?sz))"
    using r e by (auto simp: sys_munmap_def Let_def fb case_prod_beta on_vm_def split: if_splits)
  have "\<forall>va\<in>set (pages addr ?sz). user_page va" using P(1) by blast
  note D = drop_pages_spec [OF ok this]
  show ?thesis unfolding v using D P(1) by (auto simp: word_le_nat_alt)
qed

lemma mmap_page_anon:
  assumes "flags AND MAP_ANON \<noteq> 0" "flags AND MAP_FIXED = 0"
  shows "mmap_page k prot flags fd off base va =
    (case grow_page (vm k) prot va of (b, v) \<Rightarrow> (if b then None else Some (- ENOMEM), k\<lparr>vm := v\<rparr>))"
proof -
  have w: "write_frame_bytes v p 0 [] = v" for v p by (simp add: write_frame_bytes_def)
  show ?thesis using assms by (auto simp: mmap_page_def grow_page_def Let_def case_prod_beta w)
qed

lemma mmap_loop_anon:
  assumes "flags AND MAP_ANON \<noteq> 0" "flags AND MAP_FIXED = 0"
  shows "mmap_loop k prot flags fd off base mapped vas =
    (case grow_loop (vm k) prot mapped vas of (b, v) \<Rightarrow> (if b then None else Some (- ENOMEM), k\<lparr>vm := v\<rparr>))"
proof (induction vas arbitrary: k mapped)
  case (Cons va vas)
  obtain b v where g: "grow_page (vm k) prot va = (b, v)" by fastforce
  show ?case
  proof (cases b)
    case True
    then show ?thesis using Cons.IH [of "k\<lparr>vm := v\<rparr>" "mapped @ [va]"] g by (simp add: mmap_page_anon [OF assms])
  next
    case False
    then show ?thesis using g by (simp add: mmap_page_anon [OF assms] on_vm_def)
  qed
qed simp

lemma prot_to_pte_wx:
  assumes "\<not> user_prot_wx prot"
  shows "prot_to_pte prot AND PTE_W = 0 \<or> prot_to_pte prot AND PTE_NX = PTE_NX"
  using assms by (auto simp: user_prot_wx_def prot_to_pte_def)

lemma sys_mmap_anon_cases:
  assumes e: "enter_mm k = (True, k1)" and fl: "flags AND MAP_ANON \<noteq> 0" "flags AND MAP_FIXED = 0"
    and r: "sys_mmap k addr len prot flags fd off = (r, k')"
  obtains (early) "r < 0" "vm k' = vm k1"
  | (gap) base k2 cursor start h where "vm k2 = vm k1" "user_mmap_find_gap (vm k1) start (page_up len) h = Some base"
      "page_up len \<noteq> 0" "\<not> user_prot_wx prot" "mmap_map k2 cursor base (page_up len) prot flags fd off = (r, k')"
proof -
  let ?k2 = "snd (task_shared_mmap_cursor k1 (current_task k1))" and ?c = "fst (task_shared_mmap_cursor k1 (current_task k1))"
  define c where "c = (if ?c < USER_MMAP_MIN then USER_MMAP_MIN else ?c)"
  have v: "vm ?k2 = vm k1" by simp
  have S: "(r, k') = (if len = 0 \<or> len > 0x40000000 then (- EINVAL, ?k2)
        else if off AND (PAGE_SIZE - 1) \<noteq> 0 then (- EINVAL, ?k2)
        else if user_prot_wx prot then (- EACCES_K, ?k2)
        else if len > UINT64_MAX - (PAGE_SIZE - 1) then (- EINVAL, ?k2)
        else if page_up len = 0 \<or> page_up len > USER_LIMIT - USER_MMAP_MIN then (- ENOMEM, ?k2)
        else case mmap_base ?k2 c addr (page_up len) flags of Inl e \<Rightarrow> (e, ?k2)
        | Inr base \<Rightarrow> mmap_map ?k2 c base (page_up len) prot flags fd off)"
    using fl unfolding r [symmetric] sys_mmap_def e Let_def case_prod_beta prod.case bool.case prod.sel c_def [symmetric] by simp
  show thesis
  proof (cases "r < 0 \<and> vm k' = vm k1")
    case True
    then show thesis using early by blast
  next
    case False
    then have w: "\<not> user_prot_wx prot" "page_up len \<noteq> 0"
      and B: "(r, k') = (case mmap_base ?k2 c addr (page_up len) flags of Inl e \<Rightarrow> (e, ?k2)
        | Inr base \<Rightarrow> mmap_map ?k2 c base (page_up len) prot flags fd off)"
      using S v by (auto split: if_splits)
    show thesis
    proof (cases "user_mmap_find_gap (vm k1) c (page_up len) (tk_heap_end (cur ?k2))")
      case None
      then have "r < 0 \<and> vm k' = vm k1" using B fl(2) v by (auto simp: mmap_base_def split: if_splits)
      then show thesis using False by blast
    next
      case (Some base)
      then have "(r, k') = mmap_map ?k2 c base (page_up len) prot flags fd off \<or> r < 0 \<and> vm k' = vm k1"
        using B fl(2) v by (auto simp: mmap_base_def split: if_splits)
      then show thesis using gap [OF v Some w(2,1)] False by metis
    qed
  qed
qed

lemma suitable_range:
  assumes "suitable v sz hend base" "4096 dvd unat sz"
  shows "\<And>va. va \<in> set (pages base sz) \<longleftrightarrow> user_page va \<and> base \<le> va \<and> unat va < unat base + unat sz"
    "distinct (pages base sz)" "\<forall>va\<in>set (pages base sz). user_page va" "\<forall>va\<in>set (pages base sz). user_entry v va = None"
proof -
  have s: "page_aligned base" "user_any_mapping_range_ok base sz" using assms(1) mmap_range_any by (auto simp: suitable_def)
  note P = pages_spec [OF s(1) assms(2) range_unat(1) [OF s(2)]]
  show "va \<in> set (pages base sz) \<longleftrightarrow> user_page va \<and> base \<le> va \<and> unat va < unat base + unat sz" for va
    using P(1) by (simp add: word_le_nat_alt)
  show "distinct (pages base sz)" by (rule P(2))
  show "\<forall>va\<in>set (pages base sz). user_page va" using P(1) by blast
  show "\<forall>va\<in>set (pages base sz). user_entry v va = None" using P(1) assms(1) by (auto simp: suitable_def)
qed

text \<open>
  C27. \<^verbatim>\<open>mmap\<close> of anonymous memory at an address of the kernel's choice. When it
  fails, no mapping has changed. When it succeeds, the pages of the range were unmapped before; each
  of them now maps a zeroed frame that nothing else maps, with the protection asked for, never
  writable and executable at once; and no other mapping has changed.
\<close>

theorem mmap_anon_correct:
  assumes e: "enter_mm k = (True, k1)" and ok: "mm_ok (vm k1)"
    and fl: "flags AND MAP_ANON \<noteq> 0" "flags AND MAP_FIXED = 0" "prot \<noteq> 0"
    and r: "sys_mmap k addr len prot flags fd off = (r, k')"
  shows "mm_ok (vm k')
    \<and> (r < 0 \<longrightarrow> (\<forall>w. user_page w \<longrightarrow> user_entry (vm k') w = user_entry (vm k1) w))
    \<and> (0 \<le> r \<longrightarrow> (\<exists>base. r = uint base \<and> page_aligned base \<and> user_mmap_range_ok base (page_up len)
         \<and> (prot_to_pte prot AND PTE_W = 0 \<or> prot_to_pte prot AND PTE_NX = PTE_NX)
         \<and> (\<forall>w. user_page w \<longrightarrow>
              (if base \<le> w \<and> unat w < unat base + unat (page_up len)
               then user_entry (vm k1) w = None \<and> fresh_at (vm k') (prot_to_pte prot) w
               else user_entry (vm k') w = user_entry (vm k1) w))))"
  using e fl(1,2) r
proof (cases rule: sys_mmap_anon_cases)
  case early
  then show ?thesis using ok by simp
next
  case (gap base k2 cursor start h)
  let ?sz = "page_up len"
  have su: "suitable (vm k1) ?sz h base" using gap(2,3) gap_loop_sound by (simp add: user_mmap_find_gap_def)
  note R = suitable_range [OF su page_up_dvd]
  obtain b v where g: "grow_loop (vm k2) prot [] (pages base ?sz) = (b, v)" by fastforce
  have F: "fresh_range (vm k1) (prot_to_pte prot) (pages base ?sz) b v"
    using grow_loop_spec [OF ok R(3,4,2)] g gap(1) by simp
  have m: "mmap_map k2 cursor base ?sz prot flags fd off =
      (if b then (uint base, on_vm (advance_cursor (k2\<lparr>vm := v\<rparr>) cursor (base + ?sz)) vmm_user_flush_tlb)
       else (- ENOMEM, k2\<lparr>vm := v\<rparr>))"
    using fl by (auto simp: mmap_map_def mmap_loop_anon [OF fl(1,2)] g Let_def)
  show ?thesis
  proof (cases b)
    case False
    then have "r < 0" "vm k' = v" using gap(5) m by auto
    then show ?thesis using F False by (simp add: fresh_range_def)
  next
    case True
    then have k: "r = uint base" "vm k' = vmm_user_flush_tlb v" using gap(5) m by (auto simp: on_vm_def)
    have "(if base \<le> w \<and> unat w < unat base + unat ?sz
          then user_entry (vm k1) w = None \<and> fresh_at (vm k') (prot_to_pte prot) w
          else user_entry (vm k') w = user_entry (vm k1) w)" if "user_page w" for w
      using that F True R(1) [of w] R(4) unfolding k(2) fresh_range_def by auto
    moreover have "mm_ok (vm k')" "page_aligned base" "user_mmap_range_ok base ?sz"
      using F su k(2) by (simp_all add: fresh_range_def suitable_def)
    moreover have "\<not> r < 0" using k(1) by simp
    ultimately show ?thesis using k(1) prot_to_pte_wx [OF gap(4)] by blast
  qed
qed

lemma set_break_vm [simp, frame_simps]: "vm (set_break k base addr) = vm k"
  by (simp add: set_break_def)

lemma unat_page_up:
  assumes "unat x \<le> 18446744073709547520"
  shows "unat (page_up x) = unat x + 4095 - (unat x + 4095) mod 4096"
proof -
  have "x + PAGE_SIZE - 1 = x + 0xFFF" by simp
  moreover have "unat (x + 0xFFF) = unat x + unat (0xFFF :: u64)"
    by (rule unat_add_lem [THEN iffD1]) (use assms in simp)
  ultimately have "unat (x + PAGE_SIZE - 1) = unat x + 4095" by (simp only:) simp
  then show ?thesis unfolding page_up_def by (simp only: unat_and_not_4095)
qed

lemma page_up_unat:
  assumes "unat x \<le> 18446744073709547520"
  shows "unat x \<le> unat (page_up x)" "unat (page_up x) < unat x + 4096"
  unfolding unat_page_up [OF assms] using mod_less_divisor [of 4096 "unat x + 4095"] by linarith+

lemma page_up_mono:
  assumes "x \<le> y" "unat y \<le> 18446744073709547520"
  shows "page_up x \<le> page_up y"
proof -
  have xy: "unat x \<le> unat y" using assms(1) by (simp add: word_le_nat_alt)
  then have x: "unat x \<le> 18446744073709547520" using assms(2) by simp
  show ?thesis
    unfolding word_le_nat_alt unat_page_up [OF x] unat_page_up [OF assms(2)] by (rule page_floor_mono) (use xy in simp)
qed

text \<open>The pages between two page boundaries of the heap.\<close>

lemma heap_limits:
  assumes "x \<le> USER_HEAP_MAX"
  shows "unat x \<le> 18446744073709547520" "unat (page_up x) < 251662336"
  using assms page_up_unat(2) [of x] by (auto simp: word_le_nat_alt)

lemma heap_pages:
  assumes "y' \<le> USER_HEAP_MAX" "page_up x' < page_up y'"
  shows "va \<in> set (pages (page_up x') (page_up y' - page_up x')) \<longleftrightarrow> user_page va \<and> page_up x' \<le> va \<and> va < page_up y'"
    "distinct (pages (page_up x') (page_up y' - page_up x'))"
proof -
  let ?x = "page_up x'" and ?y = "page_up y'"
  have "?x \<le> ?y" using assms(2) by simp
  then have d: "unat (?y - ?x) = unat ?y - unat ?x" "unat ?x \<le> unat ?y" by (simp_all add: unat_sub word_le_nat_alt)
  have "4096 dvd unat (?y - ?x)" using page_up_dvd [of x'] page_up_dvd [of y'] d by simp
  moreover have "unat ?x + unat (?y - ?x) \<le> 140737488355328" using d heap_limits(2) [OF assms(1)] by simp
  ultimately show "va \<in> set (pages ?x (?y - ?x)) \<longleftrightarrow> user_page va \<and> ?x \<le> va \<and> va < ?y" "distinct (pages ?x (?y - ?x))"
    using pages_spec [of ?x "?y - ?x"] d by (auto simp: word_le_nat_alt word_less_nat_alt)
qed

text \<open>The pages of the heap that a larger break adds.\<close>

definition new_pages :: "u64 \<Rightarrow> u64 \<Rightarrow> u64 list" where
  "new_pages old addr = (if page_up old < page_up addr then pages (page_up old) (page_up addr - page_up old) else [])"

lemma new_pages_spec:
  assumes "addr \<le> USER_HEAP_MAX"
  shows "va \<in> set (new_pages old addr) \<longleftrightarrow> user_page va \<and> page_up old \<le> va \<and> va < page_up addr" "distinct (new_pages old addr)"
  using heap_pages [OF assms, of old] by (auto simp: new_pages_def)

text \<open>
  Every task of the address space of the current task has the heap base \<open>base\<close> and the break \<open>e\<close>, and
  nothing else of any task has changed.
\<close>

definition break_set :: "kernel \<Rightarrow> kernel \<Rightarrow> u64 \<Rightarrow> u64 \<Rightarrow> bool" where
  "break_set k k' base e \<longleftrightarrow> (\<forall>i. tasks k' i =
     (if i < MAX_TASKS \<and> tk_used (tasks k i) \<and>
         (i = current_task k \<or> cx_cr3 (tk_ctx (cur k)) AND PAGE_MASK \<noteq> 0 \<and>
            cx_cr3 (tk_ctx (tasks k i)) AND PAGE_MASK = cx_cr3 (tk_ctx (cur k)) AND PAGE_MASK)
      then (tasks k i)\<lparr>tk_heap_base := base, tk_heap_end := e\<rparr> else tasks k i))"

lemma heap_sync_fold:
  "distinct is \<Longrightarrow> tasks (fold (\<lambda>i s. if same_space s t i then set_task s i (\<lambda>x. x\<lparr>tk_heap_base := base, tk_heap_end := e\<rparr>) else s) is s) j =
     (if j \<in> set is \<and> same_space s t j then (tasks s j)\<lparr>tk_heap_base := base, tk_heap_end := e\<rparr> else tasks s j)"
proof (induction "is" arbitrary: s)
  case (Cons i "is")
  let ?s = "if same_space s t i then set_task s i (\<lambda>x. x\<lparr>tk_heap_base := base, tk_heap_end := e\<rparr>) else s"
  have "same_space ?s t j = same_space s t j" for j by (simp add: same_space_def set_task_def)
  then show ?case using Cons.IH [of ?s] Cons.prems by (auto simp: set_task_def)
qed simp

lemma heap_sync_tasks:
  "tasks (task_shared_heap_sync s t base e) j =
     (if j < MAX_TASKS \<and> same_space s t j then (tasks s j)\<lparr>tk_heap_base := base, tk_heap_end := e\<rparr> else tasks s j)"
  unfolding task_shared_heap_sync_def by (simp add: heap_sync_fold)

lemma heap_sync_other:
  "current_task (task_shared_heap_sync k t base e) = current_task k" "heap_base (task_shared_heap_sync k t base e) = heap_base k"
  "heap_end (task_shared_heap_sync k t base e) = heap_end k" for k :: kernel
proof -
  have "current_task (fold (\<lambda>i s. if same_space s t i then set_task s i f else s) is k) = current_task k
      \<and> heap_base (fold (\<lambda>i s. if same_space s t i then set_task s i f else s) is k) = heap_base k
      \<and> heap_end (fold (\<lambda>i s. if same_space s t i then set_task s i f else s) is k) = heap_end k" for f "is"
    by (induction "is" arbitrary: k) (simp_all add: set_task_def)
  then show "current_task (task_shared_heap_sync k t base e) = current_task k" "heap_base (task_shared_heap_sync k t base e) = heap_base k"
    "heap_end (task_shared_heap_sync k t base e) = heap_end k"
    unfolding task_shared_heap_sync_def by blast+
qed

lemma heap_sync_break_set: "tasks k' = tasks (task_shared_heap_sync k (current_task k) base e) \<Longrightarrow> break_set k k' base e"
  by (auto simp: break_set_def heap_sync_tasks same_space_def Let_def cur_def)

lemma heap_sync_twice:
  "tasks (task_shared_heap_sync (task_shared_heap_sync k t base e) t base e') = tasks (task_shared_heap_sync k t base e')"
proof
  fix j
  have "same_space (task_shared_heap_sync k t base e) t j = same_space k t j"
    by (simp add: same_space_def heap_sync_tasks)
  then show "tasks (task_shared_heap_sync (task_shared_heap_sync k t base e) t base e') j = tasks (task_shared_heap_sync k t base e') j"
    by (simp add: heap_sync_tasks)
qed

lemma heap_sync_cong:
  assumes "tasks k = tasks k2"
  shows "tasks (task_shared_heap_sync k t base e) = tasks (task_shared_heap_sync k2 t base e)"
  by (rule ext) (simp add: heap_sync_tasks same_space_def assms)

text \<open>The two ways in which the call ends.\<close>

lemma set_break_spec:
  assumes "k2 = task_shared_heap_sync k1 (current_task k1) base old" "tasks k3 = tasks k2" "current_task k3 = current_task k2"
  shows "break_set k1 (set_break k3 base addr) base addr" "heap_base (set_break k3 base addr) = base" "heap_end (set_break k3 base addr) = addr"
proof -
  have "tasks (set_break k3 base addr) = tasks (task_shared_heap_sync k1 (current_task k1) base addr)"
    using assms heap_sync_cong [of k3 k2] by (simp add: set_break_def heap_sync_twice heap_sync_other)
  then show "break_set k1 (set_break k3 base addr) base addr" by (rule heap_sync_break_set)
qed (simp_all add: set_break_def)

lemma brk_outcome [consumes 3]:
  assumes e: "enter_mm k = (True, k1)" and h: "shared_heap k1 (current_task k1) = (base, old)" and r: "sys_brk k addr = (r, k')"
  obtains (none) "r = uint old" "vm k' = vm k1" "break_set k1 k' base old" "heap_base k' = heap_base k1" "heap_end k' = heap_end k1"
    | (up) b v where "addr > old" "base \<le> addr" "addr < USER_HEAP_MAX" "brk_loop (vm k1) [] (new_pages old addr) = (b, v)"
        "vm k' = v" "r = (if b then uint addr else uint old)" "break_set k1 k' base (if b then addr else old)"
        "heap_base k' = (if b then base else heap_base k1)" "heap_end k' = (if b then addr else heap_end k1)"
    | (down) "addr \<le> old" "base \<le> addr" "addr < USER_HEAP_MAX" "r = uint addr"
        "vm k' = (if addr < old then drop_pages (vm k1) (new_pages addr old) else vm k1)"
        "break_set k1 k' base addr" "heap_base k' = base" "heap_end k' = addr"
proof -
  define k2 where "k2 = task_shared_heap_sync k1 (current_task k1) base old"
  have v2: "vm k2 = vm k1" by (simp add: k2_def)
  note moved = set_break_spec [OF k2_def]
  have keep: "break_set k1 k3 base old" if "tasks k3 = tasks k2" for k3 using that by (intro heap_sync_break_set) (simp add: k2_def)
  have same: "heap_base k2 = heap_base k1" "heap_end k2 = heap_end k1" by (simp_all add: k2_def heap_sync_other)
  let ?a = "page_up old" and ?b = "page_up addr"
  have S: "(r, k') = (if addr = 0 then (uint old, k2)
        else if addr < base \<or> addr \<ge> USER_HEAP_MAX then (uint old, k2)
        else if addr > old then
          (if ?b > ?a \<and> \<not> user_addr_range_ok ?a (?b - ?a) then (uint old, k2)
           else (case brk_loop (vm k1) [] (new_pages old addr) of
             (False, v) \<Rightarrow> (uint old, k2\<lparr>vm := v\<rparr>)
           | (True, v) \<Rightarrow> (uint addr, set_break (k2\<lparr>vm := v\<rparr>) base addr)))
        else (uint addr, set_break (if addr < old \<and> ?b < ?a then on_vm k2 (\<lambda>v. drop_pages v (pages ?b (?a - ?b))) else k2) base addr))"
    unfolding r [symmetric] sys_brk_def e Let_def prod.case bool.case h k2_def [symmetric] v2 new_pages_def by simp
  show thesis
  proof (cases "addr = 0 \<or> addr < base \<or> addr \<ge> USER_HEAP_MAX \<or> addr > old \<and> ?b > ?a \<and> \<not> user_addr_range_ok ?a (?b - ?a)")
    case True
    then have "(r, k') = (uint old, k2)" using S by (auto split: if_splits)
    then show thesis using none v2 keep [of k2] by (simp add: k2_def heap_sync_other)
  next
    case False
    show thesis
    proof (cases "addr > old")
      case gt: True
      obtain b v where l: "brk_loop (vm k1) [] (new_pages old addr) = (b, v)" by (rule prod.exhaust)
      have "(r, k') = (if b then (uint addr, set_break (k2\<lparr>vm := v\<rparr>) base addr) else (uint old, k2\<lparr>vm := v\<rparr>))"
        using S False gt unfolding l by (cases b) auto
      then show thesis
        using up [OF gt _ _ l] False moved [of "k2\<lparr>vm := v\<rparr>" addr] keep [of "k2\<lparr>vm := v\<rparr>"] same by (auto simp: not_less not_le split: if_splits)
    next
      case le: False
      then have "(r, k') = (uint addr, set_break (if addr < old \<and> ?b < ?a then on_vm k2 (\<lambda>v. drop_pages v (pages ?b (?a - ?b))) else k2) base addr)"
        using S False by simp
      then show thesis
        using down le False v2 moved [of "if addr < old \<and> ?b < ?a then on_vm k2 (\<lambda>v. drop_pages v (pages ?b (?a - ?b))) else k2" addr]
        by (auto simp: on_vm_def new_pages_def drop_pages_def not_less not_le split: if_splits)
    qed
  qed
qed

text \<open>
  C28. \<^verbatim>\<open>brk\<close>. With a sound heap, the call either leaves every mapping alone and returns the old
  break, which every task of the address space then has, or returns the address and moves the break of all
  these tasks and of the kernel to it: moving up maps a zeroed private page that can be written and not executed
  at each new page of the heap, all of which were unmapped; moving down unmaps the pages behind the new break; no
  other mapping and nothing else of any task changes.
\<close>

theorem brk_correct:
  assumes e: "enter_mm k = (True, k1)" and ok: "mm_ok (vm k1)"
    and h: "shared_heap k1 (current_task k1) = (base, old)" "old \<le> USER_HEAP_MAX"
    and r: "sys_brk k addr = (r, k')"
  shows "mm_ok (vm k')
    \<and> (r = uint old \<and> break_set k1 k' base old \<and> heap_base k' = heap_base k1 \<and> heap_end k' = heap_end k1
         \<and> (\<forall>w. user_page w \<longrightarrow> user_entry (vm k') w = user_entry (vm k1) w)
       \<or> r = uint addr \<and> base \<le> addr \<and> addr < USER_HEAP_MAX
         \<and> break_set k1 k' base addr \<and> heap_base k' = base \<and> heap_end k' = addr \<and> (\<forall>w. user_page w \<longrightarrow>
           (if page_up old \<le> w \<and> w < page_up addr then user_entry (vm k1) w = None \<and> fresh_at (vm k') (PTE_W OR PTE_NX) w
            else if page_up addr \<le> w \<and> w < page_up old then user_entry (vm k') w = None
            else user_entry (vm k') w = user_entry (vm k1) w)))"
  using e h(1) r
proof (cases rule: brk_outcome)
  case none
  then show ?thesis using ok by simp
next
  case (up b v)
  have m: "addr \<le> USER_HEAP_MAX" using up(3) by simp
  have ab: "page_up old \<le> page_up addr" using up(1) heap_limits(1) [OF m] by (intro page_up_mono) (auto simp: less_imp_le)
  note F = brk_loop_spec [OF ok _ new_pages_spec(2) [OF m] up(4)]
  have fl: "prot_to_pte 3 = PTE_W OR PTE_NX" by (simp add: prot_to_pte_def)
  have U: "\<forall>va\<in>set (new_pages old addr). user_page va" using new_pages_spec(1) [OF m] by blast
  show ?thesis
  proof (cases b)
    case False
    then show ?thesis using F [OF U] up(5-9) by (simp add: fresh_range_def)
  next
    case True
    have "(if page_up old \<le> w \<and> w < page_up addr then user_entry (vm k1) w = None \<and> fresh_at (vm k') (PTE_W OR PTE_NX) w
          else if page_up addr \<le> w \<and> w < page_up old then user_entry (vm k') w = None
          else user_entry (vm k') w = user_entry (vm k1) w)" if w: "user_page w" for w
      using F [OF U] True w new_pages_spec(1) [OF m, of w old] ab unfolding fresh_range_def fl up(5) by auto
    moreover have "mm_ok (vm k')" using F [OF U] up(5) by (simp add: fresh_range_def)
    moreover have "r = uint addr" "break_set k1 k' base addr" "heap_base k' = base" "heap_end k' = addr" using up(6-9) True by simp_all
    ultimately show ?thesis using up(2,3) by blast
  qed
next
  case down
  have ba: "page_up addr \<le> page_up old" using down(1) heap_limits(1) [OF h(2)] by (intro page_up_mono) auto
  have U: "\<forall>va\<in>set (new_pages addr old). user_page va" using new_pages_spec(1) [OF h(2)] by blast
  have D: "mm_ok (vm k') \<and> (\<forall>w. user_page w \<longrightarrow> user_entry (vm k') w = (if page_up addr \<le> w \<and> w < page_up old then None else user_entry (vm k1) w))"
  proof (cases "addr < old")
    case True
    then show ?thesis using drop_pages_spec [OF ok U] new_pages_spec(1) [OF h(2)] down(5) by auto
  next
    case False
    then show ?thesis using ok down(1,5) by auto
  qed
  have "(if page_up old \<le> w \<and> w < page_up addr then user_entry (vm k1) w = None \<and> fresh_at (vm k') (PTE_W OR PTE_NX) w
          else if page_up addr \<le> w \<and> w < page_up old then user_entry (vm k') w = None
          else user_entry (vm k') w = user_entry (vm k1) w)" if w: "user_page w" for w
    using D w ba by auto
  then show ?thesis using D down(2-4,6-8) by blast
qed

section \<open>A concrete kernel\<close>

definition demo_kernel :: kernel where
  "demo_kernel = \<lparr>tasks = (\<lambda>i. demo_task\<lparr>tk_used := (i = 0), tk_lazy_mmaps := replicate MAX_LAZY_USER_MMAPS no_area,
       tk_heap_base := USER_HEAP_BASE, tk_heap_end := USER_HEAP_BASE + 16\<rparr>), current_task = 0,
     vm = demo_vmm, vfs_state = vfs_init zero_vfs,
     fds = init_files zero_fds,
     heap_base = 0, heap_end = 0, syscall_user_cr3 = 0, msr_fs_base = 0, msr_gs_base = 0, framebuffer_users = 0,
     framebuffer_console_active = True, bootfs_read = (\<lambda>_ _ _. []), console_fb = False,
     key_head = 0, key_tail = 0, key_queue = (\<lambda>_. 0), console_fg_pgrp = 0, task_switch_pending = False, task_switch_target = 0,
     task_return_ctx = None, next_pid = 100, user_exit_pending = False, user_exit_status = 0,
     task_switch_deferred = False, unix_si = 0, netlink_si = 0, pair_si = 0, connect_si = 0, user_cr3 = 0, current_exe = ''/HELLO.ELF'',
     user_exec_pending = False, syscall_user_rip = 0, syscall_user_rsp = 0, syscall_user_rflags = 0, syscall_saved_rax = 0\<rparr>"

lemma demo_kernel_sel:
  "tk_used (tasks demo_kernel 0)" "cx_cr3 (tk_ctx (tasks demo_kernel i)) = 0x2000" "current_task demo_kernel = 0" "vm demo_kernel = demo_vmm"
  "tk_lazy_mmaps (tasks demo_kernel i) = replicate MAX_LAZY_USER_MMAPS no_area" "tk_heap_base (tasks demo_kernel i) = USER_HEAP_BASE"
  "tk_heap_end (tasks demo_kernel i) = USER_HEAP_BASE + 16" "msr_fs_base demo_kernel = 0" "msr_gs_base demo_kernel = 0"
  by (simp_all add: demo_kernel_def) (simp add: demo_task_def)

lemma demo_enter: "enter_mm demo_kernel = (True, demo_kernel)"
proof -
  have "demo_vmm\<lparr>g_user_pml4 := 0x2000, g_user_valid := True\<rparr> = demo_vmm" by (simp add: demo_vmm_def)
  then have "vmm_user_activate demo_vmm 0x2000 = (0, demo_vmm)" using demo_table(1) by (simp add: vmm_user_activate_def Let_def)
  moreover have "demo_kernel\<lparr>vm := demo_vmm\<rparr> = demo_kernel" by (simp add: demo_kernel_def)
  ultimately show ?thesis by (simp add: enter_mm_def task_init_root_def cur_def demo_kernel_sel)
qed

lemma demo_entries: "user_page w \<Longrightarrow> user_entry demo_vmm w = (if w = 0 then Some 0x1000205 else None)"
proof -
  assume w: "user_page w"
  have z: "idx4 0 = 0" "idx3 0 = 0" "idx2 0 = 0" "idx1 0 = 0" by (simp_all add: idx_defs)
  have "idx4 w = 0 \<and> idx3 w = 0 \<and> idx2 w = 0 \<and> idx1 w = 0 \<longleftrightarrow> w = 0"
    using idx_inj [of w 0] w z by (auto simp: user_page_def canonical_user_def page_aligned_def)
  then show ?thesis
    using w user_entry_leaf [OF demo_space_ok, of w]
    by (auto simp: leaf_entry_def demo_sel user_page_def node.simps demo_step demo_rd split: if_splits)
qed

lemma demo_mm_ok: "mm_ok (vm demo_kernel)"
proof -
  have m: "mapped_at demo_vmm p = (if p = 0x1000000 then {0} else {})" for p
    unfolding mapped_at_def by (auto simp: demo_entries user_page_def canonical_user_def page_aligned_def split: if_splits)
  show ?thesis
    unfolding mm_ok_def demo_kernel_sel m using demo_space_ok demo_frames demo_pool_refs by (auto simp: demo_sel demo_pool_sel)
qed

lemma transform_shared_idle:
  assumes "a < b" "operation \<noteq> LAZY_MMAP_REPLACE" "\<And>i. tk_lazy_mmaps (tasks s i) = replicate MAX_LAZY_USER_MMAPS no_area"
  shows "task_lazy_mmap_transform_shared s t a b operation prot = (0, s)"
proof -
  have "transform_areas a b operation prot (replicate n no_area) out = Some out" for n out
    by (induction n) (simp_all add: transform_area_def no_area_def)
  then have "task_lazy_mmap_transform (tasks s i) a b operation prot = (0, tasks s i)" for i
    using assms by (simp add: task_lazy_mmap_transform_def)
  moreover have "set_task s i (\<lambda>_. tasks s i) = s" for i by (simp add: set_task_def)
  ultimately have "transform_shared_loop s t a b operation prot is = (0, s)" for "is"
    by (induction "is") simp_all
  then show ?thesis by (simp only: task_lazy_mmap_transform_shared_def)
qed

lemma demo_heap: "shared_heap demo_kernel 0 = (USER_HEAP_BASE, USER_HEAP_BASE + 16)"
proof -
  have "fold (\<lambda>i (base, old). if same_space demo_kernel 0 i then
               (if tk_heap_base (tasks demo_kernel i) \<noteq> 0 then tk_heap_base (tasks demo_kernel i) else base,
                if tk_heap_end (tasks demo_kernel i) > old then tk_heap_end (tasks demo_kernel i) else old)
             else (base, old)) xs (USER_HEAP_BASE, USER_HEAP_BASE + 16) = (USER_HEAP_BASE, USER_HEAP_BASE + 16)" for xs
    by (induction xs) (simp_all add: demo_kernel_sel)
  then show ?thesis unfolding shared_heap_def by (simp add: demo_kernel_sel Let_def del: upt_Suc)
qed

theorem find_gap_correct_witness:
  "\<exists>base. user_mmap_find_gap demo_vmm USER_MMAP_MIN 0x2000 0 = Some base \<and> suitable demo_vmm 0x2000 0 base"
proof -
  have u: "page_up USER_MMAP_MIN = USER_MMAP_MIN" by (simp add: page_up_def)
  have s: "suitable demo_vmm 0x2000 0 USER_MMAP_MIN"
    by (auto simp: suitable_def demo_entries page_aligned_def user_mmap_range_ok_def)
  note F = find_gap_correct [of "0x2000" demo_vmm USER_MMAP_MIN 0, unfolded u]
  have "user_mmap_find_gap demo_vmm USER_MMAP_MIN 0x2000 0 \<noteq> None" using F s by force
  then obtain b where b: "user_mmap_find_gap demo_vmm USER_MMAP_MIN 0x2000 0 = Some b" by blast
  have "suitable demo_vmm 0x2000 0 b" using F b by simp
  then show ?thesis using b by blast
qed

theorem munmap_correct_witness:
  "sys_munmap demo_kernel 0 10 = (0, snd (sys_munmap demo_kernel 0 10))
    \<and> user_entry (vm demo_kernel) 0 = Some 0x1000205 \<and> user_entry (vm (snd (sys_munmap demo_kernel 0 10))) 0 = None"
proof -
  have u: "page_up 10 = 0x1000" by (simp add: page_up_def)
  have s: "task_lazy_mmap_transform_shared demo_kernel 0 0 0x1000 LAZY_MMAP_REMOVE 0 = (0, demo_kernel)"
    by (rule transform_shared_idle) (simp_all add: demo_kernel_sel)
  have fb: "\<not> in_framebuffer demo_vmm 0" by (simp add: in_framebuffer_def) (simp add: demo_vmm_def)
  obtain r k' where e: "sys_munmap demo_kernel 0 10 = (r, k')" by (rule prod.exhaust)
  have "r = 0" using e s fb
    by (simp add: sys_munmap_def demo_enter Let_def demo_kernel_sel contains_base_def user_addr_range_ok_def user_any_mapping_range_ok_def u)
  then show ?thesis
    using munmap_correct [OF demo_enter demo_mm_ok, of 0 10 k'] e fb u demo_entries [of 0]
    by (simp add: demo_kernel_sel user_page_def canonical_user_def page_aligned_def)
qed

theorem mmap_anon_correct_witness:
  "mm_ok (vm (snd (sys_mmap demo_kernel 0 100 3 0x22 (-1) 0)))"
  using mmap_anon_correct [OF demo_enter demo_mm_ok, of "0x22" 3 0 100 "-1" 0, OF _ _ _ prod.collapse [symmetric]] by simp

theorem brk_correct_witness:
  "fst (sys_brk demo_kernel (USER_HEAP_BASE + 32)) = uint (USER_HEAP_BASE + 32)
    \<and> tk_heap_end (tasks (snd (sys_brk demo_kernel (USER_HEAP_BASE + 32))) 0) = USER_HEAP_BASE + 32"
proof -
  have h: "shared_heap demo_kernel (current_task demo_kernel) = (USER_HEAP_BASE, USER_HEAP_BASE + 16)"
    using demo_heap by (simp add: demo_kernel_sel)
  obtain r k' where r: "sys_brk demo_kernel (USER_HEAP_BASE + 32) = (r, k')" by (rule prod.exhaust)
  have "page_up (USER_HEAP_BASE + 16) = page_up (USER_HEAP_BASE + 32)" by (simp add: page_up_def)
  then have "r = uint (USER_HEAP_BASE + 32)" using r demo_heap by (simp add: sys_brk_def demo_enter demo_kernel_sel Let_def)
  then have "break_set demo_kernel k' USER_HEAP_BASE (USER_HEAP_BASE + 32)"
    using brk_correct [OF demo_enter demo_mm_ok h _ r] by simp
  then show ?thesis using r \<open>r = _\<close> by (simp add: break_set_def demo_kernel_sel)
qed

end
