(* ===== verification/Fd_Refs.thy ===== *)
theory Fd_Refs
  imports Fd
begin

text \<open>
  Reference counts of the descriptor layer: every count in a shared object is the number of open
  descriptors that refer to it, over all descriptor tables.
\<close>

section \<open>What a descriptor refers to\<close>

datatype res =
  Pipe_R nat | Pipe_W nat | Pty_M nat | Pty_S nat | Side nat nat | Watch nat | Offset nat | Cursor nat

definition endpoint :: "file_desc \<Rightarrow> res set" where
  "endpoint d =
     (case fd_private d of
        Pipe i \<Rightarrow> (if fd_type d = FD_PIPE_R then {Pipe_R i} else if fd_type d = FD_PIPE_W then {Pipe_W i} else {})
      | Pty i \<Rightarrow> (if fd_type d = FD_PTY_MASTER then {Pty_M i} else if fd_type d = FD_PTY_SLAVE then {Pty_S i} else {})
      | Sock i side \<Rightarrow> (if fd_type d = FD_SOCKET then {Side i side} else {})
      | _ \<Rightarrow> {})"

definition shared :: "file_desc \<Rightarrow> res set" where
  "shared d =
     (case fd_shared_offset d of Some i \<Rightarrow> {Offset i} | None \<Rightarrow> {}) \<union> (case fd_input_state d of Some i \<Rightarrow> {Cursor i} | None \<Rightarrow> {})
     \<union> (case fd_private d of Epoll i \<Rightarrow> if fd_type d = FD_EPOLL then {Watch i} else {} | _ \<Rightarrow> {})"

definition uses :: "file_desc \<Rightarrow> res set" where
  "uses d = (if fd_in_use d then endpoint d \<union> shared d else {})"

fun refs :: "fd_state \<Rightarrow> res \<Rightarrow> u32" where
  "refs s (Pipe_R i) = pi_readers (pipes s i)"
| "refs s (Pipe_W i) = pi_writers (pipes s i)"
| "refs s (Pty_M i) = pt_master_refs (pty_slots s i)"
| "refs s (Pty_S i) = pt_slave_refs (pty_slots s i)"
| "refs s (Side i side) = us_side_refs (unix_sockets s i) side"
| "refs s (Watch i) = ep_refs (epolls s i)"
| "refs s (Offset i) = od_refs (open_descs s i)"
| "refs s (Cursor i) = in_refs (input_open_states s i)"

text \<open>The mark that keeps an object from being handed out again.\<close>

fun marked :: "fd_state \<Rightarrow> res \<Rightarrow> bool" where
  "marked s (Watch i) = ep_used (epolls s i)"
| "marked s (Offset i) = od_used (open_descs s i)"
| "marked s (Cursor i) = in_used (input_open_states s i)"
| "marked s r = (refs s r \<noteq> 0)"

definition slots :: "slot set" where
  "slots = {..<MAX_FD_TABLES} \<times> {..<MAX_FILES}"

definition users :: "fd_state \<Rightarrow> res \<Rightarrow> slot set" where
  "users s r = {f \<in> slots. r \<in> uses (desc s f)}"

definition balanced :: "fd_state \<Rightarrow> bool" where
  "balanced s \<longleftrightarrow> (\<forall>r. unat (refs s r) = card (users s r)) \<and> (\<forall>r. marked s r \<longleftrightarrow> refs s r \<noteq> 0)"

lemma finite_slots [simp]: "finite slots"
  by (simp add: slots_def)

lemma users_bound: "card (users s r) \<le> 16384"
proof -
  have "card (users s r) \<le> card slots" by (rule card_mono) (auto simp: users_def)
  then show ?thesis by (simp add: slots_def)
qed

lemma desc_set [simp]: "desc (set_desc s f g) h = (if h = f then g (desc s f) else desc s h)"
  by (cases f; cases h) (auto simp: set_desc_def desc_def)

lemma refs_set_desc [simp]: "refs (set_desc s f g) r = refs s r" "marked (set_desc s f g) r = marked s r"
  by (cases r; simp add: set_desc_def)+

lemma users_set:
  assumes "f \<in> slots"
  shows "card (users (set_desc s f g) r) + of_bool (r \<in> uses (desc s f)) = card (users s r) + of_bool (r \<in> uses (g (desc s f)))"
proof -
  let ?A = "{h \<in> slots. h \<noteq> f \<and> r \<in> uses (desc s h)}"
  have "users s r = (if r \<in> uses (desc s f) then insert f ?A else ?A)"
    "users (set_desc s f g) r = (if r \<in> uses (g (desc s f)) then insert f ?A else ?A)"
    using assms by (auto simp: users_def split: if_splits)
  moreover have "finite ?A" "f \<notin> ?A" by auto
  ultimately show ?thesis by simp
qed

lemma users_cong: "(\<And>f. desc s' f = desc s f) \<Longrightarrow> users s' r = users s r"
  by (simp add: users_def)

section \<open>Steps on one slot\<close>

text \<open>A state with the same tables in which each count has grown by one for each member of \<open>A\<close>.\<close>

definition same_tables :: "fd_state \<Rightarrow> fd_state \<Rightarrow> bool" where
  "same_tables s s' \<longleftrightarrow> (\<forall>f. uses (desc s' f) = uses (desc s f) \<and> fd_in_use (desc s' f) = fd_in_use (desc s f))
     \<and> task_fd_table_id s' = task_fd_table_id s \<and> task_fd_table_refs s' = task_fd_table_refs s"

definition retains :: "fd_state \<Rightarrow> res set \<Rightarrow> fd_state \<Rightarrow> bool" where
  "retains s A s' \<longleftrightarrow> same_tables s s'
     \<and> (\<forall>r. refs s' r = refs s r + of_bool (r \<in> A)) \<and> (\<forall>r. r \<notin> A \<longrightarrow> marked s' r = marked s r) \<and> (\<forall>r\<in>A. refs s' r \<noteq> 0 \<longrightarrow> marked s r \<longrightarrow> marked s' r)"

definition releases :: "fd_state \<Rightarrow> res set \<Rightarrow> fd_state \<Rightarrow> bool" where
  "releases s A s' \<longleftrightarrow> same_tables s s'
     \<and> (\<forall>r. refs s' r = refs s r - of_bool (r \<in> A)) \<and> (\<forall>r. r \<notin> A \<longrightarrow> marked s' r = marked s r)
     \<and> (\<forall>r\<in>A. marked s' r \<longleftrightarrow> refs s' r \<noteq> 0)"

lemma retainsI:
  assumes "\<And>f. desc s' f = desc s f" "task_fd_table_id s' = task_fd_table_id s" "task_fd_table_refs s' = task_fd_table_refs s"
    "\<And>r. refs s' r = refs s r + of_bool (r \<in> A)" "\<And>r. r \<notin> A \<or> refs s' r \<noteq> 0 \<Longrightarrow> marked s r \<Longrightarrow> marked s' r" "\<And>r. r \<notin> A \<Longrightarrow> marked s' r \<Longrightarrow> marked s r"
  shows "retains s A s'"
  using assms unfolding retains_def same_tables_def by (metis (full_types))

lemma same_tables_refl [simp]: "same_tables s s"
  by (simp add: same_tables_def)

lemma same_tables_trans: "same_tables s s1 \<Longrightarrow> same_tables s1 s2 \<Longrightarrow> same_tables s s2"
  by (simp add: same_tables_def)

lemma same_tables_users: "same_tables s s' \<Longrightarrow> users s' r = users s r"
  unfolding same_tables_def users_def by blast

lemma retains_refl [simp]: "retains s {} s"
  by (simp add: retains_def)

lemma releases_refl [simp]: "releases s {} s"
  by (simp add: releases_def)

lemma retains_trans:
  assumes "retains s A s1" "retains s1 B s2" "A \<inter> B = {}"
  shows "retains s (A \<union> B) s2"
  unfolding retains_def
proof (intro conjI allI ballI impI)
  show "same_tables s s2" using assms(1,2) same_tables_trans by (auto simp: retains_def)
  fix r
  have "r \<notin> A \<or> r \<notin> B" using assms(3) by auto
  then show "refs s2 r = refs s r + of_bool (r \<in> A \<union> B)" using assms(1,2) by (auto simp: retains_def)
  show "marked s2 r" if "r \<in> A \<union> B" "refs s2 r \<noteq> 0" "marked s r"
    using that assms by (cases "r \<in> A"; cases "r \<in> B") (auto simp: retains_def)
qed (use assms(1,2) in \<open>auto simp: retains_def\<close>)

lemma releases_trans: "releases s A s1 \<Longrightarrow> releases s1 B s2 \<Longrightarrow> A \<inter> B = {} \<Longrightarrow> releases s (A \<union> B) s2"
  unfolding releases_def using same_tables_trans by (auto simp: disjoint_iff)

lemmas set_defs = set_pipe_def set_pty_def set_sock_def set_epoll_def set_open_def set_input_def desc_def

lemma retain_endpoint:
  assumes "fd_in_use (desc s f)"
  shows "retains s (endpoint (desc s f)) (fd_retain_endpoint_ref s f)"
proof (rule retainsI)
  fix r
  show "refs (fd_retain_endpoint_ref s f) r = refs s r + of_bool (r \<in> endpoint (desc s f))"
    using assms by (cases r) (simp_all add: fd_retain_endpoint_ref_def Let_def endpoint_def set_defs split: private_data.splits)
  show "marked (fd_retain_endpoint_ref s f) r" if "r \<notin> endpoint (desc s f) \<or> refs (fd_retain_endpoint_ref s f) r \<noteq> 0" "marked s r"
    using assms that by (cases r) (auto simp: fd_retain_endpoint_ref_def Let_def endpoint_def set_defs split: private_data.splits if_splits)
  show "marked s r" if "r \<notin> endpoint (desc s f)" "marked (fd_retain_endpoint_ref s f) r"
    using assms that by (cases r) (auto simp: fd_retain_endpoint_ref_def Let_def endpoint_def set_defs split: private_data.splits if_splits)
qed (use assms in \<open>auto simp: fd_retain_endpoint_ref_def Let_def set_defs split: private_data.splits\<close>)

lemma retain_open: "retains s {Offset i} (retain_open_offset s i)"
proof (rule retainsI)
  fix r
  show "refs (retain_open_offset s i) r = refs s r + of_bool (r \<in> {Offset i})"
    by (cases r) (simp_all add: retain_open_offset_def set_defs)
  show "marked (retain_open_offset s i) r" if "marked s r" using that by (cases r) (auto simp: retain_open_offset_def set_defs)
  show "marked s r" if "marked (retain_open_offset s i) r" using that by (cases r) (auto simp: retain_open_offset_def set_defs split: if_splits)
qed (simp_all add: retain_open_offset_def set_defs)

lemma retain_cursor:
  assumes "marked s (Cursor i)" "refs s (Cursor i) < UINT32_MAX"
  shows "retains s {Cursor i} (input_state_retain s i)"
proof (rule retainsI)
  fix r
  show "refs (input_state_retain s i) r = refs s r + of_bool (r \<in> {Cursor i})"
    using assms by (cases r) (simp_all add: input_state_retain_def set_defs)
  show "marked (input_state_retain s i) r" if "marked s r" using that by (cases r) (auto simp: input_state_retain_def set_defs)
  show "marked s r" if "marked (input_state_retain s i) r" using that by (cases r) (auto simp: input_state_retain_def set_defs split: if_splits)
qed (simp_all add: input_state_retain_def set_defs)

lemma retain_watch:
  assumes "marked s (Watch i)" "refs s (Watch i) < UINT32_MAX" "fd_type d = FD_EPOLL" "fd_private d = Epoll i"
  shows "retains s {Watch i} (epoll_retain_file s d)"
proof (rule retainsI)
  fix r
  show "refs (epoll_retain_file s d) r = refs s r + of_bool (r \<in> {Watch i})"
    using assms by (cases r) (simp_all add: epoll_retain_file_def set_defs)
  show "marked (epoll_retain_file s d) r" if "marked s r" using assms that by (cases r) (auto simp: epoll_retain_file_def set_defs)
  show "marked s r" if "marked (epoll_retain_file s d) r" using assms that by (cases r) (auto simp: epoll_retain_file_def set_defs split: if_splits)
qed (use assms in \<open>simp_all add: epoll_retain_file_def set_defs\<close>)

lemma retains_marked:
  assumes "retains s A s'" "r \<notin> A"
  shows "marked s' r = marked s r" "refs s' r = refs s r"
  using assms by (auto simp: retains_def)

lemma retain_shared_spec:
  assumes "fd_in_use d" "\<And>r. r \<in> shared d \<Longrightarrow> marked s r \<and> refs s r < UINT32_MAX"
  shows "retains s (shared d) (retain_shared s d)"
proof -
  let ?A = "case fd_shared_offset d of Some i \<Rightarrow> {Offset i} | None \<Rightarrow> {}"
    and ?B = "case fd_input_state d of Some i \<Rightarrow> {Cursor i} | None \<Rightarrow> {}"
    and ?C = "case fd_private d of Epoll i \<Rightarrow> if fd_type d = FD_EPOLL then {Watch i} else {} | _ \<Rightarrow> {}"
  define s1 where "s1 = (case fd_shared_offset d of Some i \<Rightarrow> retain_open_offset s i | None \<Rightarrow> s)"
  define s2 where "s2 = (case fd_input_state d of Some i \<Rightarrow> input_state_retain s1 i | None \<Rightarrow> s1)"
  have 1: "retains s ?A s1" by (auto simp: s1_def retain_open split: option.split)
  have 2: "retains s1 ?B s2"
  proof (cases "fd_input_state d")
    case (Some i)
    have c: "Cursor i \<notin> ?A" by (auto split: option.split)
    have "marked s (Cursor i) \<and> refs s (Cursor i) < UINT32_MAX" by (rule assms(2)) (simp add: Some shared_def)
    then have "marked s1 (Cursor i)" "refs s1 (Cursor i) < UINT32_MAX" by (simp_all only: retains_marked [OF 1 c])
    then show ?thesis using Some by (simp add: s2_def retain_cursor)
  qed (simp add: s2_def)
  have 12: "retains s (?A \<union> ?B) s2" by (rule retains_trans [OF 1 2]) (auto split: option.splits)
  have 3: "retains s2 ?C (if fd_type d = FD_EPOLL then epoll_retain_file s2 d else s2)"
  proof (cases "\<exists>i. fd_type d = FD_EPOLL \<and> fd_private d = Epoll i")
    case True
    then obtain i where i: "fd_type d = FD_EPOLL" "fd_private d = Epoll i" by blast
    have c: "Watch i \<notin> ?A \<union> ?B" by (auto split: option.splits)
    have "marked s (Watch i) \<and> refs s (Watch i) < UINT32_MAX" by (rule assms(2)) (simp add: i shared_def)
    then have "marked s2 (Watch i)" "refs s2 (Watch i) < UINT32_MAX" by (simp_all only: retains_marked [OF 12 c])
    then show ?thesis using i by (simp add: retain_watch)
  next
    case False
    then show ?thesis by (auto simp: epoll_retain_file_def split: private_data.split)
  qed
  have "retains s ((?A \<union> ?B) \<union> ?C) (if fd_type d = FD_EPOLL then epoll_retain_file s2 d else s2)"
    by (rule retains_trans [OF 12 3]) (auto split: option.splits private_data.splits)
  moreover have "retain_shared s d = (if fd_type d = FD_EPOLL then epoll_retain_file s2 d else s2)"
    unfolding retain_shared_def s1_def s2_def Let_def using assms(1) by simp
  ultimately show ?thesis by (simp only: shared_def)
qed

lemma releasesI:
  assumes "\<And>f. desc s' f = desc s f" "task_fd_table_id s' = task_fd_table_id s" "task_fd_table_refs s' = task_fd_table_refs s"
    "\<And>r. refs s' r = refs s r - of_bool (r \<in> A)" "\<And>r. r \<notin> A \<Longrightarrow> marked s' r = marked s r" "\<And>r. r \<in> A \<Longrightarrow> marked s' r = (refs s' r \<noteq> 0)"
  shows "releases s A s'"
  using assms unfolding releases_def same_tables_def by (metis (full_types))

lemma drop_side_refs [simp]:
  "us_side_refs u side \<noteq> 0 \<Longrightarrow> us_side_refs (drop_side u side) = (us_side_refs u)(side := us_side_refs u side - 1)"
  "other \<noteq> side \<Longrightarrow> us_side_refs (drop_side u side) other = us_side_refs u other"
  by (simp_all add: drop_side_def Let_def)

lemma drop_endpoint_spec:
  assumes "\<And>r. r \<in> endpoint d \<Longrightarrow> refs s r \<noteq> 0"
  shows "releases s (endpoint d) (drop_endpoint s d)"
proof (rule releasesI)
  fix r
  show "refs (drop_endpoint s d) r = refs s r - of_bool (r \<in> endpoint d)"
    using assms [of r] by (cases r)
      (auto simp: drop_endpoint_def Let_def endpoint_def set_defs socket_fd_drop_ref_def split: private_data.splits if_splits)
  show "marked (drop_endpoint s d) r = marked s r" if "r \<notin> endpoint d"
    using that assms by (cases r)
      (auto simp: drop_endpoint_def Let_def endpoint_def set_defs socket_fd_drop_ref_def split: private_data.splits if_splits)
  show "marked (drop_endpoint s d) r = (refs (drop_endpoint s d) r \<noteq> 0)" if "r \<in> endpoint d"
    using that by (cases r) (auto simp: endpoint_def split: private_data.splits if_splits)
qed (simp_all add: drop_endpoint_def Let_def set_defs socket_fd_drop_ref_def split: private_data.splits)

lemma release_open_spec:
  assumes "refs s (Offset i) \<noteq> 0" "marked s (Offset i)"
  shows "releases s {Offset i} (release_open_offset s i)"
proof (rule releasesI)
  fix r
  show "refs (release_open_offset s i) r = refs s r - of_bool (r \<in> {Offset i})"
    using assms by (cases r) (auto simp: release_open_offset_def Let_def set_defs)
  show "marked (release_open_offset s i) r = marked s r" if "r \<notin> {Offset i}"
    using that by (cases r) (auto simp: release_open_offset_def Let_def set_defs)
  show "marked (release_open_offset s i) r = (refs (release_open_offset s i) r \<noteq> 0)" if "r \<in> {Offset i}"
    using that assms by (auto simp: release_open_offset_def Let_def set_defs)
qed (simp_all add: release_open_offset_def Let_def set_defs)

lemma word_gt_one: "(x :: 'a :: len word) \<noteq> 0 \<Longrightarrow> \<not> 1 < x \<Longrightarrow> x = 1"
  by (metis linorder_not_less order_antisym_conv word_le_less_eq word_less_1 word_not_simps(1))

lemma release_cursor_spec:
  assumes "refs s (Cursor i) \<noteq> 0" "marked s (Cursor i)"
  shows "releases s {Cursor i} (input_state_release s i)"
proof (rule releasesI)
  fix r
  note w = word_gt_one [of "in_refs (input_open_states s i)"]
  show "refs (input_state_release s i) r = refs s r - of_bool (r \<in> {Cursor i})"
    using assms w by (cases r) (auto simp: input_state_release_def set_defs)
  show "marked (input_state_release s i) r = marked s r" if "r \<notin> {Cursor i}"
    using that by (cases r) (auto simp: input_state_release_def set_defs)
  show "marked (input_state_release s i) r = (refs (input_state_release s i) r \<noteq> 0)" if "r \<in> {Cursor i}"
    using that assms by (auto simp: input_state_release_def set_defs)
qed (simp_all add: input_state_release_def set_defs)

lemma release_watch_spec:
  assumes "refs s (Watch i) \<noteq> 0" "marked s (Watch i)" "fd_type d = FD_EPOLL" "fd_private d = Epoll i"
  shows "releases s {Watch i} (epoll_release_file s d)"
proof (rule releasesI)
  fix r
  note w = word_gt_one [of "ep_refs (epolls s i)"]
  show "refs (epoll_release_file s d) r = refs s r - of_bool (r \<in> {Watch i})"
    using assms w by (cases r) (auto simp: epoll_release_file_def set_defs)
  show "marked (epoll_release_file s d) r = marked s r" if "r \<notin> {Watch i}"
    using that assms by (cases r) (auto simp: epoll_release_file_def set_defs)
  show "marked (epoll_release_file s d) r = (refs (epoll_release_file s d) r \<noteq> 0)" if "r \<in> {Watch i}"
    using that assms by (auto simp: epoll_release_file_def set_defs)
qed (use assms in \<open>simp_all add: epoll_release_file_def set_defs\<close>)

lemma releases_keeps:
  assumes "releases s A s'" "r \<notin> A"
  shows "marked s' r = marked s r" "refs s' r = refs s r"
  using assms by (auto simp: releases_def)

definition shared_drop :: "fd_state \<Rightarrow> file_desc \<Rightarrow> fd_state" where
  "shared_drop s d =
     (let s = (if fd_type d = FD_EPOLL then epoll_release_file s d else s);
          s = (case fd_shared_offset d of Some i \<Rightarrow> release_open_offset s i | None \<Rightarrow> s) in
      case fd_input_state d of Some i \<Rightarrow> input_state_release s i | None \<Rightarrow> s)"

lemma shared_drop_spec:
  assumes "\<And>r. r \<in> shared d \<Longrightarrow> refs s r \<noteq> 0 \<and> marked s r"
  shows "releases s (shared d) (shared_drop s d)"
proof -
  let ?A = "case fd_shared_offset d of Some i \<Rightarrow> {Offset i} | None \<Rightarrow> {}"
    and ?B = "case fd_input_state d of Some i \<Rightarrow> {Cursor i} | None \<Rightarrow> {}"
    and ?C = "case fd_private d of Epoll i \<Rightarrow> if fd_type d = FD_EPOLL then {Watch i} else {} | _ \<Rightarrow> {}"
  define s1 where "s1 = (if fd_type d = FD_EPOLL then epoll_release_file s d else s)"
  define s2 where "s2 = (case fd_shared_offset d of Some i \<Rightarrow> release_open_offset s1 i | None \<Rightarrow> s1)"
  have 1: "releases s ?C s1"
  proof (cases "\<exists>i. fd_type d = FD_EPOLL \<and> fd_private d = Epoll i")
    case True
    then obtain i where i: "fd_type d = FD_EPOLL" "fd_private d = Epoll i" by blast
    have "refs s (Watch i) \<noteq> 0 \<and> marked s (Watch i)" by (rule assms) (simp add: i shared_def)
    then show ?thesis using i release_watch_spec by (simp add: s1_def)
  next
    case False
    then show ?thesis by (auto simp: s1_def epoll_release_file_def split: private_data.split)
  qed
  have 2: "releases s1 ?A s2"
  proof (cases "fd_shared_offset d")
    case (Some i)
    have c: "Offset i \<notin> ?C" by (auto split: private_data.split)
    have "refs s (Offset i) \<noteq> 0 \<and> marked s (Offset i)" by (rule assms) (simp add: Some shared_def)
    then have "refs s1 (Offset i) \<noteq> 0" "marked s1 (Offset i)" by (auto simp only: releases_keeps [OF 1 c])
    then show ?thesis using Some release_open_spec by (simp add: s2_def)
  qed (simp add: s2_def)
  have 12: "releases s (?C \<union> ?A) s2" by (rule releases_trans [OF 1 2]) (auto split: option.splits private_data.splits)
  have e: "shared_drop s d = (case fd_input_state d of Some i \<Rightarrow> input_state_release s2 i | None \<Rightarrow> s2)"
    unfolding shared_drop_def s1_def s2_def Let_def by (rule refl)
  have 3: "releases s2 ?B (shared_drop s d)"
  proof (cases "fd_input_state d")
    case (Some i)
    have c: "Cursor i \<notin> ?C \<union> ?A" by (auto split: private_data.split option.split)
    have "refs s (Cursor i) \<noteq> 0 \<and> marked s (Cursor i)" by (rule assms) (simp add: Some shared_def)
    then have "refs s2 (Cursor i) \<noteq> 0" "marked s2 (Cursor i)" by (auto simp only: releases_keeps [OF 12 c])
    then show ?thesis using Some release_cursor_spec by (simp add: e)
  qed (simp add: e)
  have "releases s ((?C \<union> ?A) \<union> ?B) (shared_drop s d)"
    by (rule releases_trans [OF 12 3]) (auto split: option.splits private_data.splits)
  moreover have "(?C \<union> ?A) \<union> ?B = shared d" unfolding shared_def by blast
  ultimately show ?thesis by simp
qed

section \<open>The balance is kept\<close>

lemma balancedD:
  assumes "balanced s" "f \<in> slots" "r \<in> uses (desc s f)"
  shows "refs s r \<noteq> 0" "marked s r" "refs s r < UINT32_MAX"
proof -
  have "f \<in> users s r" "finite (users s r)" using assms(2,3) by (auto simp: users_def intro: finite_subset [OF _ finite_slots])
  then have c: "card (users s r) \<noteq> 0" by auto
  have u: "unat (refs s r) = card (users s r)" using assms(1) by (simp add: balanced_def)
  then show z: "refs s r \<noteq> 0" using c by auto
  then show "marked s r" using assms(1) by (simp add: balanced_def)
  show "refs s r < UINT32_MAX" using u users_bound [of s r] by (simp add: word_less_nat_alt)
qed

lemma balanced_install:
  assumes ok: "balanced s" and f: "f \<in> slots" "uses (desc s f) = {}" and src: "g \<in> slots" "desc s g = d"
    and r: "retains (set_desc s f (\<lambda>_. d)) (uses d) s'"
  shows "balanced s'"
  unfolding balanced_def
proof (intro conjI allI)
  fix r
  note R = r [unfolded retains_def same_tables_def]
  have "users s' r = users (set_desc s f (\<lambda>_. d)) r"
    by (rule same_tables_users) (use r in \<open>simp only: retains_def\<close>)
  then have "card (users s' r) = card (users (set_desc s f (\<lambda>_. d)) r)" by simp
  also have "\<dots> = card (users s r) + of_bool (r \<in> uses d)" using users_set [OF f(1), of s "\<lambda>_. d" r] f(2) by simp
  finally have c: "card (users s' r) = unat (refs s r) + of_bool (r \<in> uses d)" using ok by (simp add: balanced_def)
  have e: "refs s' r = refs s r + of_bool (r \<in> uses d)" using R by simp
  have b: "unat (refs s r) \<le> 16384" using ok users_bound [of s r] by (simp add: balanced_def)
  then have u1: "unat (refs s r + 1) = unat (refs s r) + 1" using unat_add_lem [of "refs s r" 1] by simp
  show "unat (refs s' r) = card (users s' r)" using c e u1 by (cases "r \<in> uses d") simp_all
  show "marked s' r = (refs s' r \<noteq> 0)"
  proof (cases "r \<in> uses d")
    case True
    then have m: "marked s r" using balancedD(2) [OF ok src(1)] src(2) by simp
    have "unat (refs s' r) \<noteq> 0" using e u1 True by simp
    then have "refs s' r \<noteq> 0" by auto
    then show ?thesis using R True m by simp
  next
    case False
    then show ?thesis using R e ok by (simp add: balanced_def)
  qed
qed

lemma balanced_remove:
  assumes ok: "balanced s" and f: "f \<in> slots" and r: "releases s (uses (desc s f)) s1" and g: "\<And>d. uses (g d) = {}"
  shows "balanced (set_desc s1 f g)"
  unfolding balanced_def
proof (intro conjI allI)
  fix r
  note R = r [unfolded releases_def same_tables_def]
  have "users s1 r = users s r" by (rule same_tables_users) (use r in \<open>simp only: releases_def\<close>)
  then have c: "card (users (set_desc s1 f g) r) + of_bool (r \<in> uses (desc s f)) = unat (refs s r)"
    using users_set [OF f, of s1 g r] R ok g by (simp add: balanced_def)
  have "unat (refs s1 r) = card (users (set_desc s1 f g) r)"
  proof (cases "r \<in> uses (desc s f)")
    case True
    then have "refs s r \<noteq> 0" using balancedD(1) [OF ok f] by simp
    then have "unat (refs s r - 1) = unat (refs s r) - 1" by (simp add: unat_minus_one)
    then show ?thesis using c True R by simp
  next
    case False
    then show ?thesis using c R by simp
  qed
  then show "unat (refs (set_desc s1 f g) r) = card (users (set_desc s1 f g) r)" by simp
  show "marked (set_desc s1 f g) r = (refs (set_desc s1 f g) r \<noteq> 0)"
    using R ok by (cases "r \<in> uses (desc s f)") (simp_all add: balanced_def)
qed

section \<open>Slots and tables\<close>

lemma desc_frames [simp]:
  "desc (drop_endpoint s d) f = desc s f" "desc (epoll_release_file s d) f = desc s f" "desc (release_open_offset s i) f = desc s f"
  "desc (input_state_release s i) f = desc s f" "desc (shared_drop s d) f = desc s f"
proof -
  show 1: "desc (drop_endpoint s d) f = desc s f"
    by (simp add: drop_endpoint_def socket_fd_drop_ref_def set_defs split: private_data.split)
  show 2: "desc (epoll_release_file s d) f = desc s f" for s by (simp add: epoll_release_file_def set_defs split: private_data.split)
  show 3: "desc (release_open_offset s i) f = desc s f" for s i by (simp add: release_open_offset_def Let_def set_defs)
  show 4: "desc (input_state_release s i) f = desc s f" for s i by (simp add: input_state_release_def set_defs)
  show "desc (shared_drop s d) f = desc s f" by (simp add: shared_drop_def Let_def 2 3 4 split: option.split)
qed

lemma table_frames_release [simp]:
  "task_fd_table_id (drop_endpoint s d) = task_fd_table_id s" "task_fd_table_refs (drop_endpoint s d) = task_fd_table_refs s"
  "task_fd_table_id (epoll_release_file s d) = task_fd_table_id s" "task_fd_table_refs (epoll_release_file s d) = task_fd_table_refs s"
  by (cases "fd_private d"; simp add: drop_endpoint_def socket_fd_drop_ref_def epoll_release_file_def set_pipe_def set_pty_def set_sock_def set_epoll_def)+

lemma table_frames_shared [simp]:
  "task_fd_table_id (release_open_offset s i) = task_fd_table_id s" "task_fd_table_refs (release_open_offset s i) = task_fd_table_refs s"
  "task_fd_table_id (input_state_release s i) = task_fd_table_id s" "task_fd_table_refs (input_state_release s i) = task_fd_table_refs s"
  by (simp_all add: release_open_offset_def Let_def input_state_release_def set_open_def set_input_def)

lemma table_frames_drop [simp]:
  "task_fd_table_id (shared_drop s d) = task_fd_table_id s" "task_fd_table_refs (shared_drop s d) = task_fd_table_refs s"
  by (cases "fd_shared_offset d"; cases "fd_input_state d"; simp add: shared_drop_def Let_def)+

lemma task_fd_release_eq:
  assumes "fd_in_use (desc s f)"
  shows "task_fd_release s f = set_desc (shared_drop s (desc s f)) f (\<lambda>_. closed_desc)"
  using assms by (cases "fd_shared_offset (desc s f)"; cases "fd_input_state (desc s f)")
    (simp_all add: task_fd_release_def fd_mark_closed_def shared_drop_def Let_def)

lemma uses_closed [simp]: "uses closed_desc = {}" "\<not> fd_in_use closed_desc"
  by (simp_all add: uses_def closed_desc_def)

text \<open>A step that changes at most the slots in \<open>F\<close> and no table.\<close>

definition local_step :: "slot set \<Rightarrow> fd_state \<Rightarrow> fd_state \<Rightarrow> bool" where
  "local_step F s s' \<longleftrightarrow> (balanced s \<longrightarrow> balanced s') \<and> task_fd_table_id s' = task_fd_table_id s
     \<and> task_fd_table_refs s' = task_fd_table_refs s \<and> (\<forall>h. h \<notin> F \<longrightarrow> desc s' h = desc s h)"

lemma local_step_refl [simp]: "local_step F s s"
  by (simp add: local_step_def)

lemma local_step_trans: "local_step F s s1 \<Longrightarrow> local_step F s1 s2 \<Longrightarrow> local_step F s s2"
  by (simp add: local_step_def)

lemma local_step_fold:
  assumes "\<And>x s. x \<in> set xs \<Longrightarrow> local_step F s (g x s)"
  shows "local_step F s (fold g xs s)"
  using assms by (induction xs arbitrary: s) (auto intro: local_step_trans)

lemma set_desc_tables [simp]:
  "task_fd_table_id (set_desc s f g) = task_fd_table_id s" "task_fd_table_refs (set_desc s f g) = task_fd_table_refs s"
  by (simp_all add: set_desc_def)

lemma release_from:
  assumes f: "f \<in> slots" "fd_in_use (desc s f)" and D: "\<And>h. desc s1 h = desc s h"
    and T: "task_fd_table_id s1 = task_fd_table_id s" "task_fd_table_refs s1 = task_fd_table_refs s"
    and R: "(\<And>r. r \<in> endpoint (desc s f) \<Longrightarrow> refs s r \<noteq> 0) \<Longrightarrow> releases s (endpoint (desc s f)) s1"
  shows "local_step {f} s (task_fd_release s1 f)" "desc (task_fd_release s1 f) f = closed_desc"
proof -
  let ?d = "desc s f"
  define s2 where "s2 = shared_drop s1 ?d"
  have e: "task_fd_release s1 f = set_desc s2 f (\<lambda>_. closed_desc)"
    using task_fd_release_eq [of s1 f] f(2) by (simp add: D s2_def)
  then show "desc (task_fd_release s1 f) f = closed_desc" by simp
  have U: "uses ?d = endpoint ?d \<union> shared ?d" using f(2) by (simp add: uses_def)
  have dis: "endpoint ?d \<inter> shared ?d = {}" by (auto simp: endpoint_def shared_def split: private_data.splits option.splits if_splits)
  have "balanced (set_desc s2 f (\<lambda>_. closed_desc))" if ok: "balanced s"
  proof (rule balanced_remove [OF ok f(1)])
    have 1: "releases s (endpoint ?d) s1" by (rule R) (use balancedD(1) [OF ok f(1)] U in blast)
    have "refs s1 r \<noteq> 0 \<and> marked s1 r" if r: "r \<in> shared ?d" for r
    proof -
      have n: "r \<notin> endpoint ?d" using dis r by blast
      show ?thesis unfolding releases_keeps [OF 1 n] using balancedD(1,2) [OF ok f(1), of r] U r by blast
    qed
    then have "releases s1 (shared ?d) s2" unfolding s2_def by (rule shared_drop_spec)
    then show "releases s (uses ?d) s2" unfolding U using releases_trans [OF 1 _ dis] by blast
  qed simp
  then show "local_step {f} s (task_fd_release s1 f)"
    unfolding e local_step_def by (simp add: s2_def D T del: split_paired_All)
qed

lemma release_slot_step:
  assumes f: "f \<in> slots"
  shows "local_step {f} s (release_slot s f)" "\<not> fd_in_use (desc (release_slot s f) f)"
proof -
  have "local_step {f} s (release_slot s f) \<and> \<not> fd_in_use (desc (release_slot s f) f)"
  proof (cases "fd_in_use (desc s f)")
    case True
    note L = release_from [OF f True, of "drop_endpoint s (desc s f)"]
    show ?thesis using True L drop_endpoint_spec by (simp add: release_slot_def)
  qed (simp add: release_slot_def)
  then show "local_step {f} s (release_slot s f)" "\<not> fd_in_use (desc (release_slot s f) f)" by simp_all
qed

lemma release_slots:
  assumes "t < MAX_FD_TABLES" "n \<le> MAX_FILES"
  shows "local_step ({t} \<times> {..<n}) s (fold (\<lambda>fd s. release_slot s (t, fd)) [0..<n] s)
    \<and> (\<forall>fd<n. \<not> fd_in_use (desc (fold (\<lambda>fd s. release_slot s (t, fd)) [0..<n] s) (t, fd)))"
  using assms(2)
proof (induction n)
  case (Suc n)
  let ?s = "fold (\<lambda>fd s. release_slot s (t, fd)) [0..<n] s"
  have "(t, n) \<in> slots" using assms(1) Suc.prems by (simp add: slots_def)
  note R = release_slot_step [OF this, of ?s]
  have I: "local_step ({t} \<times> {..<n}) s ?s" "\<And>fd. fd < n \<Longrightarrow> \<not> fd_in_use (desc ?s (t, fd))" using Suc by simp_all
  have "local_step ({t} \<times> {..<Suc n}) s (release_slot ?s (t, n))" using I(1) R(1) by (auto simp: local_step_def)
  moreover have "\<not> fd_in_use (desc (release_slot ?s (t, n)) (t, fd))" if "fd < Suc n" for fd
    using I(2) [of fd] R that by (cases "fd = n") (simp_all add: local_step_def)
  ultimately show ?case by simp
qed simp

lemma retain_frames [simp]:
  "desc (retain_open_offset s i) h = desc s h" "task_fd_table_id (retain_open_offset s i) = task_fd_table_id s"
  "task_fd_table_refs (retain_open_offset s i) = task_fd_table_refs s"
  "desc (input_state_retain s i) h = desc s h" "task_fd_table_id (input_state_retain s i) = task_fd_table_id s"
  "task_fd_table_refs (input_state_retain s i) = task_fd_table_refs s"
  by (simp_all add: retain_open_offset_def input_state_retain_def set_defs)

lemma epoll_retain_frame [simp]:
  "desc (epoll_retain_file s d) h = desc s h" "task_fd_table_id (epoll_retain_file s d) = task_fd_table_id s"
  "task_fd_table_refs (epoll_retain_file s d) = task_fd_table_refs s"
  by (cases "fd_private d"; simp add: epoll_retain_file_def set_defs)+

lemma retain_shared_frame [simp]:
  "desc (retain_shared s d) h = desc s h" "task_fd_table_id (retain_shared s d) = task_fd_table_id s"
  "task_fd_table_refs (retain_shared s d) = task_fd_table_refs s"
  by (cases "fd_shared_offset d"; cases "fd_input_state d"; simp add: retain_shared_def Let_def)+

lemma retain_endpoint_frame [simp]:
  "desc (fd_retain_endpoint_ref s g) h = desc s h" "task_fd_table_id (fd_retain_endpoint_ref s g) = task_fd_table_id s"
  "task_fd_table_refs (fd_retain_endpoint_ref s g) = task_fd_table_refs s"
  by (cases "fd_private (desc s g)"; simp add: fd_retain_endpoint_ref_def Let_def set_pipe_def set_pty_def set_sock_def desc_def)+

lemma clone_slot_step:
  assumes f: "src \<in> slots" "dst \<in> slots" and u: "\<not> fd_in_use (desc s dst)"
  shows "local_step {dst} s (clone_slot s src dst)" "desc (clone_slot s src dst) dst = desc s src"
proof -
  let ?d = "desc s src"
  define s0 where "s0 = set_desc s dst (\<lambda>_. ?d)"
  define s1 where "s1 = retain_shared s0 ?d"
  have e: "clone_slot s src dst = (if fd_in_use ?d then fd_retain_endpoint_ref s1 dst else s0)"
    by (simp add: clone_slot_def s0_def s1_def Let_def)
  have D: "desc (clone_slot s src dst) h = (if h = dst then ?d else desc s h)" for h
    unfolding e by (simp add: s0_def s1_def)
  then show "desc (clone_slot s src dst) dst = ?d" by simp
  have z: "uses (desc s dst) = {}" using u by (simp add: uses_def)
  have B: "balanced (clone_slot s src dst)" if ok: "balanced s"
  proof (rule balanced_install [OF ok f(2) z f(1) refl])
    show "retains (set_desc s dst (\<lambda>_. ?d)) (uses ?d) (clone_slot s src dst)"
    proof (cases "fd_in_use ?d")
      case False
      then show ?thesis using e by (simp add: s0_def uses_def)
    next
      case True
      then have U: "uses ?d = shared ?d \<union> endpoint ?d" by (auto simp: uses_def)
      have dis: "shared ?d \<inter> endpoint ?d = {}" by (auto simp: endpoint_def shared_def split: private_data.splits option.splits if_splits)
      have "marked s0 r \<and> refs s0 r < UINT32_MAX" if "r \<in> shared ?d" for r
        using balancedD(2,3) [OF ok f(1), of r] that U unfolding s0_def refs_set_desc by blast
      then have 1: "retains s0 (shared ?d) s1" unfolding s1_def by (rule retain_shared_spec [OF True])
      have d1: "desc s1 dst = ?d" by (simp add: s1_def s0_def)
      then have 2: "retains s1 (endpoint ?d) (fd_retain_endpoint_ref s1 dst)" using retain_endpoint [of s1 dst] True by simp
      show ?thesis using retains_trans [OF 1 2 dis] True e by (simp add: U s0_def)
    qed
  qed
  show "local_step {dst} s (clone_slot s src dst)"
    unfolding local_step_def using B D by (auto simp: e s0_def s1_def)
qed

lemma clone_slots:
  assumes "a < MAX_FD_TABLES" "b < MAX_FD_TABLES" "a \<noteq> b" "n \<le> MAX_FILES" "\<forall>fd<MAX_FILES. \<not> fd_in_use (desc s (b, fd))"
  shows "local_step ({b} \<times> {..<n}) s (fold (\<lambda>fd s. clone_slot s (a, fd) (b, fd)) [0..<n] s)
    \<and> (\<forall>fd<n. desc (fold (\<lambda>fd s. clone_slot s (a, fd) (b, fd)) [0..<n] s) (b, fd) = desc s (a, fd))"
  using assms(4)
proof (induction n)
  case (Suc n)
  let ?s = "fold (\<lambda>fd s. clone_slot s (a, fd) (b, fd)) [0..<n] s"
  have I: "local_step ({b} \<times> {..<n}) s ?s" "\<And>fd. fd < n \<Longrightarrow> desc ?s (b, fd) = desc s (a, fd)" using Suc by simp_all
  have sl: "(a, n) \<in> slots" "(b, n) \<in> slots" using assms(1,2) Suc.prems by (simp_all add: slots_def)
  have e: "desc ?s (a, n) = desc s (a, n)" "desc ?s (b, n) = desc s (b, n)" using I(1) assms(3) by (auto simp: local_step_def)
  have "\<not> fd_in_use (desc ?s (b, n))" using e assms(5) Suc.prems by simp
  note C = clone_slot_step [OF sl this]
  have "local_step ({b} \<times> {..<Suc n}) s (clone_slot ?s (a, n) (b, n))" using I(1) C(1) by (auto simp: local_step_def)
  moreover have "desc (clone_slot ?s (a, n) (b, n)) (b, fd) = desc s (a, fd)" if "fd < Suc n" for fd
    using I(2) [of fd] C e that by (cases "fd = n") (simp_all add: local_step_def)
  ultimately show ?case by simp
qed simp

end
