(* ===== verification/Fd_Spec.thy ===== *)
theory Fd_Spec
  imports Fd_Refs
begin

text \<open>
  The invariant of the descriptor layer, its preservation by the operations on descriptor tables,
  and the properties of the tables and of the input queues.
\<close>

section \<open>The invariant\<close>

definition holders :: "fd_state \<Rightarrow> nat \<Rightarrow> nat set" where
  "holders s t = {ti. ti < 64 \<and> task_fd_table_id s ti = int t}"

text \<open>
  Every count is exact: of the descriptors that refer to an object, and of the tasks that use a
  table. The first task keeps the first table, and a table that no task uses has no open descriptor.
  The type of an open descriptor agrees with what its \<^verbatim>\<open>private_data\<close> points to, and a
  closed descriptor keeps no shared offset and no input cursor.
\<close>

definition typed :: "file_desc \<Rightarrow> bool" where
  "typed d =
     (case fd_type d of
        FD_NONE \<Rightarrow> False
      | FD_FILE \<Rightarrow> fd_private d = No_Data
      | FD_PIPE_R \<Rightarrow> (case fd_private d of Pipe i \<Rightarrow> i < PIPE_COUNT | _ \<Rightarrow> False)
      | FD_PIPE_W \<Rightarrow> (case fd_private d of Pipe i \<Rightarrow> i < PIPE_COUNT | _ \<Rightarrow> False)
      | FD_PSEUDO \<Rightarrow> (case fd_private d of Dev _ \<Rightarrow> True | _ \<Rightarrow> False)
      | FD_SOCKET \<Rightarrow> (case fd_private d of Sock i side \<Rightarrow> i < 32 \<and> side < 2 | _ \<Rightarrow> False)
      | FD_EVENTFD \<Rightarrow> (case fd_private d of Eventfd i \<Rightarrow> i < 8 | _ \<Rightarrow> False)
      | FD_TIMERFD \<Rightarrow> (case fd_private d of Timerfd i \<Rightarrow> i < 8 | _ \<Rightarrow> False)
      | FD_PTY_MASTER \<Rightarrow> (case fd_private d of Pty i \<Rightarrow> i < 8 | _ \<Rightarrow> False)
      | FD_PTY_SLAVE \<Rightarrow> (case fd_private d of Pty i \<Rightarrow> i < 8 | _ \<Rightarrow> False)
      | FD_EPOLL \<Rightarrow> (case fd_private d of Epoll i \<Rightarrow> i < 4 | _ \<Rightarrow> False))"

definition desc_ok :: "file_desc \<Rightarrow> bool" where
  "desc_ok d \<longleftrightarrow> (if fd_in_use d then typed d else fd_shared_offset d = None \<and> fd_input_state d = None)"

definition fd_ok :: "fd_state \<Rightarrow> bool" where
  "fd_ok s \<longleftrightarrow> balanced s \<and> task_fd_table_id s 0 = 0 \<and> (\<forall>f\<in>slots. desc_ok (desc s f))
     \<and> (\<forall>t<MAX_FD_TABLES. unat (task_fd_table_refs s t) = card (holders s t)
          \<and> (task_fd_table_refs s t = 0 \<longrightarrow> (\<forall>fd<MAX_FILES. \<not> fd_in_use (desc s (t, fd)))))"

lemma fd_okD:
  assumes "fd_ok s"
  shows "balanced s" "task_fd_table_id s 0 = 0" "t < MAX_FD_TABLES \<Longrightarrow> unat (task_fd_table_refs s t) = card (holders s t)"
    "t < MAX_FD_TABLES \<Longrightarrow> task_fd_table_refs s t = 0 \<Longrightarrow> fd < MAX_FILES \<Longrightarrow> \<not> fd_in_use (desc s (t, fd))"
    "f \<in> slots \<Longrightarrow> desc_ok (desc s f)"
  using assms by (auto simp: fd_ok_def)

lemma holders_bound: "finite (holders s t)" "card (holders s t) \<le> 64"
proof -
  show f: "finite (holders s t)" by (simp add: holders_def)
  have "card (holders s t) \<le> card {..<64 :: nat}" by (rule card_mono) (auto simp: holders_def)
  then show "card (holders s t) \<le> 64" by simp
qed

lemma local_stepD:
  assumes "local_step F s s'"
  shows "balanced s \<Longrightarrow> balanced s'" "task_fd_table_id s' = task_fd_table_id s" "task_fd_table_refs s' = task_fd_table_refs s"
    "h \<notin> F \<Longrightarrow> desc s' h = desc s h" "holders s' t = holders s t"
  using assms unfolding local_step_def holders_def by (simp_all del: split_paired_All)

lemma local_step_fd_ok:
  assumes ok: "fd_ok s" and st: "local_step F s s'"
    and F: "\<And>t fd. (t, fd) \<in> F \<Longrightarrow> t < MAX_FD_TABLES \<Longrightarrow> task_fd_table_refs s t = 0 \<Longrightarrow> \<not> fd_in_use (desc s' (t, fd))"
    and D: "\<And>f. f \<in> F \<Longrightarrow> desc_ok (desc s' f)"
  shows "fd_ok s'"
  unfolding fd_ok_def
proof (intro conjI allI ballI impI)
  show "balanced s'" "task_fd_table_id s' 0 = 0" using ok st by (auto simp: fd_ok_def local_step_def)
  show "desc_ok (desc s' f)" if "f \<in> slots" for f
    using D [of f] fd_okD(5) [OF ok that] local_stepD(4) [OF st, of f] by (cases "f \<in> F") simp_all
  fix t assume t: "t < MAX_FD_TABLES"
  show "unat (task_fd_table_refs s' t) = card (holders s' t)" using fd_okD(3) [OF ok t] st by (simp add: local_step_def holders_def)
  fix fd assume "task_fd_table_refs s' t = 0" "fd < MAX_FILES"
  then show "\<not> fd_in_use (desc s' (t, fd))"
    using fd_okD(4) [OF ok t] st F [of t fd] t by (cases "(t, fd) \<in> F") (auto simp: local_step_def)
qed

lemma desc_table_set [simp]:
  "desc (set_table_id s ti x) f = desc s f" "desc (set_table_refs s t n) f = desc s f"
  "refs (set_table_id s ti x) r = refs s r" "refs (set_table_refs s t n) r = refs s r"
  "marked (set_table_id s ti x) r = marked s r" "marked (set_table_refs s t n) r = marked s r"
  by (simp_all add: set_table_id_def set_table_refs_def desc_def) (cases r; simp)+

lemma balanced_table_set [simp]: "balanced (set_table_id s ti x) = balanced s" "balanced (set_table_refs s t n) = balanced s"
  by (simp_all add: balanced_def users_def)

lemma table_set_sel [simp]:
  "task_fd_table_id (set_table_id s ti x) = (task_fd_table_id s)(ti := x)" "task_fd_table_refs (set_table_id s ti x) = task_fd_table_refs s"
  "task_fd_table_id (set_table_refs s t n) = task_fd_table_id s" "task_fd_table_refs (set_table_refs s t n) = (task_fd_table_refs s)(t := n)"
  by (simp_all add: set_table_id_def set_table_refs_def)

section \<open>Tables\<close>

lemma holders_set:
  assumes "ti < 64"
  shows "holders (set_table_id s ti x) t = (if x = int t then insert ti (holders s t) else holders s t - {ti})"
    "holders (set_table_refs s u n) t = holders s t"
  using assms by (auto simp: holders_def)

lemma desc_ok_closed [simp]: "desc_ok closed_desc"
  by (simp add: desc_ok_def closed_desc_def)

lemma current_files_live:
  assumes ok: "fd_ok s" and ct: "ct < 64"
  shows "current_files s ct < MAX_FD_TABLES" "task_fd_table_refs s (current_files s ct) \<noteq> 0"
proof -
  have v: "task_fd_table_refs s t \<noteq> 0" if "t < MAX_FD_TABLES" "task_fd_table_id s i = int t" "i < 64" for t i
  proof -
    have "i \<in> holders s t" using that by (simp add: holders_def)
    then have "card (holders s t) \<noteq> 0" using holders_bound(1) [of s t] by auto
    then show ?thesis using fd_okD(3) [OF ok that(1)] by (metis unat_0)
  qed
  show "current_files s ct < MAX_FD_TABLES" by (auto simp: current_files_def valid_table_def)
  show "task_fd_table_refs s (current_files s ct) \<noteq> 0"
  proof (cases "valid_table (task_fd_table_id s ct)")
    case True
    then show ?thesis using v [of "nat (task_fd_table_id s ct)" ct] ct by (simp add: current_files_def valid_table_def)
  next
    case False
    then show ?thesis using v [of 0 0] fd_okD(2) [OF ok] by (simp add: current_files_def)
  qed
qed

lemma release_slot_desc: "f \<in> slots \<Longrightarrow> fd_in_use (desc s f) \<Longrightarrow> desc (release_slot s f) f = closed_desc"
  using task_fd_release_eq [of "drop_endpoint s (desc s f)" f] by (simp add: release_slot_def)

lemma release_slots_desc_ok:
  assumes "t < MAX_FD_TABLES" "n \<le> MAX_FILES" "\<And>f. f \<in> slots \<Longrightarrow> desc_ok (desc s f)" "f \<in> slots"
  shows "desc_ok (desc (fold (\<lambda>fd s. release_slot s (t, fd)) [0..<n] s) f)"
  using assms(2)
proof (induction n)
  case (Suc n)
  let ?s = "fold (\<lambda>fd s. release_slot s (t, fd)) [0..<n] s"
  have sl: "(t, n) \<in> slots" using assms(1) Suc.prems by (simp add: slots_def)
  have I: "desc_ok (desc ?s f)" using Suc by simp
  have "desc_ok (desc (release_slot ?s (t, n)) f)"
  proof (cases "f = (t, n) \<and> fd_in_use (desc ?s f)")
    case True
    then have "desc (release_slot ?s (t, n)) f = closed_desc" using release_slot_desc [OF sl, of ?s] by blast
    then show ?thesis by simp
  next
    case False
    then show ?thesis using I local_stepD(4) [OF release_slot_step(1) [OF sl], of f ?s]
      by (cases "f = (t, n)") (simp_all add: release_slot_def)
  qed
  then show ?case by simp
qed (simp add: assms(3,4))

lemma fd_okI:
  assumes "balanced s" "task_fd_table_id s 0 = 0" "\<And>f. f \<in> slots \<Longrightarrow> desc_ok (desc s f)"
    "\<And>t. t < MAX_FD_TABLES \<Longrightarrow> unat (task_fd_table_refs s t) = card (holders s t)"
    "\<And>t fd. t < MAX_FD_TABLES \<Longrightarrow> task_fd_table_refs s t = 0 \<Longrightarrow> fd < MAX_FILES \<Longrightarrow> \<not> fd_in_use (desc s (t, fd))"
  shows "fd_ok s"
  using assms by (simp add: fd_ok_def)

lemma table_release_ok:
  assumes ok: "fd_ok s" and ti: "ti < 64"
  shows "fd_ok (task_fd_table_release s ti)"
proof (cases "valid_table (task_fd_table_id s ti)")
  case False
  then have z: "ti \<noteq> 0" using fd_okD(2) [OF ok] by (intro notI) (simp add: valid_table_def)
  have "fd_ok (set_table_id s ti (-1))"
  proof (rule fd_okI)
    fix t assume t: "t < MAX_FD_TABLES"
    have "ti \<notin> holders s t" using False t by (auto simp: holders_def valid_table_def)
    then show "unat (task_fd_table_refs (set_table_id s ti (-1)) t) = card (holders (set_table_id s ti (-1)) t)"
      using fd_okD(3) [OF ok t] by (simp add: holders_set [OF ti])
  qed (use fd_okD [OF ok] z in simp_all)
  then show ?thesis using False by (simp add: task_fd_table_release_def Let_def)
next
  case True
  define t where "t = nat (task_fd_table_id s ti)"
  have t: "t < MAX_FD_TABLES" "task_fd_table_id s ti = int t" using True by (auto simp: t_def valid_table_def)
  have h: "ti \<in> holders s t" using t(2) ti by (simp add: holders_def)
  then have c0: "card (holders s t) \<noteq> 0" using holders_bound(1) [of s t] by auto
  then have r0: "task_fd_table_refs s t \<noteq> 0" using fd_okD(3) [OF ok t(1)] by (metis unat_0)
  then have um: "unat (task_fd_table_refs s t - 1) = unat (task_fd_table_refs s t) - 1" by (simp add: unat_minus_one)
  define s1 where "s1 = set_table_refs (set_table_id s ti (-1)) t (task_fd_table_refs s t - 1)"
  have e: "task_fd_table_release s ti =
      (if task_fd_table_refs s t - 1 \<noteq> 0 then
         (if ti = 0 then set_table_refs (set_table_id s1 0 0) 0 (task_fd_table_refs s1 0 + 1) else s1)
       else let s = fold (\<lambda>fd s. release_slot s (t, fd)) [0..<MAX_FILES] s1 in
         if t = 0 then set_table_refs (set_table_id s 0 0) 0 1 else s)"
    using True r0 unfolding task_fd_table_release_def Let_def s1_def t_def by simp
  have H: "card (holders s1 u) = unat (task_fd_table_refs s1 u)" if "u < MAX_FD_TABLES" for u
  proof -
    have "holders s1 u = holders s u - {ti}" by (simp add: s1_def holders_set [OF ti])
    moreover have "ti \<in> holders s u \<longleftrightarrow> u = t" using t(2) ti by (auto simp: holders_def)
    ultimately have "card (holders s1 u) = card (holders s u) - of_bool (u = t)" using holders_bound(1) [of s u] h by (cases "u = t") simp_all
    then show ?thesis using fd_okD(3) [OF ok that] um by (cases "u = t") (simp_all add: s1_def)
  qed
  define s2 where "s2 = fold (\<lambda>fd s. release_slot s (t, fd)) [0..<MAX_FILES] s1"
  have R: "local_step ({t} \<times> {..<MAX_FILES}) s1 s2" "\<And>fd. fd < MAX_FILES \<Longrightarrow> \<not> fd_in_use (desc s2 (t, fd))"
    using release_slots [OF t(1) order_refl, of s1] unfolding s2_def by blast+
  have e': "task_fd_table_release s ti =
      (if task_fd_table_refs s t - 1 \<noteq> 0 then
         (if ti = 0 then set_table_refs (set_table_id s1 0 0) 0 (task_fd_table_refs s1 0 + 1) else s1)
       else if t = 0 then set_table_refs (set_table_id s2 0 0) 0 1 else s2)"
    unfolding e s2_def Let_def by (rule refl)
  have d1: "desc s1 f = desc s f" "balanced s1" for f using fd_okD(1) [OF ok] by (simp_all add: s1_def)
  have D2: "desc_ok (desc s2 f)" if "f \<in> slots" for f
    unfolding s2_def by (rule release_slots_desc_ok [OF t(1) order_refl _ that]) (use fd_okD(5) [OF ok] d1 in simp)
  show ?thesis
  proof (cases "ti = 0")
    case first: True
    then have t0: "t = 0" using fd_okD(2) [OF ok] t(2) by simp
    show ?thesis
    proof (rule local_step_fd_ok [OF ok, where F = "{0} \<times> {..<MAX_FILES}"])
      have i: "(task_fd_table_id s)(0 := 0) = task_fd_table_id s" using fd_okD(2) [OF ok] by auto
      note L = local_stepD [OF R(1)]
      show "local_step ({0} \<times> {..<MAX_FILES}) s (task_fd_table_release s ti)"
      proof (cases "task_fd_table_refs s 0 - 1 = 0")
        case True
        then have r1: "(task_fd_table_refs s)(0 := 1) = task_fd_table_refs s" by (simp add: fun_upd_idem)
        show ?thesis
          unfolding local_step_def e' using True first t0 L(1-3) L(4) d1 i r1
          by (simp add: s1_def del: split_paired_All)
      next
        case False
        then show ?thesis
          unfolding local_step_def e' using first t0 d1 i by (simp add: s1_def fun_upd_idem del: split_paired_All)
      qed
      show "desc_ok (desc (task_fd_table_release s ti) f)" if "f \<in> {0} \<times> {..<MAX_FILES}" for f
        unfolding e' using that D2 [of f] fd_okD(5) [OF ok, of f] d1 first t0 by (auto simp: slots_def)
    qed (use r0 t0 in auto)
  next
    case other: False
    show ?thesis
    proof (cases "task_fd_table_refs s t - 1 = 0")
      case False
      then have "task_fd_table_release s ti = s1" using e' other by simp
      moreover have "fd_ok s1"
        by (rule fd_okI) (use fd_okD [OF ok] d1 H other False in \<open>auto simp: s1_def split: if_splits\<close>)
      ultimately show ?thesis by simp
    next
      case last: True
      have "t \<noteq> 0"
      proof
        assume "t = 0"
        then have "{0, ti} \<subseteq> holders s t" using h fd_okD(2) [OF ok] by (auto simp: holders_def)
        then have "card {0, ti} \<le> card (holders s t)" using holders_bound(1) by (rule card_mono [rotated])
        then show False using last um fd_okD(3) [OF ok t(1)] other by simp
      qed
      then have e2: "task_fd_table_release s ti = s2" using e' last by simp
      note L = local_stepD [OF R(1)]
      show ?thesis
        unfolding e2
      proof (rule fd_okI)
        show "balanced s2" using L(1) d1 by simp
        show "task_fd_table_id s2 0 = 0" using L(2) fd_okD(2) [OF ok] other by (simp add: s1_def)
        fix u assume u: "u < MAX_FD_TABLES"
        show "unat (task_fd_table_refs s2 u) = card (holders s2 u)" using H [OF u] L(3,5) by simp
        fix fd assume z: "task_fd_table_refs s2 u = 0" "fd < MAX_FILES"
        show "\<not> fd_in_use (desc s2 (u, fd))"
        proof (cases "u = t")
          case False
          then have "task_fd_table_refs s u = 0" using z L(3) by (simp add: s1_def)
          then show ?thesis using fd_okD(4) [OF ok u _ z(2)] L(4) [of "(u, fd)"] d1 False by simp
        qed (use R(2) z in simp)
      qed (rule D2)
    qed
  qed
qed

lemma find_upt:
  assumes "find P [m..<n] = Some i"
  shows "m \<le> i" "i < n" "P i"
  using assms by (auto simp: find_Some_iff)

lemma table_clone_ok:
  assumes ok: "fd_ok s" and ci: "ci < 64" "ci \<noteq> 0" "task_fd_table_id s ci = -1"
  shows "fd_ok (snd (task_fd_table_clone s par ci share))"
proof -
  define src where "src = task_fd_table_id s par"
  note O = fd_okD [OF ok]
  have nh: "ci \<notin> holders s t" for t using ci(3) by (simp add: holders_def)
  show ?thesis
  proof (cases "\<not> valid_table src \<or> task_fd_table_refs s (nat src) = 0")
    case True
    then show ?thesis using ok by (simp add: task_fd_table_clone_def Let_def src_def)
  next
    case False
    then have v: "src = int (nat src)" "nat src < MAX_FD_TABLES" by (auto simp: valid_table_def)
    have id0: "task_fd_table_id (set_table_id s ci x) 0 = 0" for x using O(2) ci(2) by simp
    have add: "fd_ok (set_table_refs (set_table_id s ci (int t)) t (task_fd_table_refs s t + 1))" if t: "t < MAX_FD_TABLES" for t
    proof (rule fd_okI)
      fix u assume u: "u < MAX_FD_TABLES"
      have "unat (task_fd_table_refs s t) \<le> 64" using O(3) [OF t] holders_bound(2) [of s t] by simp
      then have a: "unat (task_fd_table_refs s t + 1) = unat (task_fd_table_refs s t) + 1"
        using unat_add_lem [of "task_fd_table_refs s t" 1] by simp
      show "unat (task_fd_table_refs (set_table_refs (set_table_id s ci (int t)) t (task_fd_table_refs s t + 1)) u)
        = card (holders (set_table_refs (set_table_id s ci (int t)) t (task_fd_table_refs s t + 1)) u)"
        using O(3) [OF u] a nh holders_bound(1) [of s u] by (auto simp: holders_set [OF ci(1)])
      show "\<not> fd_in_use (desc (set_table_refs (set_table_id s ci (int t)) t (task_fd_table_refs s t + 1)) (u, fd))"
        if z: "task_fd_table_refs (set_table_refs (set_table_id s ci (int t)) t (task_fd_table_refs s t + 1)) u = 0" "fd < MAX_FILES" for fd
      proof (cases "u = t")
        case True
        then have "unat (task_fd_table_refs s t + 1) = 0" using z by simp
        then show ?thesis using a by simp
      qed (use z O(4) [OF u] in simp)
    qed (use O id0 in simp_all)
    show ?thesis
    proof (cases share)
      case True
      then show ?thesis using False add [OF v(2)] v(1) by (simp add: task_fd_table_clone_def Let_def src_def)
    next
      case copy: False
      show ?thesis
      proof (cases "find (\<lambda>i. i \<noteq> 0 \<and> task_fd_table_refs s i = 0) [0..<MAX_FD_TABLES]")
        case None
        then show ?thesis using ok False copy by (simp add: task_fd_table_clone_def Let_def src_def)
      next
        case (Some d)
        note d = find_upt [OF Some]
        define s1 where "s1 = set_table_refs (set_table_id s ci (int d)) d 1"
        define s2 where "s2 = fold (\<lambda>fd s. clone_slot s (nat src, fd) (d, fd)) [0..<MAX_FILES] s1"
        have e: "snd (task_fd_table_clone s par ci share) = s2"
          using False copy Some by (simp add: task_fd_table_clone_def Let_def s1_def s2_def src_def)
        have ok1: "fd_ok s1" using add [OF d(2)] d(3) by (simp add: s1_def)
        have ne: "nat src \<noteq> d" using False d(3) by auto
        have idle: "\<forall>fd<MAX_FILES. \<not> fd_in_use (desc s1 (d, fd))" using O(4) [OF d(2)] d(3) by (simp add: s1_def)
        have C: "local_step ({d} \<times> {..<MAX_FILES}) s1 s2" "\<And>fd. fd < MAX_FILES \<Longrightarrow> desc s2 (d, fd) = desc s1 (nat src, fd)"
          using clone_slots [OF v(2) d(2) ne order_refl idle] unfolding s2_def by blast+
        show ?thesis
          unfolding e
        proof (rule local_step_fd_ok [OF ok1 C(1)])
          show "desc_ok (desc s2 f)" if "f \<in> {d} \<times> {..<MAX_FILES}" for f
            using that C(2) fd_okD(5) [OF ok1, of "(nat src, snd f)"] v(2) by (auto simp: slots_def)
        qed (auto simp: s1_def)
      qed
    qed
  qed
qed

section \<open>Descriptors of the current task\<close>

text \<open>A change of one open slot that keeps what the descriptor refers to.\<close>

lemma set_desc_step:
  assumes "f \<in> slots" "uses (g (desc s f)) = uses (desc s f)"
  shows "local_step {f} s (set_desc s f g)"
proof -
  have "card (users (set_desc s f g) r) = card (users s r)" for r using users_set [OF assms(1), of s g r] assms(2) by simp
  then show ?thesis by (simp add: local_step_def balanced_def)
qed

lemma current_slot:
  assumes ok: "fd_ok s" and ct: "ct < 64" and n: "n < MAX_FILES"
  shows "(current_files s ct, n) \<in> slots" "task_fd_table_refs s (current_files s ct) \<noteq> 0"
  using current_files_live [OF ok ct] n by (simp_all add: slots_def)

lemma current_files_set [simp]: "current_files (set_desc s f g) ct = current_files s ct"
  by (simp add: current_files_def)

lemma slot_step_ok:
  assumes "fd_ok s" "local_step {f} s s'" "task_fd_table_refs s (fst f) \<noteq> 0" "desc_ok (desc s' f)"
  shows "fd_ok s'"
  by (rule local_step_fd_ok [OF assms(1,2)]) (use assms(3,4) in auto)

lemma dup_slot:
  assumes sl: "src \<in> slots" "dst \<in> slots" and u: "\<not> fd_in_use (desc s dst)" "fd_in_use (desc s src)"
    and g: "\<And>d. uses (g d) = uses d" "\<And>d. endpoint (g d) = endpoint d" "\<And>d. fd_in_use (g d) = fd_in_use d"
  shows "local_step {dst} s (fd_retain_endpoint_ref (set_desc (fd_copy_scalar s dst src) dst g) dst)"
    "desc (fd_retain_endpoint_ref (set_desc (fd_copy_scalar s dst src) dst g) dst) dst = g (desc s src)"
proof -
  let ?d = "desc s src"
  define s0 where "s0 = set_desc s dst (\<lambda>_. ?d)"
  define s1 where "s1 = retain_shared s0 ?d"
  define s2 where "s2 = set_desc s1 dst g"
  have e: "fd_retain_endpoint_ref (set_desc (fd_copy_scalar s dst src) dst g) dst = fd_retain_endpoint_ref s2 dst"
    by (simp add: fd_copy_scalar_def Let_def s0_def s1_def s2_def)
  have D: "desc s2 h = (if h = dst then g ?d else desc s h)" for h by (simp add: s0_def s1_def s2_def)
  then show "desc (fd_retain_endpoint_ref (set_desc (fd_copy_scalar s dst src) dst g) dst) dst = g ?d" by (simp add: e)
  have z: "uses (desc s dst) = {}" using u(1) by (simp add: uses_def)
  have U: "uses ?d = shared ?d \<union> endpoint ?d" using u(2) by (auto simp: uses_def)
  have dis: "shared ?d \<inter> endpoint ?d = {}" by (auto simp: endpoint_def shared_def split: private_data.splits option.splits if_splits)
  have B: "balanced (fd_retain_endpoint_ref s2 dst)" if ok: "balanced s"
  proof (rule balanced_install [OF ok sl(2) z sl(1) refl])
    have "marked s0 r \<and> refs s0 r < UINT32_MAX" if "r \<in> shared ?d" for r
      using balancedD(2,3) [OF ok sl(1), of r] that U unfolding s0_def refs_set_desc by blast
    then have 1: "retains s0 (shared ?d) s1" unfolding s1_def by (rule retain_shared_spec [OF u(2)])
    have 2: "retains s1 {} s2"
      unfolding s2_def retains_def same_tables_def using g(1,3) by (simp del: split_paired_All)
    have "endpoint (desc s2 dst) = endpoint ?d" "fd_in_use (desc s2 dst)" using D [of dst] g(2,3) u(2) by simp_all
    then have 3: "retains s2 (endpoint ?d) (fd_retain_endpoint_ref s2 dst)" using retain_endpoint [of s2 dst] by simp
    have "retains s0 (shared ?d) s2" using retains_trans [OF 1 2] by simp
    then show "retains (set_desc s dst (\<lambda>_. ?d)) (uses ?d) (fd_retain_endpoint_ref s2 dst)"
      unfolding U s0_def [symmetric] using 3 dis by (rule retains_trans)
  qed
  show "local_step {dst} s (fd_retain_endpoint_ref (set_desc (fd_copy_scalar s dst src) dst g) dst)"
    unfolding e local_step_def using B D by (auto simp: s0_def s1_def s2_def)
qed

lemma desc_cong:
  assumes "fd_in_use d' = fd_in_use d" "fd_type d' = fd_type d" "fd_private d' = fd_private d"
    "fd_shared_offset d' = fd_shared_offset d" "fd_input_state d' = fd_input_state d"
  shows "uses d' = uses d" "endpoint d' = endpoint d" "desc_ok d' = desc_ok d"
  unfolding uses_def endpoint_def shared_def desc_ok_def typed_def assms by (rule refl)+

lemma uses_flags: "uses (d\<lparr>fd_flags := x\<rparr>) = uses d" "endpoint (d\<lparr>fd_flags := x\<rparr>) = endpoint d"
  "desc_ok (d\<lparr>fd_flags := x\<rparr>) = desc_ok d"
  by (rule desc_cong; simp)+

definition dup_flags :: "bool \<Rightarrow> file_desc \<Rightarrow> file_desc" where
  "dup_flags cloexec d =
     (let d = d\<lparr>fd_flags := fd_flags d AND NOT O_CLOEXEC\<rparr> in if cloexec then d\<lparr>fd_flags := fd_flags d OR O_CLOEXEC\<rparr> else d)"

lemma dup_flags [simp]: "uses (dup_flags c d) = uses d" "endpoint (dup_flags c d) = endpoint d" "fd_in_use (dup_flags c d) = fd_in_use d"
  "desc_ok (dup_flags c d) = desc_ok d" "fd_private (dup_flags c d) = fd_private d" "fd_type (dup_flags c d) = fd_type d"
  "fd_shared_offset (dup_flags c d) = fd_shared_offset d"
  by (simp_all add: dup_flags_def Let_def uses_flags)

lemma set_desc_twice: "set_desc (set_desc s f g) f h = set_desc s f (h \<circ> g)"
  by (simp add: set_desc_def desc_def)

lemma dup_internal_eq:
  "sys_dup_internal s ct oldfd minfd cloexec =
     (if \<not> open_fd s ct oldfd then (-9, s)
      else let t = current_files s ct in
      case find (\<lambda>i. \<not> fd_in_use (desc s (t, i))) [nat minfd..<MAX_FILES] of
        None \<Rightarrow> (- EMFILE, s)
      | Some n \<Rightarrow> (int n, fd_retain_endpoint_ref (set_desc (fd_copy_scalar s (t, n) (t, nat oldfd)) (t, n) (dup_flags cloexec)) (t, n)))"
proof -
  have "dup_flags False = (\<lambda>d. d\<lparr>fd_flags := fd_flags d AND NOT O_CLOEXEC\<rparr>)"
    "dup_flags True = (\<lambda>d. d\<lparr>fd_flags := (fd_flags d AND NOT O_CLOEXEC) OR O_CLOEXEC\<rparr>)"
    by (auto simp: dup_flags_def Let_def)
  then show ?thesis
    unfolding sys_dup_internal_def Let_def by (cases cloexec) (simp_all add: set_desc_twice comp_def split: option.split)
qed

text \<open>The three outcomes of a duplication.\<close>

lemma dup_internal_cases:
  assumes ok: "fd_ok s" and ct: "ct < 64" and r: "sys_dup_internal s ct oldfd minfd cloexec = (r, s')"
  defines "t \<equiv> current_files s ct"
  obtains (bad) "r = -9" "s' = s" "\<not> open_fd s ct oldfd"
  | (full) "r = - EMFILE" "s' = s" "open_fd s ct oldfd" "\<forall>i. nat minfd \<le> i \<and> i < MAX_FILES \<longrightarrow> fd_in_use (desc s (t, i))"
  | (dup) n where "r = int n" "nat minfd \<le> n" "n < MAX_FILES" "\<not> fd_in_use (desc s (t, n))" "open_fd s ct oldfd"
      "\<And>i. nat minfd \<le> i \<Longrightarrow> i < n \<Longrightarrow> fd_in_use (desc s (t, i))"
      "local_step {(t, n)} s s'" "desc s' (t, n) = dup_flags cloexec (desc s (t, nat oldfd))" "fd_ok s'"
proof (cases "open_fd s ct oldfd")
  case False
  then show thesis using bad r by (simp add: dup_internal_eq)
next
  case True
  then have o: "nat oldfd < MAX_FILES" "fd_in_use (desc s (t, nat oldfd))" by (auto simp: open_fd_def t_def)
  show thesis
  proof (cases "find (\<lambda>i. \<not> fd_in_use (desc s (t, i))) [nat minfd..<MAX_FILES]")
    case None
    then have "\<forall>i. nat minfd \<le> i \<and> i < MAX_FILES \<longrightarrow> fd_in_use (desc s (t, i))" by (auto simp: find_None_iff)
    then show thesis using full r True None by (simp add: dup_internal_eq Let_def t_def)
  next
    case (Some n)
    note n = find_upt [OF Some]
    have lo: "fd_in_use (desc s (t, i))" if "nat minfd \<le> i" "i < n" for i
    proof -
      obtain k where k: "k < length [nat minfd..<MAX_FILES]" "[nat minfd..<MAX_FILES] ! k = n"
          "\<And>j. j < k \<Longrightarrow> fd_in_use (desc s (t, [nat minfd..<MAX_FILES] ! j))"
        using Some by (auto simp: find_Some_iff)
      have "i - nat minfd < k" using that k(1,2) by simp
      then show ?thesis using k(3) [of "i - nat minfd"] that n(2) by simp
    qed
    have sl: "(t, nat oldfd) \<in> slots" "(t, n) \<in> slots" "task_fd_table_refs s t \<noteq> 0"
      using current_slot [OF ok ct o(1)] current_slot [OF ok ct n(2)] by (simp_all add: t_def)
    note D = dup_slot [OF sl(1,2) n(3) o(2), of "dup_flags cloexec", OF dup_flags(1,2,3)]
    have s': "s' = fd_retain_endpoint_ref (set_desc (fd_copy_scalar s (t, n) (t, nat oldfd)) (t, n) (dup_flags cloexec)) (t, n)" "r = int n"
      using r True Some by (simp_all add: dup_internal_eq Let_def t_def)
    have "fd_ok s'"
      unfolding s'(1) by (rule slot_step_ok [OF ok D(1)]) (use sl D(2) fd_okD(5) [OF ok sl(1)] in simp_all)
    then show thesis using dup [of n] n s' True D lo by blast
  qed
qed

lemma dup_internal_ok:
  assumes "fd_ok s" "ct < 64"
  shows "fd_ok (snd (sys_dup_internal s ct oldfd minfd cloexec))"
  by (rule dup_internal_cases [OF assms prod.collapse [symmetric]]) (use assms in auto)

lemma fcntl_ok:
  assumes ok: "fd_ok s" and ct: "ct < 64"
  shows "fd_ok (snd (sys_fcntl s ct fd cmd arg))"
proof (cases "open_fd s ct fd")
  case True
  then have "nat fd < MAX_FILES" by (auto simp: open_fd_def)
  note sl = current_slot [OF ok ct this]
  have F: "fd_ok (set_desc s (current_files s ct, nat fd) (\<lambda>d. d\<lparr>fd_flags := g d\<rparr>))" for g
    by (rule slot_step_ok [OF ok set_desc_step [OF sl(1)]]) (use sl fd_okD(5) [OF ok sl(1)] in \<open>simp_all add: uses_flags\<close>)
  show ?thesis
    using True ok dup_internal_ok [OF ok ct] F by (simp add: sys_fcntl_def Let_def)
qed (use ok in \<open>simp add: sys_fcntl_def\<close>)

lemma free_fd:
  assumes "find_free_fd s ct = Some fd"
  shows "fd < MAX_FILES" "\<not> fd_in_use (desc s (current_files s ct, fd))"
  using find_upt [OF assms [unfolded find_free_fd_def]] by simp_all

text \<open>Opening a slot with something that is not counted.\<close>

lemma open_slot_ok:
  assumes ok: "fd_ok s" and ct: "ct < 64" and fd: "fd < MAX_FILES" "\<not> fd_in_use (desc s (current_files s ct, fd))"
    and u: "uses (g (desc s (current_files s ct, fd))) = {}" "desc_ok (g (desc s (current_files s ct, fd)))"
  shows "fd_ok (set_desc s (current_files s ct, fd) g)"
proof -
  note sl = current_slot [OF ok ct fd(1)]
  have "uses (desc s (current_files s ct, fd)) = {}" using fd(2) by (simp add: uses_def)
  then show ?thesis using slot_step_ok [OF ok set_desc_step [OF sl(1)], of g] sl(2) u by simp
qed

lemma fd_ok_cong:
  assumes "\<And>f. desc s' f = desc s f" "task_fd_table_id s' = task_fd_table_id s" "task_fd_table_refs s' = task_fd_table_refs s"
    "\<And>r. refs s' r = refs s r" "\<And>r. marked s' r = marked s r"
  shows "fd_ok s' = fd_ok s"
  using assms by (simp add: fd_ok_def balanced_def users_def holders_def)

lemma fd_ok_fields [simp]:
  "fd_ok (s\<lparr>eventfds := x\<rparr>) = fd_ok s" "fd_ok (s\<lparr>timerfds := y\<rparr>) = fd_ok s"
  "desc (s\<lparr>eventfds := x\<rparr>) f = desc s f" "desc (s\<lparr>timerfds := y\<rparr>) f = desc s f"
  "current_files (s\<lparr>eventfds := x\<rparr>) ct = current_files s ct" "current_files (s\<lparr>timerfds := y\<rparr>) ct = current_files s ct"
proof -
  have r: "refs (s\<lparr>eventfds := x\<rparr>) r = refs s r" "refs (s\<lparr>timerfds := y\<rparr>) r = refs s r"
    "marked (s\<lparr>eventfds := x\<rparr>) r = marked s r" "marked (s\<lparr>timerfds := y\<rparr>) r = marked s r" for r
    by (cases r; simp)+
  show "fd_ok (s\<lparr>eventfds := x\<rparr>) = fd_ok s" "fd_ok (s\<lparr>timerfds := y\<rparr>) = fd_ok s"
    by (rule fd_ok_cong; simp add: desc_def r)+
qed (simp_all add: desc_def current_files_def)

lemma open_uncounted_ok:
  assumes ok: "fd_ok s" and ct: "ct < 64" and fd: "find_free_fd s' ct = Some fd" "\<And>f. desc s' f = desc s f" "current_files s' ct = current_files s ct"
    and ty: "ty = FD_EVENTFD \<and> pd = Eventfd i \<and> i < 8 \<or> ty = FD_TIMERFD \<and> pd = Timerfd i \<and> i < 8"
  shows "fd_ok (set_desc s (current_files s ct, fd) (\<lambda>d. d\<lparr>fd_in_use := True, fd_type := ty, fd_flags := flags, fd_private := pd\<rparr>))"
proof -
  have f: "fd < MAX_FILES" "\<not> fd_in_use (desc s (current_files s ct, fd))" using free_fd [OF fd(1)] fd(2,3) by simp_all
  have "desc_ok (desc s (current_files s ct, fd))" using fd_okD(5) [OF ok current_slot(1) [OF ok ct f(1)]] .
  then show ?thesis
    using f ty by (intro open_slot_ok [OF ok ct]) (auto simp: uses_def endpoint_def shared_def desc_ok_def typed_def)
qed

lemma eventfd_ok:
  assumes ok: "fd_ok s" and ct: "ct < 64"
  shows "fd_ok (snd (sys_eventfd2 s ct initval flags))"
proof -
  have "fd_ok (set_desc (s\<lparr>eventfds := x\<rparr>) (current_files s ct, fd)
      (\<lambda>d. d\<lparr>fd_in_use := True, fd_type := FD_EVENTFD, fd_flags := flags, fd_private := Eventfd i\<rparr>))"
    if "find_free_fd s ct = Some fd" "i < 8" for x fd i
    using open_uncounted_ok [of "s\<lparr>eventfds := x\<rparr>" ct s fd FD_EVENTFD "Eventfd i" i flags] ok ct that by simp
  then show ?thesis
    using ok unfolding sys_eventfd2_def by (simp split: option.split) (use find_upt(2) in blast)
qed

lemma timerfd_ok:
  assumes ok: "fd_ok s" and ct: "ct < 64"
  shows "fd_ok (snd (sys_timerfd_create s ct clockid flags))"
proof -
  have "fd_ok (set_desc (s\<lparr>timerfds := x\<rparr>) (current_files s ct, fd)
      (\<lambda>d. d\<lparr>fd_in_use := True, fd_type := FD_TIMERFD, fd_flags := flags, fd_private := Timerfd i\<rparr>))"
    if "find_free_fd s ct = Some fd" "i < 8" for x fd i
    using open_uncounted_ok [of "s\<lparr>timerfds := x\<rparr>" ct s fd FD_TIMERFD "Timerfd i" i flags] ok ct that by simp
  then show ?thesis
    using ok unfolding sys_timerfd_create_def by (simp split: option.split) (use find_upt(2) in blast)
qed

text \<open>Opening and taking back a pipe.\<close>

lemma set_pipe_frame [simp]:
  "desc (set_pipe s i g) f = desc s f" "task_fd_table_id (set_pipe s i g) = task_fd_table_id s"
  "task_fd_table_refs (set_pipe s i g) = task_fd_table_refs s" "users (set_pipe s i g) r = users s r"
  "current_files (set_pipe s i g) ct = current_files s ct"
  by (simp_all add: set_pipe_def desc_def users_def current_files_def)

lemma refs_set_pipe:
  "refs (set_pipe s i g) r = (if r = Pipe_R i then pi_readers (g (pipes s i)) else if r = Pipe_W i then pi_writers (g (pipes s i)) else refs s r)"
  by (cases r) (simp_all add: set_pipe_def)

lemma marked_set_pipe:
  "marked (set_pipe s i g) r = (if r = Pipe_R i then pi_readers (g (pipes s i)) \<noteq> 0 else if r = Pipe_W i then pi_writers (g (pipes s i)) \<noteq> 0 else marked s r)"
  by (cases r) (simp_all add: set_pipe_def)

lemma uses_pipe:
  assumes "fd_shared_offset d = None" "fd_input_state d = None"
  shows "uses (d\<lparr>fd_in_use := True, fd_type := FD_PIPE_R, fd_flags := x, fd_offset := y, fd_private := Pipe i\<rparr>) = {Pipe_R i}"
    "uses (d\<lparr>fd_in_use := True, fd_type := FD_PIPE_W, fd_flags := x, fd_offset := y, fd_private := Pipe i\<rparr>) = {Pipe_W i}"
  using assms by (simp_all add: uses_def endpoint_def shared_def)

lemma pipe_open_cases:
  assumes ok: "fd_ok s" and ct: "ct < 64" and r: "pipe_open s ct = (res, s')"
  defines "t \<equiv> current_files s ct"
  obtains (none) "res = None" "s' = s"
  | (pipe) a b i where "res = Some (a, b, i)" "a < b" "b < MAX_FILES" "i < PIPE_COUNT"
      "\<not> fd_in_use (desc s (t, a))" "\<not> fd_in_use (desc s (t, b))"
      "pi_readers (pipes s i) = 0" "pi_writers (pipes s i) = 0" "pi_count (pipes s i) = 0"
      "s' = set_desc (set_desc (set_pipe s i (\<lambda>p. p\<lparr>pi_rpos := 0, pi_wpos := 0, pi_count := 0, pi_readers := 1, pi_writers := 1\<rparr>))
          (t, a) (\<lambda>d. d\<lparr>fd_in_use := True, fd_type := FD_PIPE_R, fd_flags := 0, fd_offset := 0, fd_private := Pipe i\<rparr>))
          (t, b) (\<lambda>d. d\<lparr>fd_in_use := True, fd_type := FD_PIPE_W, fd_flags := 0, fd_offset := 0, fd_private := Pipe i\<rparr>)"
proof (cases "find_free_fd s ct")
  case None
  then show thesis using none r by (simp add: pipe_open_def)
next
  case a: (Some a)
  show thesis
  proof (cases "find (\<lambda>i. \<not> fd_in_use (desc s (t, i))) [Suc a..<MAX_FILES]")
    case None
    then show thesis using none r a by (simp add: pipe_open_def Let_def t_def)
  next
    case b: (Some b)
    show thesis
    proof (cases "find (\<lambda>i. pi_readers (pipes s i) = 0 \<and> pi_writers (pipes s i) = 0 \<and> pi_count (pipes s i) = 0) [0..<PIPE_COUNT]")
      case None
      then show thesis using none r a b by (simp add: pipe_open_def Let_def t_def)
    next
      case i: (Some i)
      show thesis
        by (rule pipe [of a b i]) (use r a b i free_fd [OF a] find_upt [OF b] find_upt [OF i] in \<open>simp_all add: pipe_open_def Let_def t_def\<close>)
    qed
  qed
qed

lemma pipe_open_ok:
  assumes ok: "fd_ok s" and ct: "ct < 64"
  shows "fd_ok (snd (pipe_open s ct))"
proof (rule pipe_open_cases [OF ok ct prod.collapse [symmetric]])
  fix a b i
  let ?t = "current_files s ct"
  assume s': "snd (pipe_open s ct) = set_desc (set_desc (set_pipe s i (\<lambda>p. p\<lparr>pi_rpos := 0, pi_wpos := 0, pi_count := 0, pi_readers := 1, pi_writers := 1\<rparr>))
          (?t, a) (\<lambda>d. d\<lparr>fd_in_use := True, fd_type := FD_PIPE_R, fd_flags := 0, fd_offset := 0, fd_private := Pipe i\<rparr>))
          (?t, b) (\<lambda>d. d\<lparr>fd_in_use := True, fd_type := FD_PIPE_W, fd_flags := 0, fd_offset := 0, fd_private := Pipe i\<rparr>)"
    and ab: "a < b" "b < MAX_FILES" "i < PIPE_COUNT" "\<not> fd_in_use (desc s (?t, a))" "\<not> fd_in_use (desc s (?t, b))"
    and z: "pi_readers (pipes s i) = 0" "pi_writers (pipes s i) = 0" "pi_count (pipes s i) = 0"
  let ?s0 = "set_pipe s i (\<lambda>p. p\<lparr>pi_rpos := 0, pi_wpos := 0, pi_count := 0, pi_readers := 1, pi_writers := 1\<rparr>)"
    and ?g = "\<lambda>d. d\<lparr>fd_in_use := True, fd_type := FD_PIPE_R, fd_flags := 0, fd_offset := 0, fd_private := Pipe i\<rparr>"
    and ?h = "\<lambda>d. d\<lparr>fd_in_use := True, fd_type := FD_PIPE_W, fd_flags := 0, fd_offset := 0, fd_private := Pipe i\<rparr>"
  have sa: "(?t, a) \<in> slots" "(?t, b) \<in> slots" "task_fd_table_refs s ?t \<noteq> 0"
    using current_slot [OF ok ct, of a] current_slot [OF ok ct, of b] ab by simp_all
  have d: "fd_shared_offset (desc s (?t, a)) = None" "fd_input_state (desc s (?t, a)) = None"
      "fd_shared_offset (desc s (?t, b)) = None" "fd_input_state (desc s (?t, b)) = None"
    using fd_okD(5) [OF ok sa(1)] fd_okD(5) [OF ok sa(2)] ab by (simp_all add: desc_ok_def)
  have u: "uses (desc s (?t, a)) = {}" "uses (desc s (?t, b)) = {}" using ab by (simp_all add: uses_def)
  have 1: "card (users (set_desc ?s0 (?t, a) ?g) r) = card (users s r) + of_bool (r = Pipe_R i)" for r
    using users_set [OF sa(1), of ?s0 ?g r] u(1) uses_pipe(1) [OF d(1,2)] by simp
  have 2: "card (users (snd (pipe_open s ct)) r) = card (users s r) + of_bool (r = Pipe_R i) + of_bool (r = Pipe_W i)" for r
    using users_set [OF sa(2), of "set_desc ?s0 (?t, a) ?g" ?h r] 1 [of r] u(2) uses_pipe(2) [OF d(3,4)] ab(1) s' by simp
  have B: "balanced (snd (pipe_open s ct))"
    unfolding balanced_def
  proof (intro conjI allI)
    fix r
    have "unat (refs s r) = card (users s r)" "marked s r \<longleftrightarrow> refs s r \<noteq> 0" using fd_okD(1) [OF ok] by (simp_all add: balanced_def)
    then show "unat (refs (snd (pipe_open s ct)) r) = card (users (snd (pipe_open s ct)) r)"
      "marked (snd (pipe_open s ct)) r = (refs (snd (pipe_open s ct)) r \<noteq> 0)"
      using 2 [of r] z by (auto simp: s' refs_set_pipe marked_set_pipe)
  qed
  have L: "local_step {(?t, a), (?t, b)} s (snd (pipe_open s ct))"
    unfolding local_step_def using B by (simp add: s' del: split_paired_All)
  show ?thesis
  proof (rule local_step_fd_ok [OF ok L])
    show "desc_ok (desc (snd (pipe_open s ct)) f)" if "f \<in> {(?t, a), (?t, b)}" for f
      using that ab by (auto simp: s' desc_ok_def typed_def)
  qed (use sa(3) in auto)
qed (use ok in simp)

lemma pipe_cancel_ok:
  assumes ok: "fd_ok s" and ct: "ct < 64" and r: "pipe_open s ct = (Some (a, b, i), s')"
  shows "fd_ok (pipe_cancel s' ct a b i)"
  using ok ct r
proof (cases rule: pipe_open_cases)
  case (pipe a' b' i')
  then have [simp]: "a' = a" "b' = b" "i' = i" by simp_all
  note P = pipe [simplified]
  let ?t = "current_files s ct" and ?c = "pipe_cancel s' ct a b i"
  have ct': "current_files s' ct = ?t" using P by (simp add: current_files_def)
  have sa: "(?t, a) \<in> slots" "(?t, b) \<in> slots" using current_slot(1) [OF ok ct] P by simp_all
  have D: "desc ?c h = (if h = (?t, a) \<or> h = (?t, b) then (desc s' h)\<lparr>fd_in_use := False, fd_private := No_Data\<rparr> else desc s h)" for h
    using P(2) by (simp add: pipe_cancel_def Let_def ct' pipe(10))
  have uc: "uses (desc ?c h) = uses (desc s h)" for h using D [of h] P(5,6) by (auto simp: uses_def)
  have R: "refs ?c r = refs s r \<and> marked ?c r = marked s r" for r
    using P(7,8) by (auto simp: pipe_cancel_def Let_def pipe(10) refs_set_pipe marked_set_pipe)
  have "balanced ?c" using fd_okD(1) [OF ok] R uc by (simp add: balanced_def users_def)
  then have L: "local_step {(?t, a), (?t, b)} s ?c"
    unfolding local_step_def using D by (simp add: pipe_cancel_def Let_def pipe(10) del: split_paired_All)
  show ?thesis
  proof (rule local_step_fd_ok [OF ok L])
    have "desc_ok (desc ?c (?t, a))" "desc_ok (desc ?c (?t, b))"
      unfolding D using fd_okD(5) [OF ok sa(1)] fd_okD(5) [OF ok sa(2)] P(2,5,6) by (simp_all add: pipe(10) desc_ok_def)
    then show "desc_ok (desc ?c f)" if "f \<in> {(?t, a), (?t, b)}" for f using that by blast
  qed (auto simp: D)
qed simp

section \<open>Closing\<close>

lemma pipe_live_users:
  assumes "\<And>t fd. t < MAX_FD_TABLES \<Longrightarrow> task_fd_table_refs s t = 0 \<Longrightarrow> fd < MAX_FILES \<Longrightarrow> \<not> fd_in_use (desc s (t, fd))"
  shows "unat (pipe_live s FD_PIPE_R i) = card (users s (Pipe_R i))" "unat (pipe_live s FD_PIPE_W i) = card (users s (Pipe_W i))"
proof -
  let ?L = "List.product (filter (\<lambda>t. task_fd_table_refs s t \<noteq> 0) [0..<MAX_FD_TABLES]) [0..<MAX_FILES]"
  have c: "unat (pipe_live s ty i) = card (users s r)"
    if r: "\<And>d. r \<in> uses d \<longleftrightarrow> fd_in_use d \<and> fd_private d = Pipe i \<and> fd_type d = ty" for ty r
  proof -
    let ?xs = "filter (\<lambda>f. fd_in_use (desc s f) \<and> fd_private (desc s f) = Pipe i \<and> fd_type (desc s f) = ty) ?L"
    have d: "distinct ?xs" by (intro distinct_filter distinct_product distinct_upt)
    have "set ?xs = users s r" using assms r by (auto simp: users_def slots_def)
    then have "length ?xs = card (users s r)" using distinct_card [OF d] by simp
    moreover have "card (users s r) < 2 ^ 32" using users_bound [of s r] by simp
    ultimately show ?thesis unfolding pipe_live_def by (simp add: unat_of_nat)
  qed
  show "unat (pipe_live s FD_PIPE_R i) = card (users s (Pipe_R i))"
    by (rule c) (auto simp: uses_def endpoint_def shared_def split: private_data.splits option.splits if_splits)
  show "unat (pipe_live s FD_PIPE_W i) = card (users s (Pipe_W i))"
    by (rule c) (auto simp: uses_def endpoint_def shared_def split: private_data.splits option.splits if_splits)
qed

text \<open>Dropping the offset and closing the slot is the release of a table's slot.\<close>

lemma drop_and_close:
  assumes "fd_in_use (desc s f)" "fd_type (desc s f) \<noteq> FD_EPOLL"
  shows "fd_mark_closed (fd_drop_resources s f) f = task_fd_release s f"
proof -
  have c: "input_state_release (set_desc s f g) i = set_desc (input_state_release s i) f g" for s g i
    by (simp add: input_state_release_def set_input_def set_desc_def desc_def)
  show ?thesis
    unfolding task_fd_release_eq [OF assms(1)] using assms
    by (cases "fd_shared_offset (desc s f)"; cases "fd_input_state (desc s f)")
      (simp_all add: fd_drop_resources_def fd_mark_closed_def shared_drop_def Let_def c set_desc_twice comp_def)
qed

lemma release_from_ok:
  assumes ok: "fd_ok s" and f: "f \<in> slots" "fd_in_use (desc s f)" and D: "\<And>h. desc s1 h = desc s h"
    and T: "task_fd_table_id s1 = task_fd_table_id s" "task_fd_table_refs s1 = task_fd_table_refs s"
    and R: "(\<And>r. r \<in> endpoint (desc s f) \<Longrightarrow> refs s r \<noteq> 0) \<Longrightarrow> releases s (endpoint (desc s f)) s1"
  shows "fd_ok (task_fd_release s1 f)"
proof -
  note L = release_from [OF f D T R]
  show ?thesis by (rule local_step_fd_ok [OF ok L(1)]) (use L(2) in auto)
qed

lemma close_pty_releases:
  assumes "fd_type d = FD_PTY_MASTER \<or> fd_type d = FD_PTY_SLAVE" "\<And>r. r \<in> endpoint d \<Longrightarrow> refs s r \<noteq> 0"
  shows "releases s (endpoint d) (close_pty s d)"
proof (rule releasesI)
  fix r
  show "refs (close_pty s d) r = refs s r - of_bool (r \<in> endpoint d)"
    using assms(1) assms(2) [of r] by (cases r)
      (auto simp: close_pty_def Let_def endpoint_def set_defs split: private_data.splits if_splits)
  show "marked (close_pty s d) r = marked s r" if "r \<notin> endpoint d"
    using that assms by (cases r) (auto simp: close_pty_def Let_def endpoint_def set_defs split: private_data.splits if_splits)
  show "marked (close_pty s d) r = (refs (close_pty s d) r \<noteq> 0)" if "r \<in> endpoint d"
    using that by (cases r) (auto simp: endpoint_def split: private_data.splits if_splits)
qed (simp_all add: close_pty_def set_defs split: private_data.split)

lemma set_same_count:
  assumes ok: "fd_ok s"
  shows "fd_ok (set_pipe s i (\<lambda>p. p\<lparr>pi_readers := pipe_live s FD_PIPE_R i\<rparr>))" "fd_ok (set_pipe s i (\<lambda>p. p\<lparr>pi_writers := pipe_live s FD_PIPE_W i\<rparr>))"
proof -
  have u: "unat (refs s r) = card (users s r)" for r using fd_okD(1) [OF ok] by (simp add: balanced_def)
  have "unat (pipe_live s FD_PIPE_R i) = unat (pi_readers (pipes s i))" "unat (pipe_live s FD_PIPE_W i) = unat (pi_writers (pipes s i))"
    using pipe_live_users [OF fd_okD(4) [OF ok]] u [of "Pipe_R i"] u [of "Pipe_W i"] by simp_all
  then have "pipe_live s FD_PIPE_R i = pi_readers (pipes s i)" "pipe_live s FD_PIPE_W i = pi_writers (pipes s i)"
    by (simp_all add: word_unat_eq_iff)
  then have "set_pipe s i (\<lambda>p. p\<lparr>pi_readers := pipe_live s FD_PIPE_R i\<rparr>) = s" "set_pipe s i (\<lambda>p. p\<lparr>pi_writers := pipe_live s FD_PIPE_W i\<rparr>) = s"
    by (simp_all add: set_pipe_def)
  then show "fd_ok (set_pipe s i (\<lambda>p. p\<lparr>pi_readers := pipe_live s FD_PIPE_R i\<rparr>))" "fd_ok (set_pipe s i (\<lambda>p. p\<lparr>pi_writers := pipe_live s FD_PIPE_W i\<rparr>))"
    using ok by simp_all
qed

lemma close_desc_ok:
  assumes ok: "fd_ok s" and f: "f \<in> slots" "fd_in_use (desc s f)"
  shows "fd_ok (close_desc s f)"
proof -
  let ?d = "desc s f"
  have ty: "typed ?d" using fd_okD(5) [OF ok f(1)] f(2) by (simp add: desc_ok_def)
  have plain: "fd_ok (task_fd_release (drop_endpoint s ?d) f)"
    by (rule release_from_ok [OF ok f]) (simp_all add: drop_endpoint_spec)
  have ne: "drop_endpoint s ?d = s" if "endpoint ?d = {}" "fd_type ?d \<noteq> FD_SOCKET"
    using that by (auto simp: drop_endpoint_def endpoint_def socket_fd_drop_ref_def split: private_data.splits if_splits)
  have close: "fd_mark_closed (fd_drop_resources s1 f) f = task_fd_release s1 f" if "desc s1 f = ?d" "fd_type ?d \<noteq> FD_EPOLL" for s1
    using drop_and_close [of s1 f] that f(2) by simp
  consider (pty) "fd_type ?d = FD_PTY_MASTER \<or> fd_type ?d = FD_PTY_SLAVE"
    | (r) i where "fd_type ?d = FD_PIPE_R" "fd_private ?d = Pipe i" | (w) i where "fd_type ?d = FD_PIPE_W" "fd_private ?d = Pipe i"
    | (sock) "fd_type ?d = FD_SOCKET" | (other) "fd_type ?d \<notin> {FD_PTY_MASTER, FD_PTY_SLAVE, FD_PIPE_R, FD_PIPE_W, FD_SOCKET}"
    using ty by (auto simp: typed_def split: fd_type.splits private_data.splits)
  then show ?thesis
  proof cases
    case pty
    have "fd_ok (task_fd_release (close_pty s ?d) f)"
      by (rule release_from_ok [OF ok f]) (use pty close_pty_releases in \<open>auto simp: close_pty_def set_defs split: private_data.split\<close>)
    moreover have "desc (close_pty s ?d) f = ?d" by (simp add: close_pty_def set_defs split: private_data.split)
    ultimately show ?thesis using pty close [of "close_pty s ?d"] by (auto simp: close_desc_def Let_def)
  next
    case (r i)
    have "drop_endpoint s ?d = set_pipe s i (\<lambda>p. if pi_readers p \<noteq> 0 then p\<lparr>pi_readers := pi_readers p - 1\<rparr> else p)"
      using r by (simp add: drop_endpoint_def)
    then show ?thesis
      using r close [of "drop_endpoint s ?d"] set_same_count(1) [OF plain] by (simp add: close_desc_def Let_def)
  next
    case (w i)
    have "drop_endpoint s ?d = set_pipe s i (\<lambda>p. if pi_writers p \<noteq> 0 then p\<lparr>pi_writers := pi_writers p - 1\<rparr> else p)"
      using w by (simp add: drop_endpoint_def)
    then show ?thesis
      using w close [of "drop_endpoint s ?d"] set_same_count(2) [OF plain] by (simp add: close_desc_def Let_def)
  next
    case sock
    then have "drop_endpoint s ?d = socket_fd_drop_ref s ?d"
      by (auto simp: drop_endpoint_def socket_fd_drop_ref_def split: private_data.split)
    then show ?thesis
      using sock close [of "drop_endpoint s ?d", OF desc_frames(1)] plain by (simp add: close_desc_def Let_def)
  next
    case other
    have "endpoint ?d = {}" using other by (auto simp: endpoint_def split: private_data.splits)
    then have "fd_ok (task_fd_release s f)" using plain ne other by simp
    then show ?thesis using other close [of s] by (cases "fd_type ?d = FD_EPOLL") (auto simp: close_desc_def Let_def)
  qed
qed

section \<open>The tables at boot\<close>

lemma init_desc:
  "desc (init_files s) f = (if fst f = 0 \<and> snd f < 3 then closed_desc\<lparr>fd_in_use := True, fd_type := FD_PSEUDO,
     fd_private := Dev (if snd f = 0 then DEV_TTY else DEV_CONSOLE)\<rparr> else closed_desc)"
  by (cases f) (auto simp: init_files_def Let_def desc_def set_desc_def numeral_3_eq_3 less_Suc_eq)

lemma init_tables: "task_fd_table_id (init_files s) = (\<lambda>ti. if ti = 0 then 0 else -1)"
  "task_fd_table_refs (init_files s) = (\<lambda>t. if t = 0 then 1 else 0)"
  by (simp_all add: init_files_def Let_def)

lemma init_ok:
  assumes "\<And>r. refs s r = 0 \<and> \<not> marked s r"
  shows "fd_ok (init_files s)"
proof (rule fd_okI)
  have "uses (desc (init_files s) f) = {}" for f
    by (auto simp: init_desc uses_def endpoint_def shared_def closed_desc_def)
  then have u: "users (init_files s) r = {}" for r by (simp add: users_def)
  have "refs (init_files s) r = 0 \<and> \<not> marked (init_files s) r" for r
    using assms [of r] by (cases r) (simp_all add: init_files_def Let_def set_desc_def)
  then show "balanced (init_files s)" by (simp add: balanced_def u)
  show "desc_ok (desc (init_files s) f)" for f by (auto simp: init_desc desc_ok_def typed_def closed_desc_def)
  show "unat (task_fd_table_refs (init_files s) t) = card (holders (init_files s) t)" if "t < MAX_FD_TABLES" for t
  proof -
    have "holders (init_files s) t = (if t = 0 then {0} else {})" by (auto simp: holders_def init_tables split: if_splits)
    then show ?thesis by (simp add: init_tables)
  qed
qed (auto simp: init_tables init_desc split: if_splits)

section \<open>Input queues\<close>

text \<open>
  The queue as the list of all events so far: the array holds the last 256 of them. A descriptor
  reads the events in order from its own cursor; when it has fallen behind, it skips the events that
  are no longer in the array.
\<close>

definition kbd_log :: "fd_state \<Rightarrow> input_event list \<Rightarrow> bool" where
  "kbd_log s l \<longleftrightarrow> length l < 2 ^ 64 \<and> keyboard_event_seq s = of_nat (length l)
     \<and> (\<forall>i<length l. length l \<le> i + 256 \<longrightarrow> input_event_queue s (i mod 256) = l ! i)"

lemma unat_mod_256: "unat ((x :: u64) mod 256) = unat x mod 256"
  by (simp add: unat_mod)

lemma kbd_push_log:
  assumes "kbd_log s l" "Suc (length l) < 2 ^ 64"
  shows "kbd_log (keyboard_push_event s e) (l @ [e])"
proof -
  have n: "unat (keyboard_event_seq s) = length l" using assms by (simp add: kbd_log_def unat_of_nat)
  have "input_event_queue (keyboard_push_event s e) (i mod 256) = (l @ [e]) ! i" if i: "i < Suc (length l)" "Suc (length l) \<le> i + 256" for i
  proof (cases "i = length l")
    case True
    then show ?thesis by (simp add: keyboard_push_event_def unat_mod_256 n)
  next
    case False
    then have "\<not> 256 dvd length l - i" using i by (auto dest: dvd_imp_le)
    then have "i mod 256 \<noteq> length l mod 256" using mod_eq_dvd_iff_nat [of i "length l" 256] i by auto
    moreover have "input_event_queue s (i mod 256) = l ! i" using assms(1) i False by (simp add: kbd_log_def)
    ultimately show ?thesis using i False by (simp add: keyboard_push_event_def unat_mod_256 n nth_append)
  qed
  then show ?thesis using assms by (simp add: kbd_log_def keyboard_push_event_def)
qed

definition cursor :: "fd_state \<Rightarrow> slot \<Rightarrow> nat" where
  "cursor s f = unat (input_fd_seq s f)"

lemma input_fd_seq_set_get [simp]: "input_fd_seq (input_fd_seq_set s f q) f = q"
  by (simp add: input_fd_seq_def input_fd_seq_set_def Let_def set_input_def desc_def set_desc_def split: option.split)

lemma input_fd_seq_set_queue [simp]:
  "input_event_queue (input_fd_seq_set s f q) = input_event_queue s" "keyboard_event_seq (input_fd_seq_set s f q) = keyboard_event_seq s"
  by (simp_all add: input_fd_seq_set_def Let_def set_input_def set_desc_def split: option.split)

lemma is_device_seq [simp]: "is_device (input_fd_seq_set s f q) g dev = is_device s g dev"
  by (cases "g = f") (simp_all add: is_device_def input_fd_seq_set_def Let_def set_input_def desc_def set_desc_def split: option.split)

lemma kbd_sync:
  assumes "kbd_log s l" "is_device s f DEV_INPUT"
  shows "cursor (keyboard_fd_sync s f) f = max (cursor s f) (length l - 256)" "kbd_log (keyboard_fd_sync s f) l"
proof -
  have n: "unat (keyboard_event_seq s) = length l" using assms by (simp add: kbd_log_def unat_of_nat)
  have o: "unat (keyboard_event_oldest_seq s) = length l - 256"
    using n unat_sub [of 256 "keyboard_event_seq s"] by (auto simp: keyboard_event_oldest_seq_def word_less_nat_alt word_le_nat_alt)
  show "cursor (keyboard_fd_sync s f) f = max (cursor s f) (length l - 256)"
    using assms(2) o by (auto simp: keyboard_fd_sync_def cursor_def word_less_nat_alt)
  show "kbd_log (keyboard_fd_sync s f) l"
    using assms by (simp add: keyboard_fd_sync_def kbd_log_def)
qed

lemma kbd_pop:
  assumes "kbd_log s l" "is_device s f DEV_INPUT" "keyboard_pop_event_fd s f = (r, s')"
  defines "c \<equiv> max (cursor s f) (length l - 256)"
  shows "kbd_log s' l \<and> (if c < length l then r = Some (l ! c) \<and> cursor s' f = Suc c else r = None)"
proof -
  define s1 where "s1 = keyboard_fd_sync s f"
  have k: "cursor s1 f = c" "kbd_log s1 l" unfolding s1_def c_def by (rule kbd_sync [OF assms(1,2)])+
  have n: "unat (keyboard_event_seq s1) = length l" "length l < 2 ^ 64" using k by (simp_all add: kbd_log_def unat_of_nat)
  have e: "keyboard_pop_event_fd s f =
      (if input_fd_seq s1 f < keyboard_event_seq s1
       then (Some (input_event_queue s1 (unat (input_fd_seq s1 f mod INPUT_EVENT_CAP))), input_fd_seq_set s1 f (input_fd_seq s1 f + 1))
       else (None, s1))"
    using assms(2) by (simp add: keyboard_pop_event_fd_def keyboard_fd_ready_def Let_def s1_def)
  have lt: "input_fd_seq s1 f < keyboard_event_seq s1 \<longleftrightarrow> c < length l" using k(1) n by (simp add: word_less_nat_alt cursor_def)
  show ?thesis
  proof (cases "c < length l")
    case True
    then have q: "input_event_queue s1 (c mod 256) = l ! c" using k(2) by (auto simp: kbd_log_def c_def)
    have "unat (input_fd_seq s1 f + 1) = Suc c"
      using k(1) True n unat_add_lem [of "input_fd_seq s1 f" 1] by (simp add: cursor_def)
    then show ?thesis
      using e lt True q k assms(3) by (auto simp: unat_mod_256 cursor_def kbd_log_def)
  qed (use e lt k assms(3) in auto)
qed

text \<open>Two descriptors have one cursor: they are the same, or copies that share it.\<close>

definition one_cursor :: "fd_state \<Rightarrow> slot \<Rightarrow> slot \<Rightarrow> bool" where
  "one_cursor s f g \<longleftrightarrow> f = g \<or>
     (\<exists>i. fd_input_state (desc s f) = Some i \<and> fd_input_state (desc s g) = Some i \<and> in_used (input_open_states s i))"

lemma seq_set_other: "input_fd_seq (input_fd_seq_set s f q) g = (if one_cursor s f g then q else input_fd_seq s g)"
  by (auto simp: one_cursor_def input_fd_seq_def input_fd_seq_set_def Let_def set_input_def desc_def set_desc_def prod_eq_iff split: option.split)

lemma seq_shared: "one_cursor s f g \<Longrightarrow> input_fd_seq s g = input_fd_seq s f"
  by (auto simp: one_cursor_def input_fd_seq_def)

lemma one_cursor_seq [simp]: "one_cursor (input_fd_seq_set s f q) = one_cursor s"
  by (auto simp: fun_eq_iff one_cursor_def input_fd_seq_set_def Let_def set_input_def desc_def set_desc_def split: option.split)

lemma one_cursor_refl [simp]: "one_cursor s f f"
  by (simp add: one_cursor_def)

text \<open>Keys are pressed and descriptors are read.\<close>

datatype kbd_op = Press input_event | Read slot

fun kbd_step :: "fd_state \<Rightarrow> kbd_op \<Rightarrow> input_event option \<times> fd_state" where
  "kbd_step s (Press e) = (None, keyboard_push_event s e)"
| "kbd_step s (Read f) = keyboard_pop_event_fd s f"

text \<open>
  The same on the list of all events and the number of the next event of each descriptor: a press
  appends an event and moves no cursor; a read returns the event at its cursor, or the oldest of the last 256
  when the cursor has fallen behind, and moves its cursor and that of its copies behind it.
\<close>

fun log_step :: "(slot \<Rightarrow> slot \<Rightarrow> bool) \<Rightarrow> input_event list \<times> (slot \<Rightarrow> nat) \<Rightarrow> kbd_op \<Rightarrow> input_event option \<times> input_event list \<times> (slot \<Rightarrow> nat)" where
  "log_step one (l, c) (Press e) = (None, l @ [e], c)"
| "log_step one (l, c) (Read f) =
     (let p = max (c f) (length l - 256) in
      if p < length l then (Some (l ! p), l, \<lambda>g. if one f g then Suc p else c g) else (None, l, c))"

definition keyboards :: "fd_state \<Rightarrow> kbd_op list \<Rightarrow> bool" where
  "keyboards s ops \<longleftrightarrow> (\<forall>f. Read f \<in> set ops \<longrightarrow> is_device s f DEV_INPUT)"

lemma kbd_step_refines:
  assumes l: "kbd_log s l" and n: "Suc (length l) < 2 ^ 64" and k: "keyboards s [x]" and st: "kbd_step s x = (r, s')"
  shows "\<exists>l'. log_step (one_cursor s) (l, cursor s) x = (r, l', cursor s') \<and> kbd_log s' l' \<and> length l' \<le> Suc (length l)
    \<and> one_cursor s' = one_cursor s \<and> is_device s' = is_device s"
proof (cases x)
  case (Press e)
  have "cursor s' = cursor s" "one_cursor s' = one_cursor s" "is_device s' = is_device s"
    using st Press by (auto simp: fun_eq_iff cursor_def one_cursor_def is_device_def keyboard_push_event_def input_fd_seq_def desc_def split: option.split)
  then show ?thesis using kbd_push_log [OF l n, of e] st Press by auto
next
  case (Read f)
  have d: "is_device s f DEV_INPUT" using k Read by (simp add: keyboards_def)
  let ?p = "max (cursor s f) (length l - 256)"
  have P: "kbd_log s' l" "if ?p < length l then r = Some (l ! ?p) \<and> cursor s' f = Suc ?p else r = None"
    using kbd_pop [OF l d] st Read by auto
  let ?s1 = "keyboard_fd_sync s f"
  have e: "s' = (if ?p < length l then input_fd_seq_set ?s1 f (input_fd_seq ?s1 f + 1) else ?s1)"
  proof -
    have "unat (keyboard_event_seq ?s1) = length l" using kbd_sync(2) [OF l d] by (simp add: kbd_log_def unat_of_nat)
    then have "input_fd_seq ?s1 f < keyboard_event_seq ?s1 \<longleftrightarrow> ?p < length l"
      using kbd_sync(1) [OF l d] by (simp add: word_less_nat_alt cursor_def)
    then show ?thesis using st Read d by (auto simp: keyboard_pop_event_fd_def keyboard_fd_ready_def Let_def split: if_splits)
  qed
  have s1: "?s1 = s \<or> ?s1 = input_fd_seq_set s f (keyboard_event_oldest_seq s)" by (simp add: keyboard_fd_sync_def)
  have o1: "one_cursor ?s1 = one_cursor s" using s1 by auto
  have same: "one_cursor s' = one_cursor s" "is_device s' = is_device s" using s1 by (auto simp: e fun_eq_iff)
  have c1: "cursor ?s1 g = (if one_cursor s f g then cursor ?s1 f else cursor s g)" for g
    using s1 seq_shared [of s f g] by (auto simp: cursor_def seq_set_other)
  show ?thesis
  proof (cases "?p < length l")
    case True
    have "cursor s' g = (if one_cursor s f g then Suc ?p else cursor s g)" for g
    proof -
      have "cursor s' g = (if one_cursor s f g then cursor s' f else cursor ?s1 g)"
        using True by (simp add: e cursor_def seq_set_other o1)
      then show ?thesis using P(2) True c1 [of g] by (cases "one_cursor s f g") simp_all
    qed
    then have "cursor s' = (\<lambda>g. if one_cursor s f g then Suc ?p else cursor s g)" by blast
    then show ?thesis using P True Read same by (simp add: Let_def)
  next
    case False
    then have "cursor s f = ?p" by auto
    then have "cursor ?s1 f = cursor s f" using kbd_sync(1) [OF l d] by simp
    moreover have "s' = ?s1" using False e by (simp only: if_False)
    ultimately have "cursor s' g = cursor s g" for g
      using c1 [of g] seq_shared [of s f g] by (cases "one_cursor s f g") (simp_all add: cursor_def)
    then have "cursor s' = cursor s" by blast
    moreover have "r = None" using P(2) False by (simp only: if_False)
    ultimately show ?thesis using P(1) same unfolding Read log_step.simps Let_def if_not_P [OF False] by simp
  qed
qed

section \<open>Properties\<close>

text \<open>
  \<^verbatim>\<open>dup\<close> on a consistent state: an unopened descriptor is refused; otherwise the lowest free
  descriptor from the minimum on, or the error for a full table, is returned; the copy refers to the
  same objects, has the close-on-exec flag as asked and changes no other descriptor.
\<close>

theorem dup_lowest_free:
  assumes "fd_ok s" "ct < 64" "sys_dup_internal s ct oldfd minfd cloexec = (r, s')"
  shows "(\<not> open_fd s ct oldfd \<and> r = -9 \<and> s' = s)
    \<or> (open_fd s ct oldfd \<and> r = - EMFILE \<and> s' = s \<and> (\<forall>i. nat minfd \<le> i \<and> i < MAX_FILES \<longrightarrow> fd_in_use (desc s (current_files s ct, i))))
    \<or> (\<exists>n. open_fd s ct oldfd \<and> r = int n \<and> nat minfd \<le> n \<and> n < MAX_FILES \<and> \<not> fd_in_use (desc s (current_files s ct, n))
        \<and> (\<forall>i. nat minfd \<le> i \<and> i < n \<longrightarrow> fd_in_use (desc s (current_files s ct, i)))
        \<and> uses (desc s' (current_files s ct, n)) = uses (desc s (current_files s ct, nat oldfd))
        \<and> (fd_flags (desc s' (current_files s ct, n)) AND O_CLOEXEC = (if cloexec then O_CLOEXEC else 0))
        \<and> (\<forall>h. h \<noteq> (current_files s ct, n) \<longrightarrow> desc s' h = desc s h))"
  using assms
proof (cases rule: dup_internal_cases)
  case (dup n)
  have "fd_flags (dup_flags cloexec d) AND O_CLOEXEC = (if cloexec then O_CLOEXEC else 0)" for d
    by (simp add: dup_flags_def Let_def and.assoc bit.conj_disj_distrib2)
  then have "fd_flags (desc s' (current_files s ct, n)) AND O_CLOEXEC = (if cloexec then O_CLOEXEC else 0)" using dup(8) by simp
  moreover have "uses (desc s' (current_files s ct, n)) = uses (desc s (current_files s ct, nat oldfd))" using dup(8) by simp
  moreover have "\<forall>h. h \<noteq> (current_files s ct, n) \<longrightarrow> desc s' h = desc s h" using local_stepD(4) [OF dup(7)] by blast
  ultimately show ?thesis using dup(1-6) by blast
qed auto

text \<open>
  C32. The keyboard queue delivers events in order. For every sequence of key presses and reads, through any
  keyboard descriptors, the reads return what they return on the list of all events with a cursor for each
  descriptor: a press appends an event and moves no cursor; a read returns the event at its cursor, or the oldest of
  the last 256 when the cursor has fallen behind, and moves its own cursor and that of its copies past it and no other;
  a read with no newer event returns nothing and moves no cursor. At the end the queue holds the last 256 events
  of the list and the cursors are those of the list.
\<close>

theorem keyboard_in_order:
  assumes "kbd_log s l" "length l + length ops < 2 ^ 64" "keyboards s ops" "run_calls kbd_step s ops = (rs, s')"
  shows "\<exists>l'. run_calls (log_step (one_cursor s)) (l, cursor s) ops = (rs, l', cursor s') \<and> kbd_log s' l'"
  using assms
proof (induction ops arbitrary: s l rs)
  case (Cons x ops)
  obtain r s1 where x: "kbd_step s x = (r, s1)" by (cases "kbd_step s x")
  obtain rs' where o: "run_calls kbd_step s1 ops = (rs', s')" "rs = r # rs'" using Cons.prems(4) x by (auto split: prod.splits)
  have "keyboards s [x]" using Cons.prems(3) by (simp add: keyboards_def)
  then obtain l1 where l1: "log_step (one_cursor s) (l, cursor s) x = (r, l1, cursor s1)" "kbd_log s1 l1" "length l1 \<le> Suc (length l)"
    "one_cursor s1 = one_cursor s" "is_device s1 = is_device s"
    using kbd_step_refines [OF Cons.prems(1) _ _ x] Cons.prems(2) by auto
  have "keyboards s1 ops" using Cons.prems(3) l1(5) by (simp add: keyboards_def)
  then show ?case using Cons.IH [OF l1(2) _ _ o(1)] l1 o(2) Cons.prems(2) by auto
qed simp

section \<open>A concrete state\<close>

definition boot_fds :: fd_state where
  "boot_fds = init_files zero_fds"

lemma boot_ok: "fd_ok boot_fds"
proof -
  have "refs zero_fds r = 0 \<and> \<not> marked zero_fds r" for r by (cases r) (simp_all add: zero_fds_def)
  then show ?thesis unfolding boot_fds_def by (rule init_ok)
qed

lemma boot_desc: "current_files boot_fds 0 = 0" "fd_in_use (desc boot_fds (0, i)) \<longleftrightarrow> i < 3"
  by (auto simp: boot_fds_def current_files_def init_tables valid_table_def init_desc)

theorem dup_lowest_free_witness: "sys_dup_internal boot_fds 0 1 0 False = (3, snd (sys_dup_internal boot_fds 0 1 0 False))"
proof -
  obtain r s' where e: "sys_dup_internal boot_fds 0 1 0 False = (r, s')" by (rule prod.exhaust)
  have o: "open_fd boot_fds 0 1" by (simp add: open_fd_def boot_desc)
  have f: "\<not> (\<forall>i. nat 0 \<le> i \<and> i < MAX_FILES \<longrightarrow> fd_in_use (desc boot_fds (0, i)))" using boot_desc(2) [of 5] by (auto intro!: exI [of _ 5])
  have "\<exists>n. r = int n \<and> \<not> n < 3 \<and> (\<forall>i. i < n \<longrightarrow> i < 3)"
    using dup_lowest_free [OF boot_ok, of 0 1 0 False r s'] e o f unfolding boot_desc by auto
  then have "r = 3" by (metis less_antisym linorder_neqE_nat less_irrefl of_nat_numeral numeral_3_eq_3 lessI)
  then show ?thesis using e by simp
qed

text \<open>Two descriptors for the keyboard, with a cursor each.\<close>

definition demo_kbd :: fd_state where
  "demo_kbd = zero_fds\<lparr>task_fd_tables := \<lambda>_ n. if n = 3 \<or> n = 4 then closed_desc\<lparr>fd_in_use := True, fd_type := FD_PSEUDO, fd_private := Dev DEV_INPUT\<rparr> else closed_desc\<rparr>"

definition demo_key :: "u16 \<Rightarrow> input_event" where
  "demo_key x = \<lparr>ie_sec = 1, ie_usec = 2, ie_type = 1, ie_code = x, ie_value = 1\<rparr>"

theorem keyboard_in_order_witness:
  "fst (run_calls kbd_step demo_kbd [Press (demo_key 30), Read (0, 3), Press (demo_key 31), Read (0, 3), Read (0, 4), Read (0, 3)])
     = [None, Some (demo_key 30), None, Some (demo_key 31), Some (demo_key 30), None]"
proof -
  let ?ops = "[Press (demo_key 30), Read (0, 3), Press (demo_key 31), Read (0, 3), Read (0, 4), Read (0, 3)]"
  have l: "kbd_log demo_kbd []" by (simp add: kbd_log_def demo_kbd_def zero_fds_def)
  have k: "keyboards demo_kbd ?ops" by (auto simp: keyboards_def is_device_def demo_kbd_def desc_def)
  have c: "cursor demo_kbd f = 0" "\<not> one_cursor demo_kbd (0, 3) (0, 4)" "\<not> one_cursor demo_kbd (0, 4) (0, 3)" "one_cursor demo_kbd f f" for f
    by (auto simp: cursor_def one_cursor_def input_fd_seq_def demo_kbd_def desc_def closed_desc_def)
  obtain rs s' where r: "run_calls kbd_step demo_kbd ?ops = (rs, s')" by fastforce
  from keyboard_in_order [OF l _ k r] obtain l' where "run_calls (log_step (one_cursor demo_kbd)) ([], cursor demo_kbd) ?ops = (rs, l', cursor s')" by auto
  then have "rs = [None, Some (demo_key 30), None, Some (demo_key 31), Some (demo_key 30), None]"
    by (simp add: c Let_def)
  then show ?thesis using r by simp
qed

end
