(* ===== verification/Ring.thy ===== *)
theory Ring
  imports Fd
begin

text \<open>
  Byte queues in ring buffers. The kernel has three of them: the two directions of a pseudo
  terminal, the pipe and the two directions of a local socket; each keeps an array, a read position, a
  write position and a count. The locale \<open>byte_queue\<close> states the contract of such a queue and
  what follows for every sequence of puts and gets; the loops of the kernel are shown to satisfy
  it.
\<close>

section \<open>The contract\<close>

datatype queue_op = Put "u8 list" | Get nat

text \<open>A run of operations: the bytes accepted, the bytes handed out and the queue at the end.\<close>

fun queue_run :: "('q \<Rightarrow> u8 list \<Rightarrow> nat \<times> 'q) \<Rightarrow> ('q \<Rightarrow> nat \<Rightarrow> u8 list \<times> 'q) \<Rightarrow> 'q \<Rightarrow> queue_op list \<Rightarrow> u8 list \<times> u8 list \<times> 'q" where
  "queue_run put get q [] = ([], [], q)"
| "queue_run put get q (Put bs # ops) =
     (let (n, q) = put q bs; (i, out, q) = queue_run put get q ops in (take n bs @ i, out, q))"
| "queue_run put get q (Get n # ops) =
     (let (bs, q) = get q n; (i, out, q) = queue_run put get q ops in (i, bs @ out, q))"

text \<open>\<open>enc\<close> is the translation that the queue applies to what is written.\<close>

locale byte_queue =
  fixes ok :: "'q \<Rightarrow> bool" and contents :: "'q \<Rightarrow> u8 list" and enc :: "u8 list \<Rightarrow> u8 list"
    and put :: "'q \<Rightarrow> u8 list \<Rightarrow> nat \<times> 'q" and get :: "'q \<Rightarrow> nat \<Rightarrow> u8 list \<times> 'q"
  assumes enc_append: "enc (bs @ cs) = enc bs @ enc cs"
    and put_spec: "ok q \<Longrightarrow> put q bs = (n, q') \<Longrightarrow> ok q' \<and> contents q' = contents q @ enc (take n bs)"
    and get_spec: "ok q \<Longrightarrow> get q n = (bs, q') \<Longrightarrow>
      ok q' \<and> bs = take n (contents q) \<and> contents q' = drop n (contents q)"
begin

lemma enc_Nil: "enc [] = []"
  using enc_append [of "[]" "[]"] by simp

lemma run_fifo:
  assumes "ok q" "queue_run put get q ops = (i, out, q')"
  shows "ok q' \<and> contents q @ enc i = out @ contents q'"
  using assms
proof (induction ops arbitrary: q i out q')
  case Nil
  then show ?case by (simp add: enc_Nil)
next
  case (Cons oper ops)
  show ?case
  proof (cases oper)
    case (Put bs)
    obtain n q1 where p: "put q bs = (n, q1)" by (rule prod.exhaust)
    obtain i2 out2 q2 where r: "queue_run put get q1 ops = (i2, out2, q2)" by (metis prod_cases3)
    show ?thesis using Cons.IH [OF _ r] put_spec [OF Cons.prems(1) p] Cons.prems(2) Put p r
      by (auto simp: enc_append)
  next
    case (Get n)
    obtain bs q1 where p: "get q n = (bs, q1)" by (rule prod.exhaust)
    obtain i2 out2 q2 where r: "queue_run put get q1 ops = (i2, out2, q2)" by (metis prod_cases3)
    show ?thesis using Cons.IH [OF _ r] get_spec [OF Cons.prems(1) p] Cons.prems(2) Get p r
      by auto (metis append.assoc append_take_drop_id)
  qed
qed

end

section \<open>Rings\<close>

record ring =
  rg_buf :: "nat \<Rightarrow> u8"
  rg_r :: u32
  rg_w :: u32
  rg_n :: u32

text \<open>
  \<^verbatim>\<open>pty_ring_write\<close> and \<^verbatim>\<open>pty_ring_read\<close>, with the size of the array as an argument;
  \<open>ring_push\<close> and \<open>ring_pop\<close> are the bodies of their loops.
\<close>

definition ring_push :: "u32 \<Rightarrow> ring \<Rightarrow> u8 \<Rightarrow> ring" where
  "ring_push cap q b =
     q\<lparr>rg_buf := (rg_buf q)(unat (rg_w q) := b), rg_w := (rg_w q + 1) mod cap, rg_n := rg_n q + 1\<rparr>"

definition ring_pop :: "u32 \<Rightarrow> ring \<Rightarrow> ring" where
  "ring_pop cap q = q\<lparr>rg_r := (rg_r q + 1) mod cap, rg_n := rg_n q - 1\<rparr>"

fun ring_write :: "u32 \<Rightarrow> ring \<Rightarrow> u8 list \<Rightarrow> nat \<times> ring" where
  "ring_write cap q [] = (0, q)"
| "ring_write cap q (b # bs) =
     (if rg_n q < cap then let (d, q) = ring_write cap (ring_push cap q b) bs in (Suc d, q) else (0, q))"

fun ring_read :: "u32 \<Rightarrow> ring \<Rightarrow> nat \<Rightarrow> u8 list \<times> ring" where
  "ring_read cap q 0 = ([], q)"
| "ring_read cap q (Suc n) =
     (if rg_n q \<noteq> 0 then let (bs, q') = ring_read cap (ring_pop cap q) n in (rg_buf q (unat (rg_r q)) # bs, q')
      else ([], q))"

definition ring_contents :: "u32 \<Rightarrow> ring \<Rightarrow> u8 list" where
  "ring_contents cap q = map (\<lambda>i. rg_buf q ((unat (rg_r q) + i) mod unat cap)) [0..<unat (rg_n q)]"

definition ring_ok :: "u32 \<Rightarrow> ring \<Rightarrow> bool" where
  "ring_ok cap q \<longleftrightarrow> 0 < cap \<and> cap \<le> 65536 \<and> rg_n q \<le> cap \<and> rg_r q < cap
     \<and> unat (rg_w q) = (unat (rg_r q) + unat (rg_n q)) mod unat cap"

lemma ring_okD:
  assumes "ring_ok cap q"
  shows "0 < unat cap" "unat cap \<le> 65536" "unat (rg_n q) \<le> unat cap" "unat (rg_r q) < unat cap"
    "unat (rg_w q) = (unat (rg_r q) + unat (rg_n q)) mod unat cap"
  using assms by (auto simp: ring_ok_def word_less_nat_alt word_le_nat_alt)

lemma unat_inc32: "unat x < 65536 \<Longrightarrow> unat ((x :: u32) + 1) = unat x + 1"
  using unat_add_lem [of x 1] by simp

lemma ring_push_spec:
  assumes ok: "ring_ok cap q" and lt: "rg_n q < cap"
  shows "ring_ok cap (ring_push cap q b)" "ring_contents cap (ring_push cap q b) = ring_contents cap q @ [b]"
    "unat (rg_n (ring_push cap q b)) = unat (rg_n q) + 1"
proof -
  let ?q = "ring_push cap q b"
  note O = ring_okD [OF ok]
  have l: "unat (rg_n q) < unat cap" using lt by (simp add: word_less_nat_alt)
  have w: "unat (rg_w q) < unat cap" using O(1,5) by simp
  show n: "unat (rg_n ?q) = unat (rg_n q) + 1" using l O(2) by (simp add: ring_push_def unat_inc32)
  have w': "unat ((rg_w q + 1) mod cap) = (unat (rg_w q) + 1) mod unat cap" using w O(2) by (simp add: unat_mod unat_inc32)
  show "ring_ok cap ?q"
    using ok l n w' O by (simp add: ring_ok_def ring_push_def word_le_nat_alt mod_Suc_eq)
  have "(unat (rg_r q) + i) mod unat cap \<noteq> unat (rg_w q)" if "i < unat (rg_n q)" for i
  proof
    assume e: "(unat (rg_r q) + i) mod unat cap = unat (rg_w q)"
    have "(unat (rg_r q) + unat (rg_n q)) mod unat cap = (unat (rg_r q) + i) mod unat cap" using e O(5) by simp
    then have "unat cap dvd unat (rg_n q) - i" using that mod_eq_dvd_iff_nat [of "unat (rg_r q) + i" "unat (rg_r q) + unat (rg_n q)" "unat cap"] by simp
    then show False using that l by (auto dest: dvd_imp_le)
  qed
  then show "ring_contents cap ?q = ring_contents cap q @ [b]"
    unfolding ring_contents_def n using O(5) by (auto simp: ring_push_def)
qed

lemma ring_write_spec:
  assumes "ring_ok cap q" "ring_write cap q bs = (n, q')"
  shows "ring_ok cap q' \<and> n = min (length bs) (unat cap - unat (rg_n q)) \<and> ring_contents cap q' = ring_contents cap q @ take n bs"
  using assms
proof (induction bs arbitrary: q n q')
  case (Cons b bs)
  show ?case
  proof (cases "rg_n q < cap")
    case True
    note P = ring_push_spec [OF Cons.prems(1) True, of b]
    obtain d q2 where e: "ring_write cap (ring_push cap q b) bs = (d, q2)" by (rule prod.exhaust)
    have l: "unat (rg_n q) < unat cap" using True by (simp add: word_less_nat_alt)
    show ?thesis using Cons.IH [OF P(1) e] P(2,3) True e Cons.prems(2) l by auto
  next
    case False
    then show ?thesis using Cons.prems by (auto simp: word_less_nat_alt)
  qed
qed auto

lemma ring_pop_spec:
  assumes ok: "ring_ok cap q" and ne: "rg_n q \<noteq> 0"
  shows "ring_ok cap (ring_pop cap q)" "ring_contents cap q = rg_buf q (unat (rg_r q)) # ring_contents cap (ring_pop cap q)"
proof -
  let ?q = "ring_pop cap q"
  note O = ring_okD [OF ok]
  have n0: "0 < unat (rg_n q)" using ne by (simp add: unat_gt_0)
  have n: "unat (rg_n ?q) = unat (rg_n q) - 1" using ne by (simp add: ring_pop_def unat_minus_one)
  have r: "unat (rg_r ?q) = (unat (rg_r q) + 1) mod unat cap" using O(2,4) by (simp add: ring_pop_def unat_mod unat_inc32)
  have "(unat (rg_r ?q) + unat (rg_n ?q)) mod unat cap = (unat (rg_r q) + 1 + (unat (rg_n q) - 1)) mod unat cap"
    unfolding r n by (rule mod_add_left_eq)
  then show "ring_ok cap ?q"
    using ok n r O n0 by (simp add: ring_ok_def ring_pop_def word_le_nat_alt word_less_nat_alt mod_simps)
  have "[0..<unat (rg_n q)] = 0 # map Suc [0..<unat (rg_n ?q)]" using n n0 by (simp add: map_Suc_upt upt_conv_Cons)
  then show "ring_contents cap q = rg_buf q (unat (rg_r q)) # ring_contents cap ?q"
    unfolding ring_contents_def r using O(4) by (simp add: ring_pop_def mod_simps)
qed

lemma ring_read_spec:
  assumes "ring_ok cap q" "ring_read cap q n = (bs, q')"
  shows "ring_ok cap q' \<and> bs = take n (ring_contents cap q) \<and> ring_contents cap q' = drop n (ring_contents cap q)"
  using assms
proof (induction n arbitrary: q bs q')
  case (Suc n)
  show ?case
  proof (cases "rg_n q = 0")
    case True
    then show ?thesis using Suc.prems by (auto simp: ring_contents_def)
  next
    case False
    note P = ring_pop_spec [OF Suc.prems(1) False]
    obtain bs2 q2 where e: "ring_read cap (ring_pop cap q) n = (bs2, q2)" by (rule prod.exhaust)
    show ?thesis using Suc.IH [OF P(1) e] P(2) False e Suc.prems(2) by auto
  qed
qed auto

lemma ring_contents_length [simp]: "length (ring_contents cap q) = unat (rg_n q)"
  by (simp add: ring_contents_def)

interpretation ring: byte_queue "ring_ok cap" "ring_contents cap" "\<lambda>bs. bs" "ring_write cap" "ring_read cap" for cap
  by unfold_locales (simp, use ring_write_spec in blast, use ring_read_spec in blast)

end
