(* ===== verification/Pty.thy ===== *)
theory Pty
  imports Ring
begin

text \<open>
  The pseudo terminals of \<^verbatim>\<open>src/src/kernel/main.c\<close>, as far as they concern one terminal:
  its settings, the output side with its newline translation, echo, the line buffer of canonical
  mode and the tests that decide whether a reader may go on. The functions that signal or wake
  tasks follow in \<open>Tty\<close>.
\<close>

section \<open>Settings\<close>

abbreviation (input) PTY_CAP :: u32 where "PTY_CAP \<equiv> 65536"
abbreviation (input) PTY_COUNT :: nat where "PTY_COUNT \<equiv> 8"
abbreviation (input) ICANON :: u32 where "ICANON \<equiv> 0x2"
abbreviation (input) ECHO :: u32 where "ECHO \<equiv> 0x8"
abbreviation (input) ISIG :: u32 where "ISIG \<equiv> 0x1"
abbreviation (input) INLCR :: u32 where "INLCR \<equiv> 0x40"
abbreviation (input) IGNCR :: u32 where "IGNCR \<equiv> 0x80"
abbreviation (input) ICRNL :: u32 where "ICRNL \<equiv> 0x100"
abbreviation (input) IXANY :: u32 where "IXANY \<equiv> 0x800"
abbreviation (input) IXON :: u32 where "IXON \<equiv> 0x400"
abbreviation (input) OPOST :: u32 where "OPOST \<equiv> 0x1"
abbreviation (input) ONLCR :: u32 where "ONLCR \<equiv> 0x4"
abbreviation (input) ECHONL :: u32 where "ECHONL \<equiv> 0x40"
abbreviation (input) ECHOE :: u32 where "ECHOE \<equiv> 0x10"
abbreviation (input) ECHOK :: u32 where "ECHOK \<equiv> 0x20"
abbreviation (input) NOFLSH :: u32 where "NOFLSH \<equiv> 0x80"
abbreviation (input) ECHOCTL :: u32 where "ECHOCTL \<equiv> 0x200"
abbreviation (input) VINTR :: int where "VINTR \<equiv> 0"
abbreviation (input) VQUIT :: int where "VQUIT \<equiv> 1"
abbreviation (input) VERASE :: int where "VERASE \<equiv> 2"
abbreviation (input) VKILL :: int where "VKILL \<equiv> 3"
abbreviation (input) VEOF :: int where "VEOF \<equiv> 4"
abbreviation (input) VSTART :: int where "VSTART \<equiv> 8"
abbreviation (input) VSTOP :: int where "VSTOP \<equiv> 9"
abbreviation (input) VSUSP :: int where "VSUSP \<equiv> 10"
abbreviation (input) VEOL :: int where "VEOL \<equiv> 11"
abbreviation (input) VEOL2 :: int where "VEOL2 \<equiv> 16"
abbreviation (input) NCCS :: int where "NCCS \<equiv> 19"

abbreviation (input) LF :: u8 where "LF \<equiv> 10"
abbreviation (input) CR :: u8 where "CR \<equiv> 13"

type_synonym termios = "nat \<Rightarrow> u8"

text \<open>Four bytes in the order of the machine.\<close>

definition word_at :: "termios \<Rightarrow> nat \<Rightarrow> u32" where
  "word_at t i = ucast (t i) OR push_bit 8 (ucast (t (i + 1))) OR push_bit 16 (ucast (t (i + 2)))
     OR push_bit 24 (ucast (t (i + 3)))"

definition tty_iflag :: "termios \<Rightarrow> u32" where "tty_iflag t = word_at t 0"
definition tty_oflag :: "termios \<Rightarrow> u32" where "tty_oflag t = word_at t 4"
definition tty_lflag :: "termios \<Rightarrow> u32" where "tty_lflag t = word_at t 12"

definition tty_cc :: "termios \<Rightarrow> int \<Rightarrow> u8" where
  "tty_cc t i = (if i \<ge> 0 \<and> i < NCCS then t (17 + nat i) else 0)"

definition tty_cc_match :: "termios \<Rightarrow> int \<Rightarrow> u8 \<Rightarrow> bool" where
  "tty_cc_match t i c \<longleftrightarrow> (let v = tty_cc t i in v \<noteq> 0 \<and> c = v)"

definition pty_default_termios :: termios where
  "pty_default_termios i =
     (let bytes = [0x00, 0x05, 0x00, 0x00,  0x05, 0x00, 0x00, 0x00,  0xbf, 0x00, 0x00, 0x00,  0x3b, 0x8a, 0x00, 0x00,
        0x00,  0x03, 0x1c, 0x7f, 0x15, 0x04, 0x00, 0x01, 0x00,  0x11, 0x13, 0x1a, 0x00, 0x12, 0x0f, 0x17, 0x16, 0x00] in
      if i < length bytes then bytes ! i else 0)"

text \<open>The \<^verbatim>\<open>termios\<close> array has 60 bytes.\<close>

definition pty_reset_termios :: "pty_state \<Rightarrow> pty_state" where
  "pty_reset_termios p = p\<lparr>pt_termios := (\<lambda>i. if i < 60 then pty_default_termios i else pt_termios p i)\<rparr>"

definition zero_pty :: pty_state where
  "zero_pty = \<lparr>pt_master_to_slave = (\<lambda>_. 0), pt_slave_to_master = (\<lambda>_. 0), pt_m2s_r = 0, pt_m2s_w = 0, pt_m2s_count = 0,
     pt_s2m_r = 0, pt_s2m_w = 0, pt_s2m_count = 0, pt_master_open = False, pt_slave_open = False, pt_unlocked = False,
     pt_master_refs = 0, pt_slave_refs = 0, pt_rows = 0, pt_cols = 0, pt_xpixel = 0, pt_ypixel = 0, pt_termios = (\<lambda>_. 0),
     pt_canon = (\<lambda>_. 0), pt_canon_count = 0, pt_fg_pgrp = 0, pt_shell_pgrp = 0, pt_session = 0, pt_output_stopped = False, pt_index = 0\<rparr>"

text \<open>The flag is the static variable \<^verbatim>\<open>done\<close>.\<close>

definition pty_init_once :: "bool \<Rightarrow> fd_state \<Rightarrow> bool \<times> fd_state" where
  "pty_init_once init s =
     (if init then (True, s)
      else (True, fold (\<lambda>i s. set_pty s i (\<lambda>_. pty_reset_termios
             (zero_pty\<lparr>pt_index := of_nat i, pt_rows := 30, pt_cols := 80, pt_xpixel := 640, pt_ypixel := 480\<rparr>))) [0..<PTY_COUNT] s))"

section \<open>The two rings\<close>

definition m2s :: "pty_state \<Rightarrow> ring" where
  "m2s p = \<lparr>rg_buf = pt_master_to_slave p, rg_r = pt_m2s_r p, rg_w = pt_m2s_w p, rg_n = pt_m2s_count p\<rparr>"

definition set_m2s :: "pty_state \<Rightarrow> ring \<Rightarrow> pty_state" where
  "set_m2s p q = p\<lparr>pt_master_to_slave := rg_buf q, pt_m2s_r := rg_r q, pt_m2s_w := rg_w q, pt_m2s_count := rg_n q\<rparr>"

definition s2m :: "pty_state \<Rightarrow> ring" where
  "s2m p = \<lparr>rg_buf = pt_slave_to_master p, rg_r = pt_s2m_r p, rg_w = pt_s2m_w p, rg_n = pt_s2m_count p\<rparr>"

definition set_s2m :: "pty_state \<Rightarrow> ring \<Rightarrow> pty_state" where
  "set_s2m p q = p\<lparr>pt_slave_to_master := rg_buf q, pt_s2m_r := rg_r q, pt_s2m_w := rg_w q, pt_s2m_count := rg_n q\<rparr>"

definition pty_flush_input :: "pty_state \<Rightarrow> pty_state" where
  "pty_flush_input p = p\<lparr>pt_m2s_r := 0, pt_m2s_w := 0, pt_m2s_count := 0, pt_canon_count := 0\<rparr>"

definition pty_flush_output :: "pty_state \<Rightarrow> pty_state" where
  "pty_flush_output p = p\<lparr>pt_s2m_r := 0, pt_s2m_w := 0, pt_s2m_count := 0\<rparr>"

text \<open>
  The loop of \<^verbatim>\<open>pty_output_write\<close>; the subtraction before the test is the one of the code,
  on 32 bits.
\<close>

fun pty_output_loop :: "u32 \<Rightarrow> pty_state \<Rightarrow> u8 list \<Rightarrow> nat \<times> pty_state" where
  "pty_output_loop oflag p [] = (0, p)"
| "pty_output_loop oflag p (c # cs) =
     (if oflag AND OPOST \<noteq> 0 \<and> oflag AND ONLCR \<noteq> 0 \<and> c = LF then
        if PTY_CAP - pt_s2m_count p < 2 then (0, p)
        else let (w, q) = ring_write PTY_CAP (s2m p) [CR, LF]; p = set_s2m p q in
          if w \<noteq> 2 then (0, p) else let (d, p) = pty_output_loop oflag p cs in (Suc d, p)
      else
        if pt_s2m_count p \<ge> PTY_CAP then (0, p)
        else let (w, q) = ring_write PTY_CAP (s2m p) [c]; p = set_s2m p q in
          if w \<noteq> 1 then (0, p) else let (d, p) = pty_output_loop oflag p cs in (Suc d, p))"

definition pty_output_write :: "pty_state \<Rightarrow> u8 list \<Rightarrow> nat \<times> pty_state" where
  "pty_output_write p src = pty_output_loop (tty_oflag (pt_termios p)) p src"

definition pty_echo_char :: "pty_state \<Rightarrow> u8 \<Rightarrow> u32 \<Rightarrow> pty_state" where
  "pty_echo_char p c lflag =
     (if \<not> pt_master_open p then p
      else if lflag AND ECHO = 0 then
        (if c = LF \<and> lflag AND ECHONL \<noteq> 0 then snd (pty_output_write p [c]) else p)
      else if lflag AND ECHOCTL \<noteq> 0 \<and> (c < 0x20 \<and> c \<noteq> LF \<and> c \<noteq> 9 \<or> c = 0x7f) then
        snd (pty_output_write p [0x5e, if c = 0x7f then 0x3f else c XOR 0x40])
      else snd (pty_output_write p [c]))"

definition pty_master_read :: "pty_state \<Rightarrow> nat \<Rightarrow> u8 list \<times> pty_state" where
  "pty_master_read p n = (let (bs, q) = ring_read PTY_CAP (s2m p) n in (bs, set_s2m p q))"

definition pty_raw_read :: "pty_state \<Rightarrow> nat \<Rightarrow> u8 list \<times> pty_state" where
  "pty_raw_read p n = (let (bs, q) = ring_read PTY_CAP (m2s p) n in (bs, set_m2s p q))"

section \<open>The line buffer\<close>

definition canon_bytes :: "pty_state \<Rightarrow> u8 list" where
  "canon_bytes p = map (pt_canon p) [0..<unat (pt_canon_count p)]"

text \<open>A byte that ends a line, \<^verbatim>\<open>VEOF\<close> apart.\<close>

definition ends_line :: "termios \<Rightarrow> u8 \<Rightarrow> bool" where
  "ends_line t c \<longleftrightarrow> (let veol = tty_cc t VEOL; veol2 = tty_cc t VEOL2 in
     c = LF \<or> (veol \<noteq> 0 \<and> c = veol) \<or> (veol2 \<noteq> 0 \<and> c = veol2))"

definition pty_canon_available :: "pty_state \<Rightarrow> bool" where
  "pty_canon_available p \<longleftrightarrow> pt_canon_count p \<noteq> 0 \<and>
     (\<exists>c \<in> set (canon_bytes p). ends_line (pt_termios p) c \<or> tty_cc_match (pt_termios p) VEOF c)"

definition pty_master_read_ready :: "pty_state \<Rightarrow> bool" where
  "pty_master_read_ready p \<longleftrightarrow> (\<not> pt_output_stopped p \<and> pt_s2m_count p \<noteq> 0) \<or> \<not> pt_slave_open p"

definition pty_slave_read_ready :: "pty_state \<Rightarrow> bool" where
  "pty_slave_read_ready p \<longleftrightarrow>
     (if word_at (pt_termios p) 12 AND ICANON \<noteq> 0 then pty_canon_available p \<or> \<not> pt_master_open p
      else pt_m2s_count p \<noteq> 0 \<or> \<not> pt_master_open p)"

text \<open>The loop of \<^verbatim>\<open>pty_canon_ready_bytes\<close>, with its two counters.\<close>

fun ready_loop :: "termios \<Rightarrow> u8 list \<Rightarrow> nat \<Rightarrow> nat \<Rightarrow> nat" where
  "ready_loop t [] n ready = ready"
| "ready_loop t (c # cs) n ready =
     (if tty_cc_match t VEOF c then n
      else let n = Suc n in ready_loop t cs n (if ends_line t c then n else ready))"

definition pty_canon_ready_bytes :: "pty_state \<Rightarrow> nat" where
  "pty_canon_ready_bytes p = ready_loop (pt_termios p) (canon_bytes p) 0 0"

text \<open>
  A read of the slave in canonical mode: the loop that takes bytes up to the end of a line or the
  size of the buffer, with the number of bytes consumed, and the move of the rest to the front.
\<close>

fun canon_loop :: "termios \<Rightarrow> u8 list \<Rightarrow> nat \<Rightarrow> nat \<times> u8 list" where
  "canon_loop t [] n = (0, [])"
| "canon_loop t (c # cs) n =
     (if n = 0 then (0, [])
      else if tty_cc_match t VEOF c then (1, [])
      else if ends_line t c then (1, [c])
      else let (k, bs) = canon_loop t cs (n - 1) in (Suc k, c # bs))"

definition pty_canon_read :: "pty_state \<Rightarrow> nat \<Rightarrow> u8 list \<times> pty_state" where
  "pty_canon_read p n =
     (let (consume, bs) = canon_loop (pt_termios p) (canon_bytes p) n in
      (bs, p\<lparr>pt_canon := (\<lambda>i. if i < unat (pt_canon_count p) - consume then pt_canon p (i + consume) else pt_canon p i),
             pt_canon_count := pt_canon_count p - of_nat consume\<rparr>))"

section \<open>Lemmas\<close>

lemma ring_views [simp]:
  "s2m (set_s2m p q) = q" "m2s (set_s2m p q) = m2s p" "m2s (set_m2s p q) = q" "s2m (set_m2s p q) = s2m p"
  by (simp_all add: s2m_def m2s_def set_s2m_def set_m2s_def)

lemma set_s2m_frame [simp]:
  "pt_termios (set_s2m p q) = pt_termios p" "pt_canon_count (set_s2m p q) = pt_canon_count p" "pt_canon (set_s2m p q) = pt_canon p"
  "pt_master_open (set_s2m p q) = pt_master_open p" "pt_slave_open (set_s2m p q) = pt_slave_open p"
  "pt_output_stopped (set_s2m p q) = pt_output_stopped p"
  by (simp_all add: set_s2m_def)

lemma rg_n_s2m [simp]: "rg_n (s2m p) = pt_s2m_count p" "rg_n (m2s p) = pt_m2s_count p"
  by (simp_all add: s2m_def m2s_def)

definition pty_ok :: "pty_state \<Rightarrow> bool" where
  "pty_ok p \<longleftrightarrow> ring_ok PTY_CAP (m2s p) \<and> ring_ok PTY_CAP (s2m p) \<and> pt_canon_count p \<le> PTY_CAP"

text \<open>What the output side makes of the bytes written.\<close>

definition opost1 :: "u32 \<Rightarrow> u8 \<Rightarrow> u8 list" where
  "opost1 oflag c = (if oflag AND OPOST \<noteq> 0 \<and> oflag AND ONLCR \<noteq> 0 \<and> c = LF then [CR, LF] else [c])"

definition opost :: "u32 \<Rightarrow> u8 list \<Rightarrow> u8 list" where
  "opost oflag bs = concat (map (opost1 oflag) bs)"

text \<open>The fields of a terminal that output leaves alone.\<close>

definition same_but_output :: "pty_state \<Rightarrow> pty_state \<Rightarrow> bool" where
  "same_but_output p p' \<longleftrightarrow> (\<exists>q. p' = set_s2m p q)"

lemma same_but_output_refl: "same_but_output p p"
  unfolding same_but_output_def by (rule exI [of _ "s2m p"]) (simp add: set_s2m_def s2m_def)

lemma same_but_output_trans: "same_but_output p p' \<Longrightarrow> same_but_output p' p'' \<Longrightarrow> same_but_output p p''"
  by (auto simp: same_but_output_def set_s2m_def)

lemma pty_output_loop_same: "same_but_output p (snd (pty_output_loop oflag p cs))"
proof (induction cs arbitrary: p)
  case (Cons c cs)
  have s: "same_but_output p (snd (pty_output_loop oflag (set_s2m p q) cs))" for q
    by (rule same_but_output_trans [OF _ Cons.IH]) (auto simp: same_but_output_def)
  then have "same_but_output p p'" if "pty_output_loop oflag (set_s2m p q) cs = (d, p')" for q d p'
    using that by (metis snd_conv)
  moreover have "same_but_output p (set_s2m p q)" for q by (auto simp: same_but_output_def)
  ultimately show ?case using same_but_output_refl by (auto simp: Let_def split: prod.splits)
qed (simp add: same_but_output_refl)

lemma pty_output_write_same: "same_but_output p (snd (pty_output_write p cs))"
  unfolding pty_output_write_def by (rule pty_output_loop_same)

lemma pty_echo_char_same: "same_but_output p (pty_echo_char p c lflag)"
  using pty_output_write_same by (simp add: pty_echo_char_def same_but_output_refl)

lemma output_step:
  assumes "ring_ok PTY_CAP (s2m p)" "length bs \<le> 65536 - unat (pt_s2m_count p)"
    and "ring_write PTY_CAP (s2m p) bs = (w, q)"
  shows "w = length bs" "ring_ok PTY_CAP q" "ring_contents PTY_CAP q = ring_contents PTY_CAP (s2m p) @ bs"
  using ring_write_spec [OF assms(1,3)] assms(2) by auto

lemma pty_output_loop_spec:
  assumes "ring_ok PTY_CAP (s2m p)" "pty_output_loop oflag p src = (d, p')"
  shows "ring_ok PTY_CAP (s2m p') \<and> same_but_output p p' \<and> d \<le> length src
     \<and> ring_contents PTY_CAP (s2m p') = ring_contents PTY_CAP (s2m p) @ opost oflag (take d src)
     \<and> (d < length src \<longrightarrow> 65536 < unat (pt_s2m_count p') + length (opost1 oflag (src ! d)))"
  using assms
proof (induction src arbitrary: p d)
  case Nil
  then show ?case by (simp add: same_but_output_refl opost_def)
next
  case (Cons c cs)
  have le: "unat (pt_s2m_count p) \<le> 65536" using ring_okD(3) [OF Cons.prems(1)] by simp
  define full where "full \<longleftrightarrow> 65536 < unat (pt_s2m_count p) + length (opost1 oflag c)"
  obtain w q where w: "ring_write PTY_CAP (s2m p) (opost1 oflag c) = (w, q)" by (rule prod.exhaust)
  obtain d2 p2 where r: "pty_output_loop oflag (set_s2m p q) cs = (d2, p2)" by (rule prod.exhaust)
  have c1: "PTY_CAP - pt_s2m_count p < 2 \<longleftrightarrow> 65536 < unat (pt_s2m_count p) + 2"
    using le unat_sub [of "pt_s2m_count p" PTY_CAP] by (simp add: word_less_nat_alt word_le_nat_alt) arith
  have c2: "pt_s2m_count p \<ge> PTY_CAP \<longleftrightarrow> 65536 < unat (pt_s2m_count p) + 1"
    by (simp add: word_le_nat_alt) arith
  have e: "pty_output_loop oflag p (c # cs) =
      (if full then (0, p) else if w \<noteq> length (opost1 oflag c) then (0, set_s2m p q) else (Suc d2, p2))"
  proof (cases "oflag AND OPOST \<noteq> 0 \<and> oflag AND ONLCR \<noteq> 0 \<and> c = LF")
    case True
    then show ?thesis using w r c1 by (simp add: full_def opost1_def numeral_2_eq_2 del: ring_write.simps)
  next
    case False
    then have "opost1 oflag c = [c]" by (simp add: opost1_def)
    then show ?thesis unfolding pty_output_loop.simps if_not_P [OF False] using w r c2
      by (simp add: full_def del: ring_write.simps)
  qed
  show ?case
  proof (cases full)
    case True
    then show ?thesis using Cons.prems e by (simp add: same_but_output_refl opost_def full_def)
  next
    case False
    have W: "w = length (opost1 oflag c)" "ring_ok PTY_CAP q"
      "ring_contents PTY_CAP q = ring_contents PTY_CAP (s2m p) @ opost1 oflag c"
      using output_step [OF Cons.prems(1) _ w] False le by (simp_all add: full_def)
    have "same_but_output p (set_s2m p q)" by (auto simp: same_but_output_def)
    moreover have "d = Suc d2" "p' = p2" using e False W(1) Cons.prems(2) by simp_all
    ultimately show ?thesis using Cons.IH [of "set_s2m p q" d2] W r
      by (auto simp: opost_def intro: same_but_output_trans)
  qed
qed

lemma opost_append [simp]: "opost oflag (bs @ cs) = opost oflag bs @ opost oflag cs"
  by (simp add: opost_def)

lemma same_but_outputD:
  assumes "same_but_output p p'"
  shows "pt_termios p' = pt_termios p" "pt_canon_count p' = pt_canon_count p" "pt_canon p' = pt_canon p" "m2s p' = m2s p"
    "canon_bytes p' = canon_bytes p" "pt_master_open p' = pt_master_open p"
  using assms by (auto simp: same_but_output_def canon_bytes_def)

lemma pty_output_write_spec:
  assumes "pty_ok p" "pty_output_write p src = (d, p')"
  shows "pty_ok p' \<and> same_but_output p p'
     \<and> ring_contents PTY_CAP (s2m p') = ring_contents PTY_CAP (s2m p) @ opost (tty_oflag (pt_termios p)) (take d src)"
  using pty_output_loop_spec [of p "tty_oflag (pt_termios p)" src d p'] assms
  by (auto simp: pty_ok_def pty_output_write_def dest: same_but_outputD)

lemma pty_echo_char_ok:
  assumes "pty_ok p"
  shows "pty_ok (pty_echo_char p c lflag)"
  using assms pty_output_write_spec [OF assms prod.collapse [symmetric]] by (auto simp: pty_echo_char_def)

lemma pty_master_read_spec:
  assumes "pty_ok p" "pty_master_read p n = (bs, p')"
  shows "pty_ok p' \<and> same_but_output p p' \<and> bs = take n (ring_contents PTY_CAP (s2m p))
     \<and> ring_contents PTY_CAP (s2m p') = drop n (ring_contents PTY_CAP (s2m p))"
proof -
  obtain q where r: "ring_read PTY_CAP (s2m p) n = (bs, q)" "p' = set_s2m p q"
    using assms(2) by (auto simp: pty_master_read_def split: prod.splits)
  show ?thesis using ring_read_spec [OF _ r(1)] assms(1) r(2) by (auto simp: pty_ok_def same_but_output_def)
qed

lemma pty_raw_read_ok:
  assumes "pty_ok p" "pty_raw_read p n = (bs, p')"
  shows "pty_ok p'"
proof -
  obtain q where r: "ring_read PTY_CAP (m2s p) n = (bs, q)" "p' = set_m2s p q"
    using assms(2) by (auto simp: pty_raw_read_def split: prod.splits)
  have "pt_canon_count p' = pt_canon_count p" using r(2) by (simp add: set_m2s_def)
  then show ?thesis using ring_read_spec [OF _ r(1)] assms(1) r(2) by (auto simp: pty_ok_def)
qed

interpretation terminal: byte_queue "\<lambda>p. pty_ok p \<and> tty_oflag (pt_termios p) = oflag" "\<lambda>p. ring_contents PTY_CAP (s2m p)"
  "opost oflag" pty_output_write pty_master_read for oflag
proof unfold_locales
  fix p n bs p'
  show "pty_ok p \<and> tty_oflag (pt_termios p) = oflag \<Longrightarrow> pty_output_write p bs = (n, p') \<Longrightarrow>
      (pty_ok p' \<and> tty_oflag (pt_termios p') = oflag)
      \<and> ring_contents PTY_CAP (s2m p') = ring_contents PTY_CAP (s2m p) @ opost oflag (take n bs)"
    using pty_output_write_spec [of p bs n p'] same_but_outputD(1) [of p p'] by auto
  show "pty_ok p \<and> tty_oflag (pt_termios p) = oflag \<Longrightarrow> pty_master_read p n = (bs, p') \<Longrightarrow>
      (pty_ok p' \<and> tty_oflag (pt_termios p') = oflag)
      \<and> bs = take n (ring_contents PTY_CAP (s2m p)) \<and> ring_contents PTY_CAP (s2m p') = drop n (ring_contents PTY_CAP (s2m p))"
    using pty_master_read_spec [of p n bs p'] same_but_outputD(1) [of p p'] by auto
qed (rule opost_append)

end
