(* ===== verification/Wake.thy ===== *)
theory Wake
  imports Mmap Pty
begin

text \<open>
  Tasks that wait for input or output, in \<^verbatim>\<open>src/src/kernel/main.c\<close>: putting the current
  task to sleep inside a system call, the tests that decide whether a sleeping task may go on, and
  the two functions that wake tasks up. A task that sleeps has its instruction pointer moved back to
  the \<^verbatim>\<open>syscall\<close> instruction, so that it repeats the call when it runs again.
\<close>

section \<open>Definitions\<close>

abbreviation (input) IO_WAIT_NONE :: int where "IO_WAIT_NONE \<equiv> 0"
abbreviation (input) IO_WAIT_SOCKET_READ :: int where "IO_WAIT_SOCKET_READ \<equiv> 4"
abbreviation (input) IO_WAIT_SOCKET_WRITE :: int where "IO_WAIT_SOCKET_WRITE \<equiv> 5"
abbreviation (input) IO_WAIT_SOCKET_ACCEPT :: int where "IO_WAIT_SOCKET_ACCEPT \<equiv> 6"
abbreviation (input) IO_WAIT_NANOSLEEP :: int where "IO_WAIT_NANOSLEEP \<equiv> 7"
abbreviation (input) IO_WAIT_PTY_READ :: int where "IO_WAIT_PTY_READ \<equiv> 8"
abbreviation (input) IO_WAIT_PTY_DRAIN :: int where "IO_WAIT_PTY_DRAIN \<equiv> 9"
abbreviation (input) IO_WAIT_TTY :: int where "IO_WAIT_TTY \<equiv> 10"
abbreviation (input) SOCK_CAP :: u32 where "SOCK_CAP \<equiv> 16384"
abbreviation (input) ETIMEDOUT :: int where "ETIMEDOUT \<equiv> 110"

text \<open>A negative result as it is stored in a register.\<close>

definition neg :: "int \<Rightarrow> u64" where
  "neg e = word_of_int (- e)"

definition task_files_for_task :: "fd_state \<Rightarrow> nat \<Rightarrow> nat option" where
  "task_files_for_task s ti =
     (if ti \<ge> MAX_TASKS then None
      else if valid_table (task_fd_table_id s ti) then Some (nat (task_fd_table_id s ti)) else None)"

text \<open>The descriptor number that the task passed to the call it sleeps in.\<close>

definition wait_fd :: "task \<Rightarrow> int" where
  "wait_fd t = sint (ucast (cx_rdi (tk_ctx t)) :: u32)"

text \<open>
  The descriptor with that number in the table of the task; \<open>None\<close> when there is no table or the
  descriptor is not in use.
\<close>

definition wait_desc :: "fd_state \<Rightarrow> nat \<Rightarrow> task \<Rightarrow> file_desc option" where
  "wait_desc s ti t =
     (case task_files_for_task s ti of None \<Rightarrow> None
      | Some tb \<Rightarrow> let d = desc s (tb, nat (wait_fd t)) in if fd_in_use d then Some d else None)"

definition bad_fd :: "int \<Rightarrow> bool" where
  "bad_fd fd \<longleftrightarrow> fd < 0 \<or> fd \<ge> int MAX_FILES"

definition task_pty_read_ready :: "fd_state \<Rightarrow> nat \<Rightarrow> task \<Rightarrow> bool" where
  "task_pty_read_ready s ti t =
     (if \<not> tk_used t then False
      else if bad_fd (wait_fd t) then True
      else case wait_desc s ti t of None \<Rightarrow> True
      | Some d \<Rightarrow>
        if fd_type d \<noteq> FD_PTY_MASTER \<and> fd_type d \<noteq> FD_PTY_SLAVE then True
        else case fd_private d of
          Pty i \<Rightarrow> if fd_type d = FD_PTY_MASTER then pty_master_read_ready (pty_slots s i) else pty_slave_read_ready (pty_slots s i)
        | _ \<Rightarrow> True)"

definition task_pty_drain_ready :: "fd_state \<Rightarrow> nat \<Rightarrow> task \<Rightarrow> bool" where
  "task_pty_drain_ready s ti t =
     (if \<not> tk_used t then False
      else if bad_fd (wait_fd t) then True
      else case wait_desc s ti t of None \<Rightarrow> True
      | Some d \<Rightarrow>
        if fd_type d \<noteq> FD_PTY_MASTER \<and> fd_type d \<noteq> FD_PTY_SLAVE then True
        else case fd_private d of
          Pty i \<Rightarrow> pt_s2m_count (pty_slots s i) = 0 \<or> \<not> pt_master_open (pty_slots s i)
        | _ \<Rightarrow> True)"

text \<open>The other side of a socket is \<open>1 - side\<close>, as \<^verbatim>\<open>side ^ 1\<close> is.\<close>

definition socket_wait_ready :: "unix_socket_state \<Rightarrow> nat \<Rightarrow> int \<Rightarrow> bool" where
  "socket_wait_ready u side kind =
     (if kind = IO_WAIT_SOCKET_READ then us_count u side \<noteq> 0 \<or> us_closed u (1 - side)
      else if kind = IO_WAIT_SOCKET_WRITE then us_closed u (1 - side) \<or> us_count u (1 - side) < SOCK_CAP
      else if kind = IO_WAIT_SOCKET_ACCEPT then us_listener u \<and> us_pending_count u \<noteq> 0
      else True)"

definition task_socket_wait_ready :: "fd_state \<Rightarrow> nat \<Rightarrow> task \<Rightarrow> bool" where
  "task_socket_wait_ready s ti t =
     (if \<not> tk_used t \<or> bad_fd (wait_fd t) then False
      else case wait_desc s ti t of None \<Rightarrow> False
      | Some d \<Rightarrow>
        if fd_type d \<noteq> FD_SOCKET then False
        else case fd_private d of
          Sock i side \<Rightarrow> socket_wait_ready (unix_sockets s i) side (tk_io_wait_kind t)
        | _ \<Rightarrow> False)"

text \<open>The tests of \<^verbatim>\<open>task_wake_io_waiters\<close> before it wakes task \<open>i\<close>.\<close>

definition wake_cond :: "kernel \<Rightarrow> nat \<Rightarrow> bool" where
  "wake_cond k i \<longleftrightarrow> (let t = tasks k i; kind = tk_io_wait_kind t in
     \<not> (\<not> tk_used t \<or> tk_state t \<noteq> TASK_BLOCKED \<or> kind = IO_WAIT_NONE) \<and>
     kind \<noteq> IO_WAIT_NANOSLEEP \<and>
     \<not> ((kind = IO_WAIT_SOCKET_READ \<or> kind = IO_WAIT_SOCKET_WRITE \<or> kind = IO_WAIT_SOCKET_ACCEPT) \<and>
        \<not> task_socket_wait_ready (fds k) i t) \<and>
     \<not> (kind = IO_WAIT_PTY_READ \<and> \<not> task_pty_read_ready (fds k) i t) \<and>
     \<not> (kind = IO_WAIT_PTY_DRAIN \<and> \<not> task_pty_drain_ready (fds k) i t) \<and>
     \<not> (kind = IO_WAIT_TTY \<and> (key_head k = key_tail k \<or> (console_fg_pgrp k > 0 \<and> tk_pgrp t \<noteq> console_fg_pgrp k))))"

definition wake_task :: "task \<Rightarrow> task" where
  "wake_task t =
     (let t = (if tk_io_wait_valid t then t\<lparr>tk_ctx := (tk_ctx t)\<lparr>cx_rax := tk_io_wait_nr t\<rparr>\<rparr> else t) in
      t\<lparr>tk_state := TASK_RUNNABLE, tk_io_wait_kind := IO_WAIT_NONE, tk_io_wait_valid := False, tk_io_wait_nr := 0,
        tk_io_wait_deadline_ns := 0\<rparr>)"

definition wake_step :: "nat \<Rightarrow> nat option \<times> kernel \<Rightarrow> nat option \<times> kernel" where
  "wake_step i wk =
     (case wk of (woke, k) \<Rightarrow>
        if \<not> wake_cond k i then (woke, k)
        else (if tk_io_wait_valid (tasks k i) \<and> tk_io_wait_kind (tasks k i) = IO_WAIT_SOCKET_READ \<and> woke = None
              then Some i else woke, set_task k i wake_task))"

definition task_wake_io_waiters :: "kernel \<Rightarrow> nat option \<times> kernel" where
  "task_wake_io_waiters k = fold wake_step [0..<MAX_TASKS] (None, k)"

definition timed_wake :: "u64 \<Rightarrow> task \<Rightarrow> task" where
  "timed_wake now t =
     (if \<not> tk_used t \<or> tk_state t \<noteq> TASK_BLOCKED then t
      else if tk_futex_addr t \<noteq> 0 \<and> tk_futex_deadline_ns t \<noteq> 0 \<and> now \<ge> tk_futex_deadline_ns t then
        t\<lparr>tk_futex_addr := 0, tk_futex_cr3 := 0, tk_futex_deadline_ns := 0,
          tk_ctx := (tk_ctx t)\<lparr>cx_rax := neg ETIMEDOUT\<rparr>, tk_state := TASK_RUNNABLE\<rparr>
      else if tk_io_wait_kind t = IO_WAIT_NONE then t
      else if tk_io_wait_deadline_ns t = 0 \<or> now < tk_io_wait_deadline_ns t then t
      else t\<lparr>tk_ctx := (tk_ctx t)\<lparr>cx_rax := tk_io_wait_nr t\<rparr>, tk_io_wait_kind := IO_WAIT_NONE, tk_io_wait_valid := False,
             tk_io_wait_nr := 0, tk_io_wait_deadline_ns := 0, tk_state := TASK_RUNNABLE\<rparr>)"

text \<open>\<open>now\<close> is the value of \<^verbatim>\<open>kernel_monotonic_ns\<close>.\<close>

definition task_wake_timed_io_waiters :: "u64 \<Rightarrow> kernel \<Rightarrow> kernel" where
  "task_wake_timed_io_waiters now k = fold (\<lambda>i k. set_task k i (timed_wake now)) [0..<MAX_TASKS] k"

text \<open>\<open>nxt\<close> is the task whose context the argument points to, if it is one of the table.\<close>

definition task_commit_deferred_switch :: "kernel \<Rightarrow> nat option \<Rightarrow> kernel" where
  "task_commit_deferred_switch k nxt =
     (case nxt of None \<Rightarrow> k
      | Some ni \<Rightarrow>
        if current_task k \<ge> MAX_TASKS \<or> ni \<ge> MAX_TASKS \<or> \<not> tk_used (tasks k ni) \<or> ni = current_task k then k
        else let k = (if tk_state (cur k) = TASK_RUNNING then set_task k (current_task k) (\<lambda>t. t\<lparr>tk_state := TASK_RUNNABLE\<rparr>) else k);
                 k = set_task k ni (\<lambda>t. t\<lparr>tk_state := TASK_RUNNING\<rparr>) in
          task_account_switch (k\<lparr>current_task := ni\<rparr>) ni)"

definition task_save_from_frame :: "kernel \<Rightarrow> syscall_frame \<Rightarrow> task \<Rightarrow> task" where
  "task_save_from_frame k f t =
     t\<lparr>tk_ctx := \<lparr>cx_rax = fr_rax f, cx_rbx = fr_rbx f, cx_rcx = fr_rcx f, cx_rdx = fr_rdx f, cx_rsi = fr_rsi f, cx_rdi = fr_rdi f,
       cx_rbp = fr_rbp f, cx_r8 = fr_r8 f, cx_r9 = fr_r9 f, cx_r10 = fr_r10 f, cx_r11 = fr_r11 f, cx_r12 = fr_r12 f,
       cx_r13 = fr_r13 f, cx_r14 = fr_r14 f, cx_r15 = fr_r15 f, cx_rsp = fr_user_rsp f, cx_rip = fr_user_rip f,
       cx_rflags = fr_user_rflags f, cx_cr3 = fr_user_cr3 f, cx_fs_base = msr_fs_base k, cx_gs_base = msr_gs_base k\<rparr>\<rparr>"

text \<open>The task goes to sleep.\<close>

definition io_sleep :: "kernel \<Rightarrow> syscall_frame \<Rightarrow> int \<Rightarrow> u64 \<Rightarrow> u64 \<Rightarrow> task \<Rightarrow> task" where
  "io_sleep k f kind nr deadline t =
     (let t = (task_save_from_frame k f t)\<lparr>tk_io_wait_kind := kind, tk_io_wait_valid := True, tk_io_wait_nr := nr,
            tk_io_wait_deadline_ns := deadline\<rparr>;
          c = (tk_ctx t)\<lparr>cx_rax := nr\<rparr>;
          c = (if cx_rip c \<ge> 2 then c\<lparr>cx_rip := cx_rip c - 2\<rparr> else c) in
      t\<lparr>tk_ctx := c, tk_state := TASK_BLOCKED\<rparr>)"

definition switch_to :: "kernel \<Rightarrow> nat \<Rightarrow> kernel" where
  "switch_to k i =
     (let k = task_account_switch ((set_task k i (\<lambda>t. t\<lparr>tk_state := TASK_RUNNING\<rparr>))\<lparr>current_task := i\<rparr>) i;
          k = k\<lparr>vm := snd (vmm_user_activate (vm k) (cx_cr3 (tk_ctx (tasks k i))))\<rparr> in
      k\<lparr>task_switch_target := i, task_switch_pending := True, task_return_ctx := Some i\<rparr>)"

text \<open>
  With no other task to run the kernel waits for interrupts until the task \<open>ti\<close> that went to
  sleep is no longer blocked. \<open>tick n\<close> is what the interrupt handlers do during the \<open>n\<close>-th wait.
\<close>

partial_function (option) idle_loop :: "(nat \<Rightarrow> kernel \<Rightarrow> kernel) \<Rightarrow> nat \<Rightarrow> nat \<Rightarrow> kernel \<Rightarrow> kernel option" where
  "idle_loop tick n ti k =
     (if tk_state (tasks k ti) \<noteq> TASK_BLOCKED then
        (case task_pick_next k of
           Some alt \<Rightarrow> Some (switch_to k alt)
         | None \<Rightarrow> Some ((set_task k ti (\<lambda>t. t\<lparr>tk_state := TASK_RUNNING\<rparr>))\<lparr>current_task := ti, task_switch_target := ti,
             task_switch_pending := True, task_return_ctx := Some ti\<rparr>))
      else idle_loop tick (Suc n) ti (tick n k))"

definition task_block_io_until :: "(nat \<Rightarrow> kernel \<Rightarrow> kernel) \<Rightarrow> kernel \<Rightarrow> syscall_frame \<Rightarrow> int \<Rightarrow> u64 \<Rightarrow> u64 \<Rightarrow> (int \<times> kernel) option" where
  "task_block_io_until tick k f kind nr deadline =
     (if current_task k \<ge> MAX_TASKS then Some (- EINVAL, k)
      else let ti = current_task k; k = set_task k ti (io_sleep k f kind nr deadline) in
      case task_pick_next k of
        None \<Rightarrow> map_option (\<lambda>k. (0, k)) (idle_loop tick 0 ti k)
      | Some nxt \<Rightarrow> Some (0, switch_to k nxt))"

definition task_block_io :: "(nat \<Rightarrow> kernel \<Rightarrow> kernel) \<Rightarrow> kernel \<Rightarrow> syscall_frame \<Rightarrow> int \<Rightarrow> u64 \<Rightarrow> (int \<times> kernel) option" where
  "task_block_io tick k f kind nr = task_block_io_until tick k f kind nr 0"

definition task_io_resume_matches :: "kernel \<Rightarrow> syscall_frame \<Rightarrow> u64 \<Rightarrow> bool" where
  "task_io_resume_matches k f nr \<longleftrightarrow> \<not> current_task k \<ge> MAX_TASKS \<and>
     tk_io_resume_valid (cur k) \<and> tk_io_resume_nr (cur k) = nr \<and> tk_io_resume_rip (cur k) = fr_user_rip f"

definition task_io_resume_store :: "kernel \<Rightarrow> syscall_frame \<Rightarrow> u64 \<Rightarrow> u64 \<Rightarrow> u64 \<Rightarrow> kernel" where
  "task_io_resume_store k f nr start_ns deadline_ns =
     (if current_task k \<ge> MAX_TASKS then k
      else set_task k (current_task k) (\<lambda>t. t\<lparr>tk_io_resume_valid := True, tk_io_resume_nr := nr, tk_io_resume_rip := fr_user_rip f,
             tk_io_resume_start_ns := start_ns, tk_io_resume_deadline_ns := deadline_ns\<rparr>))"

definition task_io_resume_clear :: "kernel \<Rightarrow> syscall_frame \<Rightarrow> u64 \<Rightarrow> kernel" where
  "task_io_resume_clear k f nr =
     (if \<not> task_io_resume_matches k f nr then k
      else set_task k (current_task k) (\<lambda>t. t\<lparr>tk_io_resume_valid := False, tk_io_resume_nr := 0, tk_io_resume_rip := 0,
             tk_io_resume_start_ns := 0, tk_io_resume_deadline_ns := 0\<rparr>))"

definition monotonic_deadline_after_ms :: "u64 \<Rightarrow> int \<Rightarrow> u64" where
  "monotonic_deadline_after_ms start_ns timeout_ms =
     (if timeout_ms < 0 then 0
      else let span = word_of_int timeout_ms * 1000000 in if UINT64_MAX - start_ns < span then UINT64_MAX else start_ns + span)"

section \<open>User memory\<close>

text \<open>Copies through the address space of the running system call: the bytes, or whether it worked.\<close>

definition copy_in :: "kernel \<Rightarrow> u64 \<Rightarrow> nat \<Rightarrow> u8 list option" where
  "copy_in k addr n = (case user_copy_from (vm k) (syscall_user_cr3 k) addr n of (r, bs) \<Rightarrow> if r = 0 then Some bs else None)"

definition copy_out :: "kernel \<Rightarrow> u64 \<Rightarrow> u8 list \<Rightarrow> bool \<times> kernel" where
  "copy_out k addr bs = (case user_copy_to (vm k) (syscall_user_cr3 k) addr bs of (r, v) \<Rightarrow> (r = 0, k\<lparr>vm := v\<rparr>))"

text \<open>Numbers in memory, lowest byte first.\<close>

definition le_bytes :: "nat \<Rightarrow> u64 \<Rightarrow> u8 list" where
  "le_bytes n x = map (\<lambda>i. ucast (drop_bit (8 * i) x)) [0..<n]"

fun le_word :: "u8 list \<Rightarrow> u64" where
  "le_word [] = 0"
| "le_word (b # bs) = ucast b OR push_bit 8 (le_word bs)"

lemma low_byte_split:
  "take_bit (8 * Suc n) (y :: u64) = ucast (ucast y :: u8) OR push_bit 8 (take_bit (8 * n) (drop_bit 8 y))"
  by (rule bit_word_eqI)
     (auto simp: bit_or_iff bit_push_bit_iff bit_take_bit_iff bit_ucast_iff bit_drop_bit_eq less_diff_conv2 dest: bit_imp_le_length)

lemma le_word_prefix:
  "le_word (map (\<lambda>i. ucast (drop_bit (8 * i) x)) [m..<m + n]) = take_bit (8 * n) (drop_bit (8 * m) x)"
proof (induction n arbitrary: m)
  case (Suc n)
  have "le_word (map (\<lambda>i. ucast (drop_bit (8 * i) x)) [m..<m + Suc n]) =
      ucast (ucast (drop_bit (8 * m) x) :: u8) OR push_bit 8 (take_bit (8 * n) (drop_bit (8 * Suc m) x))"
    using Suc.IH [of "Suc m"] by (simp add: upt_conv_Cons del: upt_Suc)
  then show ?case unfolding low_byte_split by (simp add: add.commute)
qed simp

lemma le_word_bytes: "le_word (le_bytes 8 x) = x"
  using le_word_prefix [of x 0 8] by (simp add: le_bytes_def take_bit_word_eq_self)

section \<open>Lemmas\<close>

lemma set_task_simps [simp]:
  "fds (set_task k i f) = fds k" "key_head (set_task k i f) = key_head k" "key_tail (set_task k i f) = key_tail k"
  "console_fg_pgrp (set_task k i f) = console_fg_pgrp k" "vm (set_task k i f) = vm k"
  "current_task (set_task k i f) = current_task k" "tasks (set_task k i f) = (tasks k)(i := f (tasks k i))"
  by (simp_all add: set_task_def)

lemma wake_cond_cong:
  assumes "tasks k' i = tasks k i" "fds k' = fds k" "key_head k' = key_head k" "key_tail k' = key_tail k"
    "console_fg_pgrp k' = console_fg_pgrp k"
  shows "wake_cond k' i = wake_cond k i"
  using assms by (simp add: wake_cond_def)

definition woken :: "kernel \<Rightarrow> nat \<Rightarrow> kernel" where
  "woken k n = k\<lparr>tasks := (\<lambda>i. if i < n \<and> wake_cond k i then wake_task (tasks k i) else tasks k i)\<rparr>"

lemma wake_fold: "snd (fold wake_step [0..<n] (None, k)) = woken k n"
proof (induction n)
  case 0
  show ?case by (simp add: woken_def)
next
  case (Suc n)
  have c: "wake_cond (woken k n) n = wake_cond k n" by (rule wake_cond_cong) (simp_all add: woken_def)
  obtain w k' where e: "fold wake_step [0..<n] (None, k) = (w, k')" by (rule prod.exhaust)
  have k': "k' = woken k n" using Suc e by simp
  have "snd (fold wake_step [0..<Suc n] (None, k)) = (if wake_cond k n then set_task (woken k n) n wake_task else woken k n)"
    using e c by (simp add: k' wake_step_def)
  also have "\<dots> = woken k (Suc n)" by (auto simp: woken_def set_task_def less_Suc_eq fun_eq_iff)
  finally show ?case .
qed

lemma task_wake_io_waiters_eq: "snd (task_wake_io_waiters k) = woken k MAX_TASKS"
  unfolding task_wake_io_waiters_def by (rule wake_fold)

text \<open>No task sleeps although what it waits for has happened.\<close>

definition no_ready_sleeper :: "kernel \<Rightarrow> bool" where
  "no_ready_sleeper k \<longleftrightarrow> (\<forall>i < MAX_TASKS. \<not> wake_cond k i)"

lemma wake_cond_wake_task:
  assumes "tasks k i = wake_task t"
  shows "\<not> wake_cond k i"
  using assms by (simp add: wake_cond_def wake_task_def Let_def)

lemma no_ready_sleeper_woken: "no_ready_sleeper (woken k MAX_TASKS)"
  unfolding no_ready_sleeper_def
proof (intro allI impI)
  fix i :: nat assume i: "i < MAX_TASKS"
  show "\<not> wake_cond (woken k MAX_TASKS) i"
  proof (cases "wake_cond k i")
    case True
    show ?thesis by (rule wake_cond_wake_task [of _ _ "tasks k i"]) (use True i in \<open>simp add: woken_def\<close>)
  next
    case False
    have "wake_cond (woken k MAX_TASKS) i = wake_cond k i" by (rule wake_cond_cong) (use False in \<open>simp_all add: woken_def\<close>)
    then show ?thesis using False by simp
  qed
qed

text \<open>The state after \<open>n\<close> waits for an interrupt.\<close>

fun ticked :: "(nat \<Rightarrow> kernel \<Rightarrow> kernel) \<Rightarrow> nat \<Rightarrow> nat \<Rightarrow> kernel \<Rightarrow> kernel" where
  "ticked tick m 0 k = k"
| "ticked tick m (Suc n) k = ticked tick (Suc m) n (tick m k)"

lemma idle_loop_returns:
  "tk_state (tasks (ticked tick m n k) ti) \<noteq> TASK_BLOCKED \<Longrightarrow> \<exists>k'. idle_loop tick m ti k = Some k'"
proof (induction n arbitrary: m k)
  case 0
  then show ?case by (subst idle_loop.simps) (simp split: option.splits)
next
  case (Suc n)
  show ?case
  proof (cases "tk_state (tasks k ti) = TASK_BLOCKED")
    case True
    then show ?thesis using Suc.IH [of "Suc m" "tick m k"] Suc.prems by (subst idle_loop.simps) simp
  next
    case False
    then show ?thesis by (subst idle_loop.simps) (simp split: option.splits)
  qed
qed

end
