(* ===== verification/Signal.thy ===== *)
theory Signal
  imports Wake
begin

text \<open>
  Signals in \<^verbatim>\<open>src/src/kernel/main.c\<close>: the pending and blocked sets of a task, the system
  calls on them, the delivery of a signal on the way back to user mode and the return from its
  handler. User structures are sequences of bytes, lowest byte first; the address 0 is
  \<^verbatim>\<open>NULL\<close>.
\<close>

section \<open>Signal sets\<close>

abbreviation (input) SIG_DFL :: u64 where "SIG_DFL \<equiv> 0"
abbreviation (input) SIG_IGN :: u64 where "SIG_IGN \<equiv> 1"
abbreviation (input) SIGINT :: int where "SIGINT \<equiv> 2"
abbreviation (input) SIGQUIT :: int where "SIGQUIT \<equiv> 3"
abbreviation (input) SIGCHLD :: int where "SIGCHLD \<equiv> 17"
abbreviation (input) SIGTSTP :: int where "SIGTSTP \<equiv> 20"
abbreviation (input) SIGWINCH :: int where "SIGWINCH \<equiv> 28"
abbreviation (input) ESRCH_K :: int where "ESRCH_K \<equiv> 3"

definition sig_valid :: "int \<Rightarrow> bool" where
  "sig_valid s \<longleftrightarrow> s > 0 \<and> s \<le> 64"

definition sig_bit :: "int \<Rightarrow> u64" where
  "sig_bit s = push_bit (nat ((s - 1) mod 64)) 1"

definition sig_word :: "int \<Rightarrow> nat" where
  "sig_word s = nat ((s - 1) div 64)"

definition sig_pending_set :: "task \<Rightarrow> int \<Rightarrow> int \<times> task" where
  "sig_pending_set t s =
     (if \<not> sig_valid s then (- EINVAL, t)
      else (0, t\<lparr>tk_sig_pending := (tk_sig_pending t)(sig_word s := tk_sig_pending t (sig_word s) OR sig_bit s)\<rparr>))"

definition sig_is_pending :: "task \<Rightarrow> int \<Rightarrow> bool" where
  "sig_is_pending t s \<longleftrightarrow> tk_sig_pending t (sig_word s) AND sig_bit s \<noteq> 0"

definition sig_is_blocked :: "task \<Rightarrow> int \<Rightarrow> bool" where
  "sig_is_blocked t s \<longleftrightarrow> tk_sig_blocked t (sig_word s) AND sig_bit s \<noteq> 0"

definition sig_clear_pending :: "task \<Rightarrow> int \<Rightarrow> task" where
  "sig_clear_pending t s =
     t\<lparr>tk_sig_pending := (tk_sig_pending t)(sig_word s := tk_sig_pending t (sig_word s) AND NOT (sig_bit s))\<rparr>"

definition sig_next_deliverable :: "task \<Rightarrow> int" where
  "sig_next_deliverable t =
     (case find (\<lambda>s. sig_is_pending t (int s) \<and> \<not> sig_is_blocked t (int s)) [1..<65] of Some s \<Rightarrow> int s | None \<Rightarrow> 0)"

section \<open>System calls\<close>

definition init_root :: "kernel \<Rightarrow> kernel" where
  "init_root k = task_init_root k (root_node (vfs_state k))"

definition sigaction_bytes :: "sigaction \<Rightarrow> u8 list" where
  "sigaction_bytes a = le_bytes 8 (sa_handler a) @ le_bytes 8 (sa_flags a) @ le_bytes 8 (sa_restorer a) @ le_bytes 8 (sa_mask a)"

definition sigaction_of :: "u8 list \<Rightarrow> sigaction" where
  "sigaction_of bs = \<lparr>sa_handler = le_word (take 8 bs), sa_flags = le_word (take 8 (drop 8 bs)),
     sa_restorer = le_word (take 8 (drop 16 bs)), sa_mask = le_word (take 8 (drop 24 bs))\<rparr>"

text \<open>A checked copy of a structure of \<open>n\<close> bytes: \<^verbatim>\<open>user_range_ok\<close>, then the copy.\<close>

definition put_user :: "kernel \<Rightarrow> u64 \<Rightarrow> u8 list \<Rightarrow> bool \<times> kernel" where
  "put_user k addr bs =
     (if \<not> vmm_user_range_ok (vm k) addr (of_nat (length bs)) True then (False, k) else copy_out k addr bs)"

definition get_user :: "kernel \<Rightarrow> u64 \<Rightarrow> nat \<Rightarrow> u8 list option" where
  "get_user k addr n = (if \<not> vmm_user_range_ok (vm k) addr (of_nat n) False then None else copy_in k addr n)"

definition sys_rt_sigaction :: "kernel \<Rightarrow> int \<Rightarrow> u64 \<Rightarrow> u64 \<Rightarrow> u64 \<Rightarrow> int \<times> kernel" where
  "sys_rt_sigaction k sig act oldact sz =
     (let k = init_root k in
      if \<not> sig_valid sig \<or> sig = 9 \<or> sz \<noteq> 8 then (- EINVAL, k)
      else let (ok, k) = (if oldact \<noteq> 0 then put_user k oldact (sigaction_bytes (tk_sig_actions (cur k) (nat sig))) else (True, k)) in
      if \<not> ok then (- EFAULT, k)
      else if act = 0 then (0, k)
      else case get_user k act 32 of
        None \<Rightarrow> (- EFAULT, k)
      | Some bs \<Rightarrow>
        (0, set_task k (current_task k) (\<lambda>t. t\<lparr>tk_sig_actions := (tk_sig_actions t)(nat sig := sigaction_of bs)\<rparr>)))"

definition new_mask :: "int \<Rightarrow> u64 \<Rightarrow> u64 \<Rightarrow> u64" where
  "new_mask how old s = (if how = 0 then old OR s else if how = 1 then old AND NOT s else s)"

definition sys_rt_sigprocmask :: "kernel \<Rightarrow> int \<Rightarrow> u64 \<Rightarrow> u64 \<Rightarrow> u64 \<Rightarrow> int \<times> kernel" where
  "sys_rt_sigprocmask k how set_ptr oldset sz =
     (let k = init_root k in
      if sz \<noteq> 8 \<or> how < 0 \<or> how > 2 then (- EINVAL, k)
      else let (ok, k) = (if oldset \<noteq> 0 then put_user k oldset (le_bytes 8 (tk_sig_blocked (cur k) 0)) else (True, k)) in
      if \<not> ok then (- EFAULT, k)
      else if set_ptr = 0 then (0, k)
      else case get_user k set_ptr 8 of
        None \<Rightarrow> (- EFAULT, k)
      | Some bs \<Rightarrow>
        (0, set_task k (current_task k) (\<lambda>t. t\<lparr>tk_sig_blocked := (tk_sig_blocked t)(0 := new_mask how (tk_sig_blocked t 0) (le_word bs))\<rparr>)))"

definition sys_rt_sigpending :: "kernel \<Rightarrow> u64 \<Rightarrow> u64 \<Rightarrow> int \<times> kernel" where
  "sys_rt_sigpending k set_ptr sz =
     (let k = init_root k in
      if set_ptr = 0 \<or> sz \<noteq> 8 then (- EFAULT, k)
      else let (ok, k) = put_user k set_ptr (le_bytes 8 (tk_sig_pending (cur k) 0)) in
      (if ok then 0 else - EFAULT, k))"

definition sys_sigaltstack :: "kernel \<Rightarrow> u64 \<Rightarrow> u64 \<Rightarrow> int \<times> kernel" where
  "sys_sigaltstack k ss old =
     (if ss \<noteq> 0 \<and> \<not> vmm_user_range_ok (vm k) ss 24 False then (- EFAULT, k)
      else if old = 0 then (0, k)
      else let (ok, k) = put_user k old (replicate 24 0) in (if ok then 0 else - EFAULT, k))"

definition sys_madvise :: "kernel \<Rightarrow> u64 \<Rightarrow> u64 \<Rightarrow> int \<Rightarrow> int \<times> kernel" where
  "sys_madvise k addr len advice = (0, k)"

text \<open>The common part of \<^verbatim>\<open>kill\<close> and \<^verbatim>\<open>tgkill\<close>: the first task that matches.\<close>

definition post_signal :: "kernel \<Rightarrow> int \<Rightarrow> (task \<Rightarrow> bool) \<Rightarrow> int \<times> kernel" where
  "post_signal k sig P =
     (if \<not> sig_valid sig \<and> sig \<noteq> 0 then (- EINVAL, k)
      else case find (\<lambda>i. tk_used (tasks k i) \<and> P (tasks k i)) [0..<MAX_TASKS] of
        None \<Rightarrow> (- ESRCH_K, k)
      | Some i \<Rightarrow> if sig = 0 then (0, k)
                 else (fst (sig_pending_set (tasks k i) sig), set_task k i (\<lambda>t. snd (sig_pending_set t sig))))"

definition sys_kill :: "kernel \<Rightarrow> int \<Rightarrow> int \<Rightarrow> int \<times> kernel" where
  "sys_kill k pid sig =
     (let k = init_root k in
      post_signal k sig (\<lambda>t. (pid > 0 \<and> (tk_pid t = pid \<or> tk_tgid t = pid)) \<or> (pid = 0 \<and> tk_tgid t = tk_tgid (cur k))))"

definition sys_tgkill :: "kernel \<Rightarrow> int \<Rightarrow> int \<Rightarrow> int \<Rightarrow> int \<times> kernel" where
  "sys_tgkill k tgid tid sig =
     (let k = init_root k in post_signal k sig (\<lambda>t. tk_tgid t = tgid \<and> tk_pid t = tid))"

section \<open>Delivery\<close>

definition ignored :: "u64 \<Rightarrow> int \<Rightarrow> bool" where
  "ignored h sig \<longleftrightarrow> h = SIG_IGN \<or> (h = SIG_DFL \<and> (sig = SIGCHLD \<or> sig = SIGWINCH))"

definition deliver_pending_signal_to_task :: "kernel \<Rightarrow> nat \<Rightarrow> syscall_frame \<Rightarrow> kernel \<times> syscall_frame" where
  "deliver_pending_signal_to_task k ti f =
     (let t = tasks k ti; sig = sig_next_deliverable t; h = sa_handler (tk_sig_actions t (nat sig)) in
      if tk_sig_active t \<or> sig = 0 then (k, f)
      else if ignored h sig then (set_task k ti (\<lambda>t. sig_clear_pending t sig), f)
      else if h = SIG_DFL \<or> h \<ge> USER_LIMIT then
        let k = (if sig \<noteq> SIGINT then set_task k ti (\<lambda>t. sig_clear_pending t sig) else k) in
        (set_task k ti (\<lambda>t. t\<lparr>tk_exit_status := 128 + sig, tk_state := TASK_ZOMBIE\<rparr>), f)
      else let rest = sa_restorer (tk_sig_actions t (nat sig)); rsp = fr_user_rsp f in
      if rest = 0 then (k, f)
      else if rsp < 8 \<or> \<not> vmm_user_range_ok (vm k) (rsp - 8) 8 True then (k, f)
      else let k = set_task k ti (\<lambda>t. t\<lparr>tk_sig_saved_frame := f, tk_sig_saved_valid := True, tk_sig_active := True\<rparr>);
               (ok, k) = copy_out k (rsp - 8) (le_bytes 8 rest) in
      if \<not> ok then (set_task k ti (\<lambda>t. t\<lparr>tk_sig_saved_valid := False, tk_sig_active := False\<rparr>), f)
      else (set_task k ti (\<lambda>t. sig_clear_pending t sig),
            f\<lparr>fr_user_rsp := rsp - 8, fr_user_rip := h, fr_rdi := word_of_int sig, fr_rax := 0\<rparr>))"

definition deliver_pending_signal :: "kernel \<Rightarrow> syscall_frame \<Rightarrow> kernel \<times> syscall_frame" where
  "deliver_pending_signal k f = deliver_pending_signal_to_task k (current_task k) f"

definition sys_rt_sigreturn :: "kernel \<Rightarrow> syscall_frame \<Rightarrow> int \<times> kernel \<times> syscall_frame" where
  "sys_rt_sigreturn k f =
     (let k = init_root k; t = cur k in
      if \<not> tk_sig_active t \<or> \<not> tk_sig_saved_valid t then (- EINVAL, k, f)
      else (0, set_task k (current_task k) (\<lambda>t. t\<lparr>tk_sig_saved_valid := False, tk_sig_active := False\<rparr>), tk_sig_saved_frame t))"

text \<open>
  The end of the dispatcher: the result goes to \<^verbatim>\<open>rax\<close>, and unless the call was
  \<^verbatim>\<open>rt_sigreturn\<close> (number 15) or replaced the program a signal may be delivered.
  The copies of frame fields in \<^verbatim>\<open>syscall_user_rip\<close>, \<^verbatim>\<open>syscall_user_rsp\<close> and
  \<^verbatim>\<open>syscall_user_rflags\<close> are left out.
\<close>

definition syscall_finish :: "bool \<Rightarrow> kernel \<Rightarrow> syscall_frame \<Rightarrow> u64 \<Rightarrow> int \<Rightarrow> kernel \<times> syscall_frame" where
  "syscall_finish exec_pending k f nr ret =
     (let f = f\<lparr>fr_rax := word_of_int ret\<rparr> in
      if exec_pending then (k, f)
      else let (k, f) = (if nr \<noteq> 15 then deliver_pending_signal k f else (k, f)) in (k\<lparr>syscall_user_cr3 := fr_user_cr3 f\<rparr>, f))"

section \<open>Terminal signals\<close>

definition interrupt_ctx :: "task \<Rightarrow> task" where
  "interrupt_ctx t = t\<lparr>tk_ctx := (tk_ctx t)\<lparr>cx_rax := neg 4\<rparr>, tk_state := TASK_RUNNABLE\<rparr>"

definition tty_queue_signal :: "task \<Rightarrow> int \<Rightarrow> task" where
  "tty_queue_signal t sig =
     (if sig \<le> 0 \<or> sig > 64 then t
      else if ignored (sa_handler (tk_sig_actions t (nat sig))) sig then sig_clear_pending t sig
      else let t = snd (sig_pending_set t sig) in
      if sig_is_blocked t sig then t
      else if tk_state t = TASK_BLOCKED \<and> tk_io_wait_kind t \<noteq> IO_WAIT_NONE \<and> tk_io_wait_valid t then
        let t = (if cx_rip (tk_ctx t) \<le> UINT64_MAX - 2 then t\<lparr>tk_ctx := (tk_ctx t)\<lparr>cx_rip := cx_rip (tk_ctx t) + 2\<rparr>\<rparr> else t) in
        interrupt_ctx (t\<lparr>tk_io_wait_kind := IO_WAIT_NONE, tk_io_wait_valid := False, tk_io_wait_nr := 0, tk_io_wait_deadline_ns := 0,
          tk_io_resume_valid := False, tk_io_resume_nr := 0\<rparr>)
      else if tk_state t = TASK_BLOCKED \<and> tk_wait4_active t then
        interrupt_ctx (t\<lparr>tk_wait4_active := False, tk_wait4_pid := -1, tk_wait4_status_ptr := 0\<rparr>)
      else if tk_state t = TASK_BLOCKED \<and> tk_pipe_wait_fd t \<ge> 0 then
        interrupt_ctx (t\<lparr>tk_pipe_wait_fd := -1, tk_pipe_wait_buf := 0, tk_pipe_wait_count := 0\<rparr>)
      else if tk_state t = TASK_BLOCKED \<and> tk_futex_addr t \<noteq> 0 then
        interrupt_ctx (t\<lparr>tk_futex_addr := 0, tk_futex_cr3 := 0, tk_futex_deadline_ns := 0\<rparr>)
      else t)"

text \<open>The loops that signal every task that satisfies a condition; \<^verbatim>\<open>sent\<close> is whether there was one.\<close>

definition signal_all :: "kernel \<Rightarrow> (task \<Rightarrow> bool) \<Rightarrow> int \<Rightarrow> int \<times> kernel" where
  "signal_all k P sig =
     (let sent = \<exists>i \<in> {0..<MAX_TASKS}. P (tasks k i) in
      (if sent then 0 else - ESRCH_K,
       fold (\<lambda>i k. if P (tasks k i) then set_task k i (\<lambda>t. tty_queue_signal t sig) else k) [0..<MAX_TASKS] k))"

definition tty_pgrp_signal :: "kernel \<Rightarrow> pty_state \<Rightarrow> int \<Rightarrow> int \<times> kernel" where
  "tty_pgrp_signal k p sig =
     (let pg = pt_fg_pgrp p in
      if pg = 0 then (- ESRCH_K, k)
      else signal_all k (\<lambda>t. \<not> (\<not> tk_used t \<or> tk_pgrp t \<noteq> pg) \<and> \<not> (pt_session p > 0 \<and> tk_session t \<noteq> pt_session p)) sig)"

definition console_tty_pgrp_signal :: "kernel \<Rightarrow> int \<Rightarrow> int \<times> kernel" where
  "console_tty_pgrp_signal k sig =
     (let pg = (if console_fg_pgrp k \<le> 0 then tk_pgrp (cur k) else console_fg_pgrp k); session = tk_session (cur k) in
      if pg \<le> 0 then (- ESRCH_K, k)
      else signal_all k (\<lambda>t. tk_used t \<and> tk_pgrp t = pg \<and> tk_session t = session) sig)"

section \<open>Lemmas\<close>

text \<open>The sets that the words stand for.\<close>

definition pending :: "task \<Rightarrow> int set" where
  "pending t = {s. sig_valid s \<and> sig_is_pending t s}"

definition blocked :: "task \<Rightarrow> int set" where
  "blocked t = {s. sig_valid s \<and> sig_is_blocked t s}"

lemma sig_pos: "sig_valid s \<Longrightarrow> sig_word s = 0 \<and> sig_bit s = push_bit (nat (s - 1)) 1 \<and> nat (s - 1) < 64"
  by (auto simp: sig_valid_def sig_word_def sig_bit_def)

lemma sig_is_pending_bit: "sig_valid s \<Longrightarrow> sig_is_pending t s \<longleftrightarrow> bit (tk_sig_pending t 0) (nat (s - 1))"
  using sig_pos [of s] by (simp add: sig_is_pending_def bit_iff_and_push_bit_not_eq_0)

lemma bit_sig_bit: "sig_valid s \<Longrightarrow> sig_valid x \<Longrightarrow> bit (sig_bit s) (nat (x - 1)) \<longleftrightarrow> s = x"
  using sig_pos [of s] by (auto simp: bit_exp_iff sig_valid_def)

lemma pending_set:
  assumes "sig_valid s"
  shows "pending (snd (sig_pending_set t s)) = insert s (pending t)"
proof (rule set_eqI)
  fix x
  show "x \<in> pending (snd (sig_pending_set t s)) \<longleftrightarrow> x \<in> insert s (pending t)"
    using assms sig_pos [of s] bit_sig_bit [of s x]
    by (cases "sig_valid x") (auto simp: pending_def sig_is_pending_bit sig_pending_set_def bit_or_iff)
qed

lemma pending_clear:
  assumes "sig_valid s"
  shows "pending (sig_clear_pending t s) = pending t - {s}"
proof (rule set_eqI)
  fix x
  have "sig_valid x \<Longrightarrow> nat (x - 1) < 64" using sig_pos [of x] by simp
  then show "x \<in> pending (sig_clear_pending t s) \<longleftrightarrow> x \<in> pending t - {s}"
    using assms sig_pos [of s] bit_sig_bit [of s x]
    by (cases "sig_valid x") (auto simp: pending_def sig_is_pending_bit sig_clear_pending_def bit_and_iff bit_not_iff)
qed

lemma find_least:
  assumes "find P [m..<n] = Some i"
  shows "m \<le> i" "i < n" "P i" "\<And>j. m \<le> j \<Longrightarrow> j < i \<Longrightarrow> \<not> P j"
proof -
  obtain d where d: "d < n - m" "P (m + d)" "i = m + d" "\<And>e. e < d \<Longrightarrow> \<not> P (m + e)"
    using assms by (auto simp: find_Some_iff)
  show "m \<le> i" "i < n" "P i" using d by auto
  show "\<not> P j" if "m \<le> j" "j < i" for j using d(4) [of "j - m"] that d(3) by auto
qed

lemma pending_iff: "s \<in> pending t - blocked t \<longleftrightarrow> sig_valid s \<and> sig_is_pending t s \<and> \<not> sig_is_blocked t s"
  by (auto simp: pending_def blocked_def)

lemma next_deliverable_spec:
  "if pending t - blocked t = {} then sig_next_deliverable t = 0
   else sig_next_deliverable t \<in> pending t - blocked t \<and> (\<forall>s \<in> pending t - blocked t. sig_next_deliverable t \<le> s)"
proof -
  let ?P = "\<lambda>s. sig_is_pending t (int s) \<and> \<not> sig_is_blocked t (int s)"
  have r: "s \<in> pending t - blocked t \<longleftrightarrow> (\<exists>m \<in> {1..<65}. s = int m \<and> ?P m)" for s
  proof
    assume "s \<in> pending t - blocked t"
    then show "\<exists>m \<in> {1..<65}. s = int m \<and> ?P m"
      unfolding pending_iff by (intro bexI [of _ "nat s"]) (auto simp: sig_valid_def)
  qed (auto simp: pending_def blocked_def sig_valid_def)
  show ?thesis
  proof (cases "find ?P [1..<65]")
    case None
    then have "pending t - blocked t = {}" using r by (fastforce simp: find_None_iff)
    then show ?thesis using None by (simp add: sig_next_deliverable_def)
  next
    case (Some m)
    note F = Some
    have m: "m \<in> {1..<65}" "?P m" using find_least(1-3) [OF F] by simp_all
    then have "int m \<in> pending t - blocked t" using r by blast
    moreover have "int m \<le> s" if s: "s \<in> pending t - blocked t" for s
    proof -
      obtain j where j: "j \<in> {1..<65}" "s = int j" "?P j" using s r by blast
      then have "\<not> j < m" using find_least(4) [OF F, of j] by auto
      then show ?thesis using j(2) by simp
    qed
    ultimately show ?thesis using F by (auto simp: sig_next_deliverable_def)
  qed
qed

lemma copy_out_frame [simp]:
  "copy_out k a bs = (ok, k') \<Longrightarrow> tasks k' = tasks k \<and> current_task k' = current_task k \<and> fds k' = fds k"
  by (auto simp: copy_out_def split: prod.splits)

text \<open>What a delivery that starts a handler leaves behind.\<close>

lemma deliver_starts_handler:
  assumes "deliver_pending_signal_to_task k ti f = (k', f')" "\<not> tk_sig_active (tasks k ti)" "tk_sig_active (tasks k' ti)"
  defines "sig \<equiv> sig_next_deliverable (tasks k ti)"
  shows "sig \<in> pending (tasks k ti) - blocked (tasks k ti)" "pending (tasks k' ti) = pending (tasks k ti) - {sig}"
    "tk_sig_saved_frame (tasks k' ti) = f" "tk_sig_saved_valid (tasks k' ti)"
    "f' = f\<lparr>fr_user_rsp := fr_user_rsp f - 8, fr_user_rip := sa_handler (tk_sig_actions (tasks k ti) (nat sig)),
       fr_rdi := word_of_int sig, fr_rax := 0\<rparr>"
    "current_task k' = current_task k" "\<forall>j. j \<noteq> ti \<longrightarrow> tasks k' j = tasks k j"
proof -
  let ?t = "tasks k ti" and ?h = "sa_handler (tk_sig_actions (tasks k ti) (nat sig))"
  let ?k1 = "set_task k ti (\<lambda>t. t\<lparr>tk_sig_saved_frame := f, tk_sig_saved_valid := True, tk_sig_active := True\<rparr>)"
  obtain ok k2 where c: "copy_out ?k1 (fr_user_rsp f - 8) (le_bytes 8 (sa_restorer (tk_sig_actions ?t (nat sig)))) = (ok, k2)"
    by (rule prod.exhaust)
  note fr = copy_out_frame [OF c]
  have s0: "sig \<noteq> 0" and e: "k' = set_task k2 ti (\<lambda>t. sig_clear_pending t sig)" and f': "f' = f\<lparr>fr_user_rsp := fr_user_rsp f - 8, fr_user_rip := ?h, fr_rdi := word_of_int sig, fr_rax := 0\<rparr>"
    using assms(1-3) fr c [unfolded sig_def] unfolding deliver_pending_signal_to_task_def sig_def
    by (auto simp: Let_def sig_clear_pending_def split: if_splits)
  show m: "sig \<in> pending ?t - blocked ?t"
    using next_deliverable_spec [of ?t] s0 unfolding sig_def by (auto split: if_splits)
  have v: "sig_valid sig" using m by (simp add: pending_def)
  have t': "tasks k' ti = sig_clear_pending (?t\<lparr>tk_sig_saved_frame := f, tk_sig_saved_valid := True, tk_sig_active := True\<rparr>) sig"
    using e fr by simp
  show "pending (tasks k' ti) = pending ?t - {sig}"
    unfolding t' pending_clear [OF v] by (simp add: pending_def sig_is_pending_def)
  show "tk_sig_saved_frame (tasks k' ti) = f" "tk_sig_saved_valid (tasks k' ti)"
    unfolding t' by (simp_all add: sig_clear_pending_def)
  show "f' = f\<lparr>fr_user_rsp := fr_user_rsp f - 8, fr_user_rip := ?h, fr_rdi := word_of_int sig, fr_rax := 0\<rparr>" by (rule f')
  show "current_task k' = current_task k" "\<forall>j. j \<noteq> ti \<longrightarrow> tasks k' j = tasks k j" using e fr by simp_all
qed

lemma sigreturn_restores:
  assumes "tk_used (tasks k 0)" "tk_sig_active (cur k)" "tk_sig_saved_valid (cur k)"
  shows "sys_rt_sigreturn k g = (0, set_task k (current_task k) (\<lambda>t. t\<lparr>tk_sig_saved_valid := False, tk_sig_active := False\<rparr>),
     tk_sig_saved_frame (cur k))"
  using assms by (simp add: sys_rt_sigreturn_def init_root_def task_init_root_def)

end
