(* ===== verification/Tty.thy ===== *)
theory Tty
  imports Signal
begin

text \<open>
  Terminals together with the tasks that use them, from \<^verbatim>\<open>src/src/kernel/main.c\<close>: the
  line discipline that a write to the master goes through, the terminal branches of
  \<^verbatim>\<open>sys_write\<close> and \<^verbatim>\<open>sys_read\<close>, and the terminal requests of \<^verbatim>\<open>sys_ioctl\<close>.
\<close>

section \<open>Line discipline\<close>

definition pty :: "kernel \<Rightarrow> nat \<Rightarrow> pty_state" where
  "pty k i = pty_slots (fds k) i"

definition on_pty :: "kernel \<Rightarrow> nat \<Rightarrow> (pty_state \<Rightarrow> pty_state) \<Rightarrow> kernel" where
  "on_pty k i f = k\<lparr>fds := set_pty (fds k) i f\<rparr>"

definition tty_output :: "kernel \<Rightarrow> nat \<Rightarrow> u8 list \<Rightarrow> kernel" where
  "tty_output k i bs = on_pty k i (\<lambda>p. snd (pty_output_write p bs))"

definition tty_echo :: "kernel \<Rightarrow> nat \<Rightarrow> u8 \<Rightarrow> u32 \<Rightarrow> kernel" where
  "tty_echo k i c lflag = on_pty k i (\<lambda>p. pty_echo_char p c lflag)"

definition wake_all :: "kernel \<Rightarrow> kernel" where
  "wake_all k = snd (task_wake_io_waiters k)"

text \<open>Carriage returns and newlines on input; \<open>None\<close> is a byte that is dropped.\<close>

definition map_input :: "u32 \<Rightarrow> u8 \<Rightarrow> u8 option" where
  "map_input iflag c =
     (if c = CR then
        if iflag AND IGNCR \<noteq> 0 then None else if iflag AND ICRNL \<noteq> 0 then Some LF else Some c
      else if c = LF \<and> iflag AND INLCR \<noteq> 0 then Some CR else Some c)"

definition input_signal :: "u32 \<Rightarrow> termios \<Rightarrow> u8 \<Rightarrow> int" where
  "input_signal lflag t c =
     (if lflag AND ISIG = 0 then 0
      else if tty_cc_match t VINTR c then SIGINT
      else if tty_cc_match t VQUIT c then SIGQUIT
      else if tty_cc_match t VSUSP c then SIGTSTP else 0)"

definition feed_signal :: "u32 \<Rightarrow> kernel \<Rightarrow> nat \<Rightarrow> u8 \<Rightarrow> int \<Rightarrow> kernel" where
  "feed_signal lflag k i c sig =
     (let k = (if lflag AND NOFLSH = 0 then on_pty k i (\<lambda>p. (pty_flush_output (pty_flush_input p))\<lparr>pt_output_stopped := False\<rparr>) else k);
          k = tty_echo k i c lflag;
          k = snd (tty_pgrp_signal k (pty k i) sig) in
      if lflag AND ECHO \<noteq> 0 \<and> lflag AND ECHOCTL \<noteq> 0 then tty_output k i [LF] else k)"

definition push_canon :: "pty_state \<Rightarrow> u8 \<Rightarrow> pty_state" where
  "push_canon p c = p\<lparr>pt_canon := (pt_canon p)(unat (pt_canon_count p) := c), pt_canon_count := pt_canon_count p + 1\<rparr>"

text \<open>The two modes; \<open>False\<close> stands for the return because the buffer is full.\<close>

definition feed_canon :: "u32 \<Rightarrow> kernel \<Rightarrow> nat \<Rightarrow> u8 \<Rightarrow> bool \<times> kernel" where
  "feed_canon lflag k i c =
     (let t = pt_termios (pty k i) in
      if tty_cc_match t VERASE c then
        (True,
         if pt_canon_count (pty k i) \<noteq> 0 then
           let k = on_pty k i (\<lambda>p. p\<lparr>pt_canon_count := pt_canon_count p - 1\<rparr>) in
           if lflag AND ECHO \<noteq> 0 then (if lflag AND ECHOE \<noteq> 0 then tty_output k i [8, 32, 8] else tty_echo k i c lflag) else k
         else if lflag AND ECHO \<noteq> 0 then tty_echo k i c lflag else k)
      else if tty_cc_match t VKILL c then
        (True,
         let k = on_pty k i (\<lambda>p. p\<lparr>pt_canon_count := 0\<rparr>) in
         if lflag AND ECHOK \<noteq> 0 then tty_output k i [LF] else if lflag AND ECHO \<noteq> 0 then tty_echo k i c lflag else k)
      else if pt_canon_count (pty k i) \<ge> PTY_CAP then (False, k)
      else let k = on_pty k i (\<lambda>p. push_canon p c) in
        (True, if tty_cc_match t VEOF c then k else tty_echo k i c lflag))"

definition feed_raw :: "u32 \<Rightarrow> kernel \<Rightarrow> nat \<Rightarrow> u8 \<Rightarrow> bool \<times> kernel" where
  "feed_raw lflag k i c =
     (if pt_m2s_count (pty k i) \<ge> PTY_CAP then (False, k)
      else (True, tty_echo (on_pty k i (\<lambda>p. set_m2s p (snd (ring_write PTY_CAP (m2s p) [c])))) i c lflag))"

definition feed_byte :: "u32 \<Rightarrow> u32 \<Rightarrow> kernel \<Rightarrow> nat \<Rightarrow> u8 \<Rightarrow> bool \<times> kernel" where
  "feed_byte iflag lflag k i c0 =
     (case map_input iflag c0 of None \<Rightarrow> (True, k)
      | Some c \<Rightarrow>
        let t = pt_termios (pty k i); ixon = iflag AND IXON \<noteq> 0 in
        if ixon \<and> tty_cc_match t VSTOP c then (True, on_pty k i (\<lambda>p. p\<lparr>pt_output_stopped := True\<rparr>))
        else if ixon \<and> tty_cc_match t VSTART c then (True, wake_all (on_pty k i (\<lambda>p. p\<lparr>pt_output_stopped := False\<rparr>)))
        else let k = (if ixon \<and> pt_output_stopped (pty k i) \<and> iflag AND IXANY \<noteq> 0
                      then wake_all (on_pty k i (\<lambda>p. p\<lparr>pt_output_stopped := False\<rparr>)) else k);
                 sig = input_signal lflag t c in
        if sig \<noteq> 0 then (True, feed_signal lflag k i c sig)
        else if lflag AND ICANON \<noteq> 0 then feed_canon lflag k i c
        else feed_raw lflag k i c)"

fun feed_loop :: "u32 \<Rightarrow> u32 \<Rightarrow> kernel \<Rightarrow> nat \<Rightarrow> u8 list \<Rightarrow> nat \<times> kernel" where
  "feed_loop iflag lflag k i [] = (0, k)"
| "feed_loop iflag lflag k i (c # cs) =
     (case feed_byte iflag lflag k i c of
        (False, k) \<Rightarrow> (0, k)
      | (True, k) \<Rightarrow> let (n, k) = feed_loop iflag lflag k i cs in (Suc n, k))"

definition pty_canon_feed :: "kernel \<Rightarrow> nat \<Rightarrow> u8 list \<Rightarrow> nat \<times> kernel" where
  "pty_canon_feed k i src = feed_loop (tty_iflag (pt_termios (pty k i))) (tty_lflag (pt_termios (pty k i))) k i src"

section \<open>Writing and reading\<close>

abbreviation (input) EPIPE :: int where "EPIPE \<equiv> 32"
abbreviation (input) EAGAIN :: int where "EAGAIN \<equiv> 11"
abbreviation (input) ENOTTY :: int where "ENOTTY \<equiv> 25"
abbreviation (input) EPERM :: int where "EPERM \<equiv> 1"

text \<open>
  The loop of a terminal write over pieces of at most 256 bytes. The result is the return value
  of an early return, if there is one, and the number of bytes taken.
\<close>

function pty_write_loop :: "kernel \<Rightarrow> bool \<Rightarrow> nat \<Rightarrow> u64 \<Rightarrow> nat \<Rightarrow> nat \<Rightarrow> int option \<times> nat \<times> kernel" where
  "pty_write_loop k master i buf count done =
     (if done \<ge> count then (None, done, k)
      else let n = min 256 (count - done) in
      case copy_in k (buf + of_nat done) n of
        None \<Rightarrow> (Some (if done \<noteq> 0 then int done else - EFAULT), done, k)
      | Some tmp \<Rightarrow>
        let (w, k) = (if master then pty_canon_feed k i tmp
                      else let (w, p) = pty_output_write (pty k i) tmp in (w, on_pty k i (\<lambda>_. p))) in
        if w < n then (None, done + w, k) else pty_write_loop k master i buf count (done + w))"
  by pat_completeness auto
termination
  by (relation "measure (\<lambda>(k, master, i, buf, count, done). count - done)") auto

declare pty_write_loop.simps [simp del]

text \<open>The checks at the head of \<^verbatim>\<open>sys_write\<close> for a descriptor that is not a socket: the early return.\<close>

definition write_checks :: "kernel \<Rightarrow> int \<Rightarrow> u64 \<Rightarrow> u64 \<Rightarrow> int option" where
  "write_checks k fd buf count =
     (if bad_fd fd \<and> fd \<noteq> 1 \<and> fd \<noteq> 2 then Some (- EBADF)
      else if count > 0x100000 \<or> (buf = 0 \<and> count \<noteq> 0) then Some (- EINVAL)
      else if count = 0 then Some 0
      else if \<not> vmm_user_range_ok (vm k) buf count False then Some (- EFAULT) else None)"

definition write_pty :: "kernel \<Rightarrow> file_desc \<Rightarrow> u64 \<Rightarrow> u64 \<Rightarrow> int \<times> kernel" where
  "write_pty k f buf count =
     (case fd_private f of
        Pty i \<Rightarrow>
          let master = (fd_type f = FD_PTY_MASTER) in
          if master \<and> \<not> pt_slave_open (pty k i) \<or> \<not> master \<and> \<not> pt_master_open (pty k i) then (- EPIPE, k)
          else (case pty_write_loop k master i buf (unat count) 0 of
             (Some r, _, k) \<Rightarrow> (r, k)
           | (None, done, k) \<Rightarrow> (int done, if done \<noteq> 0 then wake_all k else k))
      | _ \<Rightarrow> (- EIO, k))"

definition sys_write_pty :: "kernel \<Rightarrow> int \<Rightarrow> u64 \<Rightarrow> u64 \<Rightarrow> int \<times> kernel" where
  "sys_write_pty k fd buf count =
     (case write_checks k fd buf count of Some r \<Rightarrow> (r, k) | None \<Rightarrow> write_pty k (files k fd) buf count)"

text \<open>
  The bytes that a terminal read takes, or the value it returns at once; \<open>Inl None\<close> stands
  for a read that has to wait.
\<close>

definition pty_take :: "pty_state \<Rightarrow> bool \<Rightarrow> nat \<Rightarrow> int option + u8 list \<times> pty_state" where
  "pty_take p master n =
     (if master then
        if \<not> pt_slave_open p \<and> pt_s2m_count p = 0 then Inl (Some (- EPIPE))
        else if pt_s2m_count p = 0 \<or> pt_output_stopped p then Inl None
        else Inr (pty_master_read p n)
      else if \<not> pt_master_open p \<and> pt_m2s_count p = 0 \<and> pt_canon_count p = 0 then Inl (Some (- EPIPE))
      else if tty_lflag (pt_termios p) AND ICANON \<noteq> 0 then
        if \<not> pty_canon_available p \<and> pt_master_open p then Inl None else Inr (pty_canon_read p n)
      else if pt_m2s_count p = 0 then (if \<not> pt_master_open p then Inl (Some (- EPIPE)) else Inl None)
      else Inr (pty_raw_read p n))"

definition sys_read_pty :: "(nat \<Rightarrow> kernel \<Rightarrow> kernel) \<Rightarrow> kernel \<Rightarrow> syscall_frame \<Rightarrow> int \<Rightarrow> u64 \<Rightarrow> u64 \<Rightarrow> (int \<times> kernel) option" where
  "sys_read_pty tick k sf fd buf count =
     (if bad_fd fd \<or> \<not> fd_in_use (files k fd) then Some (- EBADF, k)
      else if buf = 0 \<and> count \<noteq> 0 then Some (- EINVAL, k)
      else if count \<noteq> 0 \<and> \<not> vmm_user_range_ok (vm k) buf count True then Some (- EFAULT, k)
      else let f = files k fd in
      case fd_private f of
        Pty i \<Rightarrow>
          if count = 0 then Some (0, k)
          else (case pty_take (pty k i) (fd_type f = FD_PTY_MASTER) (min 256 (unat count)) of
             Inl (Some r) \<Rightarrow> Some (r, k)
           | Inl None \<Rightarrow>
               if fd_flags f AND 0x800 \<noteq> 0 then Some (- EAGAIN, k)
               else map_option (\<lambda>(r, k). (if r = 0 then 0 else - EAGAIN, k)) (task_block_io tick k sf IO_WAIT_PTY_READ 0)
           | Inr (bs, p) \<Rightarrow>
               let k = on_pty k i (\<lambda>_. p);
                   (ok, k) = (if bs \<noteq> [] then copy_out k buf bs else (True, k)) in
               if \<not> ok then Some (- EFAULT, k)
               else Some (int (length bs), if bs \<noteq> [] then wake_all k else k))
      | _ \<Rightarrow> Some (- EIO, k))"

section \<open>Requests\<close>

abbreviation (input) TIOCGPTN :: u64 where "TIOCGPTN \<equiv> 0x80045430"
abbreviation (input) TIOCSPTLCK :: u64 where "TIOCSPTLCK \<equiv> 0x40045431"
abbreviation (input) TIOCGWINSZ :: u64 where "TIOCGWINSZ \<equiv> 0x5413"
abbreviation (input) TIOCSWINSZ :: u64 where "TIOCSWINSZ \<equiv> 0x5414"
abbreviation (input) TCGETS :: u64 where "TCGETS \<equiv> 0x5401"
abbreviation (input) TCSETS :: u64 where "TCSETS \<equiv> 0x5402"
abbreviation (input) TCSETSW :: u64 where "TCSETSW \<equiv> 0x5403"
abbreviation (input) TCSETSF :: u64 where "TCSETSF \<equiv> 0x5404"
abbreviation (input) TCFLSH :: u64 where "TCFLSH \<equiv> 0x540B"
abbreviation (input) TCXONC :: u64 where "TCXONC \<equiv> 0x540A"
abbreviation (input) TIOCSCTTY :: u64 where "TIOCSCTTY \<equiv> 0x540E"
abbreviation (input) TIOCSPGRP :: u64 where "TIOCSPGRP \<equiv> 0x5410"
abbreviation (input) TIOCGPGRP :: u64 where "TIOCGPGRP \<equiv> 0x540F"

text \<open>A copy to the argument of a request, without a check of its own.\<close>

definition reply :: "kernel \<Rightarrow> u64 \<Rightarrow> u8 list \<Rightarrow> int \<times> kernel" where
  "reply k arg bs = (let (ok, k) = copy_out k arg bs in (if ok then 0 else - EFAULT, k))"

definition winsize_bytes :: "pty_state \<Rightarrow> u8 list" where
  "winsize_bytes p = le_bytes 2 (ucast (pt_rows p)) @ le_bytes 2 (ucast (pt_cols p)) @
     le_bytes 2 (ucast (pt_xpixel p)) @ le_bytes 2 (ucast (pt_ypixel p))"

definition half_at :: "u8 list \<Rightarrow> nat \<Rightarrow> u16" where
  "half_at bs i = ucast (le_word (take 2 (drop i bs)))"

definition set_winsize :: "kernel \<Rightarrow> nat \<Rightarrow> u8 list \<Rightarrow> kernel" where
  "set_winsize k i bs =
     (let p = pty k i; r = half_at bs 0; c = half_at bs 2; x = half_at bs 4; y = half_at bs 6;
          changed = (pt_rows p \<noteq> r \<or> pt_cols p \<noteq> c \<or> pt_xpixel p \<noteq> x \<or> pt_ypixel p \<noteq> y);
          k = on_pty k i (\<lambda>p. p\<lparr>pt_rows := r, pt_cols := c, pt_xpixel := x, pt_ypixel := y\<rparr>) in
      if changed \<and> pt_fg_pgrp (pty k i) > 0 then snd (tty_pgrp_signal k (pty k i) SIGWINCH) else k)"

definition set_termios :: "pty_state \<Rightarrow> u8 list \<Rightarrow> pty_state" where
  "set_termios p bs = p\<lparr>pt_termios := (\<lambda>j. if j < 60 then bs ! j else pt_termios p j)\<rparr>"

definition tty_flush_req :: "kernel \<Rightarrow> nat \<Rightarrow> int \<Rightarrow> int \<times> kernel" where
  "tty_flush_req k i which =
     (if which < 0 \<or> which > 2 then (- EINVAL, k)
      else let k = (if which = 0 \<or> which = 2 then on_pty k i pty_flush_input else k);
               k = (if which = 1 \<or> which = 2 then on_pty k i pty_flush_output else k) in
        (0, wake_all k))"

definition tty_flow_req :: "kernel \<Rightarrow> nat \<Rightarrow> int \<Rightarrow> int \<times> kernel" where
  "tty_flow_req k i action =
     (if action = 0 then (0, on_pty k i (\<lambda>p. p\<lparr>pt_output_stopped := True\<rparr>))
      else if action = 1 then (0, wake_all (on_pty k i (\<lambda>p. p\<lparr>pt_output_stopped := False\<rparr>)))
      else if action = 2 \<or> action = 3 then
        (let c = tty_cc (pt_termios (pty k i)) (if action = 2 then VSTOP else VSTART) in
         if c = 0 then (0, k)
         else let (w, p) = pty_output_write (pty k i) [c]; k = on_pty k i (\<lambda>_. p) in
           if w \<noteq> 1 then (- EAGAIN, k) else (0, wake_all k))
      else (- EINVAL, k))"

definition tty_acquire :: "kernel \<Rightarrow> file_desc \<Rightarrow> nat \<Rightarrow> int \<times> kernel" where
  "tty_acquire k f i =
     (let t = cur k in
      if fd_type f \<noteq> FD_PTY_SLAVE then (- ENOTTY, k)
      else if tk_session t \<noteq> tk_pid t then (- EPERM, k)
      else if tk_controlling_tty t \<noteq> -1 \<and> tk_controlling_tty t \<noteq> 0 then (- EPERM, k)
      else (0, on_pty (set_task k (current_task k) (\<lambda>t. t\<lparr>tk_controlling_tty := 0\<rparr>)) i
        (\<lambda>p. p\<lparr>pt_fg_pgrp := tk_pgrp t, pt_shell_pgrp := (if pt_shell_pgrp p \<le> 0 then tk_pgrp t else pt_shell_pgrp p),
               pt_session := (if pt_session p \<le> 0 then tk_session t else pt_session p)\<rparr>)))"

definition pgrp_in_session :: "kernel \<Rightarrow> int \<Rightarrow> bool" where
  "pgrp_in_session k pg \<longleftrightarrow>
     (\<exists>i \<in> {0..<MAX_TASKS}. tk_used (tasks k i) \<and> tk_pgrp (tasks k i) = pg \<and> tk_session (tasks k i) = tk_session (cur k))"

definition int_at :: "u8 list \<Rightarrow> int" where
  "int_at bs = sint (ucast (le_word bs) :: u32)"

definition tty_set_pgrp :: "kernel \<Rightarrow> file_desc \<Rightarrow> nat \<Rightarrow> u64 \<Rightarrow> int \<times> kernel" where
  "tty_set_pgrp k f i arg =
     (if fd_type f \<noteq> FD_PTY_SLAVE then (- ENOTTY, k)
      else case copy_in k arg 4 of None \<Rightarrow> (- EFAULT, k)
      | Some bs \<Rightarrow>
        let pg = int_at bs; t = cur k in
        if pg \<le> 0 then (- EINVAL, k)
        else if \<not> pgrp_in_session k pg then (- EPERM, k)
        else (0, on_pty k i (\<lambda>p. p\<lparr>pt_shell_pgrp := (if pt_shell_pgrp p \<le> 0 then if tk_pgrp t > 0 then tk_pgrp t else pg else pt_shell_pgrp p),
               pt_session := (if pt_session p \<le> 0 then tk_session t else pt_session p), pt_fg_pgrp := pg\<rparr>)))"

text \<open>\<open>req\<close> is the request after its reduction to 32 bits.\<close>

definition ioctl_pty :: "(nat \<Rightarrow> kernel \<Rightarrow> kernel) \<Rightarrow> kernel \<Rightarrow> syscall_frame \<Rightarrow> file_desc \<Rightarrow> nat \<Rightarrow> u64 \<Rightarrow> u64 \<Rightarrow> (int \<times> kernel) option" where
  "ioctl_pty tick k sf f i req arg =
     (let p = pty k i in
      if req = TIOCGPTN then Some (reply k arg (le_bytes 4 (ucast (pt_index p))))
      else if req = TIOCSPTLCK then
        (case copy_in k arg 4 of None \<Rightarrow> Some (- EFAULT, k)
         | Some bs \<Rightarrow> Some (0, on_pty k i (\<lambda>p. p\<lparr>pt_unlocked := (int_at bs = 0)\<rparr>)))
      else if req = TIOCGWINSZ then Some (reply k arg (winsize_bytes p))
      else if req = TIOCSWINSZ then
        (case copy_in k arg 8 of None \<Rightarrow> Some (- EFAULT, k) | Some bs \<Rightarrow> Some (0, set_winsize k i bs))
      else if req = TCGETS then Some (reply k arg (map (pt_termios p) [0..<60]))
      else if (req = TCSETSW \<or> req = TCSETSF) \<and> pt_s2m_count p \<noteq> 0 \<and> pt_master_open p then
        map_option (\<lambda>(r, k). (if r = 0 then 0 else - EAGAIN, k)) (task_block_io tick k sf IO_WAIT_PTY_DRAIN 16)
      else if req = TCSETS \<or> req = TCSETSW \<or> req = TCSETSF then
        (case copy_in k arg 60 of None \<Rightarrow> Some (- EFAULT, k)
         | Some bs \<Rightarrow> Some (0, on_pty k i (\<lambda>p. let p = set_termios p bs in if req = TCSETSF then pty_flush_input p else p)))
      else if req = TCFLSH then Some (tty_flush_req k i (sint (ucast arg :: u32)))
      else if req = TCXONC then Some (tty_flow_req k i (sint (ucast arg :: u32)))
      else if req = TIOCSCTTY then Some (tty_acquire k f i)
      else if req = TIOCGPGRP then Some (reply k arg (le_bytes 4 (word_of_int (pt_fg_pgrp p))))
      else if req = TIOCSPGRP then Some (tty_set_pgrp k f i arg)
      else Some (- ENOTTY, k))"

section \<open>Lemmas\<close>

lemma pty_on_pty: "pty (on_pty k i f) j = (if j = i then f (pty k i) else pty k j)"
  by (simp add: pty_def on_pty_def set_pty_def)

lemma pty_cong: "fds k' = fds k \<Longrightarrow> pty k' = pty k"
  by (simp add: pty_def fun_eq_iff)

lemma fds_wake_all [simp]: "fds (wake_all k) = fds k"
  unfolding wake_all_def task_wake_io_waiters_eq by (simp add: woken_def)

lemma fds_signal_all [simp]: "fds (snd (signal_all k P sig)) = fds k"
proof -
  have "fds (fold (\<lambda>i k. if P (tasks k i) then set_task k i (\<lambda>t. tty_queue_signal t sig) else k) xs k) = fds k" for xs
    by (induction xs arbitrary: k) simp_all
  then show ?thesis by (simp add: signal_all_def Let_def)
qed

lemma fds_tty_pgrp_signal [simp]: "fds (snd (tty_pgrp_signal k p sig)) = fds k"
  by (simp add: tty_pgrp_signal_def Let_def)

lemma pty_wake_all [simp]: "pty (wake_all k) = pty k"
  by (rule pty_cong) simp

lemma pty_tty_pgrp_signal [simp]: "pty (snd (tty_pgrp_signal k p sig)) = pty k"
  by (rule pty_cong) simp

text \<open>All terminals of the table are well formed.\<close>

definition terms_ok :: "kernel \<Rightarrow> bool" where
  "terms_ok k \<longleftrightarrow> (\<forall>i. pty_ok (pty k i))"

lemma terms_ok_on_pty: "terms_ok k \<Longrightarrow> pty_ok (f (pty k i)) \<Longrightarrow> terms_ok (on_pty k i f)"
  by (simp add: terms_ok_def pty_on_pty)

lemma terms_ok_cong: "fds k' = fds k \<Longrightarrow> terms_ok k' = terms_ok k"
  by (simp add: terms_ok_def pty_def)

lemma terms_ok_pty: "terms_ok k \<Longrightarrow> pty_ok (pty k i)"
  by (simp add: terms_ok_def)

lemma terms_ok_output: "terms_ok k \<Longrightarrow> terms_ok (tty_output k i bs)"
  unfolding tty_output_def
  by (rule terms_ok_on_pty) (use pty_output_write_spec [OF terms_ok_pty prod.collapse [symmetric]] in auto)

lemma terms_ok_echo: "terms_ok k \<Longrightarrow> terms_ok (tty_echo k i c lflag)"
  unfolding tty_echo_def by (rule terms_ok_on_pty) (auto intro: pty_echo_char_ok terms_ok_pty)

lemma pty_ok_flush: "pty_ok p \<Longrightarrow> pty_ok (pty_flush_input p)" "pty_ok p \<Longrightarrow> pty_ok (pty_flush_output p)"
  by (auto simp: pty_ok_def pty_flush_input_def pty_flush_output_def m2s_def s2m_def ring_ok_def)

lemma pty_ok_stop: "pty_ok (p\<lparr>pt_output_stopped := b\<rparr>) = pty_ok p"
  by (simp add: pty_ok_def m2s_def s2m_def)

text \<open>The line buffer and the settings of a terminal.\<close>

definition line :: "kernel \<Rightarrow> nat \<Rightarrow> u8 list" where
  "line k i = canon_bytes (pty k i)"

definition settings :: "kernel \<Rightarrow> nat \<Rightarrow> termios" where
  "settings k i = pt_termios (pty k i)"

lemma line_output [simp]: "line (tty_output k i bs) i = line k i" "settings (tty_output k i bs) i = settings k i"
  using same_but_outputD [OF pty_output_write_same [of "pty k i" bs]]
  by (simp_all add: line_def settings_def tty_output_def pty_on_pty)

lemma line_echo [simp]: "line (tty_echo k i c l) i = line k i" "settings (tty_echo k i c l) i = settings k i"
  using same_but_outputD [OF pty_echo_char_same [of "pty k i" c l]]
  by (simp_all add: line_def settings_def tty_echo_def pty_on_pty)

lemma line_wake [simp]: "line (wake_all k) i = line k i" "settings (wake_all k) i = settings k i"
  "line (snd (tty_pgrp_signal k p sig)) i = line k i" "settings (snd (tty_pgrp_signal k p sig)) i = settings k i"
  by (simp_all add: line_def settings_def)

lemma line_stop [simp]:
  "line (on_pty k i (\<lambda>p. p\<lparr>pt_output_stopped := b\<rparr>)) i = line k i" "settings (on_pty k i (\<lambda>p. p\<lparr>pt_output_stopped := b\<rparr>)) i = settings k i"
  by (simp_all add: line_def settings_def pty_on_pty canon_bytes_def)

text \<open>What a byte of input does to the line: the line editor as a function on lists.\<close>

definition edit :: "u32 \<Rightarrow> u32 \<Rightarrow> termios \<Rightarrow> u8 \<Rightarrow> u8 list \<Rightarrow> u8 list" where
  "edit iflag lflag t c0 l =
     (case map_input iflag c0 of None \<Rightarrow> l
      | Some c \<Rightarrow>
        if iflag AND IXON \<noteq> 0 \<and> (tty_cc_match t VSTOP c \<or> tty_cc_match t VSTART c) then l
        else if input_signal lflag t c \<noteq> 0 then (if lflag AND NOFLSH = 0 then [] else l)
        else if lflag AND ICANON = 0 then l
        else if tty_cc_match t VERASE c then butlast l
        else if tty_cc_match t VKILL c then []
        else l @ [c])"

lemma feed_signal_line:
  "line (feed_signal lflag k i c sig) i = (if lflag AND NOFLSH = 0 then [] else line k i)"
  "settings (feed_signal lflag k i c sig) i = settings k i"
proof -
  let ?f = "on_pty k i (\<lambda>p. (pty_flush_output (pty_flush_input p))\<lparr>pt_output_stopped := False\<rparr>)"
  have "line ?f i = []" "settings ?f i = settings k i"
    by (simp_all add: line_def settings_def pty_on_pty canon_bytes_def pty_flush_output_def pty_flush_input_def)
  then show "line (feed_signal lflag k i c sig) i = (if lflag AND NOFLSH = 0 then [] else line k i)"
    "settings (feed_signal lflag k i c sig) i = settings k i" by (simp_all add: feed_signal_def Let_def)
qed

lemma feed_signal_ok: "terms_ok k \<Longrightarrow> terms_ok (feed_signal lflag k i c sig)"
proof -
  assume k: "terms_ok k"
  let ?f = "on_pty k i (\<lambda>p. (pty_flush_output (pty_flush_input p))\<lparr>pt_output_stopped := False\<rparr>)"
  have "terms_ok ?f" by (rule terms_ok_on_pty [OF k]) (simp add: pty_ok_stop pty_ok_flush terms_ok_pty [OF k])
  then have "terms_ok (snd (tty_pgrp_signal (tty_echo k2 i c lflag) p sig))" if "k2 = (if lflag AND NOFLSH = 0 then ?f else k)" for k2 p
    using k that terms_ok_cong [OF fds_tty_pgrp_signal] terms_ok_echo by auto
  then show ?thesis by (simp add: feed_signal_def Let_def terms_ok_output)
qed

lemma canon_push:
  assumes "pt_canon_count p < PTY_CAP"
  shows "canon_bytes (push_canon p c) = canon_bytes p @ [c]" "pty_ok p \<Longrightarrow> pty_ok (push_canon p c)"
proof -
  have u: "unat (pt_canon_count p + 1) = unat (pt_canon_count p) + 1"
    by (rule unat_inc32) (use assms in \<open>simp add: word_less_nat_alt\<close>)
  show "canon_bytes (push_canon p c) = canon_bytes p @ [c]"
    by (auto simp: canon_bytes_def push_canon_def u)
  show "pty_ok p \<Longrightarrow> pty_ok (push_canon p c)"
    using assms u by (simp add: pty_ok_def push_canon_def m2s_def s2m_def word_le_nat_alt word_less_nat_alt)
qed

lemma canon_erase:
  assumes "pt_canon_count p \<noteq> 0"
  shows "canon_bytes (p\<lparr>pt_canon_count := pt_canon_count p - 1\<rparr>) = butlast (canon_bytes p)"
    "pty_ok p \<Longrightarrow> pty_ok (p\<lparr>pt_canon_count := pt_canon_count p - 1\<rparr>)"
proof -
  have u: "unat (pt_canon_count p - 1) = unat (pt_canon_count p) - 1" using assms by (simp add: unat_minus_one)
  have n: "0 < unat (pt_canon_count p)" using assms by (simp add: unat_gt_0)
  show "canon_bytes (p\<lparr>pt_canon_count := pt_canon_count p - 1\<rparr>) = butlast (canon_bytes p)"
    by (cases "unat (pt_canon_count p)") (use n in \<open>simp_all add: canon_bytes_def u\<close>)
  show "pty_ok p \<Longrightarrow> pty_ok (p\<lparr>pt_canon_count := pt_canon_count p - 1\<rparr>)"
    using u by (auto simp: pty_ok_def m2s_def s2m_def word_le_nat_alt)
qed

lemma line_on_pty: "line (on_pty k i f) i = canon_bytes (f (pty k i))" "settings (on_pty k i f) i = pt_termios (f (pty k i))"
  by (simp_all add: line_def settings_def pty_on_pty)

lemma length_line [simp]: "length (line k i) = unat (pt_canon_count (pty k i))"
  by (simp add: line_def canon_bytes_def)

lemma feed_canon_spec:
  assumes k: "terms_ok k" and f: "feed_canon lflag k i c = (b, k')"
  defines "t \<equiv> settings k i"
  shows "terms_ok k'" "settings k' i = t" "\<not> b \<Longrightarrow> k' = k \<and> length (line k i) = 65536"
    "b \<Longrightarrow> line k' i = (if tty_cc_match t VERASE c then butlast (line k i) else if tty_cc_match t VKILL c then [] else line k i @ [c])"
proof -
  note P = terms_ok_pty [OF k, of i]
  let ?n = "pt_canon_count (pty k i)"
  have cap: "?n \<ge> PTY_CAP \<longleftrightarrow> unat ?n = 65536" using P by (auto simp: pty_ok_def word_le_nat_alt)
  let ?e = "on_pty k i (\<lambda>p. p\<lparr>pt_canon_count := pt_canon_count p - 1\<rparr>)"
    and ?z = "on_pty k i (\<lambda>p. p\<lparr>pt_canon_count := 0\<rparr>)" and ?a = "on_pty k i (\<lambda>p. push_canon p c)"
  have e: "?n \<noteq> 0 \<Longrightarrow> terms_ok ?e \<and> line ?e i = butlast (line k i) \<and> settings ?e i = t"
    using canon_erase [of "pty k i"] P terms_ok_on_pty [OF k] unfolding line_on_pty t_def by (simp add: line_def settings_def)
  have z: "terms_ok ?z \<and> line ?z i = [] \<and> settings ?z i = t"
    using P terms_ok_on_pty [OF k] unfolding line_on_pty t_def
    by (simp add: line_def settings_def canon_bytes_def pty_ok_def m2s_def s2m_def)
  have a: "?n < PTY_CAP \<Longrightarrow> terms_ok ?a \<and> line ?a i = line k i @ [c] \<and> settings ?a i = t"
    using canon_push [of "pty k i" c] P terms_ok_on_pty [OF k] unfolding line_on_pty t_def
    by (simp add: line_def settings_def push_canon_def)
  have l0: "?n = 0 \<Longrightarrow> line k i = []" by (simp add: line_def canon_bytes_def)
  note D = f [unfolded feed_canon_def, folded settings_def, folded t_def]
  show "\<not> b \<Longrightarrow> k' = k \<and> length (line k i) = 65536" using D cap by (auto simp: Let_def split: if_splits)
  show "terms_ok k'" using D e z a k by (auto simp: Let_def not_le intro: terms_ok_echo terms_ok_output split: if_splits)
  show "settings k' i = t" using D e z a by (auto simp: Let_def not_le t_def split: if_splits)
  show "b \<Longrightarrow> line k' i = (if tty_cc_match t VERASE c then butlast (line k i) else if tty_cc_match t VKILL c then [] else line k i @ [c])"
    using D e z a l0 by (auto simp: Let_def not_le split: if_splits)
qed

lemma feed_raw_spec:
  assumes k: "terms_ok k" and f: "feed_raw lflag k i c = (b, k')"
  shows "terms_ok k'" "settings k' i = settings k i" "line k' i = line k i"
proof -
  let ?r = "on_pty k i (\<lambda>p. set_m2s p (snd (ring_write PTY_CAP (m2s p) [c])))"
  have "pty_ok (set_m2s (pty k i) (snd (ring_write PTY_CAP (m2s (pty k i)) [c])))"
    using terms_ok_pty [OF k, of i] ring_write_spec [of PTY_CAP "m2s (pty k i)" "[c]", OF _ prod.collapse [symmetric]]
    by (simp add: pty_ok_def set_m2s_def [of "pty k i", THEN arg_cong [of _ _ pt_canon_count]] del: ring_write.simps)
  then have r: "terms_ok ?r" by (rule terms_ok_on_pty [OF k])
  have l: "line ?r i = line k i" "settings ?r i = settings k i"
    unfolding line_on_pty by (simp_all add: line_def settings_def set_m2s_def canon_bytes_def)
  show "terms_ok k'" "settings k' i = settings k i" "line k' i = line k i"
    using f k r l terms_ok_echo [OF r] by (auto simp: feed_raw_def simp del: ring_write.simps split: if_splits)
qed

lemma feed_byte_spec:
  assumes k: "terms_ok k" and f: "feed_byte iflag lflag k i c = (b, k')"
  shows "terms_ok k'" "settings k' i = settings k i" "b \<Longrightarrow> line k' i = edit iflag lflag (settings k i) c (line k i)"
    "\<not> b \<Longrightarrow> line k' i = line k i" "\<not> b \<Longrightarrow> lflag AND ICANON \<noteq> 0 \<Longrightarrow> length (line k i) = 65536"
proof -
  let ?s = "\<lambda>v. on_pty k i (\<lambda>p. p\<lparr>pt_output_stopped := v\<rparr>)"
  have s: "terms_ok (?s v)" for v using terms_ok_pty [OF k] by (intro terms_ok_on_pty [OF k]) (simp add: pty_ok_stop)
  have w: "terms_ok (wake_all (?s v))" for v using s terms_ok_cong [OF fds_wake_all] by simp
  show "terms_ok k'" "settings k' i = settings k i" "b \<Longrightarrow> line k' i = edit iflag lflag (settings k i) c (line k i)"
    "\<not> b \<Longrightarrow> line k' i = line k i" "\<not> b \<Longrightarrow> lflag AND ICANON \<noteq> 0 \<Longrightarrow> length (line k i) = 65536"
  proof (atomize (full), cases "map_input iflag c", goal_cases)
    case 1
    then show ?case using f k by (simp add: feed_byte_def edit_def)
  next
    case (2 c')
    define t where "t = settings k i"
    define k1 where "k1 = (if iflag AND IXON \<noteq> 0 \<and> pt_output_stopped (pty k i) \<and> iflag AND IXANY \<noteq> 0 then wake_all (?s False) else k)"
    have k1: "terms_ok k1" "settings k1 i = t" "line k1 i = line k i" using k w by (simp_all add: k1_def t_def)
    note D = f [unfolded feed_byte_def 2 option.case Let_def, folded settings_def, folded t_def k1_def]
    consider (stop) "iflag AND IXON \<noteq> 0 \<and> tty_cc_match t VSTOP c'" 
      | (start) "iflag AND IXON \<noteq> 0 \<and> tty_cc_match t VSTART c'" "\<not> (iflag AND IXON \<noteq> 0 \<and> tty_cc_match t VSTOP c')"
      | (sig) "\<not> (iflag AND IXON \<noteq> 0 \<and> (tty_cc_match t VSTOP c' \<or> tty_cc_match t VSTART c'))" "input_signal lflag t c' \<noteq> 0"
      | (canon) "\<not> (iflag AND IXON \<noteq> 0 \<and> (tty_cc_match t VSTOP c' \<or> tty_cc_match t VSTART c'))" "input_signal lflag t c' = 0" "lflag AND ICANON \<noteq> 0"
      | (raw) "\<not> (iflag AND IXON \<noteq> 0 \<and> (tty_cc_match t VSTOP c' \<or> tty_cc_match t VSTART c'))" "input_signal lflag t c' = 0" "lflag AND ICANON = 0"
      by blast
    then show ?case
    proof cases
      case stop
      then show ?thesis using D s 2 by (auto simp: edit_def t_def)
    next
      case start
      then show ?thesis using D w 2 by (auto simp: edit_def t_def)
    next
      case sig
      then have "b" "k' = feed_signal lflag k1 i c' (input_signal lflag t c')" using D by (auto split: if_splits)
      then show ?thesis using sig 2 feed_signal_ok [OF k1(1)] k1 by (auto simp: feed_signal_line edit_def t_def)
    next
      case canon
      then have e: "feed_canon lflag k1 i c' = (b, k')" using D by (auto split: if_splits)
      show ?thesis using canon 2 feed_canon_spec [OF k1(1) e] k1 by (auto simp: edit_def t_def)
    next
      case raw
      then have e: "feed_raw lflag k1 i c' = (b, k')" using D by (auto split: if_splits)
      show ?thesis using raw 2 feed_raw_spec [OF k1(1) e] k1 by (auto simp: edit_def t_def)
    qed
  qed
qed

lemma feed_loop_spec:
  assumes "terms_ok k" "feed_loop iflag lflag k i cs = (n, k')"
  shows "terms_ok k' \<and> settings k' i = settings k i \<and> n \<le> length cs
     \<and> line k' i = fold (edit iflag lflag (settings k i)) (take n cs) (line k i)
     \<and> (n < length cs \<and> lflag AND ICANON \<noteq> 0 \<longrightarrow> length (line k' i) = 65536)"
  using assms
proof (induction cs arbitrary: k n)
  case (Cons c cs)
  obtain b k1 where e: "feed_byte iflag lflag k i c = (b, k1)" by (rule prod.exhaust)
  note S = feed_byte_spec [OF Cons.prems(1) e]
  show ?case
  proof (cases b)
    case True
    obtain m k2 where r: "feed_loop iflag lflag k1 i cs = (m, k2)" by (rule prod.exhaust)
    then have "n = Suc m" "k' = k2" using Cons.prems(2) e True by simp_all
    then show ?thesis using Cons.IH [of k1 m] r S True by (auto simp del: length_line)
  next
    case False
    then have "n = 0" "k' = k1" using Cons.prems(2) e by simp_all
    then show ?thesis using S False by simp
  qed
qed simp

lemma pty_canon_feed_spec:
  assumes "terms_ok k" "pty_canon_feed k i cs = (n, k')"
  defines "t \<equiv> settings k i"
  shows "terms_ok k'" "settings k' i = t" "n \<le> length cs"
    "line k' i = fold (edit (tty_iflag t) (tty_lflag t) t) (take n cs) (line k i)"
    "n < length cs \<Longrightarrow> tty_lflag t AND ICANON \<noteq> 0 \<Longrightarrow> length (line k' i) = 65536"
  using feed_loop_spec [OF assms(1), of "tty_iflag t" "tty_lflag t" i cs n k'] assms(2)
  by (auto simp: pty_canon_feed_def t_def settings_def simp del: length_line)

lemma write_piece_ok:
  assumes "terms_ok k" "(if master then pty_canon_feed k i tmp
      else let (w, p) = pty_output_write (pty k i) tmp in (w, on_pty k i (\<lambda>_. p))) = (w, k')"
  shows "terms_ok k'"
proof (cases master)
  case True
  then show ?thesis using assms pty_canon_feed_spec(1) [of k i tmp w k'] by simp
next
  case False
  then obtain p where "pty_output_write (pty k i) tmp = (w, p)" "k' = on_pty k i (\<lambda>_. p)"
    using assms(2) by (auto simp: Let_def split: prod.splits)
  then show ?thesis using pty_output_write_spec [OF terms_ok_pty [OF assms(1)]] terms_ok_on_pty [OF assms(1)] by auto
qed

lemma pty_write_loop_ok: "terms_ok k \<Longrightarrow> terms_ok (snd (snd (pty_write_loop k master i buf count done)))"
proof (induction k master i buf count "done" rule: pty_write_loop.induct)
  case (1 k master i buf count "done")
  show ?case
  proof (cases "done \<ge> count")
    case True
    then show ?thesis using 1 by (subst pty_write_loop.simps) simp
  next
    case False
    show ?thesis
    proof (cases "copy_in k (buf + of_nat done) (min 256 (count - done))")
      case None
      then show ?thesis using 1 False by (subst pty_write_loop.simps) simp
    next
      case (Some tmp)
      obtain w k' where e: "(if master then pty_canon_feed k i tmp
          else let (w, p) = pty_output_write (pty k i) tmp in (w, on_pty k i (\<lambda>_. p))) = (w, k')" by (rule prod.exhaust)
      have ok: "terms_ok k'" by (rule write_piece_ok [OF 1(2) e])
      show ?thesis unfolding pty_write_loop.simps [of k] using False Some e ok 1(1) [OF False refl Some e [symmetric] refl]
        by (simp add: Let_def)
    qed
  qed
qed

lemma canon_read_ok:
  assumes "pty_ok p" "pty_canon_read p n = (bs, p')"
  shows "pty_ok p'" "pt_termios p' = pt_termios p"
    "canon_bytes p' = drop (fst (canon_loop (pt_termios p) (canon_bytes p) n)) (canon_bytes p)"
    "bs = snd (canon_loop (pt_termios p) (canon_bytes p) n)"
proof -
  obtain c where c: "canon_loop (pt_termios p) (canon_bytes p) n = (c, bs)" 
    using assms(2) by (auto simp: pty_canon_read_def split: prod.splits)
  have "fst (canon_loop t cs m) \<le> length cs" for t cs m
    by (induction t cs m rule: canon_loop.induct) (auto split: prod.splits)
  from this [of "pt_termios p" "canon_bytes p" n] have le: "c \<le> unat (pt_canon_count p)" using c by (simp add: canon_bytes_def)
  have "unat (pt_canon_count p) < 2 ^ 32" using unsigned_less [of "pt_canon_count p", where 'a = nat] by simp
  then have "unat (of_nat c :: u32) = c" using le by (simp add: unat_of_nat)
  then have u: "unat (pt_canon_count p - of_nat c) = unat (pt_canon_count p) - c" using le by (simp add: unat_sub word_le_nat_alt)
  have p': "p' = p\<lparr>pt_canon := (\<lambda>i. if i < unat (pt_canon_count p) - c then pt_canon p (i + c) else pt_canon p i),
      pt_canon_count := pt_canon_count p - of_nat c\<rparr>"
    using assms(2) c by (simp add: pty_canon_read_def)
  show "pty_ok p'" using assms(1) u unfolding p' by (auto simp: pty_ok_def m2s_def s2m_def word_le_nat_alt)
  show "pt_termios p' = pt_termios p" unfolding p' by simp
  show "canon_bytes p' = drop (fst (canon_loop (pt_termios p) (canon_bytes p) n)) (canon_bytes p)"
    unfolding c fst_conv using u le by (intro nth_equalityI) (simp_all add: canon_bytes_def p' add.commute)
  show "bs = snd (canon_loop (pt_termios p) (canon_bytes p) n)" using c by simp
qed

lemma pty_take_ok:
  assumes "pty_ok p" "pty_take p master n = Inr (bs, p')"
  shows "pty_ok p'"
  using assms pty_master_read_spec [OF assms(1), of n bs p'] canon_read_ok(1) [OF assms(1), of n bs p'] pty_raw_read_ok [OF assms(1), of n bs p']
  by (auto simp: pty_take_def split: if_splits)

text \<open>A read waits exactly when the test of the wake-up says that there is nothing to read.\<close>

lemma pty_take_waits:
  "pty_take p False n = Inl None \<longleftrightarrow> \<not> pty_slave_read_ready p"
  "pt_slave_open p \<or> \<not> pt_output_stopped p \<Longrightarrow> pty_take p True n = Inl None \<longleftrightarrow> \<not> pty_master_read_ready p"
  by (auto simp: pty_take_def pty_slave_read_ready_def pty_master_read_ready_def tty_lflag_def pty_canon_available_def)

end
