(* ===== verification/Pipe.thy ===== *)
theory Pipe
  imports Tty
begin

text \<open>
  Pipes, event and timer descriptors of \<^verbatim>\<open>src/src/kernel/main.c\<close>: the branches of
  \<^verbatim>\<open>sys_read\<close> and \<^verbatim>\<open>sys_write\<close> for them, the reader that sleeps in a pipe and is served by the
  writer, \<^verbatim>\<open>pipe\<close>, \<^verbatim>\<open>close\<close> with the tasks it wakes, and \<^verbatim>\<open>dup2\<close> and \<^verbatim>\<open>dup3\<close>. A
  pipe is a ring buffer like those of the terminals.
\<close>

section \<open>The pipe as a ring\<close>

definition pipe :: "kernel \<Rightarrow> nat \<Rightarrow> pipe_state" where
  "pipe k i = pipes (fds k) i"

definition on_fds :: "kernel \<Rightarrow> (fd_state \<Rightarrow> fd_state) \<Rightarrow> kernel" where
  "on_fds k f = k\<lparr>fds := f (fds k)\<rparr>"

definition pring :: "pipe_state \<Rightarrow> ring" where
  "pring p = \<lparr>rg_buf = pi_data p, rg_r = pi_rpos p, rg_w = pi_wpos p, rg_n = pi_count p\<rparr>"

definition set_pring :: "pipe_state \<Rightarrow> ring \<Rightarrow> pipe_state" where
  "set_pring p q = p\<lparr>pi_data := rg_buf q, pi_rpos := rg_r q, pi_wpos := rg_w q, pi_count := rg_n q\<rparr>"

definition pipe_take :: "kernel \<Rightarrow> nat \<Rightarrow> nat \<Rightarrow> u8 list \<times> kernel" where
  "pipe_take k i n =
     (let (bs, q) = ring_read PIPE_CAP (pring (pipe k i)) n in (bs, on_fds k (\<lambda>s. set_pipe s i (\<lambda>p. set_pring p q))))"

definition pipe_put :: "kernel \<Rightarrow> nat \<Rightarrow> u8 list \<Rightarrow> kernel" where
  "pipe_put k i bs = on_fds k (\<lambda>s. set_pipe s i (\<lambda>p. set_pring p (snd (ring_write PIPE_CAP (pring p) bs))))"

section \<open>Reading\<close>

text \<open>
  The loop that empties a pipe into user memory in pieces of at most 256 bytes; \<open>copy\<close> is the
  copy. The result says whether every copy worked and how many bytes were copied.
\<close>

function pipe_read_loop :: "(kernel \<Rightarrow> u64 \<Rightarrow> u8 list \<Rightarrow> bool \<times> kernel) \<Rightarrow> kernel \<Rightarrow> nat \<Rightarrow> u64 \<Rightarrow> nat \<Rightarrow> nat \<Rightarrow> bool \<times> nat \<times> kernel" where
  "pipe_read_loop copy k i buf len done =
     (if done \<ge> len \<or> pi_count (pipe k i) = 0 then (True, done, k)
      else let n = min (min 256 (len - done)) (unat (pi_count (pipe k i)));
               (bs, k) = pipe_take k i n;
               (ok, k) = copy k (buf + of_nat done) bs in
      if \<not> ok then (False, done, k) else pipe_read_loop copy k i buf len (done + n))"
  by pat_completeness auto
termination
  by (relation "measure (\<lambda>(copy, k, i, buf, len, done). len - done)") (auto simp: unat_gt_0 intro!: diff_less_mono2)

declare pipe_read_loop.simps [simp del]

definition copy_out_cr3 :: "u64 \<Rightarrow> kernel \<Rightarrow> u64 \<Rightarrow> u8 list \<Rightarrow> bool \<times> kernel" where
  "copy_out_cr3 cr3 k addr bs = (case user_copy_to_cr3 (vm k) cr3 addr bs of (r, v) \<Rightarrow> (r = 0, k\<lparr>vm := v\<rparr>))"

definition end_pipe_wait :: "u64 \<Rightarrow> task \<Rightarrow> task" where
  "end_pipe_wait rax t = t\<lparr>tk_ctx := (tk_ctx t)\<lparr>cx_rax := rax\<rparr>, tk_pipe_wait_fd := -1, tk_pipe_wait_buf := 0, tk_pipe_wait_count := 0\<rparr>"

definition pipe_read_into_task :: "kernel \<Rightarrow> nat \<Rightarrow> nat \<Rightarrow> int \<times> kernel" where
  "pipe_read_into_task k ti i =
     (let t = tasks k ti in
      if tk_pipe_wait_fd t < 0 \<or> tk_pipe_wait_buf t = 0 \<or> tk_pipe_wait_count t = 0 then (0, k)
      else case pipe_read_loop (copy_out_cr3 (cx_cr3 (tk_ctx t))) k i (tk_pipe_wait_buf t) (unat (tk_pipe_wait_count t)) 0 of
        (False, done, k) \<Rightarrow> (-1, set_task k ti (end_pipe_wait (if done \<noteq> 0 then of_nat done else neg EFAULT)))
      | (True, done, k) \<Rightarrow>
        (int done, set_task k ti (\<lambda>t. (end_pipe_wait (of_nat done) t)\<lparr>tk_io_wait_kind := IO_WAIT_NONE, tk_io_wait_valid := False,
           tk_io_wait_nr := 0, tk_state := TASK_RUNNABLE\<rparr>)))"

text \<open>Task \<open>ti\<close> sleeps in a read of pipe \<open>i\<close>.\<close>

definition waits_for_pipe :: "kernel \<Rightarrow> nat \<Rightarrow> nat \<Rightarrow> bool" where
  "waits_for_pipe k i ti \<longleftrightarrow> (let t = tasks k ti in
     \<not> (\<not> tk_used t \<or> tk_state t \<noteq> TASK_BLOCKED \<or> tk_pipe_wait_fd t < 0) \<and>
     (case task_files_for_task (fds k) ti of None \<Rightarrow> False
      | Some tb \<Rightarrow> let d = desc (fds k) (tb, nat (tk_pipe_wait_fd t)) in
          \<not> (tk_pipe_wait_fd t \<ge> int MAX_FILES \<or> \<not> fd_in_use d \<or> fd_private d \<noteq> Pipe i)))"

definition pipe_wake_readers :: "kernel \<Rightarrow> nat \<Rightarrow> kernel" where
  "pipe_wake_readers k i = fold (\<lambda>ti k. if waits_for_pipe k i ti then snd (pipe_read_into_task k ti i) else k) [0..<MAX_TASKS] k"

definition read_pipe :: "kernel \<Rightarrow> nat \<Rightarrow> u64 \<Rightarrow> u64 \<Rightarrow> int \<times> kernel" where
  "read_pipe k i buf len =
     (if len = 0 then (0, k)
      else if pi_count (pipe k i) = 0 then (if pi_writers (pipe k i) = 0 then 0 else - EAGAIN, k)
      else case pipe_read_loop copy_out k i buf (unat len) 0 of
        (False, done, k) \<Rightarrow> (if done \<noteq> 0 then int done else - EFAULT, k)
      | (True, done, k) \<Rightarrow> (int done, k))"

text \<open>The checks at the head of \<^verbatim>\<open>sys_read\<close> for a descriptor that is not a socket, with the pipe branch.\<close>

definition sys_read_pipe :: "kernel \<Rightarrow> int \<Rightarrow> u64 \<Rightarrow> u64 \<Rightarrow> int \<times> kernel" where
  "sys_read_pipe k fd buf len =
     (if bad_fd fd \<or> \<not> fd_in_use (files k fd) then (- EBADF, k)
      else if buf = 0 \<and> len \<noteq> 0 then (- EINVAL, k)
      else if len \<noteq> 0 \<and> \<not> vmm_user_range_ok (vm k) buf len True then (- EFAULT, k)
      else case (fd_type (files k fd), fd_private (files k fd)) of (FD_PIPE_R, Pipe i) \<Rightarrow> read_pipe k i buf len | _ \<Rightarrow> (- EBADF, k))"

text \<open>
  The entry of \<^verbatim>\<open>read\<close> for a pipe: an empty pipe with a writer puts the task to sleep until a
  writer serves it; when no other task can run the call fails instead.
\<close>

definition sys_pipe_read_dispatch :: "kernel \<Rightarrow> syscall_frame \<Rightarrow> int \<Rightarrow> u64 \<Rightarrow> u64 \<Rightarrow> int \<times> kernel" where
  "sys_pipe_read_dispatch k f fd buf len =
     (if bad_fd fd \<or> \<not> fd_in_use (files k fd) then (- EBADF, k)
      else let d = files k fd in
      case (fd_type d, fd_private d) of
        (FD_PIPE_R, Pipe i) \<Rightarrow>
          if len = 0 then (0, k)
          else if pi_count (pipe k i) \<noteq> 0 then sys_read_pipe k fd buf len
          else if pi_writers (pipe k i) = 0 then (0, k)
          else if fd_flags d AND 0x800 \<noteq> 0 then (- EAGAIN, k)
          else let ti = current_task k;
                   k = set_task k ti (\<lambda>t. (task_save_from_frame k f t)\<lparr>tk_pipe_wait_fd := fd, tk_pipe_wait_buf := buf,
                         tk_pipe_wait_count := len, tk_state := TASK_BLOCKED\<rparr>) in
          (case task_pick_next k of
             None \<Rightarrow> (- EAGAIN, set_task k ti (\<lambda>t. t\<lparr>tk_state := TASK_RUNNING, tk_pipe_wait_fd := -1, tk_pipe_wait_buf := 0, tk_pipe_wait_count := 0\<rparr>))
           | Some nxt \<Rightarrow> (0, switch_to k nxt))
      | _ \<Rightarrow> (- EBADF, k))"

section \<open>Writing\<close>

function pipe_write_loop :: "kernel \<Rightarrow> bool \<Rightarrow> nat \<Rightarrow> u64 \<Rightarrow> nat \<Rightarrow> nat \<Rightarrow> int \<times> kernel" where
  "pipe_write_loop k nonblock i buf len done =
     (if done \<ge> len then (int done, k)
      else if pi_count (pipe k i) = PIPE_CAP then (if nonblock \<and> done = 0 then - EAGAIN else int done, k)
      else let n = min (min 256 (len - done)) (unat (PIPE_CAP - pi_count (pipe k i))) in
      case copy_in k (buf + of_nat done) n of
        None \<Rightarrow> (if done \<noteq> 0 then int done else - EFAULT, k)
      | Some tmp \<Rightarrow>
        let k = pipe_wake_readers (pipe_put k i tmp) i in
        if done + n < len \<and> pi_count (pipe k i) = PIPE_CAP then (int (done + n), k)
        else pipe_write_loop k nonblock i buf len (done + n))"
  by pat_completeness auto
termination
proof (relation "measure (\<lambda>(k, nonblock, i, buf, len, done). len - done)", goal_cases)
  case (2 k nonblock i buf len "done" n tmp ka)
  have "PIPE_CAP - pi_count (pipe k i) \<noteq> 0" using 2(2) by simp
  then have "0 < unat (PIPE_CAP - pi_count (pipe k i))" by (simp add: unat_gt_0 del: right_minus_eq)
  then show ?case using 2 by auto
qed simp

declare pipe_write_loop.simps [simp del]

definition write_pipe :: "kernel \<Rightarrow> file_desc \<Rightarrow> u64 \<Rightarrow> u64 \<Rightarrow> int \<times> kernel" where
  "write_pipe k f buf len =
     (case (fd_type f, fd_private f) of
        (FD_PIPE_W, Pipe i) \<Rightarrow>
          let k = on_fds k (\<lambda>s. set_pipe s i (\<lambda>p. p\<lparr>pi_readers := pipe_live s FD_PIPE_R i\<rparr>)) in
          if pipe_live (fds k) FD_PIPE_R i = 0 then (- EPIPE, k)
          else pipe_write_loop k (fd_flags f AND 0x800 \<noteq> 0) i buf (unat len) 0
      | _ \<Rightarrow> (- EBADF, k))"

definition sys_write_pipe :: "kernel \<Rightarrow> int \<Rightarrow> u64 \<Rightarrow> u64 \<Rightarrow> int \<times> kernel" where
  "sys_write_pipe k fd buf len =
     (case write_checks k fd buf len of Some r \<Rightarrow> (r, k) | None \<Rightarrow> write_pipe k (files k fd) buf len)"

section \<open>Creating, closing and duplicating\<close>

abbreviation (input) EMFILE_K :: int where "EMFILE_K \<equiv> 24"

definition sys_pipe :: "kernel \<Rightarrow> u64 \<Rightarrow> int \<times> kernel" where
  "sys_pipe k ufds =
     (if ufds = 0 then (- EFAULT, k)
      else case pipe_open (fds k) (current_task k) of
        (None, _) \<Rightarrow> (- EMFILE_K, k)
      | (Some (a, b, i), s) \<Rightarrow>
        let k = k\<lparr>fds := s\<rparr>;
            (ok, k) = copy_out k ufds (le_bytes 4 (of_nat a));
            (ok, k) = (if ok then copy_out k (ufds + 4) (le_bytes 4 (of_nat b)) else (False, k)) in
        if ok then (0, k) else (- EFAULT, on_fds k (\<lambda>s. pipe_cancel s (current_task k) a b i)))"

definition set_fd_flag :: "kernel \<Rightarrow> int \<Rightarrow> u32 \<Rightarrow> kernel" where
  "set_fd_flag k fd fl = on_fds k (\<lambda>s. set_desc s (current_files s (current_task k), nat fd) (\<lambda>d. d\<lparr>fd_flags := fd_flags d OR fl\<rparr>))"

definition sys_pipe2 :: "kernel \<Rightarrow> u64 \<Rightarrow> u32 \<Rightarrow> int \<times> kernel" where
  "sys_pipe2 k ufds flags =
     (case sys_pipe k ufds of (r, k) \<Rightarrow>
        if r < 0 then (r, k)
        else case (copy_in k ufds 4, copy_in k (ufds + 4) 4) of
          (Some a, Some b) \<Rightarrow>
            let a = int_at a; b = int_at b;
                k = (if flags AND 0x800 \<noteq> 0 then set_fd_flag (set_fd_flag k a 0x800) b 0x800 else k);
                k = (if flags AND O_CLOEXEC \<noteq> 0 then set_fd_flag (set_fd_flag k a O_CLOEXEC) b O_CLOEXEC else k) in
            (0, k)
        | _ \<Rightarrow> (- EFAULT, k))"

text \<open>The loop that ends the sleep of the readers of a closed read end; it compares descriptor numbers.\<close>

definition wake_closed_readers :: "kernel \<Rightarrow> int \<Rightarrow> kernel" where
  "wake_closed_readers k fd =
     fold (\<lambda>ti k. let t = tasks k ti in
       if tk_used t \<and> tk_state t = TASK_BLOCKED \<and> tk_pipe_wait_fd t = fd
       then set_task k ti (\<lambda>t. (end_pipe_wait 0 t)\<lparr>tk_state := TASK_RUNNABLE\<rparr>) else k) [0..<MAX_TASKS] k"

definition sys_close :: "kernel \<Rightarrow> int \<Rightarrow> int \<times> kernel" where
  "sys_close k fd =
     (if bad_fd fd \<or> \<not> fd_in_use (files k fd) then (- EBADF, k)
      else let slot = (current_files (fds k) (current_task k), nat fd); d = files k fd in
      if fd_type d = FD_PTY_MASTER \<or> fd_type d = FD_PTY_SLAVE then (0, wake_all (on_fds k (\<lambda>s. close_desc s slot)))
      else if fd_type d = FD_PIPE_R then (0, wake_closed_readers (on_fds k (\<lambda>s. close_desc s slot)) fd)
      else if fd_type d = FD_PIPE_W then
        (0, case fd_private d of Pipe i \<Rightarrow> pipe_wake_readers (on_fds k (\<lambda>s. close_desc s slot)) i | _ \<Rightarrow> k)
      else if fd_type d = FD_SOCKET then
        (0, on_fds (wake_all (on_fds k (\<lambda>s. socket_fd_drop_ref s d))) (\<lambda>s. fd_mark_closed (fd_drop_resources s slot) slot))
      else (0, on_fds k (\<lambda>s. close_desc s slot)))"

text \<open>The copy of a descriptor to a given number; \<open>fl\<close> is the flag that \<^verbatim>\<open>dup3\<close> sets.\<close>

definition dup_to :: "kernel \<Rightarrow> int \<Rightarrow> int \<Rightarrow> u32 \<Rightarrow> kernel" where
  "dup_to k oldfd newfd fl =
     (let k = (if fd_in_use (files k newfd) then snd (sys_close k newfd) else k);
          t = current_files (fds k) (current_task k); s = fds k;
          s = fd_copy_scalar s (t, nat newfd) (t, nat oldfd);
          s = set_desc s (t, nat newfd) (\<lambda>d. d\<lparr>fd_flags := (fd_flags d AND NOT O_CLOEXEC) OR fl\<rparr>) in
      k\<lparr>fds := fd_retain_endpoint_ref s (t, nat newfd)\<rparr>)"

definition sys_dup2 :: "kernel \<Rightarrow> int \<Rightarrow> int \<Rightarrow> int \<times> kernel" where
  "sys_dup2 k oldfd newfd =
     (if bad_fd oldfd \<or> \<not> fd_in_use (files k oldfd) \<or> bad_fd newfd then (- EBADF, k)
      else if oldfd = newfd then (newfd, k)
      else (newfd, dup_to k oldfd newfd 0))"

definition sys_dup3 :: "kernel \<Rightarrow> int \<Rightarrow> int \<Rightarrow> u32 \<Rightarrow> int \<times> kernel" where
  "sys_dup3 k oldfd newfd flags =
     (if flags AND NOT O_CLOEXEC \<noteq> 0 then (- EINVAL, k)
      else if bad_fd oldfd \<or> \<not> fd_in_use (files k oldfd) \<or> bad_fd newfd then (- EBADF, k)
      else if oldfd = newfd then (- EINVAL, k)
      else (newfd, dup_to k oldfd newfd (flags AND O_CLOEXEC)))"

section \<open>Event and timer descriptors\<close>

definition write_eventfd :: "kernel \<Rightarrow> nat \<Rightarrow> u64 \<Rightarrow> u64 \<Rightarrow> int \<times> kernel" where
  "write_eventfd k i buf len =
     (if len \<noteq> 8 then (- EINVAL, k)
      else case copy_in k buf 8 of None \<Rightarrow> (- EFAULT, k)
      | Some bs \<Rightarrow>
        let v = le_word bs; e = eventfds (fds k) i in
        if v = UINT64_MAX then (- EINVAL, k)
        else if UINT64_MAX - ev_value e < v then (- EAGAIN, k)
        else (8, on_fds k (\<lambda>s. s\<lparr>eventfds := (eventfds s)(i := e\<lparr>ev_value := ev_value e + v\<rparr>)\<rparr>)))"

definition read_eventfd :: "kernel \<Rightarrow> nat \<Rightarrow> u64 \<Rightarrow> u64 \<Rightarrow> int \<times> kernel" where
  "read_eventfd k i buf len =
     (if len \<noteq> 8 then (- EINVAL, k)
      else let e = eventfds (fds k) i in
      if ev_value e = 0 then (- EAGAIN, k)
      else let (ok, k) = copy_out (on_fds k (\<lambda>s. s\<lparr>eventfds := (eventfds s)(i := e\<lparr>ev_value := 0\<rparr>)\<rparr>)) buf (le_bytes 8 (ev_value e)) in
        (if ok then 8 else - EFAULT, k))"

text \<open>\<open>clock\<close> is \<^verbatim>\<open>clock_now_ns_simple\<close>: the time in nanoseconds of a clock.\<close>

definition timer_expire :: "u64 \<Rightarrow> timerfd_state \<Rightarrow> timerfd_state" where
  "timer_expire now t =
     (if ti_next_ns t \<noteq> 0 \<and> now \<ge> ti_next_ns t then
        if ti_interval_ns t \<noteq> 0 then
          let missed = (now - ti_next_ns t) div ti_interval_ns t + 1 in
          t\<lparr>ti_expirations := ti_expirations t + missed, ti_next_ns := ti_next_ns t + missed * ti_interval_ns t\<rparr>
        else t\<lparr>ti_expirations := 1, ti_next_ns := 0\<rparr>
      else t)"

definition set_timer :: "kernel \<Rightarrow> nat \<Rightarrow> timerfd_state \<Rightarrow> kernel" where
  "set_timer k i t = on_fds k (\<lambda>s. s\<lparr>timerfds := (timerfds s)(i := t)\<rparr>)"

definition read_timerfd :: "(int \<Rightarrow> u64) \<Rightarrow> kernel \<Rightarrow> nat \<Rightarrow> u64 \<Rightarrow> u64 \<Rightarrow> int \<times> kernel" where
  "read_timerfd clock k i buf len =
     (if len \<noteq> 8 then (- EINVAL, k)
      else let t = timerfds (fds k) i; t = timer_expire (clock (ti_clockid t)) t in
      if ti_expirations t = 0 then (- EAGAIN, set_timer k i t)
      else let (ok, k) = copy_out (set_timer k i (t\<lparr>ti_expirations := 0\<rparr>)) buf (le_bytes 8 (ti_expirations t)) in
        (if ok then 8 else - EFAULT, k))"

text \<open>The four 64-bit fields of \<^verbatim>\<open>itimerspec_k\<close>: interval and value, seconds and nanoseconds.\<close>

definition timer_value :: "(int \<Rightarrow> u64) \<Rightarrow> timerfd_state \<Rightarrow> u8 list" where
  "timer_value clock t =
     (let now = clock (ti_clockid t); rem = (if ti_next_ns t > now then ti_next_ns t - now else 0) in
      le_bytes 8 (ti_interval_ns t div 1000000000) @ le_bytes 8 (ti_interval_ns t mod 1000000000) @
      (if ti_next_ns t \<noteq> 0 then le_bytes 8 (rem div 1000000000) @ le_bytes 8 (rem mod 1000000000) else replicate 16 0))"

definition word_field :: "u8 list \<Rightarrow> nat \<Rightarrow> u64" where
  "word_field bs i = le_word (take 8 (drop (8 * i) bs))"

definition sys_timerfd_settime :: "(int \<Rightarrow> u64) \<Rightarrow> kernel \<Rightarrow> int \<Rightarrow> int \<Rightarrow> u64 \<Rightarrow> u64 \<Rightarrow> int \<times> kernel" where
  "sys_timerfd_settime clock k fd flags new_value old_value =
     (if bad_fd fd \<or> \<not> fd_in_use (files k fd) \<or> fd_type (files k fd) \<noteq> FD_TIMERFD then (- EBADF, k)
      else if new_value = 0 then (- EFAULT, k)
      else case (copy_in k new_value 32, fd_private (files k fd)) of
        (Some n, Timerfd i) \<Rightarrow>
          let t = timerfds (fds k) i;
              (ok, k) = (if old_value \<noteq> 0 then copy_out k old_value (timer_value clock t) else (True, k)) in
          if \<not> ok then (- EFAULT, k)
          else let isec = word_field n 0; insec = word_field n 1; vsec = word_field n 2; vnsec = word_field n 3 in
          if sint vsec < 0 \<or> sint vnsec < 0 \<or> sint vnsec \<ge> 1000000000 \<or> sint isec < 0 \<or> sint insec < 0 \<or> sint insec \<ge> 1000000000
          then (- EINVAL, k)
          else let value = vsec * 1000000000 + vnsec; interval = isec * 1000000000 + insec in
            (0, set_timer k i (t\<lparr>ti_interval_ns := interval, ti_expirations := 0,
                  ti_next_ns := (if value \<noteq> 0 then clock (ti_clockid t) + value else 0)\<rparr>))
      | _ \<Rightarrow> (- EFAULT, k))"

end
