(* ===== verification/Socket.thy ===== *)
theory Socket
  imports Pipe
begin

text \<open>
  Local sockets of \<^verbatim>\<open>src/src/kernel/main.c\<close>: creating, naming, connecting and accepting, the two
  byte streams of a connection, messages with several buffers, and the socket options. A connection is one
  entry of the table \<^verbatim>\<open>unix_sockets\<close> with two sides; each side has a ring buffer with the bytes that
  it can read. Debug output is left out; the frame argument of the calls that can sleep is never null here.
\<close>

section \<open>State\<close>

abbreviation (input) UNIX_SOCKETS_MAX :: nat where "UNIX_SOCKETS_MAX \<equiv> 32"
abbreviation (input) SOCK_NONBLOCK :: u32 where "SOCK_NONBLOCK \<equiv> 0x800"
abbreviation (input) MSG_DONTWAIT :: u32 where "MSG_DONTWAIT \<equiv> 0x40"
abbreviation (input) EAFNOSUPPORT :: int where "EAFNOSUPPORT \<equiv> 97"
abbreviation (input) EADDRINUSE :: int where "EADDRINUSE \<equiv> 98"
abbreviation (input) ENOTCONN :: int where "ENOTCONN \<equiv> 107"
abbreviation (input) ECONNREFUSED :: int where "ECONNREFUSED \<equiv> 111"
abbreviation (input) ENOPROTOOPT :: int where "ENOPROTOOPT \<equiv> 92"
abbreviation (input) EIO_K :: int where "EIO_K \<equiv> 5"

definition sock :: "kernel \<Rightarrow> nat \<Rightarrow> unix_socket_state" where
  "sock k i = unix_sockets (fds k) i"

definition on_sock :: "kernel \<Rightarrow> nat \<Rightarrow> (unix_socket_state \<Rightarrow> unix_socket_state) \<Rightarrow> kernel" where
  "on_sock k i g = on_fds k (\<lambda>s. set_sock s i g)"

text \<open>The entry after \<^verbatim>\<open>memset\<close>.\<close>

definition zero_sock :: unix_socket_state where
  "zero_sock = \<lparr>us_data = (\<lambda>_ _. 0), us_rpos = (\<lambda>_. 0), us_wpos = (\<lambda>_. 0), us_count = (\<lambda>_. 0), us_closed = (\<lambda>_. False),
     us_refs = 0, us_side_refs = (\<lambda>_. 0), us_listener = False, us_bound = False, us_connected = False, us_pending_count = 0,
     us_domain = 0, us_protocol = 0, us_pending_fd = (\<lambda>_. 0), us_path = [], us_netlink_pid = 0, us_netlink_groups = 0\<rparr>"

definition sring :: "unix_socket_state \<Rightarrow> nat \<Rightarrow> ring" where
  "sring u d = \<lparr>rg_buf = us_data u d, rg_r = us_rpos u d, rg_w = us_wpos u d, rg_n = us_count u d\<rparr>"

definition set_sring :: "nat \<Rightarrow> ring \<Rightarrow> unix_socket_state \<Rightarrow> unix_socket_state" where
  "set_sring d q u = u\<lparr>us_data := (us_data u)(d := rg_buf q), us_rpos := (us_rpos u)(d := rg_r q),
     us_wpos := (us_wpos u)(d := rg_w q), us_count := (us_count u)(d := rg_n q)\<rparr>"

section \<open>Descriptors\<close>

text \<open>\<^verbatim>\<open>socket_state\<close> and \<^verbatim>\<open>socket_side\<close>: the entry and the side of a descriptor.\<close>

definition socket_end :: "file_desc \<Rightarrow> (nat \<times> nat) option" where
  "socket_end d = (case fd_private d of Sock i side \<Rightarrow> Some (i, side) | _ \<Rightarrow> None)"

definition socket_desc :: "nat \<Rightarrow> nat \<Rightarrow> file_desc \<Rightarrow> file_desc" where
  "socket_desc i side d = d\<lparr>fd_in_use := True, fd_type := FD_SOCKET, fd_flags := 0, fd_offset := 0, fd_size := 0, fd_data := None,
     fd_name := None, fd_boot_path := [], fd_vnode := None, fd_shared_offset := None, fd_private := Sock i side\<rparr>"

definition install_socket :: "kernel \<Rightarrow> nat \<Rightarrow> nat \<Rightarrow> nat \<Rightarrow> kernel" where
  "install_socket k fd i side =
     on_fds k (\<lambda>s. set_desc s (current_files s (current_task k), fd) (socket_desc i side))"

definition socket_alloc_endpoint :: "kernel \<Rightarrow> nat \<Rightarrow> nat \<Rightarrow> int \<times> kernel" where
  "socket_alloc_endpoint k i side =
     (case find_free_fd (fds k) (current_task k) of None \<Rightarrow> (- EMFILE_K, k)
      | Some fd \<Rightarrow>
        (int fd, on_sock (install_socket k fd i side) i
           (\<lambda>u. u\<lparr>us_refs := us_refs u + 1, us_side_refs := (us_side_refs u)(side := us_side_refs u side + 1)\<rparr>)))"

definition socket_valid_fd :: "kernel \<Rightarrow> int \<Rightarrow> bool" where
  "socket_valid_fd k fd \<longleftrightarrow> \<not> bad_fd fd \<and> fd_in_use (files k fd) \<and> fd_type (files k fd) = FD_SOCKET"

text \<open>The search for an entry without references that starts at a counter; \<open>skip\<close> is an entry to leave out.\<close>

definition free_sock :: "kernel \<Rightarrow> nat \<Rightarrow> nat option \<Rightarrow> nat option" where
  "free_sock k si skip =
     find (\<lambda>j. skip \<noteq> Some j \<and> us_refs (sock k j) = 0) (map (\<lambda>n. (si + n) mod UNIX_SOCKETS_MAX) [0..<UNIX_SOCKETS_MAX])"

section \<open>Creating sockets\<close>

definition sys_socket :: "kernel \<Rightarrow> int \<Rightarrow> u32 \<Rightarrow> int \<Rightarrow> int \<times> kernel" where
  "sys_socket k domain type protocol =
     (if domain = 1 \<and> type AND 0xF = 1 then
        case free_sock k (unix_si k) None of None \<Rightarrow> (- EMFILE_K, k)
        | Some j \<Rightarrow>
          let k = k\<lparr>unix_si := (j + 1) mod UNIX_SOCKETS_MAX\<rparr>;
              (fd, k) = socket_alloc_endpoint (on_sock k j (\<lambda>_. zero_sock\<lparr>us_domain := 1\<rparr>)) j 0 in
          (fd, if fd \<ge> 0 \<and> type AND SOCK_NONBLOCK \<noteq> 0 then set_fd_flag k fd SOCK_NONBLOCK else k)
      else if domain = 16 \<and> type AND 0xF = 2 \<and> protocol = 15 then
        case free_sock k (netlink_si k) None of None \<Rightarrow> (- EMFILE_K, k)
        | Some j \<Rightarrow>
          let k = k\<lparr>netlink_si := (j + 1) mod UNIX_SOCKETS_MAX\<rparr> in
          socket_alloc_endpoint (on_sock k j (\<lambda>_. zero_sock\<lparr>us_domain := 16, us_protocol := 15\<rparr>)) j 0
      else (- EAFNOSUPPORT, k))"

definition close_slot :: "kernel \<Rightarrow> int \<Rightarrow> (file_desc \<Rightarrow> file_desc) \<Rightarrow> kernel" where
  "close_slot k fd g = on_fds k (\<lambda>s. set_desc s (current_files s (current_task k), nat fd) (\<lambda>d. (g d)\<lparr>fd_in_use := False\<rparr>))"

text \<open>The counter of \<^verbatim>\<open>socketpair\<close> is an \<^verbatim>\<open>int\<close> that only grows; its overflow is not modelled.\<close>

definition sys_socketpair :: "kernel \<Rightarrow> int \<Rightarrow> u32 \<Rightarrow> u64 \<Rightarrow> int \<times> kernel" where
  "sys_socketpair k domain type sv =
     (if domain \<noteq> 1 \<or> type AND 0xF \<noteq> 1 then (- EAFNOSUPPORT, k)
      else if sv = 0 then (- EFAULT, k)
      else let i = pair_si k mod UNIX_SOCKETS_MAX; k = k\<lparr>pair_si := pair_si k + 1\<rparr> in
      if us_refs (sock k i) \<noteq> 0 then (- EMFILE_K, k)
      else let (a, k) = socket_alloc_endpoint (on_sock k i (\<lambda>_. zero_sock)) i 0 in
      if a < 0 then (a, k)
      else let (b, k) = socket_alloc_endpoint k i 1 in
      if b < 0 then
        (b, on_sock (close_slot k a (\<lambda>d. d\<lparr>fd_private := No_Data\<rparr>)) i (\<lambda>u. u\<lparr>us_refs := 0, us_side_refs := (us_side_refs u)(0 := 0)\<rparr>))
      else let (ok, k) = copy_out k sv (le_bytes 4 (word_of_int a));
               (ok, k) = (if ok then copy_out k (sv + 4) (le_bytes 4 (word_of_int b)) else (False, k)) in
      if ok then (0, k)
      else (- EFAULT, on_sock (close_slot (close_slot k a id) b id) i (\<lambda>u. u\<lparr>us_refs := 0\<rparr>)))"

section \<open>Names\<close>

text \<open>The characters of an array up to the first zero.\<close>

definition c_chars :: "u8 list \<Rightarrow> string" where
  "c_chars bs = map (\<lambda>b. char_of (unat b)) (takeWhile (\<lambda>b. b \<noteq> 0) bs)"

text \<open>
  \<^verbatim>\<open>socket_un_copy_path\<close> with a buffer of 108 characters: the path, or an error. The whole
  structure of 110 bytes is read, whatever the length that the caller gives.
\<close>

definition socket_un_copy_path :: "kernel \<Rightarrow> u64 \<Rightarrow> int \<Rightarrow> int + string" where
  "socket_un_copy_path k addr addrlen =
     (if addr = 0 then Inl (- EFAULT)
      else if addrlen < 3 \<or> addrlen > 110 then Inl (- EINVAL)
      else case copy_in k addr 110 of None \<Rightarrow> Inl (- EFAULT)
      | Some u \<Rightarrow>
        if le_word (take 2 u) \<noteq> 1 then Inl (- EAFNOSUPPORT)
        else let path = take 108 (drop 2 u) in
        if hd path = 0 then
          let cs = c_chars (tl path); n = Suc (length cs) in
          if n \<le> 1 \<or> n + 1 \<ge> 108 then Inl (- EINVAL) else Inr (CHR ''@'' # cs)
        else
          let cs = c_chars path in
          if cs = [] \<or> length cs \<ge> 108 then Inl (- EINVAL) else Inr cs)"

definition socket_find_listener :: "kernel \<Rightarrow> string \<Rightarrow> nat option" where
  "socket_find_listener k path =
     find (\<lambda>i. let u = sock k i in us_refs u \<noteq> 0 \<and> us_listener u \<and> us_bound u \<and> us_path u = path) [0..<UNIX_SOCKETS_MAX]"

definition set_vnode :: "kernel \<Rightarrow> int \<Rightarrow> nat option \<Rightarrow> kernel" where
  "set_vnode k fd vn = on_fds k (\<lambda>s. set_desc s (current_files s (current_task k), nat fd) (\<lambda>d. d\<lparr>fd_vnode := vn\<rparr>))"

text \<open>The node of a socket file: the one at the path, or a new one.\<close>

definition bind_node :: "kernel \<Rightarrow> string \<Rightarrow> (int + nat) \<times> kernel" where
  "bind_node k path =
     (case vfs_lookup (vfs_state k) path of
        (Some vn, fs) \<Rightarrow> (if vfs_type fs (Some vn) \<noteq> Some VFS_NODE_SOCKET then Inl (- EADDRINUSE) else Inr vn, k\<lparr>vfs_state := fs\<rparr>)
      | (None, fs) \<Rightarrow>
        (case vfs_create_socket fs path 0x1FF of
           (Some vn, fs) \<Rightarrow> (Inr vn, k\<lparr>vfs_state := fs\<rparr>)
         | (None, fs) \<Rightarrow> (Inl (- EIO_K), k\<lparr>vfs_state := fs\<rparr>)))"

definition sys_bind :: "kernel \<Rightarrow> int \<Rightarrow> u64 \<Rightarrow> int \<Rightarrow> int \<times> kernel" where
  "sys_bind k sockfd addr addrlen =
     (if \<not> socket_valid_fd k sockfd then (- EBADF, k)
      else case socket_end (files k sockfd) of None \<Rightarrow> (- ENOTCONN, k)
      | Some (i, side) \<Rightarrow>
        let u = sock k i in
        if us_bound u \<or> us_connected u then (- EINVAL, k)
        else if us_domain u = 16 \<and> us_protocol u = 15 then
          (if addr = 0 \<or> addrlen < 12 then (- EINVAL, k)
           else case copy_in k addr 12 of None \<Rightarrow> (- EFAULT, k)
           | Some nl \<Rightarrow>
             if le_word (take 2 nl) \<noteq> 16 then (- EAFNOSUPPORT, k)
             else (0, on_sock k i (\<lambda>u. u\<lparr>us_netlink_pid := ucast (le_word (take 4 (drop 4 nl))),
                      us_netlink_groups := ucast (le_word (take 4 (drop 8 nl))), us_bound := True\<rparr>)))
        else case socket_un_copy_path k addr addrlen of Inl e \<Rightarrow> (e, k)
        | Inr path \<Rightarrow>
          if \<exists>j \<in> set [0..<UNIX_SOCKETS_MAX]. us_refs (sock k j) \<noteq> 0 \<and> us_bound (sock k j) \<and> us_path (sock k j) = path then (- EADDRINUSE, k)
          else let name = (\<lambda>k. on_sock k i (\<lambda>u. u\<lparr>us_path := path, us_bound := True\<rparr>)) in
          if hd path = CHR ''@'' then (0, name (set_vnode k sockfd None))
          else (case bind_node k path of
                  (Inl e, k) \<Rightarrow> (e, k)
                | (Inr vn, k) \<Rightarrow> (0, name (set_vnode k sockfd (Some vn)))))"

text \<open>The bytes of \<^verbatim>\<open>sockaddr_un_t\<close> with a name.\<close>

definition sockaddr_un :: "string \<Rightarrow> u8 list" where
  "sockaddr_un path = (let p = take 107 path in le_bytes 2 1 @ string_bytes p @ replicate (108 - length p) 0)"

definition sys_getsockname :: "kernel \<Rightarrow> int \<Rightarrow> u64 \<Rightarrow> u64 \<Rightarrow> int \<times> kernel" where
  "sys_getsockname k sockfd addr addrlen =
     (if \<not> socket_valid_fd k sockfd then (- EBADF, k)
      else if addrlen = 0 then (- EFAULT, k)
      else case socket_end (files k sockfd) of None \<Rightarrow> (- ENOTCONN, k)
      | Some (i, side) \<Rightarrow>
        case copy_in k addrlen 4 of None \<Rightarrow> (- EFAULT, k)
        | Some c \<Rightarrow>
          let u = sock k i; cap = int_at c;
              store = (\<lambda>bs n. let (ok, k) = copy_out k addr bs in
                if \<not> ok then (- EFAULT, k)
                else let (ok, k) = copy_out k addrlen (le_bytes 4 n) in (if ok then 0 else - EFAULT, k)) in
          if cap < 0 then (- EINVAL, k)
          else if us_domain u = 16 \<and> us_protocol u = 15 then
            (if cap < 12 \<or> addr = 0 then (- EINVAL, k)
             else store (le_bytes 4 16 @ le_bytes 4 (ucast (us_netlink_pid u)) @ le_bytes 4 (ucast (us_netlink_groups u))) 12)
          else if us_domain u = 1 then
            let n = (if us_path u = [] then 0 else 2 + length (us_path u) + 1) in
            (if addr = 0 \<or> cap < int n then (- EINVAL, k)
             else store (take (if n = 0 then 2 else n) (sockaddr_un (us_path u))) (of_nat n))
          else (- EAFNOSUPPORT, k))"

definition sys_getpeername :: "kernel \<Rightarrow> int \<Rightarrow> u64 \<Rightarrow> u64 \<Rightarrow> int \<times> kernel" where
  "sys_getpeername k sockfd addr addrlen =
     (if \<not> socket_valid_fd k sockfd then (- EBADF, k)
      else if addrlen = 0 then (- EFAULT, k)
      else case socket_end (files k sockfd) of None \<Rightarrow> (- ENOTCONN, k)
      | Some (i, side) \<Rightarrow>
        let u = sock k i in
        if \<not> us_connected u then (- ENOTCONN, k)
        else case copy_in k addrlen 4 of None \<Rightarrow> (- EFAULT, k)
        | Some c \<Rightarrow>
          let cap = int_at c; n = min 110 (2 + length (take 107 (us_path u)) + 1) in
          if addr = 0 \<or> cap < 3 then (- EINVAL, k)
          else if cap < int n then (- EINVAL, k)
          else let (ok, k) = copy_out k addr (take n (sockaddr_un (us_path u))) in
          if \<not> ok then (- EFAULT, k)
          else let (ok, k) = copy_out k addrlen (le_bytes 4 (of_nat n)) in (if ok then 0 else - EFAULT, k))"

section \<open>Connections\<close>

definition sys_listen :: "kernel \<Rightarrow> int \<Rightarrow> int \<Rightarrow> int \<times> kernel" where
  "sys_listen k sockfd backlog =
     (if \<not> socket_valid_fd k sockfd then (- EBADF, k)
      else if backlog < 0 then (- EINVAL, k)
      else case socket_end (files k sockfd) of None \<Rightarrow> (- ENOTCONN, k)
      | Some (i, side) \<Rightarrow>
        if us_connected (sock k i) then (- EINVAL, k)
        else if \<not> us_bound (sock k i) then (- EINVAL, k)
        else (0, on_sock k i (\<lambda>u. u\<lparr>us_listener := True, us_pending_count := 0,
                   us_pending_fd := (\<lambda>j. if j < 4 then -1 else us_pending_fd u j)\<rparr>)))"

definition sys_connect :: "kernel \<Rightarrow> int \<Rightarrow> u64 \<Rightarrow> int \<Rightarrow> int \<times> kernel" where
  "sys_connect k sockfd addr addrlen =
     (if \<not> socket_valid_fd k sockfd then (- EBADF, k)
      else case socket_end (files k sockfd) of None \<Rightarrow> (- ENOTCONN, k)
      | Some _ \<Rightarrow>
        case socket_un_copy_path k addr addrlen of Inl e \<Rightarrow> (e, k)
        | Inr path \<Rightarrow>
          case socket_find_listener k path of None \<Rightarrow> (- ECONNREFUSED, k)
          | Some li \<Rightarrow>
            if us_pending_count (sock k li) \<ge> 4 then (- EAGAIN, k)
            else case free_sock k (connect_si k) (Some li) of None \<Rightarrow> (- EMFILE_K, k)
            | Some ni \<Rightarrow>
              let k = k\<lparr>connect_si := (ni + 1) mod UNIX_SOCKETS_MAX\<rparr>;
                  k = on_sock k ni (\<lambda>_. zero_sock);
                  k = on_fds k (\<lambda>s. socket_fd_drop_ref s (files k sockfd));
                  k = install_socket k (nat sockfd) ni 0;
                  k = on_sock k ni (\<lambda>u. u\<lparr>us_refs := 2, us_side_refs := (us_side_refs u)(0 := 1, 1 := 1), us_connected := True\<rparr>);
                  k = on_sock k li (\<lambda>u. u\<lparr>us_pending_fd := (us_pending_fd u)(unat (us_pending_count u) := int ni),
                        us_pending_count := us_pending_count u + 1\<rparr>) in
              (0, wake_all k))"

text \<open>Sleeping in a call: 0 when the task slept, an error when it could not.\<close>

definition block_or_again :: "(nat \<Rightarrow> kernel \<Rightarrow> kernel) \<Rightarrow> kernel \<Rightarrow> syscall_frame \<Rightarrow> int \<Rightarrow> u64 \<Rightarrow> (int \<times> kernel) option" where
  "block_or_again tick k f kind nr = map_option (\<lambda>(r, k). (if r = 0 then 0 else - EAGAIN, k)) (task_block_io tick k f kind nr)"

text \<open>The connections that wait at a listener lose the first one.\<close>

definition shift_pending :: "unix_socket_state \<Rightarrow> unix_socket_state" where
  "shift_pending u =
     u\<lparr>us_pending_fd := fold (\<lambda>i p. p(i - 1 := p i)) [1..<unat (us_pending_count u)] (us_pending_fd u),
       us_pending_count := us_pending_count u - 1\<rparr>"

definition sys_accept :: "(nat \<Rightarrow> kernel \<Rightarrow> kernel) \<Rightarrow> kernel \<Rightarrow> syscall_frame \<Rightarrow> int \<Rightarrow> u64 \<Rightarrow> u64 \<Rightarrow> (int \<times> kernel) option" where
  "sys_accept tick k f sockfd addr addrlen =
     (if \<not> socket_valid_fd k sockfd then Some (- EBADF, k)
      else case socket_end (files k sockfd) of None \<Rightarrow> Some (- EINVAL, k)
      | Some (li, _) \<Rightarrow>
        if \<not> us_listener (sock k li) then Some (- EINVAL, k)
        else if us_pending_count (sock k li) = 0 then
          (if fd_flags (files k sockfd) AND 0x800 \<noteq> 0 then Some (- EAGAIN, k)
           else block_or_again tick k f IO_WAIT_SOCKET_ACCEPT 43)
        else let si = us_pending_fd (sock k li) 0 in
          if si < 0 \<or> si \<ge> int UNIX_SOCKETS_MAX \<or> us_refs (sock k (nat si)) = 0 then Some (- EINVAL, k)
          else case find_free_fd (fds k) (current_task k) of None \<Rightarrow> Some (- EMFILE_K, k)
          | Some fd \<Rightarrow>
            let k = install_socket k fd (nat si) 1;
                (ok, k) = (if addr \<noteq> 0 \<and> addrlen \<noteq> 0 then copy_out k addrlen (le_bytes 4 0) else (True, k)) in
            if \<not> ok then Some (- EFAULT, k)
            else Some (int fd, on_sock (on_sock k li shift_pending) (nat si) (\<lambda>u. u\<lparr>us_connected := True\<rparr>)))"

definition sys_accept4 :: "(nat \<Rightarrow> kernel \<Rightarrow> kernel) \<Rightarrow> kernel \<Rightarrow> syscall_frame \<Rightarrow> int \<Rightarrow> u64 \<Rightarrow> u64 \<Rightarrow> u32 \<Rightarrow> (int \<times> kernel) option" where
  "sys_accept4 tick k f sockfd addr addrlen flags = sys_accept tick k f sockfd addr addrlen"

section \<open>The byte streams\<close>

text \<open>
  The loops over the bytes of a chunk, which do not look at the count: the callers take care that the
  chunk fits, or that so many bytes are there.
\<close>

definition ring_push_all :: "u32 \<Rightarrow> ring \<Rightarrow> u8 list \<Rightarrow> ring" where
  "ring_push_all cap q bs = fold (\<lambda>b q. ring_push cap q b) bs q"

fun ring_pop_all :: "u32 \<Rightarrow> ring \<Rightarrow> nat \<Rightarrow> u8 list \<times> ring" where
  "ring_pop_all cap q 0 = ([], q)"
| "ring_pop_all cap q (Suc n) = (let (bs, q') = ring_pop_all cap (ring_pop cap q) n in (rg_buf q (unat (rg_r q)) # bs, q'))"

definition sock_put :: "kernel \<Rightarrow> nat \<Rightarrow> nat \<Rightarrow> u8 list \<Rightarrow> kernel" where
  "sock_put k i d bs = on_sock k i (\<lambda>u. set_sring d (ring_push_all SOCK_CAP (sring u d) bs) u)"

definition sock_take :: "kernel \<Rightarrow> nat \<Rightarrow> nat \<Rightarrow> nat \<Rightarrow> u8 list \<times> kernel" where
  "sock_take k i d n =
     (let (bs, q) = ring_pop_all SOCK_CAP (sring (sock k i) d) n in (bs, on_sock k i (set_sring d q)))"

text \<open>The loop of \<^verbatim>\<open>sendto\<close> in chunks of at most 256 bytes: whether every copy worked and how many bytes it sent.\<close>

function send_loop :: "kernel \<Rightarrow> nat \<Rightarrow> nat \<Rightarrow> u64 \<Rightarrow> nat \<Rightarrow> nat \<Rightarrow> bool \<times> nat \<times> kernel" where
  "send_loop k i d buf n done =
     (if done \<ge> n then (True, done, k)
      else let c = min 256 (n - done) in
      case copy_in k (buf + of_nat done) c of
        None \<Rightarrow> (False, done, k)
      | Some tmp \<Rightarrow> send_loop (sock_put k i d tmp) i d buf n (done + c))"
  by pat_completeness auto
termination
  by (relation "measure (\<lambda>(k, i, d, buf, n, done). n - done)") auto

function recv_loop :: "kernel \<Rightarrow> nat \<Rightarrow> nat \<Rightarrow> u64 \<Rightarrow> nat \<Rightarrow> nat \<Rightarrow> bool \<times> nat \<times> kernel" where
  "recv_loop k i d buf n done =
     (if done \<ge> n then (True, done, k)
      else let c = min 256 (n - done);
               (tmp, k) = sock_take k i d c;
               (ok, k) = copy_out k (buf + of_nat done) tmp in
      if \<not> ok then (False, done, k) else recv_loop k i d buf n (done + c))"
  by pat_completeness auto
termination
  by (relation "measure (\<lambda>(k, i, d, buf, n, done). n - done)") auto

declare send_loop.simps [simp del] recv_loop.simps [simp del]

text \<open>
  The end of a send: the sleeping tasks that can go on are woken, and the processor is handed to the first
  reader among them when the call returns.
\<close>

definition send_wake :: "kernel \<Rightarrow> syscall_frame \<Rightarrow> nat \<Rightarrow> kernel" where
  "send_wake k f done =
     (case task_wake_io_waiters k of (woke, k) \<Rightarrow>
        (case woke of None \<Rightarrow> k
         | Some w \<Rightarrow>
           if w = current_task k then k
           else (set_task k (current_task k) (task_save_from_frame k (f\<lparr>fr_rax := of_nat done\<rparr>)))
             \<lparr>task_return_ctx := Some w, task_switch_target := w, task_switch_deferred := True, task_switch_pending := True\<rparr>))"

definition sys_sendto :: "(nat \<Rightarrow> kernel \<Rightarrow> kernel) \<Rightarrow> kernel \<Rightarrow> syscall_frame \<Rightarrow> int \<Rightarrow> u64 \<Rightarrow> int \<Rightarrow> u64 \<Rightarrow> (int \<times> kernel) option" where
  "sys_sendto tick k f sockfd buf len wait_nr =
     (if \<not> socket_valid_fd k sockfd then Some (- EBADF, k)
      else if len < 0 then Some (- EINVAL, k)
      else case socket_end (files k sockfd) of None \<Rightarrow> Some (- ENOTCONN, k)
      | Some (i, side) \<Rightarrow>
        let u = sock k i; peer = 1 - side in
        if us_refs u < 2 then Some (- ENOTCONN, k)
        else if us_closed u peer then Some (- EPIPE, k)
        else if len = 0 then Some (0, k)
        else let room = SOCK_CAP - us_count u peer in
        if room = 0 then
          (if fd_flags (files k sockfd) AND 0x800 \<noteq> 0 then Some (- EAGAIN, k)
           else block_or_again tick k f IO_WAIT_SOCKET_WRITE wait_nr)
        else case send_loop k i peer buf (min (nat len) (unat room)) 0 of
          (False, done, k) \<Rightarrow> Some (if done \<noteq> 0 then int done else - EFAULT, k)
        | (True, done, k) \<Rightarrow> Some (int done, send_wake k f done))"

definition sys_recvfrom :: "(nat \<Rightarrow> kernel \<Rightarrow> kernel) \<Rightarrow> kernel \<Rightarrow> syscall_frame \<Rightarrow> int \<Rightarrow> u64 \<Rightarrow> int \<Rightarrow> u64 \<Rightarrow> (int \<times> kernel) option" where
  "sys_recvfrom tick k f sockfd buf len wait_nr =
     (if \<not> socket_valid_fd k sockfd then Some (- EBADF, k)
      else if len < 0 then Some (- EINVAL, k)
      else case socket_end (files k sockfd) of None \<Rightarrow> Some (- ENOTCONN, k)
      | Some (i, side) \<Rightarrow>
        let u = sock k i in
        if len = 0 then Some (0, k)
        else if us_count u side = 0 then
          (if us_closed u (1 - side) then Some (0, k)
           else if fd_flags (files k sockfd) AND 0x800 \<noteq> 0 then Some (- EAGAIN, k)
           else block_or_again tick k f IO_WAIT_SOCKET_READ wait_nr)
        else case recv_loop k i side buf (min (nat len) (unat (us_count u side))) 0 of
          (False, done, k) \<Rightarrow> Some (if done \<noteq> 0 then int done else - EFAULT, k)
        | (True, done, k) \<Rightarrow> Some (int done, wake_all k))"

section \<open>Messages\<close>

text \<open>
  A message header is 56 bytes of memory: the address of the buffers is its third 64-bit field, their number
  the fourth, the control data and their length the fifth and sixth.
\<close>

definition iovecs :: "u8 list \<Rightarrow> nat \<Rightarrow> (u64 \<times> u64) list" where
  "iovecs bs n = map (\<lambda>i. (word_field bs (2 * i), word_field bs (2 * i + 1))) [0..<n]"

definition socket_msg_copy_in :: "kernel \<Rightarrow> u8 list \<Rightarrow> int + (u64 \<times> u64) list" where
  "socket_msg_copy_in k mh =
     (let iov = word_field mh 2; iovlen = word_field mh 3 in
      if iovlen > 64 then Inl (- EINVAL)
      else if iovlen = 0 then Inr []
      else if iov = 0 then Inl (- EFAULT)
      else case copy_in k iov (unat (iovlen * 16)) of None \<Rightarrow> Inl (- EFAULT)
      | Some bs \<Rightarrow>
        let vs = iovecs bs (unat iovlen) in
        if list_ex (\<lambda>(base, len). len > 0x100000 \<or> base \<ge> USER_LIMIT) vs then Inl (- EFAULT) else Inr vs)"

fun msg_total :: "(u64 \<times> u64) list \<Rightarrow> u64 \<Rightarrow> u64 option" where
  "msg_total [] tot = Some tot"
| "msg_total ((base, len) # vs) tot = (if tot > 0x1000000 - len then None else msg_total vs (tot + len))"

text \<open>The header, the buffers and the number of bytes of a message; the part that both calls begin with.\<close>

definition msg_open :: "kernel \<Rightarrow> u64 \<Rightarrow> int + (u8 list \<times> (u64 \<times> u64) list \<times> u64)" where
  "msg_open k umsg =
     (if umsg = 0 then Inl (- EFAULT)
      else case copy_in k umsg 56 of None \<Rightarrow> Inl (- EFAULT)
      | Some mh \<Rightarrow>
        case socket_msg_copy_in k mh of Inl e \<Rightarrow> Inl e
        | Inr vs \<Rightarrow> (case msg_total vs 0 of None \<Rightarrow> Inl (- EINVAL) | Some tot \<Rightarrow> Inr (mh, vs, tot)))"

text \<open>Filling one buffer, and the buffers one after the other.\<close>

function recv_buf :: "kernel \<Rightarrow> nat \<Rightarrow> nat \<Rightarrow> u64 \<Rightarrow> nat \<Rightarrow> nat \<Rightarrow> bool \<times> nat \<times> kernel" where
  "recv_buf k i d base len off =
     (if off \<ge> len \<or> us_count (sock k i) d = 0 then (True, off, k)
      else let n = min (min (len - off) (unat (us_count (sock k i) d))) 256;
               (tmp, k) = sock_take k i d n;
               (ok, k) = copy_out k (base + of_nat off) tmp in
      if \<not> ok then (False, off, k) else recv_buf k i d base len (off + n))"
  by pat_completeness auto
termination
  by (relation "measure (\<lambda>(k, i, d, base, len, off). len - off)") (auto simp: unat_gt_0 intro!: diff_less_mono2)

declare recv_buf.simps [simp del]

fun recv_bufs :: "kernel \<Rightarrow> nat \<Rightarrow> nat \<Rightarrow> (u64 \<times> u64) list \<Rightarrow> nat \<Rightarrow> nat \<Rightarrow> bool \<times> nat \<times> kernel" where
  "recv_bufs k i d [] tot done = (True, done, k)"
| "recv_bufs k i d ((base, len) # vs) tot done =
     (if done \<ge> tot then (True, done, k)
      else case recv_buf k i d base (unat len) 0 of
        (False, off, k) \<Rightarrow> (False, done + off, k)
      | (True, off, k) \<Rightarrow> recv_bufs k i d vs tot (done + off))"

definition sys_recvmsg :: "(nat \<Rightarrow> kernel \<Rightarrow> kernel) \<Rightarrow> kernel \<Rightarrow> syscall_frame \<Rightarrow> int \<Rightarrow> u64 \<Rightarrow> u32 \<Rightarrow> (int \<times> kernel) option" where
  "sys_recvmsg tick k f sockfd umsg flags =
     (if \<not> socket_valid_fd k sockfd then Some (- EBADF, k)
      else case socket_end (files k sockfd) of None \<Rightarrow> Some (- ENOTCONN, k)
      | Some (i, side) \<Rightarrow>
        case msg_open k umsg of Inl e \<Rightarrow> Some (e, k)
        | Inr (mh, vs, tot) \<Rightarrow>
          if tot = 0 then Some (0, k)
          else if us_count (sock k i) side = 0 then
            (if us_closed (sock k i) (1 - side) then Some (0, k)
             else if fd_flags (files k sockfd) AND SOCK_NONBLOCK \<noteq> 0 \<or> flags AND MSG_DONTWAIT \<noteq> 0 then Some (- EAGAIN, k)
             else block_or_again tick k f IO_WAIT_SOCKET_READ 47)
          else case recv_bufs k i side vs (unat tot) 0 of
            (False, done, k) \<Rightarrow> Some (if done \<noteq> 0 then int done else - EFAULT, k)
          | (True, done, k) \<Rightarrow>
            let control = (if word_field mh 4 \<noteq> 0 \<and> word_field mh 5 \<noteq> 0 then replicate 8 0 else take 8 (drop 40 mh));
                (ok, k) = copy_out k umsg (take 40 mh @ control @ replicate 4 0 @ drop 52 mh) in
            if ok then Some (int done, wake_all k) else Some (- EFAULT, k))"

function send_buf :: "kernel \<Rightarrow> nat \<Rightarrow> nat \<Rightarrow> u64 \<Rightarrow> nat \<Rightarrow> nat \<Rightarrow> bool \<times> nat \<times> kernel" where
  "send_buf k i d base len off =
     (if off \<ge> len then (True, off, k)
      else let n = min (len - off) 256 in
      case copy_in k (base + of_nat off) n of
        None \<Rightarrow> (False, off, k)
      | Some tmp \<Rightarrow> send_buf (sock_put k i d tmp) i d base len (off + n))"
  by pat_completeness auto
termination
  by (relation "measure (\<lambda>(k, i, d, base, len, off). len - off)") auto

declare send_buf.simps [simp del]

fun send_bufs :: "kernel \<Rightarrow> nat \<Rightarrow> nat \<Rightarrow> (u64 \<times> u64) list \<Rightarrow> nat \<Rightarrow> bool \<times> nat \<times> kernel" where
  "send_bufs k i d [] done = (True, done, k)"
| "send_bufs k i d ((base, len) # vs) done =
     (case send_buf k i d base (unat len) 0 of
        (False, off, k) \<Rightarrow> (False, done + off, k)
      | (True, off, k) \<Rightarrow> send_bufs k i d vs (done + off))"

definition sys_sendmsg :: "(nat \<Rightarrow> kernel \<Rightarrow> kernel) \<Rightarrow> kernel \<Rightarrow> syscall_frame \<Rightarrow> int \<Rightarrow> u64 \<Rightarrow> u32 \<Rightarrow> (int \<times> kernel) option" where
  "sys_sendmsg tick k f sockfd umsg flags =
     (if \<not> socket_valid_fd k sockfd then Some (- EBADF, k)
      else case socket_end (files k sockfd) of None \<Rightarrow> Some (- ENOTCONN, k)
      | Some (i, side) \<Rightarrow>
        let peer = 1 - side in
        if us_refs (sock k i) < 2 then Some (- ENOTCONN, k)
        else case msg_open k umsg of Inl e \<Rightarrow> Some (e, k)
        | Inr (mh, vs, tot) \<Rightarrow>
          if tot = 0 then Some (0, k)
          else if us_closed (sock k i) peer then Some (- EPIPE, k)
          else if ucast (SOCK_CAP - us_count (sock k i) peer) < tot then
            (if fd_flags (files k sockfd) AND SOCK_NONBLOCK \<noteq> 0 \<or> flags AND MSG_DONTWAIT \<noteq> 0 then Some (- EAGAIN, k)
             else block_or_again tick k f IO_WAIT_SOCKET_WRITE 46)
          else case send_bufs k i peer vs 0 of
            (False, sent, k) \<Rightarrow> Some (if sent \<noteq> 0 then int sent else - EFAULT, k)
          | (True, sent, k) \<Rightarrow> Some (int sent, send_wake k f sent))"

section \<open>Shutting down, options\<close>

definition sys_shutdown :: "kernel \<Rightarrow> int \<Rightarrow> int \<Rightarrow> int \<times> kernel" where
  "sys_shutdown k sockfd how =
     (if \<not> socket_valid_fd k sockfd then (- EBADF, k)
      else if how < 0 \<or> how > 2 then (- EINVAL, k)
      else case socket_end (files k sockfd) of None \<Rightarrow> (- ENOTCONN, k)
      | Some (i, side) \<Rightarrow>
        (0, wake_all (if how = 1 \<or> how = 2 then on_sock k i (\<lambda>u. u\<lparr>us_closed := (us_closed u)(side := True)\<rparr>) else k)))"

abbreviation (input) SOL_SOCKET :: int where "SOL_SOCKET \<equiv> 1"

definition sys_setsockopt :: "kernel \<Rightarrow> int \<Rightarrow> int \<Rightarrow> int \<Rightarrow> int \<Rightarrow> int" where
  "sys_setsockopt k sockfd level optname optlen =
     (if \<not> socket_valid_fd k sockfd then - EBADF
      else if level \<noteq> SOL_SOCKET then - ENOPROTOOPT
      else if optlen < 0 then - EINVAL
      else if optname \<in> {2, 9, 7, 8} then 0 else - ENOPROTOOPT)"

text \<open>The value of an option: \<^verbatim>\<open>SO_ERROR\<close>, \<^verbatim>\<open>SO_TYPE\<close>, the two buffer sizes and \<^verbatim>\<open>SO_KEEPALIVE\<close>.\<close>

definition sockopt_value :: "int \<Rightarrow> u64 option" where
  "sockopt_value optname =
     (if optname = 4 then Some 0 else if optname = 3 then Some 1 else if optname = 7 \<or> optname = 8 then Some 16384
      else if optname = 9 then Some 0 else None)"

definition sys_getsockopt :: "kernel \<Rightarrow> int \<Rightarrow> int \<Rightarrow> int \<Rightarrow> u64 \<Rightarrow> u64 \<Rightarrow> int \<times> kernel" where
  "sys_getsockopt k sockfd level optname optval optlen =
     (if \<not> socket_valid_fd k sockfd then (- EBADF, k)
      else if level \<noteq> SOL_SOCKET then (- ENOPROTOOPT, k)
      else if optlen = 0 then (- EFAULT, k)
      else case copy_in k optlen 4 of None \<Rightarrow> (- EFAULT, k)
      | Some c \<Rightarrow>
        let olen = int_at c in
        if olen < 0 then (- EINVAL, k)
        else case sockopt_value optname of None \<Rightarrow> (- ENOPROTOOPT, k)
        | Some v \<Rightarrow>
          let copy_len = nat (min olen 4);
              (ok, k) = (if olen > 0 then (if optval = 0 then (False, k) else copy_out k optval (take copy_len (le_bytes 4 v))) else (True, k)) in
          if \<not> ok then (- EFAULT, k)
          else let (ok, k) = copy_out k optlen (le_bytes 4 (of_nat (if olen > 0 then copy_len else 4))) in
            (if ok then 0 else - EFAULT, k))"

end
