(* ===== verification/Umem.thy ===== *)
theory Umem
  imports Mmap_Inv Uaccess
begin

text \<open>
  User memory as a partial function from addresses to bytes. A page that a single address maps is private:
  writing to it changes its bytes and nothing else, neither another page nor a translation. The copies
  between the kernel and user memory are shown to store and to fetch exactly the bytes they are given.
\<close>

section \<open>Bytes\<close>

text \<open>Byte addresses are natural numbers below \<^verbatim>\<open>USER_TOP\<close>.\<close>

abbreviation (input) TOP :: nat where "TOP \<equiv> 140737488355328"

definition page_at :: "nat \<Rightarrow> u64" where
  "page_at a = of_nat (a - a mod 4096)"

definition user_byte :: "vmm \<Rightarrow> nat \<Rightarrow> u8 option" where
  "user_byte v a = map_option (\<lambda>e. frame_byte (mem v) (e AND PTE_ADDR_MASK) (a mod 4096)) (user_entry v (page_at a))"

lemma page_at_user:
  assumes "a < TOP"
  shows "unat (page_at a) = a - a mod 4096" "user_page (page_at a)" "canonical_user (page_at a)"
proof -
  have "a - a mod 4096 < 2 ^ LENGTH(64)" using assms by simp
  then show u: "unat (page_at a) = a - a mod 4096" unfolding page_at_def by (simp only: unat_of_nat mod_less)
  have "4096 dvd a - a mod 4096" by (simp add: minus_mod_eq_mult_div)
  then have "page_aligned (page_at a)" using u by (simp add: page_aligned_iff_dvd)
  then show "user_page (page_at a)" "canonical_user (page_at a)"
    using u assms by (auto simp: user_page_def canonical_user_def word_less_nat_alt)
qed

lemma page_at_eq: "unat va < TOP \<Longrightarrow> va AND PAGE_MASK = page_at (unat va)"
  using unat_and_not_4095 [of va] page_at_user(1) [of "unat va"] by (simp add: word_unat_eq_iff)

lemma page_at_inj:
  assumes "a < TOP" "b < TOP"
  shows "page_at a = page_at b \<longleftrightarrow> a div 4096 = b div 4096"
  using page_at_user(1) [OF assms(1)] page_at_user(1) [OF assms(2)] by (auto simp: word_unat_eq_iff minus_mod_eq_mult_div)

lemma frame_byte_set: "frame_byte (set_frame_byte m f j b) f' j' = (if f' = f \<and> j' = j then b else frame_byte m f' j')"
proof (cases "f' = f \<and> j' div 8 = j div 8")
  case False
  then show ?thesis by (auto simp: frame_byte_def set_frame_byte_def)
next
  case True
  define r r' where "r = j mod 8" and "r' = j' mod 8"
  have j: "j' = j \<longleftrightarrow> r' = r" using True div_mult_mod_eq [of j 8] div_mult_mod_eq [of j' 8] unfolding r_def r'_def by metis
  have r: "r < 8" "r' < 8" by (simp_all add: r_def r'_def)
  let ?w = "m f (j div 8)"
  have "bit (ucast (drop_bit (8 * r') ((?w AND NOT (push_bit (8 * r) 0xFF)) OR push_bit (8 * r) (ucast b))) :: u8) n
      \<longleftrightarrow> bit (if r' = r then b else ucast (drop_bit (8 * r') ?w)) n" if n: "n < 8" for n
  proof -
    have k: "8 * r' + n < 64" "8 * r \<le> 8 * r' + n \<and> 8 * r' + n - 8 * r < 8 \<longleftrightarrow> r' = r" using r n by arith+
    then show ?thesis using n r by (auto simp: bit_simps bit_255 bit_ucast_byte dest: bit_imp_le_length)
  qed
  then have "(ucast (drop_bit (8 * r') ((?w AND NOT (push_bit (8 * r) 0xFF)) OR push_bit (8 * r) (ucast b))) :: u8)
      = (if r' = r then b else ucast (drop_bit (8 * r') ?w))"
    by (intro bit_word_eqI) simp
  then show ?thesis using True j unfolding frame_byte_def set_frame_byte_def r_def r'_def by auto
qed

lemma frame_byte_write:
  "frame_byte (mem (write_frame_bytes v f off bs)) f' j =
     (if f' = f \<and> off \<le> j \<and> j < off + length bs then bs ! (j - off) else frame_byte (mem v) f' j)"
proof -
  have "frame_byte (fold (\<lambda>i m. set_frame_byte m f (off + i) (bs ! i)) [0..<n] (mem v)) f' j =
      (if f' = f \<and> off \<le> j \<and> j < off + n then bs ! (j - off) else frame_byte (mem v) f' j)" for n
    by (induction n) (auto simp: frame_byte_set)
  then show ?thesis by (simp add: write_frame_bytes_def)
qed

lemma write_frame_other: "f' \<noteq> f \<Longrightarrow> mem (write_frame_bytes v f off bs) f' = mem v f'"
proof -
  assume "f' \<noteq> f"
  then have "fold (\<lambda>i m. set_frame_byte m f (off + i) (bs ! i)) xs m f' = m f'" for xs m
    by (induction xs arbitrary: m) (simp_all add: set_frame_byte_def)
  then show ?thesis by (simp add: write_frame_bytes_def)
qed

lemma user_byte_cong:
  assumes "a < TOP" "user_entry v' (page_at a) = user_entry v (page_at a)"
    "\<And>e. user_entry v (page_at a) = Some e \<Longrightarrow> mem v' (e AND PTE_ADDR_MASK) = mem v (e AND PTE_ADDR_MASK)"
  shows "user_byte v' a = user_byte v a"
  using assms by (cases "user_entry v (page_at a)") (simp_all add: user_byte_def frame_byte_def)

section \<open>Private pages\<close>

text \<open>The kernel can reach the frame of the page, no other page has it and \<open>ok\<close> holds of its entry.\<close>

definition own_page :: "(u64 \<Rightarrow> bool) \<Rightarrow> vmm \<Rightarrow> u64 \<Rightarrow> bool" where
  "own_page ok v p \<longleftrightarrow> (\<exists>e. user_entry v p = Some e \<and> ok e \<and> pmm_phys_to_virt (pool v) (e AND PTE_ADDR_MASK) \<noteq> None
     \<and> mapped_at v (e AND PTE_ADDR_MASK) = {p})"

definition own_range :: "(u64 \<Rightarrow> bool) \<Rightarrow> vmm \<Rightarrow> nat \<Rightarrow> nat \<Rightarrow> bool" where
  "own_range ok v a n \<longleftrightarrow> a + n \<le> TOP \<and> (\<forall>j < n. own_page ok v (page_at (a + j)))"

text \<open>Two states with the same translations, of which the second has \<open>bs\<close> at address \<open>a\<close>.\<close>

definition stored :: "vmm \<Rightarrow> nat \<Rightarrow> u8 list \<Rightarrow> vmm \<Rightarrow> bool" where
  "stored v a bs v' \<longleftrightarrow> mm_ok v' \<and> pool v' = pool v \<and> g_user_pml4 v' = g_user_pml4 v \<and> cpu_cr3 v' = cpu_cr3 v \<and> kernel_cr3 v' = kernel_cr3 v
     \<and> (\<forall>va. canonical_user va \<longrightarrow> user_entry v' va = user_entry v va)
     \<and> (\<forall>b < TOP. user_byte v' b = (if a \<le> b \<and> b < a + length bs then Some (bs ! (b - a)) else user_byte v b))"

lemma storedD:
  assumes "stored v a bs v'"
  shows "mm_ok v'" "pool v' = pool v" "g_user_pml4 v' = g_user_pml4 v" "\<And>va. canonical_user va \<Longrightarrow> user_entry v' va = user_entry v va"
    "\<And>b. b < TOP \<Longrightarrow> user_byte v' b = (if a \<le> b \<and> b < a + length bs then Some (bs ! (b - a)) else user_byte v b)"
  using assms by (simp_all add: stored_def)

lemma stored_mapped: "stored v a bs v' \<Longrightarrow> mapped_at v' p = mapped_at v p"
  by (intro mapped_at_cong) (simp add: storedD user_page_def)

lemma stored_own: "stored v a bs v' \<Longrightarrow> user_page p \<Longrightarrow> own_page ok v' p = own_page ok v p"
  by (simp add: own_page_def storedD stored_mapped user_page_def)

lemma stored_own_range: "stored v a bs v' \<Longrightarrow> own_range ok v' b n = own_range ok v b n"
  using stored_own page_at_user(2) unfolding own_range_def by (metis add_less_cancel_left order_less_le_trans)

lemma stored_Nil: "mm_ok v \<Longrightarrow> stored v a [] v"
  by (auto simp: stored_def)

lemma stored_append:
  assumes "stored v a bs v'" "stored v' (a + length bs) cs v''"
  shows "stored v a (bs @ cs) v''"
  using assms unfolding stored_def by (auto simp: nth_append)

text \<open>A write to one page.\<close>

lemma write_page_stored:
  assumes ok: "mm_ok v" and a: "a < TOP" "own_page P v (page_at a)" "user_entry v (page_at a) = Some e"
    and len: "a mod 4096 + length bs \<le> 4096"
  shows "stored v a bs (write_frame_bytes v (e AND PTE_ADDR_MASK) (a mod 4096) bs)"
proof -
  let ?f = "e AND PTE_ADDR_MASK"
  let ?v = "write_frame_bytes v ?f (a mod 4096) bs"
  have m: "mapped_at v ?f = {page_at a}" using a(2,3) by (auto simp: own_page_def)
  have nt: "?f \<notin> user_tables v" using mm_okD(5) [OF ok, of ?f] m by simp
  have v: "?v = v\<lparr>mem := mem ?v\<rparr>" by (simp add: write_frame_bytes_def)
  have "mem ?v f = mem v f" if "f \<noteq> ?f" for f using that by (rule write_frame_other)
  then have C: "mm_ok (v\<lparr>mem := mem ?v\<rparr>)" "\<And>va. canonical_user va \<Longrightarrow> user_entry (v\<lparr>mem := mem ?v\<rparr>) va = user_entry v va"
    using mem_change_mm_ok [OF ok nt, of "mem ?v"] by blast+
  note C = C [folded v]
  have "user_byte ?v b = (if a \<le> b \<and> b < a + length bs then Some (bs ! (b - a)) else user_byte v b)" if b: "b < TOP" for b
  proof (cases "page_at b = page_at a")
    case True
    then have d: "b div 4096 = a div 4096" using page_at_inj [OF b a(1)] by simp
    have ba: "b = 4096 * (a div 4096) + b mod 4096" "a = 4096 * (a div 4096) + a mod 4096" using d by (metis mult_div_mod_eq)+
    then have "a mod 4096 \<le> b mod 4096 \<and> b mod 4096 < a mod 4096 + length bs \<longleftrightarrow> a \<le> b \<and> b < a + length bs" by linarith
    moreover have "b mod 4096 - a mod 4096 = b - a" using ba by linarith
    ultimately show ?thesis
      using True a(3) C(2) [OF page_at_user(3) [OF a(1)]] unfolding user_byte_def by (simp add: frame_byte_write)
  next
    case False
    have ne: "e' AND PTE_ADDR_MASK \<noteq> ?f" if "user_entry v (page_at b) = Some e'" for e'
      using m False that page_at_user(2) [OF b] unfolding mapped_at_def by force
    have "user_byte ?v b = user_byte v b"
      using C(2) [OF page_at_user(3) [OF b]] ne by (intro user_byte_cong [OF b]) (auto simp: write_frame_other)
    moreover have "\<not> (a \<le> b \<and> b < a + length bs)"
    proof
      assume "a \<le> b \<and> b < a + length bs"
      then have "b div 4096 = a div 4096" using len div_mult_mod_eq [of a 4096] div_mult_mod_eq [of b 4096] mod_less_divisor [of 4096 b] by linarith
      then show False using False page_at_inj [OF b a(1)] by simp
    qed
    ultimately show ?thesis by auto
  qed
  then show ?thesis using C(1,2) unfolding stored_def by (simp add: write_frame_bytes_def)
qed

section \<open>Copies in chunks\<close>

text \<open>The loop that all copies to user memory share: \<open>ok\<close> is the test of the entry.\<close>

function store_loop :: "(u64 \<Rightarrow> bool) \<Rightarrow> vmm \<Rightarrow> u64 \<Rightarrow> u8 list \<Rightarrow> int \<times> vmm" where
  "store_loop ok v dst bs =
     (if bs = [] then (0, v)
      else let n = chunk dst (length bs) in
        case vmm_user_translate v (dst AND PAGE_MASK) of
          None \<Rightarrow> (-14, v)
        | Some (phys, pte) \<Rightarrow>
          if \<not> ok pte then (-14, v)
          else if pmm_phys_to_virt (pool v) phys = None then (-14, v)
          else store_loop ok (write_frame_bytes v phys (unat (dst AND 0xFFF)) (take n bs)) (dst + of_nat n) (drop n bs))"
  by pat_completeness auto
termination
  by (relation "measure (\<lambda>(ok, v, dst, bs). length bs)") (auto simp: chunk_pos)

declare store_loop.simps [simp del]

lemma translate_page:
  assumes "user_page p"
  shows "vmm_user_translate v p = map_option (\<lambda>e. (e AND PTE_ADDR_MASK, e)) (user_entry v p)"
proof -
  have "p AND 0xFFF = 0" using assms by (simp add: user_page_def page_aligned_def)
  then show ?thesis
    by (auto simp: user_entry_def vmm_user_translate_def translate_leaf_entry Let_def split: option.split)
qed

lemma chunk_step:
  assumes "unat dst + len \<le> TOP" "0 < len"
  shows "chunk dst len = min (4096 - unat dst mod 4096) len" "dst AND PAGE_MASK = page_at (unat dst)"
    "unat (dst + of_nat (chunk dst len)) = unat dst + chunk dst len"
proof -
  show c: "chunk dst len = min (4096 - unat dst mod 4096) len" by (simp add: chunk_def and_4095)
  show "dst AND PAGE_MASK = page_at (unat dst)" using assms by (intro page_at_eq) simp
  have "unat dst + chunk dst len < 2 ^ 64" using assms c by simp
  then show "unat (dst + of_nat (chunk dst len)) = unat dst + chunk dst len"
    by (simp add: unat_word_ariths unat_of_nat)
qed

lemma own_range_drop: "own_range ok v a n \<Longrightarrow> m \<le> n \<Longrightarrow> own_range ok v (a + m) (n - m)"
  by (auto simp: own_range_def add.assoc)

lemma store_loop_spec:
  assumes "mm_ok v" "own_range ok v (unat dst) (length bs)"
  shows "\<exists>v'. store_loop ok v dst bs = (0, v') \<and> stored v (unat dst) bs v'"
  using assms
proof (induction ok v dst bs rule: store_loop.induct)
  case (1 ok v dst bs)
  show ?case
  proof (cases "bs = []")
    case True
    then show ?thesis using 1(2) stored_Nil by (simp add: store_loop.simps [of _ _ _ "[]"])
  next
    case False
    define n where "n = chunk dst (length bs)"
    have r: "unat dst + length bs \<le> TOP" "0 < length bs" using 1(3) False by (simp_all add: own_range_def)
    note c = chunk_step [OF r, folded n_def]
    have n: "0 < n" "n \<le> length bs" "unat dst mod 4096 + n \<le> 4096" using c(1) r(2) mod_less_divisor [of 4096 "unat dst"] by linarith+
    have o: "own_page ok v (page_at (unat dst))" using 1(3) r(2) by (auto simp: own_range_def dest: spec [of _ 0])
    then obtain e where e: "user_entry v (page_at (unat dst)) = Some e" "ok e" "pmm_phys_to_virt (pool v) (e AND PTE_ADDR_MASK) \<noteq> None"
      by (auto simp: own_page_def)
    have a: "unat dst < TOP" using r by linarith
    have t: "vmm_user_translate v (dst AND PAGE_MASK) = Some (e AND PTE_ADDR_MASK, e)"
      unfolding c(2) translate_page [OF page_at_user(2) [OF a]] using e(1) by simp
    let ?v = "write_frame_bytes v (e AND PTE_ADDR_MASK) (unat (dst AND 0xFFF)) (take n bs)"
    have S: "stored v (unat dst) (take n bs) ?v"
      using write_page_stored [OF 1(2) a o e(1), of "take n bs"] n by (simp add: and_4095)
    have "own_range ok ?v (unat dst + n) (length bs - n)"
      using own_range_drop [OF 1(3) n(2)] stored_own_range [OF S] by simp
    then obtain v' where v': "store_loop ok ?v (dst + of_nat n) (drop n bs) = (0, v')" "stored ?v (unat dst + n) (drop n bs) v'"
      using 1(1) [OF False n_def t refl, of ] e(2,3) storedD(1) [OF S] by (auto simp: c(3))
    have "store_loop ok v dst bs = (0, v')"
      using v'(1) False e(2,3) t by (subst store_loop.simps) (simp add: n_def [symmetric] Let_def)
    moreover have "stored v (unat dst) bs v'" using stored_append [OF S, of "drop n bs" v'] v'(2) n(2) by simp
    ultimately show ?thesis by blast
  qed
qed

section \<open>The copies of system calls\<close>

text \<open>The address space \<open>cr3\<close> is the active one.\<close>

definition active :: "vmm \<Rightarrow> u64 \<Rightarrow> bool" where
  "active v cr3 \<longleftrightarrow> cr3 \<noteq> 0 \<and> cr3 = g_user_pml4 v \<and> page_aligned cr3"

lemma translate_cr3_active:
  assumes "mm_ok v" "active v cr3"
  shows "vmm_user_translate_cr3 v cr3 va = vmm_user_translate v va"
proof -
  have z: "cr3 AND 0xFFF = 0" using assms(2) unfolding active_def page_aligned_def by blast
  then have "cr3 AND PAGE_MASK = cr3" using unat_and_not_4095 [of cr3] and_4095 [of cr3] by (simp add: word_unat_eq_iff)
  then show ?thesis
    using z assms mm_okD(3) [OF assms(1)] by (auto simp: vmm_user_translate_cr3_def vmm_cr3_translate_direct_def vmm_user_translate_def active_def)
qed

abbreviation (input) user_rw :: "u64 \<Rightarrow> bool" where
  "user_rw e \<equiv> e AND PTE_U \<noteq> 0 \<and> e AND PTE_W \<noteq> 0"

lemma copy_to_store:
  assumes "mm_ok v" "active v cr3" "own_range user_rw v (unat dst) (length bs)"
  shows "copy_to_loop v cr3 dst bs = store_loop user_rw v dst bs"
  using assms
proof (induction v cr3 dst bs rule: copy_to_loop.induct)
  case (1 v cr3 dst bs)
  show ?case
  proof (cases "bs = []")
    case True
    then show ?thesis by (simp add: copy_to_loop.simps [of _ _ _ "[]"] store_loop.simps [of _ _ _ "[]"])
  next
    case False
    define n where "n = chunk dst (length bs)"
    have r: "unat dst + length bs \<le> TOP" "0 < length bs" using 1(4) False by (simp_all add: own_range_def)
    note c = chunk_step [OF r, folded n_def]
    have n: "n \<le> length bs" "unat dst mod 4096 + n \<le> 4096" using c(1) mod_less_divisor [of 4096 "unat dst"] by linarith+
    have o: "own_page user_rw v (page_at (unat dst))" using 1(4) r(2) by (auto simp: own_range_def dest: spec [of _ 0])
    then obtain e where e: "user_entry v (page_at (unat dst)) = Some e" "user_rw e" "pmm_phys_to_virt (pool v) (e AND PTE_ADDR_MASK) \<noteq> None"
      by (auto simp: own_page_def)
    have a: "unat dst < TOP" using r by linarith
    have t: "vmm_user_translate v (dst AND PAGE_MASK) = Some (e AND PTE_ADDR_MASK, e)"
      unfolding c(2) translate_page [OF page_at_user(2) [OF a]] using e(1) by simp
    let ?v = "write_frame_bytes v (e AND PTE_ADDR_MASK) (unat (dst AND 0xFFF)) (take n bs)"
    have S: "stored v (unat dst) (take n bs) ?v"
      using write_page_stored [OF 1(2) a o e(1), of "take n bs"] n by (simp add: and_4095)
    have w: "writable_page v cr3 (dst AND PAGE_MASK) = (Some (e AND PTE_ADDR_MASK), v)"
      unfolding writable_page_def translate_cr3_active [OF 1(2,3)] t using e(2) by simp
    have "own_range user_rw ?v (unat (dst + of_nat n)) (length (drop n bs))"
      using own_range_drop [OF 1(4) n(1)] stored_own_range [OF S] by (simp add: c(3))
    moreover have "active ?v cr3" using 1(3) unfolding active_def storedD(3) [OF S] .
    ultimately have "copy_to_loop ?v cr3 (dst + of_nat n) (drop n bs) = store_loop user_rw ?v (dst + of_nat n) (drop n bs)"
      using 1(1) [OF False n_def w [symmetric] refl e(3)] storedD(1) [OF S] by simp
    then show ?thesis
      using False e(2,3) w t by (auto simp: copy_to_loop.simps [of v] store_loop.simps [of _ v] n_def [symmetric] Let_def)
  qed
qed

lemma copy_from_bytes:
  assumes "mm_ok v" "active v cr3" "unat src + length bs \<le> TOP"
    "\<And>j. j < length bs \<Longrightarrow> own_page (\<lambda>e. e AND PTE_U \<noteq> 0) v (page_at (unat src + j)) \<and> user_byte v (unat src + j) = Some (bs ! j)"
  shows "copy_from_loop v cr3 src (length bs) = (0, bs)"
  using assms
proof (induction v cr3 src "length bs" arbitrary: bs rule: copy_from_loop.induct)
  case (1 v cr3 src bs)
  show ?case
  proof (cases "bs = []")
    case True
    then show ?thesis by (simp add: copy_from_loop.simps [of _ _ _ 0])
  next
    case False
    define n where "n = chunk src (length bs)"
    have r: "unat src + length bs \<le> TOP" "0 < length bs" using 1(4) False by simp_all
    note c = chunk_step [OF r, folded n_def]
    have n: "n \<le> length bs" "unat src mod 4096 + n \<le> 4096" using c(1) mod_less_divisor [of 4096 "unat src"] by linarith+
    have a: "unat src < TOP" using r by linarith
    obtain e where e: "user_entry v (page_at (unat src)) = Some e" "e AND PTE_U \<noteq> 0" "pmm_phys_to_virt (pool v) (e AND PTE_ADDR_MASK) \<noteq> None"
      using 1(5) [OF r(2)] by (auto simp: own_page_def)
    have t: "vmm_user_translate_cr3 v cr3 (src AND PAGE_MASK) = Some (e AND PTE_ADDR_MASK, e)"
      unfolding c(2) translate_cr3_active [OF 1(2,3)] translate_page [OF page_at_user(2) [OF a]] using e(1) by simp
    have b: "frame_byte (mem v) (e AND PTE_ADDR_MASK) (unat src mod 4096 + j) = bs ! j" if j: "j < n" for j
    proof -
      have m: "(unat src + j) mod 4096 = unat src mod 4096 + j"
        using j n(2) mod_add_left_eq [of "unat src" 4096 j] mod_less [of "unat src mod 4096 + j" 4096] by linarith
      then have "(unat src + j) div 4096 = unat src div 4096"
        using div_mult_mod_eq [of "unat src" 4096] div_mult_mod_eq [of "unat src + j" 4096] by linarith
      then have "page_at (unat src + j) = page_at (unat src)" using page_at_inj [of "unat src + j" "unat src"] a r n j by simp
      then show ?thesis using 1(5) [of j] j n(1) e(1) m by (simp add: user_byte_def)
    qed
    have "copy_from_loop v cr3 (src + of_nat n) (length (drop n bs)) = (0, drop n bs)"
    proof (rule 1(1) [OF _ n_def t refl, of "drop n bs"])
      show "own_page (\<lambda>e. e AND PTE_U \<noteq> 0) v (page_at (unat (src + of_nat n) + j)) \<and> user_byte v (unat (src + of_nat n) + j) = Some (drop n bs ! j)"
        if "j < length (drop n bs)" for j using 1(5) [of "n + j"] that n(1) by (simp add: c(3) add.assoc)
    qed (use 1(2,3) e n(1) r False c(3) in auto)
    moreover have "frame_bytes (mem v) (e AND PTE_ADDR_MASK) (unat (src AND 0xFFF)) n = take n bs"
      using b n(1) by (intro nth_equalityI) (simp_all add: frame_bytes_def and_4095)
    ultimately show ?thesis
      using False e(2,3) t by (subst copy_from_loop.simps) (simp add: n_def [symmetric] Let_def)
  qed
qed

text \<open>What a copy to private memory stores, a copy from there fetches.\<close>

lemma user_copy_stored:
  assumes "mm_ok v" "active v cr3" "own_range user_rw v (unat dst) (length bs)"
  shows "\<exists>v'. user_copy_to_cr3 v cr3 dst bs = (0, v') \<and> stored v (unat dst) bs v'"
  using store_loop_spec [OF assms(1,3)] copy_to_store [OF assms] assms(2) by (auto simp: user_copy_to_cr3_def active_def)

lemma user_fetch:
  assumes "mm_ok v" "active v cr3" "own_range user_rw v (unat src) (length bs)"
    "\<And>j. j < length bs \<Longrightarrow> user_byte v (unat src + j) = Some (bs ! j)"
  shows "user_copy_from_cr3 v cr3 src (length bs) = (0, bs)"
proof -
  have "own_page (\<lambda>e. e AND PTE_U \<noteq> 0) v (page_at (unat src + j)) \<and> user_byte v (unat src + j) = Some (bs ! j)" if "j < length bs" for j
    using assms(3,4) that by (auto simp: own_range_def own_page_def)
  then show ?thesis using copy_from_bytes [OF assms(1,2), of src bs] assms(2,3) by (auto simp: user_copy_from_cr3_def active_def own_range_def)
qed

end
