(* ===== verification/Fileio.thy ===== *)
theory Fileio
  imports Socket Umem
begin

text \<open>
  Reading and writing files through descriptors in \<^verbatim>\<open>src/src/kernel/main.c\<close>: the file branches of
  \<^verbatim>\<open>read\<close> and \<^verbatim>\<open>write\<close>, the dispatch of \<^verbatim>\<open>write\<close> over all kinds of descriptors,
  \<^verbatim>\<open>lseek\<close>, \<^verbatim>\<open>pread64\<close>, \<^verbatim>\<open>writev\<close> and \<^verbatim>\<open>ftruncate\<close>. What is printed on the
  console has no state in the model, debug output is left out.
\<close>

abbreviation (input) ESPIPE :: int where "ESPIPE \<equiv> 29"
abbreviation (input) O_APPEND :: u32 where "O_APPEND \<equiv> 1024"
abbreviation (input) DEV_NULL :: u64 where "DEV_NULL \<equiv> 1"
abbreviation (input) INT64_MAX :: int where "INT64_MAX \<equiv> 9223372036854775807"
abbreviation (input) INT64_MIN :: int where "INT64_MIN \<equiv> - 9223372036854775808"

text \<open>The place of a descriptor of the current task in the descriptor tables.\<close>

definition fd_slot :: "kernel \<Rightarrow> int \<Rightarrow> slot" where
  "fd_slot k fd = (current_files (fds k) (current_task k), nat fd)"

section \<open>Writing\<close>

text \<open>
  The loop over pieces of at most 256 bytes: the value to return at once, or \<open>None\<close> with the offset
  behind the last byte and the number of bytes written.
\<close>

function write_file_loop :: "kernel \<Rightarrow> nat option \<Rightarrow> bool \<Rightarrow> u64 \<Rightarrow> nat \<Rightarrow> u64 \<Rightarrow> nat \<Rightarrow> int option \<times> u64 \<times> nat \<times> kernel" where
  "write_file_loop k vn app buf n off done =
     (if done \<ge> n then (None, off, done, k)
      else let c = min 256 (n - done) in
      case copy_in k (buf + of_nat done) c of
        None \<Rightarrow> (Some (if done \<noteq> 0 then int done else - EFAULT), off, done, k)
      | Some tmp \<Rightarrow>
        let off = (if app then vfs_file_size (vfs_state k) vn else off);
            (w, fs) = vfs_file_write (vfs_state k) vn off (Some tmp) (of_nat c);
            k = k\<lparr>vfs_state := fs\<rparr> in
        if w < 0 then (Some (if done \<noteq> 0 then int done else w), off, done, k)
        else if w < int c then (None, off + of_int w, done + nat w, k)
        else write_file_loop k vn app buf n (off + of_nat c) (done + c))"
  by pat_completeness auto
termination
  by (relation "measure (\<lambda>(k, vn, app, buf, n, off, done). n - done)") auto

declare write_file_loop.simps [simp del]

definition write_file :: "kernel \<Rightarrow> int \<Rightarrow> u64 \<Rightarrow> u64 \<Rightarrow> int \<times> kernel" where
  "write_file k fd buf count =
     (let f = files k fd in
      if \<not> vfs_file_is_regular (vfs_state k) (fd_vnode f) \<or> fd_flags f AND 3 = 0 then (- EBADF, k)
      else case write_file_loop k (fd_vnode f) (fd_flags f AND O_APPEND \<noteq> 0) buf (unat count) (fd_offset_get (fds k) (fd_slot k fd)) 0 of
        (Some r, _, _, k) \<Rightarrow> (r, k)
      | (None, off, done, k) \<Rightarrow>
        (int done, on_fds k (\<lambda>s. set_desc (fd_offset_set s (fd_slot k fd) off) (fd_slot k fd)
            (\<lambda>d. d\<lparr>fd_size := vfs_file_size (vfs_state k) (fd_vnode f)\<rparr>))))"

text \<open>Output on the console: only whether every byte could be fetched.\<close>

function console_ok :: "vmm \<Rightarrow> u64 \<Rightarrow> nat \<Rightarrow> bool" where
  "console_ok v va n =
     (if n = 0 then True
      else let c = chunk va n in
        case vmm_user_translate v (va AND PAGE_MASK) of None \<Rightarrow> False
        | Some (phys, pte) \<Rightarrow>
          pte AND PTE_U \<noteq> 0 \<and> pmm_phys_to_virt (pool v) phys \<noteq> None \<and> console_ok v (va + of_nat c) (n - c))"
  by pat_completeness auto
termination
  by (relation "measure (\<lambda>(v, va, n). n)") (auto simp: chunk_pos)

declare console_ok.simps [simp del]

definition write_console :: "kernel \<Rightarrow> u64 \<Rightarrow> u64 \<Rightarrow> int \<times> kernel" where
  "write_console k buf count = (if console_ok (vm k) buf (unat count) then uint count else - EFAULT, k)"

definition fd_is_console_stream :: "kernel \<Rightarrow> int \<Rightarrow> bool" where
  "fd_is_console_stream k fd \<longleftrightarrow> \<not> bad_fd fd \<and> fd_in_use (files k fd) \<and> fd_type (files k fd) = FD_PSEUDO
     \<and> (fd_private (files k fd) = Dev DEV_CONSOLE \<or> fd_private (files k fd) = Dev DEV_TTY)"

definition write_pseudo :: "kernel \<Rightarrow> file_desc \<Rightarrow> u64 \<Rightarrow> u64 \<Rightarrow> int \<times> kernel" where
  "write_pseudo k f buf count =
     (case fd_private f of
        Dev d \<Rightarrow>
          if d = DEV_NULL then (uint count, k)
          else if d = DEV_CONSOLE \<or> d = DEV_TTY then write_console k buf count
          else (- EBADF, k)
      | _ \<Rightarrow> (- EBADF, k))"

definition sys_write :: "(nat \<Rightarrow> kernel \<Rightarrow> kernel) \<Rightarrow> kernel \<Rightarrow> syscall_frame \<Rightarrow> int \<Rightarrow> u64 \<Rightarrow> u64 \<Rightarrow> (int \<times> kernel) option" where
  "sys_write tick k sf fd buf count =
     (if socket_valid_fd k fd then sys_sendto tick k sf fd buf (sint (ucast count :: u32)) 1
      else case write_checks k fd buf count of Some r \<Rightarrow> Some (r, k)
      | None \<Rightarrow>
        if (fd = 1 \<or> fd = 2) \<and> fd_is_console_stream k fd then Some (write_console k buf count)
        else if bad_fd fd \<or> \<not> fd_in_use (files k fd) then Some (- EBADF, k)
        else let f = files k fd in
        Some (case fd_type f of
           FD_PTY_MASTER \<Rightarrow> write_pty k f buf count
         | FD_PTY_SLAVE \<Rightarrow> write_pty k f buf count
         | FD_PSEUDO \<Rightarrow> write_pseudo k f buf count
         | FD_EVENTFD \<Rightarrow> (case fd_private f of Eventfd i \<Rightarrow> write_eventfd k i buf count | _ \<Rightarrow> (- EBADF, k))
         | FD_TIMERFD \<Rightarrow> (- EINVAL, k)
         | FD_PIPE_W \<Rightarrow> write_pipe k f buf count
         | FD_FILE \<Rightarrow> write_file k fd buf count
         | _ \<Rightarrow> (- EBADF, k)))"

text \<open>The loop over the vector of \<^verbatim>\<open>writev\<close>.\<close>

fun writev_loop :: "(nat \<Rightarrow> kernel \<Rightarrow> kernel) \<Rightarrow> kernel \<Rightarrow> syscall_frame \<Rightarrow> int \<Rightarrow> u64 \<Rightarrow> nat \<Rightarrow> int \<Rightarrow> (int \<times> kernel) option" where
  "writev_loop tick k sf fd uiov 0 acc = Some (acc, k)"
| "writev_loop tick k sf fd uiov (Suc n) acc =
     (case copy_in k uiov 16 of None \<Rightarrow> Some (- EFAULT, k)
      | Some v \<Rightarrow>
        let base = le_word (take 8 v); len = le_word (drop 8 v) in
        (case sys_write tick k sf fd base len of None \<Rightarrow> None
         | Some (r, k) \<Rightarrow>
           if r < 0 then Some (if acc \<noteq> 0 then acc else r, k)
           else if r < uint len then Some (acc + r, k)
           else writev_loop tick k sf fd (uiov + 16) n (acc + r)))"

definition sys_writev :: "(nat \<Rightarrow> kernel \<Rightarrow> kernel) \<Rightarrow> kernel \<Rightarrow> syscall_frame \<Rightarrow> int \<Rightarrow> u64 \<Rightarrow> int \<Rightarrow> (int \<times> kernel) option" where
  "sys_writev tick k sf fd uiov cnt =
     (if cnt < 0 \<or> cnt > 1024 then Some (- EINVAL, k) else writev_loop tick k sf fd uiov (nat cnt) 0)"

section \<open>Reading\<close>

text \<open>Reading a file of the boot volume in pieces of a page: the value to return at once, or the number of bytes.\<close>

function read_boot_loop :: "kernel \<Rightarrow> string \<Rightarrow> u64 \<Rightarrow> u64 \<Rightarrow> nat \<Rightarrow> nat \<Rightarrow> int option \<times> nat \<times> kernel" where
  "read_boot_loop k bp buf pos want done =
     (if done \<ge> want then (None, done, k)
      else let c = min 4096 (want - done); bs = bootfs_read k bp (pos + of_nat done) c in
      if bs = [] then (Some (if done \<noteq> 0 then int done else - EIO), done, k)
      else case copy_out k (buf + of_nat done) bs of (ok, k) \<Rightarrow>
        if \<not> ok then (Some (if done \<noteq> 0 then int done else - EFAULT), done, k)
        else if length bs \<noteq> c then (None, done + length bs, k)
        else read_boot_loop k bp buf pos want (done + length bs))"
  by pat_completeness auto
termination
  by (relation "measure (\<lambda>(k, bp, buf, pos, want, done). want - done)") auto

declare read_boot_loop.simps [simp del]

text \<open>Size and contents of a file that is not on the boot volume.\<close>

definition plain_size :: "kernel \<Rightarrow> file_desc \<Rightarrow> u64" where
  "plain_size k f = (if vfs_file_is_regular (vfs_state k) (fd_vnode f) then vfs_file_size (vfs_state k) (fd_vnode f) else fd_size f)"

definition plain_bytes :: "kernel \<Rightarrow> file_desc \<Rightarrow> u64 \<Rightarrow> nat \<Rightarrow> u8 list option" where
  "plain_bytes k f off n =
     (if vfs_file_is_regular (vfs_state k) (fd_vnode f)
      then (case vfs_file_data (vfs_state k) (fd_vnode f) of None \<Rightarrow> None
            | Some d \<Rightarrow> Some (map (\<lambda>i. data_byte (vfs_state k) (Some d) (unat off + i)) [0..<n]))
      else map_option (\<lambda>bs. map (\<lambda>i. bs ! (unat off + i)) [0..<n]) (fd_data f))"

definition copy_plain :: "kernel \<Rightarrow> u64 \<Rightarrow> u8 list option \<Rightarrow> bool \<times> kernel" where
  "copy_plain k buf bs = (case bs of None \<Rightarrow> (True, k) | Some bs \<Rightarrow> if bs = [] then (True, k) else copy_out k buf bs)"

definition read_file :: "kernel \<Rightarrow> int \<Rightarrow> u64 \<Rightarrow> u64 \<Rightarrow> int \<times> kernel" where
  "read_file k fd buf count =
     (let f = files k fd; sl = fd_slot k fd; pos = fd_offset_get (fds k) sl in
      if fd_uses_bootfs (vfs_state k) f then
        (let size = (if fd_vnode f \<noteq> None then vfs_file_size (vfs_state k) (fd_vnode f) else fd_size f) in
         case fd_bootfs_path (vfs_state k) f of None \<Rightarrow> (- EIO, k)
         | Some bp \<Rightarrow>
           if pos \<ge> size then (0, k)
           else (case read_boot_loop k bp buf pos (min (unat count) (unat (size - pos))) 0 of
             (Some r, _, k) \<Rightarrow> (r, k)
           | (None, done, k) \<Rightarrow> (int done, on_fds k (\<lambda>s. fd_offset_set s sl (pos + of_nat done)))))
      else
        (let size = plain_size k f;
             n = min (unat count) (if pos < size then unat (size - pos) else 0) in
         case copy_plain k buf (plain_bytes k f pos n) of (ok, k) \<Rightarrow>
           if \<not> ok then (- EFAULT, k)
           else (int n, on_fds k (\<lambda>s. set_desc (fd_offset_set s sl (pos + of_nat n)) sl (\<lambda>d. d\<lparr>fd_size := size\<rparr>)))))"

text \<open>\<^verbatim>\<open>sys_read\<close> of a descriptor for a file.\<close>

definition sys_read_file :: "kernel \<Rightarrow> int \<Rightarrow> u64 \<Rightarrow> u64 \<Rightarrow> int \<times> kernel" where
  "sys_read_file k fd buf count =
     (if bad_fd fd \<or> \<not> fd_in_use (files k fd) then (- EBADF, k)
      else if buf = 0 \<and> count \<noteq> 0 then (- EINVAL, k)
      else if count \<noteq> 0 \<and> \<not> vmm_user_range_ok (vm k) buf count True then (- EFAULT, k)
      else read_file k fd buf count)"

definition sys_pread64 :: "kernel \<Rightarrow> int \<Rightarrow> u64 \<Rightarrow> u64 \<Rightarrow> u64 \<Rightarrow> int \<times> kernel" where
  "sys_pread64 k fd buf count off =
     (if bad_fd fd \<or> \<not> fd_in_use (files k fd) then (- EBADF, k)
      else let f = files k fd in
      if fd_type f \<noteq> FD_FILE then (- ESPIPE, k)
      else if fd_uses_bootfs (vfs_state k) f then
        (case fd_bootfs_path (vfs_state k) f of None \<Rightarrow> (- EIO, k)
         | Some bp \<Rightarrow>
           if off \<ge> fd_size f then (0, k)
           else (case read_boot_loop k bp buf off (min (unat count) (unat (fd_size f - off))) 0 of
             (Some r, _, k) \<Rightarrow> (r, k) | (None, done, k) \<Rightarrow> (int done, k)))
      else let size = plain_size k f in
        if off \<ge> size then (0, k)
        else let n = min (unat count) (unat (size - off)) in
          case copy_plain k buf (plain_bytes k f off n) of (ok, k) \<Rightarrow> (if ok then int n else - EFAULT, k))"

section \<open>Offsets and sizes\<close>

text \<open>\<open>off\<close> is a signed 64-bit number, \<open>whence\<close> a signed 32-bit one.\<close>

definition sys_lseek :: "kernel \<Rightarrow> int \<Rightarrow> int \<Rightarrow> int \<Rightarrow> int \<times> kernel" where
  "sys_lseek k fd off whence =
     (if bad_fd fd \<or> \<not> fd_in_use (files k fd) then (- EBADF, k)
      else let f = files k fd; sl = fd_slot k fd in
      if fd_type f \<noteq> FD_FILE then (- ESPIPE, k)
      else let size = (if fd_vnode f \<noteq> None then vfs_file_size (vfs_state k) (fd_vnode f) else fd_size f);
               base = (if whence = 0 then 0 else if whence = 1 then sint (fd_offset_get (fds k) sl)
                       else if whence = 2 then sint size else INT64_MIN) in
      if base = INT64_MIN then (- EINVAL, k)
      else if off > 0 \<and> base > INT64_MAX - off \<or> off < 0 \<and> base < INT64_MIN - off then (- EINVAL, k)
      else if base + off < 0 then (- EINVAL, k)
      else (base + off, on_fds k (\<lambda>s. fd_offset_set s sl (of_int (base + off)))))"

definition sys_ftruncate :: "kernel \<Rightarrow> int \<Rightarrow> u64 \<Rightarrow> int \<times> kernel" where
  "sys_ftruncate k fd len =
     (if bad_fd fd \<or> \<not> fd_in_use (files k fd) then (- EBADF, k)
      else let f = files k fd in
      if fd_type f \<noteq> FD_FILE then (- ESPIPE, k)
      else if \<not> vfs_file_is_regular (vfs_state k) (fd_vnode f) then (- EINVAL, k)
      else case vfs_file_truncate (vfs_state k) (fd_vnode f) len of (r, fs) \<Rightarrow>
        let k = k\<lparr>vfs_state := fs\<rparr> in
        if r \<noteq> 0 then (- EINVAL, k)
        else (0, on_fds k (\<lambda>s. set_desc s (fd_slot k fd) (\<lambda>d. d\<lparr>fd_size := len\<rparr>))))"

end
