(* ===== verification/Poll.thy ===== *)
theory Poll
  imports Fileio
begin

text \<open>
  Waiting for several descriptors in \<^verbatim>\<open>src/src/kernel/main.c\<close>: \<^verbatim>\<open>poll\<close> and
  \<^verbatim>\<open>ppoll\<close>, \<^verbatim>\<open>select\<close> and \<^verbatim>\<open>pselect6\<close>, and the \<^verbatim>\<open>epoll\<close>
  instances with their watches. A call that finds nothing ready stores its deadline in the task and sleeps; it
  is executed again when the task is woken. The arguments \<open>now\<close> and \<open>clk\<close> give the time: \<open>now n\<close> is the
  \<open>n\<close>-th value of \<^verbatim>\<open>kernel_monotonic_ns\<close> that the call reads, \<open>clk\<close> is
  \<^verbatim>\<open>clock_now_ns_simple\<close> for the clock of a timer during the call. The unread bytes of an escape
  sequence that the console terminal keeps for a process are an argument too, since the calls only look at
  them. Debug output and the counters that only it uses are left out.
\<close>

section \<open>Readiness of one descriptor\<close>

abbreviation (input) POLLIN :: u16 where "POLLIN \<equiv> 1"
abbreviation (input) POLLOUT :: u16 where "POLLOUT \<equiv> 4"
abbreviation (input) POLLERR :: u16 where "POLLERR \<equiv> 8"
abbreviation (input) POLLHUP :: u16 where "POLLHUP \<equiv> 16"
abbreviation (input) POLLNVAL :: u16 where "POLLNVAL \<equiv> 32"
abbreviation (input) DEV_ZERO :: u64 where "DEV_ZERO \<equiv> 2"
abbreviation (input) DEV_RANDOM :: u64 where "DEV_RANDOM \<equiv> 5"
abbreviation (input) DEV_URANDOM :: u64 where "DEV_URANDOM \<equiv> 6"
abbreviation (input) IO_WAIT_POLL :: int where "IO_WAIT_POLL \<equiv> 1"
abbreviation (input) IO_WAIT_SELECT :: int where "IO_WAIT_SELECT \<equiv> 2"
abbreviation (input) IO_WAIT_EPOLL :: int where "IO_WAIT_EPOLL \<equiv> 3"

text \<open>\<^verbatim>\<open>console_tty_pending_pos\<close>, \<^verbatim>\<open>console_tty_pending_len\<close> and \<^verbatim>\<open>console_tty_pending_pid\<close>.\<close>

record console_pending =
  cp_pos :: u8
  cp_len :: u8
  cp_pid :: int

definition console_tty_read_ready_for :: "console_pending \<Rightarrow> kernel \<Rightarrow> int \<Rightarrow> int \<Rightarrow> bool" where
  "console_tty_read_ready_for c k pid pgrp \<longleftrightarrow>
     (cp_pos c < cp_len c \<and> cp_pid c = pid) \<or> (key_head k \<noteq> key_tail k \<and> (console_fg_pgrp k \<le> 0 \<or> pgrp = console_fg_pgrp k))"

text \<open>The flag \<open>m\<close> if \<open>b\<close> holds.\<close>

definition flag :: "bool \<Rightarrow> 'a::len word \<Rightarrow> 'a word" where
  "flag b m = (if b then m else 0)"

text \<open>A keyboard or mouse descriptor with events to read; the cursor skips the events that are overwritten.\<close>

definition input_ready :: "kernel \<Rightarrow> int \<Rightarrow> u64 \<Rightarrow> bool \<times> kernel" where
  "input_ready k fd d =
     (if d = DEV_INPUT then (let (b, s) = keyboard_fd_ready (fds k) (fd_slot k fd) in (b, k\<lparr>fds := s\<rparr>))
      else if d = DEV_INPUT_MOUSE then (let (b, s) = mouse_fd_ready (fds k) (fd_slot k fd) in (b, k\<lparr>fds := s\<rparr>))
      else (False, k))"

definition timer_ready :: "(int \<Rightarrow> u64) \<Rightarrow> timerfd_state \<Rightarrow> bool" where
  "timer_ready clk t \<longleftrightarrow> ti_expirations t \<noteq> 0 \<or> (ti_next_ns t \<noteq> 0 \<and> clk (ti_clockid t) \<ge> ti_next_ns t)"

definition timerfd_monotonic_deadline :: "(int \<Rightarrow> u64) \<Rightarrow> kernel \<Rightarrow> int \<Rightarrow> u64 \<Rightarrow> u64" where
  "timerfd_monotonic_deadline clk k fd mono_now =
     (if bad_fd fd \<or> \<not> fd_in_use (files k fd) \<or> fd_type (files k fd) \<noteq> FD_TIMERFD then 0
      else case fd_private (files k fd) of
        Timerfd i \<Rightarrow>
          let t = timerfds (fds k) i in
          if ti_next_ns t = 0 \<or> ti_expirations t \<noteq> 0 then 0
          else let clock_now = clk (ti_clockid t);
                   delta = (if ti_next_ns t > clock_now then ti_next_ns t - clock_now else 0) in
            if UINT64_MAX - mono_now < delta then UINT64_MAX else mono_now + delta
      | _ \<Rightarrow> 0)"

text \<open>The earlier of two deadlines, where 0 is none.\<close>

definition earlier :: "u64 \<Rightarrow> u64 \<Rightarrow> u64" where
  "earlier td d = (if td \<noteq> 0 \<and> (d = 0 \<or> td < d) then td else d)"

section \<open>poll\<close>

definition poll_socket :: "unix_socket_state \<Rightarrow> nat \<Rightarrow> u16 \<Rightarrow> u16" where
  "poll_socket ss side ev =
     (if us_listener ss then flag (ev AND POLLIN \<noteq> 0 \<and> us_pending_count ss \<noteq> 0) POLLIN
      else if us_refs ss \<noteq> 0 then
        let peer = 1 - side in
        flag (ev AND POLLIN \<noteq> 0 \<and> us_count ss side \<noteq> 0) POLLIN OR
        flag (ev AND POLLOUT \<noteq> 0 \<and> \<not> us_closed ss peer \<and> us_count ss peer < SOCK_CAP) POLLOUT OR
        flag (us_closed ss peer) POLLHUP OR flag (us_closed ss peer \<and> ev AND POLLERR \<noteq> 0) POLLERR
      else 0)"

definition poll_pty :: "fd_type \<Rightarrow> pty_state \<Rightarrow> u16 \<Rightarrow> u16" where
  "poll_pty ty p ev =
     (if ty = FD_PTY_MASTER then
        flag (ev AND POLLIN \<noteq> 0 \<and> pty_master_read_ready p) POLLIN OR
        flag (ev AND POLLOUT \<noteq> 0 \<and> pt_slave_open p \<and> pt_m2s_count p < PTY_CAP) POLLOUT OR flag (\<not> pt_slave_open p) POLLHUP
      else
        flag (ev AND POLLIN \<noteq> 0 \<and> pty_slave_read_ready p) POLLIN OR
        flag (ev AND POLLOUT \<noteq> 0 \<and> pt_master_open p \<and> pt_s2m_count p < PTY_CAP) POLLOUT OR flag (\<not> pt_master_open p) POLLHUP)"

text \<open>The events of an open descriptor, with the time at which a timer expires.\<close>

definition poll_desc :: "console_pending \<Rightarrow> (int \<Rightarrow> u64) \<Rightarrow> u64 \<Rightarrow> kernel \<Rightarrow> int \<Rightarrow> u16 \<Rightarrow> u16 \<times> u64 \<times> kernel" where
  "poll_desc c clk mono_now k fd ev =
     (let f = files k fd; s = fds k in
      case (fd_type f, fd_private f) of
        (FD_FILE, _) \<Rightarrow> (flag (ev AND POLLIN \<noteq> 0) POLLIN OR flag (ev AND POLLOUT \<noteq> 0 \<and> fd_flags f AND 3 \<noteq> 0) POLLOUT, 0, k)
      | (FD_EVENTFD, Eventfd i) \<Rightarrow>
          (flag (ev AND POLLIN \<noteq> 0 \<and> ev_value (eventfds s i) \<noteq> 0) POLLIN OR
           flag (ev AND POLLOUT \<noteq> 0 \<and> ev_value (eventfds s i) < UINT64_MAX - 1) POLLOUT, 0, k)
      | (FD_TIMERFD, Timerfd i) \<Rightarrow>
          if ev AND POLLIN = 0 then (0, 0, k)
          else if timer_ready clk (timerfds s i) then (POLLIN, 0, k)
          else (0, timerfd_monotonic_deadline clk k fd mono_now, k)
      | (FD_PSEUDO, Dev d) \<Rightarrow>
          if ev AND POLLIN = 0 then (0, 0, k)
          else if d = DEV_TTY then (flag (console_tty_read_ready_for c k (tk_pid (cur k)) (tk_pgrp (cur k))) POLLIN, 0, k)
          else (let (b, k) = input_ready k fd d in (flag b POLLIN, 0, k))
      | (FD_SOCKET, Sock i side) \<Rightarrow> (poll_socket (sock k i) side ev, 0, k)
      | (FD_PIPE_R, Pipe i) \<Rightarrow>
          (flag (ev AND POLLIN \<noteq> 0 \<and> pi_count (pipe k i) \<noteq> 0) POLLIN OR flag (pipe_live s FD_PIPE_W i = 0) POLLHUP, 0, k)
      | (FD_PIPE_W, Pipe i) \<Rightarrow>
          (if pipe_live s FD_PIPE_R i = 0 then POLLERR else flag (ev AND POLLOUT \<noteq> 0 \<and> pi_count (pipe k i) < PIPE_CAP) POLLOUT, 0, k)
      | (FD_PTY_MASTER, Pty i) \<Rightarrow> (poll_pty FD_PTY_MASTER (pty_slots s i) ev, 0, k)
      | (FD_PTY_SLAVE, Pty i) \<Rightarrow> (poll_pty FD_PTY_SLAVE (pty_slots s i) ev, 0, k)
      | _ \<Rightarrow> (0, 0, k))"

definition poll_fd :: "console_pending \<Rightarrow> (int \<Rightarrow> u64) \<Rightarrow> u64 \<Rightarrow> kernel \<Rightarrow> int \<Rightarrow> u16 \<Rightarrow> u16 \<times> u64 \<times> kernel" where
  "poll_fd c clk mono_now k fd ev =
     (if (fd = 1 \<or> fd = 2) \<and> fd_is_console_stream k fd then (flag (ev AND POLLOUT \<noteq> 0) POLLOUT, 0, k)
      else if \<not> bad_fd fd \<and> fd_in_use (files k fd) then poll_desc c clk mono_now k fd ev
      else (flag (fd \<ge> 0) POLLNVAL, 0, k))"

text \<open>
  The loop over the array of \<^verbatim>\<open>pollfd\<close>: the number of entries with events and the earliest time
  at which a timer expires, or \<open>None\<close> when an entry cannot be read or written.
\<close>

fun poll_scan :: "console_pending \<Rightarrow> (int \<Rightarrow> u64) \<Rightarrow> u64 \<Rightarrow> kernel \<Rightarrow> u64 \<Rightarrow> nat \<Rightarrow> nat \<Rightarrow> u64 \<Rightarrow> (nat \<times> u64) option \<times> kernel" where
  "poll_scan c clk mono_now k ufds 0 ready next_timer = (Some (ready, next_timer), k)"
| "poll_scan c clk mono_now k ufds (Suc n) ready next_timer =
     (case copy_in k ufds 8 of None \<Rightarrow> (None, k)
      | Some p \<Rightarrow>
        let (rev, td, k) = poll_fd c clk mono_now k (int_at (take 4 p)) (ucast (le_word (take 2 (drop 4 p))));
            (ok, k) = copy_out k ufds (take 6 p @ le_bytes 2 (ucast rev)) in
        if ok then poll_scan c clk mono_now k (ufds + 8) n (if rev \<noteq> 0 then Suc ready else ready) (earlier td next_timer)
        else (None, k))"

text \<open>
  What the calls do when nothing is ready and time is left: they sleep until \<open>wait\<close> and are executed again.
\<close>

definition wait_again :: "(nat \<Rightarrow> kernel \<Rightarrow> kernel) \<Rightarrow> kernel \<Rightarrow> syscall_frame \<Rightarrow> int \<Rightarrow> u64 \<Rightarrow> u64 \<Rightarrow> u64 \<Rightarrow> u64 \<Rightarrow> (int \<times> kernel) option" where
  "wait_again tick k sf kind nr start_ns deadline_ns wait =
     (case task_block_io_until tick (task_io_resume_store k sf nr start_ns deadline_ns) sf kind nr wait of
        None \<Rightarrow> None
      | Some (r, k) \<Rightarrow> if r = 0 then Some (0, k) else Some (- EAGAIN, task_io_resume_clear k sf nr))"

definition sys_poll :: "(nat \<Rightarrow> kernel \<Rightarrow> kernel) \<Rightarrow> console_pending \<Rightarrow> (int \<Rightarrow> u64) \<Rightarrow> (nat \<Rightarrow> u64) \<Rightarrow> kernel \<Rightarrow> syscall_frame \<Rightarrow> u64 \<Rightarrow> u64 \<Rightarrow> int
    \<Rightarrow> (int \<times> kernel) option" where
  "sys_poll tick c clk now k sf ufds nfds timeout =
     (if nfds > 512 then Some (- EINVAL, k)
      else let nr = (if fr_rax sf = 271 then 271 else 7);
               resumed = task_io_resume_matches k sf nr;
               start_ns = (if resumed then tk_io_resume_start_ns (cur k) else now 0);
               deadline_ns = (if resumed then tk_io_resume_deadline_ns (cur k) else monotonic_deadline_after_ms start_ns timeout) in
      case poll_scan c clk (now 1) k ufds (unat nfds) 0 0 of
        (None, k) \<Rightarrow> Some (- EFAULT, k)
      | (Some (ready, next_timer), k) \<Rightarrow>
        if ready \<noteq> 0 then Some (int ready, task_io_resume_clear k sf nr)
        else if timeout = 0 then Some (0, task_io_resume_clear k sf nr)
        else if deadline_ns \<noteq> 0 \<and> now 2 \<ge> deadline_ns then Some (0, task_io_resume_clear k sf nr)
        else wait_again tick k sf IO_WAIT_POLL nr start_ns deadline_ns (earlier next_timer deadline_ns))"

text \<open>The timeout of \<^verbatim>\<open>ppoll\<close> in milliseconds, rounded up and cut to an \<^verbatim>\<open>int\<close>.\<close>

definition ppoll_timeout :: "u64 \<Rightarrow> u64 \<Rightarrow> int" where
  "ppoll_timeout sec nsec =
     (let ms = sec * 1000 + (nsec + 999999) div 1000000 in if ms > 0x7FFFFFFF then 0x7FFFFFFF else uint ms)"

definition sys_ppoll :: "(nat \<Rightarrow> kernel \<Rightarrow> kernel) \<Rightarrow> console_pending \<Rightarrow> (int \<Rightarrow> u64) \<Rightarrow> (nat \<Rightarrow> u64) \<Rightarrow> kernel \<Rightarrow> syscall_frame \<Rightarrow> u64 \<Rightarrow> u64 \<Rightarrow> u64
    \<Rightarrow> (int \<times> kernel) option" where
  "sys_ppoll tick c clk now k sf ufds nfds timeout_ts =
     (if timeout_ts = 0 then sys_poll tick c clk now k sf ufds nfds (- 1)
      else case copy_in k timeout_ts 16 of None \<Rightarrow> Some (- EFAULT, k)
      | Some ts \<Rightarrow>
        let sec = word_field ts 0; nsec = word_field ts 1 in
        if sint sec < 0 \<or> sint nsec < 0 \<or> sint nsec \<ge> 1000000000 then Some (- EINVAL, k)
        else sys_poll tick c clk now k sf ufds nfds (ppoll_timeout sec nsec))"

section \<open>epoll\<close>

abbreviation (input) EPOLLIN :: u32 where "EPOLLIN \<equiv> 1"
abbreviation (input) EPOLLOUT :: u32 where "EPOLLOUT \<equiv> 4"
abbreviation (input) EPOLLERR :: u32 where "EPOLLERR \<equiv> 8"
abbreviation (input) EPOLLHUP :: u32 where "EPOLLHUP \<equiv> 16"
abbreviation (input) EPOLL_CTL_ADD :: int where "EPOLL_CTL_ADD \<equiv> 1"
abbreviation (input) EPOLL_CTL_DEL :: int where "EPOLL_CTL_DEL \<equiv> 2"
abbreviation (input) EPOLL_CTL_MOD :: int where "EPOLL_CTL_MOD \<equiv> 3"
abbreviation (input) YABRO_EPOLL_WATCH_MAX :: nat where "YABRO_EPOLL_WATCH_MAX \<equiv> 128"
abbreviation (input) YABRO_EPOLL_INSTANCES :: nat where "YABRO_EPOLL_INSTANCES \<equiv> 4"
abbreviation (input) ENOENT_K :: int where "ENOENT_K \<equiv> 2"
abbreviation (input) EEXIST_K :: int where "EEXIST_K \<equiv> 17"
abbreviation (input) ENOSPC_K :: int where "ENOSPC_K \<equiv> 28"

definition epoll_socket :: "unix_socket_state \<Rightarrow> nat \<Rightarrow> u32 \<Rightarrow> u32" where
  "epoll_socket ss side ev =
     (if us_listener ss then flag (ev AND EPOLLIN \<noteq> 0 \<and> us_pending_count ss \<noteq> 0) EPOLLIN
      else if us_refs ss \<noteq> 0 then
        let peer = 1 - side in
        flag (ev AND EPOLLIN \<noteq> 0 \<and> us_count ss side \<noteq> 0) EPOLLIN OR
        flag (ev AND EPOLLOUT \<noteq> 0 \<and> \<not> us_closed ss peer \<and> us_count ss peer < SOCK_CAP) EPOLLOUT OR
        flag (us_closed ss peer) EPOLLHUP OR flag (us_closed ss peer \<and> ev AND EPOLLERR \<noteq> 0) EPOLLERR
      else 0)"

text \<open>Descriptors 1 and 2 are taken for the console, whatever they are. The events are not 0 when it is ready.\<close>

definition epoll_is_ready :: "console_pending \<Rightarrow> (int \<Rightarrow> u64) \<Rightarrow> kernel \<Rightarrow> int \<Rightarrow> u32 \<Rightarrow> u32 \<times> kernel" where
  "epoll_is_ready c clk k fd ev =
     (if fd = 1 \<or> fd = 2 then (flag (ev AND EPOLLOUT \<noteq> 0) EPOLLOUT, k)
      else if bad_fd fd \<or> \<not> fd_in_use (files k fd) then (0, k)
      else let f = files k fd; s = fds k in
      case (fd_type f, fd_private f) of
        (FD_FILE, _) \<Rightarrow> (flag (ev AND EPOLLIN \<noteq> 0) EPOLLIN OR flag (ev AND EPOLLOUT \<noteq> 0 \<and> fd_flags f AND 3 \<noteq> 0) EPOLLOUT, k)
      | (FD_PIPE_R, Pipe i) \<Rightarrow>
          (flag ((pi_count (pipe k i) \<noteq> 0 \<or> pipe_live s FD_PIPE_W i = 0) \<and> ev AND EPOLLIN \<noteq> 0) EPOLLIN OR
           flag (pipe_live s FD_PIPE_W i = 0) EPOLLHUP, k)
      | (FD_PIPE_W, Pipe i) \<Rightarrow>
          (if pipe_live s FD_PIPE_R i = 0 then EPOLLERR else flag (ev AND EPOLLOUT \<noteq> 0 \<and> pi_count (pipe k i) < PIPE_CAP) EPOLLOUT, k)
      | (FD_PSEUDO, Dev d) \<Rightarrow>
          if d = DEV_TTY then (flag (ev AND EPOLLIN \<noteq> 0 \<and> console_tty_read_ready_for c k (tk_pid (cur k)) (tk_pgrp (cur k))) EPOLLIN, k)
          else (let (b, k) = input_ready k fd d in (flag (b \<and> ev AND EPOLLIN \<noteq> 0) EPOLLIN, k))
      | (FD_PTY_MASTER, Pty i) \<Rightarrow> (flag (ev AND EPOLLIN \<noteq> 0 \<and> pty_master_read_ready (pty_slots s i)) EPOLLIN, k)
      | (FD_PTY_SLAVE, Pty i) \<Rightarrow> (flag (ev AND EPOLLIN \<noteq> 0 \<and> pty_slave_read_ready (pty_slots s i)) EPOLLIN, k)
      | (FD_EVENTFD, Eventfd i) \<Rightarrow>
          (flag (ev AND EPOLLIN \<noteq> 0 \<and> ev_value (eventfds s i) \<noteq> 0) EPOLLIN OR
           flag (ev AND EPOLLOUT \<noteq> 0 \<and> ev_value (eventfds s i) < UINT64_MAX - 1) EPOLLOUT, k)
      | (FD_TIMERFD, Timerfd i) \<Rightarrow>
          (flag (ti_next_ns (timerfds s i) \<noteq> 0 \<and> clk (ti_clockid (timerfds s i)) \<ge> ti_next_ns (timerfds s i) \<and> ev AND EPOLLIN \<noteq> 0) EPOLLIN, k)
      | (FD_SOCKET, Sock i side) \<Rightarrow> (epoll_socket (sock k i) side ev, k)
      | _ \<Rightarrow> (0, k))"

definition epoll_of :: "kernel \<Rightarrow> int \<Rightarrow> nat option" where
  "epoll_of k fd =
     (if bad_fd fd \<or> \<not> fd_in_use (files k fd) \<or> fd_type (files k fd) \<noteq> FD_EPOLL then None
      else case fd_private (files k fd) of Epoll i \<Rightarrow> if ep_used (epolls (fds k) i) then Some i else None | _ \<Rightarrow> None)"

text \<open>The loop of \<^verbatim>\<open>epoll_fd_ready\<close> over the entries of the array.\<close>

fun any_ready :: "console_pending \<Rightarrow> (int \<Rightarrow> u64) \<Rightarrow> kernel \<Rightarrow> nat \<Rightarrow> nat list \<Rightarrow> bool \<times> kernel" where
  "any_ready c clk k e [] = (False, k)"
| "any_ready c clk k e (i # js) =
     (let w = ep_w (epolls (fds k) e) i in
      if ew_used w then (let (rev, k) = epoll_is_ready c clk k (ew_fd w) (ew_events w) in if rev \<noteq> 0 then (True, k) else any_ready c clk k e js)
      else any_ready c clk k e js)"

definition epoll_fd_ready :: "console_pending \<Rightarrow> (int \<Rightarrow> u64) \<Rightarrow> kernel \<Rightarrow> int \<Rightarrow> bool \<times> kernel" where
  "epoll_fd_ready c clk k fd = (case epoll_of k fd of None \<Rightarrow> (False, k) | Some e \<Rightarrow> any_ready c clk k e [0..<YABRO_EPOLL_WATCH_MAX])"

definition clear_watches :: "epoll_state \<Rightarrow> epoll_state" where
  "clear_watches e = e\<lparr>ep_w := \<lambda>j. if j < YABRO_EPOLL_WATCH_MAX then (ep_w e j)\<lparr>ew_used := False\<rparr> else ep_w e j\<rparr>"

definition sys_epoll_create1 :: "kernel \<Rightarrow> u32 \<Rightarrow> int \<times> kernel" where
  "sys_epoll_create1 k flags =
     (if flags AND NOT O_CLOEXEC \<noteq> 0 then (- EINVAL, k)
      else case find_free_fd (fds k) (current_task k) of None \<Rightarrow> (- EMFILE_K, k)
      | Some fd \<Rightarrow>
        (case find (\<lambda>i. \<not> ep_used (epolls (fds k) i)) [0..<YABRO_EPOLL_INSTANCES] of None \<Rightarrow> (- EMFILE_K, k)
         | Some i \<Rightarrow>
           (int fd, on_fds k (\<lambda>s. set_desc (set_epoll s i (\<lambda>e. clear_watches (e\<lparr>ep_used := True, ep_refs := 1\<rparr>)))
              (current_files s (current_task k), fd)
              (\<lambda>d. d\<lparr>fd_in_use := True, fd_type := FD_EPOLL, fd_flags := flags, fd_private := Epoll i\<rparr>)))))"

definition watch_slot :: "epoll_state \<Rightarrow> int \<Rightarrow> nat option" where
  "watch_slot e fd = find (\<lambda>i. ew_used (ep_w e i) \<and> ew_fd (ep_w e i) = fd) [0..<YABRO_EPOLL_WATCH_MAX]"

definition set_watch :: "nat \<Rightarrow> (epoll_watch \<Rightarrow> epoll_watch) \<Rightarrow> epoll_state \<Rightarrow> epoll_state" where
  "set_watch i g e = e\<lparr>ep_w := (ep_w e)(i := g (ep_w e i))\<rparr>"

text \<open>The change of the watches: the result and the new instance; \<open>ev\<close> is not read for a removal.\<close>

definition epoll_ctl_step :: "epoll_state \<Rightarrow> int \<Rightarrow> int \<Rightarrow> u32 \<Rightarrow> u64 \<Rightarrow> int \<times> epoll_state" where
  "epoll_ctl_step e op fd ev data =
     (if op = EPOLL_CTL_DEL then
        (case watch_slot e fd of None \<Rightarrow> (- ENOENT_K, e) | Some i \<Rightarrow> (0, set_watch i (\<lambda>w. w\<lparr>ew_used := False\<rparr>) e))
      else if op = EPOLL_CTL_ADD then
        (case watch_slot e fd of Some i \<Rightarrow> (- EEXIST_K, e)
         | None \<Rightarrow>
           (case find (\<lambda>i. \<not> ew_used (ep_w e i)) [0..<YABRO_EPOLL_WATCH_MAX] of None \<Rightarrow> (- ENOSPC_K, e)
            | Some i \<Rightarrow> (0, set_watch i (\<lambda>_. \<lparr>ew_used = True, ew_fd = fd, ew_events = ev, ew_data = data\<rparr>) e)))
      else if op = EPOLL_CTL_MOD then
        (case watch_slot e fd of None \<Rightarrow> (- ENOENT_K, e)
         | Some i \<Rightarrow> (0, set_watch i (\<lambda>w. w\<lparr>ew_events := ev, ew_data := data\<rparr>) e))
      else (- EINVAL, e))"

definition sys_epoll_ctl :: "kernel \<Rightarrow> int \<Rightarrow> int \<Rightarrow> int \<Rightarrow> u64 \<Rightarrow> int \<times> kernel" where
  "sys_epoll_ctl k epfd op fd uevent =
     (if bad_fd epfd \<or> \<not> fd_in_use (files k epfd) \<or> fd_type (files k epfd) \<noteq> FD_EPOLL then (- EBADF, k)
      else if fd < 0 \<or> fd \<ge> int MAX_FILES + 3 then (- EBADF, k)
      else case epoll_of k epfd of None \<Rightarrow> (- EBADF, k)
      | Some i \<Rightarrow>
        (case (if op = EPOLL_CTL_DEL then Some [] else copy_in k uevent 12) of None \<Rightarrow> (- EFAULT, k)
         | Some bs \<Rightarrow>
           let (r, e) = epoll_ctl_step (epolls (fds k) i) op fd (ucast (le_word (take 4 bs))) (le_word (drop 4 bs)) in
           (r, on_fds k (\<lambda>s. set_epoll s i (\<lambda>_. e)))))"

text \<open>The loop of \<^verbatim>\<open>sys_epoll_wait\<close>: the events of the ready watches, at most \<open>room\<close>, and the earliest timer.\<close>

fun epoll_scan :: "console_pending \<Rightarrow> (int \<Rightarrow> u64) \<Rightarrow> u64 \<Rightarrow> kernel \<Rightarrow> nat \<Rightarrow> nat list \<Rightarrow> nat \<Rightarrow> u64 \<Rightarrow> (u32 \<times> u64) list \<times> u64 \<times> kernel" where
  "epoll_scan c clk mono_now k e [] room next_timer = ([], next_timer, k)"
| "epoll_scan c clk mono_now k e (i # js) room next_timer =
     (if room = 0 then ([], next_timer, k)
      else let w = ep_w (epolls (fds k) e) i in
      if \<not> ew_used w then epoll_scan c clk mono_now k e js room next_timer
      else let next_timer = (if ew_events w AND EPOLLIN \<noteq> 0 then earlier (timerfd_monotonic_deadline clk k (ew_fd w) mono_now) next_timer else next_timer);
               (rev, k) = epoll_is_ready c clk k (ew_fd w) (ew_events w) in
      if rev \<noteq> 0 then (let (out, r) = epoll_scan c clk mono_now k e js (room - 1) next_timer in ((rev, ew_data w) # out, r))
      else epoll_scan c clk mono_now k e js room next_timer)"

definition epoll_event_bytes :: "u32 \<times> u64 \<Rightarrow> u8 list" where
  "epoll_event_bytes x = le_bytes 4 (ucast (fst x)) @ le_bytes 8 (snd x)"

definition sys_epoll_wait :: "(nat \<Rightarrow> kernel \<Rightarrow> kernel) \<Rightarrow> console_pending \<Rightarrow> (int \<Rightarrow> u64) \<Rightarrow> (nat \<Rightarrow> u64) \<Rightarrow> kernel \<Rightarrow> syscall_frame \<Rightarrow> int \<Rightarrow> u64 \<Rightarrow> int \<Rightarrow> int
    \<Rightarrow> (int \<times> kernel) option" where
  "sys_epoll_wait tick c clk now k sf epfd uevents maxevents timeout =
     (if bad_fd epfd \<or> \<not> fd_in_use (files k epfd) \<or> fd_type (files k epfd) \<noteq> FD_EPOLL then Some (- EBADF, k)
      else if maxevents \<le> 0 \<or> maxevents > 256 then Some (- EINVAL, k)
      else case epoll_of k epfd of None \<Rightarrow> Some (- EBADF, k)
      | Some e \<Rightarrow>
        let nr = (if fr_rax sf = 281 then 281 else 232);
            resumed = task_io_resume_matches k sf nr;
            start_ns = (if resumed then tk_io_resume_start_ns (cur k) else now 0);
            deadline_ns = (if resumed then tk_io_resume_deadline_ns (cur k) else monotonic_deadline_after_ms start_ns timeout);
            (out, next_timer, k) = epoll_scan c clk (now 1) k e [0..<YABRO_EPOLL_WATCH_MAX] (nat maxevents) 0 in
        if out \<noteq> [] then
          (let (ok, k) = copy_out (task_io_resume_clear k sf nr) uevents (concat (map epoll_event_bytes out)) in
           Some (if ok then int (length out) else - EFAULT, k))
        else if timeout = 0 then Some (0, task_io_resume_clear k sf nr)
        else if deadline_ns \<noteq> 0 \<and> now 2 \<ge> deadline_ns then Some (0, task_io_resume_clear k sf nr)
        else wait_again tick k sf IO_WAIT_EPOLL nr start_ns deadline_ns (earlier next_timer deadline_ns))"

definition sys_epoll_pwait :: "(nat \<Rightarrow> kernel \<Rightarrow> kernel) \<Rightarrow> console_pending \<Rightarrow> (int \<Rightarrow> u64) \<Rightarrow> (nat \<Rightarrow> u64) \<Rightarrow> kernel \<Rightarrow> syscall_frame \<Rightarrow> int \<Rightarrow> u64 \<Rightarrow> int \<Rightarrow> int
    \<Rightarrow> (int \<times> kernel) option" where
  "sys_epoll_pwait tick c clk now k sf epfd uevents maxevents timeout = sys_epoll_wait tick c clk now k sf epfd uevents maxevents timeout"

section \<open>select\<close>

definition select_pseudo :: "console_pending \<Rightarrow> kernel \<Rightarrow> int \<Rightarrow> u64 \<Rightarrow> bool \<Rightarrow> bool \<Rightarrow> bool \<times> bool \<times> kernel" where
  "select_pseudo c k fd d want_r want_w =
     (let ww = want_w \<and> d \<in> {DEV_NULL, DEV_ZERO, DEV_RANDOM, DEV_URANDOM, DEV_CONSOLE, DEV_TTY} in
      if \<not> want_r then (False, ww, k)
      else if d \<in> {DEV_NULL, DEV_ZERO, DEV_RANDOM, DEV_URANDOM} then (True, ww, k)
      else if d = DEV_TTY then (console_tty_read_ready_for c k (tk_pid (cur k)) (tk_pgrp (cur k)), ww, k)
      else (let (b, k) = input_ready k fd d in (b, ww, k)))"

text \<open>The error, or whether the descriptor can be read and written; no descriptor has an exceptional condition.\<close>

definition select_fd_state :: "console_pending \<Rightarrow> (int \<Rightarrow> u64) \<Rightarrow> kernel \<Rightarrow> int \<Rightarrow> bool \<Rightarrow> bool \<Rightarrow> (int + bool \<times> bool) \<times> kernel" where
  "select_fd_state c clk k fd want_r want_w =
     (if bad_fd fd \<or> \<not> fd_in_use (files k fd) then (Inl (- EBADF), k)
      else if (fd = 1 \<or> fd = 2) \<and> fd_is_console_stream k fd then (Inr (False, want_w), k)
      else let f = files k fd; s = fds k in
      case (fd_type f, fd_private f) of
        (FD_FILE, _) \<Rightarrow> (Inr (want_r, want_w), k)
      | (FD_PSEUDO, Dev d) \<Rightarrow> (let (rr, ww, k) = select_pseudo c k fd d want_r want_w in (Inr (rr, ww), k))
      | (FD_SOCKET, Sock i side) \<Rightarrow>
          let ss = sock k i; peer = 1 - side in
          (Inr (if us_listener ss then (want_r \<and> us_pending_count ss \<noteq> 0, False)
                else if us_refs ss \<noteq> 0 then
                  (want_r \<and> (us_count ss side \<noteq> 0 \<or> us_closed ss peer), want_w \<and> \<not> us_closed ss peer \<and> us_count ss peer < SOCK_CAP)
                else (False, False)), k)
      | (FD_SOCKET, _) \<Rightarrow> (Inl (- EBADF), k)
      | (FD_PIPE_R, Pipe i) \<Rightarrow> (Inr (want_r \<and> (pi_count (pipe k i) \<noteq> 0 \<or> pipe_live s FD_PIPE_W i = 0), False), k)
      | (FD_PIPE_R, _) \<Rightarrow> (Inl (- EBADF), k)
      | (FD_PIPE_W, Pipe i) \<Rightarrow> (Inr (False, want_w \<and> pipe_live s FD_PIPE_R i \<noteq> 0 \<and> pi_count (pipe k i) < PIPE_CAP), k)
      | (FD_PIPE_W, _) \<Rightarrow> (Inl (- EBADF), k)
      | (FD_EVENTFD, Eventfd i) \<Rightarrow>
          (Inr (want_r \<and> ev_value (eventfds s i) \<noteq> 0, want_w \<and> ev_value (eventfds s i) < UINT64_MAX - 1), k)
      | (FD_EVENTFD, _) \<Rightarrow> (Inl (- EBADF), k)
      | (FD_TIMERFD, Timerfd i) \<Rightarrow> (Inr (want_r \<and> timer_ready clk (timerfds s i), False), k)
      | (FD_TIMERFD, _) \<Rightarrow> (Inl (- EBADF), k)
      | (FD_PTY_MASTER, Pty i) \<Rightarrow>
          (Inr (want_r \<and> pty_master_read_ready (pty_slots s i), want_w \<and> pt_slave_open (pty_slots s i) \<and> pt_m2s_count (pty_slots s i) < PTY_CAP), k)
      | (FD_PTY_MASTER, _) \<Rightarrow> (Inl (- EBADF), k)
      | (FD_PTY_SLAVE, Pty i) \<Rightarrow>
          (Inr (want_r \<and> pty_slave_read_ready (pty_slots s i), want_w \<and> pt_master_open (pty_slots s i) \<and> pt_s2m_count (pty_slots s i) < PTY_CAP), k)
      | (FD_PTY_SLAVE, _) \<Rightarrow> (Inl (- EBADF), k)
      | (FD_EPOLL, _) \<Rightarrow> (if want_r then (let (b, k) = epoll_fd_ready c clk k fd in (Inr (b, False), k)) else (Inr (False, False), k))
      | _ \<Rightarrow> (Inr (False, False), k))"

definition select_timeout_to_ns :: "kernel \<Rightarrow> u64 \<Rightarrow> bool \<Rightarrow> int + u64" where
  "select_timeout_to_ns k utv pselect =
     (if utv = 0 then Inr 0
      else case copy_in k utv 16 of None \<Rightarrow> Inl (- EFAULT)
      | Some bs \<Rightarrow>
        let sec = word_field bs 0; sub = word_field bs 1 in
        if sint sec < 0 \<or> sint sub < 0 \<or> sint sub \<ge> (if pselect then 1000000000 else 1000000) then Inl (- EINVAL)
        else let ns = (if pselect then sub else sub * 1000) in
        if sec > UINT64_MAX div 1000000000 then Inr UINT64_MAX
        else let dur = sec * 1000000000 in Inr (if UINT64_MAX - dur < ns then UINT64_MAX else dur + ns))"

text \<open>The three sets are arrays of 128 bytes, of which the first \<open>n\<close> are copied.\<close>

definition select_in :: "kernel \<Rightarrow> u64 \<Rightarrow> nat \<Rightarrow> u8 list option" where
  "select_in k u n =
     (if u \<noteq> 0 \<and> n \<noteq> 0 then map_option (\<lambda>bs. bs @ replicate (128 - n) 0) (copy_in k u n) else Some (replicate 128 0))"

definition fd_isset :: "u8 list \<Rightarrow> nat \<Rightarrow> bool" where
  "fd_isset xs fd \<longleftrightarrow> xs ! (fd div 8) AND push_bit (fd mod 8) 1 \<noteq> 0"

definition fd_put :: "bool \<Rightarrow> nat \<Rightarrow> u8 list \<Rightarrow> u8 list" where
  "fd_put b fd xs = (if b then xs[fd div 8 := xs ! (fd div 8) OR push_bit (fd mod 8) 1] else xs)"

definition select_copy_set :: "kernel \<Rightarrow> u64 \<Rightarrow> nat \<Rightarrow> u8 list \<Rightarrow> bool \<times> kernel" where
  "select_copy_set k u n xs = (if n \<noteq> 0 \<and> u \<noteq> 0 then copy_out k u (take n xs) else (True, k))"

definition select_copy_sets :: "kernel \<Rightarrow> u64 \<Rightarrow> u64 \<Rightarrow> u64 \<Rightarrow> nat \<Rightarrow> u8 list \<Rightarrow> u8 list \<Rightarrow> u8 list \<Rightarrow> bool \<times> kernel" where
  "select_copy_sets k ur uw ue n rout wout eout =
     (let (ok, k) = select_copy_set k ur n rout;
          (ok, k) = (if ok then select_copy_set k uw n wout else (False, k)) in
      if ok then select_copy_set k ue n eout else (False, k))"

definition select_update_timeval :: "u64 \<Rightarrow> kernel \<Rightarrow> u64 \<Rightarrow> u64 \<Rightarrow> bool \<times> kernel" where
  "select_update_timeval now k utv deadline_ns =
     (if utv = 0 then (True, k)
      else let rem = (if deadline_ns > now then deadline_ns - now else 0) in
        copy_out k utv (le_bytes 8 (rem div 1000000000) @ le_bytes 8 ((rem mod 1000000000) div 1000)))"

text \<open>The loop over the descriptors: the two sets that are returned and the number of their elements, or an error.\<close>

fun select_scan :: "console_pending \<Rightarrow> (int \<Rightarrow> u64) \<Rightarrow> u8 list \<Rightarrow> u8 list \<Rightarrow> u8 list \<Rightarrow> kernel \<Rightarrow> nat list \<Rightarrow> u8 list \<Rightarrow> u8 list \<Rightarrow> nat
    \<Rightarrow> (int + u8 list \<times> u8 list \<times> nat) \<times> kernel" where
  "select_scan c clk rin win ein k [] rout wout ready = (Inr (rout, wout, ready), k)"
| "select_scan c clk rin win ein k (fd # js) rout wout ready =
     (if \<not> fd_isset rin fd \<and> \<not> fd_isset win fd \<and> \<not> fd_isset ein fd then select_scan c clk rin win ein k js rout wout ready
      else case select_fd_state c clk k (int fd) (fd_isset rin fd) (fd_isset win fd) of
        (Inl e, k) \<Rightarrow> (Inl e, k)
      | (Inr (rr, ww), k) \<Rightarrow>
        select_scan c clk rin win ein k js (fd_put rr fd rout) (fd_put ww fd wout) (ready + of_bool rr + of_bool ww))"

text \<open>The end of a call that returns: the sets, the time that is left, and the result.\<close>

definition select_return :: "u64 \<Rightarrow> kernel \<Rightarrow> syscall_frame \<Rightarrow> u64 \<Rightarrow> bool \<Rightarrow> u64 \<Rightarrow> u64 \<Rightarrow> u64 \<Rightarrow> u64 \<Rightarrow> u64 \<Rightarrow> nat \<Rightarrow> u8 list \<Rightarrow> u8 list \<Rightarrow> nat \<Rightarrow> int \<times> kernel" where
  "select_return now k sf nr is_pselect ur uw ue utv deadline_ns n rout wout ready =
     (let (ok, k) = select_copy_sets k ur uw ue n rout wout (replicate 128 0);
          (ok', k) = (if is_pselect then (True, k) else select_update_timeval now k utv deadline_ns) in
      (if ok \<and> ok' then int ready else - EFAULT, task_io_resume_clear k sf nr))"

definition select_deadline :: "kernel \<Rightarrow> bool \<Rightarrow> u64 \<Rightarrow> bool \<Rightarrow> u64 \<Rightarrow> int + u64" where
  "select_deadline k resumed utv is_pselect start_ns =
     (if resumed then Inr (tk_io_resume_deadline_ns (cur k))
      else if utv = 0 then Inr 0
      else case select_timeout_to_ns k utv is_pselect of Inl e \<Rightarrow> Inl e
      | Inr dur \<Rightarrow> Inr (if UINT64_MAX - start_ns < dur then UINT64_MAX else start_ns + dur))"

text \<open>A set that cannot be read and a descriptor that is not open end the call and drop the stored deadline.\<close>

definition sys_select :: "(nat \<Rightarrow> kernel \<Rightarrow> kernel) \<Rightarrow> console_pending \<Rightarrow> (int \<Rightarrow> u64) \<Rightarrow> (nat \<Rightarrow> u64) \<Rightarrow> kernel \<Rightarrow> syscall_frame \<Rightarrow> int \<Rightarrow> u64 \<Rightarrow> u64 \<Rightarrow> u64 \<Rightarrow> u64
    \<Rightarrow> (int \<times> kernel) option" where
  "sys_select tick c clk now k sf nfds ur uw ue utv =
     (if nfds < 0 \<or> nfds > 1024 then Some (- EINVAL, k)
      else let nr = (if fr_rax sf = 270 then 270 else 23); is_pselect = (nr = 270); n = nat ((nfds + 7) div 8);
               resumed = task_io_resume_matches k sf nr;
               start_ns = (if resumed then tk_io_resume_start_ns (cur k) else now 0) in
      case select_deadline k resumed utv is_pselect start_ns of Inl e \<Rightarrow> Some (e, k)
      | Inr deadline_ns \<Rightarrow>
        (case (select_in k ur n, select_in k uw n, select_in k ue n) of
           (Some rin, Some win, Some ein) \<Rightarrow>
             (case select_scan c clk rin win ein k [0..<nat nfds] (replicate 128 0) (replicate 128 0) 0 of
                (Inl e, k) \<Rightarrow> Some (e, task_io_resume_clear k sf nr)
              | (Inr (rout, wout, ready), k) \<Rightarrow>
                if ready \<noteq> 0 then Some (select_return (now 1) k sf nr is_pselect ur uw ue utv deadline_ns n rout wout ready)
                else if utv \<noteq> 0 \<and> now 1 \<ge> deadline_ns then
                  Some (select_return (now 2) k sf nr is_pselect ur uw ue utv deadline_ns n rout wout 0)
                else wait_again tick k sf IO_WAIT_SELECT nr start_ns deadline_ns deadline_ns)
         | _ \<Rightarrow> Some (- EFAULT, task_io_resume_clear k sf nr)))"

definition sys_pselect6 :: "(nat \<Rightarrow> kernel \<Rightarrow> kernel) \<Rightarrow> console_pending \<Rightarrow> (int \<Rightarrow> u64) \<Rightarrow> (nat \<Rightarrow> u64) \<Rightarrow> kernel \<Rightarrow> syscall_frame \<Rightarrow> int \<Rightarrow> u64 \<Rightarrow> u64 \<Rightarrow> u64 \<Rightarrow> u64
    \<Rightarrow> (int \<times> kernel) option" where
  "sys_pselect6 tick c clk now k sf nfds ur uw ue uts = sys_select tick c clk now k sf nfds ur uw ue uts"

end
