(* ===== verification/Exec.thy ===== *)
theory Exec
  imports Socket Umem
begin

text \<open>
  Program loading in \<^verbatim>\<open>src/src/kernel/main.c\<close>: mapping and filling the segments of an ELF image, its
  interpreter, the initial stack with arguments, environment and auxiliary vector, and
  \<^verbatim>\<open>execve\<close>, with the part of it in \<^verbatim>\<open>main.rs\<close> that finds the file. The boot volume is a
  parameter: \<open>boot_size\<close> says which paths it has and how long the files are, the field
  \<^verbatim>\<open>bootfs_read\<close> of the kernel gives their bytes. Debug output is left out.
\<close>

section \<open>Mapping user memory\<close>

abbreviation (input) USER_STACK_TOP :: u64 where "USER_STACK_TOP \<equiv> 0x00007FFFFFFFF000"
abbreviation (input) USER_STACK_SIZE :: u64 where "USER_STACK_SIZE \<equiv> 0x00040000"
abbreviation (input) ENOMEM_K :: int where "ENOMEM_K \<equiv> 12"
abbreviation (input) E2BIG :: int where "E2BIG \<equiv> 7"

definition create_user_space :: "kernel \<Rightarrow> int \<times> kernel" where
  "create_user_space k =
     (case vmm_user_space_create (vm k) of (r, v) \<Rightarrow>
        if r \<noteq> 0 then (-1, k\<lparr>vm := v\<rparr>)
        else let v = (if kernel_cr3 v = 0 then v\<lparr>kernel_cr3 := cpu_cr3 v\<rparr> else v);
                 k = k\<lparr>vm := v, user_cr3 := vmm_user_cr3 v\<rparr> in
          (if user_cr3 k \<noteq> 0 then 0 else -1, k))"

text \<open>A new page: it is mapped first and zeroed then.\<close>

definition map_new_page :: "vmm \<Rightarrow> u64 \<Rightarrow> u64 \<Rightarrow> bool \<times> vmm" where
  "map_new_page v va flags =
     (let (phys, v) = alloc_page v in
      if phys = 0 then (False, v)
      else let (r, v) = vmm_user_map v va phys flags in
      if r \<noteq> 0 then (False, v)
      else if pmm_phys_to_virt (pool v) phys = None then (False, v)
      else (True, zero_table v phys))"

definition segment_pte :: "u64 \<Rightarrow> u64" where
  "segment_pte p_flags = (if p_flags AND 2 \<noteq> 0 then PTE_W else 0) OR (if p_flags AND 1 = 0 then PTE_NX else 0)"

definition merged_pte :: "u64 \<Rightarrow> u64 \<Rightarrow> u64" where
  "merged_pte pte p_flags =
     (if pte AND PTE_W \<noteq> 0 \<or> p_flags AND 2 \<noteq> 0 then PTE_W else 0) OR (if pte AND PTE_NX \<noteq> 0 \<and> p_flags AND 1 = 0 then PTE_NX else 0)"

definition map_segment_page :: "vmm \<Rightarrow> u64 \<Rightarrow> u64 \<Rightarrow> bool \<times> vmm" where
  "map_segment_page v va p_flags =
     (case vmm_user_translate v va of
        Some (phys, pte) \<Rightarrow>
          if pte AND PTE_P \<noteq> 0 then (case vmm_user_protect v va (merged_pte pte p_flags) of (r, v) \<Rightarrow> (r = 0, v))
          else map_new_page v va (segment_pte p_flags)
      | None \<Rightarrow> map_new_page v va (segment_pte p_flags))"

fun map_pages_loop :: "(vmm \<Rightarrow> u64 \<Rightarrow> bool \<times> vmm) \<Rightarrow> vmm \<Rightarrow> u64 list \<Rightarrow> int \<times> vmm" where
  "map_pages_loop f v [] = (0, v)"
| "map_pages_loop f v (va # vas) = (case f v va of (ok, v) \<Rightarrow> if ok then map_pages_loop f v vas else (-1, v))"

definition map_user_range :: "vmm \<Rightarrow> u64 \<Rightarrow> u64 \<Rightarrow> u64 \<Rightarrow> int \<times> vmm" where
  "map_user_range v start fin p_flags =
     (if fin \<le> start \<or> fin > USER_LIMIT then (-1, v)
      else let first = start AND PAGE_MASK; last = (fin + PAGE_SIZE - 1) AND PAGE_MASK in
        map_pages_loop (\<lambda>v va. map_segment_page v va p_flags) v (pages first (last - first)))"

definition map_user_stack :: "vmm \<Rightarrow> int \<times> vmm" where
  "map_user_stack v = map_pages_loop (\<lambda>v va. map_new_page v va (PTE_W OR PTE_NX)) v (pages (USER_STACK_TOP - USER_STACK_SIZE) USER_STACK_SIZE)"

text \<open>The copies of the loader: the first asks for a writable page, the others for a page that is present.\<close>

abbreviation (input) user_present :: "u64 \<Rightarrow> bool" where
  "user_present e \<equiv> e AND PTE_U \<noteq> 0 \<and> e AND PTE_P \<noteq> 0"

definition copy_to_user :: "vmm \<Rightarrow> u64 \<Rightarrow> u64 \<Rightarrow> u8 list \<Rightarrow> int \<times> vmm" where
  "copy_to_user v cr3 dst bs = (if cr3 = 0 \<or> cr3 \<noteq> vmm_user_cr3 v then (-14, v) else store_loop user_rw v dst bs)"

definition graphics_copy_to_user :: "kernel \<Rightarrow> u64 \<Rightarrow> u8 list \<Rightarrow> int \<times> kernel" where
  "graphics_copy_to_user k dst bs =
     (if syscall_user_cr3 k = 0 then (-14, k)
      else case copy_to_user (vm k) (syscall_user_cr3 k) dst bs of (r, v) \<Rightarrow> (r, k\<lparr>vm := v\<rparr>))"

definition copy_to_user_loader :: "vmm \<Rightarrow> u64 \<Rightarrow> u64 \<Rightarrow> u8 list \<Rightarrow> int \<times> vmm" where
  "copy_to_user_loader v cr3 dst bs = (if cr3 = 0 \<or> cr3 \<noteq> vmm_user_cr3 v then (-14, v) else store_loop user_present v dst bs)"

definition zero_user_loader :: "vmm \<Rightarrow> u64 \<Rightarrow> u64 \<Rightarrow> nat \<Rightarrow> int \<times> vmm" where
  "zero_user_loader v cr3 dst len = (if cr3 = 0 \<or> cr3 \<noteq> vmm_user_cr3 v then (-14, v) else store_loop user_present v dst (replicate len 0))"

section \<open>Headers\<close>

text \<open>A number of \<open>n\<close> bytes at an offset.\<close>

definition num_at :: "u8 list \<Rightarrow> nat \<Rightarrow> nat \<Rightarrow> u64" where
  "num_at bs off n = le_word (take n (drop off bs))"

record elf_phdr =
  p_type :: u64
  p_flags :: u64
  p_offset :: u64
  p_vaddr :: u64
  p_filesz :: u64
  p_memsz :: u64

definition phdr_of :: "u8 list \<Rightarrow> elf_phdr" where
  "phdr_of bs = \<lparr>p_type = num_at bs 0 4, p_flags = num_at bs 4 4, p_offset = num_at bs 8 8, p_vaddr = num_at bs 16 8,
     p_filesz = num_at bs 32 8, p_memsz = num_at bs 40 8\<rparr>"

record elf_ehdr =
  e_ident :: "u8 list"
  e_type :: u64
  e_machine :: u64
  e_version :: u64
  e_entry :: u64
  e_phoff :: u64
  e_ehsize :: u64
  e_phentsize :: u64
  e_phnum :: u64

definition ehdr_of :: "u8 list \<Rightarrow> elf_ehdr" where
  "ehdr_of bs = \<lparr>e_ident = take 16 bs, e_type = num_at bs 16 2, e_machine = num_at bs 18 2, e_version = num_at bs 20 4,
     e_entry = num_at bs 24 8, e_phoff = num_at bs 32 8, e_ehsize = num_at bs 52 2, e_phentsize = num_at bs 54 2, e_phnum = num_at bs 56 2\<rparr>"

abbreviation (input) EHDR_SIZE :: u64 where "EHDR_SIZE \<equiv> 64"
abbreviation (input) PHDR_SIZE :: u64 where "PHDR_SIZE \<equiv> 56"
abbreviation (input) PT_LOAD :: u64 where "PT_LOAD \<equiv> 1"
abbreviation (input) PT_INTERP :: u64 where "PT_INTERP \<equiv> 3"
abbreviation (input) PT_PHDR :: u64 where "PT_PHDR \<equiv> 6"

definition elf_ident_ok :: "elf_ehdr \<Rightarrow> bool" where
  "elf_ident_ok eh \<longleftrightarrow> take 6 (e_ident eh) = [0x7F, 69, 76, 70, 2, 1] \<and> (e_type eh = 2 \<or> e_type eh = 3) \<and> e_machine eh = 0x3E"

section \<open>Segments\<close>

text \<open>
  Copying the file part of a segment in pieces of a page; \<open>read_at\<close> gives so many bytes at an offset of the file,
  or \<open>None\<close> when they cannot all be read.
\<close>

function load_file_loop :: "(u64 \<Rightarrow> nat \<Rightarrow> u8 list option) \<Rightarrow> vmm \<Rightarrow> u64 \<Rightarrow> u64 \<Rightarrow> u64 \<Rightarrow> nat \<Rightarrow> nat \<Rightarrow> bool \<times> vmm" where
  "load_file_loop read_at v cr3 va off filesz copied =
     (if copied \<ge> filesz then (True, v)
      else let c = min (filesz - copied) 4096 in
      case read_at (off + of_nat copied) c of
        None \<Rightarrow> (False, v)
      | Some bs \<Rightarrow>
        (case copy_to_user_loader v cr3 (va + of_nat copied) bs of (r, v) \<Rightarrow>
           if r \<noteq> 0 then (False, v) else load_file_loop read_at v cr3 va off filesz (copied + c)))"
  by pat_completeness auto
termination
  by (relation "measure (\<lambda>(read_at, v, cr3, va, off, filesz, copied). filesz - copied)") auto

declare load_file_loop.simps [simp del]

definition load_contents :: "(u64 \<Rightarrow> nat \<Rightarrow> u8 list option) \<Rightarrow> vmm \<Rightarrow> u64 \<Rightarrow> u64 \<Rightarrow> elf_phdr \<Rightarrow> bool \<times> vmm" where
  "load_contents read_at v cr3 va ph =
     (case load_file_loop read_at v cr3 va (p_offset ph) (unat (p_filesz ph)) 0 of (ok, v) \<Rightarrow>
        if \<not> ok then (False, v)
        else if p_memsz ph > p_filesz ph then
          (case zero_user_loader v cr3 (va + p_filesz ph) (unat (p_memsz ph - p_filesz ph)) of (r, v) \<Rightarrow> (r = 0, v))
        else (True, v))"

text \<open>The checks, the mapping and the contents of one segment with memory: its place, or \<open>None\<close>.\<close>

definition place_segment :: "(u64 \<Rightarrow> nat \<Rightarrow> u8 list option) \<Rightarrow> u64 \<Rightarrow> u64 \<Rightarrow> vmm \<Rightarrow> u64 \<Rightarrow> elf_phdr \<Rightarrow> (u64 \<times> u64) option \<times> vmm" where
  "place_segment read_at fsize bias v cr3 ph =
     (if p_filesz ph > p_memsz ph then (None, v)
      else if p_offset ph > fsize \<or> p_filesz ph > fsize - p_offset ph then (None, v)
      else if p_vaddr ph > UINT64_MAX - p_memsz ph then (None, v)
      else let va = p_vaddr ph + bias; fin = va + p_memsz ph in
      if va < p_vaddr ph \<or> va \<ge> USER_LIMIT \<or> fin > USER_LIMIT \<or> fin < va then (None, v)
      else let map_start = va AND PAGE_MASK; map_end = (fin + PAGE_SIZE - 1) AND PAGE_MASK in
      if map_end \<le> map_start then (None, v)
      else case map_user_range v map_start map_end (p_flags ph) of (r, v) \<Rightarrow>
        if r \<noteq> 0 then (None, v)
        else case load_contents read_at v cr3 va ph of (ok, v) \<Rightarrow> (if ok then Some (va, fin) else None, v))"

text \<open>The state of the loop over the program headers.\<close>

record load_state =
  ld_vm :: vmm
  ld_count :: nat
  ld_exec :: bool
  ld_end :: u64

text \<open>
  The loop over the program headers; \<open>empty_ok\<close> says whether a segment without memory is skipped, as in the loader of
  programs, or an error, as in the loader of interpreters.
\<close>

fun load_segments :: "bool \<Rightarrow> (u64 \<Rightarrow> nat \<Rightarrow> u8 list option) \<Rightarrow> u64 \<Rightarrow> u64 \<Rightarrow> u64 \<Rightarrow> u64 \<Rightarrow> elf_phdr list \<Rightarrow> load_state \<Rightarrow> bool \<times> load_state" where
  "load_segments empty_ok read_at fsize bias cr3 entry [] st = (True, st)"
| "load_segments empty_ok read_at fsize bias cr3 entry (ph # phs) st =
     (if p_type ph \<noteq> PT_LOAD then load_segments empty_ok read_at fsize bias cr3 entry phs st
      else let st = st\<lparr>ld_count := ld_count st + 1\<rparr> in
      if p_memsz ph = 0 then (if empty_ok then load_segments empty_ok read_at fsize bias cr3 entry phs st else (False, st))
      else case place_segment read_at fsize bias (ld_vm st) cr3 ph of
        (None, v) \<Rightarrow> (False, st\<lparr>ld_vm := v\<rparr>)
      | (Some (va, fin), v) \<Rightarrow>
        load_segments empty_ok read_at fsize bias cr3 entry phs
          (st\<lparr>ld_vm := v, ld_end := (if fin > ld_end st then fin else ld_end st),
             ld_exec := ld_exec st \<or> (p_flags ph AND 1 \<noteq> 0 \<and> entry \<ge> va \<and> entry < fin)\<rparr>))"

definition start_load :: "vmm \<Rightarrow> load_state" where
  "start_load v = \<lparr>ld_vm = v, ld_count = 0, ld_exec = False, ld_end = 0\<rparr>"

section \<open>The initial stack\<close>

definition align16 :: "u64 \<Rightarrow> u64" where
  "align16 x = x AND NOT 0xF"

definition c_bytes :: "string \<Rightarrow> u8 list" where
  "c_bytes s = string_bytes s @ [0]"

text \<open>Strings below a cursor, the first one on top: their addresses and the new cursor.\<close>

fun push_strings :: "vmm \<Rightarrow> u64 \<Rightarrow> u64 \<Rightarrow> string list \<Rightarrow> (u64 list \<times> u64) option \<times> vmm" where
  "push_strings v cr3 cursor [] = (Some ([], cursor), v)"
| "push_strings v cr3 cursor (s # ss) =
     (if length s \<ge> 256 then (None, v)
      else let cursor = align16 (cursor - of_nat (length s + 1)) in
      case copy_to_user v cr3 cursor (c_bytes s) of (r, v) \<Rightarrow>
        if r \<noteq> 0 then (None, v)
        else (case push_strings v cr3 cursor ss of
           (None, v) \<Rightarrow> (None, v)
         | (Some (vas, cursor'), v) \<Rightarrow> (Some (cursor # vas, cursor'), v)))"

fun put_words :: "vmm \<Rightarrow> u64 \<Rightarrow> u64 \<Rightarrow> u64 list \<Rightarrow> bool \<times> vmm" where
  "put_words v cr3 pos [] = (True, v)"
| "put_words v cr3 pos (w # ws) =
     (case copy_to_user v cr3 pos (le_bytes 8 w) of (r, v) \<Rightarrow> if r \<noteq> 0 then (False, v) else put_words v cr3 (pos + 8) ws)"

definition exec_name :: "string \<Rightarrow> string" where
  "exec_name path =
     (let n = (if path = [] then [] else take 127 ((if hd path \<noteq> CHR ''/'' then ''/'' else []) @ path)) in
      if n = [] then ''/?'' else n)"

text \<open>The address of the program headers in memory: that of \<^verbatim>\<open>PT_PHDR\<close>, or their place in a segment.\<close>

definition phdr_va :: "elf_ehdr \<Rightarrow> elf_phdr list \<Rightarrow> u64 \<Rightarrow> u64" where
  "phdr_va eh phs bias =
     (let a = (case find (\<lambda>ph. p_type ph = PT_PHDR) phs of Some ph \<Rightarrow> p_vaddr ph + bias | None \<Rightarrow> 0) in
      if a \<noteq> 0 then a
      else case find (\<lambda>ph. p_type ph = PT_LOAD \<and> e_phoff eh \<ge> p_offset ph \<and> e_phoff eh < p_offset ph + p_filesz ph) phs of
        Some ph \<Rightarrow> p_vaddr ph + (e_phoff eh - p_offset ph) + bias
      | None \<Rightarrow> 0)"

definition random_bytes :: "u8 list" where
  "random_bytes = [0x51, 0x8b, 0x2d, 0x71, 0x19, 0xc4, 0x63, 0xa7, 0x9e, 0x42, 0xd8, 0x05, 0x6c, 0xf1, 0x37, 0xb0]"

definition aux_vector :: "u64 \<Rightarrow> u64 \<Rightarrow> u64 \<Rightarrow> u64 \<Rightarrow> u64 \<Rightarrow> u64 \<Rightarrow> u64 list" where
  "aux_vector phdr phnum entry interp random_va execfn_va =
     (if phdr \<noteq> 0 then [3, phdr] else []) @ [4, PHDR_SIZE, 5, phnum, 6, PAGE_SIZE, 9, entry] @
     (if interp \<noteq> 0 then [7, interp] else []) @ [25, random_va, 31, execfn_va, 0, 0]"

text \<open>The words below the strings: their number, the pointers to arguments and environment, the auxiliary vector.\<close>

definition push_vectors :: "vmm \<Rightarrow> u64 \<Rightarrow> u64 \<Rightarrow> u64 list \<Rightarrow> u64 list \<Rightarrow> u64 list \<Rightarrow> u64 option \<times> vmm" where
  "push_vectors v cr3 cursor argv envp auxv =
     (let vector_bytes = of_nat (8 * (1 + (length argv + 1) + (length envp + 1) + length auxv)) :: u64 in
      if cursor < vector_bytes + 16 + 8 then (None, v)
      else let vector_limit = cursor - 16; vector_base = vector_limit - vector_bytes;
               sp = align16 (vector_base - 8) OR 8 in
      if sp + vector_bytes > vector_limit then (None, v)
      else case put_words v cr3 sp (of_nat (length argv) # argv @ [0] @ envp @ [0]) of
        (False, v) \<Rightarrow> (None, v)
      | (True, v) \<Rightarrow>
        (case copy_to_user v cr3 (sp + of_nat (8 * (1 + (length argv + 1) + (length envp + 1)))) (concat (map (le_bytes 8) auxv)) of (r, v) \<Rightarrow>
           if r \<noteq> 0 then (None, v)
           else if \<not> vmm_user_range_ok v sp vector_bytes True \<or> sp + vector_bytes > vector_limit then (None, v)
           else (Some sp, v)))"

definition init_user_stack :: "vmm \<Rightarrow> u64 \<Rightarrow> elf_ehdr \<Rightarrow> elf_phdr list \<Rightarrow> string \<Rightarrow> string list \<Rightarrow> string list \<Rightarrow> u64 \<Rightarrow> u64 \<Rightarrow> u64 \<Rightarrow> u64 option \<times> vmm" where
  "init_user_stack v cr3 eh phs path argv envp bias entry interp =
     (let phdr = phdr_va eh phs bias; execfn = exec_name path in
      if length argv > 16 \<or> length envp > 16 then (None, v)
      else let argv = (if argv = [] then [execfn] else argv);
               execfn_va = align16 (USER_STACK_TOP - 64) in
      case copy_to_user v cr3 execfn_va (c_bytes execfn) of (r, v) \<Rightarrow>
        if r \<noteq> 0 then (None, v)
        else let random_va = align16 (execfn_va - 16) in
        (case copy_to_user v cr3 random_va random_bytes of (r, v) \<Rightarrow>
           if r \<noteq> 0 then (None, v)
           else (case push_strings v cr3 random_va argv of
             (None, v) \<Rightarrow> (None, v)
           | (Some (argv_va, cursor), v) \<Rightarrow>
             (case push_strings v cr3 cursor envp of
                (None, v) \<Rightarrow> (None, v)
              | (Some (envp_va, cursor), v) \<Rightarrow>
                push_vectors v cr3 cursor argv_va envp_va
                  (aux_vector phdr (e_phnum eh) (if entry \<noteq> 0 then entry else e_entry eh + bias) interp random_va execfn_va)))))"

section \<open>Loading an image\<close>

abbreviation (input) KYRONIX_PIE_BASE :: u64 where "KYRONIX_PIE_BASE \<equiv> 0x400000"
abbreviation (input) KYRONIX_INTERP_BASE :: u64 where "KYRONIX_INTERP_BASE \<equiv> 0x7f0000000000"

text \<open>The interpreter: its headers must lie in the first 4096 bytes of its file.\<close>

definition load_bootfs_elf_image :: "(string \<Rightarrow> u64 option) \<Rightarrow> kernel \<Rightarrow> string \<Rightarrow> u64 \<Rightarrow> u64 option \<times> kernel" where
  "load_bootfs_elf_image boot_size k path bias =
     (if path = [] then (None, k)
      else let file_size = (case boot_size path of Some n \<Rightarrow> n | None \<Rightarrow> 0) in
      if file_size < EHDR_SIZE \<or> file_size > 0x4000000 then (None, k)
      else let hdr = bootfs_read k path 0 4096 in
      if length hdr < 64 then (None, k)
      else let eh = ehdr_of hdr in
      if \<not> elf_ident_ok eh \<or> e_phentsize eh < PHDR_SIZE \<or> e_phnum eh = 0 then (None, k)
      else let ph_bytes = e_phnum eh * e_phentsize eh in
      if e_phoff eh > file_size \<or> ph_bytes > file_size - e_phoff eh \<or> e_phoff eh > 4096 \<or> ph_bytes > 4096 - e_phoff eh then (None, k)
      else let phs = map (\<lambda>i. phdr_of (drop (unat (e_phoff eh) + i * unat (e_phentsize eh)) hdr)) [0..<unat (e_phnum eh)];
               entry = e_entry eh + bias;
               read_at = (\<lambda>off n. let bs = bootfs_read k path off n in if length bs = n then Some bs else None) in
      case load_segments False read_at file_size bias (user_cr3 k) entry phs (start_load (vm k)) of (ok, st) \<Rightarrow>
        let k = k\<lparr>vm := ld_vm st\<rparr> in
        if \<not> ok \<or> ld_count st = 0 \<or> \<not> ld_exec st \<or> entry \<ge> USER_LIMIT then (None, k) else (Some entry, k))"

definition elf_reader_read_exact :: "(u64 \<Rightarrow> nat \<Rightarrow> u8 list) \<Rightarrow> u64 \<Rightarrow> u64 \<Rightarrow> nat \<Rightarrow> u8 list option" where
  "elf_reader_read_exact reader file_size off len =
     (if off > file_size \<or> len > unat (file_size - off) then None
      else let bs = reader off len in if length bs = len then Some bs else None)"

definition elf_memory_reader_read :: "u8 list \<Rightarrow> u64 \<Rightarrow> nat \<Rightarrow> u8 list" where
  "elf_memory_reader_read data off len =
     (if unat off > length data \<or> len > length data - unat off then [] else take len (drop (unat off) data))"

text \<open>The program headers, read one by one.\<close>

definition read_phdrs :: "(u64 \<Rightarrow> nat \<Rightarrow> u8 list) \<Rightarrow> u64 \<Rightarrow> elf_ehdr \<Rightarrow> elf_phdr list option" where
  "read_phdrs reader fsize eh =
     those (map (\<lambda>i. map_option phdr_of (elf_reader_read_exact reader fsize (e_phoff eh + of_nat i * e_phentsize eh) 56)) [0..<unat (e_phnum eh)])"

text \<open>The path of the interpreter: empty when there is none, \<open>None\<close> when the header is wrong.\<close>

definition interp_path :: "(u64 \<Rightarrow> nat \<Rightarrow> u8 list) \<Rightarrow> u64 \<Rightarrow> elf_phdr list \<Rightarrow> string option" where
  "interp_path reader fsize phs =
     (case find (\<lambda>ph. p_type ph = PT_INTERP) phs of None \<Rightarrow> Some []
      | Some ph \<Rightarrow>
        if p_filesz ph = 0 \<or> p_filesz ph \<ge> 256 \<or> p_offset ph > fsize \<or> p_filesz ph > fsize - p_offset ph then None
        else map_option (\<lambda>bs. c_chars (butlast bs)) (elf_reader_read_exact reader fsize (p_offset ph) (unat (p_filesz ph))))"

text \<open>
  The headers of a program: \<open>None\<close> when one of the checks in front of the new address space fails.
\<close>

definition elf_headers :: "(u64 \<Rightarrow> nat \<Rightarrow> u8 list) \<Rightarrow> u64 \<Rightarrow> (elf_ehdr \<times> elf_phdr list) option" where
  "elf_headers reader fsize =
     (if fsize < EHDR_SIZE then None
      else case elf_reader_read_exact reader fsize 0 64 of None \<Rightarrow> None
      | Some bs \<Rightarrow>
        let eh = ehdr_of bs in
        if \<not> elf_ident_ok eh \<or> e_version eh \<noteq> 1 \<or> e_ehsize eh < EHDR_SIZE then None
        else if e_phentsize eh < PHDR_SIZE \<or> e_phnum eh = 0 \<or> e_phnum eh > 128 then None
        else if e_phoff eh > fsize \<or> e_phnum eh * e_phentsize eh > fsize - e_phoff eh then None
        else map_option (\<lambda>phs. (eh, phs)) (read_phdrs reader fsize eh))"

text \<open>Entry point and stack pointer of the loaded program, or \<open>None\<close>.\<close>

definition load_elf_with_args_reader :: "(string \<Rightarrow> u64 option) \<Rightarrow> kernel \<Rightarrow> (u64 \<Rightarrow> nat \<Rightarrow> u8 list) \<Rightarrow> u64 \<Rightarrow> string \<Rightarrow> string list \<Rightarrow> string list \<Rightarrow> (u64 \<times> u64) option \<times> kernel" where
  "load_elf_with_args_reader boot_size k reader fsize path argv envp =
     (case elf_headers reader fsize of None \<Rightarrow> (None, k)
      | Some (eh, phs) \<Rightarrow>
        case create_user_space k of (r, k) \<Rightarrow>
        if r \<noteq> 0 then (None, k)
        else let bias = (if e_type eh = 3 then KYRONIX_PIE_BASE else 0); entry = e_entry eh + bias in
        if entry < e_entry eh then (None, k)
        else case load_segments True (elf_reader_read_exact reader fsize) fsize bias (user_cr3 k) entry phs (start_load (vm k)) of (ok, st) \<Rightarrow>
        let k = k\<lparr>vm := ld_vm st\<rparr> in
        if \<not> ok \<or> ld_count st = 0 \<or> \<not> ld_exec st \<or> entry \<ge> USER_LIMIT then (None, k)
        else let k = user_heap_reset_for_image k (ld_end st) in
        case interp_path reader fsize phs of None \<Rightarrow> (None, k)
        | Some ip \<Rightarrow>
          case (if ip = [] then (Some 0, k) else load_bootfs_elf_image boot_size k ip KYRONIX_INTERP_BASE) of
            (None, k) \<Rightarrow> (None, k)
          | (Some interp_entry, k) \<Rightarrow>
            (case map_user_stack (vm k) of (r, v) \<Rightarrow>
               if r \<noteq> 0 then (None, k\<lparr>vm := v\<rparr>)
               else case init_user_stack v (user_cr3 k) eh phs path argv envp bias entry (if ip = [] then 0 else KYRONIX_INTERP_BASE) of
                 (None, v) \<Rightarrow> (None, k\<lparr>vm := v\<rparr>)
               | (Some sp, v) \<Rightarrow> (Some (if interp_entry \<noteq> 0 then interp_entry else entry, sp), k\<lparr>vm := v\<rparr>)))"

definition load_elf_with_args :: "(string \<Rightarrow> u64 option) \<Rightarrow> kernel \<Rightarrow> u8 list \<Rightarrow> string \<Rightarrow> string list \<Rightarrow> string list \<Rightarrow> (u64 \<times> u64) option \<times> kernel" where
  "load_elf_with_args boot_size k data path argv envp =
     load_elf_with_args_reader boot_size k (elf_memory_reader_read data) (of_nat (length data)) path argv envp"

definition load_elf :: "(string \<Rightarrow> u64 option) \<Rightarrow> kernel \<Rightarrow> u8 list \<Rightarrow> string \<Rightarrow> (u64 \<times> u64) option \<times> kernel" where
  "load_elf boot_size k data path = load_elf_with_args boot_size k data path [] []"

section \<open>execve\<close>

text \<open>\<^verbatim>\<open>kernel_execve_file_args\<close> of \<^verbatim>\<open>main.rs\<close>: the file is one of the boot volume or a file of the file system.\<close>

definition kernel_execve_file_args :: "(string \<Rightarrow> u64 option) \<Rightarrow> kernel \<Rightarrow> string \<Rightarrow> string list \<Rightarrow> string list \<Rightarrow> (int + u64 \<times> u64) \<times> kernel" where
  "kernel_execve_file_args boot_size k path argv envp =
     (let exec_path = (if path \<noteq> [] \<and> hd path = CHR ''/'' then path else CHR ''/'' # path);
          load = (\<lambda>k reader fsize.
            if fsize = 0 \<or> fsize > 0x8000000 then (Inl (-8), k)
            else case load_elf_with_args_reader boot_size k reader fsize exec_path argv envp of
              (None, k) \<Rightarrow> (Inl (-8), k)
            | (Some (entry, sp), k) \<Rightarrow> if entry = 0 then (Inl (-8), k) else (Inr (entry, sp), k)) in
      if length exec_path \<ge> 259 then (Inl (-36), k)
      else case boot_size exec_path of
        Some fsize \<Rightarrow> load k (\<lambda>off n. if off > fsize \<or> n > unat (fsize - off) then [] else bootfs_read k exec_path off n) fsize
      | None \<Rightarrow>
        (case vfs_lookup (vfs_state k) exec_path of (vn, fs) \<Rightarrow>
           let k = k\<lparr>vfs_state := fs\<rparr> in
           if vn = None \<or> \<not> vfs_file_is_regular fs vn then (Inl (-2), k)
           else let fsize = vfs_file_size fs vn; data = vfs_file_data fs vn in
           if fsize = 0 \<or> fsize > 0x8000000 \<or> data = None then (Inl (-8), k)
           else load k (\<lambda>off n. if off > fsize \<or> n > unat (fsize - off) then [] else map (\<lambda>j. data_byte fs data (unat off + j)) [0..<n]) fsize))"

definition exec_target_valid :: "vmm \<Rightarrow> u64 \<Rightarrow> u64 \<Rightarrow> u64 \<Rightarrow> bool" where
  "exec_target_valid v cr3 entry stack =
     (if entry = 0 \<or> stack = 0 \<or> entry \<ge> USER_LIMIT \<or> stack > USER_STACK_TOP \<or> stack < 16 then False
      else case vmm_user_translate_cr3 v cr3 (entry AND PAGE_MASK) of None \<Rightarrow> False
      | Some (_, pte) \<Rightarrow>
        if vmm_user_validate_page_cr3 v cr3 (entry AND PAGE_MASK) False True \<noteq> 0 then False
        else if pte AND PTE_P = 0 \<or> pte AND PTE_U = 0 \<or> pte AND PTE_NX \<noteq> 0 then False
        else case vmm_user_translate_cr3 v cr3 ((stack - 1) AND PAGE_MASK) of None \<Rightarrow> False
        | Some (_, pte) \<Rightarrow>
          if vmm_user_validate_page_cr3 v cr3 ((stack - 1) AND PAGE_MASK) True False \<noteq> 0 then False
          else if pte AND PTE_P = 0 \<or> pte AND PTE_U = 0 \<or> pte AND PTE_W = 0 then False
          else vmm_user_range_ok v (stack - 16) 16 True)"

text \<open>The strings of an argument vector in user memory: at most 15 of them.\<close>

fun exec_strings :: "kernel \<Rightarrow> u64 \<Rightarrow> nat \<Rightarrow> int + string list" where
  "exec_strings k base 0 = Inl (- E2BIG)"
| "exec_strings k base (Suc n) =
     (case copy_in k base 8 of None \<Rightarrow> Inl (- EFAULT)
      | Some p \<Rightarrow>
        if le_word p = 0 then Inr []
        else case user_copy_cstr (vm k) (syscall_user_cr3 k) (le_word p) 256 of (r, s) \<Rightarrow>
          if r \<noteq> 0 then Inl (- EFAULT)
          else (case exec_strings k (base + 8) n of Inl e \<Rightarrow> Inl e | Inr ss \<Rightarrow> Inr (s # ss)))"

definition exec_vector :: "kernel \<Rightarrow> u64 \<Rightarrow> int + string list" where
  "exec_vector k base = (if base = 0 then Inr [] else exec_strings k base 16)"

definition close_on_exec :: "kernel \<Rightarrow> kernel" where
  "close_on_exec k =
     fold (\<lambda>fd k. if fd_in_use (files k (int fd)) \<and> fd_flags (files k (int fd)) AND 0x80000 \<noteq> 0 then snd (sys_close k (int fd)) else k) [0..<MAX_FILES] k"

text \<open>The new image takes the place of the old one in the current task.\<close>

definition exec_commit :: "kernel \<Rightarrow> u64 \<Rightarrow> u64 \<Rightarrow> u64 \<Rightarrow> kernel" where
  "exec_commit k new_cr3 entry stack =
     (let ti = current_task k; old_cr3 = cx_cr3 (tk_ctx (tasks k ti)) AND PAGE_MASK;
          k = (if old_cr3 \<noteq> 0 \<and> old_cr3 \<noteq> new_cr3 AND PAGE_MASK \<and> \<not> task_cr3_is_shared k ti
               then on_vm k (\<lambda>v. snd (vmm_user_space_destroy v old_cr3)) else k);
          k = close_on_exec k;
          k = set_task k ti (\<lambda>t. t\<lparr>tk_mmap_next := USER_MMAP_MIN, tk_lazy_mmaps := replicate MAX_LAZY_USER_MMAPS no_area,
                tk_ctx := (tk_ctx t)\<lparr>cx_rax := 0, cx_rsp := stack, cx_rip := entry, cx_rflags := 0x202, cx_cr3 := new_cr3,
                  cx_fs_base := 0, cx_gs_base := 0\<rparr>\<rparr>) in
      k\<lparr>syscall_user_cr3 := new_cr3, syscall_user_rip := entry, syscall_user_rsp := stack, syscall_user_rflags := 0x202,
        syscall_saved_rax := 0, user_exec_pending := True\<rparr>)"

definition sys_execve :: "(string \<Rightarrow> u64 option) \<Rightarrow> kernel \<Rightarrow> u64 \<Rightarrow> u64 \<Rightarrow> u64 \<Rightarrow> int \<times> kernel" where
  "sys_execve boot_size k path argv envp =
     (if syscall_user_cr3 k = 0 then (- EFAULT, k)
      else case vmm_user_activate (vm k) (syscall_user_cr3 k) of (r, v) \<Rightarrow>
      let k = k\<lparr>vm := v\<rparr> in
      if r \<noteq> 0 then (- EFAULT, k)
      else case user_copy_cstr (vm k) (syscall_user_cr3 k) path 128 of (r, kpath) \<Rightarrow>
      if r \<noteq> 0 then (- EFAULT, k)
      else case exec_vector k argv of Inl e \<Rightarrow> (e, k)
      | Inr kargv \<Rightarrow>
      case exec_vector k envp of Inl e \<Rightarrow> (e, k)
      | Inr kenvp \<Rightarrow>
        let kargv = (if kargv \<noteq> [] \<and> hd kargv = [] \<and> kpath \<noteq> [] then kpath # tl kargv else kargv) in
        case kernel_execve_file_args boot_size k kpath kargv kenvp of
          (Inl rc, k) \<Rightarrow> (rc, k)
        | (Inr (entry, stack), k) \<Rightarrow>
          let new_cr3 = vmm_user_cr3 (vm k) in
          if new_cr3 = 0 then (- ENOMEM_K, k)
          else let k = k\<lparr>current_exe := (if kpath = [] then current_exe k else kpath)\<rparr> in
          if \<not> exec_target_valid (vm k) new_cr3 entry stack then (- ENOMEM_K, k)
          else let k = task_init_root k (root_node (vfs_state k)) in
          if current_task k \<ge> MAX_TASKS \<or> \<not> tk_used (cur k) then (-3, k)
          else (0, exec_commit k new_cr3 entry stack))"

end
