(* ===== verification/Tty_Spec.thy ===== *)
theory Tty_Spec
  imports Tty Mmap_Spec
begin

text \<open>
  Correctness of terminals and signals: output reaches the master in order and translated, input
  goes through the line editor, a canonical read returns one line, no reader is left asleep
  while there is something to read, and a signal handler returns to the interrupted program.
\<close>

section \<open>Sleeping and waking\<close>

lemma no_ready_sleeper_wake_all: "no_ready_sleeper (wake_all k)"
  unfolding wake_all_def task_wake_io_waiters_eq by (rule no_ready_sleeper_woken)

text \<open>The parts of the state that the wake-up tests read.\<close>

definition same_tests :: "kernel \<Rightarrow> kernel \<Rightarrow> bool" where
  "same_tests k k' \<longleftrightarrow> fds k' = fds k \<and> key_head k' = key_head k \<and> key_tail k' = key_tail k \<and> console_fg_pgrp k' = console_fg_pgrp k"

lemma same_tests_wake_cond: "same_tests k k' \<Longrightarrow> tasks k' i = tasks k i \<Longrightarrow> wake_cond k' i = wake_cond k i"
  by (rule wake_cond_cong) (simp_all add: same_tests_def)

lemma no_ready_sleeper_task:
  assumes "no_ready_sleeper k" "same_tests k k'" "\<And>j. j \<noteq> i \<Longrightarrow> tasks k' j = tasks k j" "\<not> wake_cond k' i"
  shows "no_ready_sleeper k'"
  unfolding no_ready_sleeper_def
proof (intro allI impI)
  fix j :: nat assume "j < MAX_TASKS"
  then show "\<not> wake_cond k' j"
    using assms same_tests_wake_cond [OF assms(2), of j] by (cases "j = i") (auto simp: no_ready_sleeper_def)
qed

lemma not_blocked_no_wake: "tk_state (tasks k i) \<noteq> TASK_BLOCKED \<Longrightarrow> \<not> wake_cond k i"
  by (simp add: wake_cond_def Let_def)

lemma account_switch_facts:
  "same_tests k (task_account_switch k i)" "j \<noteq> i \<Longrightarrow> tasks (task_account_switch k i) j = tasks k j"
  "tk_state (tasks (task_account_switch k i) i) = tk_state (tasks k i)"
  by (simp_all add: task_account_switch_def same_tests_def)

definition io_inv :: "kernel \<Rightarrow> bool" where
  "io_inv k \<longleftrightarrow> no_ready_sleeper k \<and> terms_ok k"

definition tick_ok :: "(nat \<Rightarrow> kernel \<Rightarrow> kernel) \<Rightarrow> bool" where
  "tick_ok tick \<longleftrightarrow> (\<forall>n k. io_inv k \<longrightarrow> io_inv (tick n k))"

lemma io_inv_task:
  assumes "io_inv k" "same_tests k k'" "\<And>j. j \<noteq> i \<Longrightarrow> tasks k' j = tasks k j" "\<not> wake_cond k' i"
  shows "io_inv k'"
  using assms no_ready_sleeper_task [of k k' i] terms_ok_cong [of k' k] by (auto simp: io_inv_def same_tests_def)

lemma switch_to_keeps:
  assumes "io_inv k"
  shows "io_inv (switch_to k i)"
proof (rule io_inv_task [OF assms, of _ i])
  show "same_tests k (switch_to k i)"
    using account_switch_facts(1) [of "(set_task k i (\<lambda>t. t\<lparr>tk_state := TASK_RUNNING\<rparr>))\<lparr>current_task := i\<rparr>" i]
    by (simp add: switch_to_def Let_def same_tests_def)
  show "tasks (switch_to k i) j = tasks k j" if "j \<noteq> i" for j
    using account_switch_facts(2) [OF that, of "(set_task k i (\<lambda>t. t\<lparr>tk_state := TASK_RUNNING\<rparr>))\<lparr>current_task := i\<rparr>"] that
    by (simp add: switch_to_def Let_def)
  show "\<not> wake_cond (switch_to k i) i"
    using account_switch_facts(3) [of "(set_task k i (\<lambda>t. t\<lparr>tk_state := TASK_RUNNING\<rparr>))\<lparr>current_task := i\<rparr>" i]
    by (intro not_blocked_no_wake) (simp add: switch_to_def Let_def)
qed

lemma idle_end_keeps:
  assumes "io_inv k"
  shows "io_inv ((set_task k ti (\<lambda>t. t\<lparr>tk_state := TASK_RUNNING\<rparr>))\<lparr>current_task := ti, task_switch_target := ti,
             task_switch_pending := True, task_return_ctx := Some ti\<rparr>)"
  by (rule io_inv_task [OF assms, of _ ti]) (simp_all add: same_tests_def not_blocked_no_wake)

lemma idle_loop_keeps:
  assumes "idle_loop tick n ti k = Some k'" "tick_ok tick" "io_inv k"
  shows "io_inv k'"
proof -
  have "tick_ok tick \<longrightarrow> io_inv k \<longrightarrow> io_inv k'"
  proof (rule idle_loop.raw_induct [where P = "\<lambda>tick n ti k k'. tick_ok tick \<longrightarrow> io_inv k \<longrightarrow> io_inv k'", OF _ assms(1)], goal_cases)
    case (1 idle tick n ti k k')
    show ?case
    proof (cases "tk_state (tasks k ti) = TASK_BLOCKED")
      case True
      then have "idle tick (Suc n) ti (tick n k) = Some k'" using 1(2) by simp
      from 1(1) [OF this] show ?thesis by (simp add: tick_ok_def)
    next
      case False
      then show ?thesis using 1(2) by (auto split: option.splits intro: switch_to_keeps idle_end_keeps)
    qed
  qed
  then show ?thesis using assms by simp
qed

text \<open>A task that goes to sleep in a read of a terminal with nothing to read.\<close>

lemma sleep_not_ready:
  assumes d: "wait_desc (fds k) ti (io_sleep k sf IO_WAIT_PTY_READ 0 0 t) = Some f" and p: "fd_private f = Pty i"
    and ty: "fd_type f = FD_PTY_MASTER \<or> fd_type f = FD_PTY_SLAVE" and fd: "\<not> bad_fd (wait_fd (io_sleep k sf IO_WAIT_PTY_READ 0 0 t))"
    and r: "fd_type f = FD_PTY_MASTER \<Longrightarrow> \<not> pty_master_read_ready (pty k i)" "fd_type f = FD_PTY_SLAVE \<Longrightarrow> \<not> pty_slave_read_ready (pty k i)"
  shows "\<not> task_pty_read_ready (fds k) ti (io_sleep k sf IO_WAIT_PTY_READ 0 0 t)"
  using assms by (auto simp: task_pty_read_ready_def pty_def)

lemma io_sleep_sel:
  "tk_io_wait_kind (io_sleep k sf kind nr dl t) = kind" "tk_state (io_sleep k sf kind nr dl t) = TASK_BLOCKED"
  "wait_fd (io_sleep k sf kind nr dl t) = sint (ucast (fr_rdi sf) :: u32)"
  by (simp_all add: io_sleep_def Let_def wait_fd_def task_save_from_frame_def)

lemma block_keeps:
  assumes k: "io_inv k" and tick: "tick_ok tick"
    and nr: "\<not> task_pty_read_ready (fds k) (current_task k) (io_sleep k sf IO_WAIT_PTY_READ 0 0 (tasks k (current_task k)))"
    and b: "task_block_io tick k sf IO_WAIT_PTY_READ 0 = Some (r, k')"
  shows "io_inv k'"
proof -
  let ?ti = "current_task k" let ?k = "set_task k ?ti (io_sleep k sf IO_WAIT_PTY_READ 0 0)"
  have "\<not> wake_cond ?k ?ti" using nr by (simp add: wake_cond_def Let_def io_sleep_sel)
  then have s: "io_inv ?k" by (intro io_inv_task [OF k, of _ ?ti]) (simp_all add: same_tests_def)
  have "k' = k \<or> io_inv k'"
    using b s idle_loop_keeps [OF _ tick s]
    by (auto simp: task_block_io_def task_block_io_until_def Let_def switch_to_keeps split: if_splits option.splits)
  then show ?thesis using k by auto
qed

section \<open>Writes to a terminal\<close>

lemma kmem_on_pty [simp]: "copy_in (on_pty k i f) = copy_in k"
  by (simp add: copy_in_def on_pty_def fun_eq_iff)

lemma kmem_wake_all [simp]: "copy_in (wake_all k) = copy_in k"
  unfolding wake_all_def task_wake_io_waiters_eq by (simp add: copy_in_def woken_def fun_eq_iff)

lemma kmem_set_task [simp]: "copy_in (set_task k i f) = copy_in k"
  by (simp add: copy_in_def set_task_def fun_eq_iff)

lemma kmem_signal_all [simp]: "copy_in (snd (signal_all k P sig)) = copy_in k"
proof -
  have "copy_in (fold (\<lambda>i k. if P (tasks k i) then set_task k i (\<lambda>t. tty_queue_signal t sig) else k) xs k) = copy_in k" for xs
    by (induction xs arbitrary: k) simp_all
  then show ?thesis by (simp add: signal_all_def Let_def)
qed

lemma kmem_pgrp_signal [simp]: "copy_in (snd (tty_pgrp_signal k p sig)) = copy_in k"
  by (simp add: tty_pgrp_signal_def Let_def)

lemma kmem_feed_byte: "copy_in (snd (feed_byte iflag lflag k i c)) = copy_in k"
  by (simp add: feed_byte_def feed_signal_def feed_canon_def feed_raw_def tty_output_def tty_echo_def Let_def del: ring_write.simps split: option.split)

lemma kmem_feed_loop: "copy_in (snd (feed_loop iflag lflag k i cs)) = copy_in k"
proof (induction cs arbitrary: k)
  case (Cons c cs)
  obtain b k1 where e: "feed_byte iflag lflag k i c = (b, k1)" by (rule prod.exhaust)
  then show ?case using Cons [of k1] kmem_feed_byte [of iflag lflag k i c] by (cases b) (auto simp: Let_def split: prod.splits)
qed simp

lemma feed_byte_full:
  assumes "feed_byte iflag lflag k i c = (False, k')" "no_ready_sleeper k"
  shows "no_ready_sleeper k'"
proof -
  have "k' = k \<or> (\<exists>k2. k' = wake_all k2)"
    using assms(1) by (auto simp: feed_byte_def feed_canon_def feed_raw_def Let_def split: option.splits if_splits)
  then show ?thesis using assms(2) no_ready_sleeper_wake_all by auto
qed

lemma feed_none:
  assumes "pty_canon_feed k i cs = (0, k')" "no_ready_sleeper k"
  shows "no_ready_sleeper k'"
proof (cases cs)
  case Nil
  then show ?thesis using assms by (simp add: pty_canon_feed_def)
next
  case (Cons c cs')
  then show ?thesis using assms feed_byte_full by (auto simp: pty_canon_feed_def Let_def split: prod.splits bool.splits)
qed

lemma output_none:
  assumes "pty_ok p" "pty_output_write p cs = (0, p')"
  shows "pt_s2m_count p' = pt_s2m_count p" "same_but_output p p'"
proof -
  note S = pty_output_write_spec [OF assms]
  then have "ring_contents PTY_CAP (s2m p') = ring_contents PTY_CAP (s2m p)" by (simp add: opost_def)
  then have "length (ring_contents PTY_CAP (s2m p')) = length (ring_contents PTY_CAP (s2m p))" by simp
  then show "pt_s2m_count p' = pt_s2m_count p" by (simp add: word_unat_eq_iff)
  show "same_but_output p p'" using S by simp
qed

text \<open>A change of a terminal that makes none of its waiters ready.\<close>

definition no_readier :: "pty_state \<Rightarrow> pty_state \<Rightarrow> bool" where
  "no_readier p p' \<longleftrightarrow> (pty_master_read_ready p' \<longrightarrow> pty_master_read_ready p) \<and> (pty_slave_read_ready p' \<longrightarrow> pty_slave_read_ready p)
     \<and> (pt_s2m_count p' = 0 \<or> \<not> pt_master_open p' \<longrightarrow> pt_s2m_count p = 0 \<or> \<not> pt_master_open p)"

lemma output_none_ready:
  assumes "pty_ok p" "pty_output_write p cs = (0, p')"
  shows "no_readier p p'"
proof -
  obtain q where q: "p' = set_s2m p q" using output_none(2) [OF assms] by (auto simp: same_but_output_def)
  show ?thesis using output_none(1) [OF assms] unfolding q
    by (simp add: no_readier_def pty_master_read_ready_def pty_slave_read_ready_def pty_canon_available_def canon_bytes_def set_s2m_def)
qed

lemma no_readier_sleeper:
  assumes "no_readier (pty k i) p" "no_ready_sleeper k"
  shows "no_ready_sleeper (on_pty k i (\<lambda>_. p))"
proof -
  let ?k = "on_pty k i (\<lambda>_. p)"
  have d: "wait_desc (fds ?k) j t = wait_desc (fds k) j t" for j t
    by (simp add: wait_desc_def on_pty_def set_pty_def task_files_for_task_def desc_def split: option.split)
  have r: "task_pty_read_ready (fds ?k) j t \<Longrightarrow> task_pty_read_ready (fds k) j t" for j t
    unfolding task_pty_read_ready_def d using assms(1)
    by (auto simp: no_readier_def on_pty_def set_pty_def pty_def split: option.splits private_data.splits if_splits)
  have dr: "task_pty_drain_ready (fds ?k) j t \<Longrightarrow> task_pty_drain_ready (fds k) j t" for j t
    unfolding task_pty_drain_ready_def d using assms(1)
    by (auto simp: no_readier_def on_pty_def set_pty_def pty_def split: option.splits private_data.splits if_splits)
  have so: "task_socket_wait_ready (fds ?k) j t = task_socket_wait_ready (fds k) j t" for j t
    unfolding task_socket_wait_ready_def d by (simp add: on_pty_def set_pty_def split: option.split private_data.split)
  have "wake_cond k j" if "wake_cond ?k j" for j
    using that r [of j "tasks k j"] dr [of j "tasks k j"] unfolding wake_cond_def so by (simp add: on_pty_def Let_def)
  then show ?thesis using assms(2) unfolding no_ready_sleeper_def by blast
qed

text \<open>
  The write loop on readable memory: no early return, and when it takes nothing no task
  becomes ready.
\<close>

lemma pty_write_loop_readable:
  assumes "pty_write_loop k master i buf len done = (e, d, k')" "terms_ok k"
    and "\<And>j. j < len \<Longrightarrow> copy_in k (buf + of_nat j) (min 256 (len - j)) \<noteq> None"
  shows "e = None \<and> done \<le> d \<and> (d = done \<longrightarrow> no_ready_sleeper k \<longrightarrow> no_ready_sleeper k')"
  using assms
proof (induction k master i buf len "done" rule: pty_write_loop.induct)
  case (1 k master i buf len "done")
  show ?case
  proof (cases "done \<ge> len")
    case True
    then show ?thesis using 1(2) by (subst (asm) pty_write_loop.simps) simp
  next
    case False
    let ?n = "min 256 (len - done)"
    obtain tmp where c: "copy_in k (buf + of_nat done) ?n = Some tmp" using 1(4) [of "done"] False by auto
    obtain w k1 where p: "(if master then pty_canon_feed k i tmp
        else let (w, p) = pty_output_write (pty k i) tmp in (w, on_pty k i (\<lambda>_. p))) = (w, k1)" by (rule prod.exhaust)
    have ok: "terms_ok k1" by (rule write_piece_ok [OF 1(3) p])
    have mem: "copy_in k1 = copy_in k"
    proof (cases master)
      case True
      then have "k1 = snd (pty_canon_feed k i tmp)" using p by simp
      then show ?thesis by (simp add: pty_canon_feed_def kmem_feed_loop)
    qed (use p in \<open>auto simp: Let_def split: prod.splits\<close>)
    have z: "no_ready_sleeper k1" if "w = 0" "no_ready_sleeper k"
    proof (cases master)
      case True
      then show ?thesis using p feed_none [of k i tmp k1] that by simp
    next
      case False
      then obtain q where "pty_output_write (pty k i) tmp = (w, q)" and q2: "k1 = on_pty k i (\<lambda>_. q)"
        using p by (auto simp: Let_def split: prod.splits)
      then have q: "pty_output_write (pty k i) tmp = (0, q)" using that(1) by simp
      show ?thesis unfolding q2 by (rule no_readier_sleeper [OF output_none_ready [OF terms_ok_pty [OF 1(3)] q] that(2)])
    qed
    have e: "pty_write_loop k master i buf len done = (if w < ?n then (None, done + w, k1) else pty_write_loop k1 master i buf len (done + w))"
      using False c p by (subst pty_write_loop.simps) (simp add: Let_def)
    show ?thesis
    proof (cases "w < ?n")
      case True
      then show ?thesis using 1(2) e z by auto
    next
      case F: False
      then have w: "w \<noteq> 0" using False by auto
      have r: "pty_write_loop k1 master i buf len (done + w) = (e, d, k')" using 1(2) unfolding e if_not_P [OF F] .
      have "e = None \<and> done + w \<le> d"
        using 1(1) [OF False refl c p [symmetric] refl F r ok] 1(4) unfolding mem by blast
      then show ?thesis using w by auto
    qed
  qed
qed

lemma write_checks_pos: "write_checks k fd buf len = None \<Longrightarrow> len \<noteq> 0"
  by (auto simp: write_checks_def split: if_splits)

lemma write_pty_keeps:
  assumes w: "write_pty k f buf len = (r, k')" and k: "io_inv k"
    and m: "\<And>j. j < unat len \<Longrightarrow> copy_in k (buf + of_nat j) (min 256 (unat len - j)) \<noteq> None"
  shows "io_inv k'"
proof (cases "fd_private f")
  case (Pty i)
  obtain e d k1 where l: "pty_write_loop k (fd_type f = FD_PTY_MASTER) i buf (unat len) 0 = (e, d, k1)" by (metis prod_cases3)
  have ok: "terms_ok k" "no_ready_sleeper k" using k by (simp_all add: io_inv_def)
  from pty_write_loop_readable [OF l ok(1) m] have e: "e = None" and L: "d = 0 \<Longrightarrow> no_ready_sleeper k1" using ok(2) by blast+
  have t: "terms_ok k1" using pty_write_loop_ok [OF ok(1), of "fd_type f = FD_PTY_MASTER" i buf "unat len" 0] unfolding l by simp
  have "write_pty k f buf len =
      (if fd_type f = FD_PTY_MASTER \<and> \<not> pt_slave_open (pty k i) \<or> fd_type f \<noteq> FD_PTY_MASTER \<and> \<not> pt_master_open (pty k i) then (- EPIPE, k)
       else (int d, if d \<noteq> 0 then wake_all k1 else k1))"
    unfolding write_pty_def Pty private_data.case Let_def l e by simp
  then have "k' = k \<or> k' = wake_all k1 \<or> (d = 0 \<and> k' = k1)" using w by (simp split: if_splits)
  moreover have "io_inv (wake_all k1)" using t terms_ok_cong [OF fds_wake_all] no_ready_sleeper_wake_all by (simp add: io_inv_def)
  ultimately show ?thesis using L k t unfolding io_inv_def by blast
qed (use w k in \<open>auto simp: write_pty_def\<close>)

lemma copy_out_same_tests: "copy_out k a bs = (ok, k') \<Longrightarrow> same_tests k k' \<and> tasks k' = tasks k"
proof -
  obtain r v where "user_copy_to (vm k) (syscall_user_cr3 k) a bs = (r, v)" by (rule prod.exhaust)
  then have "copy_out k a bs = (r = 0, k\<lparr>vm := v\<rparr>)" by (simp add: copy_out_def)
  then show "copy_out k a bs = (ok, k') \<Longrightarrow> same_tests k k' \<and> tasks k' = tasks k" by (simp add: same_tests_def) auto
qed

text \<open>Reading makes no terminal ready for its readers.\<close>

lemma take_nothing_ready:
  assumes p: "pty_ok p" and t: "pty_take p master n = Inr ([], p')" and n: "n \<noteq> 0"
  shows "no_readier p p'"
proof -
  have m: "\<not> master"
  proof
    assume m: "master"
    then have "pt_s2m_count p \<noteq> 0" "pty_master_read p n = ([], p')" using t by (auto simp: pty_take_def split: if_splits)
    then have "take n (ring_contents PTY_CAP (s2m p)) = []" "length (ring_contents PTY_CAP (s2m p)) \<noteq> 0"
      using pty_master_read_spec [OF p] by (auto simp: unat_eq_zero)
    then show False using n by auto
  qed
  have raw: "pty_raw_read p n \<noteq> ([], p')" if "pt_m2s_count p \<noteq> 0"
  proof
    assume "pty_raw_read p n = ([], p')"
    then have "fst (ring_read PTY_CAP (m2s p) n) = []" by (auto simp: pty_raw_read_def split: prod.splits)
    moreover have "rg_n (m2s p) \<noteq> 0" using that by simp
    ultimately show False using n by (cases n) (auto split: prod.splits)
  qed
  then have c: "pty_canon_read p n = ([], p')" "tty_lflag (pt_termios p) AND ICANON \<noteq> 0" "pty_canon_available p \<or> \<not> pt_master_open p"
    using t m by (auto simp: pty_take_def split: if_splits)
  have f: "pt_s2m_count p' = pt_s2m_count p \<and> pt_master_open p' = pt_master_open p \<and> pt_slave_open p' = pt_slave_open p
      \<and> pt_output_stopped p' = pt_output_stopped p"
    using c(1) by (auto simp: pty_canon_read_def split: prod.splits)
  have "pty_slave_read_ready p" using c(2,3) by (auto simp: pty_slave_read_ready_def tty_lflag_def)
  then show ?thesis using f by (simp add: no_readier_def pty_master_read_ready_def)
qed

lemma read_pty_keeps:
  assumes f: "files k fd = f" "fd_private f = Pty i" "fd_type f = FD_PTY_MASTER \<or> fd_type f = FD_PTY_SLAVE"
    and t: "task_files_for_task (fds k) (current_task k) \<noteq> None" and sf: "sint (ucast (fr_rdi sf) :: u32) = fd"
    and o: "pt_slave_open (pty k i) \<or> \<not> pt_output_stopped (pty k i)"
    and k: "io_inv k" and tick: "tick_ok tick"
    and r: "sys_read_pty tick k sf fd buf len = Some (r, k')" "r \<noteq> - EFAULT"
  shows "io_inv k'"
proof (cases "bad_fd fd \<or> \<not> fd_in_use f \<or> buf = 0 \<and> len \<noteq> 0 \<or> len \<noteq> 0 \<and> \<not> vmm_user_range_ok (vm k) buf len True \<or> len = 0")
  case True
  then have "k' = k" using r(1) f by (auto simp: sys_read_pty_def Let_def split: if_splits)
  then show ?thesis using k by simp
next
  case False
  let ?take = "pty_take (pty k i) (fd_type f = FD_PTY_MASTER) (min 256 (unat len))"
  have n0: "min 256 (unat len) \<noteq> 0" using False by (simp add: unat_gt_0)
  note R = r(1) [unfolded sys_read_pty_def f(1)]
  show ?thesis
  proof (cases ?take)
    case (Inl e)
    show ?thesis
    proof (cases "e = None \<and> fd_flags f AND 0x800 = 0")
      case True
      let ?s = "io_sleep k sf IO_WAIT_PTY_READ 0 0 (tasks k (current_task k))"
      obtain r' where b: "task_block_io tick k sf IO_WAIT_PTY_READ 0 = Some (r', k')"
        using R False Inl True f(2) by (auto simp: Let_def split: if_splits)
      have w: "wait_fd ?s = fd" using sf by (simp add: io_sleep_sel)
      have "desc (fds k) (nat (task_fd_table_id (fds k) (current_task k)), nat fd) = f"
        using f(1) t by (auto simp: files_def current_files_def task_files_for_task_def split: if_splits)
      then have d: "wait_desc (fds k) (current_task k) ?s = Some f"
        using t False unfolding wait_desc_def w by (auto simp: task_files_for_task_def Let_def split: if_splits)
      have "\<not> task_pty_read_ready (fds k) (current_task k) ?s"
        by (rule sleep_not_ready [OF d f(2,3)]) (use w False Inl True pty_take_waits [of "pty k i" "min 256 (unat len)"] o in auto)
      then show ?thesis by (rule block_keeps [OF k tick _ b])
    next
      case F: False
      then have "k' = k" using R False Inl f(2) by (cases e) (auto simp: Let_def split: if_splits)
      then show ?thesis using k by simp
    qed
  next
    case (Inr bp)
    obtain bs p' where bp: "bp = (bs, p')" by (rule prod.exhaust)
    have P: "pty_ok (pty k i)" and S: "no_ready_sleeper k" using k terms_ok_pty by (auto simp: io_inv_def)
    have T: "terms_ok (on_pty k i (\<lambda>_. p'))"
      using pty_take_ok [OF P Inr [unfolded bp]] k by (intro terms_ok_on_pty) (simp_all add: io_inv_def)
    show ?thesis
    proof (cases "bs = []")
      case True
      then have "k' = on_pty k i (\<lambda>_. p')" using R False Inr f(2) bp by (auto simp: Let_def)
      then show ?thesis using no_readier_sleeper [OF take_nothing_ready [OF P Inr [unfolded bp True] n0] S] T by (simp add: io_inv_def)
    next
      case F: False
      obtain ok k2 where c: "copy_out (on_pty k i (\<lambda>_. p')) buf bs = (ok, k2)" by (rule prod.exhaust)
      have "k' = wake_all k2" using R False Inr f(2) bp F c r(2) by (auto simp: Let_def split: if_splits)
      moreover have "terms_ok (wake_all k2)" using T terms_ok_cong [OF fds_wake_all] terms_ok_cong [of k2] copy_out_same_tests [OF c] by (simp add: same_tests_def)
      ultimately show ?thesis using no_ready_sleeper_wake_all by (simp add: io_inv_def)
    qed
  qed
qed

section \<open>The line editor\<close>

text \<open>
  What a byte typed at the master means, from the bytes of the settings: the input flags are the bytes 0 to 3
  (\<^verbatim>\<open>INLCR\<close> and \<^verbatim>\<open>IGNCR\<close> are bits 6 and 7, \<^verbatim>\<open>ICRNL\<close> and
  \<^verbatim>\<open>IXON\<close> bits 8 and 10), the local flags the bytes 12 to 15 (\<^verbatim>\<open>ISIG\<close>,
  \<^verbatim>\<open>ICANON\<close> and \<^verbatim>\<open>NOFLSH\<close> are bits 0, 1 and 7), and the control characters follow from
  byte 17 on: interrupt, quit, erase, kill, end of file, and start, stop and suspend at 8 to 10. A control
  character 0 is switched off.
\<close>

datatype key = Insert u8 | Raw u8 | Erase | Kill | Sig int | Flow

definition key_of :: "termios \<Rightarrow> u8 \<Rightarrow> key" where
  "key_of t c =
     (if c \<noteq> 0 \<and> bit (t 1) 2 \<and> (c = t 25 \<or> c = t 26) then Flow
      else if c \<noteq> 0 \<and> bit (t 12) 0 \<and> c = t 17 then Sig 2
      else if c \<noteq> 0 \<and> bit (t 12) 0 \<and> c = t 18 then Sig 3
      else if c \<noteq> 0 \<and> bit (t 12) 0 \<and> c = t 27 then Sig 20
      else if \<not> bit (t 12) 1 then Raw c
      else if c \<noteq> 0 \<and> c = t 19 then Erase
      else if c \<noteq> 0 \<and> c = t 20 then Kill
      else Insert c)"

definition typed_keys :: "termios \<Rightarrow> u8 \<Rightarrow> key list" where
  "typed_keys t b =
     (if b = 13 \<and> bit (t 0) 7 then []
      else [key_of t (if b = 13 \<and> bit (t 1) 0 then 10 else if b = 10 \<and> bit (t 0) 6 then 13 else b)])"

text \<open>The line of canonical mode, and the bytes that are handed on at once otherwise.\<close>

fun edit_line :: "termios \<Rightarrow> key \<Rightarrow> u8 list \<Rightarrow> u8 list" where
  "edit_line t (Insert c) l = l @ [c]"
| "edit_line t Erase l = butlast l"
| "edit_line t Kill l = []"
| "edit_line t (Sig s) l = (if bit (t 12) 7 then l else [])"
| "edit_line t _ l = l"

fun edit_raw :: "termios \<Rightarrow> key \<Rightarrow> u8 list \<Rightarrow> u8 list" where
  "edit_raw t (Raw c) q = q @ [c]"
| "edit_raw t (Sig s) q = (if bit (t 12) 7 then q else [])"
| "edit_raw t _ q = q"

text \<open>The signals that wait for a task of the foreground group.\<close>

fun edit_pending :: "(int \<Rightarrow> bool) \<Rightarrow> key \<Rightarrow> int set \<Rightarrow> int set" where
  "edit_pending ign (Sig s) P = (if ign s then P - {s} else insert s P)"
| "edit_pending ign _ P = P"

definition foreground :: "kernel \<Rightarrow> nat \<Rightarrow> nat \<Rightarrow> bool" where
  "foreground k i j \<longleftrightarrow> j < MAX_TASKS \<and> tk_used (tasks k j) \<and> pt_fg_pgrp (pty k i) \<noteq> 0 \<and> tk_pgrp (tasks k j) = pt_fg_pgrp (pty k i)
     \<and> (pt_session (pty k i) > 0 \<longrightarrow> tk_session (tasks k j) = pt_session (pty k i))"

definition raw_queue :: "kernel \<Rightarrow> nat \<Rightarrow> u8 list" where
  "raw_queue k i = ring_contents PTY_CAP (m2s (pty k i))"

definition ignores :: "task \<Rightarrow> int \<Rightarrow> bool" where
  "ignores t s \<longleftrightarrow> sa_handler (tk_sig_actions t (nat s)) = 1"

subsection \<open>Settings\<close>

lemma and_bit: "x AND push_bit n 1 \<noteq> 0 \<longleftrightarrow> bit x n" for x :: u32
  by (simp add: bit_iff_and_push_bit_not_eq_0)

lemma bit_word_at: "n < 8 \<Longrightarrow> bit (word_at t i) n \<longleftrightarrow> bit (t i) n" "n < 8 \<Longrightarrow> bit (word_at t i) (8 + n) \<longleftrightarrow> bit (t (i + 1)) n"
proof -
  have h: "\<not> bit (x :: u8) m" if "8 \<le> m" for x m using that bit_imp_le_length [of x m] by auto
  show "n < 8 \<Longrightarrow> bit (word_at t i) n \<longleftrightarrow> bit (t i) n" "n < 8 \<Longrightarrow> bit (word_at t i) (8 + n) \<longleftrightarrow> bit (t (i + 1)) n"
    by (auto simp: word_at_def bit_or_iff bit_push_bit_iff bit_ucast_iff h)
qed

lemma flags_bits:
  "tty_iflag t AND INLCR \<noteq> 0 \<longleftrightarrow> bit (t 0) 6" "tty_iflag t AND IGNCR \<noteq> 0 \<longleftrightarrow> bit (t 0) 7"
  "tty_iflag t AND ICRNL \<noteq> 0 \<longleftrightarrow> bit (t 1) 0" "tty_iflag t AND IXON \<noteq> 0 \<longleftrightarrow> bit (t 1) 2"
  "tty_lflag t AND ISIG \<noteq> 0 \<longleftrightarrow> bit (t 12) 0" "tty_lflag t AND ICANON \<noteq> 0 \<longleftrightarrow> bit (t 12) 1" "tty_lflag t AND NOFLSH \<noteq> 0 \<longleftrightarrow> bit (t 12) 7"
  using and_bit [of "word_at t 0" 6] and_bit [of "word_at t 0" 7] and_bit [of "word_at t 0" 8] and_bit [of "word_at t 0" 10]
    and_bit [of "word_at t 12" 0] and_bit [of "word_at t 12" 1] and_bit [of "word_at t 12" 7]
    bit_word_at(1) [of 6 t 0] bit_word_at(1) [of 7 t 0] bit_word_at(2) [of 0 t 0] bit_word_at(2) [of 2 t 0]
    bit_word_at(1) [of 0 t 12] bit_word_at(1) [of 1 t 12] bit_word_at(1) [of 7 t 12]
  by (simp_all add: tty_iflag_def tty_lflag_def)

lemma cc_bytes:
  "tty_cc_match t VINTR c \<longleftrightarrow> c \<noteq> 0 \<and> c = t 17" "tty_cc_match t VQUIT c \<longleftrightarrow> c \<noteq> 0 \<and> c = t 18" "tty_cc_match t VSUSP c \<longleftrightarrow> c \<noteq> 0 \<and> c = t 27"
  "tty_cc_match t VERASE c \<longleftrightarrow> c \<noteq> 0 \<and> c = t 19" "tty_cc_match t VKILL c \<longleftrightarrow> c \<noteq> 0 \<and> c = t 20"
  "tty_cc_match t VSTART c \<longleftrightarrow> c \<noteq> 0 \<and> c = t 25" "tty_cc_match t VSTOP c \<longleftrightarrow> c \<noteq> 0 \<and> c = t 26"
  by (auto simp: tty_cc_match_def tty_cc_def Let_def)

lemma typed_map_input:
  "typed_keys t b = (case map_input (tty_iflag t) b of None \<Rightarrow> [] | Some c \<Rightarrow> [key_of t c])"
  using flags_bits(1-3) [of t] by (auto simp: typed_keys_def map_input_def)

lemma key_cases:
  obtains (flow) "tty_iflag t AND IXON \<noteq> 0 \<and> (tty_cc_match t VSTOP c \<or> tty_cc_match t VSTART c)" "key_of t c = Flow"
  | (sig) "\<not> (tty_iflag t AND IXON \<noteq> 0 \<and> (tty_cc_match t VSTOP c \<or> tty_cc_match t VSTART c))"
      "input_signal (tty_lflag t) t c \<noteq> 0" "key_of t c = Sig (input_signal (tty_lflag t) t c)" "input_signal (tty_lflag t) t c \<in> {2, 3, 20}"
  | (canon) "\<not> (tty_iflag t AND IXON \<noteq> 0 \<and> (tty_cc_match t VSTOP c \<or> tty_cc_match t VSTART c))" "input_signal (tty_lflag t) t c = 0"
      "tty_lflag t AND ICANON \<noteq> 0" "key_of t c = (if tty_cc_match t VERASE c then Erase else if tty_cc_match t VKILL c then Kill else Insert c)"
  | (raw) "\<not> (tty_iflag t AND IXON \<noteq> 0 \<and> (tty_cc_match t VSTOP c \<or> tty_cc_match t VSTART c))" "input_signal (tty_lflag t) t c = 0"
      "tty_lflag t AND ICANON = 0" "key_of t c = Raw c"
proof -
  have i: "bit (t 1) 2 \<longleftrightarrow> tty_iflag t AND IXON \<noteq> 0" "bit (t 12) 0 \<longleftrightarrow> tty_lflag t AND ISIG \<noteq> 0" "bit (t 12) 1 \<longleftrightarrow> tty_lflag t AND ICANON \<noteq> 0"
    using flags_bits [of t] by blast+
  have K: "key_of t c =
     (if tty_iflag t AND IXON \<noteq> 0 \<and> (tty_cc_match t VSTOP c \<or> tty_cc_match t VSTART c) then Flow
      else if input_signal (tty_lflag t) t c \<noteq> 0 then Sig (input_signal (tty_lflag t) t c)
      else if tty_lflag t AND ICANON = 0 then Raw c
      else if tty_cc_match t VERASE c then Erase else if tty_cc_match t VKILL c then Kill else Insert c)"
    unfolding key_of_def i cc_bytes input_signal_def by auto
  have "input_signal (tty_lflag t) t c \<in> {0, 2, 3, 20}" by (auto simp: input_signal_def)
  then show thesis using that K by (auto split: if_splits)
qed

lemma edit_typed: "edit (tty_iflag t) (tty_lflag t) t c l = fold (edit_line t) (typed_keys t c) l"
proof (cases "map_input (tty_iflag t) c")
  case None
  then show ?thesis by (simp add: edit_def typed_map_input)
next
  case (Some c')
  have n: "bit (t 12) 7 \<longleftrightarrow> tty_lflag t AND NOFLSH \<noteq> 0" using flags_bits(7) by blast
  show ?thesis
    by (cases rule: key_cases [of t c']) (auto simp: Some edit_def typed_map_input n)
qed

lemma edit_typed_list: "fold (edit (tty_iflag t) (tty_lflag t) t) cs l = fold (edit_line t) (concat (map (typed_keys t) cs)) l"
  by (induction cs arbitrary: l) (simp_all add: edit_typed)

subsection \<open>Tasks and the queue\<close>

lemma signal_fold_tasks:
  "distinct xs \<Longrightarrow> tasks (fold (\<lambda>i k. if P (tasks k i) then set_task k i (\<lambda>t. tty_queue_signal t sig) else k) xs k) j =
     (if j \<in> set xs \<and> P (tasks k j) then tty_queue_signal (tasks k j) sig else tasks k j)"
  by (induction xs arbitrary: k) (auto simp: set_task_def)

lemma signal_all_tasks:
  "tasks (snd (signal_all k P sig)) j = (if j < MAX_TASKS \<and> P (tasks k j) then tty_queue_signal (tasks k j) sig else tasks k j)"
  unfolding signal_all_def Let_def snd_conv signal_fold_tasks [OF distinct_upt] by simp

lemma pgrp_signal_tasks:
  "tasks (snd (tty_pgrp_signal k (pty k i) sig)) j = (if foreground k i j then tty_queue_signal (tasks k j) sig else tasks k j)"
  by (auto simp: tty_pgrp_signal_def Let_def signal_all_tasks foreground_def)

lemma queue_signal_pending:
  assumes "sig \<in> {2, 3, 20}"
  shows "pending (tty_queue_signal t sig) = edit_pending (ignores t) (Sig sig) (pending t)"
proof -
  have v: "sig_valid sig" using assms by (auto simp: sig_valid_def)
  have i: "ignored (sa_handler (tk_sig_actions t (nat sig))) sig \<longleftrightarrow> ignores t sig"
    using assms by (auto simp: ignored_def ignores_def)
  have p: "pending (t'\<lparr>tk_ctx := a, tk_state := b\<rparr>) = pending t'" for t' a b by (simp add: pending_def sig_is_pending_def)
  have q: "pending (tty_queue_signal t sig) = pending (snd (sig_pending_set t sig))" if "\<not> ignores t sig"
    using that i assms by (auto simp: tty_queue_signal_def Let_def interrupt_ctx_def pending_def sig_is_pending_def)
  show ?thesis
  proof (cases "ignores t sig")
    case True
    then show ?thesis using i pending_clear [OF v] assms by (auto simp: tty_queue_signal_def)
  next
    case False
    then show ?thesis using q pending_set [OF v] by simp
  qed
qed

text \<open>What decides who is signalled.\<close>

definition same_people :: "kernel \<Rightarrow> kernel \<Rightarrow> bool" where
  "same_people k k' \<longleftrightarrow> (\<forall>j. tk_used (tasks k' j) = tk_used (tasks k j) \<and> tk_pgrp (tasks k' j) = tk_pgrp (tasks k j)
     \<and> tk_session (tasks k' j) = tk_session (tasks k j) \<and> tk_sig_actions (tasks k' j) = tk_sig_actions (tasks k j))
     \<and> (\<forall>i. pt_fg_pgrp (pty k' i) = pt_fg_pgrp (pty k i) \<and> pt_session (pty k' i) = pt_session (pty k i))"

lemma same_people_refl [simp]: "same_people k k" by (simp add: same_people_def)
lemma same_people_trans: "same_people k k' \<Longrightarrow> same_people k' k'' \<Longrightarrow> same_people k k''" by (simp add: same_people_def)

lemma same_people_spec: "same_people k k' \<Longrightarrow> foreground k' i = foreground k i \<and> ignores (tasks k' j) = ignores (tasks k j)"
  by (simp add: same_people_def foreground_def ignores_def fun_eq_iff)

lemma queue_signal_same:
  "tk_used (tty_queue_signal t sig) = tk_used t" "tk_pgrp (tty_queue_signal t sig) = tk_pgrp t" "tk_session (tty_queue_signal t sig) = tk_session t"
  "tk_sig_actions (tty_queue_signal t sig) = tk_sig_actions t"
  by (simp_all add: tty_queue_signal_def Let_def interrupt_ctx_def sig_clear_pending_def sig_pending_set_def)

text \<open>A state that differs in nothing that the editor is about.\<close>

definition inert :: "nat \<Rightarrow> kernel \<Rightarrow> kernel \<Rightarrow> bool" where
  "inert i k k' \<longleftrightarrow> same_people k k' \<and> raw_queue k' i = raw_queue k i \<and> (\<forall>j. pending (tasks k' j) = pending (tasks k j))"

lemma inert_refl [simp]: "inert i k k" by (simp add: inert_def)
lemma inert_trans: "inert i k k' \<Longrightarrow> inert i k' k'' \<Longrightarrow> inert i k k''" using same_people_trans by (simp add: inert_def) blast

lemma tasks_on_pty [simp]: "tasks (on_pty k i f) = tasks k" by (simp add: on_pty_def)

lemma inert_on_pty:
  assumes "m2s (f (pty k i)) = m2s (pty k i)" "pt_fg_pgrp (f (pty k i)) = pt_fg_pgrp (pty k i)" "pt_session (f (pty k i)) = pt_session (pty k i)"
  shows "inert i k (on_pty k i f)"
  using assms by (simp add: inert_def same_people_def raw_queue_def pty_on_pty)


lemma inert_output: "inert i k (tty_output k i bs)"
  unfolding tty_output_def using pty_output_write_same [of "pty k i" bs]
  by (intro inert_on_pty) (auto simp: same_but_output_def set_s2m_def m2s_def)

lemma inert_echo: "inert i k (tty_echo k i c l)"
  unfolding tty_echo_def using pty_echo_char_same [of "pty k i" c l]
  by (intro inert_on_pty) (auto simp: same_but_output_def set_s2m_def m2s_def)

lemma inert_stop: "inert i k (on_pty k i (\<lambda>p. p\<lparr>pt_output_stopped := b\<rparr>))"
  by (rule inert_on_pty) (simp_all add: m2s_def)

lemma wake_task_same:
  "tk_used (wake_task t) = tk_used t" "tk_pgrp (wake_task t) = tk_pgrp t" "tk_session (wake_task t) = tk_session t"
  "tk_sig_actions (wake_task t) = tk_sig_actions t" "pending (wake_task t) = pending t"
  by (simp_all add: wake_task_def Let_def pending_def sig_is_pending_def)

lemma inert_wake: "inert i k (wake_all k)"
  unfolding wake_all_def task_wake_io_waiters_eq
  by (simp add: inert_def same_people_def woken_def wake_task_same raw_queue_def pty_def)

lemmas inert_intros = inert_output inert_echo inert_stop inert_wake

lemma inert_after: "inert i k k' \<Longrightarrow> inert i k (tty_output k' i bs)" "inert i k k' \<Longrightarrow> inert i k (tty_echo k' i c l)"
  by (blast intro: inert_trans inert_intros)+

text \<open>The effect of a list of keys on the queue and on the signals.\<close>

definition edited :: "termios \<Rightarrow> nat \<Rightarrow> key list \<Rightarrow> kernel \<Rightarrow> kernel \<Rightarrow> bool" where
  "edited t i ks k k' \<longleftrightarrow> same_people k k' \<and> raw_queue k' i = fold (edit_raw t) ks (raw_queue k i)
     \<and> (\<forall>j. pending (tasks k' j) =
          (if foreground k i j then fold (edit_pending (ignores (tasks k j))) ks (pending (tasks k j)) else pending (tasks k j)))"

lemma edited_Nil [simp]: "edited t i [] k k' \<longleftrightarrow> inert i k k'"
  by (simp add: edited_def inert_def)

lemma edited_append:
  assumes "edited t i ks k k'" "edited t i ks' k' k''"
  shows "edited t i (ks @ ks') k k''"
proof -
  have s: "same_people k k'" "same_people k' k''" using assms by (simp_all add: edited_def)
  show ?thesis using assms same_people_trans [OF s] same_people_spec [OF s(1)] by (simp add: edited_def)
qed

lemma edited_inert: "inert i k k' \<Longrightarrow> edited t i ks k' k'' \<Longrightarrow> edited t i ks k k''" "edited t i ks k k' \<Longrightarrow> inert i k' k'' \<Longrightarrow> edited t i ks k k''"
  using edited_append [of t i "[]" k k' ks k''] edited_append [of t i ks k k' "[]" k''] by simp_all

lemma edited_ignored: "ks = [Insert c] \<or> ks = [Erase] \<or> ks = [Kill] \<or> ks = [Flow] \<Longrightarrow> inert i k k' \<Longrightarrow> edited t i ks k k'"
  by (auto simp: edited_def inert_def)

lemma feed_signal_edited:
  assumes "sig \<in> {2, 3, 20}"
  shows "edited (settings k i) i [Sig sig] k (feed_signal (tty_lflag (settings k i)) k i c sig)"
proof -
  let ?l = "tty_lflag (settings k i)"
  let ?f = "\<lambda>p. (pty_flush_output (pty_flush_input p))\<lparr>pt_output_stopped := False\<rparr>"
  define k1 where "k1 = (if ?l AND NOFLSH = 0 then on_pty k i ?f else k)"
  define k2 where "k2 = tty_echo k1 i c ?l"
  define k3 where "k3 = snd (tty_pgrp_signal k2 (pty k2 i) sig)"
  have b: "bit (settings k i 12) 7 \<longleftrightarrow> ?l AND NOFLSH \<noteq> 0" using flags_bits(7) by blast
  have k1: "same_people k k1" "raw_queue k1 i = edit_raw (settings k i) (Sig sig) (raw_queue k i)" "tasks k1 = tasks k"
    by (simp_all add: k1_def b same_people_def raw_queue_def pty_on_pty pty_flush_output_def pty_flush_input_def ring_contents_def m2s_def)
  have k2: "inert i k1 k2" unfolding k2_def by (rule inert_echo)
  have s: "same_people k k2" using k1(1) k2 same_people_trans by (auto simp: inert_def)
  have k3: "same_people k2 k3" unfolding k3_def same_people_def pgrp_signal_tasks by (simp add: queue_signal_same)
  have "edited (settings k i) i [Sig sig] k k3"
    using k1 k2 s same_people_trans [OF s k3] same_people_spec [OF s]
    by (simp add: edited_def inert_def k3_def pgrp_signal_tasks queue_signal_pending [OF assms] raw_queue_def)
  moreover have "feed_signal ?l k i c sig = (if ?l AND ECHO \<noteq> 0 \<and> ?l AND ECHOCTL \<noteq> 0 then tty_output k3 i [LF] else k3)"
    by (simp add: feed_signal_def Let_def k1_def k2_def k3_def)
  ultimately show ?thesis using edited_inert(2) [OF _ inert_output] by simp
qed

lemma feed_canon_inert: "feed_canon l k i c = (b, k') \<Longrightarrow> inert i k k'"
proof -
  have "inert i k (on_pty k i (\<lambda>p. p\<lparr>pt_canon_count := pt_canon_count p - 1\<rparr>))" "inert i k (on_pty k i (\<lambda>p. p\<lparr>pt_canon_count := 0\<rparr>))"
    "inert i k (on_pty k i (\<lambda>p. push_canon p c))" by (rule inert_on_pty; simp add: m2s_def push_canon_def)+
  then show "feed_canon l k i c = (b, k') \<Longrightarrow> inert i k k'"
    by (auto simp: feed_canon_def Let_def split: if_splits intro: inert_after)
qed

lemma feed_raw_edited:
  assumes k: "terms_ok k" and f: "feed_raw l k i c = (b, k')"
  shows "b \<Longrightarrow> edited t i [Raw c] k k'" "\<not> b \<Longrightarrow> k' = k \<and> length (raw_queue k i) = 65536"
proof -
  let ?g = "\<lambda>p. set_m2s p (snd (ring_write PTY_CAP (m2s p) [c]))"
  have ok: "ring_ok PTY_CAP (m2s (pty k i))" using terms_ok_pty [OF k, of i] by (simp add: pty_ok_def)
  note W = ring_write_spec [OF ok prod.collapse [symmetric], of "[c]"]
  have len: "length (raw_queue k i) = unat (pt_m2s_count (pty k i))" by (simp add: raw_queue_def)
  have le: "unat (pt_m2s_count (pty k i)) \<le> 65536" using ok by (simp add: ring_ok_def word_le_nat_alt)
  show "\<not> b \<Longrightarrow> k' = k \<and> length (raw_queue k i) = 65536"
    using f le len by (auto simp: feed_raw_def word_le_nat_alt split: if_splits simp del: ring_write.simps)
  assume b: "b"
  then have lt: "unat (pt_m2s_count (pty k i)) < 65536" and k': "k' = tty_echo (on_pty k i ?g) i c l"
    using f by (auto simp: feed_raw_def word_le_nat_alt not_le split: if_splits simp del: ring_write.simps)
  have "edited t i [Raw c] k (on_pty k i ?g)"
    using W lt by (simp add: edited_def same_people_def raw_queue_def pty_on_pty set_m2s_def [of "pty k i", THEN arg_cong [of _ _ pt_fg_pgrp]]
        set_m2s_def [of "pty k i", THEN arg_cong [of _ _ pt_session]] del: ring_write.simps)
  then show "edited t i [Raw c] k k'" unfolding k' by (rule edited_inert(2) [OF _ inert_echo])
qed

lemma feed_byte_edited:
  assumes k: "terms_ok k" and t: "t = settings k i" and f: "feed_byte (tty_iflag t) (tty_lflag t) k i c = (b, k')"
  shows "b \<Longrightarrow> edited t i (typed_keys t c) k k'"
    "\<not> b \<Longrightarrow> inert i k k' \<and> (\<not> bit (t 12) 1 \<longrightarrow> length (raw_queue k i) = 65536)"
proof (atomize (full), cases "map_input (tty_iflag t) c", goal_cases)
  case 1
  then show ?case using f by (simp add: feed_byte_def typed_map_input)
next
  case (2 c')
  let ?s = "\<lambda>v. on_pty k i (\<lambda>p. p\<lparr>pt_output_stopped := v\<rparr>)"
  define k1 where "k1 = (if tty_iflag t AND IXON \<noteq> 0 \<and> pt_output_stopped (pty k i) \<and> tty_iflag t AND IXANY \<noteq> 0 then wake_all (?s False) else k)"
  have w: "inert i k (wake_all (?s v))" for v by (rule inert_trans [OF inert_stop inert_wake])
  have k1: "inert i k k1" "settings k1 i = t" using w by (simp_all add: k1_def t)
  have ok1: "terms_ok k1" using k terms_ok_cong [OF fds_wake_all] terms_ok_on_pty [OF k] terms_ok_pty [OF k] by (simp add: k1_def pty_ok_stop)
  have q1: "raw_queue k1 i = raw_queue k i" using k1(1) by (simp add: inert_def)
  have l: "bit (t 12) 1 \<longleftrightarrow> tty_lflag t AND ICANON \<noteq> 0" using flags_bits(6) by blast
  have T: "typed_keys t c = [key_of t c']" by (simp add: typed_map_input 2)
  note D = f [unfolded feed_byte_def 2 option.case Let_def, folded settings_def, folded t k1_def]
  show ?case
  proof (cases rule: key_cases [of t c'])
    case flow
    then show ?thesis using D w inert_stop edited_ignored [of "[Flow]"] unfolding T by (auto split: if_splits)
  next
    case sig
    then have "b" "k' = feed_signal (tty_lflag t) k1 i c' (input_signal (tty_lflag t) t c')" using D by (auto split: if_splits)
    then show ?thesis using sig feed_signal_edited [of "input_signal (tty_lflag t) t c'" k1 i c'] edited_inert(1) [OF k1(1)] k1(2) by (simp add: T)
  next
    case canon
    then have "feed_canon (tty_lflag t) k1 i c' = (b, k')" using D by (auto split: if_splits)
    from inert_trans [OF k1(1) feed_canon_inert [OF this]] show ?thesis using canon l by (auto simp: T intro: edited_ignored)
  next
    case raw
    then have "feed_raw (tty_lflag t) k1 i c' = (b, k')" using D by (auto split: if_splits)
    from feed_raw_edited [OF ok1 this] show ?thesis using raw edited_inert(1) [OF k1(1)] q1 k1(1) by (auto simp: T)
  qed
qed

lemma feed_loop_edited:
  assumes "terms_ok k" "t = settings k i" "feed_loop (tty_iflag t) (tty_lflag t) k i cs = (n, k')"
  shows "edited t i (concat (map (typed_keys t) (take n cs))) k k' \<and> (n < length cs \<and> \<not> bit (t 12) 1 \<longrightarrow> length (raw_queue k' i) = 65536)"
  using assms
proof (induction cs arbitrary: k n)
  case (Cons c cs)
  obtain b k1 where e: "feed_byte (tty_iflag t) (tty_lflag t) k i c = (b, k1)" by (rule prod.exhaust)
  note E = feed_byte_edited [OF Cons.prems(1,2) e] and S = feed_byte_spec [OF Cons.prems(1) e]
  show ?case
  proof (cases b)
    case True
    obtain m k2 where r: "feed_loop (tty_iflag t) (tty_lflag t) k1 i cs = (m, k2)" by (rule prod.exhaust)
    then have "n = Suc m" "k' = k2" using Cons.prems(3) e True by simp_all
    then show ?thesis using Cons.IH [of k1 m] r S(1,2) Cons.prems(2) E(1) True edited_append by auto
  next
    case False
    then have "n = 0" "k' = k1" using Cons.prems(3) e by simp_all
    then show ?thesis using E(2) False by (auto simp: inert_def)
  qed
qed simp

section \<open>Properties\<close>

text \<open>
  C33: the output of a terminal in order. For every sequence of writes to the slave and reads
  of the master, what the master reads followed by what is still queued is what was queued before
  followed by the bytes that the writes accepted, in order, with a carriage return before
  each newline when the settings ask for it: no byte is lost, repeated or reordered when the ring wraps.
\<close>

theorem terminal_output_in_order:
  assumes "pty_ok p" "queue_run pty_output_write pty_master_read p ops = (accepted, out, p')"
  shows "ring_contents PTY_CAP (s2m p) @ opost (tty_oflag (pt_termios p)) accepted = out @ ring_contents PTY_CAP (s2m p')"
  using terminal.run_fifo [of p "tty_oflag (pt_termios p)" ops] assms by blast

definition demo_pty :: pty_state where
  "demo_pty = (pty_reset_termios zero_pty)\<lparr>pt_master_open := True, pt_slave_open := True\<rparr>"

lemma demo_pty_ok: "pty_ok demo_pty"
  by (simp add: pty_ok_def demo_pty_def pty_reset_termios_def zero_pty_def m2s_def s2m_def ring_ok_def)

lemma demo_pty_flags: "tty_oflag (pt_termios demo_pty) = 5" "tty_lflag (pt_termios demo_pty) = 0x8a3b" "tty_iflag (pt_termios demo_pty) = 0x500"
  by (simp_all add: demo_pty_def pty_reset_termios_def tty_oflag_def tty_lflag_def tty_iflag_def word_at_def pty_default_termios_def)

theorem terminal_output_in_order_witness:
  "opost 5 (fst (queue_run pty_output_write pty_master_read demo_pty [Put [65, 10], Get 2, Put [66], Get 9])) =
     fst (snd (queue_run pty_output_write pty_master_read demo_pty [Put [65, 10], Get 2, Put [66], Get 9]))
       @ ring_contents PTY_CAP (s2m (snd (snd (queue_run pty_output_write pty_master_read demo_pty [Put [65, 10], Get 2, Put [66], Get 9]))))"
proof -
  have "ring_contents PTY_CAP (s2m demo_pty) = []"
    by (simp add: ring_contents_def demo_pty_def pty_reset_termios_def zero_pty_def)
  then show ?thesis
    using terminal_output_in_order [OF demo_pty_ok, of "[Put [65, 10], Get 2, Put [66], Get 9]"] demo_pty_flags(1) by (metis append_Nil prod.collapse)
qed

text \<open>
  C34. The line editor. Bytes written to the master of a terminal have exactly the effect of the keys that they
  stand for under its settings, up to the point where a byte is refused. A carriage return is dropped or
  becomes a newline and a newline becomes a carriage return when the input flags say so; the start and stop
  characters leave no trace; the interrupt, quit and suspend characters make signal 2, 3 or 20 pending for every task of
  the foreground group (of the terminal's session, if it has one), or clear it for a task that ignores the signal, and
  empty the line and the queue unless \<^verbatim>\<open>NOFLSH\<close> is set; in canonical mode the erase
  character takes the last byte of the line away, the kill character the whole line, and any other byte is
  appended to the line; in raw mode every other byte is appended to the queue. No other task gets or loses a signal,
  the settings stay, and a byte is refused only when the line (canonical mode) or the queue (raw mode)
  holds 65536 bytes.
\<close>

theorem line_editor_refines:
  assumes "terms_ok k" "pty_canon_feed k i cs = (n, k')"
  defines "t \<equiv> settings k i"
  defines "ks \<equiv> concat (map (typed_keys t) (take n cs))"
  shows "line k' i = fold (edit_line t) ks (line k i) \<and> raw_queue k' i = fold (edit_raw t) ks (raw_queue k i)
    \<and> (\<forall>j. pending (tasks k' j) =
         (if foreground k i j then fold (edit_pending (ignores (tasks k j))) ks (pending (tasks k j)) else pending (tasks k j)))
    \<and> settings k' i = t \<and> n \<le> length cs
    \<and> (n < length cs \<longrightarrow> length (if bit (t 12) 1 then line k' i else raw_queue k' i) = 65536)"
proof -
  have b: "bit (t 12) 1 \<longleftrightarrow> tty_lflag t AND ICANON \<noteq> 0" using flags_bits(6) by blast
  have "feed_loop (tty_iflag t) (tty_lflag t) k i cs = (n, k')" using assms(2) by (simp add: pty_canon_feed_def t_def settings_def)
  from feed_loop_edited [OF assms(1) t_def [THEN meta_eq_to_obj_eq] this] pty_canon_feed_spec [OF assms(1,2), folded t_def]
  show ?thesis unfolding edited_def ks_def b edit_typed_list by (auto simp del: length_line)
qed

definition demo_tty :: kernel where
  "demo_tty = demo_kernel\<lparr>fds := set_desc ((fds demo_kernel)\<lparr>pty_slots := (\<lambda>_. demo_pty)\<rparr>) (0, 3)
     (\<lambda>d. d\<lparr>fd_in_use := True, fd_type := FD_PTY_MASTER, fd_private := Pty 0\<rparr>)\<rparr>"

lemma demo_tty_pty [simp]: "pty demo_tty i = demo_pty"
  by (simp add: pty_def demo_tty_def set_desc_def)

lemma demo_tty_ok: "terms_ok demo_tty"
  by (simp add: terms_ok_def demo_pty_ok)

lemma demo_line: "line demo_tty i = []" "settings demo_tty i = pt_termios demo_pty"
  by (simp_all add: line_def settings_def canon_bytes_def demo_pty_def pty_reset_termios_def zero_pty_def)

lemma demo_pty_cc: "tty_cc (pt_termios demo_pty) VERASE = 0x7f" "tty_cc (pt_termios demo_pty) VKILL = 0x15" "tty_cc (pt_termios demo_pty) VINTR = 3"
  "tty_cc (pt_termios demo_pty) VQUIT = 0x1c" "tty_cc (pt_termios demo_pty) VSUSP = 0x1a" "tty_cc (pt_termios demo_pty) VSTART = 0x11"
  "tty_cc (pt_termios demo_pty) VSTOP = 0x13" "tty_cc (pt_termios demo_pty) VEOF = 4" "tty_cc (pt_termios demo_pty) VEOL = 0"
  "tty_cc (pt_termios demo_pty) VEOL2 = 0"
  by (simp_all add: tty_cc_def demo_pty_def pty_reset_termios_def pty_default_termios_def)

definition demo_fg :: kernel where
  "demo_fg = on_pty demo_tty 0 (\<lambda>p. p\<lparr>pt_fg_pgrp := 1\<rparr>)"

lemma demo_fg_sel:
  "terms_ok demo_fg" "line demo_fg 0 = []" "settings demo_fg 0 = pt_termios demo_pty" "foreground demo_fg 0 j \<longleftrightarrow> j = 0"
  "\<not> ignores (tasks demo_fg j) 2" "pending (tasks demo_fg j) = {}"
proof -
  let ?f = "\<lambda>p. p\<lparr>pt_fg_pgrp := 1\<rparr>"
  show "terms_ok demo_fg" unfolding demo_fg_def
    by (rule terms_ok_on_pty [OF demo_tty_ok]) (use demo_pty_ok in \<open>simp add: pty_ok_def m2s_def s2m_def\<close>)
  show "line demo_fg 0 = []" "settings demo_fg 0 = pt_termios demo_pty"
    unfolding demo_fg_def line_on_pty using demo_line by (simp_all add: line_def settings_def canon_bytes_def)
  have p: "pt_session (pty demo_fg 0) = 0" "pt_fg_pgrp (pty demo_fg 0) = 1"
    by (simp_all add: demo_fg_def pty_on_pty demo_pty_def pty_reset_termios_def zero_pty_def)
  have "tk_used (tasks demo_fg j) \<longleftrightarrow> j = 0" "tk_pgrp (tasks demo_fg j) = 1"
    by (simp_all add: demo_fg_def demo_tty_def demo_kernel_def demo_task_def)
  then show "foreground demo_fg 0 j \<longleftrightarrow> j = 0" by (auto simp: foreground_def p)
  show "\<not> ignores (tasks demo_fg j) 2" "pending (tasks demo_fg j) = {}"
    by (simp_all add: ignores_def pending_def sig_is_pending_def demo_fg_def demo_tty_def demo_kernel_def demo_task_def)
qed

text \<open>A letter and an interrupt, then two letters, an erase, another letter and the return key.\<close>

lemma demo_keys:
  "concat (map (typed_keys (pt_termios demo_pty)) [120, 3, 97, 98, 0x7f, 99, 13]) = [Insert 120, Sig 2, Insert 97, Insert 98, Erase, Insert 99, Insert 10]"
  "\<not> bit (pt_termios demo_pty 12) 7" "bit (pt_termios demo_pty 12) 1"
  by (simp_all add: typed_keys_def key_of_def demo_pty_def pty_reset_termios_def pty_default_termios_def)

lemma edit_line_length: "length (fold (edit_line t) ks l) \<le> length l + length ks"
proof (induction ks arbitrary: l)
  case (Cons x ks)
  have "length (edit_line t x l) \<le> length l + 1" by (cases x) auto
  then show ?case using Cons [of "edit_line t x l"] by simp
qed simp

lemma typed_keys_length: "length (concat (map (typed_keys t) cs)) \<le> length cs"
  by (induction cs) (auto simp: typed_keys_def)

theorem line_editor_refines_witness:
  "fst (pty_canon_feed demo_fg 0 [120, 3, 97, 98, 0x7f, 99, 13]) = 7
    \<and> line (snd (pty_canon_feed demo_fg 0 [120, 3, 97, 98, 0x7f, 99, 13])) 0 = [97, 99, 10]
    \<and> pending (tasks (snd (pty_canon_feed demo_fg 0 [120, 3, 97, 98, 0x7f, 99, 13])) 0) = {2}
    \<and> pending (tasks (snd (pty_canon_feed demo_fg 0 [120, 3, 97, 98, 0x7f, 99, 13])) 1) = {}"
proof -
  let ?cs = "[120, 3, 97, 98, 0x7f, 99, 13] :: u8 list" and ?t = "pt_termios demo_pty"
  obtain n k where e: "pty_canon_feed demo_fg 0 ?cs = (n, k)" by (rule prod.exhaust)
  note L = line_editor_refines [OF demo_fg_sel(1) e, unfolded demo_fg_sel(2,3,4,6)]
  have "length (line k 0) \<le> length ?cs"
    using L edit_line_length [of ?t "concat (map (typed_keys ?t) (take n ?cs))" "[]"] typed_keys_length [of ?t "take n ?cs"]
    by (simp del: length_line)
  then have n: "n = 7" using L demo_keys(3) by (auto simp del: length_line)
  have t: "take n ?cs = ?cs" by (simp add: n)
  show ?thesis using L n e demo_fg_sel(5) demo_keys(2) unfolding t demo_keys(1) by simp
qed

text \<open>
  C35: a canonical read returns one line. With room for more than the bytes before the end of the
  line, the read hands out the bytes up to and including the first byte that ends a line, or the bytes
  before an end-of-file character, which is consumed and not handed out; the line buffer keeps exactly what
  follows.
\<close>

definition line_end :: "termios \<Rightarrow> u8 \<Rightarrow> bool" where
  "line_end t c \<longleftrightarrow> tty_cc_match t VEOF c \<or> ends_line t c"

lemma canon_loop_line:
  assumes "\<And>b. b \<in> set l \<Longrightarrow> \<not> line_end t b" "line_end t c" "length l < n"
  shows "canon_loop t (l @ c # rest) n = (Suc (length l), if tty_cc_match t VEOF c then l else l @ [c])"
  using assms
proof (induction l arbitrary: n)
  case Nil
  then show ?case by (auto simp: line_end_def)
next
  case (Cons b l)
  then have "canon_loop t (l @ c # rest) (n - 1) = (Suc (length l), if tty_cc_match t VEOF c then l else l @ [c])" by simp
  then show ?case using Cons.prems(1) [of b] Cons.prems(3) by (auto simp: line_end_def)
qed

theorem canonical_read_line:
  assumes "pty_ok p" "canon_bytes p = l @ c # rest" "\<forall>b \<in> set l. \<not> line_end (pt_termios p) b" "line_end (pt_termios p) c" "length l < n"
  shows "fst (pty_canon_read p n) = (if tty_cc_match (pt_termios p) VEOF c then l else l @ [c])
    \<and> canon_bytes (snd (pty_canon_read p n)) = rest \<and> pty_ok (snd (pty_canon_read p n))"
  using canon_read_ok [OF assms(1) prod.collapse [symmetric], of n] canon_loop_line [of l "pt_termios p" c n rest] assms(2-5) by simp

definition demo_lines :: pty_state where
  "demo_lines = demo_pty\<lparr>pt_canon := (\<lambda>i. [104, 105, 10, 120] ! i), pt_canon_count := 4\<rparr>"

theorem canonical_read_line_witness:
  "fst (pty_canon_read demo_lines 256) = [104, 105, 10] \<and> canon_bytes (snd (pty_canon_read demo_lines 256)) = [120]"
proof -
  have t: "pt_termios demo_lines = pt_termios demo_pty" by (simp add: demo_lines_def)
  have "pty_ok demo_lines" using demo_pty_ok by (simp add: pty_ok_def demo_lines_def m2s_def s2m_def)
  moreover have "canon_bytes demo_lines = [104, 105] @ 10 # [120]"
    by (simp add: canon_bytes_def demo_lines_def upt_rec)
  ultimately show ?thesis
    using canonical_read_line [of demo_lines "[104, 105]" 10 "[120]" 256]
    unfolding t by (simp add: line_end_def ends_line_def tty_cc_match_def demo_pty_cc)
qed

text \<open>
  The steps that use a terminal: a write from memory that stays readable, and a read whose copy to the
  caller works, by a task that has a descriptor table, with the slave open or the output not stopped.
\<close>

inductive tty_step :: "(nat \<Rightarrow> kernel \<Rightarrow> kernel) \<Rightarrow> kernel \<Rightarrow> kernel \<Rightarrow> bool" for tick where
  tty_write: "sys_write_pty k fd buf len = (r, k') \<Longrightarrow>
    (\<And>j. j < unat len \<Longrightarrow> copy_in k (buf + of_nat j) (min 256 (unat len - j)) \<noteq> None) \<Longrightarrow> tty_step tick k k'"
| tty_read: "sys_read_pty tick k sf fd buf len = Some (r, k') \<Longrightarrow> r \<noteq> - EFAULT \<Longrightarrow>
    fd_private (files k fd) = Pty i \<Longrightarrow> fd_type (files k fd) = FD_PTY_MASTER \<or> fd_type (files k fd) = FD_PTY_SLAVE \<Longrightarrow>
    task_files_for_task (fds k) (current_task k) \<noteq> None \<Longrightarrow> sint (ucast (fr_rdi sf) :: u32) = fd \<Longrightarrow>
    pt_slave_open (pty k i) \<or> \<not> pt_output_stopped (pty k i) \<Longrightarrow> tty_step tick k k'"

lemma tty_step_keeps:
  assumes "tty_step tick k k'" "tick_ok tick" "io_inv k"
  shows "io_inv k'"
  using assms
proof (cases rule: tty_step.cases)
  case (tty_write fd buf len r)
  then show ?thesis
    using write_pty_keeps [of k "files k fd" buf len r k'] assms(3)
    by (auto simp: sys_write_pty_def split: option.splits)
next
  case (tty_read sf fd buf len r i)
  show ?thesis by (rule read_pty_keeps [OF refl tty_read(3-7) assms(3,2) tty_read(1,2)])
qed


text \<open>A page of readable and writable memory at address 0.\<close>

definition demo_rw :: vmm where
  "demo_rw = demo_vmm\<lparr>mem := (mem demo_vmm)(0x5000 := (\<lambda>i. if i = 0 then 0x1000007 else 0))\<rparr>"

lemma demo_rw_translate:
  "vmm_user_translate demo_rw 0 = Some (0x1000000, 0x1000007)" "vmm_user_translate_cr3 demo_rw 0x2000 0 = Some (0x1000000, 0x1000007)"
proof -
  have t: "table demo_rw x = table demo_vmm x" for x by (simp add: table_def demo_rw_def)
  have r: "rd demo_rw x i = (if x = 0x5000 then if i = 0 then 0x1000007 else 0 else rd demo_vmm x i)" for x i
    by (simp add: rd_def demo_rw_def)
  have "walk demo_rw 0x2000 0 = Some 0x5000"
    by (simp add: walk_def walk_step_def r t demo_rd demo_table idx_defs)
  then have l: "translate_leaf demo_rw 0x2000 0 = Some (0x1000000, 0x1000007)" by (simp add: translate_leaf_def r idx_defs)
  have g: "g_user_valid demo_rw" "g_user_pml4 demo_rw = 0x2000" by (simp_all add: demo_rw_def demo_sel)
  show "vmm_user_translate demo_rw 0 = Some (0x1000000, 0x1000007)"
    using l g t demo_table(1) by (simp add: vmm_user_translate_def canonical_user_def)
  show "vmm_user_translate_cr3 demo_rw 0x2000 0 = Some (0x1000000, 0x1000007)"
    using l t demo_table(1) by (simp add: vmm_user_translate_cr3_def vmm_cr3_translate_direct_def canonical_user_def)
qed

lemma demo_rw_virt: "pmm_phys_to_virt (pool demo_rw) 0x1000000 \<noteq> None"
proof -
  have "table demo_vmm 0x1000000 = Some 0x1000000"
    using tracked_table(1) [of demo_vmm "0x1000000"] demo_hhdm_ok by (simp add: demo_pool_sel page_aligned_def)
  then show ?thesis by (auto simp: table_def demo_rw_def split: if_splits option.splits)
qed

text \<open>Copies of a few bytes in that page.\<close>

lemma demo_rw_copy_in:
  assumes "vm k = demo_rw" "syscall_user_cr3 k = 0x2000" "addr AND PAGE_MASK = 0" "n \<noteq> 0" "n \<le> 4096 - unat (addr AND 0xFFF)"
  shows "copy_in k addr n = Some (frame_bytes (mem demo_rw) 0x1000000 (unat (addr AND 0xFFF)) n)"
proof -
  have "chunk addr n = n" using assms(5) by (simp add: chunk_def)
  then show ?thesis using assms demo_rw_virt
    by (simp add: copy_in_def user_copy_from_def copy_cr3_def user_copy_from_cr3_def copy_from_loop.simps [of _ _ addr] copy_from_loop.simps [of _ _ _ 0] demo_rw_translate)
qed

lemma demo_rw_copy_out:
  assumes "vm k = demo_rw" "syscall_user_cr3 k = 0x2000" "addr AND PAGE_MASK = 0" "bs \<noteq> []" "length bs \<le> 4096 - unat (addr AND 0xFFF)"
  shows "fst (copy_out k addr bs)"
proof -
  have "chunk addr (length bs) = length bs" using assms(5) by (simp add: chunk_def)
  moreover have "writable_page demo_rw 0x2000 0 = (Some 0x1000000, demo_rw)" by (simp add: writable_page_def demo_rw_translate)
  ultimately show ?thesis using assms demo_rw_virt
    by (simp add: copy_out_def user_copy_to_def copy_cr3_def user_copy_to_cr3_def copy_to_loop.simps [of _ _ addr] copy_to_loop.simps [of _ _ _ "[]"] Let_def)
qed

lemma demo_rw_range:
  assumes "addr AND PAGE_MASK = 0" "(addr + len - 1) AND PAGE_MASK = 0" "len \<noteq> 0" "addr < 0x1000" "len < 0x1000"
  shows "vmm_user_range_ok demo_rw addr len w"
proof -
  have "len \<le> USER_TOP - addr" using assms(4,5) by (simp add: word_le_nat_alt word_less_nat_alt unat_sub)
  moreover have "canonical_user addr" using assms(4) by (simp add: canonical_user_def word_less_nat_alt)
  moreover have "range_ok_loop demo_rw 0 0 w" by (subst range_ok_loop.simps) (simp add: demo_rw_translate)
  moreover have "g_user_valid demo_rw" by (simp add: demo_rw_def demo_sel)
  ultimately show ?thesis using assms by (simp add: vmm_user_range_ok_def not_less)
qed

definition demo_term :: kernel where
  "demo_term = demo_tty\<lparr>vm := demo_rw, syscall_user_cr3 := 0x2000\<rparr>"


text \<open>
  C37: a signal handler and its return. When the end of a system call starts a handler, the signal is the
  smallest one that is pending and not blocked, it is pending no longer, the program continues at the
  handler with the number of the signal as its argument, and the pending sets of the other tasks stay. A later
  \<^verbatim>\<open>rt_sigreturn\<close>, with any frame, succeeds and gives back the frame that the program had at the end of the
  call; in the frame that reaches the program every register is the old one but \<^verbatim>\<open>rax\<close>, which is 0
  whatever the interrupted call returned.
\<close>

theorem signal_round_trip:
  assumes k: "tk_used (tasks k 0)" "\<not> tk_sig_active (cur k)" and nr: "nr \<noteq> 15"
    and s: "syscall_finish False k f nr ret = (k1, f1)" "tk_sig_active (cur k1)"
  shows "\<exists>sig k2. sig \<in> pending (cur k) - blocked (cur k) \<and> (\<forall>s \<in> pending (cur k) - blocked (cur k). sig \<le> s)
     \<and> pending (cur k1) = pending (cur k) - {sig} \<and> (\<forall>j. j \<noteq> current_task k \<longrightarrow> tasks k1 j = tasks k j)
     \<and> fr_user_rip f1 = sa_handler (tk_sig_actions (cur k) (nat sig)) \<and> fr_rdi f1 = word_of_int sig
     \<and> sys_rt_sigreturn k1 g = (0, k2, f\<lparr>fr_rax := word_of_int ret\<rparr>) \<and> \<not> tk_sig_active (cur k2)
     \<and> snd (syscall_finish False k2 (f\<lparr>fr_rax := word_of_int ret\<rparr>) 15 0) = f\<lparr>fr_rax := 0\<rparr>"
proof -
  let ?f = "f\<lparr>fr_rax := word_of_int ret\<rparr>" and ?ti = "current_task k" and ?sig = "sig_next_deliverable (cur k)"
  obtain k' where d: "deliver_pending_signal_to_task k ?ti ?f = (k', f1)" and k1: "k1 = k'\<lparr>syscall_user_cr3 := fr_user_cr3 f1\<rparr>"
    using s(1) nr by (auto simp: syscall_finish_def deliver_pending_signal_def Let_def split: prod.splits)
  have t: "tasks k1 = tasks k'" "current_task k1 = current_task k'" by (simp_all add: k1)
  have act: "current_task k' = ?ti" using d copy_out_frame
    by (auto simp: deliver_pending_signal_to_task_def Let_def split: if_splits prod.splits)
  have a': "tk_sig_active (tasks k' ?ti)" using s(2) act by (simp add: cur_def t)
  note D = deliver_starts_handler [OF d k(2) [unfolded cur_def] a', folded cur_def]
  have c1: "cur k1 = tasks k' ?ti" using act by (simp add: cur_def t)
  have u: "tk_used (tasks k1 0)"
  proof (cases "?ti = 0")
    case True
    have "tk_used (tasks k' ?ti) = tk_used (tasks k ?ti)" using d copy_out_frame
      by (auto simp: deliver_pending_signal_to_task_def Let_def sig_clear_pending_def split: if_splits prod.splits)
    then show ?thesis using k(1) True by (simp add: t)
  next
    case False
    then show ?thesis using D(7) k(1) by (simp add: t)
  qed
  have v: "tk_sig_saved_valid (cur k1)" "tk_sig_saved_frame (cur k1) = ?f" using D(3,4) by (simp_all add: c1)
  have "\<forall>s \<in> pending (cur k) - blocked (cur k). ?sig \<le> s" using next_deliverable_spec [of "cur k"] D(1) by (auto split: if_splits)
  then show ?thesis
    using D sigreturn_restores [OF u s(2) v(1), of g] v(2)
    by (intro exI [of _ ?sig] exI [of _ "set_task k1 (current_task k1) (\<lambda>t. t\<lparr>tk_sig_saved_valid := False, tk_sig_active := False\<rparr>)"])
       (simp add: c1 [symmetric] t syscall_finish_def cur_def [of "set_task k1 _ _"] split: prod.splits)
qed

definition demo_sig :: kernel where
  "demo_sig = set_task demo_term 0 (\<lambda>t. (snd (sig_pending_set t 10))
     \<lparr>tk_sig_actions := (\<lambda>_. \<lparr>sa_handler = 0x400, sa_flags = 0, sa_restorer = 0x500, sa_mask = 0\<rparr>)\<rparr>)"

definition demo_frame :: syscall_frame where
  "demo_frame = (tk_sig_saved_frame demo_task)\<lparr>fr_user_rsp := 0x100, fr_rbx := 77\<rparr>"

lemma demo_frame_rsp: "fr_user_rsp (demo_frame\<lparr>fr_rax := x\<rparr>) = 0x100"
  by (simp add: demo_frame_def)

lemma demo_sig_task:
  "pending (cur demo_sig) = {10}" "blocked (cur demo_sig) = {}" "tk_used (tasks demo_sig 0)" "\<not> tk_sig_active (cur demo_sig)"
  "tk_sig_actions (cur demo_sig) j = \<lparr>sa_handler = 0x400, sa_flags = 0, sa_restorer = 0x500, sa_mask = 0\<rparr>"
  "current_task demo_sig = 0" "vm demo_sig = demo_rw" "syscall_user_cr3 demo_sig = 0x2000"
proof -
  let ?t = "tasks demo_term 0"
  have z: "tk_sig_pending ?t = (\<lambda>_. 0)" "tk_sig_blocked ?t = (\<lambda>_. 0)" "tk_used ?t" "\<not> tk_sig_active ?t" "current_task demo_term = 0"
    by (simp_all add: demo_term_def demo_tty_def demo_kernel_def demo_task_def)
  have p: "pending (snd (sig_pending_set ?t 10)) = {10}"
    using pending_set [of 10 ?t] z(1) by (simp add: sig_valid_def pending_def sig_is_pending_def)
  have c: "cur demo_sig = (snd (sig_pending_set ?t 10))
     \<lparr>tk_sig_actions := (\<lambda>_. \<lparr>sa_handler = 0x400, sa_flags = 0, sa_restorer = 0x500, sa_mask = 0\<rparr>)\<rparr>"
    using z(5) by (simp add: cur_def demo_sig_def)
  show "pending (cur demo_sig) = {10}" using p unfolding c by (simp add: pending_def sig_is_pending_def)
  show "blocked (cur demo_sig) = {}" using z(2) unfolding c by (simp add: blocked_def sig_is_blocked_def sig_pending_set_def)
  show "tk_used (tasks demo_sig 0)" "\<not> tk_sig_active (cur demo_sig)"
    "tk_sig_actions (cur demo_sig) j = \<lparr>sa_handler = 0x400, sa_flags = 0, sa_restorer = 0x500, sa_mask = 0\<rparr>"
    using z(3,4) c by (simp_all add: demo_sig_def sig_pending_set_def)
  show "current_task demo_sig = 0" "vm demo_sig = demo_rw" "syscall_user_cr3 demo_sig = 0x2000"
    using z(5) by (simp_all add: demo_sig_def) (simp_all add: demo_term_def set_task_def)
qed

lemma demo_sig_active: "tk_sig_active (cur (fst (syscall_finish False demo_sig demo_frame 1 7)))"
proof -
  have n: "sig_next_deliverable (tasks demo_sig 0) = 10"
    using next_deliverable_spec [of "cur demo_sig"] demo_sig_task(1,2,6) by (simp add: cur_def)
  let ?k = "set_task demo_sig 0 (\<lambda>t. t\<lparr>tk_sig_saved_frame := demo_frame\<lparr>fr_rax := 7\<rparr>, tk_sig_saved_valid := True, tk_sig_active := True\<rparr>)"
  have "syscall_user_cr3 ?k = 0x2000" using demo_sig_task(8) by (simp add: set_task_def)
  then have "fst (copy_out ?k 0xF8 (le_bytes 8 0x500))"
    using demo_rw_copy_out [of ?k "0xF8" "le_bytes 8 0x500"] demo_sig_task(7) by (simp add: le_bytes_def)
  then obtain k2 where c: "copy_out ?k 0xF8 (le_bytes 8 0x500) = (True, k2)"
    by (cases "copy_out ?k 0xF8 (le_bytes 8 0x500)") simp
  have r: "vmm_user_range_ok demo_rw 0xF8 8 True" by (rule demo_rw_range) simp_all
  have a: "tk_sig_actions (tasks demo_sig 0) 10 = \<lparr>sa_handler = 0x400, sa_flags = 0, sa_restorer = 0x500, sa_mask = 0\<rparr>"
    using demo_sig_task(5) [of 10] demo_sig_task(6) by (simp add: cur_def)
  have "\<not> tk_sig_active (tasks demo_sig 0)" using demo_sig_task(4,6) by (simp add: cur_def)
  then have "fst (deliver_pending_signal demo_sig (demo_frame\<lparr>fr_rax := 7\<rparr>)) = set_task k2 0 (\<lambda>t. sig_clear_pending t 10)"
    using n a r c demo_sig_task(7)
    by (simp add: deliver_pending_signal_def demo_sig_task(6) deliver_pending_signal_to_task_def ignored_def Let_def demo_frame_rsp)
  then obtain f' where "deliver_pending_signal demo_sig (demo_frame\<lparr>fr_rax := 7\<rparr>) = (set_task k2 0 (\<lambda>t. sig_clear_pending t 10), f')"
    by (cases "deliver_pending_signal demo_sig (demo_frame\<lparr>fr_rax := 7\<rparr>)") simp
  then show ?thesis using copy_out_frame [OF c] demo_sig_task(6)
    by (simp add: syscall_finish_def Let_def cur_def sig_clear_pending_def)
qed

theorem signal_round_trip_witness:
  "\<exists>k2. sys_rt_sigreturn (fst (syscall_finish False demo_sig demo_frame 1 7)) demo_frame = (0, k2, demo_frame\<lparr>fr_rax := 7\<rparr>)
     \<and> snd (syscall_finish False k2 (demo_frame\<lparr>fr_rax := 7\<rparr>) 15 0) = demo_frame\<lparr>fr_rax := 0\<rparr>"
  using signal_round_trip [OF demo_sig_task(3,4) _ prod.collapse [symmetric] demo_sig_active, of demo_frame] by fastforce

end
