(* ===== verification/Pipe_Spec.thy ===== *)
theory Pipe_Spec
  imports Pipe Tty_Spec
begin

text \<open>
  Correctness of pipes: what a write appends, what a reader that sleeps gets when a writer closes, and
  that a system call which sleeps returns once an interrupt has woken its task.
\<close>

section \<open>Writing\<close>

lemma pipe_fds [simp]: "pipe (on_fds k f) i = pipes (f (fds k)) i"
  by (simp add: pipe_def on_fds_def)

lemma on_fds_sel [simp]: "tasks (on_fds k f) = tasks k" "fds (on_fds k f) = f (fds k)" "current_task (on_fds k f) = current_task k"
  by (simp_all add: on_fds_def)

lemma copy_in_on_fds [simp]: "copy_in (on_fds k f) = copy_in k"
  by (simp add: copy_in_def on_fds_def fun_eq_iff)

lemma pring_set [simp]: "pring (set_pring p q) = q"
  by (simp add: pring_def set_pring_def)

lemma pring_n [simp]: "rg_n (pring p) = pi_count p"
  by (simp add: pring_def)

lemma waits_set_pipe [simp]: "waits_for_pipe (on_fds k (\<lambda>s. set_pipe s j (g s))) i ti = waits_for_pipe k i ti"
  by (simp add: waits_for_pipe_def task_files_for_task_def set_pipe_def desc_def)

definition no_waiter :: "kernel \<Rightarrow> nat \<Rightarrow> bool" where
  "no_waiter k i \<longleftrightarrow> (\<forall>ti < MAX_TASKS. \<not> waits_for_pipe k i ti)"

lemma pipe_wake_readers_idle:
  assumes "no_waiter k i"
  shows "pipe_wake_readers k i = k"
proof -
  have "fold (\<lambda>ti k. if waits_for_pipe k i ti then snd (pipe_read_into_task k ti i) else k) xs k = k" if "set xs \<subseteq> {0..<MAX_TASKS}" for xs
    using that assms by (induction xs) (auto simp: no_waiter_def)
  then show ?thesis by (simp add: pipe_wake_readers_def)
qed

text \<open>The bytes in the pipe.\<close>

definition pipe_bytes :: "kernel \<Rightarrow> nat \<Rightarrow> u8 list" where
  "pipe_bytes k i = ring_contents PIPE_CAP (pring (pipe k i))"

definition pipe_ok :: "kernel \<Rightarrow> nat \<Rightarrow> bool" where
  "pipe_ok k i \<longleftrightarrow> ring_ok PIPE_CAP (pring (pipe k i))"

lemma pipe_put_spec:
  assumes "pipe_ok k i" "length bs \<le> 65536 - length (pipe_bytes k i)"
  shows "pipe_ok (pipe_put k i bs) i" "pipe_bytes (pipe_put k i bs) i = pipe_bytes k i @ bs"
  using ring_write_spec [of PIPE_CAP "pring (pipe k i)" bs, OF _ prod.collapse [symmetric]] assms
  by (simp_all add: pipe_ok_def pipe_bytes_def pipe_put_def set_pipe_def pipe_def [symmetric])

text \<open>User memory at \<open>buf\<close> holds \<open>data\<close>.\<close>

definition user_bytes :: "kernel \<Rightarrow> u64 \<Rightarrow> u8 list \<Rightarrow> bool" where
  "user_bytes k buf data \<longleftrightarrow>
     (\<forall>j m. j + m \<le> length data \<longrightarrow> copy_in k (buf + of_nat j) m = Some (take m (drop j data)))"

lemma pipe_write_loop_spec:
  assumes "pipe_write_loop k nb i buf (length data) done = (r, k')" "pipe_ok k i" "no_waiter k i" "user_bytes k buf data" "done \<le> length data"
  shows "pipe_ok k' i \<and> (let d = min (length data - done) (65536 - length (pipe_bytes k i)) in
     pipe_bytes k' i = pipe_bytes k i @ take d (drop done data)
     \<and> r = (if nb \<and> done + d = 0 \<and> data \<noteq> [] then - EAGAIN else int (done + d)))"
  using assms
proof (induction k nb i buf "length data" "done" rule: pipe_write_loop.induct)
  case (1 k nb i buf "done")
  have n: "unat (pi_count (pipe k i)) = length (pipe_bytes k i)" by (simp add: pipe_bytes_def)
  have cap: "length (pipe_bytes k i) \<le> 65536" using ring_okD(3) [OF 1(3) [unfolded pipe_ok_def]] n by simp
  note L = pipe_write_loop.simps [of k nb i buf "length data" "done"]
  consider (all) "done = length data" | (full) "done < length data" "pi_count (pipe k i) = PIPE_CAP"
    | (step) "done < length data" "pi_count (pipe k i) \<noteq> PIPE_CAP" using 1(6) by linarith
  then show ?case
  proof cases
    case all
    then show ?thesis using 1(2,3) L by (auto simp: Let_def)
  next
    case full
    then have "length (pipe_bytes k i) = 65536" using n by simp
    then show ?thesis using full 1(2,3) L by (auto simp: Let_def split: if_splits)
  next
    case step
    define m where "m = min (min 256 (length data - done)) (unat (PIPE_CAP - pi_count (pipe k i)))"
    have room: "unat (PIPE_CAP - pi_count (pipe k i)) = 65536 - length (pipe_bytes k i)"
      using cap n by (simp add: unat_sub word_le_nat_alt)
    have lt: "length (pipe_bytes k i) < 65536" using step(2) cap n by (auto simp: word_unat_eq_iff)
    let ?tmp = "take m (drop done data)"
    have c: "copy_in k (buf + of_nat done) m = Some ?tmp" using 1(5) step(1) by (simp add: user_bytes_def m_def)
    let ?k = "pipe_put k i ?tmp"
    have lm: "length ?tmp = m" "m \<le> 65536 - length (pipe_bytes k i)" "0 < m" using step(1) lt by (auto simp: m_def room)
    note P = pipe_put_spec [OF 1(3), of ?tmp, unfolded lm(1), OF lm(2)]
    have w: "no_waiter ?k i" "user_bytes ?k buf data" using 1(4,5) by (simp_all add: no_waiter_def user_bytes_def pipe_put_def)
    have idle: "pipe_wake_readers ?k i = ?k" by (rule pipe_wake_readers_idle [OF w(1)])
    have pn: "unat (pi_count (pipe ?k i)) = length (pipe_bytes k i) + m"
      using P(2) lm(1) ring_contents_length [of PIPE_CAP "pring (pipe ?k i)"] by (simp add: pipe_bytes_def)
    have e: "pipe_write_loop k nb i buf (length data) done =
        (if done + m < length data \<and> pi_count (pipe ?k i) = PIPE_CAP then (int (done + m), ?k) else pipe_write_loop ?k nb i buf (length data) (done + m))"
      unfolding L using step c by (simp add: m_def [symmetric] idle Let_def)
    have app: "take d (drop done data) = ?tmp @ take (d - m) (drop (done + m) data)" if "m \<le> d" for d
    proof -
      have "take (m + (d - m)) (drop done data) = ?tmp @ take (d - m) (drop m (drop done data))" by (rule take_add)
      then show ?thesis using that by (simp add: add.commute)
    qed
    show ?thesis
    proof (cases "done + m < length data \<and> pi_count (pipe ?k i) = PIPE_CAP")
      case True
      then have "65536 - length (pipe_bytes k i) = m" using pn by simp
      then have d: "min (length data - done) (65536 - length (pipe_bytes k i)) = m" using True by (auto simp: min_def)
      show ?thesis using 1(2) e True P d lm(3) by (auto simp: Let_def)
    next
      case False
      have r: "pipe_write_loop ?k nb i buf (length data) (done + m) = (r, k')" using 1(2) unfolding e if_not_P [OF False] .
      have dm: "done + m \<le> length data" using step(1) by (simp add: m_def)
      have lp: "length (pipe_bytes ?k i) = length (pipe_bytes k i) + m" using P(2) lm(1) by simp
      define d where "d = min (length data - done) (65536 - length (pipe_bytes k i))"
      have d: "min (length data - (done + m)) (65536 - length (pipe_bytes ?k i)) = d - m" "m \<le> d"
        using lm(2) dm by (auto simp: d_def lp)
      have "pipe_ok k' i \<and> pipe_bytes k' i = pipe_bytes ?k i @ take (d - m) (drop (done + m) data) \<and> r = int (done + d)"
        using 1(1) [OF _ step(2) m_def c _ _ r P(1) w dm] step(1) False lm(3) d by (simp add: idle Let_def)
      then show ?thesis using P(2) app [OF d(2)] lm(3) d(2) unfolding d_def [symmetric] Let_def by simp
    qed
  qed
qed

text \<open>
  C38: a write to a pipe. With a reader alive, no task asleep in the pipe and readable memory, a write
  appends to the bytes in the pipe exactly as many of its bytes as there is room for, in order, and returns
  their number; a full pipe makes a call without \<^verbatim>\<open>O_NONBLOCK\<close> return 0 and one with it fail with
  \<^verbatim>\<open>EAGAIN\<close>. The ring stays well formed.
\<close>

theorem pipe_write_appends:
  assumes "pipe_ok k i" "no_waiter k i" "user_bytes k buf data" "fd_type f = FD_PIPE_W \<and> fd_private f = Pipe i" "pipe_live (fds k) FD_PIPE_R i \<noteq> 0"
    and "unat len = length data" "data \<noteq> []" "write_pipe k f buf len = (r, k')"
  defines "d \<equiv> min (length data) (65536 - length (pipe_bytes k i))"
  shows "pipe_bytes k' i = pipe_bytes k i @ take d data \<and> pipe_ok k' i
    \<and> r = (if d = 0 \<and> fd_flags f AND 0x800 \<noteq> 0 then - EAGAIN else int d)"
proof -
  let ?k = "on_fds k (\<lambda>s. set_pipe s i (\<lambda>p. p\<lparr>pi_readers := pipe_live s FD_PIPE_R i\<rparr>))"
  have p: "pring (pipe ?k i) = pring (pipe k i)" by (simp add: pring_def set_pipe_def pipe_def)
  have l: "pipe_live (fds ?k) FD_PIPE_R i = pipe_live (fds k) FD_PIPE_R i" by (simp add: pipe_live_def set_pipe_def desc_def)
  have w: "pipe_write_loop ?k (fd_flags f AND 0x800 \<noteq> 0) i buf (length data) 0 = (r, k')"
    using assms(4-8) l by (simp add: write_pipe_def Let_def)
  have "no_waiter ?k i" "user_bytes ?k buf data" using assms(2,3) by (simp_all add: no_waiter_def user_bytes_def)
  moreover have b: "pipe_bytes ?k i = pipe_bytes k i" "pipe_ok ?k i = pipe_ok k i" using p by (simp_all only: pipe_bytes_def pipe_ok_def)
  ultimately show ?thesis
    using pipe_write_loop_spec [OF w, unfolded b Let_def diff_zero drop_0 add_0, folded d_def] assms(1,7) by auto
qed

section \<open>Closing a write end\<close>

lemma pipe_read_empty:
  assumes "pi_count (pipe k i) = 0" "waits_for_pipe k i ti" "tk_pipe_wait_buf (tasks k ti) \<noteq> 0" "tk_pipe_wait_count (tasks k ti) \<noteq> 0"
  shows "snd (pipe_read_into_task k ti i) = set_task k ti (\<lambda>t. (end_pipe_wait 0 t)\<lparr>tk_io_wait_kind := IO_WAIT_NONE, tk_io_wait_valid := False,
     tk_io_wait_nr := 0, tk_state := TASK_RUNNABLE\<rparr>)"
  using assms by (simp add: pipe_read_into_task_def pipe_read_loop.simps [of _ k] waits_for_pipe_def Let_def)

lemma pipe_read_keeps:
  assumes "pi_count (pipe k i) = 0"
  shows "fds (snd (pipe_read_into_task k ti i)) = fds k" "j \<noteq> ti \<Longrightarrow> tasks (snd (pipe_read_into_task k ti i)) j = tasks k j"
  using assms by (simp_all add: pipe_read_into_task_def pipe_read_loop.simps [of _ k] Let_def)

lemma waits_cong:
  assumes "fds k' = fds k" "tasks k' ti = tasks k ti"
  shows "waits_for_pipe k' i ti = waits_for_pipe k i ti"
  unfolding waits_for_pipe_def assms ..

lemma pipe_wake_empty:
  assumes e: "pi_count (pipe k i) = 0" and w: "waits_for_pipe k i ti" "ti < n" "tk_pipe_wait_buf (tasks k ti) \<noteq> 0" "tk_pipe_wait_count (tasks k ti) \<noteq> 0"
  defines "k' \<equiv> fold (\<lambda>ti k. if waits_for_pipe k i ti then snd (pipe_read_into_task k ti i) else k) [0..<n] k"
  shows "tk_state (tasks k' ti) = TASK_RUNNABLE \<and> cx_rax (tk_ctx (tasks k' ti)) = 0"
proof -
  let ?s = "\<lambda>ti k. if waits_for_pipe k i ti then snd (pipe_read_into_task k ti i) else k"
  let ?K = "\<lambda>m. fold ?s [0..<m] k"
  have f: "fds (?K m) = fds k \<and> (\<forall>j \<ge> m. tasks (?K m) j = tasks k j)" for m
  proof (induction m)
    case (Suc m)
    have c: "pi_count (pipe (?K m) i) = 0" using Suc e by (simp add: pipe_def)
    show ?case using Suc pipe_read_keeps [OF c] by auto
  qed simp
  have "tk_state (tasks (?K m) ti) = TASK_RUNNABLE \<and> cx_rax (tk_ctx (tasks (?K m) ti)) = 0" if "ti < m" for m
    using that
  proof (induction m)
    case (Suc m)
    have c: "pi_count (pipe (?K m) i) = 0" using f [of m] e by (simp add: pipe_def)
    show ?case
    proof (cases "ti = m")
      case True
      have "tasks (?K m) m = tasks k m" "fds (?K m) = fds k" using f [of m] by simp_all
      then have "waits_for_pipe (?K m) i m" using w(1) waits_cong True by blast
      then show ?thesis using pipe_read_empty [OF c, of m] w(3,4) True f [of m] by (simp add: end_pipe_wait_def)
    next
      case False
      then show ?thesis using Suc pipe_read_keeps(2) [OF c, of ti m] by simp
    qed
  qed simp
  then show ?thesis using w(2) unfolding k'_def by blast
qed

lemma drop_resources_frame:
  "f' \<noteq> f \<Longrightarrow> desc (fd_drop_resources s f) f' = desc s f'" "task_fd_table_id (fd_drop_resources s f) = task_fd_table_id s"
  "pipes (fd_drop_resources s f) = pipes s"
  by (auto simp: fd_drop_resources_def release_open_offset_def set_open_def set_desc_def desc_def Let_def prod_eq_iff split: option.split)

lemma mark_closed_frame:
  "f' \<noteq> f \<Longrightarrow> desc (fd_mark_closed s f) f' = desc s f'" "task_fd_table_id (fd_mark_closed s f) = task_fd_table_id s"
  "pipes (fd_mark_closed s f) = pipes s"
  by (auto simp: fd_mark_closed_def input_state_release_def set_input_def set_desc_def desc_def Let_def prod_eq_iff split: option.split)

lemma set_pipe_frame2:
  "desc (set_pipe s i g) = desc s" "task_fd_table_id (set_pipe s i g) = task_fd_table_id s" "pipes (set_pipe s i g) i = g (pipes s i)"
  by (simp_all add: set_pipe_def desc_def fun_eq_iff)

lemma close_writer_frame:
  assumes "fd_type (desc s f) = FD_PIPE_W" "fd_private (desc s f) = Pipe i"
  shows "f' \<noteq> f \<Longrightarrow> desc (close_desc s f) f' = desc s f'" "task_fd_table_id (close_desc s f) = task_fd_table_id s"
    "pi_count (pipes (close_desc s f) i) = pi_count (pipes s i)"
  using assms by (simp_all add: close_desc_def Let_def set_pipe_frame2 mark_closed_frame drop_resources_frame)

text \<open>
  C39: closing one write end of an empty pipe ends the read of every task that sleeps in the pipe: it becomes
  runnable and its call returns 0, the end of the file, no matter how many other write ends are open.
\<close>

theorem close_writer_ends_read:
  assumes fd: "\<not> bad_fd fd" "fd_in_use (files k fd)" "fd_type (files k fd) = FD_PIPE_W" "fd_private (files k fd) = Pipe i"
    and w: "waits_for_pipe k i ti" "ti < MAX_TASKS" "tk_pipe_wait_buf (tasks k ti) \<noteq> 0" "tk_pipe_wait_count (tasks k ti) \<noteq> 0"
    and e: "pi_count (pipe k i) = 0"
    and other: "(nat (task_fd_table_id (fds k) ti), nat (tk_pipe_wait_fd (tasks k ti))) \<noteq> (current_files (fds k) (current_task k), nat fd)"
  shows "fst (sys_close k fd) = 0 \<and> tk_state (tasks (snd (sys_close k fd)) ti) = TASK_RUNNABLE
    \<and> cx_rax (tk_ctx (tasks (snd (sys_close k fd)) ti)) = 0"
proof -
  let ?slot = "(current_files (fds k) (current_task k), nat fd)"
  let ?k = "on_fds k (\<lambda>s. close_desc s ?slot)"
  have t: "fd_type (desc (fds k) ?slot) = FD_PIPE_W" "fd_private (desc (fds k) ?slot) = Pipe i" using fd by (simp_all add: files_def)
  note C = close_writer_frame [OF t]
  have tb: "task_files_for_task (fds ?k) ti = task_files_for_task (fds k) ti" using C(2) by (simp add: task_files_for_task_def)
  have "task_files_for_task (fds k) ti = Some (nat (task_fd_table_id (fds k) ti))"
    using w(1) by (auto simp: waits_for_pipe_def Let_def task_files_for_task_def split: if_splits)
  then have "waits_for_pipe ?k i ti" using w(1) C(1) [OF other] unfolding waits_for_pipe_def tb by simp
  moreover have "pi_count (pipe ?k i) = 0" using e C(3) by (simp add: pipe_def)
  ultimately have "tk_state (tasks (pipe_wake_readers ?k i) ti) = TASK_RUNNABLE \<and> cx_rax (tk_ctx (tasks (pipe_wake_readers ?k i) ti)) = 0"
    using pipe_wake_empty [of ?k i ti MAX_TASKS] w unfolding pipe_wake_readers_def by simp
  moreover have "sys_close k fd = (0, pipe_wake_readers ?k i)" using fd by (simp add: sys_close_def Let_def)
  ultimately show ?thesis by simp
qed

text \<open>A pipe with two write ends and a reader that sleeps.\<close>

definition demo_pipes :: kernel where
  "demo_pipes = demo_kernel\<lparr>tasks := (\<lambda>i. (tasks demo_kernel i)\<lparr>tk_used := i < 2, tk_state := (if i = 1 then TASK_BLOCKED else TASK_RUNNING),
       tk_pipe_wait_fd := (if i = 1 then 3 else -1), tk_pipe_wait_buf := 8, tk_pipe_wait_count := 16\<rparr>),
     fds := zero_fds\<lparr>task_fd_tables := (\<lambda>_ n. if n = 3 then closed_desc\<lparr>fd_in_use := True, fd_type := FD_PIPE_R, fd_private := Pipe 0\<rparr>
       else if n = 4 \<or> n = 5 then closed_desc\<lparr>fd_in_use := True, fd_type := FD_PIPE_W, fd_private := Pipe 0\<rparr> else closed_desc)\<rparr>\<rparr>"

lemma demo_pipes_sel:
  "files demo_pipes 4 = closed_desc\<lparr>fd_in_use := True, fd_type := FD_PIPE_W, fd_private := Pipe 0\<rparr>"
  "task_fd_table_id (fds demo_pipes) j = 0" "current_files (fds demo_pipes) (current_task demo_pipes) = 0"
  "desc (fds demo_pipes) (0, 3) = closed_desc\<lparr>fd_in_use := True, fd_type := FD_PIPE_R, fd_private := Pipe 0\<rparr>"
  "desc (fds demo_pipes) (0, 5) = closed_desc\<lparr>fd_in_use := True, fd_type := FD_PIPE_W, fd_private := Pipe 0\<rparr>"
  "pi_count (pipe demo_pipes 0) = 0" "tk_used (tasks demo_pipes 1)" "tk_state (tasks demo_pipes 1) = TASK_BLOCKED"
  "tk_pipe_wait_fd (tasks demo_pipes 1) = 3" "tk_pipe_wait_buf (tasks demo_pipes 1) = 8" "tk_pipe_wait_count (tasks demo_pipes 1) = 16"
  by (simp_all add: demo_pipes_def demo_kernel_def files_def current_files_def valid_table_def zero_fds_def desc_def pipe_def)

theorem close_writer_ends_read_witness:
  "desc (fds demo_pipes) (0, 5) = closed_desc\<lparr>fd_in_use := True, fd_type := FD_PIPE_W, fd_private := Pipe 0\<rparr>
    \<and> tk_state (tasks (snd (sys_close demo_pipes 4)) 1) = TASK_RUNNABLE \<and> cx_rax (tk_ctx (tasks (snd (sys_close demo_pipes 4)) 1)) = 0"
proof -
  have "waits_for_pipe demo_pipes 0 1"
    by (simp add: waits_for_pipe_def demo_pipes_sel [simplified] task_files_for_task_def valid_table_def closed_desc_def)
  then show ?thesis
    using close_writer_ends_read [of 4 demo_pipes 0 1] demo_pipes_sel by (simp add: bad_fd_def closed_desc_def)
qed

text \<open>
  A system call that sleeps returns. When no other task can run, the kernel waits for
  interrupts; if some interrupt makes the sleeping task runnable, the wait ends and the call returns 0.
\<close>

lemma block_returns:
  assumes "current_task k < MAX_TASKS"
    and "tk_state (tasks (ticked tick 0 n (set_task k (current_task k) (io_sleep k f kind nr deadline))) (current_task k)) \<noteq> TASK_BLOCKED"
  shows "\<exists>k'. task_block_io_until tick k f kind nr deadline = Some (0, k')"
  using assms idle_loop_returns [OF assms(2)] by (auto simp: task_block_io_until_def Let_def split: option.split)

text \<open>The same pipe with readable memory and no reader asleep, for the write.\<close>

definition demo_writer :: kernel where
  "demo_writer = demo_pipes\<lparr>vm := demo_rw, syscall_user_cr3 := 0x2000,
     tasks := (\<lambda>i. (tasks demo_pipes i)\<lparr>tk_pipe_wait_fd := -1\<rparr>),
     fds := (fds demo_pipes)\<lparr>task_fd_table_refs := (\<lambda>t. if t = 0 then 1 else 0)\<rparr>\<rparr>"

definition demo_bytes :: "u8 list" where
  "demo_bytes = frame_bytes (mem demo_rw) 0x1000000 8 5"

lemma frame_bytes_part: "j + n \<le> len \<Longrightarrow> take n (drop j (frame_bytes m f off len)) = frame_bytes m f (off + j) n"
  by (rule nth_equalityI) (auto simp: frame_bytes_def add.assoc)

lemma copy_in_none: "vm k = demo_rw \<Longrightarrow> syscall_user_cr3 k = 0x2000 \<Longrightarrow> copy_in k addr 0 = Some []"
  by (simp add: copy_in_def user_copy_from_def copy_cr3_def user_copy_from_cr3_def copy_from_loop.simps)

lemma demo_user_bytes: "user_bytes demo_writer 8 demo_bytes"
  unfolding user_bytes_def
proof (intro allI impI)
  fix j m assume "j + m \<le> length demo_bytes"
  then have le: "j + m \<le> 5" by (simp add: demo_bytes_def frame_bytes_def)
  have k: "vm demo_writer = demo_rw" "syscall_user_cr3 demo_writer = 0x2000" by (simp_all add: demo_writer_def)
  show "copy_in demo_writer (8 + of_nat j) m = Some (take m (drop j demo_bytes))"
  proof (cases "m = 0")
    case True
    then show ?thesis using copy_in_none [OF k] by simp
  next
    case False
    then have "j \<in> {0, 1, 2, 3, 4}" using le by auto
    then have "(8 + of_nat j :: u64) AND PAGE_MASK = 0" "unat ((8 + of_nat j :: u64) AND 0xFFF) = 8 + j" by auto
    then show ?thesis
      using demo_rw_copy_in [OF k, of "8 + of_nat j" m] False le frame_bytes_part [of j m 5 "mem demo_rw" "0x1000000" 8]
      by (simp add: demo_bytes_def)
  qed
qed

lemma demo_readers: "pipe_live (fds demo_writer) FD_PIPE_R 0 \<noteq> 0"
proof -
  let ?s = "fds demo_writer" let ?P = "\<lambda>f. fd_in_use (desc ?s f) \<and> fd_private (desc ?s f) = Pipe 0 \<and> fd_type (desc ?s f) = FD_PIPE_R"
  let ?ts = "filter (\<lambda>t. task_fd_table_refs ?s t \<noteq> 0) [0..<MAX_FD_TABLES]"
  let ?l = "length (filter ?P (List.product ?ts [0..<MAX_FILES]))"
  have "desc ?s (0, 3) = desc (fds demo_pipes) (0, 3)" by (simp add: demo_writer_def desc_def)
  then have "?P (0, 3)" using demo_pipes_sel(4) by simp
  moreover have "(0, 3) \<in> set (List.product ?ts [0..<MAX_FILES])" by (simp add: demo_writer_def)
  ultimately have "filter ?P (List.product ?ts [0..<MAX_FILES]) \<noteq> []" unfolding filter_empty_conv by blast
  then have "0 < ?l" by (rule length_greater_0_conv [THEN iffD2])
  moreover have "?l \<le> 32 * 512"
  proof -
    have "?l \<le> length ?ts * 512" using length_filter_le [of ?P "List.product ?ts [0..<MAX_FILES]"] by (simp add: length_product)
    moreover have "length ?ts \<le> 32" using length_filter_le [of _ "[0..<MAX_FD_TABLES]"] by (metis length_upt diff_zero)
    ultimately show ?thesis by simp
  qed
  ultimately show ?thesis by (simp add: pipe_live_def word_unat_eq_iff unat_of_nat)
qed

theorem pipe_write_appends_witness:
  "fst (write_pipe demo_writer (files demo_pipes 4) 8 5) = 5
    \<and> pipe_bytes (snd (write_pipe demo_writer (files demo_pipes 4) 8 5)) 0 = demo_bytes"
proof -
  have r: "pring (pipe demo_writer 0) = \<lparr>rg_buf = (\<lambda>_. 0), rg_r = 0, rg_w = 0, rg_n = 0\<rparr>"
    by (simp add: demo_writer_def demo_pipes_def zero_fds_def pipe_def pring_def)
  have p: "pipe_ok demo_writer 0" "pipe_bytes demo_writer 0 = []" by (simp_all add: pipe_ok_def pipe_bytes_def r ring_ok_def ring_contents_def)
  have n: "no_waiter demo_writer 0" by (simp add: no_waiter_def waits_for_pipe_def demo_writer_def Let_def)
  have l: "length demo_bytes = 5" by (simp add: demo_bytes_def frame_bytes_def)
  have "demo_bytes \<noteq> []" using l by auto
  then show ?thesis
    using pipe_write_appends [OF p(1) n demo_user_bytes _ demo_readers _ _ prod.collapse [symmetric], of "files demo_pipes 4" 5] l p(2)
    by (auto simp: demo_pipes_sel)
qed

end
