(* ===== verification/Fd_Calls.thy ===== *)
theory Fd_Calls
  imports Fd_Spec Poll Exec Pipe_Spec
begin

text \<open>
  The system calls that create, copy, share and close descriptors keep the invariant of the descriptor layer:
  from the operations on the tables to the calls of the kernel, with the tasks that a close wakes and the
  bytes that it hands to the readers of a pipe.
\<close>

section \<open>Changes of contents\<close>

text \<open>A change that moves bytes, offsets or events and leaves alone what refers to what.\<close>

definition same_desc :: "file_desc \<Rightarrow> file_desc \<Rightarrow> bool" where
  "same_desc d d' \<longleftrightarrow> fd_in_use d' = fd_in_use d \<and> fd_type d' = fd_type d \<and> fd_private d' = fd_private d
     \<and> fd_shared_offset d' = fd_shared_offset d \<and> fd_input_state d' = fd_input_state d"

definition same_refs :: "fd_state \<Rightarrow> fd_state \<Rightarrow> bool" where
  "same_refs s s' \<longleftrightarrow> (\<forall>f. same_desc (desc s f) (desc s' f)) \<and> task_fd_table_id s' = task_fd_table_id s
     \<and> task_fd_table_refs s' = task_fd_table_refs s \<and> (\<forall>r. refs s' r = refs s r \<and> marked s' r = marked s r)"

lemma same_refs_refl [simp]: "same_refs s s" by (simp add: same_refs_def same_desc_def)

lemma same_refs_trans: "same_refs s s' \<Longrightarrow> same_refs s' s'' \<Longrightarrow> same_refs s s''"
  by (simp add: same_refs_def same_desc_def)

lemma same_desc_spec: "same_desc d d' \<Longrightarrow> uses d' = uses d \<and> desc_ok d' = desc_ok d"
  using desc_cong [of d' d] unfolding same_desc_def by blast

lemma same_refs_ok:
  assumes "same_refs s s'"
  shows "fd_ok s' = fd_ok s"
proof -
  have "\<And>f. uses (desc s' f) = uses (desc s f)" "\<And>f. desc_ok (desc s' f) = desc_ok (desc s f)" "\<And>f. fd_in_use (desc s' f) = fd_in_use (desc s f)"
    using assms same_desc_spec unfolding same_refs_def same_desc_def by blast+
  then show ?thesis using assms by (simp add: same_refs_def fd_ok_def balanced_def users_def holders_def)
qed

lemma same_refs_files: "same_refs s s' \<Longrightarrow> current_files s' ct = current_files s ct"
  by (simp add: same_refs_def current_files_def)

lemma current_files_cong: "task_fd_table_id s' = task_fd_table_id s \<Longrightarrow> current_files s' ct = current_files s ct"
  by (simp add: current_files_def)

lemma same_refs_ring: "same_refs s (set_pipe s i (\<lambda>p. set_pring p q))"
  by (simp add: same_refs_def same_desc_def refs_set_pipe marked_set_pipe set_pring_def)

text \<open>A read of a pipe changes the ring and the memory of the reader, a wake-up only tasks.\<close>

definition calm_fds :: "kernel \<Rightarrow> kernel \<Rightarrow> bool" where
  "calm_fds k k' \<longleftrightarrow> same_refs (fds k) (fds k') \<and> current_task k' = current_task k"

lemma calm_fds_refl [simp]: "calm_fds k k" by (simp add: calm_fds_def)
lemma calm_fds_trans: "calm_fds k k' \<Longrightarrow> calm_fds k' k'' \<Longrightarrow> calm_fds k k''" using same_refs_trans by (auto simp: calm_fds_def)

lemma calm_set_task [simp]: "calm_fds k (set_task k' ti f) = calm_fds k k'"
  by (simp add: calm_fds_def set_task_def)

lemma calm_copy_cr3: "copy_out_cr3 cr3 k a bs = (ok, k') \<Longrightarrow> calm_fds k k'"
proof -
  obtain r v where "user_copy_to_cr3 (vm k) cr3 a bs = (r, v)" by (rule prod.exhaust)
  then have "copy_out_cr3 cr3 k a bs = (r = 0, k\<lparr>vm := v\<rparr>)" by (simp add: copy_out_cr3_def)
  then show "copy_out_cr3 cr3 k a bs = (ok, k') \<Longrightarrow> calm_fds k k'" by (auto simp: calm_fds_def)
qed

lemma fds_copy_out: "copy_out k a bs = (ok, k') \<Longrightarrow> fds k' = fds k \<and> current_task k' = current_task k"
proof -
  obtain r v where "user_copy_to (vm k) (syscall_user_cr3 k) a bs = (r, v)" by (rule prod.exhaust)
  then have "copy_out k a bs = (r = 0, k\<lparr>vm := v\<rparr>)" by (simp add: copy_out_def)
  then show "copy_out k a bs = (ok, k') \<Longrightarrow> fds k' = fds k \<and> current_task k' = current_task k" by auto
qed

lemma calm_take: "pipe_take k i n = (bs, k') \<Longrightarrow> calm_fds k k'"
  by (auto simp: pipe_take_def calm_fds_def same_refs_ring split: prod.splits)

lemma calm_read_loop:
  "pipe_read_loop (copy_out_cr3 cr3) k i buf len m = (ok, n, k') \<Longrightarrow> calm_fds k k'"
proof (induction "copy_out_cr3 cr3" k i buf len m rule: pipe_read_loop.induct)
  case (1 k i buf len m)
  show ?case
  proof (cases "m \<ge> len \<or> pi_count (pipe k i) = 0")
    case True
    then show ?thesis using 1(2) by (simp add: pipe_read_loop.simps [of _ k])
  next
    case False
    let ?n = "min (min 256 (len - m)) (unat (pi_count (pipe k i)))"
    obtain bs k1 where t: "pipe_take k i ?n = (bs, k1)" by (rule prod.exhaust)
    obtain ok' k2 where c: "copy_out_cr3 cr3 k1 (buf + of_nat m) bs = (ok', k2)" by (rule prod.exhaust)
    have k2: "calm_fds k k2" by (rule calm_fds_trans [OF calm_take [OF t] calm_copy_cr3 [OF c]])
    show ?thesis
    proof (cases ok')
      case True
      then have "pipe_read_loop (copy_out_cr3 cr3) k2 i buf len (m + ?n) = (ok, n, k')"
        using 1(2) False t c by (subst (asm) pipe_read_loop.simps) (simp add: Let_def)
      then show ?thesis using 1(1) [OF False refl t [symmetric] refl c [symmetric] refl] True calm_fds_trans [OF k2] by simp
    next
      case F: False
      then have "k' = k2" using 1(2) False t c by (subst (asm) pipe_read_loop.simps) (simp add: Let_def)
      then show ?thesis using k2 by simp
    qed
  qed
qed

lemma calm_into_task: "calm_fds k (snd (pipe_read_into_task k ti i))"
  using calm_read_loop [of "cx_cr3 (tk_ctx (tasks k ti))" k i "tk_pipe_wait_buf (tasks k ti)" "unat (tk_pipe_wait_count (tasks k ti))" 0]
  by (auto simp: pipe_read_into_task_def Let_def split: prod.splits bool.splits)

lemma calm_wake_readers: "calm_fds k (pipe_wake_readers k i)"
proof -
  have "calm_fds k (fold (\<lambda>ti k. if waits_for_pipe k i ti then snd (pipe_read_into_task k ti i) else k) xs k)" for xs k
    by (induction xs arbitrary: k) (auto intro: calm_fds_trans [OF calm_into_task])
  then show ?thesis by (simp add: pipe_wake_readers_def)
qed

lemma calm_wake_closed: "calm_fds k (wake_closed_readers k fd)"
proof -
  have "calm_fds k (fold (\<lambda>ti k. let t = tasks k ti in
       if tk_used t \<and> tk_state t = TASK_BLOCKED \<and> tk_pipe_wait_fd t = fd
       then set_task k ti (\<lambda>t. (end_pipe_wait 0 t)\<lparr>tk_state := TASK_RUNNABLE\<rparr>) else k) xs k)" for xs k
  proof (induction xs arbitrary: k)
    case (Cons x xs)
    have "calm_fds k (let t = tasks k x in if tk_used t \<and> tk_state t = TASK_BLOCKED \<and> tk_pipe_wait_fd t = fd
       then set_task k x (\<lambda>t. (end_pipe_wait 0 t)\<lparr>tk_state := TASK_RUNNABLE\<rparr>) else k)" by (simp add: Let_def)
    from calm_fds_trans [OF this Cons] show ?case by simp
  qed simp
  then show ?thesis by (simp add: wake_closed_readers_def)
qed

lemma calm_wake_all: "calm_fds k (wake_all k)"
  unfolding wake_all_def task_wake_io_waiters_eq by (simp add: calm_fds_def woken_def)

section \<open>Closing\<close>

lemma close_desc_slot:
  assumes "typed (desc s f)" "fd_in_use (desc s f)"
  shows "desc (close_desc s f) h = (if h = f then closed_desc else desc s h)" "task_fd_table_id (close_desc s f) = task_fd_table_id s"
proof -
  have m: "desc (fd_mark_closed s f) h = (if h = f then closed_desc else desc s h)" "task_fd_table_id (fd_mark_closed s f) = task_fd_table_id s" for s h
    by (auto simp: fd_mark_closed_def Let_def split: option.split)
  have r: "desc (fd_drop_resources s f) h = (if h = f then (desc s f)\<lparr>fd_shared_offset := None\<rparr> else desc s h)"
    "task_fd_table_id (fd_drop_resources s f) = task_fd_table_id s" for s h
    by (auto simp: fd_drop_resources_def split: option.split)
  have p: "desc (close_pty s d) h = desc s h" "task_fd_table_id (close_pty s d) = task_fd_table_id s" for s d h
    by (simp_all add: close_pty_def set_defs split: private_data.split)
  have k: "desc (socket_fd_drop_ref s d) h = desc s h" "task_fd_table_id (socket_fd_drop_ref s d) = task_fd_table_id s" for s d h
    by (simp_all add: socket_fd_drop_ref_def set_defs split: private_data.split)
  have e: "desc (task_fd_release s f) h = (if h = f then closed_desc else desc s h)" "task_fd_table_id (task_fd_release s f) = task_fd_table_id s" for h
    using assms(2) by (auto simp: task_fd_release_def Let_def m split: option.split)
  show "desc (close_desc s f) h = (if h = f then closed_desc else desc s h)" "task_fd_table_id (close_desc s f) = task_fd_table_id s"
    using assms(1) by (auto simp: close_desc_def Let_def m r p k e typed_def split: private_data.splits fd_type.splits)
qed

lemma sys_close_fds:
  assumes "\<not> bad_fd fd" "fd_in_use (files k fd)" "typed (files k fd)"
  defines "f \<equiv> (current_files (fds k) (current_task k), nat fd)"
  shows "same_refs (close_desc (fds k) f) (fds (snd (sys_close k fd)))" "current_task (snd (sys_close k fd)) = current_task k"
proof -
  let ?k = "on_fds k (\<lambda>s. close_desc s f)"
  have "calm_fds ?k (snd (sys_close k fd))"
  proof (cases "fd_type (files k fd) = FD_SOCKET")
    case True
    have "desc (fds k) f = files k fd" by (simp add: files_def f_def)
    then have "close_desc (fds k) f = fd_mark_closed (fd_drop_resources (socket_fd_drop_ref (fds k) (files k fd)) f) f"
      using True by (simp add: close_desc_def Let_def)
    moreover have "current_task (wake_all (on_fds k g)) = current_task k" for g
      using calm_wake_all [of "on_fds k g"] by (simp add: calm_fds_def)
    ultimately show ?thesis using assms(1,2) True by (simp add: sys_close_def Let_def f_def calm_fds_def)
  next
    case False
    have "calm_fds ?k (pipe_wake_readers ?k i)" "calm_fds ?k (wake_closed_readers ?k fd)" "calm_fds ?k (wake_all ?k)" for i
      by (rule calm_wake_readers calm_wake_closed calm_wake_all)+
    then show ?thesis using assms(1-3) False unfolding sys_close_def Let_def f_def
      by (auto simp: typed_def split: private_data.splits)
  qed
  then show "same_refs (close_desc (fds k) f) (fds (snd (sys_close k fd)))" "current_task (snd (sys_close k fd)) = current_task k"
    by (simp_all add: calm_fds_def)
qed

text \<open>What holds between two calls of the kernel.\<close>

definition calls_ok :: "kernel \<Rightarrow> bool" where
  "calls_ok k \<longleftrightarrow> fd_ok (fds k) \<and> current_task k < 64"

lemma open_typed:
  assumes "calls_ok k" "\<not> bad_fd fd" "fd_in_use (files k fd)"
  shows "typed (files k fd)"
proof -
  have ok: "fd_ok (fds k)" "current_task k < 64" "nat fd < MAX_FILES" using assms by (auto simp: calls_ok_def bad_fd_def)
  show ?thesis using fd_okD(5) [OF ok(1) current_slot(1) [OF ok]] assms(3) by (simp add: desc_ok_def files_def)
qed

lemma sys_close_ok:
  assumes k: "calls_ok k"
  shows "calls_ok (snd (sys_close k fd))"
proof (cases "bad_fd fd \<or> \<not> fd_in_use (files k fd)")
  case True
  then show ?thesis using k by (simp add: sys_close_def)
next
  case False
  have n: "nat fd < MAX_FILES" using False by (auto simp: bad_fd_def)
  note sl = current_slot(1) [OF _ _ n, of "fds k" "current_task k"]
  have "fd_ok (close_desc (fds k) (current_files (fds k) (current_task k), nat fd))"
    by (rule close_desc_ok) (use k sl False in \<open>auto simp: calls_ok_def files_def\<close>)
  then show ?thesis using sys_close_fds [of fd k] open_typed [OF k] False k same_refs_ok by (auto simp: calls_ok_def)
qed

lemma close_on_exec_ok: "calls_ok k \<Longrightarrow> calls_ok (close_on_exec k)"
proof -
  have "calls_ok k \<Longrightarrow> calls_ok (fold (\<lambda>fd k. if fd_in_use (files k (int fd)) \<and> fd_flags (files k (int fd)) AND 0x80000 \<noteq> 0
      then snd (sys_close k (int fd)) else k) xs k)" for xs
    by (induction xs arbitrary: k) (simp_all add: sys_close_ok)
  then show "calls_ok k \<Longrightarrow> calls_ok (close_on_exec k)" by (simp add: close_on_exec_def)
qed

section \<open>Copying to a given number\<close>

lemma dup_to_ok:
  assumes k: "calls_ok k" and o: "\<not> bad_fd oldfd" "fd_in_use (files k oldfd)" "\<not> bad_fd newfd" "oldfd \<noteq> newfd"
  shows "calls_ok (dup_to k oldfd newfd fl)"
proof -
  define k1 where "k1 = (if fd_in_use (files k newfd) then snd (sys_close k newfd) else k)"
  let ?t = "current_files (fds k) (current_task k)"
  have n: "nat oldfd < MAX_FILES" "nat newfd < MAX_FILES" "nat oldfd \<noteq> nat newfd" using o by (auto simp: bad_fd_def)
  have k1: "calls_ok k1" "current_task k1 = current_task k" "current_files (fds k1) (current_task k1) = ?t"
    "\<not> fd_in_use (desc (fds k1) (?t, nat newfd))" "fd_in_use (desc (fds k1) (?t, nat oldfd))"
  proof (atomize (full), cases "fd_in_use (files k newfd)", goal_cases)
    case 1
    note C = sys_close_fds [OF o(3) 1 open_typed [OF k o(3) 1]]
    have t: "typed (desc (fds k) (?t, nat newfd))" "fd_in_use (desc (fds k) (?t, nat newfd))"
      using open_typed [OF k o(3) 1] 1 by (simp_all add: files_def)
    note D = close_desc_slot [OF t]
    have "same_desc (desc (close_desc (fds k) (?t, nat newfd)) h) (desc (fds k1) h)" for h
      using C(1) unfolding k1_def if_P [OF 1] same_refs_def by blast
    then have "fd_in_use (desc (fds k1) h) = fd_in_use (if h = (?t, nat newfd) then closed_desc else desc (fds k) h)" for h
      unfolding D(1) same_desc_def by blast
    moreover have "current_files (fds k1) (current_task k1) = ?t"
      using C(2) 1 same_refs_files [OF C(1)] current_files_cong [OF D(2)] by (simp add: k1_def)
    ultimately show ?case using C(2) 1 sys_close_ok [OF k] n o(2) by (simp add: k1_def files_def)
  next
    case 2
    then show ?case using k o(2) by (simp add: k1_def files_def)
  qed
  have ok: "fd_ok (fds k1)" "current_task k1 < 64" using k1(1) by (simp_all add: calls_ok_def)
  note sl = current_slot [OF ok, unfolded k1(3)]
  let ?g = "\<lambda>d. d\<lparr>fd_flags := (fd_flags d AND NOT O_CLOEXEC) OR fl\<rparr>"
  let ?s = "fd_retain_endpoint_ref (set_desc (fd_copy_scalar (fds k1) (?t, nat newfd) (?t, nat oldfd)) (?t, nat newfd) ?g) (?t, nat newfd)"
  have L: "local_step {(?t, nat newfd)} (fds k1) ?s" "desc ?s (?t, nat newfd) = ?g (desc (fds k1) (?t, nat oldfd))"
    by (rule dup_slot [OF sl(1) [OF n(1)] sl(1) [OF n(2)] k1(4,5)]; simp add: uses_flags)+
  have "desc_ok (?g d) = desc_ok d" for d by (rule desc_cong(3)) simp_all
  then have "desc_ok (desc ?s (?t, nat newfd))" unfolding L(2) using fd_okD(5) [OF ok(1) sl(1) [OF n(1)]] by blast
  then have "fd_ok ?s" using slot_step_ok [OF ok(1) L(1)] sl(2) [OF n(2)] by simp
  then show ?thesis using k1(2) ok(2) unfolding dup_to_def k1_def [symmetric] Let_def k1(3) by (simp add: calls_ok_def)
qed

lemma sys_dup_to_ok: "calls_ok k \<Longrightarrow> calls_ok (snd (sys_dup2 k oldfd newfd))" "calls_ok k \<Longrightarrow> calls_ok (snd (sys_dup3 k oldfd newfd flags))"
  by (auto simp: sys_dup2_def sys_dup3_def intro: dup_to_ok)

section \<open>Creating descriptors\<close>

text \<open>Opening a free slot with an object that nothing refers to yet.\<close>

lemma open_counted_ok:
  assumes ok: "fd_ok s" "ct < 64" and fd: "fd < MAX_FILES" "\<not> fd_in_use (desc s (current_files s ct, fd))"
    and s0: "\<And>f. desc s0 f = desc s f" "task_fd_table_id s0 = task_fd_table_id s" "task_fd_table_refs s0 = task_fd_table_refs s"
    and r: "\<And>r. refs s0 r = (if r = x then 1 else refs s r)" "\<And>r. marked s0 r = (r = x \<or> marked s r)" "refs s x = 0"
    and g: "uses (g (desc s (current_files s ct, fd))) = {x}" "desc_ok (g (desc s (current_files s ct, fd)))"
  shows "fd_ok (set_desc s0 (current_files s ct, fd) g)"
proof -
  let ?f = "(current_files s ct, fd)" let ?s = "set_desc s0 ?f g"
  note sl = current_slot [OF ok fd(1)]
  have "uses (desc s ?f) = {}" using fd(2) by (simp add: uses_def)
  then have c: "card (users ?s r) = card (users s r) + of_bool (r = x)" for r
    using users_set [OF sl(1), of s0 g r] users_cong [of s0 s r] s0(1) g(1) by simp
  have "balanced ?s" unfolding balanced_def
  proof (intro conjI allI)
    fix r'
    have "unat (refs s r') = card (users s r')" "marked s r' \<longleftrightarrow> refs s r' \<noteq> 0" using fd_okD(1) [OF ok(1)] by (simp_all add: balanced_def)
    then show "unat (refs ?s r') = card (users ?s r')" "marked ?s r' = (refs ?s r' \<noteq> 0)" using c [of r'] r by auto
  qed
  then have "local_step {?f} s ?s" using s0 by (simp add: local_step_def)
  then show ?thesis by (rule slot_step_ok [OF ok(1)]) (use sl(2) s0(1) g(2) in simp_all)
qed

lemma epoll_create_ok:
  assumes k: "calls_ok k"
  shows "calls_ok (snd (sys_epoll_create1 k flags))"
proof -
  have ok: "fd_ok (fds k)" "current_task k < 64" using k by (simp_all add: calls_ok_def)
  let ?s = "fds k" let ?t = "current_files ?s (current_task k)"
  have "fd_ok (set_desc (set_epoll ?s i (\<lambda>e. clear_watches (e\<lparr>ep_used := True, ep_refs := 1\<rparr>))) (?t, fd)
      (\<lambda>d. d\<lparr>fd_in_use := True, fd_type := FD_EPOLL, fd_flags := flags, fd_private := Epoll i\<rparr>))"
    if f: "find_free_fd ?s (current_task k) = Some fd" and i: "i < 4" "\<not> ep_used (epolls ?s i)" for fd i
  proof -
    let ?new = "set_epoll ?s i (\<lambda>e. clear_watches (e\<lparr>ep_used := True, ep_refs := 1\<rparr>))"
      and ?g = "\<lambda>d. d\<lparr>fd_in_use := True, fd_type := FD_EPOLL, fd_flags := flags, fd_private := Epoll i\<rparr>"
    have R: "refs ?new r = (if r = Watch i then 1 else refs ?s r)" for r by (cases r) (auto simp: set_epoll_def clear_watches_def)
    have M: "marked ?new r = (r = Watch i \<or> marked ?s r)" for r by (cases r) (auto simp: set_epoll_def clear_watches_def)
    have "marked ?s (Watch i) \<longleftrightarrow> refs ?s (Watch i) \<noteq> 0" using fd_okD(1) [OF ok(1)] unfolding balanced_def by blast
    then have Z: "refs ?s (Watch i) = 0" using i(2) by simp
    have "desc_ok (desc ?s (?t, fd))" using fd_okD(5) [OF ok(1) current_slot(1) [OF ok free_fd(1) [OF f]]] .
    then have U: "uses (?g (desc ?s (?t, fd))) = {Watch i}" "desc_ok (?g (desc ?s (?t, fd)))"
      using free_fd(2) [OF f] i(1) by (simp_all add: uses_def endpoint_def shared_def desc_ok_def typed_def)
    show ?thesis by (rule open_counted_ok [OF ok free_fd [OF f] _ _ _ R M Z]) (use U in \<open>simp_all add: set_epoll_def desc_def\<close>)
  qed
  then show ?thesis using k find_upt(2,3) by (simp add: sys_epoll_create1_def calls_ok_def split: option.split) blast
qed

lemma sys_pipe_ok:
  assumes k: "calls_ok k"
  shows "calls_ok (snd (sys_pipe k ufds))"
proof -
  have ok: "fd_ok (fds k)" "current_task k < 64" using k by (simp_all add: calls_ok_def)
  show ?thesis
  proof (cases "ufds = 0 \<or> fst (pipe_open (fds k) (current_task k)) = None")
    case True
    then show ?thesis using k by (auto simp: sys_pipe_def split: prod.splits)
  next
    case False
    then obtain a b i s where p: "pipe_open (fds k) (current_task k) = (Some (a, b, i), s)" by (metis fst_conv option.exhaust prod_cases3 prod.collapse)
    let ?k = "k\<lparr>fds := s\<rparr>"
    obtain o1 k1 where c1: "copy_out ?k ufds (le_bytes 4 (of_nat a)) = (o1, k1)" by (rule prod.exhaust)
    obtain o2 k2 where c2: "(if o1 then copy_out k1 (ufds + 4) (le_bytes 4 (of_nat b)) else (False, k1)) = (o2, k2)" by (rule prod.exhaust)
    have k2: "fds k2 = s" "current_task k2 = current_task k"
      using fds_copy_out [OF c1] c2 fds_copy_out [of k1] by (auto split: if_splits)
    have "sys_pipe k ufds = (if o2 then (0, k2) else (- EFAULT, on_fds k2 (\<lambda>s. pipe_cancel s (current_task k2) a b i)))"
      using False by (simp add: sys_pipe_def p Let_def c1 c2)
    moreover have "fd_ok s" using pipe_open_ok [OF ok] p by simp
    ultimately show ?thesis using pipe_cancel_ok [OF ok p] ok(2) k2 by (simp add: calls_ok_def)
  qed
qed

lemma sys_pipe2_ok:
  assumes "calls_ok k"
  shows "calls_ok (snd (sys_pipe2 k ufds flags))"
proof -
  have s: "calls_ok (set_fd_flag k fd fl) = calls_ok k" for k fd fl
  proof -
    have "same_refs (fds k) (fds (set_fd_flag k fd fl))"
      by (simp add: same_refs_def same_desc_def set_fd_flag_def)
    then show ?thesis using same_refs_ok by (simp add: calls_ok_def set_fd_flag_def)
  qed
  show ?thesis using sys_pipe_ok [OF assms, of ufds]
    by (auto simp: sys_pipe2_def Let_def s split: prod.splits option.splits)
qed

section \<open>Sequences of calls\<close>

text \<open>
  Any number of calls from a state \<open>k0\<close>, made by whichever task runs. \<open>contents\<close> stands for a step of
  the kernel that moves bytes, offsets, events or tasks and does not create, copy or close a descriptor.
\<close>

inductive fd_calls :: "kernel \<Rightarrow> kernel \<Rightarrow> bool" for k0 where
  start: "fd_calls k0 k0"
| contents: "fd_calls k0 k \<Longrightarrow> same_refs (fds k) (fds k') \<Longrightarrow> current_task k' < MAX_TASKS \<Longrightarrow> fd_calls k0 k'"
| fork: "fd_calls k0 k \<Longrightarrow> ci < MAX_TASKS \<Longrightarrow> ci \<noteq> 0 \<Longrightarrow> task_fd_table_id (fds k) ci = -1 \<Longrightarrow>
    fd_calls k0 (on_fds k (\<lambda>s. snd (task_fd_table_clone s par ci share)))"
| exit: "fd_calls k0 k \<Longrightarrow> ti < MAX_TASKS \<Longrightarrow> fd_calls k0 (on_fds k (\<lambda>s. task_fd_table_release s ti))"
| exec: "fd_calls k0 k \<Longrightarrow> fd_calls k0 (close_on_exec k)"
| close: "fd_calls k0 k \<Longrightarrow> fd_calls k0 (snd (sys_close k fd))"
| dup: "fd_calls k0 k \<Longrightarrow> fd_calls k0 (on_fds k (\<lambda>s. snd (sys_dup s (current_task k) fd)))"
| dup2: "fd_calls k0 k \<Longrightarrow> fd_calls k0 (snd (sys_dup2 k oldfd newfd))"
| dup3: "fd_calls k0 k \<Longrightarrow> fd_calls k0 (snd (sys_dup3 k oldfd newfd flags))"
| fcntl: "fd_calls k0 k \<Longrightarrow> fd_calls k0 (on_fds k (\<lambda>s. snd (sys_fcntl s (current_task k) fd cmd arg)))"
| pipe: "fd_calls k0 k \<Longrightarrow> fd_calls k0 (snd (sys_pipe k ufds))"
| pipe2: "fd_calls k0 k \<Longrightarrow> fd_calls k0 (snd (sys_pipe2 k ufds flags))"
| eventfd: "fd_calls k0 k \<Longrightarrow> fd_calls k0 (on_fds k (\<lambda>s. snd (sys_eventfd2 s (current_task k) initval flags)))"
| timerfd: "fd_calls k0 k \<Longrightarrow> fd_calls k0 (on_fds k (\<lambda>s. snd (sys_timerfd_create s (current_task k) clockid flags)))"
| epoll: "fd_calls k0 k \<Longrightarrow> fd_calls k0 (snd (sys_epoll_create1 k flags))"

lemma calls_ok_on_fds: "calls_ok k \<Longrightarrow> fd_ok (g (fds k)) \<Longrightarrow> calls_ok (on_fds k g)"
  by (simp add: calls_ok_def)

lemma calls_okD: "calls_ok k \<Longrightarrow> fd_ok (fds k)" "calls_ok k \<Longrightarrow> current_task k < 64"
  by (simp_all add: calls_ok_def)

lemma fd_calls_ok: "fd_calls k0 k \<Longrightarrow> calls_ok k0 \<Longrightarrow> calls_ok k"
proof (induction rule: fd_calls.induct)
  case (contents k k')
  then show ?case using same_refs_ok by (auto simp: calls_ok_def)
qed (auto simp: sys_dup_def intro!: calls_ok_on_fds
      intro: table_clone_ok table_release_ok dup_internal_ok fcntl_ok eventfd_ok timerfd_ok sys_close_ok close_on_exec_ok sys_dup_to_ok
        sys_pipe_ok sys_pipe2_ok epoll_create_ok calls_okD)

section \<open>Properties\<close>

text \<open>
  C29. The counts of the descriptor layer stay exact. In any state \<open>k0\<close> in which they are, for example
  after boot or with files, terminals, sockets and devices open, and after any number of calls of
  \<^verbatim>\<open>close\<close>, \<^verbatim>\<open>dup\<close>, \<^verbatim>\<open>dup2\<close>, \<^verbatim>\<open>dup3\<close>, \<^verbatim>\<open>fcntl\<close>,
  \<^verbatim>\<open>pipe\<close>, \<^verbatim>\<open>pipe2\<close>, \<^verbatim>\<open>eventfd2\<close>, \<^verbatim>\<open>timerfd_create\<close> and
  \<^verbatim>\<open>epoll_create1\<close>, of table copies and releases by \<^verbatim>\<open>clone\<close> and \<^verbatim>\<open>exit\<close>, of
  the closing of descriptors in \<^verbatim>\<open>execve\<close>, and of steps that change no reference, error paths included: the
  count of each pipe end, terminal side, socket side, \<^verbatim>\<open>epoll\<close> instance, shared offset and input cursor is
  the number of open descriptors that refer to it, over all tables; an object is marked as used exactly as long
  as there is one; the count of a table is the number of tasks that use it; and the type of every open
  descriptor agrees with its \<^verbatim>\<open>private_data\<close>. The calls that open files and terminals, and those that
  create, connect and accept sockets, are not among the steps: \<^verbatim>\<open>connect\<close> counts a side that has no
  descriptor yet, and the error paths of \<^verbatim>\<open>accept\<close> and \<^verbatim>\<open>socketpair\<close> leave such counts behind.
\<close>

theorem fd_counts_exact:
  assumes "fd_ok (fds k0)" "current_task k0 < MAX_TASKS" "fd_calls k0 k"
  shows "(\<forall>r. unat (refs (fds k) r) = card (users (fds k) r) \<and> (marked (fds k) r \<longleftrightarrow> users (fds k) r \<noteq> {}))
    \<and> (\<forall>t < MAX_FD_TABLES. unat (task_fd_table_refs (fds k) t) = card (holders (fds k) t))
    \<and> (\<forall>t < MAX_FD_TABLES. \<forall>fd < MAX_FILES. fd_in_use (desc (fds k) (t, fd)) \<longrightarrow> typed (desc (fds k) (t, fd)))"
proof -
  have ok: "fd_ok (fds k)" using fd_calls_ok [OF assms(3)] assms(1,2) by (simp add: calls_ok_def)
  have u: "unat (refs (fds k) r) = card (users (fds k) r)" "marked (fds k) r \<longleftrightarrow> refs (fds k) r \<noteq> 0" for r
    using fd_okD(1) [OF ok] by (simp_all add: balanced_def)
  have "finite (users (fds k) r)" for r by (rule finite_subset [OF _ finite_slots]) (auto simp: users_def)
  then have "unat (refs (fds k) r) = 0 \<longleftrightarrow> users (fds k) r = {}" for r using u(1) by simp
  then have "refs (fds k) r = 0 \<longleftrightarrow> users (fds k) r = {}" for r by (simp add: unat_eq_zero)
  moreover have "typed (desc (fds k) (t, fd))" if "t < MAX_FD_TABLES" "fd < MAX_FILES" "fd_in_use (desc (fds k) (t, fd))" for t fd
    using fd_okD(5) [OF ok, of "(t, fd)"] that by (simp add: slots_def desc_ok_def)
  ultimately show ?thesis using u fd_okD(3) [OF ok] by simp
qed

text \<open>A pipe, its write end copied over the standard output, and the write end closed.\<close>

definition demo_calls :: kernel where
  "demo_calls = snd (sys_close (snd (sys_dup2 (demo_kernel\<lparr>fds := snd (pipe_open boot_fds 0)\<rparr>) 4 1)) 4)"

theorem fd_counts_exact_witness:
  "unat (pi_writers (pipes (fds demo_calls) 0)) = card (users (fds demo_calls) (Pipe_W 0))"
proof -
  let ?k = "demo_kernel\<lparr>fds := snd (pipe_open boot_fds 0)\<rparr>"
  have "fd_ok (fds ?k)" using pipe_open_ok [OF boot_ok, of 0] by simp
  moreover have "current_task ?k < MAX_TASKS" by (simp add: demo_kernel_def)
  moreover have "fd_calls ?k demo_calls" unfolding demo_calls_def by (intro fd_calls.close fd_calls.dup2 fd_calls.start)
  ultimately have "unat (refs (fds demo_calls) (Pipe_W 0)) = card (users (fds demo_calls) (Pipe_W 0))"
    using fd_counts_exact by blast
  then show ?thesis by simp
qed

end
