(* ===== verification/Proc.thy ===== *)
theory Proc
  imports Pipe
begin

text \<open>
  The life of a process in \<^verbatim>\<open>src/src/kernel/main.c\<close>: \<^verbatim>\<open>clone\<close> and \<^verbatim>\<open>fork\<close>,
  \<^verbatim>\<open>exit\<close>, \<^verbatim>\<open>wait4\<close>, the release of a dead task, futexes, \<^verbatim>\<open>nanosleep\<close>,
  \<^verbatim>\<open>sched_yield\<close> and the timer interrupt that takes the processor away from a task.
\<close>

abbreviation (input) CLONE_VM :: u64 where "CLONE_VM \<equiv> 0x100"
abbreviation (input) CLONE_FS :: u64 where "CLONE_FS \<equiv> 0x200"
abbreviation (input) CLONE_FILES :: u64 where "CLONE_FILES \<equiv> 0x400"
abbreviation (input) CLONE_SIGHAND :: u64 where "CLONE_SIGHAND \<equiv> 0x800"
abbreviation (input) CLONE_VFORK :: u64 where "CLONE_VFORK \<equiv> 0x4000"
abbreviation (input) CLONE_THREAD :: u64 where "CLONE_THREAD \<equiv> 0x10000"
abbreviation (input) CLONE_SYSVSEM :: u64 where "CLONE_SYSVSEM \<equiv> 0x40000"
abbreviation (input) CLONE_SETTLS :: u64 where "CLONE_SETTLS \<equiv> 0x80000"
abbreviation (input) CLONE_PARENT_SETTID :: u64 where "CLONE_PARENT_SETTID \<equiv> 0x100000"
abbreviation (input) CLONE_CHILD_CLEARTID :: u64 where "CLONE_CHILD_CLEARTID \<equiv> 0x200000"
abbreviation (input) CLONE_DETACHED :: u64 where "CLONE_DETACHED \<equiv> 0x400000"
abbreviation (input) CLONE_SIGNAL_MASK :: u64 where "CLONE_SIGNAL_MASK \<equiv> 0xff"
abbreviation (input) FUTEX_WAIT :: int where "FUTEX_WAIT \<equiv> 0"
abbreviation (input) FUTEX_WAKE :: int where "FUTEX_WAKE \<equiv> 1"

section \<open>Releasing a task\<close>

definition task_reap_resources :: "kernel \<Rightarrow> nat \<Rightarrow> kernel" where
  "task_reap_resources k i =
     (if \<not> tk_used (tasks k i) then k
      else let k = on_fds k (\<lambda>s. task_fd_table_release s i);
               cr3 = cx_cr3 (tk_ctx (tasks k i));
               k = (if cr3 \<noteq> 0 \<and> cr3 \<noteq> cx_cr3 (tk_ctx (tasks k 0)) \<and> \<not> task_cr3_is_shared k i
                    then k\<lparr>vm := snd (vmm_user_space_destroy (vm k) cr3)\<rparr> else k) in
      set_task k i (\<lambda>t. t\<lparr>tk_ctx := (tk_ctx t)\<lparr>cx_cr3 := 0\<rparr>\<rparr>))"

text \<open>The three statements with which the callers free the slot.\<close>

definition reap :: "kernel \<Rightarrow> nat \<Rightarrow> kernel" where
  "reap k i = set_task (task_reap_resources k i) i (\<lambda>t. t\<lparr>tk_used := False, tk_state := TASK_UNUSED\<rparr>)"

text \<open>
  The head of \<^verbatim>\<open>syscall_dispatch\<close>: the address space of the caller becomes the active one,
  and a child whose exit has already been reported to the caller is released.
\<close>

definition dispatch_enter :: "kernel \<Rightarrow> syscall_frame \<Rightarrow> kernel" where
  "dispatch_enter k f =
     (let ti = current_task k;
          k = (if fr_user_cr3 f \<noteq> 0 then
                 let k = k\<lparr>vm := snd (vmm_user_activate (vm k) (fr_user_cr3 f))\<rparr> in
                 if ti < MAX_TASKS \<and> tk_used (tasks k ti)
                 then set_task k ti (\<lambda>t. t\<lparr>tk_ctx := (tk_ctx t)\<lparr>cx_cr3 := fr_user_cr3 f\<rparr>\<rparr>) else k
               else k);
          t = tasks k ti in
      if tk_wait4_reap_pid t > 0 then
        let k = (case find (\<lambda>i. tk_used (tasks k i) \<and> tk_pid (tasks k i) = tk_wait4_reap_pid t \<and> tk_ppid (tasks k i) = tk_pid t \<and>
                     tk_state (tasks k i) = TASK_ZOMBIE) [0..<MAX_TASKS] of
                   None \<Rightarrow> k | Some i \<Rightarrow> reap k i) in
        set_task k ti (\<lambda>t. t\<lparr>tk_wait4_reap_pid := -1\<rparr>)
      else k)"

section \<open>Leaving the processor\<close>

text \<open>The switch of \<^verbatim>\<open>futex\<close> and \<^verbatim>\<open>wait4\<close>, which does not count as a switch of the next task.\<close>

definition resume_task :: "kernel \<Rightarrow> nat \<Rightarrow> kernel" where
  "resume_task k i =
     (let k = (set_task k i (\<lambda>t. t\<lparr>tk_state := TASK_RUNNING\<rparr>))\<lparr>current_task := i\<rparr>;
          k = k\<lparr>vm := snd (vmm_user_activate (vm k) (cx_cr3 (tk_ctx (tasks k i))))\<rparr> in
      k\<lparr>task_switch_target := i, task_switch_pending := True, task_return_ctx := Some i\<rparr>)"

definition task_switch_from_current_blocked :: "kernel \<Rightarrow> kernel option" where
  "task_switch_from_current_blocked k =
     (case task_pick_next k of None \<Rightarrow> None
      | Some nxt \<Rightarrow> Some (resume_task (set_task k (current_task k) (\<lambda>t. t\<lparr>tk_state := TASK_BLOCKED\<rparr>)) nxt))"

text \<open>\<open>tick\<close> is what the interrupt handlers do while the processor waits.\<close>

definition sys_sched_yield :: "(kernel \<Rightarrow> kernel) \<Rightarrow> kernel \<Rightarrow> syscall_frame \<Rightarrow> int \<times> kernel" where
  "sys_sched_yield tick k f =
     (let k = init_root k; ti = current_task k;
          k = set_task k ti (\<lambda>t. let t = task_save_from_frame k f t in t\<lparr>tk_ctx := (tk_ctx t)\<lparr>cx_rax := 0\<rparr>\<rparr>) in
      case task_pick_next k of
        None \<Rightarrow> (0, tick k)
      | Some nxt \<Rightarrow> (0, switch_to (set_task k ti (\<lambda>t. t\<lparr>tk_state := TASK_RUNNABLE\<rparr>)) nxt))"

section \<open>Futexes and sleeping\<close>

definition futex_user_load :: "kernel \<Rightarrow> u64 \<Rightarrow> u32 option" where
  "futex_user_load k uaddr = map_option (\<lambda>bs. ucast (le_word bs)) (copy_in k uaddr 4)"

text \<open>A time of seconds and nanoseconds in user memory, and its length; \<open>Inl\<close> is an error.\<close>

definition time_span :: "u8 list \<Rightarrow> int + u64" where
  "time_span bs =
     (let sec = word_field bs 0; nsec = word_field bs 1 in
      if sint sec < 0 \<or> sint nsec < 0 \<or> sint nsec \<ge> 1000000000 then Inl (- EINVAL)
      else if sec = 0 \<and> nsec = 0 then Inr 0
      else if sec > (UINT64_MAX - nsec) div 1000000000 then Inl (- EINVAL)
      else Inr (sec * 1000000000 + nsec))"

definition futex_deadline :: "u64 \<Rightarrow> kernel \<Rightarrow> u64 \<Rightarrow> int + u64" where
  "futex_deadline now k timeout =
     (if timeout = 0 then Inr 0
      else case get_user k timeout 16 of None \<Rightarrow> Inl (- EFAULT)
      | Some bs \<Rightarrow>
        (case time_span bs of Inl e \<Rightarrow> Inl e
         | Inr duration \<Rightarrow>
           if duration = 0 then Inl (- ETIMEDOUT)
           else if duration > UINT64_MAX - now then Inl (- EINVAL)
           else Inr (now + duration)))"

definition end_futex_wait :: "task \<Rightarrow> task" where
  "end_futex_wait t = t\<lparr>tk_futex_addr := 0, tk_futex_cr3 := 0, tk_futex_deadline_ns := 0\<rparr>"

definition futex_wake_task :: "task \<Rightarrow> task" where
  "futex_wake_task t = (end_futex_wait t)\<lparr>tk_ctx := (tk_ctx t)\<lparr>cx_rax := 0\<rparr>, tk_state := TASK_RUNNABLE\<rparr>"

definition futex_waiter :: "u64 \<Rightarrow> u64 \<Rightarrow> task \<Rightarrow> bool" where
  "futex_waiter uaddr cr3 t \<longleftrightarrow> tk_used t \<and> tk_state t = TASK_BLOCKED \<and> tk_futex_addr t = uaddr \<and> tk_futex_cr3 t = cr3"

fun futex_wake_loop :: "u64 \<Rightarrow> u64 \<Rightarrow> u32 \<Rightarrow> nat list \<Rightarrow> u32 \<Rightarrow> kernel \<Rightarrow> u32 \<times> kernel" where
  "futex_wake_loop uaddr cr3 val [] woke k = (woke, k)"
| "futex_wake_loop uaddr cr3 val (i # is) woke k =
     (if \<not> woke < val then (woke, k)
      else if futex_waiter uaddr cr3 (tasks k i) then futex_wake_loop uaddr cr3 val is (woke + 1) (set_task k i futex_wake_task)
      else futex_wake_loop uaddr cr3 val is woke k)"

definition futex_wait :: "u64 \<Rightarrow> kernel \<Rightarrow> syscall_frame \<Rightarrow> u64 \<Rightarrow> u32 \<Rightarrow> u64 \<Rightarrow> int \<times> kernel" where
  "futex_wait now k f uaddr val timeout =
     (case futex_user_load k uaddr of None \<Rightarrow> (- EFAULT, k)
      | Some v \<Rightarrow>
        if v \<noteq> val then (- EAGAIN, k)
        else case futex_deadline now k timeout of Inl e \<Rightarrow> (e, k)
        | Inr deadline \<Rightarrow>
          let ti = current_task k;
              k = set_task k ti (\<lambda>t. let t = task_save_from_frame k f t in
                t\<lparr>tk_futex_addr := uaddr, tk_futex_cr3 := cx_cr3 (tk_ctx t) AND PAGE_MASK, tk_futex_deadline_ns := deadline,
                  tk_ctx := (tk_ctx t)\<lparr>cx_rax := 0\<rparr>\<rparr>) in
          (case task_switch_from_current_blocked k of
             None \<Rightarrow> (- EAGAIN, set_task k ti (\<lambda>t. (end_futex_wait t)\<lparr>tk_state := TASK_RUNNING\<rparr>))
           | Some k \<Rightarrow> (0, k)))"

definition futex_wake :: "kernel \<Rightarrow> u64 \<Rightarrow> u32 \<Rightarrow> int \<times> kernel" where
  "futex_wake k uaddr val =
     (if \<not> vmm_user_range_ok (vm k) uaddr 4 False then (- EFAULT, k)
      else let (woke, k) = futex_wake_loop uaddr (cx_cr3 (tk_ctx (cur k)) AND PAGE_MASK) val [0..<MAX_TASKS] 0 k in
      (int (unat woke), k))"

definition sys_futex :: "u64 \<Rightarrow> kernel \<Rightarrow> syscall_frame \<Rightarrow> u64 \<Rightarrow> int \<Rightarrow> u32 \<Rightarrow> u64 \<Rightarrow> int \<times> kernel" where
  "sys_futex now k f uaddr op val timeout =
     (let k = init_root k; cmd = op mod 128 in
      if uaddr = 0 \<or> uaddr AND 3 \<noteq> 0 then (- EINVAL, k)
      else if cmd = FUTEX_WAIT then futex_wait now k f uaddr val timeout
      else if cmd = FUTEX_WAKE then futex_wake k uaddr val
      else (- ENOSYS, k))"

definition sys_nanosleep :: "(nat \<Rightarrow> kernel \<Rightarrow> kernel) \<Rightarrow> u64 \<Rightarrow> kernel \<Rightarrow> syscall_frame \<Rightarrow> u64 \<Rightarrow> u64 \<Rightarrow> (int \<times> kernel) option" where
  "sys_nanosleep tick now k f req rem =
     (if req = 0 then Some (- EFAULT, k)
      else case copy_in k req 16 of None \<Rightarrow> Some (- EFAULT, k)
      | Some bs \<Rightarrow>
        (case time_span bs of Inl e \<Rightarrow> Some (e, k)
         | Inr duration \<Rightarrow>
           if duration = 0 then Some (0, k)
           else let resumed = task_io_resume_matches k f 35;
                    start = (if resumed then tk_io_resume_start_ns (cur k) else now);
                    deadline = (if resumed then tk_io_resume_deadline_ns (cur k) else now + duration) in
           if \<not> resumed \<and> duration > UINT64_MAX - now then Some (- EINVAL, k)
           else if now \<ge> deadline then
             let k = task_io_resume_clear k f 35;
                 (ok, k) = (if rem \<noteq> 0 then copy_out k rem (replicate 16 0) else (True, k)) in
             Some (if ok then 0 else - EFAULT, k)
           else case task_block_io_until tick (task_io_resume_store k f 35 start deadline) f IO_WAIT_NANOSLEEP 35 deadline of
             None \<Rightarrow> None
           | Some (r, k) \<Rightarrow> if r = 0 then Some (0, k) else Some (- EAGAIN, task_io_resume_clear k f 35)))"

section \<open>Exit\<close>

definition clear_tid_waiter :: "task \<Rightarrow> task \<Rightarrow> task" where
  "clear_tid_waiter t w =
     (if \<not> tk_used w \<or> tk_state w \<noteq> TASK_BLOCKED \<or> tk_futex_addr w \<noteq> tk_tid_address t \<or>
         tk_futex_cr3 w AND PAGE_MASK \<noteq> cx_cr3 (tk_ctx t) AND PAGE_MASK
      then w else futex_wake_task w)"

definition task_clear_child_tid :: "kernel \<Rightarrow> nat \<Rightarrow> kernel" where
  "task_clear_child_tid k ti =
     (let t = tasks k ti in
      if tk_tid_address t = 0 then k
      else let (_, k) = copy_out k (tk_tid_address t) (le_bytes 4 0);
               k = fold (\<lambda>i k. set_task k i (clear_tid_waiter t)) [0..<MAX_TASKS] k in
      set_task k ti (\<lambda>t. t\<lparr>tk_tid_address := 0\<rparr>))"

text \<open>The framebuffer mappings of a task that dies.\<close>

definition drop_framebuffer :: "kernel \<Rightarrow> nat \<Rightarrow> kernel" where
  "drop_framebuffer k ti =
     (let n = tk_fb_map_count (tasks k ti) in
      if n > 0 then
        set_task (k\<lparr>framebuffer_users := (if framebuffer_users k \<ge> n then framebuffer_users k - n else 0)\<rparr>) ti
          (\<lambda>t. t\<lparr>tk_fb_map_count := 0\<rparr>)
      else k)"

text \<open>\<^verbatim>\<open>(exit_status & 0xff) << 8\<close>\<close>

definition wait_status :: "task \<Rightarrow> u8 list" where
  "wait_status t = le_bytes 4 (of_int (tk_exit_status t mod 256 * 256))"

definition end_wait4 :: "int \<Rightarrow> task \<Rightarrow> task" where
  "end_wait4 pid p = p\<lparr>tk_ctx := (tk_ctx p)\<lparr>cx_rax := of_int pid\<rparr>, tk_wait4_active := False, tk_wait4_pid := -1, tk_wait4_status_ptr := 0,
     tk_wait4_reap_pid := pid, tk_state := TASK_RUNNABLE\<rparr>"

definition notify_parent :: "kernel \<Rightarrow> nat \<Rightarrow> kernel" where
  "notify_parent k ti =
     (case task_of_pid k (tk_ppid (tasks k ti)) of
        None \<Rightarrow> k | Some i \<Rightarrow> set_task k i (\<lambda>p. snd (sig_pending_set p SIGCHLD)))"

text \<open>The loop over the parents that sleep in \<^verbatim>\<open>wait4\<close>: the first one that can be served is woken.\<close>

fun wake_waiter :: "nat list \<Rightarrow> nat \<Rightarrow> kernel \<Rightarrow> kernel" where
  "wake_waiter [] ti k = k"
| "wake_waiter (i # is) ti k =
     (let t = tasks k ti; p = tasks k i in
      if \<not> tk_used p \<or> tk_pid p \<noteq> tk_ppid t \<or> tk_state p \<noteq> TASK_BLOCKED \<or> \<not> tk_wait4_active p then wake_waiter is ti k
      else if tk_wait4_pid p > 0 \<and> tk_wait4_pid p \<noteq> tk_pid t then wake_waiter is ti k
      else let (r, v) = vmm_user_activate (vm k) (cx_cr3 (tk_ctx p)); k = k\<lparr>vm := v\<rparr> in
      if r \<noteq> 0 then wake_waiter is ti k
      else let (ok, k) = (if tk_wait4_status_ptr p \<noteq> 0 then copy_out k (tk_wait4_status_ptr p) (wait_status t) else (True, k)) in
      if \<not> ok then wake_waiter is ti k else set_task k i (end_wait4 (tk_pid t)))"

declare wake_waiter.simps(2) [simp del]

definition exit_next :: "kernel \<Rightarrow> nat \<Rightarrow> nat" where
  "exit_next k ti =
     (let ppid = tk_ppid (tasks k ti);
          nxt = (if ppid > 0 then find (\<lambda>i. tk_used (tasks k i) \<and> tk_pid (tasks k i) = ppid \<and> tk_state (tasks k i) = TASK_RUNNABLE) [0..<MAX_TASKS]
                 else None) in
      case nxt of Some i \<Rightarrow> i
      | None \<Rightarrow> (case task_pick_next k of Some i \<Rightarrow> i | None \<Rightarrow> 0))"

definition become_zombie :: "kernel \<Rightarrow> nat \<Rightarrow> int \<Rightarrow> kernel" where
  "become_zombie k ti status =
     (let k = drop_framebuffer k ti;
          k = task_clear_child_tid k ti;
          k = on_fds k (\<lambda>s. task_fd_table_release s ti) in
      set_task k ti (\<lambda>t. t\<lparr>tk_exit_status := status, tk_state := TASK_ZOMBIE\<rparr>))"

definition sys_exit :: "kernel \<Rightarrow> int \<Rightarrow> int \<times> kernel" where
  "sys_exit k status =
     (let k = init_root k; ti = current_task k in
      if ti = 0 then
        (0, (on_fds k (\<lambda>s. task_fd_table_release s 0))\<lparr>user_exit_status := status, user_exit_pending := True\<rparr>)
      else let k = become_zombie k ti status;
               k = (if tk_ppid (tasks k ti) > 0 then wake_waiter [0..<MAX_TASKS] ti (notify_parent k ti) else k) in
      (0, switch_to k (exit_next k ti)))"

definition sys_exit_group :: "kernel \<Rightarrow> int \<Rightarrow> int \<times> kernel" where
  "sys_exit_group k status =
     (let k = init_root k in
      if current_task k \<noteq> 0 then sys_exit k status
      else (0, k\<lparr>user_exit_status := status, user_exit_pending := True\<rparr>))"

definition exception_signal_for_vector :: "nat \<Rightarrow> int" where
  "exception_signal_for_vector v =
     (if v = 0 then 8 else if v = 1 \<or> v = 3 \<or> v = 4 then 5 else if v = 6 then 4 else if v = 7 then 8
      else if v = 11 \<or> v = 17 \<or> v = 18 then 7 else if v = 16 \<or> v = 19 then 8 else 11)"

definition exception_terminate_user_process :: "kernel \<Rightarrow> nat \<Rightarrow> kernel" where
  "exception_terminate_user_process k num =
     (let k = (if current_task k \<ge> MAX_TASKS then k\<lparr>current_task := 0\<rparr> else k);
          k = init_root k;
          k = (if \<not> tk_used (cur k) then k\<lparr>current_task := 0\<rparr> else k) in
      snd (sys_exit k (128 + exception_signal_for_vector num)))"

section \<open>wait4\<close>

definition sys_wait4 :: "kernel \<Rightarrow> syscall_frame \<Rightarrow> int \<Rightarrow> u64 \<Rightarrow> int \<Rightarrow> int \<times> kernel" where
  "sys_wait4 k f pid status options =
     (let k = init_root k; ti = current_task k in
      if status \<noteq> 0 \<and> \<not> vmm_user_range_ok (vm k) status 4 True then (- EFAULT, k)
      else if options AND NOT 1 \<noteq> 0 then (- EINVAL, k)
      else case find (\<lambda>i. let t = tasks k i in tk_used t \<and> tk_ppid t = tk_pid (tasks k ti) \<and> \<not> (pid > 0 \<and> tk_pid t \<noteq> pid) \<and>
                  tk_state t = TASK_ZOMBIE) [0..<MAX_TASKS] of
        Some i \<Rightarrow>
          let t = tasks k i;
              (ok, k) = (if status \<noteq> 0 then copy_out k status (wait_status t) else (True, k)) in
          if \<not> ok then (- EFAULT, k)
          else (tk_pid t, set_task (reap k i) ti (\<lambda>c. snd (sig_pending_set c SIGCHLD)))
      | None \<Rightarrow>
          if options AND 1 \<noteq> 0 then (0, k)
          else let k = set_task k ti (\<lambda>c. (task_save_from_frame k f c)\<lparr>tk_wait4_active := True, tk_wait4_pid := pid,
                         tk_wait4_status_ptr := status, tk_state := TASK_BLOCKED\<rparr>) in
          (case task_pick_next k of
             None \<Rightarrow> (- EAGAIN, set_task k ti (\<lambda>c. c\<lparr>tk_wait4_active := False, tk_wait4_pid := -1, tk_wait4_status_ptr := 0,
                        tk_state := TASK_RUNNING\<rparr>))
           | Some nxt \<Rightarrow> (0, resume_task k nxt)))"

section \<open>clone and fork\<close>

definition task_clone_stack_top_writable :: "kernel \<Rightarrow> u64 \<Rightarrow> bool" where
  "task_clone_stack_top_writable k stack_top \<longleftrightarrow>
     \<not> (stack_top = 0 \<or> stack_top \<ge> USER_LIMIT) \<and>
     (vmm_user_range_ok (vm k) (stack_top - 1) 1 True \<or>
      (case task_lazy_mmap_protection (cur k) (stack_top - 1) of None \<Rightarrow> False | Some prot \<Rightarrow> prot AND PROT_WRITE \<noteq> 0))"

definition clone_allowed :: u64 where
  "clone_allowed = CLONE_VM OR CLONE_FS OR CLONE_FILES OR CLONE_SIGHAND OR CLONE_THREAD OR CLONE_SETTLS OR CLONE_PARENT_SETTID OR
     CLONE_CHILD_CLEARTID OR CLONE_VFORK OR CLONE_SYSVSEM OR CLONE_DETACHED OR CLONE_SIGNAL_MASK"

text \<open>The fields of the child \<open>c\<close> of the task \<open>p\<close>, with process number \<open>pid\<close>.\<close>

definition child_of :: "task \<Rightarrow> u64 \<Rightarrow> u64 \<Rightarrow> int \<Rightarrow> task \<Rightarrow> task" where
  "child_of p flags ctid pid c = c\<lparr>tk_used := True, tk_state := TASK_RUNNABLE, tk_pid := pid, tk_ppid := tk_pid p,
     tk_tgid := (if flags AND CLONE_THREAD \<noteq> 0 then tk_tgid p else pid), tk_pgrp := tk_pgrp p, tk_session := tk_session p,
     tk_controlling_tty := tk_controlling_tty p, tk_exit_status := 0,
     tk_tid_address := (if flags AND CLONE_CHILD_CLEARTID \<noteq> 0 then ctid else 0),
     tk_futex_addr := 0, tk_futex_cr3 := 0, tk_futex_deadline_ns := 0, tk_pipe_wait_fd := -1, tk_pipe_wait_buf := 0, tk_pipe_wait_count := 0,
     tk_io_wait_kind := IO_WAIT_NONE, tk_io_wait_valid := False, tk_io_wait_nr := 0, tk_io_wait_deadline_ns := 0, tk_io_resume_valid := False,
     tk_io_resume_nr := 0, tk_io_resume_rip := 0, tk_io_resume_start_ns := 0, tk_io_resume_deadline_ns := 0,
     tk_wait4_active := False, tk_wait4_pid := -1, tk_wait4_status_ptr := 0, tk_wait4_reap_pid := -1,
     tk_heap_base := tk_heap_base p, tk_heap_end := tk_heap_end p, tk_mmap_next := tk_mmap_next p, tk_fb_map_count := 0,
     tk_lazy_mmaps := tk_lazy_mmaps p, tk_nice := tk_nice p, tk_switches := 0, tk_cpu_ticks := 0,
     tk_ctx := (tk_ctx p)\<lparr>cx_rax := 0\<rparr>, tk_sig_pending := (tk_sig_pending c)(0 := 0, 1 := 0),
     tk_sig_blocked := (tk_sig_blocked c)(0 := tk_sig_blocked p 0, 1 := tk_sig_blocked p 1),
     tk_sig_actions := (\<lambda>si. if 1 \<le> si \<and> si \<le> 64 then tk_sig_actions p si else tk_sig_actions c si),
     tk_sig_saved_valid := False, tk_sig_active := False, tk_cwd := tk_cwd p\<rparr>"

definition clone_context :: "u64 \<Rightarrow> u64 \<Rightarrow> u64 \<Rightarrow> task_context \<Rightarrow> task_context" where
  "clone_context flags child_stack tls c =
     (let c = (if flags AND CLONE_SETTLS \<noteq> 0 then c\<lparr>cx_fs_base := tls\<rparr> else c) in
      if child_stack \<noteq> 0 then c\<lparr>cx_rsp := child_stack, cx_rbp := 0\<rparr> else c)"

text \<open>A failure after the descriptor table has been copied.\<close>

definition clone_undo :: "kernel \<Rightarrow> nat \<Rightarrow> kernel" where
  "clone_undo k slot = set_task (on_fds k (\<lambda>s. task_fd_table_release s slot)) slot (\<lambda>c. c\<lparr>tk_used := False\<rparr>)"

text \<open>The checks of the arguments: the error of the first one that fails.\<close>

definition clone_checks :: "kernel \<Rightarrow> u64 \<Rightarrow> u64 \<Rightarrow> u64 \<Rightarrow> u64 \<Rightarrow> u64 \<Rightarrow> int option" where
  "clone_checks k flags child_stack ptid ctid tls =
     (if flags AND CLONE_SETTLS \<noteq> 0 \<and> tls \<ge> USER_LIMIT then Some (- EFAULT)
      else if flags AND NOT clone_allowed \<noteq> 0 then Some (- EINVAL)
      else if flags AND CLONE_VM = 0 then Some (- ENOSYS)
      else if child_stack \<noteq> 0 \<and> \<not> task_clone_stack_top_writable k child_stack then Some (- EFAULT)
      else if flags AND CLONE_PARENT_SETTID \<noteq> 0 \<and> (ptid = 0 \<or> \<not> vmm_user_range_ok (vm k) ptid 4 True) then Some (- EFAULT)
      else if flags AND CLONE_CHILD_CLEARTID \<noteq> 0 \<and> (ctid = 0 \<or> \<not> vmm_user_range_ok (vm k) ctid 4 True) then Some (- EFAULT)
      else None)"

text \<open>The process number stored at an address when the flag asks for it.\<close>

definition store_tid :: "kernel \<Rightarrow> bool \<Rightarrow> u64 \<Rightarrow> int \<Rightarrow> bool \<times> kernel" where
  "store_tid k wanted addr pid = (if wanted then copy_out k addr (le_bytes 4 (of_int pid)) else (True, k))"

definition clone_into :: "kernel \<Rightarrow> nat \<Rightarrow> syscall_frame \<Rightarrow> u64 \<Rightarrow> u64 \<Rightarrow> u64 \<Rightarrow> u64 \<Rightarrow> u64 \<Rightarrow> int \<times> kernel" where
  "clone_into k slot f flags child_stack ptid ctid tls =
     (let ti = current_task k;
          k = set_task k ti (task_save_from_frame k f);
          pid = next_pid k;
          k = (set_task k slot (child_of (tasks k ti) flags ctid pid))\<lparr>next_pid := pid + 1\<rparr>;
          (r, s) = task_fd_table_clone (fds k) ti slot (flags AND CLONE_FILES \<noteq> 0);
          k = k\<lparr>fds := s\<rparr> in
      if r < 0 then (- EMFILE, set_task k slot (\<lambda>c. c\<lparr>tk_used := False\<rparr>))
      else let k = set_task k slot (\<lambda>c. c\<lparr>tk_ctx := clone_context flags child_stack tls (tk_ctx c)\<rparr>);
               (ok, k) = store_tid k (flags AND CLONE_PARENT_SETTID \<noteq> 0) ptid pid in
      if \<not> ok then (- EFAULT, clone_undo k slot)
      else let (ok, k) = store_tid k (flags AND CLONE_CHILD_CLEARTID \<noteq> 0) ctid pid in
      if \<not> ok then (- EFAULT, clone_undo k slot)
      else let k = set_task k ti (\<lambda>p. p\<lparr>tk_ctx := (tk_ctx p)\<lparr>cx_rax := of_int pid\<rparr>\<rparr>);
               k = set_task k slot (\<lambda>c. if flags AND CLONE_THREAD \<noteq> 0 then c\<lparr>tk_tgid := tk_tgid (tasks k ti)\<rparr> else c) in
      (pid, k))"

definition sys_clone :: "kernel \<Rightarrow> syscall_frame \<Rightarrow> u64 \<Rightarrow> u64 \<Rightarrow> u64 \<Rightarrow> u64 \<Rightarrow> u64 \<Rightarrow> int \<times> kernel" where
  "sys_clone k f flags child_stack ptid ctid tls =
     (let k = init_root k in
      case clone_checks k flags child_stack ptid ctid tls of Some e \<Rightarrow> (e, k)
      | None \<Rightarrow>
        (case find (\<lambda>i. \<not> tk_used (tasks k i)) [0..<MAX_TASKS] of None \<Rightarrow> (- ENOMEM, k)
         | Some slot \<Rightarrow> clone_into k slot f flags child_stack ptid ctid tls))"

definition sys_fork :: "kernel \<Rightarrow> syscall_frame \<Rightarrow> int \<times> kernel" where
  "sys_fork k f =
     (let (pid, k) = sys_clone k f (CLONE_VM OR CLONE_FS OR CLONE_SIGHAND) 0 0 0 0 in
      if pid < 0 then (pid, k)
      else case task_of_pid k pid of None \<Rightarrow> (- 3, k)
      | Some ci \<Rightarrow>
        let k = set_task k ci (\<lambda>c. c\<lparr>tk_state := TASK_BLOCKED\<rparr>);
            (r, cr3, v) = vmm_user_space_clone (vm k) (cx_cr3 (tk_ctx (cur k)));
            k = k\<lparr>vm := v\<rparr> in
        if r \<noteq> 0 then (- ENOMEM, reap k ci)
        else let child_cr3 = (case cr3 of None \<Rightarrow> 0 | Some c \<Rightarrow> c);
                 k = set_task k ci (\<lambda>c. c\<lparr>tk_ctx := (tk_ctx c)\<lparr>cx_cr3 := child_cr3\<rparr>, tk_state := TASK_RUNNABLE\<rparr>) in
        (pid, k\<lparr>vm := vmm_user_flush_tlb (vm k)\<rparr>))"

section \<open>The timer interrupt\<close>

text \<open>
  A pending interrupt signal of the running task: it is dropped when ignored and ends the task when
  the default action applies, with the message to the parent that \<^verbatim>\<open>exit\<close> sends.
\<close>

definition timer_wake_parent :: "kernel \<Rightarrow> nat \<Rightarrow> kernel" where
  "timer_wake_parent k ti =
     (let t = tasks k ti in
      case task_of_pid k (tk_ppid t) of None \<Rightarrow> k
      | Some i \<Rightarrow>
        let k = set_task k i (\<lambda>p. p\<lparr>tk_sig_pending := (tk_sig_pending p)(0 := tk_sig_pending p 0 OR push_bit 16 1)\<rparr>);
            p = tasks k i; t = tasks k ti in
        if tk_state p = TASK_BLOCKED \<and> tk_wait4_active p \<and> (tk_wait4_pid p \<le> 0 \<or> tk_wait4_pid p = tk_pid t) then
          let (ok, k) = (if tk_wait4_status_ptr p \<noteq> 0 then copy_out_cr3 (cx_cr3 (tk_ctx p)) k (tk_wait4_status_ptr p) (wait_status t)
                         else (True, k)) in
          if ok then set_task k i (end_wait4 (tk_pid t)) else k
        else k)"

definition timer_sigint :: "kernel \<Rightarrow> nat \<Rightarrow> kernel" where
  "timer_sigint k ti =
     (let t = tasks k ti; bit = push_bit 1 1; h = sa_handler (tk_sig_actions t 2);
          clear = (\<lambda>t. t\<lparr>tk_sig_pending := (tk_sig_pending t)(0 := tk_sig_pending t 0 AND NOT bit)\<rparr>) in
      if tk_sig_pending t 0 AND bit \<noteq> 0 \<and> tk_sig_blocked t 0 AND bit = 0 then
        if h = 1 then set_task k ti clear
        else if h = 0 \<and> tk_pid t > 1 then
          let k = set_task k ti (\<lambda>t. (clear t)\<lparr>tk_exit_status := 130, tk_state := TASK_ZOMBIE\<rparr>);
              k = drop_framebuffer k ti;
              k = on_fds k (\<lambda>s. task_fd_table_release s ti) in
          timer_wake_parent k ti
        else k
      else k)"

text \<open>
  \<open>poll\<close> is what the keyboard and mouse handlers do, \<open>now\<close> the time, \<open>irq\<close> the registers on
  the interrupt stack with the code segment, and the result the task whose context is restored.
\<close>

definition timer_preempt_from_user :: "(kernel \<Rightarrow> kernel) \<Rightarrow> u64 \<Rightarrow> kernel \<Rightarrow> (task_context \<times> u64) option \<Rightarrow> nat option \<times> kernel" where
  "timer_preempt_from_user poll now k irq =
     (let k = task_wake_timed_io_waiters now (poll k); ti = current_task k in
      case irq of None \<Rightarrow> (None, k)
      | Some (regs, cs) \<Rightarrow>
        if cs AND 3 \<noteq> 3 then (None, k)
        else if ti \<ge> MAX_TASKS \<or> \<not> tk_used (tasks k ti) then (None, k)
        else let k = set_task k ti (\<lambda>t. t\<lparr>tk_ctx := regs\<lparr>cx_cr3 := cpu_cr3 (vm k), cx_fs_base := msr_fs_base k, cx_gs_base := msr_gs_base k\<rparr>,
                       tk_cpu_ticks := tk_cpu_ticks t + 1\<rparr>);
                 k = timer_sigint k ti in
        (case timer_switch k of
           (None, k) \<Rightarrow> (None, k)
         | (Some i, k) \<Rightarrow>
           (Some i, k\<lparr>vm := snd (vmm_user_activate (vm k) (cx_cr3 (tk_ctx (tasks k i)))), task_switch_target := i\<rparr>)))"

section \<open>Identity\<close>

definition sys_set_tid_address :: "kernel \<Rightarrow> u64 \<Rightarrow> int \<times> kernel" where
  "sys_set_tid_address k p =
     (let k = init_root k in
      if p = 0 \<or> \<not> vmm_user_range_ok (vm k) p 4 True then (- EFAULT, k)
      else (tk_pid (cur k), set_task k (current_task k) (\<lambda>t. t\<lparr>tk_tid_address := p\<rparr>)))"

end
