(* ===== verification/Proc_Spec.thy ===== *)
theory Proc_Spec
  imports Proc Pipe_Spec
begin

text \<open>
  Correctness of the process table: an invariant of all operations that create, stop, resume and release
  tasks, what \<^verbatim>\<open>exit\<close> and \<^verbatim>\<open>wait4\<close> tell a parent, and which tasks a futex wakes.
\<close>

section \<open>Operations that only wake tasks\<close>

definition woke :: "task \<Rightarrow> task \<Rightarrow> bool" where
  "woke t t' \<longleftrightarrow> tk_used t' = tk_used t \<and> tk_pid t' = tk_pid t \<and> tk_ppid t' = tk_ppid t \<and>
     (tk_state t' = tk_state t \<or> tk_state t = TASK_BLOCKED \<and> tk_state t' = TASK_RUNNABLE)"

definition keeps :: "kernel \<Rightarrow> kernel \<Rightarrow> bool" where
  "keeps k k' \<longleftrightarrow> current_task k' = current_task k \<and> next_pid k' = next_pid k \<and> (\<forall>i. woke (tasks k i) (tasks k' i))"

lemma woke_refl [simp]: "woke t t" by (simp add: woke_def)

lemma keeps_refl [simp]: "keeps k k" by (simp add: keeps_def)

lemma keeps_trans: "keeps k k' \<Longrightarrow> keeps k' k'' \<Longrightarrow> keeps k k''"
  by (auto simp: keeps_def woke_def) metis+

lemma keeps_same: "tasks k' = tasks k \<Longrightarrow> current_task k' = current_task k \<Longrightarrow> next_pid k' = next_pid k \<Longrightarrow> keeps k k'"
  by (simp add: keeps_def)

lemma next_pid_set_task [simp]: "next_pid (set_task k i f) = next_pid k"
  by (simp add: set_task_def)

lemma keeps_set_task: "woke (tasks k i) (f (tasks k i)) \<Longrightarrow> keeps k (set_task k i f)"
  by (simp add: keeps_def)

lemma keeps_fold:
  assumes "\<And>i k. keeps k (g i k)"
  shows "keeps k (fold g xs k)"
  by (induction xs arbitrary: k) (auto intro: keeps_trans assms)

lemma keeps_on_fds [simp]: "keeps k (on_fds k g)"
  by (rule keeps_same) (simp_all add: on_fds_def)

lemma next_pid_on_fds [simp]: "next_pid (on_fds k g) = next_pid k"
  by (simp add: on_fds_def)

lemma keeps_vm [simp]: "keeps k (k\<lparr>vm := v\<rparr>)" "keeps k (k\<lparr>fds := s\<rparr>)"
  by (rule keeps_same; simp)+

lemma copy_out_tasks: "copy_out k a bs = (ok, k') \<Longrightarrow> tasks k' = tasks k"
  by (cases "user_copy_to (vm k) (syscall_user_cr3 k) a bs") (auto simp: copy_out_def)

lemma keeps_copy_out: "copy_out k a bs = (ok, k') \<Longrightarrow> keeps k k'"
  by (cases "user_copy_to (vm k) (syscall_user_cr3 k) a bs") (auto simp: copy_out_def)

lemma keeps_copy_out_cr3: "copy_out_cr3 c k a bs = (ok, k') \<Longrightarrow> keeps k k'"
  by (cases "user_copy_to_cr3 (vm k) c a bs") (auto simp: copy_out_cr3_def)

lemma copy_out_cr3_tasks: "copy_out_cr3 c k a bs = (ok, k') \<Longrightarrow> tasks k' = tasks k"
  by (cases "user_copy_to_cr3 (vm k) c a bs") (auto simp: copy_out_cr3_def)

lemma keeps_timed: "keeps k (task_wake_timed_io_waiters now k)"
  unfolding task_wake_timed_io_waiters_def
  by (rule keeps_fold, rule keeps_set_task) (simp add: timed_wake_def woke_def Let_def)

lemma keeps_futex_wake: "futex_wake_loop a c v is n k = (r, k') \<Longrightarrow> keeps k k'"
proof (induction a c v "is" n k rule: futex_wake_loop.induct)
  case (2 uaddr cr3 val i "is" woke k)
  have "keeps k (set_task k i futex_wake_task)" if "futex_waiter uaddr cr3 (tasks k i)"
    using that by (intro keeps_set_task) (simp add: woke_def futex_wake_task_def futex_waiter_def end_futex_wait_def)
  then show ?case using 2 by (auto split: if_splits intro: keeps_trans)
qed simp

lemma woke_clear_tid: "woke w (clear_tid_waiter t w)"
  by (simp add: clear_tid_waiter_def woke_def futex_wake_task_def end_futex_wait_def)

lemma keeps_clear_child_tid: "keeps k (task_clear_child_tid k ti)"
proof (cases "tk_tid_address (tasks k ti) = 0")
  case True
  then show ?thesis by (simp add: task_clear_child_tid_def Let_def)
next
  case False
  obtain ok k1 where c: "copy_out k (tk_tid_address (tasks k ti)) (le_bytes 4 0) = (ok, k1)" by (rule prod.exhaust)
  let ?k2 = "fold (\<lambda>i k. set_task k i (clear_tid_waiter (tasks k1 ti))) [0..<MAX_TASKS] k1"
  have t: "tasks k1 = tasks k" using copy_out_tasks [OF c] .
  have "keeps k1 ?k2" by (rule keeps_fold) (rule keeps_set_task, rule woke_clear_tid)
  moreover have "keeps ?k2 (set_task ?k2 ti (\<lambda>t. t\<lparr>tk_tid_address := 0\<rparr>))" by (rule keeps_set_task) (simp add: woke_def)
  ultimately have "keeps k (set_task ?k2 ti (\<lambda>t. t\<lparr>tk_tid_address := 0\<rparr>))"
    using keeps_copy_out [OF c] by (blast intro: keeps_trans)
  then show ?thesis using False c t by (simp add: task_clear_child_tid_def Let_def)
qed

lemma keeps_drop_framebuffer: "keeps k (drop_framebuffer k ti)"
  by (auto simp: drop_framebuffer_def Let_def keeps_def woke_def)

lemma keeps_notify_parent: "keeps k (notify_parent k ti)"
  by (auto simp: notify_parent_def sig_pending_set_def woke_def intro!: keeps_set_task split: option.splits)

lemma wake_waiter_Cons:
  assumes "vmm_user_activate (vm k) (cx_cr3 (tk_ctx (tasks k i))) = (r, v)"
    and "(if tk_wait4_status_ptr (tasks k i) \<noteq> 0 then copy_out (k\<lparr>vm := v\<rparr>) (tk_wait4_status_ptr (tasks k i)) (wait_status (tasks k ti))
      else (True, k\<lparr>vm := v\<rparr>)) = (ok, k')"
  shows "wake_waiter (i # is) ti k =
     (if \<not> tk_used (tasks k i) \<or> tk_pid (tasks k i) \<noteq> tk_ppid (tasks k ti) \<or> tk_state (tasks k i) \<noteq> TASK_BLOCKED \<or>
         \<not> tk_wait4_active (tasks k i) \<or> tk_wait4_pid (tasks k i) > 0 \<and> tk_wait4_pid (tasks k i) \<noteq> tk_pid (tasks k ti)
      then wake_waiter is ti k
      else if r \<noteq> 0 then wake_waiter is ti (k\<lparr>vm := v\<rparr>)
      else if \<not> ok then wake_waiter is ti k' else set_task k' i (end_wait4 (tk_pid (tasks k ti))))"
  using assms(2) by (simp add: assms(1) wake_waiter.simps(2) Let_def)

lemma keeps_wake_waiter: "keeps k (wake_waiter is ti k)"
proof (induction "is" arbitrary: k)
  case (Cons i "is")
  obtain r v where a: "vmm_user_activate (vm k) (cx_cr3 (tk_ctx (tasks k i))) = (r, v)" by (rule prod.exhaust)
  let ?k = "k\<lparr>vm := v\<rparr>"
  obtain ok k' where c: "(if tk_wait4_status_ptr (tasks k i) \<noteq> 0 then copy_out ?k (tk_wait4_status_ptr (tasks k i)) (wait_status (tasks k ti))
      else (True, ?k)) = (ok, k')" by (rule prod.exhaust)
  have k': "keeps ?k k' \<and> tasks k' = tasks ?k"
  proof (cases "tk_wait4_status_ptr (tasks k i) = 0")
    case True
    then have "k' = ?k" using c by simp
    then show ?thesis by simp
  next
    case False
    then have "copy_out ?k (tk_wait4_status_ptr (tasks k i)) (wait_status (tasks k ti)) = (ok, k')" using c by (simp only: if_True simp_thms)
    then show ?thesis using keeps_copy_out copy_out_tasks by blast
  qed
  have k: "keeps k k'" using keeps_trans [OF keeps_vm(1)] k' by blast
  have "keeps k (set_task k' i (end_wait4 (tk_pid (tasks k ti))))" if "tk_state (tasks k i) = TASK_BLOCKED"
    using k that k' by (intro keeps_trans [OF k] keeps_set_task) (simp add: woke_def end_wait4_def)
  moreover have "keeps k (wake_waiter is ti ?k)" "keeps k (wake_waiter is ti k')"
    using keeps_trans [OF keeps_vm(1) Cons.IH] keeps_trans [OF k Cons.IH] by blast+
  moreover note wake_waiter_Cons [OF a c]
  ultimately show ?case using Cons.IH [of k] by presburger
qed simp

section \<open>The invariant of the process table\<close>

text \<open>
  The slots in use have different positive process numbers below the next one to be given, a parent has
  a smaller number than its child, and task 0 exists.
\<close>

definition table_ok :: "kernel \<Rightarrow> bool" where
  "table_ok k \<longleftrightarrow> current_task k < MAX_TASKS \<and> tk_used (tasks k 0) \<and> tk_pid (tasks k 0) = 1 \<and>
     (\<forall>i<MAX_TASKS. tk_used (tasks k i) \<longrightarrow> 0 < tk_pid (tasks k i) \<and> tk_pid (tasks k i) < next_pid k \<and> tk_ppid (tasks k i) < tk_pid (tasks k i)) \<and>
     (\<forall>i<MAX_TASKS. \<forall>j<MAX_TASKS. tk_used (tasks k i) \<and> tk_used (tasks k j) \<and> tk_pid (tasks k i) = tk_pid (tasks k j) \<longrightarrow> i = j)"

text \<open>No task runs: the state between the two halves of a switch.\<close>

definition parked :: "kernel \<Rightarrow> bool" where
  "parked k \<longleftrightarrow> table_ok k \<and> (\<forall>i<MAX_TASKS. tk_used (tasks k i) \<longrightarrow> tk_state (tasks k i) \<noteq> TASK_RUNNING)"

text \<open>The current task runs, and no other one.\<close>

definition proc_ok :: "kernel \<Rightarrow> bool" where
  "proc_ok k \<longleftrightarrow> table_ok k \<and> tk_used (cur k) \<and> tk_state (cur k) = TASK_RUNNING \<and>
     (\<forall>i<MAX_TASKS. tk_used (tasks k i) \<and> tk_state (tasks k i) = TASK_RUNNING \<longrightarrow> i = current_task k)"

lemma table_okD:
  assumes "table_ok k"
  shows "current_task k < MAX_TASKS" "tk_used (tasks k 0)" "tk_pid (tasks k 0) = 1"
    "\<And>i. i < MAX_TASKS \<Longrightarrow> tk_used (tasks k i) \<Longrightarrow> 0 < tk_pid (tasks k i) \<and> tk_pid (tasks k i) < next_pid k \<and> tk_ppid (tasks k i) < tk_pid (tasks k i)"
    "\<And>i j. i < MAX_TASKS \<Longrightarrow> j < MAX_TASKS \<Longrightarrow> tk_used (tasks k i) \<Longrightarrow> tk_used (tasks k j) \<Longrightarrow> tk_pid (tasks k i) = tk_pid (tasks k j) \<Longrightarrow> i = j"
  using assms unfolding table_ok_def by blast+

lemma proc_okD:
  assumes "proc_ok k"
  shows "table_ok k" "tk_used (tasks k (current_task k))" "tk_state (tasks k (current_task k)) = TASK_RUNNING"
    "\<And>i. i < MAX_TASKS \<Longrightarrow> tk_used (tasks k i) \<Longrightarrow> tk_state (tasks k i) = TASK_RUNNING \<Longrightarrow> i = current_task k"
  using assms unfolding proc_ok_def cur_def by blast+

text \<open>The table depends on four fields of a task.\<close>

lemma table_ok_cong:
  assumes "table_ok k" "current_task k' < MAX_TASKS" "next_pid k' = next_pid k"
    "\<And>i. tk_used (tasks k' i) = tk_used (tasks k i) \<and> tk_pid (tasks k' i) = tk_pid (tasks k i) \<and> tk_ppid (tasks k' i) = tk_ppid (tasks k i)"
  shows "table_ok k'"
  using assms by (simp add: table_ok_def)

lemma woke_running: "woke t t' \<Longrightarrow> tk_state t' = TASK_RUNNING \<longleftrightarrow> tk_state t = TASK_RUNNING"
  by (auto simp: woke_def)

lemma woke_zombie: "woke t t' \<Longrightarrow> tk_state t = TASK_ZOMBIE \<Longrightarrow> tk_state t' = TASK_ZOMBIE"
  by (auto simp: woke_def)

lemma keepsD:
  assumes "keeps k k'"
  shows "current_task k' = current_task k" "next_pid k' = next_pid k"
    "\<And>i. tk_used (tasks k' i) = tk_used (tasks k i) \<and> tk_pid (tasks k' i) = tk_pid (tasks k i) \<and> tk_ppid (tasks k' i) = tk_ppid (tasks k i)"
    "\<And>i. tk_state (tasks k' i) = TASK_RUNNING \<longleftrightarrow> tk_state (tasks k i) = TASK_RUNNING"
proof -
  have w: "woke (tasks k i) (tasks k' i)" for i using assms by (simp add: keeps_def)
  show "current_task k' = current_task k" "next_pid k' = next_pid k" using assms by (simp_all add: keeps_def)
  show "tk_used (tasks k' i) = tk_used (tasks k i) \<and> tk_pid (tasks k' i) = tk_pid (tasks k i) \<and> tk_ppid (tasks k' i) = tk_ppid (tasks k i)" for i
    using w [of i] by (simp add: woke_def)
  show "tk_state (tasks k' i) = TASK_RUNNING \<longleftrightarrow> tk_state (tasks k i) = TASK_RUNNING" for i by (rule woke_running [OF w])
qed

lemma keeps_table:
  assumes "table_ok k" "keeps k k'"
  shows "table_ok k'"
  using table_okD(1) [OF assms(1)] keepsD [OF assms(2)] by (intro table_ok_cong [OF assms(1)]) simp_all

lemma keeps_parked: "parked k \<Longrightarrow> keeps k k' \<Longrightarrow> parked k'"
  using keeps_table [of k k'] keepsD [of k k'] by (simp add: parked_def)

lemma keeps_proc_ok: "proc_ok k \<Longrightarrow> keeps k k' \<Longrightarrow> proc_ok k'"
  using keeps_table [of k k'] keepsD [of k k'] by (simp add: proc_ok_def cur_def)

lemma table_ok_set:
  assumes "table_ok k" "tk_used (f (tasks k i)) = tk_used (tasks k i)" "tk_pid (f (tasks k i)) = tk_pid (tasks k i)"
    "tk_ppid (f (tasks k i)) = tk_ppid (tasks k i)"
  shows "table_ok (set_task k i f)"
  using table_okD(1) [OF assms(1)] assms(2-4) by (intro table_ok_cong [OF assms(1)]) simp_all

text \<open>The current task stops running.\<close>

lemma park_current:
  assumes "proc_ok k" "tk_used (f (cur k)) = tk_used (cur k)" "tk_pid (f (cur k)) = tk_pid (cur k)" "tk_ppid (f (cur k)) = tk_ppid (cur k)"
    "tk_state (f (cur k)) \<noteq> TASK_RUNNING"
  shows "parked (set_task k (current_task k) f)"
  unfolding parked_def
proof (intro conjI allI impI)
  let ?k = "set_task k (current_task k) f"
  show "table_ok ?k"
    using table_ok_set [OF proc_okD(1) [OF assms(1)], of f "current_task k"] assms(2-4) by (simp add: cur_def)
  fix i :: nat assume "i < MAX_TASKS" "tk_used (tasks ?k i)"
  then show "tk_state (tasks ?k i) \<noteq> TASK_RUNNING"
  proof (cases "i = current_task k")
    case True
    then show ?thesis using assms(5) by (simp add: cur_def)
  next
    case False
    then have "tasks ?k i = tasks k i" by simp
    then show ?thesis using False proc_okD(4) [OF assms(1) \<open>i < MAX_TASKS\<close>] \<open>tk_used (tasks ?k i)\<close> by metis
  qed
qed

text \<open>A task that is in use starts to run.\<close>

lemma run_task:
  assumes "parked k" "i < MAX_TASKS" "tk_used (tasks k i)"
  shows "proc_ok ((set_task k i (\<lambda>t. t\<lparr>tk_state := TASK_RUNNING\<rparr>))\<lparr>current_task := i\<rparr>)"
proof -
  have "table_ok (set_task k i (\<lambda>t. t\<lparr>tk_state := TASK_RUNNING\<rparr>))" using assms(1) by (intro table_ok_set) (simp_all add: parked_def)
  then have "table_ok ((set_task k i (\<lambda>t. t\<lparr>tk_state := TASK_RUNNING\<rparr>))\<lparr>current_task := i\<rparr>)"
    by (rule table_ok_cong) (use assms(2) in simp_all)
  then show ?thesis using assms by (auto simp: proc_ok_def cur_def parked_def)
qed

lemma keeps_account: "keeps k (task_account_switch k i)"
  by (auto simp: task_account_switch_def woke_def intro!: keeps_set_task)

lemma proc_ok_same:
  assumes "proc_ok k" "tasks k' = tasks k" "current_task k' = current_task k" "next_pid k' = next_pid k"
  shows "proc_ok k'"
  using keeps_proc_ok [OF assms(1)] assms(2-4) by (simp add: keeps_same)

lemma switch_to_ok:
  assumes "parked k" "i < MAX_TASKS" "tk_used (tasks k i)"
  shows "proc_ok (switch_to k i)" "current_task (switch_to k i) = i"
proof -
  let ?k = "(set_task k i (\<lambda>t. t\<lparr>tk_state := TASK_RUNNING\<rparr>))\<lparr>current_task := i\<rparr>"
  have p: "proc_ok (task_account_switch ?k i)" by (rule keeps_proc_ok [OF run_task [OF assms] keeps_account])
  show "proc_ok (switch_to k i)" by (rule proc_ok_same [OF p]) (simp_all add: switch_to_def Let_def)
  show "current_task (switch_to k i) = i"
    using keepsD(1) [OF keeps_account [of ?k i]] by (simp add: switch_to_def Let_def)
qed

lemma resume_task_ok:
  assumes "parked k" "i < MAX_TASKS" "tk_used (tasks k i)"
  shows "proc_ok (resume_task k i)"
  by (rule proc_ok_same [OF run_task [OF assms]]) (simp_all add: resume_task_def Let_def)

text \<open>A task that does not run is changed.\<close>

lemma proc_ok_other:
  assumes "proc_ok k" "i \<noteq> current_task k" "tk_used (f (tasks k i)) = tk_used (tasks k i)" "tk_pid (f (tasks k i)) = tk_pid (tasks k i)"
    "tk_ppid (f (tasks k i)) = tk_ppid (tasks k i)" "tk_state (f (tasks k i)) \<noteq> TASK_RUNNING"
  shows "proc_ok (set_task k i f)"
  using assms table_ok_set [OF proc_okD(1) [OF assms(1)], of f i] by (auto simp: proc_ok_def cur_def)

lemma proc_ok_unuse:
  assumes "proc_ok k" "i \<noteq> current_task k" "i \<noteq> 0" "\<not> tk_used (f (tasks k i))"
  shows "proc_ok (set_task k i f)"
  using assms by (auto simp: proc_ok_def cur_def table_ok_def)

lemma keeps_reap_resources: "keeps k (task_reap_resources k i)"
proof -
  let ?k = "on_fds k (\<lambda>s. task_fd_table_release s i)"
  have "keeps ?k (set_task k' i (\<lambda>t. t\<lparr>tk_ctx := (tk_ctx t)\<lparr>cx_cr3 := 0\<rparr>\<rparr>))" if "keeps ?k k'" for k'
    by (rule keeps_trans [OF that], rule keeps_set_task) (simp add: woke_def)
  then have "keeps k (set_task k' i (\<lambda>t. t\<lparr>tk_ctx := (tk_ctx t)\<lparr>cx_cr3 := 0\<rparr>\<rparr>))" if "keeps ?k k'" for k'
    using that keeps_trans [OF keeps_on_fds] by blast
  then show ?thesis by (simp add: task_reap_resources_def Let_def)
qed

lemma reap_ok:
  assumes "proc_ok k" "i \<noteq> current_task k" "i \<noteq> 0"
  shows "proc_ok (reap k i)"
  unfolding reap_def
  using keeps_proc_ok [OF assms(1) keeps_reap_resources] keepsD(1) [OF keeps_reap_resources] assms(2,3) by (intro proc_ok_unuse) simp_all

text \<open>The child of a task is neither the running task nor task 0 when it is a zombie.\<close>

lemma zombie_child:
  assumes "proc_ok k" "i < MAX_TASKS" "tk_used (tasks k i)" "tk_ppid (tasks k i) = tk_pid (cur k)" "tk_state (tasks k i) = TASK_ZOMBIE"
  shows "i \<noteq> current_task k" "i \<noteq> 0"
proof -
  note P = proc_okD [OF assms(1)] and T = table_okD [OF proc_okD(1) [OF assms(1)]]
  show "i \<noteq> current_task k" using P(3) assms(5) by auto
  have "0 < tk_ppid (tasks k i)" using T(4) [OF T(1) P(2)] assms(4) by (simp add: cur_def)
  moreover have "tk_ppid (tasks k 0) < 1" using T(4) [of 0] T(2,3) by simp
  ultimately show "i \<noteq> 0" by (metis less_le_not_le zle_diff1_eq diff_self)
qed

lemma pick_scan_mem: "pick_scan s is (b, k) = (Some i, k') \<Longrightarrow> b = Some i \<or> i \<in> set is \<and> runnable s i"
proof (induction "is" arbitrary: b k)
  case (Cons j js)
  show ?case using Cons.prems Cons.IH [of "Some j" "urgency s j"] Cons.IH [of b k]
    by (auto simp: pick_scan_Cons split: if_splits)
qed simp

lemma pick_next_in:
  assumes "task_pick_next s = Some i"
  shows "i < MAX_TASKS" "runnable s i"
proof -
  obtain x where "pick_scan s (scan_order (current_task s)) (None, (1000000, - 1)) = (Some i, x)"
    using assms unfolding task_pick_next_def by (metis fst_conv prod.exhaust)
  then have m: "i \<in> set (scan_order (current_task s))" "runnable s i" using pick_scan_mem by blast+
  then obtain n where "i = (current_task s + n) mod MAX_TASKS" unfolding scan_order_def set_map by blast
  then show "i < MAX_TASKS" by simp
  show "runnable s i" by (rule m(2))
qed

section \<open>Every operation keeps the invariant\<close>

lemma find_slot: "find P [0..<n] = Some i \<Longrightarrow> i < n \<and> P i"
  by (auto simp: find_Some_iff)

lemma init_root_ok: "table_ok k \<Longrightarrow> init_root k = k"
  by (simp add: init_root_def task_init_root_def table_ok_def)

lemma exit_next_in:
  assumes "table_ok k"
  shows "exit_next k ti < MAX_TASKS" "tk_used (tasks k (exit_next k ti))"
proof -
  let ?f = "find (\<lambda>i. tk_used (tasks k i) \<and> tk_pid (tasks k i) = tk_ppid (tasks k ti) \<and> tk_state (tasks k i) = TASK_RUNNABLE) [0..<MAX_TASKS]"
  have f: "i < MAX_TASKS \<and> tk_used (tasks k i)" if "?f = Some i" for i using find_slot [OF that] by blast
  have p: "i < MAX_TASKS \<and> tk_used (tasks k i)" if "task_pick_next k = Some i" for i using pick_next_in [OF that] by blast
  have "exit_next k ti < MAX_TASKS \<and> tk_used (tasks k (exit_next k ti))"
    using f p table_okD(2) [OF assms] by (cases ?f; cases "task_pick_next k") (simp_all add: exit_next_def Let_def)
  then show "exit_next k ti < MAX_TASKS" "tk_used (tasks k (exit_next k ti))" by blast+
qed

lemma become_zombie_parked:
  assumes "proc_ok k"
  shows "parked (become_zombie k (current_task k) status)"
proof -
  let ?ti = "current_task k"
  let ?k3 = "on_fds (task_clear_child_tid (drop_framebuffer k ?ti) ?ti) (\<lambda>s. task_fd_table_release s ?ti)"
  have k3: "keeps k ?k3"
    using keeps_drop_framebuffer keeps_clear_child_tid keeps_on_fds by (blast intro: keeps_trans)
  show ?thesis
    using park_current [OF keeps_proc_ok [OF assms k3], of "\<lambda>t. t\<lparr>tk_exit_status := status, tk_state := TASK_ZOMBIE\<rparr>"] keepsD(1) [OF k3]
    by (simp add: become_zombie_def Let_def)
qed

lemma exit_ok:
  assumes "proc_ok k"
  shows "proc_ok (snd (sys_exit k status))"
proof (cases "current_task k = 0")
  case True
  have "proc_ok ((on_fds k (\<lambda>s. task_fd_table_release s 0))\<lparr>user_exit_status := status, user_exit_pending := True\<rparr>)"
    by (rule proc_ok_same [OF assms]) simp_all
  then show ?thesis using True init_root_ok [OF proc_okD(1) [OF assms]] by (simp add: sys_exit_def Let_def)
next
  case False
  let ?ti = "current_task k"
  let ?k4 = "become_zombie k ?ti status"
  let ?k5 = "if tk_ppid (tasks ?k4 ?ti) > 0 then wake_waiter [0..<MAX_TASKS] ?ti (notify_parent ?k4 ?ti) else ?k4"
  have "keeps ?k4 (wake_waiter [0..<MAX_TASKS] ?ti (notify_parent ?k4 ?ti))"
    by (rule keeps_trans [OF keeps_notify_parent keeps_wake_waiter])
  then have p: "parked ?k5" using keeps_parked [OF become_zombie_parked [OF assms]] become_zombie_parked [OF assms] by presburger
  then have "table_ok ?k5" unfolding parked_def by blast
  then have "proc_ok (switch_to ?k5 (exit_next ?k5 ?ti))" using exit_next_in p by (intro switch_to_ok(1)) blast+
  then show ?thesis using False init_root_ok [OF proc_okD(1) [OF assms]] unfolding sys_exit_def Let_def by (simp only: if_False snd_conv)
qed

lemma wait4_ok:
  assumes "proc_ok k"
  shows "proc_ok (snd (sys_wait4 k f pid status options))"
proof -
  let ?ti = "current_task k"
  note i = init_root_ok [OF proc_okD(1) [OF assms]]
  let ?P = "\<lambda>i. let t = tasks k i in tk_used t \<and> tk_ppid t = tk_pid (tasks k ?ti) \<and> \<not> (pid > 0 \<and> tk_pid t \<noteq> pid) \<and> tk_state t = TASK_ZOMBIE"
  let ?b = "\<lambda>c. (task_save_from_frame k f c)\<lparr>tk_wait4_active := True, tk_wait4_pid := pid, tk_wait4_status_ptr := status, tk_state := TASK_BLOCKED\<rparr>"
  let ?kb = "set_task k ?ti ?b"
  have pb: "parked ?kb" by (rule park_current [OF assms]) (simp_all add: task_save_from_frame_def)
  have undo: "proc_ok (set_task ?kb ?ti (\<lambda>c. c\<lparr>tk_wait4_active := False, tk_wait4_pid := -1, tk_wait4_status_ptr := 0, tk_state := TASK_RUNNING\<rparr>))"
    by (rule keeps_proc_ok [OF assms]) (use proc_okD(3) [OF assms] in \<open>simp add: keeps_def woke_def task_save_from_frame_def\<close>)
  have sleep: "proc_ok (resume_task ?kb nxt)" if "task_pick_next ?kb = Some nxt" for nxt
    using pick_next_in [OF that] pb by (intro resume_task_ok) simp_all
  have take: "proc_ok (set_task (reap k' z) ?ti (\<lambda>c. snd (sig_pending_set c SIGCHLD)))" if z: "find ?P [0..<MAX_TASKS] = Some z" and k': "keeps k k'" for z k'
  proof -
    have "z < MAX_TASKS" "?P z" using find_slot [OF z] by blast+
    then have "z \<noteq> ?ti" "z \<noteq> 0" using zombie_child [OF assms] unfolding cur_def Let_def by blast+
    then have "proc_ok (reap k' z)" using reap_ok [OF keeps_proc_ok [OF assms k']] keepsD(1) [OF k'] by simp
    then show ?thesis by (rule keeps_proc_ok) (auto simp: sig_pending_set_def woke_def intro: keeps_set_task)
  qed
  show ?thesis
  proof (cases "find ?P [0..<MAX_TASKS]")
    case None
    then show ?thesis using assms undo sleep by (auto simp: sys_wait4_def i Let_def split: option.splits)
  next
    case (Some z)
    obtain ok k' where c: "(if status \<noteq> 0 then copy_out k status (wait_status (tasks k z)) else (True, k)) = (ok, k')" by (rule prod.exhaust)
    then have "keeps k k'" using keeps_copy_out [of k status _ ok k'] by (cases "status = 0") auto
    then show ?thesis using Some c assms take [OF Some] keeps_proc_ok [OF assms] by (simp add: sys_wait4_def i Let_def)
  qed
qed

lemma futex_ok:
  assumes "proc_ok k"
  shows "proc_ok (snd (sys_futex now k f uaddr op val timeout))"
proof -
  let ?ti = "current_task k"
  note i = init_root_ok [OF proc_okD(1) [OF assms]]
  have wait: "proc_ok (snd (futex_wait now k f uaddr val timeout))"
  proof (cases "\<exists>deadline. futex_user_load k uaddr = Some val \<and> futex_deadline now k timeout = Inr deadline")
    case False
    then show ?thesis using assms by (auto simp: futex_wait_def split: option.splits sum.splits)
  next
    case True
    then obtain deadline where d: "futex_user_load k uaddr = Some val" "futex_deadline now k timeout = Inr deadline" by blast
    let ?s = "\<lambda>t. let t = task_save_from_frame k f t in
                t\<lparr>tk_futex_addr := uaddr, tk_futex_cr3 := cx_cr3 (tk_ctx t) AND PAGE_MASK, tk_futex_deadline_ns := deadline,
                  tk_ctx := (tk_ctx t)\<lparr>cx_rax := 0\<rparr>\<rparr>"
    let ?k = "set_task k ?ti ?s"
    have k: "keeps k ?k" by (rule keeps_set_task) (simp add: woke_def Let_def task_save_from_frame_def)
    note p = keeps_proc_ok [OF assms k]
    have "parked (set_task ?k ?ti (\<lambda>t. t\<lparr>tk_state := TASK_BLOCKED\<rparr>))"
      using park_current [OF p, of "\<lambda>t. t\<lparr>tk_state := TASK_BLOCKED\<rparr>"] by simp
    then have "proc_ok (resume_task (set_task ?k ?ti (\<lambda>t. t\<lparr>tk_state := TASK_BLOCKED\<rparr>)) nxt)" if "task_pick_next ?k = Some nxt" for nxt
      using pick_next_in [OF that] by (intro resume_task_ok) (auto simp: task_save_from_frame_def)
    moreover have "proc_ok (set_task ?k ?ti (\<lambda>t. (end_futex_wait t)\<lparr>tk_state := TASK_RUNNING\<rparr>))"
      by (rule keeps_proc_ok [OF p], rule keeps_set_task)
        (use proc_okD(3) [OF p] in \<open>simp add: woke_def end_futex_wait_def\<close>)
    ultimately show ?thesis
      using d by (simp add: futex_wait_def Let_def task_switch_from_current_blocked_def split: option.splits)
  qed
  have wake: "proc_ok (snd (futex_wake k uaddr val))"
    using keeps_proc_ok [OF assms keeps_futex_wake] assms by (auto simp: futex_wake_def Let_def split: prod.splits)
  show ?thesis using assms wait wake unfolding sys_futex_def i Let_def by (simp only: snd_conv split: if_split) simp
qed

text \<open>What the interrupt handlers of keyboard and mouse may do to the process table: wake tasks.\<close>

definition wakes_only :: "(kernel \<Rightarrow> kernel) \<Rightarrow> bool" where
  "wakes_only h \<longleftrightarrow> (\<forall>k. keeps k (h k))"

lemma yield_ok:
  assumes "proc_ok k" "wakes_only tick"
  shows "proc_ok (snd (sys_sched_yield tick k f))"
proof -
  let ?ti = "current_task k"
  let ?k = "set_task k ?ti (\<lambda>t. let t = task_save_from_frame k f t in t\<lparr>tk_ctx := (tk_ctx t)\<lparr>cx_rax := 0\<rparr>\<rparr>)"
  note i = init_root_ok [OF proc_okD(1) [OF assms(1)]]
  have p: "proc_ok ?k" by (rule keeps_proc_ok [OF assms(1)], rule keeps_set_task) (simp add: woke_def Let_def task_save_from_frame_def)
  have "parked (set_task ?k ?ti (\<lambda>t. t\<lparr>tk_state := TASK_RUNNABLE\<rparr>))"
    using park_current [OF p, of "\<lambda>t. t\<lparr>tk_state := TASK_RUNNABLE\<rparr>"] by simp
  then have "proc_ok (switch_to (set_task ?k ?ti (\<lambda>t. t\<lparr>tk_state := TASK_RUNNABLE\<rparr>)) nxt)" if "task_pick_next ?k = Some nxt" for nxt
    using pick_next_in [OF that] by (intro switch_to_ok(1)) (auto simp: task_save_from_frame_def)
  moreover have "proc_ok (tick ?k)" using keeps_proc_ok [OF p] assms(2) by (simp add: wakes_only_def)
  ultimately show ?thesis by (simp add: sys_sched_yield_def i Let_def split: option.splits)
qed

lemma dispatch_ok:
  assumes "proc_ok k"
  shows "proc_ok (dispatch_enter k f)"
proof -
  let ?ti = "current_task k"
  define k1 where "k1 = (if fr_user_cr3 f \<noteq> 0 then
      let k = k\<lparr>vm := snd (vmm_user_activate (vm k) (fr_user_cr3 f))\<rparr> in
      if ?ti < MAX_TASKS \<and> tk_used (tasks k ?ti) then set_task k ?ti (\<lambda>t. t\<lparr>tk_ctx := (tk_ctx t)\<lparr>cx_cr3 := fr_user_cr3 f\<rparr>\<rparr>) else k
    else k)"
  have k1: "keeps k k1" by (simp add: k1_def Let_def keeps_def woke_def)
  note p = keeps_proc_ok [OF assms k1]
  have c: "current_task k1 = ?ti" using keepsD(1) [OF k1] .
  let ?P = "\<lambda>i. tk_used (tasks k1 i) \<and> tk_pid (tasks k1 i) = tk_wait4_reap_pid (tasks k1 ?ti) \<and>
      tk_ppid (tasks k1 i) = tk_pid (tasks k1 ?ti) \<and> tk_state (tasks k1 i) = TASK_ZOMBIE"
  have "proc_ok (reap k1 z)" if "find ?P [0..<MAX_TASKS] = Some z" for z
  proof -
    have "z < MAX_TASKS" "?P z" using find_slot [OF that] by blast+
    then show ?thesis using zombie_child [OF p] c by (intro reap_ok [OF p]) (auto simp: cur_def)
  qed
  then have "proc_ok (case find ?P [0..<MAX_TASKS] of None \<Rightarrow> k1 | Some i \<Rightarrow> reap k1 i)" using p by (simp split: option.splits)
  then have "proc_ok (set_task (case find ?P [0..<MAX_TASKS] of None \<Rightarrow> k1 | Some i \<Rightarrow> reap k1 i) ?ti (\<lambda>t. t\<lparr>tk_wait4_reap_pid := -1\<rparr>))"
    by (rule keeps_proc_ok) (rule keeps_set_task, simp add: woke_def)
  then show ?thesis using p unfolding dispatch_enter_def Let_def [of ?ti] k1_def [symmetric] by (simp add: Let_def)
qed

text \<open>A new child in a free slot.\<close>

lemma new_child_ok:
  assumes "proc_ok k" "slot < MAX_TASKS" "\<not> tk_used (tasks k slot)"
  shows "proc_ok ((set_task k slot (child_of (tasks k (current_task k)) flags ctid (next_pid k)))\<lparr>next_pid := next_pid k + 1\<rparr>)"
proof -
  let ?c = "current_task k"
  let ?k = "(set_task k slot (child_of (tasks k ?c) flags ctid (next_pid k)))\<lparr>next_pid := next_pid k + 1\<rparr>"
  note P = proc_okD [OF assms(1)] and T = table_okD [OF proc_okD(1) [OF assms(1)]]
  have s: "slot \<noteq> ?c" "slot \<noteq> 0" using P(2) T(2) assms(3) by metis+
  have c: "tk_used (tasks ?k slot)" "tk_pid (tasks ?k slot) = next_pid k" "tk_ppid (tasks ?k slot) = tk_pid (tasks k ?c)"
    "tk_state (tasks ?k slot) = TASK_RUNNABLE" by (simp_all add: child_of_def)
  have o: "tasks ?k i = tasks k i" if "i \<noteq> slot" for i using that by simp
  have pc: "0 < tk_pid (tasks k ?c)" "tk_pid (tasks k ?c) < next_pid k" using T(4) [OF T(1) P(2)] by blast+
  have one: "0 < tk_pid (tasks ?k i) \<and> tk_pid (tasks ?k i) < next_pid ?k \<and> tk_ppid (tasks ?k i) < tk_pid (tasks ?k i)"
    if "i < MAX_TASKS" "tk_used (tasks ?k i)" for i
  proof (cases "i = slot")
    case True
    then show ?thesis using c pc by simp
  next
    case False
    then show ?thesis using T(4) [OF that(1)] that(2) o [OF False] by simp
  qed
  have old: "tk_pid (tasks ?k i) < next_pid k" if "i < MAX_TASKS" "tk_used (tasks ?k i)" "i \<noteq> slot" for i
    using T(4) [OF that(1)] that(2) o [OF that(3)] by simp
  have inj: "i = j" if "i < MAX_TASKS" "j < MAX_TASKS" "tk_used (tasks ?k i)" "tk_used (tasks ?k j)" "tk_pid (tasks ?k i) = tk_pid (tasks ?k j)" for i j
  proof (cases "i = slot \<or> j = slot")
    case True
    then show ?thesis using old [OF that(1,3)] old [OF that(2,4)] that(5) c(2) by (metis less_irrefl)
  next
    case False
    then show ?thesis using T(5) [OF that(1,2)] that(3-5) o by metis
  qed
  have "table_ok ?k"
    unfolding table_ok_def using T(1,2,3) one inj o [of 0] s(2) by (simp del: set_task_simps set_task_tasks add: set_task_current)
  moreover have "i = ?c" if "i < MAX_TASKS" "tk_used (tasks ?k i)" "tk_state (tasks ?k i) = TASK_RUNNING" for i
    using P(4) [OF that(1)] that(2,3) c(4) o by (metis task_state.distinct)
  ultimately show ?thesis
    using P(2,3) o [of ?c] s(1) by (simp add: proc_ok_def cur_def del: set_task_simps set_task_tasks)
qed

text \<open>The result of \<^verbatim>\<open>clone\<close>: the caller still runs, and a new process number is the next one.\<close>

definition cloned :: "kernel \<Rightarrow> int \<times> kernel \<Rightarrow> bool" where
  "cloned k res \<longleftrightarrow> proc_ok (snd res) \<and> current_task (snd res) = current_task k \<and> tk_pid (cur (snd res)) = tk_pid (cur k) \<and>
     (fst res \<ge> 0 \<longrightarrow> fst res = next_pid k)"

lemma store_tid_keeps: "store_tid k w a pid = (ok, k') \<Longrightarrow> keeps k k'"
  using keeps_copy_out [of k a _ ok k'] by (cases w) (auto simp: store_tid_def)

lemma clone_undo_ok:
  assumes "proc_ok k" "slot \<noteq> current_task k" "slot \<noteq> 0"
  shows "proc_ok (clone_undo k slot)" "current_task (clone_undo k slot) = current_task k" "tasks (clone_undo k slot) (current_task k) = cur k"
  using proc_ok_unuse [OF keeps_proc_ok [OF assms(1) keeps_on_fds], of slot "\<lambda>s. task_fd_table_release s slot" "\<lambda>c. c\<lparr>tk_used := False\<rparr>"] assms
  by (simp_all add: clone_undo_def cur_def)

lemma clone_into_ok:
  assumes "proc_ok k" "slot < MAX_TASKS" "\<not> tk_used (tasks k slot)"
  shows "cloned k (clone_into k slot f flags child_stack ptid ctid tls)"
proof -
  let ?ti = "current_task k"
  let ?pid = "next_pid k"
  let ?k1 = "set_task k ?ti (task_save_from_frame k f)"
  let ?k2 = "(set_task ?k1 slot (child_of (tasks ?k1 ?ti) flags ctid ?pid))\<lparr>next_pid := ?pid + 1\<rparr>"
  have s: "slot \<noteq> ?ti" "slot \<noteq> 0" using proc_okD(2) [OF assms(1)] table_okD(2) [OF proc_okD(1) [OF assms(1)]] assms(3) by metis+
  have k1: "keeps k ?k1" by (rule keeps_set_task) (simp add: woke_def task_save_from_frame_def)
  have p2: "proc_ok ?k2" using new_child_ok [OF keeps_proc_ok [OF assms(1) k1] assms(2), of flags ctid] s assms(3) by simp
  have d2: "tk_pid (tasks ?k2 ?ti) = tk_pid (cur k)" using s by (simp add: task_save_from_frame_def cur_def)
  have good: "cloned k (r, k')" if "keeps ?k2 k'" "r = ?pid" for k' r
    using keeps_proc_ok [OF p2 that(1)] keepsD(1) [OF that(1)] keepsD(3) [OF that(1), of ?ti] d2 that(2) by (simp add: cloned_def cur_def)
  have bad: "cloned k (e, clone_undo k' slot)" if "keeps ?k2 k'" "e < 0" for k' e
    using clone_undo_ok [OF keeps_proc_ok [OF p2 that(1)], of slot] keepsD(1) [OF that(1)] keepsD(3) [OF that(1), of ?ti] d2 that(2) s
    by (simp add: cloned_def cur_def)
  obtain r t where c: "task_fd_table_clone (fds ?k2) ?ti slot (flags AND CLONE_FILES \<noteq> 0) = (r, t)" by (rule prod.exhaust)
  let ?k3 = "?k2\<lparr>fds := t\<rparr>"
  let ?k4 = "set_task ?k3 slot (\<lambda>c. c\<lparr>tk_ctx := clone_context flags child_stack tls (tk_ctx c)\<rparr>)"
  have early: "cloned k (- EMFILE, set_task ?k3 slot (\<lambda>c. c\<lparr>tk_used := False\<rparr>))"
    using proc_ok_unuse [OF keeps_proc_ok [OF p2 keeps_vm(2)], of slot t "\<lambda>c. c\<lparr>tk_used := False\<rparr>"] d2 s by (simp add: cloned_def cur_def)
  obtain ok5 k5 where c5: "store_tid ?k4 (flags AND CLONE_PARENT_SETTID \<noteq> 0) ptid ?pid = (ok5, k5)" by (rule prod.exhaust)
  obtain ok6 k6 where c6: "store_tid k5 (flags AND CLONE_CHILD_CLEARTID \<noteq> 0) ctid ?pid = (ok6, k6)" by (rule prod.exhaust)
  have "keeps ?k3 ?k4" by (rule keeps_set_task) (simp add: woke_def)
  then have k5: "keeps ?k2 k5" using keeps_trans [OF keeps_vm(2)] store_tid_keeps [OF c5] by (blast intro: keeps_trans)
  then have k6: "keeps ?k2 k6" using store_tid_keeps [OF c6] by (rule keeps_trans)
  let ?k7 = "set_task k6 ?ti (\<lambda>p. p\<lparr>tk_ctx := (tk_ctx p)\<lparr>cx_rax := of_int ?pid\<rparr>\<rparr>)"
  let ?k8 = "set_task ?k7 slot (\<lambda>c. if flags AND CLONE_THREAD \<noteq> 0 then c\<lparr>tk_tgid := tk_tgid (tasks ?k7 ?ti)\<rparr> else c)"
  have "keeps k6 ?k7" "keeps ?k7 ?k8" by (rule keeps_set_task; simp add: woke_def)+
  then have k8: "keeps ?k2 ?k8" using k6 by (blast intro: keeps_trans)
  have e: "clone_into k slot f flags child_stack ptid ctid tls =
     (if r < 0 then (- EMFILE, set_task ?k3 slot (\<lambda>c. c\<lparr>tk_used := False\<rparr>)) else if \<not> ok5 then (- EFAULT, clone_undo k5 slot)
      else if \<not> ok6 then (- EFAULT, clone_undo k6 slot) else (?pid, ?k8))"
    unfolding clone_into_def Let_def next_pid_set_task c split_conv c5 c6 ..
  show ?thesis unfolding e using early bad [OF k5, of "- EFAULT"] bad [OF k6, of "- EFAULT"] good [OF k8 refl] by simp
qed

lemma clone_ok:
  assumes "proc_ok k"
  shows "cloned k (sys_clone k f flags child_stack ptid ctid tls)"
proof -
  have n: "cloned k (e, k)" if "e < 0" for e using assms that by (simp add: cloned_def)
  have c: "e < 0" if "clone_checks k flags child_stack ptid ctid tls = Some e" for e
    using that by (auto simp: clone_checks_def split: if_splits)
  show ?thesis
    using n [of "- ENOMEM"] n [OF c] clone_into_ok [OF assms] find_slot [of "\<lambda>i. \<not> tk_used (tasks k i)" MAX_TASKS]
    by (auto simp: sys_clone_def init_root_ok [OF proc_okD(1) [OF assms]] split: option.splits)
qed

lemma fork_ok:
  assumes "proc_ok k"
  shows "proc_ok (snd (sys_fork k f))"
proof -
  obtain pid k1 where c: "sys_clone k f (CLONE_VM OR CLONE_FS OR CLONE_SIGHAND) 0 0 0 0 = (pid, k1)" by (rule prod.exhaust)
  note C = clone_ok [OF assms, of f "CLONE_VM OR CLONE_FS OR CLONE_SIGHAND" 0 0 0 0, unfolded c cloned_def fst_conv snd_conv]
  have p1: "proc_ok k1" using C by blast
  have pc: "1 \<le> tk_pid (cur k)" "tk_pid (cur k) < next_pid k"
    using table_okD(4) [OF proc_okD(1) [OF assms] table_okD(1) [OF proc_okD(1) [OF assms]] proc_okD(2) [OF assms]] by (auto simp: cur_def)
  have "proc_ok (snd (sys_fork k f))" if n: "\<not> pid < 0" and ci: "task_of_pid k1 pid = Some ci" for ci
  proof -
    have u: "ci < MAX_TASKS" "tk_used (tasks k1 ci)" "tk_pid (tasks k1 ci) = pid"
      using find_slot [OF ci [unfolded task_of_pid_def]] by blast+
    have d: "ci \<noteq> current_task k1" using u(3) C n pc by (auto simp: cur_def)
    have "tk_pid (tasks k1 ci) \<noteq> tk_pid (tasks k1 0)" using u(3) C n pc table_okD(3) [OF proc_okD(1) [OF p1]] by simp
    then have d: "ci \<noteq> current_task k1" "ci \<noteq> 0" using d by metis+
    let ?k2 = "set_task k1 ci (\<lambda>c. c\<lparr>tk_state := TASK_BLOCKED\<rparr>)"
    have p2: "proc_ok ?k2" using d by (intro proc_ok_other [OF p1]) simp_all
    obtain r cr3 v where v: "vmm_user_space_clone (vm ?k2) (cx_cr3 (tk_ctx (cur ?k2))) = (r, cr3, v)" by (rule prod_cases3)
    have p3: "proc_ok (?k2\<lparr>vm := v\<rparr>)" by (rule keeps_proc_ok [OF p2 keeps_vm(1)])
    let ?cr3 = "case cr3 of None \<Rightarrow> 0 | Some c \<Rightarrow> c"
    let ?k4 = "set_task (?k2\<lparr>vm := v\<rparr>) ci (\<lambda>c. c\<lparr>tk_ctx := (tk_ctx c)\<lparr>cx_cr3 := ?cr3\<rparr>, tk_state := TASK_RUNNABLE\<rparr>)"
    have "proc_ok ?k4" using d by (intro proc_ok_other [OF p3]) simp_all
    then have "proc_ok (?k4\<lparr>vm := vmm_user_flush_tlb (vm ?k4)\<rparr>)" by (rule keeps_proc_ok [OF _ keeps_vm(1)])
    moreover have "proc_ok (reap (?k2\<lparr>vm := v\<rparr>) ci)" using d by (intro reap_ok [OF p3]) simp_all
    moreover have "sys_fork k f = (if r \<noteq> 0 then (- ENOMEM, reap (?k2\<lparr>vm := v\<rparr>) ci) else (pid, ?k4\<lparr>vm := vmm_user_flush_tlb (vm ?k4)\<rparr>))"
      unfolding sys_fork_def c Let_def split_conv ci option.case v using n by (simp only: if_False)
    ultimately show ?thesis by simp
  qed
  moreover have "proc_ok (snd (sys_fork k f))" if "pid < 0 \<or> task_of_pid k1 pid = None"
    using that p1 unfolding sys_fork_def c Let_def split_conv by auto
  ultimately show ?thesis by blast
qed

section \<open>The timer interrupt\<close>

lemma timer_wake_parent_keeps: "keeps k (timer_wake_parent k ti)"
proof (cases "task_of_pid k (tk_ppid (tasks k ti))")
  case None
  then show ?thesis by (simp add: timer_wake_parent_def Let_def)
next
  case (Some i)
  let ?k = "set_task k i (\<lambda>p. p\<lparr>tk_sig_pending := (tk_sig_pending p)(0 := tk_sig_pending p 0 OR push_bit 16 1)\<rparr>)"
  have k: "keeps k ?k" by (rule keeps_set_task) (simp add: woke_def)
  obtain ok k' where c: "(if tk_wait4_status_ptr (tasks ?k i) \<noteq> 0
      then copy_out_cr3 (cx_cr3 (tk_ctx (tasks ?k i))) ?k (tk_wait4_status_ptr (tasks ?k i)) (wait_status (tasks ?k ti)) else (True, ?k)) = (ok, k')"
    by (rule prod.exhaust)
  have k': "keeps ?k k' \<and> tasks k' = tasks ?k"
  proof (cases "tk_wait4_status_ptr (tasks ?k i) = 0")
    case True
    then have "k' = ?k" using c by simp
    then show ?thesis by simp
  next
    case False
    then have "copy_out_cr3 (cx_cr3 (tk_ctx (tasks ?k i))) ?k (tk_wait4_status_ptr (tasks ?k i)) (wait_status (tasks ?k ti)) = (ok, k')"
      using c by (simp only: if_True simp_thms)
    then show ?thesis using keeps_copy_out_cr3 copy_out_cr3_tasks by blast
  qed
  have kk: "keeps k k'" using keeps_trans [OF k] k' by blast
  have "keeps k (set_task k' i (end_wait4 (tk_pid (tasks ?k ti))))" if "tk_state (tasks ?k i) = TASK_BLOCKED"
    using k' that by (intro keeps_trans [OF kk] keeps_set_task) (simp add: woke_def end_wait4_def)
  moreover have "timer_wake_parent k ti = (if tk_state (tasks ?k i) = TASK_BLOCKED \<and> tk_wait4_active (tasks ?k i) \<and>
      (tk_wait4_pid (tasks ?k i) \<le> 0 \<or> tk_wait4_pid (tasks ?k i) = tk_pid (tasks ?k ti))
      then if ok then set_task k' i (end_wait4 (tk_pid (tasks ?k ti))) else k' else ?k)"
    unfolding timer_wake_parent_def Let_def Some option.case c split_conv ..
  ultimately show ?thesis using k kk by presburger
qed

lemma timer_sigint_ok:
  assumes "proc_ok k" "ti = current_task k"
  shows "current_task (timer_sigint k ti) = ti \<and> tk_used (tasks (timer_sigint k ti) ti) \<and>
    (proc_ok (timer_sigint k ti) \<or> parked (timer_sigint k ti) \<and> tk_state (tasks (timer_sigint k ti) ti) = TASK_ZOMBIE)"
proof -
  let ?clear = "\<lambda>t. t\<lparr>tk_sig_pending := (tk_sig_pending t)(0 := tk_sig_pending t 0 AND NOT (push_bit 1 1))\<rparr>"
  let ?z = "set_task k ti (\<lambda>t. (?clear t)\<lparr>tk_exit_status := 130, tk_state := TASK_ZOMBIE\<rparr>)"
  let ?d = "timer_wake_parent (on_fds (drop_framebuffer ?z ti) (\<lambda>s. task_fd_table_release s ti)) ti"
  have "parked ?z" using park_current [OF assms(1), of "\<lambda>t. (?clear t)\<lparr>tk_exit_status := 130, tk_state := TASK_ZOMBIE\<rparr>"] assms(2) by simp
  moreover have k: "keeps ?z ?d"
    using keeps_trans [OF keeps_drop_framebuffer] keeps_trans [OF keeps_on_fds] timer_wake_parent_keeps by blast
  ultimately have p: "parked ?d" using keeps_parked by blast
  have "woke (tasks ?z ti) (tasks ?d ti)" using k unfolding keeps_def by blast
  moreover have "tk_state (tasks ?z ti) = TASK_ZOMBIE" by simp
  ultimately have z: "tk_state (tasks ?d ti) = TASK_ZOMBIE" by (rule woke_zombie)
  have u: "tk_used (tasks ?d ti)" using keepsD(3) [OF k, of ti] proc_okD(2) [OF assms(1)] assms(2) by simp
  have c: "keeps k (set_task k ti ?clear)" by (rule keeps_set_task) (simp add: woke_def)
  have "timer_sigint k ti \<in> {k, set_task k ti ?clear, ?d}" by (simp add: timer_sigint_def Let_def)
  then show ?thesis
    using assms proc_okD(2) [OF assms(1)] keeps_proc_ok [OF assms(1) c] p z u keepsD(1) [OF k] by (elim insertE emptyE) (simp_all del: push_bit_Suc_numeral)
qed

lemma timer_switch_ok:
  assumes "current_task k < MAX_TASKS" "tk_used (cur k)" "proc_ok k \<or> parked k \<and> tk_state (cur k) = TASK_ZOMBIE"
  shows "proc_ok (snd (timer_switch k))"
proof -
  let ?c = "current_task k"
  let ?k = "if tk_state (tasks k ?c) \<noteq> TASK_ZOMBIE then set_task k ?c (\<lambda>t. t\<lparr>tk_state := TASK_RUNNABLE\<rparr>) else k"
  have p: "parked ?k"
    using assms(3) park_current [of k "\<lambda>t. t\<lparr>tk_state := TASK_RUNNABLE\<rparr>"] by (auto simp: proc_ok_def cur_def)
  have u: "tk_used (tasks ?k ?c)" using assms(2) by (simp add: cur_def)
  have run: "proc_ok (task_account_switch ((set_task ?k i (\<lambda>t. t\<lparr>tk_state := TASK_RUNNING\<rparr>))\<lparr>current_task := i\<rparr>) i)"
    if "i < MAX_TASKS" "tk_used (tasks ?k i)" for i by (rule keeps_proc_ok [OF run_task [OF p that] keeps_account])
  have "proc_ok ((set_task ?k ?c (\<lambda>t. t\<lparr>tk_state := TASK_RUNNING\<rparr>))\<lparr>current_task := ?c\<rparr>)" by (rule run_task [OF p assms(1) u])
  then have stay: "proc_ok (set_task ?k ?c (\<lambda>t. t\<lparr>tk_state := TASK_RUNNING\<rparr>))" by (rule proc_ok_same) simp_all
  let ?n = "case task_pick_next ?k of Some i \<Rightarrow> Some i
       | None \<Rightarrow> if tk_state (tasks ?k ?c) = TASK_ZOMBIE \<and> tk_used (tasks ?k 0) \<and> tk_state (tasks ?k 0) \<noteq> TASK_ZOMBIE then Some 0 else None"
  have n: "i < MAX_TASKS \<and> tk_used (tasks ?k i)" if "?n = Some i" for i
    using that pick_next_in [of ?k i] by (cases "task_pick_next ?k") (simp_all split: if_splits)
  show ?thesis
  proof (cases ?n)
    case None
    then show ?thesis using stay unfolding timer_switch_def Let_def by simp
  next
    case (Some i)
    then show ?thesis using run [of i] n [OF Some] unfolding timer_switch_def Let_def by simp
  qed
qed

lemma timer_ok:
  assumes "proc_ok k" "wakes_only poll"
  shows "proc_ok (snd (timer_preempt_from_user poll now k irq))"
proof -
  let ?k = "task_wake_timed_io_waiters now (poll k)"
  let ?ti = "current_task ?k"
  have "keeps k (poll k)" using assms(2) by (simp add: wakes_only_def)
  then have p: "proc_ok ?k" using keeps_proc_ok [OF assms(1)] keeps_trans keeps_timed by blast
  have "proc_ok (snd (timer_preempt_from_user poll now k (Some (regs, cs))))" for regs cs
  proof (cases "cs AND 3 \<noteq> 3 \<or> ?ti \<ge> MAX_TASKS \<or> \<not> tk_used (tasks ?k ?ti)")
    case True
    then show ?thesis using p by (simp add: timer_preempt_from_user_def Let_def)
  next
    case False
    let ?s = "set_task ?k ?ti (\<lambda>t. t\<lparr>tk_ctx := regs\<lparr>cx_cr3 := cpu_cr3 (vm ?k), cx_fs_base := msr_fs_base ?k, cx_gs_base := msr_gs_base ?k\<rparr>,
                       tk_cpu_ticks := tk_cpu_ticks t + 1\<rparr>)"
    have ps: "proc_ok ?s" by (rule keeps_proc_ok [OF p], rule keeps_set_task) (simp add: woke_def)
    let ?g = "timer_sigint ?s ?ti"
    have g: "current_task ?g = ?ti \<and> tk_used (tasks ?g ?ti) \<and> (proc_ok ?g \<or> parked ?g \<and> tk_state (tasks ?g ?ti) = TASK_ZOMBIE)"
      by (rule timer_sigint_ok [OF ps]) simp
    have q: "proc_ok (snd (timer_switch ?g))" using g False by (intro timer_switch_ok) (auto simp: cur_def)
    obtain n k' where t: "timer_switch ?g = (n, k')" by (rule prod.exhaust)
    then have "proc_ok k'" using q by simp
    then have "proc_ok (k'\<lparr>vm := v, task_switch_target := i\<rparr>)" for v i by (rule proc_ok_same) simp_all
    then show ?thesis using \<open>proc_ok k'\<close> t False
      by (cases n) (simp_all add: timer_preempt_from_user_def Let_def)
  qed
  moreover have "proc_ok (snd (timer_preempt_from_user poll now k None))" using p by (simp add: timer_preempt_from_user_def Let_def)
  ultimately show ?thesis by (cases irq) auto
qed

section \<open>Reachable process tables\<close>

text \<open>
  The kernel starts with task 0 alone, and changes by the calls of the running task (entered through the
  dispatcher), by faults and by timer interrupts.
\<close>

inductive proc_reachable :: "kernel \<Rightarrow> bool" where
  start: "current_task k = 0 \<Longrightarrow> next_pid k = 100 \<Longrightarrow> \<forall>i. \<not> tk_used (tasks k i) \<Longrightarrow> proc_reachable (init_root k)"
| dispatch: "proc_reachable k \<Longrightarrow> proc_reachable (dispatch_enter k f)"
| clone: "proc_reachable k \<Longrightarrow> proc_reachable (snd (sys_clone k f flags child_stack ptid ctid tls))"
| fork: "proc_reachable k \<Longrightarrow> proc_reachable (snd (sys_fork k f))"
| exit: "proc_reachable k \<Longrightarrow> proc_reachable (snd (sys_exit k status))"
| exit_group: "proc_reachable k \<Longrightarrow> proc_reachable (snd (sys_exit_group k status))"
| fault: "proc_reachable k \<Longrightarrow> proc_reachable (exception_terminate_user_process k num)"
| wait4: "proc_reachable k \<Longrightarrow> proc_reachable (snd (sys_wait4 k f pid status_ptr options))"
| futex: "proc_reachable k \<Longrightarrow> proc_reachable (snd (sys_futex now k f uaddr op val timeout))"
| yield: "proc_reachable k \<Longrightarrow> wakes_only tick \<Longrightarrow> proc_reachable (snd (sys_sched_yield tick k f))"
| timer: "proc_reachable k \<Longrightarrow> wakes_only poll \<Longrightarrow> proc_reachable (snd (timer_preempt_from_user poll now k irq))"

lemma start_ok:
  assumes "current_task k = 0" "next_pid k = 100" "\<forall>i. \<not> tk_used (tasks k i)"
  shows "proc_ok (init_root k)"
  using assms by (simp add: init_root_def task_init_root_def proc_ok_def table_ok_def cur_def set_task_def)

lemma exit_group_ok: "proc_ok k \<Longrightarrow> proc_ok (snd (sys_exit_group k status))"
  using exit_ok [of k status] init_root_ok [OF proc_okD(1)] proc_ok_same [of k "k\<lparr>user_exit_status := status, user_exit_pending := True\<rparr>"]
  by (auto simp: sys_exit_group_def Let_def)

lemma fault_ok: "proc_ok k \<Longrightarrow> proc_ok (exception_terminate_user_process k num)"
  using exit_ok [of k] init_root_ok [OF proc_okD(1)] table_okD(1) [OF proc_okD(1), of k] proc_okD(2) [of k]
  by (simp add: exception_terminate_user_process_def Let_def cur_def not_le [symmetric])

lemma proc_reachable_ok: "proc_reachable k \<Longrightarrow> proc_ok k"
proof (induction rule: proc_reachable.induct)
  case (clone k f flags child_stack ptid ctid tls)
  then show ?case using clone_ok [OF clone.IH] by (simp add: cloned_def)
qed (blast intro: start_ok dispatch_ok fork_ok exit_ok exit_group_ok fault_ok wait4_ok futex_ok yield_ok timer_ok)+

text \<open>
  C9. In every state that the process calls, faults and timer interrupts can reach, the current task is
  the one running task, process numbers identify the tasks in use, they are positive and below the next one
  to be given, and a parent is older than its child.
\<close>

theorem process_table:
  assumes "proc_reachable k"
  shows "current_task k < MAX_TASKS \<and> (\<forall>i<MAX_TASKS. tk_used (tasks k i) \<and> tk_state (tasks k i) = TASK_RUNNING \<longleftrightarrow> i = current_task k)
    \<and> inj_on (\<lambda>i. tk_pid (tasks k i)) {i. i < MAX_TASKS \<and> tk_used (tasks k i)}
    \<and> (\<forall>i<MAX_TASKS. tk_used (tasks k i) \<longrightarrow> 0 < tk_pid (tasks k i) \<and> tk_pid (tasks k i) < next_pid k \<and> tk_ppid (tasks k i) < tk_pid (tasks k i))"
proof -
  note P = proc_okD [OF proc_reachable_ok [OF assms]] and T = table_okD [OF proc_okD(1) [OF proc_reachable_ok [OF assms]]]
  have "tk_used (tasks k i) \<and> tk_state (tasks k i) = TASK_RUNNING \<longleftrightarrow> i = current_task k" if "i < MAX_TASKS" for i
    using P(2,3) P(4) [OF that] by metis
  moreover have "inj_on (\<lambda>i. tk_pid (tasks k i)) {i. i < MAX_TASKS \<and> tk_used (tasks k i)}"
    using T(5) by (intro inj_onI) blast
  ultimately show ?thesis using T(1,4) by blast
qed

section \<open>Exit and wait\<close>

lemma find_unique:
  assumes "P p" "p < n" "\<And>j. j < n \<Longrightarrow> P j \<Longrightarrow> j = p"
  shows "find P [0..<n] = Some p"
proof (cases "find P [0..<n]")
  case None
  then show ?thesis using assms(1,2) by (auto simp: find_None_iff)
next
  case (Some q)
  then show ?thesis using assms(3) find_slot [OF Some] by blast
qed

lemma upt_split: "p < n \<Longrightarrow> [0..<n] = [0..<p] @ p # [Suc p..<n]"
  using upt_add_eq_append [of 0 p "n - p"] upt_conv_Cons [of p n] by simp

lemma wake_waiter_skip:
  assumes "\<And>j. j \<in> set xs \<Longrightarrow> \<not> (tk_used (tasks k j) \<and> tk_pid (tasks k j) = tk_ppid (tasks k ti))"
  shows "wake_waiter (xs @ ys) ti k = wake_waiter ys ti k"
  using assms
proof (induction xs)
  case (Cons j xs)
  have "wake_waiter (j # xs @ ys) ti k = wake_waiter (xs @ ys) ti k"
    unfolding wake_waiter.simps(2) Let_def by (rule if_P) (use Cons.prems [of j] in auto)
  then show ?case using Cons by simp
qed simp

text \<open>Task \<open>p\<close> sleeps in \<^verbatim>\<open>wait4\<close> for its child \<open>c\<close>.\<close>

definition waits_for_child :: "kernel \<Rightarrow> nat \<Rightarrow> nat \<Rightarrow> bool" where
  "waits_for_child k p c \<longleftrightarrow> p < MAX_TASKS \<and> tk_used (tasks k p) \<and> tk_pid (tasks k p) = tk_ppid (tasks k c) \<and> tk_state (tasks k p) = TASK_BLOCKED \<and>
     tk_wait4_active (tasks k p) \<and> (tk_wait4_pid (tasks k p) \<le> 0 \<or> tk_wait4_pid (tasks k p) = tk_pid (tasks k c))"

lemma wake_waiter_parent:
  assumes "table_ok k" "waits_for_child k p ti" "tk_wait4_status_ptr (tasks k p) \<noteq> 0"
    and "vmm_user_activate (vm k) (cx_cr3 (tk_ctx (tasks k p))) = (0, v)"
    and "copy_out (k\<lparr>vm := v\<rparr>) (tk_wait4_status_ptr (tasks k p)) (wait_status (tasks k ti)) = (ok, k')"
  shows "wake_waiter [0..<MAX_TASKS] ti k = (if ok then set_task k' p (end_wait4 (tk_pid (tasks k ti))) else k')"
proof -
  have w: "p < MAX_TASKS" "tk_used (tasks k p)" "tk_pid (tasks k p) = tk_ppid (tasks k ti)" "tk_state (tasks k p) = TASK_BLOCKED"
    "tk_wait4_active (tasks k p)" "\<not> (0 < tk_wait4_pid (tasks k p) \<and> tk_wait4_pid (tasks k p) \<noteq> tk_pid (tasks k ti))"
    using assms(2) unfolding waits_for_child_def by (blast, blast, blast, blast, blast, linarith)
  have u: "\<not> (tk_used (tasks k j) \<and> tk_pid (tasks k j) = tk_ppid (tasks k ti))" if "j < MAX_TASKS" "j \<noteq> p" for j
    using table_okD(5) [OF assms(1) that(1) w(1) _ w(2)] w(3) that(2) by metis
  have t: "tasks k' = tasks k" using copy_out_tasks [OF assms(5)] by simp
  have "wake_waiter [0..<MAX_TASKS] ti k = wake_waiter (p # [Suc p..<MAX_TASKS]) ti k"
    unfolding upt_split [OF w(1)] using u w(1) by (intro wake_waiter_skip) auto
  also have "\<dots> = (if ok then set_task k' p (end_wait4 (tk_pid (tasks k ti))) else wake_waiter ([Suc p..<MAX_TASKS] @ []) ti k')"
    using wake_waiter_Cons [OF assms(4), of ti ok k' "[Suc p..<MAX_TASKS]"] w assms(3,5) by (simp only: append_Nil2 if_True simp_thms refl) presburger
  also have "wake_waiter ([Suc p..<MAX_TASKS] @ []) ti k' = wake_waiter [] ti k'"
    using u t by (intro wake_waiter_skip) auto
  finally show ?thesis by simp
qed

lemma exit_next_runnable: "tk_state (tasks k (exit_next k ti)) \<noteq> TASK_RUNNABLE \<Longrightarrow> exit_next k ti = 0"
proof -
  let ?f = "find (\<lambda>i. tk_used (tasks k i) \<and> tk_pid (tasks k i) = tk_ppid (tasks k ti) \<and> tk_state (tasks k i) = TASK_RUNNABLE) [0..<MAX_TASKS]"
  have "tk_state (tasks k i) = TASK_RUNNABLE" if "?f = Some i" for i using find_slot [OF that] by blast
  then show "tk_state (tasks k (exit_next k ti)) \<noteq> TASK_RUNNABLE \<Longrightarrow> exit_next k ti = 0"
    using pick_next_in(2) [of k] by (cases ?f; cases "task_pick_next k") (auto simp: exit_next_def Let_def split: if_splits)
qed

lemma exit_next_parent:
  assumes "table_ok k" "p < MAX_TASKS" "tk_used (tasks k p)" "tk_pid (tasks k p) = tk_ppid (tasks k ti)" "tk_state (tasks k p) = TASK_RUNNABLE"
  shows "exit_next k ti = p"
proof -
  have "0 < tk_ppid (tasks k ti)" using table_okD(4) [OF assms(1-3)] assms(4) by simp
  moreover have "find (\<lambda>i. tk_used (tasks k i) \<and> tk_pid (tasks k i) = tk_ppid (tasks k ti) \<and> tk_state (tasks k i) = TASK_RUNNABLE) [0..<MAX_TASKS] = Some p"
  proof (rule find_unique)
    fix j assume "j < MAX_TASKS" "tk_used (tasks k j) \<and> tk_pid (tasks k j) = tk_ppid (tasks k ti) \<and> tk_state (tasks k j) = TASK_RUNNABLE"
    then show "j = p" using table_okD(5) [OF assms(1) _ assms(2) _ assms(3)] assms(4) by metis
  qed (use assms(2-5) in simp_all)
  ultimately show ?thesis by (simp add: exit_next_def)
qed

lemma switch_to_tasks:
  assumes "i < MAX_TASKS" "tk_used (tasks k i)"
  shows "tasks (switch_to k i) j = (if j = i then (tasks k i)\<lparr>tk_state := TASK_RUNNING, tk_switches := tk_switches (tasks k i) + 1\<rparr> else tasks k j)"
  using assms by (simp add: switch_to_def Let_def task_account_switch_def)

text \<open>The next call of a parent releases the child that has been reported to it, and no other task.\<close>

lemma dispatch_reaps:
  assumes "proc_ok k" "c < MAX_TASKS" "tk_used (tasks k c)" "tk_pid (tasks k c) = tk_wait4_reap_pid (cur k)" "tk_ppid (tasks k c) = tk_pid (cur k)"
    "tk_state (tasks k c) = TASK_ZOMBIE"
  shows "tk_used (tasks (dispatch_enter k f) j) \<longleftrightarrow> tk_used (tasks k j) \<and> j \<noteq> c"
proof -
  let ?ti = "current_task k"
  define k1 where "k1 = (if fr_user_cr3 f \<noteq> 0 then
      let k = k\<lparr>vm := snd (vmm_user_activate (vm k) (fr_user_cr3 f))\<rparr> in
      if ?ti < MAX_TASKS \<and> tk_used (tasks k ?ti) then set_task k ?ti (\<lambda>t. t\<lparr>tk_ctx := (tk_ctx t)\<lparr>cx_cr3 := fr_user_cr3 f\<rparr>\<rparr>) else k
    else k)"
  have e: "tk_used (tasks k1 i) = tk_used (tasks k i)" "tk_pid (tasks k1 i) = tk_pid (tasks k i)" "tk_ppid (tasks k1 i) = tk_ppid (tasks k i)"
    "tk_state (tasks k1 i) = tk_state (tasks k i)" "tk_wait4_reap_pid (tasks k1 i) = tk_wait4_reap_pid (tasks k i)" for i
    by (simp_all add: k1_def Let_def)
  let ?P = "\<lambda>i. tk_used (tasks k1 i) \<and> tk_pid (tasks k1 i) = tk_wait4_reap_pid (tasks k1 ?ti) \<and>
      tk_ppid (tasks k1 i) = tk_pid (tasks k1 ?ti) \<and> tk_state (tasks k1 i) = TASK_ZOMBIE"
  note T = table_okD [OF proc_okD(1) [OF assms(1)]]
  have "?P c" using assms(3-6) by (simp add: e cur_def)
  moreover have "i = c" if "i < MAX_TASKS" "?P i" for i
    using that T(5) [OF that(1) assms(2)] assms(3,4) by (simp add: e cur_def)
  ultimately have f: "find ?P [0..<MAX_TASKS] = Some c" using assms(2) by (intro find_unique) blast+
  have pos: "0 < tk_wait4_reap_pid (tasks k1 ?ti)" using T(4) [OF assms(2,3)] assms(4) by (simp add: e cur_def)
  have "dispatch_enter k f = set_task (reap k1 c) ?ti (\<lambda>t. t\<lparr>tk_wait4_reap_pid := -1\<rparr>)"
    unfolding dispatch_enter_def Let_def [of ?ti] k1_def [symmetric] using pos f by (simp add: Let_def)
  then show ?thesis using keepsD(3) [OF keeps_reap_resources [of k1 c], of j] e(1) [of j] by (auto simp: reap_def)
qed

lemma copy_out_eq:
  assumes "syscall_user_cr3 k \<noteq> 0" "user_copy_to_cr3 (vm k) (syscall_user_cr3 k) a bs = (r, v)"
  shows "copy_out k a bs = (r = 0, k\<lparr>vm := v\<rparr>)"
  using assms by (simp add: copy_out_def user_copy_to_def copy_cr3_def)

lemma drop_framebuffer_facts:
  defines "d k ti \<equiv> drop_framebuffer k ti"
  shows "vm (d k ti) = vm k" "syscall_user_cr3 (d k ti) = syscall_user_cr3 k" "current_task (d k ti) = current_task k" "next_pid (d k ti) = next_pid k"
    "tasks (d k ti) j = (if j = ti \<and> tk_fb_map_count (tasks k ti) > 0 then (tasks k ti)\<lparr>tk_fb_map_count := 0\<rparr> else tasks k j)"
  by (simp_all add: d_def drop_framebuffer_def Let_def set_task_def)

lemma become_zombie_facts:
  fixes status :: int
  assumes "tk_tid_address (tasks k ti) = 0"
  defines "z \<equiv> become_zombie k ti status"
  shows "vm z = vm k" "syscall_user_cr3 z = syscall_user_cr3 k" "\<And>j. j \<noteq> ti \<Longrightarrow> tasks z j = tasks k j"
    "tk_used (tasks z ti) = tk_used (tasks k ti)" "tk_pid (tasks z ti) = tk_pid (tasks k ti)" "tk_ppid (tasks z ti) = tk_ppid (tasks k ti)"
    "tk_state (tasks z ti) = TASK_ZOMBIE" "tk_exit_status (tasks z ti) = status"
proof -
  have "task_clear_child_tid (drop_framebuffer k ti) ti = drop_framebuffer k ti"
    using assms(1) by (simp add: task_clear_child_tid_def drop_framebuffer_facts)
  then have z: "z = set_task (on_fds (drop_framebuffer k ti) (\<lambda>s. task_fd_table_release s ti)) ti (\<lambda>t. t\<lparr>tk_exit_status := status, tk_state := TASK_ZOMBIE\<rparr>)"
    by (simp add: z_def become_zombie_def Let_def)
  show "vm z = vm k" "syscall_user_cr3 z = syscall_user_cr3 k" "\<And>j. j \<noteq> ti \<Longrightarrow> tasks z j = tasks k j"
    "tk_used (tasks z ti) = tk_used (tasks k ti)" "tk_pid (tasks z ti) = tk_pid (tasks k ti)" "tk_ppid (tasks z ti) = tk_ppid (tasks k ti)"
    "tk_state (tasks z ti) = TASK_ZOMBIE" "tk_exit_status (tasks z ti) = status"
    by (simp_all add: z on_fds_def set_task_def drop_framebuffer_facts)
qed

lemma notify_parent_eq:
  assumes "table_ok k" "p < MAX_TASKS" "tk_used (tasks k p)" "tk_pid (tasks k p) = tk_ppid (tasks k ti)"
  shows "notify_parent k ti = set_task k p (\<lambda>p. snd (sig_pending_set p SIGCHLD))"
proof -
  have "task_of_pid k (tk_ppid (tasks k ti)) = Some p"
    unfolding task_of_pid_def
  proof (rule find_unique)
    fix j assume "j < MAX_TASKS" "tk_used (tasks k j) \<and> tk_pid (tasks k j) = tk_ppid (tasks k ti)"
    then show "j = p" using table_okD(5) [OF assms(1) _ assms(2) _ assms(3)] assms(4) by metis
  qed (use assms(2-4) in simp_all)
  then show ?thesis by (simp add: notify_parent_def)
qed

text \<open>The state in which the next task is chosen after the exit of a child whose parent waits for it.\<close>

lemma exit_state:
  assumes "proc_ok k" "ti = current_task k" "ti \<noteq> 0" "tk_tid_address (tasks k ti) = 0" "waits_for_child k p ti"
    and "tk_wait4_status_ptr (tasks k p) \<noteq> 0" "syscall_user_cr3 k \<noteq> 0"
    and "vmm_user_activate (vm k) (cx_cr3 (tk_ctx (tasks k p))) = (0, v)"
    and "user_copy_to_cr3 v (syscall_user_cr3 k) (tk_wait4_status_ptr (tasks k p)) (le_bytes 4 (of_int (status mod 256 * 256))) = (r, v')"
  obtains z n k5 where "z = become_zombie k ti status" "n = snd (sig_pending_set (tasks k p) SIGCHLD)" "parked k5"
    "snd (sys_exit k status) = switch_to k5 (exit_next k5 ti)" "p \<noteq> ti"
    "\<And>j. tasks k5 j = (if j = p then (if r = 0 then end_wait4 (tk_pid (tasks k ti)) n else n) else tasks z j)"
proof -
  define z where "z = become_zombie k ti status"
  define n where "n = snd (sig_pending_set (tasks k p) SIGCHLD)"
  note Z = become_zombie_facts [OF assms(4), where status = status, folded z_def]
  have w: "p < MAX_TASKS" "tk_used (tasks k p)" "tk_pid (tasks k p) = tk_ppid (tasks k ti)" "tk_state (tasks k p) = TASK_BLOCKED"
    using assms(5) by (simp_all add: waits_for_child_def)
  have d: "p \<noteq> ti" using w(4) proc_okD(3) [OF assms(1)] assms(2) by auto
  have pz: "parked z" using become_zombie_parked [OF assms(1)] assms(2) by (simp add: z_def)
  then have tz: "table_ok z" by (simp add: parked_def)
  have zp: "tasks z p = tasks k p" using Z(3) [OF d] .
  define m where "m = notify_parent z ti"
  have m: "m = set_task z p (\<lambda>p. snd (sig_pending_set p SIGCHLD))"
    unfolding m_def using w zp Z(6) by (intro notify_parent_eq [OF tz]) simp_all
  have mt: "tasks m j = (if j = p then n else tasks z j)" for j by (simp add: m n_def zp)
  have nf: "tk_used n = tk_used (tasks k p)" "tk_pid n = tk_pid (tasks k p)" "tk_state n = tk_state (tasks k p)" "tk_ctx n = tk_ctx (tasks k p)"
    "tk_wait4_active n = tk_wait4_active (tasks k p)" "tk_wait4_pid n = tk_wait4_pid (tasks k p)" "tk_wait4_status_ptr n = tk_wait4_status_ptr (tasks k p)"
    by (simp_all add: n_def sig_pending_set_def)
  have mv: "vm m = vm k" "syscall_user_cr3 m = syscall_user_cr3 k" using Z(1,2) by (simp_all add: m set_task_def)
  have tm: "table_ok m" using keeps_table [OF tz] keeps_notify_parent m_def by blast
  have wm: "waits_for_child m p ti" using assms(5) d Z(5,6) by (simp add: waits_for_child_def mt nf)
  have cm: "copy_out (m\<lparr>vm := v\<rparr>) (tk_wait4_status_ptr (tasks m p)) (wait_status (tasks m ti)) = (r = 0, m\<lparr>vm := v, vm := v'\<rparr>)"
    using copy_out_eq [of "m\<lparr>vm := v\<rparr>"] assms(7,9) mv d by (simp add: mt nf wait_status_def Z(8))
  define k5 where "k5 = wake_waiter [0..<MAX_TASKS] ti m"
  have k5: "k5 = (if r = 0 then set_task (m\<lparr>vm := v, vm := v'\<rparr>) p (end_wait4 (tk_pid (tasks m ti))) else m\<lparr>vm := v, vm := v'\<rparr>)"
    unfolding k5_def using assms(6,8) mv nf by (intro wake_waiter_parent [OF tm wm _ _ cm]) (simp_all add: mt)
  have "parked k5" unfolding k5_def m_def using keeps_parked [OF pz] keeps_trans [OF keeps_notify_parent keeps_wake_waiter] by blast
  moreover have "tasks k5 j = (if j = p then (if r = 0 then end_wait4 (tk_pid (tasks k ti)) n else n) else tasks z j)" for j
    using d Z(5) by (simp add: k5 mt)
  moreover have "0 < tk_ppid (tasks z ti)" using table_okD(4) [OF tz w(1)] w(2,3) zp Z(6) by simp
  then have "snd (sys_exit k status) = switch_to k5 (exit_next k5 ti)"
    unfolding sys_exit_def Let_def init_root_ok [OF proc_okD(1) [OF assms(1)]] assms(2) [symmetric] z_def [symmetric] m_def [symmetric] k5_def [symmetric]
    using assms(3) by (simp add: m_def [symmetric] k5_def [symmetric])
  ultimately show thesis using that z_def n_def d by blast
qed


section \<open>Futexes\<close>

definition woken_by :: "kernel \<Rightarrow> nat list \<Rightarrow> kernel" where
  "woken_by k W = k\<lparr>tasks := \<lambda>i. if i \<in> set W then futex_wake_task (tasks k i) else tasks k i\<rparr>"

lemma futex_wake_loop_spec:
  assumes "distinct is" "unat nw \<le> unat val"
  shows "futex_wake_loop uaddr cr3 val is nw k =
    (let W = filter (\<lambda>i. futex_waiter uaddr cr3 (tasks k i)) is in
     (nw + of_nat (min (unat val - unat nw) (length W)), woken_by k (take (unat val - unat nw) W)))"
  using assms unfolding Let_def
proof (induction "is" arbitrary: nw k)
  case Nil
  then show ?case by (simp add: woken_by_def)
next
  case (Cons i "is")
  show ?case
  proof (cases "nw < val")
    case False
    then have "unat val - unat nw = 0" by (simp add: word_less_nat_alt)
    then show ?thesis using False by (simp add: woken_by_def)
  next
    case True
    then have lt: "unat nw < unat val" by (simp add: word_less_nat_alt)
    then have s: "unat (nw + 1) = Suc (unat nw)" using unsigned_less [of val, where ?'a = nat] by (simp add: unat_word_ariths)
    have d: "i \<notin> set is" "distinct is" using Cons.prems(1) by simp_all
    show ?thesis
    proof (cases "futex_waiter uaddr cr3 (tasks k i)")
      case False
      then show ?thesis using Cons.IH [OF d(2) Cons.prems(2), of k] True by simp
    next
      case W: True
      let ?k = "set_task k i futex_wake_task"
      have f: "filter (\<lambda>j. futex_waiter uaddr cr3 (tasks ?k j)) is = filter (\<lambda>j. futex_waiter uaddr cr3 (tasks k j)) is"
        using d(1) by (intro filter_cong refl) auto
      let ?F = "filter (\<lambda>j. futex_waiter uaddr cr3 (tasks k j)) is"
      obtain m where m: "unat val - unat nw = Suc m" using lt by (metis Suc_diff_Suc)
      then have m': "unat val - unat (nw + 1) = m" using s by simp
      have "i \<notin> set (take m ?F)" using d(1) by (auto dest: in_set_takeD)
      then have "woken_by ?k (take m ?F) = woken_by k (i # take m ?F)" by (auto simp: woken_by_def set_task_def fun_eq_iff)
      moreover have "unat (nw + 1) \<le> unat val" using s lt by simp
      ultimately show ?thesis
        using Cons.IH [OF d(2), of "nw + 1" ?k] True W m m' f by (simp add: add.assoc)
    qed
  qed
qed

text \<open>
  C7. A futex wake with count \<open>val\<close> ends the sleep of the first \<open>val\<close> tasks, in the order of
  their slots, that are blocked on the same address in the address space of the caller (both the address
  and the root of the page tables must agree), or of all of them if there are fewer. Such a task is
  runnable, no longer waits for a futex or for a time-out, and its call returns 0. The wake returns how many
  tasks they are and changes nothing else.
\<close>

theorem futex_wake_exact:
  assumes "uaddr \<noteq> 0" "uaddr AND 3 = 0" "op mod 128 = FUTEX_WAKE" "vmm_user_range_ok (vm k) uaddr 4 False" "tk_used (tasks k 0)"
  defines "W \<equiv> filter (\<lambda>i. tk_used (tasks k i) \<and> tk_state (tasks k i) = TASK_BLOCKED \<and> tk_futex_addr (tasks k i) = uaddr
      \<and> tk_futex_cr3 (tasks k i) = cx_cr3 (tk_ctx (tasks k (current_task k))) AND PAGE_MASK) [0..<MAX_TASKS]"
  shows "sys_futex now k f uaddr op val timeout = (int (min (unat val) (length W)),
    k\<lparr>tasks := \<lambda>i. if i \<in> set (take (unat val) W)
       then (tasks k i)\<lparr>tk_futex_addr := 0, tk_futex_cr3 := 0, tk_futex_deadline_ns := 0,
              tk_ctx := (tk_ctx (tasks k i))\<lparr>cx_rax := 0\<rparr>, tk_state := TASK_RUNNABLE\<rparr>
       else tasks k i\<rparr>)"
proof -
  have i: "init_root k = k" using assms(5) by (simp add: init_root_def task_init_root_def)
  let ?m = "min (unat val) (length W)"
  note w = W_def [folded cur_def, folded futex_waiter_def]
  have "futex_wake_loop uaddr (cx_cr3 (tk_ctx (cur k)) AND PAGE_MASK) val [0..<MAX_TASKS] 0 k = (of_nat ?m, woken_by k (take (unat val) W))"
    using futex_wake_loop_spec [of "[0..<MAX_TASKS]" 0 val uaddr "cx_cr3 (tk_ctx (cur k)) AND PAGE_MASK" k, unfolded Let_def, folded w, OF distinct_upt]
    by (simp only: unat_0 le0 diff_zero add_0 simp_thms)
  moreover have "unat (of_nat ?m :: u32) = ?m" (is "unat ?w = _")
    using unsigned_less [of val, where ?'a = nat] by (simp add: unat_of_nat min_def)
  then have "uint ?w = int ?m" by (simp only: uint_nat)
  ultimately show ?thesis
    using assms(1-4) unfolding sys_futex_def i Let_def futex_wake_def woken_by_def futex_wake_task_def end_futex_wait_def by simp
qed

section \<open>A concrete parent and child\<close>

text \<open>Task 0 starts, makes a child that shares its memory and files, and waits for it with a status pointer.\<close>

definition demo_boot :: kernel where
  "demo_boot = demo_kernel\<lparr>tasks := (\<lambda>_. demo_task\<lparr>tk_used := False\<rparr>), vm := demo_rw, syscall_user_cr3 := 0x2000\<rparr>"

definition demo_fr :: syscall_frame where
  "demo_fr = demo_frame\<lparr>fr_user_cr3 := 0x2000\<rparr>"

definition demo_alone :: kernel where
  "demo_alone = init_root demo_boot"

definition demo_family :: kernel where
  "demo_family = snd (sys_clone demo_alone demo_fr 0x500 0 0 0 0)"

definition demo_waiting :: kernel where
  "demo_waiting = snd (sys_wait4 demo_family demo_fr (- 1) 8 0)"

lemma demo_alone_reachable: "proc_reachable demo_alone"
  unfolding demo_alone_def by (rule proc_reachable.start) (simp_all add: demo_boot_def demo_kernel_def)

theorem process_table_witness:
  "inj_on (\<lambda>i. tk_pid (tasks demo_waiting i)) {i. i < MAX_TASKS \<and> tk_used (tasks demo_waiting i)}"
proof -
  have "proc_reachable demo_waiting" unfolding demo_waiting_def demo_family_def
    by (intro proc_reachable.wait4 proc_reachable.clone demo_alone_reachable)
  then show ?thesis using process_table [of demo_waiting] by blast
qed

lemma demo_alone_sel:
  "tk_used (tasks demo_alone i) = (i = 0)" "tk_pid (tasks demo_alone 0) = 1" "current_task demo_alone = 0" "vm demo_alone = demo_rw"
  "next_pid demo_alone = 100" "syscall_user_cr3 demo_alone = 0x2000" "tk_state (tasks demo_alone 0) = TASK_RUNNING"
  "fds demo_alone = init_files zero_fds" "tk_nice (tasks demo_alone i) = 0"
  by (simp_all add: demo_alone_def demo_boot_def demo_kernel_def init_root_def task_init_root_def set_task_def demo_task_def)

lemma find_second: "\<not> P 0 \<Longrightarrow> P 1 \<Longrightarrow> find P [0..<64] = Some (1 :: nat)"
  by (simp add: upt_conv_Cons)

lemma demo_family_eq:
  "demo_family = snd (clone_into demo_alone 1 demo_fr 0x500 0 0 0 0)"
proof -
  have "init_root demo_alone = demo_alone" by (simp add: init_root_def task_init_root_def demo_alone_sel)
  moreover have "clone_checks demo_alone 0x500 0 0 0 0 = None" by (simp add: clone_checks_def clone_allowed_def)
  moreover have "find (\<lambda>i. \<not> tk_used (tasks demo_alone i)) [0..<MAX_TASKS] = Some 1" by (rule find_second) (simp_all add: demo_alone_sel)
  ultimately show ?thesis by (simp add: demo_family_def sys_clone_def)
qed

lemma demo_files_clone: "\<exists>s. task_fd_table_clone (init_files zero_fds) 0 1 True = (0, s)"
  by (simp add: task_fd_table_clone_def init_files_def valid_table_def Let_def set_desc_def)

lemma demo_family_sel:
  "tk_used (tasks demo_family i) = (i = 0 \<or> i = 1)" "tk_pid (tasks demo_family 0) = 1" "tk_pid (tasks demo_family 1) = 100"
  "tk_ppid (tasks demo_family 1) = 1" "tk_state (tasks demo_family 0) = TASK_RUNNING" "tk_state (tasks demo_family 1) = TASK_RUNNABLE"
  "current_task demo_family = 0" "vm demo_family = demo_rw" "syscall_user_cr3 demo_family = 0x2000" "tk_tid_address (tasks demo_family 1) = 0"
  "cx_cr3 (tk_ctx (tasks demo_family 1)) = 0x2000" "tk_nice (tasks demo_family i) = 0"
proof -
  obtain s where s: "task_fd_table_clone (init_files zero_fds) 0 1 True = (0, s)" using demo_files_clone by blast
  let ?p = "task_save_from_frame demo_alone demo_fr (tasks demo_alone 0)"
  have e: "demo_family = demo_alone\<lparr>tasks := (tasks demo_alone)(0 := ?p\<lparr>tk_ctx := (tk_ctx ?p)\<lparr>cx_rax := 100\<rparr>\<rparr>,
      1 := child_of ?p 0x500 0 100 (tasks demo_alone 1)), next_pid := 101, fds := s\<rparr>"
    using s by (simp add: demo_family_eq clone_into_def Let_def demo_alone_sel store_tid_def clone_context_def set_task_def fun_upd_twist)
  show "tk_used (tasks demo_family i) = (i = 0 \<or> i = 1)" "tk_pid (tasks demo_family 0) = 1" "tk_pid (tasks demo_family 1) = 100"
    "tk_ppid (tasks demo_family 1) = 1" "tk_state (tasks demo_family 0) = TASK_RUNNING" "tk_state (tasks demo_family 1) = TASK_RUNNABLE"
    "current_task demo_family = 0" "vm demo_family = demo_rw" "syscall_user_cr3 demo_family = 0x2000" "tk_tid_address (tasks demo_family 1) = 0"
    "cx_cr3 (tk_ctx (tasks demo_family 1)) = 0x2000" "tk_nice (tasks demo_family i) = 0"
    by (simp_all add: e child_of_def task_save_from_frame_def demo_alone_sel demo_fr_def)
qed

lemma demo_waiting_eq:
  "demo_waiting = resume_task (set_task demo_family 0 (\<lambda>c. (task_save_from_frame demo_family demo_fr c)\<lparr>tk_wait4_active := True,
     tk_wait4_pid := - 1, tk_wait4_status_ptr := 8, tk_state := TASK_BLOCKED\<rparr>)) 1"
proof -
  let ?b = "set_task demo_family 0 (\<lambda>c. (task_save_from_frame demo_family demo_fr c)\<lparr>tk_wait4_active := True,
     tk_wait4_pid := - 1, tk_wait4_status_ptr := 8, tk_state := TASK_BLOCKED\<rparr>)"
  let ?P = "\<lambda>i. let t = tasks demo_family i in tk_used t \<and> tk_ppid t = tk_pid (tasks demo_family 0) \<and> \<not> (- 1 > (0 :: int) \<and> tk_pid t \<noteq> - 1) \<and>
    tk_state t = TASK_ZOMBIE"
  have "\<not> ?P i" for i using demo_family_sel(1) [of i] demo_family_sel(5,6) by (auto simp: Let_def)
  then have z: "find ?P [0..<MAX_TASKS] = None" by (simp only: find_None_iff simp_thms not_False_eq_True)
  have b: "runnable ?b i \<longleftrightarrow> i = 1" for i
    using demo_family_sel(1) [of i] demo_family_sel(6) by (cases "i = 0") (auto simp: task_save_from_frame_def)
  have n: "nice_ok ?b" by (simp add: nice_ok_def demo_family_sel task_save_from_frame_def)
  have "task_pick_next ?b \<noteq> None" using pick_next_None [OF n, of 1] b [of 1] by auto
  then have "task_pick_next ?b = Some 1" using pick_next_Some(2) [OF n] b by (metis option.exhaust)
  moreover have "vmm_user_range_ok demo_rw 8 4 True" by (rule demo_rw_range) simp_all
  moreover have "init_root demo_family = demo_family" by (simp add: init_root_def task_init_root_def demo_family_sel)
  ultimately show ?thesis using z by (simp add: demo_waiting_def sys_wait4_def Let_def demo_family_sel)
qed

lemma demo_rw_activate: "vmm_user_activate demo_rw 0x2000 = (0, demo_rw)"
  using demo_table by (simp add: vmm_user_activate_def Let_def demo_rw_def table_def demo_sel)

lemma demo_waiting_sel:
  "current_task demo_waiting = 1" "vm demo_waiting = demo_rw" "syscall_user_cr3 demo_waiting = 0x2000" "tk_tid_address (tasks demo_waiting 1) = 0"
  "waits_for_child demo_waiting 0 1" "tk_wait4_status_ptr (tasks demo_waiting 0) = 8" "cx_cr3 (tk_ctx (tasks demo_waiting 0)) = 0x2000"
  "tk_pid (tasks demo_waiting 1) = 100"
proof -
  have v: "vmm_user_activate demo_rw 0x2000 = (0, demo_rw)" by (rule demo_rw_activate)
  show "current_task demo_waiting = 1" "vm demo_waiting = demo_rw" "syscall_user_cr3 demo_waiting = 0x2000" "tk_tid_address (tasks demo_waiting 1) = 0"
    "waits_for_child demo_waiting 0 1" "tk_wait4_status_ptr (tasks demo_waiting 0) = 8" "cx_cr3 (tk_ctx (tasks demo_waiting 0)) = 0x2000"
    "tk_pid (tasks demo_waiting 1) = 100"
    using demo_family_sel v
    by (simp_all add: demo_waiting_eq resume_task_def Let_def waits_for_child_def set_task_def task_save_from_frame_def demo_fr_def)
qed


text \<open>
  Four tasks wait for the same address, the first of them in another address space; two are woken, and the
  first and the last go on sleeping.
\<close>

definition demo_futex :: kernel where
  "demo_futex = demo_boot\<lparr>tasks := (\<lambda>i. demo_task\<lparr>tk_used := i < 5, tk_state := (if i = 0 then TASK_RUNNING else TASK_BLOCKED),
     tk_futex_addr := 16, tk_futex_cr3 := if i = 1 then 0x3000 else 0x2000\<rparr>)\<rparr>"

theorem futex_wake_exact_witness:
  "fst (sys_futex 0 demo_futex demo_fr 16 129 2 0) = 2
    \<and> map (\<lambda>i. tk_state (tasks (snd (sys_futex 0 demo_futex demo_fr 16 129 2 0)) i)) [1, 2, 3, 4]
        = [TASK_BLOCKED, TASK_RUNNABLE, TASK_RUNNABLE, TASK_BLOCKED]"
proof -
  have r: "vmm_user_range_ok (vm demo_futex) 16 4 False" unfolding demo_futex_def demo_boot_def by simp (rule demo_rw_range; simp)
  have c: "cx_cr3 (tk_ctx (tasks demo_futex (current_task demo_futex))) AND PAGE_MASK = 0x2000" by (simp add: demo_futex_def demo_task_def)
  have "tk_used (tasks demo_futex i) \<and> tk_state (tasks demo_futex i) = TASK_BLOCKED \<and> tk_futex_addr (tasks demo_futex i) = 16
      \<and> tk_futex_cr3 (tasks demo_futex i) = 0x2000 \<longleftrightarrow> 2 \<le> i \<and> i < 5" for i by (auto simp: demo_futex_def)
  then have W: "filter (\<lambda>i. tk_used (tasks demo_futex i) \<and> tk_state (tasks demo_futex i) = TASK_BLOCKED \<and> tk_futex_addr (tasks demo_futex i) = 16
      \<and> tk_futex_cr3 (tasks demo_futex i) = 0x2000) [0..<64] = [2, 3, 4]" by (simp add: upt_conv_Cons)
  show ?thesis
    using futex_wake_exact [of 16 129 demo_futex 0 demo_fr 2 0, unfolded c W] r
    by (simp add: demo_futex_def)
qed

end
