(* ===== verification/Socket_Spec.thy ===== *)
theory Socket_Spec
  imports Socket Pipe_Spec Umem
begin

text \<open>
  Correctness of local sockets: the bytes of a connection arrive in order and none is lost, and a connection that
  is accepted joins the two descriptors to the same pair of streams.
\<close>

section \<open>The rings of a connection\<close>

lemma sock_on_sock [simp]: "sock (on_sock k j g) i = (if i = j then g (sock k i) else sock k i)"
  by (simp add: sock_def on_sock_def on_fds_def set_sock_def)

lemma on_sock_sel [simp]:
  "tasks (on_sock k j g) = tasks k" "vm (on_sock k j g) = vm k" "syscall_user_cr3 (on_sock k j g) = syscall_user_cr3 k"
  "current_task (on_sock k j g) = current_task k" "files (on_sock k j g) = files k" "copy_in (on_sock k j g) = copy_in k"
  by (simp_all add: on_sock_def on_fds_def files_def set_sock_def desc_def current_files_def copy_in_def fun_eq_iff)

lemma sring_set [simp]: "sring (set_sring d q u) e = (if e = d then q else sring u e)"
  by (simp add: sring_def set_sring_def)

lemma sring_n [simp]: "rg_n (sring u d) = us_count u d"
  by (simp add: sring_def)

lemma ring_push_all_write:
  assumes "ring_ok cap q" "length bs \<le> unat cap - unat (rg_n q)"
  shows "ring_push_all cap q bs = snd (ring_write cap q bs)"
  using assms
proof (induction bs arbitrary: q)
  case (Cons b bs)
  have lt: "rg_n q < cap" using Cons.prems(2) by (simp add: word_less_nat_alt)
  note P = ring_push_spec [OF Cons.prems(1) lt, of b]
  have "ring_push_all cap (ring_push cap q b) bs = snd (ring_write cap (ring_push cap q b) bs)"
    using Cons.prems(2) P(3) by (intro Cons.IH [OF P(1)]) simp
  then show ?case using lt by (simp add: ring_push_all_def case_prod_beta)
qed (simp add: ring_push_all_def)

lemma ring_push_all_spec:
  assumes "ring_ok cap q" "length bs \<le> unat cap - unat (rg_n q)"
  shows "ring_ok cap (ring_push_all cap q bs)" "ring_contents cap (ring_push_all cap q bs) = ring_contents cap q @ bs"
  using ring_write_spec [OF assms(1) prod.collapse [symmetric], of bs] ring_push_all_write [OF assms] assms(2) by auto

lemma ring_pop_all_read:
  assumes "ring_ok cap q" "n \<le> unat (rg_n q)"
  shows "ring_pop_all cap q n = ring_read cap q n"
  using assms
proof (induction n arbitrary: q)
  case (Suc n)
  have ne: "rg_n q \<noteq> 0" using Suc.prems(2) by auto
  have "unat (rg_n (ring_pop cap q)) = unat (rg_n q) - 1" using ne by (simp add: ring_pop_def unat_minus_one)
  then have "ring_pop_all cap (ring_pop cap q) n = ring_read cap (ring_pop cap q) n"
    using Suc.prems(2) by (intro Suc.IH ring_pop_spec(1) [OF Suc.prems(1) ne]) simp
  then show ?case using ne by simp
qed simp

text \<open>The bytes that side \<open>d\<close> of a connection can read.\<close>

definition sock_bytes :: "kernel \<Rightarrow> nat \<Rightarrow> nat \<Rightarrow> u8 list" where
  "sock_bytes k i d = ring_contents SOCK_CAP (sring (sock k i) d)"

definition sock_ok :: "kernel \<Rightarrow> nat \<Rightarrow> nat \<Rightarrow> bool" where
  "sock_ok k i d \<longleftrightarrow> ring_ok SOCK_CAP (sring (sock k i) d)"

lemma sock_bytes_length: "length (sock_bytes k i d) = unat (us_count (sock k i) d)"
  by (simp add: sock_bytes_def)

lemma sock_room:
  assumes "sock_ok k i d"
  shows "length (sock_bytes k i d) \<le> 16384" "unat (SOCK_CAP - us_count (sock k i) d) = 16384 - length (sock_bytes k i d)"
proof -
  show "length (sock_bytes k i d) \<le> 16384" using ring_okD(3) [OF assms [unfolded sock_ok_def]] by (simp add: sock_bytes_length)
  then show "unat (SOCK_CAP - us_count (sock k i) d) = 16384 - length (sock_bytes k i d)"
    by (simp add: sock_bytes_length unat_sub word_le_nat_alt)
qed

lemma sock_put_spec:
  assumes "sock_ok k i d" "length bs \<le> 16384 - length (sock_bytes k i d)"
  shows "sock_ok (sock_put k i d bs) i d" "sock_bytes (sock_put k i d bs) i d = sock_bytes k i d @ bs"
  using ring_push_all_spec [of SOCK_CAP "sring (sock k i) d" bs] assms by (simp_all add: sock_ok_def sock_bytes_def sock_put_def)

lemma sock_take_spec:
  assumes "sock_ok k i d" "n \<le> length (sock_bytes k i d)" "sock_take k i d n = (bs, k')"
  shows "sock_ok k' i d" "bs = take n (sock_bytes k i d)" "sock_bytes k' i d = drop n (sock_bytes k i d)"
    "vm k' = vm k" "syscall_user_cr3 k' = syscall_user_cr3 k"
proof -
  obtain q where q: "ring_pop_all SOCK_CAP (sring (sock k i) d) n = (bs, q)" "k' = on_sock k i (set_sring d q)"
    using assms(3) by (auto simp: sock_take_def split: prod.splits)
  have "ring_read SOCK_CAP (sring (sock k i) d) n = (bs, q)"
    using q(1) ring_pop_all_read [of SOCK_CAP "sring (sock k i) d" n] assms(1,2) by (simp add: sock_ok_def sock_bytes_length)
  then show "sock_ok k' i d" "bs = take n (sock_bytes k i d)" "sock_bytes k' i d = drop n (sock_bytes k i d)"
    using ring_read_spec assms(1) by (auto simp: sock_ok_def sock_bytes_def q(2))
  show "vm k' = vm k" "syscall_user_cr3 k' = syscall_user_cr3 k" by (simp_all add: q(2))
qed

section \<open>Sending and receiving\<close>

lemma send_loop_spec:
  assumes "sock_ok k i d" "user_bytes k buf data" "n \<le> length data" "done \<le> n" "n - done \<le> 16384 - length (sock_bytes k i d)"
  shows "\<exists>k'. send_loop k i d buf n done = (True, n, k') \<and> sock_ok k' i d \<and> sock_bytes k' i d = sock_bytes k i d @ take (n - done) (drop done data)"
  using assms
proof (induction k i d buf n "done" rule: send_loop.induct)
  case (1 k i d buf n "done")
  show ?case
  proof (cases "done = n")
    case True
    then show ?thesis using 1(2) by (simp add: send_loop.simps [of k])
  next
    case False
    define c where "c = min 256 (n - done)"
    have c: "0 < c" "done + c \<le> n" using False 1(5) by (auto simp: c_def)
    let ?tmp = "take c (drop done data)"
    have l: "length ?tmp = c" using c 1(4) by simp
    have cp: "copy_in k (buf + of_nat done) c = Some ?tmp" using 1(3,4) c by (simp add: user_bytes_def)
    note P = sock_put_spec [OF 1(2), of ?tmp]
    have u: "user_bytes (sock_put k i d ?tmp) buf data" using 1(3) by (simp add: user_bytes_def sock_put_def)
    have "\<exists>k'. send_loop (sock_put k i d ?tmp) i d buf n (done + c) = (True, n, k') \<and> sock_ok k' i d
        \<and> sock_bytes k' i d = sock_bytes (sock_put k i d ?tmp) i d @ take (n - (done + c)) (drop (done + c) data)"
      using P l c 1(4,6) False by (intro 1(1) [OF _ c_def cp] u) auto
    moreover have "take (n - done) (drop done data) = ?tmp @ take (n - (done + c)) (drop (done + c) data)"
      using take_add [of c "n - (done + c)" "drop done data"] c by (simp add: add.commute)
    moreover have "send_loop k i d buf n done = send_loop (sock_put k i d ?tmp) i d buf n (done + c)"
      using False 1(5) cp by (subst send_loop.simps) (simp add: c_def [symmetric] Let_def)
    ultimately show ?thesis using P(2) l c 1(6) by simp
  qed
qed

text \<open>A buffer that the running call can write: its pages are private to the task and writable.\<close>

definition user_buf :: "kernel \<Rightarrow> u64 \<Rightarrow> nat \<Rightarrow> bool" where
  "user_buf k buf n \<longleftrightarrow> mm_ok (vm k) \<and> active (vm k) (copy_cr3 (vm k) (syscall_user_cr3 k)) \<and> own_range user_rw (vm k) (unat buf) n"

lemma copy_cr3_stored: "stored v a bs v' \<Longrightarrow> mm_ok v \<Longrightarrow> copy_cr3 v' c = copy_cr3 v c"
  using storedD(1,3) mm_okD(3) by (simp add: copy_cr3_def vmm_user_cr3_def)

lemma user_buf_stored:
  assumes "user_buf k buf n" "stored (vm k) a bs (vm k')" "syscall_user_cr3 k' = syscall_user_cr3 k"
  shows "user_buf k' buf n"
  using assms storedD(1,3) [OF assms(2)] stored_own_range [OF assms(2)] copy_cr3_stored [OF assms(2)]
  by (auto simp: user_buf_def active_def)

lemma own_range_sub: "own_range P v a n \<Longrightarrow> m + c \<le> n \<Longrightarrow> own_range P v (a + m) c"
  by (auto simp: own_range_def add.assoc)

lemma user_buf_addr: "user_buf k buf n \<Longrightarrow> m \<le> n \<Longrightarrow> unat (buf + of_nat m) = unat buf + m"
  by (simp add: user_buf_def own_range_def unat_word_ariths unat_of_nat)

lemma copy_out_stored:
  assumes "user_buf k buf n" "m + length bs \<le> n"
  shows "\<exists>v'. copy_out k (buf + of_nat m) bs = (True, k\<lparr>vm := v'\<rparr>) \<and> stored (vm k) (unat buf + m) bs v'"
proof -
  have a: "unat (buf + of_nat m) = unat buf + m" using user_buf_addr [OF assms(1), of m] assms(2) by simp
  have "own_range user_rw (vm k) (unat (buf + of_nat m)) (length bs)" 
    unfolding a using own_range_sub assms by (auto simp: user_buf_def)
  then show ?thesis
    using user_copy_stored [of "vm k" "copy_cr3 (vm k) (syscall_user_cr3 k)" "buf + of_nat m" bs] assms(1)
    unfolding a by (auto simp: user_buf_def copy_out_def user_copy_to_def)
qed

lemma copy_in_stored:
  assumes "user_buf k buf n" "length bs \<le> n" "\<And>j. j < length bs \<Longrightarrow> user_byte (vm k) (unat buf + j) = Some (bs ! j)"
  shows "copy_in k buf (length bs) = Some bs"
  using user_fetch [of "vm k" "copy_cr3 (vm k) (syscall_user_cr3 k)" buf bs] assms own_range_sub [of _ _ _ n 0]
  by (simp add: user_buf_def copy_in_def user_copy_from_def)

lemma recv_loop_spec:
  assumes "sock_ok k i d" "user_buf k buf n" "done \<le> n" "n - done \<le> length (sock_bytes k i d)"
  shows "\<exists>k'. recv_loop k i d buf n done = (True, n, k') \<and> sock_ok k' i d \<and> sock_bytes k' i d = drop (n - done) (sock_bytes k i d)
     \<and> stored (vm k) (unat buf + done) (take (n - done) (sock_bytes k i d)) (vm k') \<and> syscall_user_cr3 k' = syscall_user_cr3 k"
  using assms
proof (induction k i d buf n "done" rule: recv_loop.induct)
  case (1 k i d buf n "done")
  show ?case
  proof (cases "done = n")
    case True
    then show ?thesis using 1(2,3) by (simp add: recv_loop.simps [of k] stored_Nil user_buf_def)
  next
    case False
    define c where "c = min 256 (n - done)"
    have c: "0 < c" "done + c \<le> n" using False 1(4) by (auto simp: c_def)
    obtain tmp k1 where t: "sock_take k i d c = (tmp, k1)" by (rule prod.exhaust)
    note T = sock_take_spec [OF 1(2) _ t]
    have cl: "c \<le> length (sock_bytes k i d)" using c 1(5) by simp
    note T = T [OF cl]
    have l: "length tmp = c" using T(2) cl by simp
    have b1: "user_buf k1 buf n" using 1(3) T(4,5) by (simp add: user_buf_def)
    obtain v' where v': "copy_out k1 (buf + of_nat done) tmp = (True, k1\<lparr>vm := v'\<rparr>)" "stored (vm k1) (unat buf + done) tmp v'"
      using copy_out_stored [OF b1, of "done" tmp] l c(2) by auto
    let ?k = "k1\<lparr>vm := v'\<rparr>"
    have s: "sock ?k = sock k1" by (simp add: sock_def fun_eq_iff)
    have b2: "user_buf ?k buf n" by (rule user_buf_stored [OF b1, of "unat buf + done" tmp]) (use v'(2) in simp_all)
    have "\<exists>k'. recv_loop ?k i d buf n (done + c) = (True, n, k') \<and> sock_ok k' i d \<and> sock_bytes k' i d = drop (n - (done + c)) (sock_bytes ?k i d)
        \<and> stored (vm ?k) (unat buf + (done + c)) (take (n - (done + c)) (sock_bytes ?k i d)) (vm k') \<and> syscall_user_cr3 k' = syscall_user_cr3 ?k"
      using T(1,3) 1(5) False c b2 by (intro 1(1) [OF _ c_def t [symmetric] refl v'(1) [symmetric]]) (auto simp: sock_ok_def sock_bytes_def s)
    then obtain k' where k': "recv_loop ?k i d buf n (done + c) = (True, n, k')" "sock_ok k' i d"
        "sock_bytes k' i d = drop (n - (done + c)) (drop c (sock_bytes k i d))"
        "stored v' (unat buf + done + c) (take (n - (done + c)) (drop c (sock_bytes k i d))) (vm k')" "syscall_user_cr3 k' = syscall_user_cr3 k"
      using T(3,5) by (auto simp: sock_bytes_def s add.assoc)
    have "recv_loop k i d buf n done = (True, n, k')"
      using False 1(4) t v'(1) k'(1) by (subst recv_loop.simps) (simp add: c_def [symmetric] Let_def)
    moreover have "stored (vm k) (unat buf + done) (tmp @ take (n - (done + c)) (drop c (sock_bytes k i d))) (vm k')"
      using stored_append [of "vm k1" "unat buf + done" tmp v'] v'(2) k'(4) l T(4) by simp
    moreover have "tmp @ take (n - (done + c)) (drop c (sock_bytes k i d)) = take (n - done) (sock_bytes k i d)"
      using take_add [of c "n - (done + c)" "sock_bytes k i d"] T(2) c by simp
    ultimately show ?thesis using k'(2,3,5) c by simp
  qed
qed

lemma wake_all_sel [simp]:
  "fds (wake_all k) = fds k" "vm (wake_all k) = vm k" "syscall_user_cr3 (wake_all k) = syscall_user_cr3 k" "sock (wake_all k) = sock k"
  unfolding wake_all_def task_wake_io_waiters_eq by (simp_all add: woken_def sock_def fun_eq_iff)

lemma send_wake_sel [simp]: "fds (send_wake k f n) = fds k" "sock (send_wake k f n) = sock k"
proof -
  obtain w k1 where e: "task_wake_io_waiters k = (w, k1)" by (rule prod.exhaust)
  then have "fds k1 = fds k" using wake_all_sel(1) [of k] by (simp add: wake_all_def)
  then show "fds (send_wake k f n) = fds k" by (auto simp: send_wake_def e split: option.split)
  then show "sock (send_wake k f n) = sock k" by (simp add: sock_def fun_eq_iff)
qed

text \<open>A send that accepts bytes accepts as many as there is room for, from the front.\<close>

lemma sendto_appends:
  assumes ok: "sock_ok k i (1 - side)" and e: "socket_end (files k fd) = Some (i, side)" and u: "user_bytes k buf data"
    and r: "sys_sendto tick k f fd buf (int (length data)) nr = Some (r, k')" "0 < r"
  shows "r = int (min (length data) (16384 - length (sock_bytes k i (1 - side))))" "sock_ok k' i (1 - side)"
    "sock_bytes k' i (1 - side) = sock_bytes k i (1 - side) @ take (nat r) data"
proof -
  let ?u = "sock k i" and ?d = "1 - side"
  let ?room = "SOCK_CAP - us_count ?u ?d"
  define n where "n = min (length data) (unat ?room)"
  have n: "n = min (length data) (16384 - length (sock_bytes k i ?d))" by (simp only: n_def sock_room(2) [OF ok])
  obtain k1 where l: "send_loop k i ?d buf n 0 = (True, n, k1)" "sock_ok k1 i ?d" "sock_bytes k1 i ?d = sock_bytes k i ?d @ take n data"
    using send_loop_spec [OF ok u, of n 0] n by auto
  have nb: "block_or_again tick k f x y = Some (r, k') \<Longrightarrow> False" for x y
    using r(2) by (auto simp: block_or_again_def split: if_splits)
  have "Some (int n, send_wake k1 f n) = Some (r, k')"
    using r e l(1) nb by (auto simp: sys_sendto_def Let_def n_def split: if_splits)
  then have "r = int n" "k' = send_wake k1 f n" by simp_all
  then show "r = int (min (length data) (16384 - length (sock_bytes k i ?d)))" "sock_ok k' i ?d" "sock_bytes k' i ?d = sock_bytes k i ?d @ take (nat r) data"
    using l(2,3) n by (simp_all add: sock_ok_def sock_bytes_def)
qed

text \<open>A receive that returns bytes has stored the first ones of the stream in the buffer and removed them.\<close>

lemma recvfrom_takes:
  assumes ok: "sock_ok k i side" and e: "socket_end (files k fd) = Some (i, side)" and u: "user_buf k buf (nat len)"
    and r: "sys_recvfrom tick k f fd buf len nr = Some (r, k')" "0 < r"
  shows "r = int (min (nat len) (length (sock_bytes k i side)))" "sock_ok k' i side"
    "copy_in k' buf (nat r) = Some (take (nat r) (sock_bytes k i side))" "sock_bytes k' i side = drop (nat r) (sock_bytes k i side)"
proof -
  let ?b = "sock_bytes k i side"
  define n where "n = min (nat len) (unat (us_count (sock k i) side))"
  have n: "n \<le> length ?b" "n \<le> nat len" by (simp_all add: n_def sock_bytes_length)
  have un: "user_buf k buf n" using u n(2) own_range_sub [of _ _ _ "nat len" 0 n] by (simp add: user_buf_def)
  obtain k1 where l: "recv_loop k i side buf n 0 = (True, n, k1)" "sock_ok k1 i side" "sock_bytes k1 i side = drop n ?b"
      "stored (vm k) (unat buf) (take n ?b) (vm k1)" "syscall_user_cr3 k1 = syscall_user_cr3 k"
    using recv_loop_spec [OF ok un, of 0] n by auto
  have nb: "block_or_again tick k f x y = Some (r, k') \<Longrightarrow> False" for x y
    using r(2) by (auto simp: block_or_again_def split: if_splits)
  have lp: "0 \<le> len" "Some (int n, wake_all k1) = Some (r, k')"
    using r e l(1) nb by (auto simp: sys_recvfrom_def Let_def n_def split: if_splits)
  then have rn: "r = int n" "k' = wake_all k1" by simp_all
  have "user_byte (vm k1) (unat buf + j) = Some (take n ?b ! j)" if "j < n" for j
    using storedD(5) [OF l(4), of "unat buf + j"] that n(1) un by (simp add: user_buf_def own_range_def)
  moreover have "user_buf k1 buf n" using user_buf_stored [OF un l(4,5)] .
  ultimately have "copy_in k1 buf n = Some (take n ?b)" using copy_in_stored [of k1 buf n "take n ?b"] n(1) by simp
  then show "r = int (min (nat len) (length ?b))" "sock_ok k' i side" "copy_in k' buf (nat r) = Some (take (nat r) ?b)" "sock_bytes k' i side = drop (nat r) ?b"
    using l(2,3) rn by (simp_all add: sock_ok_def sock_bytes_def n_def)
qed

text \<open>
  The life of the stream to side \<open>d\<close> of connection \<open>i\<close>: sends of the other side, receives of this side, and any
  other change of the kernel that leaves the ring alone, such as switching tasks. The lists are the bytes that the sends accepted
  and those that the receivers find in their buffers.
\<close>

inductive stream :: "(nat \<Rightarrow> kernel \<Rightarrow> kernel) \<Rightarrow> nat \<Rightarrow> nat \<Rightarrow> kernel \<Rightarrow> u8 list \<Rightarrow> u8 list \<Rightarrow> kernel \<Rightarrow> bool" for tick i d k where
  stream_start: "stream tick i d k [] [] k"
| stream_send: "stream tick i d k ins outs k1 \<Longrightarrow> socket_end (files k1 fd) = Some (i, 1 - d) \<Longrightarrow> user_bytes k1 buf data \<Longrightarrow>
    sys_sendto tick k1 f fd buf (int (length data)) nr = Some (r, k2) \<Longrightarrow> 0 < r \<Longrightarrow> stream tick i d k (ins @ take (nat r) data) outs k2"
| stream_recv: "stream tick i d k ins outs k1 \<Longrightarrow> socket_end (files k1 fd) = Some (i, d) \<Longrightarrow> user_buf k1 buf (nat len) \<Longrightarrow>
    sys_recvfrom tick k1 f fd buf len nr = Some (r, k2) \<Longrightarrow> 0 < r \<Longrightarrow> copy_in k2 buf (nat r) = Some bs \<Longrightarrow> stream tick i d k ins (outs @ bs) k2"
| stream_other: "stream tick i d k ins outs k1 \<Longrightarrow> sring (sock k2 i) d = sring (sock k1 i) d \<Longrightarrow> stream tick i d k ins outs k2"

lemma stream_fifo:
  assumes "stream tick i d k ins outs k'" "sock_ok k i d" "d < 2"
  shows "sock_ok k' i d \<and> sock_bytes k i d @ ins = outs @ sock_bytes k' i d"
  using assms
proof (induction rule: stream.induct)
  case (stream_send ins outs k1 fd buf data f nr r k2)
  have d: "1 - (1 - d) = d" using \<open>d < 2\<close> by simp
  show ?case using stream_send sendto_appends(2,3) [of k1 i "1 - d" fd buf data tick f nr r k2, unfolded d] by simp
next
  case (stream_recv ins outs k1 fd buf len f nr r k2 bs)
  then have "sock_ok k1 i d" "sock_bytes k i d @ ins = outs @ sock_bytes k1 i d" by simp_all
  moreover note recvfrom_takes(2-4) [OF this(1) stream_recv(2-5)]
  ultimately show ?case using stream_recv(6) by simp
qed (simp_all add: sock_ok_def sock_bytes_def)

text \<open>
  C31: the byte stream of a local connection. Whatever sends and receives the two sides make, and whatever happens
  in between, the bytes that were queued followed by those that the sends accepted are the bytes that
  the receivers found in their buffers followed by those that are still queued: no byte is lost, repeated or reordered.
\<close>

theorem socket_stream_in_order:
  assumes "sock_ok k i d" "d < 2" "stream tick i d k accepted received k'"
  shows "sock_bytes k i d @ accepted = received @ sock_bytes k' i d \<and> sock_ok k' i d"
  using stream_fifo [OF assms(3,1,2)] by blast

section \<open>Connections\<close>

text \<open>The connections that wait to be accepted, the oldest first.\<close>

definition waiting_conns :: "kernel \<Rightarrow> nat \<Rightarrow> int list" where
  "waiting_conns k li = map (us_pending_fd (sock k li)) [0..<unat (us_pending_count (sock k li))]"

abbreviation cur_slot :: "kernel \<Rightarrow> int \<Rightarrow> nat \<times> nat" where
  "cur_slot k fd \<equiv> (current_files (fds k) (current_task k), nat fd)"

lemma desc_install [simp]:
  "desc (fds (install_socket k fd i side)) f = (if f = cur_slot k (int fd) then socket_desc i side (desc (fds k) f) else desc (fds k) f)"
  by (cases f) (auto simp: install_socket_def on_fds_def desc_def set_desc_def)

lemma desc_on_sock [simp]: "desc (fds (on_sock k j g)) = desc (fds k)" "current_files (fds (on_sock k j g)) = current_files (fds k)"
  by (simp_all add: on_sock_def on_fds_def set_sock_def desc_def current_files_def fun_eq_iff)

lemma install_sel [simp]:
  "sock (install_socket k fd i side) = sock k" "current_task (install_socket k fd i side) = current_task k"
  "current_files (fds (install_socket k fd i side)) = current_files (fds k)"
  by (simp_all add: install_socket_def on_fds_def sock_def set_desc_def current_files_def fun_eq_iff)

lemma free_sock_spec:
  assumes "free_sock k si skip = Some j"
  shows "j < UNIX_SOCKETS_MAX" "us_refs (sock k j) = 0" "skip \<noteq> Some j"
  using assms by (auto simp: free_sock_def find_Some_iff)

lemma shift_fold: "fold (\<lambda>i p. p(i - 1 := p i)) [1..<Suc n] p = (\<lambda>j. if j < n then p (Suc j) else p j)"
proof (induction n)
  case (Suc n)
  have e: "fold (\<lambda>i p. p(i - 1 := p i)) [1..<Suc (Suc n)] p =
      (\<lambda>q. q(Suc n - 1 := q (Suc n))) (fold (\<lambda>i p. p(i - 1 := p i)) [1..<Suc n] p)" by simp
  show ?case unfolding e Suc by (auto simp: fun_eq_iff)
qed simp

lemma pending_shift:
  assumes "us_pending_count (sock k li) \<noteq> 0"
  shows "waiting_conns (on_sock k li shift_pending) li = tl (waiting_conns k li)" "waiting_conns k li \<noteq> []" "hd (waiting_conns k li) = us_pending_fd (sock k li) 0"
proof -
  define n where "n = unat (us_pending_count (sock k li)) - 1"
  have n: "unat (us_pending_count (sock k li)) = Suc n" using assms unat_gt_0 [of "us_pending_count (sock k li)"] unfolding n_def by linarith
  then have "unat (us_pending_count (sock k li) - 1) = n" using assms by (simp add: unat_minus_one)
  then show "waiting_conns (on_sock k li shift_pending) li = tl (waiting_conns k li)" "waiting_conns k li \<noteq> []" "hd (waiting_conns k li) = us_pending_fd (sock k li) 0"
    using n shift_fold [of n "us_pending_fd (sock k li)"]
    by (auto simp: waiting_conns_def shift_pending_def upt_conv_Cons map_Suc_upt [symmetric] simp del: upt_Suc)
qed

lemma drop_ref_frame:
  "socket_end d = Some (j, s) \<Longrightarrow> i \<noteq> j \<Longrightarrow> unix_sockets (socket_fd_drop_ref fs d) i = unix_sockets fs i"
  "desc (socket_fd_drop_ref fs d) = desc fs" "current_files (socket_fd_drop_ref fs d) = current_files fs"
  by (auto simp: socket_fd_drop_ref_def socket_end_def set_sock_def desc_def current_files_def fun_eq_iff split: private_data.splits)

text \<open>What a successful \<^verbatim>\<open>connect\<close> does.\<close>

lemma connect_spec:
  assumes c: "sys_connect k fd addr len = (0, k')" and p: "socket_un_copy_path k addr len = Inr path"
    and li: "socket_find_listener k path = Some li" and old: "socket_end (files k fd) = Some (j, s)" "j \<noteq> li" "us_refs (sock k j) \<noteq> 0"
  obtains ni where "us_refs (sock k ni) = 0" "ni < UNIX_SOCKETS_MAX" "ni \<noteq> li" "waiting_conns k' li = waiting_conns k li @ [int ni]"
    "us_listener (sock k' li) = us_listener (sock k li)" "us_pending_count (sock k' li) \<noteq> 0"
    "sock k' ni = zero_sock\<lparr>us_refs := 2, us_side_refs := (us_side_refs zero_sock)(0 := 1, 1 := 1), us_connected := True\<rparr>"
    "desc (fds k') = (desc (fds k))(cur_slot k fd := socket_desc ni 0 (files k fd))" "current_files (fds k') = current_files (fds k)"
proof -
  have v: "socket_valid_fd k fd" using c by (auto simp: sys_connect_def split: if_splits)
  then have fd: "\<not> bad_fd fd" "int (nat fd) = fd" by (auto simp: socket_valid_fd_def bad_fd_def)
  have pc: "us_pending_count (sock k li) < 4" 
  proof (rule ccontr)
    assume "\<not> us_pending_count (sock k li) < 4"
    then have "sys_connect k fd addr len = (- EAGAIN, k)" using v p li old(1) by (simp add: sys_connect_def not_less)
    then show False using c by simp
  qed
  then have pc': "\<not> 4 \<le> us_pending_count (sock k li)" by simp
  obtain ni where ni: "free_sock k (connect_si k) (Some li) = Some ni"
  proof (cases "free_sock k (connect_si k) (Some li)")
    case None
    then have "sys_connect k fd addr len = (- EMFILE_K, k)" using v p li old(1) pc' by (simp add: sys_connect_def)
    then show thesis using c by simp
  qed
  note N = free_sock_spec [OF ni]
  have nj: "ni \<noteq> j" "ni \<noteq> li" using N(2,3) old(3) by auto
  define k1 where "k1 = on_sock (k\<lparr>connect_si := (ni + 1) mod UNIX_SOCKETS_MAX\<rparr>) ni (\<lambda>_. zero_sock)"
  define k2 where "k2 = on_fds k1 (\<lambda>fs. socket_fd_drop_ref fs (files k1 fd))"
  define k3 where "k3 = on_sock (install_socket k2 (nat fd) ni 0) ni
    (\<lambda>u. u\<lparr>us_refs := 2, us_side_refs := (us_side_refs u)(0 := 1, 1 := 1), us_connected := True\<rparr>)"
  have k': "k' = wake_all (on_sock k3 li (\<lambda>u. u\<lparr>us_pending_fd := (us_pending_fd u)(unat (us_pending_count u) := int ni),
      us_pending_count := us_pending_count u + 1\<rparr>))"
    using c v p li old(1) pc' ni by (simp add: sys_connect_def Let_def k1_def k2_def k3_def)
  have f1: "files k1 = files k" by (simp add: k1_def) (simp add: files_def fun_eq_iff)
  have s1: "sock k1 = (sock k)(ni := zero_sock)" by (rule ext) (simp add: k1_def, simp add: sock_def)
  have s2: "sock k2 i = sock k1 i" if "i \<noteq> j" for i
    using drop_ref_frame(1) [of "files k1 fd" j s i "fds k1"] old(1) that by (simp add: k2_def f1 sock_def on_fds_def)
  have c4: "unat (us_pending_count (sock k li) + 1) = Suc (unat (us_pending_count (sock k li)))"
    using pc by (simp add: word_less_nat_alt unat_word_ariths)
  have L: "sock k3 li = sock k li" using s1 s2 [of li] old(2) nj by (simp add: k3_def)
  have "waiting_conns k' li = waiting_conns k li @ [int ni]" using c4 L by (simp add: k' waiting_conns_def)
  moreover have "sock k' ni = zero_sock\<lparr>us_refs := 2, us_side_refs := (us_side_refs zero_sock)(0 := 1, 1 := 1), us_connected := True\<rparr>"
    using s1 s2 [of ni] nj by (simp add: k' k3_def)
  moreover have "desc (fds k') = (desc (fds k))(cur_slot k fd := socket_desc ni 0 (files k fd))"
  proof -
    have d2: "desc (fds k2) = desc (fds k)" "cur_slot k2 fd = cur_slot k fd"
      by (simp_all add: k2_def k1_def on_fds_def drop_ref_frame(2,3))
    then show ?thesis using fd(2) by (simp add: k' k3_def fun_eq_iff files_def)
  qed
  moreover have "current_files (fds k') = current_files (fds k)"
    by (simp add: k' k3_def k2_def k1_def on_fds_def drop_ref_frame(3))
  moreover have "us_pending_count (sock k' li) \<noteq> 0" using c4 L by (auto simp: k' word_unat_eq_iff)
  ultimately show thesis using that N(1,2) nj(2) L by (simp add: k')
qed

text \<open>What \<^verbatim>\<open>accept\<close> does with a connection that waits.\<close>

lemma accept_spec:
  assumes a: "sys_accept tick k f lfd 0 0 = Some (fd, k')" "0 \<le> fd" and l: "socket_end (files k lfd) = Some (li, s)" "us_pending_count (sock k li) \<noteq> 0"
  shows "0 \<le> hd (waiting_conns k li)" "waiting_conns k' li = tl (waiting_conns k li)" "\<not> bad_fd fd" "\<not> fd_in_use (files k fd)"
    "desc (fds k') = (desc (fds k))(cur_slot k fd := socket_desc (nat (hd (waiting_conns k li))) 1 (files k fd))" "current_task k' = current_task k" "current_files (fds k') = current_files (fds k)"
    "sock k' i = (if i = nat (hd (waiting_conns k li)) then (\<lambda>u. u\<lparr>us_connected := True\<rparr>) else id) (if i = li then shift_pending (sock k i) else sock k i)"
proof -
  note P = pending_shift [OF l(2)]
  let ?s = "us_pending_fd (sock k li) 0"
  obtain n where n: "find_free_fd (fds k) (current_task k) = Some n" "0 \<le> ?s" "fd = int n"
    and k': "k' = on_sock (on_sock (install_socket k n (nat ?s) 1) li shift_pending) (nat ?s) (\<lambda>u. u\<lparr>us_connected := True\<rparr>)"
    using a l by (auto simp: sys_accept_def Let_def split: if_splits option.splits)
  have N: "n < MAX_FILES" "\<not> fd_in_use (desc (fds k) (current_files (fds k) (current_task k), n))"
    using n(1) by (auto simp: find_free_fd_def find_Some_iff)
  show "0 \<le> hd (waiting_conns k li)" using P(3) n(2) by simp
  have pi: "waiting_conns (install_socket k n i side) = waiting_conns k" for i side by (simp add: waiting_conns_def fun_eq_iff)
  have "waiting_conns k' li = waiting_conns (on_sock (install_socket k n (nat ?s) 1) li shift_pending) li" by (simp add: k' waiting_conns_def)
  also have "\<dots> = tl (waiting_conns k li)" using pending_shift(1) [of "install_socket k n (nat ?s) 1" li] l(2) by (simp add: pi)
  finally show "waiting_conns k' li = tl (waiting_conns k li)" .
  show b: "\<not> bad_fd fd" "\<not> fd_in_use (files k fd)" using N n(3) by (simp_all add: bad_fd_def files_def)
  show "desc (fds k') = (desc (fds k))(cur_slot k fd := socket_desc (nat (hd (waiting_conns k li))) 1 (files k fd))" "current_task k' = current_task k" "current_files (fds k') = current_files (fds k)"
    "sock k' i = (if i = nat (hd (waiting_conns k li)) then (\<lambda>u. u\<lparr>us_connected := True\<rparr>) else id) (if i = li then shift_pending (sock k i) else sock k i)"
    using n(3) P(3) by (simp_all add: k' files_def fun_eq_iff)
qed

text \<open>
  C11: connecting and accepting. A successful \<^verbatim>\<open>connect\<close> takes an entry without references, puts it behind the
  connections that wait at the listener and makes the descriptor its side 0. A later \<^verbatim>\<open>accept\<close>, in any
  task, returns a descriptor for side 1 of the connection that has waited longest and removes it from the queue; the
  new connection has both sides counted, and nothing to read on either.
\<close>

theorem connect_then_accept:
  assumes c: "sys_connect k fd addr len = (0, k1)" and p: "socket_un_copy_path k addr len = Inr path"
    and li: "socket_find_listener k path = Some li" and old: "socket_end (files k fd) = Some (j, s)" "j \<noteq> li" "us_refs (sock k j) \<noteq> 0"
    and sw: "fds k2 = fds k1" and a: "sys_accept tick k2 f lfd 0 0 = Some (a, k3)" "0 \<le> a" "socket_end (files k2 lfd) = Some (li, t)"
  shows "\<exists>ni. us_refs (sock k ni) = 0 \<and> waiting_conns k1 li = waiting_conns k li @ [int ni]
    \<and> socket_end (desc (fds k3) (cur_slot k fd)) = Some (ni, 0)
    \<and> socket_end (files k3 a) = Some (nat (hd (waiting_conns k1 li)), 1) \<and> waiting_conns k3 li = tl (waiting_conns k1 li)
    \<and> us_refs (sock k3 ni) = 2 \<and> sock_bytes k3 ni 0 = [] \<and> sock_bytes k3 ni 1 = []"
proof -
  obtain ni where N: "us_refs (sock k ni) = 0" "ni < UNIX_SOCKETS_MAX" "ni \<noteq> li" "waiting_conns k1 li = waiting_conns k li @ [int ni]"
    "us_listener (sock k1 li) = us_listener (sock k li)" "us_pending_count (sock k1 li) \<noteq> 0"
    "sock k1 ni = zero_sock\<lparr>us_refs := 2, us_side_refs := (us_side_refs zero_sock)(0 := 1, 1 := 1), us_connected := True\<rparr>"
    "desc (fds k1) = (desc (fds k))(cur_slot k fd := socket_desc ni 0 (files k fd))" "current_files (fds k1) = current_files (fds k)"
    by (rule connect_spec [OF c p li old])
  have s2: "sock k2 = sock k1" "waiting_conns k2 = waiting_conns k1" using sw by (simp_all add: sock_def waiting_conns_def fun_eq_iff)
  have pc: "us_pending_count (sock k2 li) \<noteq> 0" using N(6) s2 by simp
  note A = accept_spec [OF a(1,2,3) pc, unfolded s2]
  have "fd_in_use (desc (fds k2) (cur_slot k fd))" using N(8) sw by (simp add: socket_desc_def)
  then have ne: "cur_slot k2 a \<noteq> cur_slot k fd" using A(4) by (auto simp: files_def)
  have "desc (fds k3) (cur_slot k fd) = desc (fds k2) (cur_slot k fd)" unfolding A(5) by (rule fun_upd_other [OF not_sym [OF ne]])
  then have "desc (fds k3) (cur_slot k fd) = socket_desc ni 0 (files k fd)" using N(8) sw by simp
  then have "socket_end (desc (fds k3) (cur_slot k fd)) = Some (ni, 0)" by (simp add: socket_desc_def socket_end_def)
  moreover have "socket_end (files k3 a) = Some (nat (hd (waiting_conns k1 li)), 1)"
    using A(5-7) by (simp add: files_def socket_desc_def socket_end_def)
  moreover have "us_refs (sock k3 ni) = 2 \<and> sring (sock k3 ni) d = sring zero_sock d" for d
    using A(8) [of ni] N(3,7) by (simp add: sring_def zero_sock_def)
  then have "us_refs (sock k3 ni) = 2 \<and> sock_bytes k3 ni d = []" for d by (simp add: sock_bytes_def sring_def zero_sock_def ring_contents_def)
  ultimately show ?thesis using N(1,4) A(2) by blast
qed

section \<open>Concrete sockets\<close>

text \<open>The page of readable and writable memory at address 0, with any contents.\<close>

definition demo_page :: "(nat \<Rightarrow> u64) \<Rightarrow> vmm" where
  "demo_page c = demo_rw\<lparr>mem := (mem demo_rw)(0x1000000 := c)\<rparr>"

lemma demo_rw_rd: "table demo_rw x = table demo_vmm x"
  "rd demo_rw x i = (if x = 0x5000 then if i = 0 then 0x1000007 else 0 else rd demo_vmm x i)"
  by (simp_all add: table_def rd_def demo_rw_def)

lemma demo_rw_node:
  assumes "user_path p"
  shows "node demo_rw 0x2000 p = node demo_vmm 0x2000 p"
proof -
  have s: "walk_step demo_rw f i = walk_step demo_vmm f i" if "f = 0x2000 \<or> f = 0x3000 \<or> f = 0x4000" for f i
    using that by (auto simp: walk_step_def demo_rw_rd Let_def)
  consider "p = []" | a where "p = [a]" | a b where "p = [a, b]" | a b c where "p = [a, b, c]"
    using assms by (auto simp: user_path_def numeral_3_eq_3 le_Suc_eq length_Suc_conv)
  then show ?thesis by cases (auto simp: node.simps demo_step s)
qed

lemma demo_rw_sel: "g_user_pml4 demo_rw = 0x2000" "g_user_valid demo_rw" "pool demo_rw = demo_pool"
  by (simp_all add: demo_rw_def demo_sel demo_pool_sel)

lemma demo_rw_space: "user_space_ok demo_rw"
proof -
  have "vspace_ok demo_rw 0x2000"
    using demo_vspace_ok unfolding vspace_ok_def demo_rw_sel demo_pool_sel by (simp add: demo_rw_node demo_rw_rd)
  then show ?thesis by (simp add: user_space_ok_def demo_rw_sel)
qed

lemma demo_rw_entries: "user_page w \<Longrightarrow> user_entry demo_rw w = (if w = 0 then Some 0x1000007 else None)"
proof -
  assume w: "user_page w"
  have z: "idx4 0 = 0" "idx3 0 = 0" "idx2 0 = 0" "idx1 0 = 0" by (simp_all add: idx_defs)
  have "idx4 w = 0 \<and> idx3 w = 0 \<and> idx2 w = 0 \<and> idx1 w = 0 \<longleftrightarrow> w = 0"
    using idx_inj [of w 0] w z by (auto simp: user_page_def canonical_user_def page_aligned_def)
  moreover have "user_path [idx4 w, idx3 w, idx2 w]" using w by (intro user_path_idx) (simp add: user_page_def)
  ultimately show ?thesis
    using w user_entry_leaf [OF demo_rw_space, of w] demo_rw_node [of "[idx4 w, idx3 w, idx2 w]"] demo_node [of "[idx4 w, idx3 w, idx2 w]"]
    by (auto simp: leaf_entry_def demo_rw_sel user_page_def demo_rw_rd split: if_splits)
qed

lemma demo_rw_mapped: "mapped_at demo_rw p = (if p = 0x1000000 then {0} else {})"
  unfolding mapped_at_def by (auto simp: demo_rw_entries user_page_def canonical_user_def page_aligned_def split: if_splits)

lemma demo_rw_mm_ok: "mm_ok demo_rw"
proof -
  have "table_frames demo_rw 0x2000 = table_frames demo_vmm 0x2000" by (auto simp: table_frames_def demo_rw_node)
  then show ?thesis
    unfolding mm_ok_def demo_rw_mapped using demo_rw_space demo_frames demo_pool_refs by (auto simp: demo_rw_sel)
qed

lemma demo_page_ok: "mm_ok (demo_page c)" "\<And>va. canonical_user va \<Longrightarrow> user_entry (demo_page c) va = user_entry demo_rw va"
proof -
  have "0x1000000 \<notin> user_tables demo_rw" using mm_okD(5) [OF demo_rw_mm_ok, of "0x1000000"] demo_rw_mapped by simp
  from mem_change_mm_ok(1,2) [OF demo_rw_mm_ok this, of "(mem demo_rw)(0x1000000 := c)"]
  show "mm_ok (demo_page c)" "\<And>va. canonical_user va \<Longrightarrow> user_entry (demo_page c) va = user_entry demo_rw va"
    by (simp_all add: demo_page_def)
qed

lemma demo_page_sel: "g_user_pml4 (demo_page c) = 0x2000" "pool (demo_page c) = demo_pool" "active (demo_page c) 0x2000"
  "mapped_at (demo_page c) p = mapped_at demo_rw p" "mem (demo_page c) 0x1000000 = c"
  using demo_page_ok(2) by (auto intro!: mapped_at_cong simp: demo_page_def demo_rw_sel active_def page_aligned_def user_page_def)

lemma demo_page_range:
  assumes "a + n \<le> 4096"
  shows "own_range user_rw (demo_page c) a n"
proof -
  have "own_page user_rw (demo_page c) (page_at (a + j))" if "j < n" for j
  proof -
    have p: "page_at (a + j) = 0" using assms that by (simp add: page_at_def)
    have z: "user_page 0" "canonical_user 0" by (simp_all add: user_page_def canonical_user_def page_aligned_def)
    show ?thesis unfolding p own_page_def
      using demo_rw_entries [OF z(1)] demo_page_ok(2) [OF z(2)] demo_rw_virt
      by (intro exI [of _ "0x1000007"]) (simp add: demo_page_sel demo_rw_mapped demo_rw_sel)
  qed
  then show ?thesis using assms by (simp add: own_range_def)
qed

lemma demo_page_byte:
  assumes "a < 4096"
  shows "user_byte (demo_page c) a = Some (ucast (drop_bit (8 * (a mod 8)) (c (a div 8))))"
proof -
  have "page_at a = 0" "user_page 0" "canonical_user 0" using assms by (simp_all add: page_at_def user_page_def canonical_user_def page_aligned_def)
  then show ?thesis using demo_rw_entries [of 0] demo_page_ok(2) [of 0 c] assms by (simp add: user_byte_def demo_page_sel frame_byte_def)
qed

lemma user_bytes_buf:
  assumes "user_buf k buf (length data)" "\<And>j. j < length data \<Longrightarrow> user_byte (vm k) (unat buf + j) = Some (data ! j)"
  shows "user_bytes k buf data"
  unfolding user_bytes_def
proof (intro allI impI)
  fix j m assume le: "j + m \<le> length data"
  have a: "unat (buf + of_nat j) = unat buf + j" using user_buf_addr [OF assms(1), of j] le by simp
  have "user_buf k (buf + of_nat j) m" using assms(1) own_range_sub [of _ _ _ "length data" j m] le by (simp add: user_buf_def a)
  then show "copy_in k (buf + of_nat j) m = Some (take m (drop j data))"
    using copy_in_stored [of k "buf + of_nat j" m "take m (drop j data)"] assms(2) le by (simp add: a add.assoc)
qed

text \<open>A socket that listens at \<^verbatim>\<open>/a\<close>, one that is not connected, a connection, and the name in user memory.\<close>

definition demo_sock :: kernel where
  "demo_sock = demo_kernel\<lparr>vm := demo_page (\<lambda>i. if i = 1 then 0x612F0001 else 0), syscall_user_cr3 := 0x2000,
     fds := zero_fds\<lparr>task_fd_tables := (\<lambda>_ n. if n = 3 then socket_desc 0 0 closed_desc else if n = 4 then socket_desc 1 0 closed_desc
         else if n = 5 then socket_desc 5 0 closed_desc else if n = 6 then socket_desc 5 1 closed_desc else closed_desc),
       unix_sockets := (\<lambda>i. if i = 0 then zero_sock\<lparr>us_refs := 1, us_bound := True, us_listener := True, us_path := ''/a''\<rparr>
         else if i = 1 then zero_sock\<lparr>us_refs := 1\<rparr> else if i = 5 then zero_sock\<lparr>us_refs := 2, us_connected := True\<rparr> else zero_sock)\<rparr>\<rparr>"

lemma demo_sock_sel:
  "vm demo_sock = demo_page (\<lambda>i. if i = 1 then 0x612F0001 else 0)" "syscall_user_cr3 demo_sock = 0x2000" "current_task demo_sock = 0"
  "cur_slot demo_sock fd = (0, nat fd)" "connect_si demo_sock = 0"
  "sock demo_sock i = (if i = 0 then zero_sock\<lparr>us_refs := 1, us_bound := True, us_listener := True, us_path := ''/a''\<rparr>
     else if i = 1 then zero_sock\<lparr>us_refs := 1\<rparr> else if i = 5 then zero_sock\<lparr>us_refs := 2, us_connected := True\<rparr> else zero_sock)"
  "desc (fds demo_sock) (t, n) = (if n = 3 then socket_desc 0 0 closed_desc else if n = 4 then socket_desc 1 0 closed_desc
     else if n = 5 then socket_desc 5 0 closed_desc else if n = 6 then socket_desc 5 1 closed_desc else closed_desc)"
  by (simp_all add: demo_sock_def demo_kernel_def zero_fds_def current_files_def valid_table_def sock_def desc_def)

lemma demo_sock_files: "files demo_sock fd = desc (fds demo_sock) (0, nat fd)"
  using demo_sock_sel(4) [of fd] by (simp add: files_def)

lemma demo_sock_buf: "unat a + n \<le> 4096 \<Longrightarrow> user_buf demo_sock a n"
  by (simp add: user_buf_def demo_sock_sel demo_page_ok(1) demo_page_sel demo_page_range copy_cr3_def)

lemma demo_sock_byte: "user_byte (vm demo_sock) (8 + j) = Some (if j < 4 then [1, 0, 47, 97] ! j else 0)" if "j < 110"
proof -
  have "j < 4 \<or> (8 + j) div 8 \<noteq> 1 \<or> j = 4 \<or> j = 5 \<or> j = 6 \<or> j = 7" by presburger
  moreover have "j = 0 \<or> j = 1 \<or> j = 2 \<or> j = 3" if "j < 4" using that by presburger
  ultimately show ?thesis using that demo_page_byte [of "8 + j"] by (auto simp: demo_sock_sel(1))
qed

lemma demo_sock_data: "user_bytes demo_sock 8 [1, 0, 47, 97]"
proof (rule user_bytes_buf)
  have l: "length [1, 0, 47, 97 :: u8] = 4" by simp
  show "user_buf demo_sock 8 (length [1, 0, 47, 97 :: u8])" unfolding l by (rule demo_sock_buf) simp
  show "user_byte (vm demo_sock) (unat (8 :: u64) + j) = Some ([1, 0, 47, 97] ! j)" if "j < length [1, 0, 47, 97 :: u8]" for j
    using demo_sock_byte [of j] that unfolding l by simp
qed

lemma demo_sock_ok: "sock_ok demo_sock 5 d" "sock_bytes demo_sock 5 d = []"
  by (simp_all add: sock_ok_def sock_bytes_def demo_sock_sel sring_def zero_sock_def ring_ok_def ring_contents_def)

theorem socket_stream_in_order_witness:
  "\<exists>k'. stream (\<lambda>_ k. k) 5 1 demo_sock [1, 0, 47, 97] [1, 0, 47, 97] k' \<and> sock_bytes k' 5 1 = []"
proof -
  let ?t = "\<lambda>_ k :: kernel. k" and ?d = "[1, 0, 47, 97] :: u8 list"
  obtain k1 where l: "send_loop demo_sock 5 1 8 4 0 = (True, 4, k1)"
    using send_loop_spec [OF demo_sock_ok(1) demo_sock_data, of 4 0 1] demo_sock_ok(2) by auto
  have v: "socket_valid_fd demo_sock 5" "socket_end (files demo_sock 5) = Some (5, 0)"
    by (simp_all add: socket_valid_fd_def bad_fd_def demo_sock_files demo_sock_sel socket_desc_def socket_end_def)
  have send: "sys_sendto ?t demo_sock demo_frame 5 8 (int (length ?d)) 44 = Some (4, send_wake k1 demo_frame 4)"
    using v l by (simp add: sys_sendto_def Let_def demo_sock_sel zero_sock_def)
  define k2 where "k2 = send_wake k1 demo_frame 4"
  have S: "sock_ok k2 5 1" "sock_bytes k2 5 1 = ?d"
    using sendto_appends(2,3) [OF _ v(2) demo_sock_data send] demo_sock_ok by (simp_all add: k2_def)
  have s1: "stream ?t 5 1 demo_sock ?d [] k2"
    using stream_send [OF stream_start _ demo_sock_data send, of 5 1] v(2) by (simp add: k2_def)
  define k3 where "k3 = demo_sock\<lparr>fds := (fds demo_sock)\<lparr>unix_sockets := unix_sockets (fds k2)\<rparr>\<rparr>"
  have k3: "sock k3 = sock k2" "files k3 = files demo_sock" "vm k3 = vm demo_sock" "syscall_user_cr3 k3 = syscall_user_cr3 demo_sock"
    by (simp_all add: k3_def sock_def files_def desc_def current_files_def fun_eq_iff)
  have s2: "stream ?t 5 1 demo_sock ?d [] k3" by (rule stream_other [OF s1]) (simp add: k3)
  have O: "sock_ok k3 5 1" "sock_bytes k3 5 1 = ?d" using S by (simp_all add: sock_ok_def sock_bytes_def k3)
  have b: "user_buf k3 8 4" using demo_sock_buf [of 8 4] by (simp add: user_buf_def k3)
  obtain k4 where r: "recv_loop k3 5 1 8 4 0 = (True, 4, k4)" using recv_loop_spec [OF O(1) b, of 0] O(2) by auto
  have c: "unat (us_count (sock k3 5) 1) = 4" using sock_bytes_length [of k3 5 1] O(2) by simp
  then have c0: "us_count (sock k3 5) 1 \<noteq> 0" by auto
  have e: "socket_valid_fd k3 6" "socket_end (files k3 6) = Some (5, 1)"
    by (simp_all add: socket_valid_fd_def bad_fd_def k3 demo_sock_files demo_sock_sel socket_desc_def socket_end_def)
  have recv: "sys_recvfrom ?t k3 demo_frame 6 8 4 45 = Some (4, wake_all k4)"
    using e r c0 by (simp add: sys_recvfrom_def Let_def c [simplified])
  have "stream ?t 5 1 demo_sock ?d ?d (wake_all k4)"
    using stream_recv [OF s2 e(2) _ recv] recvfrom_takes(3) [OF O(1) e(2) _ recv] b O(2) by simp
  then show ?thesis using socket_stream_in_order [of demo_sock 5 1] demo_sock_ok by force
qed

lemma demo_sock_path: "socket_un_copy_path demo_sock 8 110 = Inr ''/a''"
proof -
  let ?u = "[1, 0, 47, 97] @ replicate 106 (0 :: u8)"
  have "?u ! j = (if j < 4 then [1, 0, 47, 97] ! j else 0)" if "j < 110" for j
    using that nth_append [of "[1, 0, 47, 97]" "replicate 106 0" j] by auto
  then have "copy_in demo_sock 8 (length ?u) = Some ?u"
    using demo_sock_byte by (intro copy_in_stored [OF demo_sock_buf [of 8 110]]) simp_all
  then have "copy_in demo_sock 8 110 = Some ?u" by simp
  then show ?thesis by (simp add: socket_un_copy_path_def c_chars_def char_of_def bit_Suc_0_iff)
qed

theorem connect_then_accept_witness:
  "\<exists>k1 k3 a ni. sys_connect demo_sock 4 8 110 = (0, k1) \<and> sys_accept (\<lambda>_ k. k) (demo_sock\<lparr>fds := fds k1\<rparr>) demo_frame 3 0 0 = Some (a, k3)
     \<and> socket_end (desc (fds k3) (0, 4)) = Some (ni, 0) \<and> socket_end (files k3 a) = Some (ni, 1)"
proof -
  let ?k = demo_sock
  have li: "socket_find_listener ?k ''/a'' = Some 0" by (simp add: socket_find_listener_def upt_conv_Cons demo_sock_sel)
  have old: "socket_end (files ?k 4) = Some (1, 0)" "us_refs (sock ?k 1) \<noteq> 0" "socket_valid_fd ?k 4"
    by (simp_all add: socket_valid_fd_def bad_fd_def demo_sock_files demo_sock_sel socket_desc_def socket_end_def)
  have fr: "free_sock ?k (connect_si ?k) (Some 0) = Some 2"
    by (simp add: free_sock_def demo_sock_sel upt_conv_Cons zero_sock_def)
  have p0: "us_pending_count (sock ?k 0) = 0" by (simp add: demo_sock_sel zero_sock_def)
  obtain k1 where c: "sys_connect ?k 4 8 110 = (0, k1)"
    using old(1,3) demo_sock_path li fr p0 by (simp add: sys_connect_def Let_def)
  obtain ni where N: "us_refs (sock ?k ni) = 0" "ni < UNIX_SOCKETS_MAX" "ni \<noteq> 0" "waiting_conns k1 0 = waiting_conns ?k 0 @ [int ni]"
    "us_listener (sock k1 0) = us_listener (sock ?k 0)" "us_pending_count (sock k1 0) \<noteq> 0"
    "sock k1 ni = zero_sock\<lparr>us_refs := 2, us_side_refs := (us_side_refs zero_sock)(0 := 1, 1 := 1), us_connected := True\<rparr>"
    "desc (fds k1) = (desc (fds ?k))(cur_slot ?k 4 := socket_desc ni 0 (files ?k 4))" "current_files (fds k1) = current_files (fds ?k)"
    by (rule connect_spec [OF c demo_sock_path li old(1) _ old(2)]) simp
  let ?k2 = "demo_sock\<lparr>fds := fds k1\<rparr>"
  have cs: "cur_slot ?k2 fd = (0, nat fd)" for fd using N(9) demo_sock_sel(4) [of fd] by (simp add: demo_sock_sel(3))
  have f3: "files ?k2 3 = socket_desc 0 0 closed_desc"
    using N(8) cs [of 3] demo_sock_sel(4) [of 4] by (simp add: files_def demo_sock_sel(7))
  have s2: "sock ?k2 = sock k1" by (simp add: sock_def fun_eq_iff)
  have W: "waiting_conns ?k 0 = []" using p0 by (simp add: waiting_conns_def)
  have h: "us_pending_fd (sock k1 0) 0 = int ni" using pending_shift(3) [OF N(6)] N(4) W by simp
  have "\<not> fd_in_use (desc (fds k1) (0, 0))" using N(8) demo_sock_sel(4) [of 4] by (simp add: demo_sock_sel(7) closed_desc_def)
  then have "find_free_fd (fds ?k2) (current_task ?k2) = Some 0"
    using cs [of 0] by (simp add: find_free_fd_def upt_conv_Cons)
  then obtain a k3 where a: "sys_accept (\<lambda>_ k. k) ?k2 demo_frame 3 0 0 = Some (a, k3)" "0 \<le> a"
    using N(2,5,6,7) h f3 s2 demo_sock_sel(6) [of 0]
    by (auto simp: sys_accept_def Let_def socket_valid_fd_def bad_fd_def socket_desc_def socket_end_def)
  have "socket_end (files ?k2 3) = Some (0, 0)" using f3 by (simp add: socket_desc_def socket_end_def)
  from connect_then_accept [OF c demo_sock_path li old(1) _ old(2) _ a this]
  obtain n where "waiting_conns k1 0 = [int n]" "socket_end (desc (fds k3) (cur_slot ?k 4)) = Some (n, 0)"
    "socket_end (files k3 a) = Some (nat (hd (waiting_conns k1 0)), 1)" using W by auto
  then show ?thesis using c a(1) demo_sock_sel(4) [of 4] by (intro exI [of _ k1] exI [of _ k3] exI [of _ a] exI [of _ n]) simp
qed

end
