(* ===== verification/Exec_Spec.thy ===== *)
theory Exec_Spec
  imports Exec Socket_Spec
begin

text \<open>
  Correctness of the program loader: the segments of an image in memory, the pages they get, and the initial
  stack from which a program reads its arguments.
\<close>

section \<open>Address spaces of private pages\<close>

text \<open>
  While a program is loaded every page of its address space is private and none is shared copy on write.
\<close>

abbreviation (input) plain :: "u64 \<Rightarrow> bool" where
  "plain e \<equiv> e AND PTE_U \<noteq> 0 \<and> e AND PTE_COW = 0"

definition image_ok :: "vmm \<Rightarrow> bool" where
  "image_ok v \<longleftrightarrow> mm_ok v \<and> active v (g_user_pml4 v)
     \<and> (\<forall>p e. user_page p \<longrightarrow> user_entry v p = Some e \<longrightarrow> plain e \<and> e AND PTE_ADDR_MASK \<in> managed_pages (pool v) \<and> mapped_at v (e AND PTE_ADDR_MASK) = {p})"

definition page_w :: "vmm \<Rightarrow> u64 \<Rightarrow> bool" where
  "page_w v p \<longleftrightarrow> (\<exists>e. user_entry v p = Some e \<and> e AND PTE_W \<noteq> 0)"

definition page_x :: "vmm \<Rightarrow> u64 \<Rightarrow> bool" where
  "page_x v p \<longleftrightarrow> (\<exists>e. user_entry v p = Some e \<and> e AND PTE_NX = 0)"

text \<open>
  The pages of \<open>S\<close> are mapped: those that were not are filled with zeros, the others keep their bytes, and the
  rights \<open>w\<close> and \<open>x\<close> are added. Nothing else changes.
\<close>

definition adds_pages :: "u64 set \<Rightarrow> bool \<Rightarrow> bool \<Rightarrow> vmm \<Rightarrow> vmm \<Rightarrow> bool" where
  "adds_pages S w x v v' \<longleftrightarrow> image_ok v' \<and> g_user_pml4 v' = g_user_pml4 v
     \<and> (\<forall>p. user_page p \<longrightarrow> (if p \<in> S then user_entry v' p \<noteq> None \<and> page_w v' p = (page_w v p \<or> w) \<and> page_x v' p = (page_x v p \<or> x)
          else user_entry v' p = user_entry v p))
     \<and> (\<forall>b < TOP. user_byte v' b = (if page_at b \<in> S \<and> user_byte v b = None then Some 0 else user_byte v b))"

lemma adds_pagesD:
  assumes "adds_pages S w x v v'"
  shows "image_ok v'" "g_user_pml4 v' = g_user_pml4 v" "\<And>p. user_page p \<Longrightarrow> p \<notin> S \<Longrightarrow> user_entry v' p = user_entry v p"
    "\<And>p. user_page p \<Longrightarrow> p \<in> S \<Longrightarrow> user_entry v' p \<noteq> None"
    "\<And>b. b < TOP \<Longrightarrow> user_byte v' b = (if page_at b \<in> S \<and> user_byte v b = None then Some 0 else user_byte v b)"
    "\<And>p. user_page p \<Longrightarrow> p \<in> S \<Longrightarrow> page_w v' p = (page_w v p \<or> w) \<and> page_x v' p = (page_x v p \<or> x)"
  using assms unfolding adds_pages_def by metis+

lemma adds_pages_refl: "image_ok v \<Longrightarrow> adds_pages {} w x v v"
  by (simp add: adds_pages_def)

lemma page_rights_cong: "user_entry v' p = user_entry v p \<Longrightarrow> page_w v' p = page_w v p \<and> page_x v' p = page_x v p"
  by (simp add: page_w_def page_x_def)

lemma adds_pages_trans:
  assumes "adds_pages S w x v v1" "adds_pages T w x v1 v2"
  shows "adds_pages (S \<union> T) w x v v2"
proof -
  note a = adds_pagesD [OF assms(1)] and b = adds_pagesD [OF assms(2)]
  have "if p \<in> S \<union> T then user_entry v2 p \<noteq> None \<and> page_w v2 p = (page_w v p \<or> w) \<and> page_x v2 p = (page_x v p \<or> x)
      else user_entry v2 p = user_entry v p" if p: "user_page p" for p
    using a(3,4,6) [OF p] b(3,4,6) [OF p] page_rights_cong [of v1 p v] page_rights_cong [of v2 p v1] by (cases "p \<in> S"; cases "p \<in> T") auto
  moreover have "user_byte v2 c = (if page_at c \<in> S \<union> T \<and> user_byte v c = None then Some 0 else user_byte v c)" if "c < TOP" for c
    using a(5) [OF that] b(5) [OF that] by auto
  ultimately show ?thesis using a(2) b(1,2) by (simp add: adds_pages_def)
qed

section \<open>Mapping pages\<close>

lemma user_entry_present:
  assumes "mm_ok v" "user_page p" "user_entry v p = Some e"
  shows "e AND PTE_P \<noteq> 0"
  using user_entry_leaf [OF mm_okD(1) [OF assms(1)], of p] assms(2,3) by (auto simp: user_page_def split: if_splits)

text \<open>A page with other bytes in a frame of its own keeps the bytes of every other page.\<close>

lemma bytes_other:
  assumes b: "b < TOP" and m: "mm_ok v" "\<And>f. mapped_at v f \<noteq> {} \<Longrightarrow> mem v' f = mem v f"
    and e: "user_entry v' (page_at b) = user_entry v (page_at b)"
  shows "user_byte v' b = user_byte v b"
proof (rule user_byte_cong [OF b e])
  fix en assume "user_entry v (page_at b) = Some en"
  then have "page_at b \<in> mapped_at v (en AND PTE_ADDR_MASK)" using page_at_user(2) [OF b] by (simp add: mapped_at_def)
  then show "mem v' (en AND PTE_ADDR_MASK) = mem v (en AND PTE_ADDR_MASK)" by (intro m(2)) blast
qed

lemma frame_byte_zero: "\<forall>i<512. m f i = 0 \<Longrightarrow> j < 4096 \<Longrightarrow> frame_byte m f j = 0"
  by (simp add: frame_byte_def)

lemma managed_virt:
  assumes "mm_ok v" "f \<in> managed_pages (pool v)"
  shows "pmm_phys_to_virt (pool v) f \<noteq> None"
  using hhdm_ok_virt [OF vspace_okD(2) [OF mm_okD(2) [OF assms(1)]] managed_frame(4) [OF mm_okD(4) [OF assms(1)] assms(2)]] by simp

lemma imageD:
  assumes "image_ok v"
  shows "mm_ok v" "active v (g_user_pml4 v)"
    "\<And>p e. user_page p \<Longrightarrow> user_entry v p = Some e \<Longrightarrow> plain e \<and> e AND PTE_ADDR_MASK \<in> managed_pages (pool v) \<and> mapped_at v (e AND PTE_ADDR_MASK) = {p}"
  using assms by (simp_all add: image_ok_def)

lemma image_own:
  assumes "image_ok v" "user_page p" "user_entry v p = Some e" "ok e"
  shows "own_page ok v p"
  using imageD(3) [OF assms(1-3)] managed_virt [OF imageD(1) [OF assms(1)]] assms(3,4) by (auto simp: own_page_def)

lemma map_keeps:
  assumes "mm_ok v" "user_page va" "page_aligned p" "vmm_user_map v va p fl = (0, v')"
  shows "g_user_pml4 v' = g_user_pml4 v" "managed_pages (pool v') = managed_pages (pool v)"
proof -
  have a: "vspace_ok v (g_user_pml4 v)" "g_user_valid v" "canonical_user va" "page_aligned va"
    using mm_okD(2,3) [OF assms(1)] assms(2) by (simp_all add: user_page_def)
  from a assms(3) have "g_user_pml4 v' = g_user_pml4 v \<and> managed_pages (pool v') = managed_pages (pool v)"
  proof (cases rule: vmm_user_map_spec [of v va p fl])
    case (mapped s1 pt)
    then have "v' = wr s1 pt (idx1 va) ((p AND PTE_ADDR_MASK) OR PTE_P OR PTE_U OR (fl AND (PTE_W OR PTE_NX OR PTE_PWT OR PTE_PCD)))"
      using assms(4) by simp
    then show ?thesis using growsD(8,10) [OF mapped(2)] by simp
  qed (use assms(4) in simp)
  then show "g_user_pml4 v' = g_user_pml4 v" "managed_pages (pool v') = managed_pages (pool v)" by simp_all
qed

lemma map_new_page_spec:
  assumes im: "image_ok v" and va: "user_page va" "user_entry v va = None" and r: "map_new_page v va fl = (True, v')"
  shows "adds_pages {va} (fl AND PTE_W \<noteq> 0) (fl AND PTE_NX = 0) v v'"
proof -
  have ok: "mm_ok v" using im by (simp add: image_ok_def)
  obtain phys v1 where a: "alloc_page v = (phys, v1)" by fastforce
  have ph: "phys \<noteq> 0" using r a by (auto simp: map_new_page_def)
  note A = alloc_held [OF ok a ph]
  obtain rr v2 where m: "vmm_user_map v1 va phys fl = (rr, v2)" by fastforce
  have e1: "user_entry v1 w = user_entry v w" if "user_page w" for w using A(3) that by (simp add: user_page_def)
  have n1: "user_entry v1 va = None" using e1 [OF va(1)] va(2) by simp
  note P = map_held [OF A(1,2) va(1) n1 m]
  have rr: "rr = 0" "v' = zero_table v2 phys" "pmm_phys_to_virt (pool v2) phys \<noteq> None"
    using r a ph m by (auto simp: map_new_page_def split: if_splits)
  have mp: "phys \<in> managed_pages (pool v1)" using A(2) by (simp add: held_def)
  have pa: "phys AND PTE_ADDR_MASK = phys" using managed_frame(2) [OF mm_okD(4) [OF A(1)] mp] .
  have nt: "phys \<notin> user_tables v2" using mm_okD(5) [OF P(1), of phys] P(4) [of phys] rr(1) by simp
  have z: "v' = v2\<lparr>mem := zero_frame (mem v2) phys\<rparr>" by (simp add: rr zero_table_def)
  have "zero_frame (mem v2) phys f = mem v2 f" if "f \<noteq> phys" for f using that by (rule zero_frame_other)
  then have Z: "mm_ok v'" "\<And>w. canonical_user w \<Longrightarrow> user_entry v' w = user_entry v2 w"
    unfolding z using mem_change_mm_ok [OF P(1) nt, of "zero_frame (mem v2) phys"] by blast+
  have M: "mapped_at v' q = mapped_at v2 q" for q using Z(2) by (intro mapped_at_cong) (simp add: user_page_def)
  have M1: "mapped_at v1 q = mapped_at v q" for q using grows_mm_ok(2) [OF ok A(6)] .
  have E: "user_entry v' w = (if w = va then Some (user_leaf phys fl) else user_entry v w)" if "user_page w" for w
    using Z(2) P(2) [OF that] rr(1) e1 [OF that] that by (simp add: user_page_def)
  note K = map_keeps [OF A(1) va(1) managed_frame(1) [OF mm_okD(4) [OF A(1)] mp] m [unfolded rr(1)]]
  have g: "g_user_pml4 v' = g_user_pml4 v" "managed_pages (pool v') = managed_pages (pool v)"
    using K growsD(8,10) [OF A(6)] by (simp_all add: z)
  have fresh: "phys \<noteq> f" if "mapped_at v f \<noteq> {}" for f using free_not_mapped [OF ok A(4)] that by auto
  have MV: "mapped_at v' f = (if f = phys then {va} else mapped_at v f)" for f using M P(4) [of f] rr(1) M1 by simp
  have "image_ok v'"
    unfolding image_ok_def
  proof (intro conjI allI impI)
    show "active v' (g_user_pml4 v')" using imageD(2) [OF im] g(1) by (simp add: active_def)
    fix p e assume p: "user_page p" "user_entry v' p = Some e"
    have ne: "e AND PTE_ADDR_MASK \<noteq> phys" if "p \<noteq> va"
      using imageD(3) [OF im p(1), of e] E [OF p(1)] p(2) that fresh [of "e AND PTE_ADDR_MASK"] by auto
    show "e AND PTE_U \<noteq> 0" "e AND PTE_COW = 0" "e AND PTE_ADDR_MASK \<in> managed_pages (pool v')" "mapped_at v' (e AND PTE_ADDR_MASK) = {p}"
      using p E [OF p(1)] imageD(3) [OF im p(1)] user_leaf_fields [of phys fl] pa mp growsD(10) [OF A(6)] g(2) MV ne
      by (auto split: if_splits)
  qed (rule Z(1))
  moreover have "user_byte v' b = (if page_at b = va \<and> user_byte v b = None then Some 0 else user_byte v b)" if b: "b < TOP" for b
  proof (cases "page_at b = va")
    case True
    have "\<forall>i<512. mem v' phys i = 0" using zero_frame_0 by (simp add: z)
    then have "frame_byte (mem v') phys (b mod 4096) = 0" by (intro frame_byte_zero) simp_all
    then show ?thesis using True E [OF va(1)] va(2) user_leaf_fields(1) [of phys fl] pa by (simp add: user_byte_def)
  next
    case False
    have "mem v' f = mem v f" if f: "mapped_at v f \<noteq> {}" for f
      using mapped_not_free [OF A(1), of f] P(5) [of f] A(5) fresh [OF f] f zero_frame_other [of f phys "mem v2"] M1 by (simp add: z)
    then show ?thesis using bytes_other [OF b ok, of v'] E [OF page_at_user(2) [OF b]] False by simp
  qed
  ultimately show ?thesis
    using g(1) E user_leaf_fields [of phys fl] va unfolding adds_pages_def page_w_def page_x_def by auto
qed

text \<open>Changing the rights of a page that is not shared.\<close>

lemma protect_page_spec:
  assumes im: "image_ok v" and va: "user_page va" "user_entry v va = Some e"
  obtains v' where "vmm_user_protect v va fl = (0, v')" "image_ok v'" "g_user_pml4 v' = g_user_pml4 v"
    "\<forall>p. user_page p \<longrightarrow> user_entry v' p = (if p = va then Some (user_leaf (e AND PTE_ADDR_MASK) fl) else user_entry v p)"
    "\<forall>b < TOP. user_byte v' b = user_byte v b"
proof -
  have ok: "mm_ok v" and cow: "e AND PTE_COW = 0" using imageD(1) [OF im] imageD(3) [OF im va] by simp_all
  obtain v' where v': "vmm_user_protect v va fl = (0, v')" "user_space_ok v'" "pool v' = pool v"
    "\<And>w. user_page w \<Longrightarrow> user_entry v' w = (if w = va then Some (user_leaf (e AND PTE_ADDR_MASK) fl) else user_entry v w)"
    "g_user_pml4 v' = g_user_pml4 v" "user_tables v' = user_tables v" "\<And>f. f \<notin> user_tables v \<Longrightarrow> mem v' f = mem v f"
    using vmm_user_protect_spec [OF mm_okD(1) [OF ok] va, of fl] cow by auto
  have M: "mapped_at v' q = mapped_at v q" for q
    unfolding mapped_at_def using v'(4) va user_leaf_fields(1) [of "e AND PTE_ADDR_MASK" fl] by (auto split: if_splits)
  have mm: "mm_ok v'" using ok v'(2,3,6) unfolding mm_ok_def M by simp
  have "image_ok v'"
    unfolding image_ok_def
  proof (intro conjI allI impI)
    show "active v' (g_user_pml4 v')" using imageD(2) [OF im] v'(5) by (simp add: active_def)
    fix p e' assume p: "user_page p" "user_entry v' p = Some e'"
    show "e' AND PTE_U \<noteq> 0" "e' AND PTE_COW = 0" "e' AND PTE_ADDR_MASK \<in> managed_pages (pool v')" "mapped_at v' (e' AND PTE_ADDR_MASK) = {p}"
      using p v'(3,4) imageD(3) [OF im p(1), of e'] imageD(3) [OF im va] user_leaf_fields [of "e AND PTE_ADDR_MASK" fl] M
      by (auto split: if_splits)
  qed (rule mm)
  moreover have "user_byte v' b = user_byte v b" if b: "b < TOP" for b
  proof (cases "user_entry v (page_at b)")
    case None
    then show ?thesis using v'(4) [OF page_at_user(2) [OF b]] va(2) by (auto simp: user_byte_def)
  next
    case (Some e2)
    have "mapped_at v (e2 AND PTE_ADDR_MASK) \<noteq> {}" using imageD(3) [OF im page_at_user(2) [OF b] Some] by simp
    then have "mem v' (e2 AND PTE_ADDR_MASK) = mem v (e2 AND PTE_ADDR_MASK)" using mm_okD(5) [OF ok] v'(7) by blast
    then show ?thesis
      using Some v'(4) [OF page_at_user(2) [OF b]] va(2) user_leaf_fields(1) [of "e AND PTE_ADDR_MASK" fl]
      by (auto simp: user_byte_def frame_byte_def)
  qed
  ultimately show thesis using that v' by blast
qed

lemma segment_pte_bits: "(segment_pte f AND PTE_W \<noteq> 0) = (f AND 2 \<noteq> 0)" "(segment_pte f AND PTE_NX = 0) = (f AND 1 \<noteq> 0)"
  by (simp_all add: segment_pte_def)

lemma merged_pte_bits:
  "(merged_pte e f AND PTE_W \<noteq> 0) = (e AND PTE_W \<noteq> 0 \<or> f AND 2 \<noteq> 0)" "(merged_pte e f AND PTE_NX = 0) = (e AND PTE_NX = 0 \<or> f AND 1 \<noteq> 0)"
  by (simp_all add: merged_pte_def)

lemma map_segment_page_spec:
  assumes im: "image_ok v" and va: "user_page va" and r: "map_segment_page v va f = (True, v')"
  shows "adds_pages {va} (f AND 2 \<noteq> 0) (f AND 1 \<noteq> 0) v v'"
proof (cases "user_entry v va")
  case None
  then have "map_new_page v va (segment_pte f) = (True, v')" using r translate_page [OF va, of v] by (simp add: map_segment_page_def)
  then show ?thesis using map_new_page_spec [OF im va None, of "segment_pte f" v'] unfolding segment_pte_bits [of f] by simp
next
  case (Some e)
  have "e AND PTE_P \<noteq> 0" by (rule user_entry_present [OF imageD(1) [OF im] va Some])
  then have p: "vmm_user_protect v va (merged_pte e f) = (0, v')"
    using r translate_page [OF va, of v] Some by (auto simp: map_segment_page_def split: prod.splits)
  obtain v2 where v2: "vmm_user_protect v va (merged_pte e f) = (0, v2)" "image_ok v2" "g_user_pml4 v2 = g_user_pml4 v"
    "\<forall>p. user_page p \<longrightarrow> user_entry v2 p = (if p = va then Some (user_leaf (e AND PTE_ADDR_MASK) (merged_pte e f)) else user_entry v p)"
    "\<forall>b < TOP. user_byte v2 b = user_byte v b"
    by (rule protect_page_spec [OF im va Some, of "merged_pte e f"])
  have v': "v' = v2" using p v2(1) by simp
  have "page_w v2 va = (page_w v va \<or> f AND 2 \<noteq> 0)" "page_x v2 va = (page_x v va \<or> f AND 1 \<noteq> 0)" "user_entry v2 va \<noteq> None"
    using v2(4) va Some merged_pte_bits [of e f] user_leaf_fields [of "e AND PTE_ADDR_MASK" "merged_pte e f"]
    by (simp_all add: page_w_def page_x_def)
  moreover have "user_byte v2 b = (if page_at b \<in> {va} \<and> user_byte v b = None then Some 0 else user_byte v b)" if "b < TOP" for b
  proof (cases "page_at b = va")
    case True
    then have "user_byte v b \<noteq> None" using Some by (simp add: user_byte_def)
    then show ?thesis using v2(5) that by simp
  qed (use v2(5) that in simp)
  ultimately show ?thesis using v2(2-4) unfolding adds_pages_def v' by auto
qed

lemma map_pages_loop_spec:
  assumes "\<And>v va v'. image_ok v \<Longrightarrow> P v va \<Longrightarrow> user_page va \<Longrightarrow> f v va = (True, v') \<Longrightarrow> adds_pages {va} w x v v'"
    and "\<And>v va v' vb. P v vb \<Longrightarrow> va \<noteq> vb \<Longrightarrow> user_page vb \<Longrightarrow> adds_pages {va} w x v v' \<Longrightarrow> P v' vb"
    and "image_ok v" "\<forall>va \<in> set vas. user_page va \<and> P v va" "distinct vas" "map_pages_loop f v vas = (0, v')"
  shows "adds_pages (set vas) w x v v'"
  using assms(3-6)
proof (induction vas arbitrary: v)
  case Nil
  then show ?case using adds_pages_refl by simp
next
  case (Cons va vas)
  obtain v1 where f: "f v va = (True, v1)" "map_pages_loop f v1 vas = (0, v')"
    using Cons.prems(4) by (cases "f v va"; cases "fst (f v va)") auto
  have e: "adds_pages {va} w x v v1" using assms(1) Cons.prems f(1) by simp
  have "\<forall>vb \<in> set vas. user_page vb \<and> P v1 vb" using assms(2) [OF _ _ _ e] Cons.prems(2,3) by auto
  then have "adds_pages (set vas) w x v1 v'" using Cons.IH [OF adds_pagesD(1) [OF e]] Cons.prems(3) f(2) by simp
  then show ?case using adds_pages_trans [OF e] by simp
qed

lemma page_up_id:
  assumes "page_aligned x" "unat x \<le> TOP"
  shows "page_up x = x"
proof -
  have u: "unat x \<le> unat (page_up x)" "unat (page_up x) < unat x + 4096" using page_up_unat [of x] assms(2) by simp_all
  have "4096 dvd unat (page_up x) - unat x" using assms(1) page_up_dvd [of x] by (simp add: page_aligned_iff_dvd)
  then have "unat (page_up x) - unat x = 0" using u by (auto dest: dvd_imp_le)
  then show ?thesis using u by (simp add: word_unat_eq_iff)
qed

lemma page_list:
  assumes "page_aligned start" "page_aligned fin" "start \<le> fin" "unat fin \<le> TOP"
  shows "set (pages start (fin - start)) = {p. user_page p \<and> start \<le> p \<and> p < fin}" "distinct (pages start (fin - start))"
proof -
  have d: "unat (fin - start) = unat fin - unat start" "unat start \<le> unat fin" using assms(3) by (simp_all add: unat_sub word_le_nat_alt)
  have "4096 dvd unat (fin - start)" using assms(1,2) by (simp add: d(1) page_aligned_iff_dvd)
  note P = pages_spec [OF assms(1) this]
  have "unat start + unat (fin - start) = unat fin" using d by simp
  then show "set (pages start (fin - start)) = {p. user_page p \<and> start \<le> p \<and> p < fin}" "distinct (pages start (fin - start))"
    using P assms(4) by (auto simp: word_le_nat_alt word_less_nat_alt)
qed

lemma map_user_range_spec:
  assumes im: "image_ok v" and a: "page_aligned start" "page_aligned fin" and r: "map_user_range v start fin f = (0, v')"
  shows "adds_pages {p. user_page p \<and> start \<le> p \<and> p < fin} (f AND 2 \<noteq> 0) (f AND 1 \<noteq> 0) v v'"
proof -
  have lt: "start < fin" "fin \<le> USER_LIMIT" using r by (auto simp: map_user_range_def not_le split: if_splits)
  have un: "unat fin \<le> TOP" using lt by (simp add: word_le_nat_alt)
  note L = page_list [OF a less_imp_le [OF lt(1)] un]
  have "map_pages_loop (\<lambda>v va. map_segment_page v va f) v (pages start (fin - start)) = (0, v')"
    using r lt unfolding map_user_range_def Let_def page_up_def [symmetric] page_up_id [OF a(2) un] page_aligned_id [OF a(1)] by (auto split: if_splits)
  then have "adds_pages (set (pages start (fin - start))) (f AND 2 \<noteq> 0) (f AND 1 \<noteq> 0) v v'"
    using L im by (intro map_pages_loop_spec [where P = "\<lambda>_ _. True"] map_segment_page_spec) auto
  then show ?thesis by (simp only: L(1))
qed

lemma map_user_stack_spec:
  assumes im: "image_ok v" and n: "\<And>p. user_page p \<Longrightarrow> USER_STACK_TOP - USER_STACK_SIZE \<le> p \<Longrightarrow> p < USER_STACK_TOP \<Longrightarrow> user_entry v p = None"
    and r: "map_user_stack v = (0, v')"
  shows "adds_pages {p. user_page p \<and> USER_STACK_TOP - USER_STACK_SIZE \<le> p \<and> p < USER_STACK_TOP} True False v v'"
proof -
  let ?b = "USER_STACK_TOP - USER_STACK_SIZE :: u64"
  have L: "set (pages ?b USER_STACK_SIZE) = {p. user_page p \<and> ?b \<le> p \<and> p < USER_STACK_TOP}" "distinct (pages ?b USER_STACK_SIZE)"
    using page_list [of ?b USER_STACK_TOP] by (simp_all add: page_aligned_def)
  have f: "adds_pages {va} True False v va'" if "image_ok v" "user_entry v va = None" "user_page va" "map_new_page v va (PTE_W OR PTE_NX) = (True, va')" for v va va'
    using map_new_page_spec [OF that(1,3,2,4)] by simp
  have "adds_pages (set (pages ?b USER_STACK_SIZE)) True False v v'"
  proof (rule map_pages_loop_spec [where P = "\<lambda>v p. user_entry v p = None", OF f _ im _ L(2)])
    show "user_entry v' vb = None" if "user_entry v vb = None" "va \<noteq> vb" "user_page vb" "adds_pages {va} True False v v'" for v va v' vb
      using adds_pagesD(3) [OF that(4,3)] that(1,2) by simp
    show "map_pages_loop (\<lambda>v va. map_new_page v va (PTE_W OR PTE_NX)) v (pages ?b USER_STACK_SIZE) = (0, v')"
      using r by (simp add: map_user_stack_def)
    show "\<forall>va \<in> set (pages ?b USER_STACK_SIZE). user_page va \<and> user_entry v va = None" unfolding L(1) using n by simp
  qed
  then show ?thesis by (simp only: L(1))
qed

section \<open>The contents of a segment\<close>

text \<open>What a reader returns are bytes of the file.\<close>

definition reads :: "(u64 \<Rightarrow> nat \<Rightarrow> u8 list option) \<Rightarrow> u8 list \<Rightarrow> bool" where
  "reads read_at file \<longleftrightarrow> (\<forall>off n bs. read_at off n = Some bs \<longrightarrow> length bs = n \<and> bs = take n (drop (unat off) file))"

lemma image_stored:
  assumes "image_ok v" "stored v a bs v'"
  shows "image_ok v'"
  using assms(1) storedD [OF assms(2)] stored_mapped [OF assms(2)] by (simp add: image_ok_def active_def user_page_def)

lemma image_range:
  assumes im: "image_ok v" and a: "a + n \<le> TOP" and m: "\<And>j. j < n \<Longrightarrow> \<exists>e. user_entry v (page_at (a + j)) = Some e \<and> ok e"
  shows "own_range ok v a n"
  unfolding own_range_def
proof (intro conjI allI impI)
  fix j assume j: "j < n"
  then obtain e where e: "user_entry v (page_at (a + j)) = Some e" "ok e" using m by blast
  have "user_page (page_at (a + j))" using a j by (intro page_at_user) simp
  then show "own_page ok v (page_at (a + j))" using e by (rule image_own [OF im])
qed (rule a)

lemma user_cr3_active: "image_ok v \<Longrightarrow> vmm_user_cr3 v = g_user_pml4 v \<and> g_user_pml4 v \<noteq> 0"
  using imageD(2) mm_okD(3) [OF imageD(1)] by (simp add: vmm_user_cr3_def active_def)

lemma copy_loader_stored:
  assumes "image_ok v" "cr3 = g_user_pml4 v" "own_range user_present v (unat dst) (length bs)"
  shows "\<exists>v'. copy_to_user_loader v cr3 dst bs = (0, v') \<and> stored v (unat dst) bs v'"
  using store_loop_spec [OF imageD(1) [OF assms(1)] assms(3)] user_cr3_active [OF assms(1)] assms(2) by (simp add: copy_to_user_loader_def)

lemma load_file_loop_spec:
  assumes "reads read_at file" "image_ok v" "cr3 = g_user_pml4 v" "copied \<le> filesz" "own_range user_present v (unat va + copied) (filesz - copied)"
    "unat off + filesz < 2 ^ 64" "load_file_loop read_at v cr3 va off filesz copied = (True, v')"
  shows "stored v (unat va + copied) (take (filesz - copied) (drop (unat off + copied) file)) v' \<and> (filesz - copied \<le> length file - (unat off + copied))"
  using assms
proof (induction read_at v cr3 va off filesz copied rule: load_file_loop.induct)
  case (1 read_at v cr3 va off filesz copied)
  show ?case
  proof (cases "copied = filesz")
    case True
    then show ?thesis using 1(8) stored_Nil [OF imageD(1) [OF 1(3)]] by (simp add: load_file_loop.simps [of read_at])
  next
    case False
    define c where "c = min (filesz - copied) 4096"
    have c: "0 < c" "copied + c \<le> filesz" using False 1(5) by (auto simp: c_def)
    note L = load_file_loop.simps [of read_at v cr3 va off filesz copied, folded c_def]
    obtain bs where bs: "read_at (off + of_nat copied) c = Some bs" using 1(8) False 1(5) L by (auto simp: Let_def c_def [symmetric] split: option.splits)
    have o: "unat (off + of_nat copied) = unat off + copied" using 1(5,7) by (simp add: unat_word_ariths unat_of_nat)
    have b: "length bs = c" "bs = take c (drop (unat off + copied) file)" using 1(2) bs unfolding reads_def o [symmetric] by blast+
    have tp: "unat va + filesz \<le> TOP" using 1(6) c by (simp add: own_range_def)
    then have a: "unat (va + of_nat copied) = unat va + copied" using c by (simp add: unat_word_ariths unat_of_nat)
    have "own_range user_present v (unat va + copied) c" using 1(6) c unfolding own_range_def by auto
    then obtain v1 where v1: "copy_to_user_loader v cr3 (va + of_nat copied) bs = (0, v1)" "stored v (unat va + copied) bs v1"
      using copy_loader_stored [OF 1(3,4), of "va + of_nat copied" bs] a b(1) by auto
    have r: "load_file_loop read_at v1 cr3 va off filesz (copied + c) = (True, v')"
      using 1(8) False 1(5) bs v1(1) L by (simp add: Let_def c_def [symmetric])
    have "own_range user_present v1 (unat va + (copied + c)) (filesz - (copied + c))"
      using own_range_drop [OF 1(6), of c] c stored_own_range [OF v1(2)] by (simp add: add.assoc)
    then have IH: "stored v1 (unat va + (copied + c)) (take (filesz - (copied + c)) (drop (unat off + (copied + c)) file)) v'
        \<and> filesz - (copied + c) \<le> length file - (unat off + (copied + c))"
      using 1(1) [OF _ c_def bs v1(1) [symmetric] _ 1(2) image_stored [OF 1(3) v1(2)] _ c(2) _ 1(7) r] 1(4,5) False storedD(3) [OF v1(2)] by simp
    have "take (filesz - copied) (drop (unat off + copied) file) = bs @ take (filesz - (copied + c)) (drop (unat off + (copied + c)) file)"
      using take_add [of c "filesz - (copied + c)" "drop (unat off + copied) file"] b(2) c by (simp add: add_ac)
    moreover have "c \<le> length file - (unat off + copied)" using b by simp
    then have "filesz - copied \<le> length file - (unat off + copied)" using IH c by linarith
    ultimately show ?thesis using stored_append [OF v1(2)] IH b(1) c by (simp add: add.assoc)
  qed
qed

definition seg_bytes :: "u8 list \<Rightarrow> elf_phdr \<Rightarrow> u8 list" where
  "seg_bytes file ph = take (unat (p_filesz ph)) (drop (unat (p_offset ph)) file) @ replicate (unat (p_memsz ph) - unat (p_filesz ph)) 0"

lemma load_contents_spec:
  assumes rd: "reads read_at file" and im: "image_ok v" and cr3: "cr3 = g_user_pml4 v" and sz: "p_filesz ph \<le> p_memsz ph"
    and o: "own_range user_present v (unat va) (unat (p_memsz ph))" "unat (p_offset ph) + unat (p_filesz ph) < 2 ^ 64"
    and r: "load_contents read_at v cr3 va ph = (True, v')"
  shows "stored v (unat va) (seg_bytes file ph) v'" "length (seg_bytes file ph) = unat (p_memsz ph)"
proof -
  have fm: "unat (p_filesz ph) \<le> unat (p_memsz ph)" using sz by (simp add: word_le_nat_alt)
  obtain v1 where l: "load_file_loop read_at v cr3 va (p_offset ph) (unat (p_filesz ph)) 0 = (True, v1)"
    using r by (auto simp: load_contents_def split: prod.splits if_splits)
  have "own_range user_present v (unat va + 0) (unat (p_filesz ph) - 0)" using o(1) fm unfolding own_range_def by auto
  note F = load_file_loop_spec [OF rd im cr3 _ this o(2) l, simplified]
  have lf: "length (take (unat (p_filesz ph)) (drop (unat (p_offset ph)) file)) = unat (p_filesz ph)" using F by simp
  then show ls: "length (seg_bytes file ph) = unat (p_memsz ph)" using fm by (simp add: seg_bytes_def)
  show "stored v (unat va) (seg_bytes file ph) v'"
  proof (cases "p_memsz ph > p_filesz ph")
    case False
    then have "p_memsz ph = p_filesz ph" using sz by simp
    then show ?thesis using F r l by (simp add: load_contents_def seg_bytes_def)
  next
    case True
    let ?z = "replicate (unat (p_memsz ph) - unat (p_filesz ph)) (0 :: u8)"
    have d: "unat (p_memsz ph - p_filesz ph) = unat (p_memsz ph) - unat (p_filesz ph)" using sz by (simp add: unat_sub)
    have tp: "unat va + unat (p_memsz ph) \<le> TOP" using o(1) by (simp add: own_range_def)
    then have a: "unat (va + p_filesz ph) = unat va + unat (p_filesz ph)" using fm by (simp add: unat_word_ariths)
    have i1: "image_ok v1" using image_stored [OF im] F by blast
    have "own_range user_present v1 (unat va + unat (p_filesz ph)) (length ?z)"
      using own_range_drop [OF o(1) fm] stored_own_range F by auto
    then obtain v2 where v2: "store_loop user_present v1 (va + p_filesz ph) ?z = (0, v2)" "stored v1 (unat va + unat (p_filesz ph)) ?z v2"
      using store_loop_spec [OF imageD(1) [OF i1], of user_present "va + p_filesz ph" ?z] a by auto
    have "v' = v2" using r l True v2(1) user_cr3_active [OF i1] cr3 storedD(3) F
      by (auto simp: load_contents_def zero_user_loader_def d)
    then show ?thesis using stored_append [of v "unat va" "take (unat (p_filesz ph)) (drop (unat (p_offset ph)) file)" v1 ?z v2] F v2(2) lf
      by (simp add: seg_bytes_def)
  qed
qed


section \<open>The memory image of a file\<close>

text \<open>Where the bytes of a segment are, and which addresses lie on a page with one of them.\<close>

definition seg_lo :: "u64 \<Rightarrow> elf_phdr \<Rightarrow> nat" where
  "seg_lo bias ph = unat (p_vaddr ph + bias)"

definition in_segment :: "u64 \<Rightarrow> elf_phdr \<Rightarrow> nat \<Rightarrow> bool" where
  "in_segment bias ph b \<longleftrightarrow> seg_lo bias ph \<le> b \<and> b < seg_lo bias ph + unat (p_memsz ph)"

definition touches :: "u64 \<Rightarrow> elf_phdr \<Rightarrow> nat \<Rightarrow> bool" where
  "touches bias ph b \<longleftrightarrow> seg_lo bias ph div 4096 \<le> b div 4096 \<and> b - b mod 4096 < seg_lo bias ph + unat (p_memsz ph)"

definition loadable :: "elf_phdr \<Rightarrow> bool" where
  "loadable ph \<longleftrightarrow> p_type ph = PT_LOAD \<and> p_memsz ph \<noteq> 0"

text \<open>
  The reference: the byte at an address after the segments are put into memory one after the other, each with
  the bytes of the file, zeros behind them, and zeros on the rest of its pages where nothing was before.
\<close>

fun image_byte :: "u8 list \<Rightarrow> u64 \<Rightarrow> elf_phdr list \<Rightarrow> nat \<Rightarrow> u8 option \<Rightarrow> u8 option" where
  "image_byte file bias [] b old = old"
| "image_byte file bias (ph # phs) b old = image_byte file bias phs b
     (if \<not> loadable ph then old
      else if in_segment bias ph b then Some (seg_bytes file ph ! (b - seg_lo bias ph))
      else if touches bias ph b \<and> old = None then Some 0 else old)"

lemma segment_pages:
  assumes "unat va \<le> unat fin" "unat fin \<le> TOP" "b < TOP"
  shows "page_at b \<in> {p. user_page p \<and> va AND PAGE_MASK \<le> p \<and> p < page_up fin} \<longleftrightarrow> unat va div 4096 \<le> b div 4096 \<and> b - b mod 4096 < unat fin"
proof -
  have u: "unat fin \<le> unat (page_up fin)" "unat (page_up fin) < unat fin + 4096" "4096 dvd unat (page_up fin)"
    using page_up_unat [of fin] page_up_dvd [of fin] assms(2) by simp_all
  have b: "b - b mod 4096 = 4096 * (b div 4096)" by (simp add: minus_mod_eq_mult_div)
  have "4096 * (b div 4096) < unat (page_up fin) \<longleftrightarrow> 4096 * (b div 4096) < unat fin" using u by (auto elim!: dvdE)
  moreover have "unat (va AND PAGE_MASK) = 4096 * (unat va div 4096)" using unat_and_not_4095 [of va] by (simp add: minus_mod_eq_mult_div)
  ultimately show ?thesis using page_at_user [OF assms(3)] b by (simp add: word_le_nat_alt word_less_nat_alt)
qed

lemma place_segment_spec:
  assumes rd: "reads read_at file" and im: "image_ok v" and cr3: "cr3 = g_user_pml4 v"
    and r: "place_segment read_at fsize bias v cr3 ph = (Some (va, fin), v')"
  obtains S v1 where "va = p_vaddr ph + bias" "unat fin = seg_lo bias ph + unat (p_memsz ph)" "unat fin \<le> TOP"
    "adds_pages S (p_flags ph AND 2 \<noteq> 0) (p_flags ph AND 1 \<noteq> 0) v v1" "stored v1 (seg_lo bias ph) (seg_bytes file ph) v'"
    "length (seg_bytes file ph) = unat (p_memsz ph)" "\<forall>b < TOP. page_at b \<in> S \<longleftrightarrow> touches bias ph b"
proof -
  let ?va = "p_vaddr ph + bias" and ?fin = "p_vaddr ph + bias + p_memsz ph"
  have g: "p_filesz ph \<le> p_memsz ph" "p_offset ph \<le> fsize" "p_filesz ph \<le> fsize - p_offset ph" "?fin \<le> USER_LIMIT" "?va \<le> ?fin"
    using r by (auto simp: place_segment_def Let_def not_less not_le split: if_splits)
  obtain v1 where m: "map_user_range v (?va AND PAGE_MASK) (page_up ?fin) (p_flags ph) = (0, v1)"
    and l: "load_contents read_at v1 cr3 ?va ph = (True, v')" and eq: "va = ?va" "fin = ?fin"
    using r unfolding page_up_def by (auto simp: place_segment_def Let_def split: if_splits prod.splits)
  have f: "unat ?fin = seg_lo bias ph + unat (p_memsz ph)"
    using g(5) unat_word_ariths(1) [of ?va "p_memsz ph"] unat_plus_simple [of ?va "p_memsz ph"] by (simp add: seg_lo_def)
  have t: "unat ?fin \<le> TOP" using g(4) by (simp add: word_le_nat_alt)
  let ?S = "{p. user_page p \<and> ?va AND PAGE_MASK \<le> p \<and> p < page_up ?fin}"
  have al: "page_aligned (?va AND PAGE_MASK)" "page_aligned (page_up ?fin)"
    using unat_and_not_4095 [of ?va] page_up_dvd [of ?fin] by (simp_all add: page_aligned_iff_dvd minus_mod_eq_mult_div)
  have A: "adds_pages ?S (p_flags ph AND 2 \<noteq> 0) (p_flags ph AND 1 \<noteq> 0) v v1" by (rule map_user_range_spec [OF im al m])
  have S: "\<forall>b < TOP. page_at b \<in> ?S \<longleftrightarrow> touches bias ph b"
    using segment_pages [of ?va ?fin] f t by (simp add: touches_def seg_lo_def)
  note D = adds_pagesD [OF A]
  have "own_range user_present v1 (unat ?va) (unat (p_memsz ph))"
  proof (rule image_range [OF D(1)])
    fix j assume j: "j < unat (p_memsz ph)"
    have b: "unat ?va + j < TOP" using j f t by (simp add: seg_lo_def)
    have "touches bias ph (unat ?va + j)" using j unfolding touches_def seg_lo_def by (auto intro: div_le_mono)
    then have p: "user_page (page_at (unat ?va + j))" "page_at (unat ?va + j) \<in> ?S" using S b page_at_user(2) [OF b] by blast+
    then obtain e where e: "user_entry v1 (page_at (unat ?va + j)) = Some e" using D(4) [OF p] by blast
    then show "\<exists>e. user_entry v1 (page_at (unat ?va + j)) = Some e \<and> user_present e"
      using imageD(3) [OF D(1) p(1) e] user_entry_present [OF imageD(1) [OF D(1)] p(1) e] by blast
  qed (use f t in \<open>simp add: seg_lo_def\<close>)
  moreover have "unat (p_offset ph) + unat (p_filesz ph) < 2 ^ 64"
    using g(2,3) unat_lt_64 [of fsize] by (simp add: word_le_nat_alt unat_sub)
  ultimately have "stored v1 (unat ?va) (seg_bytes file ph) v'" "length (seg_bytes file ph) = unat (p_memsz ph)"
    using load_contents_spec [OF rd D(1) _ g(1) _ _ l] cr3 D(2) by simp_all
  then show ?thesis using that [of ?S v1] eq f t A S by (simp add: seg_lo_def)
qed


text \<open>One segment in the terms of the reference.\<close>

lemma segment_image:
  assumes A: "adds_pages S w x v v1" "stored v1 (seg_lo bias ph) (seg_bytes file ph) v'" "length (seg_bytes file ph) = unat (p_memsz ph)"
      "\<forall>b < TOP. page_at b \<in> S \<longleftrightarrow> touches bias ph b" and l: "loadable ph"
  shows "b < TOP \<Longrightarrow> image_byte file bias phs b (user_byte v' b) = image_byte file bias (ph # phs) b (user_byte v b)"
    "user_page p \<Longrightarrow> page_w v' p = (page_w v p \<or> touches bias ph (unat p) \<and> w) \<and> page_x v' p = (page_x v p \<or> touches bias ph (unat p) \<and> x)
       \<and> (user_entry v' p \<noteq> None) = (user_entry v p \<noteq> None \<or> touches bias ph (unat p))"
proof -
  note D = adds_pagesD [OF A(1)] and E = storedD [OF A(2)]
  show "image_byte file bias phs b (user_byte v' b) = image_byte file bias (ph # phs) b (user_byte v b)" if "b < TOP"
    using E(5) [OF that] D(5) [OF that] A(3,4) l that by (auto simp: in_segment_def)
  show "page_w v' p = (page_w v p \<or> touches bias ph (unat p) \<and> w) \<and> page_x v' p = (page_x v p \<or> touches bias ph (unat p) \<and> x)
      \<and> (user_entry v' p \<noteq> None) = (user_entry v p \<noteq> None \<or> touches bias ph (unat p))" if p: "user_page p"
  proof -
    have t: "unat p < TOP" using p by (auto simp: user_page_def canonical_user_def word_less_nat_alt)
    have "p AND PAGE_MASK = p" using p by (intro page_aligned_id) (simp add: user_page_def)
    then have "page_at (unat p) = p" using page_at_eq [OF t] by simp
    then have "p \<in> S \<longleftrightarrow> touches bias ph (unat p)" using A(4) t by metis
    moreover have "user_entry v' p = user_entry v1 p" using E(4) p by (simp add: user_page_def)
    ultimately show ?thesis
      using D(3,4,6) [OF p] page_rights_cong [of v' p v1] page_rights_cong [of v1 p v] by (cases "p \<in> S") auto
  qed
qed

definition seg_hi :: "u64 \<Rightarrow> elf_phdr \<Rightarrow> u64" where
  "seg_hi bias ph = p_vaddr ph + bias + p_memsz ph"

text \<open>What the loop over the program headers leaves behind.\<close>

definition loaded :: "u8 list \<Rightarrow> u64 \<Rightarrow> u64 \<Rightarrow> elf_phdr list \<Rightarrow> load_state \<Rightarrow> load_state \<Rightarrow> bool" where
  "loaded file bias entry phs st st' \<longleftrightarrow> image_ok (ld_vm st') \<and> g_user_pml4 (ld_vm st') = g_user_pml4 (ld_vm st)
     \<and> (\<forall>b < TOP. user_byte (ld_vm st') b = image_byte file bias phs b (user_byte (ld_vm st) b))
     \<and> (\<forall>p. user_page p \<longrightarrow>
          page_w (ld_vm st') p = (page_w (ld_vm st) p \<or> (\<exists>ph\<in>set phs. loadable ph \<and> touches bias ph (unat p) \<and> p_flags ph AND 2 \<noteq> 0))
        \<and> page_x (ld_vm st') p = (page_x (ld_vm st) p \<or> (\<exists>ph\<in>set phs. loadable ph \<and> touches bias ph (unat p) \<and> p_flags ph AND 1 \<noteq> 0))
        \<and> (user_entry (ld_vm st') p \<noteq> None) = (user_entry (ld_vm st) p \<noteq> None \<or> (\<exists>ph\<in>set phs. loadable ph \<and> touches bias ph (unat p))))
     \<and> (\<forall>ph\<in>set phs. loadable ph \<longrightarrow> seg_lo bias ph + unat (p_memsz ph) \<le> TOP \<and> length (seg_bytes file ph) = unat (p_memsz ph))
     \<and> ld_count st' = ld_count st + length (filter (\<lambda>ph. p_type ph = PT_LOAD) phs)
     \<and> ld_end st' = fold (\<lambda>ph e. if loadable ph then max e (seg_hi bias ph) else e) phs (ld_end st)
     \<and> ld_exec st' = (ld_exec st \<or> (\<exists>ph\<in>set phs. loadable ph \<and> p_flags ph AND 1 \<noteq> 0 \<and> in_segment bias ph (unat entry)))"

lemma loadedD:
  assumes "loaded file bias entry phs st st'"
  shows "image_ok (ld_vm st')" "g_user_pml4 (ld_vm st') = g_user_pml4 (ld_vm st)"
    "\<And>b. b < TOP \<Longrightarrow> user_byte (ld_vm st') b = image_byte file bias phs b (user_byte (ld_vm st) b)"
    "\<And>p. user_page p \<Longrightarrow>
          page_w (ld_vm st') p = (page_w (ld_vm st) p \<or> (\<exists>ph\<in>set phs. loadable ph \<and> touches bias ph (unat p) \<and> p_flags ph AND 2 \<noteq> 0))
        \<and> page_x (ld_vm st') p = (page_x (ld_vm st) p \<or> (\<exists>ph\<in>set phs. loadable ph \<and> touches bias ph (unat p) \<and> p_flags ph AND 1 \<noteq> 0))
        \<and> (user_entry (ld_vm st') p \<noteq> None) = (user_entry (ld_vm st) p \<noteq> None \<or> (\<exists>ph\<in>set phs. loadable ph \<and> touches bias ph (unat p)))"
    "\<And>ph. ph \<in> set phs \<Longrightarrow> loadable ph \<Longrightarrow> seg_lo bias ph + unat (p_memsz ph) \<le> TOP \<and> length (seg_bytes file ph) = unat (p_memsz ph)"
    "ld_count st' = ld_count st + length (filter (\<lambda>ph. p_type ph = PT_LOAD) phs)"
    "ld_end st' = fold (\<lambda>ph e. if loadable ph then max e (seg_hi bias ph) else e) phs (ld_end st)"
    "ld_exec st' = (ld_exec st \<or> (\<exists>ph\<in>set phs. loadable ph \<and> p_flags ph AND 1 \<noteq> 0 \<and> in_segment bias ph (unat entry)))"
  using assms unfolding loaded_def by blast+

lemma load_segments_loaded:
  assumes "reads read_at file" "image_ok (ld_vm st)" "cr3 = g_user_pml4 (ld_vm st)"
    "load_segments empty_ok read_at fsize bias cr3 entry phs st = (True, st')"
  shows "loaded file bias entry phs st st'"
  using assms(2-)
proof (induction phs arbitrary: st)
  case Nil
  then show ?case by (simp add: loaded_def)
next
  case (Cons ph phs)
  show ?case
  proof (cases "loadable ph")
    case False
    let ?st = "if p_type ph = PT_LOAD then st\<lparr>ld_count := ld_count st + 1\<rparr> else st"
    have ld: "ld_vm ?st = ld_vm st" by simp
    have "load_segments empty_ok read_at fsize bias cr3 entry phs ?st = (True, st')"
      using Cons.prems(3) False by (auto simp: loadable_def Let_def split: if_splits)
    then have "loaded file bias entry phs ?st st'" by (rule Cons.IH [rotated 2]) (use Cons.prems(1,2) ld in simp_all)
    note D = loadedD [OF this, unfolded ld]
    show ?thesis
      unfolding loaded_def
    proof (intro conjI allI impI ballI)
      show "user_byte (ld_vm st') b = image_byte file bias (ph # phs) b (user_byte (ld_vm st) b)" if "b < TOP" for b
        using D(3) [OF that] False by simp
    qed (use D(1,2,4-8) False in \<open>auto simp: loadable_def\<close>)
  next
    case True
    obtain va fin v where p: "place_segment read_at fsize bias (ld_vm st) cr3 ph = (Some (va, fin), v)"
      using Cons.prems(3) True by (auto simp: loadable_def Let_def split: if_splits option.splits prod.splits)
    obtain S v1 where P: "va = p_vaddr ph + bias" "unat fin = seg_lo bias ph + unat (p_memsz ph)" "unat fin \<le> TOP"
      "adds_pages S (p_flags ph AND 2 \<noteq> 0) (p_flags ph AND 1 \<noteq> 0) (ld_vm st) v1" "stored v1 (seg_lo bias ph) (seg_bytes file ph) v"
      "length (seg_bytes file ph) = unat (p_memsz ph)" "\<forall>b < TOP. page_at b \<in> S \<longleftrightarrow> touches bias ph b"
      by (rule place_segment_spec [OF assms(1) Cons.prems(1,2) p])
    note I = segment_image [OF P(4-7) True]
    define st1 where "st1 = st\<lparr>ld_count := ld_count st + 1, ld_vm := v, ld_end := (if fin > ld_end st then fin else ld_end st),
             ld_exec := ld_exec st \<or> (p_flags ph AND 1 \<noteq> 0 \<and> entry \<ge> va \<and> entry < fin)\<rparr>"
    have r: "load_segments empty_ok read_at fsize bias cr3 entry phs st1 = (True, st')"
      using Cons.prems(3) True p by (cases "fin > ld_end st") (simp_all add: loadable_def st1_def Let_def)
    have i: "image_ok v" "g_user_pml4 v = g_user_pml4 (ld_vm st)"
      using image_stored [OF adds_pagesD(1) [OF P(4)] P(5)] storedD(3) [OF P(5)] adds_pagesD(2) [OF P(4)] by simp_all
    have "loaded file bias entry phs st1 st'" using Cons.IH [OF _ _ r] i Cons.prems(2) by (simp add: st1_def)
    note D = loadedD [OF this]
    have s: "ld_vm st1 = v" "ld_count st1 = ld_count st + 1" "ld_end st1 = max (ld_end st) fin" by (auto simp: st1_def max_def)
    have x: "ld_exec st1 = (ld_exec st \<or> p_flags ph AND 1 \<noteq> 0 \<and> in_segment bias ph (unat entry))"
      using P(1,2) by (auto simp: st1_def in_segment_def seg_lo_def word_le_nat_alt word_less_nat_alt)
    have fin: "fin = seg_hi bias ph" using p by (auto simp: place_segment_def seg_hi_def Let_def split: if_splits prod.splits)
    have B: "\<forall>b < TOP. user_byte (ld_vm st') b = image_byte file bias (ph # phs) b (user_byte (ld_vm st) b)"
      using D(3) I(1) s(1) by simp
    have R: "page_w (ld_vm st') p = (page_w (ld_vm st) p \<or> (\<exists>ph\<in>set (ph # phs). loadable ph \<and> touches bias ph (unat p) \<and> p_flags ph AND 2 \<noteq> 0))
        \<and> page_x (ld_vm st') p = (page_x (ld_vm st) p \<or> (\<exists>ph\<in>set (ph # phs). loadable ph \<and> touches bias ph (unat p) \<and> p_flags ph AND 1 \<noteq> 0))
        \<and> (user_entry (ld_vm st') p \<noteq> None) = (user_entry (ld_vm st) p \<noteq> None \<or> (\<exists>ph\<in>set (ph # phs). loadable ph \<and> touches bias ph (unat p)))"
      if "user_page p" for p
      using D(4) [OF that] I(2) [OF that] True unfolding s(1) by (simp add: disj_assoc)
    have L: "\<forall>ph\<in>set (ph # phs). loadable ph \<longrightarrow> seg_lo bias ph + unat (p_memsz ph) \<le> TOP \<and> length (seg_bytes file ph) = unat (p_memsz ph)"
      using D(5) P(2,3,6) by simp
    have C: "ld_count st' = ld_count st + length (filter (\<lambda>ph. p_type ph = PT_LOAD) (ph # phs))"
      "ld_end st' = fold (\<lambda>ph e. if loadable ph then max e (seg_hi bias ph) else e) (ph # phs) (ld_end st)"
      "ld_exec st' = (ld_exec st \<or> (\<exists>ph\<in>set (ph # phs). loadable ph \<and> p_flags ph AND 1 \<noteq> 0 \<and> in_segment bias ph (unat entry)))"
      using D(6-8) s x fin True by (simp_all add: loadable_def disj_assoc)
    have g: "g_user_pml4 (ld_vm st') = g_user_pml4 (ld_vm st)" using D(2) i(2) s(1) by simp
    show ?thesis unfolding loaded_def by (intro conjI allI impI D(1) g L C) (use B R in blast)+
  qed
qed


section \<open>The initial stack\<close>

lemma unat_align16: "unat (align16 x) = unat x - unat x mod 16"
proof -
  have m: "(0xF :: u64) = mask 4" by (simp add: mask_eq_exp_minus_1)
  have a: "unat (x AND 0xF) = unat x mod 16" by (simp add: m flip: take_bit_eq_mask) (simp add: take_bit_eq_mod unat_mod)
  have s: "x = (x AND NOT 0xF) + (x AND 0xF)"
    by (subst disjunctive_add) (auto simp: bit_simps intro: bit_word_eqI)
  have "x AND NOT 0xF \<le> (x AND NOT 0xF) + (x AND 0xF)" using s word_and_le2 by metis
  then have "unat ((x AND NOT 0xF) + (x AND 0xF)) = unat (x AND NOT 0xF) + unat (x AND 0xF)" by (simp only: unat_plus_simple)
  then show ?thesis using s a unfolding align16_def by simp
qed

text \<open>A state that differs only in the bytes of a range.\<close>

definition within :: "nat \<Rightarrow> nat \<Rightarrow> vmm \<Rightarrow> vmm \<Rightarrow> bool" where
  "within lo hi v v' \<longleftrightarrow> mm_ok v' \<and> pool v' = pool v \<and> g_user_pml4 v' = g_user_pml4 v
     \<and> (\<forall>va. canonical_user va \<longrightarrow> user_entry v' va = user_entry v va)
     \<and> (\<forall>b < TOP. \<not> (lo \<le> b \<and> b < hi) \<longrightarrow> user_byte v' b = user_byte v b)"

lemma withinD:
  assumes "within lo hi v v'"
  shows "mm_ok v'" "pool v' = pool v" "g_user_pml4 v' = g_user_pml4 v" "\<And>va. canonical_user va \<Longrightarrow> user_entry v' va = user_entry v va"
    "\<And>b. b < TOP \<Longrightarrow> \<not> (lo \<le> b \<and> b < hi) \<Longrightarrow> user_byte v' b = user_byte v b"
  using assms by (simp_all add: within_def)

lemma within_refl: "mm_ok v \<Longrightarrow> within lo hi v v"
  by (simp add: within_def)

lemma within_stored: "stored v a bs v' \<Longrightarrow> lo \<le> a \<Longrightarrow> a + length bs \<le> hi \<Longrightarrow> within lo hi v v'"
  by (auto simp: within_def stored_def)

lemma within_trans: "within lo hi v v1 \<Longrightarrow> within lo' hi' v1 v2 \<Longrightarrow> l \<le> lo \<Longrightarrow> l \<le> lo' \<Longrightarrow> hi \<le> h \<Longrightarrow> hi' \<le> h \<Longrightarrow> within l h v v2"
  unfolding within_def by auto

lemma within_own_range:
  assumes "within lo hi v v'"
  shows "own_range ok v' a n = own_range ok v a n"
proof -
  note w = withinD [OF assms]
  have m: "mapped_at v' f = mapped_at v f" for f by (intro mapped_at_cong) (simp add: w(4) user_page_def)
  have op: "own_page ok v' p = own_page ok v p" if "user_page p" for p
    using that by (simp add: own_page_def w m user_page_def)
  have "own_page ok v' (page_at (a + j)) = own_page ok v (page_at (a + j))" if "a + n \<le> TOP" "j < n" for j
    by (intro op page_at_user(2)) (use that in simp)
  then show ?thesis unfolding own_range_def by blast
qed

lemma within_active: "within lo hi v v' \<Longrightarrow> active v cr3 \<Longrightarrow> active v' cr3"
  by (auto simp: active_def within_def)

lemma copy_to_user_stored:
  assumes "mm_ok v" "active v cr3" "own_range user_rw v (unat dst) (length bs)"
  obtains v' where "copy_to_user v cr3 dst bs = (0, v')" "stored v (unat dst) bs v'"
  using store_loop_spec [OF assms(1,3)] assms(2) mm_okD(3) [OF assms(1)] by (auto simp: copy_to_user_def active_def vmm_user_cr3_def)

text \<open>A string with its final zero, and a list of words, at an address of user memory.\<close>

definition bytes_at :: "vmm \<Rightarrow> nat \<Rightarrow> u8 list \<Rightarrow> bool" where
  "bytes_at v a bs \<longleftrightarrow> a + length bs \<le> TOP \<and> (\<forall>j < length bs. user_byte v (a + j) = Some (bs ! j))"

abbreviation str_at :: "vmm \<Rightarrow> u64 \<Rightarrow> string \<Rightarrow> bool" where
  "str_at v a s \<equiv> bytes_at v (unat a) (c_bytes s)"

abbreviation words_bytes :: "u64 list \<Rightarrow> u8 list" where
  "words_bytes ws \<equiv> concat (map (le_bytes 8) ws)"

lemma stored_bytes: "stored v a bs v' \<Longrightarrow> a + length bs \<le> TOP \<Longrightarrow> bytes_at v' a bs"
  by (simp add: bytes_at_def stored_def)

lemma within_bytes: "bytes_at v a bs \<Longrightarrow> within lo hi v v' \<Longrightarrow> hi \<le> a \<or> a + length bs \<le> lo \<Longrightarrow> bytes_at v' a bs"
  unfolding bytes_at_def within_def by auto

lemma push_strings_spec:
  assumes "mm_ok v" "active v cr3" "own_range user_rw v lo (unat crs - lo)" "\<forall>s\<in>set ss. length s < 256" "lo + 272 * length ss \<le> unat crs" "unat crs \<le> TOP"
  shows "\<exists>vas crs' v'. push_strings v cr3 crs ss = (Some (vas, crs'), v') \<and> within (unat crs') (unat crs) v v' \<and> unat crs' \<le> unat crs
    \<and> unat crs - 272 * length ss \<le> unat crs' \<and> list_all2 (str_at v') vas ss \<and> (\<forall>va\<in>set vas. unat crs' \<le> unat va)"
  using assms
proof (induction ss arbitrary: v crs)
  case Nil
  then show ?case using within_refl by auto
next
  case (Cons s ss)
  let ?n = "length s + 1"
  define c where "c = align16 (crs - of_nat ?n)"
  have n: "?n \<le> 256" using Cons.prems(4) by simp
  have "unat (of_nat ?n :: u64) = ?n" using n by (simp only: unat_of_nat) simp
  then have "unat (crs - of_nat ?n) = unat crs - ?n" using n Cons.prems(5) by (subst unat_sub) (auto simp: word_le_nat_alt)
  then have u: "unat c = unat crs - ?n - (unat crs - ?n) mod 16" unfolding c_def unat_align16 by simp
  then have c: "unat c + ?n \<le> unat crs" "unat crs - 272 \<le> unat c" "lo \<le> unat c"
    using n Cons.prems(5) mod_less_divisor [of 16 "unat crs - ?n"] by (simp_all add: minus_mod_eq_mult_div)
  have len: "length (c_bytes s) = ?n" by (simp add: c_bytes_def string_bytes_def)
  have "own_range user_rw v (unat c) (length (c_bytes s))"
    using own_range_sub [OF Cons.prems(3), of "unat c - lo" ?n] c len by simp
  then obtain v1 where v1: "copy_to_user v cr3 c (c_bytes s) = (0, v1)" "stored v (unat c) (c_bytes s) v1"
    by (rule copy_to_user_stored [OF Cons.prems(1,2)])
  have w1: "within (unat c) (unat crs) v v1" using within_stored [OF v1(2), of "unat c" "unat crs"] c(1) len by simp
  have "own_range user_rw v1 lo (unat c - lo)"
    using own_range_sub [OF Cons.prems(3), of 0 "unat c - lo"] c within_own_range [OF w1] by simp
  moreover have "lo + 272 * length ss \<le> unat c" "unat c \<le> TOP" "\<forall>s\<in>set ss. length s < 256" using Cons.prems(4-6) c(1,2) by simp_all
  ultimately obtain vas c' v' where I: "push_strings v1 cr3 c ss = (Some (vas, c'), v')" "within (unat c') (unat c) v1 v'" "unat c' \<le> unat c"
    "unat c - 272 * length ss \<le> unat c'" "list_all2 (str_at v') vas ss" "\<forall>va\<in>set vas. unat c' \<le> unat va"
    using Cons.IH [OF withinD(1) [OF w1] within_active [OF w1 Cons.prems(2)]] by blast
  have "push_strings v cr3 crs (s # ss) = (Some (c # vas, c'), v')"
    using n v1(1) I(1) by (simp add: c_def [symmetric, simplified] Let_def)
  moreover have "within (unat c') (unat crs) v v'" using within_trans [OF w1 I(2)] I(3) c(1) by simp
  moreover have "str_at v' c s" using within_bytes [OF stored_bytes [OF v1(2)] I(2)] c(1) len Cons.prems(6) by simp
  ultimately show ?case using I(3-6) c by auto
qed

lemma put_words_spec:
  assumes "mm_ok v" "active v cr3" "own_range user_rw v (unat pos) (8 * length ws)"
  shows "\<exists>v'. put_words v cr3 pos ws = (True, v') \<and> stored v (unat pos) (words_bytes ws) v'"
  using assms
proof (induction ws arbitrary: v pos)
  case Nil
  then show ?case using stored_Nil by simp
next
  case (Cons w ws)
  have len: "length (le_bytes 8 w) = 8" by (simp add: le_bytes_def)
  have "own_range user_rw v (unat pos) (length (le_bytes 8 w))" using own_range_sub [OF Cons.prems(3), of 0 8] len by simp
  then obtain v1 where v1: "copy_to_user v cr3 pos (le_bytes 8 w) = (0, v1)" "stored v (unat pos) (le_bytes 8 w) v1"
    by (rule copy_to_user_stored [OF Cons.prems(1,2)])
  have "unat pos + 8 \<le> TOP" using Cons.prems(3) by (simp add: own_range_def)
  then have p: "unat (pos + 8) = unat pos + 8" by (simp add: unat_word_ariths)
  have "own_range user_rw v1 (unat pos + 8) (8 * length ws)"
    using own_range_drop [OF Cons.prems(3), of 8] stored_own_range [OF v1(2)] by simp
  then obtain v' where v': "put_words v1 cr3 (pos + 8) ws = (True, v')" "stored v1 (unat pos + 8) (words_bytes ws) v'"
    using Cons.IH [OF storedD(1) [OF v1(2)], of "pos + 8"] p Cons.prems(2) storedD(3) [OF v1(2)] by (auto simp: active_def)
  then show ?case using v1 stored_append [OF v1(2), of "words_bytes ws" v'] len by auto
qed


lemma own_range_ok:
  assumes ok: "mm_ok v" and o: "own_range user_rw v (unat va) n" and n: "0 < n"
  shows "vmm_user_range_ok v va (of_nat n) w"
proof -
  have t: "unat va + n \<le> TOP" using o by (simp add: own_range_def)
  then have un: "unat (of_nat n :: u64) = n" by (simp add: unat_of_nat)
  then have ne: "(of_nat n :: u64) \<noteq> 0" using n by (metis unat_0 less_irrefl)
  have u: "unat (va + of_nat n - 1) = unat va + n - 1"
    using t n un by (subst unat_minus_one) (auto simp: unat_word_ariths word_unat_eq_iff)
  have can: "canonical_user va" using t n by (simp add: canonical_user_def word_less_nat_alt)
  let ?lo = "va AND PAGE_MASK" and ?hi = "(va + of_nat n - 1) AND PAGE_MASK"
  note f = unat_and_not_4095 [of va] unat_and_not_4095 [of "va + of_nat n - 1"]
  have acc: "user_access v w p" if p: "page_aligned p" "?lo \<le> p" "p \<le> ?hi" for p
  proof -
    have d: "4096 dvd unat p" using p(1) by (simp add: page_aligned_iff_dvd)
    have le: "unat va - unat va mod 4096 \<le> unat p" "unat p \<le> unat va + n - 1" using p(2,3) f u unfolding word_le_nat_alt by linarith+
    obtain j where j: "j < n" "page_at (unat va + j) = p"
    proof (cases "unat va \<le> unat p")
      case True
      have "page_at (unat p) = p" using d page_at_user(1) [of "unat p"] le(2) t n by (simp add: word_unat_eq_iff)
      then show ?thesis using that [of "unat p - unat va"] True le(2) n by auto
    next
      case False
      then have "unat p div 4096 \<le> unat va div 4096" by (intro div_le_mono) simp
      then have "unat p \<le> unat va - unat va mod 4096" using d by (auto simp: minus_mod_eq_mult_div elim!: dvdE)
      then have "page_at (unat va) = p" using le(1) page_at_user(1) [of "unat va"] t n by (simp add: word_unat_eq_iff)
      then show ?thesis using that [of 0] n by simp
    qed
    have "user_page p" using page_at_user(2) [of "unat va + j"] j t by simp
    moreover obtain e where "user_entry v p = Some e" "user_rw e" using o j unfolding own_range_def own_page_def by blast
    ultimately show ?thesis by (simp add: user_access_def translate_page)
  qed
  have "range_ok_loop v ?lo ?hi w"
    using f u t n page_floor_mono [of "unat va" "unat va + n - 1"] acc
    by (subst range_ok_loop_iff) (auto simp: page_aligned_and_not word_less_nat_alt word_le_nat_alt)
  moreover have "of_nat n \<le> USER_TOP - va" using t un unat_sub [of va USER_TOP] by (simp add: word_le_nat_alt)
  ultimately show ?thesis using mm_okD(3) [OF ok] ne can unfolding vmm_user_range_ok_def by (simp add: not_less)
qed

lemma align16_or_8: "align16 x OR 8 = align16 x + 8"
proof -
  have m: "(0xF :: u64) = mask 4" "(8 :: u64) = push_bit 3 1" by (simp_all add: mask_eq_exp_minus_1 push_bit_eq_mult)
  have b: "bit (8 :: u64) n \<longleftrightarrow> n = 3" for n unfolding m(2) bit_push_bit_iff bit_1_iff by auto
  show ?thesis unfolding align16_def m(1)
  proof (rule disjunctive_add [symmetric])
    show "\<not> bit (x AND NOT (mask 4)) n \<or> \<not> bit (8 :: u64) n" for n unfolding b by (auto simp: bit_simps)
  qed
qed

definition vector_words :: "u64 list \<Rightarrow> u64 list \<Rightarrow> u64 list \<Rightarrow> u64 list" where
  "vector_words argv envp auxv = of_nat (length argv) # argv @ [0] @ envp @ [0] @ auxv"

lemma length_le8 [simp]: "length (le_bytes 8 w) = 8"
  by (simp add: le_bytes_def)

lemma length_words [simp]: "length (words_bytes ws) = 8 * length ws"
  by (induction ws) simp_all

lemma push_vectors_spec:
  assumes ok: "mm_ok v" "active v cr3" and o: "own_range user_rw v lo (unat crs - lo)"
    and sz: "lo + 8 * length (vector_words argv envp auxv) + 48 \<le> unat crs" "unat crs \<le> TOP"
  shows "\<exists>sp v'. push_vectors v cr3 crs argv envp auxv = (Some sp, v') \<and> within (unat sp) (unat crs) v v' \<and> lo \<le> unat sp
    \<and> unat sp + 8 * length (vector_words argv envp auxv) \<le> unat crs \<and> unat sp mod 16 = 8 \<and> bytes_at v' (unat sp) (words_bytes (vector_words argv envp auxv))"
proof -
  define n where "n = 8 * (1 + (length argv + 1) + (length envp + 1) + length auxv)"
  have nv: "8 * length (vector_words argv envp auxv) = n" by (simp add: n_def vector_words_def)
  let ?b = "crs - 16 - of_nat n - 8 :: u64"
  define sp where "sp = align16 ?b OR 8"
  have un: "unat (of_nat n :: u64) = n" using sz nv by (simp add: unat_of_nat)
  have ub: "unat ?b = unat crs - 24 - n"
    using sz(1) un by (simp add: nv unat_sub word_le_nat_alt)
  have al: "unat (align16 ?b) + (unat crs - 24 - n) mod 16 = unat crs - 24 - n" "16 dvd unat (align16 ?b)"
    unfolding unat_align16 ub by (simp_all add: minus_mod_eq_mult_div)
  have us: "unat sp = unat (align16 ?b) + 8" unfolding sp_def align16_or_8 using al(1) sz(2) by (simp add: unat_word_ariths)
  have md: "unat sp mod 16 = 8" unfolding us using al(2) by (auto elim!: dvdE)
  have r: "lo \<le> unat sp" "unat sp + n + 16 \<le> unat crs" using us al(1) sz(1) nv mod_less_divisor [of 16 "unat crs - 24 - n"] by linarith+
  have orng: "own_range user_rw v (unat sp) n" using own_range_sub [OF o, of "unat sp - lo" n] r by simp
  let ?ws = "of_nat (length argv) # argv @ [0] @ envp @ [0] :: u64 list"
  have lw: "8 * length ?ws + 8 * length auxv = n" by (simp add: n_def)
  have "own_range user_rw v (unat sp) (8 * length ?ws)" using own_range_sub [OF orng, of 0 "8 * length ?ws"] lw by simp
  then obtain v1 where v1: "put_words v cr3 sp ?ws = (True, v1)" "stored v (unat sp) (words_bytes ?ws) v1"
    using put_words_spec [OF ok] by blast
  let ?p = "sp + of_nat (8 * length ?ws)"
  have up: "unat ?p = unat sp + 8 * length ?ws" using r(2) sz(2) lw by (simp only: unat_word_ariths unat_of_nat) simp
  have "own_range user_rw v1 (unat ?p) (length (words_bytes auxv))"
    unfolding up using own_range_sub [OF orng, of "8 * length ?ws" "8 * length auxv"] lw stored_own_range [OF v1(2)] by simp
  moreover have "active v1 cr3" using ok(2) storedD(3) [OF v1(2)] by (auto simp: active_def)
  ultimately obtain v2 where v2: "copy_to_user v1 cr3 ?p (words_bytes auxv) = (0, v2)" "stored v1 (unat ?p) (words_bytes auxv) v2"
    using copy_to_user_stored [OF storedD(1) [OF v1(2)]] by blast
  have st: "stored v (unat sp) (words_bytes (vector_words argv envp auxv)) v2"
    using stored_append [OF v1(2), of "words_bytes auxv" v2] v2(2) unfolding up by (simp add: vector_words_def)
  have "0 < n" by (simp add: n_def)
  then have ro: "vmm_user_range_ok v2 sp (of_nat n) True" using orng stored_own_range [OF st] by (intro own_range_ok storedD(1) [OF st]) simp_all
  have g: "\<not> crs < of_nat n + 16 + 8" "\<not> sp + of_nat n > crs - 16"
    using r un sz nv by (simp_all add: word_less_nat_alt unat_word_ariths unat_sub word_le_nat_alt)
  have "8 * (1 + (length argv + 1) + (length envp + 1)) = 8 * length ?ws" by simp
  then have "push_vectors v cr3 crs argv envp auxv = (Some sp, v2)"
    unfolding push_vectors_def n_def [symmetric] Let_def sp_def [symmetric] using g v1(1) v2(1) ro by simp
  then show ?thesis using within_stored [OF st, of "unat sp" "unat crs"] stored_bytes [OF st] r sz(2) nv md by auto
qed


text \<open>The arguments that reach the program: its own name when there are none.\<close>

definition exec_args :: "string \<Rightarrow> string list \<Rightarrow> string list" where
  "exec_args path argv = (if argv = [] then [exec_name path] else argv)"

text \<open>The topmost three pages of the stack.\<close>

abbreviation (input) STACK_LO :: nat where "STACK_LO \<equiv> 140737488338944"
abbreviation (input) STACK_HI :: nat where "STACK_HI \<equiv> 140737488351232"

text \<open>
  What a program finds at its stack pointer: the number of its arguments, the pointers to them, a null pointer, the
  pointers to its environment, a null pointer and the auxiliary vector; and the strings behind the pointers.
\<close>

definition stack_layout :: "vmm \<Rightarrow> u64 \<Rightarrow> string \<Rightarrow> string list \<Rightarrow> string list \<Rightarrow> u64 \<Rightarrow> u64 \<Rightarrow> u64 \<Rightarrow> u64 \<Rightarrow> bool" where
  "stack_layout v sp path argv envp phdr phnum entry interp \<longleftrightarrow>
     (\<exists>argv_va envp_va random_va execfn_va.
        bytes_at v (unat sp) (words_bytes (vector_words argv_va envp_va (aux_vector phdr phnum entry interp random_va execfn_va)))
      \<and> list_all2 (str_at v) argv_va (exec_args path argv) \<and> list_all2 (str_at v) envp_va envp
      \<and> bytes_at v (unat random_va) random_bytes \<and> str_at v execfn_va (exec_name path))"

lemma strs_within:
  assumes "list_all2 (str_at v) vas ss" "\<forall>va\<in>set vas. hi \<le> unat va" "within lo hi v v'"
  shows "list_all2 (str_at v') vas ss"
  using assms(1,2)
proof (induction rule: list_all2_induct)
  case (Cons va vas s ss)
  then show ?case using within_bytes [OF Cons.hyps(1) assms(3)] by simp
qed simp

text \<open>The strings of two vectors, the second below the first.\<close>

lemma push_two:
  assumes ok: "mm_ok v" "active v cr3" and o: "own_range user_rw v lo (unat crs - lo)" "unat crs \<le> TOP" "lo + 9000 \<le> unat crs"
    and a: "length as \<le> 16" "length es \<le> 16" "\<forall>s\<in>set as. length s < 256" "\<forall>s\<in>set es. length s < 256"
  obtains ava c v1 eva d v2 where "push_strings v cr3 crs as = (Some (ava, c), v1)" "push_strings v1 cr3 c es = (Some (eva, d), v2)"
    "within (unat d) (unat crs) v v2" "unat d \<le> unat crs" "unat crs - 8704 \<le> unat d"
    "list_all2 (str_at v2) ava as" "list_all2 (str_at v2) eva es" "\<forall>va\<in>set ava \<union> set eva. unat d \<le> unat va"
proof -
  have "lo + 272 * length as \<le> unat crs" using o(3) a(1) by simp
  then obtain ava c v1 where v1: "push_strings v cr3 crs as = (Some (ava, c), v1)" "within (unat c) (unat crs) v v1" "unat c \<le> unat crs"
    "unat crs - 272 * length as \<le> unat c" "list_all2 (str_at v1) ava as" "\<forall>va\<in>set ava. unat c \<le> unat va"
    using push_strings_spec [OF ok o(1) a(3)] o(2) by blast
  have c: "unat crs - 272 * 16 \<le> unat c" using v1(4) a(1) by linarith
  have "own_range user_rw v1 lo (unat c - lo)"
    using own_range_sub [OF o(1), of 0 "unat c - lo"] v1(3) c o(3) within_own_range [OF v1(2)] by simp
  moreover have "lo + 272 * length es \<le> unat c" "unat c \<le> TOP" using a(2) c v1(3) o by linarith+
  ultimately obtain eva d v2 where v2: "push_strings v1 cr3 c es = (Some (eva, d), v2)" "within (unat d) (unat c) v1 v2" "unat d \<le> unat c"
    "unat c - 272 * length es \<le> unat d" "list_all2 (str_at v2) eva es" "\<forall>va\<in>set eva. unat d \<le> unat va"
    using push_strings_spec [OF withinD(1) [OF v1(2)] within_active [OF v1(2) ok(2)] _ a(4)] by blast
  have "list_all2 (str_at v2) ava as" by (rule strs_within [OF v1(5,6) v2(2)])
  moreover have "within (unat d) (unat crs) v v2" using within_trans [OF v1(2) v2(2)] v1(3) v2(3) by simp
  moreover have "unat crs - 8704 \<le> unat d" "unat d \<le> unat crs" using v2(3,4) v1(3) a(2) c by linarith+
  moreover have "\<forall>va\<in>set ava \<union> set eva. unat d \<le> unat va" using v1(6) v2(3,6) by auto
  ultimately show ?thesis using that v1(1) v2(1,5) by blast
qed

lemma init_user_stack_spec:
  assumes ok: "mm_ok v" "active v cr3" and o: "own_range user_rw v STACK_LO (STACK_HI - STACK_LO)"
    and a: "length argv \<le> 16" "length envp \<le> 16" "\<forall>s\<in>set argv. length s < 256" "\<forall>s\<in>set envp. length s < 256" "length (exec_name path) < 64"
  shows "\<exists>sp v'. init_user_stack v cr3 eh phs path argv envp bias entry interp = (Some sp, v') \<and> within STACK_LO STACK_HI v v'
    \<and> STACK_LO < unat sp \<and> unat sp < STACK_HI \<and> unat sp mod 16 = 8
    \<and> stack_layout v' sp path argv envp (phdr_va eh phs bias) (e_phnum eh) (if entry \<noteq> 0 then entry else e_entry eh + bias) interp"
proof -
  let ?x = "0x7FFFFFFFEFC0 :: u64" and ?r = "0x7FFFFFFFEFB0 :: u64" and ?args = "exec_args path argv"
  let ?en = "if entry \<noteq> 0 then entry else e_entry eh + bias"
  define aux where "aux = aux_vector (phdr_va eh phs bias) (e_phnum eh) ?en interp ?r ?x"
  have x: "align16 (USER_STACK_TOP - 64) = ?x" "align16 (?x - 16) = ?r" by (simp_all add: align16_def)
  have args: "length ?args \<le> 16" "\<forall>s\<in>set ?args. length s < 256" using a by (auto simp: exec_args_def)
  have lx: "length (c_bytes (exec_name path)) \<le> 64" using a(5) by (simp add: c_bytes_def string_bytes_def)
  have "own_range user_rw v (unat ?x) (length (c_bytes (exec_name path)))"
    using own_range_sub [OF o, of 12224 "length (c_bytes (exec_name path))"] lx by simp
  then obtain v1 where v1: "copy_to_user v cr3 ?x (c_bytes (exec_name path)) = (0, v1)" "stored v (unat ?x) (c_bytes (exec_name path)) v1"
    by (rule copy_to_user_stored [OF ok])
  have w1: "within (unat ?x) STACK_HI v v1" using within_stored [OF v1(2)] lx by simp
  have lr: "length random_bytes = 16" by (simp add: random_bytes_def)
  have "own_range user_rw v1 (unat ?r) (length random_bytes)"
    using own_range_sub [OF o, of 12208 16] within_own_range [OF w1] lr by simp
  then obtain v2 where v2: "copy_to_user v1 cr3 ?r random_bytes = (0, v2)" "stored v1 (unat ?r) random_bytes v2"
    by (rule copy_to_user_stored [OF withinD(1) [OF w1] within_active [OF w1 ok(2)]])
  have w2: "within (unat ?r) (unat ?x) v1 v2" using within_stored [OF v2(2)] lr by simp
  have ow2: "own_range user_rw v2 b n = own_range user_rw v b n" for b n using within_own_range [OF w1] within_own_range [OF w2] by simp
  have "own_range user_rw v2 STACK_LO (unat ?r - STACK_LO)" unfolding ow2 using own_range_sub [OF o, of 0 "unat ?r - STACK_LO"] by simp
  then obtain ava c v3 eva d v4 where p: "push_strings v2 cr3 ?r ?args = (Some (ava, c), v3)" "push_strings v3 cr3 c envp = (Some (eva, d), v4)"
    and w4: "within (unat d) (unat ?r) v2 v4" and d: "unat d \<le> unat ?r" "unat ?r - 8704 \<le> unat d"
    and s: "list_all2 (str_at v4) ava ?args" "list_all2 (str_at v4) eva envp" "\<forall>va\<in>set ava \<union> set eva. unat d \<le> unat va"
    by (rule push_two [OF withinD(1) [OF w2] within_active [OF w2 within_active [OF w1 ok(2)]] _ _ _ args(1) a(2) args(2) a(4)]) simp_all
  have "length ava \<le> 16" "length eva \<le> 16" "length aux \<le> 18"
    using list_all2_lengthD [OF s(1)] list_all2_lengthD [OF s(2)] args(1) a(2) by (simp_all add: aux_def aux_vector_def)
  then have sz: "STACK_LO + 1 + 8 * length (vector_words ava eva aux) + 48 \<le> unat d" using d by (simp add: vector_words_def)
  have "own_range user_rw v4 (STACK_LO + 1) (unat d - (STACK_LO + 1))"
    unfolding within_own_range [OF w4] ow2 using own_range_sub [OF o, of 1 "unat d - (STACK_LO + 1)"] d by simp
  then obtain sp v5 where v5: "push_vectors v4 cr3 d ava eva aux = (Some sp, v5)" "within (unat sp) (unat d) v4 v5" "STACK_LO + 1 \<le> unat sp"
    "unat sp + 8 * length (vector_words ava eva aux) \<le> unat d" "unat sp mod 16 = 8" "bytes_at v5 (unat sp) (words_bytes (vector_words ava eva aux))"
    using push_vectors_spec [OF withinD(1) [OF w4] within_active [OF w4 within_active [OF w2 within_active [OF w1 ok(2)]]] _ sz] d by auto
  have w25: "within (unat sp) (unat ?r) v2 v5" using within_trans [OF w4 v5(2)] v5(4) d by simp
  have w15: "within (unat sp) (unat ?x) v1 v5" using within_trans [OF w2 w25] v5(4) d by simp
  have w: "within STACK_LO STACK_HI v v5" using within_trans [OF w1 w15] v5(3) by simp
  have b: "str_at v5 ?x (exec_name path)" "bytes_at v5 (unat ?r) random_bytes"
    using within_bytes [OF stored_bytes [OF v1(2)] w15] within_bytes [OF stored_bytes [OF v2(2)] w25] lx lr by simp_all
  have "list_all2 (str_at v5) ava ?args" "list_all2 (str_at v5) eva envp" using strs_within [OF _ _ v5(2)] s by simp_all
  then have "stack_layout v5 sp path argv envp (phdr_va eh phs bias) (e_phnum eh) ?en interp"
    unfolding stack_layout_def using b v5(6) unfolding aux_def by blast
  moreover have "init_user_stack v cr3 eh phs path argv envp bias entry interp = (Some sp, v5)"
    using a(1,2) v1(1) v2(1) p v5(1)
    unfolding init_user_stack_def Let_def x aux_def exec_args_def by simp
  moreover have "unat sp < STACK_HI" using v5(4) d by simp
  ultimately show ?thesis using w v5(3,5) by auto
qed


section \<open>A small program\<close>

text \<open>A file of eight bytes, a segment of it, and memory in which its page is mapped.\<close>

definition demo_file :: "u8 list" where
  "demo_file = [1, 2, 3, 4, 5, 6, 7, 8]"

definition demo_phdr :: elf_phdr where
  "demo_phdr = \<lparr>p_type = PT_LOAD, p_flags = 7, p_offset = 2, p_vaddr = 16, p_filesz = 3, p_memsz = 5\<rparr>"

definition demo_read :: "u64 \<Rightarrow> nat \<Rightarrow> u8 list option" where
  "demo_read = elf_reader_read_exact (elf_memory_reader_read demo_file) 8"

lemma memory_reader_reads: "length data < 2 ^ 64 \<Longrightarrow> reads (elf_reader_read_exact (elf_memory_reader_read data) (of_nat (length data))) data"
  by (auto simp: reads_def elf_reader_read_exact_def elf_memory_reader_read_def Let_def split: if_splits)

lemma demo_rw_image: "image_ok demo_rw"
  unfolding image_ok_def
proof (intro conjI allI impI)
  fix p e assume "user_page p" "user_entry demo_rw p = Some e"
  then have "p = 0" "e = 0x1000007" using demo_rw_entries by (auto split: if_splits)
  then show "e AND PTE_U \<noteq> 0" "e AND PTE_COW = 0" "e AND PTE_ADDR_MASK \<in> managed_pages (pool demo_rw)" "mapped_at demo_rw (e AND PTE_ADDR_MASK) = {p}"
    using demo_rw_mapped by (simp_all add: demo_rw_sel demo_managed page_aligned_def)
qed (simp_all add: demo_rw_mm_ok active_def demo_rw_sel page_aligned_def)

lemma demo_segment_loads:
  "\<exists>v. load_segments True demo_read 8 0 0x2000 16 [demo_phdr] (start_load demo_rw) = (True, \<lparr>ld_vm = v, ld_count = 1, ld_exec = True, ld_end = 21\<rparr>)"
proof -
  have z: "user_page 0" by (simp add: user_page_def canonical_user_def page_aligned_def)
  have e0: "user_entry demo_rw 0 = Some 0x1000007" using demo_rw_entries [OF z] by simp
  obtain v1 where v1: "vmm_user_protect demo_rw 0 PTE_W = (0, v1)" "image_ok v1" "g_user_pml4 v1 = g_user_pml4 demo_rw"
    "\<forall>p. user_page p \<longrightarrow> user_entry v1 p = (if p = 0 then Some (user_leaf (0x1000007 AND PTE_ADDR_MASK) PTE_W) else user_entry demo_rw p)"
    by (rule protect_page_spec [OF demo_rw_image z e0, of PTE_W])
  note v1 = v1(1,2) v1(3) [unfolded demo_rw_sel] v1(4)
  have pg: "page_at (a + j) = 0" if "a + j < 4096" for a j using that by (simp add: page_at_def)
  have e: "user_entry v1 0 = Some (user_leaf 0x1000000 PTE_W)" using v1(4) [rule_format, OF z] by simp
  then have pr: "user_present (user_leaf 0x1000000 PTE_W)"
    using imageD(3) [OF v1(2) z e] user_entry_present [OF imageD(1) [OF v1(2)] z e] by blast
  have own: "own_range user_present v1 a n" if "a + n < 4096" for a n
    using that e pr by (intro image_range [OF v1(2)]) (auto simp: pg)
  have cr: "vmm_user_cr3 v1 = 0x2000" using user_cr3_active [OF v1(2)] v1(3) by simp
  obtain v2 where v2: "copy_to_user_loader v1 0x2000 16 [3, 4, 5] = (0, v2)" "stored v1 16 [3, 4, 5] v2"
    using copy_loader_stored [OF v1(2), of "0x2000" 16 "[3, 4, 5]"] v1(3) own [of 16 "Suc (Suc (Suc 0))"] by auto
  have i2: "image_ok v2" by (rule image_stored [OF v1(2) v2(2)])
  have cr2: "vmm_user_cr3 v2 = 0x2000" using user_cr3_active [OF i2] storedD(3) [OF v2(2)] v1(3) by simp
  obtain v3 where v3: "store_loop user_present v2 19 [0, 0] = (0, v3)"
    using store_loop_spec [OF imageD(1) [OF i2], of user_present 19 "[0, 0]"] own [of 19 "Suc (Suc 0)"] stored_own_range [OF v2(2)] by auto
  have rd: "demo_read 2 3 = Some [3, 4, 5]" by (simp add: demo_read_def elf_reader_read_exact_def elf_memory_reader_read_def demo_file_def)
  have rep: "replicate 2 (0 :: u8) = [0, 0]" by (simp add: numeral_2_eq_2)
  have "load_file_loop demo_read v1 0x2000 16 2 3 0 = (True, v2)"
    using rd v2(1) by (simp add: load_file_loop.simps)
  then have l: "load_contents demo_read v1 0x2000 16 demo_phdr = (True, v3)"
    using v3 cr2 by (simp add: load_contents_def demo_phdr_def zero_user_loader_def rep)
  have "pages 0 0x1000 = [0]" by (simp add: pages_def)
  then have "map_user_range demo_rw 0 0x1000 7 = (0, v1)"
    using v1(1) by (simp add: map_user_range_def map_segment_page_def demo_rw_translate merged_pte_def)
  then show ?thesis using l
    by (simp add: place_segment_def start_load_def demo_phdr_def Let_def)
qed

text \<open>Three pages of stack.\<close>

definition demo_stack :: vmm where
  "demo_stack = demo_vmm\<lparr>mem := (\<lambda>f i. if f = 0x2000 \<and> i = 255 then 0x3007 else if f = 0x3000 \<and> i = 511 then 0x4007
     else if f = 0x4000 \<and> i = 511 then 0x5007 else if f = 0x5000 \<and> i = 508 then 0x100007 else if f = 0x5000 \<and> i = 509 then 0x101007
     else if f = 0x5000 \<and> i = 510 then 0x102007 else 0)\<rparr>"

lemma demo_stack_sel: "g_user_pml4 demo_stack = 0x2000" "g_user_valid demo_stack" "pool demo_stack = demo_pool"
  by (simp_all add: demo_stack_def demo_sel demo_pool_sel)

lemma demo_stack_rd:
  "rd demo_stack 0x2000 i = (if i = 255 then 0x3007 else 0)" "rd demo_stack 0x3000 i = (if i = 511 then 0x4007 else 0)"
  "rd demo_stack 0x4000 i = (if i = 511 then 0x5007 else 0)"
  "rd demo_stack 0x5000 i = (if i = 508 then 0x100007 else if i = 509 then 0x101007 else if i = 510 then 0x102007 else 0)"
  by (simp_all add: rd_def demo_stack_def)

lemma demo_stack_node:
  assumes "user_path p"
  shows "node demo_stack 0x2000 p = (if p = [] then Some 0x2000 else if p = [255] then Some 0x3000
    else if p = [255, 511] then Some 0x4000 else if p = [255, 511, 511] then Some 0x5000 else None)"
proof -
  have t: "table demo_stack x = table demo_vmm x" for x by (simp add: table_def demo_stack_def)
  have s: "walk_step demo_stack 0x2000 i = (if i = 255 then Some 0x3000 else None)"
    "walk_step demo_stack 0x3000 i = (if i = 511 then Some 0x4000 else None)"
    "walk_step demo_stack 0x4000 i = (if i = 511 then Some 0x5000 else None)" for i
    by (simp_all add: walk_step_def t demo_table demo_stack_rd)
  consider "p = []" | a where "p = [a]" | a b where "p = [a, b]" | a b c where "p = [a, b, c]"
    using assms by (auto simp: user_path_def numeral_3_eq_3 le_Suc_eq length_Suc_conv)
  then show ?thesis by cases (auto simp: node.simps s)
qed

lemma demo_stack_space: "user_space_ok demo_stack"
proof -
  have "table demo_stack 0x2000 = Some 0x2000" using demo_table(1) by (simp add: table_def demo_stack_def)
  then have "vspace_ok demo_stack 0x2000"
    using demo_pool_ok demo_hhdm_ok unfolding vspace_ok_def demo_stack_sel by (auto simp: demo_stack_node demo_free split: if_splits)
  then show ?thesis by (simp add: user_space_ok_def demo_stack_sel)
qed

lemma demo_stack_entries:
  assumes w: "user_page w"
  shows "user_entry demo_stack w = (if w = 0x7FFFFFFFC000 then Some 0x100007 else if w = 0x7FFFFFFFD000 then Some 0x101007
    else if w = 0x7FFFFFFFE000 then Some 0x102007 else None)"
proof -
  have i: "idx4 w = idx4 x \<and> idx3 w = idx3 x \<and> idx2 w = idx2 x \<and> idx1 w = idx1 x \<longleftrightarrow> w = x" if "user_page x" for x
    using idx_inj [of w x] w that by (auto simp: user_page_def)
  have p: "user_page 0x7FFFFFFFC000" "user_page 0x7FFFFFFFD000" "user_page 0x7FFFFFFFE000"
    by (simp_all add: user_page_def canonical_user_def page_aligned_def)
  have x: "idx4 0x7FFFFFFFC000 = 255" "idx3 0x7FFFFFFFC000 = 511" "idx2 0x7FFFFFFFC000 = 511" "idx1 0x7FFFFFFFC000 = 508"
    "idx4 0x7FFFFFFFD000 = 255" "idx3 0x7FFFFFFFD000 = 511" "idx2 0x7FFFFFFFD000 = 511" "idx1 0x7FFFFFFFD000 = 509"
    "idx4 0x7FFFFFFFE000 = 255" "idx3 0x7FFFFFFFE000 = 511" "idx2 0x7FFFFFFFE000 = 511" "idx1 0x7FFFFFFFE000 = 510"
    by (simp_all add: idx_defs)
  note I = i [OF p(1), unfolded x] i [OF p(2), unfolded x] i [OF p(3), unfolded x]
  have "user_path [idx4 w, idx3 w, idx2 w]" using w by (intro user_path_idx) (simp add: user_page_def)
  then have l: "leaf_entry demo_stack 0x2000 w = (if idx4 w = 255 \<and> idx3 w = 511 \<and> idx2 w = 511 then rd demo_stack 0x5000 (idx1 w) else 0)"
    by (simp add: leaf_entry_def demo_stack_node)
  have u: "user_entry demo_stack w = (if leaf_entry demo_stack 0x2000 w AND PTE_P = 0 then None else Some (leaf_entry demo_stack 0x2000 w))"
    using w user_entry_leaf [OF demo_stack_space, of w] by (simp add: demo_stack_sel user_page_def)
  show ?thesis unfolding u l demo_stack_rd I [symmetric] by auto
qed


lemma demo_stack_mapped:
  "mapped_at demo_stack p = (if p = 0x100000 then {0x7FFFFFFFC000} else if p = 0x101000 then {0x7FFFFFFFD000} else if p = 0x102000 then {0x7FFFFFFFE000} else {})"
  unfolding mapped_at_def by (auto simp: demo_stack_entries user_page_def canonical_user_def page_aligned_def split: if_splits)

lemma demo_stack_ok: "mm_ok demo_stack" "active demo_stack 0x2000"
proof -
  have "table_frames demo_stack 0x2000 \<subseteq> {0x2000, 0x3000, 0x4000, 0x5000}"
    unfolding table_frames_def by (auto simp: demo_stack_node split: if_splits)
  moreover have "managed_pages demo_pool \<inter> {0x100000, 0x101000, 0x102000} = {}" by (auto simp: demo_managed)
  ultimately show "mm_ok demo_stack"
    unfolding mm_ok_def demo_stack_mapped using demo_stack_space by (auto simp: demo_stack_sel)
qed (simp add: active_def demo_stack_sel page_aligned_def)

lemma demo_stack_range: "own_range user_rw demo_stack STACK_LO (STACK_HI - STACK_LO)"
proof -
  have f: "pmm_phys_to_virt demo_pool x \<noteq> None" if "x < PMM_TRACK_LIMIT" for x using hhdm_ok_virt [OF demo_hhdm_ok that] by simp
  have "own_page user_rw demo_stack (page_at (STACK_LO + j))" if j: "j < 12288" for j
  proof -
    have b: "STACK_LO + j < TOP" using j by simp
    have d: "(STACK_LO + j) div 4096 = 34359738364 + j div 4096" using div_mult_self1 [of 4096 j 34359738364] by simp
    have "j div 4096 < 3" using j by (simp add: less_mult_imp_div_less)
    then have "j div 4096 = 0 \<or> j div 4096 = 1 \<or> j div 4096 = 2" by linarith
    then have "unat (page_at (STACK_LO + j)) \<in> {140737488338944, 140737488343040, 140737488347136}"
      using page_at_user(1) [OF b] d by (auto simp: minus_mod_eq_mult_div)
    then have "page_at (STACK_LO + j) \<in> {0x7FFFFFFFC000, 0x7FFFFFFFD000, 0x7FFFFFFFE000}" by (auto simp: word_unat_eq_iff)
    then show ?thesis
      using demo_stack_entries [OF page_at_user(2) [OF b]] f unfolding own_page_def by (auto simp: demo_stack_sel demo_stack_mapped)
  qed
  then show ?thesis by (simp add: own_range_def)
qed

section \<open>Properties\<close>

text \<open>
  C15: the loop over the program headers builds exactly the memory image that the file describes. Every byte of a
  loadable segment is the byte of the file at its offset or, behind the file part, zero; the rest of a page that had to
  be mapped is zero; every other byte of memory is unchanged, and where segments overlap the later one wins. A page is
  writable, or executable, exactly when it was before or a segment on it is. The load counts as executable exactly when an
  executable segment contains the entry point.
\<close>

theorem load_segments_image:
  assumes "reads read_at file" "image_ok (ld_vm st)" "cr3 = g_user_pml4 (ld_vm st)"
    "load_segments empty_ok read_at fsize bias cr3 entry phs st = (True, st')"
  shows "(\<forall>b < TOP. user_byte (ld_vm st') b = image_byte file bias phs b (user_byte (ld_vm st) b))
    \<and> (\<forall>p. user_page p \<longrightarrow>
          page_w (ld_vm st') p = (page_w (ld_vm st) p \<or> (\<exists>ph\<in>set phs. loadable ph \<and> touches bias ph (unat p) \<and> p_flags ph AND 2 \<noteq> 0))
        \<and> page_x (ld_vm st') p = (page_x (ld_vm st) p \<or> (\<exists>ph\<in>set phs. loadable ph \<and> touches bias ph (unat p) \<and> p_flags ph AND 1 \<noteq> 0)))
    \<and> ld_exec st' = (ld_exec st \<or> (\<exists>ph\<in>set phs. loadable ph \<and> p_flags ph AND 1 \<noteq> 0 \<and> in_segment bias ph (unat entry)))
    \<and> image_ok (ld_vm st')"
  using loadedD [OF load_segments_loaded [OF assms]] by blast

theorem load_segments_image_witness:
  "\<exists>st'. load_segments True demo_read 8 0 0x2000 16 [demo_phdr] (start_load demo_rw) = (True, st')
    \<and> map (user_byte (ld_vm st')) [16..<21] = map Some [3, 4, 5, 0, 0] \<and> user_byte (ld_vm st') 15 = user_byte demo_rw 15"
proof -
  obtain st' where st: "load_segments True demo_read 8 0 0x2000 16 [demo_phdr] (start_load demo_rw) = (True, st')" using demo_segment_loads by blast
  have r: "reads demo_read demo_file" using memory_reader_reads [of demo_file] by (simp add: demo_read_def demo_file_def)
  have i: "image_ok (ld_vm (start_load demo_rw))" "0x2000 = g_user_pml4 (ld_vm (start_load demo_rw))"
    using demo_rw_image by (simp_all add: start_load_def demo_rw_sel)
  have b: "user_byte (ld_vm st') b = image_byte demo_file 0 [demo_phdr] b (user_byte (ld_vm (start_load demo_rw)) b)" if "b < TOP" for b
    using load_segments_image [OF r i st] that by blast
  have rep: "replicate 2 (0 :: u8) = [0, 0]" by (simp add: numeral_2_eq_2)
  have seg: "seg_bytes demo_file demo_phdr = [3, 4, 5, 0, 0]" "seg_lo 0 demo_phdr = 16" "loadable demo_phdr"
    by (simp_all add: seg_bytes_def demo_file_def demo_phdr_def seg_lo_def loadable_def rep)
  have "user_byte demo_rw 15 \<noteq> None" using demo_rw_entries [of 0] by (simp add: user_byte_def page_at_def user_page_def canonical_user_def page_aligned_def)
  then have "user_byte (ld_vm st') 15 = user_byte demo_rw 15" using b [of 15] seg by (simp add: in_segment_def start_load_def)
  moreover have "user_byte (ld_vm st') b = Some ([3, 4, 5, 0, 0] ! (b - 16))" if "16 \<le> b" "b < 21" for b
    using b [of b] seg that by (simp add: in_segment_def demo_phdr_def)
  then have "map (user_byte (ld_vm st')) [16..<21] = map Some [3, 4, 5, 0, 0]" by (simp add: upt_rec)
  ultimately show ?thesis using st by blast
qed

text \<open>
  C6: the initial stack of a program. With at most 16 arguments and 16 environment strings of less than 256 characters, a
  program name of less than 64 and the topmost three pages of the stack mapped, \<^verbatim>\<open>init_user_stack\<close>
  succeeds, writes nothing outside these pages, and leaves at the stack pointer the argument count, the argument and
  environment pointers with their null terminators and the auxiliary vector; each pointer leads to its string with a zero
  behind it, none of which a later write of the set-up overwrote.
\<close>

theorem init_user_stack_layout:
  assumes "mm_ok v" "active v cr3" "own_range user_rw v STACK_LO (STACK_HI - STACK_LO)"
    "length argv \<le> 16" "length envp \<le> 16" "\<forall>s\<in>set argv. length s < 256" "\<forall>s\<in>set envp. length s < 256" "length (exec_name path) < 64"
  shows "\<exists>sp v' argv_va envp_va random_va execfn_va. init_user_stack v cr3 eh phs path argv envp bias entry interp = (Some sp, v')
    \<and> within STACK_LO STACK_HI v v' \<and> STACK_LO < unat sp \<and> unat sp < STACK_HI \<and> unat sp mod 16 = 8
    \<and> bytes_at v' (unat sp) (words_bytes (of_nat (length argv_va) # argv_va @ [0] @ envp_va @ [0] @
        aux_vector (phdr_va eh phs bias) (e_phnum eh) (if entry \<noteq> 0 then entry else e_entry eh + bias) interp random_va execfn_va))
    \<and> list_all2 (str_at v') argv_va (if argv = [] then [exec_name path] else argv) \<and> list_all2 (str_at v') envp_va envp
    \<and> bytes_at v' (unat random_va) random_bytes \<and> str_at v' execfn_va (exec_name path)"
  using init_user_stack_spec [OF assms, of eh phs bias entry interp] unfolding stack_layout_def vector_words_def exec_args_def by blast

theorem init_user_stack_layout_witness:
  "\<exists>sp v' argv_va. init_user_stack demo_stack 0x2000 (ehdr_of []) [] ''/bin/sh'' [''sh'', ''-c''] [''A=1''] 0 0x400000 0 = (Some sp, v')
    \<and> list_all2 (str_at v') argv_va [''sh'', ''-c''] \<and> unat sp mod 16 = 8"
proof -
  have n: "length (exec_name ''/bin/sh'') < 64" by (simp add: exec_name_def)
  from init_user_stack_layout [OF demo_stack_ok demo_stack_range _ _ _ _ n, of "[''sh'', ''-c'']" "[''A=1'']" "ehdr_of []" "[]" 0 "0x400000" 0]
  show ?thesis by fastforce
qed

end
