(* ===== verification/File_Spec.thy ===== *)
theory File_Spec
  imports Fileio Exec_Spec Socket_Spec Vfs_Spec Fd_Refs
begin

text \<open>
  Correctness of file access through descriptors: what a write puts into a file, a read from the same offset finds.
\<close>

section \<open>Files and offsets\<close>

text \<open>A regular file with its data in the pool.\<close>

definition file_ok :: "vfs \<Rightarrow> nat \<Rightarrow> bool" where
  "file_ok s n \<longleftrightarrow> vfs_file_is_regular s (Some n) \<and> nd_capacity (nodes s (inode_of s n)) \<le> VFS_DATA_SLOT_SIZE
     \<and> inode_of s (inode_of s n) = inode_of s n \<and> nd_data (nodes s (inode_of s n)) \<noteq> None"

definition capacity :: "vfs \<Rightarrow> nat \<Rightarrow> nat" where
  "capacity s n = unat (nd_capacity (nodes s (inode_of s n)))"

lemma vfs_write_frame:
  assumes "vfs_file_write s (Some n) off (Some bs) len = (w, t)"
  shows "inode_of t m = inode_of s m" "nd_data (nodes t m) = nd_data (nodes s m)" "nd_capacity (nodes t m) = nd_capacity (nodes s m)"
    "nd_type (nodes t m) = nd_type (nodes s m)"
  using assms by (auto simp: vfs_file_write_def inode_of_def Let_def split: if_splits)

lemma vfs_write_fits:
  assumes ok: "file_ok s n" and off: "unat off \<le> length (file_bytes s n)" "unat off + length bs \<le> capacity s n" "bs \<noteq> []"
  obtains t where "vfs_file_write s (Some n) off (Some bs) (of_nat (length bs)) = (int (length bs), t)" "file_ok t n" "capacity t n = capacity s n"
    "file_bytes t n = take (unat off) (file_bytes s n) @ bs @ drop (unat off + length bs) (file_bytes s n)"
proof -
  obtain w t where wt: "vfs_file_write s (Some n) off (Some bs) (of_nat (length bs)) = (w, t)" by fastforce
  note F = vfs_write_frame [OF wt]
  let ?c = "nd_capacity (nodes s (inode_of s n))"
  have c: "unat ?c \<le> 65536" using ok by (simp add: file_ok_def word_le_nat_alt)
  have l: "unat (of_nat (length bs) :: u64) = length bs" using off(2) c by (simp add: capacity_def unat_of_nat)
  have o: "off < ?c" using off(2,3) unfolding word_less_nat_alt capacity_def by (cases bs) simp_all
  have r: "unat (?c - off) = unat ?c - unat off" using o by (simp add: unat_sub less_imp_le)
  have W: "w = min (uint (of_nat (length bs) :: u64)) (uint (?c - off)) \<and> file_bytes t n = take (unat off) (file_bytes s n) @ take (nat w) bs @ drop (unat off + nat w) (file_bytes s n)"
    using file_write_bytes [OF _ l [symmetric] o _ _ _ _ wt] ok off(1) by (simp add: file_ok_def file_bytes_def word_le_nat_alt)
  have "uint (of_nat (length bs) :: u64) = int (length bs)" using l by (metis uint_nat)
  moreover have "uint (?c - off) = int (unat ?c - unat off)" using r by (metis uint_nat)
  ultimately have "w = min (int (length bs)) (int (unat ?c - unat off))" using W by metis
  moreover have "length bs \<le> unat ?c - unat off" using off(2) by (simp add: capacity_def)
  ultimately have w: "w = int (length bs)" by (metis min.absorb1 of_nat_le_iff)
  have "file_ok t n" using ok F by (simp add: file_ok_def vfs_file_is_regular_def)
  moreover have "capacity t n = capacity s n" by (simp add: capacity_def F)
  moreover have "file_bytes t n = take (unat off) (file_bytes s n) @ bs @ drop (unat off + length bs) (file_bytes s n)"
    using conjunct2 [OF W] unfolding w by simp
  ultimately show ?thesis using that wt w by blast
qed

lemma set_open_sel: "desc (set_open s i g) = desc s" "open_descs (set_open s i g) i = g (open_descs s i)"
  by (simp_all add: set_open_def desc_def fun_eq_iff)

lemma offset_get_set: "fd_offset_get (fd_offset_set s f v) f = v"
  by (simp add: fd_offset_get_def fd_offset_set_def Let_def set_open_sel split: option.split)

lemma offset_set_desc: "desc (fd_offset_set s f v) = (desc s)(f := (desc s f)\<lparr>fd_offset := v\<rparr>)"
  by (simp add: fd_offset_set_def Let_def fun_eq_iff set_open_sel split: option.split)

section \<open>Writing\<close>

lemma user_bytes_vfs: "user_bytes (k\<lparr>vfs_state := fs\<rparr>) buf data = user_bytes k buf data"
  by (simp add: user_bytes_def copy_in_def)

lemma write_file_loop_spec:
  assumes "file_ok (vfs_state k) n" "user_bytes k buf data" "done \<le> length data" "unat off \<le> length (file_bytes (vfs_state k) n)"
    "unat off + (length data - done) \<le> capacity (vfs_state k) n"
  shows "\<exists>fs. write_file_loop k (Some n) False buf (length data) off done = (None, off + of_nat (length data - done), length data, k\<lparr>vfs_state := fs\<rparr>)
    \<and> file_ok fs n \<and> capacity fs n = capacity (vfs_state k) n
    \<and> file_bytes fs n = take (unat off) (file_bytes (vfs_state k) n) @ drop done data @ drop (unat off + (length data - done)) (file_bytes (vfs_state k) n)"
  using assms
proof (induction "length data - done" arbitrary: k off "done" rule: less_induct)
  case less
  let ?old = "file_bytes (vfs_state k) n"
  show ?case
  proof (cases "done = length data")
    case True
    then show ?thesis using less.prems(1,4) by (intro exI [of _ "vfs_state k"]) (simp add: write_file_loop.simps)
  next
    case False
    define c where "c = min 256 (length data - done)"
    have c: "0 < c" "done + c \<le> length data" using False less.prems(3) by (auto simp: c_def)
    let ?tmp = "take c (drop done data)"
    have l: "length ?tmp = c" "?tmp \<noteq> []" using c by auto
    have cp: "copy_in k (buf + of_nat done) c = Some ?tmp" using less.prems(2) c by (simp add: user_bytes_def)
    have le: "unat off + length ?tmp \<le> capacity (vfs_state k) n" using less.prems(5) c unfolding l(1) by linarith
    obtain fs where W: "vfs_file_write (vfs_state k) (Some n) off (Some ?tmp) (of_nat c) = (int c, fs)" "file_ok fs n"
      "capacity fs n = capacity (vfs_state k) n" "file_bytes fs n = take (unat off) ?old @ ?tmp @ drop (unat off + c) ?old"
      by (rule vfs_write_fits [OF less.prems(1,4) le l(2), unfolded l(1)])
    let ?k = "k\<lparr>vfs_state := fs\<rparr>"
    have cap: "capacity (vfs_state k) n \<le> 65536" using less.prems(1) by (simp add: file_ok_def capacity_def word_le_nat_alt)
    have u: "unat (off + of_nat c) = unat off + c" using less.prems(5) c cap by (simp add: unat_word_ariths unat_of_nat)
    have "\<exists>fs'. write_file_loop ?k (Some n) False buf (length data) (off + of_nat c) (done + c) =
        (None, off + of_nat c + of_nat (length data - (done + c)), length data, ?k\<lparr>vfs_state := fs'\<rparr>)
      \<and> file_ok fs' n \<and> capacity fs' n = capacity (vfs_state ?k) n
      \<and> file_bytes fs' n = take (unat (off + of_nat c)) (file_bytes (vfs_state ?k) n) @ drop (done + c) data
          @ drop (unat (off + of_nat c) + (length data - (done + c))) (file_bytes (vfs_state ?k) n)"
      using c W(2-4) less.prems u l by (intro less.hyps) (simp_all add: user_bytes_vfs)
    then obtain fs' where I: "write_file_loop ?k (Some n) False buf (length data) (off + of_nat c) (done + c) =
        (None, off + of_nat c + of_nat (length data - (done + c)), length data, k\<lparr>vfs_state := fs'\<rparr>)" "file_ok fs' n" "capacity fs' n = capacity (vfs_state k) n"
      "file_bytes fs' n = take (unat off + c) (file_bytes fs n) @ drop (done + c) data @ drop (unat off + c + (length data - (done + c))) (file_bytes fs n)"
      unfolding u using W(3) by auto
    have rest: "length data - done = c + (length data - (done + c))" using c by simp
    have "write_file_loop k (Some n) False buf (length data) off done = write_file_loop ?k (Some n) False buf (length data) (off + of_nat c) (done + c)"
      using False less.prems(3) cp W(1) by (subst write_file_loop.simps) (simp add: c_def [symmetric] Let_def)
    moreover have "off + of_nat c + of_nat (length data - (done + c)) = off + of_nat (length data - done)"
      unfolding rest of_nat_add add.assoc ..
    moreover have "take (unat off + c) (file_bytes fs n) = take (unat off) ?old @ ?tmp" using W(4) less.prems(4) l by simp
    moreover have "drop (unat off + c + (length data - (done + c))) (file_bytes fs n) = drop (unat off + (length data - done)) ?old"
      using W(4) less.prems(4) l c by (simp add: add.assoc add.commute [of "length data"])
    moreover have "?tmp @ drop (done + c) data = drop done data" using append_take_drop_id [of c "drop done data"] by (simp add: add.commute)
    ultimately show ?thesis using I by (metis append.assoc)
  qed
qed


text \<open>An open descriptor of a file.\<close>

definition file_fd :: "kernel \<Rightarrow> int \<Rightarrow> nat \<Rightarrow> bool" where
  "file_fd k fd n \<longleftrightarrow> \<not> bad_fd fd \<and> fd_in_use (files k fd) \<and> fd_type (files k fd) = FD_FILE \<and> fd_vnode (files k fd) = Some n
     \<and> file_ok (vfs_state k) n"

definition fd_pos :: "kernel \<Rightarrow> int \<Rightarrow> u64" where
  "fd_pos k fd = fd_offset_get (fds k) (fd_slot k fd)"

abbreviation fd_contents :: "kernel \<Rightarrow> nat \<Rightarrow> u8 list" where
  "fd_contents k n \<equiv> file_bytes (vfs_state k) n"

lemma files_slot: "files k fd = desc (fds k) (fd_slot k fd)"
  by (simp add: files_def fd_slot_def)

lemma same_tables [simp]: "current_files (set_desc s f g) ct = current_files s ct" "current_files (fd_offset_set s f v) ct = current_files s ct"
proof -
  show a: "current_files (set_desc s f g) ct = current_files s ct" for s g by (simp add: current_files_def set_desc_def)
  show "current_files (fd_offset_set s f v) ct = current_files s ct"
    using a by (simp add: fd_offset_set_def Let_def set_open_def current_files_def split: option.split)
qed

text \<open>What happens to a descriptor when its offset and size change.\<close>

lemma moved_fd:
  assumes "k' = on_fds k (\<lambda>s. set_desc (fd_offset_set s (fd_slot k fd) v) (fd_slot k fd) (\<lambda>d. d\<lparr>fd_size := z\<rparr>))"
  shows "fd_pos k' fd = v" "files k' fd = (files k fd)\<lparr>fd_offset := v, fd_size := z\<rparr>" "vfs_state k' = vfs_state k" "vm k' = vm k"
    "syscall_user_cr3 k' = syscall_user_cr3 k" "current_task k' = current_task k"
proof -
  have sl: "fd_slot k' fd = fd_slot k fd" by (simp add: assms on_fds_def fd_slot_def)
  show "files k' fd = (files k fd)\<lparr>fd_offset := v, fd_size := z\<rparr>"
    unfolding files_slot sl by (simp add: assms on_fds_def offset_set_desc)
  have o: "open_descs (set_desc s f g) = open_descs s" for s f g by (simp add: set_desc_def)
  have "fd_offset_get (set_desc s f (\<lambda>d. d\<lparr>fd_size := z\<rparr>)) f = fd_offset_get s f" for s f
    by (simp add: fd_offset_get_def o split: option.split)
  then show "fd_pos k' fd = v" unfolding fd_pos_def sl by (simp add: assms on_fds_def offset_get_set)
qed (simp_all add: assms on_fds_def)

lemma write_file_spec:
  assumes f: "file_fd k fd n" "fd_flags (files k fd) AND 3 \<noteq> 0" "fd_flags (files k fd) AND O_APPEND = 0"
    and u: "user_bytes k buf data" and p: "unat (fd_pos k fd) \<le> length (fd_contents k n)" "unat (fd_pos k fd) + length data \<le> capacity (vfs_state k) n"
  obtains k' where "write_file k fd buf (of_nat (length data)) = (int (length data), k')" "file_fd k' fd n" "fd_pos k' fd = fd_pos k fd + of_nat (length data)"
    "fd_contents k' n = take (unat (fd_pos k fd)) (fd_contents k n) @ data @ drop (unat (fd_pos k fd) + length data) (fd_contents k n)"
    "vm k' = vm k" "syscall_user_cr3 k' = syscall_user_cr3 k" "current_task k' = current_task k"
proof -
  have ok: "file_ok (vfs_state k) n" and vn: "fd_vnode (files k fd) = Some n" using f(1) by (simp_all add: file_fd_def)
  have reg: "vfs_file_is_regular (vfs_state k) (Some n)" using ok by (simp add: file_ok_def)
  have "capacity (vfs_state k) n \<le> 65536" using ok by (simp add: file_ok_def capacity_def word_le_nat_alt)
  then have l: "unat (of_nat (length data) :: u64) = length data" using p(2) by (simp add: unat_of_nat)
  obtain fs where L: "write_file_loop k (Some n) False buf (length data) (fd_pos k fd) 0 = (None, fd_pos k fd + of_nat (length data), length data, k\<lparr>vfs_state := fs\<rparr>)"
    "file_ok fs n" "file_bytes fs n = take (unat (fd_pos k fd)) (fd_contents k n) @ data @ drop (unat (fd_pos k fd) + length data) (fd_contents k n)"
    using write_file_loop_spec [OF ok u, of 0 "fd_pos k fd"] p by auto
  let ?k = "k\<lparr>vfs_state := fs\<rparr>"
  define k' where "k' = on_fds ?k (\<lambda>s. set_desc (fd_offset_set s (fd_slot ?k fd) (fd_pos k fd + of_nat (length data))) (fd_slot ?k fd)
      (\<lambda>d. d\<lparr>fd_size := vfs_file_size fs (Some n)\<rparr>))"
  note M = moved_fd [OF k'_def]
  have w: "write_file k fd buf (of_nat (length data)) = (int (length data), k')"
    using f(2,3) vn reg L(1) l by (simp add: write_file_def Let_def k'_def fd_pos_def)
  have fl: "files ?k fd = files k fd" by (simp add: files_def)
  have "file_fd k' fd n" using f(1) L(2) unfolding file_fd_def M(2,3) fl by simp
  then show ?thesis using that [OF w] M L(3) by simp
qed

section \<open>Reading\<close>

lemma regular_not_boot: "file_ok s n \<Longrightarrow> fd_vnode f = Some n \<Longrightarrow> \<not> fd_uses_bootfs s f"
  by (auto simp: file_ok_def fd_uses_bootfs_def vfs_is_boot_file_def vfs_file_is_regular_def)

lemma plain_file:
  assumes "file_ok (vfs_state k) n" "fd_vnode f = Some n" "unat off + m \<le> length (fd_contents k n)"
  shows "unat (plain_size k f) = length (fd_contents k n)" "plain_bytes k f off m = Some (take m (drop (unat off) (fd_contents k n)))"
proof -
  have r: "vfs_file_is_regular (vfs_state k) (Some n)" using assms(1) by (simp add: file_ok_def)
  obtain d where d: "nd_data (nodes (vfs_state k) (inode_of (vfs_state k) n)) = Some d" using assms(1) by (auto simp: file_ok_def)
  show "unat (plain_size k f) = length (fd_contents k n)" using r assms(2) by (simp add: plain_size_def vfs_file_size_def file_bytes_def)
  have "map (\<lambda>i. data_byte (vfs_state k) (Some d) (unat off + i)) [0..<m] = take m (drop (unat off) (fd_contents k n))"
    using assms(3) d by (intro nth_equalityI) (simp_all add: file_bytes_def)
  then show "plain_bytes k f off m = Some (take m (drop (unat off) (fd_contents k n)))"
    using r assms(2) d by (simp add: plain_bytes_def vfs_file_data_def)
qed

lemma read_file_spec:
  assumes f: "file_fd k fd n" and u: "user_buf k buf m" and p: "unat (fd_pos k fd) + m \<le> length (fd_contents k n)"
  obtains k' where "read_file k fd buf (of_nat m) = (int m, k')" "copy_in k' buf m = Some (take m (drop (unat (fd_pos k fd)) (fd_contents k n)))"
    "fd_pos k' fd = fd_pos k fd + of_nat m" "file_fd k' fd n" "vfs_state k' = vfs_state k"
proof -
  have ok: "file_ok (vfs_state k) n" and vn: "fd_vnode (files k fd) = Some n" using f by (simp_all add: file_fd_def)
  let ?pos = "fd_pos k fd" and ?bs = "take m (drop (unat (fd_pos k fd)) (fd_contents k n))"
  note P = plain_file [OF ok vn p]
  have lb: "length ?bs = m" using p by simp
  have mm: "unat (of_nat m :: u64) = m" using u by (simp add: user_buf_def own_range_def unat_of_nat)
  have n: "min (unat (of_nat m :: u64)) (if ?pos < plain_size k (files k fd) then unat (plain_size k (files k fd) - ?pos) else 0) = m"
    using p P(1) mm by (auto simp: word_less_nat_alt unat_sub word_le_nat_alt)
  obtain v' where v': "copy_plain k buf (Some ?bs) = (True, k\<lparr>vm := v'\<rparr>)" "stored (vm k) (unat buf) ?bs v'"
  proof (cases "?bs = []")
    case True
    then have "copy_plain k buf (Some ?bs) = (True, k\<lparr>vm := vm k\<rparr>)" by (simp add: copy_plain_def)
    moreover have "stored (vm k) (unat buf) ?bs (vm k)" unfolding True using u by (simp add: stored_Nil user_buf_def)
    ultimately show ?thesis using that by blast
  next
    case False
    then show ?thesis using that copy_out_stored [OF u, of 0 ?bs] lb by (auto simp: copy_plain_def)
  qed
  let ?k = "k\<lparr>vm := v'\<rparr>"
  define k' where "k' = on_fds ?k (\<lambda>s. set_desc (fd_offset_set s (fd_slot ?k fd) (?pos + of_nat m)) (fd_slot ?k fd) (\<lambda>d. d\<lparr>fd_size := plain_size k (files k fd)\<rparr>))"
  note M = moved_fd [OF k'_def]
  have sl: "fd_slot ?k fd = fd_slot k fd" by (simp add: fd_slot_def)
  have r: "read_file k fd buf (of_nat m) = (int m, k')"
    using regular_not_boot [OF ok vn] v'(1) unfolding read_file_def Let_def fd_pos_def [symmetric] n P(2) k'_def sl by simp
  have b: "user_buf k' buf m" by (rule user_buf_stored [OF u]) (use v'(2) M(4,5) in simp_all)
  have "user_byte (vm k') (unat buf + j) = Some (?bs ! j)" if "j < length ?bs" for j
    using storedD(5) [OF v'(2), of "unat buf + j"] that lb M(4) u by (simp add: user_buf_def own_range_def)
  then have c: "copy_in k' buf m = Some ?bs" using copy_in_stored [OF b, of ?bs] lb by simp
  have "files ?k fd = files k fd" by (simp add: files_def)
  then have "file_fd k' fd n" using f unfolding file_fd_def M(2,3) by simp
  then show ?thesis using that [OF r c] M(1,3) by simp
qed


section \<open>Seeking\<close>

lemma seek_spec:
  assumes f: "file_fd k fd n" and p: "unat pos < 2 ^ 63"
  obtains k' where "sys_lseek k fd (uint pos) 0 = (uint pos, k')" "fd_pos k' fd = pos" "file_fd k' fd n" "vfs_state k' = vfs_state k"
    "vm k' = vm k" "syscall_user_cr3 k' = syscall_user_cr3 k"
proof -
  define k' where "k' = on_fds k (\<lambda>s. fd_offset_set s (fd_slot k fd) pos)"
  have sl: "fd_slot k' fd = fd_slot k fd" by (simp add: k'_def on_fds_def fd_slot_def)
  have fl: "files k' fd = (files k fd)\<lparr>fd_offset := pos\<rparr>" unfolding files_slot sl by (simp add: k'_def on_fds_def offset_set_desc)
  have "int (unat pos) < int (2 ^ 63)" using p by (simp only: of_nat_less_iff)
  then have "uint pos < 2 ^ 63" by (simp only: uint_nat of_nat_power of_nat_numeral)
  then have "sys_lseek k fd (uint pos) 0 = (uint pos, k')"
    using f unfolding sys_lseek_def k'_def by (simp add: file_fd_def Let_def not_less)
  moreover have "fd_pos k' fd = pos" unfolding fd_pos_def sl by (simp add: k'_def on_fds_def offset_get_set)
  moreover have "file_fd k' fd n" using f unfolding file_fd_def fl by (simp add: k'_def on_fds_def)
  ultimately show ?thesis using that by (simp add: k'_def on_fds_def)
qed

section \<open>Properties\<close>

text \<open>
  C19. A write through a descriptor for a regular file, not opened for appending, at an offset within the file and
  with room for all bytes, returns their number, replaces exactly the bytes from the offset on and moves the offset behind
  them. Whatever task table and memory the kernel has later, as long as descriptors and files are untouched, seeking back and reading
  returns the same number and stores the same bytes in the buffer of the reader.
\<close>

theorem file_write_read:
  assumes f: "file_fd k fd n" "fd_flags (files k fd) AND 3 \<noteq> 0" "fd_flags (files k fd) AND O_APPEND = 0"
    and u: "user_bytes k buf data" "buf \<noteq> 0" "data \<noteq> []" "vmm_user_range_ok (vm k) buf (of_nat (length data)) False"
    and p: "unat (fd_pos k fd) \<le> length (fd_contents k n)" "unat (fd_pos k fd) + length data \<le> capacity (vfs_state k) n"
  shows "\<exists>k1. sys_write tick k sf fd buf (of_nat (length data)) = Some (int (length data), k1)
    \<and> fd_contents k1 n = take (unat (fd_pos k fd)) (fd_contents k n) @ data @ drop (unat (fd_pos k fd) + length data) (fd_contents k n)
    \<and> fd_pos k1 fd = fd_pos k fd + of_nat (length data)
    \<and> (\<forall>k2 rbuf. fds k2 = fds k1 \<longrightarrow> vfs_state k2 = vfs_state k1 \<longrightarrow> current_task k2 = current_task k1 \<longrightarrow> user_buf k2 rbuf (length data) \<longrightarrow> rbuf \<noteq> 0 \<longrightarrow>
         (\<exists>k3 k4. sys_lseek k2 fd (uint (fd_pos k fd)) 0 = (uint (fd_pos k fd), k3)
            \<and> sys_read_file k3 fd rbuf (of_nat (length data)) = (int (length data), k4) \<and> copy_in k4 rbuf (length data) = Some data))"
proof -
  let ?pos = "fd_pos k fd" and ?len = "of_nat (length data) :: u64"
  have d: "\<not> bad_fd fd" "fd_in_use (files k fd)" "fd_type (files k fd) = FD_FILE" using f(1) by (simp_all add: file_fd_def)
  have cp: "capacity (vfs_state k) n \<le> 65536" using f(1) by (simp add: file_fd_def file_ok_def capacity_def word_le_nat_alt)
  then have l: "unat ?len = length data" using p(2) by (simp add: unat_of_nat)
  have ne: "?len \<noteq> 0" using l u(3) by (metis length_0_conv unat_0)
  have small: "\<not> ?len > 0x100000" using l p(2) cp by (simp add: word_less_nat_alt)
  obtain k1 where W: "write_file k fd buf ?len = (int (length data), k1)" "file_fd k1 fd n" "fd_pos k1 fd = ?pos + ?len"
    "fd_contents k1 n = take (unat ?pos) (fd_contents k n) @ data @ drop (unat ?pos + length data) (fd_contents k n)"
    by (rule write_file_spec [OF f u(1) p])
  have w: "sys_write tick k sf fd buf ?len = Some (int (length data), k1)"
    using d u(2,4) ne small W(1) by (simp add: sys_write_def socket_valid_fd_def write_checks_def fd_is_console_stream_def Let_def)
  have "\<exists>k3 k4. sys_lseek k2 fd (uint ?pos) 0 = (uint ?pos, k3) \<and> sys_read_file k3 fd rbuf ?len = (int (length data), k4) \<and> copy_in k4 rbuf (length data) = Some data"
    if s: "fds k2 = fds k1" "vfs_state k2 = vfs_state k1" "current_task k2 = current_task k1" and b: "user_buf k2 rbuf (length data)" "rbuf \<noteq> 0" for k2 rbuf
  proof -
    have "file_fd k2 fd n" using W(2) s by (simp add: file_fd_def files_def)
    moreover have "unat ?pos < 2 ^ 63" using p(2) cp by simp
    ultimately obtain k3 where L: "sys_lseek k2 fd (uint ?pos) 0 = (uint ?pos, k3)" "fd_pos k3 fd = ?pos" "file_fd k3 fd n" "vfs_state k3 = vfs_state k2"
      "vm k3 = vm k2" "syscall_user_cr3 k3 = syscall_user_cr3 k2"
      by (rule seek_spec)
    have b3: "user_buf k3 rbuf (length data)" using b(1) L(5,6) by (simp add: user_buf_def)
    have c: "fd_contents k3 n = take (unat ?pos) (fd_contents k n) @ data @ drop (unat ?pos + length data) (fd_contents k n)" using W(4) L(4) s(2) by simp
    have "unat (fd_pos k3 fd) + length data \<le> length (fd_contents k3 n)" unfolding L(2) c using p(1) by simp
    then obtain k4 where R: "read_file k3 fd rbuf ?len = (int (length data), k4)"
      "copy_in k4 rbuf (length data) = Some (take (length data) (drop (unat (fd_pos k3 fd)) (fd_contents k3 n)))"
      by (rule read_file_spec [OF L(3) b3])
    have "take (length data) (drop (unat ?pos) (fd_contents k3 n)) = data" unfolding c using p(1) by simp
    moreover have "vmm_user_range_ok (vm k3) rbuf ?len True" using own_range_ok [of "vm k3" rbuf "length data" True] b3 u(3) by (simp add: user_buf_def)
    then have "sys_read_file k3 fd rbuf ?len = (int (length data), k4)"
      using L(3) R(1) b(2) by (simp add: sys_read_file_def file_fd_def)
    ultimately show ?thesis using L(1,2) R(2) by auto
  qed
  then show ?thesis using w W(3,4) by blast
qed

text \<open>A file of two bytes, open for reading and writing, and four bytes in user memory.\<close>

definition demo_vfs :: vfs where
  "demo_vfs = zero_vfs\<lparr>nodes := (nodes zero_vfs)(3 := (nodes zero_vfs 3)\<lparr>nd_type := VFS_NODE_FILE, nd_data := Some (Slot 0), nd_size := 2, nd_capacity := 8\<rparr>)\<rparr>"

definition demo_fio :: kernel where
  "demo_fio = demo_sock\<lparr>vfs_state := demo_vfs, fds := zero_fds\<lparr>task_fd_tables := (\<lambda>_ n. if n = 3 then closed_desc\<lparr>fd_in_use := True, fd_type := FD_FILE,
     fd_flags := 2, fd_vnode := Some 3\<rparr> else closed_desc)\<rparr>\<rparr>"

lemma demo_fio_file: "file_fd demo_fio 3 3" "fd_pos demo_fio 3 = 0" "fd_flags (files demo_fio 3) = 2" "fd_contents demo_fio 3 = [0, 0]"
  "capacity (vfs_state demo_fio) 3 = 8"
proof -
  have i: "inode_of demo_vfs 3 = 3" unfolding inode_of_def demo_vfs_def zero_vfs_def by simp
  have s: "vfs_state demo_fio = demo_vfs" by (simp add: demo_fio_def)
  have fl: "files demo_fio 3 = closed_desc\<lparr>fd_in_use := True, fd_type := FD_FILE, fd_flags := 2, fd_vnode := Some 3\<rparr>"
    by (simp add: demo_fio_def files_def desc_def)
  show "file_fd demo_fio 3 3" unfolding file_fd_def fl s file_ok_def i by (simp add: bad_fd_def vfs_file_is_regular_def demo_vfs_def)
  show "fd_flags (files demo_fio 3) = 2" unfolding fl by simp
  show "fd_pos demo_fio 3 = 0" using fl unfolding fd_pos_def files_slot fd_offset_get_def by (simp add: closed_desc_def)
  show "fd_contents demo_fio 3 = [0, 0]" unfolding s file_bytes_def i by (simp add: data_byte_def demo_vfs_def zero_vfs_def upt_rec)
  show "capacity (vfs_state demo_fio) 3 = 8" unfolding capacity_def s i by (simp add: demo_vfs_def)
qed

theorem file_write_read_witness:
  "\<exists>k1. sys_write (\<lambda>_ k. k) demo_fio demo_frame 3 8 4 = Some (4, k1) \<and> fd_contents k1 3 = [1, 0, 47, 97] \<and> fd_pos k1 3 = 4"
proof -
  let ?d = "[1, 0, 47, 97] :: u8 list"
  have v: "vm demo_fio = vm demo_sock" "syscall_user_cr3 demo_fio = syscall_user_cr3 demo_sock" by (simp_all add: demo_fio_def)
  then have u: "user_bytes demo_fio 8 ?d" using demo_sock_data by (simp add: user_bytes_def copy_in_def)
  have "vmm_user_range_ok (vm demo_sock) 8 (of_nat 4) False"
    using demo_sock_buf [of 8 4] by (intro own_range_ok) (simp_all add: user_buf_def)
  then have r: "vmm_user_range_ok (vm demo_fio) 8 (of_nat (length ?d)) False" using v(1) by simp
  from file_write_read [OF demo_fio_file(1) _ _ u _ _ r, of "\<lambda>_ k. k" demo_frame] show ?thesis
    using demo_fio_file by auto
qed

end
