(* ===== verification/Poll_Spec.thy ===== *)
theory Poll_Spec
  imports Poll Socket_Spec
begin

text \<open>
  What the calls that wait for several descriptors promise. The watches of an \<^verbatim>\<open>epoll\<close> instance
  are a finite map from descriptors to events, and \<^verbatim>\<open>epoll_wait\<close> reports the entries that are
  ready in the state it is called in.
\<close>

section \<open>The watches as a map\<close>

definition interest :: "epoll_state \<Rightarrow> int \<rightharpoonup> u32 \<times> u64" where
  "interest e fd = map_option (\<lambda>i. (ew_events (ep_w e i), ew_data (ep_w e i))) (watch_slot e fd)"

definition watching :: "epoll_state \<Rightarrow> nat set" where
  "watching e = {i. i < 128 \<and> ew_used (ep_w e i)}"

definition watches_ok :: "epoll_state \<Rightarrow> bool" where
  "watches_ok e \<longleftrightarrow> inj_on (\<lambda>i. ew_fd (ep_w e i)) (watching e)"

definition ctl_spec :: "(int \<rightharpoonup> u32 \<times> u64) \<Rightarrow> int \<Rightarrow> int \<Rightarrow> u32 \<times> u64 \<Rightarrow> int \<times> (int \<rightharpoonup> u32 \<times> u64)" where
  "ctl_spec m op fd x =
     (if op = EPOLL_CTL_DEL then (if fd \<in> dom m then (0, m(fd := None)) else (- ENOENT_K, m))
      else if op = EPOLL_CTL_ADD then
        (if fd \<in> dom m then (- EEXIST_K, m) else if card (dom m) = 128 then (- ENOSPC_K, m) else (0, m(fd \<mapsto> x)))
      else if op = EPOLL_CTL_MOD then (if fd \<in> dom m then (0, m(fd \<mapsto> x)) else (- ENOENT_K, m))
      else (- EINVAL, m))"

lemma find_upt_Some: "find P [0..<n] = Some i \<Longrightarrow> i < n \<and> P i"
  by (auto simp: find_Some_iff)

lemma find_upt_None: "find P [0..<n] = None \<longleftrightarrow> (\<forall>i < n. \<not> P i)"
  by (auto simp: find_None_iff)

lemma watch_slot_Some:
  assumes "watches_ok e"
  shows "watch_slot e fd = Some i \<longleftrightarrow> i \<in> watching e \<and> ew_fd (ep_w e i) = fd"
proof
  assume i: "i \<in> watching e \<and> ew_fd (ep_w e i) = fd"
  then obtain j where j: "watch_slot e fd = Some j"
    by (cases "watch_slot e fd") (auto simp: watch_slot_def find_upt_None watching_def)
  then have "j \<in> watching e \<and> ew_fd (ep_w e j) = fd" by (auto simp: watch_slot_def watching_def dest!: find_upt_Some)
  then show "watch_slot e fd = Some i" using i j assms by (auto simp: watches_ok_def dest: inj_onD)
qed (auto simp: watch_slot_def watching_def dest!: find_upt_Some)

lemma watch_slot_None: "watch_slot e fd = None \<longleftrightarrow> (\<forall>i \<in> watching e. ew_fd (ep_w e i) \<noteq> fd)"
  by (auto simp: watch_slot_def find_upt_None watching_def)

lemma interest_Some:
  "watches_ok e \<Longrightarrow> interest e fd = Some x \<longleftrightarrow>
     (\<exists>i \<in> watching e. ew_fd (ep_w e i) = fd \<and> x = (ew_events (ep_w e i), ew_data (ep_w e i)))"
  by (auto simp: interest_def watch_slot_Some)

lemma interest_eqI:
  assumes "watches_ok e" "\<And>fd x. m fd = Some x \<longleftrightarrow> (\<exists>i \<in> watching e. ew_fd (ep_w e i) = fd \<and> x = (ew_events (ep_w e i), ew_data (ep_w e i)))"
  shows "interest e = m"
proof
  fix fd
  show "interest e fd = m fd"
    using interest_Some [OF assms(1), of fd] assms(2) [of fd] by (metis not_None_eq option.exhaust)
qed

lemma interest_dom: "dom (interest e) = (\<lambda>i. ew_fd (ep_w e i)) ` watching e"
  using watch_slot_None [of e] by (force simp: interest_def dom_def)

lemma interest_full:
  assumes "watches_ok e"
  shows "card (dom (interest e)) = 128 \<longleftrightarrow> find (\<lambda>i. \<not> ew_used (ep_w e i)) [0..<YABRO_EPOLL_WATCH_MAX] = None"
proof -
  have "card (dom (interest e)) = card (watching e)"
    using assms by (simp add: interest_dom watches_ok_def card_image)
  moreover have "card (watching e) = 128 \<longleftrightarrow> watching e = {..<128}"
    by (metis card_lessThan card_subset_eq finite_lessThan watching_def mem_Collect_eq lessThan_iff subsetI)
  ultimately show ?thesis by (auto simp: find_upt_None watching_def)
qed

lemma watching_set:
  "i < 128 \<Longrightarrow> watching (set_watch i g e) = (if ew_used (g (ep_w e i)) then insert i (watching e) else watching e - {i})"
  by (auto simp: watching_def set_watch_def)

lemma set_watch_sel: "ep_w (set_watch i g e) j = (if j = i then g (ep_w e i) else ep_w e j)"
  by (simp add: set_watch_def)

lemma step_del:
  assumes ok: "watches_ok e" and i: "watch_slot e fd = Some i"
  defines "e' \<equiv> set_watch i (\<lambda>w. w\<lparr>ew_used := False\<rparr>) e"
  shows "watches_ok e'" "interest e' = (interest e)(fd := None)"
proof -
  have a: "i \<in> watching e" "ew_fd (ep_w e i) = fd" "i < 128" using watch_slot_Some [OF ok] i by (auto simp: watching_def)
  have A: "watching e' = watching e - {i}" using a(3) by (simp add: e'_def watching_set)
  have s: "ew_fd (ep_w e' j) = ew_fd (ep_w e j)" "ew_events (ep_w e' j) = ew_events (ep_w e j)" "ew_data (ep_w e' j) = ew_data (ep_w e j)" for j
    by (simp_all add: e'_def set_watch_sel)
  show w: "watches_ok e'" using ok by (auto simp: watches_ok_def A s intro: inj_on_subset)
  have u: "j = i" if "j \<in> watching e" "ew_fd (ep_w e j) = fd" for j using that a ok by (auto simp: watches_ok_def dest: inj_onD)
  show "interest e' = (interest e)(fd := None)"
  proof (rule interest_eqI [OF w])
    fix fd' x
    show "((interest e)(fd := None)) fd' = Some x \<longleftrightarrow>
        (\<exists>j \<in> watching e'. ew_fd (ep_w e' j) = fd' \<and> x = (ew_events (ep_w e' j), ew_data (ep_w e' j)))"
    proof (cases "fd' = fd")
      case True
      then show ?thesis using u unfolding A s by auto
    next
      case False
      then show ?thesis using a(2) interest_Some [OF ok, of fd' x] unfolding A s by auto
    qed
  qed
qed

lemma step_set:
  assumes ok: "watches_ok e" and i: "i < 128" and new: "\<And>j. j \<in> watching e \<Longrightarrow> ew_fd (ep_w e j) = fd \<Longrightarrow> j = i"
    and old: "i \<in> watching e \<Longrightarrow> ew_fd (ep_w e i) = fd"
    and g: "ew_used (g (ep_w e i))" "ew_fd (g (ep_w e i)) = fd"
  defines "e' \<equiv> set_watch i g e"
  shows "watches_ok e'" "interest e' = (interest e)(fd \<mapsto> (ew_events (g (ep_w e i)), ew_data (g (ep_w e i))))"
proof -
  have A: "watching e' = insert i (watching e)" using i g by (simp add: e'_def watching_set)
  have s: "ep_w e' j = (if j = i then g (ep_w e i) else ep_w e j)" for j by (simp add: e'_def set_watch_sel)
  have n: "ew_fd (ep_w e j) \<noteq> fd" if "j \<in> watching e" "j \<noteq> i" for j using new that by blast
  show w: "watches_ok e'"
    unfolding watches_ok_def A
  proof (rule inj_onI)
    fix j j' assume "j \<in> insert i (watching e)" "j' \<in> insert i (watching e)" "ew_fd (ep_w e' j) = ew_fd (ep_w e' j')"
    then show "j = j'"
      using n [of j] n [of j'] inj_onD [OF ok [unfolded watches_ok_def], of j j'] unfolding s by (auto simp: g(2) split: if_splits)
  qed
  show "interest e' = (interest e)(fd \<mapsto> (ew_events (g (ep_w e i)), ew_data (g (ep_w e i))))"
  proof (rule interest_eqI [OF w])
    fix fd' x
    show "((interest e)(fd \<mapsto> (ew_events (g (ep_w e i)), ew_data (g (ep_w e i))))) fd' = Some x \<longleftrightarrow>
        (\<exists>j \<in> watching e'. ew_fd (ep_w e' j) = fd' \<and> x = (ew_events (ep_w e' j), ew_data (ep_w e' j)))"
    proof (cases "fd' = fd")
      case True
      then show ?thesis using n g(2) unfolding A s by auto
    next
      case False
      then have "j \<noteq> i" if "j \<in> watching e" "ew_fd (ep_w e j) = fd'" for j using old that by blast
      then show ?thesis using False g(2) by (simp add: A s interest_Some [OF ok]) metis
    qed
  qed
qed

lemma ctl_step_refines:
  assumes ok: "watches_ok e" and st: "epoll_ctl_step e op fd ev data = (r, e')"
  shows "watches_ok e'" "ctl_spec (interest e) op fd (ev, data) = (r, interest e')"
proof -
  have d: "fd \<in> dom (interest e) \<longleftrightarrow> watch_slot e fd \<noteq> None" by (simp add: interest_def dom_def)
  consider (del) "op = EPOLL_CTL_DEL" | (add) "op = EPOLL_CTL_ADD" | (mod) "op = EPOLL_CTL_MOD"
    | (bad) "op \<noteq> EPOLL_CTL_DEL" "op \<noteq> EPOLL_CTL_ADD" "op \<noteq> EPOLL_CTL_MOD" by blast
  then have "watches_ok e' \<and> ctl_spec (interest e) op fd (ev, data) = (r, interest e')"
  proof cases
    case del
    then show ?thesis
      using st ok d step_del [OF ok, of fd] by (cases "watch_slot e fd") (auto simp: epoll_ctl_step_def ctl_spec_def)
  next
    case mod
    show ?thesis
    proof (cases "watch_slot e fd")
      case (Some i)
      then have i: "i \<in> watching e" "ew_fd (ep_w e i) = fd" "i < 128" using watch_slot_Some [OF ok] by (auto simp: watching_def)
      have u: "j = i" if "j \<in> watching e" "ew_fd (ep_w e j) = fd" for j
        using watch_slot_Some [OF ok, of fd j] Some that by simp
      have v: "ew_used (ep_w e i)" using i(1) by (simp add: watching_def)
      have "r = 0" "e' = set_watch i (\<lambda>w. w\<lparr>ew_events := ev, ew_data := data\<rparr>) e"
        using mod st Some by (simp_all add: epoll_ctl_step_def)
      then show ?thesis
        using step_set [OF ok i(3) u, where g = "\<lambda>w. w\<lparr>ew_events := ev, ew_data := data\<rparr>"] i v mod Some d by (simp add: ctl_spec_def)
    qed (use mod st ok d in \<open>auto simp: epoll_ctl_step_def ctl_spec_def\<close>)
  next
    case add
    show ?thesis
    proof (cases "watch_slot e fd")
      case None
      then have n: "ew_fd (ep_w e j) \<noteq> fd" if "j \<in> watching e" for j using that by (simp add: watch_slot_None)
      show ?thesis
      proof (cases "find (\<lambda>i. \<not> ew_used (ep_w e i)) [0..<YABRO_EPOLL_WATCH_MAX]")
        case (Some i)
        then have "i < 128" "i \<notin> watching e" by (auto simp: watching_def dest: find_upt_Some)
        moreover have "r = 0" "e' = set_watch i (\<lambda>_. \<lparr>ew_used = True, ew_fd = fd, ew_events = ev, ew_data = data\<rparr>) e"
          using add st None Some by (simp_all add: epoll_ctl_step_def)
        ultimately show ?thesis
          using step_set [OF ok, of i fd "\<lambda>_. \<lparr>ew_used = True, ew_fd = fd, ew_events = ev, ew_data = data\<rparr>"]
            add None Some n d interest_full [OF ok] by (simp add: ctl_spec_def)
      qed (use add st ok None d interest_full [OF ok] in \<open>auto simp: epoll_ctl_step_def ctl_spec_def\<close>)
    qed (use add st ok d in \<open>auto simp: epoll_ctl_step_def ctl_spec_def\<close>)
  qed (use st ok in \<open>auto simp: epoll_ctl_step_def ctl_spec_def\<close>)
  then show "watches_ok e'" "ctl_spec (interest e) op fd (ev, data) = (r, interest e')" by auto
qed

section \<open>Sequences of calls\<close>

text \<open>The event that a call reads at an address.\<close>

definition event_at :: "kernel \<Rightarrow> u64 \<Rightarrow> (u32 \<times> u64) option" where
  "event_at k u = map_option (\<lambda>bs. (ucast (le_word (take 4 bs)), le_word (drop 4 bs))) (copy_in k u 12)"

definition call_spec :: "(u64 \<Rightarrow> (u32 \<times> u64) option) \<Rightarrow> (int \<rightharpoonup> u32 \<times> u64) \<Rightarrow> int \<times> int \<times> u64 \<Rightarrow> int \<times> (int \<rightharpoonup> u32 \<times> u64)" where
  "call_spec ev m x =
     (case x of (op, fd, u) \<Rightarrow>
        if fd < 0 \<or> fd \<ge> 515 then (- EBADF, m)
        else case (if op = EPOLL_CTL_DEL then Some (0, 0) else ev u) of None \<Rightarrow> (- EFAULT, m) | Some e \<Rightarrow> ctl_spec m op fd e)"

definition ctl_call :: "int \<Rightarrow> kernel \<Rightarrow> int \<times> int \<times> u64 \<Rightarrow> int \<times> kernel" where
  "ctl_call epfd k x = (case x of (op, fd, u) \<Rightarrow> sys_epoll_ctl k epfd op fd u)"

lemma epoll_step_used: "epoll_ctl_step e op fd ev data = (r, e') \<Longrightarrow> ep_used e' = ep_used e \<and> ep_refs e' = ep_refs e"
  by (auto simp: epoll_ctl_step_def set_watch_def split: if_splits option.splits)

lemma ctl_spec_del: "ctl_spec m EPOLL_CTL_DEL fd x = ctl_spec m EPOLL_CTL_DEL fd y"
  by (simp add: ctl_spec_def)

lemma set_epoll_files [simp]: "files (on_fds k (\<lambda>s. set_epoll s i g)) fd = files k fd"
  by (simp add: files_def on_fds_def set_epoll_def desc_def current_files_def)

lemma set_epoll_sel [simp]:
  "epolls (set_epoll s i g) j = (if j = i then g (epolls s i) else epolls s j)"
  "fds (on_fds k f) = f (fds k)" "vm (on_fds k f) = vm k" "syscall_user_cr3 (on_fds k f) = syscall_user_cr3 k"
  by (simp_all add: on_fds_def set_epoll_def)

lemma ctl_call_refines:
  assumes i: "epoll_of k epfd = Some i" and ok: "watches_ok (epolls (fds k) i)" and c: "ctl_call epfd k x = (r, k')"
  shows "call_spec (event_at k) (interest (epolls (fds k) i)) x = (r, interest (epolls (fds k') i))"
    and "watches_ok (epolls (fds k') i)" "epoll_of k' epfd = Some i" "event_at k' = event_at k"
    and "\<And>j. j \<noteq> i \<Longrightarrow> epolls (fds k') j = epolls (fds k) j" "files k' = files k"
proof -
  obtain op fd u where x: "x = (op, fd, u)" by (cases x)
  have g: "\<not> (bad_fd epfd \<or> \<not> fd_in_use (files k epfd) \<or> fd_type (files k epfd) \<noteq> FD_EPOLL)"
    and U: "ep_used (epolls (fds k) i)" and P: "fd_private (files k epfd) = Epoll i"
    using i by (auto simp: epoll_of_def split: if_splits private_data.splits)
  let ?bs = "if op = EPOLL_CTL_DEL then Some [] else copy_in k u 12"
  show "call_spec (event_at k) (interest (epolls (fds k) i)) x = (r, interest (epolls (fds k') i))"
    and "watches_ok (epolls (fds k') i)" "epoll_of k' epfd = Some i" "event_at k' = event_at k"
    and "\<And>j. j \<noteq> i \<Longrightarrow> epolls (fds k') j = epolls (fds k) j" "files k' = files k"
  proof (atomize (full), goal_cases)
    case 1
    show ?case
    proof (cases "fd < 0 \<or> fd \<ge> 515 \<or> ?bs = None")
      case True
      then have "k' = k" "call_spec (event_at k) (interest (epolls (fds k) i)) x = (r, interest (epolls (fds k) i))"
        using c g i by (auto simp: x ctl_call_def sys_epoll_ctl_def call_spec_def event_at_def split: if_splits)
      then show ?thesis using ok i by simp
    next
      case False
      then obtain bs where bs: "?bs = Some bs" by blast
      obtain e where e: "epoll_ctl_step (epolls (fds k) i) op fd (ucast (le_word (take 4 bs))) (le_word (drop 4 bs)) = (r, e)"
        "k' = on_fds k (\<lambda>s. set_epoll s i (\<lambda>_. e))"
        using c g i False bs by (auto simp: x ctl_call_def sys_epoll_ctl_def split: prod.splits)
      note R = ctl_step_refines [OF ok e(1)]
      have "(if op = EPOLL_CTL_DEL then Some (0, 0) else event_at k u) =
          Some (if op = EPOLL_CTL_DEL then (0, 0) else (ucast (le_word (take 4 bs)), le_word (drop 4 bs)))"
        using bs by (auto simp: event_at_def split: if_splits)
      then have "call_spec (event_at k) (interest (epolls (fds k) i)) x = (r, interest e)"
        using R(2) False ctl_spec_del [of "interest (epolls (fds k) i)" fd "(0, 0)" "(ucast (le_word (take 4 bs)), le_word (drop 4 bs))"]
        by (auto simp: call_spec_def x)
      moreover have "epoll_of k' epfd = Some i" using g U P epoll_step_used [OF e(1)] by (simp add: epoll_of_def e(2))
      ultimately show ?thesis using R(1) by (auto simp: e(2) event_at_def copy_in_def fun_eq_iff)
    qed
  qed
qed

lemma ctl_run_refines:
  assumes "epoll_of k epfd = Some i" "watches_ok (epolls (fds k) i)" "run_calls (ctl_call epfd) k xs = (rs, k')"
  shows "run_calls (call_spec (event_at k)) (interest (epolls (fds k) i)) xs = (rs, interest (epolls (fds k') i))
     \<and> (\<forall>j. j \<noteq> i \<longrightarrow> epolls (fds k') j = epolls (fds k) j) \<and> files k' = files k"
  using assms
proof (induction xs arbitrary: k rs)
  case (Cons x xs)
  obtain r k1 where c: "ctl_call epfd k x = (r, k1)" by (cases "ctl_call epfd k x")
  obtain rs' where s: "run_calls (ctl_call epfd) k1 xs = (rs', k')" "rs = r # rs'"
    using Cons.prems(3) c by (auto split: prod.splits)
  note R = ctl_call_refines [OF Cons.prems(1,2) c]
  show ?case using Cons.IH [OF R(3,2) s(1)] R(1,4,5,6) s(2) by simp
qed simp

lemma epoll_create_spec:
  assumes "sys_epoll_create1 k flags = (epfd, k1)" "0 \<le> epfd"
  obtains i where "epoll_of k1 epfd = Some i" "\<not> ep_used (epolls (fds k) i)" "i < 4" "watching (epolls (fds k1) i) = {}"
    "\<And>j. j \<noteq> i \<Longrightarrow> epolls (fds k1) j = epolls (fds k) j" "event_at k1 = event_at k" "\<not> fd_in_use (files k epfd)"
    "\<And>fd. fd \<ge> 0 \<Longrightarrow> fd \<noteq> epfd \<Longrightarrow> files k1 fd = files k fd"
proof -
  obtain f i where f: "find_free_fd (fds k) (current_task k) = Some f" "epfd = int f"
    and i: "find (\<lambda>i. \<not> ep_used (epolls (fds k) i)) [0..<YABRO_EPOLL_INSTANCES] = Some i"
    and k1: "k1 = on_fds k (\<lambda>s. set_desc (set_epoll s i (\<lambda>e. clear_watches (e\<lparr>ep_used := True, ep_refs := 1\<rparr>)))
              (current_files s (current_task k), f) (\<lambda>d. d\<lparr>fd_in_use := True, fd_type := FD_EPOLL, fd_flags := flags, fd_private := Epoll i\<rparr>))"
    using assms by (auto simp: sys_epoll_create1_def split: if_splits option.splits)
  have F: "f < 512" "\<not> fd_in_use (files k epfd)" using f by (auto simp: find_free_fd_def files_def dest!: find_upt_Some)
  have I: "i < 4" "\<not> ep_used (epolls (fds k) i)" using i by (auto dest!: find_upt_Some)
  have E: "epolls (fds k1) j = (if j = i then clear_watches ((epolls (fds k) i)\<lparr>ep_used := True, ep_refs := 1\<rparr>) else epolls (fds k) j)" for j
    by (simp add: k1 on_fds_def set_desc_def set_epoll_def)
  have D: "files k1 fd = (if nat fd = f then (files k fd)\<lparr>fd_in_use := True, fd_type := FD_EPOLL, fd_flags := flags, fd_private := Epoll i\<rparr> else files k fd)" for fd
    by (simp add: k1 files_def on_fds_def set_desc_def set_epoll_def desc_def current_files_def)
  show ?thesis
  proof (rule that [of i])
    show "epoll_of k1 epfd = Some i" using F f(2) by (simp add: epoll_of_def bad_fd_def D E clear_watches_def)
    show "watching (epolls (fds k1) i) = {}" by (simp add: watching_def E clear_watches_def)
    show "event_at k1 = event_at k" by (simp add: k1 event_at_def copy_in_def fun_eq_iff)
    show "files k1 fd = files k fd" if "fd \<ge> 0" "fd \<noteq> epfd" for fd using that f(2) by (auto simp: D)
  qed (use F I E in auto)
qed

text \<open>
  C30. The watches of an \<^verbatim>\<open>epoll\<close> instance are a map. After \<^verbatim>\<open>epoll_create1\<close> succeeds, any
  sequence of \<^verbatim>\<open>epoll_ctl\<close> calls on the new descriptor gives the results, errors included, of the same
  sequence of insertions, removals and changes on a map from descriptors to events that starts empty and holds
  at most 128 entries, and the watches of the instance are that map. Other instances and descriptors do not change.
\<close>

theorem epoll_ctl_refines_map:
  assumes "sys_epoll_create1 k flags = (epfd, k1)" "0 \<le> epfd" "run_calls (ctl_call epfd) k1 xs = (rs, k2)"
  shows "\<exists>i. epoll_of k1 epfd = Some i \<and> \<not> ep_used (epolls (fds k) i)
     \<and> run_calls (call_spec (event_at k)) Map.empty xs = (rs, interest (epolls (fds k2) i))
     \<and> (\<forall>j. j \<noteq> i \<longrightarrow> epolls (fds k2) j = epolls (fds k) j) \<and> (\<forall>fd \<ge> 0. fd \<noteq> epfd \<longrightarrow> files k2 fd = files k fd)"
proof -
  obtain i where i: "epoll_of k1 epfd = Some i" "\<not> ep_used (epolls (fds k) i)" "watching (epolls (fds k1) i) = {}"
    "\<And>j. j \<noteq> i \<Longrightarrow> epolls (fds k1) j = epolls (fds k) j" "event_at k1 = event_at k"
    "\<And>fd. fd \<ge> 0 \<Longrightarrow> fd \<noteq> epfd \<Longrightarrow> files k1 fd = files k fd"
    using epoll_create_spec [OF assms(1,2)] by metis
  have ok: "watches_ok (epolls (fds k1) i)" "interest (epolls (fds k1) i) = Map.empty"
    using i(3) interest_dom [of "epolls (fds k1) i"] by (simp_all add: watches_ok_def)
  show ?thesis using ctl_run_refines [OF i(1) ok(1) assms(3)] i ok(2) by (intro exI [of _ i]) simp
qed

section \<open>Looking at input devices\<close>

text \<open>A cursor of an input device belongs to the keyboard or to the mouse.\<close>

definition cursors_typed :: "fd_state \<Rightarrow> bool" where
  "cursors_typed s \<longleftrightarrow> (\<forall>f g i. is_device s f DEV_INPUT \<and> is_device s g DEV_INPUT_MOUSE \<and> fd_input_state (desc s f) = Some i
     \<longrightarrow> fd_input_state (desc s g) \<noteq> Some i)"

definition sans_cursor :: "file_desc \<Rightarrow> file_desc" where
  "sans_cursor d = d\<lparr>fd_input_seq := 0\<rparr>"

definition ready_kbd :: "fd_state \<Rightarrow> slot \<Rightarrow> bool" where
  "ready_kbd s f \<longleftrightarrow> fst (keyboard_fd_ready s f)"

definition ready_mouse :: "fd_state \<Rightarrow> slot \<Rightarrow> bool" where
  "ready_mouse s f \<longleftrightarrow> fst (mouse_fd_ready s f)"

text \<open>The second state differs from the first in cursors, and in nothing that a reader can see of them.\<close>

definition quiet :: "fd_state \<Rightarrow> fd_state \<Rightarrow> bool" where
  "quiet s s' \<longleftrightarrow> sans_cursor \<circ> desc s' = sans_cursor \<circ> desc s \<and> task_fd_table_id s' = task_fd_table_id s
     \<and> task_fd_table_refs s' = task_fd_table_refs s
     \<and> pipes s' = pipes s \<and> pty_slots s' = pty_slots s \<and> unix_sockets s' = unix_sockets s \<and> epolls s' = epolls s
     \<and> eventfds s' = eventfds s \<and> timerfds s' = timerfds s \<and> ready_kbd s' = ready_kbd s \<and> ready_mouse s' = ready_mouse s"

lemma quiet_refl [simp]: "quiet s s" by (simp add: quiet_def)

lemma quiet_trans: "quiet s s' \<Longrightarrow> quiet s' s'' \<Longrightarrow> quiet s s''" by (simp add: quiet_def)

lemma quiet_desc:
  assumes "quiet s s'"
  shows "fd_in_use (desc s' f) = fd_in_use (desc s f)" "fd_type (desc s' f) = fd_type (desc s f)" "fd_flags (desc s' f) = fd_flags (desc s f)"
    "fd_private (desc s' f) = fd_private (desc s f)" "fd_input_state (desc s' f) = fd_input_state (desc s f)"
proof -
  have "sans_cursor (desc s' f) = sans_cursor (desc s f)" using assms by (simp add: quiet_def o_def fun_eq_iff del: split_paired_All)
  from arg_cong [OF this, of fd_in_use] arg_cong [OF this, of fd_type] arg_cong [OF this, of fd_flags]
    arg_cong [OF this, of fd_private] arg_cong [OF this, of fd_input_state]
  show "fd_in_use (desc s' f) = fd_in_use (desc s f)" "fd_type (desc s' f) = fd_type (desc s f)" "fd_flags (desc s' f) = fd_flags (desc s f)"
    "fd_private (desc s' f) = fd_private (desc s f)" "fd_input_state (desc s' f) = fd_input_state (desc s f)"
    by (simp_all add: sans_cursor_def)
qed

lemma quiet_cursors: "quiet s s' \<Longrightarrow> cursors_typed s' = cursors_typed s"
  by (simp add: cursors_typed_def is_device_def quiet_desc)

lemma quiet_live: "quiet s s' \<Longrightarrow> pipe_live s' ty i = pipe_live s ty i"
  by (simp add: pipe_live_def quiet_desc) (simp add: quiet_def)

lemma dev_seq_set:
  "input_fd_seq (input_fd_seq_set s g q) f =
     (if f = g \<or> (\<exists>i. fd_input_state (desc s f) = Some i \<and> fd_input_state (desc s g) = Some i \<and> in_used (input_open_states s i))
      then q else input_fd_seq s f)"
  by (auto simp: input_fd_seq_def input_fd_seq_set_def Let_def set_input_def desc_def set_desc_def prod_eq_iff split: option.split)

lemma dev_seq_shared:
  "fd_input_state (desc s f) = Some i \<Longrightarrow> fd_input_state (desc s g) = Some i \<Longrightarrow> in_used (input_open_states s i) \<Longrightarrow> input_fd_seq s f = input_fd_seq s g"
  by (simp add: input_fd_seq_def)

lemma seq_set_frame:
  "sans_cursor (desc (input_fd_seq_set s g q) f) = sans_cursor (desc s f)" "task_fd_table_id (input_fd_seq_set s g q) = task_fd_table_id s"
  "task_fd_table_refs (input_fd_seq_set s g q) = task_fd_table_refs s"
  "pipes (input_fd_seq_set s g q) = pipes s" "pty_slots (input_fd_seq_set s g q) = pty_slots s" "unix_sockets (input_fd_seq_set s g q) = unix_sockets s"
  "epolls (input_fd_seq_set s g q) = epolls s" "eventfds (input_fd_seq_set s g q) = eventfds s" "timerfds (input_fd_seq_set s g q) = timerfds s"
  "mouse_event_seq (input_fd_seq_set s g q) = mouse_event_seq s" "keyboard_event_seq (input_fd_seq_set s g q) = keyboard_event_seq s"
  "is_device (input_fd_seq_set s g q) f dev = is_device s f dev"
  by (cases f; auto simp: sans_cursor_def is_device_def input_fd_seq_set_def Let_def set_input_def desc_def set_desc_def split: option.split)+

text \<open>The cursor at which the next reader starts.\<close>

definition skip_old :: "u64 \<Rightarrow> u64 \<Rightarrow> u64" where
  "skip_old oldest q = (if q < oldest then oldest else q)"

lemma ready_kbd_iff:
  "ready_kbd s f \<longleftrightarrow> is_device s f DEV_INPUT \<and> skip_old (keyboard_event_oldest_seq s) (input_fd_seq s f) < keyboard_event_seq s"
  by (simp add: ready_kbd_def keyboard_fd_ready_def keyboard_fd_sync_def skip_old_def Let_def seq_set_frame dev_seq_set)

lemma ready_mouse_iff:
  "ready_mouse s f \<longleftrightarrow> is_device s f DEV_INPUT_MOUSE \<and> skip_old (mouse_event_oldest_seq s) (input_fd_seq s f) < mouse_event_seq s"
  by (simp add: ready_mouse_def mouse_fd_ready_def mouse_fd_sync_def skip_old_def Let_def seq_set_frame dev_seq_set)

lemma quiet_seq_set:
  assumes "\<And>f. ready_kbd (input_fd_seq_set s g q) f = ready_kbd s f" "\<And>f. ready_mouse (input_fd_seq_set s g q) f = ready_mouse s f"
  shows "quiet s (input_fd_seq_set s g q)"
  using assms by (simp add: quiet_def seq_set_frame o_def fun_eq_iff del: split_paired_All)

lemma quiet_keyboard:
  assumes "cursors_typed s"
  shows "quiet s (snd (keyboard_fd_ready s g))"
proof (cases "is_device s g DEV_INPUT \<and> input_fd_seq s g < keyboard_event_oldest_seq s")
  case True
  let ?s = "input_fd_seq_set s g (keyboard_event_oldest_seq s)"
  have o: "keyboard_event_oldest_seq ?s = keyboard_event_oldest_seq s" "mouse_event_oldest_seq ?s = mouse_event_oldest_seq s"
    by (simp_all add: keyboard_event_oldest_seq_def mouse_event_oldest_seq_def seq_set_frame)
  have "quiet s ?s"
  proof (rule quiet_seq_set)
    show "ready_kbd ?s f = ready_kbd s f" for f
      using True dev_seq_shared [of s f _ g] by (auto simp: ready_kbd_iff o seq_set_frame dev_seq_set skip_old_def)
    show "ready_mouse ?s f = ready_mouse s f" for f
    proof (cases "is_device s f DEV_INPUT_MOUSE")
      case m: True
      then have "f \<noteq> g" "\<nexists>i. fd_input_state (desc s f) = Some i \<and> fd_input_state (desc s g) = Some i"
        using True assms unfolding cursors_typed_def by (auto simp: is_device_def simp del: split_paired_All)
      then show ?thesis by (auto simp: ready_mouse_iff o seq_set_frame dev_seq_set)
    qed (simp add: ready_mouse_iff seq_set_frame)
  qed
  then show ?thesis using True by (simp add: keyboard_fd_ready_def keyboard_fd_sync_def Let_def)
qed (auto simp: keyboard_fd_ready_def keyboard_fd_sync_def Let_def)

lemma quiet_mouse:
  assumes "cursors_typed s"
  shows "quiet s (snd (mouse_fd_ready s g))"
proof (cases "is_device s g DEV_INPUT_MOUSE \<and> input_fd_seq s g < mouse_event_oldest_seq s")
  case True
  let ?s = "input_fd_seq_set s g (mouse_event_oldest_seq s)"
  have o: "keyboard_event_oldest_seq ?s = keyboard_event_oldest_seq s" "mouse_event_oldest_seq ?s = mouse_event_oldest_seq s"
    by (simp_all add: keyboard_event_oldest_seq_def mouse_event_oldest_seq_def seq_set_frame)
  have "quiet s ?s"
  proof (rule quiet_seq_set)
    show "ready_mouse ?s f = ready_mouse s f" for f
      using True dev_seq_shared [of s f _ g] by (auto simp: ready_mouse_iff o seq_set_frame dev_seq_set skip_old_def)
    show "ready_kbd ?s f = ready_kbd s f" for f
    proof (cases "is_device s f DEV_INPUT")
      case m: True
      then have "f \<noteq> g" "\<nexists>i. fd_input_state (desc s f) = Some i \<and> fd_input_state (desc s g) = Some i"
        using True assms unfolding cursors_typed_def by (auto simp: is_device_def simp del: split_paired_All)
      then show ?thesis by (auto simp: ready_kbd_iff o seq_set_frame dev_seq_set)
    qed (simp add: ready_kbd_iff seq_set_frame)
  qed
  then show ?thesis using True by (simp add: mouse_fd_ready_def mouse_fd_sync_def Let_def)
qed (auto simp: mouse_fd_ready_def mouse_fd_sync_def Let_def)

text \<open>The same of kernels.\<close>

definition calm :: "kernel \<Rightarrow> kernel \<Rightarrow> bool" where
  "calm k k' \<longleftrightarrow> (\<exists>s. quiet (fds k) s \<and> k' = k\<lparr>fds := s\<rparr>)"

lemma calm_refl [simp]: "calm k k"
  unfolding calm_def by (rule exI [of _ "fds k"]) simp

lemma calm_trans: "calm k k' \<Longrightarrow> calm k' k'' \<Longrightarrow> calm k k''"
  using quiet_trans unfolding calm_def by fastforce

lemma input_ready_calm:
  assumes "cursors_typed (fds k)"
  shows "calm k (snd (input_ready k fd d))"
proof -
  have "calm k (k\<lparr>fds := snd (keyboard_fd_ready (fds k) (fd_slot k fd))\<rparr>)" "calm k (k\<lparr>fds := snd (mouse_fd_ready (fds k) (fd_slot k fd))\<rparr>)"
    using quiet_keyboard [OF assms] quiet_mouse [OF assms] unfolding calm_def by blast+
  then show ?thesis by (simp add: input_ready_def split_beta)
qed

lemma calm_files:
  assumes "calm k k'"
  shows "fd_in_use (files k' fd) = fd_in_use (files k fd)" "fd_type (files k' fd) = fd_type (files k fd)"
    "fd_flags (files k' fd) = fd_flags (files k fd)" "fd_private (files k' fd) = fd_private (files k fd)"
    "fd_slot k' fd = fd_slot k fd" "current_task k' = current_task k"
proof -
  have q: "quiet (fds k) (fds k')" and c: "current_task k' = current_task k" using assms by (auto simp: calm_def)
  have t: "current_files (fds k') = current_files (fds k)" using q by (auto simp: current_files_def quiet_def)
  show "fd_in_use (files k' fd) = fd_in_use (files k fd)" "fd_type (files k' fd) = fd_type (files k fd)"
    "fd_flags (files k' fd) = fd_flags (files k fd)" "fd_private (files k' fd) = fd_private (files k fd)"
    "fd_slot k' fd = fd_slot k fd" "current_task k' = current_task k"
    using quiet_desc [OF q] by (simp_all add: files_def fd_slot_def c t)
qed

lemma calm_sel:
  assumes "calm k k'"
  shows "pipe k' i = pipe k i" "sock k' i = sock k i" "pipe_live (fds k') ty i = pipe_live (fds k) ty i" "pty_slots (fds k') = pty_slots (fds k)"
    "eventfds (fds k') = eventfds (fds k)" "timerfds (fds k') = timerfds (fds k)" "epolls (fds k') = epolls (fds k)"
    "console_tty_read_ready_for c k' = console_tty_read_ready_for c k" "cur k' = cur k" "tasks k' = tasks k" "vm k' = vm k"
    "syscall_user_cr3 k' = syscall_user_cr3 k"
proof -
  have q: "quiet (fds k) (fds k')" using assms by (auto simp: calm_def)
  show "pipe k' i = pipe k i" "sock k' i = sock k i" "pipe_live (fds k') ty i = pipe_live (fds k) ty i" "pty_slots (fds k') = pty_slots (fds k)"
    "eventfds (fds k') = eventfds (fds k)" "timerfds (fds k') = timerfds (fds k)" "epolls (fds k') = epolls (fds k)"
    using q quiet_live [OF q] by (simp_all add: quiet_def pipe_def sock_def)
  show "console_tty_read_ready_for c k' = console_tty_read_ready_for c k" "cur k' = cur k" "tasks k' = tasks k" "vm k' = vm k"
    "syscall_user_cr3 k' = syscall_user_cr3 k"
    using assms by (auto simp: calm_def console_tty_read_ready_for_def cur_def fun_eq_iff)
qed

lemma input_ready_fst:
  "fst (input_ready k fd d) \<longleftrightarrow> (d = DEV_INPUT \<and> ready_kbd (fds k) (fd_slot k fd)) \<or> (d = DEV_INPUT_MOUSE \<and> ready_mouse (fds k) (fd_slot k fd))"
  by (auto simp: input_ready_def ready_kbd_def ready_mouse_def split: prod.split)

lemma input_ready_same: "calm k k' \<Longrightarrow> fst (input_ready k' fd d) = fst (input_ready k fd d)"
  using calm_files(5) [of k k' fd] by (auto simp: input_ready_fst calm_def quiet_def)

section \<open>Reports\<close>

lemma epoll_ready_calm:
  assumes "cursors_typed (fds k)"
  shows "calm k (snd (epoll_is_ready c clk k fd ev))"
  using input_ready_calm [OF assms, of fd]
  by (auto simp: epoll_is_ready_def Let_def split_beta split: fd_type.split private_data.split)

lemma epoll_ready_same:
  assumes "calm k k'"
  shows "fst (epoll_is_ready c clk k' fd ev) = fst (epoll_is_ready c clk k fd ev)"
  by (simp add: epoll_is_ready_def Let_def split_beta calm_files [OF assms] calm_sel [OF assms] input_ready_same [OF assms]
      split: fd_type.split private_data.split)

text \<open>The events of a watch, and the reports of the watches that have any, in the order of the array.\<close>

definition watch_events :: "console_pending \<Rightarrow> (int \<Rightarrow> u64) \<Rightarrow> kernel \<Rightarrow> epoll_watch \<Rightarrow> u32" where
  "watch_events c clk k w = (if ew_used w then fst (epoll_is_ready c clk k (ew_fd w) (ew_events w)) else 0)"

definition reports :: "console_pending \<Rightarrow> (int \<Rightarrow> u64) \<Rightarrow> kernel \<Rightarrow> nat \<Rightarrow> nat list \<Rightarrow> (u32 \<times> u64) list" where
  "reports c clk k e js =
     [(watch_events c clk k w, ew_data w). w \<leftarrow> map (ep_w (epolls (fds k) e)) js, watch_events c clk k w \<noteq> 0]"

lemma epoll_scan_reports:
  assumes "cursors_typed (fds k0)" "calm k0 k"
  shows "\<exists>nt k'. epoll_scan c clk m k e js room next_timer = (take room (reports c clk k0 e js), nt, k') \<and> calm k0 k'"
  using assms(2)
proof (induction js arbitrary: k room next_timer)
  case (Cons i js)
  define w where "w = ep_w (epolls (fds k0) e) i"
  have w: "ep_w (epolls (fds k) e) i = w" using calm_sel(7) [OF Cons.prems] by (simp add: w_def)
  obtain rev k1 where r: "epoll_is_ready c clk k (ew_fd w) (ew_events w) = (rev, k1)" by fastforce
  have "cursors_typed (fds k)" using Cons.prems assms(1) quiet_cursors by (auto simp: calm_def)
  then have k1: "calm k0 k1" using epoll_ready_calm [of k c clk "ew_fd w" "ew_events w"] calm_trans [OF Cons.prems] by (simp add: r)
  have rev: "fst (epoll_is_ready c clk k0 (ew_fd w) (ew_events w)) = rev" using epoll_ready_same [OF Cons.prems, of c clk "ew_fd w" "ew_events w"] by (simp add: r)
  have R: "reports c clk k0 e (i # js) = (if ew_used w \<and> rev \<noteq> 0 then [(rev, ew_data w)] else []) @ reports c clk k0 e js"
    using rev by (auto simp: reports_def watch_events_def w_def [symmetric])
  show ?case
  proof (cases "room = 0 \<or> \<not> ew_used w \<or> rev = 0")
    case True
    then show ?thesis using Cons.IH [OF Cons.prems] Cons.IH [OF k1] Cons.prems R by (auto simp: w r Let_def)
  next
    case False
    obtain nt k' where "epoll_scan c clk m k1 e js (room - 1)
        (if ew_events w AND EPOLLIN \<noteq> 0 then earlier (timerfd_monotonic_deadline clk k (ew_fd w) m) next_timer else next_timer) =
        (take (room - 1) (reports c clk k0 e js), nt, k')" "calm k0 k'"
      using Cons.IH [OF k1] by metis
    then show ?thesis using False R by (auto simp: w r Let_def take_Cons' split: if_splits)
  qed
qed (use assms in \<open>auto simp: reports_def\<close>)

lemma resume_clear_sel [simp]:
  "vm (task_io_resume_clear k sf nr) = vm k" "syscall_user_cr3 (task_io_resume_clear k sf nr) = syscall_user_cr3 k"
  "fds (task_io_resume_clear k sf nr) = fds k"
  by (simp_all add: task_io_resume_clear_def set_task_def)

lemma event_bytes_length: "length (concat (map epoll_event_bytes out)) = 12 * length out"
  by (induction out) (simp_all add: epoll_event_bytes_def le_bytes_def)

lemma epoll_wait_scan:
  assumes "epoll_of k epfd = Some e" "0 < maxevents" "maxevents \<le> 256" "cursors_typed (fds k)"
    and out: "out = take (nat maxevents) (reports c clk k e [0..<128])"
  obtains nr k1 where "calm k k1"
    "out \<noteq> [] \<Longrightarrow> sys_epoll_wait tick c clk now k sf epfd uevents maxevents timeout =
       (let (ok, k) = copy_out (task_io_resume_clear k1 sf nr) uevents (concat (map epoll_event_bytes out)) in
        Some (if ok then int (length out) else - EFAULT, k))"
    "out = [] \<Longrightarrow> timeout = 0 \<Longrightarrow> sys_epoll_wait tick c clk now k sf epfd uevents maxevents timeout = Some (0, task_io_resume_clear k1 sf nr)"
proof -
  obtain nt k1 where s: "epoll_scan c clk (now 1) k e [0..<128] (nat maxevents) 0 = (out, nt, k1)" "calm k k1"
    using epoll_scan_reports [OF assms(4) calm_refl] unfolding out by metis
  have b: "\<not> bad_fd epfd" "fd_in_use (files k epfd)" "fd_type (files k epfd) = FD_EPOLL"
    using assms(1) by (auto simp: epoll_of_def split: if_splits)
  show ?thesis
    by (rule that [OF s(2), where nr = "if fr_rax sf = 281 then 281 else 232"])
       (use b assms(1-3) s(1) in \<open>simp_all add: sys_epoll_wait_def Let_def\<close>)
qed

text \<open>
  \<^verbatim>\<open>epoll_wait\<close> reports what is ready. For an open instance and 1 to 256 events the call returns,
  when a watch has events in the state it starts in, the number of such watches or \<^verbatim>\<open>maxevents\<close> if there
  are more, and stores exactly their events and data, in the order of the array, behind each other at the given
  address, at most 128 of them. When no watch has events and the timeout is 0 it returns 0 and writes nothing.
  Looking at the watches changes nothing that a later call could see.
\<close>

theorem epoll_wait_reports:
  assumes "epoll_of k epfd = Some e" "0 < maxevents" "maxevents \<le> 256" "cursors_typed (fds k)"
    and out: "out = take (nat maxevents) (reports c clk k e [0..<128])"
    and buf: "user_buf k uevents (12 * length out)"
  shows "length out \<le> 128
     \<and> (out \<noteq> [] \<longrightarrow> (\<exists>k'. sys_epoll_wait tick c clk now k sf epfd uevents maxevents timeout = Some (int (length out), k')
          \<and> stored (vm k) (unat uevents) (concat (map epoll_event_bytes out)) (vm k') \<and> quiet (fds k) (fds k')))
     \<and> (out = [] \<and> timeout = 0 \<longrightarrow> (\<exists>k'. sys_epoll_wait tick c clk now k sf epfd uevents maxevents timeout = Some (0, k')
          \<and> vm k' = vm k \<and> quiet (fds k) (fds k')))"
proof -
  obtain nr k1 where k1: "calm k k1" and r:
    "out \<noteq> [] \<Longrightarrow> sys_epoll_wait tick c clk now k sf epfd uevents maxevents timeout =
       (let (ok, k) = copy_out (task_io_resume_clear k1 sf nr) uevents (concat (map epoll_event_bytes out)) in
        Some (if ok then int (length out) else - EFAULT, k))"
    "out = [] \<Longrightarrow> timeout = 0 \<Longrightarrow> sys_epoll_wait tick c clk now k sf epfd uevents maxevents timeout = Some (0, task_io_resume_clear k1 sf nr)"
    by (rule epoll_wait_scan [OF assms(1-4) out, of tick now sf uevents timeout]) (erule that; blast)
  have q: "quiet (fds k) (fds k1)" using k1 by (auto simp: calm_def)
  let ?k = "task_io_resume_clear k1 sf nr"
  have "user_buf ?k uevents (12 * length out)" using buf calm_sel(11,12) [OF k1] by (simp add: user_buf_def)
  from copy_out_stored [OF this, of 0 "concat (map epoll_event_bytes out)"]
  obtain v where v: "copy_out ?k uevents (concat (map epoll_event_bytes out)) = (True, ?k\<lparr>vm := v\<rparr>)"
    "stored (vm k) (unat uevents) (concat (map epoll_event_bytes out)) v"
    using event_bytes_length [of out] calm_sel(11) [OF k1] by auto
  have 1: "\<exists>k'. sys_epoll_wait tick c clk now k sf epfd uevents maxevents timeout = Some (int (length out), k')
       \<and> stored (vm k) (unat uevents) (concat (map epoll_event_bytes out)) (vm k') \<and> quiet (fds k) (fds k')" if "out \<noteq> []"
    using that r(1) v q by simp
  have 2: "\<exists>k'. sys_epoll_wait tick c clk now k sf epfd uevents maxevents timeout = Some (0, k')
       \<and> vm k' = vm k \<and> quiet (fds k) (fds k')" if "out = []" "timeout = 0"
    using that r(2) q calm_sel(11) [OF k1] by simp
  have "length (reports c clk k e js) \<le> length js" for js
    by (induction js) (auto simp: reports_def)
  from this [of "[0..<128]"] have "length out \<le> 128" by (simp add: out)
  then show ?thesis using 1 2 by blast
qed

section \<open>Deadlines\<close>

lemma poll_fd_keeps: "poll_fd c clk m k fd ev = (rv, td, k') \<Longrightarrow> tasks k' = tasks k \<and> current_task k' = current_task k"
  by (auto simp: poll_fd_def poll_desc_def input_ready_def Let_def split_beta split: if_splits fd_type.splits private_data.splits)

lemma poll_copy_tasks:
  assumes "copy_out k a bs = (ok, k')"
  shows "tasks k' = tasks k \<and> current_task k' = current_task k"
proof -
  obtain r v where "user_copy_to (vm k) (syscall_user_cr3 k) a bs = (r, v)" by fastforce
  then have "k' = k\<lparr>vm := v\<rparr>" using assms unfolding copy_out_def by simp
  then show ?thesis by simp
qed

lemma poll_scan_keeps: "poll_scan c clk m k u n r nt = (x, k') \<Longrightarrow> tasks k' = tasks k \<and> current_task k' = current_task k"
proof (induction n arbitrary: k u r nt)
  case (Suc n)
  show ?case
  proof (cases "copy_in k u 8")
    case (Some p)
    obtain rev td k1 where f: "poll_fd c clk m k (int_at (take 4 p)) (ucast (le_word (take 2 (drop 4 p)))) = (rev, td, k1)"
      by (metis prod_cases3)
    obtain ok k2 where o: "copy_out k1 u (take 6 p @ le_bytes 2 (ucast rev)) = (ok, k2)" by fastforce
    have "tasks k2 = tasks k1 \<and> current_task k2 = current_task k1" by (rule poll_copy_tasks [OF o])
    then have t: "tasks k2 = tasks k \<and> current_task k2 = current_task k" using poll_fd_keeps [OF f] by simp
    show ?thesis
    proof (cases ok)
      case True
      then have "poll_scan c clk m k2 (u + 8) n (if rev \<noteq> 0 then Suc r else r) (earlier td nt) = (x, k')"
        using Suc.prems by (simp add: Some f o)
      from Suc.IH [OF this] show ?thesis using t by simp
    qed (use Suc.prems t in \<open>simp add: Some f o\<close>)
  qed (use Suc.prems in simp)
qed simp

definition resume_of :: "task \<Rightarrow> bool \<times> u64 \<times> u64 \<times> u64 \<times> u64" where
  "resume_of t = (tk_io_resume_valid t, tk_io_resume_nr t, tk_io_resume_rip t, tk_io_resume_start_ns t, tk_io_resume_deadline_ns t)"

lemma resume_stored: "current_task k < MAX_TASKS \<Longrightarrow> resume_of (cur (task_io_resume_store k sf nr st d)) = (True, nr, fr_user_rip sf, st, d)"
  by (simp add: resume_of_def task_io_resume_store_def cur_def)

text \<open>A task that goes to sleep while another one can run.\<close>

lemma wait_again_sleeps:
  assumes "current_task k < MAX_TASKS" "nice_ok k" "runnable k j" "j < MAX_TASKS" "j \<noteq> current_task k"
  obtains k' where "wait_again tick k sf kind nr st d w = Some (0, k')"
    "tasks k' (current_task k) = io_sleep k sf kind nr w (tasks (task_io_resume_store k sf nr st d) (current_task k))"
proof -
  let ?ti = "current_task k"
  let ?k1 = "task_io_resume_store k sf nr st d"
  let ?k2 = "set_task ?k1 ?ti (io_sleep ?k1 sf kind nr w)"
  have c: "current_task ?k1 = ?ti" by (simp add: task_io_resume_store_def)
  have n: "nice_ok ?k2" using assms(2) by (simp add: nice_ok_def task_io_resume_store_def io_sleep_def task_save_from_frame_def Let_def)
  have "runnable ?k2 j" using assms(3,5) by (simp add: task_io_resume_store_def)
  then obtain b where b: "task_pick_next ?k2 = Some b" using pick_next_None [OF n _ assms(4)] by blast
  have "b \<noteq> ?ti" using pick_next_Some [OF n b] by (auto simp: io_sleep_def Let_def)
  moreover have "io_sleep ?k1 sf kind nr w = io_sleep k sf kind nr w"
    by (simp add: fun_eq_iff io_sleep_def task_save_from_frame_def task_io_resume_store_def set_task_def)
  ultimately have "tasks (switch_to ?k2 b) ?ti = io_sleep k sf kind nr w (tasks ?k1 ?ti)"
    by (simp add: switch_to_def task_account_switch_def Let_def)
  then show ?thesis
    using that [of "switch_to ?k2 b"] assms(1) b by (simp add: wait_again_def task_block_io_until_def c Let_def)
qed

lemma earlier_le: "d \<noteq> 0 \<Longrightarrow> earlier td d \<noteq> 0 \<and> earlier td d \<le> d"
  by (auto simp: earlier_def)

lemma timed_wake_sleeper:
  assumes "tk_used t" "tk_futex_addr t = 0" "w \<noteq> 0" "w \<le> x" "kind \<noteq> IO_WAIT_NONE"
  shows "tk_state (timed_wake x (io_sleep k sf kind nr w t)) = TASK_RUNNABLE"
    "cx_rax (tk_ctx (timed_wake x (io_sleep k sf kind nr w t))) = nr"
    "resume_of (timed_wake x (io_sleep k sf kind nr w t)) = resume_of t"
  using assms by (simp_all add: timed_wake_def io_sleep_def task_save_from_frame_def resume_of_def Let_def)

text \<open>An execution of \<^verbatim>\<open>poll\<close> that finds nothing ready.\<close>

lemma sys_poll_idle:
  assumes "nfds \<le> 512" "timeout \<noteq> 0" "fr_rax sf = 7" "poll_scan c clk (now 1) k ufds (unat nfds) 0 0 = (Some (0, nt), k1)"
    and "st = (if task_io_resume_matches k sf 7 then tk_io_resume_start_ns (cur k) else now 0)"
    and "D = (if task_io_resume_matches k sf 7 then tk_io_resume_deadline_ns (cur k) else monotonic_deadline_after_ms st timeout)"
  shows "sys_poll tick c clk now k sf ufds nfds timeout =
    (if D \<noteq> 0 \<and> now 2 \<ge> D then Some (0, task_io_resume_clear k1 sf 7) else wait_again tick k1 sf IO_WAIT_POLL 7 st D (earlier nt D))"
proof -
  have nr: "(if fr_rax sf = 271 then 271 else 7) = (7 :: u64)" using assms(3) by simp
  have "\<not> nfds > 512" using assms(1) by (simp add: not_less)
  then show ?thesis
    unfolding sys_poll_def Let_def nr assms(5) [symmetric] assms(6) [symmetric] assms(4) using assms(2) by (simp only: if_False prod.case option.case) simp
qed

text \<open>
  C40. A \<^verbatim>\<open>poll\<close> with a timeout ends in time. When no descriptor is ready the first execution of the call
  puts the task to sleep and remembers the deadline. Every timer interrupt from the deadline on makes the task
  runnable and has the call executed again, and however often and at what time it is executed again, with
  whatever clocks and descriptors, it returns 0 as soon as the deadline has passed and nothing is ready: the
  deadline is that of the first execution.
\<close>

theorem poll_times_out:
  assumes n: "nfds \<le> 512" and t: "0 < timeout" and k: "current_task k < MAX_TASKS" "nice_ok k" "tk_used (cur k)" "tk_futex_addr (cur k) = 0"
    and other: "runnable k j" "j < MAX_TASKS" "j \<noteq> current_task k"
    and first: "\<not> task_io_resume_matches k sf 7" "fr_rax sf = 7"
    and idle: "fst (poll_scan c clk (now 1) k ufds (unat nfds) 0 0) = Some (0, nt)"
    and D: "D = monotonic_deadline_after_ms (now 0) timeout" "now 2 < D"
  shows "\<exists>k'. sys_poll tick c clk now k sf ufds nfds timeout = Some (0, k')
     \<and> (let s = tasks k' (current_task k) in tk_state s = TASK_BLOCKED
       \<and> (\<forall>x \<ge> D. tk_state (timed_wake x s) = TASK_RUNNABLE \<and> cx_rax (tk_ctx (timed_wake x s)) = 7 \<and> resume_of (timed_wake x s) = resume_of s)
       \<and> (\<forall>k2 sf2 c2 clk2 now2 nt2 tick2. current_task k2 = current_task k \<and> resume_of (cur k2) = resume_of s
            \<and> fr_user_rip sf2 = fr_user_rip sf \<and> fr_rax sf2 = 7 \<and> fst (poll_scan c2 clk2 (now2 1) k2 ufds (unat nfds) 0 0) = Some (0, nt2)
            \<and> D \<le> now2 2 \<longrightarrow> (\<exists>k3. sys_poll tick2 c2 clk2 now2 k2 sf2 ufds nfds timeout = Some (0, k3) \<and> tasks k3 (current_task k) =
              (cur k2)\<lparr>tk_io_resume_valid := False, tk_io_resume_nr := 0, tk_io_resume_rip := 0, tk_io_resume_start_ns := 0, tk_io_resume_deadline_ns := 0\<rparr>)))"
proof -
  let ?ti = "current_task k"
  obtain k1 where p: "poll_scan c clk (now 1) k ufds (unat nfds) 0 0 = (Some (0, nt), k1)"
    using idle by (metis fst_conv prod.collapse)
  have k1: "tasks k1 = tasks k" "current_task k1 = ?ti" using poll_scan_keeps [OF p] by simp_all
  have D0: "D \<noteq> 0" using D(2) by auto
  define w where "w = earlier nt D"
  have w: "w \<noteq> 0" "w \<le> D" using earlier_le [OF D0] by (simp_all add: w_def)
  have 1: "nice_ok k1" using k(2) by (simp add: nice_ok_def k1)
  have 2: "runnable k1 j" using other(1) by (simp add: k1)
  obtain k' where s: "wait_again tick k1 sf IO_WAIT_POLL 7 (now 0) D w = Some (0, k')"
    "tasks k' ?ti = io_sleep k1 sf IO_WAIT_POLL 7 w (tasks (task_io_resume_store k1 sf 7 (now 0) D) ?ti)"
    using wait_again_sleeps [of k1 j tick sf IO_WAIT_POLL 7 "now 0" D w] k(1) 1 2 other(2,3) by (auto simp: k1)
  have st: "now 0 = (if task_io_resume_matches k sf 7 then tk_io_resume_start_ns (cur k) else now 0)"
    and d: "D = (if task_io_resume_matches k sf 7 then tk_io_resume_deadline_ns (cur k) else monotonic_deadline_after_ms (now 0) timeout)"
    using first(1) D(1) by simp_all
  have "\<not> (D \<noteq> 0 \<and> now 2 \<ge> D)" "timeout \<noteq> 0" using D(2) t by auto
  then have run: "sys_poll tick c clk now k sf ufds nfds timeout = Some (0, k')"
    using sys_poll_idle [where now = now and tick = tick, OF n _ first(2) p st d] s(1) unfolding w_def by (simp only: if_False not_False_eq_True)
  define t0 where "t0 = tasks (task_io_resume_store k1 sf 7 (now 0) D) ?ti"
  have t0: "tk_used t0" "tk_futex_addr t0 = 0" "resume_of t0 = (True, 7, fr_user_rip sf, now 0, D)"
    using k by (simp_all add: t0_def task_io_resume_store_def k1 cur_def resume_of_def)
  have S: "tasks k' ?ti = io_sleep k1 sf IO_WAIT_POLL 7 w t0" by (simp add: s(2) t0_def)
  have R: "resume_of (tasks k' ?ti) = (True, 7, fr_user_rip sf, now 0, D)"
    using t0(3) by (simp add: S resume_of_def io_sleep_def task_save_from_frame_def Let_def)
  have again: "\<exists>k3. sys_poll tick2 c2 clk2 now2 k2 sf2 ufds nfds timeout = Some (0, k3) \<and> tasks k3 ?ti =
      (cur k2)\<lparr>tk_io_resume_valid := False, tk_io_resume_nr := 0, tk_io_resume_rip := 0, tk_io_resume_start_ns := 0, tk_io_resume_deadline_ns := 0\<rparr>"
    if A: "current_task k2 = ?ti" "resume_of (cur k2) = resume_of (tasks k' ?ti)" "fr_user_rip sf2 = fr_user_rip sf" "fr_rax sf2 = 7"
      "fst (poll_scan c2 clk2 (now2 1) k2 ufds (unat nfds) 0 0) = Some (0, nt2)" "D \<le> now2 2" for k2 sf2 c2 clk2 now2 nt2 tick2
  proof -
    obtain k3 where q: "poll_scan c2 clk2 (now2 1) k2 ufds (unat nfds) 0 0 = (Some (0, nt2), k3)" using A(5) by (metis fst_conv prod.collapse)
    have k3: "tasks k3 = tasks k2" "current_task k3 = ?ti" using poll_scan_keeps [OF q] A(1) by simp_all
    have r: "tk_io_resume_valid (cur k2)" "tk_io_resume_nr (cur k2) = 7" "tk_io_resume_rip (cur k2) = fr_user_rip sf2" "tk_io_resume_deadline_ns (cur k2) = D"
      using A(2,3) R by (simp_all add: resume_of_def)
    then have m: "task_io_resume_matches k2 sf2 7" "task_io_resume_matches k3 sf2 7"
      using k(1) A(1) by (simp_all add: task_io_resume_matches_def cur_def k3)
    have "sys_poll tick2 c2 clk2 now2 k2 sf2 ufds nfds timeout = Some (0, task_io_resume_clear k3 sf2 7)"
      using sys_poll_idle [where now = now2, OF n _ A(4) q refl refl, of timeout tick2] t A(6) m r(4) D0 by simp
    then show ?thesis using m(2) A(1) by (simp add: task_io_resume_clear_def k3 cur_def)
  qed
  have "tk_state (tasks k' ?ti) = TASK_BLOCKED" by (simp add: S io_sleep_def Let_def)
  moreover have "tk_state (timed_wake x (tasks k' ?ti)) = TASK_RUNNABLE \<and> cx_rax (tk_ctx (timed_wake x (tasks k' ?ti))) = 7
      \<and> resume_of (timed_wake x (tasks k' ?ti)) = resume_of (tasks k' ?ti)" if "D \<le> x" for x
    using timed_wake_sleeper [OF t0(1,2) w(1), of x IO_WAIT_POLL k1 sf 7] w(2) that t0(3) R by (simp add: S)
  ultimately show ?thesis using run again unfolding Let_def by (intro exI [of _ k']) blast
qed

section \<open>A concrete state\<close>

lemma demo_sock_event: "event_at demo_sock 8 = Some (0x612F0001, 0)"
proof -
  let ?b = "[1, 0, 47, 97] @ replicate 8 0 :: u8 list"
  have l: "length ?b = 12" by simp
  have n: "?b ! j = (if j < 4 then [1, 0, 47, 97] ! j else 0)" if "j < length ?b" for j
    using that nth_append [of "[1, 0, 47, 97]" "replicate 8 (0 :: u8)" j] unfolding l by (simp del: append_Cons append_Nil)
  have B: "user_byte (vm demo_sock) (unat (8 :: u64) + j) = Some (?b ! j)" if "j < length ?b" for j
    using demo_sock_byte [of j] that unfolding n [OF that] l by simp
  have "length ?b \<le> 12" unfolding l by (rule order_refl)
  from copy_in_stored [OF demo_sock_buf [of 8 12] this B] have "copy_in demo_sock 8 (length ?b) = Some ?b" by simp
  then have "copy_in demo_sock 8 12 = Some ?b" unfolding l .
  moreover have "replicate 8 0 = [0, 0, 0, 0, 0, 0, 0, 0 :: u8]" by (simp add: eval_nat_numeral)
  ultimately show ?thesis by (simp add: event_at_def)
qed

theorem epoll_ctl_refines_map_witness:
  "\<exists>k1. sys_epoll_create1 demo_sock 0 = (0, k1) \<and> fst (run_calls (ctl_call 0) k1 [(1, 5, 8), (1, 5, 8), (2, 5, 0), (3, 5, 8), (1, 600, 8)]) = [0, -17, 0, -2, -9]"
proof -
  have "find_free_fd (fds demo_sock) (current_task demo_sock) = Some 0"
    using demo_sock_sel(4) [of 0] by (simp add: find_free_fd_def upt_conv_Cons demo_sock_sel closed_desc_def)
  moreover have "\<not> ep_used (epolls (fds demo_sock) 0)" by (simp add: demo_sock_def zero_fds_def)
  ultimately obtain k1 where c: "sys_epoll_create1 demo_sock 0 = (0, k1)" by (simp add: sys_epoll_create1_def upt_conv_Cons)
  let ?xs = "[(1, 5, 8), (1, 5, 8), (2, 5, 0), (3, 5, 8), (1, 600, 8)] :: (int \<times> int \<times> u64) list"
  obtain rs k2 where r: "run_calls (ctl_call 0) k1 ?xs = (rs, k2)" by fastforce
  obtain m where "run_calls (call_spec (event_at demo_sock)) Map.empty ?xs = (rs, m)"
    using epoll_ctl_refines_map [OF c _ r] by auto
  then have "rs = [0, -17, 0, -2, -9]" by (simp add: call_spec_def ctl_spec_def demo_sock_event)
  then show ?thesis using c r by simp
qed

definition demo_poll :: kernel where
  "demo_poll = demo_kernel\<lparr>tasks := \<lambda>i. (tasks demo_kernel i)\<lparr>tk_used := i < 2\<rparr>\<rparr>"

theorem poll_times_out_witness:
  "\<exists>k'. sys_poll (\<lambda>_ k. k) \<lparr>cp_pos = 0, cp_len = 0, cp_pid = -1\<rparr> (\<lambda>_. 0) (\<lambda>_. 1) demo_poll (demo_frame\<lparr>fr_rax := 7\<rparr>) 0 0 5 = Some (0, k')
     \<and> tk_state (tasks k' 0) = TASK_BLOCKED \<and> tk_state (timed_wake 5000001 (tasks k' 0)) = TASK_RUNNABLE"
proof -
  have s: "current_task demo_poll = 0" "tk_used (cur demo_poll)" "tk_futex_addr (cur demo_poll) = 0" "nice_ok demo_poll"
    "tk_used (tasks demo_poll 1)" "tk_state (tasks demo_poll 1) = TASK_RUNNABLE" "\<not> tk_io_resume_valid (cur demo_poll)"
    by (simp_all add: demo_poll_def demo_kernel_def demo_task_def cur_def nice_ok_def)
  have d: "5000001 = monotonic_deadline_after_ms 1 5" by (simp add: monotonic_deadline_after_ms_def)
  show ?thesis
    using poll_times_out [of 0 5 demo_poll 1 "demo_frame\<lparr>fr_rax := 7\<rparr>" "\<lparr>cp_pos = 0, cp_len = 0, cp_pid = -1\<rparr>" "\<lambda>_. 0" "\<lambda>_. 1" 0 0 5000001 "\<lambda>_ k. k"] s d
    by (auto simp: task_io_resume_matches_def Let_def)
qed

end
