(* ===== verification/Spec2Isabelle.thy ===== *)
theory Spec2Isabelle
  imports Mmap_Spec Fd_Spec Fd_Calls Tty_Spec Pipe_Spec Proc_Spec Socket_Spec Exec_Spec File_Spec Poll_Spec
begin

text \<open>
  YabroOS-32: a verification library for the kernel of a small Unix-like system for x86-64.

  \<^bold>\<open>The program.\<close> The kernel under \<^verbatim>\<open>src/src/kernel\<close> has four parts in C.
  \<^verbatim>\<open>pmm.c\<close> hands out physical pages and counts the references to them. \<^verbatim>\<open>vmm.c\<close>
  builds the four-level page tables of the user address spaces from these pages, clones them for
  \<^verbatim>\<open>fork\<close> with copy-on-write and answers whether a user range may be accessed.
  \<^verbatim>\<open>vfs.c\<close> keeps the tree of files, directories and mounted file systems in static
  arrays. \<^verbatim>\<open>main.c\<close> holds the task table, the scheduler and the system calls, and calls the
  other three; \<^verbatim>\<open>main.rs\<close> drives the console and the framebuffer.

  \<^bold>\<open>Theories.\<close>
  \<^item> \<^verbatim>\<open>Prelude\<close>: words and page arithmetic, the collections \<open>page_simps\<close> and
    \<open>frame_simps\<close>.
  \<^item> \<^verbatim>\<open>Pmm\<close>, \<^verbatim>\<open>Pmm_Boot\<close>, \<^verbatim>\<open>Pmm_Spec\<close>: the file-scope variables of
    \<^verbatim>\<open>pmm.c\<close> as the record \<open>pmm\<close> and each of its functions; the bitmaps are functions
    from word index to word, so that the bit arithmetic of the code is kept. The scans of
    \<^verbatim>\<open>pmm_alloc_page\<close> end because the address grows; the walk of the boot page tables is
    bounded by its depth. The locale \<open>page_pool\<close> states what an allocator promises (pages,
    reference counts, free set) and is interpreted on the model as \<open>pmm_pool\<close>.
  \<^item> \<^verbatim>\<open>Vmm\<close>, \<^verbatim>\<open>Vmm_Tree\<close>, \<^verbatim>\<open>Vmm_Spec\<close>: memory as a map from frame and
    entry index to a 64-bit word, a table pointer as the frame it reaches through the direct map.
    \<^verbatim>\<open>Vmm_Tree\<close> shows that a well-formed address space is a tree of frames and how it
    changes when an entry is written; the locale \<open>address_space\<close> states map, unmap and translate
    as operations on a partial map and is interpreted as \<open>user_space\<close>.
  \<^item> \<^verbatim>\<open>Vfs\<close>, \<^verbatim>\<open>Vfs_Files\<close>, \<^verbatim>\<open>Vfs_Tree\<close>, \<^verbatim>\<open>Vfs_Spec\<close>: the node pool
    with its sibling lists as index links, path lookup, mounts, creation, removal and renaming,
    file contents in the static data pool, directory listing and the texts of \<^verbatim>\<open>/proc\<close>.
    Walks along links carry the number of nodes as fuel; the tree invariant shows that the fuel is
    never used up.
  \<^item> \<^verbatim>\<open>Task\<close>, \<^verbatim>\<open>Task_Spec\<close>: the task record, the areas that a task has reserved
    without mapping them, the heap and the \<^verbatim>\<open>mmap\<close> cursor that the tasks of one address
    space share, the choice of the next task, the switch of the timer interrupt, process groups.
  \<^item> \<^verbatim>\<open>Uaccess\<close>: copying between the kernel and user memory through page tables.
  \<^item> \<^verbatim>\<open>Mmap\<close>, \<^verbatim>\<open>Mmap_Inv\<close>, \<^verbatim>\<open>Mmap_Spec\<close>: \<^verbatim>\<open>mmap\<close>,
    \<^verbatim>\<open>munmap\<close>, \<^verbatim>\<open>mprotect\<close>, \<^verbatim>\<open>mremap\<close>, \<^verbatim>\<open>brk\<close>, the fault that fills a
    reserved page, and the framebuffer mapping of \<^verbatim>\<open>main.rs\<close>.
  \<^item> \<^verbatim>\<open>Fd\<close>, \<^verbatim>\<open>Fd_Refs\<close>, \<^verbatim>\<open>Fd_Spec\<close>: the descriptor tables of the
    processes with the objects that descriptors point to (pipes, terminals, sockets, open offsets,
    input cursors, event and timer descriptors) and every operation that counts references;
    \<open>private_data\<close> is the datatype of what it can point to. \<^verbatim>\<open>Fd_Refs\<close> shows how each
    operation changes the number of descriptors that refer to an object; \<^verbatim>\<open>Fd_Calls\<close> lifts the
    invariant from the tables to the system calls, with the tasks they wake.
  \<^item> \<^verbatim>\<open>Ring\<close>, \<^verbatim>\<open>Pty\<close>: ring buffers and the pure part of a pseudo terminal: output
    translation, echo, canonical and raw reads. The locale \<open>byte_queue\<close> states what a bounded queue of
    bytes promises and is interpreted on the rings (\<open>ring\<close>) and on the output side of a terminal
    (\<open>terminal\<close>).
  \<^item> \<^verbatim>\<open>Wake\<close>, \<^verbatim>\<open>Signal\<close>: how a system call sleeps and which events wake it; signal
    sets, delivery and return. \<open>idle_loop\<close>, the loop of a kernel without a runnable task, may run
    forever and is a partial function; the interrupt handler that runs in it is its argument.
  \<^item> \<^verbatim>\<open>Tty\<close>, \<^verbatim>\<open>Tty_Spec\<close>: the terminal branches of \<^verbatim>\<open>read\<close>, \<^verbatim>\<open>write\<close> and
    \<^verbatim>\<open>ioctl\<close> and the line discipline. Its reference is a line editor over keys, read off the bytes
    of the settings.
  \<^item> \<^verbatim>\<open>Pipe\<close>, \<^verbatim>\<open>Pipe_Spec\<close>: pipes with readers that sleep in them, \<^verbatim>\<open>close\<close>,
    \<^verbatim>\<open>dup2\<close>, \<^verbatim>\<open>dup3\<close>, event and timer descriptors.
  \<^item> \<^verbatim>\<open>Proc\<close>, \<^verbatim>\<open>Proc_Spec\<close>: \<^verbatim>\<open>clone\<close>, \<^verbatim>\<open>fork\<close>, \<^verbatim>\<open>exit\<close>,
    \<^verbatim>\<open>wait4\<close>, faults, futexes, \<^verbatim>\<open>nanosleep\<close>, \<^verbatim>\<open>sched_yield\<close> and the whole timer
    interrupt; the handlers of keyboard and mouse that it calls are an argument. Process numbers are integers
    without a bound: the counter of the C code is an \<^verbatim>\<open>int\<close> that may not overflow.
    \<open>keeps\<close> says that an operation only wakes tasks, and most operations are shown to be of that kind.
  \<^item> \<^verbatim>\<open>Umem\<close>: user memory as a partial function from addresses to bytes. \<open>stored\<close> says that two
    states differ by the bytes of one copy; the copies of system calls and of the loader are shown to be of that kind on
    pages that no other address maps.
  \<^item> \<^verbatim>\<open>Socket\<close>, \<^verbatim>\<open>Socket_Spec\<close>: local sockets: creation, names in the file system,
    listening, connecting and accepting, transfers of bytes and of message vectors with sleeping readers and writers.
  \<^item> \<^verbatim>\<open>Exec\<close>, \<^verbatim>\<open>Exec_Spec\<close>: the ELF loader with its interpreter, the initial
    stack and \<^verbatim>\<open>execve\<close>. The bytes of a file come from a reader that is an argument.
    \<open>image_ok\<close> says that the pages of the address space under construction are private, \<open>image_byte\<close> is
    the reference for its contents.
  \<^item> \<^verbatim>\<open>Fileio\<close>, \<^verbatim>\<open>File_Spec\<close>: reading, writing, seeking and truncating files through
    descriptors, and the dispatch of \<^verbatim>\<open>write\<close> over all kinds of descriptors.
  \<^item> \<^verbatim>\<open>Poll\<close>, \<^verbatim>\<open>Poll_Spec\<close>: \<^verbatim>\<open>poll\<close>, \<^verbatim>\<open>ppoll\<close>, \<^verbatim>\<open>select\<close>,
    \<^verbatim>\<open>pselect6\<close> and \<^verbatim>\<open>epoll\<close>: which descriptors are ready, the watches of an instance, and
    the sleep until a deadline with the execution of the call that follows it. The clocks that a call reads are
    arguments, one value for each time it reads them.

  \<^bold>\<open>Properties.\<close> C1 to C5 and C8: the allocator never hands out a reserved page or a page twice, finds a
  page whenever one is free, counts exactly, releases a page with its last reference, ignores
  wrong releases, and neither reads nor writes behind the ends of its arrays. C6 and C15: loading a program puts exactly the
  image of its file into memory, and its initial stack
  holds arguments, environment and auxiliary vector where the program looks for them. C7, C9 and C20: a futex wakes
  exactly the tasks it should, one task runs in every reachable process table and process numbers are unique, and the
  exit of a child reaches a parent that waits for it, with its status in the wrong address space. C10, C12 to C14 and C16:
  mapping, its round trip with unmapping, the range check and the copy-on-write fault do what they say and touch nothing
  else; protecting a shared page loses the copy-on-write mark. C11 and C31: a connection that was made is accepted in its
  turn, and what one side of it sends the other receives in order. C17 to C19: the file system is a forest in every
  reachable state, a listing is sorted and complete, and what is
  written to a file through a descriptor is read back. C21 to C24: the reserved
  areas refine a map from addresses to protections, the cover test terminates with the right
  answer, the scheduler takes the most urgent task and starves no task of that priority. C25 to C28:
  the gap search is sound and complete, \<^verbatim>\<open>munmap\<close>, anonymous \<^verbatim>\<open>mmap\<close> and
  \<^verbatim>\<open>brk\<close> change exactly the pages they name and keep the ownership of frames, and \<^verbatim>\<open>brk\<close> sets the
  break of every task of the address space. C29: the calls that copy, share and close descriptors, and those that create pipes,
  events, timers and \<^verbatim>\<open>epoll\<close> instances, keep the reference counts exact and the descriptors well typed.
  C30 and C40: the watches of an \<^verbatim>\<open>epoll\<close> instance refine a map, and a \<^verbatim>\<open>poll\<close> with a timeout
  returns at the deadline of its first execution, however often it is executed again. C32: the keyboard queue refines a log of all
  events with a cursor for each reader. C33 to
  C37: terminal output arrives in order and translated, the line discipline refines a line editor over
  keys with the signals it sends, a canonical read returns one line, no task sleeps while its condition holds as long as user copies
  work, a signal handler is entered and left with the registers of the interrupted program except \<^verbatim>\<open>rax\<close>. C38
  and C39: a pipe write appends what fits, and closing one writer ends the sleep of a reader as if the
  file had ended. Unmapping a page, the creation of an address space, the set of visited page tables, the bytes that
  \<^verbatim>\<open>vfs_file_write\<close> stores, the choice of the lowest free descriptor, the events that
  \<^verbatim>\<open>epoll_wait\<close> reports and the end of the wait for an interrupt are
  theorems of the component theories on which these rest or which stand beside them.

  \<^bold>\<open>Not modelled.\<close> Debug output, port I/O, TLB invalidation and interrupt entry have no state in
  the model. The clock, \<^verbatim>\<open>cpuid\<close> and the reader of the boot volume are arguments or fields
  that hold what they return. Of \<^verbatim>\<open>main.c\<close>, the console terminal (but for the test whether it has input), opening files, and
  reading devices are not modelled; \<^verbatim>\<open>exec_build_user_stack\<close> has no caller. The user programs, the C
  library port, the DOOM port and the boot loader are not part of the kernel.
\<close>

end
